(* ===== verification/JsString.thy ===== *)
theory JsString
  imports Prelude
begin

text \<open>
  JavaScript strings as lists of UTF-16 code units, and the two conversions of the standard
  library the code calls: \<open>TextEncoder.encode\<close> (UTF-8, an unpaired surrogate becomes U+FFFD)
  and \<open>TextDecoder.decode\<close> with \<open>fatal: true, ignoreBOM: true\<close> (strict UTF-8). The lemmas show
  that they are inverse to each other on well-formed strings, which the CBOR codec relies on.
\<close>

type_synonym byte = "8 word"
type_synonym code_unit = "16 word"
type_synonym jsstr = "code_unit list"

section \<open>Code units and scalar values\<close>

definition is_high :: "code_unit \<Rightarrow> bool" where
  "is_high u = (0xD800 \<le> unat u \<and> unat u \<le> 0xDBFF)"

definition is_low :: "code_unit \<Rightarrow> bool" where
  "is_low u = (0xDC00 \<le> unat u \<and> unat u \<le> 0xDFFF)"

definition is_surrogate :: "code_unit \<Rightarrow> bool" where
  "is_surrogate u = (0xD800 \<le> unat u \<and> unat u \<le> 0xDFFF)"

definition is_scalar :: "nat \<Rightarrow> bool" where
  "is_scalar cp = (cp < 0x110000 \<and> \<not> (0xD800 \<le> cp \<and> cp \<le> 0xDFFF))"

definition pair_scalar :: "code_unit \<Rightarrow> code_unit \<Rightarrow> nat" where
  "pair_scalar u v = 0x10000 + (unat u - 0xD800) * 0x400 + (unat v - 0xDC00)"

definition unit_scalar :: "code_unit \<Rightarrow> nat" where
  "unit_scalar u = (if is_surrogate u then 0xFFFD else unat u)"

text \<open>The scalar values of a string, an unpaired surrogate read as U+FFFD.\<close>

fun scalars :: "jsstr \<Rightarrow> nat list" where
  "scalars [] = []"
| "scalars [u] = [unit_scalar u]"
| "scalars (u # v # us) =
     (if is_high u \<and> is_low v then pair_scalar u v # scalars us
      else unit_scalar u # scalars (v # us))"

text \<open>A well-formed string has no unpaired surrogate.\<close>

fun well_formed :: "jsstr \<Rightarrow> bool" where
  "well_formed [] = True"
| "well_formed [u] = (\<not> is_surrogate u)"
| "well_formed (u # v # us) =
     (if is_high u \<and> is_low v then well_formed us
      else \<not> is_surrogate u \<and> well_formed (v # us))"

definition scalar_units :: "nat \<Rightarrow> jsstr" where
  "scalar_units cp =
     (if cp < 0x10000 then [of_nat cp]
      else [of_nat (0xD800 + (cp - 0x10000) div 0x400), of_nat (0xDC00 + (cp - 0x10000) mod 0x400)])"

definition units_of :: "nat list \<Rightarrow> jsstr" where
  "units_of cps = concat (map scalar_units cps)"

text \<open>An ASCII literal of the source as code units.\<close>

definition jstr :: "string \<Rightarrow> jsstr" where
  "jstr s = map (\<lambda>c. of_nat (of_char c)) s"

section \<open>UTF-8\<close>

definition utf8_bytes :: "nat \<Rightarrow> byte list" where
  "utf8_bytes cp =
     (if cp < 0x80 then [of_nat cp]
      else if cp < 0x800 then [of_nat (0xC0 + cp div 64), of_nat (0x80 + cp mod 64)]
      else if cp < 0x10000 then
        [of_nat (0xE0 + cp div 4096), of_nat (0x80 + cp div 64 mod 64), of_nat (0x80 + cp mod 64)]
      else
        [of_nat (0xF0 + cp div 262144), of_nat (0x80 + cp div 4096 mod 64),
         of_nat (0x80 + cp div 64 mod 64), of_nat (0x80 + cp mod 64)])"

definition utf8_encode :: "jsstr \<Rightarrow> byte list" where
  "utf8_encode s = concat (map utf8_bytes (scalars s))"

definition is_cont :: "byte \<Rightarrow> bool" where
  "is_cont b = (0x80 \<le> unat b \<and> unat b \<le> 0xBF)"

definition cont_val :: "byte \<Rightarrow> nat" where
  "cont_val b = unat b - 0x80"

text \<open>One strict decoding step: the shortest form only, no surrogate, at most U+10FFFF.\<close>

definition utf8_next :: "byte list \<Rightarrow> (nat \<times> byte list) option" where
  "utf8_next bs =
     (case bs of [] \<Rightarrow> None
      | b # r \<Rightarrow>
        (let n = unat b in
         if n < 0x80 then Some (n, r)
         else if 0xC2 \<le> n \<and> n \<le> 0xDF then
           (case r of c1 # r1 \<Rightarrow>
              if is_cont c1 then Some ((n - 0xC0) * 64 + cont_val c1, r1) else None
            | _ \<Rightarrow> None)
         else if 0xE0 \<le> n \<and> n \<le> 0xEF then
           (case r of c1 # c2 # r2 \<Rightarrow>
              (let cp = (n - 0xE0) * 4096 + cont_val c1 * 64 + cont_val c2 in
               if is_cont c1 \<and> is_cont c2 \<and> 0x800 \<le> cp \<and> is_scalar cp then Some (cp, r2) else None)
            | _ \<Rightarrow> None)
         else if 0xF0 \<le> n \<and> n \<le> 0xF4 then
           (case r of c1 # c2 # c3 # r3 \<Rightarrow>
              (let cp = (n - 0xF0) * 262144 + cont_val c1 * 4096 + cont_val c2 * 64 + cont_val c3 in
               if is_cont c1 \<and> is_cont c2 \<and> is_cont c3 \<and> 0x10000 \<le> cp \<and> is_scalar cp
               then Some (cp, r3) else None)
            | _ \<Rightarrow> None)
         else None))"

lemma utf8_next_shorter: "utf8_next bs = Some (cp, r) \<Longrightarrow> length r < length bs"
  by (auto simp: utf8_next_def Let_def split: list.splits if_splits)

function utf8_scalars :: "byte list \<Rightarrow> nat list option" where
  "utf8_scalars bs =
     (if bs = [] then Some []
      else (case utf8_next bs of
              None \<Rightarrow> None
            | Some (cp, r) \<Rightarrow> map_option (\<lambda>cps. cp # cps) (utf8_scalars r)))"
  by pat_completeness auto
termination
  by (relation "measure length") (auto dest: utf8_next_shorter)

declare utf8_scalars.simps [simp del]

definition utf8_decode :: "byte list \<Rightarrow> jsstr option" where
  "utf8_decode bs = map_option units_of (utf8_scalars bs)"

section \<open>Single scalar values\<close>

lemma unat_byte: "n < 256 \<Longrightarrow> unat (of_nat n :: byte) = n"
  by (simp add: unat_of_nat take_bit_nat_eq_self)

lemma unat_unit: "n < 65536 \<Longrightarrow> unat (of_nat n :: code_unit) = n"
  by (simp add: unat_of_nat take_bit_nat_eq_self)

lemma byte_unat [simp]: "(of_nat (unat b) :: byte) = b"
  by simp

lemma unat_byte_lt: "unat (b :: byte) < 256"
  using unsigned_less [of b] by simp

lemma unat_unit_lt: "unat (u :: code_unit) < 65536"
  using unsigned_less [of u] by simp

lemma byte_eqI: "n = unat b \<Longrightarrow> (of_nat n :: byte) = b"
  by simp

lemma is_scalar_unit: "is_scalar (unit_scalar u)"
  using unat_unit_lt [of u] by (auto simp: is_scalar_def unit_scalar_def is_surrogate_def)

lemma is_scalar_pair: "is_high u \<Longrightarrow> is_low v \<Longrightarrow> is_scalar (pair_scalar u v)"
  by (auto simp: is_scalar_def pair_scalar_def is_high_def is_low_def)

lemma scalars_valid: "cp \<in> set (scalars s) \<Longrightarrow> is_scalar cp"
  by (induction s rule: scalars.induct) (auto simp: is_scalar_unit is_scalar_pair split: if_splits)

text \<open>The decoder on a sequence built from its digits in base 64.\<close>

lemma utf8_next2:
  assumes "2 \<le> a" "a < 32" "b < 64"
  shows "utf8_next (of_nat (0xC0 + a) # of_nat (0x80 + b) # r) = Some (a * 64 + b, r)"
  using assms by (simp add: utf8_next_def unat_byte is_cont_def cont_val_def del: of_nat_add)

lemma utf8_next3:
  assumes "a < 16" "b < 64" "c < 64" and "0x800 \<le> a * 4096 + b * 64 + c" "is_scalar (a * 4096 + b * 64 + c)"
  shows "utf8_next (of_nat (0xE0 + a) # of_nat (0x80 + b) # of_nat (0x80 + c) # r)
           = Some (a * 4096 + b * 64 + c, r)"
  using assms by (simp add: utf8_next_def unat_byte is_cont_def cont_val_def del: of_nat_add)

lemma utf8_next4:
  assumes "a < 5" "b < 64" "c < 64" "d < 64" and "0x10000 \<le> a * 262144 + b * 4096 + c * 64 + d"
    and "is_scalar (a * 262144 + b * 4096 + c * 64 + d)"
  shows "utf8_next (of_nat (0xF0 + a) # of_nat (0x80 + b) # of_nat (0x80 + c) # of_nat (0x80 + d) # r)
           = Some (a * 262144 + b * 4096 + c * 64 + d, r)"
  using assms by (simp add: utf8_next_def unat_byte is_cont_def cont_val_def del: of_nat_add)

lemma base64_digits:
  "(cp::nat) div 64 * 64 + cp mod 64 = cp"
  "cp div 4096 * 4096 + cp div 64 mod 64 * 64 + cp mod 64 = cp"
  "cp div 262144 * 262144 + cp div 4096 mod 64 * 4096 + cp div 64 mod 64 * 64 + cp mod 64 = cp"
proof -
  have e: "cp div 64 div 64 = cp div 4096" "cp div 4096 div 64 = cp div 262144"
    by (simp_all add: div_mult2_eq [symmetric])
  show 1: "cp div 64 * 64 + cp mod 64 = cp" by (rule div_mult_mod_eq)
  show 2: "cp div 4096 * 4096 + cp div 64 mod 64 * 64 + cp mod 64 = cp"
    using 1 div_mult_mod_eq [of "cp div 64" 64] e by linarith
  show "cp div 262144 * 262144 + cp div 4096 mod 64 * 4096 + cp div 64 mod 64 * 64 + cp mod 64 = cp"
    using 2 div_mult_mod_eq [of "cp div 4096" 64] e by linarith
qed

lemma utf8_next_bytes:
  assumes "is_scalar cp"
  shows "utf8_next (utf8_bytes cp @ r) = Some (cp, r)"
proof -
  have lt: "cp < 1114112" using assms by (simp add: is_scalar_def)
  note digits = base64_digits [of cp]
  consider "cp < 128" | "128 \<le> cp" "cp < 2048" | "2048 \<le> cp" "cp < 65536" | "65536 \<le> cp" by linarith
  then show ?thesis
  proof cases
    case 1 then show ?thesis by (simp add: utf8_bytes_def utf8_next_def unat_byte)
  next
    case 2
    then have "2 \<le> cp div 64" "cp div 64 < 32" by linarith+
    from utf8_next2 [OF this, of "cp mod 64" r] digits(1)
    have "utf8_next ([of_nat (0xC0 + cp div 64), of_nat (0x80 + cp mod 64)] @ r) = Some (cp, r)"
      by (simp del: of_nat_add)
    moreover have "utf8_bytes cp = [of_nat (0xC0 + cp div 64), of_nat (0x80 + cp mod 64)]"
      using 2 by (simp add: utf8_bytes_def del: of_nat_add)
    ultimately show ?thesis by (simp only:)
  next
    case 3
    then have "cp div 4096 < 16" by linarith
    with 3 utf8_next3 [of "cp div 4096" "cp div 64 mod 64" "cp mod 64" r] digits assms show ?thesis
      by (simp add: utf8_bytes_def del: of_nat_add)
  next
    case 4
    have "cp div 262144 < 5" using lt by linarith
    with 4 utf8_next4 [of "cp div 262144" "cp div 4096 mod 64" "cp div 64 mod 64" "cp mod 64" r] digits assms
    show ?thesis by (simp add: utf8_bytes_def del: of_nat_add)
  qed
qed

text \<open>Conversely a decoded scalar value has exactly the bytes that were read.\<close>

lemma digits_div:
  assumes "(b::nat) < 64"
  shows "(a * 64 + b) div 64 = a" "(a * 64 + b) mod 64 = b"
  using assms by simp_all

lemma utf8_bytes2:
  assumes "2 \<le> a" "a < 32" "b < 64"
  shows "utf8_bytes (a * 64 + b) = [of_nat (0xC0 + a), of_nat (0x80 + b)]"
proof -
  have "\<not> a * 64 + b < 128" "a * 64 + b < 2048" using assms by linarith+
  then show ?thesis using digits_div [OF assms(3), of a] by (simp add: utf8_bytes_def del: of_nat_add)
qed

lemma utf8_bytes3:
  assumes "a < 16" "b < 64" "c < 64" "0x800 \<le> a * 4096 + b * 64 + c"
  shows "utf8_bytes (a * 4096 + b * 64 + c) = [of_nat (0xE0 + a), of_nat (0x80 + b), of_nat (0x80 + c)]"
proof -
  let ?x = "a * 4096 + b * 64 + c"
  have x: "?x = (a * 64 + b) * 64 + c" by simp
  have "?x div 64 = a * 64 + b" "?x mod 64 = c" unfolding x by (rule digits_div [OF assms(3)])+
  moreover have "?x div 4096 = ?x div 64 div 64" by (simp add: div_mult2_eq [symmetric])
  ultimately have "?x div 4096 = a" "?x div 64 mod 64 = b" "?x mod 64 = c"
    using digits_div [OF assms(2), of a] by simp_all
  moreover have "\<not> ?x < 2048" "\<not> ?x < 128" "?x < 65536" using assms by linarith+
  ultimately show ?thesis by (simp add: utf8_bytes_def del: of_nat_add)
qed

lemma utf8_bytes4:
  assumes "b < 64" "c < 64" "d < 64" "0x10000 \<le> a * 262144 + b * 4096 + c * 64 + d"
  shows "utf8_bytes (a * 262144 + b * 4096 + c * 64 + d) =
    [of_nat (0xF0 + a), of_nat (0x80 + b), of_nat (0x80 + c), of_nat (0x80 + d)]"
proof -
  let ?x = "a * 262144 + b * 4096 + c * 64 + d"
  have x: "?x = ((a * 64 + b) * 64 + c) * 64 + d" by simp
  have 1: "?x div 64 = (a * 64 + b) * 64 + c" "?x mod 64 = d"
    unfolding x by (rule digits_div [OF assms(3)])+
  have "?x div 4096 = ?x div 64 div 64" by (simp add: div_mult2_eq [symmetric])
  with 1 digits_div [OF assms(2), of "a * 64 + b"] have 2: "?x div 4096 = a * 64 + b" "?x div 64 mod 64 = c" by simp_all
  have "?x div 262144 = ?x div 4096 div 64" by (simp add: div_mult2_eq [symmetric])
  with 2 digits_div [OF assms(1), of a] have 3: "?x div 262144 = a" "?x div 4096 mod 64 = b" by simp_all
  have "\<not> ?x < 65536" "\<not> ?x < 2048" "\<not> ?x < 128" using assms by linarith+
  with 1 2 3 show ?thesis by (simp add: utf8_bytes_def del: of_nat_add)
qed

lemma lead_digit: "k \<le> unat b \<Longrightarrow> (of_nat (k + (unat b - k)) :: byte) = b"
  by simp

lemma cont_digit: "is_cont b \<Longrightarrow> cont_val b < 64 \<and> (of_nat (0x80 + cont_val b) :: byte) = b"
  by (auto simp: is_cont_def cont_val_def simp del: of_nat_add)

lemma utf8_next_Some:
  assumes "utf8_next bs = Some (cp, r)"
  shows "is_scalar cp \<and> bs = utf8_bytes cp @ r"
proof -
  from assms obtain b s where bs: "bs = b # s" by (cases bs) (auto simp: utf8_next_def)
  define n where "n = unat b"
  have n: "n < 256" by (simp add: n_def unat_byte_lt)
  consider "n < 0x80" | "0xC2 \<le> n" "n \<le> 0xDF" | "0xE0 \<le> n" "n \<le> 0xEF" | "0xF0 \<le> n" "n \<le> 0xF4"
    using assms by (auto simp: bs utf8_next_def Let_def n_def split: if_splits)
  then show ?thesis
  proof cases
    case 1 then show ?thesis
      using assms by (auto simp: bs utf8_next_def n_def utf8_bytes_def is_scalar_def)
  next
    case 2
    with assms obtain c where s: "s = c # r" and c: "is_cont c" and cp: "cp = (n - 0xC0) * 64 + cont_val c"
      by (auto simp: bs utf8_next_def n_def split: list.splits if_splits)
    have "utf8_bytes cp = [b, c]"
      using 2 cont_digit [OF c] utf8_bytes2 [of "n - 0xC0" "cont_val c"] lead_digit [of "0xC0" b]
      by (simp add: cp n_def del: of_nat_add)
    moreover have "cp < 2048" using 2 cont_digit [OF c] unfolding cp by linarith
    ultimately show ?thesis by (simp add: bs s is_scalar_def)
  next
    case 3
    with assms obtain c d where s: "s = c # d # r" and c: "is_cont c" and d: "is_cont d"
      and cp: "cp = (n - 0xE0) * 4096 + cont_val c * 64 + cont_val d" "0x800 \<le> cp" "is_scalar cp"
      by (auto simp: bs utf8_next_def n_def Let_def split: list.splits if_splits)
    have "utf8_bytes cp = [b, c, d]"
      using 3 cp(2) cont_digit [OF c] cont_digit [OF d] lead_digit [of "0xE0" b]
        utf8_bytes3 [of "n - 0xE0" "cont_val c" "cont_val d"]
      by (simp add: cp(1) n_def del: of_nat_add)
    with cp show ?thesis by (simp add: bs s)
  next
    case 4
    with assms obtain c d e where s: "s = c # d # e # r" and c: "is_cont c" and d: "is_cont d" and e: "is_cont e"
      and cp: "cp = (n - 0xF0) * 262144 + cont_val c * 4096 + cont_val d * 64 + cont_val e"
        "0x10000 \<le> cp" "is_scalar cp"
      by (auto simp: bs utf8_next_def n_def Let_def split: list.splits if_splits)
    have "utf8_bytes cp = [b, c, d, e]"
      using 4 cp(2) cont_digit [OF c] cont_digit [OF d] cont_digit [OF e] lead_digit [of "0xF0" b]
        utf8_bytes4 [of "cont_val c" "cont_val d" "cont_val e" "n - 0xF0"]
      by (simp add: cp(1) n_def del: of_nat_add)
    with cp show ?thesis by (simp add: bs s)
  qed
qed

section \<open>Whole strings\<close>

lemma utf8_bytes_nonempty [simp]: "utf8_bytes cp \<noteq> []"
  by (simp add: utf8_bytes_def)

lemma utf8_scalars_Nil [simp]: "utf8_scalars [] = Some []"
  by (simp add: utf8_scalars.simps [of "[]"])

lemma utf8_scalars_bytes:
  assumes "is_scalar cp"
  shows "utf8_scalars (utf8_bytes cp @ bs) = map_option (\<lambda>cps. cp # cps) (utf8_scalars bs)"
  using utf8_next_bytes [OF assms, of bs] by (simp add: utf8_scalars.simps [of "utf8_bytes cp @ bs"])

lemma utf8_scalars_concat:
  "(\<And>cp. cp \<in> set cps \<Longrightarrow> is_scalar cp) \<Longrightarrow> utf8_scalars (concat (map utf8_bytes cps)) = Some cps"
  by (induction cps) (auto simp: utf8_scalars_bytes)

lemma utf8_scalars_Some:
  "utf8_scalars bs = Some cps \<Longrightarrow> (\<forall>cp \<in> set cps. is_scalar cp) \<and> concat (map utf8_bytes cps) = bs"
proof (induction bs arbitrary: cps rule: utf8_scalars.induct)
  case (1 bs)
  show ?case
  proof (cases "bs = []")
    case True then show ?thesis using "1.prems" by simp
  next
    case False
    with "1.prems" obtain cp r cps' where step: "utf8_next bs = Some (cp, r)"
      and rest: "utf8_scalars r = Some cps'" and cps: "cps = cp # cps'"
      by (auto simp: utf8_scalars.simps [of bs] split: option.splits)
    from "1.IH" [OF False step refl rest] utf8_next_Some [OF step] show ?thesis by (simp add: cps)
  qed
qed

lemma high_not_low: "is_high u \<Longrightarrow> \<not> is_low u"
  by (auto simp: is_high_def is_low_def)

lemma surrogate_cases: "is_surrogate u \<longleftrightarrow> is_high u \<or> is_low u"
  by (auto simp: is_surrogate_def is_high_def is_low_def)

lemma pair_units: "is_high u \<Longrightarrow> is_low v \<Longrightarrow> scalar_units (pair_scalar u v) = [u, v]"
proof -
  assume u: "is_high u" and v: "is_low v"
  define a where "a = unat u - 0xD800"
  define b where "b = unat v - 0xDC00"
  have ab: "unat u = 0xD800 + a" "a < 0x400" "unat v = 0xDC00 + b" "b < 0x400"
    using u v by (auto simp: a_def b_def is_high_def is_low_def)
  have "pair_scalar u v = 0x10000 + (a * 0x400 + b)" using ab by (simp add: pair_scalar_def)
  moreover have "(a * 0x400 + b) div 0x400 = a" "(a * 0x400 + b) mod 0x400 = b" using ab by simp_all
  ultimately have "scalar_units (pair_scalar u v) = [of_nat (0xD800 + a), of_nat (0xDC00 + b)]"
    by (simp add: scalar_units_def del: of_nat_add)
  also have "\<dots> = [of_nat (unat u), of_nat (unat v)]" by (simp only: ab)
  finally show ?thesis by simp
qed

lemma single_units: "\<not> is_surrogate u \<Longrightarrow> scalar_units (unit_scalar u) = [u]"
  using unat_unit_lt [of u] by (simp add: scalar_units_def unit_scalar_def)

lemma units_of_simps [simp]: "units_of [] = []" "units_of (cp # cps) = scalar_units cp @ units_of cps"
  by (simp_all add: units_of_def)

lemma units_of_scalars: "well_formed s \<Longrightarrow> units_of (scalars s) = s"
  by (induction s rule: well_formed.induct) (auto simp: pair_units single_units split: if_splits)

lemma scalars_single: "\<not> is_surrogate u \<Longrightarrow> scalars (u # us) = unat u # scalars us"
  by (cases us) (auto simp: unit_scalar_def surrogate_cases)

lemma well_formed_single: "\<not> is_surrogate u \<Longrightarrow> well_formed (u # us) = well_formed us"
  by (cases us) (auto simp: surrogate_cases)

lemma scalar_units_cases:
  assumes "is_scalar cp"
  obtains u where "scalar_units cp = [u]" "\<not> is_surrogate u" "unat u = cp"
  | u v where "scalar_units cp = [u, v]" "is_high u" "is_low v" "pair_scalar u v = cp"
proof (cases "cp < 0x10000")
  case True
  then have "unat (of_nat cp :: code_unit) = cp" by (simp add: unat_unit)
  with True assms that(1) [of "of_nat cp"] show ?thesis
    by (simp add: scalar_units_def is_surrogate_def is_scalar_def)
next
  case False
  define x where "x = cp - 0x10000"
  define a where "a = x div 0x400"
  define b where "b = x mod 0x400"
  have x: "x < 0x100000" "cp = 0x10000 + x" using False assms by (auto simp: x_def is_scalar_def)
  have ab: "a < 0x400" "b < 0x400" "a * 0x400 + b = x"
    using x(1) div_mult_mod_eq [of x "0x400"] by (auto simp: a_def b_def)
  define u :: code_unit where "u = of_nat (0xD800 + a)"
  define v :: code_unit where "v = of_nat (0xDC00 + b)"
  have uv: "unat u = 0xD800 + a" "unat v = 0xDC00 + b"
    using ab by (auto simp: u_def v_def unat_unit simp del: of_nat_add)
  have "scalar_units cp = [u, v]"
    using False by (simp add: scalar_units_def u_def v_def a_def b_def x_def del: of_nat_add)
  moreover have "is_high u" "is_low v" using uv ab by (simp_all add: is_high_def is_low_def)
  moreover have "pair_scalar u v = cp" using uv ab x by (simp add: pair_scalar_def)
  ultimately show ?thesis by (rule that(2))
qed

lemma scalars_units_of:
  "\<forall>cp \<in> set cps. is_scalar cp \<Longrightarrow> scalars (units_of cps) = cps \<and> well_formed (units_of cps)"
proof (induction cps)
  case (Cons cp cps)
  then have "is_scalar cp" by simp
  then show ?case
    by (rule scalar_units_cases) (use Cons in \<open>auto simp: scalars_single well_formed_single\<close>)
qed simp

theorem utf8_decode_encode: "well_formed s \<Longrightarrow> utf8_decode (utf8_encode s) = Some s"
  by (simp add: utf8_decode_def utf8_encode_def utf8_scalars_concat [OF scalars_valid] units_of_scalars)

theorem utf8_encode_decode:
  assumes "utf8_decode bs = Some s"
  shows "utf8_encode s = bs \<and> well_formed s"
proof -
  from assms obtain cps where cps: "utf8_scalars bs = Some cps" "s = units_of cps"
    by (auto simp: utf8_decode_def)
  from utf8_scalars_Some [OF cps(1)] scalars_units_of [of cps] show ?thesis
    by (auto simp: utf8_encode_def cps(2))
qed

text \<open>Decoding what was encoded always succeeds; it is the same string only if that was well-formed.\<close>

lemma utf8_decode_encode_iff: "utf8_decode (utf8_encode s) = Some s \<longleftrightarrow> well_formed s"
  using utf8_decode_encode utf8_encode_decode by blast

lemma utf8_encode_inject:
  "well_formed s \<Longrightarrow> well_formed t \<Longrightarrow> utf8_encode s = utf8_encode t \<Longrightarrow> s = t"
  by (metis utf8_decode_encode option.inject)

section \<open>Lengths\<close>

lemma length_utf8_bytes:
  "length (utf8_bytes cp) = (if cp < 0x80 then 1 else if cp < 0x800 then 2 else if cp < 0x10000 then 3 else 4)"
  by (simp add: utf8_bytes_def)

lemma length_utf8_encode_Nil [simp]: "utf8_encode [] = []"
  by (simp add: utf8_encode_def)

lemma length_utf8_encode_le: "length s \<le> length (utf8_encode s)"
  by (induction s rule: scalars.induct)
    (auto simp: utf8_encode_def length_utf8_bytes pair_scalar_def)

end
