(* ===== verification/JsNumber.thy ===== *)
theory JsNumber
  imports JsString
begin

text \<open>
  JavaScript numbers are IEEE 754 doubles. A number is its 64-bit pattern: sign, 11 exponent
  bits, 52 mantissa bits. The theory reads off what the code asks of a number
  (\<open>Number.isFinite\<close>, \<open>Number.isInteger\<close>, \<open>Number.isSafeInteger\<close>, \<open>Object.is(v, -0)\<close>),
  converts between safe integers and patterns, and has the big-endian byte views of
  \<open>DataView\<close>. The lemmas are the two inversions of these conversions.
\<close>

type_synonym jsnum = "64 word"

section \<open>The fields of a double\<close>

definition num_sign :: "jsnum \<Rightarrow> nat" where
  "num_sign d = unat d div 2 ^ 63"

definition num_exp :: "jsnum \<Rightarrow> nat" where
  "num_exp d = unat d div 2 ^ 52 mod 2048"

definition num_mant :: "jsnum \<Rightarrow> nat" where
  "num_mant d = unat d mod 2 ^ 52"

definition mk_num :: "nat \<Rightarrow> nat \<Rightarrow> nat \<Rightarrow> jsnum" where
  "mk_num s e m = of_nat (s * 2 ^ 63 + e * 2 ^ 52 + m)"

definition num_finite :: "jsnum \<Rightarrow> bool" where
  "num_finite d = (num_exp d < 2047)"

definition num_negzero :: "jsnum \<Rightarrow> bool" where
  "num_negzero d = (d = mk_num 1 0 0)"

definition num_is_integer :: "jsnum \<Rightarrow> bool" where
  "num_is_integer d =
     (num_finite d \<and>
      (if num_exp d = 0 then num_mant d = 0
       else 1075 \<le> num_exp d
         \<or> 1023 \<le> num_exp d \<and> 2 ^ (1075 - num_exp d) dvd (2 ^ 52 + num_mant d)))"

text \<open>The magnitude of an integral double.\<close>

definition num_magnitude :: "jsnum \<Rightarrow> nat" where
  "num_magnitude d =
     (if num_exp d = 0 then 0
      else if 1075 \<le> num_exp d then (2 ^ 52 + num_mant d) * 2 ^ (num_exp d - 1075)
      else (2 ^ 52 + num_mant d) div 2 ^ (1075 - num_exp d))"

definition num_int :: "jsnum \<Rightarrow> int" where
  "num_int d = (if num_sign d = 1 then - int (num_magnitude d) else int (num_magnitude d))"

definition max_safe :: nat where
  "max_safe = 2 ^ 53 - 1"

definition num_is_safe :: "jsnum \<Rightarrow> bool" where
  "num_is_safe d = (num_is_integer d \<and> num_magnitude d \<le> max_safe)"

fun log2 :: "nat \<Rightarrow> nat" where
  "log2 n = (if n < 2 then 0 else Suc (log2 (n div 2)))"

declare log2.simps [simp del]

text \<open>The double of a safe integer.\<close>

definition int_num :: "int \<Rightarrow> jsnum" where
  "int_num i =
     (if i = 0 then 0
      else let n = nat \<bar>i\<bar>; k = log2 n
           in mk_num (if i < 0 then 1 else 0) (1023 + k) (n * 2 ^ (52 - k) - 2 ^ 52))"

section \<open>Packing and unpacking\<close>

lemma unat_num_lt: "unat (d :: jsnum) < 2 ^ 64"
  using unsigned_less [of d] by simp

lemma unat_num: "n < 2 ^ 64 \<Longrightarrow> unat (of_nat n :: jsnum) = n"
  by (simp add: unat_of_nat take_bit_nat_eq_self)

lemma num_sign_lt: "num_sign d < 2"
  using unat_num_lt [of d] by (simp add: num_sign_def less_mult_imp_div_less)

lemma num_mant_lt: "num_mant d < 2 ^ 52"
  by (simp add: num_mant_def)

lemma num_exp_lt: "num_exp d < 2048"
  by (simp add: num_exp_def)

lemma unat_mk_num:
  assumes "s < 2" "e < 2048" "m < 2 ^ 52"
  shows "unat (mk_num s e m) = s * 2 ^ 63 + e * 2 ^ 52 + m"
proof -
  have "s * 2 ^ 63 + e * 2 ^ 52 + m < 2 ^ 64" using assms by simp
  then show ?thesis unfolding mk_num_def by (rule unat_num)
qed

lemma base_digits:
  assumes "(b::nat) < k"
  shows "(a * k + b) div k = a" "(a * k + b) mod k = b"
  using assms by simp_all

lemma fields_mk_num:
  assumes "s < 2" "e < 2048" "m < 2 ^ 52"
  shows "num_sign (mk_num s e m) = s" "num_exp (mk_num s e m) = e" "num_mant (mk_num s e m) = m"
proof -
  let ?n = "s * 2 ^ 63 + e * 2 ^ 52 + m"
  have n: "?n = (s * 2048 + e) * 2 ^ 52 + m" by simp
  have q: "?n div 2 ^ 52 = s * 2048 + e" and r: "?n mod 2 ^ 52 = m"
    unfolding n by (rule base_digits [OF assms(3)])+
  have "?n div 2 ^ 63 = ?n div 2 ^ 52 div 2048" by (simp add: div_mult2_eq [symmetric])
  also have "\<dots> = s" unfolding q using assms(2) by simp
  finally show "num_sign (mk_num s e m) = s" by (simp add: num_sign_def unat_mk_num [OF assms])
  show "num_exp (mk_num s e m) = e"
    unfolding num_exp_def unat_mk_num [OF assms] q using assms(2) by simp
  show "num_mant (mk_num s e m) = m"
    unfolding num_mant_def unat_mk_num [OF assms] by (rule r)
qed

lemma mk_num_fields: "mk_num (num_sign d) (num_exp d) (num_mant d) = d"
proof -
  have "unat d div 2 ^ 63 = unat d div 2 ^ 52 div 2048" by (simp add: div_mult2_eq [symmetric])
  then have "num_sign d * 2048 + num_exp d = unat d div 2 ^ 52"
    by (simp add: num_sign_def num_exp_def)
  then have "(num_sign d * 2048 + num_exp d) * 2 ^ 52 + num_mant d = unat d"
    unfolding num_mant_def by (simp only: div_mult_mod_eq)
  then have "num_sign d * 2 ^ 63 + num_exp d * 2 ^ 52 + num_mant d = unat d" by simp
  then show ?thesis unfolding mk_num_def by simp
qed

lemma log2_eq: "2 ^ k \<le> n \<Longrightarrow> n < 2 ^ Suc k \<Longrightarrow> log2 n = k"
proof (induction k arbitrary: n)
  case 0 then show ?case by (simp add: log2.simps)
next
  case (Suc k)
  then have "2 ^ k \<le> n div 2" "n div 2 < 2 ^ Suc k" by auto
  with Suc.IH have "log2 (n div 2) = k" by blast
  moreover have "\<not> n < 2"
  proof -
    have "1 \<le> (2::nat) ^ k" by simp
    with Suc.prems(1) show ?thesis unfolding power_Suc by linarith
  qed
  ultimately show ?case by (simp add: log2.simps [of n])
qed

lemma log2_bounds: "0 < n \<Longrightarrow> 2 ^ log2 n \<le> n \<and> n < 2 ^ Suc (log2 n)"
proof (induction n rule: log2.induct)
  case (1 n)
  show ?case
  proof (cases "n < 2")
    case True then show ?thesis using 1 by (simp add: log2.simps [of n])
  next
    case False
    with "1.IH" have "2 ^ log2 (n div 2) \<le> n div 2 \<and> n div 2 < 2 ^ Suc (log2 (n div 2))" by simp
    with False show ?thesis by (auto simp: log2.simps [of n])
  qed
qed

section \<open>Safe integers and their doubles\<close>

lemma int_num_fields:
  assumes "i \<noteq> 0" "nat \<bar>i\<bar> \<le> max_safe"
  defines "k \<equiv> log2 (nat \<bar>i\<bar>)"
  shows "k \<le> 52" "num_sign (int_num i) = (if i < 0 then 1 else 0)" "num_exp (int_num i) = 1023 + k"
    "2 ^ 52 + num_mant (int_num i) = nat \<bar>i\<bar> * 2 ^ (52 - k)"
proof -
  let ?n = "nat \<bar>i\<bar>"
  have n: "0 < ?n" "?n < 2 ^ 53" using assms(1,2) by (auto simp: max_safe_def)
  note b = log2_bounds [OF n(1), folded k_def]
  have "2 ^ k < (2::nat) ^ 53" using b n(2) by linarith
  then have "k < 53" by (rule power_less_imp_less_exp [rotated]) simp
  then show k: "k \<le> 52" by simp
  have "?n * 2 ^ (52 - k) < 2 ^ Suc k * 2 ^ (52 - k)" using b by simp
  also have "\<dots> = 2 ^ 53" using k by (simp add: power_add [symmetric])
  finally have hi: "?n * 2 ^ (52 - k) < 2 ^ 53" .
  have "2 ^ k * 2 ^ (52 - k) \<le> ?n * 2 ^ (52 - k)" using b by simp
  then have lo: "2 ^ 52 \<le> ?n * 2 ^ (52 - k)" using k by (simp add: power_add [symmetric])
  have m: "?n * 2 ^ (52 - k) - 2 ^ 52 < 2 ^ 52"
  proof -
    have "(2::nat) ^ 53 = 2 ^ 52 + 2 ^ 52" by simp
    with hi lo show ?thesis by linarith
  qed
  have eq: "int_num i = mk_num (if i < 0 then 1 else 0) (1023 + k) (?n * 2 ^ (52 - k) - 2 ^ 52)"
    using assms(1) by (simp add: int_num_def Let_def k_def)
  have s: "(if i < 0 then 1 else 0) < (2::nat)" and e: "1023 + k < 2048" using k by auto
  note f = fields_mk_num [OF s e m, folded eq]
  show "num_sign (int_num i) = (if i < 0 then 1 else 0)" "num_exp (int_num i) = 1023 + k"
    "2 ^ 52 + num_mant (int_num i) = ?n * 2 ^ (52 - k)"
    using f lo by simp_all
qed

lemma num_zero [simp]:
  "num_exp 0 = 0" "num_mant 0 = 0" "num_sign 0 = 0"
  by (simp_all add: num_exp_def num_mant_def num_sign_def)

lemma int_num_safe:
  assumes "nat \<bar>i\<bar> \<le> max_safe"
  shows "num_magnitude (int_num i) = nat \<bar>i\<bar>" "num_is_safe (int_num i)"
    "num_int (int_num i) = i" "num_finite (int_num i)" "\<not> num_negzero (int_num i)"
proof -
  have nz: "\<not> num_negzero (0 :: jsnum)"
    using fields_mk_num(1) [of 1 0 0] num_zero(3) by (auto simp: num_negzero_def)
  have *: "num_magnitude (int_num i) = nat \<bar>i\<bar> \<and> num_is_integer (int_num i) \<and> num_int (int_num i) = i
    \<and> num_finite (int_num i) \<and> \<not> num_negzero (int_num i)"
  proof (cases "i = 0")
    case True
    then show ?thesis
      using nz by (simp add: int_num_def num_magnitude_def num_is_integer_def num_int_def num_finite_def)
  next
    case False
    define k where "k = log2 (nat \<bar>i\<bar>)"
    note f = int_num_fields [OF False assms, folded k_def]
    have t: "1075 - (1023 + k) = 52 - k" using f(1) by simp
    have mag: "num_magnitude (int_num i) = nat \<bar>i\<bar>"
    proof (cases "k = 52")
      case True then show ?thesis using f by (simp add: num_magnitude_def)
    next
      case False
      then have "\<not> 1075 \<le> num_exp (int_num i)" using f by simp
      then show ?thesis
        using f t by (simp add: num_magnitude_def del: of_nat_add)
    qed
    have fin: "num_finite (int_num i)" using f by (simp add: num_finite_def)
    have "num_is_integer (int_num i)"
      using f t fin by (simp add: num_is_integer_def)
    moreover have "num_int (int_num i) = i" using mag f(2) by (simp add: num_int_def)
    moreover have "\<not> num_negzero (int_num i)"
      using f(3) fields_mk_num(2) [of 1 0 0] by (auto simp: num_negzero_def)
    ultimately show ?thesis using mag fin by simp
  qed
  then show "num_magnitude (int_num i) = nat \<bar>i\<bar>" "num_int (int_num i) = i" "num_finite (int_num i)"
    "\<not> num_negzero (int_num i)" by simp_all
  from * assms show "num_is_safe (int_num i)" by (simp add: num_is_safe_def)
qed

lemma safe_normal_form:
  assumes safe: "num_is_safe d" and nz: "num_exp d \<noteq> 0"
  shows "num_exp d = 1023 + log2 (num_magnitude d)"
    "2 ^ 52 + num_mant d = num_magnitude d * 2 ^ (52 - log2 (num_magnitude d))"
    "0 < num_magnitude d"
proof -
  let ?M = "2 ^ 52 + num_mant d"
  let ?e = "num_exp d"
  have M: "2 ^ 52 \<le> ?M" "?M < 2 ^ 53" using num_mant_lt [of d] by simp_all
  have mag: "num_magnitude d < 2 ^ 53" using safe by (simp add: num_is_safe_def max_safe_def)
  have e: "1023 \<le> ?e" using safe nz by (auto simp: num_is_safe_def num_is_integer_def split: if_splits)
  have main: "?e \<le> 1075 \<and> num_magnitude d * 2 ^ (1075 - ?e) = ?M"
  proof (cases "1075 \<le> ?e")
    case True
    have "?e = 1075"
    proof (rule ccontr)
      assume "?e \<noteq> 1075"
      with True obtain j where j: "?e - 1075 = Suc j" by (cases "?e - 1075") auto
      have "2 ^ 52 * 2 \<le> ?M * 2 ^ (?e - 1075)"
        using M(1) one_le_power [of "2::nat" j] unfolding j by (intro mult_le_mono) auto
      moreover have "num_magnitude d = ?M * 2 ^ (?e - 1075)" using True nz by (simp add: num_magnitude_def)
      ultimately show False using mag by simp
    qed
    then show ?thesis by (simp add: num_magnitude_def)
  next
    case False
    then have dvd: "2 ^ (1075 - ?e) dvd ?M"
      using safe nz by (simp add: num_is_safe_def num_is_integer_def)
    with False nz show ?thesis by (simp add: num_magnitude_def)
  qed
  define t where "t = 1075 - ?e"
  have t: "t \<le> 52" "?e = 1075 - t" using e main by (auto simp: t_def)
  have q: "num_magnitude d * 2 ^ t = ?M" using main by (simp add: t_def)
  have lo: "2 ^ (52 - t) \<le> num_magnitude d"
  proof (rule mult_right_le_imp_le [of _ "2 ^ t"])
    show "2 ^ (52 - t) * 2 ^ t \<le> num_magnitude d * 2 ^ t"
      using M(1) t(1) unfolding q by (simp add: power_add [symmetric])
  qed simp
  have hi: "num_magnitude d < 2 ^ Suc (52 - t)"
  proof (rule mult_right_less_imp_less [of _ "2 ^ t"])
    have "Suc (52 - t) + t = 53" using t(1) by simp
    then show "num_magnitude d * 2 ^ t < 2 ^ Suc (52 - t) * 2 ^ t"
      using M(2) unfolding q by (simp only: power_add [symmetric])
  qed simp
  have l: "log2 (num_magnitude d) = 52 - t" using lo hi by (rule log2_eq)
  show "?e = 1023 + log2 (num_magnitude d)" using t l by simp
  have "52 - (52 - t) = t" using t(1) by simp
  then show "?M = num_magnitude d * 2 ^ (52 - log2 (num_magnitude d))" by (simp only: l q)
  show "0 < num_magnitude d" using lo zero_less_power [of "2::nat" "52 - t"] by linarith
qed

theorem int_num_of_safe:
  assumes safe: "num_is_safe d" and nz: "\<not> num_negzero d"
  shows "int_num (num_int d) = d"
proof (cases "num_exp d = 0")
  case True
  with safe have m: "num_mant d = 0" by (simp add: num_is_safe_def num_is_integer_def)
  have "num_sign d = 0"
  proof (rule ccontr)
    assume "num_sign d \<noteq> 0"
    then have "num_sign d = 1" using num_sign_lt [of d] by simp
    with mk_num_fields [of d] True m nz show False by (simp add: num_negzero_def)
  qed
  then have "d = 0" using mk_num_fields [of d] True m by (simp add: mk_num_def)
  then show ?thesis by (simp add: num_int_def num_magnitude_def int_num_def)
next
  case False
  note f = safe_normal_form [OF safe False]
  have s: "num_sign d = 0 \<or> num_sign d = 1" using num_sign_lt [of d] by linarith
  have abs: "nat \<bar>num_int d\<bar> = num_magnitude d" by (simp add: num_int_def)
  have "num_int d \<noteq> 0" using f(3) by (simp add: num_int_def)
  moreover have "(if num_int d < 0 then 1 else 0) = num_sign d" using s f(3) by (auto simp: num_int_def)
  moreover have "num_magnitude d * 2 ^ (52 - log2 (num_magnitude d)) - 2 ^ 52 = num_mant d"
    using f(2) by linarith
  ultimately have "int_num (num_int d) = mk_num (num_sign d) (num_exp d) (num_mant d)"
    using f(1) by (simp add: int_num_def abs Let_def)
  then show ?thesis by (simp only: mk_num_fields)
qed

end
