(* ===== verification/CborWriter.thy ===== *)
theory CborWriter
  imports JsNumber "HOL-Library.While_Combinator"
begin

text \<open>
  The options of the CBOR codec (\<open>packages/protocol/src/cbor/options.ts\<close>) and the growing output
  buffer of its encoder (\<open>class CborWriter\<close> in \<open>encoder.ts\<close>). The lemmas show that a write appends
  exactly its bytes to the written prefix or fails because of the byte limit, whatever the
  capacity, and that the loop that grows the buffer ends.
\<close>

datatype cbor_error =
    RangeError | ByteLengthLimit | TextLengthLimit | InvalidText | DepthLimit | NonFinite
  | UnsafeInteger | BytesLengthLimit | Cycle | ArrayLengthLimit | HoleOrUndefined | MapKeyNotString
  | MapLengthLimit | UnsupportedValue
  | TrailingData | InvalidUtf8 | DuplicateKey | TagUnsupported | BadMajorType | BreakUnsupported
  | SimpleUnsupported | IndefiniteLength | DecodedLengthLimit | BadAdditionalInfo | Truncated

section \<open>Options\<close>

record cbor_options =
  maxByteLength :: nat
  maxContainerLength :: nat
  maxDepth :: nat

record cbor_option_args =
  arg_maxByteLength :: "jsnum option"
  arg_maxContainerLength :: "jsnum option"
  arg_maxDepth :: "jsnum option"

definition MAX_UINT32 :: nat where "MAX_UINT32 = 0xffffffff"
definition UINT32_BASE :: nat where "UINT32_BASE = 0x100000000"
definition MAX_CONFIGURED_DEPTH :: nat where "MAX_CONFIGURED_DEPTH = 512"
definition DEFAULT_MAX_CBOR_BYTE_LENGTH :: nat where "DEFAULT_MAX_CBOR_BYTE_LENGTH = 16 * 1024 * 1024"
definition DEFAULT_MAX_CBOR_CONTAINER_LENGTH :: nat where "DEFAULT_MAX_CBOR_CONTAINER_LENGTH = 1000000"
definition DEFAULT_MAX_CBOR_DEPTH :: nat where "DEFAULT_MAX_CBOR_DEPTH = 64"

definition resolveLimit :: "jsnum \<Rightarrow> nat \<Rightarrow> cbor_error + nat" where
  "resolveLimit value maximum =
     (if \<not> num_is_safe value \<or> num_int value < 0 \<or> num_int value > int maximum then Inl RangeError
      else Inr (nat (num_int value)))"

definition resolveOptions :: "cbor_option_args \<Rightarrow> cbor_error + cbor_options" where
  "resolveOptions args =
     rbind (resolveLimit (case arg_maxByteLength args of Some n \<Rightarrow> n
                          | None \<Rightarrow> int_num (int DEFAULT_MAX_CBOR_BYTE_LENGTH)) MAX_UINT32) (\<lambda>bytes.
     rbind (resolveLimit (case arg_maxContainerLength args of Some n \<Rightarrow> n
                          | None \<Rightarrow> int_num (int DEFAULT_MAX_CBOR_CONTAINER_LENGTH)) MAX_UINT32) (\<lambda>items.
     rbind (resolveLimit (case arg_maxDepth args of Some n \<Rightarrow> n
                          | None \<Rightarrow> int_num (int DEFAULT_MAX_CBOR_DEPTH)) MAX_CONFIGURED_DEPTH) (\<lambda>depth.
     Inr \<lparr>maxByteLength = bytes, maxContainerLength = items, maxDepth = depth\<rparr>)))"

lemma resolveLimit_bound: "resolveLimit v m = Inr n \<Longrightarrow> n \<le> m"
  by (auto simp: resolveLimit_def split: if_splits)

lemma resolveLimit_int: "n \<le> m \<Longrightarrow> n \<le> max_safe \<Longrightarrow> resolveLimit (int_num (int n)) m = Inr n"
  using int_num_safe [of "int n"] by (simp add: resolveLimit_def)

lemma resolveOptions_bounds:
  "resolveOptions args = Inr opts \<Longrightarrow>
     maxByteLength opts \<le> MAX_UINT32 \<and> maxContainerLength opts \<le> MAX_UINT32 \<and> maxDepth opts \<le> MAX_CONFIGURED_DEPTH"
  by (auto simp: resolveOptions_def dest: resolveLimit_bound)

section \<open>The writer\<close>

record cbor_writer =
  w_buffer :: "byte list"
  w_offset :: nat
  w_maxByteLength :: nat

definition newWriter :: "nat \<Rightarrow> cbor_writer" where
  "newWriter limit =
     \<lparr>w_buffer = replicate (min 256 limit) 0, w_offset = 0, w_maxByteLength = limit\<rparr>"

text \<open>The \<open>while\<close> loop that doubles the capacity up to the limit.\<close>

definition grow_step :: "nat \<Rightarrow> nat \<Rightarrow> nat \<Rightarrow> nat" where
  "grow_step limit required capacity = min limit (max required (capacity * 2))"

definition grow :: "nat \<Rightarrow> nat \<Rightarrow> nat \<Rightarrow> nat" where
  "grow limit required capacity = while (\<lambda>c. c < required) (grow_step limit required) capacity"

definition ensureCapacity :: "nat \<Rightarrow> cbor_writer \<Rightarrow> cbor_error + cbor_writer" where
  "ensureCapacity additional w =
     (let required = w_offset w + additional in
      if required > w_maxByteLength w then Inl ByteLengthLimit
      else if required \<le> length (w_buffer w) then Inr w
      else let capacity = grow (w_maxByteLength w) required (max 1 (length (w_buffer w)))
           in Inr (w\<lparr>w_buffer := w_buffer w @ replicate (capacity - length (w_buffer w)) 0\<rparr>))"

definition put_at :: "nat \<Rightarrow> byte list \<Rightarrow> byte list \<Rightarrow> byte list" where
  "put_at i bs buf = take i buf @ bs @ drop (i + length bs) buf"

definition writeByte :: "nat \<Rightarrow> cbor_writer \<Rightarrow> cbor_error + cbor_writer" where
  "writeByte v w = rbind (ensureCapacity 1 w) (\<lambda>w.
     Inr (w\<lparr>w_buffer := (w_buffer w)[w_offset w := of_nat v], w_offset := w_offset w + 1\<rparr>))"

definition writeBytes :: "byte list \<Rightarrow> cbor_writer \<Rightarrow> cbor_error + cbor_writer" where
  "writeBytes bs w = rbind (ensureCapacity (length bs) w) (\<lambda>w.
     Inr (w\<lparr>w_buffer := put_at (w_offset w) bs (w_buffer w), w_offset := w_offset w + length bs\<rparr>))"

definition writeUint16 :: "nat \<Rightarrow> cbor_writer \<Rightarrow> cbor_error + cbor_writer" where
  "writeUint16 v w = rbind (ensureCapacity 2 w) (\<lambda>w. let i = w_offset w in
     Inr (w\<lparr>w_buffer := (w_buffer w)[i := of_nat (v div 2 ^ 8), i + 1 := of_nat v], w_offset := i + 2\<rparr>))"

definition writeUint32 :: "nat \<Rightarrow> cbor_writer \<Rightarrow> cbor_error + cbor_writer" where
  "writeUint32 v w = rbind (ensureCapacity 4 w) (\<lambda>w. let i = w_offset w in
     Inr (w\<lparr>w_buffer := (w_buffer w)[i := of_nat (v div 2 ^ 24), i + 1 := of_nat (v div 2 ^ 16),
                                       i + 2 := of_nat (v div 2 ^ 8), i + 3 := of_nat v],
            w_offset := i + 4\<rparr>))"

definition writeUint64 :: "nat \<Rightarrow> cbor_writer \<Rightarrow> cbor_error + cbor_writer" where
  "writeUint64 v w =
     (let high = v div UINT32_BASE; low = v - high * UINT32_BASE
      in rbind (writeUint32 high w) (writeUint32 low))"

text \<open>\<open>DataView.setFloat64\<close> with big-endian order: the eight bytes of the pattern.\<close>

definition be64 :: "jsnum \<Rightarrow> byte list" where
  "be64 d = map (\<lambda>i. of_nat (unat d div 256 ^ i)) [7, 6, 5, 4, 3, 2, 1, 0]"

lemma length_be64 [simp]: "length (be64 d) = 8"
  by (simp add: be64_def)

definition writeFloat64 :: "jsnum \<Rightarrow> cbor_writer \<Rightarrow> cbor_error + cbor_writer" where
  "writeFloat64 d w = rbind (ensureCapacity 9 w) (\<lambda>w. let i = w_offset w in
     Inr (w\<lparr>w_buffer := put_at (i + 1) (be64 d) ((w_buffer w)[i := 0xfb]), w_offset := i + 9\<rparr>))"

definition finish :: "cbor_writer \<Rightarrow> byte list" where
  "finish w = take (w_offset w) (w_buffer w)"

section \<open>What the writer promises\<close>

definition writer_ok :: "cbor_writer \<Rightarrow> bool" where
  "writer_ok w = (w_offset w \<le> length (w_buffer w) \<and> length (w_buffer w) \<le> w_maxByteLength w)"

text \<open>The abstract writer: append to the written bytes, within the limit.\<close>

definition appended :: "byte list \<Rightarrow> cbor_writer \<Rightarrow> cbor_error + cbor_writer \<Rightarrow> bool" where
  "appended bs w r =
     (if length (finish w) + length bs > w_maxByteLength w then r = Inl ByteLengthLimit
      else \<exists>w'. r = Inr w' \<and> writer_ok w' \<and> finish w' = finish w @ bs
             \<and> w_maxByteLength w' = w_maxByteLength w)"

lemma newWriter_ok [simp]: "writer_ok (newWriter limit)" "finish (newWriter limit) = []"
  "w_maxByteLength (newWriter limit) = limit"
  by (simp_all add: writer_ok_def newWriter_def finish_def)

lemma length_finish: "writer_ok w \<Longrightarrow> length (finish w) = w_offset w"
  by (simp add: writer_ok_def finish_def)

lemma grow_terminates:
  assumes "required \<le> limit"
  shows "while_option (\<lambda>c. c < required) (grow_step limit required) capacity
           = Some (if capacity < required then grow_step limit required capacity else capacity)"
proof -
  have "\<not> grow_step limit required capacity < required" using assms by (simp add: grow_step_def)
  then show ?thesis
    by (simp add: while_option_unfold [of _ _ capacity]
        while_option_unfold [of _ _ "grow_step limit required capacity"])
qed

lemma grow_bounds:
  assumes "capacity < required" "required \<le> limit"
  shows "required \<le> grow limit required capacity" "grow limit required capacity \<le> limit"
    "capacity \<le> grow limit required capacity"
  using assms grow_terminates [OF assms(2), of capacity]
  by (auto simp: grow_def while_def grow_step_def)

lemma ensureCapacity_cases:
  assumes "writer_ok w"
  shows "if w_offset w + n > w_maxByteLength w then ensureCapacity n w = Inl ByteLengthLimit
         else \<exists>w'. ensureCapacity n w = Inr w' \<and> writer_ok w' \<and> finish w' = finish w
           \<and> w_offset w' = w_offset w \<and> w_maxByteLength w' = w_maxByteLength w
           \<and> w_offset w + n \<le> length (w_buffer w')"
proof (cases "w_offset w + n > w_maxByteLength w \<or> w_offset w + n \<le> length (w_buffer w)")
  case True
  with assms show ?thesis by (auto simp: ensureCapacity_def Let_def)
next
  case False
  let ?c = "grow (w_maxByteLength w) (w_offset w + n) (max 1 (length (w_buffer w)))"
  have "w_offset w + n \<le> ?c \<and> ?c \<le> w_maxByteLength w \<and> length (w_buffer w) \<le> ?c"
  proof (cases "max 1 (length (w_buffer w)) < w_offset w + n")
    case True
    with False grow_bounds [OF True, of "w_maxByteLength w"] show ?thesis by auto
  next
    case long: False
    have "length (w_buffer w) < w_offset w + n" "w_offset w + n \<le> max 1 (length (w_buffer w))"
      using False long by simp_all
    then have "length (w_buffer w) = 0" "w_offset w + n = 1" by arith+
    with False show ?thesis by (auto simp: grow_def while_unfold)
  qed
  with False assms show ?thesis
    by (auto simp: ensureCapacity_def Let_def writer_ok_def finish_def)
qed

text \<open>A store at the offset is an append to the written prefix.\<close>

lemma store_appends:
  assumes "writer_ok w" "w_offset w + length bs \<le> length (w_buffer w)"
    "length buf = length (w_buffer w)" "take (w_offset w + length bs) buf = finish w @ bs"
  shows "writer_ok (w\<lparr>w_buffer := buf, w_offset := w_offset w + length bs\<rparr>)
    \<and> finish (w\<lparr>w_buffer := buf, w_offset := w_offset w + length bs\<rparr>) = finish w @ bs"
  using assms by (simp add: writer_ok_def finish_def)

lemma take_update_snoc:
  "i < length xs \<Longrightarrow> take (Suc i) (xs[i := x]) = take i xs @ [x]"
  by (simp add: take_Suc_conv_app_nth)

lemma appended_store:
  assumes ok: "writer_ok w" and n: "n = length bs"
    and st: "\<And>w'. writer_ok w' \<Longrightarrow> finish w' = finish w \<Longrightarrow> w_offset w' = w_offset w \<Longrightarrow>
       w_offset w' + n \<le> length (w_buffer w') \<Longrightarrow>
       \<exists>buf. f w' = Inr (w'\<lparr>w_buffer := buf, w_offset := w_offset w' + n\<rparr>)
         \<and> length buf = length (w_buffer w') \<and> take (w_offset w' + n) buf = finish w' @ bs"
  shows "appended bs w (rbind (ensureCapacity n w) f)"
proof (cases "w_offset w + n > w_maxByteLength w")
  case True
  with ensureCapacity_cases [OF ok, of n] show ?thesis
    by (simp add: appended_def length_finish [OF ok] n)
next
  case False
  with ensureCapacity_cases [OF ok, of n] obtain w' where
    w': "ensureCapacity n w = Inr w'" "writer_ok w'" "finish w' = finish w"
      "w_offset w' = w_offset w" "w_maxByteLength w' = w_maxByteLength w"
      "w_offset w + n \<le> length (w_buffer w')" by auto
  from st [OF w'(2-4)] w'(4,6) obtain buf where
    "f w' = Inr (w'\<lparr>w_buffer := buf, w_offset := w_offset w' + n\<rparr>)"
    "length buf = length (w_buffer w')" "take (w_offset w' + n) buf = finish w' @ bs" by auto
  with store_appends [OF w'(2), of bs buf] w' False show ?thesis
    by (simp add: appended_def length_finish [OF ok] n)
qed

lemma writeByte_appends: "writer_ok w \<Longrightarrow> appended [of_nat v] w (writeByte v w)"
  unfolding writeByte_def
proof (rule appended_store)
  fix w' :: cbor_writer assume "w_offset w' + 1 \<le> length (w_buffer w')"
  then show "\<exists>buf. Inr (w'\<lparr>w_buffer := (w_buffer w')[w_offset w' := of_nat v], w_offset := w_offset w' + 1\<rparr>)
      = Inr (w'\<lparr>w_buffer := buf, w_offset := w_offset w' + 1\<rparr>)
     \<and> length buf = length (w_buffer w') \<and> take (w_offset w' + 1) buf = finish w' @ [of_nat v]"
    by (intro exI [of _ "(w_buffer w')[w_offset w' := of_nat v]"])
      (auto simp: finish_def take_update_snoc)
qed auto

lemma put_at_take:
  assumes "i + length bs \<le> length buf"
  shows "take (i + length bs) (put_at i bs buf) = take i buf @ bs" "length (put_at i bs buf) = length buf"
  using assms by (simp_all add: put_at_def)

lemma writeBytes_appends: "writer_ok w \<Longrightarrow> appended bs w (writeBytes bs w)"
  unfolding writeBytes_def
proof (rule appended_store)
  fix w' :: cbor_writer assume "w_offset w' + length bs \<le> length (w_buffer w')"
  then show "\<exists>buf. Inr (w'\<lparr>w_buffer := put_at (w_offset w') bs (w_buffer w'), w_offset := w_offset w' + length bs\<rparr>)
      = Inr (w'\<lparr>w_buffer := buf, w_offset := w_offset w' + length bs\<rparr>)
     \<and> length buf = length (w_buffer w') \<and> take (w_offset w' + length bs) buf = finish w' @ bs"
    by (intro exI [of _ "put_at (w_offset w') bs (w_buffer w')"]) (simp add: put_at_take finish_def)
qed auto

definition be16 :: "nat \<Rightarrow> byte list" where
  "be16 v = [of_nat (v div 2 ^ 8), of_nat v]"

definition be32 :: "nat \<Rightarrow> byte list" where
  "be32 v = [of_nat (v div 2 ^ 24), of_nat (v div 2 ^ 16), of_nat (v div 2 ^ 8), of_nat v]"

lemma take_update_2:
  "i + 2 \<le> length xs \<Longrightarrow> take (i + 2) (xs[i := a, i + 1 := b]) = take i xs @ [a, b]"
  using take_update_snoc [of "Suc i" "xs[i := a]" b] take_update_snoc [of i xs a] by simp

lemma take_update_4:
  assumes "i + 4 \<le> length xs"
  shows "take (i + 4) (xs[i := a, i + 1 := b, i + 2 := c, i + 3 := d]) = take i xs @ [a, b, c, d]"
  using assms take_update_2 [of "i + 2" "xs[i := a, i + 1 := b]" c d] take_update_2 [of i xs a b]
  by (simp add: numeral_eq_Suc)

lemma writeUint16_appends: "writer_ok w \<Longrightarrow> appended (be16 v) w (writeUint16 v w)"
  unfolding writeUint16_def Let_def
proof (rule appended_store)
  fix w' :: cbor_writer assume "w_offset w' + 2 \<le> length (w_buffer w')"
  from take_update_2 [OF this]
  show "\<exists>buf. Inr (w'\<lparr>w_buffer := (w_buffer w')[w_offset w' := of_nat (v div 2 ^ 8), w_offset w' + 1 := of_nat v],
        w_offset := w_offset w' + 2\<rparr>) = Inr (w'\<lparr>w_buffer := buf, w_offset := w_offset w' + 2\<rparr>)
     \<and> length buf = length (w_buffer w') \<and> take (w_offset w' + 2) buf = finish w' @ be16 v"
    by (intro exI [of _ "(w_buffer w')[w_offset w' := of_nat (v div 2 ^ 8), w_offset w' + 1 := of_nat v]"])
      (simp add: finish_def be16_def)
qed (auto simp: be16_def)

lemma writeUint32_appends: "writer_ok w \<Longrightarrow> appended (be32 v) w (writeUint32 v w)"
  unfolding writeUint32_def Let_def
proof (rule appended_store)
  fix w' :: cbor_writer assume "w_offset w' + 4 \<le> length (w_buffer w')"
  from take_update_4 [OF this]
  show "\<exists>buf. Inr (w'\<lparr>w_buffer := (w_buffer w')[w_offset w' := of_nat (v div 2 ^ 24),
          w_offset w' + 1 := of_nat (v div 2 ^ 16), w_offset w' + 2 := of_nat (v div 2 ^ 8),
          w_offset w' + 3 := of_nat v], w_offset := w_offset w' + 4\<rparr>)
      = Inr (w'\<lparr>w_buffer := buf, w_offset := w_offset w' + 4\<rparr>)
     \<and> length buf = length (w_buffer w') \<and> take (w_offset w' + 4) buf = finish w' @ be32 v"
    by (intro exI [of _ "(w_buffer w')[w_offset w' := of_nat (v div 2 ^ 24),
          w_offset w' + 1 := of_nat (v div 2 ^ 16), w_offset w' + 2 := of_nat (v div 2 ^ 8),
          w_offset w' + 3 := of_nat v]"])
      (simp add: finish_def be32_def)
qed (auto simp: be32_def)

lemma writeFloat64_appends: "writer_ok w \<Longrightarrow> appended (0xfb # be64 d) w (writeFloat64 d w)"
  unfolding writeFloat64_def Let_def
proof (rule appended_store)
  fix w' :: cbor_writer assume len: "w_offset w' + 9 \<le> length (w_buffer w')"
  let ?buf = "put_at (w_offset w' + 1) (be64 d) ((w_buffer w')[w_offset w' := 0xfb])"
  have "w_offset w' + 1 + length (be64 d) \<le> length ((w_buffer w')[w_offset w' := 0xfb])"
    using len by simp
  from put_at_take [OF this] take_update_snoc [of "w_offset w'" "w_buffer w'" "0xfb"] len
  have "take (w_offset w' + 1 + 8) ?buf = finish w' @ (0xfb # be64 d)" "length ?buf = length (w_buffer w')"
    by (simp_all add: finish_def)
  then have "take (w_offset w' + 9) ?buf = finish w' @ (0xfb # be64 d)" "length ?buf = length (w_buffer w')"
    by (simp_all add: add.commute)
  then show "\<exists>buf. Inr (w'\<lparr>w_buffer := ?buf, w_offset := w_offset w' + 9\<rparr>)
      = Inr (w'\<lparr>w_buffer := buf, w_offset := w_offset w' + 9\<rparr>)
     \<and> length buf = length (w_buffer w') \<and> take (w_offset w' + 9) buf = finish w' @ (0xfb # be64 d)"
    by (intro exI [of _ ?buf]) simp
qed auto

lemma appended_bind:
  assumes "appended bs w r" and "writer_ok w"
    and "\<And>w'. writer_ok w' \<Longrightarrow> w_maxByteLength w' = w_maxByteLength w \<Longrightarrow> appended cs w' (f w')"
  shows "appended (bs @ cs) w (rbind r f)"
proof (cases "length (finish w) + length bs > w_maxByteLength w")
  case True with assms(1) show ?thesis by (simp add: appended_def)
next
  case False
  with assms(1) obtain w' where w': "r = Inr w'" "writer_ok w'" "finish w' = finish w @ bs"
    "w_maxByteLength w' = w_maxByteLength w" by (auto simp: appended_def)
  with assms(3) [of w'] show ?thesis by (auto simp: appended_def add.assoc)
qed

lemma writeUint64_appends:
  "writer_ok w \<Longrightarrow> appended (be32 (v div UINT32_BASE) @ be32 (v mod UINT32_BASE)) w (writeUint64 v w)"
  unfolding writeUint64_def Let_def minus_div_mult_eq_mod
  by (rule appended_bind [OF writeUint32_appends]) (auto intro: writeUint32_appends)

end
