(* ===== verification/CborEncoder.thy ===== *)
theory CborEncoder
  imports CborWriter
begin

unbundle bit_operations_syntax

text \<open>
  The CBOR encoder (\<open>packages/protocol/src/cbor/encoder.ts\<close>). JavaScript values are primitives
  or references into a heap of objects, so that sharing and cycles exist in the model and the
  encoder's \<open>ancestors\<close> set does real work. The lemmas of this theory relate a heap value to
  the finite tree it denotes and show that a cyclic value denotes none.
\<close>

section \<open>Values and objects\<close>

datatype jsval =
    JUndefined | JNull | JBool bool | JNumber jsnum | JString jsstr | JRef nat
  | JOtherPrim \<comment> \<open>a bigint, a symbol or a function\<close>

text \<open>What else the code looks at in a plain object: its prototype, and its symbol keys.\<close>

datatype plain_info = PlainInfo (nullPrototype: bool) (symbolKey: bool)

datatype jsobj =
    OArray "jsval option list" \<comment> \<open>an array, \<open>None\<close> for a hole\<close>
  | OBytes "byte list" \<comment> \<open>a \<open>Uint8Array\<close>\<close>
  | OPlain plain_info "(jsstr \<times> jsval) list" \<comment> \<open>a plain object with its \<open>Object.keys\<close> and values\<close>
  | OOther \<comment> \<open>an object of another prototype\<close>

type_synonym heap = "nat \<Rightarrow> jsobj"

text \<open>A key such as \<open>"17"\<close> is an array index; an object lists those first, in ascending order.\<close>

definition is_digit :: "code_unit \<Rightarrow> bool" where
  "is_digit u = (0x30 \<le> unat u \<and> unat u \<le> 0x39)"

definition decimal :: "jsstr \<Rightarrow> nat" where
  "decimal s = foldl (\<lambda>n u. n * 10 + (unat u - 0x30)) 0 s"

definition array_index :: "jsstr \<Rightarrow> nat option" where
  "array_index k =
     (if k \<noteq> [] \<and> list_all is_digit k \<and> (length k = 1 \<or> unat (hd k) \<noteq> 0x30) \<and> decimal k < 0xffffffff
      then Some (decimal k) else None)"

definition key_before :: "jsstr \<Rightarrow> jsstr \<Rightarrow> bool" where
  "key_before k l =
     (case array_index k of
        Some m \<Rightarrow> (case array_index l of Some n \<Rightarrow> m \<le> n | None \<Rightarrow> True)
      | None \<Rightarrow> array_index l = None)"

text \<open>The property order of a JavaScript object.\<close>

definition keys_ok :: "jsstr list \<Rightarrow> bool" where
  "keys_ok ks = (distinct ks \<and> sorted_wrt key_before ks)"

definition heap_ok :: "heap \<Rightarrow> bool" where
  "heap_ok h = (\<forall>a info ps. h a = OPlain info ps \<longrightarrow> keys_ok (map fst ps))"

section \<open>The encoder\<close>

definition writeArgument :: "nat \<Rightarrow> nat \<Rightarrow> cbor_writer \<Rightarrow> cbor_error + cbor_writer" where
  "writeArgument majorType v w =
     (let prefix = push_bit 5 majorType in
      if v < 24 then writeByte (prefix OR v) w
      else if v \<le> 0xff then rbind (writeByte (prefix OR 24) w) (writeByte v)
      else if v \<le> 0xffff then rbind (writeByte (prefix OR 25) w) (writeUint16 v)
      else if v \<le> MAX_UINT32 then rbind (writeByte (prefix OR 26) w) (writeUint32 v)
      else rbind (writeByte (prefix OR 27) w) (writeUint64 v))"

definition encodeText :: "cbor_options \<Rightarrow> jsstr \<Rightarrow> cbor_writer \<Rightarrow> cbor_error + cbor_writer" where
  "encodeText opts s w =
     (let bytes = utf8_encode s in
      if length bytes > maxByteLength opts then Inl TextLengthLimit
      else if utf8_decode bytes \<noteq> Some s then Inl InvalidText
      else rbind (writeArgument 3 (length bytes) w) (writeBytes bytes))"

definition encodeNumber :: "jsnum \<Rightarrow> cbor_writer \<Rightarrow> cbor_error + cbor_writer" where
  "encodeNumber d w =
     (if \<not> num_finite d then Inl NonFinite
      else if num_is_integer d \<and> \<not> num_negzero d then
        (if \<not> num_is_safe d then Inl UnsafeInteger
         else if num_int d \<ge> 0 then writeArgument 0 (nat (num_int d)) w
         else writeArgument 1 (nat (- 1 - num_int d)) w)
      else writeFloat64 d w)"

function (sequential) encodeValue ::
  "heap \<Rightarrow> cbor_options \<Rightarrow> jsval \<Rightarrow> nat \<Rightarrow> nat set \<Rightarrow> cbor_writer \<Rightarrow> cbor_error + cbor_writer" where
  "encodeValue h opts v depth ancestors w =
     (if depth > maxDepth opts then Inl DepthLimit
      else (case v of
        JNull \<Rightarrow> writeByte 0xf6 w
      | JBool b \<Rightarrow> writeByte (if b then 0xf5 else 0xf4) w
      | JNumber d \<Rightarrow> encodeNumber d w
      | JString s \<Rightarrow> encodeText opts s w
      | JUndefined \<Rightarrow> Inl UnsupportedValue
      | JOtherPrim \<Rightarrow> Inl UnsupportedValue
      | JRef a \<Rightarrow>
          (case h a of
             OBytes bs \<Rightarrow>
               (if length bs > maxByteLength opts then Inl BytesLengthLimit
                else rbind (writeArgument 2 (length bs) w) (writeBytes bs))
           | OArray xs \<Rightarrow>
               (if a \<in> ancestors then Inl Cycle
                else if length xs > maxContainerLength opts then Inl ArrayLengthLimit
                else rbind (writeArgument 4 (length xs) w)
                  (fold_r (\<lambda>x w.
                     (case x of
                        None \<Rightarrow> Inl HoleOrUndefined
                      | Some y \<Rightarrow>
                          (if y = JUndefined then Inl HoleOrUndefined
                           else encodeValue h opts y (depth + 1) (insert a ancestors) w))) xs))
           | OPlain info ps \<Rightarrow>
               (if a \<in> ancestors then Inl Cycle
                else if symbolKey info then Inl MapKeyNotString
                else let entries = filter (\<lambda>(k, y). y \<noteq> JUndefined) ps in
                  if length entries > maxContainerLength opts then Inl MapLengthLimit
                  else rbind (writeArgument 5 (length entries) w)
                    (fold_r (\<lambda>(k, y) w.
                       rbind (encodeText opts k w) (encodeValue h opts y (depth + 1) (insert a ancestors))) entries))
           | OOther \<Rightarrow> Inl UnsupportedValue)))"
  by pat_completeness auto
termination
  by (relation "measure (\<lambda>(h, opts, v, depth, anc, w). Suc (maxDepth opts) - depth)") auto

declare encodeValue.simps [simp del]

definition encodeWith :: "heap \<Rightarrow> jsval \<Rightarrow> cbor_options \<Rightarrow> cbor_error + byte list" where
  "encodeWith h v opts =
     rbind (encodeValue h opts v 0 {} (newWriter (maxByteLength opts))) (\<lambda>w. Inr (finish w))"

definition encodeCbor :: "heap \<Rightarrow> jsval \<Rightarrow> cbor_option_args \<Rightarrow> cbor_error + byte list" where
  "encodeCbor h v args = rbind (resolveOptions args) (encodeWith h v)"

section \<open>Trees and what a value denotes\<close>

datatype cval =
    CNull | CBool bool | CNum jsnum | CStr jsstr | CBytes "byte list" | CArr "cval list"
  | CMap "(jsstr \<times> cval) list"

text \<open>The tree of a heap value, the properties that are \<open>undefined\<close> left out.\<close>

inductive denotes :: "heap \<Rightarrow> jsval \<Rightarrow> cval \<Rightarrow> bool" for h where
  denotes_null: "denotes h JNull CNull"
| denotes_bool: "denotes h (JBool b) (CBool b)"
| denotes_num: "denotes h (JNumber d) (CNum d)"
| denotes_str: "denotes h (JString s) (CStr s)"
| denotes_bytes: "h a = OBytes bs \<Longrightarrow> denotes h (JRef a) (CBytes bs)"
| denotes_arr: "h a = OArray xs \<Longrightarrow> list_all2 (\<lambda>x t. \<exists>y. x = Some y \<and> denotes h y t) xs ts
    \<Longrightarrow> denotes h (JRef a) (CArr ts)"
| denotes_map: "h a = OPlain info ps \<Longrightarrow>
    list_all2 (\<lambda>p q. fst p = fst q \<and> denotes h (snd p) (snd q)) (filter (\<lambda>(k, y). y \<noteq> JUndefined) ps) qs
    \<Longrightarrow> denotes h (JRef a) (CMap qs)"

inductive_cases denotes_ref: "denotes h (JRef a) t"

inductive_simps denotes_prim_simps [simp]:
  "denotes h JNull t" "denotes h (JBool b) t" "denotes h (JNumber d) t" "denotes h (JString s) t"
  "denotes h JUndefined t" "denotes h JOtherPrim t"

lemma list_all2_unique:
  assumes "list_all2 P xs ts" "list_all2 Q xs us"
    and "\<And>x t u. x \<in> set xs \<Longrightarrow> t \<in> set ts \<Longrightarrow> P x t \<Longrightarrow> Q x u \<Longrightarrow> t = u"
  shows "ts = us"
  using assms
proof (induction xs arbitrary: ts us)
  case (Cons x xs)
  from Cons.prems(1,2) obtain t ts' u us' where eqs: "ts = t # ts'" "us = u # us'"
    and hd: "P x t" "Q x u" and tl: "list_all2 P xs ts'" "list_all2 Q xs us'"
    by (auto simp: list_all2_Cons1)
  have "t = u" by (rule Cons.prems(3) [of x]) (simp_all add: eqs hd)
  moreover have "ts' = us'" by (rule Cons.IH [OF tl]) (rule Cons.prems(3), auto simp: eqs)
  ultimately show ?case by (simp add: eqs)
qed simp

lemma denotes_unique: "denotes h v t \<Longrightarrow> denotes h v u \<Longrightarrow> t = u"
proof (induction arbitrary: u rule: denotes.induct)
  case (denotes_arr a xs ts)
  from denotes_arr.prems denotes_arr.hyps(1) obtain us where us: "u = CArr us"
    "list_all2 (\<lambda>x t. \<exists>y. x = Some y \<and> denotes h y t) xs us"
    by (auto elim: denotes_ref)
  have "ts = us" by (rule list_all2_unique [OF denotes_arr.IH us(2)]) auto
  with us show ?case by simp
next
  case (denotes_map a info ps qs)
  from denotes_map.prems denotes_map.hyps(1) obtain us where us: "u = CMap us"
    "list_all2 (\<lambda>p q. fst p = fst q \<and> denotes h (snd p) (snd q)) (filter (\<lambda>(k, y). y \<noteq> JUndefined) ps) us"
    by (auto elim: denotes_ref)
  have "qs = us"
    by (rule list_all2_unique [OF denotes_map.IH us(2)]) (auto simp: prod_eq_iff)
  with us show ?case by simp
qed (auto elim: denotes_ref)

text \<open>The values directly inside an object, those the encoder descends into.\<close>

definition children :: "heap \<Rightarrow> nat \<Rightarrow> jsval set" where
  "children h a =
     (case h a of
        OArray xs \<Rightarrow> {y. Some y \<in> set xs}
      | OPlain info ps \<Rightarrow> {y. y \<noteq> JUndefined \<and> y \<in> snd ` set ps}
      | _ \<Rightarrow> {})"

definition points_to :: "heap \<Rightarrow> nat \<Rightarrow> nat \<Rightarrow> bool" where
  "points_to h a b = (JRef b \<in> children h a)"

lemma list_all2_member1:
  "list_all2 P xs ys \<Longrightarrow> x \<in> set xs \<Longrightarrow> \<exists>y \<in> set ys. P x y"
  by (induction rule: list_all2_induct) auto

lemma denotes_child:
  assumes "denotes h (JRef a) t" "v \<in> children h a"
  shows "\<exists>u. denotes h v u \<and> size u < size t"
proof -
  from assms(1) consider (bytes) bs where "h a = OBytes bs"
    | (arr) xs ts where "t = CArr ts" "h a = OArray xs"
        "list_all2 (\<lambda>x t. \<exists>y. x = Some y \<and> denotes h y t) xs ts"
    | (map) info ps qs where "t = CMap qs" "h a = OPlain info ps"
        "list_all2 (\<lambda>p q. fst p = fst q \<and> denotes h (snd p) (snd q)) (filter (\<lambda>(k, y). y \<noteq> JUndefined) ps) qs"
    by (rule denotes_ref) auto
  then show ?thesis
  proof cases
    case bytes then show ?thesis using assms(2) by (simp add: children_def)
  next
    case arr
    then have "Some v \<in> set xs" using assms(2) by (simp add: children_def)
    from list_all2_member1 [OF arr(3) this] obtain u where u: "u \<in> set ts" "denotes h v u" by auto
    have "size u \<le> size_list size ts" by (rule size_list_estimation' [OF u(1)]) simp
    then have "size u < size t" using arr by simp
    with u show ?thesis by blast
  next
    case map
    then obtain k where "(k, v) \<in> set (filter (\<lambda>(k, y). y \<noteq> JUndefined) ps)"
      using assms(2) by (auto simp: children_def)
    from list_all2_member1 [OF map(3) this] obtain l u where q: "(l, u) \<in> set qs" "denotes h v u" by auto
    have "size u \<le> size_list (size_prod (\<lambda>_. 0) size) qs"
      by (rule size_list_estimation' [OF q(1)]) simp
    then have "size u < size t" using map by simp
    with q show ?thesis by blast
  qed
qed

lemma cyclic_denotes_nothing:
  assumes "(points_to h)\<^sup>+\<^sup>+ a a"
  shows "\<not> denotes h (JRef a) t"
proof
  assume t: "denotes h (JRef a) t"
  have "(points_to h)\<^sup>+\<^sup>+ a b \<Longrightarrow> \<exists>u. denotes h (JRef b) u \<and> size u < size t" for b
  proof (induction rule: tranclp_induct)
    case (base b) then show ?case using denotes_child [OF t] by (auto simp: points_to_def)
  next
    case (step b c)
    then obtain u where u: "denotes h (JRef b) u" "size u < size t" by blast
    from denotes_child [OF u(1)] step(2) obtain u' where "denotes h (JRef c) u'" "size u' < size u"
      by (auto simp: points_to_def)
    with u(2) show ?case by (meson less_trans)
  qed
  from this [OF assms] obtain u where "denotes h (JRef a) u" "size u < size t" by blast
  with denotes_unique [OF t] show False by auto
qed

end
