(* ===== verification/CborDecoder.thy ===== *)
theory CborDecoder
  imports CborEncoder
begin

text \<open>
  The CBOR decoder (\<open>packages/protocol/src/cbor/decoder.ts\<close>): \<open>class CborReader\<close> as a record of
  the input and the offset, its reading methods, and \<open>decodeCbor\<close>. The lemmas describe each
  method on a reader placed in front of given bytes; the offset only ever moves inside the input.
\<close>

record cbor_reader =
  r_bytes :: "byte list"
  r_offset :: nat

section \<open>Reading bytes and arguments\<close>

definition readByte :: "cbor_reader \<Rightarrow> cbor_error + nat \<times> cbor_reader" where
  "readByte r =
     (if r_offset r \<ge> length (r_bytes r) then Inl Truncated
      else Inr (unat (r_bytes r ! r_offset r), r\<lparr>r_offset := r_offset r + 1\<rparr>))"

definition readBytes :: "nat \<Rightarrow> cbor_reader \<Rightarrow> cbor_error + byte list \<times> cbor_reader" where
  "readBytes n r =
     (if n > length (r_bytes r) - r_offset r then Inl Truncated
      else Inr (take n (drop (r_offset r) (r_bytes r)), r\<lparr>r_offset := r_offset r + n\<rparr>))"

definition be_nat :: "byte list \<Rightarrow> nat" where
  "be_nat bs = foldl (\<lambda>n b. n * 0x100 + unat b) 0 bs"

definition readUint32 :: "cbor_reader \<Rightarrow> cbor_error + nat \<times> cbor_reader" where
  "readUint32 r = rbind (readBytes 4 r) (\<lambda>(bytes, r).
     Inr (unat (bytes ! 0) * 0x1000000 + unat (bytes ! 1) * 0x10000 + unat (bytes ! 2) * 0x100
          + unat (bytes ! 3), r))"

definition readArgument :: "nat \<Rightarrow> cbor_reader \<Rightarrow> cbor_error + nat \<times> cbor_reader" where
  "readArgument info r =
     (if info < 24 then Inr (info, r)
      else if info = 24 then readByte r
      else if info = 25 then rbind (readBytes 2 r) (\<lambda>(bytes, r).
        Inr (unat (bytes ! 0) * 0x100 + unat (bytes ! 1), r))
      else if info = 26 then readUint32 r
      else if info = 27 then
        rbind (readUint32 r) (\<lambda>(high, r). rbind (readUint32 r) (\<lambda>(low, r).
          if high > 0x1fffff then Inl UnsafeInteger else Inr (high * UINT32_BASE + low, r)))
      else if info = 31 then Inl IndefiniteLength
      else Inl BadAdditionalInfo)"

definition readLength :: "nat \<Rightarrow> nat \<Rightarrow> cbor_reader \<Rightarrow> cbor_error + nat \<times> cbor_reader" where
  "readLength info limit r =
     (if info = 31 then Inl IndefiniteLength
      else rbind (readArgument info r) (\<lambda>(n, r).
        if n > limit then Inl DecodedLengthLimit else Inr (n, r)))"

text \<open>\<open>DataView.getFloat64\<close>, big-endian.\<close>

definition of_be64 :: "byte list \<Rightarrow> jsnum" where
  "of_be64 bs = of_nat (be_nat bs)"

definition readSimple :: "nat \<Rightarrow> cbor_reader \<Rightarrow> cbor_error + cval \<times> cbor_reader" where
  "readSimple info r =
     (if info = 20 then Inr (CBool False, r)
      else if info = 21 then Inr (CBool True, r)
      else if info = 22 then Inr (CNull, r)
      else if info = 27 then
        rbind (readBytes 8 r) (\<lambda>(bytes, r). let v = of_be64 bytes in
          if \<not> num_finite v then Inl NonFinite
          else if num_is_integer v \<and> \<not> num_is_safe v then Inl UnsafeInteger
          else Inr (CNum v, r))
      else if info = 31 then Inl BreakUnsupported
      else Inl SimpleUnsupported)"

section \<open>Items\<close>

text \<open>
  \<open>Object.defineProperty\<close> with a new key: an array index goes to its place among the array
  indices in front, any other key to the end.
\<close>

definition defineProperty :: "jsstr \<Rightarrow> 'a \<Rightarrow> (jsstr \<times> 'a) list \<Rightarrow> (jsstr \<times> 'a) list" where
  "defineProperty k v ps =
     (takeWhile (\<lambda>p. key_before (fst p) k) ps) @ (k, v) # dropWhile (\<lambda>p. key_before (fst p) k) ps"

text \<open>One round of the loop over a map's entries; \<open>item\<close> is \<open>readItem\<close> at the depth of the entries.\<close>

definition readPair :: "(cbor_reader \<Rightarrow> cbor_error + cval \<times> cbor_reader)
    \<Rightarrow> (jsstr \<times> cval) list \<times> cbor_reader \<Rightarrow> cbor_error + (jsstr \<times> cval) list \<times> cbor_reader" where
  "readPair item = (\<lambda>(result, r).
     rbind (item r) (\<lambda>(key, r).
       case key of
         CStr k \<Rightarrow>
           (if k \<in> fst ` set result then Inl DuplicateKey
            else rbind (item r) (\<lambda>(x, r). Inr (defineProperty k x result, r)))
       | _ \<Rightarrow> Inl MapKeyNotString))"

text \<open>One round of the loop over an array's elements.\<close>

definition readElement :: "(cbor_reader \<Rightarrow> cbor_error + cval \<times> cbor_reader)
    \<Rightarrow> cval list \<times> cbor_reader \<Rightarrow> cbor_error + cval list \<times> cbor_reader" where
  "readElement item = (\<lambda>(result, r). rbind (item r) (\<lambda>(x, r). Inr (result @ [x], r)))"

text \<open>The \<open>switch\<close> on the major type; \<open>item\<close> is \<open>readItem\<close> one level deeper.\<close>

definition readMajor :: "(cbor_reader \<Rightarrow> cbor_error + cval \<times> cbor_reader) \<Rightarrow> cbor_options
    \<Rightarrow> nat \<Rightarrow> nat \<Rightarrow> cbor_reader \<Rightarrow> cbor_error + cval \<times> cbor_reader" where
  "readMajor item opts majorType info r =
     (if majorType = 0 then rbind (readArgument info r) (\<lambda>(n, r). Inr (CNum (int_num (int n)), r))
      else if majorType = 1 then rbind (readArgument info r) (\<lambda>(n, r).
        let v = - 1 - int n in
        if \<bar>v\<bar> > int max_safe then Inl UnsafeInteger else Inr (CNum (int_num v), r))
      else if majorType = 2 then
        rbind (readLength info (maxByteLength opts) r) (\<lambda>(n, r).
        rbind (readBytes n r) (\<lambda>(bytes, r). Inr (CBytes bytes, r)))
      else if majorType = 3 then
        rbind (readLength info (maxByteLength opts) r) (\<lambda>(n, r).
        rbind (readBytes n r) (\<lambda>(bytes, r).
          case utf8_decode bytes of Some s \<Rightarrow> Inr (CStr s, r) | None \<Rightarrow> Inl InvalidUtf8))
      else if majorType = 4 then
        rbind (readLength info (maxContainerLength opts) r) (\<lambda>(n, r).
        rbind (times_r n (readElement item) ([], r)) (\<lambda>(result, r). Inr (CArr result, r)))
      else if majorType = 5 then
        rbind (readLength info (maxContainerLength opts) r) (\<lambda>(n, r).
        rbind (times_r n (readPair item) ([], r)) (\<lambda>(result, r). Inr (CMap result, r)))
      else if majorType = 6 then Inl TagUnsupported
      else if majorType = 7 then readSimple info r
      else Inl BadMajorType)"

function readItem :: "nat \<Rightarrow> cbor_options \<Rightarrow> cbor_reader \<Rightarrow> cbor_error + cval \<times> cbor_reader" where
  "readItem depth opts r =
     (if depth > maxDepth opts then Inl DepthLimit
      else rbind (readByte r) (\<lambda>(initial, r).
        readMajor (readItem (depth + 1) opts) opts (drop_bit 5 initial) (initial AND 0x1f) r))"
  by pat_completeness auto
termination
  by (relation "measure (\<lambda>(depth, opts, r). Suc (maxDepth opts) - depth)") auto

declare readItem.simps [simp del]

definition decodeWith :: "byte list \<Rightarrow> cbor_options \<Rightarrow> cbor_error + cval" where
  "decodeWith bytes opts =
     (if length bytes > maxByteLength opts then Inl ByteLengthLimit
      else rbind (readItem 0 opts \<lparr>r_bytes = bytes, r_offset = 0\<rparr>) (\<lambda>(v, r).
        if r_offset r \<noteq> length bytes then Inl TrailingData else Inr v))"

definition decodeCbor :: "byte list \<Rightarrow> cbor_option_args \<Rightarrow> cbor_error + cval" where
  "decodeCbor bytes args = rbind (resolveOptions args) (decodeWith bytes)"

section \<open>A reader in front of given bytes\<close>

definition reader_at :: "byte list \<Rightarrow> byte list \<Rightarrow> cbor_reader" where
  "reader_at pre rest = \<lparr>r_bytes = pre @ rest, r_offset = length pre\<rparr>"

text \<open>\<open>reads f bs x\<close>: in front of \<open>bs\<close>, \<open>f\<close> returns \<open>x\<close> and has consumed exactly \<open>bs\<close>.\<close>

definition reads :: "(cbor_reader \<Rightarrow> cbor_error + 'a \<times> cbor_reader) \<Rightarrow> byte list \<Rightarrow> 'a \<Rightarrow> bool" where
  "reads f bs x = (\<forall>pre rest. f (reader_at pre (bs @ rest)) = Inr (x, reader_at (pre @ bs) rest))"

lemma readsI:
  "(\<And>pre rest. f (reader_at pre (bs @ rest)) = Inr (x, reader_at (pre @ bs) rest)) \<Longrightarrow> reads f bs x"
  by (simp add: reads_def)

lemma readsD: "reads f bs x \<Longrightarrow> f (reader_at pre (bs @ rest)) = Inr (x, reader_at (pre @ bs) rest)"
  by (simp add: reads_def)

lemma reads_bind:
  assumes "reads f bs x" "reads (g x) cs y"
  shows "reads (\<lambda>r. rbind (f r) (\<lambda>(x, r). g x r)) (bs @ cs) y"
  by (intro readsI) (simp add: readsD [OF assms(1)] readsD [OF assms(2)])

lemma reads_return: "reads (\<lambda>r. Inr (x, r)) [] x"
  by (simp add: reads_def)

lemma readByte_at: "readByte (reader_at pre (b # rest)) = Inr (unat b, reader_at (pre @ [b]) rest)"
  by (simp add: readByte_def reader_at_def nth_append)

lemma reads_readByte: "reads readByte [b] (unat b)"
  using readByte_at by (simp add: reads_def)

lemma reads_readBytes: "n = length bs \<Longrightarrow> reads (readBytes n) bs bs"
  by (simp add: reads_def readBytes_def reader_at_def)

lemma reads_map:
  assumes "reads f bs x"
  shows "reads (\<lambda>r. rbind (f r) (\<lambda>(x, r). Inr (g x, r))) bs (g x)"
  using reads_bind [OF assms, of "\<lambda>x r. Inr (g x, r)" "[]" "g x"] by (simp add: reads_return)

section \<open>Arguments\<close>

lemma be_nat_simps:
  "be_nat [a, b, c, d] = unat a * 0x1000000 + unat b * 0x10000 + unat c * 0x100 + unat d"
  "be_nat [a, b] = unat a * 0x100 + unat b"
  by (simp_all add: be_nat_def algebra_simps)

lemma unat_of_nat_byte: "unat (of_nat n :: byte) = n mod 256"
  by (simp add: unat_of_nat take_bit_eq_mod)

lemma digits_256:
  "(v::nat) div 256 * 256 + v mod 256 = v"
  by (rule div_mult_mod_eq)

lemma be_nat_be16: "v < 2 ^ 16 \<Longrightarrow> be_nat (be16 v) = v"
  using digits_256 [of v] by (simp add: be16_def be_nat_simps unat_of_nat_byte)

lemma be_nat_be32:
  assumes "v < 2 ^ 32"
  shows "be_nat (be32 v) = v"
proof -
  have top: "v div 16777216 < 256" using assms by simp
  have "v div 256 * 256 + v mod 256 = v" "v div 65536 * 256 + v div 256 mod 256 = v div 256"
    "v div 16777216 * 256 + v div 65536 mod 256 = v div 65536"
    using digits_256 [of v] digits_256 [of "v div 256"] digits_256 [of "v div 65536"]
    by (simp_all add: div_mult2_eq [symmetric])
  then have "v div 16777216 * 16777216 + v div 65536 mod 256 * 65536 + v div 256 mod 256 * 256 + v mod 256 = v"
    by linarith
  with top show ?thesis by (simp add: be32_def be_nat_simps unat_of_nat_byte)
qed

lemma reads_readUint32: "v < 2 ^ 32 \<Longrightarrow> reads readUint32 (be32 v) v"
proof -
  assume v: "v < 2 ^ 32"
  have "reads readUint32 (be32 v) (be_nat (be32 v))"
    unfolding readUint32_def
    using reads_map [OF reads_readBytes [of 4 "be32 v"],
      of "\<lambda>bytes. unat (bytes ! 0) * 0x1000000 + unat (bytes ! 1) * 0x10000 + unat (bytes ! 2) * 0x100 + unat (bytes ! 3)"]
    by (simp add: be32_def be_nat_simps)
  then show ?thesis by (simp only: be_nat_be32 [OF v])
qed

text \<open>The bytes of an item head: major type and argument.\<close>

definition head_info :: "nat \<Rightarrow> nat" where
  "head_info v = (if v < 24 then v else if v \<le> 0xff then 24 else if v \<le> 0xffff then 25
     else if v \<le> MAX_UINT32 then 26 else 27)"

definition head_tail :: "nat \<Rightarrow> byte list" where
  "head_tail v = (if v < 24 then [] else if v \<le> 0xff then [of_nat v] else if v \<le> 0xffff then be16 v
     else if v \<le> MAX_UINT32 then be32 v else be32 (v div UINT32_BASE) @ be32 (v mod UINT32_BASE))"

definition head_bytes :: "nat \<Rightarrow> nat \<Rightarrow> byte list" where
  "head_bytes m v = of_nat (push_bit 5 m OR head_info v) # head_tail v"

lemma head_info_lt: "head_info v < 32"
  by (simp add: head_info_def)

lemma prefix_or: "v < 32 \<Longrightarrow> push_bit 5 (m::nat) OR v = m * 32 + v"
proof -
  assume v: "v < 32"
  have "\<not> bit (push_bit 5 m) n \<or> \<not> bit v n" for n
  proof (cases "n < 5")
    case False
    then have "(2::nat) ^ 5 \<le> 2 ^ n" by (intro power_increasing) simp_all
    then have "v div 2 ^ n = 0" using v by simp
    then show ?thesis by (simp add: bit_iff_odd)
  qed (simp add: bit_push_bit_iff_nat)
  then have "push_bit 5 m + v = push_bit 5 m OR v" by (rule disjunctive_add)
  then show ?thesis by (simp add: push_bit_eq_mult)
qed

lemma initial_byte:
  assumes "m < 8" "i < 32"
  shows "drop_bit 5 (unat (of_nat (push_bit 5 m OR i) :: byte)) = m"
    "unat (of_nat (push_bit 5 m OR i) :: byte) AND 0x1f = i"
proof -
  have u: "unat (of_nat (push_bit 5 m OR i) :: byte) = m * 32 + i"
    using assms by (simp add: prefix_or unat_byte del: of_nat_add of_nat_mult)
  have m: "n AND 0x1f = n mod 32" for n :: nat
  proof -
    have "n AND 0x1f = n AND mask 5" by (simp add: mask_eq_exp_minus_1)
    then show ?thesis by (simp add: take_bit_eq_mod flip: take_bit_eq_mask)
  qed
  show "drop_bit 5 (unat (of_nat (push_bit 5 m OR i) :: byte)) = m"
    "unat (of_nat (push_bit 5 m OR i) :: byte) AND 0x1f = i"
    unfolding u m using assms by (simp_all add: drop_bit_eq_div)
qed

lemma writeArgument_appends: "writer_ok w \<Longrightarrow> appended (head_bytes m v) w (writeArgument m v w)"
proof -
  assume ok: "writer_ok w"
  have two: "appended (of_nat (push_bit 5 m OR i) # bs) w (rbind (writeByte (push_bit 5 m OR i) w) f)"
    if "\<And>w. writer_ok w \<Longrightarrow> appended bs w (f w)" for i bs f
    using appended_bind [OF writeByte_appends [OF ok], where f = f and cs = bs] that ok by simp
  show ?thesis
    using two [where f = "writeByte v", OF writeByte_appends] two [where f = "writeUint16 v", OF writeUint16_appends]
      two [where f = "writeUint32 v", OF writeUint32_appends] two [where f = "writeUint64 v", OF writeUint64_appends]
      writeByte_appends [OF ok]
    by (auto simp: writeArgument_def head_bytes_def head_info_def head_tail_def Let_def)
qed

lemma reads_readArgument:
  assumes "v \<le> max_safe"
  shows "reads (readArgument (head_info v)) (head_tail v) v"
proof -
  consider "v < 24" | "24 \<le> v" "v \<le> 0xff" | "0x100 \<le> v" "v \<le> 0xffff" | "0x10000 \<le> v" "v \<le> MAX_UINT32" | "MAX_UINT32 < v"
    by linarith
  then show ?thesis
  proof cases
    case 1 then show ?thesis by (simp add: reads_def head_info_def head_tail_def readArgument_def)
  next
    case 2 then show ?thesis
      using reads_readByte [of "of_nat v"] by (simp add: reads_def head_info_def head_tail_def readArgument_def unat_byte)
  next
    case 3
    then have "be_nat (be16 v) = v" by (intro be_nat_be16) simp
    with 3 reads_map [OF reads_readBytes [of 2 "be16 v"], of "\<lambda>bytes. unat (bytes ! 0) * 0x100 + unat (bytes ! 1)"]
    show ?thesis by (simp add: reads_def head_info_def head_tail_def readArgument_def be16_def be_nat_simps)
  next
    case 4
    with reads_readUint32 [of v] show ?thesis
      by (simp add: reads_def head_info_def head_tail_def readArgument_def MAX_UINT32_def)
  next
    case 5
    let ?h = "v div UINT32_BASE" and ?l = "v mod UINT32_BASE"
    have h: "?h \<le> 0x1fffff"
    proof -
      have "?h \<le> max_safe div UINT32_BASE" using assms by (rule div_le_mono)
      also have "\<dots> = 0x1fffff" by (simp add: max_safe_def UINT32_BASE_def)
      finally show ?thesis .
    qed
    then have h32: "?h < 2 ^ 32" by simp
    have l32: "?l < 2 ^ 32" by (simp add: UINT32_BASE_def)
    have last: "reads (\<lambda>r. if ?h > 0x1fffff then Inl UnsafeInteger else Inr (?h * UINT32_BASE + ?l, r)) [] v"
      using h by (simp add: reads_def)
    let ?check = "\<lambda>high low r. if high > 0x1fffff then Inl UnsafeInteger else Inr (high * UINT32_BASE + low, r)"
    from reads_bind [where g = "?check ?h", OF reads_readUint32 [OF l32] last]
    have "reads (\<lambda>r. rbind (readUint32 r) (\<lambda>(low, r). ?check ?h low r)) (be32 ?l) v" by simp
    from reads_bind [where g = "\<lambda>high r. rbind (readUint32 r) (\<lambda>(low, r). ?check high low r)",
        OF reads_readUint32 [OF h32] this]
    have "reads (readArgument 27) (be32 ?h @ be32 ?l) v"
      unfolding readArgument_def by (simp add: reads_def)
    with 5 show ?thesis by (simp add: head_info_def head_tail_def MAX_UINT32_def)
  qed
qed

lemma reads_readLength:
  assumes "v \<le> max_safe" "v \<le> limit"
  shows "reads (readLength (head_info v) limit) (head_tail v) v"
proof -
  have "head_info v \<noteq> 31" by (simp add: head_info_def)
  with assms(2) readsD [OF reads_readArgument [OF assms(1)]] show ?thesis
    by (auto intro!: readsI simp: readLength_def)
qed

text \<open>Floating-point patterns.\<close>

lemma be_nat_append: "be_nat (bs @ [b]) = be_nat bs * 256 + unat b"
  by (simp add: be_nat_def)

lemma be_nat_digits: "be_nat (map (\<lambda>i. of_nat (n div 256 ^ i)) (rev [0..<k])) = n mod 256 ^ k"
proof (induction k arbitrary: n)
  case 0 then show ?case by (simp add: be_nat_def)
next
  case (Suc k)
  have "[0..<Suc k] = 0 # map Suc [0..<k]" by (simp only: map_Suc_upt upt_conv_Cons [OF zero_less_Suc])
  then have "map (\<lambda>i. of_nat (n div 256 ^ i) :: byte) (rev [0..<Suc k])
      = map (\<lambda>i. of_nat (n div 256 div 256 ^ i)) (rev [0..<k]) @ [of_nat n]"
    by (simp add: rev_map [symmetric] div_mult2_eq comp_def del: upt_Suc)
  then have "be_nat (map (\<lambda>i. of_nat (n div 256 ^ i)) (rev [0..<Suc k])) = n div 256 mod 256 ^ k * 256 + n mod 256"
    by (simp add: be_nat_append Suc.IH unat_of_nat_byte)
  also have "\<dots> = n mod (256 * 256 ^ k)" by (simp add: mod_mult2_eq)
  finally show ?case by simp
qed

lemma of_be64_be64 [simp]: "of_be64 (be64 d) = d"
proof -
  have "be64 d = map (\<lambda>i. of_nat (unat d div 256 ^ i)) (rev [0..<8])"
    by (simp add: be64_def upt_rec)
  then have "be_nat (be64 d) = unat d mod 256 ^ 8" by (simp only: be_nat_digits)
  also have "\<dots> = unat d" using unat_num_lt [of d] by simp
  finally show ?thesis by (simp add: of_be64_def)
qed

end
