(* ===== verification/Framing.thy ===== *)
theory Framing
  imports CborDecoder
begin

text \<open>
  Length-prefixed frames (\<open>packages/protocol/src/framing.ts\<close>): \<open>encodeFrame\<close>,
  \<open>assertCompleteFrame\<close> and the incremental \<open>FrameDecoder\<close> with its header buffer and its list of
  payload blocks. The current block is the same object as the last element of the list, so it is
  an index into it. The loops are partial functions (\<open>None\<close> is not returning); the lemmas show that
  they return on every reachable decoder, and that a push does what \<open>split_frames\<close> says on the bytes
  that were pending followed by the chunk.
\<close>

datatype frame_error =
    FrameRange | FrameTooLarge | NoPrefix | FrameTooLong | NotOneFrame | DecoderEnded | DecoderFailed
  | TruncatedFrame

datatype decoder_state = Open | Ended | Failed

definition FRAME_HEADER_LENGTH :: nat where "FRAME_HEADER_LENGTH = 4"
definition PAYLOAD_BLOCK_SIZE :: nat where "PAYLOAD_BLOCK_SIZE = 64 * 1024"
definition DEFAULT_MAX_FRAME_LENGTH :: nat where "DEFAULT_MAX_FRAME_LENGTH = 16 * 1024 * 1024"

definition resolveMaxFrameLength :: "jsnum option \<Rightarrow> frame_error + nat" where
  "resolveMaxFrameLength maxFrameLength =
     (let value = (case maxFrameLength of Some n \<Rightarrow> n | None \<Rightarrow> int_num (int DEFAULT_MAX_FRAME_LENGTH)) in
      if \<not> num_is_safe value \<or> num_int value < 0 \<or> num_int value > int MAX_UINT32 then Inl FrameRange
      else Inr (nat (num_int value)))"

definition encodeFrame :: "byte list \<Rightarrow> frame_error + byte list" where
  "encodeFrame payload =
     (if length payload > MAX_UINT32 then Inl FrameTooLarge
      else let n = length payload; frame = replicate (FRAME_HEADER_LENGTH + n) 0 in
        Inr (put_at FRAME_HEADER_LENGTH payload
          (frame[0 := of_nat (n div 2 ^ 24), 1 := of_nat (n div 2 ^ 16), 2 := of_nat (n div 2 ^ 8), 3 := of_nat n])))"

text \<open>The big-endian value of four header bytes.\<close>

definition headerValue :: "byte list \<Rightarrow> nat" where
  "headerValue h =
     unat (h ! 0) * 0x1000000 + unat (h ! 1) * 0x10000 + unat (h ! 2) * 0x100 + unat (h ! 3)"

definition assertCompleteFrame :: "byte list \<Rightarrow> jsnum option \<Rightarrow> frame_error + unit" where
  "assertCompleteFrame frame maxFrameLength =
     (if length frame < FRAME_HEADER_LENGTH then Inl NoPrefix
      else let n = headerValue frame in
        rbind (resolveMaxFrameLength maxFrameLength) (\<lambda>limit.
          if n > limit then Inl FrameTooLong
          else if length frame \<noteq> FRAME_HEADER_LENGTH + n then Inl NotOneFrame
          else Inr ()))"

section \<open>The incremental decoder\<close>

record frame_decoder =
  fd_header :: "byte list"
  fd_headerLength :: nat
  fd_maxFrameLength :: nat
  fd_payloadBlocks :: "byte list list"
  fd_currentPayloadBlock :: "nat option"
  fd_currentPayloadBlockLength :: nat
  fd_expectedPayloadLength :: "nat option"
  fd_payloadLength :: nat
  fd_state :: decoder_state

definition newFrameDecoder :: "jsnum option \<Rightarrow> frame_error + frame_decoder" where
  "newFrameDecoder maxFrameLength = rbind (resolveMaxFrameLength maxFrameLength) (\<lambda>limit. Inr
     \<lparr>fd_header = replicate FRAME_HEADER_LENGTH 0, fd_headerLength = 0, fd_maxFrameLength = limit,
      fd_payloadBlocks = [], fd_currentPayloadBlock = None, fd_currentPayloadBlockLength = 0,
      fd_expectedPayloadLength = None, fd_payloadLength = 0, fd_state = Open\<rparr>)"

text \<open>The private method \<open>fail\<close>, up to the \<open>throw\<close>.\<close>

definition failDecoder :: "frame_decoder \<Rightarrow> frame_decoder" where
  "failDecoder d = d\<lparr>fd_state := Failed, fd_headerLength := 0, fd_payloadBlocks := [],
     fd_currentPayloadBlock := None, fd_currentPayloadBlockLength := 0,
     fd_expectedPayloadLength := None, fd_payloadLength := 0\<rparr>"

text \<open>Copying header bytes out of the rest of the chunk.\<close>

definition takeHeader :: "byte list \<Rightarrow> frame_decoder \<Rightarrow> byte list \<times> frame_decoder" where
  "takeHeader rest d =
     (let n = min (FRAME_HEADER_LENGTH - fd_headerLength d) (length rest) in
      (drop n rest, d\<lparr>fd_header := put_at (fd_headerLength d) (take n rest) (fd_header d),
                      fd_headerLength := fd_headerLength d + n\<rparr>))"

definition startPayload :: "nat \<Rightarrow> frame_decoder \<Rightarrow> frame_decoder" where
  "startPayload n d = d\<lparr>fd_expectedPayloadLength := Some n, fd_payloadBlocks := [],
     fd_currentPayloadBlock := None, fd_currentPayloadBlockLength := 0, fd_payloadLength := 0\<rparr>"

text \<open>A new block is allocated when there is none or the current one is full.\<close>

definition currentBlock :: "nat \<Rightarrow> frame_decoder \<Rightarrow> frame_decoder" where
  "currentBlock expected d =
     (case fd_currentPayloadBlock d of
        Some i \<Rightarrow>
          if fd_currentPayloadBlockLength d = length (fd_payloadBlocks d ! i)
          then d\<lparr>fd_payloadBlocks := fd_payloadBlocks d @
                   [replicate (min PAYLOAD_BLOCK_SIZE (expected - fd_payloadLength d)) 0],
                 fd_currentPayloadBlock := Some (length (fd_payloadBlocks d)),
                 fd_currentPayloadBlockLength := 0\<rparr>
          else d
      | None \<Rightarrow> d\<lparr>fd_payloadBlocks := fd_payloadBlocks d @
                   [replicate (min PAYLOAD_BLOCK_SIZE (expected - fd_payloadLength d)) 0],
                 fd_currentPayloadBlock := Some (length (fd_payloadBlocks d)),
                 fd_currentPayloadBlockLength := 0\<rparr>)"

text \<open>The rest of the loop body: as many bytes as fit are copied into the current block.\<close>

definition fillBlock :: "byte list \<Rightarrow> frame_decoder \<Rightarrow> byte list \<times> frame_decoder" where
  "fillBlock rest d =
     (let i = the (fd_currentPayloadBlock d); block = fd_payloadBlocks d ! i;
          n = min (length block - fd_currentPayloadBlockLength d) (length rest) in
      (drop n rest,
       d\<lparr>fd_payloadBlocks := (fd_payloadBlocks d)[i := put_at (fd_currentPayloadBlockLength d) (take n rest) block],
         fd_currentPayloadBlockLength := fd_currentPayloadBlockLength d + n,
         fd_payloadLength := fd_payloadLength d + n\<rparr>))"

partial_function (option) fillPayload :: "nat \<Rightarrow> byte list \<Rightarrow> frame_decoder \<Rightarrow> (byte list \<times> frame_decoder) option" where
  [code]: "fillPayload expected rest d =
     (if rest \<noteq> [] \<and> fd_payloadLength d < expected
      then let p = fillBlock rest (currentBlock expected d) in fillPayload expected (fst p) (snd p)
      else Some (rest, d))"

text \<open>The payload of a complete frame: the only block itself, or the blocks copied one after another.\<close>

definition joinBlocks :: "nat \<Rightarrow> byte list list \<Rightarrow> byte list" where
  "joinBlocks expected blocks =
     (if length blocks = 1 then blocks ! 0
      else snd (fold (\<lambda>b (offset, payload). (offset + length b, put_at offset b payload)) blocks
                  (0, replicate expected 0)))"

definition finishPayload :: "frame_decoder \<Rightarrow> frame_decoder" where
  "finishPayload d = d\<lparr>fd_payloadBlocks := [], fd_currentPayloadBlock := None,
     fd_currentPayloadBlockLength := 0, fd_expectedPayloadLength := None, fd_payloadLength := 0\<rparr>"

definition takePayload :: "nat \<Rightarrow> byte list \<Rightarrow> byte list list \<Rightarrow> frame_decoder
    \<Rightarrow> (byte list \<times> byte list list \<times> frame_decoder) option" where
  "takePayload expected rest frames d = Option.bind (fillPayload expected rest d) (\<lambda>(rest, d).
     if fd_payloadLength d = expected
     then Some (rest, frames @ [joinBlocks expected (fd_payloadBlocks d)], finishPayload d)
     else Some (rest, frames, d))"

text \<open>The loop of \<open>push\<close> over the chunk; \<open>rest\<close> is what follows \<open>chunkOffset\<close>.\<close>

partial_function (option) pushLoop :: "byte list \<Rightarrow> byte list list \<Rightarrow> frame_decoder
    \<Rightarrow> ((frame_error + byte list list) \<times> frame_decoder) option" where
  [code]: "pushLoop rest frames d =
     (if rest = [] then Some (Inr frames, d)
      else case fd_expectedPayloadLength d of
        None \<Rightarrow>
          (let p = takeHeader rest d; rest = fst p; d = snd p in
           if fd_headerLength d < FRAME_HEADER_LENGTH then pushLoop rest frames d
           else let n = headerValue (fd_header d); d = d\<lparr>fd_headerLength := 0\<rparr> in
             if n > fd_maxFrameLength d then Some (Inl FrameTooLong, failDecoder d)
             else if n = 0 then pushLoop rest (frames @ [[]]) d
             else Option.bind (takePayload n rest frames (startPayload n d)) (\<lambda>s.
               pushLoop (fst s) (fst (snd s)) (snd (snd s))))
      | Some n \<Rightarrow> Option.bind (takePayload n rest frames d) (\<lambda>s.
          pushLoop (fst s) (fst (snd s)) (snd (snd s))))"

definition pushFrames :: "byte list \<Rightarrow> frame_decoder \<Rightarrow> ((frame_error + byte list list) \<times> frame_decoder) option" where
  "pushFrames chunk d =
     (case fd_state d of
        Ended \<Rightarrow> Some (Inl DecoderEnded, d)
      | Failed \<Rightarrow> Some (Inl DecoderFailed, d)
      | Open \<Rightarrow> pushLoop chunk [] d)"

definition endFrames :: "frame_decoder \<Rightarrow> (frame_error + unit) \<times> frame_decoder" where
  "endFrames d =
     (case fd_state d of
        Ended \<Rightarrow> (Inl DecoderEnded, d)
      | Failed \<Rightarrow> (Inl DecoderFailed, d)
      | Open \<Rightarrow>
          if fd_headerLength d \<noteq> 0 \<or> fd_expectedPayloadLength d \<noteq> None
          then (Inl TruncatedFrame, failDecoder d)
          else (Inr (), d\<lparr>fd_state := Ended\<rparr>))"

section \<open>The reference: splitting a byte string into frames\<close>

text \<open>The payloads of the complete frames, and what is left: an incomplete frame, or \<open>None\<close> when a
  length prefix exceeds the limit.\<close>

function split_frames :: "nat \<Rightarrow> byte list \<Rightarrow> byte list list \<times> byte list option" where
  "split_frames limit bs =
     (if length bs < FRAME_HEADER_LENGTH then ([], Some bs)
      else let n = headerValue bs; rest = drop FRAME_HEADER_LENGTH bs in
        if n > limit then ([], None)
        else if length rest < n then ([], Some bs)
        else let q = split_frames limit (drop n rest) in (take n rest # fst q, snd q))"
  by pat_completeness auto
termination by (relation "measure (\<lambda>(limit, bs). length bs)") (auto simp: FRAME_HEADER_LENGTH_def)

declare split_frames.simps [simp del]

lemma headerValue_append: "FRAME_HEADER_LENGTH \<le> length h \<Longrightarrow> headerValue (h @ bs) = headerValue h"
  by (auto simp: headerValue_def nth_append FRAME_HEADER_LENGTH_def)

lemma split_short: "length bs < FRAME_HEADER_LENGTH \<Longrightarrow> split_frames limit bs = ([], Some bs)"
  by (subst split_frames.simps) simp

lemma split_header:
  assumes "length h = FRAME_HEADER_LENGTH"
  shows "split_frames limit (h @ rest) =
    (if headerValue h > limit then ([], None)
     else if length rest < headerValue h then ([], Some (h @ rest))
     else (take (headerValue h) rest # fst (split_frames limit (drop (headerValue h) rest)),
           snd (split_frames limit (drop (headerValue h) rest))))"
  using assms by (subst split_frames.simps) (simp add: headerValue_append Let_def)

lemma split_append:
  "split_frames limit (xs @ ys) =
     (case split_frames limit xs of
        (fs, None) \<Rightarrow> (fs, None)
      | (fs, Some r) \<Rightarrow> (fs @ fst (split_frames limit (r @ ys)), snd (split_frames limit (r @ ys))))"
proof (induction limit xs rule: split_frames.induct)
  case (1 limit xs)
  show ?case
  proof (cases "length xs < FRAME_HEADER_LENGTH")
    case True then show ?thesis by (simp add: split_short)
  next
    case False
    define h rest where "h = take FRAME_HEADER_LENGTH xs" and "rest = drop FRAME_HEADER_LENGTH xs"
    have xs: "xs = h @ rest" and h: "length h = FRAME_HEADER_LENGTH" using False by (simp_all add: h_def rest_def)
    have hv: "headerValue xs = headerValue h" using h by (simp add: xs headerValue_append)
    show ?thesis
    proof (cases "headerValue h > limit \<or> length rest < headerValue h")
      case True then show ?thesis by (auto simp: xs split_header [OF h])
    next
      case ok: False
      have IH: "split_frames limit (drop (headerValue h) rest @ ys) =
          (case split_frames limit (drop (headerValue h) rest) of
            (fs, None) \<Rightarrow> (fs, None)
          | (fs, Some r) \<Rightarrow> (fs @ fst (split_frames limit (r @ ys)), snd (split_frames limit (r @ ys))))"
        using "1.IH" [OF False refl refl] ok by (simp add: hv rest_def [symmetric])
      from ok show ?thesis by (simp add: xs split_header [OF h] IH split: prod.split option.split)
    qed
  qed
qed

lemma split_pending: "split_frames limit bs = (fs, Some r) \<Longrightarrow> split_frames limit r = ([], Some r)"
proof (induction limit bs arbitrary: fs rule: split_frames.induct)
  case (1 limit bs)
  show ?case
  proof (cases "length bs < FRAME_HEADER_LENGTH \<or> length (drop FRAME_HEADER_LENGTH bs) < headerValue bs
      \<or> headerValue bs > limit")
    case True
    with "1.prems" have "r = bs" by (subst (asm) split_frames.simps) (auto simp: Let_def split: if_splits)
    with True "1.prems" show ?thesis
      by (subst (asm) split_frames.simps, subst split_frames.simps) (auto simp: Let_def split: if_splits)
  next
    case False
    with "1.prems" have "snd (split_frames limit (drop (headerValue bs) (drop FRAME_HEADER_LENGTH bs))) = Some r"
      by (subst (asm) split_frames.simps) (auto simp: Let_def split: if_splits)
    with "1.IH" [OF _ refl refl] False show ?thesis by (simp add: prod_eq_iff)
  qed
qed

section \<open>The payload blocks\<close>

definition filled :: "frame_decoder \<Rightarrow> byte list" where
  "filled d = take (fd_payloadLength d) (concat (fd_payloadBlocks d))"

definition last_length :: "byte list list \<Rightarrow> nat" where
  "last_length blocks = (if blocks = [] then 0 else length (last blocks))"

definition payload_ok :: "nat \<Rightarrow> frame_decoder \<Rightarrow> bool" where
  "payload_ok n d =
     (fd_currentPayloadBlock d = (if fd_payloadBlocks d = [] then None else Some (length (fd_payloadBlocks d) - 1))
      \<and> fd_payloadLength d \<le> n \<and> length (concat (fd_payloadBlocks d)) \<le> n
      \<and> fd_currentPayloadBlockLength d \<le> last_length (fd_payloadBlocks d)
      \<and> fd_payloadLength d + last_length (fd_payloadBlocks d)
          = length (concat (fd_payloadBlocks d)) + fd_currentPayloadBlockLength d)"

definition same_frame :: "frame_decoder \<Rightarrow> frame_decoder \<Rightarrow> bool" where
  "same_frame d d' = (fd_header d' = fd_header d \<and> fd_headerLength d' = fd_headerLength d
     \<and> fd_maxFrameLength d' = fd_maxFrameLength d \<and> fd_expectedPayloadLength d' = fd_expectedPayloadLength d
     \<and> fd_state d' = fd_state d)"

lemma same_frame_refl [simp]: "same_frame d d"
  by (simp add: same_frame_def)

lemma same_frame_trans: "same_frame d e \<Longrightarrow> same_frame e f \<Longrightarrow> same_frame d f"
  by (simp add: same_frame_def)

lemma newBlock_ok:
  assumes ok: "payload_ok n d" and less: "fd_payloadLength d < n"
    and full: "fd_currentPayloadBlockLength d = last_length (fd_payloadBlocks d)"
    and d': "d' = d\<lparr>fd_payloadBlocks := fd_payloadBlocks d @ [replicate (min PAYLOAD_BLOCK_SIZE (n - fd_payloadLength d)) 0],
      fd_currentPayloadBlock := Some (length (fd_payloadBlocks d)), fd_currentPayloadBlockLength := 0\<rparr>"
  shows "payload_ok n d' \<and> fd_payloadLength d' = fd_payloadLength d \<and> filled d' = filled d \<and> same_frame d d'
    \<and> fd_payloadBlocks d' \<noteq> [] \<and> fd_currentPayloadBlockLength d' < last_length (fd_payloadBlocks d')"
  using assms by (simp add: payload_ok_def filled_def same_frame_def last_length_def PAYLOAD_BLOCK_SIZE_def)

lemma currentBlock_ok:
  assumes ok: "payload_ok n d" and less: "fd_payloadLength d < n"
  shows "payload_ok n (currentBlock n d) \<and> fd_payloadLength (currentBlock n d) = fd_payloadLength d
    \<and> filled (currentBlock n d) = filled d \<and> same_frame d (currentBlock n d)
    \<and> fd_payloadBlocks (currentBlock n d) \<noteq> []
    \<and> fd_currentPayloadBlockLength (currentBlock n d) < last_length (fd_payloadBlocks (currentBlock n d))"
proof (cases "fd_payloadBlocks d = []")
  case True
  with ok have "fd_currentPayloadBlock d = None" "fd_currentPayloadBlockLength d = last_length (fd_payloadBlocks d)"
    by (simp_all add: payload_ok_def last_length_def)
  with newBlock_ok [OF ok less this(2) refl] show ?thesis by (simp add: currentBlock_def)
next
  case False
  with ok have cur: "fd_currentPayloadBlock d = Some (length (fd_payloadBlocks d) - 1)"
    and len: "length (fd_payloadBlocks d ! (length (fd_payloadBlocks d) - 1)) = last_length (fd_payloadBlocks d)"
    by (simp_all add: payload_ok_def last_length_def last_conv_nth)
  show ?thesis
  proof (cases "fd_currentPayloadBlockLength d = last_length (fd_payloadBlocks d)")
    case True
    from newBlock_ok [OF ok less True refl] True cur len show ?thesis by (simp add: currentBlock_def)
  next
    case notfull: False
    with ok cur len False show ?thesis by (simp add: currentBlock_def payload_ok_def)
  qed
qed

lemma fillBlock_ok:
  assumes ok: "payload_ok n d" and blocks: "fd_payloadBlocks d \<noteq> []"
    and room: "fd_currentPayloadBlockLength d < last_length (fd_payloadBlocks d)" and rest: "rest \<noteq> []"
  shows "\<exists>k d'. fillBlock rest d = (drop k rest, d') \<and> 0 < k \<and> k \<le> length rest \<and> payload_ok n d'
    \<and> fd_payloadLength d' = fd_payloadLength d + k \<and> filled d' = filled d @ take k rest \<and> same_frame d d'"
proof -
  define c where "c = fd_currentPayloadBlockLength d"
  obtain bs b where bb: "fd_payloadBlocks d = bs @ [b]" using blocks by (metis append_butlast_last_id)
  have cur: "fd_currentPayloadBlock d = Some (length bs)" using ok by (simp add: payload_ok_def bb)
  have c: "c < length b" using room by (simp add: c_def last_length_def bb)
  have pl: "fd_payloadLength d = length (concat bs) + c" and cap: "length (concat bs) + length b \<le> n"
    using ok by (simp_all add: payload_ok_def bb last_length_def c_def)
  define k where "k = min (length b - c) (length rest)"
  have k: "0 < k" "k \<le> length rest" "c + k \<le> length b" using c rest by (auto simp: k_def)
  define b' where "b' = put_at c (take k rest) b"
  have b': "length b' = length b" "take (c + k) b' = take c b @ take k rest"
    using k put_at_take [of c "take k rest" b] by (simp_all add: b'_def)
  let ?d = "d\<lparr>fd_payloadBlocks := bs @ [b'], fd_currentPayloadBlockLength := c + k,
      fd_payloadLength := fd_payloadLength d + k\<rparr>"
  have "fillBlock rest d = (drop k rest, ?d)"
    by (simp add: fillBlock_def cur bb Let_def c_def [symmetric] k_def [symmetric] b'_def [symmetric])
  moreover have "payload_ok n ?d" using k cap b' pl by (simp add: payload_ok_def last_length_def cur)
  moreover have "filled ?d = filled d @ take k rest"
  proof -
    have "filled ?d = concat bs @ take (c + k) b'" by (simp add: filled_def pl)
    also have "\<dots> = filled d @ take k rest" by (simp add: b' filled_def pl bb)
    finally show ?thesis .
  qed
  moreover have "same_frame d ?d" by (simp add: same_frame_def)
  ultimately show ?thesis using k by (intro exI [of _ k] exI [of _ ?d]) simp
qed

lemma fillPayload_ok:
  assumes "payload_ok n d" "k = min (length rest) (n - fd_payloadLength d)"
  shows "\<exists>d'. fillPayload n rest d = Some (drop k rest, d') \<and> payload_ok n d'
    \<and> fd_payloadLength d' = fd_payloadLength d + k \<and> filled d' = filled d @ take k rest \<and> same_frame d d'"
  using assms
proof (induction "length rest" arbitrary: rest d k rule: less_induct)
  case less
  show ?case
  proof (cases "rest \<noteq> [] \<and> fd_payloadLength d < n")
    case False
    with less.prems have "k = 0" by auto
    with False less.prems show ?thesis by (subst fillPayload.simps) auto
  next
    case True
    let ?e = "currentBlock n d"
    from currentBlock_ok [OF less.prems(1)] True have e: "payload_ok n ?e" "fd_payloadLength ?e = fd_payloadLength d"
      "filled ?e = filled d" "same_frame d ?e" "fd_payloadBlocks ?e \<noteq> []"
      "fd_currentPayloadBlockLength ?e < last_length (fd_payloadBlocks ?e)" by blast+
    from fillBlock_ok [OF e(1,5,6)] True obtain j f where f: "fillBlock rest ?e = (drop j rest, f)" "0 < j"
      "j \<le> length rest" "payload_ok n f" "fd_payloadLength f = fd_payloadLength ?e + j"
      "filled f = filled ?e @ take j rest" "same_frame ?e f" by blast
    have "fd_payloadLength f \<le> n" using f(4) by (simp add: payload_ok_def)
    then have room: "fd_payloadLength d + j \<le> n" unfolding f(5) e(2) .
    have k: "k = j + min (length (drop j rest)) (n - fd_payloadLength f)"
      unfolding less.prems(2) f(5) e(2) length_drop using f(3) room by arith
    have "length (drop j rest) < length rest" using f(2) True by simp
    from less.hyps [OF this f(4) refl] obtain d' where d': "fillPayload n (drop j rest) f =
        Some (drop (min (length (drop j rest)) (n - fd_payloadLength f)) (drop j rest), d')" "payload_ok n d'"
      "fd_payloadLength d' = fd_payloadLength f + min (length (drop j rest)) (n - fd_payloadLength f)"
      "filled d' = filled f @ take (min (length (drop j rest)) (n - fd_payloadLength f)) (drop j rest)"
      "same_frame f d'" by blast
    let ?m = "min (length (drop j rest)) (n - fd_payloadLength f)"
    have "fillPayload n rest d = Some (drop k rest, d')"
      using True d'(1) by (subst fillPayload.simps) (simp add: f(1) k add.commute)
    moreover have "filled d' = filled d @ take k rest"
      unfolding d'(4) f(6) e(3) k by (simp only: take_add append_assoc)
    moreover have "fd_payloadLength d' = fd_payloadLength d + k" unfolding d'(3) f(5) e(2) k by simp
    moreover have "same_frame d d'" using e(4) f(7) d'(5) by (blast intro: same_frame_trans)
    ultimately show ?thesis using d'(2) by blast
  qed
qed

lemma copyBlocks:
  assumes "length (concat blocks) \<le> length buf - i" "i \<le> length buf"
  shows "snd (fold (\<lambda>b (offset, payload). (offset + length b, put_at offset b payload)) blocks (i, buf)) =
    take i buf @ concat blocks @ drop (i + length (concat blocks)) buf"
  using assms
proof (induction blocks arbitrary: i buf)
  case (Cons b blocks)
  have len: "length (put_at i b buf) = length buf" "take (i + length b) (put_at i b buf) = take i buf @ b"
    using put_at_take [of i b buf] Cons.prems by simp_all
  have "drop (i + length b + m) (put_at i b buf) = drop (i + length b + m) buf" for m
    using Cons.prems by (simp add: put_at_def ac_simps)
  then show ?case using Cons.IH [of "put_at i b buf" "i + length b"] Cons.prems len
    by (simp add: add.assoc)
qed simp

lemma joinBlocks_concat:
  assumes "length (concat blocks) = n"
  shows "joinBlocks n blocks = concat blocks"
proof (cases "length blocks = 1")
  case True
  then obtain b where "blocks = [b]" by (cases blocks) auto
  then show ?thesis by (simp add: joinBlocks_def)
next
  case False
  then show ?thesis using copyBlocks [of blocks "replicate n 0" 0] assms by (simp add: joinBlocks_def)
qed

section \<open>The invariant of the decoder\<close>

definition decoder_ok :: "frame_decoder \<Rightarrow> bool" where
  "decoder_ok d =
     (fd_state d = Open \<and> length (fd_header d) = FRAME_HEADER_LENGTH \<and> fd_headerLength d < FRAME_HEADER_LENGTH
      \<and> (case fd_expectedPayloadLength d of
           None \<Rightarrow> True
         | Some n \<Rightarrow> fd_headerLength d = 0 \<and> headerValue (fd_header d) = n \<and> n \<le> fd_maxFrameLength d
             \<and> payload_ok n d \<and> fd_payloadLength d < n))"

text \<open>The bytes of the incomplete frame the decoder holds.\<close>

definition pending :: "frame_decoder \<Rightarrow> byte list" where
  "pending d =
     (case fd_expectedPayloadLength d of
        None \<Rightarrow> take (fd_headerLength d) (fd_header d)
      | Some n \<Rightarrow> fd_header d @ filled d)"

text \<open>What a push must do: the frames of the pending bytes and the chunk, or the failure.\<close>

definition pushes :: "nat \<Rightarrow> byte list \<Rightarrow> byte list list
    \<Rightarrow> ((frame_error + byte list list) \<times> frame_decoder) option \<Rightarrow> bool" where
  "pushes limit bs frames r =
     (case split_frames limit bs of
        (fs, None) \<Rightarrow> (\<exists>d'. r = Some (Inl FrameTooLong, d') \<and> fd_state d' = Failed)
      | (fs, Some left) \<Rightarrow> (\<exists>d'. r = Some (Inr (frames @ fs), d') \<and> decoder_ok d' \<and> pending d' = left
                             \<and> fd_maxFrameLength d' = limit))"

lemma pushes_prefix:
  assumes "split_frames limit bs = ([f], Some bs')"
  shows "pushes limit (bs @ cs) frames r = pushes limit (bs' @ cs) (frames @ [f]) r"
  by (simp add: pushes_def split_append [of limit bs] assms split: prod.split option.split)

lemma pending_split: "decoder_ok d \<Longrightarrow> split_frames (fd_maxFrameLength d) (pending d) = ([], Some (pending d))"
  by (auto simp: decoder_ok_def pending_def split_short split_header filled_def split: option.splits)

lemma takePayload_ok:
  assumes "payload_ok n d" "fd_payloadLength d < n" "k = min (length rest) (n - fd_payloadLength d)"
  shows "\<exists>d'. takePayload n rest frames d =
      (if length (filled d @ rest) < n then Some (drop k rest, frames, d')
       else Some (drop k rest, frames @ [take n (filled d @ rest)], finishPayload d'))
    \<and> payload_ok n d' \<and> fd_payloadLength d' = fd_payloadLength d + k \<and> filled d' = filled d @ take k rest
    \<and> same_frame d d'"
proof -
  from fillPayload_ok [OF assms(1,3)] obtain d' where d': "fillPayload n rest d = Some (drop k rest, d')"
    "payload_ok n d'" "fd_payloadLength d' = fd_payloadLength d + k" "filled d' = filled d @ take k rest"
    "same_frame d d'" by blast
  have fl: "length (filled d) = fd_payloadLength d" using assms(1) by (auto simp: filled_def payload_ok_def)
  have full: "fd_payloadLength d' = n \<longleftrightarrow> \<not> length (filled d @ rest) < n"
    unfolding d'(3) assms(3) length_append fl using assms(2) by arith
  have "joinBlocks n (fd_payloadBlocks d') = take n (filled d @ rest)" if n: "fd_payloadLength d' = n"
  proof -
    have len: "length (concat (fd_payloadBlocks d')) = n" using d'(2) n by (auto simp: payload_ok_def)
    have "k = n - fd_payloadLength d" using n d'(3) by simp
    then have "take n (filled d @ rest) = filled d'" using assms(2) by (simp add: d'(4) fl)
    also have "\<dots> = concat (fd_payloadBlocks d')" using len n by (simp add: filled_def)
    finally show ?thesis by (simp add: joinBlocks_concat [OF len])
  qed
  with d' full show ?thesis by (intro exI [of _ d']) (simp add: takePayload_def)
qed

section \<open>Pushing a chunk\<close>

text \<open>The part of the loop body that fills the payload, given that the rest of the loop is right.\<close>

lemma payload_step:
  assumes ok: "decoder_ok d" "fd_expectedPayloadLength d = Some n" "fd_maxFrameLength d = limit"
    and k: "k = min (length rest) (n - fd_payloadLength d)"
    and loop: "\<And>frames d'. decoder_ok d' \<Longrightarrow> fd_maxFrameLength d' = limit \<Longrightarrow>
      pushes limit (pending d' @ drop k rest) frames (pushLoop (drop k rest) frames d')"
  shows "pushes limit (pending d @ rest) frames
    (Option.bind (takePayload n rest frames d) (\<lambda>s. pushLoop (fst s) (fst (snd s)) (snd (snd s))))"
proof -
  from ok have d: "payload_ok n d" "fd_payloadLength d < n" "length (fd_header d) = FRAME_HEADER_LENGTH"
    "headerValue (fd_header d) = n" "n \<le> limit" "fd_headerLength d = 0" "fd_state d = Open"
    by (simp_all add: decoder_ok_def)
  have fl: "length (filled d) = fd_payloadLength d" using d(1) by (auto simp: filled_def payload_ok_def)
  from takePayload_ok [OF d(1,2) k, of frames] obtain d' where d': "takePayload n rest frames d =
      (if length (filled d @ rest) < n then Some (drop k rest, frames, d')
       else Some (drop k rest, frames @ [take n (filled d @ rest)], finishPayload d'))"
    "payload_ok n d'" "fd_payloadLength d' = fd_payloadLength d + k" "filled d' = filled d @ take k rest"
    "same_frame d d'" by blast
  show ?thesis
  proof (cases "length (filled d @ rest) < n")
    case True
    have all: "k = length rest" using True k fl by simp
    have "fd_payloadLength d' < n" using True fl by (simp add: d'(3) all)
    then have "decoder_ok d'" "fd_maxFrameLength d' = limit"
      using d d'(2,5) ok by (simp_all add: decoder_ok_def same_frame_def)
    from loop [OF this, of frames] have "pushes limit (pending d' @ drop k rest) frames (pushLoop (drop k rest) frames d')" .
    moreover have "pending d' = pending d @ rest"
      using d'(4,5) ok(2) by (simp add: pending_def all same_frame_def)
    ultimately show ?thesis using True d'(1) by (simp add: all)
  next
    case False
    have kn: "k = n - fd_payloadLength d" using False k fl by simp
    have fin: "decoder_ok (finishPayload d')" "fd_maxFrameLength (finishPayload d') = limit" "pending (finishPayload d') = []"
      using d d'(5) ok(3) by (simp_all add: decoder_ok_def finishPayload_def same_frame_def pending_def FRAME_HEADER_LENGTH_def)
    define payload where "payload = take n (filled d @ rest)"
    have len: "length payload = n" using False by (simp add: payload_def)
    have "filled d @ rest = payload @ drop n (filled d @ rest)" by (simp only: payload_def append_take_drop_id)
    also have "drop n (filled d @ rest) = drop k rest" using d(2) fl by (simp add: kn)
    finally have all: "pending d @ rest = (fd_header d @ payload) @ drop k rest"
      using ok(2) by (simp add: pending_def)
    have "split_frames limit (fd_header d @ payload) = ([payload], Some [])"
      using d(4,5) len by (simp add: split_header [OF d(3)] split_short FRAME_HEADER_LENGTH_def)
    from pushes_prefix [OF this, of "drop k rest" frames] loop [OF fin(1,2), of "frames @ [payload]"] fin(3)
    show ?thesis using False d'(1) by (simp add: all payload_def)
  qed
qed

lemma takeHeader_ok:
  assumes ok: "decoder_ok d" "fd_expectedPayloadLength d = None" and rest: "rest \<noteq> []"
  shows "\<exists>k h. takeHeader rest d = (drop k rest, d\<lparr>fd_header := h, fd_headerLength := fd_headerLength d + k\<rparr>)
    \<and> 0 < k \<and> k \<le> length rest \<and> length h = FRAME_HEADER_LENGTH
    \<and> fd_headerLength d + k \<le> FRAME_HEADER_LENGTH \<and> take (fd_headerLength d + k) h = pending d @ take k rest"
proof -
  let ?k = "min (FRAME_HEADER_LENGTH - fd_headerLength d) (length rest)"
  let ?h = "put_at (fd_headerLength d) (take ?k rest) (fd_header d)"
  from ok have d: "length (fd_header d) = FRAME_HEADER_LENGTH" "fd_headerLength d < FRAME_HEADER_LENGTH"
    by (simp_all add: decoder_ok_def)
  then have "fd_headerLength d + length (take ?k rest) \<le> length (fd_header d)" by simp
  from put_at_take [OF this] have "take (fd_headerLength d + ?k) ?h = pending d @ take ?k rest"
    "length ?h = FRAME_HEADER_LENGTH" using d ok(2) by (simp_all add: pending_def)
  then show ?thesis using d rest
    by (intro exI [of _ ?k] exI [of _ ?h]) (simp add: takeHeader_def Let_def)
qed

lemma pushLoop_ok:
  "decoder_ok d \<Longrightarrow> fd_maxFrameLength d = limit \<Longrightarrow>
     pushes limit (pending d @ rest) frames (pushLoop rest frames d)"
proof (induction "length rest" arbitrary: rest frames d rule: less_induct)
  case less
  show ?case
  proof (cases "rest = []")
    case True
    with pending_split [OF less.prems(1)] less.prems show ?thesis
      by (subst pushLoop.simps) (simp add: pushes_def)
  next
    case False
    show ?thesis
    proof (cases "fd_expectedPayloadLength d")
      case (Some n)
      define k where "k = min (length rest) (n - fd_payloadLength d)"
      have "fd_payloadLength d < n" using less.prems(1) Some by (simp add: decoder_ok_def)
      then have "length (drop k rest) < length rest" using False by (simp add: k_def)
      from payload_step [OF less.prems(1) Some less.prems(2) k_def less.hyps [OF this]]
      show ?thesis using False Some by (subst pushLoop.simps) simp
    next
      case None
      from takeHeader_ok [OF less.prems(1) None False] obtain k h where th:
        "takeHeader rest d = (drop k rest, d\<lparr>fd_header := h, fd_headerLength := fd_headerLength d + k\<rparr>)"
        "0 < k" "k \<le> length rest" "length h = FRAME_HEADER_LENGTH" "fd_headerLength d + k \<le> FRAME_HEADER_LENGTH"
        "take (fd_headerLength d + k) h = pending d @ take k rest" by blast
      let ?d = "d\<lparr>fd_header := h, fd_headerLength := fd_headerLength d + k\<rparr>"
      have shorter: "length (drop k rest) < length rest" using th(2) False by simp
      show ?thesis
      proof (cases "fd_headerLength d + k < FRAME_HEADER_LENGTH")
        case True
        have "decoder_ok ?d" "fd_maxFrameLength ?d = limit" "pending ?d = pending d @ take k rest"
          using less.prems True th(4,6) None by (simp_all add: decoder_ok_def pending_def)
        with less.hyps [OF shorter this(1,2), of frames] show ?thesis
          using False None True th(1) by (subst pushLoop.simps) simp
      next
        case full: False
        then have "h = pending d @ take k rest" using th(4-6) by simp
        then have all: "pending d @ rest = h @ drop k rest" by simp
        let ?e = "d\<lparr>fd_header := h, fd_headerLength := 0\<rparr>"
        have e: "decoder_ok ?e" "fd_maxFrameLength ?e = limit" "pending ?e = []"
          using less.prems th(4) None by (simp_all add: decoder_ok_def pending_def FRAME_HEADER_LENGTH_def)
        consider "headerValue h > limit" | "headerValue h = 0" | "0 < headerValue h" "headerValue h \<le> limit"
          by linarith
        then show ?thesis
        proof cases
          case 1
          then have "pushLoop rest frames d = Some (Inl FrameTooLong, failDecoder ?e)"
            using False None full th(1) less.prems(2) by (subst pushLoop.simps) (simp add: Let_def)
          with 1 show ?thesis by (simp add: all pushes_def split_header [OF th(4)] failDecoder_def)
        next
          case 2
          then have "split_frames limit h = ([[]], Some [])"
            using split_header [OF th(4), of limit "[]"] by (simp add: split_short FRAME_HEADER_LENGTH_def)
          from pushes_prefix [OF this, of "drop k rest" frames] less.hyps [OF shorter e(1,2), of "frames @ [[]]"] e(3) 2
          show ?thesis using False None full th(1) by (subst pushLoop.simps) (simp add: all Let_def)
        next
          case 3
          let ?s = "startPayload (headerValue h) ?e"
          have s: "decoder_ok ?s" "fd_expectedPayloadLength ?s = Some (headerValue h)" "fd_maxFrameLength ?s = limit"
            "pending ?s = h"
            using 3 e th(4) by (simp_all add: decoder_ok_def startPayload_def payload_ok_def last_length_def
                pending_def filled_def)
          from less.hyps have "pushes limit (pending d' @ drop j (drop k rest)) frames (pushLoop (drop j (drop k rest)) frames d')"
            if "decoder_ok d'" "fd_maxFrameLength d' = limit" for frames d' j
            using shorter that by simp
          from payload_step [OF s(1-3) refl this, of frames] s(4) 3 show ?thesis
            using False None full th(1) less.prems(2)
            by (subst pushLoop.simps) (simp add: all Let_def startPayload_def)
        qed
      qed
    qed
  qed
qed

end
