(* ===== verification/ByteStreams.thy ===== *)
theory ByteStreams
  imports Framing
begin

text \<open>
  The interface of an incremental decoder: a \<open>push\<close> consumes one chunk and returns the items it
  completes, or fails. Its contract is a function \<open>split\<close> on whole inputs. Inside the locale it is
  shown once that the way the input is cut into chunks does not matter; the frame decoder and the
  message decoder of the protocol are interpretations.
\<close>

text \<open>Pushing chunks one after another, up to the first failure.\<close>

fun pushAll :: "('c list \<Rightarrow> 'd \<Rightarrow> (('e + 'a list) \<times> 'd) option) \<Rightarrow> 'c list list \<Rightarrow> 'd
    \<Rightarrow> (('e + 'a list) \<times> 'd) option" where
  "pushAll push [] d = Some (Inr [], d)"
| "pushAll push (c # cs) d = Option.bind (push c d) (\<lambda>(r, d).
     case r of
       Inl e \<Rightarrow> Some (Inl e, d)
     | Inr fs \<Rightarrow> Option.bind (pushAll push cs d) (\<lambda>(r, d). Some (map_sum id ((@) fs) r, d)))"

locale incremental_decoder =
  fixes push :: "'c list \<Rightarrow> 'd \<Rightarrow> (('e + 'a list) \<times> 'd) option"
    and ok :: "'d \<Rightarrow> bool"
    and held :: "'d \<Rightarrow> 'c list"
    and config :: "'d \<Rightarrow> 'k"
    and split :: "'k \<Rightarrow> 'c list \<Rightarrow> 'a list \<times> 'c list option"
  assumes push_items: "ok d \<Longrightarrow> split (config d) (held d @ c) = (fs, Some left) \<Longrightarrow>
      \<exists>d'. push c d = Some (Inr fs, d') \<and> ok d' \<and> held d' = left \<and> config d' = config d"
    and push_fails: "ok d \<Longrightarrow> split (config d) (held d @ c) = (fs, None) \<Longrightarrow> \<exists>e d'. push c d = Some (Inl e, d')"
    and split_held: "ok d \<Longrightarrow> split (config d) (held d) = ([], Some (held d))"
    and split_append: "split k (xs @ ys) =
      (case split k xs of
         (fs, None) \<Rightarrow> (fs, None)
       | (fs, Some r) \<Rightarrow> (fs @ fst (split k (r @ ys)), snd (split k (r @ ys))))"
begin

lemma pushAll_items:
  "ok d \<Longrightarrow> split (config d) (held d @ concat cs) = (fs, Some left) \<Longrightarrow>
     \<exists>d'. pushAll push cs d = Some (Inr fs, d') \<and> ok d' \<and> held d' = left \<and> config d' = config d"
proof (induction cs arbitrary: d fs)
  case Nil then show ?case using split_held by simp
next
  case (Cons c cs)
  from Cons.prems(2) have sp: "split (config d) ((held d @ c) @ concat cs) = (fs, Some left)" by simp
  then obtain gs r where g: "split (config d) (held d @ c) = (gs, Some r)"
    unfolding split_append [of _ "held d @ c"] by (auto split: prod.splits option.splits)
  with sp have rest: "split (config d) (r @ concat cs) = (drop (length gs) fs, Some left)" "fs = gs @ drop (length gs) fs"
    unfolding split_append [of _ "held d @ c"] by (auto simp: prod_eq_iff)
  from push_items [OF Cons.prems(1) g] obtain d1 where d1: "push c d = Some (Inr gs, d1)" "ok d1"
    "held d1 = r" "config d1 = config d" by blast
  from Cons.IH [OF d1(2)] rest(1) d1 obtain d' where "pushAll push cs d1 = Some (Inr (drop (length gs) fs), d')"
    "ok d'" "held d' = left" "config d' = config d" by auto
  with d1(1) rest(2) show ?case by simp
qed

lemma pushAll_fails:
  "ok d \<Longrightarrow> split (config d) (held d @ concat cs) = (fs, None) \<Longrightarrow> \<exists>e d'. pushAll push cs d = Some (Inl e, d')"
proof (induction cs arbitrary: d fs)
  case Nil then show ?case using split_held by simp
next
  case (Cons c cs)
  from Cons.prems(2) have sp: "split (config d) ((held d @ c) @ concat cs) = (fs, None)" by simp
  show ?case
  proof (cases "snd (split (config d) (held d @ c))")
    case None
    then have "split (config d) (held d @ c) = (fst (split (config d) (held d @ c)), None)" by (simp add: prod_eq_iff)
    from push_fails [OF Cons.prems(1) this] show ?thesis by auto
  next
    case (Some r)
    then obtain gs where g: "split (config d) (held d @ c) = (gs, Some r)" by (metis prod.collapse)
    with sp have rest: "snd (split (config d) (r @ concat cs)) = None"
      unfolding split_append [of _ "held d @ c"] by (auto simp: prod_eq_iff)
    from push_items [OF Cons.prems(1) g] obtain d1 where d1: "push c d = Some (Inr gs, d1)" "ok d1"
      "held d1 = r" "config d1 = config d" by blast
    from Cons.IH [OF d1(2), of "fst (split (config d) (r @ concat cs))"] rest d1
    obtain e d' where "pushAll push cs d1 = Some (Inl e, d')" by (auto simp: prod_eq_iff)
    with d1(1) show ?thesis by simp
  qed
qed

lemma pushAll_returns: "ok d \<Longrightarrow> \<exists>r d'. pushAll push cs d = Some (r, d')"
proof -
  assume ok: "ok d"
  obtain fs l where "split (config d) (held d @ concat cs) = (fs, l)" by (cases "split (config d) (held d @ concat cs)")
  then show ?thesis using pushAll_items [OF ok, of cs fs] pushAll_fails [OF ok, of cs fs] by (cases l) blast+
qed

text \<open>Two ways of cutting the same input give the same items, or both fail.\<close>

lemma chunking_irrelevant:
  assumes "ok d" "concat cs = concat cs'"
  shows "(\<exists>fs d1 d2. pushAll push cs d = Some (Inr fs, d1) \<and> pushAll push cs' d = Some (Inr fs, d2)
      \<and> ok d1 \<and> ok d2 \<and> held d1 = held d2)
    \<or> (\<exists>e e' d1 d2. pushAll push cs d = Some (Inl e, d1) \<and> pushAll push cs' d = Some (Inl e', d2))"
proof -
  obtain fs l where s: "split (config d) (held d @ concat cs) = (fs, l)"
    by (cases "split (config d) (held d @ concat cs)")
  note s' = s [unfolded assms(2)]
  show ?thesis
  proof (cases l)
    case None
    from pushAll_fails [OF assms(1) s [unfolded None]] pushAll_fails [OF assms(1) s' [unfolded None]]
    show ?thesis by blast
  next
    case (Some r)
    from pushAll_items [OF assms(1) s [unfolded Some]] pushAll_items [OF assms(1) s' [unfolded Some]]
    show ?thesis by metis
  qed
qed

end

section \<open>The frame decoder is one\<close>

lemma pushFrames_ok:
  assumes "decoder_ok d"
  shows "pushes (fd_maxFrameLength d) (pending d @ c) [] (pushFrames c d)"
proof -
  have "pushFrames c d = pushLoop c [] d" using assms by (simp add: pushFrames_def decoder_ok_def)
  with pushLoop_ok [OF assms refl] show ?thesis by simp
qed

interpretation frames: incremental_decoder pushFrames decoder_ok pending fd_maxFrameLength split_frames
proof unfold_locales
  fix d :: frame_decoder and c fs left
  assume "decoder_ok d" "split_frames (fd_maxFrameLength d) (pending d @ c) = (fs, Some left)"
  with pushFrames_ok [of d c] show "\<exists>d'. pushFrames c d = Some (Inr fs, d') \<and> decoder_ok d' \<and> pending d' = left
      \<and> fd_maxFrameLength d' = fd_maxFrameLength d" by (simp add: pushes_def)
next
  fix d :: frame_decoder and c fs
  assume "decoder_ok d" "split_frames (fd_maxFrameLength d) (pending d @ c) = (fs, None)"
  with pushFrames_ok [of d c] show "\<exists>e d'. pushFrames c d = Some (Inl e, d')" by (auto simp: pushes_def)
next
  fix d show "decoder_ok d \<Longrightarrow> split_frames (fd_maxFrameLength d) (pending d) = ([], Some (pending d))"
    by (rule pending_split)
next
  fix k xs ys show "split_frames k (xs @ ys) =
      (case split_frames k xs of
         (fs, None) \<Rightarrow> (fs, None)
       | (fs, Some r) \<Rightarrow> (fs @ fst (split_frames k (r @ ys)), snd (split_frames k (r @ ys))))"
    by (rule split_append)
qed

end
