(* ===== verification/FrameProps.thy ===== *)
theory FrameProps
  imports ByteStreams
begin

text \<open>
  Encoding frames and decoding them again: the header bytes and their value determine each other,
  every sequence of encoded frames splits into its payloads, and the properties of the framing layer.
\<close>

lemma header_bytes: "length h = FRAME_HEADER_LENGTH \<Longrightarrow> \<exists>a b c d. h = [a, b, c, d]"
  by (auto simp: FRAME_HEADER_LENGTH_def numeral_eq_Suc length_Suc_conv)

lemma headerValue_be_nat:
  assumes "length h = FRAME_HEADER_LENGTH"
  shows "headerValue h = be_nat h"
proof -
  from header_bytes [OF assms] obtain a b c d where "h = [a, b, c, d]" by blast
  then show ?thesis by (simp add: headerValue_def be_nat_simps)
qed

lemma length_be32 [simp]: "length (be32 n) = FRAME_HEADER_LENGTH"
  by (simp add: be32_def FRAME_HEADER_LENGTH_def)

lemma headerValue_be32: "n \<le> MAX_UINT32 \<Longrightarrow> headerValue (be32 n @ rest) = n"
  by (simp add: headerValue_append headerValue_be_nat be_nat_be32 MAX_UINT32_def)

lemma byte_low: "(of_nat (q * 256 + unat e) :: byte) = e"
proof -
  have "(of_nat (q * 256) :: byte) = of_nat q * of_nat 256" by (rule of_nat_mult)
  also have "(of_nat 256 :: byte) = 0" by simp
  finally have "(of_nat (q * 256) :: byte) = 0" by (simp only: mult_zero_right)
  then show ?thesis by (simp only: of_nat_add byte_unat add_0)
qed

lemma be32_headerValue:
  assumes "length h = FRAME_HEADER_LENGTH"
  shows "be32 (headerValue h) = h"
proof -
  from header_bytes [OF assms] obtain a b c d where h: "h = [a, b, c, d]" by blast
  have lt: "unat a < 256" "unat b < 256" "unat c < 256" "unat d < 256" by (rule unat_byte_lt)+
  define x where "x = unat a * 16777216 + unat b * 65536 + unat c * 256 + unat d"
  have step: "(q * 256 + r) div 256 = q" if "r < 256" for q r :: nat using that by simp
  have x: "x = ((unat a * 256 + unat b) * 256 + unat c) * 256 + unat d" by (simp add: x_def)
  have d1: "x div 256 = (unat a * 256 + unat b) * 256 + unat c" unfolding x by (rule step [OF lt(4)])
  have d2: "x div 65536 = unat a * 256 + unat b"
    using step [OF lt(3), of "unat a * 256 + unat b"] by (simp add: div_mult2_eq [of x 256 256, simplified] d1)
  have d3: "x div 16777216 = unat a"
    using step [OF lt(2), of "unat a"] by (simp add: div_mult2_eq [of x 65536 256, simplified] d2)
  have "be32 x = [of_nat (x div 16777216), of_nat (x div 65536), of_nat (x div 256), of_nat x]"
    by (simp add: be32_def)
  also have "\<dots> = [of_nat (unat a), of_nat (unat a * 256 + unat b),
      of_nat ((unat a * 256 + unat b) * 256 + unat c), of_nat (((unat a * 256 + unat b) * 256 + unat c) * 256 + unat d)]"
    unfolding d1 d2 d3 by (simp only: x)
  also have "\<dots> = [a, b, c, d]" by (simp only: byte_low byte_unat)
  finally have "be32 x = [a, b, c, d]" .
  then show ?thesis by (simp add: h headerValue_def x_def)
qed

lemma encodeFrame_eq:
  assumes "length p \<le> MAX_UINT32"
  shows "encodeFrame p = Inr (be32 (length p) @ p)"
proof -
  have "replicate (FRAME_HEADER_LENGTH + n) 0 = (0 :: byte) # 0 # 0 # 0 # replicate n 0" for n
    unfolding FRAME_HEADER_LENGTH_def replicate_add by (simp add: replicate_numeral_unroll)
  with assms show ?thesis by (simp add: encodeFrame_def Let_def be32_def put_at_def FRAME_HEADER_LENGTH_def)
qed

lemma encodeFrame_Inr: "encodeFrame p = Inr f \<longleftrightarrow> length p \<le> MAX_UINT32 \<and> f = be32 (length p) @ p"
  using encodeFrame_eq [of p] by (cases "length p \<le> MAX_UINT32") (auto simp: encodeFrame_def)

lemma resolveMaxFrameLength_bound: "resolveMaxFrameLength m = Inr limit \<Longrightarrow> limit \<le> MAX_UINT32"
  by (auto simp: resolveMaxFrameLength_def Let_def split: if_splits)

lemma newFrameDecoder_ok:
  assumes "newFrameDecoder m = Inr d"
  shows "decoder_ok d \<and> pending d = [] \<and> fd_maxFrameLength d \<le> MAX_UINT32
    \<and> resolveMaxFrameLength m = Inr (fd_maxFrameLength d)"
  using assms resolveMaxFrameLength_bound [of m]
  by (auto simp: newFrameDecoder_def decoder_ok_def pending_def FRAME_HEADER_LENGTH_def)

lemma split_encoded:
  assumes "list_all2 (\<lambda>p f. encodeFrame p = Inr f \<and> length p \<le> limit) ps fs"
  shows "split_frames limit (concat fs) = (ps, Some [])"
  using assms
proof (induction rule: list_all2_induct)
  case Nil then show ?case by (simp add: split_short FRAME_HEADER_LENGTH_def)
next
  case (Cons p ps f fs)
  then have f: "f = be32 (length p) @ p" "length p \<le> MAX_UINT32" "length p \<le> limit" by (simp_all add: encodeFrame_Inr)
  have "headerValue (be32 (length p)) = length p" using headerValue_be32 [OF f(2), of "[]"] by simp
  with Cons.IH f show ?case by (simp add: split_header)
qed

lemma pending_Nil_iff:
  "decoder_ok d \<Longrightarrow> pending d = [] \<longleftrightarrow> fd_headerLength d = 0 \<and> fd_expectedPayloadLength d = None"
  by (auto simp: decoder_ok_def pending_def FRAME_HEADER_LENGTH_def split: option.splits)

lemma endFrames_open:
  assumes "decoder_ok d"
  shows "fst (endFrames d) = (if pending d = [] then Inr () else Inl TruncatedFrame)"
  using assms pending_Nil_iff [OF assms] by (auto simp: endFrames_def decoder_ok_def)

section \<open>Properties\<close>

text \<open>
  A push returns on every decoder that has not ended or failed, whatever the sizes of the chunk and
  of the payload blocks: it returns exactly the payloads of the complete frames in the bytes held so
  far followed by the chunk, and holds the rest; a length prefix over the limit makes it fail.
\<close>

theorem frames_push_refines:
  assumes "decoder_ok d"
  shows "(\<exists>fs left d'. split_frames (fd_maxFrameLength d) (pending d @ chunk) = (fs, Some left)
      \<and> pushFrames chunk d = Some (Inr fs, d') \<and> decoder_ok d' \<and> pending d' = left)
    \<or> (\<exists>fs d'. split_frames (fd_maxFrameLength d) (pending d @ chunk) = (fs, None)
      \<and> pushFrames chunk d = Some (Inl FrameTooLong, d') \<and> fd_state d' = Failed)"
  using pushFrames_ok [OF assms, of chunk] by (auto simp: pushes_def split: prod.splits option.splits)

text \<open>
  Frames survive any chunking of the stream: feeding a new decoder the concatenation of encoded
  frames within the limit, cut into chunks in any way, yields exactly their payloads, and the stream
  may then be ended.
\<close>

theorem frames_roundtrip:
  assumes "newFrameDecoder m = Inr d"
    and "list_all2 (\<lambda>p f. encodeFrame p = Inr f \<and> length p \<le> fd_maxFrameLength d) ps fs"
    and "concat cs = concat fs"
  shows "\<exists>d'. pushAll pushFrames cs d = Some (Inr ps, d') \<and> fst (endFrames d') = Inr ()"
proof -
  from newFrameDecoder_ok [OF assms(1)] have d: "decoder_ok d" "pending d = []" by simp_all
  have "split_frames (fd_maxFrameLength d) (pending d @ concat cs) = (ps, Some [])"
    using split_encoded [OF assms(2)] d(2) assms(3) by simp
  from frames.pushAll_items [OF d(1) this] endFrames_open show ?thesis by auto
qed

text \<open>
  The way a stream is cut into chunks never changes what the decoder returns: the same frames, or a
  failure in both cases.
\<close>

theorem frames_chunking:
  assumes "newFrameDecoder m = Inr d" "concat cs = concat cs'"
  shows "(\<exists>fs d1 d2. pushAll pushFrames cs d = Some (Inr fs, d1) \<and> pushAll pushFrames cs' d = Some (Inr fs, d2)
      \<and> fst (endFrames d1) = fst (endFrames d2))
    \<or> (\<exists>e e' d1 d2. pushAll pushFrames cs d = Some (Inl e, d1) \<and> pushAll pushFrames cs' d = Some (Inl e', d2))"
  using frames.chunking_irrelevant [OF _ assms(2), of d] newFrameDecoder_ok [OF assms(1)] endFrames_open by metis

text \<open>
  \<open>assertCompleteFrame\<close> accepts exactly the outputs of \<open>encodeFrame\<close> whose payload is within the
  limit.
\<close>

theorem assertCompleteFrame_iff:
  "assertCompleteFrame f m = Inr () \<longleftrightarrow>
     (\<exists>p limit. resolveMaxFrameLength m = Inr limit \<and> length p \<le> limit \<and> encodeFrame p = Inr f)"
proof
  assume ok: "assertCompleteFrame f m = Inr ()"
  then obtain limit where l: "resolveMaxFrameLength m = Inr limit" "FRAME_HEADER_LENGTH \<le> length f"
    "headerValue f \<le> limit" "length f = FRAME_HEADER_LENGTH + headerValue f"
    by (auto simp: assertCompleteFrame_def Let_def split: if_splits)
  define h p where "h = take FRAME_HEADER_LENGTH f" and "p = drop FRAME_HEADER_LENGTH f"
  have f: "f = h @ p" and h: "length h = FRAME_HEADER_LENGTH" using l(2) by (simp_all add: h_def p_def)
  have p: "length p = headerValue h" using l(4) h by (simp add: f headerValue_append)
  then have "length p \<le> limit" using l(3) h by (simp add: f headerValue_append)
  with resolveMaxFrameLength_bound [OF l(1)] have "encodeFrame p = Inr f"
    using be32_headerValue [OF h] by (simp add: encodeFrame_eq p f)
  with l(1) \<open>length p \<le> limit\<close> show "\<exists>p limit. resolveMaxFrameLength m = Inr limit \<and> length p \<le> limit \<and> encodeFrame p = Inr f"
    by blast
next
  assume "\<exists>p limit. resolveMaxFrameLength m = Inr limit \<and> length p \<le> limit \<and> encodeFrame p = Inr f"
  then obtain p limit where p: "resolveMaxFrameLength m = Inr limit" "length p \<le> limit" "length p \<le> MAX_UINT32"
    "f = be32 (length p) @ p" by (auto simp: encodeFrame_Inr)
  then show "assertCompleteFrame f m = Inr ()"
    by (simp add: assertCompleteFrame_def headerValue_be32 Let_def)
qed

text \<open>
  Once a push has failed, the decoder stays failed: it holds nothing, and every later push and the
  end of the stream are refused.
\<close>

theorem frames_failure_final:
  assumes "decoder_ok d" "pushFrames chunk d = Some (Inl e, d')"
  shows "e = FrameTooLong \<and> pushFrames chunk' d' = Some (Inl DecoderFailed, d') \<and> endFrames d' = (Inl DecoderFailed, d')"
  using pushFrames_ok [OF assms(1), of chunk] assms(2)
  by (auto simp: pushes_def pushFrames_def endFrames_def split: prod.splits option.splits)

section \<open>Witnesses\<close>

definition demo_frames :: frame_decoder where
  "demo_frames = \<lparr>fd_header = [0, 0, 0, 0], fd_headerLength = 0, fd_maxFrameLength = 16,
     fd_payloadBlocks = [], fd_currentPayloadBlock = None, fd_currentPayloadBlockLength = 0,
     fd_expectedPayloadLength = None, fd_payloadLength = 0, fd_state = Open\<rparr>"

lemma demo_frames_new: "newFrameDecoder (Some (int_num 16)) = Inr demo_frames"
  using int_num_safe [of 16]
  by (simp add: newFrameDecoder_def resolveMaxFrameLength_def demo_frames_def max_safe_def MAX_UINT32_def
      FRAME_HEADER_LENGTH_def replicate_numeral_unroll)

lemma demo_frames_ok: "decoder_ok demo_frames"
  using newFrameDecoder_ok [OF demo_frames_new] by simp

theorem frames_push_refines_witness:
  "(\<exists>fs left d'. split_frames (fd_maxFrameLength demo_frames) (pending demo_frames @ [0, 0, 0, 2, 7]) = (fs, Some left)
      \<and> pushFrames [0, 0, 0, 2, 7] demo_frames = Some (Inr fs, d') \<and> decoder_ok d' \<and> pending d' = left)
    \<or> (\<exists>fs d'. split_frames (fd_maxFrameLength demo_frames) (pending demo_frames @ [0, 0, 0, 2, 7]) = (fs, None)
      \<and> pushFrames [0, 0, 0, 2, 7] demo_frames = Some (Inl FrameTooLong, d') \<and> fd_state d' = Failed)"
  by (rule frames_push_refines [OF demo_frames_ok])

lemma demo_frames_enc: "encodeFrame [7, 8] = Inr [0, 0, 0, 2, 7, 8]" "encodeFrame [] = Inr [0, 0, 0, 0]"
  using encodeFrame_eq [of "[7, 8]"] encodeFrame_eq [of "[]"] by (simp_all add: be32_def MAX_UINT32_def)

theorem frames_roundtrip_witness:
  "\<exists>d'. pushAll pushFrames [[0, 0], [0, 2, 7], [], [8, 0, 0, 0, 0]] demo_frames = Some (Inr [[7, 8], []], d')
     \<and> fst (endFrames d') = Inr ()"
  by (rule frames_roundtrip [OF demo_frames_new, of _ "[[0, 0, 0, 2, 7, 8], [0, 0, 0, 0]]"])
    (simp_all add: demo_frames_enc demo_frames_def)

theorem frames_chunking_witness:
  "(\<exists>fs d1 d2. pushAll pushFrames [[0, 0], [0, 2, 7]] demo_frames = Some (Inr fs, d1)
      \<and> pushAll pushFrames [[0, 0, 0, 2, 7]] demo_frames = Some (Inr fs, d2) \<and> fst (endFrames d1) = fst (endFrames d2))
    \<or> (\<exists>e e' d1 d2. pushAll pushFrames [[0, 0], [0, 2, 7]] demo_frames = Some (Inl e, d1)
      \<and> pushAll pushFrames [[0, 0, 0, 2, 7]] demo_frames = Some (Inl e', d2))"
  by (rule frames_chunking [OF demo_frames_new]) simp

lemma demo_frames_fail: "pushFrames [0, 0, 0, 17] demo_frames =
    Some (Inl FrameTooLong, failDecoder (demo_frames\<lparr>fd_header := [0, 0, 0, 17]\<rparr>))"
  by (simp add: pushFrames_def demo_frames_def pushLoop.simps takeHeader_def headerValue_def put_at_def
      FRAME_HEADER_LENGTH_def Let_def)

theorem frames_failure_final_witness:
  "FrameTooLong = FrameTooLong
   \<and> pushFrames [1] (failDecoder (demo_frames\<lparr>fd_header := [0, 0, 0, 17]\<rparr>))
       = Some (Inl DecoderFailed, failDecoder (demo_frames\<lparr>fd_header := [0, 0, 0, 17]\<rparr>))
   \<and> endFrames (failDecoder (demo_frames\<lparr>fd_header := [0, 0, 0, 17]\<rparr>))
       = (Inl DecoderFailed, failDecoder (demo_frames\<lparr>fd_header := [0, 0, 0, 17]\<rparr>))"
  by (rule frames_failure_final [OF demo_frames_ok demo_frames_fail])

end
