(* ===== verification/CborRoundtrip.thy ===== *)
theory CborRoundtrip
  imports CborDecoder
begin

text \<open>
  The contract between the CBOR encoder and the decoder: whatever the encoder writes, the decoder
  reads as the tree the value denotes, under the same options; encoding never loops on a
  cyclic value but reports an error; the output respects the byte limit. The induction follows the
  encoder's recursion, array elements and map entries being handled by the two loop lemmas.
\<close>

section \<open>Leaf items\<close>

lemma finite_safe: "num_is_safe d \<Longrightarrow> num_finite d"
  by (simp add: num_is_safe_def num_is_integer_def)

lemma safe_abs: "num_is_safe d \<Longrightarrow> nat \<bar>num_int d\<bar> \<le> max_safe"
  by (simp add: num_is_safe_def num_int_def)

text \<open>Reading an item whose first byte has a given major type.\<close>

lemma readItem_at:
  assumes "depth \<le> maxDepth opts" "m < 8" "i < 32"
  shows "readItem depth opts (reader_at pre (of_nat (push_bit 5 m OR i) # rest)) =
    readMajor (readItem (depth + 1) opts) opts m i (reader_at (pre @ [of_nat (push_bit 5 m OR i)]) rest)"
  using assms(1) initial_byte [OF assms(2,3)] by (subst readItem.simps) (simp add: readByte_at)

lemma reads_major:
  assumes "depth \<le> maxDepth opts" "m < 8" "i < 32"
    and "reads (readMajor (readItem (depth + 1) opts) opts m i) bs t"
  shows "reads (readItem depth opts) (of_nat (push_bit 5 m OR i) # bs) t"
  using readItem_at [OF assms(1-3)] readsD [OF assms(4)] by (intro readsI) simp

lemma reads_head:
  assumes "depth \<le> maxDepth opts" "m < 8"
    and "reads (readMajor (readItem (depth + 1) opts) opts m (head_info v)) (head_tail v @ bs) t"
  shows "reads (readItem depth opts) (head_bytes m v @ bs) t"
  using reads_major [OF assms(1,2) head_info_lt assms(3)] by (simp add: head_bytes_def)

lemma reads_ext: "reads f bs x \<Longrightarrow> (\<And>r. g r = f r) \<Longrightarrow> reads g bs x"
  by (simp add: reads_def)

lemma reads_nonneg:
  assumes "depth \<le> maxDepth opts" "v \<le> max_safe"
  shows "reads (readItem depth opts) (head_bytes 0 v) (CNum (int_num (int v)))"
proof -
  have "reads (readMajor (readItem (depth + 1) opts) opts 0 (head_info v)) (head_tail v @ [])
      (CNum (int_num (int v)))"
    using readsD [OF reads_readArgument [OF assms(2)]] by (intro readsI) (simp add: readMajor_def)
  from reads_head [OF assms(1) _ this] show ?thesis by simp
qed

lemma reads_neg:
  assumes "depth \<le> maxDepth opts" "v < max_safe"
  shows "reads (readItem depth opts) (head_bytes 1 v) (CNum (int_num (- 1 - int v)))"
proof -
  from assms(2) have "reads (readArgument (head_info v)) (head_tail v) v" by (intro reads_readArgument) simp
  from readsD [OF this] assms(2)
  have "reads (readMajor (readItem (depth + 1) opts) opts 1 (head_info v)) (head_tail v @ [])
      (CNum (int_num (- 1 - int v)))"
    by (intro readsI) (simp add: readMajor_def Let_def)
  from reads_head [OF assms(1) _ this] show ?thesis by simp
qed

lemma reads_bytes_item:
  assumes "depth \<le> maxDepth opts" "length bs \<le> max_safe" "length bs \<le> maxByteLength opts"
  shows "reads (readItem depth opts) (head_bytes 2 (length bs) @ bs) (CBytes bs)"
proof -
  have "reads (readMajor (readItem (depth + 1) opts) opts 2 (head_info (length bs)))
      (head_tail (length bs) @ bs) (CBytes bs)"
    using readsD [OF reads_readLength [OF assms(2,3)]] readsD [OF reads_readBytes [OF refl, of bs]]
    by (intro readsI) (simp add: readMajor_def)
  from reads_head [OF assms(1) _ this] show ?thesis by simp
qed

lemma reads_text_item:
  assumes "depth \<le> maxDepth opts" "length (utf8_encode s) \<le> max_safe"
    "length (utf8_encode s) \<le> maxByteLength opts" "utf8_decode (utf8_encode s) = Some s"
  shows "reads (readItem depth opts) (head_bytes 3 (length (utf8_encode s)) @ utf8_encode s) (CStr s)"
proof -
  have "reads (readMajor (readItem (depth + 1) opts) opts 3 (head_info (length (utf8_encode s))))
      (head_tail (length (utf8_encode s)) @ utf8_encode s) (CStr s)"
    using readsD [OF reads_readLength [OF assms(2,3)]] assms(4)
      readsD [OF reads_readBytes [OF refl, of "utf8_encode s"]]
    by (intro readsI) (simp add: readMajor_def)
  from reads_head [OF assms(1) _ this] show ?thesis by simp
qed

lemma simple_bytes:
  "(0xf6 :: byte) = of_nat (push_bit 5 7 OR 22)" "(0xf5 :: byte) = of_nat (push_bit 5 7 OR 21)"
  "(0xf4 :: byte) = of_nat (push_bit 5 7 OR 20)" "(0xfb :: byte) = of_nat (push_bit 5 7 OR 27)"
  by simp_all

lemma reads_simple_item:
  assumes "depth \<le> maxDepth opts" "i < 32" "reads (readSimple i) bs t"
  shows "reads (readItem depth opts) (of_nat (push_bit 5 7 OR i) # bs) t"
  by (rule reads_major [OF assms(1) _ assms(2)], simp, rule reads_ext [OF assms(3)]) (simp add: readMajor_def)

lemma reads_null: "depth \<le> maxDepth opts \<Longrightarrow> reads (readItem depth opts) [0xf6] CNull"
  unfolding simple_bytes by (rule reads_simple_item) (simp_all add: reads_def readSimple_def)

lemma reads_bool:
  assumes "depth \<le> maxDepth opts"
  shows "reads (readItem depth opts) [if b then 0xf5 else 0xf4] (CBool b)"
proof -
  have "reads (readSimple 21) [] (CBool True)" "reads (readSimple 20) [] (CBool False)"
    by (simp_all add: reads_def readSimple_def)
  from this [THEN reads_simple_item [OF assms, rotated]] show ?thesis
    unfolding simple_bytes by (cases b) simp_all
qed

lemma reads_float:
  assumes "depth \<le> maxDepth opts" "num_finite d" "num_is_integer d \<longrightarrow> num_is_safe d"
  shows "reads (readItem depth opts) (0xfb # be64 d) (CNum d)"
proof -
  have "reads (readSimple 27) (be64 d) (CNum d)"
    using readsD [OF reads_readBytes [of 8 "be64 d"]] assms(2,3)
    by (intro readsI) (simp add: readSimple_def Let_def)
  then show ?thesis unfolding simple_bytes by (intro reads_simple_item [OF assms(1)]) simp_all
qed

section \<open>What one encoding step guarantees\<close>

text \<open>\<open>wrote w w' bs\<close>: the writer went from \<open>w\<close> to \<open>w'\<close> by appending \<open>bs\<close>.\<close>

definition wrote :: "cbor_writer \<Rightarrow> cbor_writer \<Rightarrow> byte list \<Rightarrow> bool" where
  "wrote w w' bs = (writer_ok w' \<and> finish w' = finish w @ bs \<and> w_maxByteLength w' = w_maxByteLength w)"

lemma appended_wrote: "appended bs w (Inr w') \<Longrightarrow> wrote w w' bs"
  by (auto simp: appended_def wrote_def split: if_splits)

lemma wrote_refl: "writer_ok w \<Longrightarrow> wrote w w []"
  by (simp add: wrote_def)

lemma wrote_trans: "wrote w w1 bs \<Longrightarrow> wrote w1 w2 cs \<Longrightarrow> wrote w w2 (bs @ cs)"
  by (simp add: wrote_def)

lemma writeArgument_wrote:
  "writer_ok w \<Longrightarrow> writeArgument m v w = Inr w' \<Longrightarrow> wrote w w' (head_bytes m v)"
  using writeArgument_appends [of w m v] by (simp add: appended_wrote)

lemma writeBytes_wrote: "writer_ok w \<Longrightarrow> writeBytes bs w = Inr w' \<Longrightarrow> wrote w w' bs"
  using writeBytes_appends [of w bs] by (simp add: appended_wrote)

lemma writeByte_wrote: "writer_ok w \<Longrightarrow> writeByte v w = Inr w' \<Longrightarrow> wrote w w' [of_nat v]"
  using writeByte_appends [of w v] by (simp add: appended_wrote)

lemma wrote_ok: "wrote w w' bs \<Longrightarrow> writer_ok w'"
  by (simp add: wrote_def)

lemma wrote_bound: "wrote w w' bs \<Longrightarrow> length bs \<le> w_maxByteLength w"
  using length_finish [of w'] by (auto simp: wrote_def writer_ok_def)

definition opts_ok :: "cbor_options \<Rightarrow> bool" where
  "opts_ok opts = (maxByteLength opts \<le> MAX_UINT32 \<and> maxContainerLength opts \<le> MAX_UINT32)"

lemma uint32_safe: "n \<le> MAX_UINT32 \<Longrightarrow> n \<le> max_safe"
  by (simp add: MAX_UINT32_def max_safe_def)

lemma encodeText_wrote:
  assumes "writer_ok w" "encodeText opts s w = Inr w'" "opts_ok opts" "depth \<le> maxDepth opts"
  shows "\<exists>bs. wrote w w' bs \<and> reads (readItem depth opts) bs (CStr s)"
proof -
  let ?b = "utf8_encode s"
  from assms(2) obtain w1 where h: "length ?b \<le> maxByteLength opts" "utf8_decode ?b = Some s"
    "writeArgument 3 (length ?b) w = Inr w1" "writeBytes ?b w1 = Inr w'"
    by (auto simp: encodeText_def Let_def split: if_splits)
  from writeArgument_wrote [OF assms(1) h(3)] have 1: "wrote w w1 (head_bytes 3 (length ?b))" .
  from wrote_trans [OF 1 writeBytes_wrote [OF wrote_ok [OF 1] h(4)]]
  have "wrote w w' (head_bytes 3 (length ?b) @ ?b)" .
  moreover have "length ?b \<le> max_safe" using h(1) assms(3) by (auto simp: opts_ok_def intro: uint32_safe)
  ultimately show ?thesis using reads_text_item [OF assms(4) _ h(1,2)] by blast
qed

lemma encodeNumber_wrote:
  assumes "writer_ok w" "encodeNumber d w = Inr w'" "depth \<le> maxDepth opts"
  shows "\<exists>bs. wrote w w' bs \<and> reads (readItem depth opts) bs (CNum d)"
proof (cases "num_is_integer d \<and> \<not> num_negzero d")
  case True
  with assms(2) have safe: "num_is_safe d" by (auto simp: encodeNumber_def split: if_splits)
  have inv: "int_num (num_int d) = d" using int_num_of_safe [OF safe] True by simp
  show ?thesis
  proof (cases "num_int d \<ge> 0")
    case nonneg: True
    with assms(2) True safe have "writeArgument 0 (nat (num_int d)) w = Inr w'"
      by (simp add: encodeNumber_def finite_safe)
    from writeArgument_wrote [OF assms(1) this] reads_nonneg [OF assms(3), of "nat (num_int d)"]
      safe_abs [OF safe] nonneg inv
    show ?thesis by auto
  next
    case neg: False
    with assms(2) True safe have "writeArgument 1 (nat (- 1 - num_int d)) w = Inr w'"
      by (simp add: encodeNumber_def finite_safe)
    from writeArgument_wrote [OF assms(1) this] reads_neg [OF assms(3), of "nat (- 1 - num_int d)"]
      safe_abs [OF safe] neg inv
    show ?thesis by auto
  qed
next
  case False
  with assms(2) have fin: "num_finite d" and wr: "writeFloat64 d w = Inr w'"
    by (auto simp: encodeNumber_def split: if_splits)
  have "num_is_integer d \<longrightarrow> num_is_safe d"
    using False fields_mk_num [of 1 0 0]
    by (auto simp: num_negzero_def num_is_safe_def num_magnitude_def)
  from reads_float [OF assms(3) fin this] writeFloat64_appends [OF assms(1), of d] wr
  show ?thesis by (auto dest: appended_wrote)
qed

section \<open>The two loops\<close>

text \<open>A loop of writes: the pieces and what was written for each element.\<close>

lemma fold_wrote:
  assumes "fold_r f xs w = Inr w'" "writer_ok w"
    and "\<And>x w w'. writer_ok w \<Longrightarrow> f x w = Inr w' \<Longrightarrow> \<exists>bs y. wrote w w' bs \<and> R x bs y"
  shows "\<exists>ps. wrote w w' (concat (map fst ps)) \<and> list_all2 (\<lambda>x p. R x (fst p) (snd p)) xs ps"
  using assms
proof (induction xs arbitrary: w)
  case Nil then show ?case by (simp add: wrote_refl)
next
  case (Cons x xs)
  from Cons.prems(1) obtain w1 where w1: "f x w = Inr w1" "fold_r f xs w1 = Inr w'" by auto
  from Cons.prems(3) [OF Cons.prems(2) w1(1)] obtain bs y where 1: "wrote w w1 bs" "R x bs y" by auto
  from Cons.IH [OF w1(2) wrote_ok [OF 1(1)] Cons.prems(3)] obtain ps where
    2: "wrote w1 w' (concat (map fst ps))" "list_all2 (\<lambda>x p. R x (fst p) (snd p)) xs ps" by blast
  have "wrote w w' (concat (map fst ((bs, y) # ps)))" using wrote_trans [OF 1(1) 2(1)] by simp
  moreover have "list_all2 (\<lambda>x p. R x (fst p) (snd p)) (x # xs) ((bs, y) # ps)" using 1 2 by simp
  ultimately show ?case by blast
qed

lemma readElement_loop:
  assumes "\<forall>(bs, t) \<in> set ps. reads item bs t"
  shows "times_r (length ps) (readElement item) (acc, reader_at pre (concat (map fst ps) @ rest)) =
    Inr (acc @ map snd ps, reader_at (pre @ concat (map fst ps)) rest)"
  using assms
proof (induction ps arbitrary: acc pre)
  case (Cons p ps)
  obtain bs t where p: "p = (bs, t)" by (cases p)
  with Cons.prems have "reads item bs t" by simp
  with Cons show ?case by (simp add: p readElement_def readsD)
qed simp

lemma keys_ok_appendD: "keys_ok (ks @ [k]) \<Longrightarrow> k \<notin> set ks \<and> (\<forall>l \<in> set ks. key_before l k)"
  by (simp add: keys_ok_def sorted_wrt_snoc)

lemma keys_ok_prefix: "keys_ok (ks @ ls) \<Longrightarrow> keys_ok ks"
  by (simp add: keys_ok_def sorted_wrt_append)

lemma defineProperty_last:
  assumes "keys_ok (map fst ps @ [k])"
  shows "defineProperty k v ps = ps @ [(k, v)]"
  using keys_ok_appendD [OF assms] by (simp add: defineProperty_def)

lemma readPair_loop:
  assumes "\<forall>((bs, cs), k, t) \<in> set ps. reads item bs (CStr k) \<and> reads item cs t"
    and "keys_ok (map fst acc @ map (fst \<circ> snd) ps)"
  shows "times_r (length ps) (readPair item)
      (acc, reader_at pre (concat (map (\<lambda>p. fst (fst p) @ snd (fst p)) ps) @ rest)) =
    Inr (acc @ map snd ps, reader_at (pre @ concat (map (\<lambda>p. fst (fst p) @ snd (fst p)) ps)) rest)"
  using assms
proof (induction ps arbitrary: acc pre)
  case (Cons p ps)
  obtain bs cs k t where p: "p = ((bs, cs), k, t)" by (metis prod.exhaust)
  with Cons.prems(1) have r: "reads item bs (CStr k)" "reads item cs t" by simp_all
  have ks: "keys_ok (map fst acc @ [k])"
    by (rule keys_ok_prefix [of _ "map (fst \<circ> snd) ps"]) (use Cons.prems(2) in \<open>simp add: p comp_def\<close>)
  from keys_ok_appendD [OF ks] have new: "k \<notin> fst ` set acc" by simp
  have "keys_ok (map fst (acc @ [(k, t)]) @ map (fst \<circ> snd) ps)"
    using Cons.prems(2) by (simp add: p comp_def)
  from Cons.IH [OF _ this] Cons.prems(1) show ?case
    by (simp add: p readPair_def readsD [OF r(1)] readsD [OF r(2)] new defineProperty_last [OF ks])
qed simp

lemma keys_ok_filter:
  assumes "keys_ok (map fst ps)"
  shows "keys_ok (map fst (filter P ps))"
proof -
  have "sorted_wrt key_before (map fst (filter P ps))"
    using assms by (auto simp: keys_ok_def sorted_wrt_map intro: sorted_wrt_filter)
  with assms show ?thesis by (simp add: keys_ok_def distinct_map_filter)
qed

lemma reads_array_item:
  assumes "depth \<le> maxDepth opts" "length ps \<le> max_safe" "length ps \<le> maxContainerLength opts"
    and "\<forall>(bs, t) \<in> set ps. reads (readItem (depth + 1) opts) bs t"
  shows "reads (readItem depth opts) (head_bytes 4 (length ps) @ concat (map fst ps)) (CArr (map snd ps))"
proof -
  have "reads (readMajor (readItem (depth + 1) opts) opts 4 (head_info (length ps)))
      (head_tail (length ps) @ concat (map fst ps)) (CArr (map snd ps))"
    using readsD [OF reads_readLength [OF assms(2,3)]] readElement_loop [OF assms(4), of "[]"]
    by (intro readsI) (simp add: readMajor_def)
  from reads_head [OF assms(1) _ this] show ?thesis by simp
qed

lemma reads_map_item:
  assumes "depth \<le> maxDepth opts" "length ps \<le> max_safe" "length ps \<le> maxContainerLength opts"
    and "\<forall>((bs, cs), k, t) \<in> set ps. reads (readItem (depth + 1) opts) bs (CStr k)
        \<and> reads (readItem (depth + 1) opts) cs t"
    and "keys_ok (map (fst \<circ> snd) ps)"
  shows "reads (readItem depth opts)
    (head_bytes 5 (length ps) @ concat (map (\<lambda>p. fst (fst p) @ snd (fst p)) ps)) (CMap (map snd ps))"
proof -
  have "reads (readMajor (readItem (depth + 1) opts) opts 5 (head_info (length ps)))
      (head_tail (length ps) @ concat (map (\<lambda>p. fst (fst p) @ snd (fst p)) ps)) (CMap (map snd ps))"
    using readsD [OF reads_readLength [OF assms(2,3)]] readPair_loop [OF assms(4), of "[]"] assms(5)
    by (intro readsI) (simp add: readMajor_def)
  from reads_head [OF assms(1) _ this] show ?thesis by simp
qed

section \<open>The encoder as a whole\<close>

text \<open>What the encoder guarantees for a value at some depth, and for the contents of objects there.\<close>

definition encodes :: "heap \<Rightarrow> cbor_options \<Rightarrow> nat \<Rightarrow> jsval \<Rightarrow> byte list \<Rightarrow> cval \<Rightarrow> bool" where
  "encodes h opts depth v bs t = (denotes h v t \<and> reads (readItem depth opts) bs t)"

lemma encode_array:
  assumes "h a = OArray xs" "depth \<le> maxDepth opts" "opts_ok opts" "length xs \<le> maxContainerLength opts"
    and "list_all2 (\<lambda>x p. \<exists>y. x = Some y \<and> encodes h opts (depth + 1) y (fst p) (snd p)) xs ps"
  shows "encodes h opts depth (JRef a) (head_bytes 4 (length xs) @ concat (map fst ps)) (CArr (map snd ps))"
proof -
  have len: "length ps = length xs" using assms(5) by (simp add: list_all2_lengthD)
  have "denotes h (JRef a) (CArr (map snd ps))"
  proof (rule denotes_arr [of h a xs, OF assms(1)])
    show "list_all2 (\<lambda>x t. \<exists>y. x = Some y \<and> denotes h y t) xs (map snd ps)"
      unfolding list_all2_map2 by (rule list_all2_mono [OF assms(5)]) (auto simp: encodes_def)
  qed
  moreover have "reads (readItem depth opts) (head_bytes 4 (length ps) @ concat (map fst ps)) (CArr (map snd ps))"
  proof (rule reads_array_item [OF assms(2)])
    show "length ps \<le> max_safe" "length ps \<le> maxContainerLength opts"
      using assms(3,4) len by (auto simp: opts_ok_def intro: uint32_safe)
    show "\<forall>(bs, t) \<in> set ps. reads (readItem (depth + 1) opts) bs t"
      using assms(5) by (fastforce simp: encodes_def list_all2_conv_all_nth in_set_conv_nth)
  qed
  ultimately show ?thesis by (simp add: encodes_def len)
qed

lemma encode_map:
  assumes "h a = OPlain info qs" "depth \<le> maxDepth opts" "opts_ok opts" "keys_ok (map fst qs)"
    and es: "es = filter (\<lambda>(k, y). y \<noteq> JUndefined) qs" "length es \<le> maxContainerLength opts"
    and "list_all2 (\<lambda>e p. fst e = fst (snd p) \<and> reads (readItem (depth + 1) opts) (fst (fst p)) (CStr (fst e))
      \<and> encodes h opts (depth + 1) (snd e) (snd (fst p)) (snd (snd p))) es ps"
  shows "encodes h opts depth (JRef a)
    (head_bytes 5 (length es) @ concat (map (\<lambda>p. fst (fst p) @ snd (fst p)) ps)) (CMap (map snd ps))"
proof -
  have len: "length ps = length es" using assms(7) by (simp add: list_all2_lengthD)
  have "denotes h (JRef a) (CMap (map snd ps))"
  proof (rule denotes_map [of h a info qs, OF assms(1)])
    show "list_all2 (\<lambda>p q. fst p = fst q \<and> denotes h (snd p) (snd q))
        (filter (\<lambda>(k, y). y \<noteq> JUndefined) qs) (map snd ps)"
      unfolding list_all2_map2 es(1) [symmetric] by (rule list_all2_mono [OF assms(7)]) (auto simp: encodes_def)
  qed
  moreover have "map fst es = map (fst \<circ> snd) ps"
    using assms(7) by (auto intro!: nth_equalityI simp: list_all2_conv_all_nth)
  with keys_ok_filter [OF assms(4), of "\<lambda>(k, y). y \<noteq> JUndefined"]
  have keys: "keys_ok (map (fst \<circ> snd) ps)" by (simp only: es(1))
  have "reads (readItem depth opts)
      (head_bytes 5 (length ps) @ concat (map (\<lambda>p. fst (fst p) @ snd (fst p)) ps)) (CMap (map snd ps))"
  proof (rule reads_map_item [OF assms(2) _ _ _ keys])
    show "length ps \<le> max_safe" "length ps \<le> maxContainerLength opts"
      using assms(3) es(2) len by (auto simp: opts_ok_def intro: uint32_safe)
    show "\<forall>((bs, cs), k, t) \<in> set ps. reads (readItem (depth + 1) opts) bs (CStr k)
        \<and> reads (readItem (depth + 1) opts) cs t"
      using assms(7) by (fastforce simp: encodes_def list_all2_conv_all_nth in_set_conv_nth)
  qed
  ultimately show ?thesis by (simp add: encodes_def len)
qed

lemma encodeValue_sound:
  assumes "heap_ok h" "opts_ok opts" "encodeValue h opts v depth anc w = Inr w'" "writer_ok w"
  shows "\<exists>bs t. wrote w w' bs \<and> encodes h opts depth v bs t"
  using assms(3,4)
proof (induction "Suc (maxDepth opts) - depth" arbitrary: v depth anc w w' rule: less_induct)
  case less
  note run = less.prems(1) and ok = less.prems(2)
  have depth: "depth \<le> maxDepth opts" using run by (subst (asm) encodeValue.simps) (simp split: if_splits)
  have IH: "\<exists>bs t. wrote w w' bs \<and> encodes h opts (depth + 1) v bs t"
    if "encodeValue h opts v (depth + 1) anc w = Inr w'" "writer_ok w" for v anc w w'
    using less.hyps [OF _ that] depth by simp
  show ?case
  proof (cases v)
    case JUndefined then show ?thesis using run by (subst (asm) encodeValue.simps) (simp split: if_splits)
  next
    case JOtherPrim then show ?thesis using run by (subst (asm) encodeValue.simps) (simp split: if_splits)
  next
    case JNull
    with run depth have "writeByte 0xf6 w = Inr w'" by (subst (asm) encodeValue.simps) simp
    from writeByte_wrote [OF ok this] reads_null [OF depth] JNull show ?thesis by (auto simp: encodes_def)
  next
    case (JBool b)
    with run depth have "writeByte (if b then 0xf5 else 0xf4) w = Inr w'" by (subst (asm) encodeValue.simps) simp
    from writeByte_wrote [OF ok this] reads_bool [OF depth, of b] JBool show ?thesis
      by (auto simp: encodes_def split: if_splits)
  next
    case (JNumber d)
    with run depth have "encodeNumber d w = Inr w'" by (subst (asm) encodeValue.simps) simp
    from encodeNumber_wrote [OF ok this depth] JNumber show ?thesis by (auto simp: encodes_def)
  next
    case (JString s)
    with run depth have "encodeText opts s w = Inr w'" by (subst (asm) encodeValue.simps) simp
    from encodeText_wrote [OF ok this assms(2) depth] JString show ?thesis by (auto simp: encodes_def)
  next
    case (JRef a)
    show ?thesis
    proof (cases "h a")
      case OOther then show ?thesis using run JRef by (subst (asm) encodeValue.simps) (simp split: if_splits)
    next
      case (OBytes bs)
      with run JRef depth obtain w1 where w1: "length bs \<le> maxByteLength opts"
        "writeArgument 2 (length bs) w = Inr w1" "writeBytes bs w1 = Inr w'"
        by (subst (asm) encodeValue.simps) (auto split: if_splits)
      from writeArgument_wrote [OF ok w1(2)] have 1: "wrote w w1 (head_bytes 2 (length bs))" .
      have safe: "length bs \<le> max_safe" using w1(1) assms(2) by (auto simp: opts_ok_def intro: uint32_safe)
      from wrote_trans [OF 1 writeBytes_wrote [OF wrote_ok [OF 1] w1(3)]] reads_bytes_item [OF depth safe w1(1)]
        denotes_bytes [of h a bs] OBytes JRef
      show ?thesis by (auto simp: encodes_def)
    next
      case (OArray xs)
      let ?f = "\<lambda>x w. case x of None \<Rightarrow> Inl HoleOrUndefined | Some y \<Rightarrow>
        (if y = JUndefined then Inl HoleOrUndefined else encodeValue h opts y (depth + 1) (insert a anc) w)"
      from OArray run JRef depth obtain w1 where w1: "length xs \<le> maxContainerLength opts"
        "writeArgument 4 (length xs) w = Inr w1" "fold_r ?f xs w1 = Inr w'"
        by (subst (asm) encodeValue.simps) (auto split: if_splits)
      from writeArgument_wrote [OF ok w1(2)] have 1: "wrote w w1 (head_bytes 4 (length xs))" .
      have step: "\<exists>bs t. wrote w w' bs \<and> (\<exists>y. x = Some y \<and> encodes h opts (depth + 1) y bs t)"
        if "writer_ok w" "?f x w = Inr w'" for x w w'
        using that IH by (auto split: option.splits if_splits)
      from fold_wrote [where R = "\<lambda>x bs t. \<exists>y. x = Some y \<and> encodes h opts (depth + 1) y bs t",
          OF w1(3) wrote_ok [OF 1] step] obtain ps where ps:
        "wrote w1 w' (concat (map fst ps))"
        "list_all2 (\<lambda>x p. \<exists>y. x = Some y \<and> encodes h opts (depth + 1) y (fst p) (snd p)) xs ps" by auto
      from wrote_trans [OF 1 ps(1)] encode_array [OF OArray depth assms(2) w1(1) ps(2)] JRef
      show ?thesis by blast
    next
      case (OPlain info qs)
      let ?es = "filter (\<lambda>(k, y). y \<noteq> JUndefined) qs"
      let ?f = "\<lambda>(k, y) w. rbind (encodeText opts k w) (encodeValue h opts y (depth + 1) (insert a anc))"
      from OPlain run JRef depth obtain w1 where w1: "length ?es \<le> maxContainerLength opts"
        "writeArgument 5 (length ?es) w = Inr w1" "fold_r ?f ?es w1 = Inr w'"
        by (subst (asm) encodeValue.simps) (auto simp: Let_def split: if_splits)
      from writeArgument_wrote [OF ok w1(2)] have 1: "wrote w w1 (head_bytes 5 (length ?es))" .
      let ?R = "\<lambda>e bs p. bs = fst (fst p) @ snd (fst p) \<and> fst e = fst (snd p)
        \<and> reads (readItem (depth + 1) opts) (fst (fst p)) (CStr (fst e))
        \<and> encodes h opts (depth + 1) (snd e) (snd (fst p)) (snd (snd p))"
      have step: "\<exists>bs p. wrote w w' bs \<and> ?R e bs p" if "writer_ok w" "?f e w = Inr w'" for e w w'
      proof -
        from that(2) obtain w2 where w2: "encodeText opts (fst e) w = Inr w2"
          "encodeValue h opts (snd e) (depth + 1) (insert a anc) w2 = Inr w'" by (cases e) auto
        from w2(2) have "depth + 1 \<le> maxDepth opts" by (subst (asm) encodeValue.simps) (simp split: if_splits)
        from encodeText_wrote [OF that(1) w2(1) assms(2) this] obtain b1 where
          b1: "wrote w w2 b1" "reads (readItem (depth + 1) opts) b1 (CStr (fst e))" by blast
        from IH [OF w2(2) wrote_ok [OF b1(1)]] obtain b2 t where
          b2: "wrote w2 w' b2" "encodes h opts (depth + 1) (snd e) b2 t" by blast
        show ?thesis
          by (rule exI [of _ "b1 @ b2"], rule exI [of _ "((b1, b2), fst e, t)"])
            (use wrote_trans [OF b1(1) b2(1)] b1 b2 in simp)
      qed
      from fold_wrote [where R = ?R, OF w1(3) wrote_ok [OF 1] step] obtain ps where ps:
        "wrote w1 w' (concat (map fst ps))" "list_all2 (\<lambda>e p. ?R e (fst p) (snd p)) ?es ps" by auto
      have "map fst ps = map (\<lambda>p. fst (fst p) @ snd (fst p)) (map snd ps)"
        using ps(2) by (intro nth_equalityI) (simp_all add: list_all2_conv_all_nth)
      then have eq: "concat (map fst ps) = concat (map (\<lambda>p. fst (fst p) @ snd (fst p)) (map snd ps))"
        by (simp only:)
      have all: "list_all2 (\<lambda>e p. fst e = fst (snd p) \<and> reads (readItem (depth + 1) opts) (fst (fst p)) (CStr (fst e))
          \<and> encodes h opts (depth + 1) (snd e) (snd (fst p)) (snd (snd p))) ?es (map snd ps)"
        unfolding list_all2_map2 by (rule list_all2_mono [OF ps(2)]) (elim conjE, intro conjI; assumption)
      have keys: "keys_ok (map fst qs)" using assms(1) OPlain by (auto simp: heap_ok_def)
      from wrote_trans [OF 1 ps(1)] encode_map [OF OPlain depth assms(2) keys refl w1(1) all] JRef
      show ?thesis unfolding eq by blast
    qed
  qed
qed

section \<open>The contract\<close>

lemma encodeWith_sound:
  assumes "heap_ok h" "opts_ok opts" "encodeWith h v opts = Inr bs"
  shows "\<exists>t. denotes h v t \<and> reads (readItem 0 opts) bs t \<and> length bs \<le> maxByteLength opts"
proof -
  from assms(3) obtain w' where w': "encodeValue h opts v 0 {} (newWriter (maxByteLength opts)) = Inr w'"
    "bs = finish w'" by (auto simp: encodeWith_def)
  from encodeValue_sound [OF assms(1,2) w'(1) newWriter_ok(1)] obtain cs t where
    c: "wrote (newWriter (maxByteLength opts)) w' cs" "encodes h opts 0 v cs t" by blast
  moreover have "bs = cs" using c(1) w'(2) by (simp add: wrote_def)
  ultimately show ?thesis using wrote_bound [OF c(1)] by (auto simp: encodes_def)
qed

lemma decodeWith_reads:
  assumes "reads (readItem 0 opts) bs t" "length bs \<le> maxByteLength opts"
  shows "decodeWith bs opts = Inr t"
  using readsD [OF assms(1), of "[]" "[]"] assms(2) by (simp add: decodeWith_def reader_at_def)

lemma encodeCbor_sound:
  assumes "heap_ok h" "encodeCbor h v args = Inr bs"
  shows "\<exists>t opts. denotes h v t \<and> resolveOptions args = Inr opts \<and> decodeWith bs opts = Inr t
    \<and> length bs \<le> maxByteLength opts"
proof -
  from assms(2) obtain opts where opts: "resolveOptions args = Inr opts" "encodeWith h v opts = Inr bs"
    by (auto simp: encodeCbor_def)
  have "opts_ok opts" using resolveOptions_bounds [OF opts(1)] by (simp add: opts_ok_def)
  from encodeWith_sound [OF assms(1) this opts(2)] opts(1) decodeWith_reads show ?thesis by blast
qed

lemma denotes_reachable:
  assumes "(points_to h)\<^sup>*\<^sup>* b a" "denotes h (JRef b) t"
  shows "\<exists>u. denotes h (JRef a) u"
  using assms
proof (induction rule: rtranclp_induct)
  case (step a c)
  then obtain u where "denotes h (JRef a) u" by blast
  from denotes_child [OF this] step(2) show ?case by (auto simp: points_to_def)
qed blast

end
