(* ===== verification/CborLimits.thy ===== *)
theory CborLimits
  imports CborRoundtrip
begin

text \<open>
  What the CBOR decoder accepts: every tree it returns respects the configured limits, has only
  representable numbers and well-formed strings, and lists the keys of each object once and in
  JavaScript's property order. Then the properties of the codec as a whole.
\<close>

fun within :: "cbor_options \<Rightarrow> nat \<Rightarrow> cval \<Rightarrow> bool" where
  "within opts d CNull = (d \<le> maxDepth opts)"
| "within opts d (CBool b) = (d \<le> maxDepth opts)"
| "within opts d (CNum n) = (d \<le> maxDepth opts \<and> num_finite n \<and> (num_is_integer n \<longrightarrow> num_is_safe n))"
| "within opts d (CStr s) =
     (d \<le> maxDepth opts \<and> well_formed s \<and> length (utf8_encode s) \<le> maxByteLength opts)"
| "within opts d (CBytes bs) = (d \<le> maxDepth opts \<and> length bs \<le> maxByteLength opts)"
| "within opts d (CArr ts) =
     (d \<le> maxDepth opts \<and> length ts \<le> maxContainerLength opts \<and> (\<forall>t \<in> set ts. within opts (d + 1) t))"
| "within opts d (CMap ps) =
     (d \<le> maxDepth opts \<and> length ps \<le> maxContainerLength opts \<and> keys_ok (map fst ps)
      \<and> (\<forall>p \<in> set ps. within opts (d + 1) (snd p)))"

section \<open>Inserting properties keeps their order\<close>

lemma key_before_trans: "key_before k l \<Longrightarrow> key_before l m \<Longrightarrow> key_before k m"
  by (auto simp: key_before_def split: option.splits)

lemma key_before_total: "\<not> key_before k l \<Longrightarrow> key_before l k"
  by (auto simp: key_before_def split: option.splits)

lemma dropWhile_none_before:
  assumes "sorted_wrt key_before (map fst ps)" "p \<in> set (dropWhile (\<lambda>p. key_before (fst p) k) ps)"
  shows "key_before k (fst p)"
  using assms
proof (induction ps)
  case (Cons q ps)
  show ?case
  proof (cases "key_before (fst q) k")
    case True with Cons show ?thesis by simp
  next
    case False
    then have q: "key_before k (fst q)" by (rule key_before_total)
    from Cons.prems False have "p = q \<or> p \<in> set ps" by simp
    with q Cons.prems(1) show ?thesis by (auto intro: key_before_trans)
  qed
qed simp

lemma sorted_wrt_takeWhile: "sorted_wrt R xs \<Longrightarrow> sorted_wrt R (takeWhile P xs)"
  by (induction xs) (auto dest: set_takeWhileD)

lemma sorted_wrt_dropWhile: "sorted_wrt R xs \<Longrightarrow> sorted_wrt R (dropWhile P xs)"
  by (induction xs) auto

lemma set_defineProperty: "set (defineProperty k v ps) = insert (k, v) (set ps)"
proof -
  have "set ps = set (takeWhile (\<lambda>p. key_before (fst p) k) ps @ dropWhile (\<lambda>p. key_before (fst p) k) ps)" by simp
  then show ?thesis by (auto simp: defineProperty_def simp del: takeWhile_dropWhile_id)
qed

lemma length_defineProperty: "length (defineProperty k v ps) = Suc (length ps)"
proof -
  have "length ps = length (takeWhile (\<lambda>p. key_before (fst p) k) ps @ dropWhile (\<lambda>p. key_before (fst p) k) ps)" by simp
  then show ?thesis by (simp add: defineProperty_def del: takeWhile_dropWhile_id)
qed

lemma keys_ok_defineProperty:
  assumes "keys_ok (map fst ps)" "k \<notin> fst ` set ps"
  shows "keys_ok (map fst (defineProperty k v ps))"
proof -
  let ?P = "\<lambda>p. key_before (fst p) k"
  have s: "sorted_wrt (\<lambda>p q. key_before (fst p) (fst q)) ps"
    using assms(1) by (simp add: keys_ok_def sorted_wrt_map)
  have after: "key_before k (fst p)" if "p \<in> set (dropWhile ?P ps)" for p
    using dropWhile_none_before [of ps p k] assms(1) that by (simp add: keys_ok_def)
  have before: "key_before (fst p) k" if "p \<in> set (takeWhile ?P ps)" for p
    using set_takeWhileD [OF that] by simp
  have split: "sorted_wrt (\<lambda>p q. key_before (fst p) (fst q)) (takeWhile ?P ps @ dropWhile ?P ps)" using s by simp
  have "sorted_wrt (\<lambda>p q. key_before (fst p) (fst q)) (takeWhile ?P ps @ (k, v) # dropWhile ?P ps)"
    using split after before unfolding sorted_wrt_append by auto
  moreover have "distinct (map fst (takeWhile ?P ps @ dropWhile ?P ps))" using assms(1) by (simp add: keys_ok_def)
  moreover have "k \<notin> fst ` set (takeWhile ?P ps @ dropWhile ?P ps)" using assms(2) by simp
  ultimately show ?thesis
    unfolding keys_ok_def defineProperty_def sorted_wrt_map
    by (auto simp del: takeWhile_dropWhile_id)
qed

section \<open>What the reading methods return\<close>

lemma unat_byte_le: "unat (b :: byte) \<le> 255"
  using unat_byte_lt [of b] by simp

lemma readUint32_bound: "readUint32 r = Inr (n, r') \<Longrightarrow> n < UINT32_BASE"
proof -
  assume "readUint32 r = Inr (n, r')"
  then obtain bs where "n = unat (bs ! 0 :: byte) * 0x1000000 + unat (bs ! 1) * 0x10000 + unat (bs ! 2) * 0x100
    + unat (bs ! 3)" by (auto simp: readUint32_def)
  with unat_byte_le [of "bs ! 0"] unat_byte_le [of "bs ! 1"] unat_byte_le [of "bs ! 2"] unat_byte_le [of "bs ! 3"]
  show ?thesis unfolding UINT32_BASE_def by linarith
qed

lemma readArgument_bound:
  assumes "readArgument info r = Inr (n, r')"
  shows "n \<le> max_safe"
proof -
  have max: "max_safe = 0x1fffff * UINT32_BASE + 0xffffffff" by (simp add: max_safe_def UINT32_BASE_def)
  consider "info < 24" "n = info" | b where "n = unat (b :: byte)"
    | b c where "n = unat (b :: byte) * 0x100 + unat (c :: byte)" | r1 r2 where "readUint32 r1 = Inr (n, r2)"
    | high low r1 r2 where "n = high * UINT32_BASE + low" "high \<le> 0x1fffff" "readUint32 r1 = Inr (low, r2)"
    using assms by (auto simp: readArgument_def readByte_def split: if_splits)
  then show ?thesis
  proof cases
    case 1 then show ?thesis by (simp add: max_safe_def)
  next
    case (2 b) then show ?thesis using unat_byte_le [of b] by (simp add: max_safe_def)
  next
    case (3 b c) then show ?thesis using unat_byte_le [of b] unat_byte_le [of c] by (simp add: max_safe_def)
  next
    case 4 then show ?thesis using readUint32_bound [OF 4] by (simp add: max)
  next
    case (5 high low r1 r2)
    from 5(2) have "high * UINT32_BASE \<le> 0x1fffff * UINT32_BASE" by simp
    moreover have "low \<le> 0xffffffff" using readUint32_bound [OF 5(3)] by (simp add: UINT32_BASE_def)
    ultimately show ?thesis unfolding 5(1) max by (rule add_mono)
  qed
qed

lemma readLength_bound: "readLength info limit r = Inr (n, r') \<Longrightarrow> n \<le> limit"
  by (auto simp: readLength_def split: if_splits)

lemma readBytes_length: "readBytes n r = Inr (bs, r') \<Longrightarrow> length bs = n"
  by (auto simp: readBytes_def split: if_splits)

lemma readElement_loop_all:
  assumes "times_r n (readElement item) (acc, r) = Inr (res, r')" "\<forall>t \<in> set acc. P t"
    and "\<And>t r r'. item r = Inr (t, r') \<Longrightarrow> P t"
  shows "length res = length acc + n \<and> (\<forall>t \<in> set res. P t)"
  using assms(1,2)
proof (induction n arbitrary: acc r)
  case (Suc n)
  from Suc.prems(1) obtain t r1 where t: "item r = Inr (t, r1)"
    and rest: "times_r n (readElement item) (acc @ [t], r1) = Inr (res, r')"
    by (auto simp: readElement_def)
  from Suc.IH [OF rest] Suc.prems(2) assms(3) [OF t] show ?case by simp
qed simp

lemma readPair_Inr:
  assumes "readPair item (acc, r) = Inr (acc', r')"
  shows "\<exists>k t r1. k \<notin> fst ` set acc \<and> item r1 = Inr (t, r') \<and> acc' = defineProperty k t acc"
proof -
  from assms obtain key r1 where key: "item r = Inr (key, r1)" by (auto simp: readPair_def)
  with assms show ?thesis by (cases key) (auto simp: readPair_def split: if_splits)
qed

lemma readPair_loop_all:
  assumes "times_r n (readPair item) (acc, r) = Inr (res, r')" "\<forall>p \<in> set acc. P (snd p)" "keys_ok (map fst acc)"
    and "\<And>t r r'. item r = Inr (t, r') \<Longrightarrow> P t"
  shows "length res = length acc + n \<and> (\<forall>p \<in> set res. P (snd p)) \<and> keys_ok (map fst res)"
  using assms(1,2,3)
proof (induction n arbitrary: acc r)
  case (Suc n)
  from Suc.prems(1) obtain acc1 r2 where step: "readPair item (acc, r) = Inr (acc1, r2)"
    and rest1: "times_r n (readPair item) (acc1, r2) = Inr (res, r')" by auto
  from readPair_Inr [OF step] obtain k t r1 where t: "item r1 = Inr (t, r2)" and new: "k \<notin> fst ` set acc"
    and eq: "acc1 = defineProperty k t acc" by blast
  note rest = rest1 [unfolded eq]
  have "\<forall>p \<in> set (defineProperty k t acc). P (snd p)"
    using Suc.prems(2) assms(4) [OF t] by (simp add: set_defineProperty)
  from Suc.IH [OF rest this keys_ok_defineProperty [OF Suc.prems(3) new]]
  show ?case by (simp add: length_defineProperty)
qed simp

lemma readMajor_within:
  assumes "readMajor item opts m i r = Inr (t, r')" "depth \<le> maxDepth opts"
    and item: "\<And>t r r'. item r = Inr (t, r') \<Longrightarrow> within opts (depth + 1) t"
  shows "within opts depth t"
proof -
  have num: "num_is_safe d \<Longrightarrow> within opts depth (CNum d)" for d
    using assms(2) by (simp add: finite_safe)
  consider n where "t = CNum (int_num n)" "nat \<bar>n\<bar> \<le> max_safe"
    | bs where "t = CBytes bs" "length bs \<le> maxByteLength opts"
    | s bs where "t = CStr s" "utf8_decode bs = Some s" "length bs \<le> maxByteLength opts"
    | ts r1 n where "t = CArr ts" "times_r n (readElement item) ([], r1) = Inr (ts, r')" "n \<le> maxContainerLength opts"
    | ps r1 n where "t = CMap ps" "times_r n (readPair item) ([], r1) = Inr (ps, r')" "n \<le> maxContainerLength opts"
    | "readSimple i r = Inr (t, r')"
    using assms(1)
    by (auto simp: readMajor_def Let_def split: if_splits option.splits
        dest!: readArgument_bound readLength_bound readBytes_length)
  then show ?thesis
  proof cases
    case (1 n) then show ?thesis using num [OF int_num_safe(2) [OF 1(2)]] by simp
  next
    case 2 then show ?thesis using assms(2) by simp
  next
    case 3 then show ?thesis using utf8_encode_decode [OF 3(2)] assms(2) by simp
  next
    case 4
    from readElement_loop_all [OF 4(2), of "within opts (depth + 1)"] item 4 assms(2) show ?thesis by simp
  next
    case 5
    from readPair_loop_all [OF 5(2), of "within opts (depth + 1)"] item 5 assms(2)
    show ?thesis by (simp add: keys_ok_def)
  next
    case 6 then show ?thesis using assms(2) by (auto simp: readSimple_def Let_def split: if_splits)
  qed
qed

lemma readItem_within: "readItem depth opts r = Inr (t, r') \<Longrightarrow> within opts depth t"
proof (induction "Suc (maxDepth opts) - depth" arbitrary: depth r t r' rule: less_induct)
  case less
  from less.prems have depth: "depth \<le> maxDepth opts" by (subst (asm) readItem.simps) (simp split: if_splits)
  have item: "within opts (depth + 1) t" if "readItem (depth + 1) opts r = Inr (t, r')" for t r r'
    using less.hyps [OF _ that] depth by simp
  from less.prems depth obtain m i r1 where "readMajor (readItem (depth + 1) opts) opts m i r1 = Inr (t, r')"
    by (subst (asm) readItem.simps) auto
  from readMajor_within [OF this depth item] show ?case .
qed

section \<open>Properties of the codec\<close>

text \<open>
  C1. Whatever \<open>encodeCbor\<close> encodes, \<open>decodeCbor\<close> under the same options decodes, and to exactly the
  tree the value denotes: nested arrays and objects, strings, bytes, floats and integers, properties
  that are \<open>undefined\<close> left out, the key order kept.
\<close>

theorem cbor_roundtrip:
  assumes "heap_ok h" "encodeCbor h v args = Inr bs"
  shows "\<exists>t. denotes h v t \<and> decodeCbor bs args = Inr t"
  using encodeCbor_sound [OF assms] by (auto simp: decodeCbor_def)

text \<open>
  The output of \<open>encodeCbor\<close> never exceeds the configured \<open>maxByteLength\<close>, whatever the sizes of
  the parts.
\<close>

theorem cbor_encode_bounded:
  assumes "heap_ok h" "encodeCbor h v args = Inr bs" "resolveOptions args = Inr opts"
  shows "length bs \<le> maxByteLength opts"
  using encodeCbor_sound [OF assms(1,2)] assms(3) by auto

text \<open>
  Encoding a value from which an object on a cycle of references can be reached ends with an
  error: the \<open>ancestors\<close> set and the depth limit stop the recursion.
\<close>

theorem cbor_cycle_rejected:
  assumes "heap_ok h" "(points_to h)\<^sup>*\<^sup>* b a" "(points_to h)\<^sup>+\<^sup>+ a a"
  shows "\<exists>e. encodeCbor h (JRef b) args = Inl e"
proof (cases "encodeCbor h (JRef b) args")
  case (Inr bs)
  from encodeCbor_sound [OF assms(1) Inr] obtain t where "denotes h (JRef b) t" by blast
  from denotes_reachable [OF assms(2) this] cyclic_denotes_nothing [OF assms(3)] show ?thesis by blast
qed blast

text \<open>
  Every value \<open>decodeCbor\<close> returns respects the configured limits on depth, container and text
  lengths; its integers are safe, its floats finite, its strings well-formed, and the keys of each
  object are distinct and in property order.
\<close>

theorem cbor_decode_within:
  assumes "decodeCbor bs args = Inr t"
  shows "\<exists>opts. resolveOptions args = Inr opts \<and> length bs \<le> maxByteLength opts \<and> within opts 0 t"
  using assms by (auto simp: decodeCbor_def decodeWith_def split: if_splits dest: readItem_within)

section \<open>Witnesses\<close>

definition demo_heap :: heap where
  "demo_heap = (\<lambda>_. OOther)
     (0 := OArray [Some (JNumber (int_num 1000)), Some (JString [0x68, 0x69]), Some (JRef 1)],
      1 := OPlain (PlainInfo False False) [([0x61], JBool True), ([0x62], JUndefined), ([0x63], JRef 2)],
      2 := OBytes [1, 2, 3])"

definition demo_args :: cbor_option_args where
  "demo_args = \<lparr>arg_maxByteLength = Some (int_num 32), arg_maxContainerLength = None, arg_maxDepth = None\<rparr>"

definition demo_cyclic :: heap where
  "demo_cyclic = (\<lambda>_. OOther) (0 := OArray [Some (JRef 1)], 1 := OArray [Some JNull, Some (JRef 1)])"

lemma resolveLimit_numeral:
  "numeral k \<le> m \<Longrightarrow> numeral k \<le> max_safe \<Longrightarrow> resolveLimit (int_num (numeral k)) m = Inr (numeral k)"
  using resolveLimit_int [of "numeral k" m] by simp

lemma encodeNumber_int:
  "nat \<bar>i\<bar> \<le> max_safe \<Longrightarrow> encodeNumber (int_num i) w =
     (if i \<ge> 0 then writeArgument 0 (nat i) w else writeArgument 1 (nat (- 1 - i)) w)"
  using int_num_safe [of i] by (simp add: encodeNumber_def num_is_safe_def)

lemma demo_options:
  "resolveOptions demo_args = Inr \<lparr>maxByteLength = 32, maxContainerLength = 1000000, maxDepth = 64\<rparr>"
  by (simp add: resolveOptions_def demo_args_def resolveLimit_numeral MAX_UINT32_def max_safe_def
      DEFAULT_MAX_CBOR_CONTAINER_LENGTH_def DEFAULT_MAX_CBOR_DEPTH_def MAX_CONFIGURED_DEPTH_def)
lemma demo_text:
  "utf8_encode [0x68, 0x69] = [0x68, 0x69]" "utf8_encode [0x61] = [0x61]" "utf8_encode [0x63] = [0x63]"
  by (simp_all add: utf8_encode_def is_high_def is_low_def unit_scalar_def is_surrogate_def utf8_bytes_def)

lemma demo_text_wf:
  "well_formed [0x68, 0x69]" "well_formed [0x61]" "well_formed [0x63]"
  by (simp_all add: is_high_def is_low_def is_surrogate_def)

lemma demo_text_decode:
  "utf8_decode [0x68, 0x69] = Some [0x68, 0x69]" "utf8_decode [0x61] = Some [0x61]" "utf8_decode [0x63] = Some [0x63]"
  using utf8_decode_encode [OF demo_text_wf(1)] utf8_decode_encode [OF demo_text_wf(2)]
    utf8_decode_encode [OF demo_text_wf(3)] by (simp_all only: demo_text)


lemma demo_heads:
  "128 OR Suc (Suc (Suc 0)) = (131 :: nat)" "96 OR Suc (Suc 0) = (98 :: nat)"
  "160 OR Suc (Suc 0) = (162 :: nat)" "64 OR Suc (Suc (Suc 0)) = (67 :: nat)"
  by (simp_all flip: numeral_2_eq_2)

lemma demo_heap_ok: "heap_ok demo_heap"
  by (simp add: heap_ok_def demo_heap_def keys_ok_def key_before_def array_index_def is_digit_def)

lemmas demo_run = encodeCbor_def demo_options encodeWith_def demo_heap_def demo_text demo_text_wf
  encodeNumber_int max_safe_def encodeText_def demo_text_decode demo_heads writeArgument_def
  writeByte_def writeBytes_def writeUint16_def ensureCapacity_def newWriter_def finish_def put_at_def

lemma demo_encode:
  "encodeCbor demo_heap (JRef 0) demo_args =
     Inr [0x83, 0x19, 0x03, 0xe8, 0x62, 0x68, 0x69, 0xa2, 0x61, 0x61, 0xf5, 0x61, 0x63, 0x43, 1, 2, 3]"
  by (simp add: demo_run encodeValue.simps Let_def replicate_numeral_unroll list_update_numeral)

theorem cbor_roundtrip_witness:
  "\<exists>t. denotes demo_heap (JRef 0) t \<and> decodeCbor
     [0x83, 0x19, 0x03, 0xe8, 0x62, 0x68, 0x69, 0xa2, 0x61, 0x61, 0xf5, 0x61, 0x63, 0x43, 1, 2, 3] demo_args = Inr t"
  by (rule cbor_roundtrip [OF demo_heap_ok demo_encode])

theorem cbor_encode_bounded_witness:
  "length [0x83, 0x19, 0x03, 0xe8, 0x62, 0x68, 0x69, 0xa2, 0x61, 0x61, 0xf5, 0x61, 0x63, 0x43, 1, 2, 3 :: byte]
     \<le> maxByteLength \<lparr>maxByteLength = 32, maxContainerLength = 1000000, maxDepth = 64\<rparr>"
  by (rule cbor_encode_bounded [OF demo_heap_ok demo_encode demo_options])

lemma demo_cyclic_ok: "heap_ok demo_cyclic"
  by (simp add: heap_ok_def demo_cyclic_def)

lemma demo_cyclic_points: "points_to demo_cyclic 0 1" "points_to demo_cyclic 1 1"
  by (simp_all add: points_to_def children_def demo_cyclic_def)

theorem cbor_cycle_rejected_witness: "\<exists>e. encodeCbor demo_cyclic (JRef 0) demo_args = Inl e"
  by (rule cbor_cycle_rejected [OF demo_cyclic_ok r_into_rtranclp [of "points_to demo_cyclic", OF demo_cyclic_points(1)]
        tranclp.r_into_trancl [of "points_to demo_cyclic", OF demo_cyclic_points(2)]])

lemma demo_decode: "decodeCbor [0x81, 0xf6] demo_args = Inr (CArr [CNull])"
proof -
  have "(246 :: nat) AND 31 = 22" "(129 :: nat) AND 31 = 1" by simp_all
  then show ?thesis
    by (simp add: decodeCbor_def demo_options decodeWith_def readItem.simps readByte_def readMajor_def
        readLength_def readArgument_def readElement_def readSimple_def drop_bit_eq_div)
qed

theorem cbor_decode_within_witness:
  "\<exists>opts. resolveOptions demo_args = Inr opts \<and> length [0x81, 0xf6 :: byte] \<le> maxByteLength opts
     \<and> within opts 0 (CArr [CNull])"
  by (rule cbor_decode_within [OF demo_decode])

end
