(* ===== verification/MessageCodec.thy ===== *)
theory MessageCodec
  imports FrameProps CborLimits
begin

text \<open>
  The message codec (\<open>packages/protocol/src/codec.ts\<close>): the structural check \<open>isProtocolValue\<close>,
  \<open>encodeProtocolMessage\<close> and \<open>ValidatedMessageDecoder\<close>, which is interpreted as an incremental
  decoder over the frame decoder. The schema check of the \<open>typebox\<close> package is a parameter: \<open>check\<close>
  on a decoded tree, \<open>checkValue\<close> on a heap value. Recursion of \<open>isProtocolValue\<close> has fuel; one more
  than the number of objects is enough.
\<close>

datatype message_error =
    InvalidMessage | UnableToEncode | MessageDecoderFailed | InvalidFrame | InvalidFraming

section \<open>The structural check\<close>

text \<open>\<open>Array.prototype.every\<close> with a predicate that may run out of fuel.\<close>

fun every_o :: "('a \<Rightarrow> bool option) \<Rightarrow> 'a list \<Rightarrow> bool option" where
  "every_o f [] = Some True"
| "every_o f (x # xs) = (case f x of Some True \<Rightarrow> every_o f xs | r \<Rightarrow> r)"

fun isProtocolValue :: "nat \<Rightarrow> heap \<Rightarrow> bool \<Rightarrow> nat set \<Rightarrow> jsval \<Rightarrow> bool option" where
  "isProtocolValue 0 h optionalProperty ancestors v = None"
| "isProtocolValue (Suc fuel) h optionalProperty ancestors v =
     (case v of
        JUndefined \<Rightarrow> Some optionalProperty
      | JNull \<Rightarrow> Some True | JBool _ \<Rightarrow> Some True | JNumber _ \<Rightarrow> Some True | JString _ \<Rightarrow> Some True
      | JOtherPrim \<Rightarrow> Some False
      | JRef a \<Rightarrow>
          if a \<in> ancestors then Some False
          else (case h a of
             OArray xs \<Rightarrow> every_o (\<lambda>x. case x of
                 None \<Rightarrow> Some True \<comment> \<open>\<open>every\<close> skips holes\<close>
               | Some y \<Rightarrow> isProtocolValue fuel h False (insert a ancestors) y) xs
           | OPlain info ps \<Rightarrow>
               if nullPrototype info then Some False
               else every_o (\<lambda>p. isProtocolValue fuel h True (insert a ancestors) (snd p)) ps
           | OBytes _ \<Rightarrow> Some False
           | OOther \<Rightarrow> Some False))"

text \<open>The same check on a decoded tree, whose objects are arrays, \<open>Uint8Array\<close>s and object literals.\<close>

fun isProtocolTree :: "cval \<Rightarrow> bool" where
  "isProtocolTree (CBytes _) = False"
| "isProtocolTree (CArr ts) = (\<forall>t \<in> set ts. isProtocolTree t)"
| "isProtocolTree (CMap ps) = (\<forall>p \<in> set ps. isProtocolTree (snd p))"
| "isProtocolTree _ = True"

definition parseMessage :: "(cval \<Rightarrow> bool) \<Rightarrow> cval \<Rightarrow> message_error + cval" where
  "parseMessage check t = (if \<not> isProtocolTree t \<or> \<not> check t then Inl InvalidMessage else Inr t)"

text \<open>The messages of the errors that are wrapped are cut to 500 code units.\<close>

definition boundedErrorMessage :: "jsstr \<Rightarrow> jsstr" where
  "boundedErrorMessage message =
     (if length message \<le> 500 then message else take 497 message @ jstr ''...'')"

definition messageLimit :: "jsnum option \<Rightarrow> jsnum" where
  "messageLimit maxFrameLength =
     (case maxFrameLength of Some n \<Rightarrow> n | None \<Rightarrow> int_num (int DEFAULT_MAX_FRAME_LENGTH))"

definition messageCborArgs :: "jsnum \<Rightarrow> cbor_option_args" where
  "messageCborArgs limit =
     \<lparr>arg_maxByteLength = Some limit, arg_maxContainerLength = None, arg_maxDepth = None\<rparr>"

definition encodeProtocolMessage :: "nat \<Rightarrow> (heap \<Rightarrow> jsval \<Rightarrow> bool) \<Rightarrow> heap \<Rightarrow> jsval \<Rightarrow> jsnum option
    \<Rightarrow> (message_error + byte list) option" where
  "encodeProtocolMessage fuel checkValue h v maxFrameLength =
     map_option (\<lambda>ok.
       if \<not> ok \<or> \<not> checkValue h v then Inl InvalidMessage
       else let limit = messageLimit maxFrameLength in
         case encodeCbor h v (messageCborArgs limit) of
           Inl _ \<Rightarrow> Inl UnableToEncode
         | Inr payload \<Rightarrow>
             (case encodeFrame payload of
                Inl _ \<Rightarrow> Inl UnableToEncode
              | Inr frame \<Rightarrow>
                  (case assertCompleteFrame frame (Some limit) of
                     Inl _ \<Rightarrow> Inl UnableToEncode
                   | Inr _ \<Rightarrow> Inr frame)))
       (isProtocolValue fuel h False {} v)"

section \<open>The message decoder\<close>

record message_decoder =
  md_failed :: bool
  md_frames :: frame_decoder
  md_maxFrameLength :: jsnum

definition newMessageDecoder :: "jsnum option \<Rightarrow> frame_error + message_decoder" where
  "newMessageDecoder maxFrameLength = rbind (newFrameDecoder maxFrameLength) (\<lambda>frames.
     Inr \<lparr>md_failed = False, md_frames = frames, md_maxFrameLength = messageLimit maxFrameLength\<rparr>)"

text \<open>One frame, and the loop over the frames of a push.\<close>

definition decodeMessage :: "(cval \<Rightarrow> bool) \<Rightarrow> jsnum \<Rightarrow> byte list \<Rightarrow> message_error + cval" where
  "decodeMessage check limit frame =
     (case decodeCbor frame (messageCborArgs limit) of
        Inl _ \<Rightarrow> Inl InvalidFrame
      | Inr t \<Rightarrow> parseMessage check t)"

definition decodeMessages :: "(cval \<Rightarrow> bool) \<Rightarrow> jsnum \<Rightarrow> byte list list \<Rightarrow> message_error + cval list" where
  "decodeMessages check limit frames =
     fold_r (\<lambda>frame messages. rbind (decodeMessage check limit frame) (\<lambda>m. Inr (messages @ [m]))) frames []"

definition pushMessages :: "(cval \<Rightarrow> bool) \<Rightarrow> byte list \<Rightarrow> message_decoder
    \<Rightarrow> ((message_error + cval list) \<times> message_decoder) option" where
  "pushMessages check chunk d =
     (if md_failed d then Some (Inl MessageDecoderFailed, d)
      else Option.bind (pushFrames chunk (md_frames d)) (\<lambda>(r, frames).
        let d = d\<lparr>md_frames := frames\<rparr> in
        case r of
          Inl _ \<Rightarrow> Some (Inl InvalidFrame, d\<lparr>md_failed := True\<rparr>)
        | Inr fs \<Rightarrow>
            (case decodeMessages check (md_maxFrameLength d) fs of
               Inl e \<Rightarrow> Some (Inl e, d\<lparr>md_failed := True\<rparr>)
             | Inr ms \<Rightarrow> Some (Inr ms, d))))"

definition endMessages :: "message_decoder \<Rightarrow> (message_error + unit) \<times> message_decoder" where
  "endMessages d =
     (if md_failed d then (Inl MessageDecoderFailed, d)
      else case endFrames (md_frames d) of
        (Inl _, frames) \<Rightarrow> (Inl InvalidFraming, d\<lparr>md_frames := frames, md_failed := True\<rparr>)
      | (Inr _, frames) \<Rightarrow> (Inr (), d\<lparr>md_frames := frames\<rparr>))"

definition PROTOCOL_VERSION :: int where "PROTOCOL_VERSION = 1"

definition isSupportedProtocolVersion :: "jsnum \<Rightarrow> bool" where
  "isSupportedProtocolVersion version = (num_is_integer version \<and> num_int version = PROTOCOL_VERSION)"

section \<open>The reference: messages of a whole stream\<close>

text \<open>The messages of a list of frames up to the first bad one, and whether all were good.\<close>

fun good_messages :: "(byte list \<Rightarrow> message_error + cval) \<Rightarrow> byte list list \<Rightarrow> cval list \<times> bool" where
  "good_messages dec [] = ([], True)"
| "good_messages dec (f # fs) =
     (case dec f of
        Inl _ \<Rightarrow> ([], False)
      | Inr m \<Rightarrow> (m # fst (good_messages dec fs), snd (good_messages dec fs)))"

definition split_messages :: "(cval \<Rightarrow> bool) \<Rightarrow> nat \<times> jsnum \<Rightarrow> byte list \<Rightarrow> cval list \<times> byte list option" where
  "split_messages check cfg bs =
     (let fs = split_frames (fst cfg) bs; ms = good_messages (decodeMessage check (snd cfg)) (fst fs)
      in (fst ms, if snd ms then snd fs else None))"

lemma good_messages_append:
  "good_messages dec (fs @ gs) =
     (if snd (good_messages dec fs)
      then (fst (good_messages dec fs) @ fst (good_messages dec gs), snd (good_messages dec gs))
      else good_messages dec fs)"
  by (induction fs) (auto split: sum.splits simp: prod_eq_iff)

lemma decodeMessages_good:
  "fold_r (\<lambda>f ms. rbind (dec f) (\<lambda>m. Inr (ms @ [m]))) fs acc =
     (if snd (good_messages dec fs) then Inr (acc @ fst (good_messages dec fs))
      else fold_r (\<lambda>f ms. rbind (dec f) (\<lambda>m. Inr (ms @ [m]))) fs acc)
   \<and> (\<not> snd (good_messages dec fs) \<longrightarrow> (\<exists>e. fold_r (\<lambda>f ms. rbind (dec f) (\<lambda>m. Inr (ms @ [m]))) fs acc = Inl e))"
proof (induction fs arbitrary: acc)
  case (Cons f fs)
  show ?case
  proof (cases "dec f")
    case (Inr m) then show ?thesis using Cons.IH [of "acc @ [m]"] by (auto split: if_splits)
  qed simp
qed simp

lemma split_messages_append:
  "split_messages check cfg (xs @ ys) =
     (case split_messages check cfg xs of
        (ms, None) \<Rightarrow> (ms, None)
      | (ms, Some r) \<Rightarrow> (ms @ fst (split_messages check cfg (r @ ys)), snd (split_messages check cfg (r @ ys))))"
  by (auto simp: split_messages_def Let_def split_append [of _ xs] good_messages_append prod_eq_iff
      split: prod.split option.split)

definition message_decoder_ok :: "message_decoder \<Rightarrow> bool" where
  "message_decoder_ok d = (\<not> md_failed d \<and> decoder_ok (md_frames d))"

definition message_config :: "message_decoder \<Rightarrow> nat \<times> jsnum" where
  "message_config d = (fd_maxFrameLength (md_frames d), md_maxFrameLength d)"

lemma pushMessages_ok:
  assumes ok: "message_decoder_ok d"
  shows "case split_messages check (message_config d) (pending (md_frames d) @ c) of
      (ms, None) \<Rightarrow> \<exists>e d'. pushMessages check c d = Some (Inl e, d') \<and> md_failed d'
    | (ms, Some left) \<Rightarrow> \<exists>d'. pushMessages check c d = Some (Inr ms, d') \<and> message_decoder_ok d'
        \<and> pending (md_frames d') = left \<and> message_config d' = message_config d"
proof -
  from ok have d: "\<not> md_failed d" "decoder_ok (md_frames d)" by (simp_all add: message_decoder_ok_def)
  obtain fs l where sp: "split_frames (fd_maxFrameLength (md_frames d)) (pending (md_frames d) @ c) = (fs, l)"
    by (cases "split_frames (fd_maxFrameLength (md_frames d)) (pending (md_frames d) @ c)")
  let ?g = "good_messages (decodeMessage check (md_maxFrameLength d)) fs"
  have dec: "if snd ?g then decodeMessages check (md_maxFrameLength d) fs = Inr (fst ?g)
      else \<exists>e. decodeMessages check (md_maxFrameLength d) fs = Inl e"
    using decodeMessages_good [of "decodeMessage check (md_maxFrameLength d)" fs "[]"]
    by (auto simp: decodeMessages_def split: if_splits)
  show ?thesis
  proof (cases l)
    case None
    from frames.push_fails [OF d(2) sp [unfolded None]] sp None d show ?thesis
      by (auto simp: split_messages_def message_config_def pushMessages_def Let_def)
  next
    case (Some r)
    from frames.push_items [OF d(2) sp [unfolded Some]] sp Some d dec show ?thesis
      by (auto simp: split_messages_def message_config_def pushMessages_def message_decoder_ok_def Let_def
          split: if_splits)
  qed
qed

interpretation messages: incremental_decoder "pushMessages check" message_decoder_ok
  "\<lambda>d. pending (md_frames d)" message_config "split_messages check" for check
proof unfold_locales
  fix d c ms left
  assume "message_decoder_ok d" "split_messages check (message_config d) (pending (md_frames d) @ c) = (ms, Some left)"
  with pushMessages_ok [of d check c] show "\<exists>d'. pushMessages check c d = Some (Inr ms, d') \<and> message_decoder_ok d'
      \<and> pending (md_frames d') = left \<and> message_config d' = message_config d" by simp
next
  fix d c ms
  assume "message_decoder_ok d" "split_messages check (message_config d) (pending (md_frames d) @ c) = (ms, None)"
  with pushMessages_ok [of d check c] show "\<exists>e d'. pushMessages check c d = Some (Inl e, d')" by auto
next
  fix d assume "message_decoder_ok d"
  then show "split_messages check (message_config d) (pending (md_frames d)) = ([], Some (pending (md_frames d)))"
    using frames.split_held [of "md_frames d"]
    by (simp add: split_messages_def message_config_def message_decoder_ok_def)
qed (rule split_messages_append)

end
