(* ===== verification/MessageProps.thy ===== *)
theory MessageProps
  imports MessageCodec
begin

text \<open>
  Messages end to end: what one peer encodes the other decodes, over any chunking of the byte stream;
  and the structural check always returns on a finite heap.
\<close>

section \<open>The structural check\<close>

lemma every_o_True: "every_o f xs = Some True \<longleftrightarrow> (\<forall>x \<in> set xs. f x = Some True)"
  by (induction xs) (auto split: option.splits bool.splits)

lemma every_o_returns: "(\<And>x. x \<in> set xs \<Longrightarrow> \<exists>b. f x = Some b) \<Longrightarrow> \<exists>b. every_o f xs = Some b"
  by (induction xs) (force split: option.splits bool.splits)+

lemma list_all2_member2: "list_all2 P xs ys \<Longrightarrow> y \<in> set ys \<Longrightarrow> \<exists>x \<in> set xs. P x y"
  by (induction rule: list_all2_induct) auto

lemma isProtocolValue_tree:
  "isProtocolValue fuel h opt anc v = Some True \<Longrightarrow> denotes h v t \<Longrightarrow> isProtocolTree t"
proof (induction fuel arbitrary: opt anc v t)
  case (Suc fuel)
  show ?case
  proof (cases v)
    case (JRef a)
    from Suc.prems(2) [unfolded JRef] show ?thesis
    proof (rule denotes_ref)
      fix bs assume "t = CBytes bs" "h a = OBytes bs"
      with Suc.prems(1) JRef show ?thesis by (simp split: if_splits)
    next
      fix xs ts assume t: "t = CArr ts" and a: "h a = OArray xs"
        and all: "list_all2 (\<lambda>x t. \<exists>y. x = Some y \<and> denotes h y t) xs ts"
      from Suc.prems(1) JRef a have ev: "\<forall>x \<in> set xs. (case x of None \<Rightarrow> Some True
          | Some y \<Rightarrow> isProtocolValue fuel h False (insert a anc) y) = Some True"
        by (simp add: every_o_True split: if_splits)
      have "isProtocolTree u" if u: "u \<in> set ts" for u
      proof -
        from list_all2_member2 [OF all u] obtain y where "Some y \<in> set xs" "denotes h y u" by auto
        with ev Suc.IH show ?thesis by fastforce
      qed
      then show ?thesis by (simp add: t)
    next
      fix info ps qs assume t: "t = CMap qs" and a: "h a = OPlain info ps"
        and all: "list_all2 (\<lambda>p q. fst p = fst q \<and> denotes h (snd p) (snd q))
          (filter (\<lambda>(k, y). y \<noteq> JUndefined) ps) qs"
      from Suc.prems(1) JRef a have ev: "\<forall>p \<in> set ps. isProtocolValue fuel h True (insert a anc) (snd p) = Some True"
        by (simp add: every_o_True split: if_splits)
      have "isProtocolTree (snd q)" if q: "q \<in> set qs" for q
      proof -
        from list_all2_member2 [OF all q] obtain p where "p \<in> set ps" "denotes h (snd p) (snd q)" by auto
        with ev Suc.IH show ?thesis by blast
      qed
      then show ?thesis by (simp add: t)
    qed
  qed (use Suc.prems(2) in auto)
qed simp

lemma isProtocolValue_returns:
  assumes closed: "\<forall>a < N. \<forall>b. points_to h a b \<longrightarrow> b < N"
  shows "anc \<subseteq> {..<N} \<Longrightarrow> N - card anc < fuel \<Longrightarrow> (\<forall>b. v = JRef b \<longrightarrow> b < N) \<Longrightarrow>
    \<exists>r. isProtocolValue fuel h opt anc v = Some r"
proof (induction fuel arbitrary: opt anc v)
  case (Suc fuel)
  show ?case
  proof (cases "\<exists>a. v = JRef a \<and> a \<notin> anc")
    case False then show ?thesis by (cases v) auto
  next
    case True
    then obtain a where a: "v = JRef a" "a \<notin> anc" by blast
    with Suc.prems have lt: "a < N" by simp
    have fin: "finite anc" using Suc.prems(1) finite_subset by blast
    have "card (insert a anc) \<le> card {..<N}" using Suc.prems(1) lt by (intro card_mono) auto
    then have fuel: "N - card (insert a anc) < fuel" using Suc.prems(2) fin a(2) by simp
    have sub: "insert a anc \<subseteq> {..<N}" using Suc.prems(1) lt by auto
    have child: "\<exists>r. isProtocolValue fuel h opt (insert a anc) y = Some r" if "y \<in> children h a \<or> y = JUndefined" for y opt
    proof -
      have "\<forall>b. y = JRef b \<longrightarrow> b < N" using that closed lt by (auto simp: points_to_def)
      then show ?thesis by (rule Suc.IH [OF sub fuel])
    qed
    show ?thesis
    proof (cases "h a")
      case (OArray xs)
      have "\<exists>b. every_o (\<lambda>x. case x of None \<Rightarrow> Some True
          | Some y \<Rightarrow> isProtocolValue fuel h False (insert a anc) y) xs = Some b"
        by (rule every_o_returns) (use child OArray in \<open>auto simp: children_def split: option.split\<close>)
      with OArray a show ?thesis by simp
    next
      case (OPlain info ps)
      have "\<exists>b. every_o (\<lambda>p. isProtocolValue fuel h True (insert a anc) (snd p)) ps = Some b"
        by (rule every_o_returns, rule child) (use OPlain in \<open>auto simp: children_def\<close>)
      with OPlain a show ?thesis by (cases "nullPrototype info") auto
    qed (use a in auto)
  qed
qed simp

section \<open>One message\<close>

lemma encodeProtocolMessage_sound:
  assumes "heap_ok h" "encodeProtocolMessage fuel checkValue h v m = Some (Inr frame)"
    and "\<forall>t. denotes h v t \<longrightarrow> checkValue h v \<longrightarrow> check t"
  shows "\<exists>t p limit. denotes h v t \<and> encodeFrame p = Inr frame \<and> resolveMaxFrameLength (Some (messageLimit m)) = Inr limit
    \<and> length p \<le> limit \<and> decodeMessage check (messageLimit m) p = Inr t"
proof -
  from assms(2) obtain p where p: "isProtocolValue fuel h False {} v = Some True" "checkValue h v"
    "encodeCbor h v (messageCborArgs (messageLimit m)) = Inr p" "encodeFrame p = Inr frame"
    "assertCompleteFrame frame (Some (messageLimit m)) = Inr ()"
    by (auto simp: encodeProtocolMessage_def Let_def split: if_splits sum.splits)
  from encodeCbor_sound [OF assms(1) p(3)] obtain t where t: "denotes h v t"
    "decodeCbor p (messageCborArgs (messageLimit m)) = Inr t" by (auto simp: decodeCbor_def)
  have "isProtocolTree t" using isProtocolValue_tree [OF p(1) t(1)] .
  moreover have "check t" using assms(3) p(2) t(1) by blast
  ultimately have dec: "decodeMessage check (messageLimit m) p = Inr t"
    by (simp add: decodeMessage_def t(2) parseMessage_def)
  from p(4,5) obtain limit where "resolveMaxFrameLength (Some (messageLimit m)) = Inr limit" "length p \<le> limit"
    by (auto simp: assertCompleteFrame_def Let_def encodeFrame_Inr headerValue_be32 split: if_splits)
  with t(1) dec p(4) show ?thesis by blast
qed

lemma good_messages_all:
  "list_all2 (\<lambda>f t. dec f = Inr t) fs ts \<Longrightarrow> good_messages dec fs = (ts, True)"
  by (induction rule: list_all2_induct) (simp_all add: prod_eq_iff)

lemma messageLimit_resolve: "resolveMaxFrameLength (Some (messageLimit m)) = resolveMaxFrameLength m"
  by (simp add: resolveMaxFrameLength_def messageLimit_def split: option.split)

lemma newMessageDecoder_ok:
  assumes "newMessageDecoder m = Inr d"
  shows "message_decoder_ok d \<and> pending (md_frames d) = [] \<and> md_maxFrameLength d = messageLimit m
    \<and> resolveMaxFrameLength m = Inr (fd_maxFrameLength (md_frames d))"
  using assms newFrameDecoder_ok [of m] by (auto simp: newMessageDecoder_def message_decoder_ok_def)

lemma endMessages_ok:
  "message_decoder_ok d \<Longrightarrow> pending (md_frames d) = [] \<Longrightarrow> fst (endMessages d) = Inr ()"
  using endFrames_open [of "md_frames d"]
  by (auto simp: endMessages_def message_decoder_ok_def split: prod.split sum.split)

lemma encode_messages:
  assumes "heap_ok h" "\<forall>v t. denotes h v t \<longrightarrow> checkValue h v \<longrightarrow> check t"
    and "resolveMaxFrameLength m = Inr limit"
    and "list_all2 (\<lambda>v f. encodeProtocolMessage fuel checkValue h v m = Some (Inr f)) vs fs"
  shows "\<exists>ps ts. list_all2 (denotes h) vs ts \<and> list_all2 (\<lambda>p f. encodeFrame p = Inr f \<and> length p \<le> limit) ps fs
    \<and> list_all2 (\<lambda>p t. decodeMessage check (messageLimit m) p = Inr t) ps ts"
  using assms(4)
proof (induction rule: list_all2_induct)
  case (Cons v vs f fs)
  from Cons.IH obtain ps ts where IH: "list_all2 (denotes h) vs ts"
    "list_all2 (\<lambda>p f. encodeFrame p = Inr f \<and> length p \<le> limit) ps fs"
    "list_all2 (\<lambda>p t. decodeMessage check (messageLimit m) p = Inr t) ps ts" by blast
  from encodeProtocolMessage_sound [OF assms(1) Cons.hyps(1), of check] assms(2,3) obtain t p where
    "denotes h v t" "encodeFrame p = Inr f" "length p \<le> limit" "decodeMessage check (messageLimit m) p = Inr t"
    by (auto simp: messageLimit_resolve)
  with IH have "list_all2 (denotes h) (v # vs) (t # ts)"
    "list_all2 (\<lambda>p f. encodeFrame p = Inr f \<and> length p \<le> limit) (p # ps) (f # fs)"
    "list_all2 (\<lambda>p t. decodeMessage check (messageLimit m) p = Inr t) (p # ps) (t # ts)" by simp_all
  then show ?case by blast
qed simp

section \<open>Properties\<close>

text \<open>
  C2. Messages survive the wire: the frames of a sequence of encoded messages, cut into chunks in any
  way, make the peer's decoder (same frame limit, any schema that accepts the decoded form of what the
  sender's check accepted) return exactly the trees of those messages, in order, and the stream may
  then be ended.
\<close>

theorem messages_roundtrip:
  assumes "heap_ok h" "newMessageDecoder m = Inr d"
    and "\<forall>v t. denotes h v t \<longrightarrow> checkValue h v \<longrightarrow> check t"
    and "list_all2 (\<lambda>v f. encodeProtocolMessage fuel checkValue h v m = Some (Inr f)) vs fs"
    and "concat cs = concat fs"
  shows "\<exists>ts d'. list_all2 (denotes h) vs ts \<and> pushAll (pushMessages check) cs d = Some (Inr ts, d')
    \<and> fst (endMessages d') = Inr ()"
proof -
  from newMessageDecoder_ok [OF assms(2)] have d: "message_decoder_ok d" "pending (md_frames d) = []"
    "md_maxFrameLength d = messageLimit m" "resolveMaxFrameLength m = Inr (fd_maxFrameLength (md_frames d))" by simp_all
  from encode_messages [OF assms(1,3) d(4) assms(4)] obtain ps ts where e: "list_all2 (denotes h) vs ts"
    "list_all2 (\<lambda>p f. encodeFrame p = Inr f \<and> length p \<le> fd_maxFrameLength (md_frames d)) ps fs"
    "list_all2 (\<lambda>p t. decodeMessage check (messageLimit m) p = Inr t) ps ts" by blast
  have "split_messages check (message_config d) (pending (md_frames d) @ concat cs) = (ts, Some [])"
    using split_encoded [OF e(2)] good_messages_all [OF e(3)] d(2,3) assms(5)
    by (simp add: split_messages_def message_config_def)
  from messages.pushAll_items [OF d(1) this] e(1) endMessages_ok show ?thesis by auto
qed

text \<open>
  The messages a decoder returns do not depend on how the stream was cut into chunks.
\<close>

theorem messages_chunking:
  assumes "newMessageDecoder m = Inr d" "concat cs = concat cs'"
  shows "(\<exists>ms d1 d2. pushAll (pushMessages check) cs d = Some (Inr ms, d1)
      \<and> pushAll (pushMessages check) cs' d = Some (Inr ms, d2))
    \<or> (\<exists>e e' d1 d2. pushAll (pushMessages check) cs d = Some (Inl e, d1)
      \<and> pushAll (pushMessages check) cs' d = Some (Inl e', d2))"
  using messages.chunking_irrelevant [OF _ assms(2), of d check] newMessageDecoder_ok [OF assms(1)] by blast

text \<open>
  \<open>isProtocolValue\<close> returns on every value of a finite heap, cyclic or not: fuel one above the
  number of objects is enough.
\<close>

theorem isProtocolValue_total:
  assumes "\<forall>a < N. \<forall>b. points_to h a b \<longrightarrow> b < N" "\<forall>b. v = JRef b \<longrightarrow> b < N"
  shows "\<exists>r. isProtocolValue (N + 1) h opt {} v = Some r"
  by (rule isProtocolValue_returns [OF assms(1)]) (use assms(2) in auto)

section \<open>Witnesses\<close>

text \<open>Two messages: an object with a string, and \<open>null\<close>; the schema accepts what is not a number.\<close>

definition demo_messages :: heap where
  "demo_messages = (\<lambda>_. OOther) (0 := OPlain (PlainInfo False False) [([0x61], JBool True), ([0x62], JUndefined)])"

definition demo_check :: "cval \<Rightarrow> bool" where
  "demo_check t = (case t of CNum _ \<Rightarrow> False | _ \<Rightarrow> True)"

definition demo_checkValue :: "heap \<Rightarrow> jsval \<Rightarrow> bool" where
  "demo_checkValue h v = (case v of JNumber _ \<Rightarrow> False | _ \<Rightarrow> True)"

definition demo_decoder :: message_decoder where
  "demo_decoder = \<lparr>md_failed = False, md_frames = demo_frames, md_maxFrameLength = int_num 16\<rparr>"

lemma demo_decoder_new: "newMessageDecoder (Some (int_num 16)) = Inr demo_decoder"
  by (simp add: newMessageDecoder_def demo_frames_new demo_decoder_def messageLimit_def)

lemma demo_messages_ok: "heap_ok demo_messages"
  by (simp add: heap_ok_def demo_messages_def keys_ok_def key_before_def array_index_def is_digit_def)

lemma demo_schema: "\<forall>v t. denotes demo_messages v t \<longrightarrow> demo_checkValue demo_messages v \<longrightarrow> demo_check t"
  by (auto simp: demo_check_def demo_checkValue_def split: jsval.splits cval.splits elim: denotes_ref)

lemma demo_message_options:
  "resolveOptions (messageCborArgs (int_num 16)) = Inr \<lparr>maxByteLength = 16, maxContainerLength = 1000000, maxDepth = 64\<rparr>"
  by (simp add: resolveOptions_def messageCborArgs_def resolveLimit_numeral MAX_UINT32_def max_safe_def
      DEFAULT_MAX_CBOR_CONTAINER_LENGTH_def DEFAULT_MAX_CBOR_DEPTH_def MAX_CONFIGURED_DEPTH_def)

lemma demo_limit: "resolveMaxFrameLength (Some (int_num 16)) = Inr 16"
  using demo_frames_new newFrameDecoder_ok [OF demo_frames_new] by (simp add: demo_frames_def)

lemma demo_payloads:
  "encodeCbor demo_messages (JRef 0) (messageCborArgs (int_num 16)) = Inr [0xa1, 0x61, 0x61, 0xf5]"
  "encodeCbor demo_messages JNull (messageCborArgs (int_num 16)) = Inr [0xf6]"
  by (simp_all add: demo_run demo_message_options demo_messages_def encodeValue.simps Let_def
      replicate_numeral_unroll list_update_numeral)

lemma demo_assert:
  "assertCompleteFrame [0, 0, 0, 4, 0xa1, 0x61, 0x61, 0xf5] (Some (int_num 16)) = Inr ()"
  "assertCompleteFrame [0, 0, 0, 1, 0xf6] (Some (int_num 16)) = Inr ()"
  by (simp_all add: assertCompleteFrame_def demo_limit headerValue_def FRAME_HEADER_LENGTH_def)

lemma demo_messages_enc:
  "encodeProtocolMessage 3 demo_checkValue demo_messages (JRef 0) (Some (int_num 16))
     = Some (Inr [0, 0, 0, 4, 0xa1, 0x61, 0x61, 0xf5])"
  "encodeProtocolMessage 3 demo_checkValue demo_messages JNull (Some (int_num 16)) = Some (Inr [0, 0, 0, 1, 0xf6])"
proof -
  have "isProtocolValue 3 demo_messages False {} (JRef 0) = Some True"
    "isProtocolValue 3 demo_messages False {} JNull = Some True"
    by (simp_all add: numeral_eq_Suc demo_messages_def)
  moreover have "encodeFrame [0xa1, 0x61, 0x61, 0xf5] = Inr [0, 0, 0, 4, 0xa1, 0x61, 0x61, 0xf5]"
    "encodeFrame [0xf6] = Inr [0, 0, 0, 1, 0xf6]"
    using encodeFrame_eq [of "[0xa1, 0x61, 0x61, 0xf5]"] encodeFrame_eq [of "[0xf6]"]
    by (simp_all add: be32_def MAX_UINT32_def)
  ultimately show "encodeProtocolMessage 3 demo_checkValue demo_messages (JRef 0) (Some (int_num 16))
      = Some (Inr [0, 0, 0, 4, 0xa1, 0x61, 0x61, 0xf5])"
    "encodeProtocolMessage 3 demo_checkValue demo_messages JNull (Some (int_num 16)) = Some (Inr [0, 0, 0, 1, 0xf6])"
    by (simp_all add: encodeProtocolMessage_def demo_checkValue_def messageLimit_def demo_payloads demo_assert)
qed

theorem messages_roundtrip_witness:
  "\<exists>ts d'. list_all2 (denotes demo_messages) [JRef 0, JNull] ts
     \<and> pushAll (pushMessages demo_check) [[0, 0, 0, 4, 0xa1], [0x61, 0x61, 0xf5, 0], [0, 0, 1, 0xf6]] demo_decoder
         = Some (Inr ts, d') \<and> fst (endMessages d') = Inr ()"
  by (rule messages_roundtrip [where m = "Some (int_num 16)" and checkValue = demo_checkValue and fuel = 3
        and fs = "[[0, 0, 0, 4, 0xa1, 0x61, 0x61, 0xf5], [0, 0, 0, 1, 0xf6]]"])
    (simp_all add: demo_messages_enc demo_messages_ok demo_decoder_new demo_schema)

theorem messages_chunking_witness:
  "(\<exists>ms d1 d2. pushAll (pushMessages demo_check) [[0, 0, 0, 1, 0xf6]] demo_decoder = Some (Inr ms, d1)
      \<and> pushAll (pushMessages demo_check) [[0, 0], [0, 1], [0xf6]] demo_decoder = Some (Inr ms, d2))
    \<or> (\<exists>e e' d1 d2. pushAll (pushMessages demo_check) [[0, 0, 0, 1, 0xf6]] demo_decoder = Some (Inl e, d1)
      \<and> pushAll (pushMessages demo_check) [[0, 0], [0, 1], [0xf6]] demo_decoder = Some (Inl e', d2))"
  by (rule messages_chunking [OF demo_decoder_new]) simp

theorem isProtocolValue_total_witness:
  "\<exists>r. isProtocolValue (2 + 1) demo_cyclic False {} (JRef 0) = Some r"
  by (rule isProtocolValue_total) (auto simp: points_to_def children_def demo_cyclic_def split: if_splits)

end
