(* ===== verification/SessionTypes.thy ===== *)
theory SessionTypes
  imports Prelude JsNumber
begin

text \<open>
  The data of a session: messages (\<open>packages/ai/src/types.ts\<close>, \<open>agent/src/harness/messages.ts\<close>),
  entries, records, queries and log items (\<open>agent/src/harness/session/types.ts\<close>). Identifiers and
  texts are compared and concatenated only, so they are HOL strings. Token counts are integers,
  costs stay IEEE doubles.
\<close>

section \<open>JSON payloads\<close>

datatype json =
    JsonNull | JsonBool bool | JsonNumber jsnum | JsonString string | JsonArray "json list"
  | JsonObject "(string \<times> json) list"

section \<open>Messages\<close>

record usage_cost =
  cost_input :: jsnum
  cost_output :: jsnum
  cost_cacheRead :: jsnum
  cost_cacheWrite :: jsnum
  cost_total :: jsnum

record usage =
  u_input :: int
  u_output :: int
  u_cacheRead :: int
  u_cacheWrite :: int
  u_cacheWrite1h :: "int option"
  u_reasoning :: "int option"
  u_totalTokens :: int
  u_cost :: usage_cost

datatype stop_reason =
    PendingStop | StopStop | LengthStop | ToolUseStop | ErrorStop | AbortedStop | DeferredStop

record tool_call =
  tc_id :: string
  tc_name :: string
  tc_arguments :: "(string \<times> json) list"
  tc_thoughtSignature :: "string option"
  tc_namespace :: "string option"

datatype content =
    TextContent string "string option"
  | ThinkingContent string "string option" "bool option"
  | ImageContent string string
  | ToolCallContent tool_call

text \<open>The field \<open>content\<close> of a user or custom message: a string or blocks.\<close>

datatype body = TextBody string | Blocks "content list"

record deferred_handle =
  dh_provider :: string
  dh_modelId :: string
  dh_api :: string
  dh_id :: string
  dh_expiresAt :: "int option"
  dh_pollAfterMs :: "int option"
  dh_data :: "json option"

record user_message =
  um_content :: body
  um_timestamp :: int

record assistant_message =
  am_content :: "content list"
  am_api :: string
  am_provider :: string
  am_model :: string
  am_responseModel :: "string option"
  am_responseId :: "string option"
  am_diagnostics :: "json option"
  am_usage :: usage
  am_stopReason :: stop_reason
  am_deferred :: "deferred_handle option"
  am_errorMessage :: "string option"
  am_rawStopReason :: "string option"
  am_endTurn :: "bool option"
  am_timestamp :: int

record tool_result_message =
  tr_toolCallId :: string
  tr_toolName :: string
  tr_content :: "content list"
  tr_details :: "json option"
  tr_usage :: "usage option"
  tr_addedToolNames :: "string list option"
  tr_isError :: bool
  tr_timestamp :: int

record bash_execution_message =
  be_command :: string
  be_output :: string
  be_exitCode :: "int option"
  be_cancelled :: bool
  be_truncated :: bool
  be_fullOutputPath :: "string option"
  be_timestamp :: int
  be_excludeFromContext :: "bool option"

record custom_message =
  cm_customType :: string
  cm_content :: body
  cm_display :: bool
  cm_details :: "json option"
  cm_timestamp :: int

record branch_summary_message =
  bs_summary :: string
  bs_fromId :: string
  bs_timestamp :: int

record compaction_summary_message =
  cs_summary :: string
  cs_tokensBefore :: int
  cs_timestamp :: int

text \<open>The union is open: extensions add roles of their own.\<close>

datatype agent_message =
    UserMessage user_message
  | AssistantMessage assistant_message
  | ToolResultMessage tool_result_message
  | BashExecutionMessage bash_execution_message
  | CustomMessage custom_message
  | BranchSummaryMessage branch_summary_message
  | CompactionSummaryMessage compaction_summary_message
  | ExtensionMessage string int json \<comment> \<open>role, timestamp and the other fields\<close>

datatype message_role =
    UserRole | AssistantRole | ToolResultRole | BashExecutionRole | CustomRole | BranchSummaryRole
  | CompactionSummaryRole | ExtensionRole string

fun role :: "agent_message \<Rightarrow> message_role" where
  "role (UserMessage _) = UserRole"
| "role (AssistantMessage _) = AssistantRole"
| "role (ToolResultMessage _) = ToolResultRole"
| "role (BashExecutionMessage _) = BashExecutionRole"
| "role (CustomMessage _) = CustomRole"
| "role (BranchSummaryMessage _) = BranchSummaryRole"
| "role (CompactionSummaryMessage _) = CompactionSummaryRole"
| "role (ExtensionMessage r _ _) = ExtensionRole r"

section \<open>Entries\<close>

datatype entry_type =
    MessageType | ModelChangeType | ThinkingLevelType | ActiveToolsType | CompactionType
  | BranchSummaryType | CustomType

record compaction_data =
  cd_summary :: string
  cd_retainedTail :: "agent_message list"
  cd_tokensBefore :: int
  cd_details :: "json option"
  cd_usage :: "usage option"

record branch_summary_data =
  bd_fromId :: string
  bd_summary :: string
  bd_details :: "json option"
  bd_usage :: "usage option"

datatype entry_data =
    MessageEntry agent_message bool \<comment> \<open>the flag is the optional \<open>terminate: true\<close>\<close>
  | ModelChangeEntry string string
  | ThinkingLevelEntry string
  | ActiveToolsEntry "string list"
  | CompactionEntry compaction_data
  | BranchSummaryEntry branch_summary_data
  | CustomEntry string "json option"

fun entry_data_type :: "entry_data \<Rightarrow> entry_type" where
  "entry_data_type (MessageEntry _ _) = MessageType"
| "entry_data_type (ModelChangeEntry _ _) = ModelChangeType"
| "entry_data_type (ThinkingLevelEntry _) = ThinkingLevelType"
| "entry_data_type (ActiveToolsEntry _) = ActiveToolsType"
| "entry_data_type (CompactionEntry _) = CompactionType"
| "entry_data_type (BranchSummaryEntry _) = BranchSummaryType"
| "entry_data_type (CustomEntry _ _) = CustomType"

record entry =
  e_id :: string
  e_seq :: nat
  e_parentId :: "string option"
  e_timestamp :: int
  e_data :: entry_data

definition e_type :: "entry \<Rightarrow> entry_type" where
  "e_type e = entry_data_type (e_data e)"

text \<open>\<open>ProvisionedEntry\<close>: an entry before the storage assigns parent, sequence and time.\<close>

record provisioned_entry =
  p_id :: string
  p_data :: entry_data

section \<open>Records\<close>

record run_intent =
  ri_originalPrompt :: "agent_message list"
  ri_initialMessages :: "provisioned_entry list"
  ri_systemPromptOverride :: "string option"
  ri_resumeData :: "(string \<times> json) list option"

record compaction_intent =
  ci_customInstructions :: "string option"
  ci_resultEntryId :: string

record navigation_intent =
  ni_targetId :: "string option"
  ni_summarize :: bool
  ni_customInstructions :: "string option"
  ni_label :: "string option"
  ni_summaryEntryId :: "string option"

datatype intent =
    RunIntent run_intent | CompactionIntent compaction_intent | NavigationIntent navigation_intent

datatype intent_kind = RunKind | CompactionKind | NavigationKind

fun kind_of :: "intent \<Rightarrow> intent_kind" where
  "kind_of (RunIntent _) = RunKind"
| "kind_of (CompactionIntent _) = CompactionKind"
| "kind_of (NavigationIntent _) = NavigationKind"

datatype outcome = Completed | AbortedOutcome | FailedOutcome | Declined

datatype compaction_reason = ManualReason | ThresholdReason | OverflowReason | UnknownReason string

datatype step_kind = AssistantStep | CompactionStep | BranchSummaryStep

record step_attempt =
  sa_runId :: string
  sa_step :: step_kind
  sa_attempt :: int
  sa_resultEntryId :: string
  sa_compactionReason :: "compaction_reason option"

record tool_started =
  ts_runId :: string
  ts_assistantEntryId :: string
  ts_toolIndex :: nat
  ts_toolCallId :: string
  ts_toolName :: string
  ts_effectiveArgs :: "(string \<times> json) list"
  ts_resultEntryId :: string
  ts_replaySafe :: bool

datatype queue_name = Steer | FollowUp | NextRun

record queue_enqueued =
  qe_queue :: queue_name
  qe_runId :: "string option"
  qe_target :: provisioned_entry

datatype usage_cause =
    StepCause string string int stop_reason \<comment> \<open>assistant, compaction or branch summary: run, entry, attempt\<close>
  | DeferredFetchCause string string int stop_reason
  | ToolCause string string string
  | HookCause string string
  | AdjustmentCause "string option" "string option" "json option"

datatype record_data =
    OperationStarted "string option" intent
  | AbortRequested string
  | OperationFinished string outcome "(string \<times> string) option"
  | StepAttempt step_attempt
  | ToolStarted tool_started
  | QueueEnqueued queue_enqueued
  | QueueCancelled "string option" string
  | WriteDeferred string provisioned_entry
  | UsageRecord usage usage_cause

record lane_record =
  r_id :: string
  r_seq :: nat
  r_lane :: string
  r_timestamp :: int
  r_data :: record_data

text \<open>\<open>NewRecord\<close>: a record before the storage assigns sequence and time.\<close>

record new_record =
  n_id :: string
  n_lane :: string
  n_data :: record_data

datatype record_type =
    OperationStartedType | AbortRequestedType | OperationFinishedType | StepAttemptType | ToolStartedType
  | QueueEnqueuedType | QueueCancelledType | WriteDeferredType | UsageType

fun record_data_type :: "record_data \<Rightarrow> record_type" where
  "record_data_type (OperationStarted _ _) = OperationStartedType"
| "record_data_type (AbortRequested _) = AbortRequestedType"
| "record_data_type (OperationFinished _ _ _) = OperationFinishedType"
| "record_data_type (StepAttempt _) = StepAttemptType"
| "record_data_type (ToolStarted _) = ToolStartedType"
| "record_data_type (QueueEnqueued _) = QueueEnqueuedType"
| "record_data_type (QueueCancelled _ _) = QueueCancelledType"
| "record_data_type (WriteDeferred _ _) = WriteDeferredType"
| "record_data_type (UsageRecord _ _) = UsageType"

fun cause_run :: "usage_cause \<Rightarrow> string option" where
  "cause_run (StepCause r _ _ _) = Some r"
| "cause_run (DeferredFetchCause r _ _ _) = Some r"
| "cause_run (ToolCause r _ _) = Some r"
| "cause_run (HookCause r _) = Some r"
| "cause_run (AdjustmentCause r _ _) = r"

text \<open>The property \<open>runId\<close> of a record, for the records that have one.\<close>

fun run_of :: "record_data \<Rightarrow> string option" where
  "run_of (OperationStarted _ _) = None"
| "run_of (AbortRequested r) = Some r"
| "run_of (OperationFinished r _ _) = Some r"
| "run_of (StepAttempt a) = Some (sa_runId a)"
| "run_of (ToolStarted t) = Some (ts_runId t)"
| "run_of (QueueEnqueued q) = qe_runId q"
| "run_of (QueueCancelled r _) = r"
| "run_of (WriteDeferred r _) = Some r"
| "run_of (UsageRecord _ c) = cause_run c"

section \<open>Queries, statistics and the log\<close>

datatype entry_order = NewestFirst | OldestFirst

record entry_query =
  q_type :: "entry_type option"
  q_customType :: "string option"
  q_order :: "entry_order option"
  q_limit :: "jsnum option"
  q_cursor :: "jsnum option"

record branch_bounds =
  b_stopAtType :: "entry_type option"
  b_stopAtId :: "string option"

record record_query =
  rq_lane :: "string option"
  rq_type :: "record_type option"
  rq_runId :: "string option"
  rq_operationKind :: "intent_kind option"
  rq_afterSeq :: "jsnum option"
  rq_order :: "entry_order option"
  rq_limit :: "jsnum option"

text \<open>The totals; the cost is the left-to-right floating-point sum of the listed values.\<close>

record session_stats =
  st_messageCount :: nat
  st_cachedTokens :: int
  st_uncachedTokens :: int
  st_totalTokens :: int
  st_costTotal :: "jsnum list"

datatype log_item =
    LogEntry nat entry
  | LogRecord nat lane_record
  | LogLane nat string "string option"
  | LogName nat "string option"
  | LogLabel nat string "string option"

fun log_seq :: "log_item \<Rightarrow> nat" where
  "log_seq (LogEntry n _) = n"
| "log_seq (LogRecord n _) = n"
| "log_seq (LogLane n _ _) = n"
| "log_seq (LogName n _) = n"
| "log_seq (LogLabel n _ _) = n"

datatype fork_position = BeforeEntry | AtEntry

datatype fork_options = ForkBranch "string option" "fork_position option" | ForkTree

datatype session_error =
    NotFound | AlreadyExists | InvalidEntry | InvalidPayload | InvalidLane | InvalidQuery
  | InvalidForkTarget | StorageError

end
