(* ===== verification/SessionState.thy ===== *)
theory SessionState
  imports SessionTypes
begin

text \<open>
  The in-memory state of a session (\<open>packages/agent/src/harness/session/state.ts\<close>): the class
  \<open>SessionState\<close> as a record, \<open>applyMutation\<close> with every check of the code, the queries, the walk
  along a branch and the mutations of a fork. The generator \<open>walkToRoot\<close> is the list it yields and
  the error that ends it, if one does.
\<close>

datatype session_mutation =
    MutEntry "string option" entry
  | MutRecord lane_record
  | MutLane nat string "string option"
  | MutName nat "string option"
  | MutLabel nat string "string option"

fun mutation_seq :: "session_mutation \<Rightarrow> nat" where
  "mutation_seq (MutEntry _ e) = e_seq e"
| "mutation_seq (MutRecord r) = r_seq r"
| "mutation_seq (MutLane n _ _) = n"
| "mutation_seq (MutName n _) = n"
| "mutation_seq (MutLabel n _ _) = n"

definition assertValidLimit :: "jsnum option \<Rightarrow> session_error + unit" where
  "assertValidLimit limit =
     (case limit of
        None \<Rightarrow> Inr ()
      | Some n \<Rightarrow> if \<not> num_is_integer n \<or> num_int n \<le> 0 then Inl InvalidQuery else Inr ())"

definition assertValidCursor :: "jsnum option \<Rightarrow> session_error + unit" where
  "assertValidCursor afterSeq =
     (case afterSeq of
        None \<Rightarrow> Inr ()
      | Some n \<Rightarrow> if \<not> num_is_integer n \<or> num_int n < 0 then Inl InvalidQuery else Inr ())"

definition ordered :: "'a list \<Rightarrow> entry_order option \<Rightarrow> 'a list" where
  "ordered items order = (if order = Some OldestFirst then items else rev items)"

text \<open>\<open>results.length === query.limit\<close>\<close>

definition reached :: "jsnum option \<Rightarrow> 'a list \<Rightarrow> bool" where
  "reached limit results = (case limit of None \<Rightarrow> False | Some n \<Rightarrow> int (length results) = num_int n)"

text \<open>The loops of the queries: keep the matching items, stop at the limit.\<close>

fun collect :: "('a \<Rightarrow> bool) \<Rightarrow> jsnum option \<Rightarrow> 'a list \<Rightarrow> 'a list \<Rightarrow> 'a list" where
  "collect matches limit results [] = results"
| "collect matches limit results (x # xs) =
     (if \<not> matches x then collect matches limit results xs
      else if reached limit (results @ [x]) then results @ [x]
      else collect matches limit (results @ [x]) xs)"

record session_state =
  s_sequence :: nat
  s_usedIds :: "string set"
  s_entries :: "entry list"
  s_entriesById :: "(string, entry) jsmap"
  s_records :: "lane_record list"
  s_openOperationsByLane :: "(string, (string, lane_record) jsmap) jsmap"
  s_lanes :: "(string, string option) jsmap"
  s_log :: "log_item list"
  s_stats :: session_stats
  s_name :: "string option"
  s_labels :: "(string, string) jsmap"

definition initState :: session_state where
  "initState = \<lparr>s_sequence = 0, s_usedIds = {}, s_entries = [], s_entriesById = [], s_records = [],
     s_openOperationsByLane = [], s_lanes = [(''main'', None)], s_log = [],
     s_stats = \<lparr>st_messageCount = 0, st_cachedTokens = 0, st_uncachedTokens = 0, st_totalTokens = 0,
                st_costTotal = []\<rparr>,
     s_name = None, s_labels = []\<rparr>"

definition nextSequence :: "session_state \<Rightarrow> nat" where
  "nextSequence s = s_sequence s + 1"

definition getLanes :: "session_state \<Rightarrow> (string \<times> string option) list" where
  "getLanes s = s_lanes s"

definition requireLane :: "string \<Rightarrow> session_state \<Rightarrow> session_error + string option" where
  "requireLane lane s = (case map_get (s_lanes s) lane of None \<Rightarrow> Inl InvalidLane | Some leaf \<Rightarrow> Inr leaf)"

definition validateNewLane :: "string \<Rightarrow> session_state \<Rightarrow> session_error + unit" where
  "validateNewLane lane s = (if map_has (s_lanes s) lane then Inl AlreadyExists else Inr ())"

definition validateTarget :: "string option \<Rightarrow> session_state \<Rightarrow> session_error + unit" where
  "validateTarget target s =
     (case target of
        None \<Rightarrow> Inr ()
      | Some t \<Rightarrow> if map_has (s_entriesById s) t then Inr () else Inl NotFound)"

definition validateUnusedId :: "string \<Rightarrow> session_state \<Rightarrow> session_error + unit" where
  "validateUnusedId i s = (if i \<in> s_usedIds s then Inl AlreadyExists else Inr ())"

section \<open>Mutations\<close>

text \<open>The branch of \<open>applyMutation\<close> for an entry: the updates, and the checks before them.\<close>

definition putEntry :: "string option \<Rightarrow> entry \<Rightarrow> session_state \<Rightarrow> session_state" where
  "putEntry lane e s = s\<lparr>
     s_sequence := e_seq e,
     s_usedIds := insert (e_id e) (s_usedIds s),
     s_entries := s_entries s @ [e],
     s_entriesById := map_set (e_id e) e (s_entriesById s),
     s_lanes := (case lane of None \<Rightarrow> s_lanes s | Some l \<Rightarrow> map_set l (Some (e_id e)) (s_lanes s)),
     s_log := s_log s @ [LogEntry (e_seq e) e],
     s_stats := (if e_type e = MessageType
                 then (s_stats s)\<lparr>st_messageCount := st_messageCount (s_stats s) + 1\<rparr> else s_stats s)\<rparr>"

definition applyEntry :: "string option \<Rightarrow> entry \<Rightarrow> session_state \<Rightarrow> session_error + session_state" where
  "applyEntry lane e s =
     (if e_id e \<in> s_usedIds s then Inl InvalidEntry
      else if (case lane of
                 None \<Rightarrow> False
               | Some l \<Rightarrow> (case map_get (s_lanes s) l of None \<Rightarrow> True | Some leaf \<Rightarrow> e_parentId e \<noteq> leaf))
        then Inl InvalidEntry
      else if (case e_parentId e of None \<Rightarrow> False | Some p \<Rightarrow> \<not> map_has (s_entriesById s) p) then Inl InvalidEntry
      else Inr (putEntry lane e s))"

definition addUsage :: "usage \<Rightarrow> session_stats \<Rightarrow> session_stats" where
  "addUsage u t = t\<lparr>
     st_cachedTokens := st_cachedTokens t + u_cacheRead u,
     st_uncachedTokens := st_uncachedTokens t + (u_input u + u_cacheWrite u),
     st_totalTokens := st_totalTokens t + u_totalTokens u,
     st_costTotal := st_costTotal t @ [cost_total (u_cost u)]\<rparr>"

text \<open>The bookkeeping of open operations.\<close>

definition trackOperation :: "lane_record \<Rightarrow> (string, (string, lane_record) jsmap) jsmap
    \<Rightarrow> (string, (string, lane_record) jsmap) jsmap" where
  "trackOperation r m =
     (case r_data r of
        OperationStarted _ _ \<Rightarrow>
          map_set (r_lane r)
            (map_set (r_id r) r (case map_get m (r_lane r) of None \<Rightarrow> [] | Some ops \<Rightarrow> ops)) m
      | OperationFinished runId _ _ \<Rightarrow>
          (case map_get m (r_lane r) of
             None \<Rightarrow> m
           | Some ops \<Rightarrow> map_set (r_lane r) (map_delete runId ops) m)
      | _ \<Rightarrow> m)"

definition applyRecord :: "lane_record \<Rightarrow> session_state \<Rightarrow> session_error + session_state" where
  "applyRecord r s =
     (if \<not> map_has (s_lanes s) (r_lane r) then Inl InvalidEntry
      else if r_id r \<in> s_usedIds s then Inl InvalidEntry
      else Inr (s\<lparr>
        s_sequence := r_seq r,
        s_usedIds := insert (r_id r) (s_usedIds s),
        s_records := s_records s @ [r],
        s_openOperationsByLane := trackOperation r (s_openOperationsByLane s),
        s_log := s_log s @ [LogRecord (r_seq r) r],
        s_stats := (case r_data r of UsageRecord u _ \<Rightarrow> addUsage u (s_stats s) | _ \<Rightarrow> s_stats s)\<rparr>))"

definition applyMutation :: "session_mutation \<Rightarrow> session_state \<Rightarrow> session_error + session_state" where
  "applyMutation m s =
     (if mutation_seq m \<noteq> s_sequence s + 1 then Inl InvalidEntry
      else case m of
        MutEntry lane e \<Rightarrow> applyEntry lane e s
      | MutRecord r \<Rightarrow> applyRecord r s
      | MutLane n lane leaf \<Rightarrow>
          (case leaf of
             Some i \<Rightarrow> if \<not> map_has (s_entriesById s) i then Inl InvalidEntry
               else Inr (s\<lparr>s_sequence := n, s_lanes := map_set lane leaf (s_lanes s),
                           s_log := s_log s @ [LogLane n lane leaf]\<rparr>)
           | None \<Rightarrow> Inr (s\<lparr>s_sequence := n, s_lanes := map_set lane leaf (s_lanes s),
                           s_log := s_log s @ [LogLane n lane leaf]\<rparr>))
      | MutName n name \<Rightarrow>
          Inr (s\<lparr>s_sequence := n, s_name := name, s_log := s_log s @ [LogName n name]\<rparr>)
      | MutLabel n target label \<Rightarrow>
          if \<not> map_has (s_entriesById s) target then Inl InvalidEntry
          else Inr (s\<lparr>s_sequence := n,
            s_labels := (case label of
                None \<Rightarrow> map_delete target (s_labels s)
              | Some l \<Rightarrow> map_set target l (s_labels s)),
            s_log := s_log s @ [LogLabel n target label]\<rparr>))"

section \<open>Queries\<close>

definition getEntry :: "string \<Rightarrow> session_state \<Rightarrow> entry option" where
  "getEntry i s = map_get (s_entriesById s) i"

definition matchesEntryQuery :: "entry_query \<Rightarrow> entry \<Rightarrow> bool" where
  "matchesEntryQuery q e =
     ((case q_type q of None \<Rightarrow> True | Some t \<Rightarrow> e_type e = t)
      \<and> (case q_customType q of None \<Rightarrow> True
         | Some c \<Rightarrow> (case e_data e of CustomEntry c' _ \<Rightarrow> c' = c | _ \<Rightarrow> False))
      \<and> (case q_cursor q of None \<Rightarrow> True
         | Some n \<Rightarrow> if q_order q = Some OldestFirst then int (e_seq e) > num_int n
                     else int (e_seq e) < num_int n))"

definition matchesRecordQuery :: "record_query \<Rightarrow> lane_record \<Rightarrow> bool" where
  "matchesRecordQuery q r =
     ((case rq_lane q of None \<Rightarrow> True | Some l \<Rightarrow> r_lane r = l)
      \<and> (case rq_type q of None \<Rightarrow> True | Some t \<Rightarrow> record_data_type (r_data r) = t)
      \<and> (case rq_runId q of None \<Rightarrow> True
         | Some i \<Rightarrow> (case r_data r of OperationStarted _ _ \<Rightarrow> r_id r = i | d \<Rightarrow> run_of d = Some i))
      \<and> (case rq_operationKind q of None \<Rightarrow> True
         | Some k \<Rightarrow> (case r_data r of OperationStarted _ i \<Rightarrow> kind_of i = k | _ \<Rightarrow> False))
      \<and> (case rq_afterSeq q of None \<Rightarrow> True | Some n \<Rightarrow> int (r_seq r) > num_int n))"

definition findEntries :: "entry_query \<Rightarrow> session_state \<Rightarrow> session_error + entry list" where
  "findEntries q s =
     rbind (assertValidLimit (q_limit q)) (\<lambda>_.
     rbind (assertValidCursor (q_cursor q)) (\<lambda>_.
     Inr (collect (matchesEntryQuery q) (q_limit q) [] (ordered (s_entries s) (q_order q)))))"

text \<open>\<open>walkToRoot\<close> from an entry: the entries yielded, and the error thrown after them.\<close>

definition stops_at :: "branch_bounds \<Rightarrow> entry \<Rightarrow> bool" where
  "stops_at b e = (Some (e_id e) = b_stopAtId b \<or> Some (e_type e) = b_stopAtType b)"

function walkFrom :: "(string, entry) jsmap \<Rightarrow> branch_bounds \<Rightarrow> string set \<Rightarrow> entry
    \<Rightarrow> entry list \<times> session_error option" where
  "walkFrom m b visited current =
     (if e_id current \<in> visited then ([], Some InvalidEntry)
      else if stops_at b current then ([current], None)
      else case e_parentId current of
        None \<Rightarrow> ([current], None)
      | Some p \<Rightarrow>
          (case map_get m p of
             None \<Rightarrow> ([current], Some InvalidEntry)
           | Some nxt \<Rightarrow>
               let rest = walkFrom m b (insert (e_id current) visited) nxt in (current # fst rest, snd rest)))"
  by pat_completeness auto
termination
proof (relation "measure (\<lambda>(m, b, visited, current). card (insert (e_id current) (e_id ` snd ` set m) - visited))")
  fix m :: "(string, entry) jsmap" and b :: branch_bounds and visited p and current nxt :: entry
  assume new: "e_id current \<notin> visited" and nxt: "map_of m p = Some nxt"
  have "nxt \<in> snd ` set m" using map_of_SomeD [OF nxt] by force
  then have "insert (e_id nxt) (e_id ` snd ` set m) - insert (e_id current) visited
      \<subset> insert (e_id current) (e_id ` snd ` set m) - visited" using new by blast
  then have "card (insert (e_id nxt) (e_id ` snd ` set m) - insert (e_id current) visited)
      < card (insert (e_id current) (e_id ` snd ` set m) - visited)"
    by (intro psubset_card_mono) auto
  then show "((m, b, insert (e_id current) visited, nxt), m, b, visited, current)
      \<in> measure (\<lambda>(m, b, visited, current). card (insert (e_id current) (e_id ` snd ` set m) - visited))" by simp
qed simp

declare walkFrom.simps [simp del]

definition walkToRoot :: "session_state \<Rightarrow> string option \<Rightarrow> branch_bounds \<Rightarrow> entry list \<times> session_error option" where
  "walkToRoot s start b =
     (case start of
        None \<Rightarrow> ([], None)
      | Some i \<Rightarrow>
          (case map_get (s_entriesById s) i of
             None \<Rightarrow> ([], Some NotFound)
           | Some e \<Rightarrow> walkFrom (s_entriesById s) b {} e))"

text \<open>The two loops of \<open>findEntriesOnBranch\<close>. The second result says whether the loop was left early.\<close>

fun collectNewest :: "entry_query \<Rightarrow> entry list \<Rightarrow> entry list \<Rightarrow> entry list \<times> bool" where
  "collectNewest q results [] = (results, False)"
| "collectNewest q results (e # es) =
     (let results = (if matchesEntryQuery q e then results @ [e] else results) in
      if reached (q_limit q) results then (results, True) else collectNewest q results es)"

fun collectOldest :: "entry_query \<Rightarrow> branch_bounds \<Rightarrow> entry list \<Rightarrow> entry list \<Rightarrow> entry list" where
  "collectOldest q b results [] = results"
| "collectOldest q b results (e # es) =
     (let results = (if matchesEntryQuery q e then results @ [e] else results) in
      if stops_at b e \<or> reached (q_limit q) results then results else collectOldest q b results es)"

definition noBounds :: branch_bounds where
  "noBounds = \<lparr>b_stopAtType = None, b_stopAtId = None\<rparr>"

definition findEntriesOnBranch :: "entry_query \<Rightarrow> branch_bounds \<Rightarrow> string \<Rightarrow> session_state
    \<Rightarrow> session_error + entry list" where
  "findEntriesOnBranch q b start s =
     rbind (assertValidLimit (q_limit q)) (\<lambda>_.
     rbind (assertValidCursor (q_cursor q)) (\<lambda>_.
       if q_order q = Some OldestFirst then
         (case walkToRoot s (Some start) noBounds of
            (_, Some e) \<Rightarrow> Inl e
          | (path, None) \<Rightarrow> Inr (collectOldest q b [] (rev path)))
       else
         (case walkToRoot s (Some start) b of (path, err) \<Rightarrow>
            (case collectNewest q [] path of (results, early) \<Rightarrow>
               (case err of
                  Some e \<Rightarrow> if early then Inr results else Inl e
                | None \<Rightarrow> Inr results)))))"

definition findRecords :: "record_query \<Rightarrow> session_state \<Rightarrow> session_error + lane_record list" where
  "findRecords q s =
     rbind (assertValidLimit (rq_limit q)) (\<lambda>_.
     rbind (assertValidCursor (rq_afterSeq q)) (\<lambda>_.
     Inr (collect (matchesRecordQuery q) (rq_limit q) [] (ordered (s_records s) (rq_order q)))))"

definition findOpenOperations :: "string \<Rightarrow> jsnum option \<Rightarrow> session_state \<Rightarrow> session_error + lane_record list" where
  "findOpenOperations lane limit s =
     rbind (assertValidLimit limit) (\<lambda>_.
       let open_operations = (case map_get (s_openOperationsByLane s) lane of
             None \<Rightarrow> [] | Some ops \<Rightarrow> rev (map snd ops)) in
       Inr (case limit of None \<Rightarrow> open_operations | Some n \<Rightarrow> take (nat (num_int n)) open_operations))"

definition getLog :: "jsnum option \<Rightarrow> jsnum option \<Rightarrow> session_state \<Rightarrow> session_error + log_item list" where
  "getLog afterSeq limit s =
     rbind (assertValidLimit limit) (\<lambda>_.
     rbind (assertValidCursor afterSeq) (\<lambda>_.
     Inr (collect (\<lambda>item. case afterSeq of None \<Rightarrow> True | Some n \<Rightarrow> \<not> int (log_seq item) \<le> num_int n)
            limit [] (s_log s))))"

definition getName :: "session_state \<Rightarrow> string option" where
  "getName s = s_name s"

definition getLabel :: "string \<Rightarrow> session_state \<Rightarrow> string option" where
  "getLabel i s = map_get (s_labels s) i"

definition getStats :: "session_state \<Rightarrow> session_stats" where
  "getStats s = s_stats s"

section \<open>Forks\<close>

definition oldestFirst :: entry_query where
  "oldestFirst = \<lparr>q_type = None, q_customType = None, q_order = Some OldestFirst, q_limit = None, q_cursor = None\<rparr>"

text \<open>The entry a branch fork ends at.\<close>

definition forkTarget :: "string option \<Rightarrow> fork_position option \<Rightarrow> session_state
    \<Rightarrow> session_error + string option" where
  "forkTarget entryId position s =
     rbind (case entryId of Some i \<Rightarrow> Inr (Some i) | None \<Rightarrow> requireLane ''main'' s) (\<lambda>selected.
       case selected of
         None \<Rightarrow> Inr None
       | Some i \<Rightarrow>
           (case getEntry i s of
              None \<Rightarrow> Inl InvalidForkTarget
            | Some e \<Rightarrow>
                if e_type e \<noteq> MessageType then Inl InvalidForkTarget
                else if (case position of Some p \<Rightarrow> p
                         | None \<Rightarrow> if entryId = None then AtEntry else BeforeEntry) = AtEntry
                  then Inr (Some (e_id e)) else Inr (e_parentId e)))"

definition forkSource :: "fork_options \<Rightarrow> session_state
    \<Rightarrow> session_error + entry list \<times> (string \<times> string option) list" where
  "forkSource options s =
     (case options of
        ForkTree \<Rightarrow> rbind (findEntries oldestFirst s) (\<lambda>es. Inr (es, getLanes s))
      | ForkBranch entryId position \<Rightarrow>
          rbind (forkTarget entryId position s) (\<lambda>target.
          rbind (case target of None \<Rightarrow> Inr [] | Some t \<Rightarrow> findEntriesOnBranch oldestFirst noBounds t s) (\<lambda>es.
          Inr (es, [(''main'', target)]))))"

text \<open>Mutations numbered from a first sequence on.\<close>

fun number_from :: "nat \<Rightarrow> (nat \<Rightarrow> session_mutation) list \<Rightarrow> session_mutation list" where
  "number_from n [] = []"
| "number_from n (f # fs) = f n # number_from (Suc n) fs"

definition createForkMutations :: "fork_options \<Rightarrow> session_state \<Rightarrow> session_error + session_mutation list" where
  "createForkMutations options s =
     rbind (forkSource options s) (\<lambda>(es, lanes). Inr (number_from 1
       (map (\<lambda>e n. MutEntry None (e\<lparr>e_seq := n\<rparr>)) es
        @ map (\<lambda>(lane, leaf) n. MutLane n lane leaf) lanes
        @ (case s_name s of None \<Rightarrow> [] | Some name \<Rightarrow> [\<lambda>n. MutName n (Some name)])
        @ List.map_filter (\<lambda>e. map_option (\<lambda>label n. MutLabel n (e_id e) (Some label)) (map_get (s_labels s) (e_id e))) es)))"

definition applyMutations :: "session_mutation list \<Rightarrow> session_state \<Rightarrow> session_error + session_state" where
  "applyMutations ms s = fold_r applyMutation ms s"

end
