(* ===== verification/SessionInvariant.thy ===== *)
theory SessionInvariant
  imports SessionState
begin

text \<open>
  The invariant of a session state and its preservation by every mutation: consecutive sequence
  numbers, unique identifiers, an index that agrees with the entries, parents that precede their
  children, lanes and labels that point at entries, open operations and totals that are those of the
  records. A state is reachable when mutations lead to it from the initial state.
\<close>

section \<open>The parts of the invariant\<close>

definition entry_ids :: "session_state \<Rightarrow> string set" where
  "entry_ids s = e_id ` set (s_entries s)"

definition ids_ok :: "session_state \<Rightarrow> bool" where
  "ids_ok s = (distinct (map e_id (s_entries s) @ map r_id (s_records s))
     \<and> s_usedIds s = e_id ` set (s_entries s) \<union> r_id ` set (s_records s))"

definition index_ok :: "session_state \<Rightarrow> bool" where
  "index_ok s = (s_entriesById s = map (\<lambda>e. (e_id e, e)) (s_entries s))"

definition parent_in :: "entry \<Rightarrow> entry list \<Rightarrow> bool" where
  "parent_in e es = (case e_parentId e of None \<Rightarrow> True | Some p \<Rightarrow> p \<in> e_id ` set es)"

text \<open>Every entry's parent is an earlier entry.\<close>

fun parents_rev :: "entry list \<Rightarrow> bool" where
  "parents_rev [] = True"
| "parents_rev (e # es) = (parent_in e es \<and> parents_rev es)"

definition parents_ok :: "session_state \<Rightarrow> bool" where
  "parents_ok s = parents_rev (rev (s_entries s))"

definition lanes_ok :: "session_state \<Rightarrow> bool" where
  "lanes_ok s = (map_has (s_lanes s) ''main'' \<and> distinct (map fst (s_lanes s))
     \<and> (\<forall>lane i. map_get (s_lanes s) lane = Some (Some i) \<longrightarrow> i \<in> entry_ids s))"

definition labels_ok :: "session_state \<Rightarrow> bool" where
  "labels_ok s = (\<forall>i. map_has (s_labels s) i \<longrightarrow> i \<in> entry_ids s)"

fun log_entry :: "log_item \<Rightarrow> entry option" where
  "log_entry (LogEntry n e) = Some e"
| "log_entry _ = None"

fun log_record :: "log_item \<Rightarrow> lane_record option" where
  "log_record (LogRecord n r) = Some r"
| "log_record _ = None"

fun log_item_ok :: "log_item \<Rightarrow> bool" where
  "log_item_ok (LogEntry n e) = (e_seq e = n)"
| "log_item_ok (LogRecord n r) = (r_seq r = n)"
| "log_item_ok _ = True"

definition log_ok :: "session_state \<Rightarrow> bool" where
  "log_ok s = (map log_seq (s_log s) = [1..<Suc (s_sequence s)]
     \<and> (\<forall>i \<in> set (s_log s). log_item_ok i)
     \<and> List.map_filter log_entry (s_log s) = s_entries s
     \<and> List.map_filter log_record (s_log s) = s_records s)"

text \<open>The operations of a lane that are open after some records, oldest first.\<close>

definition track :: "string \<Rightarrow> lane_record \<Rightarrow> lane_record list \<Rightarrow> lane_record list" where
  "track lane r ops =
     (if r_lane r \<noteq> lane then ops
      else case r_data r of
        OperationStarted _ _ \<Rightarrow> ops @ [r]
      | OperationFinished i _ _ \<Rightarrow> filter (\<lambda>x. r_id x \<noteq> i) ops
      | _ \<Rightarrow> ops)"

definition open_ops :: "string \<Rightarrow> lane_record list \<Rightarrow> lane_record list" where
  "open_ops lane rs = fold (track lane) rs []"

definition tracked :: "(string, (string, lane_record) jsmap) jsmap \<Rightarrow> string \<Rightarrow> (string, lane_record) jsmap" where
  "tracked m lane = (case map_get m lane of None \<Rightarrow> [] | Some ops \<Rightarrow> ops)"

definition ops_ok :: "session_state \<Rightarrow> bool" where
  "ops_ok s = (\<forall>lane. tracked (s_openOperationsByLane s) lane
     = map (\<lambda>r. (r_id r, r)) (open_ops lane (s_records s)))"

text \<open>The totals computed from the entries and records themselves.\<close>

definition usages :: "lane_record list \<Rightarrow> usage list" where
  "usages rs = List.map_filter (\<lambda>r. case r_data r of UsageRecord u _ \<Rightarrow> Some u | _ \<Rightarrow> None) rs"

definition stats_of :: "entry list \<Rightarrow> lane_record list \<Rightarrow> session_stats" where
  "stats_of es rs = \<lparr>
     st_messageCount = length (filter (\<lambda>e. e_type e = MessageType) es),
     st_cachedTokens = (\<Sum>u \<leftarrow> usages rs. u_cacheRead u),
     st_uncachedTokens = (\<Sum>u \<leftarrow> usages rs. u_input u + u_cacheWrite u),
     st_totalTokens = (\<Sum>u \<leftarrow> usages rs. u_totalTokens u),
     st_costTotal = map (\<lambda>u. cost_total (u_cost u)) (usages rs)\<rparr>"

definition state_ok :: "session_state \<Rightarrow> bool" where
  "state_ok s = (ids_ok s \<and> index_ok s \<and> parents_ok s \<and> lanes_ok s \<and> labels_ok s \<and> log_ok s \<and> ops_ok s
     \<and> s_stats s = stats_of (s_entries s) (s_records s))"

section \<open>The initial state and the cases of a mutation\<close>

lemma map_filter_snoc:
  "List.map_filter f (xs @ [x]) = List.map_filter f xs @ (case f x of None \<Rightarrow> [] | Some y \<Rightarrow> [y])"
  by (simp add: List.map_filter_def split: option.split)

lemma state_ok_init: "state_ok initState"
  by (simp add: state_ok_def initState_def ids_ok_def index_ok_def parents_ok_def lanes_ok_def labels_ok_def
      log_ok_def ops_ok_def tracked_def open_ops_def stats_of_def usages_def entry_ids_def map_has_def
      List.map_filter_def)

lemma applyMutation_entry:
  assumes "applyMutation (MutEntry lane e) s = Inr s'"
  shows "e_seq e = Suc (s_sequence s)" "e_id e \<notin> s_usedIds s"
    "\<And>p. e_parentId e = Some p \<Longrightarrow> map_has (s_entriesById s) p"
    "\<And>l. lane = Some l \<Longrightarrow> map_get (s_lanes s) l = Some (e_parentId e)"
    "s' = putEntry lane e s"
proof -
  from assms have ok: "e_seq e = Suc (s_sequence s)" "applyEntry lane e s = Inr s'"
    by (simp_all add: applyMutation_def split: if_splits)
  then show "e_seq e = Suc (s_sequence s)" by simp
  from ok(2) show "e_id e \<notin> s_usedIds s" by (auto simp: applyEntry_def split: if_splits)
  from ok(2) show "map_has (s_entriesById s) p" if "e_parentId e = Some p" for p
    using that by (auto simp: applyEntry_def split: if_splits)
  from ok(2) show "map_get (s_lanes s) l = Some (e_parentId e)" if "lane = Some l" for l
    using that by (auto simp: applyEntry_def split: if_splits option.splits)
  from ok(2) show "s' = putEntry lane e s" by (auto simp: applyEntry_def split: if_splits)
qed

lemma applyMutation_record:
  assumes "applyMutation (MutRecord r) s = Inr s'"
  shows "r_seq r = Suc (s_sequence s)" "r_id r \<notin> s_usedIds s" "map_has (s_lanes s) (r_lane r)"
    "s' = s\<lparr>s_sequence := r_seq r, s_usedIds := insert (r_id r) (s_usedIds s), s_records := s_records s @ [r],
      s_openOperationsByLane := trackOperation r (s_openOperationsByLane s),
      s_log := s_log s @ [LogRecord (r_seq r) r],
      s_stats := (case r_data r of UsageRecord u _ \<Rightarrow> addUsage u (s_stats s) | _ \<Rightarrow> s_stats s)\<rparr>"
  using assms by (simp_all add: applyMutation_def applyRecord_def split: if_splits)

lemma applyMutation_lane:
  assumes "applyMutation (MutLane n lane leaf) s = Inr s'"
  shows "n = Suc (s_sequence s)" "\<And>i. leaf = Some i \<Longrightarrow> map_has (s_entriesById s) i"
    "s' = s\<lparr>s_sequence := n, s_lanes := map_set lane leaf (s_lanes s), s_log := s_log s @ [LogLane n lane leaf]\<rparr>"
  using assms by (auto simp: applyMutation_def split: if_splits option.splits)

lemma applyMutation_name:
  assumes "applyMutation (MutName n name) s = Inr s'"
  shows "n = Suc (s_sequence s)" "s' = s\<lparr>s_sequence := n, s_name := name, s_log := s_log s @ [LogName n name]\<rparr>"
  using assms by (auto simp: applyMutation_def split: if_splits)

lemma applyMutation_label:
  assumes "applyMutation (MutLabel n target label) s = Inr s'"
  shows "n = Suc (s_sequence s)" "map_has (s_entriesById s) target"
    "s' = s\<lparr>s_sequence := n,
       s_labels := (case label of None \<Rightarrow> map_delete target (s_labels s) | Some l \<Rightarrow> map_set target l (s_labels s)),
       s_log := s_log s @ [LogLabel n target label]\<rparr>"
  using assms by (simp_all add: applyMutation_def split: if_splits)

section \<open>Preservation, part by part\<close>

lemma index_has: "index_ok s \<Longrightarrow> map_has (s_entriesById s) i \<longleftrightarrow> i \<in> entry_ids s"
  by (force simp: index_ok_def map_has_iff entry_ids_def image_image)

lemma ids_fresh:
  assumes "ids_ok s" "i \<notin> s_usedIds s"
  shows "i \<notin> entry_ids s" "i \<notin> r_id ` set (s_records s)"
  using assms by (auto simp: ids_ok_def entry_ids_def)

lemma log_ok_step:
  assumes "log_ok s" "log_seq item = Suc (s_sequence s)" "log_item_ok item"
    "s_sequence s' = Suc (s_sequence s)" "s_log s' = s_log s @ [item]"
    "s_entries s' = s_entries s @ (case log_entry item of None \<Rightarrow> [] | Some e \<Rightarrow> [e])"
    "s_records s' = s_records s @ (case log_record item of None \<Rightarrow> [] | Some r \<Rightarrow> [r])"
  shows "log_ok s'"
  using assms by (auto simp: log_ok_def map_filter_snoc)

lemma track_subset: "set (track lane r ops) \<subseteq> insert r (set ops)"
  by (auto simp: track_def split: record_data.splits)

lemma open_ops_snoc: "open_ops lane (rs @ [r]) = track lane r (open_ops lane rs)"
  by (simp add: open_ops_def)

lemma open_ops_subset: "set (open_ops lane rs) \<subseteq> set rs"
proof (induction rs rule: rev_induct)
  case (snoc r rs) then show ?case using track_subset [of lane r "open_ops lane rs"] by (auto simp: open_ops_snoc)
qed (simp add: open_ops_def)

lemma tracked_set: "tracked (AList.update k ops m) lane = (if lane = k then ops else tracked m lane)"
  by (simp add: tracked_def)

lemma tracked_track:
  assumes "ids_ok s" "ops_ok s" "r_id r \<notin> s_usedIds s"
  shows "tracked (trackOperation r (s_openOperationsByLane s)) lane
    = map (\<lambda>x. (r_id x, x)) (track lane r (open_ops lane (s_records s)))"
proof -
  let ?m = "s_openOperationsByLane s" and ?ops = "open_ops lane (s_records s)"
  have m: "tracked ?m lane = map (\<lambda>x. (r_id x, x)) ?ops" using assms(2) by (simp add: ops_ok_def)
  have fresh: "\<not> map_has (map (\<lambda>x. (r_id x, x)) ?ops) (r_id r)"
    using ids_fresh(2) [OF assms(1,3)] open_ops_subset [of lane "s_records s"]
    by (force simp: map_has_iff image_image)
  show ?thesis
  proof (cases "r_data r")
    case (OperationStarted l i)
    have "trackOperation r ?m = map_set (r_lane r) (map_set (r_id r) r (tracked ?m (r_lane r))) ?m"
      by (simp add: trackOperation_def tracked_def OperationStarted)
    then show ?thesis using m fresh by (auto simp: tracked_set track_def OperationStarted map_set_fresh)
  next
    case (OperationFinished i oc err)
    have del: "AList.delete i (map (\<lambda>x. (r_id x, x)) ops) = map (\<lambda>x. (r_id x, x)) (filter (\<lambda>x. r_id x \<noteq> i) ops)" for ops
      by (induction ops) (auto simp: AList.delete_eq)
    have "tracked (trackOperation r ?m) lane = (if lane = r_lane r then AList.delete i (tracked ?m lane) else tracked ?m lane)"
      by (auto simp: trackOperation_def tracked_def OperationFinished AList.delete_eq split: option.split)
    then show ?thesis using m by (auto simp: track_def OperationFinished del)
  qed (use m in \<open>simp_all add: trackOperation_def track_def\<close>)
qed

lemma usages_snoc: "usages (rs @ [r]) = usages rs @ (case r_data r of UsageRecord u _ \<Rightarrow> [u] | _ \<Rightarrow> [])"
  by (simp add: usages_def map_filter_snoc split: record_data.split)

lemma stats_of_record:
  "stats_of es (rs @ [r]) = (case r_data r of UsageRecord u _ \<Rightarrow> addUsage u (stats_of es rs) | _ \<Rightarrow> stats_of es rs)"
  by (simp add: stats_of_def usages_snoc addUsage_def split: record_data.split)

lemma stats_of_entry:
  "stats_of (es @ [e]) rs = (if e_type e = MessageType
     then (stats_of es rs)\<lparr>st_messageCount := st_messageCount (stats_of es rs) + 1\<rparr> else stats_of es rs)"
  by (simp add: stats_of_def)

lemma distinct_update: "distinct (map fst m) \<Longrightarrow> distinct (map fst (AList.update k v m))"
  by (rule distinct_update)

lemma state_ok_entry:
  assumes "state_ok s" "applyMutation (MutEntry lane e) s = Inr s'"
  shows "state_ok s'"
proof -
  note m = applyMutation_entry [OF assms(2)]
  from assms(1) have ok: "ids_ok s" "index_ok s" "parents_ok s" "lanes_ok s" "labels_ok s" "log_ok s" "ops_ok s"
    "s_stats s = stats_of (s_entries s) (s_records s)" by (simp_all add: state_ok_def)
  note fresh = ids_fresh [OF ok(1) m(2)]
  have new: "\<not> map_has (s_entriesById s) (e_id e)" using fresh(1) index_has [OF ok(2)] by simp
  have "ids_ok s'" using ok(1) fresh by (auto simp: m(5) putEntry_def ids_ok_def entry_ids_def)
  moreover have "index_ok s'" using ok(2) new by (simp add: m(5) putEntry_def index_ok_def map_set_fresh)
  moreover have "parents_ok s'"
    using ok(3) m(3) index_has [OF ok(2)]
    by (auto simp: m(5) putEntry_def parents_ok_def parent_in_def entry_ids_def split: option.split)
  moreover have "lanes_ok s'"
    using ok(4) by (auto simp: m(5) putEntry_def lanes_ok_def entry_ids_def distinct_update split: option.split if_splits
        simp del: map_of_eq_Some_iff)
  moreover have "labels_ok s'" using ok(5) by (simp add: m(5) putEntry_def labels_ok_def entry_ids_def)
  moreover have "log_ok s'"
    by (rule log_ok_step [OF ok(6), of "LogEntry (e_seq e) e"]) (simp_all add: m(1,5) putEntry_def)
  moreover have "ops_ok s'" using ok(7) by (simp add: m(5) putEntry_def ops_ok_def)
  moreover have "s_stats s' = stats_of (s_entries s') (s_records s')"
    by (simp add: m(5) putEntry_def stats_of_entry ok(8))
  ultimately show ?thesis by (simp add: state_ok_def)
qed

lemma state_ok_record:
  assumes "state_ok s" "applyMutation (MutRecord r) s = Inr s'"
  shows "state_ok s'"
proof -
  note m = applyMutation_record [OF assms(2)]
  from assms(1) have ok: "ids_ok s" "index_ok s" "parents_ok s" "lanes_ok s" "labels_ok s" "log_ok s" "ops_ok s"
    "s_stats s = stats_of (s_entries s) (s_records s)" by (simp_all add: state_ok_def)
  have "ids_ok s'" using ok(1) ids_fresh [OF ok(1) m(2)] by (auto simp: m(4) ids_ok_def entry_ids_def)
  moreover have "index_ok s'" "parents_ok s'" "lanes_ok s'" "labels_ok s'"
    using ok(2-5) by (simp_all add: m(4) index_ok_def parents_ok_def lanes_ok_def labels_ok_def entry_ids_def)
  moreover have "log_ok s'"
    by (rule log_ok_step [OF ok(6), of "LogRecord (r_seq r) r"]) (simp_all add: m(1,4))
  moreover have "ops_ok s'"
    using tracked_track [OF ok(1,7) m(2)] by (simp add: m(4) ops_ok_def open_ops_snoc)
  moreover have "s_stats s' = stats_of (s_entries s') (s_records s')"
    by (simp add: m(4) stats_of_record ok(8) split: record_data.split)
  ultimately show ?thesis by (simp add: state_ok_def)
qed

lemma state_ok_other:
  assumes "state_ok s" "applyMutation m s = Inr s'" "\<forall>lane e. m \<noteq> MutEntry lane e" "\<forall>r. m \<noteq> MutRecord r"
  shows "state_ok s'"
proof -
  from assms(1) have ok: "ids_ok s" "index_ok s" "parents_ok s" "lanes_ok s" "labels_ok s" "log_ok s" "ops_ok s"
    "s_stats s = stats_of (s_entries s) (s_records s)" by (simp_all add: state_ok_def)
  have rest: "state_ok s'" if "log_ok s'" "lanes_ok s'" "labels_ok s'" "s_usedIds s' = s_usedIds s"
    "s_entries s' = s_entries s" "s_records s' = s_records s" "s_entriesById s' = s_entriesById s"
    "s_openOperationsByLane s' = s_openOperationsByLane s" "s_stats s' = s_stats s"
    using that ok by (simp add: state_ok_def ids_ok_def index_ok_def parents_ok_def ops_ok_def)
  show ?thesis
  proof (cases m)
    case (MutLane n lane leaf)
    note l = applyMutation_lane [OF assms(2) [unfolded MutLane]]
    have "log_ok s'" by (rule log_ok_step [OF ok(6), of "LogLane n lane leaf"]) (simp_all add: l(1,3))
    moreover have "lanes_ok s'"
      using ok(4) l(2) index_has [OF ok(2)] by (auto simp: l(3) lanes_ok_def entry_ids_def distinct_update
        simp del: map_of_eq_Some_iff)
    moreover have "labels_ok s'" using ok(5) by (simp add: l(3) labels_ok_def entry_ids_def)
    ultimately show ?thesis by (rule rest) (simp_all add: l(3))
  next
    case (MutName n name)
    note l = applyMutation_name [OF assms(2) [unfolded MutName]]
    have "log_ok s'" by (rule log_ok_step [OF ok(6), of "LogName n name"]) (simp_all add: l)
    moreover have "lanes_ok s'" "labels_ok s'" using ok(4,5) by (simp_all add: l(2) lanes_ok_def labels_ok_def entry_ids_def)
    ultimately show ?thesis by (rule rest) (simp_all add: l(2))
  next
    case (MutLabel n target label)
    note l = applyMutation_label [OF assms(2) [unfolded MutLabel]]
    have "log_ok s'" by (rule log_ok_step [OF ok(6), of "LogLabel n target label"]) (simp_all add: l(1,3))
    moreover have "lanes_ok s'" using ok(4) by (simp add: l(3) lanes_ok_def entry_ids_def)
    moreover have "labels_ok s'"
      using ok(5) l(2) index_has [OF ok(2)] by (auto simp: l(3) labels_ok_def entry_ids_def split: option.split)
    ultimately show ?thesis by (rule rest) (simp_all add: l(3))
  qed (use assms(3,4) in auto)
qed

lemma state_ok_step: "state_ok s \<Longrightarrow> applyMutation m s = Inr s' \<Longrightarrow> state_ok s'"
  using state_ok_entry state_ok_record state_ok_other by (cases m) blast+

inductive reachable :: "session_state \<Rightarrow> bool" where
  reachable_init: "reachable initState"
| reachable_step: "reachable s \<Longrightarrow> applyMutation m s = Inr s' \<Longrightarrow> reachable s'"

lemma reachable_ok: "reachable s \<Longrightarrow> state_ok s"
  by (induction rule: reachable.induct) (auto intro: state_ok_init state_ok_step)

lemma applyMutations_ok: "applyMutations ms s = Inr s' \<Longrightarrow> state_ok s \<Longrightarrow> state_ok s'"
  unfolding applyMutations_def by (rule fold_r_invariant) (auto intro: state_ok_step)

end
