(* ===== verification/SessionQueries.thy ===== *)
theory SessionQueries
  imports SessionInvariant
begin

text \<open>
  What the queries of a session state return on a state that satisfies the invariant: filtered and
  limited lists for the scans, the ancestors of an entry for a branch. The walk to the root never
  meets a cycle or a missing parent.
\<close>

section \<open>Scans\<close>

definition limited :: "jsnum option \<Rightarrow> 'a list \<Rightarrow> 'a list" where
  "limited limit xs = (case limit of None \<Rightarrow> xs | Some n \<Rightarrow> take (nat (num_int n)) xs)"

lemma valid_limit: "assertValidLimit (Some n) = Inr () \<longleftrightarrow> num_is_integer n \<and> 0 < num_int n"
  by (auto simp: assertValidLimit_def)

lemma reached_iff: "num_int n > 0 \<Longrightarrow> reached (Some n) xs \<longleftrightarrow> length xs = nat (num_int n)"
  by (auto simp: reached_def)

lemma collect_none: "collect P None acc xs = acc @ filter P xs"
  by (induction xs arbitrary: acc) (simp_all add: reached_def)

lemma collect_some:
  assumes "num_int n > 0"
  shows "length acc < nat (num_int n) \<Longrightarrow>
    collect P (Some n) acc xs = acc @ take (nat (num_int n) - length acc) (filter P xs)"
proof (induction xs arbitrary: acc)
  case (Cons x xs)
  show ?case
  proof (cases "P x \<and> \<not> length (acc @ [x]) = nat (num_int n)")
    case True
    with Cons.prems have "length (acc @ [x]) < nat (num_int n)" by simp
    from Cons.IH [OF this] True Cons.prems have
      "collect P (Some n) (acc @ [x]) xs = acc @ take (nat (num_int n) - length acc) (x # filter P xs)"
      by (simp add: Suc_diff_Suc [symmetric])
    with True show ?thesis by (simp add: reached_iff [OF assms])
  next
    case False
    show ?thesis
    proof (cases "P x")
      case True
      with False have "nat (num_int n) - length acc = 1" by simp
      with True False show ?thesis by (simp add: reached_iff [OF assms])
    next
      case False with Cons show ?thesis by simp
    qed
  qed
qed simp

lemma collect_limited: "assertValidLimit limit = Inr () \<Longrightarrow> collect P limit [] xs = limited limit (filter P xs)"
  using collect_some [of _ "[]"] by (cases limit) (auto simp: limited_def collect_none valid_limit)

section \<open>Walking to the root\<close>

fun take_until :: "('a \<Rightarrow> bool) \<Rightarrow> 'a list \<Rightarrow> 'a list" where
  "take_until P [] = []"
| "take_until P (x # xs) = (if P x then [x] else x # take_until P xs)"

lemma take_until_False [simp]: "take_until (\<lambda>_. False) xs = xs"
  by (induction xs) simp_all

text \<open>The chain of ancestors from an entry on.\<close>

fun ancestry :: "(string \<Rightarrow> entry option) \<Rightarrow> entry list \<Rightarrow> bool" where
  "ancestry look [] = False"
| "ancestry look [e] = (e_parentId e = None)"
| "ancestry look (e # f # es) = (\<exists>p. e_parentId e = Some p \<and> look p = Some f \<and> ancestry look (f # es))"

lemma ancestry_unique: "ancestry look xs \<Longrightarrow> ancestry look ys \<Longrightarrow> hd xs = hd ys \<Longrightarrow> xs = ys"
proof (induction look xs arbitrary: ys rule: ancestry.induct)
  case (2 look e) then show ?case by (cases ys rule: remdups_adj.cases) auto
next
  case (3 look e f es)
  then obtain ys' where ys: "ys = e # f # ys'" by (cases ys rule: remdups_adj.cases) auto
  have "f # es = f # ys'" using "3.prems" by (intro "3.IH") (auto simp: ys)
  with ys show ?case by simp
qed simp

lemma ids_distinct: "ids_ok s \<Longrightarrow> distinct (map e_id (s_entries s))"
  by (simp add: ids_ok_def)

lemma index_get:
  assumes "ids_ok s" "index_ok s"
  shows "map_get (s_entriesById s) i = Some e \<longleftrightarrow> e \<in> set (s_entries s) \<and> e_id e = i"
proof -
  have "distinct (map fst (s_entriesById s))" using ids_distinct [OF assms(1)] assms(2) by (simp add: index_ok_def comp_def)
  then have "map_get (s_entriesById s) i = Some e \<longleftrightarrow> (i, e) \<in> set (s_entriesById s)" by simp
  also have "\<dots> \<longleftrightarrow> e \<in> set (s_entries s) \<and> e_id e = i" using assms(2) by (auto simp: index_ok_def)
  finally show ?thesis .
qed

lemma parents_rev_nth:
  "parents_rev (rev es) \<Longrightarrow> i < length es \<Longrightarrow> parent_in (es ! i) (take i es)"
proof (induction es rule: rev_induct)
  case (snoc e es)
  then show ?case by (cases "i < length es") (simp_all add: nth_append parent_in_def less_Suc_eq split: option.splits)
qed simp

text \<open>By induction on the position of the entry: the ancestors come earlier.\<close>

lemma walk_from_index:
  assumes ok: "state_ok s"
  shows "i < length (s_entries s) \<Longrightarrow>
    \<exists>path. ancestry (map_get (s_entriesById s)) path \<and> hd path = s_entries s ! i
      \<and> set path \<subseteq> set (take (Suc i) (s_entries s)) \<and> distinct path
      \<and> (\<forall>b visited. visited \<inter> e_id ` set (take (Suc i) (s_entries s)) = {} \<longrightarrow>
           walkFrom (s_entriesById s) b visited (s_entries s ! i) = (take_until (stops_at b) path, None))"
proof (induction i rule: less_induct)
  case (less i)
  let ?es = "s_entries s" and ?m = "s_entriesById s"
  let ?e = "?es ! i"
  from ok have ids: "ids_ok s" and idx: "index_ok s" and par: "parents_ok s" by (simp_all add: state_ok_def)
  have e_in: "?e \<in> set (take (Suc i) ?es)" using less.prems by (simp add: take_Suc_conv_app_nth)
  have e_new: "e_id ?e \<notin> e_id ` set (take i ?es)"
  proof -
    have "map e_id ?es ! i \<notin> set (take i (map e_id ?es))"
      using ids_distinct [OF ids] less.prems by (auto simp: distinct_conv_nth in_set_conv_nth)
    then show ?thesis using less.prems by (simp add: take_map)
  qed
  show ?case
  proof (cases "e_parentId ?e")
    case None
    have "walkFrom ?m b visited ?e = (take_until (stops_at b) [?e], None)"
      if "visited \<inter> e_id ` set (take (Suc i) ?es) = {}" for b visited
      using that e_in None by (subst walkFrom.simps) auto
    with None e_in show ?thesis by (intro exI [of _ "[?e]"]) simp
  next
    case (Some p)
    from parents_rev_nth [OF par [unfolded parents_ok_def] less.prems] Some
    have "p \<in> e_id ` set (take i ?es)" by (simp add: parent_in_def)
    then obtain f where "f \<in> set (take i ?es)" "e_id f = p" by blast
    then obtain j where j: "j < i" "e_id (?es ! j) = p" using less.prems by (auto simp: in_set_conv_nth)
    have get: "map_get ?m p = Some (?es ! j)" using index_get [OF ids idx] j less.prems by simp
    from less.IH [OF j(1)] j(1) less.prems obtain path where path: "ancestry (map_get ?m) path"
      "hd path = ?es ! j" "set path \<subseteq> set (take (Suc j) ?es)" "distinct path"
      "\<And>b visited. visited \<inter> e_id ` set (take (Suc j) ?es) = {} \<Longrightarrow>
         walkFrom ?m b visited (?es ! j) = (take_until (stops_at b) path, None)" by fastforce
    have sub: "set (take (Suc j) ?es) \<subseteq> set (take i ?es)" using j(1) by (intro set_take_subset_set_take) simp
    have "ancestry (map_get ?m) (?e # path)" using path(1,2) Some get by (cases path) auto
    moreover have "set (?e # path) \<subseteq> set (take (Suc i) ?es)"
      using path(3) sub e_in set_take_subset_set_take [of i "Suc i" ?es] by auto
    moreover have "distinct (?e # path)" using path(3,4) sub e_new by auto
    moreover have "walkFrom ?m b visited ?e = (take_until (stops_at b) (?e # path), None)"
      if v: "visited \<inter> e_id ` set (take (Suc i) ?es) = {}" for b visited
    proof -
      have "e_id ` set (take (Suc j) ?es) \<subseteq> e_id ` set (take i ?es)" using sub by blast
      moreover have "e_id ` set (take i ?es) \<subseteq> e_id ` set (take (Suc i) ?es)"
        by (intro image_mono set_take_subset_set_take) simp
      ultimately have "insert (e_id ?e) visited \<inter> e_id ` set (take (Suc j) ?es) = {}" using v e_new by blast
      from path(5) [OF this] v e_in show ?thesis by (subst walkFrom.simps) (auto simp: Some get)
    qed
    ultimately show ?thesis by (intro exI [of _ "?e # path"]) simp
  qed
qed

lemma walk_ok:
  assumes ok: "state_ok s" and get: "getEntry i s = Some e"
  shows "\<exists>path. ancestry (map_get (s_entriesById s)) path \<and> hd path = e \<and> set path \<subseteq> set (s_entries s)
    \<and> distinct path \<and> (\<forall>b. walkToRoot s (Some i) b = (take_until (stops_at b) path, None))"
proof -
  from ok have "ids_ok s" "index_ok s" by (simp_all add: state_ok_def)
  from index_get [OF this] get have "e \<in> set (s_entries s)" by (simp add: getEntry_def)
  then obtain k where k: "k < length (s_entries s)" "s_entries s ! k = e" by (auto simp: in_set_conv_nth)
  from walk_from_index [OF ok k(1)] obtain path where path: "ancestry (map_get (s_entriesById s)) path"
    "hd path = s_entries s ! k" "set path \<subseteq> set (take (Suc k) (s_entries s))" "distinct path"
    and walk: "\<forall>b visited. visited \<inter> e_id ` set (take (Suc k) (s_entries s)) = {} \<longrightarrow>
      walkFrom (s_entriesById s) b visited (s_entries s ! k) = (take_until (stops_at b) path, None)" by blast
  have "walkToRoot s (Some i) b = (take_until (stops_at b) path, None)" for b
    using walk [rule_format, of "{}" b] get k(2) by (simp add: walkToRoot_def getEntry_def)
  moreover have "set path \<subseteq> set (s_entries s)" using path(3) set_take_subset by (rule subset_trans)
  ultimately show ?thesis using path(1,2,4) k(2) by (intro exI [of _ path]) simp
qed

section \<open>Branch queries\<close>

lemma collectNewest_spec:
  assumes "assertValidLimit (q_limit q) = Inr ()" "\<not> reached (q_limit q) acc"
    "\<And>n. q_limit q = Some n \<Longrightarrow> length acc < nat (num_int n)"
  shows "fst (collectNewest q acc es) = collect (matchesEntryQuery q) (q_limit q) acc es"
  using assms(2,3)
proof (induction es arbitrary: acc)
  case (Cons e es)
  show ?case
  proof (cases "matchesEntryQuery q e \<and> \<not> reached (q_limit q) (acc @ [e])")
    case True
    have "length (acc @ [e]) < nat (num_int n)" if n: "q_limit q = Some n" for n
      using Cons.prems(2) [OF n] True assms(1) by (auto simp: n valid_limit reached_iff)
    from Cons.IH [OF _ this] True show ?thesis by (simp add: Let_def)
  next
    case False with Cons show ?thesis by (auto simp: Let_def)
  qed
qed simp

lemma collectNewest_limited:
  assumes "assertValidLimit (q_limit q) = Inr ()"
  shows "fst (collectNewest q [] es) = limited (q_limit q) (filter (matchesEntryQuery q) es)"
proof -
  have "\<not> reached (q_limit q) []" "\<And>n. q_limit q = Some n \<Longrightarrow> length [] < nat (num_int n)"
    using assms by (auto simp: reached_def assertValidLimit_def split: option.splits if_splits)
  from collectNewest_spec [OF assms this] show ?thesis by (simp add: collect_limited [OF assms])
qed

lemma collectOldest_newest:
  assumes "\<not> reached (q_limit q) acc"
  shows "collectOldest q b acc es = fst (collectNewest q acc (take_until (stops_at b) es))"
  using assms by (induction es arbitrary: acc) (auto simp: Let_def)

lemma branch_query:
  assumes ok: "state_ok s" and get: "getEntry start s = Some e"
    and lim: "assertValidLimit (q_limit q) = Inr ()" and cur: "assertValidCursor (q_cursor q) = Inr ()"
  shows "\<exists>path. ancestry (map_get (s_entriesById s)) path \<and> hd path = e \<and> set path \<subseteq> set (s_entries s) \<and> distinct path
    \<and> findEntriesOnBranch q b start s = Inr (limited (q_limit q) (filter (matchesEntryQuery q)
        (take_until (stops_at b) (if q_order q = Some OldestFirst then rev path else path))))"
proof -
  from walk_ok [OF ok get] obtain path where path: "ancestry (map_get (s_entriesById s)) path" "hd path = e"
    "set path \<subseteq> set (s_entries s)" "distinct path"
    "\<And>b. walkToRoot s (Some start) b = (take_until (stops_at b) path, None)" by auto
  have none: "stops_at noBounds = (\<lambda>_. False)" by (auto simp: stops_at_def noBounds_def)
  have nr: "\<not> reached (q_limit q) []" using lim by (auto simp: reached_def assertValidLimit_def split: option.splits if_splits)
  have "findEntriesOnBranch q b start s = Inr (limited (q_limit q) (filter (matchesEntryQuery q)
        (take_until (stops_at b) (if q_order q = Some OldestFirst then rev path else path))))"
    by (simp add: findEntriesOnBranch_def lim cur path(5) none collectOldest_newest [OF nr]
        collectNewest_limited [OF lim, symmetric] split_beta)
  with path show ?thesis by blast
qed

section \<open>Open operations\<close>

lemma open_operations:
  assumes "state_ok s" "assertValidLimit limit = Inr ()"
  shows "findOpenOperations lane limit s = Inr (limited limit (rev (open_ops lane (s_records s))))"
proof -
  have "tracked (s_openOperationsByLane s) lane = map (\<lambda>r. (r_id r, r)) (open_ops lane (s_records s))"
    using assms(1) by (simp add: state_ok_def ops_ok_def)
  then have "(case map_get (s_openOperationsByLane s) lane of None \<Rightarrow> [] | Some ops \<Rightarrow> rev (map snd ops))
      = rev (open_ops lane (s_records s))"
    by (auto simp: tracked_def comp_def split: option.splits)
  with assms(2) show ?thesis by (simp add: findOpenOperations_def limited_def Let_def)
qed

text \<open>Which operations those are: started on the lane, and not finished on it by a later record.\<close>

definition finishes :: "string \<Rightarrow> string \<Rightarrow> lane_record \<Rightarrow> bool" where
  "finishes lane i r = (r_lane r = lane \<and> (\<exists>oc err. r_data r = OperationFinished i oc err))"

definition starts_on :: "string \<Rightarrow> lane_record \<Rightarrow> bool" where
  "starts_on lane r = (r_lane r = lane \<and> (\<exists>l i. r_data r = OperationStarted l i))"

lemma track_cases:
  "track lane r ops = (if starts_on lane r then ops @ [r]
     else filter (\<lambda>x. \<not> finishes lane (r_id x) r) ops)"
  by (auto simp: track_def starts_on_def finishes_def split: record_data.split intro!: filter_cong)

lemma open_ops_iff:
  "distinct rs \<Longrightarrow> x \<in> set (open_ops lane rs) \<longleftrightarrow>
     (\<exists>before after. rs = before @ x # after \<and> starts_on lane x \<and> (\<forall>r \<in> set after. \<not> finishes lane (r_id x) r))"
proof (induction rs rule: rev_induct)
  case Nil then show ?case by (simp add: open_ops_def)
next
  case (snoc r rs)
  have nf: "\<not> finishes lane i r" if "starts_on lane r" for i using that by (auto simp: starts_on_def finishes_def)
  have "x \<in> set (open_ops lane (rs @ [r])) \<longleftrightarrow> x = r \<and> starts_on lane r
      \<or> x \<in> set (open_ops lane rs) \<and> \<not> finishes lane (r_id x) r"
    using nf by (auto simp: open_ops_snoc track_cases)
  also have "\<dots> \<longleftrightarrow> (\<exists>before after. rs @ [r] = before @ x # after \<and> starts_on lane x
      \<and> (\<forall>r \<in> set after. \<not> finishes lane (r_id x) r))" (is "?L \<longleftrightarrow> ?R")
  proof
    assume ?L
    then show ?R
    proof (elim disjE conjE)
      assume "x = r" "starts_on lane r" then show ?R by (intro exI [of _ rs] exI [of _ "[]"]) simp
    next
      assume "x \<in> set (open_ops lane rs)" "\<not> finishes lane (r_id x) r"
      with snoc obtain before after where "rs = before @ x # after" "starts_on lane x"
        "\<forall>r \<in> set after. \<not> finishes lane (r_id x) r" by auto
      with \<open>\<not> finishes lane (r_id x) r\<close> show ?R by (intro exI [of _ before] exI [of _ "after @ [r]"]) simp
    qed
  next
    assume ?R
    then obtain before after where r: "rs @ [r] = before @ x # after" "starts_on lane x"
      "\<forall>r \<in> set after. \<not> finishes lane (r_id x) r" by blast
    then show ?L
    proof (cases after rule: rev_cases)
      case Nil with r show ?thesis by simp
    next
      case (snoc after' r')
      with r(1) have "r' = r" "rs = before @ x # after'" by simp_all
      moreover have "distinct rs" using snoc.prems by simp
      ultimately show ?thesis using snoc.IH r(2,3) snoc by auto
    qed
  qed
  finally show ?case .
qed

end
