(* ===== verification/SessionFork.thy ===== *)
theory SessionFork
  imports SessionQueries
begin

text \<open>
  Forking a session: the mutations \<open>createForkMutations\<close> returns can always be applied to a new
  session, and give it the copied entries, lanes, name and labels.
\<close>

section \<open>Applying numbered mutations\<close>

lemma number_from_append: "number_from n (fs @ gs) = number_from n fs @ number_from (n + length fs) gs"
  by (induction fs arbitrary: n) simp_all

fun number_entries :: "nat \<Rightarrow> entry list \<Rightarrow> entry list" where
  "number_entries n [] = []"
| "number_entries n (e # es) = e\<lparr>e_seq := n\<rparr> # number_entries (Suc n) es"

lemma number_entries_append:
  "number_entries n (es @ fs) = number_entries n es @ number_entries (n + length es) fs"
  by (induction es arbitrary: n) simp_all

lemma number_entries_ids [simp]: "e_id ` set (number_entries n es) = e_id ` set es"
  by (induction es arbitrary: n) simp_all

abbreviation copy_entry :: "entry \<Rightarrow> nat \<Rightarrow> session_mutation" where
  "copy_entry e n \<equiv> MutEntry None (e\<lparr>e_seq := n\<rparr>)"

lemma fork_entries:
  "distinct (map e_id es) \<Longrightarrow> parents_rev (rev es) \<Longrightarrow>
     \<exists>t. applyMutations (number_from 1 (map copy_entry es)) initState = Inr t \<and> s_sequence t = length es
       \<and> s_entries t = number_entries 1 es \<and> s_lanes t = [(''main'', None)] \<and> s_labels t = [] \<and> s_name t = None
       \<and> s_records t = []"
proof (induction es rule: rev_induct)
  case Nil then show ?case by (simp add: applyMutations_def initState_def)
next
  case (snoc e es)
  then obtain t where t: "applyMutations (number_from 1 (map copy_entry es)) initState = Inr t"
    "s_sequence t = length es" "s_entries t = number_entries 1 es" "s_lanes t = [(''main'', None)]"
    "s_labels t = []" "s_name t = None" "s_records t = []" by auto
  from applyMutations_ok [OF t(1) state_ok_init] have ok: "ids_ok t" "index_ok t" by (simp_all add: state_ok_def)
  let ?e = "e\<lparr>e_seq := Suc (length es)\<rparr>"
  have "e_id e \<notin> s_usedIds t" using ok(1) t(3,7) snoc.prems(1) by (simp add: ids_ok_def)
  moreover have "map_has (s_entriesById t) p" if "e_parentId e = Some p" for p
    using snoc.prems(2) that index_has [OF ok(2)] t(3) by (simp add: parent_in_def entry_ids_def)
  ultimately have "applyMutation (MutEntry None ?e) t = Inr (putEntry None ?e t)"
    by (auto simp: applyMutation_def applyEntry_def t(2) split: option.split)
  with t(1) have "applyMutations (number_from 1 (map copy_entry (es @ [e]))) initState = Inr (putEntry None ?e t)"
    by (simp add: applyMutations_def number_from_append fold_r_append)
  then show ?case by (simp add: putEntry_def t(2-7) number_entries_append)
qed

lemma fork_lanes:
  assumes "\<And>l i. (l, Some i) \<in> set lanes \<Longrightarrow> map_has (s_entriesById t) i"
  shows "\<exists>t'. applyMutations (number_from (Suc (s_sequence t)) (map (\<lambda>(lane, leaf) n. MutLane n lane leaf) lanes)) t = Inr t'
    \<and> s_sequence t' = s_sequence t + length lanes \<and> s_entries t' = s_entries t \<and> s_entriesById t' = s_entriesById t
    \<and> s_labels t' = s_labels t \<and> s_name t' = s_name t \<and> s_records t' = s_records t
    \<and> s_lanes t' = fold (\<lambda>(l, leaf). map_set l leaf) lanes (s_lanes t)"
  using assms
proof (induction lanes arbitrary: t)
  case Nil then show ?case by (simp add: applyMutations_def)
next
  case (Cons p lanes)
  obtain l leaf where p: "p = (l, leaf)" by (cases p)
  let ?t = "t\<lparr>s_sequence := Suc (s_sequence t), s_lanes := map_set l leaf (s_lanes t),
    s_log := s_log t @ [LogLane (Suc (s_sequence t)) l leaf]\<rparr>"
  have "applyMutation (MutLane (Suc (s_sequence t)) l leaf) t = Inr ?t"
    using Cons.prems p by (auto simp: applyMutation_def split: option.split)
  moreover have "\<exists>t'. applyMutations (number_from (Suc (s_sequence ?t)) (map (\<lambda>(lane, leaf) n. MutLane n lane leaf) lanes)) ?t = Inr t'
    \<and> s_sequence t' = s_sequence ?t + length lanes \<and> s_entries t' = s_entries ?t \<and> s_entriesById t' = s_entriesById ?t
    \<and> s_labels t' = s_labels ?t \<and> s_name t' = s_name ?t \<and> s_records t' = s_records ?t
    \<and> s_lanes t' = fold (\<lambda>(l, leaf). map_set l leaf) lanes (s_lanes ?t)"
    by (rule Cons.IH) (use Cons.prems in auto)
  ultimately show ?case by (auto simp: applyMutations_def p)
qed

lemma fork_labels:
  assumes "\<And>i x. (i, x) \<in> set ls \<Longrightarrow> map_has (s_entriesById t) i"
  shows "\<exists>t'. applyMutations (number_from (Suc (s_sequence t)) (map (\<lambda>(i, label) n. MutLabel n i (Some label)) ls)) t = Inr t'
    \<and> s_entries t' = s_entries t \<and> s_lanes t' = s_lanes t \<and> s_name t' = s_name t \<and> s_records t' = s_records t
    \<and> s_labels t' = fold (\<lambda>(i, label). map_set i label) ls (s_labels t)"
  using assms
proof (induction ls arbitrary: t)
  case Nil then show ?case by (simp add: applyMutations_def)
next
  case (Cons p ls)
  obtain i x where p: "p = (i, x)" by (cases p)
  let ?t = "t\<lparr>s_sequence := Suc (s_sequence t), s_labels := map_set i x (s_labels t),
    s_log := s_log t @ [LogLabel (Suc (s_sequence t)) i (Some x)]\<rparr>"
  have "applyMutation (MutLabel (Suc (s_sequence t)) i (Some x)) t = Inr ?t"
    using Cons.prems p by (auto simp: applyMutation_def)
  moreover have "\<exists>t'. applyMutations (number_from (Suc (s_sequence ?t)) (map (\<lambda>(i, label) n. MutLabel n i (Some label)) ls)) ?t = Inr t'
    \<and> s_entries t' = s_entries ?t \<and> s_lanes t' = s_lanes ?t \<and> s_name t' = s_name ?t \<and> s_records t' = s_records ?t
    \<and> s_labels t' = fold (\<lambda>(i, label). map_set i label) ls (s_labels ?t)"
    by (rule Cons.IH) (use Cons.prems in auto)
  ultimately show ?case by (auto simp: applyMutations_def p)
qed

lemma map_of_fold_set:
  "distinct (map fst ps) \<Longrightarrow>
     map_of (fold (\<lambda>(k, v). AList.update k v) ps m) k = (case map_of ps k of None \<Rightarrow> map_of m k | Some v \<Rightarrow> Some v)"
proof (induction ps arbitrary: m)
  case (Cons p ps)
  then have "map_of ps (fst p) = None" by (simp add: map_of_eq_None_iff)
  with Cons show ?case by (auto simp: split_beta split: option.split)
qed simp

section \<open>What is copied\<close>

lemma ancestry_parents: "ancestry (map_get (s_entriesById s)) path \<Longrightarrow> state_ok s \<Longrightarrow> parents_rev path"
proof (induction "map_get (s_entriesById s)" path rule: ancestry.induct)
  case (3 e f es)
  then obtain p where p: "e_parentId e = Some p" "map_get (s_entriesById s) p = Some f" by auto
  from 3 have "ids_ok s" "index_ok s" by (simp_all add: state_ok_def)
  from index_get [OF this] p(2) have "e_id f = p" by blast
  with 3 p show ?case by (auto simp: parent_in_def)
qed (auto simp: parent_in_def)

lemma distinct_ids_subset:
  assumes "distinct (map e_id es)" "distinct path" "set path \<subseteq> set es"
  shows "distinct (map e_id path)"
  using assms by (auto simp: distinct_map intro: inj_on_subset)

lemma findEntries_all: "findEntries oldestFirst s = Inr (s_entries s)"
proof -
  have "matchesEntryQuery oldestFirst = (\<lambda>_. True)" by (auto simp: matchesEntryQuery_def oldestFirst_def)
  then show ?thesis
    by (simp add: findEntries_def collect_none ordered_def)
      (simp add: oldestFirst_def assertValidLimit_def assertValidCursor_def collect_none)
qed

lemma branch_entries:
  assumes ok: "state_ok s" and i: "i \<in> entry_ids s"
  shows "\<exists>es. findEntriesOnBranch oldestFirst noBounds i s = Inr es \<and> distinct (map e_id es)
    \<and> parents_rev (rev es) \<and> es \<noteq> [] \<and> e_id (last es) = i \<and> set es \<subseteq> set (s_entries s)"
proof -
  from ok have k: "ids_ok s" "index_ok s" by (simp_all add: state_ok_def)
  from i obtain e where e: "e \<in> set (s_entries s)" "e_id e = i" by (auto simp: entry_ids_def)
  then have get: "getEntry i s = Some e" by (simp add: getEntry_def index_get [OF k])
  have "assertValidLimit (q_limit oldestFirst) = Inr ()" "assertValidCursor (q_cursor oldestFirst) = Inr ()"
    by (simp_all add: oldestFirst_def assertValidLimit_def assertValidCursor_def)
  from branch_query [OF ok get this, of noBounds] obtain path where path: "ancestry (map_get (s_entriesById s)) path"
    "hd path = e" "set path \<subseteq> set (s_entries s)" "distinct path"
    "findEntriesOnBranch oldestFirst noBounds i s = Inr (limited (q_limit oldestFirst) (filter (matchesEntryQuery oldestFirst)
        (take_until (stops_at noBounds) (if q_order oldestFirst = Some OldestFirst then rev path else path))))" by blast
  have "matchesEntryQuery oldestFirst = (\<lambda>_. True)" "stops_at noBounds = (\<lambda>_. False)" "q_order oldestFirst = Some OldestFirst"
    "q_limit oldestFirst = None"
    by (auto simp: matchesEntryQuery_def oldestFirst_def stops_at_def noBounds_def)
  with path(5) have "findEntriesOnBranch oldestFirst noBounds i s = Inr (rev path)" by (simp add: limited_def)
  moreover have "path \<noteq> []" using path(1) by auto
  moreover have "distinct (map e_id path)" by (rule distinct_ids_subset [OF ids_distinct [OF k(1)] path(4,3)])
  ultimately show ?thesis using path ancestry_parents [OF path(1) ok] e(2)
    by (simp add: last_rev rev_map [symmetric])
qed

lemma parent_exists: "state_ok s \<Longrightarrow> e \<in> set (s_entries s) \<Longrightarrow> e_parentId e = Some p \<Longrightarrow> p \<in> entry_ids s"
proof -
  assume ok: "state_ok s" and e: "e \<in> set (s_entries s)" "e_parentId e = Some p"
  from e(1) obtain k where k: "k < length (s_entries s)" "s_entries s ! k = e" by (auto simp: in_set_conv_nth)
  have "parents_rev (rev (s_entries s))" using ok by (simp add: state_ok_def parents_ok_def)
  from parents_rev_nth [OF this k(1)] k(2) e(2) show ?thesis
    using set_take_subset [of k "s_entries s"] by (auto simp: parent_in_def entry_ids_def)
qed

lemma forkTarget_ok:
  assumes ok: "state_ok s"
  shows "(\<exists>t. forkTarget i pos s = Inr t \<and> (\<forall>j. t = Some j \<longrightarrow> j \<in> entry_ids s)) \<or> forkTarget i pos s = Inl InvalidForkTarget"
proof -
  from ok have k: "ids_ok s" "index_ok s" "lanes_ok s" by (simp_all add: state_ok_def)
  obtain leaf where "requireLane ''main'' s = Inr leaf" using k(3)
    by (auto simp: lanes_ok_def map_has_def requireLane_def)
  then obtain sel where sel: "(case i of Some j \<Rightarrow> Inr (Some j) | None \<Rightarrow> requireLane ''main'' s) = Inr sel"
    by (cases i) auto
  show ?thesis
  proof (cases sel)
    case None with sel show ?thesis by (simp add: forkTarget_def)
  next
    case (Some j)
    show ?thesis
    proof (cases "getEntry j s")
      case None with sel Some show ?thesis by (simp add: forkTarget_def)
    next
      case e: (Some e)
      then have "e \<in> set (s_entries s)" by (simp add: getEntry_def index_get [OF k(1,2)])
      with sel Some e parent_exists [OF ok this] show ?thesis
        by (auto simp: forkTarget_def entry_ids_def)
    qed
  qed
qed

lemma forkSource_ok:
  assumes ok: "state_ok s" and src: "forkSource opts s = Inr (es, lanes)"
  shows "distinct (map e_id es) \<and> parents_rev (rev es) \<and> set es \<subseteq> set (s_entries s) \<and> distinct (map fst lanes)
    \<and> map_has lanes ''main'' \<and> (\<forall>l i. (l, Some i) \<in> set lanes \<longrightarrow> i \<in> e_id ` set es)"
proof (cases opts)
  case ForkTree
  with src have "es = s_entries s" "lanes = s_lanes s" by (simp_all add: forkSource_def findEntries_all getLanes_def)
  with ok show ?thesis
    by (auto simp: state_ok_def parents_ok_def lanes_ok_def entry_ids_def ids_distinct)
next
  case (ForkBranch i pos)
  with src obtain t where t: "forkTarget i pos s = Inr t"
    "(case t of None \<Rightarrow> Inr [] | Some t \<Rightarrow> findEntriesOnBranch oldestFirst noBounds t s) = Inr es" "lanes = [(''main'', t)]"
    by (auto simp: forkSource_def)
  show ?thesis
  proof (cases t)
    case None with t show ?thesis by (auto simp: map_has_def)
  next
    case (Some j)
    with forkTarget_ok [OF ok, of i pos] t(1) have "j \<in> entry_ids s" by auto
    from branch_entries [OF ok this] t(2) Some have "distinct (map e_id es)" "parents_rev (rev es)" "es \<noteq> []"
      "e_id (last es) = j" "set es \<subseteq> set (s_entries s)" by auto
    with t(3) Some show ?thesis by (auto simp: map_has_def)
  qed
qed

lemma forkSource_error:
  assumes "state_ok s" "forkSource opts s = Inl err"
  shows "err = InvalidForkTarget \<and> opts \<noteq> ForkTree"
proof (cases opts)
  case ForkTree with assms(2) show ?thesis by (simp add: forkSource_def findEntries_all)
next
  case (ForkBranch i pos)
  from forkTarget_ok [OF assms(1), of i pos] show ?thesis
  proof
    assume "\<exists>t. forkTarget i pos s = Inr t \<and> (\<forall>j. t = Some j \<longrightarrow> j \<in> entry_ids s)"
    then obtain t where t: "forkTarget i pos s = Inr t" "\<And>j. t = Some j \<Longrightarrow> j \<in> entry_ids s" by blast
    show ?thesis
    proof (cases t)
      case None with t(1) assms(2) ForkBranch show ?thesis by (simp add: forkSource_def)
    next
      case (Some j)
      from branch_entries [OF assms(1) t(2) [OF Some]] obtain es where
        "findEntriesOnBranch oldestFirst noBounds j s = Inr es" by blast
      with Some t(1) assms(2) ForkBranch show ?thesis by (simp add: forkSource_def)
    qed
  next
    assume "forkTarget i pos s = Inl InvalidForkTarget"
    with assms(2) ForkBranch show ?thesis by (simp add: forkSource_def)
  qed
qed

section \<open>The fork\<close>

text \<open>The labels that are copied, by entry.\<close>

definition copied_labels :: "session_state \<Rightarrow> entry list \<Rightarrow> (string \<times> string) list" where
  "copied_labels s es = List.map_filter (\<lambda>e. map_option (Pair (e_id e)) (map_get (s_labels s) (e_id e))) es"

lemma map_filter_cons:
  "List.map_filter f (x # xs) = (case f x of None \<Rightarrow> [] | Some y \<Rightarrow> [y]) @ List.map_filter f xs"
  by (simp add: List.map_filter_def split: option.split)

lemma label_mutations:
  "List.map_filter (\<lambda>e. map_option (\<lambda>label n. MutLabel n (e_id e) (Some label)) (map_get (s_labels s) (e_id e))) es
     = map (\<lambda>(i, label) n. MutLabel n i (Some label)) (copied_labels s es)"
  by (induction es) (auto simp: copied_labels_def map_filter_cons split: option.split)

lemma copied_labels_keys: "fst ` set (copied_labels s es) \<subseteq> e_id ` set es"
  by (induction es) (auto simp: copied_labels_def map_filter_cons split: option.splits)

lemma copied_labels_distinct: "distinct (map e_id es) \<Longrightarrow> distinct (map fst (copied_labels s es))"
proof (induction es)
  case (Cons e es)
  have eq: "copied_labels s (e # es) =
      (case map_get (s_labels s) (e_id e) of None \<Rightarrow> [] | Some l \<Rightarrow> [(e_id e, l)]) @ copied_labels s es"
    by (simp add: copied_labels_def map_filter_cons split: option.split)
  from Cons copied_labels_keys [of s es] show ?case by (auto simp: eq split: option.split)
qed (simp add: copied_labels_def List.map_filter_def)

lemma copied_labels_get:
  "map_of (copied_labels s es) i = (if i \<in> e_id ` set es then map_get (s_labels s) i else None)"
proof (induction es)
  case (Cons e es)
  have eq: "copied_labels s (e # es) =
      (case map_get (s_labels s) (e_id e) of None \<Rightarrow> [] | Some l \<Rightarrow> [(e_id e, l)]) @ copied_labels s es"
    by (simp add: copied_labels_def map_filter_cons split: option.split)
  from Cons show ?case by (auto simp: eq split: option.split)
qed (simp add: copied_labels_def List.map_filter_def)

lemma number_from_singleton: "length fs = 1 \<Longrightarrow> number_from n fs = [hd fs n]"
  by (cases fs) auto

lemma applyMutations_append: "applyMutations (ms @ ns) s = rbind (applyMutations ms s) (applyMutations ns)"
  by (simp add: applyMutations_def [abs_def] fold_r_append)

lemma fork_applies:
  assumes es: "distinct (map e_id es)" "parents_rev (rev es)"
    and lanes: "distinct (map fst lanes)" "\<And>l i. (l, Some i) \<in> set lanes \<Longrightarrow> i \<in> e_id ` set es"
  shows "\<exists>s'. applyMutations (number_from 1
        (map copy_entry es
        @ map (\<lambda>(lane, leaf) n. MutLane n lane leaf) lanes
        @ (case name of None \<Rightarrow> [] | Some name \<Rightarrow> [\<lambda>n. MutName n (Some name)])
        @ map (\<lambda>(i, label) n. MutLabel n i (Some label)) (copied_labels s es))) initState = Inr s'
    \<and> s_entries s' = number_entries 1 es \<and> s_records s' = [] \<and> s_name s' = name
    \<and> s_lanes s' = fold (\<lambda>(l, leaf). map_set l leaf) lanes [(''main'', None)]
    \<and> s_labels s' = fold (\<lambda>(i, label). map_set i label) (copied_labels s es) []"
proof -
  from fork_entries [OF es] obtain t where t: "applyMutations (number_from 1 (map copy_entry es)) initState = Inr t"
    "s_sequence t = length es" "s_entries t = number_entries 1 es" "s_lanes t = [(''main'', None)]"
    "s_labels t = []" "s_name t = None" "s_records t = []" by blast
  have ok: "state_ok t" by (rule applyMutations_ok [OF t(1) state_ok_init])
  then have "index_ok t" by (simp add: state_ok_def)
  note has = index_has [OF this]
  have ids: "entry_ids t = e_id ` set es" by (simp add: entry_ids_def t(3))
  from fork_lanes [of lanes t] lanes(2) has ids obtain u where
    u: "applyMutations (number_from (Suc (length es)) (map (\<lambda>(lane, leaf) n. MutLane n lane leaf) lanes)) t = Inr u"
    "s_sequence u = length es + length lanes" "s_entries u = number_entries 1 es" "s_entriesById u = s_entriesById t"
    "s_labels u = []" "s_name u = None" "s_records u = []"
    "s_lanes u = fold (\<lambda>(l, leaf). map_set l leaf) lanes [(''main'', None)]" by (auto simp: t)
  let ?names = "case name of None \<Rightarrow> [] | Some name \<Rightarrow> [\<lambda>n. MutName n (Some name)]"
  define v where "v = (case name of None \<Rightarrow> u | Some x \<Rightarrow>
    u\<lparr>s_sequence := Suc (s_sequence u), s_name := Some x, s_log := s_log u @ [LogName (Suc (s_sequence u)) (Some x)]\<rparr>)"
  have v: "applyMutations (number_from (Suc (length es + length lanes)) ?names) u = Inr v"
    "s_sequence v = length es + length lanes + length ?names" "s_entries v = number_entries 1 es"
    "s_entriesById v = s_entriesById t" "s_labels v = []" "s_name v = name" "s_records v = []" "s_lanes v = s_lanes u"
    by (simp_all add: v_def applyMutations_def applyMutation_def u split: option.split)
  have lab: "map_has (s_entriesById v) i" if "(i, x) \<in> set (copied_labels s es)" for i x
    unfolding v(4) using copied_labels_keys [of s es] that has [of i] ids by force
  have "\<exists>s'. applyMutations (number_from (Suc (s_sequence v))
        (map (\<lambda>(i, label) n. MutLabel n i (Some label)) (copied_labels s es))) v = Inr s'
    \<and> s_entries s' = s_entries v \<and> s_lanes s' = s_lanes v \<and> s_name s' = s_name v \<and> s_records s' = s_records v
    \<and> s_labels s' = fold (\<lambda>(i, label). map_set i label) (copied_labels s es) (s_labels v)"
    by (rule fork_labels) (rule lab)
  then obtain s' where
    s': "applyMutations (number_from (Suc (length es + length lanes + length ?names))
        (map (\<lambda>(i, label) n. MutLabel n i (Some label)) (copied_labels s es))) v = Inr s'"
    "s_entries s' = number_entries 1 es" "s_lanes s' = s_lanes u" "s_name s' = name" "s_records s' = []"
    "s_labels s' = fold (\<lambda>(i, label). map_set i label) (copied_labels s es) []"
    unfolding v(2,3,5-8) by blast
  have "applyMutations (number_from 1 (map copy_entry es @ map (\<lambda>(lane, leaf) n. MutLane n lane leaf) lanes
        @ ?names @ map (\<lambda>(i, label) n. MutLabel n i (Some label)) (copied_labels s es))) initState = Inr s'"
    using t(1) u(1) v(1) s'(1)
    by (simp only: applyMutations_append number_from_append length_map rbind_simps plus_1_eq_Suc add_Suc)
  with s' u(8) show ?thesis by (intro exI [of _ s']) simp
qed

lemma fork_spec:
  assumes ok: "state_ok s" and src: "forkSource opts s = Inr (es, lanes)"
  shows "\<exists>ms s'. createForkMutations opts s = Inr ms \<and> applyMutations ms initState = Inr s' \<and> state_ok s'
    \<and> s_entries s' = number_entries 1 es \<and> s_records s' = [] \<and> getName s' = getName s
    \<and> (\<forall>l. map_get (getLanes s') l = map_get lanes l)
    \<and> (\<forall>i. getLabel i s' = (if i \<in> e_id ` set es then getLabel i s else None))"
proof -
  note src_ok = forkSource_ok [OF ok src]
  let ?ms = "number_from 1 (map copy_entry es @ map (\<lambda>(lane, leaf) n. MutLane n lane leaf) lanes
        @ (case s_name s of None \<Rightarrow> [] | Some name \<Rightarrow> [\<lambda>n. MutName n (Some name)])
        @ map (\<lambda>(i, label) n. MutLabel n i (Some label)) (copied_labels s es))"
  have ms: "createForkMutations opts s = Inr ?ms"
    using label_mutations [of s es] by (simp add: createForkMutations_def src)
  from fork_applies [of es lanes "s_name s" s] src_ok obtain s' where s': "applyMutations ?ms initState = Inr s'"
    "s_entries s' = number_entries 1 es" "s_records s' = []" "s_name s' = s_name s"
    "s_lanes s' = fold (\<lambda>(l, leaf). map_set l leaf) lanes [(''main'', None)]"
    "s_labels s' = fold (\<lambda>(i, label). map_set i label) (copied_labels s es) []" by blast
  have "map_get (getLanes s') l = map_get lanes l" for l
    using src_ok by (auto simp: getLanes_def s'(5) map_of_fold_set map_has_def split: option.split)
  moreover have "getLabel i s' = (if i \<in> e_id ` set es then getLabel i s else None)" for i
    using copied_labels_distinct [of es s] src_ok
    by (simp add: getLabel_def s'(6) map_of_fold_set copied_labels_get split: option.split)
  ultimately show ?thesis
    using ms s' applyMutations_ok [OF s'(1) state_ok_init] by (auto simp: getName_def)
qed

end
