(* ===== verification/SessionMemory.thy ===== *)
theory SessionMemory
  imports SessionFork
begin

text \<open>
  The in-memory storage and repository (\<open>packages/agent/src/harness/session/memory.ts\<close>). \<open>SessionStorage\<close>
  is a record of operations, \<open>memoryStorage\<close> the one of \<open>InMemorySessionStorage\<close>. \<open>Date.now()\<close> is
  the argument \<open>now\<close>; an \<open>async\<close> method is its result. The lemmas show that every operation keeps
  the invariant and that a lane never has two open operations.
\<close>

record session_metadata =
  md_id :: string
  md_createdAt :: int
  md_parentSessionId :: "string option"

text \<open>The interface \<open>SessionStorage\<close> (\<open>types.ts\<close>) over a state \<open>'s\<close>.\<close>

record 's storage_ops =
  so_getMetadata :: "'s \<Rightarrow> session_metadata"
  so_getLanes :: "'s \<Rightarrow> (string \<times> string option) list"
  so_createLane :: "string \<Rightarrow> string option \<Rightarrow> 's \<Rightarrow> session_error + 's"
  so_moveLane :: "string \<Rightarrow> string option \<Rightarrow> 's \<Rightarrow> session_error + 's"
  so_appendEntry :: "int \<Rightarrow> provisioned_entry \<Rightarrow> string \<Rightarrow> 's \<Rightarrow> session_error + entry \<times> 's"
  so_appendRecord :: "int \<Rightarrow> new_record \<Rightarrow> 's \<Rightarrow> session_error + lane_record \<times> 's"
  so_getEntry :: "string \<Rightarrow> 's \<Rightarrow> entry option"
  so_findEntries :: "entry_query \<Rightarrow> 's \<Rightarrow> session_error + entry list"
  so_findEntriesOnBranch :: "entry_query \<Rightarrow> branch_bounds \<Rightarrow> string \<Rightarrow> 's \<Rightarrow> session_error + entry list"
  so_findRecords :: "record_query \<Rightarrow> 's \<Rightarrow> session_error + lane_record list"
  so_findOpenOperations :: "string \<Rightarrow> jsnum option \<Rightarrow> 's \<Rightarrow> session_error + lane_record list"
  so_getLog :: "jsnum option \<Rightarrow> jsnum option \<Rightarrow> 's \<Rightarrow> session_error + log_item list"
  so_getName :: "'s \<Rightarrow> string option"
  so_setName :: "string option \<Rightarrow> 's \<Rightarrow> session_error + 's"
  so_getLabel :: "string \<Rightarrow> 's \<Rightarrow> string option"
  so_setLabel :: "string \<Rightarrow> string option \<Rightarrow> 's \<Rightarrow> session_error + 's"
  so_getStats :: "'s \<Rightarrow> session_stats"

section \<open>\<open>InMemorySessionStorage\<close>\<close>

record memory_storage =
  ms_metadata :: session_metadata
  ms_state :: session_state

definition newMemoryStorage :: "session_metadata \<Rightarrow> memory_storage" where
  "newMemoryStorage metadata = \<lparr>ms_metadata = metadata, ms_state = initState\<rparr>"

definition memFork :: "session_metadata \<Rightarrow> fork_options \<Rightarrow> memory_storage \<Rightarrow> session_error + memory_storage" where
  "memFork metadata options m =
     rbind (createForkMutations options (ms_state m)) (\<lambda>mutations.
     rbind (applyMutations mutations (ms_state (newMemoryStorage metadata))) (\<lambda>state.
     Inr (newMemoryStorage metadata\<lparr>ms_state := state\<rparr>)))"

text \<open>Applying one mutation to the state of the storage.\<close>

definition memApply :: "session_mutation \<Rightarrow> memory_storage \<Rightarrow> session_error + memory_storage" where
  "memApply mutation m = rbind (applyMutation mutation (ms_state m)) (\<lambda>s. Inr (m\<lparr>ms_state := s\<rparr>))"

definition memCreateLane :: "string \<Rightarrow> string option \<Rightarrow> memory_storage \<Rightarrow> session_error + memory_storage" where
  "memCreateLane lane at m =
     rbind (validateNewLane lane (ms_state m)) (\<lambda>_.
     rbind (validateTarget at (ms_state m)) (\<lambda>_.
     memApply (MutLane (nextSequence (ms_state m)) lane at) m))"

definition memMoveLane :: "string \<Rightarrow> string option \<Rightarrow> memory_storage \<Rightarrow> session_error + memory_storage" where
  "memMoveLane lane target m =
     rbind (requireLane lane (ms_state m)) (\<lambda>_.
     rbind (validateTarget target (ms_state m)) (\<lambda>_.
     memApply (MutLane (nextSequence (ms_state m)) lane target) m))"

definition memAppendEntry :: "int \<Rightarrow> provisioned_entry \<Rightarrow> string \<Rightarrow> memory_storage
    \<Rightarrow> session_error + entry \<times> memory_storage" where
  "memAppendEntry now newEntry lane m =
     rbind (requireLane lane (ms_state m)) (\<lambda>parentId.
     rbind (validateUnusedId (p_id newEntry) (ms_state m)) (\<lambda>_.
       let entry = \<lparr>e_id = p_id newEntry, e_seq = nextSequence (ms_state m), e_parentId = parentId,
                    e_timestamp = now, e_data = p_data newEntry\<rparr> in
       rbind (memApply (MutEntry (Some lane) entry) m) (\<lambda>m. Inr (entry, m))))"

definition memAppendRecord :: "int \<Rightarrow> new_record \<Rightarrow> memory_storage \<Rightarrow> session_error + lane_record \<times> memory_storage" where
  "memAppendRecord now newRecord m =
     rbind (requireLane (n_lane newRecord) (ms_state m)) (\<lambda>_.
     rbind (validateUnusedId (n_id newRecord) (ms_state m)) (\<lambda>_.
     rbind (findOpenOperations (n_lane newRecord) (Some (int_num 1)) (ms_state m)) (\<lambda>current.
       if record_data_type (n_data newRecord) = OperationStartedType \<and> current \<noteq> [] then Inl StorageError
       else let record = \<lparr>r_id = n_id newRecord, r_seq = nextSequence (ms_state m), r_lane = n_lane newRecord,
                          r_timestamp = now, r_data = n_data newRecord\<rparr> in
         rbind (memApply (MutRecord record) m) (\<lambda>m. Inr (record, m)))))"

definition memSetName :: "string option \<Rightarrow> memory_storage \<Rightarrow> session_error + memory_storage" where
  "memSetName name m = memApply (MutName (nextSequence (ms_state m)) name) m"

definition memSetLabel :: "string \<Rightarrow> string option \<Rightarrow> memory_storage \<Rightarrow> session_error + memory_storage" where
  "memSetLabel i label m =
     rbind (validateTarget (Some i) (ms_state m)) (\<lambda>_.
     memApply (MutLabel (nextSequence (ms_state m)) i label) m)"

definition memoryStorage :: "memory_storage storage_ops" where
  "memoryStorage = \<lparr>
     so_getMetadata = ms_metadata,
     so_getLanes = (\<lambda>m. getLanes (ms_state m)),
     so_createLane = memCreateLane,
     so_moveLane = memMoveLane,
     so_appendEntry = memAppendEntry,
     so_appendRecord = memAppendRecord,
     so_getEntry = (\<lambda>i m. getEntry i (ms_state m)),
     so_findEntries = (\<lambda>q m. findEntries q (ms_state m)),
     so_findEntriesOnBranch = (\<lambda>q b start m. findEntriesOnBranch q b start (ms_state m)),
     so_findRecords = (\<lambda>q m. findRecords q (ms_state m)),
     so_findOpenOperations = (\<lambda>lane limit m. findOpenOperations lane limit (ms_state m)),
     so_getLog = (\<lambda>afterSeq limit m. getLog afterSeq limit (ms_state m)),
     so_getName = (\<lambda>m. getName (ms_state m)),
     so_setName = memSetName,
     so_getLabel = (\<lambda>i m. getLabel i (ms_state m)),
     so_setLabel = memSetLabel,
     so_getStats = (\<lambda>m. getStats (ms_state m))\<rparr>"

section \<open>\<open>InMemorySessionRepo\<close>\<close>

type_synonym memory_repo = "(string, memory_storage) jsmap"

text \<open>\<open>uuid\<close> is the identifier \<open>uuidv7\<close> generates when the options give none.\<close>

definition repoCreate :: "string \<Rightarrow> int \<Rightarrow> string option \<Rightarrow> string option \<Rightarrow> memory_repo
    \<Rightarrow> session_error + string \<times> memory_repo" where
  "repoCreate uuid now i parentSessionId repo =
     (let i = (case i of Some i \<Rightarrow> i | None \<Rightarrow> uuid) in
      if map_has repo i then Inl AlreadyExists
      else Inr (i, map_set i (newMemoryStorage
        \<lparr>md_id = i, md_createdAt = now, md_parentSessionId = parentSessionId\<rparr>) repo))"

definition requireStorage :: "string \<Rightarrow> memory_repo \<Rightarrow> session_error + memory_storage" where
  "requireStorage i repo = (case map_get repo i of None \<Rightarrow> Inl NotFound | Some m \<Rightarrow> Inr m)"

definition repoOpen :: "session_metadata \<Rightarrow> memory_repo \<Rightarrow> session_error + memory_storage" where
  "repoOpen metadata repo = requireStorage (md_id metadata) repo"

definition repoList :: "memory_repo \<Rightarrow> session_metadata list" where
  "repoList repo = map (ms_metadata \<circ> snd) repo"

definition repoDelete :: "session_metadata \<Rightarrow> memory_repo \<Rightarrow> memory_repo" where
  "repoDelete metadata repo = map_delete (md_id metadata) repo"

definition repoFork :: "string \<Rightarrow> int \<Rightarrow> session_metadata \<Rightarrow> string option \<Rightarrow> string option \<Rightarrow> fork_options
    \<Rightarrow> memory_repo \<Rightarrow> session_error + string \<times> memory_repo" where
  "repoFork uuid now source i parentSessionId options repo =
     rbind (requireStorage (md_id source) repo) (\<lambda>sourceStorage.
       let i = (case i of Some i \<Rightarrow> i | None \<Rightarrow> uuid) in
       if map_has repo i then Inl AlreadyExists
       else rbind (memFork \<lparr>md_id = i, md_createdAt = now,
              md_parentSessionId = Some (case parentSessionId of Some p \<Rightarrow> p | None \<Rightarrow> md_id source)\<rparr>
              options sourceStorage) (\<lambda>storage.
         Inr (i, map_set i storage repo)))"

section \<open>The operations keep the invariant\<close>

definition storage_ok :: "memory_storage \<Rightarrow> bool" where
  "storage_ok m = (state_ok (ms_state m) \<and> (\<forall>lane. length (open_ops lane (s_records (ms_state m))) \<le> 1))"

lemma length_track:
  "length (track lane r ops) \<le> (if starts_on lane r then Suc (length ops) else length ops)"
  by (simp add: track_cases)

lemma length_track_le:
  assumes "length ops \<le> 1" "starts_on lane r \<Longrightarrow> ops = []"
  shows "length (track lane r ops) \<le> 1"
proof (cases "starts_on lane r")
  case True with assms(2) length_track [of lane r ops] show ?thesis by simp
next
  case False
  with length_track [of lane r ops] have "length (track lane r ops) \<le> length ops" by simp
  with assms(1) show ?thesis by simp
qed

lemma memApply_ok:
  assumes "memApply mut m = Inr m'" "storage_ok m" "\<forall>r. mut \<noteq> MutRecord r"
  shows "storage_ok m'"
proof -
  from assms(1) obtain s where s: "applyMutation mut (ms_state m) = Inr s" "m' = m\<lparr>ms_state := s\<rparr>"
    by (auto simp: memApply_def)
  from assms(2) have "state_ok s" using state_ok_step s(1) by (auto simp: storage_ok_def)
  moreover have "s_records s = s_records (ms_state m)"
    using s(1) assms(3) by (cases mut)
      (auto dest: applyMutation_entry(5) applyMutation_lane(3) applyMutation_name(2) applyMutation_label(3) simp: putEntry_def)
  ultimately show ?thesis using assms(2) s(2) by (simp add: storage_ok_def)
qed

lemma newMemoryStorage_ok: "storage_ok (newMemoryStorage metadata)"
proof -
  have "s_records initState = []" by (simp add: initState_def)
  then show ?thesis by (simp add: storage_ok_def newMemoryStorage_def state_ok_init open_ops_def)
qed

lemma one_limit: "assertValidLimit (Some (int_num 1)) = Inr ()" "limited (Some (int_num 1)) xs = take 1 xs"
  using int_num_safe [of 1] by (simp_all add: valid_limit num_is_safe_def max_safe_def limited_def)

lemma memAppendRecord_ok:
  assumes "memAppendRecord now nr m = Inr (r, m')" "storage_ok m"
  shows "storage_ok m'"
proof -
  from assms(2) have ok: "state_ok (ms_state m)" by (simp add: storage_ok_def)
  let ?ops = "open_ops (n_lane nr) (s_records (ms_state m))"
  have open1: "findOpenOperations (n_lane nr) (Some (int_num 1)) (ms_state m) = Inr (take 1 (rev ?ops))"
    using open_operations [OF ok one_limit(1)] by (simp add: one_limit)
  from assms(1) obtain s where s: "\<not> (record_data_type (n_data nr) = OperationStartedType \<and> take 1 (rev ?ops) \<noteq> [])"
    "r_lane r = n_lane nr" "r_data r = n_data nr" "applyMutation (MutRecord r) (ms_state m) = Inr s" "m' = m\<lparr>ms_state := s\<rparr>"
    by (auto simp: memAppendRecord_def open1 memApply_def Let_def split: if_splits)
  have "length (open_ops lane (s_records (ms_state m) @ [r])) \<le> 1" for lane
    unfolding open_ops_snoc
  proof (rule length_track_le)
    show "length (open_ops lane (s_records (ms_state m))) \<le> 1" using assms(2) by (simp add: storage_ok_def)
    assume "starts_on lane r"
    with s(1-3) show "open_ops lane (s_records (ms_state m)) = []" by (auto simp: starts_on_def)
  qed
  with state_ok_step [OF ok s(4)] applyMutation_record(4) [OF s(4)] s(5) show ?thesis by (simp add: storage_ok_def)
qed

lemma memFork_ok:
  assumes "memFork metadata options m = Inr m'" "storage_ok m"
  shows "storage_ok m'"
proof -
  from assms(1) obtain es lanes where src: "forkSource options (ms_state m) = Inr (es, lanes)"
    by (auto simp: memFork_def createForkMutations_def)
  have ok: "state_ok (ms_state m)" using assms(2) by (simp add: storage_ok_def)
  from fork_spec [OF ok src] assms(1) show ?thesis
    by (auto simp: memFork_def newMemoryStorage_def storage_ok_def open_ops_def)
qed

text \<open>The storages that a program can reach.\<close>

inductive storage_reachable :: "memory_storage \<Rightarrow> bool" where
  sr_new: "storage_reachable (newMemoryStorage metadata)"
| sr_fork: "storage_reachable m \<Longrightarrow> memFork metadata options m = Inr m' \<Longrightarrow> storage_reachable m'"
| sr_createLane: "storage_reachable m \<Longrightarrow> memCreateLane lane at m = Inr m' \<Longrightarrow> storage_reachable m'"
| sr_moveLane: "storage_reachable m \<Longrightarrow> memMoveLane lane target m = Inr m' \<Longrightarrow> storage_reachable m'"
| sr_appendEntry: "storage_reachable m \<Longrightarrow> memAppendEntry now pe lane m = Inr (e, m') \<Longrightarrow> storage_reachable m'"
| sr_appendRecord: "storage_reachable m \<Longrightarrow> memAppendRecord now nr m = Inr (r, m') \<Longrightarrow> storage_reachable m'"
| sr_setName: "storage_reachable m \<Longrightarrow> memSetName name m = Inr m' \<Longrightarrow> storage_reachable m'"
| sr_setLabel: "storage_reachable m \<Longrightarrow> memSetLabel i label m = Inr m' \<Longrightarrow> storage_reachable m'"

lemma storage_reachable_ok: "storage_reachable m \<Longrightarrow> storage_ok m"
proof (induction rule: storage_reachable.induct)
  case sr_new show ?case by (rule newMemoryStorage_ok)
next
  case sr_fork then show ?case by (blast intro: memFork_ok)
next
  case sr_appendRecord then show ?case by (blast intro: memAppendRecord_ok)
qed (auto simp: memCreateLane_def memMoveLane_def memAppendEntry_def memSetName_def memSetLabel_def Let_def
    intro: memApply_ok)

end
