(* ===== verification/Session.thy ===== *)
theory Session
  imports SessionMemory
begin

text \<open>
  The class \<open>Session\<close> (\<open>packages/agent/src/harness/session/session.ts\<close>), a client of the interface
  \<open>SessionStorage\<close>: its methods take the record of storage operations. The locale states what a
  storage promises; inside it the branch a lane shows is described once for every storage. The
  in-memory storage is an interpretation.
\<close>

section \<open>Payloads: \<open>assertJsonSerializable\<close> on typed entries and records\<close>

text \<open>On the typed data the only refusal left is a number that is not finite.\<close>

fun json_finite :: "json \<Rightarrow> bool" where
  "json_finite (JsonNumber d) = num_finite d"
| "json_finite (JsonArray xs) = (\<forall>x \<in> set xs. json_finite x)"
| "json_finite (JsonObject ps) = (\<forall>p \<in> set ps. json_finite (snd p))"
| "json_finite _ = True"

definition usage_finite :: "usage \<Rightarrow> bool" where
  "usage_finite u = (num_finite (cost_input (u_cost u)) \<and> num_finite (cost_output (u_cost u))
     \<and> num_finite (cost_cacheRead (u_cost u)) \<and> num_finite (cost_cacheWrite (u_cost u))
     \<and> num_finite (cost_total (u_cost u)))"

fun content_finite :: "content \<Rightarrow> bool" where
  "content_finite (ToolCallContent c) = (\<forall>p \<in> set (tc_arguments c). json_finite (snd p))"
| "content_finite _ = True"

definition opt_finite :: "('a \<Rightarrow> bool) \<Rightarrow> 'a option \<Rightarrow> bool" where
  "opt_finite f x = (case x of None \<Rightarrow> True | Some y \<Rightarrow> f y)"

fun message_finite :: "agent_message \<Rightarrow> bool" where
  "message_finite (UserMessage m) = True"
| "message_finite (AssistantMessage m) =
     (list_all content_finite (am_content m) \<and> usage_finite (am_usage m)
      \<and> opt_finite json_finite (am_diagnostics m) \<and> opt_finite (\<lambda>d. opt_finite json_finite (dh_data d)) (am_deferred m))"
| "message_finite (ToolResultMessage m) =
     (opt_finite json_finite (tr_details m) \<and> opt_finite usage_finite (tr_usage m))"
| "message_finite (CustomMessage m) = opt_finite json_finite (cm_details m)"
| "message_finite (ExtensionMessage r n x) = json_finite x"
| "message_finite _ = True"

fun entry_data_finite :: "entry_data \<Rightarrow> bool" where
  "entry_data_finite (MessageEntry m _) = message_finite m"
| "entry_data_finite (CompactionEntry c) =
     (list_all message_finite (cd_retainedTail c) \<and> opt_finite json_finite (cd_details c)
      \<and> opt_finite usage_finite (cd_usage c))"
| "entry_data_finite (BranchSummaryEntry b) =
     (opt_finite json_finite (bd_details b) \<and> opt_finite usage_finite (bd_usage b))"
| "entry_data_finite (CustomEntry c d) = opt_finite json_finite d"
| "entry_data_finite _ = True"

fun record_data_finite :: "record_data \<Rightarrow> bool" where
  "record_data_finite (OperationStarted l (RunIntent i)) =
     (list_all message_finite (ri_originalPrompt i) \<and> list_all (\<lambda>p. entry_data_finite (p_data p)) (ri_initialMessages i)
      \<and> opt_finite (\<lambda>ps. \<forall>p \<in> set ps. json_finite (snd p)) (ri_resumeData i))"
| "record_data_finite (ToolStarted t) = (\<forall>p \<in> set (ts_effectiveArgs t). json_finite (snd p))"
| "record_data_finite (QueueEnqueued q) = entry_data_finite (p_data (qe_target q))"
| "record_data_finite (WriteDeferred r p) = entry_data_finite (p_data p)"
| "record_data_finite (UsageRecord u (AdjustmentCause r e d)) = (usage_finite u \<and> opt_finite json_finite d)"
| "record_data_finite (UsageRecord u c) = usage_finite u"
| "record_data_finite _ = True"

section \<open>The methods\<close>

definition commitEntry :: "'s storage_ops \<Rightarrow> int \<Rightarrow> provisioned_entry \<Rightarrow> string \<Rightarrow> 's \<Rightarrow> session_error + entry \<times> 's" where
  "commitEntry st now pe lane s =
     rbind (guard_r (entry_data_finite (p_data pe)) InvalidPayload) (\<lambda>_. so_appendEntry st now pe lane s)"

definition commitRecord :: "'s storage_ops \<Rightarrow> int \<Rightarrow> new_record \<Rightarrow> 's \<Rightarrow> session_error + lane_record \<times> 's" where
  "commitRecord st now nr s =
     rbind (guard_r (record_data_finite (n_data nr)) InvalidPayload) (\<lambda>_. so_appendRecord st now nr s)"

definition appendMessageToLane :: "'s storage_ops \<Rightarrow> string \<Rightarrow> int \<Rightarrow> string \<Rightarrow> agent_message \<Rightarrow> 's
    \<Rightarrow> session_error + string \<times> 's" where
  "appendMessageToLane st newId now lane message s =
     rbind (commitEntry st now \<lparr>p_id = newId, p_data = MessageEntry message False\<rparr> lane s) (\<lambda>(entry, s).
     Inr (e_id entry, s))"

definition appendCustomEntryToLane :: "'s storage_ops \<Rightarrow> string \<Rightarrow> int \<Rightarrow> string \<Rightarrow> string \<Rightarrow> json option \<Rightarrow> 's
    \<Rightarrow> session_error + string \<times> 's" where
  "appendCustomEntryToLane st newId now lane customType data s =
     rbind (commitEntry st now \<lparr>p_id = newId, p_data = CustomEntry customType data\<rparr> lane s) (\<lambda>(entry, s).
     Inr (e_id entry, s))"

definition getLeafIdForLane :: "'s storage_ops \<Rightarrow> string \<Rightarrow> 's \<Rightarrow> session_error + string option" where
  "getLeafIdForLane st lane s =
     (case find (\<lambda>p. fst p = lane) (so_getLanes st s) of
        None \<Rightarrow> Inl InvalidLane | Some p \<Rightarrow> Inr (snd p))"

definition queryEntries :: "'s storage_ops \<Rightarrow> entry_query \<Rightarrow> jsnum option \<Rightarrow> 's \<Rightarrow> session_error + entry list" where
  "queryEntries st q resultLimit s =
     rbind (assertValidLimit (q_limit q)) (\<lambda>_.
     rbind (assertValidCursor (q_cursor q)) (\<lambda>_.
     so_findEntries st (q\<lparr>q_limit := resultLimit\<rparr>) s))"

definition queryBranchEntries :: "'s storage_ops \<Rightarrow> string \<Rightarrow> entry_query \<Rightarrow> branch_bounds \<Rightarrow> string option
    \<Rightarrow> jsnum option \<Rightarrow> 's \<Rightarrow> session_error + entry list" where
  "queryBranchEntries st defaultLane q b start resultLimit s =
     rbind (assertValidLimit (q_limit q)) (\<lambda>_.
     rbind (assertValidCursor (q_cursor q)) (\<lambda>_.
     rbind (case start of Some i \<Rightarrow> Inr (Some i) | None \<Rightarrow> getLeafIdForLane st defaultLane s) (\<lambda>start.
       case start of
         None \<Rightarrow> Inr []
       | Some i \<Rightarrow> so_findEntriesOnBranch st (q\<lparr>q_limit := resultLimit\<rparr>) b i s)))"

text \<open>\<open>findEntriesOnBranch\<close> and \<open>findEntryOnBranch\<close> of the view of a lane.\<close>

definition viewFindEntriesOnBranch :: "'s storage_ops \<Rightarrow> string \<Rightarrow> entry_query \<Rightarrow> branch_bounds \<Rightarrow> string option
    \<Rightarrow> 's \<Rightarrow> session_error + entry list" where
  "viewFindEntriesOnBranch st lane q b start s = queryBranchEntries st lane q b start (q_limit q) s"

definition first :: "'a list \<Rightarrow> 'a option" where
  "first xs = (case xs of [] \<Rightarrow> None | x # _ \<Rightarrow> Some x)"

definition viewFindEntryOnBranch :: "'s storage_ops \<Rightarrow> string \<Rightarrow> entry_query \<Rightarrow> branch_bounds \<Rightarrow> string option
    \<Rightarrow> 's \<Rightarrow> session_error + entry option" where
  "viewFindEntryOnBranch st lane q b start s =
     rbind (queryBranchEntries st lane q b start (Some (int_num 1)) s) (\<lambda>es. Inr (first es))"

definition viewFindEntries :: "'s storage_ops \<Rightarrow> entry_query \<Rightarrow> 's \<Rightarrow> session_error + entry list" where
  "viewFindEntries st q s = queryEntries st q (q_limit q) s"

definition viewFindEntry :: "'s storage_ops \<Rightarrow> entry_query \<Rightarrow> 's \<Rightarrow> session_error + entry option" where
  "viewFindEntry st q s = rbind (queryEntries st q (Some (int_num 1)) s) (\<lambda>es. Inr (first es))"

definition queryRecords :: "'s storage_ops \<Rightarrow> record_query \<Rightarrow> 's \<Rightarrow> session_error + lane_record list" where
  "queryRecords st q s =
     rbind (assertValidLimit (rq_limit q)) (\<lambda>_.
     rbind (assertValidCursor (rq_afterSeq q)) (\<lambda>_.
       if rq_operationKind q \<noteq> None \<and> rq_type q \<noteq> Some OperationStartedType then Inl InvalidQuery
       else so_findRecords st q s))"

definition queryLog :: "'s storage_ops \<Rightarrow> jsnum option \<Rightarrow> jsnum option \<Rightarrow> 's \<Rightarrow> session_error + log_item list" where
  "queryLog st afterSeq limit s =
     rbind (assertValidLimit limit) (\<lambda>_.
     rbind (assertValidCursor afterSeq) (\<lambda>_. so_getLog st afterSeq limit s))"

definition sessionFindOpenOperations :: "'s storage_ops \<Rightarrow> string \<Rightarrow> jsnum option \<Rightarrow> 's
    \<Rightarrow> session_error + lane_record list" where
  "sessionFindOpenOperations st lane limit s =
     rbind (assertValidLimit limit) (\<lambda>_. so_findOpenOperations st lane limit s)"

section \<open>What a storage promises, and what a session then shows\<close>

definition everything :: entry_query where
  "everything = \<lparr>q_type = None, q_customType = None, q_order = None, q_limit = None, q_cursor = None\<rparr>"

abbreviation lane_branch :: "'s storage_ops \<Rightarrow> string \<Rightarrow> 's \<Rightarrow> session_error + entry list" where
  "lane_branch st lane s \<equiv> viewFindEntriesOnBranch st lane everything noBounds None s"

locale session_storage =
  fixes st :: "'s storage_ops" and inv :: "'s \<Rightarrow> bool"
  assumes append_entry: "inv s \<Longrightarrow> so_appendEntry st now pe lane s = Inr (e, s') \<Longrightarrow>
      inv s' \<and> e_id e = p_id pe \<and> e_data e = p_data pe \<and> so_getEntry st (e_id e) s = None
      \<and> map_get (so_getLanes st s) lane = Some (e_parentId e)
      \<and> (\<forall>l. map_get (so_getLanes st s') l = (if l = lane then Some (Some (e_id e)) else map_get (so_getLanes st s) l))
      \<and> (\<forall>i. so_getEntry st i s' = (if i = e_id e then Some e else so_getEntry st i s))"
    and lane_leaf: "inv s \<Longrightarrow> map_get (so_getLanes st s) lane = Some (Some i) \<Longrightarrow> \<exists>e. so_getEntry st i s = Some e"
    and branch: "inv s \<Longrightarrow> so_getEntry st i s = Some e \<Longrightarrow>
      \<exists>path. ancestry (\<lambda>j. so_getEntry st j s) path \<and> hd path = e \<and> so_findEntriesOnBranch st everything noBounds i s = Inr path"
    and entry_id: "inv s \<Longrightarrow> so_getEntry st i s = Some e \<Longrightarrow> e_id e = i"
begin

lemma find_lane: "getLeafIdForLane st lane s =
    (case map_get (so_getLanes st s) lane of None \<Rightarrow> Inl InvalidLane | Some leaf \<Rightarrow> Inr leaf)"
proof -
  have "find (\<lambda>p. fst p = lane) m = (case map_of m lane of None \<Rightarrow> None | Some x \<Rightarrow> Some (lane, x))"
    for m :: "(string \<times> string option) list" by (induction m) auto
  then show ?thesis by (simp add: getLeafIdForLane_def split: option.split)
qed

lemma branch_of_lane:
  "lane_branch st lane s =
     (case map_get (so_getLanes st s) lane of
        None \<Rightarrow> Inl InvalidLane
      | Some None \<Rightarrow> Inr []
      | Some (Some i) \<Rightarrow> so_findEntriesOnBranch st everything noBounds i s)"
  by (simp add: viewFindEntriesOnBranch_def queryBranchEntries_def everything_def assertValidLimit_def
      assertValidCursor_def find_lane split: option.split)

lemma ancestry_extend:
  assumes "ancestry look path" "\<And>i e. look i = Some e \<Longrightarrow> look' i = Some e"
  shows "ancestry look' path"
  using assms by (induction look path rule: ancestry.induct) auto

text \<open>The branch of an entry does not change when another entry is appended.\<close>

lemma branch_stable:
  assumes "inv s" "so_appendEntry st now pe lane s = Inr (e, s')" "so_getEntry st i s = Some f"
  shows "so_findEntriesOnBranch st everything noBounds i s' = so_findEntriesOnBranch st everything noBounds i s"
proof -
  from append_entry [OF assms(1,2)] have inv': "inv s'" and new: "so_getEntry st (e_id e) s = None"
    and get: "\<And>j. so_getEntry st j s' = (if j = e_id e then Some e else so_getEntry st j s)" by blast+
  have i: "so_getEntry st i s' = Some f" using get new assms(3) by auto
  from branch [OF assms(1,3)] obtain p where p: "ancestry (\<lambda>j. so_getEntry st j s) p" "hd p = f"
    "so_findEntriesOnBranch st everything noBounds i s = Inr p" by blast
  from branch [OF inv' i] obtain p' where p': "ancestry (\<lambda>j. so_getEntry st j s') p'" "hd p' = f"
    "so_findEntriesOnBranch st everything noBounds i s' = Inr p'" by blast
  have "ancestry (\<lambda>j. so_getEntry st j s') p" by (rule ancestry_extend [OF p(1)]) (use get new in auto)
  from ancestry_unique [OF this p'(1)] p p' show ?thesis by simp
qed

lemma append_grows_branch:
  assumes "inv s" "appendMessageToLane st newId now lane message s = Inr (i, s')"
  shows "inv s' \<and> i = newId \<and> getLeafIdForLane st lane s' = Inr (Some i)
    \<and> (\<exists>e old. e_id e = i \<and> e_data e = MessageEntry message False
        \<and> lane_branch st lane s = Inr old \<and> lane_branch st lane s' = Inr (e # old))
    \<and> (\<forall>other. other \<noteq> lane \<longrightarrow> lane_branch st other s' = lane_branch st other s)"
proof -
  from assms(2) obtain e where app: "so_appendEntry st now \<lparr>p_id = newId, p_data = MessageEntry message False\<rparr> lane s = Inr (e, s')"
    and i: "i = e_id e" by (auto simp: appendMessageToLane_def commitEntry_def)
  from append_entry [OF assms(1) app] have id: "e_id e = newId" and data: "e_data e = MessageEntry message False"
    by simp_all
  from append_entry [OF assms(1) app] have inv': "inv s'" and new: "so_getEntry st (e_id e) s = None"
    and leaf: "map_get (so_getLanes st s) lane = Some (e_parentId e)"
    and lanes: "\<And>l. map_get (so_getLanes st s') l = (if l = lane then Some (Some (e_id e)) else map_get (so_getLanes st s) l)"
    and get: "\<And>j. so_getEntry st j s' = (if j = e_id e then Some e else so_getEntry st j s)" by blast+
  have e': "so_getEntry st (e_id e) s' = Some e" by (simp add: get)
  from branch [OF inv' e'] obtain path where path: "ancestry (\<lambda>j. so_getEntry st j s') path" "hd path = e"
    "so_findEntriesOnBranch st everything noBounds (e_id e) s' = Inr path" by blast
  have "\<exists>old. lane_branch st lane s = Inr old \<and> lane_branch st lane s' = Inr (e # old)"
  proof (cases "e_parentId e")
    case None
    from ancestry_unique [OF path(1), of "[e]"] None path(2) have "path = [e]" by simp
    with path(3) None leaf lanes show ?thesis by (simp add: branch_of_lane)
  next
    case (Some p)
    from lane_leaf [OF assms(1)] leaf Some obtain f where f: "so_getEntry st p s = Some f" by auto
    from branch [OF assms(1) f] obtain old where old: "ancestry (\<lambda>j. so_getEntry st j s) old" "hd old = f"
      "so_findEntriesOnBranch st everything noBounds p s = Inr old" by blast
    have "ancestry (\<lambda>j. so_getEntry st j s') old" by (rule ancestry_extend [OF old(1)]) (use get new in auto)
    moreover have "so_getEntry st p s' = Some f" using get new f by auto
    ultimately have "ancestry (\<lambda>j. so_getEntry st j s') (e # old)" using old(2) Some by (cases old) auto
    from ancestry_unique [OF path(1) this] path(2) have "path = e # old" by simp
    with path(3) old(3) Some leaf lanes show ?thesis by (simp add: branch_of_lane)
  qed
  moreover have "lane_branch st other s' = lane_branch st other s" if "other \<noteq> lane" for other
    using lanes [of other] that lane_leaf [OF assms(1), of other] branch_stable [OF assms(1) app]
    by (auto simp: branch_of_lane split: option.split)
  ultimately show ?thesis using inv' i id data lanes by (auto simp: find_lane)
qed

end

section \<open>The in-memory storage is one\<close>

interpretation memory: session_storage memoryStorage storage_ok
proof unfold_locales
  fix s now pe lane e s'
  assume inv: "storage_ok s" and app: "so_appendEntry memoryStorage now pe lane s = Inr (e, s')"
  then have app: "memAppendEntry now pe lane s = Inr (e, s')" by (simp add: memoryStorage_def)
  from app obtain parent t where t: "map_get (s_lanes (ms_state s)) lane = Some parent"
    "e = \<lparr>e_id = p_id pe, e_seq = nextSequence (ms_state s), e_parentId = parent, e_timestamp = now, e_data = p_data pe\<rparr>"
    "applyMutation (MutEntry (Some lane) e) (ms_state s) = Inr t" "s' = s\<lparr>ms_state := t\<rparr>"
    by (auto simp: memAppendEntry_def requireLane_def memApply_def Let_def split: option.splits)
  have inv': "storage_ok s'" using memApply_ok [of "MutEntry (Some lane) e" s s'] t inv by (simp add: memApply_def)
  from inv have "ids_ok (ms_state s)" "index_ok (ms_state s)" by (simp_all add: storage_ok_def state_ok_def)
  with ids_fresh(1) [OF this(1) applyMutation_entry(2) [OF t(3)]] index_has
  have "\<not> map_has (s_entriesById (ms_state s)) (e_id e)" by simp
  then have "map_get (s_entriesById (ms_state s)) (e_id e) = None" by (simp add: map_has_def)
  with inv' t applyMutation_entry(5) [OF t(3)] show "storage_ok s' \<and> e_id e = p_id pe \<and> e_data e = p_data pe
      \<and> so_getEntry memoryStorage (e_id e) s = None \<and> map_get (so_getLanes memoryStorage s) lane = Some (e_parentId e)
      \<and> (\<forall>l. map_get (so_getLanes memoryStorage s') l =
            (if l = lane then Some (Some (e_id e)) else map_get (so_getLanes memoryStorage s) l))
      \<and> (\<forall>i. so_getEntry memoryStorage i s' = (if i = e_id e then Some e else so_getEntry memoryStorage i s))"
    by (simp add: memoryStorage_def getEntry_def getLanes_def putEntry_def)
next
  fix s lane i assume "storage_ok s" "map_get (so_getLanes memoryStorage s) lane = Some (Some i)"
  then show "\<exists>e. so_getEntry memoryStorage i s = Some e"
    by (auto simp: memoryStorage_def storage_ok_def state_ok_def lanes_ok_def getLanes_def getEntry_def
        index_has [symmetric] map_has_def simp del: map_of_eq_Some_iff)
next
  fix s i e assume inv: "storage_ok s" and get: "so_getEntry memoryStorage i s = Some e"
  have ok: "state_ok (ms_state s)" using inv by (simp add: storage_ok_def)
  have get: "getEntry i (ms_state s) = Some e" using get by (simp add: memoryStorage_def)
  have "matchesEntryQuery everything = (\<lambda>_. True)" "stops_at noBounds = (\<lambda>_. False)"
    by (auto simp: matchesEntryQuery_def everything_def stops_at_def noBounds_def)
  with branch_query [OF ok get, of everything noBounds] show "\<exists>path. ancestry (\<lambda>j. so_getEntry memoryStorage j s) path
      \<and> hd path = e \<and> so_findEntriesOnBranch memoryStorage everything noBounds i s = Inr path"
    by (auto simp: memoryStorage_def getEntry_def [abs_def] everything_def assertValidLimit_def assertValidCursor_def limited_def)
next
  fix s i e assume "storage_ok s" "so_getEntry memoryStorage i s = Some e"
  then show "e_id e = i"
    using index_get [of "ms_state s" i e] by (simp add: memoryStorage_def storage_ok_def state_ok_def getEntry_def)
qed

end
