(* ===== verification/SessionProps.thy ===== *)
theory SessionProps
  imports Session
begin

text \<open>The properties of sessions, over the states that mutations and storage operations reach.\<close>

text \<open>
  C3. Every state reachable by mutations is well formed: sequence numbers are consecutive from 1 and
  agree with the log, entry and record ids are unique, parents precede their children, lanes and
  labels point at existing entries, the open operations are those of the records, and the totals are
  those computed from the records.
\<close>

theorem session_state_invariant: "reachable s \<Longrightarrow> state_ok s"
  by (rule reachable_ok)

text \<open>
  A branch query from an existing entry never throws on a reachable state: it returns the entry and
  its ancestors up to the root (from the root down for \<open>oldestFirst\<close>), cut after the first bound,
  filtered and limited.
\<close>

theorem branch_query_spec:
  assumes "reachable s" "getEntry start s = Some e"
    and "assertValidLimit (q_limit q) = Inr ()" "assertValidCursor (q_cursor q) = Inr ()"
  shows "\<exists>path. ancestry (\<lambda>i. getEntry i s) path \<and> hd path = e \<and> distinct path
    \<and> findEntriesOnBranch q b start s = Inr (limited (q_limit q) (filter (matchesEntryQuery q)
        (take_until (stops_at b) (if q_order q = Some OldestFirst then rev path else path))))"
  using branch_query [OF reachable_ok [OF assms(1)] assms(2-4), of b] unfolding getEntry_def by blast

text \<open>
  \<open>findOpenOperations\<close> returns exactly the operations started on the lane that no later record on
  it finishes.
\<close>

theorem open_operations_spec:
  assumes "reachable s"
  shows "\<exists>ops. findOpenOperations lane None s = Inr ops
    \<and> (\<forall>x. x \<in> set ops \<longleftrightarrow> (\<exists>before after. s_records s = before @ x # after \<and> starts_on lane x
        \<and> (\<forall>r \<in> set after. \<not> finishes lane (r_id x) r)))"
proof -
  have ok: "state_ok s" by (rule reachable_ok [OF assms])
  then have "distinct (s_records s)" by (auto simp: state_ok_def ids_ok_def distinct_map)
  from open_ops_iff [OF this] open_operations [OF ok, of None lane] show ?thesis
    by (auto simp: assertValidLimit_def limited_def)
qed

text \<open>
  Forking is total where it should be: the mutations of a fork of a reachable session always apply
  to a new session. The new session has exactly the copied entries, renumbered from 1, the requested
  lanes, the name, the labels of the copied entries, and no records.
\<close>

theorem fork_applies_cleanly:
  assumes "reachable s" "forkSource options s = Inr (es, lanes)"
  shows "\<exists>ms s'. createForkMutations options s = Inr ms \<and> applyMutations ms initState = Inr s' \<and> state_ok s'
    \<and> s_entries s' = number_entries 1 es \<and> s_records s' = [] \<and> getName s' = getName s
    \<and> (\<forall>l. map_get (getLanes s') l = map_get lanes l)
    \<and> (\<forall>i. getLabel i s' = (if i \<in> e_id ` set es then getLabel i s else None))"
  by (rule fork_spec [OF reachable_ok [OF assms(1)] assms(2)])

text \<open>
  A fork fails in one way only: a branch fork whose target is not a message entry. The whole tree
  can always be forked.
\<close>

theorem fork_errors:
  assumes "reachable s" "createForkMutations options s = Inl err"
  shows "err = InvalidForkTarget \<and> (\<exists>i pos. options = ForkBranch i pos)"
proof -
  from assms(2) have "forkSource options s = Inl err" by (auto simp: createForkMutations_def rbind_eq_Inl split_beta)
  from forkSource_error [OF reachable_ok [OF assms(1)] this] show ?thesis by (cases options) auto
qed

text \<open>
  Through the operations of the in-memory storage, forks included, no lane ever has two open
  operations, which is what recovery relies on.
\<close>

theorem single_open_operation:
  assumes "storage_reachable m" "so_findOpenOperations memoryStorage lane None m = Inr ops"
  shows "length ops \<le> 1"
proof -
  from storage_reachable_ok [OF assms(1)] have ok: "storage_ok m" .
  then have "state_ok (ms_state m)" "length (open_ops lane (s_records (ms_state m))) \<le> 1" by (simp_all add: storage_ok_def)
  with open_operations [OF this(1), of None lane] assms(2) show ?thesis
    by (auto simp: memoryStorage_def assertValidLimit_def limited_def)
qed

text \<open>
  Appending a message through a session puts it at the leaf of its lane: the lane's branch becomes
  the new entry followed by the old branch, and no other lane's branch changes.
\<close>

theorem append_message_branch:
  assumes "storage_reachable m" "appendMessageToLane memoryStorage newId now lane message m = Inr (i, m')"
  shows "i = newId \<and> getLeafIdForLane memoryStorage lane m' = Inr (Some i)
    \<and> (\<exists>e old. e_id e = i \<and> e_data e = MessageEntry message False
        \<and> lane_branch memoryStorage lane m = Inr old \<and> lane_branch memoryStorage lane m' = Inr (e # old))
    \<and> (\<forall>other. other \<noteq> lane \<longrightarrow> lane_branch memoryStorage other m' = lane_branch memoryStorage other m)"
  using memory.append_grows_branch [OF storage_reachable_ok [OF assms(1)] assms(2)] by blast

section \<open>Witnesses\<close>

definition demo_message :: agent_message where
  "demo_message = UserMessage \<lparr>um_content = TextBody ''hello'', um_timestamp = 7\<rparr>"

definition demo_e1 :: entry where
  "demo_e1 = \<lparr>e_id = ''a'', e_seq = 1, e_parentId = None, e_timestamp = 7, e_data = MessageEntry demo_message False\<rparr>"

definition demo_e2 :: entry where
  "demo_e2 = \<lparr>e_id = ''b'', e_seq = 2, e_parentId = Some ''a'', e_timestamp = 8, e_data = ThinkingLevelEntry ''high''\<rparr>"

definition demo_s1 :: session_state where "demo_s1 = putEntry (Some ''main'') demo_e1 initState"
definition demo_s2 :: session_state where "demo_s2 = putEntry (Some ''main'') demo_e2 demo_s1"

lemma demo_s1_step: "applyMutation (MutEntry (Some ''main'') demo_e1) initState = Inr demo_s1"
  by (simp add: applyMutation_def applyEntry_def demo_e1_def initState_def demo_s1_def)

lemma demo_s2_step: "applyMutation (MutEntry (Some ''main'') demo_e2) demo_s1 = Inr demo_s2"
  by (simp add: applyMutation_def applyEntry_def demo_e1_def demo_e2_def initState_def demo_s1_def demo_s2_def
      putEntry_def map_has_def)

lemma demo_s2_reachable: "reachable demo_s2"
  by (rule reachable_step [OF reachable_step [OF reachable_init demo_s1_step] demo_s2_step])

lemma demo_s2_fields:
  "s_entries demo_s2 = [demo_e1, demo_e2]" "getEntry ''b'' demo_s2 = Some demo_e2"
  "s_lanes demo_s2 = [(''main'', Some ''b'')]"
  by (simp_all add: demo_s2_def demo_s1_def putEntry_def initState_def demo_e1_def demo_e2_def getEntry_def)

theorem session_state_invariant_witness: "state_ok demo_s2"
  by (rule session_state_invariant [OF demo_s2_reachable])

theorem branch_query_spec_witness:
  "\<exists>path. ancestry (\<lambda>i. getEntry i demo_s2) path \<and> hd path = demo_e2 \<and> distinct path
    \<and> findEntriesOnBranch everything noBounds ''b'' demo_s2 = Inr (limited (q_limit everything)
        (filter (matchesEntryQuery everything) (take_until (stops_at noBounds)
          (if q_order everything = Some OldestFirst then rev path else path))))"
  by (rule branch_query_spec [OF demo_s2_reachable demo_s2_fields(2)])
    (simp_all add: everything_def assertValidLimit_def assertValidCursor_def)

lemma demo_fork: "forkSource ForkTree demo_s2 = Inr ([demo_e1, demo_e2], [(''main'', Some ''b'')])"
  by (simp add: forkSource_def findEntries_all getLanes_def demo_s2_fields)

theorem fork_applies_cleanly_witness:
  "\<exists>ms s'. createForkMutations ForkTree demo_s2 = Inr ms \<and> applyMutations ms initState = Inr s' \<and> state_ok s'
    \<and> s_entries s' = number_entries 1 [demo_e1, demo_e2] \<and> s_records s' = [] \<and> getName s' = getName demo_s2
    \<and> (\<forall>l. map_get (getLanes s') l = map_get [(''main'', Some ''b'')] l)
    \<and> (\<forall>i. getLabel i s' = (if i \<in> e_id ` set [demo_e1, demo_e2] then getLabel i demo_s2 else None))"
  by (rule fork_applies_cleanly [OF demo_s2_reachable demo_fork])

lemma demo_bad_fork: "createForkMutations (ForkBranch (Some ''b'') None) demo_s2 = Inl InvalidForkTarget"
  by (simp add: createForkMutations_def forkSource_def forkTarget_def demo_s2_fields)
    (simp add: demo_e2_def e_type_def)

theorem fork_errors_witness:
  "InvalidForkTarget = InvalidForkTarget \<and> (\<exists>i pos. ForkBranch (Some ''b'') None = ForkBranch i pos)"
  by (rule fork_errors [OF demo_s2_reachable demo_bad_fork])

definition demo_metadata :: session_metadata where
  "demo_metadata = \<lparr>md_id = ''s'', md_createdAt = 1, md_parentSessionId = None\<rparr>"

definition demo_operation :: new_record where
  "demo_operation = \<lparr>n_id = ''op'', n_lane = ''main'', n_data = OperationStarted None
     (CompactionIntent \<lparr>ci_customInstructions = None, ci_resultEntryId = ''r''\<rparr>)\<rparr>"

definition demo_record :: lane_record where
  "demo_record = \<lparr>r_id = ''op'', r_seq = 1, r_lane = ''main'', r_timestamp = 5, r_data = n_data demo_operation\<rparr>"

definition demo_m1 :: memory_storage where
  "demo_m1 = newMemoryStorage demo_metadata\<lparr>ms_state := initState\<lparr>s_sequence := 1, s_usedIds := {''op''},
     s_records := [demo_record], s_openOperationsByLane := [(''main'', [(''op'', demo_record)])],
     s_log := [LogRecord 1 demo_record]\<rparr>\<rparr>"

lemma demo_m1_step: "memAppendRecord 5 demo_operation (newMemoryStorage demo_metadata) = Inr (demo_record, demo_m1)"
  using one_limit(1)
  by (simp add: memAppendRecord_def requireLane_def validateUnusedId_def findOpenOperations_def memApply_def Let_def
      applyMutation_def applyRecord_def newMemoryStorage_def initState_def demo_operation_def demo_record_def
      demo_m1_def nextSequence_def trackOperation_def map_has_def)

lemma demo_m1_reachable: "storage_reachable demo_m1"
  by (rule sr_appendRecord [OF sr_new demo_m1_step])

lemma demo_m1_state: "applyMutation (MutRecord demo_record) initState = Inr (ms_state demo_m1)"
  by (simp add: applyMutation_def applyRecord_def initState_def demo_m1_def demo_record_def demo_operation_def
      trackOperation_def map_has_def newMemoryStorage_def)

theorem open_operations_spec_witness:
  "\<exists>ops. findOpenOperations ''main'' None (ms_state demo_m1) = Inr ops \<and> demo_record \<in> set ops"
proof -
  have "s_records (ms_state demo_m1) = [demo_record]" by (simp add: demo_m1_def)
  moreover have "starts_on ''main'' demo_record" by (simp add: starts_on_def demo_record_def demo_operation_def)
  ultimately show ?thesis
    using open_operations_spec [OF reachable_step [OF reachable_init demo_m1_state], of "''main''"] by force
qed

lemma demo_m1_open: "so_findOpenOperations memoryStorage ''main'' None demo_m1 = Inr [demo_record]"
  by (simp add: memoryStorage_def findOpenOperations_def assertValidLimit_def demo_m1_def newMemoryStorage_def)

theorem single_open_operation_witness: "length [demo_record] \<le> 1"
  by (rule single_open_operation [OF demo_m1_reachable demo_m1_open])

definition demo_m2 :: memory_storage where
  "demo_m2 = newMemoryStorage demo_metadata\<lparr>ms_state := demo_s1\<rparr>"

lemma demo_append: "appendMessageToLane memoryStorage ''a'' 7 ''main'' demo_message (newMemoryStorage demo_metadata)
    = Inr (''a'', demo_m2)"
proof -
  have "entry_data_finite (MessageEntry demo_message False)" by (simp add: demo_message_def)
  moreover have "memAppendEntry 7 \<lparr>p_id = ''a'', p_data = MessageEntry demo_message False\<rparr> ''main''
      (newMemoryStorage demo_metadata) = Inr (demo_e1, demo_m2)"
    using demo_s1_step
    by (simp add: memAppendEntry_def requireLane_def validateUnusedId_def memApply_def newMemoryStorage_def
        demo_m2_def nextSequence_def Let_def initState_def demo_e1_def)
  ultimately show ?thesis by (simp add: appendMessageToLane_def commitEntry_def memoryStorage_def demo_e1_def)
qed

theorem append_message_branch_witness:
  "getLeafIdForLane memoryStorage ''main'' demo_m2 = Inr (Some ''a'')
    \<and> (\<exists>e old. e_id e = ''a'' \<and> e_data e = MessageEntry demo_message False
        \<and> lane_branch memoryStorage ''main'' (newMemoryStorage demo_metadata) = Inr old
        \<and> lane_branch memoryStorage ''main'' demo_m2 = Inr (e # old))
    \<and> lane_branch memoryStorage ''side'' demo_m2 = lane_branch memoryStorage ''side'' (newMemoryStorage demo_metadata)"
  using append_message_branch [OF sr_new demo_append] by simp

end
