(* ===== verification/SessionContext.thy ===== *)
theory SessionContext
  imports SessionTypes
begin

text \<open>
  From a branch to the messages a provider sees: \<open>harness/session/context.ts\<close> (the effective
  configuration, the cut at the newest compaction, the messages of each entry) and
  \<open>harness/messages.ts\<close> (\<open>convertToLlm\<close>). Transforms and projectors that extensions install are
  functions given as arguments.
\<close>

section \<open>\<open>messages.ts\<close>\<close>

definition bashExecutionToText :: "bash_execution_message \<Rightarrow> string" where
  "bashExecutionToText m =
     ''Ran `'' @ be_command m @ ''`'' @ newline
     @ (if be_output m \<noteq> [] then ''```'' @ newline @ be_output m @ newline @ ''```'' else ''(no output)'')
     @ (if be_cancelled m then newline @ newline @ ''(command cancelled)''
        else case be_exitCode m of
            None \<Rightarrow> []
          | Some c \<Rightarrow> if c \<noteq> 0 then newline @ newline @ ''Command exited with code '' @ show_int c else [])
     @ (case be_fullOutputPath m of
          None \<Rightarrow> []
        | Some path \<Rightarrow> if be_truncated m \<and> path \<noteq> []
            then newline @ newline @ ''[Output truncated. Full output: '' @ path @ '']'' else [])"

definition COMPACTION_SUMMARY_PREFIX :: string where
  "COMPACTION_SUMMARY_PREFIX =
     ''The conversation history before this point was compacted into the following summary:''
     @ newline @ newline @ ''<summary>'' @ newline"

definition COMPACTION_SUMMARY_SUFFIX :: string where
  "COMPACTION_SUMMARY_SUFFIX = newline @ ''</summary>''"

definition BRANCH_SUMMARY_PREFIX :: string where
  "BRANCH_SUMMARY_PREFIX =
     ''The following is a summary of a branch that this conversation came back from:''
     @ newline @ newline @ ''<summary>'' @ newline"

definition BRANCH_SUMMARY_SUFFIX :: string where
  "BRANCH_SUMMARY_SUFFIX = ''</summary>''"

definition createBranchSummaryMessage :: "string \<Rightarrow> string \<Rightarrow> int \<Rightarrow> agent_message" where
  "createBranchSummaryMessage summary fromId timestamp =
     BranchSummaryMessage \<lparr>bs_summary = summary, bs_fromId = fromId, bs_timestamp = timestamp\<rparr>"

definition createCompactionSummaryMessage :: "string \<Rightarrow> int \<Rightarrow> int \<Rightarrow> agent_message" where
  "createCompactionSummaryMessage summary tokensBefore timestamp =
     CompactionSummaryMessage \<lparr>cs_summary = summary, cs_tokensBefore = tokensBefore, cs_timestamp = timestamp\<rparr>"

definition createCustomMessage :: "string \<Rightarrow> body \<Rightarrow> bool \<Rightarrow> json option \<Rightarrow> int \<Rightarrow> agent_message" where
  "createCustomMessage customType cont display details timestamp =
     CustomMessage \<lparr>cm_customType = customType, cm_content = cont, cm_display = display,
       cm_details = details, cm_timestamp = timestamp\<rparr>"

definition userText :: "string \<Rightarrow> int \<Rightarrow> agent_message" where
  "userText text timestamp = UserMessage \<lparr>um_content = Blocks [TextContent text None], um_timestamp = timestamp\<rparr>"

fun convertMessage :: "agent_message \<Rightarrow> agent_message option" where
  "convertMessage (BashExecutionMessage m) =
     (if be_excludeFromContext m = Some True then None
      else Some (userText (bashExecutionToText m) (be_timestamp m)))"
| "convertMessage (CustomMessage m) =
     Some (UserMessage \<lparr>
       um_content = (case cm_content m of TextBody s \<Rightarrow> Blocks [TextContent s None] | b \<Rightarrow> b),
       um_timestamp = cm_timestamp m\<rparr>)"
| "convertMessage (BranchSummaryMessage m) =
     Some (userText (BRANCH_SUMMARY_PREFIX @ bs_summary m @ BRANCH_SUMMARY_SUFFIX) (bs_timestamp m))"
| "convertMessage (CompactionSummaryMessage m) =
     Some (userText (COMPACTION_SUMMARY_PREFIX @ cs_summary m @ COMPACTION_SUMMARY_SUFFIX) (cs_timestamp m))"
| "convertMessage (UserMessage m) = Some (UserMessage m)"
| "convertMessage (AssistantMessage m) = Some (AssistantMessage m)"
| "convertMessage (ToolResultMessage m) = Some (ToolResultMessage m)"
| "convertMessage (ExtensionMessage r n x) = None"

definition convertToLlm :: "agent_message list \<Rightarrow> agent_message list" where
  "convertToLlm messages = map the (filter (\<lambda>m. m \<noteq> None) (map convertMessage messages))"

section \<open>\<open>context.ts\<close>\<close>

record context_state =
  cx_thinkingLevel :: string
  cx_model :: "(string \<times> string) option"
  cx_activeToolNames :: "string list option"

definition contextStep :: "entry \<Rightarrow> context_state \<Rightarrow> context_state" where
  "contextStep e c =
     (case e_data e of
        ThinkingLevelEntry level \<Rightarrow> c\<lparr>cx_thinkingLevel := level\<rparr>
      | ModelChangeEntry provider modelId \<Rightarrow> c\<lparr>cx_model := Some (provider, modelId)\<rparr>
      | MessageEntry (AssistantMessage m) _ \<Rightarrow> c\<lparr>cx_model := Some (am_provider m, am_model m)\<rparr>
      | ActiveToolsEntry names \<Rightarrow> c\<lparr>cx_activeToolNames := Some names\<rparr>
      | _ \<Rightarrow> c)"

definition deriveSessionContextState :: "entry list \<Rightarrow> context_state" where
  "deriveSessionContextState path =
     fold contextStep path \<lparr>cx_thinkingLevel = ''off'', cx_model = None, cx_activeToolNames = None\<rparr>"

text \<open>The backward loop that looks for the newest compaction, from an index down.\<close>

fun newestCompaction :: "entry list \<Rightarrow> nat \<Rightarrow> nat option" where
  "newestCompaction path 0 = None"
| "newestCompaction path (Suc i) =
     (if e_type (path ! i) = CompactionType then Some i else newestCompaction path i)"

definition defaultContextEntryTransform :: "entry list \<Rightarrow> entry list" where
  "defaultContextEntryTransform path =
     (case newestCompaction path (length path) of
        None \<Rightarrow> path
      | Some i \<Rightarrow> path ! i # drop (i + 1) path)"

definition buildContextEntries :: "(entry list \<Rightarrow> entry list) list \<Rightarrow> entry list \<Rightarrow> entry list" where
  "buildContextEntries entryTransforms path = fold (\<lambda>f. f) entryTransforms (defaultContextEntryTransform path)"

type_synonym projectors = "string \<Rightarrow> (entry \<Rightarrow> nat \<Rightarrow> entry list \<Rightarrow> agent_message list option) option"

definition sessionEntryToContextMessages :: "projectors \<Rightarrow> entry \<Rightarrow> nat \<Rightarrow> entry list \<Rightarrow> agent_message list" where
  "sessionEntryToContextMessages projectors e i es =
     (case e_data e of
        MessageEntry m _ \<Rightarrow>
          (case m of
             AssistantMessage a \<Rightarrow> if am_stopReason a = DeferredStop then [] else [m]
           | _ \<Rightarrow> [m])
      | CompactionEntry c \<Rightarrow>
          createCompactionSummaryMessage (cd_summary c) (cd_tokensBefore c) (e_timestamp e) # cd_retainedTail c
      | BranchSummaryEntry b \<Rightarrow>
          if bd_summary b \<noteq> [] then [createBranchSummaryMessage (bd_summary b) (bd_fromId b) (e_timestamp e)] else []
      | CustomEntry customType _ \<Rightarrow>
          (case projectors customType of
             None \<Rightarrow> []
           | Some f \<Rightarrow> (case f e i es of None \<Rightarrow> [] | Some ms \<Rightarrow> ms))
      | _ \<Rightarrow> [])"

definition buildSessionContext :: "(entry list \<Rightarrow> entry list) list \<Rightarrow> projectors \<Rightarrow> entry list
    \<Rightarrow> context_state \<times> agent_message list" where
  "buildSessionContext entryTransforms projectors path =
     (let es = buildContextEntries entryTransforms path in
      (deriveSessionContextState path,
       concat (map (\<lambda>(i, e). sessionEntryToContextMessages projectors e i es) (enumerate 0 es))))"

section \<open>The cut at the newest compaction\<close>

lemma newestCompaction_None:
  "newestCompaction path n = None \<longleftrightarrow> (\<forall>i < n. e_type (path ! i) \<noteq> CompactionType)"
  by (induction n) (auto simp: less_Suc_eq)

lemma newestCompaction_Some:
  "newestCompaction path n = Some i \<Longrightarrow>
     i < n \<and> e_type (path ! i) = CompactionType \<and> (\<forall>j. i < j \<longrightarrow> j < n \<longrightarrow> e_type (path ! j) \<noteq> CompactionType)"
  by (induction n) (auto simp: less_Suc_eq split: if_splits)

lemma transform_none:
  assumes "\<forall>e \<in> set path. e_type e \<noteq> CompactionType"
  shows "defaultContextEntryTransform path = path"
proof -
  have "newestCompaction path (length path) = None" using assms by (simp add: newestCompaction_None)
  then show ?thesis by (simp add: defaultContextEntryTransform_def)
qed

lemma transform_cut:
  assumes "e_type c = CompactionType" "\<forall>e \<in> set post. e_type e \<noteq> CompactionType"
  shows "defaultContextEntryTransform (pre @ c # post) = c # post"
proof -
  let ?path = "pre @ c # post"
  have late: "e_type (?path ! j) \<noteq> CompactionType" if j: "length pre < j" "j < length ?path" for j
  proof -
    from j have "?path ! j = post ! (j - Suc (length pre))" by (simp add: nth_append)
    moreover have "j - Suc (length pre) < length post" using j by simp
    ultimately show ?thesis using assms(2) by (metis nth_mem)
  qed
  have at: "e_type (?path ! length pre) = CompactionType" using assms(1) by simp
  have "newestCompaction ?path (length ?path) = Some (length pre)"
  proof (cases "newestCompaction ?path (length ?path)")
    case None
    have "length pre < length ?path" by simp
    with None at show ?thesis unfolding newestCompaction_None by blast
  next
    case (Some i)
    note i = newestCompaction_Some [OF Some]
    have "\<not> length pre < i" using late i by blast
    moreover have "\<not> i < length pre" using at i by (metis length_append less_add_same_cancel1 length_greater_0_conv list.discI)
    ultimately show ?thesis using Some by simp
  qed
  then show ?thesis by (simp add: defaultContextEntryTransform_def)
qed

section \<open>Properties\<close>

text \<open>
  C4. What a provider sees after a compaction is the summary, the retained tail and the entries since:
  nothing before the newest compaction reaches the messages.
\<close>

theorem context_after_compaction:
  assumes "e_data c = CompactionEntry d" "\<forall>e \<in> set post. e_type e \<noteq> CompactionType"
  shows "snd (buildSessionContext [] projectors (pre @ c # post)) =
    createCompactionSummaryMessage (cd_summary d) (cd_tokensBefore d) (e_timestamp c) # cd_retainedTail d
    @ concat (map (\<lambda>(i, e). sessionEntryToContextMessages projectors e i (c # post)) (enumerate 1 post))"
proof -
  have "e_type c = CompactionType" using assms(1) by (simp add: e_type_def)
  from transform_cut [OF this assms(2)] show ?thesis
    using assms(1) by (simp add: buildSessionContext_def buildContextEntries_def Let_def sessionEntryToContextMessages_def)
qed

text \<open>
  \<open>convertToLlm\<close> returns only user, assistant and tool-result messages, keeps those it is given as
  they are, and converting its result again changes nothing.
\<close>

theorem convertToLlm_llm:
  "convertToLlm (xs @ ys) = convertToLlm xs @ convertToLlm ys
   \<and> role ` set (convertToLlm ms) \<subseteq> {UserRole, AssistantRole, ToolResultRole}
   \<and> convertToLlm (convertToLlm ms) = convertToLlm ms"
proof -
  have llm: "role m \<in> {UserRole, AssistantRole, ToolResultRole} \<and> convertMessage m = Some m"
    if "convertMessage n = Some m" for n m
    using that by (cases n) (auto simp: userText_def split: if_splits)
  have "convertToLlm (convertToLlm ms) = convertToLlm ms"
  proof (induction ms)
    case (Cons n ms) with llm [of n] show ?case by (cases "convertMessage n") (auto simp: convertToLlm_def)
  qed (simp add: convertToLlm_def)
  with llm show ?thesis by (fastforce simp: convertToLlm_def)
qed

theorem context_after_compaction_witness:
  "snd (buildSessionContext [] (\<lambda>_. None)
     ([\<lparr>e_id = ''a'', e_seq = 1, e_parentId = None, e_timestamp = 1,
        e_data = MessageEntry (UserMessage \<lparr>um_content = TextBody ''old'', um_timestamp = 1\<rparr>) False\<rparr>]
      @ \<lparr>e_id = ''c'', e_seq = 2, e_parentId = Some ''a'', e_timestamp = 2, e_data = CompactionEntry
           \<lparr>cd_summary = ''sum'', cd_retainedTail = [], cd_tokensBefore = 9, cd_details = None, cd_usage = None\<rparr>\<rparr>
      # [\<lparr>e_id = ''d'', e_seq = 3, e_parentId = Some ''c'', e_timestamp = 3,
        e_data = MessageEntry (UserMessage \<lparr>um_content = TextBody ''new'', um_timestamp = 3\<rparr>) False\<rparr>]))
   = [createCompactionSummaryMessage ''sum'' 9 2, UserMessage \<lparr>um_content = TextBody ''new'', um_timestamp = 3\<rparr>]"
  by (subst context_after_compaction) (auto simp: e_type_def sessionEntryToContextMessages_def)

end
