(* ===== verification/Reducer.thy ===== *)
theory Reducer
  imports SessionTypes
begin

text \<open>
  Recovery of a lane from its durable records (\<open>packages/agent/src/harness/reducer.ts\<close>):
  \<open>validateRecordLog\<close> with each of its checks, and \<open>reduceLaneState\<close>, which rebuilds the state of the
  lane's operation. \<open>Guard.IsDeepEqual\<close> of \<open>typebox\<close> is the argument \<open>deepEqual\<close>.
\<close>

datatype corruption =
    MultipleOpenOperations | UnknownOperation | RecordAfterFinish | NonConsecutiveAttempt
  | InvalidCompactionReason | QueueAfterAbort | InvalidQueueCancellation | InconsistentStep
  | ToolCallMismatch | DuplicateToolInvocation | ProvisionedEntryMismatch | InvalidDeferredHandle

record record_log_slice =
  sl_lane :: string
  sl_openOperations :: "lane_record list"
  sl_records :: "lane_record list"
  sl_entries :: "entry list"

type_synonym deep_equal = "provisioned_entry \<Rightarrow> provisioned_entry \<Rightarrow> bool"

section \<open>Maps of entries\<close>

text \<open>\<open>new Map(entries.map((entry) => [entry.id, entry]))\<close>\<close>

definition entry_map :: "entry list \<Rightarrow> (string, entry) jsmap" where
  "entry_map es = fold (\<lambda>e m. map_set (e_id e) e m) es []"

definition matchesProvisionedEntry :: "deep_equal \<Rightarrow> entry \<Rightarrow> provisioned_entry \<Rightarrow> bool" where
  "matchesProvisionedEntry deepEqual e target = deepEqual \<lparr>p_id = e_id e, p_data = e_data e\<rparr> target"

definition validateExactProvisionedEntry ::
  "deep_equal \<Rightarrow> (string, entry) jsmap \<Rightarrow> provisioned_entry \<Rightarrow> corruption + unit" where
  "validateExactProvisionedEntry deepEqual m target =
     (case map_get m (p_id target) of
        None \<Rightarrow> Inr ()
      | Some e \<Rightarrow> guard_r (matchesProvisionedEntry deepEqual e target) ProvisionedEntryMismatch)"

definition validateResultEntry :: "(string, entry) jsmap \<Rightarrow> string \<Rightarrow> (entry \<Rightarrow> bool) \<Rightarrow> corruption + unit" where
  "validateResultEntry m i matches =
     (case map_get m i of None \<Rightarrow> Inr () | Some e \<Rightarrow> guard_r (matches e) ProvisionedEntryMismatch)"

section \<open>The checks of one record\<close>

definition validateAttemptReason :: "step_attempt \<Rightarrow> corruption + unit" where
  "validateAttemptReason a =
     (if sa_step a = CompactionStep
      then guard_r (sa_compactionReason a \<in> {Some ManualReason, Some ThresholdReason, Some OverflowReason})
             InvalidCompactionReason
      else guard_r (sa_compactionReason a = None) InvalidCompactionReason)"

text \<open>\<open>seq\<close> is the record's; the previous attempt of the run is the one in \<open>previous\<close>.\<close>

definition continuesSeries :: "nat \<Rightarrow> step_attempt \<Rightarrow> step_attempt option \<Rightarrow> (string, entry) jsmap \<Rightarrow> bool" where
  "continuesSeries seq a previous m =
     (case previous of
        None \<Rightarrow> False
      | Some p \<Rightarrow> sa_step p = sa_step a
          \<and> (case map_get m (sa_resultEntryId p) of None \<Rightarrow> True | Some e \<Rightarrow> e_seq e \<ge> seq))"

definition validateAttemptSequence ::
  "nat \<Rightarrow> step_attempt \<Rightarrow> step_attempt option \<Rightarrow> (string, entry) jsmap \<Rightarrow> corruption + unit" where
  "validateAttemptSequence seq a previous m =
     (let continues = continuesSeries seq a previous m;
          expected = (if continues then sa_attempt (the previous) + 1 else 1) in
      if sa_attempt a \<noteq> expected then Inl NonConsecutiveAttempt
      else if \<not> continues \<or> sa_step a = AssistantStep then Inr ()
      else if sa_resultEntryId a \<noteq> sa_resultEntryId (the previous) then Inl InconsistentStep
      else if sa_compactionReason a \<noteq> sa_compactionReason (the previous) then Inl InconsistentStep
      else Inr ())"

definition isAssistantEntry :: "entry \<Rightarrow> bool" where
  "isAssistantEntry e = (case e_data e of MessageEntry (AssistantMessage _) _ \<Rightarrow> True | _ \<Rightarrow> False)"

definition validateAttemptResult :: "(string, entry) jsmap \<Rightarrow> step_attempt \<Rightarrow> corruption + unit" where
  "validateAttemptResult m a =
     (case sa_step a of
        AssistantStep \<Rightarrow> validateResultEntry m (sa_resultEntryId a) isAssistantEntry
      | CompactionStep \<Rightarrow> validateResultEntry m (sa_resultEntryId a) (\<lambda>e. e_type e = CompactionType)
      | BranchSummaryStep \<Rightarrow> validateResultEntry m (sa_resultEntryId a) (\<lambda>e. e_type e = BranchSummaryType))"

text \<open>The tool calls of an assistant entry, in order; \<open>None\<close> for another entry.\<close>

definition tool_calls :: "content list \<Rightarrow> tool_call list" where
  "tool_calls cs = List.map_filter (\<lambda>c. case c of ToolCallContent t \<Rightarrow> Some t | _ \<Rightarrow> None) cs"

definition assistant_of :: "entry \<Rightarrow> assistant_message option" where
  "assistant_of e = (case e_data e of MessageEntry (AssistantMessage a) _ \<Rightarrow> Some a | _ \<Rightarrow> None)"

definition isResultOf :: "string \<Rightarrow> string \<Rightarrow> entry \<Rightarrow> bool" where
  "isResultOf callId name e =
     (case e_data e of
        MessageEntry (ToolResultMessage t) _ \<Rightarrow> tr_toolCallId t = callId \<and> tr_toolName t = name
      | _ \<Rightarrow> False)"

definition validateToolStart ::
  "tool_started \<Rightarrow> (string, entry) jsmap \<Rightarrow> (string \<times> nat) set \<Rightarrow> corruption + (string \<times> nat) set" where
  "validateToolStart t m invocations =
     (if (ts_assistantEntryId t, ts_toolIndex t) \<in> invocations then Inl DuplicateToolInvocation
      else case Option.bind (map_get m (ts_assistantEntryId t)) assistant_of of
        None \<Rightarrow> Inl ToolCallMismatch
      | Some a \<Rightarrow>
          (let calls = tool_calls (am_content a) in
           if \<not> (ts_toolIndex t < length calls \<and> tc_id (calls ! ts_toolIndex t) = ts_toolCallId t
                  \<and> tc_name (calls ! ts_toolIndex t) = ts_toolName t)
           then Inl ToolCallMismatch
           else rbind (validateResultEntry m (ts_resultEntryId t) (isResultOf (ts_toolCallId t) (ts_toolName t)))
             (\<lambda>_. Inr (insert (ts_assistantEntryId t, ts_toolIndex t) invocations))))"

definition validateDeferredHandles :: "entry list \<Rightarrow> corruption + unit" where
  "validateDeferredHandles es =
     guard_r (\<forall>e \<in> set es. case assistant_of e of None \<Rightarrow> True
        | Some a \<Rightarrow> \<not> (am_stopReason a = DeferredStop \<and> am_deferred a = None)) InvalidDeferredHandle"

definition validateOperationResult :: "deep_equal \<Rightarrow> (string, entry) jsmap \<Rightarrow> intent \<Rightarrow> corruption + unit" where
  "validateOperationResult deepEqual m i =
     (case i of
        RunIntent r \<Rightarrow> fold_r (\<lambda>target _. validateExactProvisionedEntry deepEqual m target) (ri_initialMessages r) ()
      | CompactionIntent c \<Rightarrow> validateResultEntry m (ci_resultEntryId c) (\<lambda>e. e_type e = CompactionType)
      | NavigationIntent n \<Rightarrow>
          (case ni_summaryEntryId n of
             None \<Rightarrow> Inr ()
           | Some s \<Rightarrow> if s = [] then Inr () else validateResultEntry m s (\<lambda>e. e_type e = BranchSummaryType)))"

section \<open>\<open>validateRecordLog\<close>\<close>

text \<open>The local maps of the loop.\<close>

record validation =
  v_starts :: "(string, lane_record) jsmap"
  v_finishedAt :: "(string, nat) jsmap"
  v_abortedAt :: "(string, nat) jsmap"
  v_queueEnqueues :: "(string, lane_record) jsmap"
  v_latestAttempt :: "(string, step_attempt) jsmap"
  v_toolInvocations :: "(string \<times> nat) set"

definition emptyValidation :: validation where
  "emptyValidation = \<lparr>v_starts = [], v_finishedAt = [], v_abortedAt = [], v_queueEnqueues = [],
     v_latestAttempt = [], v_toolInvocations = {}\<rparr>"

text \<open>The check that a record with a run belongs to a known, unfinished operation.\<close>

definition validateRun :: "lane_record \<Rightarrow> validation \<Rightarrow> corruption + unit" where
  "validateRun r v =
     (case run_of (r_data r) of
        None \<Rightarrow> Inr ()
      | Some i \<Rightarrow>
          if \<not> map_has (v_starts v) i then Inl UnknownOperation
          else (case map_get (v_finishedAt v) i of
             None \<Rightarrow> Inr ()
           | Some n \<Rightarrow> guard_r (\<not> r_seq r > n) RecordAfterFinish))"

definition validateRecord :: "deep_equal \<Rightarrow> (string, entry) jsmap \<Rightarrow> lane_record \<Rightarrow> validation \<Rightarrow> corruption + validation" where
  "validateRecord deepEqual m r v =
     (case r_data r of
        OperationStarted _ i \<Rightarrow>
          rbind (validateOperationResult deepEqual m i) (\<lambda>_. Inr (v\<lparr>v_starts := map_set (r_id r) r (v_starts v)\<rparr>))
      | d \<Rightarrow> rbind (validateRun r v) (\<lambda>_.
        (case d of
           OperationFinished i _ _ \<Rightarrow> Inr (v\<lparr>v_finishedAt := map_set i (r_seq r) (v_finishedAt v)\<rparr>)
         | AbortRequested i \<Rightarrow> Inr (v\<lparr>v_abortedAt := map_set i (r_seq r) (v_abortedAt v)\<rparr>)
         | StepAttempt a \<Rightarrow>
             rbind (validateAttemptReason a) (\<lambda>_.
             rbind (validateAttemptSequence (r_seq r) a (map_get (v_latestAttempt v) (sa_runId a)) m) (\<lambda>_.
             rbind (validateAttemptResult m a) (\<lambda>_.
             Inr (v\<lparr>v_latestAttempt := map_set (sa_runId a) a (v_latestAttempt v)\<rparr>))))
         | ToolStarted t \<Rightarrow>
             rbind (validateToolStart t m (v_toolInvocations v)) (\<lambda>ts. Inr (v\<lparr>v_toolInvocations := ts\<rparr>))
         | QueueEnqueued q \<Rightarrow>
             (if qe_queue q \<noteq> NextRun
                 \<and> (case Option.bind (qe_runId q) (map_get (v_abortedAt v)) of None \<Rightarrow> False | Some n \<Rightarrow> r_seq r > n)
              then Inl QueueAfterAbort
              else rbind (validateExactProvisionedEntry deepEqual m (qe_target q)) (\<lambda>_.
                Inr (v\<lparr>v_queueEnqueues := map_set (p_id (qe_target q)) r (v_queueEnqueues v)\<rparr>)))
         | QueueCancelled run i \<Rightarrow>
             (case map_get (v_queueEnqueues v) i of
                None \<Rightarrow> Inl InvalidQueueCancellation
              | Some e \<Rightarrow>
                  if r_seq e \<ge> r_seq r \<or> run_of (r_data e) \<noteq> run \<or> map_has m i
                  then Inl InvalidQueueCancellation else Inr v)
         | WriteDeferred _ target \<Rightarrow> rbind (validateExactProvisionedEntry deepEqual m target) (\<lambda>_. Inr v)
         | _ \<Rightarrow> Inr v)))"

definition validateRecords :: "deep_equal \<Rightarrow> (string, entry) jsmap \<Rightarrow> lane_record list \<Rightarrow> validation \<Rightarrow> corruption + validation" where
  "validateRecords deepEqual m rs v = fold_r (validateRecord deepEqual m) rs v"

definition validateRecordLog :: "deep_equal \<Rightarrow> record_log_slice \<Rightarrow> corruption + unit" where
  "validateRecordLog deepEqual input =
     (if length (sl_openOperations input) > 1 then Inl MultipleOpenOperations
      else let m = entry_map (sl_entries input) in
        rbind (validateDeferredHandles (map snd m)) (\<lambda>_.
        rbind (validateRecords deepEqual m (sort_key r_seq (sl_records input)) emptyValidation) (\<lambda>_. Inr ())))"

section \<open>\<open>reduceLaneState\<close>\<close>

record effective_configuration =
  ec_model :: "string \<times> string"
  ec_thinkingLevel :: string
  ec_activeToolNames :: "string list"

record tool_batch_call =
  bc_toolIndex :: nat
  bc_toolCall :: tool_call
  bc_started :: "tool_started option"
  bc_resultExists :: bool
  bc_terminate :: bool

record tool_batch_state =
  tb_assistantEntryId :: string
  tb_calls :: "tool_batch_call list"
  tb_truncated :: bool
  tb_unresolved :: bool

record step_state =
  ss_kind :: step_kind
  ss_attempts :: int
  ss_resultEntryId :: string
  ss_compactionReason :: "compaction_reason option"

record newest_own =
  no_entryId :: string
  no_type :: entry_type
  no_role :: "message_role option"
  no_stopReason :: "stop_reason option"

record operation_state =
  op_id :: string
  op_intent :: intent
  op_aborting :: bool
  op_step :: "step_state option"
  op_toolBatch :: "tool_batch_state option"
  op_missingInitialMessages :: "provisioned_entry list"
  op_pendingSteer :: "provisioned_entry list"
  op_pendingFollowUp :: "provisioned_entry list"
  op_pendingWrites :: "provisioned_entry list"
  op_deferred :: "deferred_handle option"
  op_overflowRecoveryUsed :: bool
  op_newestOwn :: "newest_own option"
  op_targetResult :: "bool option"
  op_targetSummary :: "bool option"

record lane_state =
  ls_lane :: string
  ls_leafId :: "string option"
  ls_operation :: "operation_state option"
  ls_pendingNextRun :: "provisioned_entry list"

datatype failure_source = StepFailure | DeferredFetchFailure

record terminal_failure =
  tf_entryId :: string
  tf_source :: failure_source
  tf_message :: assistant_message

record reduction_input = record_log_slice +
  in_leafId :: "string option"
  in_ownEntries :: "entry list"
  in_configurationEntries :: "entry list"
  in_defaults :: effective_configuration

record reduction_result =
  rr_laneState :: lane_state
  rr_effectiveConfiguration :: effective_configuration
  rr_terminalFailure :: "terminal_failure option"

definition configurationStep :: "entry \<Rightarrow> effective_configuration \<Rightarrow> effective_configuration" where
  "configurationStep e c =
     (case e_data e of
        ModelChangeEntry provider modelId \<Rightarrow> c\<lparr>ec_model := (provider, modelId)\<rparr>
      | ThinkingLevelEntry level \<Rightarrow> c\<lparr>ec_thinkingLevel := level\<rparr>
      | ActiveToolsEntry names \<Rightarrow> c\<lparr>ec_activeToolNames := names\<rparr>
      | MessageEntry (AssistantMessage a) _ \<Rightarrow> c\<lparr>ec_model := (am_provider a, am_model a)\<rparr>
      | _ \<Rightarrow> c)"

definition deriveEffectiveConfiguration :: "reduction_input \<Rightarrow> effective_configuration" where
  "deriveEffectiveConfiguration input =
     fold configurationStep
       (sort_key e_seq (map snd (entry_map (in_configurationEntries input @ in_ownEntries input))))
       (in_defaults input)"

definition deriveNewestOwn :: "entry option \<Rightarrow> newest_own option" where
  "deriveNewestOwn e =
     map_option (\<lambda>e.
       (case e_data e of
          MessageEntry (AssistantMessage a) _ \<Rightarrow> \<lparr>no_entryId = e_id e, no_type = e_type e,
            no_role = Some AssistantRole, no_stopReason = Some (am_stopReason a)\<rparr>
        | MessageEntry m _ \<Rightarrow> \<lparr>no_entryId = e_id e, no_type = e_type e, no_role = Some (role m), no_stopReason = None\<rparr>
        | _ \<Rightarrow> \<lparr>no_entryId = e_id e, no_type = e_type e, no_role = None, no_stopReason = None\<rparr>)) e"

text \<open>\<open>Array.prototype.at(-1)\<close> and \<open>at(-2)\<close>.\<close>

definition at_last :: "'a list \<Rightarrow> 'a option" where
  "at_last xs = (if xs = [] then None else Some (last xs))"

definition at_last2 :: "'a list \<Rightarrow> 'a option" where
  "at_last2 xs = at_last (butlast xs)"

definition isTerminating :: "entry \<Rightarrow> bool" where
  "isTerminating e = (case e_data e of MessageEntry _ t \<Rightarrow> t | _ \<Rightarrow> False)"

definition deriveToolBatch :: "string \<Rightarrow> lane_record list \<Rightarrow> entry list \<Rightarrow> (string, entry) jsmap \<Rightarrow> string set
    \<Rightarrow> tool_batch_state option" where
  "deriveToolBatch operationId records ownEntries m deferredWriteIds =
     (case find (\<lambda>e. case assistant_of e of None \<Rightarrow> False | Some a \<Rightarrow> tool_calls (am_content a) \<noteq> []) (rev ownEntries) of
        None \<Rightarrow> None
      | Some assistantEntry \<Rightarrow>
          (let a = the (assistant_of assistantEntry);
               starts = fold (\<lambda>r s. case r_data r of
                   ToolStarted t \<Rightarrow>
                     if ts_runId t = operationId \<and> ts_assistantEntryId t = e_id assistantEntry
                     then map_set (ts_toolIndex t) t s else s
                 | _ \<Rightarrow> s) records [];
               calls = map (\<lambda>(i, c).
                 (let started = map_get starts i;
                      startedResult = Option.bind started (\<lambda>t. map_get m (ts_resultEntryId t));
                      blockedResult = find (\<lambda>e. e_seq e > e_seq assistantEntry \<and> e_id e \<notin> deferredWriteIds
                        \<and> (case e_data e of MessageEntry (ToolResultMessage t) _ \<Rightarrow> tr_toolCallId t = tc_id c | _ \<Rightarrow> False))
                        ownEntries;
                      result = (case startedResult of Some e \<Rightarrow> Some e | None \<Rightarrow> blockedResult) in
                  \<lparr>bc_toolIndex = i, bc_toolCall = c, bc_started = started, bc_resultExists = (result \<noteq> None),
                   bc_terminate = (case result of None \<Rightarrow> False | Some e \<Rightarrow> isTerminating e)\<rparr>))
                 (enumerate 0 (tool_calls (am_content a))) in
           Some \<lparr>tb_assistantEntryId = e_id assistantEntry, tb_calls = calls,
                 tb_truncated = (am_stopReason a = LengthStop),
                 tb_unresolved = (\<exists>c \<in> set calls. \<not> bc_resultExists c)\<rparr>))"

text \<open>The queue items that are neither in the tree nor cancelled.\<close>

definition pendingQueue :: "(string, entry) jsmap \<Rightarrow> lane_record list \<Rightarrow> queue_enqueued list" where
  "pendingQueue m records =
     (let cancelled = set (List.map_filter (\<lambda>r. case r_data r of QueueCancelled _ i \<Rightarrow> Some i | _ \<Rightarrow> None) records) in
      List.map_filter (\<lambda>r. case r_data r of
          QueueEnqueued q \<Rightarrow>
            if \<not> map_has m (p_id (qe_target q)) \<and> p_id (qe_target q) \<notin> cancelled then Some q else None
        | _ \<Rightarrow> None) records)"

definition belongsTo :: "string \<Rightarrow> lane_record \<Rightarrow> bool" where
  "belongsTo i r = (case r_data r of OperationStarted _ _ \<Rightarrow> r_id r = i | d \<Rightarrow> run_of d = Some i)"

definition initialMessages :: "intent \<Rightarrow> provisioned_entry list" where
  "initialMessages i = (case i of RunIntent r \<Rightarrow> ri_initialMessages r | _ \<Rightarrow> [])"

definition attempts :: "lane_record list \<Rightarrow> (nat \<times> step_attempt) list" where
  "attempts rs = List.map_filter (\<lambda>r. case r_data r of StepAttempt a \<Rightarrow> Some (r_seq r, a) | _ \<Rightarrow> None) rs"

definition deferredWrites :: "lane_record list \<Rightarrow> provisioned_entry list" where
  "deferredWrites rs = List.map_filter (\<lambda>r. case r_data r of WriteDeferred _ t \<Rightarrow> Some t | _ \<Rightarrow> None) rs"

text \<open>The newest sequence of a consumed input, \<open>None\<close> for minus infinity.\<close>

definition newestConsumedInput :: "(string, entry) jsmap \<Rightarrow> string list \<Rightarrow> nat option" where
  "newestConsumedInput m ids =
     fold (\<lambda>i best. case map_get m i of
         None \<Rightarrow> best
       | Some e \<Rightarrow> if e_type e = MessageType
           then Some (case best of None \<Rightarrow> e_seq e | Some n \<Rightarrow> max n (e_seq e)) else best) ids None"

definition deriveTerminalFailure :: "lane_record list \<Rightarrow> entry list \<Rightarrow> string set \<Rightarrow> terminal_failure option" where
  "deriveTerminalFailure records ownEntries deferredWriteIds =
     (case at_last ownEntries of
        None \<Rightarrow> None
      | Some e \<Rightarrow>
          (case assistant_of e of
             None \<Rightarrow> None
           | Some a \<Rightarrow>
               if am_stopReason a = ErrorStop \<and> e_id e \<notin> deferredWriteIds then
                 (let byStep = (\<exists>p \<in> set (attempts records). sa_resultEntryId (snd p) = e_id e);
                      byFetch = ((\<exists>r \<in> set records. case r_data r of
                            UsageRecord _ (DeferredFetchCause _ i _ _) \<Rightarrow> i = e_id e | _ \<Rightarrow> False)
                        \<or> (case Option.bind (at_last2 ownEntries) assistant_of of
                             None \<Rightarrow> False | Some p \<Rightarrow> am_stopReason p = DeferredStop)) in
                  if byStep \<or> byFetch
                  then Some \<lparr>tf_entryId = e_id e,
                             tf_source = (if byStep then StepFailure else DeferredFetchFailure), tf_message = a\<rparr>
                  else None)
               else None))"

text \<open>The state of the open operation \<open>started\<close>, whose intent is \<open>i\<close>.\<close>

definition reduceOperation :: "lane_record \<Rightarrow> intent \<Rightarrow> lane_record list \<Rightarrow> entry list \<Rightarrow> (string, entry) jsmap
    \<Rightarrow> operation_state" where
  "reduceOperation started i records ownEntries m =
     (let operationRecords = filter (belongsTo (r_id started)) records;
          aborting = (\<exists>r \<in> set operationRecords. case r_data r of AbortRequested _ \<Rightarrow> True | _ \<Rightarrow> False);
          pending = pendingQueue m records;
          queued = (\<lambda>name. if aborting then []
            else map qe_target (filter (\<lambda>q. qe_queue q = name \<and> qe_runId q = Some (r_id started)) pending));
          newestAttempt = map_option snd (at_last (attempts operationRecords));
          step = (case newestAttempt of
              None \<Rightarrow> None
            | Some a \<Rightarrow> if map_has m (sa_resultEntryId a) then None
                else Some \<lparr>ss_kind = sa_step a, ss_attempts = sa_attempt a, ss_resultEntryId = sa_resultEntryId a,
                  ss_compactionReason = (if sa_step a = CompactionStep then sa_compactionReason a else None)\<rparr>);
          consumed = map p_id (initialMessages i) @ List.map_filter (\<lambda>r. case r_data r of
              QueueEnqueued q \<Rightarrow> if qe_queue q \<noteq> NextRun then Some (p_id (qe_target q)) else None
            | _ \<Rightarrow> None) operationRecords;
          newestInput = newestConsumedInput m consumed;
          newestOwnEntry = at_last ownEntries;
          deferredWriteIds = set (map p_id (deferredWrites operationRecords)) in
      \<lparr>op_id = r_id started, op_intent = i, op_aborting = aborting, op_step = step,
       op_toolBatch = deriveToolBatch (r_id started) operationRecords ownEntries m deferredWriteIds,
       op_missingInitialMessages = filter (\<lambda>t. \<not> map_has m (p_id t)) (initialMessages i),
       op_pendingSteer = queued Steer,
       op_pendingFollowUp = queued FollowUp,
       op_pendingWrites = filter (\<lambda>t. \<not> map_has m (p_id t)) (deferredWrites operationRecords),
       op_deferred = Option.bind (Option.bind newestOwnEntry assistant_of)
         (\<lambda>a. if am_stopReason a = DeferredStop then am_deferred a else None),
       op_overflowRecoveryUsed = (\<exists>p \<in> set (attempts operationRecords). sa_step (snd p) = CompactionStep
         \<and> sa_compactionReason (snd p) = Some OverflowReason
         \<and> (case newestInput of None \<Rightarrow> True | Some n \<Rightarrow> fst p > n)),
       op_newestOwn = deriveNewestOwn newestOwnEntry,
       op_targetResult = (case i of CompactionIntent c \<Rightarrow> Some (map_has m (ci_resultEntryId c)) | _ \<Rightarrow> None),
       op_targetSummary = (case i of
           NavigationIntent n \<Rightarrow> (case ni_summaryEntryId n of
               None \<Rightarrow> None | Some s \<Rightarrow> if s = [] then None else Some (map_has m s))
         | _ \<Rightarrow> None)\<rparr>)"

text \<open>An open operation is an \<open>operation_started\<close> record.\<close>

definition started_of :: "lane_record list \<Rightarrow> (lane_record \<times> intent) option" where
  "started_of ops =
     (case ops of
        [] \<Rightarrow> None
      | r # _ \<Rightarrow> (case r_data r of OperationStarted _ i \<Rightarrow> Some (r, i) | _ \<Rightarrow> None))"

definition reduceLaneState :: "deep_equal \<Rightarrow> reduction_input \<Rightarrow> corruption + reduction_result" where
  "reduceLaneState deepEqual input =
     rbind (validateRecordLog deepEqual (record_log_slice.truncate input)) (\<lambda>_.
       let records = sort_key r_seq (sl_records input);
           ownEntries = sort_key e_seq (in_ownEntries input);
           m = entry_map (sl_entries input @ ownEntries);
           started = started_of (sl_openOperations input);
           captured = set (case started of None \<Rightarrow> [] | Some s \<Rightarrow> map p_id (initialMessages (snd s)));
           pendingNextRun = map qe_target (filter (\<lambda>q. qe_queue q = NextRun \<and> p_id (qe_target q) \<notin> captured)
             (pendingQueue m records)) in
       Inr \<lparr>rr_laneState = \<lparr>ls_lane = sl_lane input, ls_leafId = in_leafId input,
              ls_operation = map_option (\<lambda>s. reduceOperation (fst s) (snd s) records ownEntries m) started,
              ls_pendingNextRun = pendingNextRun\<rparr>,
            rr_effectiveConfiguration = deriveEffectiveConfiguration input,
            rr_terminalFailure = (case started of None \<Rightarrow> None
              | Some s \<Rightarrow> (let operationRecords = filter (belongsTo (r_id (fst s))) records in
                  deriveTerminalFailure operationRecords ownEntries
                    (set (map p_id (deferredWrites operationRecords)))))\<rparr>)"

end
