(* ===== verification/ReducerProps.thy ===== *)
theory ReducerProps
  imports Reducer "HOL-Library.Multiset"
begin

text \<open>
  What an accepted record log guarantees, and what the reduced lane state promises to the loop that
  continues the operation.
\<close>

section \<open>The records seen so far\<close>

definition started_in :: "lane_record list \<Rightarrow> string \<Rightarrow> bool" where
  "started_in rs i = (\<exists>r \<in> set rs. record_data_type (r_data r) = OperationStartedType \<and> r_id r = i)"

definition finished_in :: "lane_record list \<Rightarrow> string \<Rightarrow> bool" where
  "finished_in rs i = (\<exists>r \<in> set rs. record_data_type (r_data r) = OperationFinishedType \<and> run_of (r_data r) = Some i)"

definition aborted_in :: "lane_record list \<Rightarrow> string \<Rightarrow> bool" where
  "aborted_in rs i = (\<exists>r \<in> set rs. r_data r = AbortRequested i)"

definition enqueued_in :: "lane_record list \<Rightarrow> string \<Rightarrow> lane_record \<Rightarrow> bool" where
  "enqueued_in rs i r = (r \<in> set rs \<and> (\<exists>q. r_data r = QueueEnqueued q \<and> p_id (qe_target q) = i))"

definition tool_started_in :: "lane_record list \<Rightarrow> string \<times> nat \<Rightarrow> bool" where
  "tool_started_in rs k =
     (\<exists>r \<in> set rs. \<exists>t. r_data r = ToolStarted t \<and> (ts_assistantEntryId t, ts_toolIndex t) = k)"

definition attempted_in :: "lane_record list \<Rightarrow> step_attempt \<Rightarrow> bool" where
  "attempted_in rs a = (\<exists>r \<in> set rs. r_data r = StepAttempt a)"

lemmas in_defs = started_in_def finished_in_def aborted_in_def enqueued_in_def tool_started_in_def attempted_in_def

lemma in_snoc:
  "started_in (rs @ [r]) i \<longleftrightarrow> started_in rs i \<or> record_data_type (r_data r) = OperationStartedType \<and> r_id r = i"
  "finished_in (rs @ [r]) i \<longleftrightarrow> finished_in rs i
     \<or> record_data_type (r_data r) = OperationFinishedType \<and> run_of (r_data r) = Some i"
  "aborted_in (rs @ [r]) i \<longleftrightarrow> aborted_in rs i \<or> r_data r = AbortRequested i"
  "enqueued_in (rs @ [r]) i s \<longleftrightarrow> enqueued_in rs i s \<or> s = r \<and> (\<exists>q. r_data r = QueueEnqueued q \<and> p_id (qe_target q) = i)"
  "tool_started_in (rs @ [r]) k \<longleftrightarrow> tool_started_in rs k
     \<or> (\<exists>t. r_data r = ToolStarted t \<and> (ts_assistantEntryId t, ts_toolIndex t) = k)"
  "attempted_in (rs @ [r]) a \<longleftrightarrow> attempted_in rs a \<or> r_data r = StepAttempt a"
  by (auto simp: in_defs)

text \<open>The maps of the validation loop after the records \<open>rs\<close>.\<close>

definition validated :: "lane_record list \<Rightarrow> validation \<Rightarrow> bool" where
  "validated rs v =
     ((\<forall>i. map_has (v_starts v) i \<longleftrightarrow> started_in rs i)
      \<and> (\<forall>i. finished_in rs i \<longrightarrow> (\<exists>r \<in> set rs. map_get (v_finishedAt v) i = Some (r_seq r)))
      \<and> (\<forall>i. aborted_in rs i \<longrightarrow> (\<exists>r \<in> set rs. map_get (v_abortedAt v) i = Some (r_seq r)))
      \<and> (\<forall>i r. map_get (v_queueEnqueues v) i = Some r \<longrightarrow> enqueued_in rs i r)
      \<and> (\<forall>k. k \<in> v_toolInvocations v \<longleftrightarrow> tool_started_in rs k)
      \<and> (\<forall>i a. map_get (v_latestAttempt v) i = Some a \<longrightarrow> attempted_in rs a \<and> sa_runId a = i))"

lemma validated_empty: "validated [] emptyValidation"
  by (simp add: validated_def emptyValidation_def in_defs)

lemma validateToolStart_Inr:
  "validateToolStart t m s = Inr s' \<Longrightarrow>
     (ts_assistantEntryId t, ts_toolIndex t) \<notin> s \<and> s' = insert (ts_assistantEntryId t, ts_toolIndex t) s"
  by (auto simp: validateToolStart_def Let_def split: if_splits option.splits)

lemma validated_step:
  assumes v: "validated rs v" and ok: "validateRecord d m r v = Inr v'"
  shows "validated (rs @ [r]) v'"
proof (cases "r_data r")
  case (ToolStarted t)
  with ok obtain s where "validateToolStart t m (v_toolInvocations v) = Inr s" "v' = v\<lparr>v_toolInvocations := s\<rparr>"
    by (auto simp: validateRecord_def)
  with validateToolStart_Inr [OF this(1)] v ToolStarted show ?thesis
    by (auto simp: validated_def in_snoc)
qed (use ok v in \<open>auto simp: validateRecord_def validated_def in_snoc split: if_splits option.splits\<close>)

lemma validated_records:
  assumes "validateRecords d m rs v = Inr v'" "validated pre v"
  shows "validated (pre @ rs) v'"
  using assms
proof (induction rs arbitrary: pre v)
  case (Cons r rs)
  then obtain w where "validateRecord d m r v = Inr w" "validateRecords d m rs w = Inr v'"
    by (auto simp: validateRecords_def)
  with Cons.IH [OF this(2) validated_step [OF Cons.prems(2) this(1)]] show ?case by simp
qed (simp add: validateRecords_def)

section \<open>One record of an accepted log\<close>

lemma sort_key_split_less:
  assumes "sort_key f xs = pre @ x # post" "distinct (map f xs)" "y \<in> set pre"
  shows "f y < (f x :: nat)"
proof -
  have "mset (map f (sort_key f xs)) = mset (map f xs)" unfolding mset_map mset_sort ..
  then have "distinct (map f (sort_key f xs))" using assms(2) by (metis mset_eq_imp_distinct_iff)
  then have "f x \<notin> f ` set pre" using assms(1) by simp
  then have "f y \<noteq> f x" using assms(3) by (metis imageI)
  moreover have "sorted (map f (sort_key f xs))" by (rule sorted_sort_key)
  then have "f y \<le> f x" using assms(1,3) by (simp add: sorted_append)
  ultimately show ?thesis by simp
qed

lemma validateRecordLog_split:
  assumes "validateRecordLog d input = Inr ()" "sort_key r_seq (sl_records input) = pre @ r # post"
  obtains v w where "validated pre v" "validateRecord d (entry_map (sl_entries input)) r v = Inr w"
proof -
  from assms obtain u where "validateRecords d (entry_map (sl_entries input)) (pre @ r # post) emptyValidation = Inr u"
    by (auto simp: validateRecordLog_def Let_def split: if_splits)
  then obtain v w where v: "validateRecords d (entry_map (sl_entries input)) pre emptyValidation = Inr v"
    and w: "validateRecord d (entry_map (sl_entries input)) r v = Inr w"
    by (auto simp: validateRecords_def fold_r_append)
  from validated_records [OF v validated_empty] have "validated pre v" by simp
  with w that show ?thesis by blast
qed

lemma validateRecord_run:
  assumes v: "validated pre v" and ok: "validateRecord d m r v = Inr w"
    and less: "\<And>s. s \<in> set pre \<Longrightarrow> r_seq s < r_seq r" and i: "run_of (r_data r) = Some i"
  shows "started_in pre i \<and> \<not> finished_in pre i"
proof -
  have run: "validateRun r v = Inr ()" using ok i by (cases "r_data r") (auto simp: validateRecord_def)
  with i v have "started_in pre i" by (auto simp: validateRun_def validated_def split: if_splits)
  moreover have "\<not> finished_in pre i"
  proof
    assume "finished_in pre i"
    with v obtain s where "s \<in> set pre" "map_get (v_finishedAt v) i = Some (r_seq s)" by (auto simp: validated_def)
    with run i less [of s] show False by (auto simp: validateRun_def split: if_splits)
  qed
  ultimately show ?thesis by simp
qed

lemma validateRecord_queue:
  assumes v: "validated pre v" and ok: "validateRecord d m r v = Inr w"
    and less: "\<And>s. s \<in> set pre \<Longrightarrow> r_seq s < r_seq r"
    and q: "r_data r = QueueEnqueued q" "qe_queue q \<noteq> NextRun" "qe_runId q = Some i"
  shows "\<not> aborted_in pre i"
proof
  assume "aborted_in pre i"
  with v obtain s where "s \<in> set pre" "map_get (v_abortedAt v) i = Some (r_seq s)" by (auto simp: validated_def)
  with ok q less [of s] show False by (auto simp: validateRecord_def split: if_splits)
qed

lemma validateRecord_cancel:
  assumes v: "validated pre v" and ok: "validateRecord d m r v = Inr w" and q: "r_data r = QueueCancelled run i"
  shows "\<not> map_has m i \<and> (\<exists>s q. s \<in> set pre \<and> r_data s = QueueEnqueued q \<and> p_id (qe_target q) = i \<and> qe_runId q = run)"
proof -
  from ok q obtain s where s: "map_get (v_queueEnqueues v) i = Some s" "run_of (r_data s) = run" "\<not> map_has m i"
    by (auto simp: validateRecord_def split: option.splits if_splits)
  with v have "enqueued_in pre i s" by (auto simp: validated_def)
  with s show ?thesis by (auto simp: enqueued_in_def)
qed

lemma validateRecord_tool:
  assumes "validated pre v" "validateRecord d m r v = Inr w" "r_data r = ToolStarted t"
  shows "\<not> tool_started_in pre (ts_assistantEntryId t, ts_toolIndex t)"
  using assms validateToolStart_Inr by (fastforce simp: validateRecord_def validated_def)

lemma validateRecord_attempt:
  assumes v: "validated pre v" and ok: "validateRecord d m r v = Inr w" and a: "r_data r = StepAttempt a"
  shows "sa_attempt a = 1
    \<or> (\<exists>p. attempted_in pre p \<and> sa_runId p = sa_runId a \<and> sa_step p = sa_step a \<and> sa_attempt a = sa_attempt p + 1)"
proof -
  let ?previous = "map_get (v_latestAttempt v) (sa_runId a)"
  from ok a have seq: "validateAttemptSequence (r_seq r) a ?previous m = Inr ()" by (auto simp: validateRecord_def)
  show ?thesis
  proof (cases "continuesSeries (r_seq r) a ?previous m")
    case True
    then obtain p where p: "?previous = Some p" "sa_step p = sa_step a"
      by (auto simp: continuesSeries_def split: option.splits)
    moreover have "sa_attempt a = sa_attempt p + 1"
      using seq True p by (simp add: validateAttemptSequence_def Let_def split: if_splits)
    moreover have "attempted_in pre p \<and> sa_runId p = sa_runId a" using v p unfolding validated_def by blast
    ultimately show ?thesis by blast
  next
    case False
    with seq show ?thesis by (simp add: validateAttemptSequence_def Let_def split: if_splits)
  qed
qed

text \<open>
  C5. In an accepted log with distinct sequence numbers, every record that names a run comes after
  the start of that run and before its finish; no steer or follow-up item is queued after the abort;
  a cancellation names an item queued earlier for the same run that never reached the tree; no tool
  call is started twice; and attempts are numbered from 1 without gaps.
\<close>

theorem accepted_log:
  assumes ok: "validateRecordLog d input = Inr ()" and dis: "distinct (map r_seq (sl_records input))"
    and split: "sort_key r_seq (sl_records input) = pre @ r # post"
  shows "(\<forall>i. run_of (r_data r) = Some i \<longrightarrow> started_in pre i \<and> \<not> finished_in pre i)
    \<and> (\<forall>q i. r_data r = QueueEnqueued q \<and> qe_queue q \<noteq> NextRun \<and> qe_runId q = Some i \<longrightarrow> \<not> aborted_in pre i)
    \<and> (\<forall>run i. r_data r = QueueCancelled run i \<longrightarrow> \<not> map_has (entry_map (sl_entries input)) i
         \<and> (\<exists>s q. s \<in> set pre \<and> r_data s = QueueEnqueued q \<and> p_id (qe_target q) = i \<and> qe_runId q = run))
    \<and> (\<forall>t. r_data r = ToolStarted t \<longrightarrow> \<not> tool_started_in pre (ts_assistantEntryId t, ts_toolIndex t))
    \<and> (\<forall>a. r_data r = StepAttempt a \<longrightarrow> sa_attempt a = 1
         \<or> (\<exists>p. attempted_in pre p \<and> sa_runId p = sa_runId a \<and> sa_step p = sa_step a
              \<and> sa_attempt a = sa_attempt p + 1))"
proof -
  obtain v w where v: "validated pre v" and w: "validateRecord d (entry_map (sl_entries input)) r v = Inr w"
    using validateRecordLog_split [OF ok split] .
  note less = sort_key_split_less [OF split dis]
  show ?thesis
    using validateRecord_run [OF v w less] validateRecord_queue [OF v w less] validateRecord_cancel [OF v w]
      validateRecord_tool [OF v w] validateRecord_attempt [OF v w] by blast
qed

section \<open>The reduced state\<close>

lemma entry_map_has: "map_has (entry_map es) i \<longleftrightarrow> i \<in> e_id ` set es"
proof -
  have "map_has (fold (\<lambda>e m. map_set (e_id e) e m) es m) i \<longleftrightarrow> i \<in> e_id ` set es \<or> map_has m i" for m
    by (induction es arbitrary: m) auto
  then show ?thesis by (simp add: entry_map_def)
qed

text \<open>What the log and the tree say of an identifier.\<close>

definition in_tree :: "reduction_input \<Rightarrow> string \<Rightarrow> bool" where
  "in_tree input i = (i \<in> e_id ` (set (sl_entries input) \<union> set (in_ownEntries input)))"

definition cancelled :: "reduction_input \<Rightarrow> string \<Rightarrow> bool" where
  "cancelled input i = (\<exists>r \<in> set (sl_records input). \<exists>run. r_data r = QueueCancelled run i)"

text \<open>The items queued under \<open>name\<close> that were neither cancelled nor written to the tree.\<close>

definition waiting :: "reduction_input \<Rightarrow> queue_name \<Rightarrow> queue_enqueued set" where
  "waiting input name = {q. (\<exists>r \<in> set (sl_records input). r_data r = QueueEnqueued q) \<and> qe_queue q = name
     \<and> \<not> in_tree input (p_id (qe_target q)) \<and> \<not> cancelled input (p_id (qe_target q))}"

abbreviation input_map :: "reduction_input \<Rightarrow> (string, entry) jsmap" where
  "input_map input \<equiv> entry_map (sl_entries input @ sort_key e_seq (in_ownEntries input))"

lemma input_map_has: "map_has (input_map input) i \<longleftrightarrow> in_tree input i"
  by (simp add: entry_map_has in_tree_def image_Un)

lemma set_map_filter: "set (List.map_filter f xs) = {y. \<exists>x \<in> set xs. f x = Some y}"
  by (force simp: List.map_filter_def)

text \<open>The selections the code makes by record type.\<close>

lemma record_selections:
  "(case d of QueueCancelled _ i \<Rightarrow> Some i | _ \<Rightarrow> None) = Some j \<longleftrightarrow> (\<exists>run. d = QueueCancelled run j)"
  "(case d of QueueEnqueued q \<Rightarrow> if P q then Some q else None | _ \<Rightarrow> None) = Some q' \<longleftrightarrow> d = QueueEnqueued q' \<and> P q'"
  "(case d of WriteDeferred _ t \<Rightarrow> Some t | _ \<Rightarrow> None) = Some t' \<longleftrightarrow> (\<exists>run. d = WriteDeferred run t')"
  "(case d of AbortRequested _ \<Rightarrow> True | _ \<Rightarrow> False) \<longleftrightarrow> (\<exists>run. d = AbortRequested run)"
  by (cases d; auto)+

lemma belongsTo_run:
  "r_data r = AbortRequested j \<Longrightarrow> belongsTo i r \<longleftrightarrow> j = i"
  "r_data r = WriteDeferred j t \<Longrightarrow> belongsTo i r \<longleftrightarrow> j = i"
  by (simp_all add: belongsTo_def)

lemma set_pendingQueue:
  "{q \<in> set (pendingQueue (input_map input) (sort_key r_seq (sl_records input))). qe_queue q = name} = waiting input name"
  unfolding pendingQueue_def Let_def set_map_filter set_sort input_map_has waiting_def cancelled_def record_selections
  by blast

lemma reduceLaneState_Inr:
  assumes "reduceLaneState d input = Inr res"
  shows "ls_operation (rr_laneState res) = map_option
      (\<lambda>s. reduceOperation (fst s) (snd s) (sort_key r_seq (sl_records input)) (sort_key e_seq (in_ownEntries input))
        (input_map input)) (started_of (sl_openOperations input))"
    and "ls_pendingNextRun (rr_laneState res) = map qe_target (filter (\<lambda>q. qe_queue q = NextRun
        \<and> p_id (qe_target q) \<notin> set (case started_of (sl_openOperations input) of None \<Rightarrow> []
             | Some s \<Rightarrow> map p_id (initialMessages (snd s))))
        (pendingQueue (input_map input) (sort_key r_seq (sl_records input))))"
    and "validateRecordLog d (record_log_slice.truncate input) = Inr ()"
  using assms by (auto simp: reduceLaneState_def Let_def)

lemma reduceOperation_fields:
  "op_id (reduceOperation s i rs own m) = r_id s"
  "op_intent (reduceOperation s i rs own m) = i"
  "op_aborting (reduceOperation s i rs own m) =
     (\<exists>r \<in> set (filter (belongsTo (r_id s)) rs). case r_data r of AbortRequested _ \<Rightarrow> True | _ \<Rightarrow> False)"
  "op_pendingSteer (reduceOperation s i rs own m) = (if op_aborting (reduceOperation s i rs own m) then []
     else map qe_target (filter (\<lambda>q. qe_queue q = Steer \<and> qe_runId q = Some (r_id s)) (pendingQueue m rs)))"
  "op_pendingFollowUp (reduceOperation s i rs own m) = (if op_aborting (reduceOperation s i rs own m) then []
     else map qe_target (filter (\<lambda>q. qe_queue q = FollowUp \<and> qe_runId q = Some (r_id s)) (pendingQueue m rs)))"
  "op_missingInitialMessages (reduceOperation s i rs own m) = filter (\<lambda>t. \<not> map_has m (p_id t)) (initialMessages i)"
  "op_pendingWrites (reduceOperation s i rs own m) =
     filter (\<lambda>t. \<not> map_has m (p_id t)) (deferredWrites (filter (belongsTo (r_id s)) rs))"
  by (simp_all only: reduceOperation_def Let_def operation_state.simps)

lemma aborting_iff:
  "(\<exists>r \<in> set (filter (belongsTo i) rs). case r_data r of AbortRequested _ \<Rightarrow> True | _ \<Rightarrow> False)
     \<longleftrightarrow> (\<exists>r \<in> set rs. r_data r = AbortRequested i)"
proof -
  have "(belongsTo i r \<and> (\<exists>run. r_data r = AbortRequested run)) \<longleftrightarrow> r_data r = AbortRequested i" for r
    using belongsTo_run(1) by metis
  then show ?thesis by (simp add: record_selections) metis
qed

lemma set_deferredWrites:
  "set (deferredWrites (filter (belongsTo i) rs)) = {t. \<exists>r \<in> set rs. r_data r = WriteDeferred i t}"
proof -
  have "(belongsTo i r \<and> (\<exists>run. r_data r = WriteDeferred run t)) \<longleftrightarrow> r_data r = WriteDeferred i t" for r t
    using belongsTo_run(2) by metis
  then show ?thesis by (simp add: deferredWrites_def set_map_filter record_selections conj_assoc) metis
qed

text \<open>
  The queues of a reduced lane hold exactly the items that were enqueued for them and neither
  cancelled nor written to the tree: none is lost and none is run twice. After an abort the steer
  and follow-up queues are empty; the messages a run captured at its start are not pending again.
\<close>

theorem reduced_queues:
  assumes "reduceLaneState d input = Inr res" "ls_operation (rr_laneState res) = Some op"
  shows "set (op_pendingSteer op) = (if op_aborting op then {}
      else qe_target ` {q \<in> waiting input Steer. qe_runId q = Some (op_id op)})
    \<and> set (op_pendingFollowUp op) = (if op_aborting op then {}
      else qe_target ` {q \<in> waiting input FollowUp. qe_runId q = Some (op_id op)})
    \<and> set (ls_pendingNextRun (rr_laneState res)) =
      qe_target ` {q \<in> waiting input NextRun. p_id (qe_target q) \<notin> p_id ` set (initialMessages (op_intent op))}
    \<and> op_aborting op = (\<exists>r \<in> set (sl_records input). r_data r = AbortRequested (op_id op))
    \<and> set (op_missingInitialMessages op) = {t \<in> set (initialMessages (op_intent op)). \<not> in_tree input (p_id t)}
    \<and> set (op_pendingWrites op) = {t. (\<exists>r \<in> set (sl_records input). r_data r = WriteDeferred (op_id op) t)
         \<and> \<not> in_tree input (p_id t)}"
proof -
  note red = reduceLaneState_Inr [OF assms(1)]
  from red(1) assms(2) obtain s i where s: "started_of (sl_openOperations input) = Some (s, i)"
    and op: "op = reduceOperation s i (sort_key r_seq (sl_records input)) (sort_key e_seq (in_ownEntries input)) (input_map input)"
    by (cases "started_of (sl_openOperations input)") auto
  let ?pending = "pendingQueue (input_map input) (sort_key r_seq (sl_records input))"
  have q: "{q \<in> set ?pending. qe_queue q = name \<and> P q} = {q \<in> waiting input name. P q}" for name P
    unfolding set_pendingQueue [symmetric] by auto
  have set_if: "set (if b then [] else xs) = (if b then {} else set xs)" for b and xs :: "provisioned_entry list" by simp
  show ?thesis
    unfolding red(2) op reduceOperation_fields(1,2,4-7) set_if s option.case snd_conv q set_map
    unfolding reduceOperation_fields(3) aborting_iff set_sort set_deferredWrites set_filter q input_map_has mem_Collect_eq
    by (intro conjI refl) (use aborting_iff [of "r_id s" "sl_records input"] in \<open>simp only: set_filter\<close>)
qed

lemma sort_key_permuted:
  assumes "mset xs = mset ys" "distinct (map f ys)"
  shows "sort_key f xs = sort_key f (ys :: 'a list)"
proof (rule properties_for_sort_key)
  show "mset (sort_key f ys) = mset xs" using assms(1) by simp
  fix k assume "k \<in> set (sort_key f ys)"
  then have k: "k \<in> set ys" by simp
  have d: "distinct (map f xs)" using assms by (metis mset_eq_imp_distinct_iff mset_map)
  have one: "filter (\<lambda>x. f k = f x) zs = [k]" if "distinct (map f zs)" "k \<in> set zs" for zs
    using that
  proof (induction zs)
    case (Cons z zs)
    show ?case
    proof (cases "f z = f k")
      case True
      then have "z = k" using Cons.prems by (auto simp: image_iff)
      moreover have "filter (\<lambda>x. f k = f x) zs = []" using Cons.prems True by (auto simp: filter_empty_conv)
      ultimately show ?thesis by simp
    next
      case False
      then show ?thesis using Cons by (auto dest: not_sym)
    qed
  qed simp
  have "set xs = set ys" using assms(1) by (metis set_mset_mset)
  moreover have "distinct (map f (sort_key f ys))"
    using assms(2) by (metis mset_eq_imp_distinct_iff mset_map mset_sort)
  ultimately show "filter (\<lambda>x. f k = f x) (sort_key f ys) = filter (\<lambda>x. f k = f x) xs"
    using one [of xs] one [of "sort_key f ys"] d k by simp
qed simp

text \<open>
  C6. The reduction depends on the set of records only, not on the order in which the storage
  returns them: sequence numbers decide.
\<close>

theorem reduce_records_permuted:
  assumes "mset rs = mset (sl_records input)" "distinct (map r_seq (sl_records input))"
  shows "reduceLaneState d (input\<lparr>sl_records := rs\<rparr>) = reduceLaneState d input"
proof -
  note sort = sort_key_permuted [OF assms]
  have "validateRecordLog d (record_log_slice.truncate (input\<lparr>sl_records := rs\<rparr>))
      = validateRecordLog d (record_log_slice.truncate input)"
    by (simp add: validateRecordLog_def record_log_slice.truncate_def sort)
  then show ?thesis by (simp add: reduceLaneState_def sort deriveEffectiveConfiguration_def)
qed

section \<open>A concrete lane\<close>

definition demo_target :: "string \<Rightarrow> provisioned_entry" where
  "demo_target i = \<lparr>p_id = i, p_data = MessageEntry (UserMessage \<lparr>um_content = TextBody i, um_timestamp = 1\<rparr>) False\<rparr>"

definition demo_start :: lane_record where
  "demo_start = \<lparr>r_id = ''run'', r_seq = 1, r_lane = ''main'', r_timestamp = 1, r_data = OperationStarted None
     (RunIntent \<lparr>ri_originalPrompt = [], ri_initialMessages = [demo_target ''m''], ri_systemPromptOverride = None,
       ri_resumeData = None\<rparr>)\<rparr>"

definition demo_steer :: lane_record where
  "demo_steer = \<lparr>r_id = ''q'', r_seq = 2, r_lane = ''main'', r_timestamp = 2,
     r_data = QueueEnqueued \<lparr>qe_queue = Steer, qe_runId = Some ''run'', qe_target = demo_target ''s''\<rparr>\<rparr>"

definition demo_input :: "lane_record list \<Rightarrow> reduction_input" where
  "demo_input rs = \<lparr>sl_lane = ''main'', sl_openOperations = [demo_start], sl_records = rs, sl_entries = [],
     in_leafId = None, in_ownEntries = [], in_configurationEntries = [],
     in_defaults = \<lparr>ec_model = (''p'', ''m''), ec_thinkingLevel = ''off'', ec_activeToolNames = []\<rparr>\<rparr>"

lemmas demo_reduce_simps = demo_input_def demo_start_def demo_steer_def demo_target_def validateRecordLog_def
  validateDeferredHandles_def entry_map_def validateRecords_def validateRecord_def validateRun_def
  emptyValidation_def validateOperationResult_def validateExactProvisionedEntry_def record_log_slice.truncate_def map_has_def

lemma demo_accepted: "validateRecordLog (=) (record_log_slice.truncate (demo_input [demo_steer, demo_start])) = Inr ()"
  by (simp add: demo_reduce_simps)

theorem accepted_log_witness: "started_in [demo_start] ''run'' \<and> \<not> finished_in [demo_start] ''run''"
  using accepted_log [OF demo_accepted, of "[demo_start]" demo_steer "[]"]
  by (simp add: demo_reduce_simps)

theorem reduced_queues_witness:
  "\<exists>res op. reduceLaneState (=) (demo_input [demo_steer, demo_start]) = Inr res
     \<and> ls_operation (rr_laneState res) = Some op
     \<and> set (op_pendingSteer op) = (if op_aborting op then {}
         else qe_target ` {q \<in> waiting (demo_input [demo_steer, demo_start]) Steer. qe_runId q = Some (op_id op)})
     \<and> \<not> op_aborting op"
proof -
  let ?input = "demo_input [demo_steer, demo_start]"
  obtain res where res: "reduceLaneState (=) ?input = Inr res"
    using demo_accepted by (simp add: reduceLaneState_def Let_def)
  moreover from reduceLaneState_Inr(1) [OF res] obtain op where op: "ls_operation (rr_laneState res) = Some op"
    by (simp add: demo_input_def started_of_def demo_start_def)
  moreover have "\<not> op_aborting op" using reduced_queues [OF res op] by (simp add: demo_input_def demo_steer_def demo_start_def)
  ultimately show ?thesis using reduced_queues [OF res op] by blast
qed

theorem reduce_records_permuted_witness:
  "reduceLaneState (=) (demo_input [demo_steer, demo_start]) = reduceLaneState (=) (demo_input [demo_start, demo_steer])"
  using reduce_records_permuted [of "[demo_steer, demo_start]" "demo_input [demo_start, demo_steer]" "(=)"]
  by (simp add: demo_input_def demo_steer_def demo_start_def add_mset_commute)

end
