(* ===== verification/JsFloat.thy ===== *)
theory JsFloat
  imports JsNumber
begin

text \<open>
  Addition of doubles and their decimal text (ECMAScript \<open>Number::add\<close> and \<open>Number::toString\<close>).
  Every finite double is an integral multiple of \<open>2 ^ -1074\<close>, so a sum is computed exactly on these
  multiples and rounded once, to nearest with ties to even.
\<close>

section \<open>Rounding\<close>

definition num_inf :: "nat \<Rightarrow> jsnum" where
  "num_inf s = mk_num s 2047 0"

definition num_nan :: jsnum where
  "num_nan = mk_num 0 2047 (2 ^ 51)"

text \<open>A finite double as a multiple of \<open>2 ^ -1074\<close>.\<close>

definition num_units :: "jsnum \<Rightarrow> int" where
  "num_units d =
     (let m = (if num_exp d = 0 then num_mant d else (2 ^ 52 + num_mant d) * 2 ^ (num_exp d - 1)) in
      if num_sign d = 1 then - int m else int m)"

definition half_even :: "nat \<Rightarrow> nat \<Rightarrow> nat" where
  "half_even n k =
     (let q = n div 2 ^ k; r = 2 * (n mod 2 ^ k) in
      if r < 2 ^ k \<or> r = 2 ^ k \<and> even q then q else q + 1)"

text \<open>The double nearest to a multiple of \<open>2 ^ -1074\<close>, with the sign \<open>s\<close>.\<close>

definition round_units :: "nat \<Rightarrow> nat \<Rightarrow> jsnum" where
  "round_units s n =
     (if n < 2 ^ 52 then mk_num s 0 n
      else let k = log2 n; q = half_even n (k - 52);
               e = (if q = 2 ^ 53 then k - 50 else k - 51); m = (if q = 2 ^ 53 then 0 else q - 2 ^ 52) in
        if e \<ge> 2047 then num_inf s else mk_num s e m)"

section \<open>Addition\<close>

definition num_is_nan :: "jsnum \<Rightarrow> bool" where
  "num_is_nan d = (num_exp d = 2047 \<and> num_mant d \<noteq> 0)"

definition num_is_inf :: "jsnum \<Rightarrow> bool" where
  "num_is_inf d = (num_exp d = 2047 \<and> num_mant d = 0)"

definition num_add :: "jsnum \<Rightarrow> jsnum \<Rightarrow> jsnum" where
  "num_add a b =
     (if num_is_nan a \<or> num_is_nan b then num_nan
      else if num_is_inf a then (if num_is_inf b \<and> num_sign b \<noteq> num_sign a then num_nan else a)
      else if num_is_inf b then b
      else let u = num_units a + num_units b in
        if u = 0 then (if num_negzero a \<and> num_negzero b then a else 0)
        else round_units (if u < 0 then 1 else 0) (nat \<bar>u\<bar>))"

section \<open>Text\<close>

text \<open>The decimal point: the \<open>n\<close> with \<open>10 ^ (n - 1) \<le> a / b < 10 ^ n\<close>, in at most \<open>fuel\<close> steps.\<close>

fun dec_point :: "nat \<Rightarrow> nat \<Rightarrow> nat \<Rightarrow> int" where
  "dec_point a b 0 = 0"
| "dec_point a b (Suc fuel) =
     (if b \<le> a then (if a < 10 * b then 1 else dec_point a (10 * b) fuel + 1)
      else dec_point (10 * a) b fuel - 1)"

text \<open>
  The shortest decimal that rounds to \<open>x / y\<close>: the interval of such values is from \<open>lo / y\<close> to
  \<open>hi / y\<close>, its ends included when \<open>closed\<close>; of two candidates with \<open>k\<close> digits the nearer is taken.
  The result is the digits as a number and their count.
\<close>

definition dec_candidate :: "bool \<Rightarrow> nat \<Rightarrow> nat \<Rightarrow> nat \<Rightarrow> nat \<Rightarrow> nat option" where
  "dec_candidate closed lo hi x y =
     (let inside = (\<lambda>s. if closed then lo \<le> s * y \<and> s * y \<le> hi else lo < s * y \<and> s * y < hi);
          s = x div y; down = (s > 0 \<and> inside s); up = inside (s + 1) in
      if down \<and> (\<not> up \<or> 2 * (x mod y) < y \<or> 2 * (x mod y) = y \<and> even s) then Some s
      else if up then Some (s + 1) else None)"

fun dec_shortest :: "bool \<Rightarrow> nat \<Rightarrow> nat \<Rightarrow> nat \<Rightarrow> nat \<Rightarrow> int \<Rightarrow> nat \<Rightarrow> nat \<Rightarrow> nat \<times> nat" where
  "dec_shortest closed lo hi x y n k 0 = (x div y, k)"
| "dec_shortest closed lo hi x y n k (Suc fuel) =
     (let p = n - int k; c = 10 ^ nat (- p); y' = y * 10 ^ nat p in
      case dec_candidate closed (lo * c) (hi * c) (x * c) y' of
        Some s \<Rightarrow> (s, k)
      | None \<Rightarrow> dec_shortest closed lo hi x y n (k + 1) fuel)"

fun strip_zeros :: "string \<Rightarrow> string" where
  "strip_zeros [] = []"
| "strip_zeros (c # cs) = (let r = strip_zeros cs in if r = [] \<and> c = CHR ''0'' then [] else c # r)"

definition dec_layout :: "string \<Rightarrow> int \<Rightarrow> string" where
  "dec_layout ds n =
     (let k = int (length ds); e = n - 1;
          expo = ''e'' @ (if e < 0 then ''-'' else ''+'') @ show_nat (nat \<bar>e\<bar>) in
      if k \<le> n \<and> n \<le> 21 then ds @ replicate (nat (n - k)) CHR ''0''
      else if 0 < n \<and> n \<le> 21 then take (nat n) ds @ ''.'' @ drop (nat n) ds
      else if -6 < n \<and> n \<le> 0 then ''0.'' @ replicate (nat (- n)) CHR ''0'' @ ds
      else if k = 1 then ds @ expo
      else take 1 ds @ ''.'' @ drop 1 ds @ expo)"

text \<open>A positive finite double: four times its value is \<open>4 * m * 2 ^ e\<close> over a power of two.\<close>

definition num_decimal :: "jsnum \<Rightarrow> string" where
  "num_decimal d =
     (let m = (if num_exp d = 0 then num_mant d else 2 ^ 52 + num_mant d);
          e = (if num_exp d = 0 then -1074 else int (num_exp d) - 1075) - 2;
          u = 2 ^ nat e; y = 2 ^ nat (- e); x = 4 * m * u;
          lo = (4 * m - (if num_mant d = 0 \<and> num_exp d > 1 then 1 else 2)) * u; hi = (4 * m + 2) * u;
          n = dec_point x y 700;
          (s, k) = dec_shortest (even m) lo hi x y n 1 17;
          ds = show_nat s in
      dec_layout (strip_zeros ds) (n + int (length ds) - int k))"

definition num_toString :: "jsnum \<Rightarrow> string" where
  "num_toString d =
     (if num_is_nan d then ''NaN''
      else if num_exp d = 0 \<and> num_mant d = 0 then ''0''
      else (if num_sign d = 1 then ''-'' else [])
        @ (if num_is_inf d then ''Infinity'' else num_decimal d))"

end
