(* ===== verification/JsonText.thy ===== *)
theory JsonText
  imports JsFloat SessionTypes
begin

text \<open>
  \<open>JSON.stringify\<close> on the payloads of a session, without indentation: escapes of strings, \<open>null\<close>
  for numbers that are not finite, properties in the order of the object.
\<close>

definition hex_digit :: "nat \<Rightarrow> char" where
  "hex_digit n = (if n < 10 then char_of (48 + n) else char_of (87 + n))"

definition quote_char :: "char \<Rightarrow> string" where
  "quote_char c =
     (let n = of_char c in
      if c = CHR 0x22 then [CHR 0x5C, c] else if c = CHR 0x5C then [c, c]
      else if n = (8::nat) then [CHR 0x5C, CHR ''b''] else if n = 9 then [CHR 0x5C, CHR ''t'']
      else if n = 10 then [CHR 0x5C, CHR ''n''] else if n = 12 then [CHR 0x5C, CHR ''f'']
      else if n = 13 then [CHR 0x5C, CHR ''r'']
      else if n < 32 then [CHR 0x5C, CHR ''u'', CHR ''0'', CHR ''0'', hex_digit (n div 16), hex_digit (n mod 16)]
      else [c])"

definition quote_string :: "string \<Rightarrow> string" where
  "quote_string s = CHR 0x22 # concat (map quote_char s) @ [CHR 0x22]"

fun stringify :: "json \<Rightarrow> string" where
  "stringify JsonNull = ''null''"
| "stringify (JsonBool b) = (if b then ''true'' else ''false'')"
| "stringify (JsonNumber n) = (if num_finite n then num_toString n else ''null'')"
| "stringify (JsonString s) = quote_string s"
| "stringify (JsonArray vs) = ''['' @ join '','' (map stringify vs) @ '']''"
| "stringify (JsonObject kvs) = ''{'' @ join '','' (map (\<lambda>(k, v). quote_string k @ '':'' @ stringify v) kvs) @ ''}''"

end
