(* ===== verification/CompactionUtils.thy ===== *)
theory CompactionUtils
  imports JsonText SessionContext "HOL-Library.List_Lexorder" "HOL-Library.Char_ord"
begin

text \<open>
  \<open>harness/compaction/utils.ts\<close>: the files a range of messages touched, and the plain text of a
  conversation for the summarization prompt. A JavaScript \<open>Set\<close> is a list without duplicates in
  insertion order; \<open>sort\<close> without a comparator is the lexicographic order of the code units.
\<close>

section \<open>\<open>contentText\<close>\<close>

definition block_texts :: "content list \<Rightarrow> string list" where
  "block_texts cs = List.map_filter (\<lambda>c. case c of TextContent s _ \<Rightarrow> Some s | _ \<Rightarrow> None) cs"

definition contentText :: "body \<Rightarrow> string \<Rightarrow> string" where
  "contentText b separator = (case b of TextBody s \<Rightarrow> s | Blocks cs \<Rightarrow> join separator (block_texts cs))"

section \<open>File operations\<close>

record file_operations =
  fo_read :: "string list"
  fo_written :: "string list"
  fo_edited :: "string list"

definition createFileOps :: file_operations where
  "createFileOps = \<lparr>fo_read = [], fo_written = [], fo_edited = []\<rparr>"

definition set_add :: "'a \<Rightarrow> 'a list \<Rightarrow> 'a list" where
  "set_add x xs = (if x \<in> set xs then xs else xs @ [x])"

definition addFileOp :: "content \<Rightarrow> file_operations \<Rightarrow> file_operations" where
  "addFileOp block ops =
     (case block of
        ToolCallContent t \<Rightarrow>
          (case map_of (tc_arguments t) ''path'' of
             Some (JsonString path) \<Rightarrow>
               if path = [] then ops
               else if tc_name t = ''read'' then ops\<lparr>fo_read := set_add path (fo_read ops)\<rparr>
               else if tc_name t = ''write'' then ops\<lparr>fo_written := set_add path (fo_written ops)\<rparr>
               else if tc_name t = ''edit'' then ops\<lparr>fo_edited := set_add path (fo_edited ops)\<rparr>
               else ops
           | _ \<Rightarrow> ops)
      | _ \<Rightarrow> ops)"

definition extractFileOpsFromMessage :: "agent_message \<Rightarrow> file_operations \<Rightarrow> file_operations" where
  "extractFileOpsFromMessage message ops =
     (case message of AssistantMessage a \<Rightarrow> fold addFileOp (am_content a) ops | _ \<Rightarrow> ops)"

definition computeFileLists :: "file_operations \<Rightarrow> string list \<times> string list" where
  "computeFileLists ops =
     (let modified = fold set_add (fo_edited ops @ fo_written ops) [] in
      (sort (filter (\<lambda>f. f \<notin> set modified) (fo_read ops)), sort modified))"

definition formatFileOperations :: "string list \<Rightarrow> string list \<Rightarrow> string" where
  "formatFileOperations readFiles modifiedFiles =
     (let sections =
        (if readFiles \<noteq> [] then [''<read-files>'' @ newline @ join newline readFiles @ newline @ ''</read-files>''] else [])
        @ (if modifiedFiles \<noteq> []
           then [''<modified-files>'' @ newline @ join newline modifiedFiles @ newline @ ''</modified-files>''] else []) in
      if sections = [] then [] else newline @ newline @ join (newline @ newline) sections)"

section \<open>\<open>serializeConversation\<close>\<close>

definition TOOL_RESULT_MAX_CHARS :: nat where
  "TOOL_RESULT_MAX_CHARS = 2000"

definition truncateForSummary :: "string \<Rightarrow> nat \<Rightarrow> string" where
  "truncateForSummary text maxChars =
     (if length text \<le> maxChars then text
      else take maxChars text @ newline @ newline @ ''[... '' @ show_nat (length text - maxChars)
        @ '' more characters truncated]'')"

definition safeJsonStringify :: "json \<Rightarrow> string" where
  "safeJsonStringify v = stringify v"

definition toolCallText :: "tool_call \<Rightarrow> string" where
  "toolCallText t =
     tc_name t @ ''('' @ join '', '' (map (\<lambda>(k, v). k @ ''='' @ safeJsonStringify v) (tc_arguments t)) @ '')''"

definition assistantParts :: "content list \<Rightarrow> string list" where
  "assistantParts cs =
     (let thinking = List.map_filter (\<lambda>c. case c of ThinkingContent s _ _ \<Rightarrow> Some s | _ \<Rightarrow> None) cs;
          calls = List.map_filter (\<lambda>c. case c of ToolCallContent t \<Rightarrow> Some (toolCallText t) | _ \<Rightarrow> None) cs in
      (if thinking \<noteq> [] then [''[Assistant thinking]: '' @ join newline thinking] else [])
      @ (if (\<exists>c \<in> set cs. case c of TextContent _ _ \<Rightarrow> True | _ \<Rightarrow> False)
         then [''[Assistant]: '' @ contentText (Blocks cs) newline] else [])
      @ (if calls \<noteq> [] then [''[Assistant tool calls]: '' @ join ''; '' calls] else []))"

fun messageParts :: "agent_message \<Rightarrow> string list" where
  "messageParts (UserMessage m) =
     (let c = contentText (um_content m) [] in if c \<noteq> [] then [''[User]: '' @ c] else [])"
| "messageParts (AssistantMessage m) = assistantParts (am_content m)"
| "messageParts (ToolResultMessage m) =
     (let c = contentText (Blocks (tr_content m)) [] in
      if c \<noteq> [] then [''[Tool result]: '' @ truncateForSummary c TOOL_RESULT_MAX_CHARS] else [])"
| "messageParts _ = []"

definition serializeConversation :: "agent_message list \<Rightarrow> string" where
  "serializeConversation messages = join (newline @ newline) (concat (map messageParts messages))"

section \<open>The file lists\<close>

lemma set_set_add [simp]: "set (set_add x xs) = insert x (set xs)"
  by (auto simp: set_add_def)

lemma distinct_set_add [simp]: "distinct xs \<Longrightarrow> distinct (set_add x xs)"
  by (simp add: set_add_def)

lemma fold_set_add: "set (fold set_add xs ys) = set xs \<union> set ys" "distinct ys \<Longrightarrow> distinct (fold set_add xs ys)"
  by (induction xs arbitrary: ys) auto

definition file_ops_ok :: "file_operations \<Rightarrow> bool" where
  "file_ops_ok ops = (distinct (fo_read ops) \<and> distinct (fo_written ops) \<and> distinct (fo_edited ops))"

lemma createFileOps_ok [simp, js_wf]: "file_ops_ok createFileOps"
  by (simp add: file_ops_ok_def createFileOps_def)

lemma addFileOp_ok [js_wf]: "file_ops_ok ops \<Longrightarrow> file_ops_ok (addFileOp c ops)"
  by (auto simp: addFileOp_def file_ops_ok_def split: content.splits option.splits json.splits)

lemma extractFileOps_ok [js_wf]: "file_ops_ok ops \<Longrightarrow> file_ops_ok (extractFileOpsFromMessage m ops)"
proof -
  have "file_ops_ok ops \<Longrightarrow> file_ops_ok (fold addFileOp cs ops)" for cs
    by (induction cs arbitrary: ops) (auto intro: addFileOp_ok)
  then show "file_ops_ok ops \<Longrightarrow> file_ops_ok (extractFileOpsFromMessage m ops)"
    by (simp add: extractFileOpsFromMessage_def split: agent_message.split)
qed

lemma computeFileLists_sets:
  "set (fst (computeFileLists ops)) = set (fo_read ops) - (set (fo_edited ops) \<union> set (fo_written ops))"
  "set (snd (computeFileLists ops)) = set (fo_edited ops) \<union> set (fo_written ops)"
  by (auto simp: computeFileLists_def Let_def fold_set_add)

lemma computeFileLists_sorted:
  "file_ops_ok ops \<Longrightarrow> sorted (fst (computeFileLists ops)) \<and> distinct (fst (computeFileLists ops))"
  "sorted (snd (computeFileLists ops)) \<and> distinct (snd (computeFileLists ops))"
  by (auto simp: computeFileLists_def Let_def file_ops_ok_def fold_set_add)

text \<open>
  The fixed prompts of \<open>compaction.ts\<close> and \<open>branch-summarization.ts\<close>, line by line.
\<close>

definition SUMMARIZATION_SYSTEM_PROMPT :: string where
  "SUMMARIZATION_SYSTEM_PROMPT = join newline [
    ''You are a context summarization assistant. Your task is to read a conversation between a user and an AI assistant, then produce a structured summary following the exact format specified.'',
    '''',
    ''Do NOT continue the conversation. Do NOT respond to any questions in the conversation. ONLY output the structured summary.'']"

definition SUMMARIZATION_PROMPT :: string where
  "SUMMARIZATION_PROMPT = join newline [
    ''The messages above are a conversation to summarize. Create a structured context checkpoint summary that another LLM will use to continue the work.'',
    '''',
    ''Use this EXACT format:'',
    '''',
    ''## Goal'',
    ''[What is the user trying to accomplish? Can be multiple items if the session covers different tasks.]'',
    '''',
    ''## Constraints & Preferences'',
    ''- [Any constraints, preferences, or requirements mentioned by user]'',
    ''- [Or \"(none)\" if none were mentioned]'',
    '''',
    ''## Progress'',
    ''### Done'',
    ''- [x] [Completed tasks/changes]'',
    '''',
    ''### In Progress'',
    ''- [ ] [Current work]'',
    '''',
    ''### Blocked'',
    ''- [Issues preventing progress, if any]'',
    '''',
    ''## Key Decisions'',
    ''- **[Decision]**: [Brief rationale]'',
    '''',
    ''## Next Steps'',
    ''1. [Ordered list of what should happen next]'',
    '''',
    ''## Critical Context'',
    ''- [Any data, examples, or references needed to continue]'',
    ''- [Or \"(none)\" if not applicable]'',
    '''',
    ''Keep each section concise. Preserve exact file paths, function names, and error messages.'']"

definition UPDATE_SUMMARIZATION_PROMPT :: string where
  "UPDATE_SUMMARIZATION_PROMPT = join newline [
    ''The messages above are NEW conversation messages to incorporate into the existing summary provided in <previous-summary> tags.'',
    '''',
    ''Update the existing structured summary with new information. RULES:'',
    ''- PRESERVE all existing information from the previous summary'',
    ''- ADD new progress, decisions, and context from the new messages'',
    ''- UPDATE the Progress section: move items from \"In Progress\" to \"Done\" when completed'',
    ''- UPDATE \"Next Steps\" based on what was accomplished'',
    ''- PRESERVE exact file paths, function names, and error messages'',
    ''- If something is no longer relevant, you may remove it'',
    '''',
    ''Use this EXACT format:'',
    '''',
    ''## Goal'',
    ''[Preserve existing goals, add new ones if the task expanded]'',
    '''',
    ''## Constraints & Preferences'',
    ''- [Preserve existing, add new ones discovered]'',
    '''',
    ''## Progress'',
    ''### Done'',
    ''- [x] [Include previously done items AND newly completed items]'',
    '''',
    ''### In Progress'',
    ''- [ ] [Current work - update based on progress]'',
    '''',
    ''### Blocked'',
    ''- [Current blockers - remove if resolved]'',
    '''',
    ''## Key Decisions'',
    ''- **[Decision]**: [Brief rationale] (preserve all previous, add new)'',
    '''',
    ''## Next Steps'',
    ''1. [Update based on current state]'',
    '''',
    ''## Critical Context'',
    ''- [Preserve important context, add new if needed]'',
    '''',
    ''Keep each section concise. Preserve exact file paths, function names, and error messages.'']"

definition TURN_PREFIX_SUMMARIZATION_PROMPT :: string where
  "TURN_PREFIX_SUMMARIZATION_PROMPT = join newline [
    ''This is the PREFIX of a turn that was too large to keep. The SUFFIX (recent work) is retained.'',
    '''',
    ''Summarize the prefix to provide context for the retained suffix:'',
    '''',
    ''## Original Request'',
    ''[What did the user ask for in this turn?]'',
    '''',
    ''## Early Progress'',
    ''- [Key decisions and work done in the prefix]'',
    '''',
    ''## Context for Suffix'',
    ''- [Information needed to understand the retained recent work]'',
    '''',
    ''Be concise. Focus on what'' @ CHR 0x27 # ''s needed to understand the kept suffix.'']"

definition BRANCH_SUMMARY_PREAMBLE :: string where
  "BRANCH_SUMMARY_PREAMBLE = join newline [
    ''The user explored a different conversation branch before returning here.'',
    ''Summary of that exploration:'',
    '''',
    '''']"

definition BRANCH_SUMMARY_PROMPT :: string where
  "BRANCH_SUMMARY_PROMPT = join newline [
    ''Create a structured summary of this conversation branch for context when returning later.'',
    '''',
    ''Use this EXACT format:'',
    '''',
    ''## Goal'',
    ''[What was the user trying to accomplish in this branch?]'',
    '''',
    ''## Constraints & Preferences'',
    ''- [Any constraints, preferences, or requirements mentioned]'',
    ''- [Or \"(none)\" if none were mentioned]'',
    '''',
    ''## Progress'',
    ''### Done'',
    ''- [x] [Completed tasks/changes]'',
    '''',
    ''### In Progress'',
    ''- [ ] [Work that was started but not finished]'',
    '''',
    ''### Blocked'',
    ''- [Issues preventing progress, if any]'',
    '''',
    ''## Key Decisions'',
    ''- **[Decision]**: [Brief rationale]'',
    '''',
    ''## Next Steps'',
    ''1. [What should happen next to continue this work]'',
    '''',
    ''Keep each section concise. Preserve exact file paths, function names, and error messages.'']"

end
