(* ===== verification/Compaction.thy ===== *)
theory Compaction
  imports CompactionUtils
begin

text \<open>
  Context compaction (\<open>harness/compaction/compaction.ts\<close>): the token estimates, the choice of the cut
  point, the preparation, and the generation of the summaries. The provider call
  \<open>completeSimpleWithRetries\<close> is the argument \<open>llm\<close>, a function of the request and the state of the
  outside world. Indices are natural numbers and the index \<open>-1\<close> is \<open>None\<close>; lengths count code
  units, which are the characters of the model's texts.
\<close>

section \<open>Messages of entries\<close>

definition getMessageFromEntry :: "entry \<Rightarrow> agent_message option" where
  "getMessageFromEntry e =
     (case e_data e of
        MessageEntry m _ \<Rightarrow> Some m
      | BranchSummaryEntry b \<Rightarrow> Some (createBranchSummaryMessage (bd_summary b) (bd_fromId b) (e_timestamp e))
      | CompactionEntry c \<Rightarrow> Some (createCompactionSummaryMessage (cd_summary c) (cd_tokensBefore c) (e_timestamp e))
      | _ \<Rightarrow> None)"

definition getMessageFromEntryForCompaction :: "entry \<Rightarrow> agent_message option" where
  "getMessageFromEntryForCompaction e = (if e_type e = CompactionType then None else getMessageFromEntry e)"

text \<open>The field \<open>timestamp\<close>, which every message has.\<close>

fun message_timestamp :: "agent_message \<Rightarrow> int" where
  "message_timestamp (UserMessage m) = um_timestamp m"
| "message_timestamp (AssistantMessage m) = am_timestamp m"
| "message_timestamp (ToolResultMessage m) = tr_timestamp m"
| "message_timestamp (BashExecutionMessage m) = be_timestamp m"
| "message_timestamp (CustomMessage m) = cm_timestamp m"
| "message_timestamp (BranchSummaryMessage m) = bs_timestamp m"
| "message_timestamp (CompactionSummaryMessage m) = cs_timestamp m"
| "message_timestamp (ExtensionMessage _ t _) = t"

section \<open>Usage\<close>

definition opt_sum :: "int option \<Rightarrow> int option \<Rightarrow> int option" where
  "opt_sum a b = (if a \<noteq> None \<or> b \<noteq> None
     then Some ((case a of None \<Rightarrow> 0 | Some n \<Rightarrow> n) + (case b of None \<Rightarrow> 0 | Some n \<Rightarrow> n)) else None)"

definition combineUsage :: "usage \<Rightarrow> usage \<Rightarrow> usage" where
  "combineUsage a b = \<lparr>
     u_input = u_input a + u_input b, u_output = u_output a + u_output b,
     u_cacheRead = u_cacheRead a + u_cacheRead b, u_cacheWrite = u_cacheWrite a + u_cacheWrite b,
     u_cacheWrite1h = opt_sum (u_cacheWrite1h a) (u_cacheWrite1h b),
     u_reasoning = opt_sum (u_reasoning a) (u_reasoning b),
     u_totalTokens = u_totalTokens a + u_totalTokens b,
     u_cost = \<lparr>
       cost_input = num_add (cost_input (u_cost a)) (cost_input (u_cost b)),
       cost_output = num_add (cost_output (u_cost a)) (cost_output (u_cost b)),
       cost_cacheRead = num_add (cost_cacheRead (u_cost a)) (cost_cacheRead (u_cost b)),
       cost_cacheWrite = num_add (cost_cacheWrite (u_cost a)) (cost_cacheWrite (u_cost b)),
       cost_total = num_add (cost_total (u_cost a)) (cost_total (u_cost b))\<rparr>\<rparr>"

record compaction_settings =
  st_enabled :: bool
  st_reserveTokens :: int
  st_keepRecentTokens :: int

definition DEFAULT_COMPACTION_SETTINGS :: compaction_settings where
  "DEFAULT_COMPACTION_SETTINGS = \<lparr>st_enabled = True, st_reserveTokens = 16384, st_keepRecentTokens = 20000\<rparr>"

definition calculateContextTokens :: "usage \<Rightarrow> int" where
  "calculateContextTokens u =
     (if u_totalTokens u \<noteq> 0 then u_totalTokens u
      else u_input u + u_output u + u_cacheRead u + u_cacheWrite u)"

definition getAssistantUsage :: "agent_message \<Rightarrow> usage option" where
  "getAssistantUsage m =
     (case m of
        AssistantMessage a \<Rightarrow>
          if am_stopReason a \<noteq> AbortedStop \<and> am_stopReason a \<noteq> ErrorStop \<and> calculateContextTokens (am_usage a) > 0
          then Some (am_usage a) else None
      | _ \<Rightarrow> None)"

text \<open>The backward loops: the entries or messages are visited from the last one.\<close>

fun usage_from :: "entry list \<Rightarrow> usage option" where
  "usage_from [] = None"
| "usage_from (e # es) =
     (case e_data e of
        MessageEntry m _ \<Rightarrow> (case getAssistantUsage m of Some u \<Rightarrow> Some u | None \<Rightarrow> usage_from es)
      | _ \<Rightarrow> usage_from es)"

definition getLastAssistantUsage :: "entry list \<Rightarrow> usage option" where
  "getLastAssistantUsage es = usage_from (rev es)"

fun usage_info :: "agent_message list \<Rightarrow> nat \<Rightarrow> (usage \<times> nat) option" where
  "usage_info ms 0 = None"
| "usage_info ms (Suc i) =
     (case getAssistantUsage (ms ! i) of Some u \<Rightarrow> Some (u, i) | None \<Rightarrow> usage_info ms i)"

definition getLastAssistantUsageInfo :: "agent_message list \<Rightarrow> (usage \<times> nat) option" where
  "getLastAssistantUsageInfo ms = usage_info ms (length ms)"

definition shouldCompact :: "int \<Rightarrow> int \<Rightarrow> compaction_settings \<Rightarrow> bool" where
  "shouldCompact contextTokens contextWindow settings =
     (if \<not> st_enabled settings then False else contextTokens > contextWindow - st_reserveTokens settings)"

section \<open>Token estimates\<close>

definition ESTIMATED_IMAGE_CHARS :: nat where
  "ESTIMATED_IMAGE_CHARS = 4800"

definition estimateTextAndImageContentChars :: "body \<Rightarrow> nat" where
  "estimateTextAndImageContentChars b =
     (case b of
        TextBody s \<Rightarrow> length s
      | Blocks cs \<Rightarrow> sum_list (map (\<lambda>c. case c of TextContent s _ \<Rightarrow> length s
          | ImageContent _ _ \<Rightarrow> ESTIMATED_IMAGE_CHARS | _ \<Rightarrow> 0) cs))"

definition assistantChars :: "content list \<Rightarrow> nat" where
  "assistantChars cs = sum_list (map (\<lambda>c. case c of
       TextContent s _ \<Rightarrow> length s
     | ThinkingContent s _ _ \<Rightarrow> length s
     | ToolCallContent t \<Rightarrow> length (tc_name t) + length (safeJsonStringify (JsonObject (tc_arguments t)))
     | _ \<Rightarrow> 0) cs)"

text \<open>\<open>Math.ceil(chars / 4)\<close>.\<close>

definition ceil4 :: "nat \<Rightarrow> nat" where
  "ceil4 chars = (chars + 3) div 4"

fun estimateTokens :: "agent_message \<Rightarrow> nat" where
  "estimateTokens (UserMessage m) = ceil4 (estimateTextAndImageContentChars (um_content m))"
| "estimateTokens (AssistantMessage m) = ceil4 (assistantChars (am_content m))"
| "estimateTokens (CustomMessage m) = ceil4 (estimateTextAndImageContentChars (cm_content m))"
| "estimateTokens (ToolResultMessage m) = ceil4 (estimateTextAndImageContentChars (Blocks (tr_content m)))"
| "estimateTokens (BashExecutionMessage m) = ceil4 (length (be_command m) + length (be_output m))"
| "estimateTokens (BranchSummaryMessage m) = ceil4 (length (bs_summary m))"
| "estimateTokens (CompactionSummaryMessage m) = ceil4 (length (cs_summary m))"
| "estimateTokens (ExtensionMessage _ _ _) = 0"

record context_usage =
  eu_tokens :: int
  eu_usageTokens :: int
  eu_trailingTokens :: int
  eu_lastUsageIndex :: "nat option"

definition estimateContextTokens :: "agent_message list \<Rightarrow> context_usage" where
  "estimateContextTokens ms =
     (case getLastAssistantUsageInfo ms of
        None \<Rightarrow>
          (let estimated = int (sum_list (map estimateTokens ms)) in
           \<lparr>eu_tokens = estimated, eu_usageTokens = 0, eu_trailingTokens = estimated, eu_lastUsageIndex = None\<rparr>)
      | Some (u, i) \<Rightarrow>
          (let usageTokens = calculateContextTokens u;
               trailing = int (sum_list (map estimateTokens (drop (i + 1) ms))) in
           \<lparr>eu_tokens = usageTokens + trailing, eu_usageTokens = usageTokens, eu_trailingTokens = trailing,
            eu_lastUsageIndex = Some i\<rparr>))"

section \<open>The cut point\<close>

definition is_cut_point :: "entry \<Rightarrow> bool" where
  "is_cut_point e =
     (case e_data e of
        MessageEntry m _ \<Rightarrow> role m \<in> {BashExecutionRole, CustomRole, BranchSummaryRole, CompactionSummaryRole,
          UserRole, AssistantRole}
      | BranchSummaryEntry _ \<Rightarrow> True
      | _ \<Rightarrow> False)"

definition findValidCutPoints :: "entry list \<Rightarrow> nat \<Rightarrow> nat \<Rightarrow> nat list" where
  "findValidCutPoints es startIndex endIndex = filter (\<lambda>i. is_cut_point (es ! i)) [startIndex ..< endIndex]"

definition starts_turn :: "entry \<Rightarrow> bool" where
  "starts_turn e =
     (case e_data e of
        BranchSummaryEntry _ \<Rightarrow> True
      | MessageEntry m _ \<Rightarrow> role m = UserRole \<or> role m = BashExecutionRole
      | _ \<Rightarrow> False)"

text \<open>The loops count down; their argument is the index plus one.\<close>

fun scanTurnStart :: "entry list \<Rightarrow> nat \<Rightarrow> nat \<Rightarrow> nat option" where
  "scanTurnStart es startIndex 0 = None"
| "scanTurnStart es startIndex (Suc i) =
     (if i < startIndex then None else if starts_turn (es ! i) then Some i else scanTurnStart es startIndex i)"

definition findTurnStartIndex :: "entry list \<Rightarrow> nat \<Rightarrow> nat \<Rightarrow> nat option" where
  "findTurnStartIndex es entryIndex startIndex = scanTurnStart es startIndex (Suc entryIndex)"

record cut_point_result =
  cp_firstKeptEntryIndex :: nat
  cp_turnStartIndex :: "nat option"
  cp_isSplitTurn :: bool

text \<open>The index at which the budget is first reached, going back from the end.\<close>

fun budgetIndex :: "entry list \<Rightarrow> nat \<Rightarrow> int \<Rightarrow> nat \<Rightarrow> int \<Rightarrow> nat option" where
  "budgetIndex es startIndex keepRecentTokens 0 accumulated = None"
| "budgetIndex es startIndex keepRecentTokens (Suc i) accumulated =
     (if i < startIndex then None
      else case e_data (es ! i) of
        MessageEntry m _ \<Rightarrow>
          (let accumulated' = accumulated + int (estimateTokens m) in
           if accumulated' \<ge> keepRecentTokens then Some i
           else budgetIndex es startIndex keepRecentTokens i accumulated')
      | _ \<Rightarrow> budgetIndex es startIndex keepRecentTokens i accumulated)"

text \<open>The loop that takes in the entries before the cut that are neither messages nor compactions.\<close>

fun widenCut :: "entry list \<Rightarrow> nat \<Rightarrow> nat \<Rightarrow> nat" where
  "widenCut es startIndex 0 = 0"
| "widenCut es startIndex (Suc i) =
     (if Suc i \<le> startIndex then Suc i
      else if e_type (es ! i) = CompactionType \<or> e_type (es ! i) = MessageType then Suc i
      else widenCut es startIndex i)"

definition chooseCut :: "entry list \<Rightarrow> nat \<Rightarrow> nat \<Rightarrow> int \<Rightarrow> nat list \<Rightarrow> nat" where
  "chooseCut es startIndex endIndex keepRecentTokens cutPoints =
     (case budgetIndex es startIndex keepRecentTokens endIndex 0 of
        None \<Rightarrow> hd cutPoints
      | Some i \<Rightarrow> (case find (\<lambda>c. c \<ge> i) cutPoints of Some c \<Rightarrow> c | None \<Rightarrow> hd cutPoints))"

definition findCutPoint :: "entry list \<Rightarrow> nat \<Rightarrow> nat \<Rightarrow> int \<Rightarrow> cut_point_result" where
  "findCutPoint es startIndex endIndex keepRecentTokens =
     (let cutPoints = findValidCutPoints es startIndex endIndex in
      if cutPoints = [] then \<lparr>cp_firstKeptEntryIndex = startIndex, cp_turnStartIndex = None, cp_isSplitTurn = False\<rparr>
      else let
        cutIndex = widenCut es startIndex (chooseCut es startIndex endIndex keepRecentTokens cutPoints);
        isUserMessage = (case e_data (es ! cutIndex) of MessageEntry m _ \<Rightarrow> role m = UserRole | _ \<Rightarrow> False);
        turnStartIndex = (if isUserMessage then None else findTurnStartIndex es cutIndex startIndex) in
        \<lparr>cp_firstKeptEntryIndex = cutIndex, cp_turnStartIndex = turnStartIndex,
         cp_isSplitTurn = (\<not> isUserMessage \<and> turnStartIndex \<noteq> None)\<rparr>)"

section \<open>\<open>prepareCompaction\<close>\<close>

text \<open>The strings of a JSON array; the type of the details admits nothing else.\<close>

definition json_strings :: "json option \<Rightarrow> string list" where
  "json_strings v =
     (case v of Some (JsonArray vs) \<Rightarrow> List.map_filter (\<lambda>v. case v of JsonString s \<Rightarrow> Some s | _ \<Rightarrow> None) vs | _ \<Rightarrow> [])"

definition addDetails :: "json option \<Rightarrow> file_operations \<Rightarrow> file_operations" where
  "addDetails details ops =
     (case details of
        Some (JsonObject kvs) \<Rightarrow>
          ops\<lparr>fo_read := fold set_add (json_strings (map_of kvs ''readFiles'')) (fo_read ops),
              fo_edited := fold set_add (json_strings (map_of kvs ''modifiedFiles'')) (fo_edited ops)\<rparr>
      | _ \<Rightarrow> ops)"

definition compaction_of :: "entry \<Rightarrow> compaction_data option" where
  "compaction_of e = (case e_data e of CompactionEntry c \<Rightarrow> Some c | _ \<Rightarrow> None)"

definition extractFileOperations :: "agent_message list \<Rightarrow> entry list \<Rightarrow> nat option \<Rightarrow> file_operations" where
  "extractFileOperations messages es prevCompactionIndex =
     (let ops = (case Option.bind prevCompactionIndex (\<lambda>i. compaction_of (es ! i)) of
          None \<Rightarrow> createFileOps
        | Some c \<Rightarrow> addDetails (cd_details c) createFileOps) in
      fold extractFileOpsFromMessage messages ops)"

record compaction_preparation =
  prep_messagesToSummarize :: "agent_message list"
  prep_turnPrefixMessages :: "agent_message list"
  prep_retainedTail :: "agent_message list"
  prep_isSplitTurn :: bool
  prep_tokensBefore :: int
  prep_previousSummary :: "string option"
  prep_fileOps :: file_operations
  prep_settings :: compaction_settings

definition retained_id :: "string \<Rightarrow> nat \<Rightarrow> string" where
  "retained_id i n = i @ '':retained:'' @ show_nat n"

definition virtualRetainedEntries :: "entry \<Rightarrow> agent_message list \<Rightarrow> entry list" where
  "virtualRetainedEntries prev tail =
     map (\<lambda>(n, m). \<lparr>e_id = retained_id (e_id prev) n, e_seq = e_seq prev,
         e_parentId = Some (if n = 0 then e_id prev else retained_id (e_id prev) (n - 1)),
         e_timestamp = message_timestamp m, e_data = MessageEntry m False\<rparr>) (enumerate 0 tail)"

text \<open>The entries a compaction may cut: those since the previous one, after its retained tail.\<close>

definition compactableEntries :: "entry list \<Rightarrow> entry list" where
  "compactableEntries path =
     (case newestCompaction path (length path) of
        None \<Rightarrow> path
      | Some i \<Rightarrow> virtualRetainedEntries (path ! i) (cd_retainedTail (the (compaction_of (path ! i)))) @ drop (i + 1) path)"

definition messagesOf :: "entry list \<Rightarrow> agent_message list" where
  "messagesOf es = List.map_filter getMessageFromEntryForCompaction es"

definition slice_of :: "nat \<Rightarrow> nat \<Rightarrow> 'a list \<Rightarrow> 'a list" where
  "slice_of i j xs = take (j - i) (drop i xs)"

definition prepareCompaction :: "entry list \<Rightarrow> compaction_settings \<Rightarrow> compaction_preparation option" where
  "prepareCompaction path settings =
     (if path = [] \<or> e_type (last path) = CompactionType then None
      else let
        prev = newestCompaction path (length path);
        es = compactableEntries path;
        boundaryEnd = length es;
        tokensBefore = eu_tokens (estimateContextTokens (snd (buildSessionContext [] (\<lambda>_. None) path)));
        cut = findCutPoint es 0 boundaryEnd (st_keepRecentTokens settings);
        firstKept = cp_firstKeptEntryIndex cut;
        historyEnd = (if cp_isSplitTurn cut then the (cp_turnStartIndex cut) else firstKept);
        toSummarize = messagesOf (slice_of 0 historyEnd es);
        turnPrefix = (if cp_isSplitTurn cut then messagesOf (slice_of (the (cp_turnStartIndex cut)) firstKept es) else []);
        ops = extractFileOperations toSummarize path prev in
        Some \<lparr>prep_messagesToSummarize = toSummarize, prep_turnPrefixMessages = turnPrefix,
          prep_retainedTail = messagesOf (slice_of firstKept boundaryEnd es),
          prep_isSplitTurn = cp_isSplitTurn cut, prep_tokensBefore = tokensBefore,
          prep_previousSummary = map_option cd_summary (Option.bind prev (\<lambda>i. compaction_of (path ! i))),
          prep_fileOps = (if cp_isSplitTurn cut then fold extractFileOpsFromMessage turnPrefix ops else ops),
          prep_settings = settings\<rparr>)"

end
