(* ===== verification/CompactionRun.thy ===== *)
theory CompactionRun
  imports Compaction SessionMemory
begin

text \<open>
  The summarization runs: \<open>generateSummaryWithUsage\<close>, \<open>generateTurnPrefixSummary\<close> and \<open>compact\<close> of
  \<open>compaction.ts\<close>, and the branch summaries of \<open>branch-summarization.ts\<close>. A provider call, its retries
  included, is the argument \<open>llm\<close>: it maps a request and the state of the outside world to the
  assistant message that ended the call and the new state. The requests carry what the code puts
  into them, without the abort signal and the clock.
\<close>

record summary_model =
  md_maxTokens :: int
  md_contextWindow :: int
  md_reasoning :: bool

record summary_request =
  rq_systemPrompt :: string
  rq_prompt :: string
  rq_maxTokens :: int
  rq_reasoning :: "string option"

type_synonym 'w llm = "summary_request \<Rightarrow> 'w \<Rightarrow> assistant_message \<times> 'w"

datatype summary_error = SummaryAborted string | SummarizationFailed string

record summary_options =
  so_customInstructions :: "string option"
  so_thinkingLevel :: "string option"

definition opt_text :: "string option \<Rightarrow> string" where
  "opt_text s = (case s of None \<Rightarrow> [] | Some t \<Rightarrow> t)"

text \<open>\<open>text || fallback\<close> on an optional string.\<close>

definition or_text :: "string option \<Rightarrow> string \<Rightarrow> string" where
  "or_text s fallback = (if opt_text s = [] then fallback else opt_text s)"

text \<open>\<open>Math.floor(0.8 * reserveTokens)\<close> and \<open>Math.floor(0.5 * reserveTokens)\<close>, bounded by the model's limit.\<close>

definition summaryTokens :: "int \<Rightarrow> int \<Rightarrow> summary_model \<Rightarrow> int" where
  "summaryTokens tenths reserveTokens model =
     (let n = tenths * reserveTokens div 10 in if md_maxTokens model > 0 then min n (md_maxTokens model) else n)"

definition reasoningFor :: "summary_model \<Rightarrow> string option \<Rightarrow> string option" where
  "reasoningFor model level =
     (if md_reasoning model \<and> opt_text level \<noteq> [] \<and> opt_text level \<noteq> ''off'' then level else None)"

definition conversationPrompt :: "string \<Rightarrow> string" where
  "conversationPrompt text = ''<conversation>'' @ newline @ text @ newline @ ''</conversation>'' @ newline @ newline"

definition summaryResult :: "string \<Rightarrow> string \<Rightarrow> assistant_message \<Rightarrow> summary_error + string \<times> usage" where
  "summaryResult aborted failed response =
     (if am_stopReason response = AbortedStop then Inl (SummaryAborted (or_text (am_errorMessage response) aborted))
      else if am_stopReason response = ErrorStop
      then Inl (SummarizationFailed (failed @ or_text (am_errorMessage response) ''Unknown error''))
      else Inr (contentText (Blocks (am_content response)) newline, am_usage response))"

definition summaryRequest :: "agent_message list \<Rightarrow> summary_model \<Rightarrow> int \<Rightarrow> string option \<Rightarrow> summary_options \<Rightarrow> summary_request" where
  "summaryRequest messages model reserveTokens previousSummary opts =
     (let base = (if opt_text previousSummary \<noteq> [] then UPDATE_SUMMARIZATION_PROMPT else SUMMARIZATION_PROMPT);
          prompt = (if opt_text (so_customInstructions opts) \<noteq> []
            then base @ newline @ newline @ ''Additional focus: '' @ opt_text (so_customInstructions opts) else base) in
      \<lparr>rq_systemPrompt = SUMMARIZATION_SYSTEM_PROMPT,
       rq_prompt = conversationPrompt (serializeConversation (convertToLlm messages))
         @ (if opt_text previousSummary \<noteq> []
            then ''<previous-summary>'' @ newline @ opt_text previousSummary @ newline @ ''</previous-summary>''
              @ newline @ newline else [])
         @ prompt,
       rq_maxTokens = summaryTokens 8 reserveTokens model,
       rq_reasoning = reasoningFor model (so_thinkingLevel opts)\<rparr>)"

definition generateSummaryWithUsage :: "'w llm \<Rightarrow> agent_message list \<Rightarrow> summary_model \<Rightarrow> int \<Rightarrow> string option
    \<Rightarrow> summary_options \<Rightarrow> 'w \<Rightarrow> (summary_error + string \<times> usage) \<times> 'w" where
  "generateSummaryWithUsage llm messages model reserveTokens previousSummary opts w =
     (let (response, w') = llm (summaryRequest messages model reserveTokens previousSummary opts) w in
      (summaryResult ''Summarization aborted'' ''Summarization failed: '' response, w'))"

definition generateSummary :: "'w llm \<Rightarrow> agent_message list \<Rightarrow> summary_model \<Rightarrow> int \<Rightarrow> string option
    \<Rightarrow> summary_options \<Rightarrow> 'w \<Rightarrow> (summary_error + string) \<times> 'w" where
  "generateSummary llm messages model reserveTokens previousSummary opts w =
     (let (result, w') = generateSummaryWithUsage llm messages model reserveTokens previousSummary opts w in
      (rbind result (\<lambda>(text, u). Inr text), w'))"

definition generateTurnPrefixSummary :: "'w llm \<Rightarrow> agent_message list \<Rightarrow> summary_model \<Rightarrow> int
    \<Rightarrow> summary_options \<Rightarrow> 'w \<Rightarrow> (summary_error + string \<times> usage) \<times> 'w" where
  "generateTurnPrefixSummary llm messages model reserveTokens opts w =
     (let (response, w') = llm \<lparr>rq_systemPrompt = SUMMARIZATION_SYSTEM_PROMPT,
            rq_prompt = conversationPrompt (serializeConversation (convertToLlm messages)) @ TURN_PREFIX_SUMMARIZATION_PROMPT,
            rq_maxTokens = summaryTokens 5 reserveTokens model,
            rq_reasoning = reasoningFor model (so_thinkingLevel opts)\<rparr> w in
      (summaryResult ''Turn prefix summarization aborted'' ''Turn prefix summarization failed: '' response, w'))"

section \<open>\<open>compact\<close>\<close>

record compact_result =
  cr_summary :: string
  cr_tokensBefore :: int
  cr_usage :: usage
  cr_retainedTail :: "agent_message list"
  cr_readFiles :: "string list"
  cr_modifiedFiles :: "string list"

definition splitSummary :: "string \<Rightarrow> string \<Rightarrow> string" where
  "splitSummary history prefix =
     history @ newline @ newline @ ''---'' @ newline @ newline @ ''**Turn Context (split turn):**'' @ newline @ newline @ prefix"

text \<open>The summary and its usage: one call, or one for the history and one for the split turn.\<close>

definition compactSummary :: "'w llm \<Rightarrow> compaction_preparation \<Rightarrow> summary_model \<Rightarrow> summary_options \<Rightarrow> 'w
    \<Rightarrow> (summary_error + string \<times> usage) \<times> 'w" where
  "compactSummary llm prep model opts w =
     (let reserve = st_reserveTokens (prep_settings prep);
          history = (\<lambda>w. generateSummaryWithUsage llm (prep_messagesToSummarize prep) model reserve
            (prep_previousSummary prep) opts w);
          prefix = (\<lambda>w. generateTurnPrefixSummary llm (prep_turnPrefixMessages prep) model reserve opts w) in
      if prep_isSplitTurn prep \<and> prep_turnPrefixMessages prep \<noteq> [] then
        if prep_messagesToSummarize prep \<noteq> [] then
          (case history w of
             (Inl e, w') \<Rightarrow> (Inl e, w')
           | (Inr (historyText, historyUsage), w') \<Rightarrow>
               (case prefix w' of
                  (Inl e, w'') \<Rightarrow> (Inl e, w'')
                | (Inr (text, u), w'') \<Rightarrow> (Inr (splitSummary historyText text, combineUsage historyUsage u), w'')))
        else
          (case prefix w of
             (Inl e, w') \<Rightarrow> (Inl e, w')
           | (Inr (text, u), w') \<Rightarrow> (Inr (splitSummary ''No prior history.'' text, u), w'))
      else history w)"

definition compact :: "'w llm \<Rightarrow> compaction_preparation \<Rightarrow> summary_model \<Rightarrow> summary_options \<Rightarrow> 'w
    \<Rightarrow> (summary_error + compact_result) \<times> 'w" where
  "compact llm prep model opts w =
     (let (result, w') = compactSummary llm prep model opts w in
      (rbind result (\<lambda>(summary, u).
        let (readFiles, modifiedFiles) = computeFileLists (prep_fileOps prep) in
        Inr \<lparr>cr_summary = summary @ formatFileOperations readFiles modifiedFiles, cr_tokensBefore = prep_tokensBefore prep,
          cr_usage = u, cr_retainedTail = prep_retainedTail prep, cr_readFiles = readFiles,
          cr_modifiedFiles = modifiedFiles\<rparr>), w'))"

section \<open>Branch summaries\<close>

record branch_preparation =
  bp_messages :: "agent_message list"
  bp_fileOps :: file_operations
  bp_totalTokens :: int

text \<open>\<open>getMessageFromEntry\<close> of \<open>branch-summarization.ts\<close>.\<close>

definition getBranchMessage :: "entry \<Rightarrow> agent_message option" where
  "getBranchMessage e =
     (case e_data e of
        MessageEntry (ToolResultMessage _) _ \<Rightarrow> None
      | _ \<Rightarrow> getMessageFromEntry e)"

definition branchDetails :: "entry \<Rightarrow> file_operations \<Rightarrow> file_operations" where
  "branchDetails e ops = (case e_data e of BranchSummaryEntry b \<Rightarrow> addDetails (bd_details b) ops | _ \<Rightarrow> ops)"

text \<open>The loop over the entries from the newest one; \<open>0.9\<close> of the budget is compared in tenths.\<close>

fun prepareBranchLoop :: "int \<Rightarrow> entry list \<Rightarrow> branch_preparation \<Rightarrow> branch_preparation" where
  "prepareBranchLoop budget [] acc = acc"
| "prepareBranchLoop budget (e # es) acc =
     (case getBranchMessage e of
        None \<Rightarrow> prepareBranchLoop budget es acc
      | Some m \<Rightarrow>
          (let acc = acc\<lparr>bp_fileOps := extractFileOpsFromMessage m (bp_fileOps acc)\<rparr>;
               tokens = int (estimateTokens m);
               added = acc\<lparr>bp_messages := m # bp_messages acc, bp_totalTokens := bp_totalTokens acc + tokens\<rparr> in
           if budget > 0 \<and> bp_totalTokens acc + tokens > budget then
             (if (e_type e = CompactionType \<or> e_type e = BranchSummaryType) \<and> 10 * bp_totalTokens acc < 9 * budget
              then added else acc)
           else prepareBranchLoop budget es added))"

definition prepareBranchEntries :: "entry list \<Rightarrow> int \<Rightarrow> branch_preparation" where
  "prepareBranchEntries es tokenBudget =
     prepareBranchLoop tokenBudget (rev es)
       \<lparr>bp_messages = [], bp_fileOps = fold branchDetails es createFileOps, bp_totalTokens = 0\<rparr>"

record branch_options =
  bo_customInstructions :: "string option"
  bo_replaceInstructions :: bool
  bo_reserveTokens :: "int option"

record branch_result =
  br_summary :: string
  br_usage :: "usage option"
  br_readFiles :: "string list"
  br_modifiedFiles :: "string list"

definition branchInstructions :: "branch_options \<Rightarrow> string" where
  "branchInstructions opts =
     (let custom = opt_text (bo_customInstructions opts) in
      if bo_replaceInstructions opts \<and> custom \<noteq> [] then custom
      else if custom \<noteq> [] then BRANCH_SUMMARY_PROMPT @ newline @ newline @ ''Additional focus: '' @ custom
      else BRANCH_SUMMARY_PROMPT)"

definition generateBranchSummary :: "'w llm \<Rightarrow> entry list \<Rightarrow> summary_model \<Rightarrow> branch_options \<Rightarrow> 'w
    \<Rightarrow> (summary_error + branch_result) \<times> 'w" where
  "generateBranchSummary llm es model opts w =
     (let contextWindow = (if md_contextWindow model \<noteq> 0 then md_contextWindow model else 128000);
          reserve = (case bo_reserveTokens opts of None \<Rightarrow> 16384 | Some n \<Rightarrow> n);
          prep = prepareBranchEntries es (contextWindow - reserve) in
      if bp_messages prep = [] then
        (Inr \<lparr>br_summary = ''No content to summarize'', br_usage = None, br_readFiles = [], br_modifiedFiles = []\<rparr>, w)
      else let
        (response, w') = llm \<lparr>rq_systemPrompt = SUMMARIZATION_SYSTEM_PROMPT,
          rq_prompt = conversationPrompt (serializeConversation (convertToLlm (bp_messages prep))) @ branchInstructions opts,
          rq_maxTokens = 2048, rq_reasoning = None\<rparr> w in
        (rbind (summaryResult ''Branch summary aborted'' ''Branch summary failed: '' response) (\<lambda>(text, u).
          let (readFiles, modifiedFiles) = computeFileLists (bp_fileOps prep);
              summary = BRANCH_SUMMARY_PREAMBLE @ text @ formatFileOperations readFiles modifiedFiles in
          Inr \<lparr>br_summary = (if summary = [] then ''No summary generated'' else summary), br_usage = Some u,
            br_readFiles = readFiles, br_modifiedFiles = modifiedFiles\<rparr>), w'))"

end
