(* ===== verification/CompactionProps.thy ===== *)
theory CompactionProps
  imports CompactionRun
begin

text \<open>
  What a compaction keeps: the partition of the history, the message the retained tail begins with,
  the token budget, the files reported, and the agreement with the context the provider saw.
\<close>

section \<open>The cut\<close>

lemma widenCut_le: "widenCut es s n \<le> n"
  by (induction n) auto

lemma widenCut_between:
  "widenCut es s n \<le> j \<Longrightarrow> j < n \<Longrightarrow> e_type (es ! j) \<noteq> CompactionType \<and> e_type (es ! j) \<noteq> MessageType"
  by (induction n) (auto simp: less_Suc_eq split: if_splits)

lemma scanTurnStart_Some:
  "scanTurnStart es s n = Some i \<Longrightarrow> i < n \<and> s \<le> i \<and> starts_turn (es ! i)"
  by (induction n) (auto split: if_splits)

lemma starts_turn_cut: "starts_turn e \<Longrightarrow> is_cut_point e"
  by (auto simp: starts_turn_def is_cut_point_def split: entry_data.splits)

lemma chooseCut_in:
  assumes "cutPoints \<noteq> []"
  shows "chooseCut es s n keep cutPoints \<in> set cutPoints"
  using assms by (auto simp: chooseCut_def find_Some_iff split: option.split)

text \<open>The cut of a whole list: the cut point chosen, and the entries taken in before it.\<close>

lemma findCutPoint_cases:
  assumes "findCutPoint es 0 (length es) keep = cp"
  obtains (none) "findValidCutPoints es 0 (length es) = []" "cp_firstKeptEntryIndex cp = 0" "\<not> cp_isSplitTurn cp"
  | (some) c where "c = chooseCut es 0 (length es) keep (findValidCutPoints es 0 (length es))"
      "c \<in> set (findValidCutPoints es 0 (length es))"
      "c < length es" "is_cut_point (es ! c)" "cp_firstKeptEntryIndex cp = widenCut es 0 c"
      "cp_isSplitTurn cp \<longrightarrow> (\<exists>t \<le> widenCut es 0 c. cp_turnStartIndex cp = Some t \<and> starts_turn (es ! t))"
proof (cases "findValidCutPoints es 0 (length es) = []")
  case True
  with assms none show ?thesis by (auto simp: findCutPoint_def)
next
  case False
  let ?c = "chooseCut es 0 (length es) keep (findValidCutPoints es 0 (length es))"
  have in_set: "?c \<in> set (findValidCutPoints es 0 (length es))" by (rule chooseCut_in [OF False])
  then have c: "?c < length es" "is_cut_point (es ! ?c)" by (auto simp: findValidCutPoints_def)
  let ?w = "widenCut es 0 ?c"
  let ?user = "case e_data (es ! ?w) of MessageEntry m _ \<Rightarrow> role m = UserRole | _ \<Rightarrow> False"
  let ?turn = "if ?user then None else findTurnStartIndex es ?w 0"
  have cp: "cp = \<lparr>cp_firstKeptEntryIndex = ?w, cp_turnStartIndex = ?turn, cp_isSplitTurn = (\<not> ?user \<and> ?turn \<noteq> None)\<rparr>"
    using assms False by (simp only: findCutPoint_def Let_def if_False)
  have turn: "t \<le> ?w \<and> starts_turn (es ! t)" if "?turn = Some t" for t
  proof -
    from that have "findTurnStartIndex es ?w 0 = Some t" by (meson option.distinct(1))
    then show ?thesis using scanTurnStart_Some [of es 0 "Suc ?w" t] by (simp add: findTurnStartIndex_def)
  qed
  show ?thesis
  proof (rule some [OF refl in_set c])
    show "cp_firstKeptEntryIndex cp = ?w" by (simp only: cp cut_point_result.simps)
    show "cp_isSplitTurn cp \<longrightarrow> (\<exists>t \<le> ?w. cp_turnStartIndex cp = Some t \<and> starts_turn (es ! t))"
      unfolding cp cut_point_result.simps using turn by (metis not_Some_eq)
  qed
qed

lemma cut_bounds:
  assumes "findCutPoint es 0 (length es) keep = cp"
  shows "cp_firstKeptEntryIndex cp \<le> length es"
    and "cp_isSplitTurn cp \<Longrightarrow> the (cp_turnStartIndex cp) \<le> cp_firstKeptEntryIndex cp"
proof -
  show "cp_firstKeptEntryIndex cp \<le> length es"
    using assms by (cases rule: findCutPoint_cases) (auto intro: order.trans [OF widenCut_le])
  show "the (cp_turnStartIndex cp) \<le> cp_firstKeptEntryIndex cp" if "cp_isSplitTurn cp"
    using assms that by (cases rule: findCutPoint_cases) auto
qed

section \<open>The parts\<close>

lemma map_filter_append: "List.map_filter f (xs @ ys) = List.map_filter f xs @ List.map_filter f ys"
  by (simp add: List.map_filter_def)

lemma messagesOf_append [simp]: "messagesOf (xs @ ys) = messagesOf xs @ messagesOf ys"
  by (simp add: messagesOf_def map_filter_append)

lemma slice_of_append: "i \<le> j \<Longrightarrow> j \<le> k \<Longrightarrow> slice_of i j xs @ slice_of j k xs = slice_of i k xs"
proof -
  assume a: "i \<le> j" "j \<le> k"
  have "take (k - i) (drop i xs) = take (j - i) (drop i xs) @ take (k - j) (drop (j - i) (drop i xs))"
    using a take_add [of "j - i" "k - j" "drop i xs"] by simp
  with a show ?thesis by (simp add: slice_of_def)
qed

lemma slice_of_all [simp]: "slice_of 0 (length xs) xs = xs" "slice_of j (length xs) xs = drop j xs" "slice_of i i xs = []"
  by (simp_all add: slice_of_def)

lemma set_slice_of: "x \<in> set (slice_of i j xs) \<longleftrightarrow> (\<exists>k. i \<le> k \<and> k < j \<and> k < length xs \<and> x = xs ! k)"
proof
  assume "x \<in> set (slice_of i j xs)"
  then obtain n where "n < j - i" "n < length xs - i" "x = drop i xs ! n"
    by (auto simp: slice_of_def in_set_conv_nth)
  then show "\<exists>k. i \<le> k \<and> k < j \<and> k < length xs \<and> x = xs ! k" by (intro exI [of _ "i + n"]) auto
next
  assume "\<exists>k. i \<le> k \<and> k < j \<and> k < length xs \<and> x = xs ! k"
  then obtain k where "i \<le> k" "k < j" "k < length xs" "x = xs ! k" by blast
  then show "x \<in> set (slice_of i j xs)"
    by (auto simp: slice_of_def in_set_conv_nth intro!: exI [of _ "k - i"])
qed

text \<open>\<open>prepareCompaction\<close>, with its local variables named.\<close>

lemma prepareCompaction_Some:
  assumes "prepareCompaction path settings = Some prep"
  obtains es cp where "es = compactableEntries path"
    "findCutPoint es 0 (length es) (st_keepRecentTokens settings) = cp"
    "prep_isSplitTurn prep = cp_isSplitTurn cp"
    "prep_messagesToSummarize prep =
       messagesOf (slice_of 0 (if cp_isSplitTurn cp then the (cp_turnStartIndex cp) else cp_firstKeptEntryIndex cp) es)"
    "prep_turnPrefixMessages prep =
       (if cp_isSplitTurn cp then messagesOf (slice_of (the (cp_turnStartIndex cp)) (cp_firstKeptEntryIndex cp) es) else [])"
    "prep_retainedTail prep = messagesOf (drop (cp_firstKeptEntryIndex cp) es)"
  using assms by (auto simp: prepareCompaction_def Let_def split: if_splits)

lemma parts_partition:
  assumes "prepareCompaction path settings = Some prep"
  shows "prep_messagesToSummarize prep @ prep_turnPrefixMessages prep @ prep_retainedTail prep
    = messagesOf (compactableEntries path)"
proof -
  from assms obtain es cp where es: "es = compactableEntries path"
    and cp: "findCutPoint es 0 (length es) (st_keepRecentTokens settings) = cp"
    and parts: "prep_messagesToSummarize prep =
       messagesOf (slice_of 0 (if cp_isSplitTurn cp then the (cp_turnStartIndex cp) else cp_firstKeptEntryIndex cp) es)"
     "prep_turnPrefixMessages prep =
       (if cp_isSplitTurn cp then messagesOf (slice_of (the (cp_turnStartIndex cp)) (cp_firstKeptEntryIndex cp) es) else [])"
     "prep_retainedTail prep = messagesOf (drop (cp_firstKeptEntryIndex cp) es)"
    by (rule prepareCompaction_Some)
  note b = cut_bounds [OF cp]
  have "slice_of 0 (cp_firstKeptEntryIndex cp) es @ drop (cp_firstKeptEntryIndex cp) es = es" by (simp add: slice_of_def)
  moreover have "slice_of 0 (the (cp_turnStartIndex cp)) es @ slice_of (the (cp_turnStartIndex cp)) (cp_firstKeptEntryIndex cp) es
      = slice_of 0 (cp_firstKeptEntryIndex cp) es" if "cp_isSplitTurn cp"
    by (rule slice_of_append) (use b(2) [OF that] in auto)
  ultimately show ?thesis unfolding parts es [symmetric]
    by (cases "cp_isSplitTurn cp") (simp_all add: messagesOf_append [symmetric] append_assoc [symmetric] del: messagesOf_append append_assoc)
qed

section \<open>Where the cut falls\<close>

lemma cut_point_message:
  "is_cut_point e \<Longrightarrow> \<exists>m. getMessageFromEntryForCompaction e = Some m \<and> role m \<noteq> ToolResultRole"
  by (auto simp: is_cut_point_def getMessageFromEntryForCompaction_def getMessageFromEntry_def e_type_def
      createBranchSummaryMessage_def split: entry_data.splits)

lemma widened_message:
  "e_type e \<noteq> CompactionType \<Longrightarrow> e_type e \<noteq> MessageType \<Longrightarrow> getMessageFromEntryForCompaction e = Some m \<Longrightarrow>
     role m = BranchSummaryRole"
  by (auto simp: getMessageFromEntryForCompaction_def getMessageFromEntry_def e_type_def
      createBranchSummaryMessage_def split: entry_data.splits)

lemma messagesOf_Cons:
  "messagesOf (e # es) = (case getMessageFromEntryForCompaction e of None \<Rightarrow> messagesOf es | Some m \<Rightarrow> m # messagesOf es)"
  by (simp add: messagesOf_def List.map_filter_def split: option.split)

lemma in_messagesOf: "m \<in> set (messagesOf es) \<longleftrightarrow> (\<exists>e \<in> set es. getMessageFromEntryForCompaction e = Some m)"
  by (force simp: messagesOf_def List.map_filter_def)

lemma hd_messages:
  assumes "is_cut_point (es ! c)" "c < length es" "\<And>j. w \<le> j \<Longrightarrow> j < c \<Longrightarrow> e_type (es ! j) \<noteq> CompactionType \<and> e_type (es ! j) \<noteq> MessageType"
    "w \<le> c"
  shows "messagesOf (drop w es) \<noteq> [] \<and> role (hd (messagesOf (drop w es))) \<noteq> ToolResultRole"
proof -
  have "drop w es = slice_of w c es @ drop c es"
    using slice_of_append [of w c "length es" es] assms(2,4) by simp
  moreover have "drop c es = es ! c # drop (Suc c) es" using assms(2) by (simp add: Cons_nth_drop_Suc)
  ultimately have split: "messagesOf (drop w es) = messagesOf (slice_of w c es) @ messagesOf (es ! c # drop (Suc c) es)" by simp
  obtain m where m: "getMessageFromEntryForCompaction (es ! c) = Some m" "role m \<noteq> ToolResultRole"
    using cut_point_message [OF assms(1)] by blast
  have "role n = BranchSummaryRole" if "n \<in> set (messagesOf (slice_of w c es))" for n
  proof -
    from that obtain k where "w \<le> k" "k < c" "getMessageFromEntryForCompaction (es ! k) = Some n"
      unfolding in_messagesOf set_slice_of Bex_def by blast
    with assms(3) [of k] widened_message [of "es ! k" n] show ?thesis by blast
  qed
  with m show ?thesis unfolding split by (cases "messagesOf (slice_of w c es)") (auto simp: messagesOf_Cons)
qed

text \<open>
  A compaction that removes anything leaves a tail that does not begin with the result of a tool
  call, and the prefix of a split turn begins where the turn does: with a user message, a shell
  command or a branch summary.
\<close>

theorem compaction_tail_start:
  assumes prep: "prepareCompaction path settings = Some prep"
    and some: "prep_messagesToSummarize prep @ prep_turnPrefixMessages prep \<noteq> []"
  shows "prep_retainedTail prep \<noteq> [] \<and> role (hd (prep_retainedTail prep)) \<noteq> ToolResultRole
    \<and> (prep_turnPrefixMessages prep \<noteq> [] \<longrightarrow>
         role (hd (prep_turnPrefixMessages prep)) \<in> {UserRole, BashExecutionRole, BranchSummaryRole})"
proof -
  from prep obtain es cp where es: "es = compactableEntries path"
    and cp: "findCutPoint es 0 (length es) (st_keepRecentTokens settings) = cp"
    and parts: "prep_messagesToSummarize prep =
       messagesOf (slice_of 0 (if cp_isSplitTurn cp then the (cp_turnStartIndex cp) else cp_firstKeptEntryIndex cp) es)"
     "prep_turnPrefixMessages prep =
       (if cp_isSplitTurn cp then messagesOf (slice_of (the (cp_turnStartIndex cp)) (cp_firstKeptEntryIndex cp) es) else [])"
     "prep_retainedTail prep = messagesOf (drop (cp_firstKeptEntryIndex cp) es)"
    by (rule prepareCompaction_Some)
  from cp show ?thesis
  proof (cases rule: findCutPoint_cases)
    case none
    with some show ?thesis by (simp add: parts slice_of_def messagesOf_def List.map_filter_def)
  next
    case (some c)
    have tail: "prep_retainedTail prep \<noteq> [] \<and> role (hd (prep_retainedTail prep)) \<noteq> ToolResultRole"
      unfolding parts some(5) by (rule hd_messages [OF some(4,3) widenCut_between widenCut_le])
    have "role (hd (prep_turnPrefixMessages prep)) \<in> {UserRole, BashExecutionRole, BranchSummaryRole}"
      if ne: "prep_turnPrefixMessages prep \<noteq> []"
    proof -
      have split: "cp_isSplitTurn cp" using ne by (auto simp: parts(2) split: if_splits)
      with some(6) obtain t where t: "t \<le> widenCut es 0 c" "cp_turnStartIndex cp = Some t" "starts_turn (es ! t)" by blast
      have "t \<noteq> widenCut es 0 c" using ne t some(5) split by (auto simp: parts(2) messagesOf_def List.map_filter_def)
      with t(1) have lt: "t < widenCut es 0 c" by simp
      with widenCut_le [of es 0 c] some(3) have "t < length es" by simp
      then have "slice_of t (widenCut es 0 c) es = es ! t # slice_of (Suc t) (widenCut es 0 c) es"
        using lt by (simp add: slice_of_def Cons_nth_drop_Suc [symmetric] Suc_diff_Suc [symmetric])
      moreover obtain m where "getMessageFromEntryForCompaction (es ! t) = Some m"
          "role m \<in> {UserRole, BashExecutionRole, BranchSummaryRole}"
        using t(3) by (auto simp: starts_turn_def getMessageFromEntryForCompaction_def getMessageFromEntry_def e_type_def
            createBranchSummaryMessage_def split: entry_data.splits)
      ultimately show ?thesis using split t(2) some(5) by (simp add: parts(2) messagesOf_Cons)
    qed
    with tail show ?thesis by blast
  qed
qed

section \<open>The budget\<close>

text \<open>What the budget counts: the estimates of the message entries.\<close>

definition messageTokens :: "entry list \<Rightarrow> nat" where
  "messageTokens es = sum_list (map (\<lambda>e. case e_data e of MessageEntry m _ \<Rightarrow> estimateTokens m | _ \<Rightarrow> 0) es)"

lemma messageTokens_append [simp]: "messageTokens (xs @ ys) = messageTokens xs + messageTokens ys"
  by (simp add: messageTokens_def)

lemma messageTokens_drop_le: "i \<le> j \<Longrightarrow> messageTokens (drop j es) \<le> messageTokens (drop i es)"
proof -
  assume "i \<le> j"
  then have "drop i es = take (j - i) (drop i es) @ drop j es"
    using append_take_drop_id [of "j - i" "drop i es"] by simp
  then show ?thesis by (metis messageTokens_append le_add2)
qed

lemma messageTokens_Cons:
  "messageTokens (e # es) = (case e_data e of MessageEntry m _ \<Rightarrow> estimateTokens m | _ \<Rightarrow> 0) + messageTokens es"
  by (simp add: messageTokens_def)

lemma budgetIndex_spec:
  assumes "n \<le> length es" "accumulated = int (messageTokens (drop n es))" "accumulated < keep"
  shows "case budgetIndex es 0 keep n accumulated of
      None \<Rightarrow> int (messageTokens es) < keep
    | Some i \<Rightarrow> i < n \<and> int (messageTokens (drop (Suc i) es)) < keep \<and> keep \<le> int (messageTokens (drop i es))"
  using assms
proof (induction n arbitrary: accumulated)
  case 0 then show ?case by simp
next
  case (Suc i)
  let ?t = "case e_data (es ! i) of MessageEntry m _ \<Rightarrow> estimateTokens m | _ \<Rightarrow> 0"
  have drop: "messageTokens (drop i es) = ?t + messageTokens (drop (Suc i) es)"
    using Suc.prems(1) by (simp add: Cons_nth_drop_Suc [symmetric] messageTokens_Cons)
  show ?case
  proof (cases "accumulated + int ?t \<ge> keep")
    case True
    then obtain m b where "e_data (es ! i) = MessageEntry m b"
      using Suc.prems(3) by (cases "e_data (es ! i)") auto
    with True Suc.prems drop show ?thesis by simp
  next
    case False
    have "budgetIndex es 0 keep (Suc i) accumulated = budgetIndex es 0 keep i (accumulated + int ?t)"
      using False by (cases "e_data (es ! i)") (auto simp: Let_def)
    moreover have "case budgetIndex es 0 keep i (accumulated + int ?t) of
        None \<Rightarrow> int (messageTokens es) < keep
      | Some j \<Rightarrow> j < i \<and> int (messageTokens (drop (Suc j) es)) < keep \<and> keep \<le> int (messageTokens (drop j es))"
      by (rule Suc.IH) (use Suc.prems False drop in auto)
    ultimately show ?thesis by (auto split: option.splits)
  qed
qed

text \<open>A cut point that the budget can use: one at or after the entry at which it is reached.\<close>

definition budget_cut :: "entry list \<Rightarrow> int \<Rightarrow> bool" where
  "budget_cut es keep =
     (case budgetIndex es 0 keep (length es) 0 of
        None \<Rightarrow> True
      | Some i \<Rightarrow> (\<exists>c \<in> set (findValidCutPoints es 0 (length es)). i \<le> c))"

lemma chosen_budget:
  assumes "budget_cut es keep" "0 < keep" "c = chooseCut es 0 (length es) keep (findValidCutPoints es 0 (length es))"
  shows "int (messageTokens (drop (Suc c) es)) < keep"
proof -
  have spec: "case budgetIndex es 0 keep (length es) 0 of
      None \<Rightarrow> int (messageTokens es) < keep
    | Some i \<Rightarrow> i < length es \<and> int (messageTokens (drop (Suc i) es)) < keep \<and> keep \<le> int (messageTokens (drop i es))"
    by (rule budgetIndex_spec) (use assms(2) in \<open>auto simp: messageTokens_def\<close>)
  show ?thesis
  proof (cases "budgetIndex es 0 keep (length es) 0")
    case None
    with spec messageTokens_drop_le [of 0 "Suc c" es] show ?thesis by simp
  next
    case (Some i)
    with assms(1) obtain c' where "find (\<lambda>c. i \<le> c) (findValidCutPoints es 0 (length es)) = Some c'"
      by (cases "find (\<lambda>c. i \<le> c) (findValidCutPoints es 0 (length es))")
        (auto simp: budget_cut_def find_None_iff)
    with assms(3) Some have "i \<le> c" by (auto simp: chooseCut_def find_Some_iff)
    with spec Some messageTokens_drop_le [of "Suc i" "Suc c" es] show ?thesis by simp
  qed
qed

text \<open>
  The cut respects the budget: leaving out the message it starts from, the retained messages stay
  below the tokens to keep, provided there is a cut point at or after the message that fills the budget.
\<close>

theorem compaction_budget:
  assumes "findCutPoint es 0 (length es) keep = cp" "0 < keep" "budget_cut es keep"
    and "findValidCutPoints es 0 (length es) \<noteq> []"
  shows "\<exists>c. cp_firstKeptEntryIndex cp \<le> c \<and> c < length es \<and> is_cut_point (es ! c)
    \<and> messageTokens (slice_of (cp_firstKeptEntryIndex cp) c es) = 0
    \<and> int (messageTokens (drop (Suc c) es)) < keep"
  using assms(1)
proof (cases rule: findCutPoint_cases)
  case none with assms(4) show ?thesis by simp
next
  case (some c)
  have "(case e_data e of MessageEntry m _ \<Rightarrow> estimateTokens m | _ \<Rightarrow> 0) = 0"
    if "e \<in> set (slice_of (widenCut es 0 c) c es)" for e
    using that widenCut_between [of es 0 c] by (force simp: set_slice_of e_type_def split: entry_data.splits)
  then have "messageTokens (slice_of (widenCut es 0 c) c es) = 0" by (auto simp: messageTokens_def)
  with some chosen_budget [OF assms(3,2) some(1)] widenCut_le [of es 0 c] show ?thesis by auto
qed

text \<open>
  When the newest messages that fill the budget hold no cut point, as after a long tool result, the
  cut falls back to the oldest cut point: everything from there on is retained, however much it is, and
  nothing but tool results and other messages that cannot start a tail is summarized.
\<close>

theorem compaction_fallback:
  assumes prep: "prepareCompaction path settings = Some prep"
    and no_cut: "\<not> budget_cut (compactableEntries path) (st_keepRecentTokens settings)"
  shows "prep_turnPrefixMessages prep = []
    \<and> (\<forall>m \<in> set (prep_messagesToSummarize prep).
         role m \<notin> {UserRole, AssistantRole, BashExecutionRole, CustomRole, BranchSummaryRole, CompactionSummaryRole})"
proof -
  from prep obtain es cp where es: "es = compactableEntries path"
    and cp: "findCutPoint es 0 (length es) (st_keepRecentTokens settings) = cp"
    and parts: "prep_messagesToSummarize prep =
       messagesOf (slice_of 0 (if cp_isSplitTurn cp then the (cp_turnStartIndex cp) else cp_firstKeptEntryIndex cp) es)"
     "prep_turnPrefixMessages prep =
       (if cp_isSplitTurn cp then messagesOf (slice_of (the (cp_turnStartIndex cp)) (cp_firstKeptEntryIndex cp) es) else [])"
    by (rule prepareCompaction_Some)
  from cp show ?thesis
  proof (cases rule: findCutPoint_cases)
    case none then show ?thesis by (simp add: parts slice_of_def messagesOf_def List.map_filter_def)
  next
    case (some c)
    let ?cps = "findValidCutPoints es 0 (length es)"
    from no_cut obtain i where i: "budgetIndex es 0 (st_keepRecentTokens settings) (length es) 0 = Some i"
      "\<forall>c \<in> set ?cps. \<not> i \<le> c" by (auto simp: budget_cut_def es split: option.splits)
    then have "find (\<lambda>c. i \<le> c) ?cps = None" by (simp add: find_None_iff)
    with i(1) some(1) have hd: "c = hd ?cps" by (simp add: chooseCut_def)
    have first: "\<not> is_cut_point (es ! j)" if j: "j < c" for j
    proof
      assume "is_cut_point (es ! j)"
      with j some(3) have "j \<in> set ?cps" by (simp add: findValidCutPoints_def)
      moreover have "sorted ?cps" by (simp add: findValidCutPoints_def sorted_wrt_filter)
      ultimately have "hd ?cps \<le> j" by (cases ?cps) auto
      with hd j show False by simp
    qed
    have turn: "t = widenCut es 0 c" if "cp_isSplitTurn cp" "cp_turnStartIndex cp = Some t" for t
    proof -
      from some(6) that have t: "t \<le> widenCut es 0 c" "starts_turn (es ! t)" by auto
      have "\<not> t < c" using first [of t] starts_turn_cut [OF t(2)] by blast
      with t(1) widenCut_le [of es 0 c] show ?thesis by simp
    qed
    have "prep_turnPrefixMessages prep = []"
      using turn some(5,6) by (auto simp: parts(2) messagesOf_def List.map_filter_def)
    moreover have "prep_messagesToSummarize prep = messagesOf (slice_of 0 (widenCut es 0 c) es)"
      using turn some(5,6) by (auto simp: parts(1))
    moreover have "role m \<notin> {UserRole, AssistantRole, BashExecutionRole, CustomRole, BranchSummaryRole, CompactionSummaryRole}"
      if "m \<in> set (messagesOf (slice_of 0 (widenCut es 0 c) es))" for m
    proof -
      from that obtain k where k: "k < widenCut es 0 c" "getMessageFromEntryForCompaction (es ! k) = Some m"
        unfolding in_messagesOf set_slice_of Bex_def by blast
      with widenCut_le [of es 0 c] first [of k] have "\<not> is_cut_point (es ! k)" by simp
      with k(2) show ?thesis
        by (auto simp: is_cut_point_def getMessageFromEntryForCompaction_def getMessageFromEntry_def e_type_def
            split: entry_data.splits)
    qed
    ultimately show ?thesis by simp
  qed
qed

section \<open>What the provider saw\<close>

text \<open>Without projectors the messages of an entry do not depend on its place.\<close>

lemma context_messages:
  "snd (buildSessionContext [] (\<lambda>_. None) path) =
     concat (map (\<lambda>e. sessionEntryToContextMessages (\<lambda>_. None) e 0 []) (defaultContextEntryTransform path))"
proof -
  have plain: "sessionEntryToContextMessages (\<lambda>_. None) e i es = sessionEntryToContextMessages (\<lambda>_. None) e 0 []" for e i es
    by (simp add: sessionEntryToContextMessages_def split: entry_data.split)
  have "map (\<lambda>(i, e). sessionEntryToContextMessages (\<lambda>_. None) e i es) (enumerate k xs)
      = map (\<lambda>e. sessionEntryToContextMessages (\<lambda>_. None) e 0 []) xs" for k es and xs :: "entry list"
    by (induction xs arbitrary: k) (simp, metis (no_types, lifting) plain enumerate_simps(2) list.simps(9) case_prod_conv)
  then show ?thesis by (simp add: buildSessionContext_def buildContextEntries_def Let_def)
qed

text \<open>Entries whose message is shown as it is: no deferred assistant message, no empty branch summary.\<close>

definition shown :: "entry \<Rightarrow> bool" where
  "shown e =
     (case e_data e of
        MessageEntry m _ \<Rightarrow> (case m of AssistantMessage a \<Rightarrow> am_stopReason a \<noteq> DeferredStop | _ \<Rightarrow> True)
      | BranchSummaryEntry b \<Rightarrow> bd_summary b \<noteq> []
      | _ \<Rightarrow> True)"

lemma shown_messages:
  assumes "\<forall>e \<in> set es. shown e \<and> e_type e \<noteq> CompactionType"
  shows "concat (map (\<lambda>e. sessionEntryToContextMessages (\<lambda>_. None) e 0 []) es) = messagesOf es"
  using assms
proof (induction es)
  case (Cons e es)
  then have "sessionEntryToContextMessages (\<lambda>_. None) e 0 []
      = (case getMessageFromEntryForCompaction e of None \<Rightarrow> [] | Some m \<Rightarrow> [m])"
    by (auto simp: sessionEntryToContextMessages_def getMessageFromEntryForCompaction_def getMessageFromEntry_def
        shown_def e_type_def split: entry_data.splits agent_message.splits)
  with Cons show ?case by (simp add: messagesOf_Cons split: option.split)
qed (simp add: messagesOf_def List.map_filter_def)

lemma messagesOf_virtual: "messagesOf (virtualRetainedEntries prev tail) = tail"
proof -
  have "messagesOf (map (\<lambda>(n, m). f n m) (enumerate k ms)) = ms"
    if "\<And>n m. getMessageFromEntryForCompaction (f n m) = Some m" for f k ms
    by (induction ms arbitrary: k) (simp_all add: messagesOf_Cons that messagesOf_def List.map_filter_def)
  then show ?thesis
    by (simp add: virtualRetainedEntries_def getMessageFromEntryForCompaction_def getMessageFromEntry_def e_type_def)
qed

text \<open>The summary message that heads the context after an earlier compaction.\<close>

definition previousSummary :: "entry list \<Rightarrow> agent_message list" where
  "previousSummary path =
     (case Option.bind (newestCompaction path (length path)) (\<lambda>i. map_option (Pair i) (compaction_of (path ! i))) of
        None \<Rightarrow> []
      | Some (i, c) \<Rightarrow> [createCompactionSummaryMessage (cd_summary c) (cd_tokensBefore c) (e_timestamp (path ! i))])"

lemma context_compactable:
  assumes "\<forall>e \<in> set path. shown e"
  shows "snd (buildSessionContext [] (\<lambda>_. None) path) = previousSummary path @ messagesOf (compactableEntries path)"
proof (cases "newestCompaction path (length path)")
  case None
  then have "\<forall>e \<in> set path. shown e \<and> e_type e \<noteq> CompactionType"
    using assms by (auto simp: newestCompaction_None in_set_conv_nth)
  with None show ?thesis
    by (simp add: context_messages defaultContextEntryTransform_def shown_messages previousSummary_def compactableEntries_def)
next
  case (Some i)
  note i = newestCompaction_Some [OF Some]
  then obtain c where c: "e_data (path ! i) = CompactionEntry c" by (cases "e_data (path ! i)") (auto simp: e_type_def)
  have "\<forall>e \<in> set (drop (i + 1) path). shown e \<and> e_type e \<noteq> CompactionType"
  proof
    fix e assume e: "e \<in> set (drop (i + 1) path)"
    then obtain k where "k < length path - (i + 1)" "e = path ! (i + 1 + k)" by (auto simp: in_set_conv_nth)
    with i assms in_set_dropD [OF e] show "shown e \<and> e_type e \<noteq> CompactionType" by auto
  qed
  from shown_messages [OF this] Some c show ?thesis
    by (simp add: context_messages defaultContextEntryTransform_def previousSummary_def compactableEntries_def
        sessionEntryToContextMessages_def compaction_of_def messagesOf_virtual)
qed


section \<open>Files and outcome\<close>

definition touched :: "string \<Rightarrow> agent_message list \<Rightarrow> string set" where
  "touched tool ms = {path. path \<noteq> [] \<and> (\<exists>a t. AssistantMessage a \<in> set ms \<and> ToolCallContent t \<in> set (am_content a)
     \<and> tc_name t = tool \<and> map_of (tc_arguments t) ''path'' = Some (JsonString path))}"

definition call_paths :: "string \<Rightarrow> content \<Rightarrow> string set" where
  "call_paths tool c = {path. path \<noteq> [] \<and> (\<exists>t. c = ToolCallContent t \<and> tc_name t = tool
     \<and> map_of (tc_arguments t) ''path'' = Some (JsonString path))}"

lemma addFileOp_sets:
  "set (fo_read (addFileOp c ops)) = set (fo_read ops) \<union> call_paths ''read'' c"
  "set (fo_written (addFileOp c ops)) = set (fo_written ops) \<union> call_paths ''write'' c"
  "set (fo_edited (addFileOp c ops)) = set (fo_edited ops) \<union> call_paths ''edit'' c"
  by (auto simp: addFileOp_def call_paths_def split: content.splits option.splits json.splits)

lemma fold_addFileOp_sets:
  "set (fo_read (fold addFileOp cs ops)) = set (fo_read ops) \<union> (\<Union>c \<in> set cs. call_paths ''read'' c)"
  "set (fo_written (fold addFileOp cs ops)) = set (fo_written ops) \<union> (\<Union>c \<in> set cs. call_paths ''write'' c)"
  "set (fo_edited (fold addFileOp cs ops)) = set (fo_edited ops) \<union> (\<Union>c \<in> set cs. call_paths ''edit'' c)"
  by (induction cs arbitrary: ops) (auto simp: addFileOp_sets)

lemma touched_Cons:
  "touched tool (m # ms) = (case m of AssistantMessage a \<Rightarrow> (\<Union>c \<in> set (am_content a). call_paths tool c) | _ \<Rightarrow> {})
     \<union> touched tool ms"
  by (cases m) (auto simp: touched_def call_paths_def)

lemma extract_sets:
  "set (fo_read (fold extractFileOpsFromMessage ms ops)) = set (fo_read ops) \<union> touched ''read'' ms"
  "set (fo_written (fold extractFileOpsFromMessage ms ops)) = set (fo_written ops) \<union> touched ''write'' ms"
  "set (fo_edited (fold extractFileOpsFromMessage ms ops)) = set (fo_edited ops) \<union> touched ''edit'' ms"
proof (induction ms arbitrary: ops)
  case Nil
  case 1 show ?case by (simp add: touched_def)
  case 2 show ?case by (simp add: touched_def)
  case 3 show ?case by (simp add: touched_def)
next
  case (Cons m ms)
  case 1 show ?case using Cons(1) by (cases m) (auto simp: touched_Cons extractFileOpsFromMessage_def fold_addFileOp_sets)
  case 2 show ?case using Cons(2) by (cases m) (auto simp: touched_Cons extractFileOpsFromMessage_def fold_addFileOp_sets)
  case 3 show ?case using Cons(3) by (cases m) (auto simp: touched_Cons extractFileOpsFromMessage_def fold_addFileOp_sets)
qed

lemma prep_fileOps_eq:
  assumes "prepareCompaction path settings = Some prep"
  obtains ops where "ops = extractFileOperations [] path (newestCompaction path (length path))" "file_ops_ok ops"
    "prep_fileOps prep = fold extractFileOpsFromMessage (prep_messagesToSummarize prep @ prep_turnPrefixMessages prep) ops"
proof -
  let ?ops = "extractFileOperations [] path (newestCompaction path (length path))"
  have "file_ops_ok ?ops"
    by (auto simp: extractFileOperations_def Let_def addDetails_def file_ops_ok_def createFileOps_def fold_set_add
        split: option.split json.split)
  moreover have "prep_fileOps prep = fold extractFileOpsFromMessage (prep_messagesToSummarize prep @ prep_turnPrefixMessages prep) ?ops"
    using assms by (auto simp: prepareCompaction_def Let_def extractFileOperations_def split: if_splits)
  ultimately show ?thesis using that by blast
qed

lemma fold_extract_ok: "file_ops_ok ops \<Longrightarrow> file_ops_ok (fold extractFileOpsFromMessage ms ops)"
  by (induction ms arbitrary: ops) (auto intro: extractFileOps_ok)

lemma compact_Inr:
  assumes "compact llm prep model opts w = (Inr r, w')"
  shows "cr_retainedTail r = prep_retainedTail prep" "cr_tokensBefore r = prep_tokensBefore prep"
    "(cr_readFiles r, cr_modifiedFiles r) = computeFileLists (prep_fileOps prep)"
  using assms by (cases "computeFileLists (prep_fileOps prep)"; auto simp: compact_def Let_def split: prod.splits)+

text \<open>
  The compaction entry reports the files truthfully: the modified files are those of the previous
  compaction and of every \<open>write\<close> and \<open>edit\<close> call that is summarized, the read files are the remaining
  ones of the \<open>read\<close> calls; both lists are sorted without repetition, and the retained tail is the prepared one.
\<close>

theorem compact_files:
  assumes prep: "prepareCompaction path settings = Some prep" and ok: "compact llm prep model opts w = (Inr r, w')"
  shows "(let gone = prep_messagesToSummarize prep @ prep_turnPrefixMessages prep;
             old = extractFileOperations [] path (newestCompaction path (length path)) in
           set (cr_modifiedFiles r) = set (fo_edited old) \<union> set (fo_written old) \<union> touched ''edit'' gone \<union> touched ''write'' gone
           \<and> set (cr_readFiles r) = (set (fo_read old) \<union> touched ''read'' gone) - set (cr_modifiedFiles r))
    \<and> sorted (cr_readFiles r) \<and> distinct (cr_readFiles r) \<and> sorted (cr_modifiedFiles r) \<and> distinct (cr_modifiedFiles r)
    \<and> cr_retainedTail r = prep_retainedTail prep"
proof -
  from prep obtain ops where ops: "ops = extractFileOperations [] path (newestCompaction path (length path))" "file_ops_ok ops"
    "prep_fileOps prep = fold extractFileOpsFromMessage (prep_messagesToSummarize prep @ prep_turnPrefixMessages prep) ops"
    by (rule prep_fileOps_eq)
  have lists: "cr_readFiles r = fst (computeFileLists (prep_fileOps prep))" "cr_modifiedFiles r = snd (computeFileLists (prep_fileOps prep))"
    using compact_Inr(3) [OF ok] by (metis fst_conv, metis snd_conv)
  have "file_ops_ok (prep_fileOps prep)" unfolding ops(3) by (rule fold_extract_ok [OF ops(2)])
  with computeFileLists_sorted [of "prep_fileOps prep"] compact_Inr(1) [OF ok] show ?thesis
    unfolding lists computeFileLists_sets unfolding ops(3) extract_sets Let_def ops(1) [symmetric] by blast
qed

definition failed_with :: "assistant_message \<Rightarrow> summary_error \<Rightarrow> bool" where
  "failed_with response e =
     (case e of SummaryAborted _ \<Rightarrow> am_stopReason response = AbortedStop
      | SummarizationFailed _ \<Rightarrow> am_stopReason response = ErrorStop)"

lemma summaryResult_Inl: "summaryResult a f response = Inl e \<Longrightarrow> failed_with response e"
  by (auto simp: summaryResult_def failed_with_def split: if_splits)

lemma generateSummary_Inl:
  "generateSummaryWithUsage llm ms model n prev opts w = (Inl e, w') \<Longrightarrow> \<exists>req w0. failed_with (fst (llm req w0)) e"
  "generateTurnPrefixSummary llm ms model n opts w = (Inl e, w') \<Longrightarrow> \<exists>req w0. failed_with (fst (llm req w0)) e"
  by (auto simp: generateSummaryWithUsage_def generateTurnPrefixSummary_def split_beta dest!: summaryResult_Inl)

lemma compactSummary_Inl:
  "compactSummary llm prep model opts w = (Inl e, w') \<Longrightarrow> \<exists>req w0. failed_with (fst (llm req w0)) e"
  by (auto simp: compactSummary_def Let_def split: if_splits prod.splits sum.splits dest: generateSummary_Inl)


end
