(* ===== verification/BranchSummary.thy ===== *)
theory BranchSummary
  imports CompactionRun Session
begin

text \<open>
  Navigation to another entry of the session tree (\<open>branch-summarization.ts\<close>): which entries of the
  abandoned branch are summarized (\<open>collectEntriesForBranchSummary\<close>), proved over the interface of a
  session storage, and which of them fit the budget (\<open>prepareBranchEntries\<close>).
\<close>

section \<open>\<open>collectEntriesForBranchSummary\<close>\<close>

text \<open>The loop from the old leaf to the common ancestor. It follows parents, so it may not end on a cyclic storage.\<close>

partial_function (option) collectLoop :: "'s storage_ops \<Rightarrow> 's \<Rightarrow> string option \<Rightarrow> string option \<Rightarrow> entry list
    \<Rightarrow> (session_error + entry list) option" where
  "collectLoop st s ancestor current entries =
     (case current of
        None \<Rightarrow> Some (Inr entries)
      | Some i \<Rightarrow>
          if i = [] \<or> Some i = ancestor then Some (Inr entries)
          else (case so_getEntry st i s of
             None \<Rightarrow> Some (Inl InvalidEntry)
           | Some e \<Rightarrow> collectLoop st s ancestor (e_parentId e) (entries @ [e])))"

text \<open>The outer option is \<open>None\<close> when the loop does not end.\<close>

definition collectEntriesForBranchSummary :: "'s storage_ops \<Rightarrow> string option \<Rightarrow> string \<Rightarrow> 's
    \<Rightarrow> (session_error + entry list \<times> string option) option" where
  "collectEntriesForBranchSummary st oldLeafId targetId s =
     (case oldLeafId of
        None \<Rightarrow> Some (Inr ([], None))
      | Some oldLeaf \<Rightarrow>
          if oldLeaf = [] then Some (Inr ([], None))
          else (case rbind (viewFindEntriesOnBranch st ''main'' everything noBounds (Some oldLeaf) s) (\<lambda>oldPath.
              rbind (viewFindEntriesOnBranch st ''main'' everything noBounds (Some targetId) s) (\<lambda>targetPath.
                Inr (map_option e_id (find (\<lambda>e. e_id e \<in> e_id ` set oldPath) targetPath)))) of
             Inl err \<Rightarrow> Some (Inl err)
           | Inr ancestor \<Rightarrow>
               map_option (\<lambda>r. rbind r (\<lambda>entries. Inr (rev entries, ancestor)))
                 (collectLoop st s ancestor (Some oldLeaf) [])))"

section \<open>Ancestries\<close>

lemma find_split: "find P xs = Some a \<Longrightarrow> \<exists>us vs. xs = us @ a # vs \<and> P a \<and> (\<forall>u \<in> set us. \<not> P u)"
proof (induction xs)
  case (Cons x xs)
  show ?case
  proof (cases "P x")
    case True with Cons.prems show ?thesis by (intro exI [of _ "[]"] exI [of _ xs]) simp
  next
    case False
    with Cons obtain us vs where "xs = us @ a # vs" "P a" "\<forall>u \<in> set us. \<not> P u" by auto
    with False show ?thesis by (intro exI [of _ "x # us"] exI [of _ vs]) simp
  qed
qed simp

lemma ancestry_suffix:
  "ancestry look (xs @ y # ys) \<Longrightarrow> ancestry look (y # ys)"
proof (induction xs)
  case (Cons x xs) then show ?case by (cases xs) auto
qed simp

lemma ancestry_parent: "ancestry look (x # y # ys) \<Longrightarrow> \<exists>p. e_parentId x = Some p \<and> look p = Some y"
  by auto

lemma ancestry_distinct: "ancestry look path \<Longrightarrow> distinct path"
proof (induction path)
  case (Cons x xs)
  have "x \<notin> set xs"
  proof
    assume "x \<in> set xs"
    then obtain us vs where xs: "xs = us @ x # vs" by (auto dest: split_list)
    then have "ancestry look (x # vs)" using ancestry_suffix [of look "x # us" x vs] Cons.prems by simp
    from ancestry_unique [OF Cons.prems this] show False by (simp add: xs)
  qed
  moreover have "distinct xs" using Cons by (cases xs) auto
  ultimately show ?case by simp
qed simp

text \<open>Two ancestries that meet are equal from there on, so what lies before the first common entry is on one only.\<close>

lemma ancestry_meet:
  assumes p: "ancestry look (xs @ a # ys)" and q: "ancestry look (us @ a # vs)"
    and disj: "set us \<inter> set (xs @ a # ys) = {}" and dist: "distinct (xs @ a # ys)"
  shows "set xs \<inter> set (us @ a # vs) = {}"
proof -
  have "a # ys = a # vs" using ancestry_unique [OF ancestry_suffix [OF p] ancestry_suffix [OF q]] by simp
  with disj dist show ?thesis by auto
qed

context session_storage
begin

lemma view_branch: "viewFindEntriesOnBranch st lane everything noBounds (Some i) s = so_findEntriesOnBranch st everything noBounds i s"
  by (simp add: viewFindEntriesOnBranch_def queryBranchEntries_def everything_def assertValidLimit_def assertValidCursor_def)

lemma collectLoop_None: "collectLoop st s ancestor None acc = Some (Inr acc)"
  by (subst collectLoop.simps) simp

lemma collectLoop_stop: "collectLoop st s (Some i) (Some i) acc = Some (Inr acc)"
  by (subst collectLoop.simps) simp

lemma collectLoop_step:
  assumes "i \<noteq> []" "Some i \<noteq> ancestor" "so_getEntry st i s = Some e"
  shows "collectLoop st s ancestor (Some i) acc = collectLoop st s ancestor (e_parentId e) (acc @ [e])"
  using assms by (subst collectLoop.simps) simp

lemma collectLoop_path:
  assumes "ancestry (\<lambda>j. so_getEntry st j s) (e # es)" "so_getEntry st (e_id e) s = Some e"
    "\<And>i f. so_getEntry st i s = Some f \<Longrightarrow> e_id f = i" "so_getEntry st [] s = None"
  shows "collectLoop st s ancestor (Some (e_id e)) acc =
     Some (Inr (acc @ takeWhile (\<lambda>f. Some (e_id f) \<noteq> ancestor) (e # es)))"
  using assms(1,2)
proof (induction es arbitrary: e acc)
  case Nil
  have ne: "e_id e \<noteq> []" using Nil.prems(2) assms(4) by (metis option.distinct(1))
  show ?case
  proof (cases "Some (e_id e) = ancestor")
    case True then show ?thesis using collectLoop_stop [of s "e_id e" acc] by simp
  next
    case False
    with Nil.prems collectLoop_step [OF ne False Nil.prems(2)] show ?thesis by (simp add: collectLoop_None)
  qed
next
  case (Cons f es)
  have ne: "e_id e \<noteq> []" using Cons.prems(2) assms(4) by (metis option.distinct(1))
  from ancestry_parent [OF Cons.prems(1)] obtain p where p: "e_parentId e = Some p" "so_getEntry st p s = Some f" by blast
  with assms(3) have id: "e_id f = p" by simp
  show ?case
  proof (cases "Some (e_id e) = ancestor")
    case True then show ?thesis using collectLoop_stop [of s "e_id e" acc] by simp
  next
    case False
    have "ancestry (\<lambda>j. so_getEntry st j s) (f # es)" using Cons.prems(1) by auto
    from Cons.IH [OF this, of "acc @ [e]"] id p collectLoop_step [OF ne False Cons.prems(2)] False
    show ?thesis by simp
  qed
qed

lemma collect_spec:
  assumes inv: "inv s" and old: "so_getEntry st old s = Some eo" and target: "so_getEntry st target s = Some et"
    and ne: "so_getEntry st [] s = None"
  shows "\<exists>oldPath targetPath ancestor entries.
    collectEntriesForBranchSummary st (Some old) target s = Some (Inr (entries, ancestor))
    \<and> ancestry (\<lambda>j. so_getEntry st j s) oldPath \<and> hd oldPath = eo
    \<and> ancestry (\<lambda>j. so_getEntry st j s) targetPath \<and> hd targetPath = et
    \<and> ancestor = map_option e_id (find (\<lambda>e. e_id e \<in> e_id ` set oldPath) targetPath)
    \<and> rev entries = takeWhile (\<lambda>f. Some (e_id f) \<noteq> ancestor) oldPath"
proof -
  from branch [OF inv old] obtain po where po: "ancestry (\<lambda>j. so_getEntry st j s) po" "hd po = eo"
    "so_findEntriesOnBranch st everything noBounds old s = Inr po" by blast
  from branch [OF inv target] obtain pt where pt: "ancestry (\<lambda>j. so_getEntry st j s) pt" "hd pt = et"
    "so_findEntriesOnBranch st everything noBounds target s = Inr pt" by blast
  define anc where "anc = map_option e_id (find (\<lambda>e. e_id e \<in> e_id ` set po) pt)"
  have id: "e_id eo = old" using entry_id [OF inv old] .
  obtain es where es: "po = eo # es" using po(1,2) by (cases po) auto
  have loop: "collectLoop st s anc (Some (e_id eo)) [] = Some (Inr ([] @ takeWhile (\<lambda>f. Some (e_id f) \<noteq> anc) (eo # es)))"
    by (rule collectLoop_path) (use po(1) es old id ne entry_id [OF inv] in auto)
  then have "collectLoop st s anc (Some old) [] = Some (Inr (takeWhile (\<lambda>f. Some (e_id f) \<noteq> anc) po))"
    by (simp only: id es append_Nil)
  moreover have "old \<noteq> []" using old ne by auto
  ultimately have "collectEntriesForBranchSummary st (Some old) target s =
      Some (Inr (rev (takeWhile (\<lambda>f. Some (e_id f) \<noteq> anc) po), anc))"
    by (simp add: collectEntriesForBranchSummary_def view_branch po(3) pt(3) anc_def [symmetric])
  with po pt anc_def show ?thesis by (intro exI [of _ po] exI [of _ pt] exI) auto
qed

lemma path_ids:
  assumes "ancestry (\<lambda>j. so_getEntry st j s) path" "so_getEntry st (e_id (hd path)) s = Some (hd path)" "inv s" "e \<in> set path"
  shows "so_getEntry st (e_id e) s = Some e"
  using assms(1,2,4)
proof (induction path)
  case (Cons x xs)
  show ?case
  proof (cases "e = x \<or> xs = []")
    case True with Cons.prems show ?thesis by auto
  next
    case False
    then obtain y ys where xs: "xs = y # ys" by (cases xs) auto
    with Cons.prems(1) obtain p where p: "so_getEntry st p s = Some y" "ancestry (\<lambda>j. so_getEntry st j s) xs" by auto
    have "e_id y = p" using entry_id [OF assms(3) p(1)] .
    with Cons.IH p xs False Cons.prems(3) show ?thesis by simp
  qed
qed simp

lemma collect_difference:
  assumes inv: "inv s" and old: "so_getEntry st old s = Some eo" and target: "so_getEntry st target s = Some et"
    and ne: "so_getEntry st [] s = None"
  shows "\<exists>oldPath targetPath ancestor entries.
    collectEntriesForBranchSummary st (Some old) target s = Some (Inr (entries, ancestor))
    \<and> ancestry (\<lambda>j. so_getEntry st j s) oldPath \<and> hd oldPath = eo
    \<and> ancestry (\<lambda>j. so_getEntry st j s) targetPath \<and> hd targetPath = et
    \<and> (\<exists>rest. oldPath = rev entries @ rest) \<and> set entries = set oldPath - set targetPath
    \<and> ancestor = map_option e_id (find (\<lambda>e. e \<in> set oldPath) targetPath)"
proof -
  from collect_spec [OF assms] obtain po pt anc es where c: "collectEntriesForBranchSummary st (Some old) target s = Some (Inr (es, anc))"
    and po: "ancestry (\<lambda>j. so_getEntry st j s) po" "hd po = eo" and pt: "ancestry (\<lambda>j. so_getEntry st j s) pt" "hd pt = et"
    and anc: "anc = map_option e_id (find (\<lambda>e. e_id e \<in> e_id ` set po) pt)"
    and es: "rev es = takeWhile (\<lambda>f. Some (e_id f) \<noteq> anc) po"
    by (elim exE conjE) (rule that)
  have look: "so_getEntry st (e_id e) s = Some e" if "e \<in> set po \<union> set pt" for e
  proof -
    have hds: "so_getEntry st (e_id (hd po)) s = Some (hd po)" "so_getEntry st (e_id (hd pt)) s = Some (hd pt)"
      using old target entry_id [OF inv old] entry_id [OF inv target] po(2) pt(2) by simp_all
    from that show ?thesis
      by (elim UnE) (rule path_ids [OF po(1) hds(1) inv] path_ids [OF pt(1) hds(2) inv], assumption)+
  qed
  have same: "e = f" if "e \<in> set po \<union> set pt" "f \<in> set po \<union> set pt" "e_id e = e_id f" for e f
    using look [OF that(1)] look [OF that(2)] unfolding that(3) by (metis option.inject)
  have "e_id e \<in> e_id ` set po \<longleftrightarrow> e \<in> set po" if "e \<in> set pt" for e
    using same [of e] that by (metis UnI1 UnI2 image_iff)
  then have find: "find (\<lambda>e. e_id e \<in> e_id ` set po) pt = find (\<lambda>e. e \<in> set po) pt"
    by (intro find_cong) auto
  have set: "set es = set po - set pt"
  proof (cases "find (\<lambda>e. e \<in> set po) pt")
    case None
    with es anc find have "rev es = po" by (simp add: takeWhile_eq_all_conv)
    then have "set es = set po" by (metis set_rev)
    with None show ?thesis by (auto simp: find_None_iff)
  next
    case (Some a)
    from find_split [OF Some] obtain us vs where pt': "pt = us @ a # vs" "a \<in> set po" "set us \<inter> set po = {}" by auto
    obtain xs ys where po': "po = xs @ a # ys" using pt'(2) by (auto dest: split_list)
    have dist: "distinct po" using ancestry_distinct [OF po(1)] .
    have "e_id f \<noteq> e_id a" if "f \<in> set xs" for f 
      using same [of f a] that dist unfolding po' by (metis UnI1 disjoint_iff distinct_append in_set_conv_decomp list.set_intros(1) set_append Un_iff)
    then have "rev es = xs" using es anc find Some po' by (simp add: takeWhile_append2)
    then have "set es = set xs" by (metis set_rev)
    moreover have "set xs \<inter> set pt = {}"
      unfolding pt'(1)
      by (rule ancestry_meet [OF po(1) [unfolded po'] pt(1) [unfolded pt'(1)] pt'(3) [unfolded po'] dist [unfolded po']])
    moreover have "a # ys = a # vs"
      by (rule ancestry_unique [OF ancestry_suffix [OF po(1) [unfolded po']] ancestry_suffix [OF pt(1) [unfolded pt'(1)]]]) simp
    ultimately show ?thesis using dist unfolding po' pt'(1) by auto
  qed
  have "po = rev es @ dropWhile (\<lambda>f. Some (e_id f) \<noteq> anc) po" by (simp add: es)
  moreover have "anc = map_option e_id (find (\<lambda>e. e \<in> set po) pt)" using anc find by simp
  ultimately have "collectEntriesForBranchSummary st (Some old) target s = Some (Inr (es, anc))
    \<and> ancestry (\<lambda>j. so_getEntry st j s) po \<and> hd po = eo
    \<and> ancestry (\<lambda>j. so_getEntry st j s) pt \<and> hd pt = et
    \<and> (\<exists>rest. po = rev es @ rest) \<and> set es = set po - set pt
    \<and> anc = map_option e_id (find (\<lambda>e. e \<in> set po) pt)"
    using c po pt set by (intro conjI exI) assumption+
  then show ?thesis by (intro exI)
qed

end

section \<open>\<open>prepareBranchEntries\<close>\<close>

definition branchMessages :: "entry list \<Rightarrow> agent_message list" where
  "branchMessages es = List.map_filter getBranchMessage es"

definition tokensOf :: "agent_message list \<Rightarrow> int" where
  "tokensOf ms = int (sum_list (map estimateTokens ms))"

text \<open>What the loop has when it has seen the entries \<open>seen\<close>, the newest first.\<close>

definition branch_fits :: "int \<Rightarrow> branch_preparation \<Rightarrow> bool" where
  "branch_fits budget p =
     (bp_totalTokens p = tokensOf (bp_messages p)
      \<and> (0 < budget \<longrightarrow> bp_totalTokens p \<le> budget
           \<or> (\<exists>m ms. bp_messages p = m # ms \<and> role m \<in> {CompactionSummaryRole, BranchSummaryRole}
                \<and> 10 * tokensOf ms < 9 * budget)))"

lemma branchMessages_Cons:
  "branchMessages (e # es) = (case getBranchMessage e of None \<Rightarrow> branchMessages es | Some m \<Rightarrow> m # branchMessages es)"
  by (simp add: branchMessages_def List.map_filter_def split: option.split)

lemma branchMessages_append: "branchMessages (xs @ ys) = branchMessages xs @ branchMessages ys"
  by (simp add: branchMessages_def List.map_filter_def)

lemma summary_role:
  assumes "e_type e = CompactionType \<or> e_type e = BranchSummaryType" "getBranchMessage e = Some m"
  shows "role m \<in> {CompactionSummaryRole, BranchSummaryRole}"
  using assms by (auto simp: e_type_def getBranchMessage_def getMessageFromEntry_def createBranchSummaryMessage_def
      createCompactionSummaryMessage_def split: entry_data.splits)

lemma prepareBranchLoop_spec:
  assumes "bp_totalTokens acc = tokensOf (bp_messages acc)" "0 < budget \<Longrightarrow> bp_totalTokens acc \<le> budget"
  shows "branch_fits budget (prepareBranchLoop budget es acc)
    \<and> (\<exists>k. bp_messages (prepareBranchLoop budget es acc) = drop k (branchMessages (rev es)) @ bp_messages acc)
    \<and> (budget \<le> 0 \<longrightarrow> bp_messages (prepareBranchLoop budget es acc) = branchMessages (rev es) @ bp_messages acc)"
  using assms
proof (induction es arbitrary: acc)
  case Nil then show ?case by (simp add: branch_fits_def branchMessages_def List.map_filter_def)
next
  case (Cons e es)
  show ?case
  proof (cases "getBranchMessage e")
    case None
    with Cons show ?thesis by (simp add: branchMessages_append branchMessages_Cons) (simp add: branchMessages_def List.map_filter_def)
  next
    case (Some m)
    define acc' where "acc' = acc\<lparr>bp_fileOps := extractFileOpsFromMessage m (bp_fileOps acc)\<rparr>"
    define added where "added = acc'\<lparr>bp_messages := m # bp_messages acc', bp_totalTokens := bp_totalTokens acc' + int (estimateTokens m)\<rparr>"
    have acc': "bp_messages acc' = bp_messages acc" "bp_totalTokens acc' = bp_totalTokens acc" by (simp_all add: acc'_def)
    have added: "bp_messages added = m # bp_messages acc" "bp_totalTokens added = bp_totalTokens acc + int (estimateTokens m)"
      by (simp_all add: added_def acc')
    have sum: "bp_totalTokens added = tokensOf (bp_messages added)" using Cons.prems(1) by (simp add: added tokensOf_def)
    have msgs: "branchMessages (rev (e # es)) = branchMessages (rev es) @ [m]"
      using Some by (simp add: branchMessages_append branchMessages_Cons) (simp add: branchMessages_def List.map_filter_def)
    let ?over = "budget > 0 \<and> bp_totalTokens acc' + int (estimateTokens m) > budget"
    let ?take = "(e_type e = CompactionType \<or> e_type e = BranchSummaryType) \<and> 10 * bp_totalTokens acc' < 9 * budget"
    have loop: "prepareBranchLoop budget (e # es) acc =
        (if ?over then if ?take then added else acc' else prepareBranchLoop budget es added)"
      by (simp add: Some Let_def acc'_def added_def)
    show ?thesis
    proof (cases ?over)
      case over: True
      have all: "drop (length (branchMessages (rev es))) (branchMessages (rev es) @ [m]) = [m]"
        "drop (Suc (length (branchMessages (rev es)))) (branchMessages (rev es) @ [m]) = []" by simp_all
      have "branch_fits budget acc'" using Cons.prems over by (simp add: branch_fits_def acc')
      moreover have "branch_fits budget added" if ?take
        using sum that summary_role [OF _ Some] Cons.prems(1) by (auto simp: branch_fits_def added acc')
      ultimately show ?thesis unfolding loop msgs using over all by (auto simp: acc' added intro: exI [of _ "length (branchMessages (rev es))"] exI [of _ "Suc (length (branchMessages (rev es)))"])
    next
      case False
      have "0 < budget \<Longrightarrow> bp_totalTokens added \<le> budget" using False by (simp add: added acc')
      from Cons.IH [OF sum this] obtain k where ih: "branch_fits budget (prepareBranchLoop budget es added)"
        "bp_messages (prepareBranchLoop budget es added) = drop k (branchMessages (rev es)) @ m # bp_messages acc"
        "budget \<le> 0 \<longrightarrow> bp_messages (prepareBranchLoop budget es added) = branchMessages (rev es) @ m # bp_messages acc"
        by (auto simp: added)
      have "drop (min k (length (branchMessages (rev es)))) (branchMessages (rev es) @ [m]) = drop k (branchMessages (rev es)) @ [m]"
        by (simp add: min_def)
      with ih False show ?thesis unfolding loop msgs by (auto intro: exI [of _ "min k (length (branchMessages (rev es)))"])
    qed
  qed
qed

section \<open>Properties\<close>

text \<open>
  Navigating away from a branch of a reachable session summarizes exactly the entries that the
  new branch does not share, in the order of the tree, and stops at the deepest common ancestor; the walk ends.
\<close>

theorem branch_entries_difference:
  assumes "storage_reachable m" "so_getEntry memoryStorage old m = Some eo" "so_getEntry memoryStorage target m = Some et"
    and "so_getEntry memoryStorage [] m = None"
  shows "\<exists>oldPath targetPath ancestor entries.
    collectEntriesForBranchSummary memoryStorage (Some old) target m = Some (Inr (entries, ancestor))
    \<and> ancestry (\<lambda>j. so_getEntry memoryStorage j m) oldPath \<and> hd oldPath = eo
    \<and> ancestry (\<lambda>j. so_getEntry memoryStorage j m) targetPath \<and> hd targetPath = et
    \<and> (\<exists>rest. oldPath = rev entries @ rest) \<and> set entries = set oldPath - set targetPath
    \<and> ancestor = map_option e_id (find (\<lambda>e. e \<in> set oldPath) targetPath)"
  by (rule memory.collect_difference [OF storage_reachable_ok [OF assms(1)] assms(2-4)])

text \<open>
  The branch messages sent to the summarizer are the newest ones, contiguous and in order; their
  estimate is the reported total and stays within the budget, except that one last summary message may
  pass it when less than nine tenths were used. Without a budget all are sent.
\<close>

theorem branch_budget:
  "branch_fits budget (prepareBranchEntries es budget)
   \<and> (\<exists>k. bp_messages (prepareBranchEntries es budget) = drop k (branchMessages es))
   \<and> (budget \<le> 0 \<longrightarrow> bp_messages (prepareBranchEntries es budget) = branchMessages es)"
  using prepareBranchLoop_spec [of "\<lparr>bp_messages = [], bp_fileOps = fold branchDetails es createFileOps, bp_totalTokens = 0\<rparr>"
      budget "rev es"]
  by (simp add: prepareBranchEntries_def tokensOf_def)

end
