(* ===== verification/CompactionDemo.thy ===== *)
theory CompactionDemo
  imports CompactionProps BranchSummary SessionProps
begin

text \<open>
  A concrete conversation: the properties of compactions and branch summaries applied to it.
\<close>

definition demo_user :: "string \<Rightarrow> agent_message" where
  "demo_user s = UserMessage \<lparr>um_content = TextBody s, um_timestamp = 1\<rparr>"

definition demo_usage :: usage where
  "demo_usage = \<lparr>u_input = 1, u_output = 1, u_cacheRead = 0, u_cacheWrite = 0, u_cacheWrite1h = None, u_reasoning = None,
     u_totalTokens = 2, u_cost = \<lparr>cost_input = 0, cost_output = 0, cost_cacheRead = 0, cost_cacheWrite = 0, cost_total = 0\<rparr>\<rparr>"

definition demo_reply :: "content list \<Rightarrow> assistant_message" where
  "demo_reply cs = \<lparr>am_content = cs, am_api = ''api'', am_provider = ''p'', am_model = ''m'', am_responseModel = None,
     am_responseId = None, am_diagnostics = None, am_usage = demo_usage, am_stopReason = StopStop, am_deferred = None,
     am_errorMessage = None, am_rawStopReason = None, am_endTurn = None, am_timestamp = 2\<rparr>"

definition demo_call :: content where
  "demo_call = ToolCallContent \<lparr>tc_id = ''c'', tc_name = ''edit'', tc_arguments = [(''path'', JsonString ''f.ts'')],
     tc_thoughtSignature = None, tc_namespace = None\<rparr>"

definition demo_tool_result :: agent_message where
  "demo_tool_result = ToolResultMessage \<lparr>tr_toolCallId = ''c'', tr_toolName = ''edit'',
     tr_content = [TextContent ''a long result'' None], tr_details = None, tr_usage = None, tr_addedToolNames = None,
     tr_isError = False, tr_timestamp = 3\<rparr>"

definition demo_entry :: "string \<Rightarrow> agent_message \<Rightarrow> entry" where
  "demo_entry i m = \<lparr>e_id = i, e_seq = 1, e_parentId = None, e_timestamp = 1, e_data = MessageEntry m False\<rparr>"

definition demo_settings :: compaction_settings where
  "demo_settings = \<lparr>st_enabled = True, st_reserveTokens = 100, st_keepRecentTokens = 1\<rparr>"

text \<open>Two turns; the cut falls into the second one.\<close>

definition demo_messages :: "agent_message list" where
  "demo_messages = [demo_user ''one'', AssistantMessage (demo_reply [demo_call]), demo_user ''two'',
     AssistantMessage (demo_reply [TextContent ''done'' None])]"

definition demo_path :: "entry list" where
  "demo_path = map (demo_entry ''x'') demo_messages"

text \<open>A turn that ends with the result of its tool call.\<close>

definition demo_open_path :: "entry list" where
  "demo_open_path = map (demo_entry ''x'') [demo_user ''one'', AssistantMessage (demo_reply [demo_call]), demo_tool_result]"

lemmas demo_simps = demo_entry_def demo_user_def demo_reply_def demo_call_def demo_tool_result_def e_type_def

lemma demo_prepared:
  "\<exists>prep. prepareCompaction demo_path demo_settings = Some prep"
  "\<exists>prep. prepareCompaction demo_open_path demo_settings = Some prep"
  by (simp_all add: prepareCompaction_def demo_path_def demo_open_path_def demo_messages_def demo_simps Let_def)

lemma demo_no_previous:
  "newestCompaction demo_path (length demo_path) = None" "newestCompaction demo_open_path (length demo_open_path) = None"
  by (simp_all add: newestCompaction_None demo_path_def demo_open_path_def demo_messages_def demo_simps less_Suc_eq)

lemma demo_compactable: "compactableEntries demo_path = demo_path" "compactableEntries demo_open_path = demo_open_path"
  by (simp_all add: compactableEntries_def demo_no_previous)

lemma messagesOf_demo: "messagesOf (map (demo_entry i) ms) = ms"
  by (induction ms) (simp_all add: messagesOf_Cons getMessageFromEntryForCompaction_def getMessageFromEntry_def demo_entry_def
      e_type_def messagesOf_def List.map_filter_def)


lemma tokens_demo:
  "estimateTokens (AssistantMessage (demo_reply [TextContent ''done'' None])) = 1"
  "estimateTokens demo_tool_result = 4"
  by (simp_all add: demo_reply_def demo_tool_result_def assistantChars_def ceil4_def estimateTextAndImageContentChars_def)

lemma demo_cut_points:
  "findValidCutPoints demo_path 0 4 = [0, 1, 2, 3]" "findValidCutPoints demo_open_path 0 3 = [0, 1]"
  by (simp_all add: findValidCutPoints_def upt_rec_numeral upt_conv_Cons demo_path_def demo_open_path_def demo_messages_def
      is_cut_point_def demo_simps)

lemma demo_budget:
  "budgetIndex demo_path 0 1 4 0 = Some 3" "budgetIndex demo_open_path 0 1 3 0 = Some 2"
  using tokens_demo
  by (simp_all add: budgetIndex.simps(2) [where i = 3, simplified] budgetIndex.simps(2) [where i = 2, simplified]
      demo_path_def demo_open_path_def demo_messages_def demo_entry_def)

lemma demo_cut: "findCutPoint demo_path 0 4 1 = \<lparr>cp_firstKeptEntryIndex = 3, cp_turnStartIndex = Some 2, cp_isSplitTurn = True\<rparr>"
proof -
  have "widenCut demo_path 0 3 = 3"
    using widenCut.simps(2) [of demo_path 0 2] by (simp add: demo_path_def demo_messages_def demo_simps)
  moreover have "findTurnStartIndex demo_path 3 0 = Some 2"
    using scanTurnStart.simps(2) [of demo_path 0 3] scanTurnStart.simps(2) [of demo_path 0 2]
    by (simp add: findTurnStartIndex_def demo_path_def demo_messages_def demo_simps starts_turn_def)
  ultimately show ?thesis
    by (simp add: findCutPoint_def demo_cut_points chooseCut_def demo_budget Let_def)
      (simp add: demo_path_def demo_messages_def demo_simps)
qed

lemma demo_parts:
  assumes "prepareCompaction demo_path demo_settings = Some prep"
  shows "prep_messagesToSummarize prep = take 2 demo_messages" "prep_turnPrefixMessages prep = [demo_user ''two'']"
proof -
  have len: "length demo_path = 4" by (simp add: demo_path_def demo_messages_def)
  have two: "take 2 demo_path = map (demo_entry ''x'') (take 2 demo_messages)"
    "take (Suc 0) (drop 2 demo_path) = map (demo_entry ''x'') [demo_user ''two'']"
    by (simp_all add: demo_path_def demo_messages_def)
  have one: "messagesOf [demo_entry ''x'' (demo_user ''two'')] = [demo_user ''two'']"
    using messagesOf_demo [of "''x''" "[demo_user ''two'']"] by simp
  have cp: "findCutPoint (compactableEntries demo_path) 0 (length (compactableEntries demo_path)) (st_keepRecentTokens demo_settings)
      = \<lparr>cp_firstKeptEntryIndex = 3, cp_turnStartIndex = Some 2, cp_isSplitTurn = True\<rparr>"
    by (simp add: demo_compactable len demo_settings_def demo_cut)
  from assms obtain es c where es: "es = compactableEntries demo_path"
    and c: "findCutPoint es 0 (length es) (st_keepRecentTokens demo_settings) = c"
    and parts: "prep_messagesToSummarize prep =
       messagesOf (slice_of 0 (if cp_isSplitTurn c then the (cp_turnStartIndex c) else cp_firstKeptEntryIndex c) es)"
     "prep_turnPrefixMessages prep =
       (if cp_isSplitTurn c then messagesOf (slice_of (the (cp_turnStartIndex c)) (cp_firstKeptEntryIndex c) es) else [])"
    by (rule prepareCompaction_Some)
  have "c = \<lparr>cp_firstKeptEntryIndex = 3, cp_turnStartIndex = Some 2, cp_isSplitTurn = True\<rparr>" using c cp es by simp
  then show "prep_messagesToSummarize prep = take 2 demo_messages" "prep_turnPrefixMessages prep = [demo_user ''two'']"
    unfolding parts es demo_compactable by (simp_all add: slice_of_def two messagesOf_demo one)
qed

theorem compaction_tail_start_witness:
  "\<exists>prep. prepareCompaction demo_path demo_settings = Some prep
    \<and> prep_retainedTail prep \<noteq> [] \<and> role (hd (prep_retainedTail prep)) \<noteq> ToolResultRole"
proof -
  obtain prep where prep: "prepareCompaction demo_path demo_settings = Some prep" using demo_prepared by blast
  have "prep_messagesToSummarize prep @ prep_turnPrefixMessages prep \<noteq> []"
    by (simp add: demo_parts(2) [OF prep])
  with compaction_tail_start [OF prep] prep show ?thesis by blast
qed

theorem compaction_budget_witness:
  "\<exists>c. cp_firstKeptEntryIndex (findCutPoint demo_path 0 (length demo_path) 1) \<le> c \<and> c < length demo_path
    \<and> is_cut_point (demo_path ! c)
    \<and> messageTokens (slice_of (cp_firstKeptEntryIndex (findCutPoint demo_path 0 (length demo_path) 1)) c demo_path) = 0
    \<and> int (messageTokens (drop (Suc c) demo_path)) < 1"
proof (rule compaction_budget [OF refl])
  have len: "length demo_path = 4" by (simp add: demo_path_def demo_messages_def)
  show "budget_cut demo_path 1" "findValidCutPoints demo_path 0 (length demo_path) \<noteq> []"
    by (simp_all add: budget_cut_def len demo_budget demo_cut_points)
qed simp

theorem compaction_fallback_witness:
  "\<exists>prep. prepareCompaction demo_open_path demo_settings = Some prep
    \<and> prep_turnPrefixMessages prep = [] \<and> AssistantRole \<notin> role ` set (prep_messagesToSummarize prep)"
proof -
  obtain prep where prep: "prepareCompaction demo_open_path demo_settings = Some prep" using demo_prepared by blast
  have len: "length demo_open_path = 3" by (simp add: demo_open_path_def)
  have "\<not> budget_cut (compactableEntries demo_open_path) (st_keepRecentTokens demo_settings)"
    by (simp add: budget_cut_def demo_compactable len demo_settings_def demo_budget demo_cut_points)
  from compaction_fallback [OF prep this] prep show ?thesis by (intro exI [of _ prep]) auto
qed

definition demo_model :: summary_model where
  "demo_model = \<lparr>md_maxTokens = 0, md_contextWindow = 0, md_reasoning = False\<rparr>"

definition demo_llm :: "unit llm" where
  "demo_llm request w = (demo_reply [TextContent ''sum'' None], w)"

definition demo_options :: summary_options where
  "demo_options = \<lparr>so_customInstructions = None, so_thinkingLevel = None\<rparr>"

lemma demo_compact: "\<exists>r. compact demo_llm prep demo_model demo_options () = (Inr r, ())"
  by (cases "computeFileLists (prep_fileOps prep)")
    (auto simp: compact_def compactSummary_def generateSummaryWithUsage_def generateTurnPrefixSummary_def Let_def
      demo_llm_def summaryResult_def demo_reply_def split: prod.split)

theorem compact_files_witness:
  "\<exists>prep r. prepareCompaction demo_path demo_settings = Some prep
    \<and> compact demo_llm prep demo_model demo_options () = (Inr r, ()) \<and> cr_modifiedFiles r = [''f.ts'']"
proof -
  obtain prep where prep: "prepareCompaction demo_path demo_settings = Some prep" using demo_prepared by blast
  obtain r where r: "compact demo_llm prep demo_model demo_options () = (Inr r, ())" using demo_compact by blast
  have gone: "prep_messagesToSummarize prep @ prep_turnPrefixMessages prep
      = [demo_user ''one'', AssistantMessage (demo_reply [demo_call]), demo_user ''two'']"
    by (simp add: demo_parts [OF prep] demo_messages_def)
  have "touched tool [demo_user ''one'', AssistantMessage (demo_reply [demo_call]), demo_user ''two'']
      = (if tool = ''edit'' then {''f.ts''} else {})" for tool
    by (auto simp: touched_def demo_user_def demo_reply_def demo_call_def)
  then have "set (cr_modifiedFiles r) = {''f.ts''}" "distinct (cr_modifiedFiles r)"
    using compact_files [OF prep r] unfolding gone Let_def demo_no_previous
    by (simp_all add: extractFileOperations_def createFileOps_def)
  then have "cr_modifiedFiles r = [''f.ts'']"
    by (cases "cr_modifiedFiles r" rule: remdups_adj.cases) auto
  with prep r show ?thesis by blast
qed

theorem branch_budget_witness: "bp_messages (prepareBranchEntries (map (demo_entry ''x'') [demo_user ''one'']) 0) = [demo_user ''one'']"
  using branch_budget [of 0 "map (demo_entry ''x'') [demo_user ''one'']"]
  by (simp add: branchMessages_def List.map_filter_def getBranchMessage_def getMessageFromEntry_def demo_entry_def demo_user_def)

definition demo_m3 :: memory_storage where
  "demo_m3 = newMemoryStorage demo_metadata\<lparr>ms_state := demo_s2\<rparr>"

lemma demo_m2_step: "memAppendEntry 7 \<lparr>p_id = ''a'', p_data = MessageEntry demo_message False\<rparr> ''main''
    (newMemoryStorage demo_metadata) = Inr (demo_e1, demo_m2)"
  using demo_s1_step
  by (simp add: memAppendEntry_def requireLane_def validateUnusedId_def memApply_def newMemoryStorage_def
      demo_m2_def nextSequence_def Let_def initState_def demo_e1_def)

lemma demo_m3_step: "memAppendEntry 8 \<lparr>p_id = ''b'', p_data = ThinkingLevelEntry ''high''\<rparr> ''main'' demo_m2 = Inr (demo_e2, demo_m3)"
proof -
  have "s_lanes demo_s1 = [(''main'', Some ''a'')]" "s_usedIds demo_s1 = {''a''}" "s_sequence demo_s1 = 1"
    by (simp_all add: demo_s1_def putEntry_def initState_def demo_e1_def)
  with demo_s2_step show ?thesis
    by (simp add: memAppendEntry_def requireLane_def validateUnusedId_def memApply_def newMemoryStorage_def
        demo_m2_def demo_m3_def nextSequence_def Let_def demo_e2_def numeral_2_eq_2)
qed

theorem branch_entries_difference_witness:
  "\<exists>oldPath targetPath ancestor entries.
    collectEntriesForBranchSummary memoryStorage (Some ''b'') ''a'' demo_m3 = Some (Inr (entries, ancestor))
    \<and> ancestry (\<lambda>j. so_getEntry memoryStorage j demo_m3) oldPath \<and> hd oldPath = demo_e2
    \<and> ancestry (\<lambda>j. so_getEntry memoryStorage j demo_m3) targetPath \<and> hd targetPath = demo_e1
    \<and> (\<exists>rest. oldPath = rev entries @ rest) \<and> set entries = set oldPath - set targetPath
    \<and> ancestor = map_option e_id (find (\<lambda>e. e \<in> set oldPath) targetPath)"
proof (rule branch_entries_difference)
  show "storage_reachable demo_m3" by (rule sr_appendEntry [OF sr_appendEntry [OF sr_new demo_m2_step] demo_m3_step])
  show "so_getEntry memoryStorage ''b'' demo_m3 = Some demo_e2" "so_getEntry memoryStorage ''a'' demo_m3 = Some demo_e1"
    "so_getEntry memoryStorage [] demo_m3 = None"
    by (simp_all add: memoryStorage_def demo_m3_def getEntry_def demo_s2_def demo_s1_def putEntry_def initState_def
        demo_e1_def demo_e2_def)
qed

end
