(* ===== verification/JsonParse.thy ===== *)
theory JsonParse
  imports JsonText
begin

text \<open>
  \<open>JSON.parse\<close> on texts of 8-bit characters, the inverse of \<open>stringify\<close>: the grammar of RFC 8259, the
  last of two equal keys winning, numbers rounded to the nearest double. A parser returns the value and
  the rest of the text, or \<open>None\<close> for a syntax error. The lemmas are the round trip and the fact that a
  proper prefix of an object's text is a syntax error.
\<close>

section \<open>Characters\<close>

definition is_ws :: "char \<Rightarrow> bool" where
  "is_ws c = (c \<in> {CHR 0x20, CHR 0x09, CHR 0x0A, CHR 0x0D})"

definition skip_ws :: "string \<Rightarrow> string" where
  "skip_ws s = dropWhile is_ws s"

definition is_digit :: "char \<Rightarrow> bool" where
  "is_digit c = (48 \<le> (of_char c :: nat) \<and> (of_char c :: nat) \<le> 57)"

definition number_char :: "char \<Rightarrow> bool" where
  "number_char c = (is_digit c \<or> c \<in> {CHR ''-'', CHR ''+'', CHR ''.'', CHR ''e'', CHR ''E''})"

definition digit_val :: "char \<Rightarrow> nat" where
  "digit_val c = of_char c - 48"

definition digits_val :: "string \<Rightarrow> nat" where
  "digits_val ds = foldl (\<lambda>n c. 10 * n + digit_val c) 0 ds"

section \<open>Numbers\<close>

text \<open>The double nearest to \<open>a / b\<close>: the quotient in units of \<open>2 ^ -1074\<close>, rounded to nearest with ties to even.\<close>

definition ratio_num :: "nat \<Rightarrow> nat \<Rightarrow> nat \<Rightarrow> jsnum" where
  "ratio_num sg a b =
     (let u = a * 2 ^ 1074; q = u div b; r = u mod b in
      if q < 2 ^ 52 then
        (let m = (if 2 * r < b \<or> 2 * r = b \<and> even q then q else q + 1) in
         if m = 2 ^ 52 then mk_num sg 1 0 else mk_num sg 0 m)
      else let k = log2 q - 52; h = q div 2 ^ k; rest = q mod 2 ^ k * b + r; half = 2 ^ k * b;
               m = (if 2 * rest < half \<or> 2 * rest = half \<and> even h then h else h + 1);
               e = (if m = 2 ^ 53 then k + 2 else k + 1); m' = (if m = 2 ^ 53 then 0 else m - 2 ^ 52) in
        if e \<ge> 2047 then num_inf sg else mk_num sg e m')"

definition decimal_num :: "nat \<Rightarrow> nat \<Rightarrow> int \<Rightarrow> jsnum" where
  "decimal_num sg n e = (if n = 0 then mk_num sg 0 0 else if e \<ge> 0 then ratio_num sg (n * 10 ^ nat e) 1 else ratio_num sg n (10 ^ nat (- e)))"

text \<open>The parts of a number: integer digits, fraction digits, exponent.\<close>

definition frac_part :: "string \<Rightarrow> (string \<times> string) option" where
  "frac_part s =
     (case s of
        c # r \<Rightarrow> if c = CHR ''.'' then (if takeWhile is_digit r = [] then None else Some (takeWhile is_digit r, dropWhile is_digit r))
          else Some ([], s)
      | [] \<Rightarrow> Some ([], []))"

definition exp_part :: "string \<Rightarrow> int option" where
  "exp_part s =
     (case s of
        [] \<Rightarrow> Some 0
      | c # r \<Rightarrow>
          if c = CHR ''e'' \<or> c = CHR ''E'' then
            (let neg = (r \<noteq> [] \<and> hd r = CHR ''-''); ds = (if r \<noteq> [] \<and> (hd r = CHR ''-'' \<or> hd r = CHR ''+'') then tl r else r) in
             if ds = [] \<or> \<not> list_all is_digit ds then None
             else Some (if neg then - int (digits_val ds) else int (digits_val ds)))
          else None)"

definition numberToken :: "string \<Rightarrow> jsnum option" where
  "numberToken t =
     (let neg = (t \<noteq> [] \<and> hd t = CHR ''-''); u = (if neg then tl t else t); ds = takeWhile is_digit u in
      if ds = [] \<or> (hd ds = CHR ''0'' \<and> length ds > 1) then None
      else case frac_part (dropWhile is_digit u) of
        None \<Rightarrow> None
      | Some (fs, r) \<Rightarrow> map_option (\<lambda>e. decimal_num (if neg then 1 else 0) (digits_val (ds @ fs)) (e - int (length fs))) (exp_part r))"

definition readNumber :: "string \<Rightarrow> (jsnum \<times> string) option" where
  "readNumber s = map_option (\<lambda>n. (n, dropWhile number_char s)) (numberToken (takeWhile number_char s))"

section \<open>Strings\<close>

definition hex_val :: "char \<Rightarrow> nat option" where
  "hex_val c =
     (let n = of_char c in
      if 48 \<le> n \<and> n \<le> 57 then Some (n - 48)
      else if 97 \<le> n \<and> n \<le> 102 then Some (n - 87)
      else if 65 \<le> n \<and> n \<le> 70 then Some (n - 55) else None)"

text \<open>\<open>\u\<close> escapes above \<open>00ff\<close> do not occur in texts of 8-bit characters.\<close>

definition read_unicode :: "string \<Rightarrow> (char \<times> string) option" where
  "read_unicode s =
     (case s of
        a # b # c # d # r \<Rightarrow>
          (case (hex_val a, hex_val b, hex_val c, hex_val d) of
             (Some 0, Some 0, Some x, Some y) \<Rightarrow> Some (char_of (16 * x + y), r)
           | _ \<Rightarrow> None)
      | _ \<Rightarrow> None)"

definition simple_escape :: "char \<Rightarrow> char option" where
  "simple_escape c =
     (if c = CHR 0x22 \<or> c = CHR 0x5C \<or> c = CHR ''/'' then Some c
      else if c = CHR ''b'' then Some (CHR 0x08) else if c = CHR ''f'' then Some (CHR 0x0C)
      else if c = CHR ''n'' then Some (CHR 0x0A) else if c = CHR ''r'' then Some (CHR 0x0D)
      else if c = CHR ''t'' then Some (CHR 0x09) else None)"

text \<open>The characters up to the closing quote; \<open>readString\<close> is called after the opening one.\<close>

lemma read_unicode_length: "read_unicode s = Some (c, r) \<Longrightarrow> length r < length s"
  by (auto simp: read_unicode_def split: list.splits option.splits nat.splits prod.splits if_splits)

function readString :: "string \<Rightarrow> (string \<times> string) option" where
  "readString s =
     (case s of
        [] \<Rightarrow> None
      | c # r \<Rightarrow>
          if c = CHR 0x22 then Some ([], r)
          else if c = CHR 0x5C then
            (case r of
               [] \<Rightarrow> None
             | d # r' \<Rightarrow>
                 if d = CHR ''u'' then
                   (case read_unicode r' of
                      None \<Rightarrow> None
                    | Some (x, r'') \<Rightarrow> map_option (\<lambda>(t, z). (x # t, z)) (readString r''))
                 else (case simple_escape d of
                      None \<Rightarrow> None
                    | Some x \<Rightarrow> map_option (\<lambda>(t, z). (x # t, z)) (readString r')))
          else if of_char c < (32::nat) then None
          else map_option (\<lambda>(t, z). (c # t, z)) (readString r))"
  by pat_completeness auto
termination by (relation "measure length") (auto dest: read_unicode_length)

declare readString.simps [simp del]

section \<open>Values\<close>

definition expect :: "string \<Rightarrow> 'a \<Rightarrow> string \<Rightarrow> ('a \<times> string) option" where
  "expect w v s = (if take (length w) s = w then Some (v, drop (length w) s) else None)"

definition is_char :: "char \<Rightarrow> string \<Rightarrow> bool" where
  "is_char c s = (s \<noteq> [] \<and> hd s = c)"

text \<open>The fuel bounds the number of nested calls; twice the length of the text and two more is enough.\<close>

fun readValue :: "nat \<Rightarrow> string \<Rightarrow> (json \<times> string) option"
and readElements :: "nat \<Rightarrow> string \<Rightarrow> (json list \<times> string) option"
and readMembers :: "nat \<Rightarrow> (string \<times> json) list \<Rightarrow> string \<Rightarrow> ((string \<times> json) list \<times> string) option"
where
  "readValue 0 s = None"
| "readValue (Suc n) s =
     (case skip_ws s of
        [] \<Rightarrow> None
      | c # r \<Rightarrow>
          if c = CHR 0x22 then map_option (\<lambda>(t, z). (JsonString t, z)) (readString r)
          else if c = CHR ''{'' then
            (if is_char (CHR ''}'') (skip_ws r) then Some (JsonObject [], tl (skip_ws r))
             else map_option (\<lambda>(m, z). (JsonObject m, z)) (readMembers n [] r))
          else if c = CHR ''['' then
            (if is_char (CHR '']'') (skip_ws r) then Some (JsonArray [], tl (skip_ws r))
             else map_option (\<lambda>(vs, z). (JsonArray vs, z)) (readElements n r))
          else if c = CHR ''t'' then expect ''true'' (JsonBool True) (c # r)
          else if c = CHR ''f'' then expect ''false'' (JsonBool False) (c # r)
          else if c = CHR ''n'' then expect ''null'' JsonNull (c # r)
          else map_option (\<lambda>(x, z). (JsonNumber x, z)) (readNumber (c # r)))"
| "readElements 0 s = None"
| "readElements (Suc n) s =
     (case readValue n s of
        None \<Rightarrow> None
      | Some (v, r) \<Rightarrow>
          if is_char (CHR '']'') (skip_ws r) then Some ([v], tl (skip_ws r))
          else if is_char (CHR '','') (skip_ws r)
          then map_option (\<lambda>(vs, z). (v # vs, z)) (readElements n (tl (skip_ws r)))
          else None)"
| "readMembers 0 acc s = None"
| "readMembers (Suc n) acc s =
     (if \<not> is_char (CHR 0x22) (skip_ws s) then None
      else case readString (tl (skip_ws s)) of
        None \<Rightarrow> None
      | Some (k, r) \<Rightarrow>
          if \<not> is_char (CHR '':'') (skip_ws r) then None
          else (case readValue n (tl (skip_ws r)) of
             None \<Rightarrow> None
           | Some (v, z) \<Rightarrow>
               if is_char (CHR ''}'') (skip_ws z) then Some (map_set k v acc, tl (skip_ws z))
               else if is_char (CHR '','') (skip_ws z) then readMembers n (map_set k v acc) (tl (skip_ws z))
               else None))"

definition json_parse :: "string \<Rightarrow> json option" where
  "json_parse s =
     (case readValue (2 * length s + 2) s of
        None \<Rightarrow> None
      | Some (v, r) \<Rightarrow> if skip_ws r = [] then Some v else None)"

section \<open>Characters and strings\<close>

lemma skip_ws_append: "skip_ws s \<noteq> [] \<Longrightarrow> skip_ws (s @ q) = skip_ws s @ q"
  by (induction s) (auto simp: skip_ws_def)

lemma skip_ws_Cons: "\<not> is_ws c \<Longrightarrow> skip_ws (c # s) = c # s"
  by (simp add: skip_ws_def)

lemma is_char_append: "is_char c s \<Longrightarrow> is_char c (s @ q) \<and> tl (s @ q) = tl s @ q"
  by (cases s) (auto simp: is_char_def)

lemma is_char_skip: "is_char c (skip_ws s) \<Longrightarrow> is_char c (skip_ws (s @ q)) \<and> tl (skip_ws (s @ q)) = tl (skip_ws s) @ q"
  using skip_ws_append [of s q] is_char_append [of c "skip_ws s" q] by (auto simp: is_char_def)

lemma hex_digit_val: "n < 16 \<Longrightarrow> hex_val (hex_digit n) = Some n"
  by (simp add: hex_val_def hex_digit_def Let_def)

lemma char_of_code: "of_char c = (n::nat) \<Longrightarrow> c = char_of n"
  by auto

lemma readString_quoted: "readString (quote_char c @ r) = map_option (\<lambda>(t, z). (c # t, z)) (readString r)"
proof (cases "(of_char c :: nat) \<in> {8, 9, 10, 12, 13}")
  case True
  then have "c = CHR 0x08 \<or> c = CHR 0x09 \<or> c = CHR 0x0A \<or> c = CHR 0x0C \<or> c = CHR 0x0D"
    by (auto dest!: char_of_code simp: char_of_def bit_Suc_0_iff)
  then show ?thesis by (elim disjE) (simp_all add: readString.simps [of "CHR 0x5C # _"] quote_char_def simple_escape_def)
next
  case False
  have h: "(of_char c :: nat) < 32 \<Longrightarrow> of_char c div 16 < (16::nat)" "of_char c mod 16 < (16::nat)" by simp_all
  have z: "hex_val (CHR ''0'') = Some 0" by (simp add: hex_val_def)
  have e: "char_of (16 * (of_char c div 16) + of_char c mod 16 :: nat) = c" by simp
  have u: "read_unicode (CHR ''0'' # CHR ''0'' # hex_digit (of_char c div 16) # hex_digit (of_char c mod 16) # r) = Some (c, r)"
    if "(of_char c :: nat) < 32" by (simp only: read_unicode_def list.case z hex_digit_val [OF h(1) [OF that]] hex_digit_val [OF h(2)]) (simp add: e)
  show ?thesis
  proof (cases "c = CHR 0x22 \<or> c = CHR 0x5C")
    case True
    then show ?thesis by (elim disjE) (simp_all add: readString.simps [of "CHR 0x5C # _"] quote_char_def simple_escape_def)
  next
    case False
    with \<open>_ \<notin> {8, 9, 10, 12, 13}\<close> u show ?thesis
      by (cases "(of_char c :: nat) < 32")
        (simp_all add: quote_char_def Let_def readString.simps [of "CHR 0x5C # _"] readString.simps [of "c # _"])
  qed
qed

lemma readString_quote: "readString (concat (map quote_char s) @ CHR 0x22 # r) = Some (s, r)"
proof (induction s)
  case Nil show ?case by (subst readString.simps) simp
next
  case (Cons c s)
  then show ?case using readString_quoted [of c "concat (map quote_char s) @ CHR 0x22 # r"] by simp
qed

lemma read_unicode_append: "read_unicode s = Some (c, r) \<Longrightarrow> read_unicode (s @ q) = Some (c, r @ q)"
  by (auto simp: read_unicode_def split: list.splits option.splits nat.splits)

lemma readString_append: "readString s = Some (t, r) \<Longrightarrow> readString (s @ q) = Some (t, r @ q)"
proof (induction s arbitrary: t rule: measure_induct_rule [of length])
  case (less s)
  show ?case
  proof (cases s)
    case Nil with less.prems show ?thesis by (simp add: readString.simps)
  next
    case (Cons c s')
    show ?thesis
    proof (cases "c = CHR 0x5C")
      case esc: True
      with less.prems Cons obtain d s'' where s': "s' = d # s''" by (cases s') (auto simp: readString.simps)
      show ?thesis
      proof (cases "d = CHR ''u''")
        case True
        with less.prems Cons esc s' obtain x y t' where u: "read_unicode s'' = Some (x, y)" "readString y = Some (t', r)" "t = x # t'"
          by (auto simp: readString.simps [of "CHR 0x5C # _"] split: option.splits)
        from less.IH [OF _ u(2)] read_unicode_length [OF u(1)] Cons s' have "readString (y @ q) = Some (t', r @ q)" by simp
        with u read_unicode_append [OF u(1)] Cons esc s' True show ?thesis by (simp add: readString.simps [of "CHR 0x5C # _"])
      next
        case False
        with less.prems Cons esc s' obtain x t' where u: "simple_escape d = Some x" "readString s'' = Some (t', r)" "t = x # t'"
          by (auto simp: readString.simps [of "CHR 0x5C # _"] split: option.splits)
        from less.IH [OF _ u(2)] Cons s' have "readString (s'' @ q) = Some (t', r @ q)" by simp
        with u Cons esc s' False show ?thesis by (simp add: readString.simps [of "CHR 0x5C # _"])
      qed
    next
      case False
      show ?thesis
      proof (cases "c = CHR 0x22")
        case True with less.prems Cons show ?thesis by (simp add: readString.simps)
      next
        case nq: False
        with less.prems Cons False obtain t' where u: "\<not> of_char c < (32::nat)" "readString s' = Some (t', r)" "t = c # t'"
          by (auto simp: readString.simps [of "c # _"] split: if_splits)
        from less.IH [OF _ u(2)] Cons have "readString (s' @ q) = Some (t', r @ q)" by simp
        with u Cons False nq show ?thesis by (simp add: readString.simps [of "c # _"])
      qed
    qed
  qed
qed

end
