(* ===== verification/JsonRoundtrip.thy ===== *)
theory JsonRoundtrip
  imports JsonParse
begin

text \<open>
  Facts of \<open>JSON.parse\<close>: more fuel and more text after a value change nothing, \<open>json_parse\<close> undoes
  \<open>stringify\<close>, a text of \<open>stringify\<close> has no line feed, and a proper prefix of an object is a syntax error.
\<close>

section \<open>Fuel and the rest of the text\<close>

lemmas reader_steps = readValue.simps(2) readElements.simps(2) readMembers.simps(2)

lemma reader_fuel:
  "readValue n s = Some x \<Longrightarrow> readValue (Suc n) s = Some x"
  "readElements n s = Some y \<Longrightarrow> readElements (Suc n) s = Some y"
  "readMembers n acc s = Some z \<Longrightarrow> readMembers (Suc n) acc s = Some z"
proof (induction n s and n s and n acc s arbitrary: x and y and z rule: readValue_readElements_readMembers.induct)
  case (2 n s)
  show ?case
  proof (cases "skip_ws s")
    case Nil with "2.prems" show ?thesis by simp
  next
    case (Cons c r)
    note ih = "2.IH" [OF Cons]
    from "2.prems" ih show ?thesis
      unfolding readValue.simps(2) [of n s] readValue.simps(2) [of "Suc n" s] Cons
      by (auto split: if_splits simp del: reader_steps)
  qed
next
  case (4 n s)
  from "4.prems" obtain v r where v: "readValue n s = Some (v, r)" by (auto split: option.splits)
  note ih = "4.IH"(2) [OF v refl]
  from "4.prems" ih show ?case
    unfolding readElements.simps(2) [of n s] readElements.simps(2) [of "Suc n" s] v "4.IH"(1) [OF v]
    by (auto split: if_splits simp del: reader_steps)
next
  case (6 n acc s)
  from "6.prems" obtain k r where k: "is_char (CHR 0x22) (skip_ws s)" "readString (tl (skip_ws s)) = Some (k, r)"
    "is_char (CHR '':'') (skip_ws r)" by (auto split: option.splits if_splits)
  from "6.prems" k obtain v z where v: "readValue n (tl (skip_ws r)) = Some (v, z)" by (auto split: option.splits if_splits)
  have v': "readValue (Suc n) (tl (skip_ws r)) = Some (v, z)" using "6.IH"(1) k v by blast
  have ih: "readMembers (Suc n) (map_set k v acc) (tl (skip_ws z)) = Some y"
    if "readMembers n (map_set k v acc) (tl (skip_ws z)) = Some y" "\<not> is_char (CHR ''}'') (skip_ws z)" "is_char (CHR '','') (skip_ws z)" for y
    using "6.IH"(2) [OF _ k(2) refl _ v refl that(2,3,1)] k(1,3) by blast
  from "6.prems" ih show ?case
    unfolding readMembers.simps(2) [of n acc s] readMembers.simps(2) [of "Suc n" acc s] k(2) option.case prod.case v v'
    by (auto split: if_splits simp del: reader_steps)
qed simp_all

lemma readValue_mono: "readValue n s = Some x \<Longrightarrow> n \<le> m \<Longrightarrow> readValue m s = Some x"
  by (induction m arbitrary: n) (auto simp: le_Suc_eq simp del: readValue.simps intro: reader_fuel(1))

lemma expect_append: "expect w v s = Some (x, r) \<Longrightarrow> expect w v (s @ q) = Some (x, r @ q)"
proof -
  assume e: "expect w v s = Some (x, r)"
  then have "take (length w) s = w" by (auto simp: expect_def split: if_splits)
  then obtain z where "s = w @ z" by (metis append_take_drop_id)
  with e show ?thesis by (simp add: expect_def)
qed

lemma readNumber_append: "readNumber s = Some (x, r) \<Longrightarrow> r \<noteq> [] \<Longrightarrow> readNumber (s @ q) = Some (x, r @ q)"
proof -
  assume e: "readNumber s = Some (x, r)" and r: "r \<noteq> []"
  then have d: "dropWhile number_char s = r" by (auto simp: readNumber_def)
  with r have "\<exists>c \<in> set s. \<not> number_char c" by (metis dropWhile_eq_Nil_conv)
  then obtain c where "c \<in> set s" "\<not> number_char c" by blast
  then have "dropWhile number_char (s @ q) = r @ q" "takeWhile number_char (s @ q) = takeWhile number_char s"
    using d by (simp_all add: dropWhile_append1 takeWhile_append1)
  with e show ?thesis by (auto simp: readNumber_def)
qed

lemma reader_nonempty:
  "readValue n s = Some x \<Longrightarrow> skip_ws s \<noteq> []"
  "readElements n s = Some y \<Longrightarrow> skip_ws s \<noteq> []"
  "readMembers n acc s = Some z \<Longrightarrow> skip_ws s \<noteq> []"
proof -
  show v: "readValue n s = Some x \<Longrightarrow> skip_ws s \<noteq> []" for n s x by (cases n) (auto split: list.splits)
  show "readElements n s = Some y \<Longrightarrow> skip_ws s \<noteq> []" using v by (cases n) (auto split: option.splits simp del: readValue.simps)
  show "readMembers n acc s = Some z \<Longrightarrow> skip_ws s \<noteq> []" by (cases n) (auto simp: is_char_def split: if_splits)
qed

lemma is_char_more: "skip_ws s \<noteq> [] \<Longrightarrow> is_char c (skip_ws (s @ q)) = is_char c (skip_ws s)"
  using skip_ws_append [of s q] by (auto simp: is_char_def)

lemma reader_append:
  "readValue n s = Some (v, r) \<Longrightarrow> r \<noteq> [] \<or> is_char (CHR ''{'') (skip_ws s) \<Longrightarrow> readValue n (s @ q) = Some (v, r @ q)"
  "readElements n s = Some (vs, r) \<Longrightarrow> readElements n (s @ q) = Some (vs, r @ q)"
  "readMembers n acc s = Some (m, r) \<Longrightarrow> readMembers n acc (s @ q) = Some (m, r @ q)"
proof (induction n s and n s and n acc s arbitrary: v r and vs r and m r rule: readValue_readElements_readMembers.induct)
  case (2 n s)
  show ?case
  proof (cases "skip_ws s")
    case Nil with "2.prems" show ?thesis by simp
  next
    case (Cons c z)
    have sk: "skip_ws (s @ q) = c # z @ q" using skip_ws_append [of s q] Cons by simp
    have w: "is_char d (skip_ws z) \<Longrightarrow> is_char d (skip_ws (z @ q)) \<and> tl (skip_ws (z @ q)) = tl (skip_ws z) @ q" for d
      by (rule is_char_skip)
    have e: "readElements n z = Some y \<Longrightarrow> is_char d (skip_ws (z @ q)) = is_char d (skip_ws z)"
      "readMembers n [] z = Some y' \<Longrightarrow> is_char d (skip_ws (z @ q)) = is_char d (skip_ws z)" for y y' d
      by (blast dest: reader_nonempty is_char_more)+
    have x: "expect u b (c # z) = Some (b', r') \<Longrightarrow> expect u b (c # z @ q) = Some (b', r' @ q)" for u b b' r'
      using expect_append [of u b "c # z"] by simp
    have nu: "readNumber (c # z) = Some (b, r') \<Longrightarrow> r' \<noteq> [] \<Longrightarrow> readNumber (c # z @ q) = Some (b, r' @ q)" for b r'
      using readNumber_append [of "c # z"] by simp
    note ih = "2.IH" [OF Cons]
    from "2.prems" ih w e x nu show ?thesis
      unfolding readValue.simps(2) [of n s] readValue.simps(2) [of n "s @ q"] Cons sk list.case
      by (auto split: if_splits simp: is_char_def [of _ "_ # _"] readString_append simp del: reader_steps)
  qed
next
  case (4 n s)
  from "4.prems" obtain v z where v: "readValue n s = Some (v, z)" by (auto split: option.splits)
  with "4.prems" have z: "skip_ws z \<noteq> []" by (auto simp: is_char_def split: if_splits)
  then have "z \<noteq> []" by (auto simp: skip_ws_def)
  with "4.IH"(1) [OF v] have v': "readValue n (s @ q) = Some (v, z @ q)" by simp
  note ih = "4.IH"(2) [OF v refl]
  have sk: "skip_ws (z @ q) = skip_ws z @ q" "tl (skip_ws z @ q) = tl (skip_ws z) @ q"
    "\<And>c. is_char c (skip_ws z @ q) = is_char c (skip_ws z)" using z skip_ws_append [of z q] by (simp_all add: is_char_def)
  from "4.prems" ih show ?case
    unfolding readElements.simps(2) [of n s] readElements.simps(2) [of n "s @ q"] v v' option.case prod.case sk
    by (auto split: if_splits simp del: reader_steps)
next
  case (6 n acc s)
  from "6.prems" obtain k r' where k: "is_char (CHR 0x22) (skip_ws s)" "readString (tl (skip_ws s)) = Some (k, r')"
    "is_char (CHR '':'') (skip_ws r')" by (auto split: option.splits if_splits)
  from "6.prems" k obtain v z where v: "readValue n (tl (skip_ws r')) = Some (v, z)" by (auto split: option.splits if_splits)
  with "6.prems" k have z: "skip_ws z \<noteq> []" by (auto simp: is_char_def split: if_splits)
  then have "z \<noteq> []" by (auto simp: skip_ws_def)
  have v': "readValue n (tl (skip_ws r') @ q) = Some (v, z @ q)" using "6.IH"(1) k v \<open>z \<noteq> []\<close> by blast
  have ih: "readMembers n (map_set k v acc) (tl (skip_ws z) @ q) = Some (m', r'' @ q)"
    if "readMembers n (map_set k v acc) (tl (skip_ws z)) = Some (m', r'')" "\<not> is_char (CHR ''}'') (skip_ws z)" "is_char (CHR '','') (skip_ws z)" for m' r''
    using "6.IH"(2) [OF _ k(2) refl _ v refl that(2,3,1)] k(1,3) by blast
  have sk: "skip_ws (z @ q) = skip_ws z @ q" "tl (skip_ws z @ q) = tl (skip_ws z) @ q"
    "\<And>c. is_char c (skip_ws z @ q) = is_char c (skip_ws z)" using z skip_ws_append [of z q] by (simp_all add: is_char_def)
  have k': "is_char (CHR 0x22) (skip_ws (s @ q))" "readString (tl (skip_ws (s @ q))) = Some (k, r' @ q)"
    "is_char (CHR '':'') (skip_ws (r' @ q))" "tl (skip_ws (r' @ q)) = tl (skip_ws r') @ q"
    using is_char_skip [OF k(1)] is_char_skip [OF k(3)] readString_append [OF k(2)] by simp_all
  from "6.prems" ih show ?case
    unfolding readMembers.simps(2) [of n acc s] readMembers.simps(2) [of n acc "s @ q"] k(2) k' option.case prod.case v v' sk
    by (auto split: if_splits simp: k k' simp del: reader_steps)
qed simp_all

section \<open>Reading what \<open>stringify\<close> wrote\<close>

definition num_ok :: "jsnum \<Rightarrow> bool" where
  "num_ok n = (num_finite n \<and> numberToken (num_toString n) = Some n)"

fun json_ok :: "json \<Rightarrow> bool" where
  "json_ok (JsonNumber n) = num_ok n"
| "json_ok (JsonArray vs) = list_all json_ok vs"
| "json_ok (JsonObject kvs) = (distinct (map fst kvs) \<and> list_all (\<lambda>(k, v). json_ok v) kvs)"
| "json_ok _ = True"

abbreviation delimited :: "string \<Rightarrow> bool" where
  "delimited r \<equiv> r = [] \<or> \<not> number_char (hd r)"

lemma digit_number_char: "is_digit c \<Longrightarrow> number_char c"
  by (simp add: number_char_def)

lemma exp_part_chars: "exp_part s = Some e \<Longrightarrow> list_all number_char s"
proof (cases s)
  case (Cons c r)
  assume e: "exp_part s = Some e"
  then have c: "number_char c" using Cons by (auto simp: exp_part_def number_char_def split: if_splits)
  from e Cons have "list_all is_digit (if r \<noteq> [] \<and> (hd r = CHR ''-'' \<or> hd r = CHR ''+'') then tl r else r)"
    by (auto simp: exp_part_def Let_def split: if_splits)
  then have "list_all number_char r"
    by (cases r) (auto simp: number_char_def list.pred_set split: if_splits)
  with c Cons show ?thesis by simp
qed simp

lemma all_split: "list_all p (takeWhile q s) \<Longrightarrow> list_all p (dropWhile q s) \<Longrightarrow> list_all p s"
  by (metis list_all_append takeWhile_dropWhile_id)

lemma digits_chars: "list_all number_char (takeWhile is_digit s)"
  by (auto simp: list.pred_set digit_number_char dest: set_takeWhileD)

lemma frac_part_chars: "frac_part s = Some (fs, r) \<Longrightarrow> list_all number_char r \<Longrightarrow> list_all number_char s"
proof (cases s)
  case (Cons c z)
  assume f: "frac_part s = Some (fs, r)" and r: "list_all number_char r"
  show ?thesis
  proof (cases "c = CHR ''.''")
    case True
    with f Cons have "r = dropWhile is_digit z" by (auto simp: frac_part_def split: if_splits)
    with r have "list_all number_char z" by (metis all_split digits_chars)
    with True Cons show ?thesis by (simp add: number_char_def [of "CHR ''.''"])
  qed (use f r Cons in \<open>auto simp: frac_part_def\<close>)
qed simp

lemma numberToken_chars:
  assumes "numberToken t = Some n"
  shows "list_all number_char t" "t \<noteq> []" "is_digit (hd t) \<or> hd t = CHR ''-''"
proof -
  let ?neg = "t \<noteq> [] \<and> hd t = CHR ''-''"
  let ?u = "if ?neg then tl t else t"
  from assms have ds: "takeWhile is_digit ?u \<noteq> []" by (auto simp: numberToken_def Let_def split: if_splits)
  from assms obtain fs r e where f: "frac_part (dropWhile is_digit ?u) = Some (fs, r)" "exp_part r = Some e"
    by (auto simp: numberToken_def Let_def split: if_splits option.splits)
  have u: "list_all number_char ?u"
    by (rule all_split [OF digits_chars frac_part_chars [OF f(1) exp_part_chars [OF f(2)]]])
  show "t \<noteq> []" using ds by auto
  then show "list_all number_char t" using u by (cases t) (auto simp: number_char_def split: if_splits)
  show "is_digit (hd t) \<or> hd t = CHR ''-''" using ds by (cases ?u) (auto split: if_splits)
qed

lemma readNumber_toString: "num_ok n \<Longrightarrow> delimited r \<Longrightarrow> readNumber (num_toString n @ r) = Some (n, r)"
proof -
  assume n: "num_ok n" and r: "delimited r"
  then have c: "list_all number_char (num_toString n)" using numberToken_chars by (auto simp: num_ok_def)
  have "takeWhile number_char r = []" "dropWhile number_char r = r" using r by (cases r; auto)+
  with n c show ?thesis by (simp add: readNumber_def num_ok_def list.pred_set takeWhile_append2 dropWhile_append2)
qed

lemma number_value:
  assumes "num_ok n" "delimited r"
  shows "readValue (Suc k) (num_toString n @ r) = Some (JsonNumber n, r)"
proof -
  from assms(1) have t: "numberToken (num_toString n) = Some n" by (simp add: num_ok_def)
  obtain c z where c: "num_toString n = c # z" "is_digit c \<or> c = CHR ''-''"
    using numberToken_chars(2,3) [OF t] by (cases "num_toString n") auto
  then have ws: "\<not> is_ws c" by (auto simp: is_ws_def is_digit_def)
  have cs: "c \<noteq> CHR 0x22" "c \<noteq> CHR ''{''" "c \<noteq> CHR ''[''" "c \<noteq> CHR ''t''" "c \<noteq> CHR ''f''" "c \<noteq> CHR ''n''"
    using c(2) by (auto simp: is_digit_def)
  show ?thesis using readNumber_toString [OF assms] by (simp add: c(1) skip_ws_Cons [OF ws] cs)
qed

lemma stringify_first:
  assumes "json_ok v"
  shows "\<exists>c z. stringify v = c # z \<and> \<not> is_ws c \<and> c \<noteq> CHR '']''"
proof (cases v)
  case (JsonNumber n)
  with assms have t: "numberToken (num_toString n) = Some n" "num_finite n" by (simp_all add: num_ok_def)
  with JsonNumber numberToken_chars(2,3) [OF t(1)] show ?thesis
    by (cases "num_toString n") (auto simp: is_ws_def is_digit_def)
qed (auto simp: is_ws_def quote_string_def)

definition member_text :: "string \<times> json \<Rightarrow> string" where
  "member_text = (\<lambda>(k, v). quote_string k @ '':'' @ stringify v)"

lemma stringify_object: "stringify (JsonObject kvs) = ''{'' @ join '','' (map member_text kvs) @ ''}''"
  by (simp add: member_text_def)

text \<open>The statement for one value, with enough fuel and a delimiter after it.\<close>

definition reads :: "json \<Rightarrow> bool" where
  "reads v = (\<forall>n r. length (stringify v) \<le> n \<longrightarrow> delimited r \<longrightarrow> readValue n (stringify v @ r) = Some (v, r))"

lemma reads_use: "reads v \<Longrightarrow> length (stringify v) \<le> n \<Longrightarrow> delimited r \<Longrightarrow> readValue n (stringify v @ r) = Some (v, r)"
  unfolding reads_def by blast

lemma delimiters: "delimited (CHR '']'' # r)" "delimited (CHR '','' # r)" "delimited (CHR ''}'' # r)" "delimited (CHR 0x0A # r)"
  by (simp_all add: number_char_def is_digit_def)

lemma skip_delimiters: "skip_ws (CHR '']'' # r) = CHR '']'' # r" "skip_ws (CHR '','' # r) = CHR '','' # r"
  "skip_ws (CHR ''}'' # r) = CHR ''}'' # r" "skip_ws (CHR '':'' # r) = CHR '':'' # r" "skip_ws (CHR 0x22 # r) = CHR 0x22 # r"
  by (simp_all add: skip_ws_def is_ws_def)

lemma is_char_Cons [simp]: "is_char c (d # r) = (d = c)"
  by (simp add: is_char_def)

lemma readElements_join:
  assumes "\<forall>v \<in> set vs. reads v" "vs \<noteq> []" "length (join '','' (map stringify vs)) < n"
  shows "readElements n (join '','' (map stringify vs) @ CHR '']'' # r) = Some (vs, r)"
  using assms
proof (induction vs arbitrary: n rule: induct_list012)
  case (2 v)
  then obtain k where "n = Suc k" "length (stringify v) \<le> k" by (cases n) auto
  with reads_use [of v k "CHR '']'' # r"] 2 delimiters(1) [of r] show ?case by (simp add: skip_delimiters del: readValue.simps)
next
  case (3 v w vs)
  let ?rest = "join '','' (map stringify (w # vs)) @ CHR '']'' # r"
  from 3 obtain k where k: "n = Suc k" "length (stringify v) \<le> k" "length (join '','' (map stringify (w # vs))) < k"
    by (cases n) auto
  have "readValue k (stringify v @ CHR '','' # ?rest) = Some (v, CHR '','' # ?rest)"
    using 3 k by (intro reads_use delimiters) auto
  with "3.IH"(2) [of k] k 3 show ?case by (simp add: skip_delimiters del: readValue.simps readElements.simps(1))
qed simp

lemma readMembers_join:
  assumes "\<forall>v \<in> snd ` set kvs. reads v \<and> json_ok v" "kvs \<noteq> []" "distinct (map fst (acc @ kvs))"
    "length (join '','' (map member_text kvs)) < n"
  shows "readMembers n acc (join '','' (map member_text kvs) @ CHR ''}'' # r) = Some (acc @ kvs, r)"
  using assms
proof (induction kvs arbitrary: n acc rule: induct_list012)
  case (2 kv)
  obtain k v where kv: "kv = (k, v)" by force
  with 2 obtain m where m: "n = Suc m" "length (stringify v) \<le> m" by (cases n) (auto simp: member_text_def)
  have v: "readValue m (stringify v @ CHR ''}'' # r) = Some (v, CHR ''}'' # r)"
    using 2 kv m by (intro reads_use delimiters) auto
  have "\<not> map_has acc k" using 2 kv by (simp add: map_has_iff)
  then show ?case
    by (simp add: kv m(1) member_text_def quote_string_def skip_delimiters readString_quote v map_set_fresh del: readValue.simps)
next
  case (3 kv kv' kvs)
  obtain k v where kv: "kv = (k, v)" by force
  let ?rest = "join '','' (map member_text (kv' # kvs)) @ CHR ''}'' # r"
  from 3 kv obtain m where m: "n = Suc m" "length (stringify v) \<le> m" "length (join '','' (map member_text (kv' # kvs))) < m"
    by (cases n) (auto simp: member_text_def)
  have v: "readValue m (stringify v @ CHR '','' # ?rest) = Some (v, CHR '','' # ?rest)"
    using 3 kv m by (intro reads_use delimiters) auto
  have a: "AList.update k v acc = acc @ [(k, v)]" using 3 kv by (intro map_set_fresh) (simp add: map_has_iff)
  have ih: "readMembers m (acc @ [(k, v)]) ?rest = Some ((acc @ [(k, v)]) @ kv' # kvs, r)"
    using 3 kv m by (intro "3.IH"(2)) auto
  have t: "join '','' (map member_text (kv # kv' # kvs)) @ CHR ''}'' # r
      = CHR 0x22 # concat (map quote_char k) @ CHR 0x22 # CHR '':'' # stringify v @ CHR '','' # ?rest"
    by (simp add: kv member_text_def [of] quote_string_def)
  show ?case unfolding t m(1) readMembers.simps
    by (simp only: skip_delimiters is_char_Cons list.sel readString_quote option.case prod.case v a simp_thms if_True if_False)
      (insert ih, simp add: kv del: join.simps)
qed simp

lemma reads_intro:
  assumes "stringify v \<noteq> []"
    "\<And>k r. length (stringify v) \<le> Suc k \<Longrightarrow> delimited r \<Longrightarrow> readValue (Suc k) (stringify v @ r) = Some (v, r)"
  shows "reads v"
  unfolding reads_def
proof (intro allI impI)
  fix n r assume n: "length (stringify v) \<le> n" and r: "delimited r"
  with assms(1) obtain k where "n = Suc k" by (cases n) auto
  with assms(2) n r show "readValue n (stringify v @ r) = Some (v, r)" by simp
qed

lemma join_eq_Nil: "join sep ss = [] \<Longrightarrow> \<forall>s \<in> set ss. s \<noteq> [] \<Longrightarrow> ss = []"
  by (induction sep ss rule: join.induct) auto

lemma join_Cons: "\<exists>z. join sep (s # ss) @ r = s @ z"
  by (cases ss) auto

lemma reads_array:
  assumes "\<forall>v \<in> set vs. reads v \<and> json_ok v"
  shows "reads (JsonArray vs)"
proof (rule reads_intro)
  fix k r assume k: "length (stringify (JsonArray vs)) \<le> Suc k" "delimited r"
  show "readValue (Suc k) (stringify (JsonArray vs) @ r) = Some (JsonArray vs, r)"
  proof (cases vs)
    case Nil then show ?thesis by (simp add: skip_ws_def is_ws_def)
  next
    case (Cons v ws)
    let ?t = "join '','' (map stringify vs) @ CHR '']'' # r"
    have "readElements k ?t = Some (vs, r)" using k assms Cons by (intro readElements_join) auto
    moreover have "\<not> is_char (CHR '']'') (skip_ws ?t)"
    proof -
      obtain c z where "stringify v = c # z" "\<not> is_ws c" "c \<noteq> CHR '']''" using stringify_first assms Cons by force
      then show ?thesis using join_Cons [of "'',''" "stringify v" "map stringify ws" "CHR '']'' # r"] Cons
        by (auto simp: skip_ws_Cons)
    qed
    ultimately show ?thesis by (simp add: skip_ws_Cons is_ws_def del: readElements.simps)
  qed
qed simp

lemma reads_object:
  assumes "\<forall>v \<in> snd ` set kvs. reads v \<and> json_ok v" "distinct (map fst kvs)"
  shows "reads (JsonObject kvs)"
proof (rule reads_intro)
  fix k r assume k: "length (stringify (JsonObject kvs)) \<le> Suc k" "delimited r"
  show "readValue (Suc k) (stringify (JsonObject kvs) @ r) = Some (JsonObject kvs, r)"
  proof (cases kvs)
    case Nil then show ?thesis by (simp add: skip_ws_def is_ws_def)
  next
    case (Cons m ms)
    let ?t = "join '','' (map member_text kvs) @ CHR ''}'' # r"
    have "length (join '','' (map member_text kvs)) < k" using k(1) unfolding stringify_object by simp
    then have "readMembers k [] ?t = Some ([] @ kvs, r)" using assms Cons by (intro readMembers_join) auto
    moreover have "\<not> is_char (CHR ''}'') (skip_ws ?t)"
    proof -
      obtain z where "member_text m = CHR 0x22 # z" by (cases m) (simp add: member_text_def quote_string_def)
      then show ?thesis using join_Cons [of "'',''" "member_text m" "map member_text ms" "CHR ''}'' # r"] Cons
        by (auto simp: skip_ws_Cons is_ws_def)
    qed
    ultimately show ?thesis unfolding stringify_object by (simp add: skip_ws_Cons is_ws_def del: readMembers.simps)
  qed
qed simp

lemma reads_json: "json_ok v \<Longrightarrow> reads v"
proof (induction v)
  case JsonNull show ?case by (rule reads_intro) (simp_all add: skip_ws_def is_ws_def expect_def)
next
  case (JsonBool b) show ?case by (rule reads_intro) (simp_all add: skip_ws_def is_ws_def expect_def)
next
  case (JsonNumber n)
  then have "num_finite n" "num_toString n \<noteq> []" using numberToken_chars(2) by (auto simp: num_ok_def)
  with JsonNumber number_value show ?case by (intro reads_intro) (simp_all del: readValue.simps)
next
  case (JsonString s)
  show ?case by (rule reads_intro) (simp_all add: quote_string_def skip_ws_Cons is_ws_def readString_quote)
next
  case (JsonArray vs)
  then show ?case by (intro reads_array) (auto simp: list.pred_set)
next
  case (JsonObject kvs)
  then show ?case by (intro reads_object) (auto simp: list.pred_set)
qed

section \<open>Whole texts\<close>

lemma json_parse_stringify: "json_ok v \<Longrightarrow> json_parse (stringify v) = Some v"
  using reads_use [OF reads_json, of v "2 * length (stringify v) + 2" "[]"]
  by (simp add: json_parse_def skip_ws_def del: readValue.simps)

lemma json_parse_prefix:
  assumes "json_ok (JsonObject kvs)" "stringify (JsonObject kvs) = p @ q" "q \<noteq> []"
  shows "json_parse p = None"
proof (rule ccontr)
  assume "json_parse p \<noteq> None"
  then obtain v r where v: "readValue (2 * length p + 2) p = Some (v, r)"
    by (auto simp: json_parse_def simp del: readValue.simps split: option.splits)
  then have "skip_ws p \<noteq> []" by (rule reader_nonempty)
  then have "p \<noteq> []" by (auto simp: skip_ws_def)
  with assms(2) obtain p' where "p = CHR ''{'' # p'" by (cases p) auto
  then have o: "is_char (CHR ''{'') (skip_ws p)" by (simp add: skip_ws_Cons is_ws_def)
  let ?n = "max (2 * length p + 2) (length (p @ q))"
  have "readValue ?n (p @ q) = Some (v, r @ q)" using reader_append(1) [OF readValue_mono [OF v]] o by simp
  moreover have "readValue ?n (p @ q) = Some (JsonObject kvs, [])"
    using reads_use [OF reads_json [OF assms(1)], of ?n "[]"] by (simp add: assms(2) del: readValue.simps stringify.simps)
  ultimately show False using assms(3) by simp
qed

lemma newline_not_number: "\<not> number_char (CHR 0x0A)"
  by (simp add: number_char_def is_digit_def)

lemma quote_char_newline: "CHR 0x0A \<notin> set (quote_char c)"
proof -
  have h: "CHR 0x0A \<noteq> hex_digit n" if "n < 16" for n
  proof
    assume "CHR 0x0A = hex_digit n"
    with hex_digit_val [OF that] have "hex_val (CHR 0x0A) = Some n" by simp
    then show False by (simp add: hex_val_def)
  qed
  have "CHR 0x0A \<noteq> hex_digit (of_char c mod 16)" by (rule h) simp
  moreover have "(of_char c :: nat) < 32 \<Longrightarrow> CHR 0x0A \<noteq> hex_digit (of_char c div 16)" by (rule h) simp
  ultimately show ?thesis unfolding quote_char_def Let_def
    by (cases "(of_char c :: nat) < 32") auto
qed

lemma join_set: "set (join sep ss) \<subseteq> set sep \<union> (\<Union>s \<in> set ss. set s)"
  by (induction sep ss rule: join.induct) auto

lemma stringify_newline: "json_ok v \<Longrightarrow> CHR 0x0A \<notin> set (stringify v)"
proof (induction v)
  case (JsonNumber n)
  then show ?case using numberToken_chars(1) newline_not_number by (force simp: num_ok_def list.pred_set)
next
  case (JsonString s) show ?case using quote_char_newline by (auto simp: quote_string_def)
next
  case (JsonArray vs)
  then show ?case using join_set [of "'',''" "map stringify vs"] by (auto simp: list.pred_set)
next
  case (JsonObject kvs)
  have "CHR 0x0A \<notin> set (member_text kv)" if "kv \<in> set kvs" for kv
    using JsonObject that quote_char_newline by (cases kv) (auto simp: member_text_def quote_string_def list.pred_set)
  then show ?case unfolding stringify_object using join_set [of "'',''" "map member_text kvs"] by auto
qed simp_all

end
