(* ===== verification/JsonNumbers.thy ===== *)
theory JsonNumbers
  imports JsonRoundtrip
begin

text \<open>
  The text of a safe integer is its decimal notation, and the JSON reader gives the integer back, so the
  sequence numbers and timestamps of a log survive the trip through a file.
\<close>

section \<open>Decimal notation\<close>

declare show_nat.simps [simp del]

lemma show_nat_small: "n < 10 \<Longrightarrow> show_nat n = [char_of (48 + n)]"
  by (simp add: show_nat.simps)

lemma show_nat_ten: "0 < n \<Longrightarrow> d < 10 \<Longrightarrow> show_nat (10 * n + d) = show_nat n @ [char_of (48 + d)]"
  by (subst show_nat.simps) simp

lemma show_nat_induct [case_names small ten]:
  assumes "\<And>n. n < 10 \<Longrightarrow> P n" "\<And>n d. 0 < n \<Longrightarrow> d < 10 \<Longrightarrow> P n \<Longrightarrow> P (10 * n + d)"
  shows "P (n::nat)"
proof (induction n rule: less_induct)
  case (less n)
  show ?case
  proof (cases "n < 10")
    case False
    then have "P (10 * (n div 10) + n mod 10)" by (intro assms(2) less) auto
    then show ?thesis by simp
  qed (rule assms(1))
qed

lemma digit_char: "(d::nat) < 10 \<Longrightarrow> is_digit (char_of (48 + d)) \<and> digit_val (char_of (48 + d)) = d"
  by (simp add: is_digit_def digit_val_def)

lemma char_48: "char_of (48::nat) = CHR ''0''"
  by (simp add: char_of_def bit_Suc_0_iff)

lemma zero_char: "(d::nat) < 10 \<Longrightarrow> char_of (48 + d) = CHR ''0'' \<longleftrightarrow> d = 0"
proof
  assume "d < 10" "char_of (48 + d) = CHR ''0''"
  then have "digit_val (CHR ''0'') = d" using digit_char [of d] by simp
  then show "d = 0" by (simp add: digit_val_def)
qed (simp add: char_48)

lemma show_nat_digits: "list_all is_digit (show_nat n)" "digits_val (show_nat n) = n" "show_nat n \<noteq> []"
proof (induction n rule: show_nat_induct)
  case (small n) { case 1 show ?case using small digit_char by (simp add: show_nat_small) next
    case 2 show ?case using small digit_char by (simp add: show_nat_small digits_val_def) next
    case 3 show ?case using small by (simp add: show_nat_small) }
next
  case (ten n d) { case 1 show ?case using ten digit_char by (simp add: show_nat_ten) next
    case 2 show ?case using ten digit_char by (simp add: show_nat_ten digits_val_def) next
    case 3 show ?case using ten by (simp add: show_nat_ten) }
qed

lemma show_nat_length: "0 < n \<Longrightarrow> 10 ^ (length (show_nat n) - 1) \<le> n \<and> n < 10 ^ length (show_nat n)"
proof (induction n rule: show_nat_induct)
  case (small n) then show ?case by (simp add: show_nat_small)
next
  case (ten n d)
  then obtain k where k: "length (show_nat n) = Suc k" using show_nat_digits(3) [of n] by (cases "show_nat n") auto
  with ten show ?case by (simp add: show_nat_ten)
qed

lemma show_nat_hd: "0 < n \<Longrightarrow> hd (show_nat n) \<noteq> CHR ''0''"
proof (induction n rule: show_nat_induct)
  case (small n) then show ?case using zero_char [of n] by (simp add: show_nat_small)
next
  case (ten n d) then show ?case using show_nat_digits(3) [of n] by (simp add: show_nat_ten)
qed

lemma show_nat_last: "last (show_nat n) = CHR ''0'' \<longleftrightarrow> 10 dvd n"
proof (induction n rule: show_nat_induct)
  case (small n) then show ?case using zero_char [of n] by (auto simp: show_nat_small dest: nat_dvd_not_less)
next
  case (ten n d)
  have "10 dvd 10 * n + d \<longleftrightarrow> d = 0" using ten(2) by presburger
  then show ?case using ten zero_char [of d] by (simp add: show_nat_ten)
qed

lemma show_nat_zeros: "0 < s \<Longrightarrow> show_nat (s * 10 ^ j) = show_nat s @ replicate j CHR ''0''"
proof (induction j)
  case (Suc j)
  have "show_nat (s * 10 ^ Suc j) = show_nat (10 * (s * 10 ^ j) + 0)" by (simp add: mult.left_commute)
  with Suc show ?case by (simp add: show_nat_ten [of "s * 10 ^ j" 0, simplified] char_48 replicate_append_same)
qed simp

lemma strip_zeros_last: "ds \<noteq> [] \<Longrightarrow> last ds \<noteq> CHR ''0'' \<Longrightarrow> strip_zeros ds = ds"
  by (induction ds) (auto simp: Let_def split: if_splits)

lemma show_nat_length_unique: "10 ^ (k - 1) \<le> n \<Longrightarrow> n < 10 ^ k \<Longrightarrow> 0 < k \<Longrightarrow> length (show_nat n) = k"
proof -
  assume k: "10 ^ (k - 1) \<le> n" "n < 10 ^ k" "0 < k"
  have "(10::nat) ^ (k - 1) > 0" by simp
  with k have "0 < n" by linarith
  note b = show_nat_length [OF this]
  have "(10::nat) ^ (k - 1) < 10 ^ length (show_nat n)" using k(1) b by linarith
  moreover have "(10::nat) ^ (length (show_nat n) - 1) < 10 ^ k" using k(2) b by linarith
  ultimately have "k - 1 < length (show_nat n)" "length (show_nat n) - 1 < k" by simp_all
  with k(3) show ?thesis by linarith
qed

section \<open>The text of a safe integer\<close>

lemma dec_point_digits:
  assumes "0 < k" "0 < y" "10 ^ j \<le> k" "length (show_nat k) - j \<le> fuel"
  shows "dec_point (k * y) (y * 10 ^ j) fuel = int (length (show_nat k)) - int j"
  using assms(3,4)
proof (induction fuel arbitrary: j)
  case 0
  then have "10 ^ length (show_nat k) \<le> (10::nat) ^ j" by simp
  with 0 show_nat_length [OF assms(1)] show ?case by linarith
next
  case (Suc fuel)
  have le: "y * 10 ^ j \<le> k * y" using Suc.prems(1) by (simp add: mult.commute)
  show ?case
  proof (cases "k < 10 ^ Suc j")
    case True
    then have "k * y < y * 10 ^ Suc j" using assms(2) by (simp add: mult.commute)
    moreover have "length (show_nat k) = Suc j" using show_nat_length_unique [of "Suc j" k] Suc.prems(1) True by simp
    ultimately show ?thesis using le by (simp add: mult.left_commute)
  next
    case False
    have e: "10 * (y * 10 ^ j) = y * 10 ^ Suc j" by simp
    from False assms(2) have "\<not> k * y < 10 * (y * 10 ^ j)" unfolding e by (simp add: mult.commute)
    moreover have "dec_point (k * y) (y * 10 ^ Suc j) fuel = int (length (show_nat k)) - int (Suc j)"
      using Suc.prems False by (intro Suc.IH) auto
    ultimately show ?thesis using le False assms(2) by (simp add: mult.left_commute)
  qed
qed

lemma dec_candidate_int:
  assumes "0 < k" "4 \<le> y" "0 < d" "d \<le> 2" "d < k * y"
  shows "dec_candidate closed (k * y - d) (k * y + 2) (k * y) (y * 10 ^ p)
    = (if 10 ^ p dvd k then Some (k div 10 ^ p) else None)"
proof -
  have s: "k * y div (y * 10 ^ p) = k div 10 ^ p"
    using div_mult2_eq [of "k * y" y "10 ^ p"] assms(2) by simp
  have up: "k * y + 2 < (k div 10 ^ p + 1) * (y * 10 ^ p)"
  proof -
    have "k < (k div 10 ^ p + 1) * 10 ^ p" using div_mod_decomp [of k "10 ^ p"] by (simp add: dividend_less_div_times)
    then have "(k + 1) * y \<le> (k div 10 ^ p + 1) * 10 ^ p * y" by (intro mult_le_mono1) simp
    with assms(2) show ?thesis by (simp add: algebra_simps)
  qed
  show ?thesis
  proof (cases "10 ^ p dvd k")
    case True
    then obtain c where c: "k = 10 ^ p * c" by blast
    then have e: "k div 10 ^ p * (y * 10 ^ p) = k * y" and pos: "k div 10 ^ p > 0" using assms(1) by simp_all
    from up have "\<not> (k div 10 ^ p + 1) * (y * 10 ^ p) \<le> k * y + 2" "\<not> (k div 10 ^ p + 1) * (y * 10 ^ p) < k * y + 2" by linarith+
    moreover have "k * y - d < k * y" using assms(3,5) by linarith
    ultimately show ?thesis using pos True unfolding dec_candidate_def Let_def s e by simp
  next
    case False
    have "k div 10 ^ p * 10 ^ p < k" using False by (metis div_times_less_eq_dividend dvd_triv_right nat_less_le)
    then have "(k div 10 ^ p * 10 ^ p + 1) * y \<le> k * y" by (intro mult_le_mono1) simp
    then have "k div 10 ^ p * (y * 10 ^ p) + y \<le> k * y" by (simp add: algebra_simps)
    with assms have "k div 10 ^ p * (y * 10 ^ p) < k * y - d" by linarith
    with up False show ?thesis unfolding dec_candidate_def s by (simp add: Let_def)
  qed
qed

lemma dec_shortest_int:
  assumes "0 < k" "4 \<le> y" "0 < d" "d \<le> 2" "d < k * y" "n = length (show_nat k)"
    "1 \<le> m" "m \<le> n" "n - m < fuel" "m = 1 \<or> \<not> 10 ^ (n - m + 1) dvd k"
  shows "\<exists>K. dec_shortest closed (k * y - d) (k * y + 2) (k * y) y (int n) m fuel = (k div 10 ^ (n - K), K)
    \<and> 1 \<le> K \<and> K \<le> n \<and> 10 ^ (n - K) dvd k \<and> (K = 1 \<or> \<not> 10 ^ (n - K + 1) dvd k)"
  using assms(7-10)
proof (induction fuel arbitrary: m)
  case (Suc fuel)
  have p: "nat (int n - int m) = n - m" "nat (- (int n - int m)) = 0" "nat (int m - int n) = 0" using Suc.prems(2) by auto
  note cand = dec_candidate_int [OF assms(1-5), of closed "n - m"]
  show ?case
  proof (cases "10 ^ (n - m) dvd k")
    case True
    with cand Suc.prems show ?thesis by (intro exI [of _ m]) (simp add: p)
  next
    case False
    then have "m \<noteq> n" by (metis diff_self_eq_0 one_dvd power_0)
    with False Suc.prems have "\<exists>K. dec_shortest closed (k * y - d) (k * y + 2) (k * y) y (int n) (m + 1) fuel = (k div 10 ^ (n - K), K)
      \<and> 1 \<le> K \<and> K \<le> n \<and> 10 ^ (n - K) dvd k \<and> (K = 1 \<or> \<not> 10 ^ (n - K + 1) dvd k)"
      by (intro Suc.IH) (auto simp: Suc_diff_Suc)
    with cand False show ?thesis by (simp add: p Let_def)
  qed
qed simp

lemma dec_layout_int: "length ds \<le> n \<Longrightarrow> n \<le> 21 \<Longrightarrow> dec_layout ds (int n) = ds @ replicate (n - length ds) CHR ''0''"
  by (simp add: dec_layout_def Let_def)

lemma max_safe_digits: "0 < k \<Longrightarrow> k \<le> max_safe \<Longrightarrow> length (show_nat k) \<le> 16"
proof (rule ccontr)
  assume k: "0 < k" "k \<le> max_safe" "\<not> length (show_nat k) \<le> 16"
  then have "(10::nat) ^ 16 \<le> 10 ^ (length (show_nat k) - 1)" by (intro power_increasing) auto
  also have "\<dots> \<le> k" using show_nat_length k(1) by blast
  finally show False using k(2) by (simp add: max_safe_def)
qed

lemma num_decimal_int:
  assumes "0 < i" "nat i \<le> max_safe"
  shows "num_decimal (int_num i) = show_nat (nat i)"
proof -
  let ?k = "nat i"
  define l where "l = log2 ?k"
  have abs: "nat \<bar>i\<bar> \<le> max_safe" "i \<noteq> 0" using assms by auto
  note f = int_num_fields [OF abs(2,1)]
  have l: "l \<le> 52" "num_exp (int_num i) = 1023 + l" "2 ^ 52 + num_mant (int_num i) = ?k * 2 ^ (52 - l)"
    using f assms(1) by (simp_all add: l_def)
  define y :: nat where "y = 2 ^ (54 - l)"
  have e: "int (1023 + l) - 1075 - 2 = int l - 54" by simp
  have y: "nat (- (int l - 54)) = 54 - l" "nat (int l - 54) = 0" using l(1) by auto
  have four: "4 * (2 ^ (52 - l)) = y"
  proof -
    have "54 - l = 2 + (52 - l)" using l(1) by simp
    then show ?thesis by (simp only: y_def power_add) simp
  qed
  then have y4: "4 \<le> y" by (metis mult.right_neutral mult_le_mono2 one_le_power one_le_numeral)
  have x: "4 * (?k * 2 ^ (52 - l)) = ?k * y" using four by (simp add: mult.left_commute)
  define d :: nat where "d = (if num_mant (int_num i) = 0 \<and> 1023 + l > 1 then 1 else 2)"
  define n where "n = length (show_nat ?k)"
  have k: "0 < ?k" using assms(1) by simp
  have "y \<le> ?k * y" using mult_le_mono1 [of 1 ?k y] k by (simp add: Suc_le_eq)
  with y4 have big: "2 < ?k * y" by linarith
  have d': "0 < d" "d \<le> 2" by (auto simp: d_def)
  with big have d: "0 < d" "d \<le> 2" "d < ?k * y" by linarith+
  have n: "n \<le> 16" "1 \<le> n" using max_safe_digits [OF k assms(2)] show_nat_digits(3) [of ?k] by (auto simp: n_def Suc_le_eq)
  have dp: "dec_point (?k * y) y 700 = int n"
    using dec_point_digits [OF k, of y 0 700] y4 k n by (simp add: n_def)
  define b where "b = even (?k * 2 ^ (52 - l))"
  have lt: "n - 1 < 17" using n(1) by linarith
  from dec_shortest_int [OF k y4 d n_def order_refl n(2) lt disjI1 [OF refl], of b]
  obtain K where K: "dec_shortest b (?k * y - d) (?k * y + 2) (?k * y) y (int n) 1 17 = (?k div 10 ^ (n - K), K)"
    "1 \<le> K" "K \<le> n" "10 ^ (n - K) dvd ?k" "K = 1 \<or> \<not> 10 ^ (n - K + 1) dvd ?k" by blast
  let ?s = "?k div 10 ^ (n - K)"
  have s: "?s * 10 ^ (n - K) = ?k" using K(4) by simp
  then have s0: "0 < ?s" using k by (cases ?s) auto
  have neq: "(1023 + l = 0) = False" by simp
  have lo: "(4 * (?k * 2 ^ (52 - l)) + 2) = ?k * y + 2" unfolding x by simp
  have tx: "show_nat ?k = show_nat ?s @ replicate (n - K) CHR ''0''" using show_nat_zeros [OF s0, of "n - K"] s by simp
  have len: "length (show_nat ?s) = K" using arg_cong [OF tx, of length] K(3) unfolding n_def [symmetric] by simp
  have "\<not> 10 dvd ?s"
  proof
    assume t: "10 dvd ?s"
    then have "10 * 10 ^ (n - K) dvd ?k" using s by (metis dvd_refl mult_dvd_mono)
    with K(5) have "K = 1" by auto
    with len show_nat_length [OF s0] have "?s < 10" by simp
    with t s0 show False by (auto dest: nat_dvd_not_less)
  qed
  then have strip: "strip_zeros (show_nat ?s) = show_nat ?s" using show_nat_last show_nat_digits(3) by (intro strip_zeros_last) auto
  have "num_decimal (int_num i) = dec_layout (strip_zeros (show_nat ?s)) (int n + int (length (show_nat ?s)) - int K)"
    unfolding num_decimal_def l(2,3) Let_def neq if_False e y d_def [symmetric] b_def [symmetric] x
      power_0 mult_1_right y_def [symmetric] lo dp K(1) prod.case by (rule refl)
  also have "\<dots> = show_nat ?k" unfolding strip using dec_layout_int [of "show_nat ?s" n] K(3) n len tx by simp
  finally show ?thesis .
qed

lemma num_decimal_cong: "num_exp a = num_exp b \<Longrightarrow> num_mant a = num_mant b \<Longrightarrow> num_decimal a = num_decimal b"
  by (simp only: num_decimal_def)

lemma num_toString_int:
  assumes "nat \<bar>i\<bar> \<le> max_safe"
  shows "num_toString (int_num i) = show_int i"
proof (cases "i = 0")
  case True then show ?thesis by (simp add: int_num_def num_toString_def num_is_nan_def show_int_def show_nat_small char_48)
next
  case False
  note f = int_num_fields [OF False assms]
  have fin: "\<not> num_is_nan (int_num i)" "\<not> num_is_inf (int_num i)" "num_exp (int_num i) \<noteq> 0"
    using f by (auto simp: num_is_nan_def num_is_inf_def)
  show ?thesis
  proof (cases "i < 0")
    case True
    have "num_decimal (int_num i) = num_decimal (int_num (- i))"
      using f(3,4) int_num_fields(3,4) [of "- i"] assms False by (intro num_decimal_cong) simp_all
    with num_decimal_int [of "- i"] True assms f(2) fin show ?thesis by (simp add: num_toString_def show_int_def)
  next
    case nonneg: False
    with num_decimal_int [of i] False assms f(2) fin show ?thesis by (simp add: num_toString_def show_int_def)
  qed
qed

section \<open>Reading it back\<close>

lemma ratio_num_int:
  assumes "0 < k" "k \<le> max_safe"
  shows "ratio_num sg k 1 = mk_num sg (1023 + log2 k) (k * 2 ^ (52 - log2 k) - 2 ^ 52)"
proof -
  define l where "l = log2 k"
  note b = log2_bounds [OF assms(1), folded l_def]
  have "k < 2 ^ 53" using assms(2) by (simp add: max_safe_def)
  with b have "2 ^ l < (2::nat) ^ 53" by linarith
  then have "l < 53" by (rule power_less_imp_less_exp [rotated]) simp
  then have l: "l \<le> 52" by simp
  have q: "log2 (k * 2 ^ 1074) = l + 1074"
  proof (rule log2_eq)
    show "2 ^ (l + 1074) \<le> k * 2 ^ 1074" using b by (simp only: power_add) (intro mult_le_mono1, simp)
    have "k * 2 ^ 1074 < 2 ^ Suc l * 2 ^ 1074" using b by (intro mult_strict_right_mono) simp_all
    then show "k * 2 ^ 1074 < 2 ^ Suc (l + 1074)" by (simp only: power_add [symmetric] add_Suc)
  qed
  have split: "k * 2 ^ 1074 = k * 2 ^ (52 - l) * 2 ^ (l + 1022)"
  proof -
    have "(1074::nat) = (52 - l) + (l + 1022)" using l by simp
    then show ?thesis by (metis mult.assoc power_add)
  qed
  have e: "l + 1074 - 52 = l + 1022" by simp
  have big: "\<not> k * 2 ^ 1074 < 2 ^ 52"
  proof -
    have "(2::nat) ^ 52 \<le> 2 ^ 1074" by (intro power_increasing) simp_all
    also have "\<dots> \<le> k * 2 ^ 1074" using assms(1) by simp
    finally show ?thesis by simp
  qed
  have h: "k * 2 ^ 1074 div 2 ^ (l + 1022) = k * 2 ^ (52 - l)" "k * 2 ^ 1074 mod 2 ^ (l + 1022) = 0"
    unfolding split by simp_all
  have "k * 2 ^ (52 - l) < 2 ^ Suc l * 2 ^ (52 - l)" using b by simp
  also have "\<dots> = 2 ^ 53" using l by (simp only: power_add [symmetric]) simp
  finally have m: "k * 2 ^ (52 - l) \<noteq> 2 ^ 53" by simp
  show ?thesis
    unfolding ratio_num_def Let_def div_by_1 mod_by_1 q e h l_def [symmetric]
    using big m l by simp
qed

lemma digits_split: "list_all is_digit ds \<Longrightarrow> takeWhile is_digit ds = ds \<and> dropWhile is_digit ds = []"
  by (simp add: list.pred_set)

lemma numberToken_digits:
  assumes "list_all is_digit ds" "ds \<noteq> []" "\<not> (hd ds = CHR ''0'' \<and> length ds > 1)"
  shows "numberToken ds = Some (decimal_num 0 (digits_val ds) 0)"
    "numberToken (''-'' @ ds) = Some (decimal_num 1 (digits_val ds) 0)"
proof -
  have "hd ds \<noteq> CHR ''-''" using assms(1,2) by (cases ds) (auto simp: is_digit_def)
  then show "numberToken ds = Some (decimal_num 0 (digits_val ds) 0)"
    "numberToken (''-'' @ ds) = Some (decimal_num 1 (digits_val ds) 0)"
    using assms(2,3) by (auto simp: digits_split [OF assms(1)] numberToken_def Let_def frac_part_def exp_part_def)
qed

lemma numberToken_int:
  assumes "nat \<bar>i\<bar> \<le> max_safe"
  shows "numberToken (show_int i) = Some (int_num i)"
proof -
  let ?ds = "show_nat (nat \<bar>i\<bar>)"
  have t: "show_int i = (if i < 0 then ''-'' @ ?ds else ?ds)" by (simp add: show_int_def)
  have d: "list_all is_digit ?ds" "?ds \<noteq> []" using show_nat_digits by blast+
  have z: "\<not> (hd ?ds = CHR ''0'' \<and> length ?ds > 1)"
  proof (cases "i = 0")
    case True then show ?thesis by (simp add: show_nat_small)
  qed (use show_nat_hd [of "nat \<bar>i\<bar>"] in auto)
  have v: "decimal_num sg (nat \<bar>i\<bar>) 0 = int_num i" if "sg = (if i < 0 then 1 else 0)" for sg
  proof (cases "i = 0")
    case True with that show ?thesis by (simp add: decimal_num_def int_num_def mk_num_def)
  next
    case False
    then have "0 < nat \<bar>i\<bar>" by simp
    from ratio_num_int [OF this assms] False that show ?thesis by (simp add: decimal_num_def int_num_def Let_def)
  qed
  show ?thesis
    using numberToken_digits [OF d z] v unfolding t show_nat_digits(2) by (cases "i < 0") simp_all
qed

lemma num_ok_int: "nat \<bar>i\<bar> \<le> max_safe \<Longrightarrow> num_ok (int_num i)"
  using int_num_safe(4) numberToken_int num_toString_int by (simp add: num_ok_def)

end
