(* ===== verification/JsonlCodec.thy ===== *)
theory JsonlCodec
  imports JsonNumbers SessionState
begin

text \<open>
  The codec of the JSONL session files (\<open>packages/agent/src/harness/session/jsonl/codec.ts\<close>): the header
  line and one line per mutation. The code casts a parsed object to an entry or a record; the parameter
  \<open>payload_rep\<close> is that cast: the own properties of a typed payload, and the payload an object stands for.
  A decode error keeps its kind. The lemmas are the round trips of the header and of a mutation.
\<close>

datatype decode_error = SyntaxError | SchemaError

type_synonym properties = "(string \<times> json) list"

record payload_rep =
  er_fields :: "entry_data \<Rightarrow> properties"  \<comment> \<open>the properties of an entry besides those set by the storage\<close>
  er_data :: "properties \<Rightarrow> entry_data"
  rr_fields :: "record_data \<Rightarrow> properties"
  rr_data :: "properties \<Rightarrow> record_data"

section \<open>Names\<close>

fun entry_type_name :: "entry_type \<Rightarrow> string" where
  "entry_type_name MessageType = ''message''"
| "entry_type_name ModelChangeType = ''model_change''"
| "entry_type_name ThinkingLevelType = ''thinking_level_change''"
| "entry_type_name ActiveToolsType = ''active_tools_change''"
| "entry_type_name CompactionType = ''compaction''"
| "entry_type_name BranchSummaryType = ''branch_summary''"
| "entry_type_name CustomType = ''custom''"

fun record_type_name :: "record_type \<Rightarrow> string" where
  "record_type_name OperationStartedType = ''operation_started''"
| "record_type_name AbortRequestedType = ''abort_requested''"
| "record_type_name OperationFinishedType = ''operation_finished''"
| "record_type_name StepAttemptType = ''step_attempt''"
| "record_type_name ToolStartedType = ''tool_started''"
| "record_type_name QueueEnqueuedType = ''queue_enqueued''"
| "record_type_name QueueCancelledType = ''queue_cancelled''"
| "record_type_name WriteDeferredType = ''write_deferred''"
| "record_type_name UsageType = ''usage''"

definition ENTRY_TYPES :: "string list" where
  "ENTRY_TYPES = [''message'', ''model_change'', ''thinking_level_change'', ''active_tools_change'', ''compaction'',
     ''branch_summary'', ''custom'']"

definition RECORD_TYPES :: "string list" where
  "RECORD_TYPES = [''operation_started'', ''abort_requested'', ''operation_finished'', ''step_attempt'', ''tool_started'',
     ''queue_enqueued'', ''queue_cancelled'', ''write_deferred'', ''usage'']"

definition OPERATION_KINDS :: "string list" where
  "OPERATION_KINDS = [''run'', ''compaction'', ''navigation'']"

section \<open>Checks\<close>

definition parseObject :: "string \<Rightarrow> decode_error + properties" where
  "parseObject line =
     (case json_parse line of
        None \<Rightarrow> Inl SyntaxError
      | Some (JsonObject kvs) \<Rightarrow> Inr kvs
      | Some _ \<Rightarrow> Inl SchemaError)"

definition requireString :: "json option \<Rightarrow> decode_error + string" where
  "requireString value = (case value of Some (JsonString s) \<Rightarrow> Inr s | _ \<Rightarrow> Inl SchemaError)"

definition requireSequence :: "json option \<Rightarrow> decode_error + nat" where
  "requireSequence value =
     (case value of
        Some (JsonNumber n) \<Rightarrow> if \<not> num_is_safe n \<or> num_int n \<le> 0 then Inl SchemaError else Inr (nat (num_int n))
      | _ \<Rightarrow> Inl SchemaError)"

definition requireTimestamp :: "json option \<Rightarrow> decode_error + int" where
  "requireTimestamp value =
     (case value of
        Some (JsonNumber n) \<Rightarrow> if \<not> num_is_safe n \<or> num_int n < 0 then Inl SchemaError else Inr (num_int n)
      | _ \<Rightarrow> Inl SchemaError)"

definition requireNullableId :: "json option \<Rightarrow> decode_error + string option" where
  "requireNullableId value =
     (case value of
        Some JsonNull \<Rightarrow> Inr None
      | Some (JsonString s) \<Rightarrow> Inr (Some s)
      | _ \<Rightarrow> Inl SchemaError)"

text \<open>\<open>value !== undefined && typeof value !== "string"\<close> is an error, and the same for objects.\<close>

definition optionalString :: "json option \<Rightarrow> decode_error + string option" where
  "optionalString value =
     (case value of
        None \<Rightarrow> Inr None
      | Some (JsonString s) \<Rightarrow> Inr (Some s)
      | _ \<Rightarrow> Inl SchemaError)"

definition optionalObject :: "json option \<Rightarrow> decode_error + properties option" where
  "optionalObject value =
     (case value of
        None \<Rightarrow> Inr None
      | Some (JsonObject m) \<Rightarrow> Inr (Some m)
      | _ \<Rightarrow> Inl SchemaError)"

section \<open>The header\<close>

record jsonl_header =
  h_id :: string
  h_createdAt :: int
  h_cwd :: string
  h_parentSessionId :: "string option"
  h_legacyParentSessionPath :: "string option"
  h_metadata :: "properties option"

definition parseHeader :: "string \<Rightarrow> decode_error + jsonl_header" where
  "parseHeader line =
     rbind (parseObject line) (\<lambda>value.
     rbind (guard_r (map_get value ''kind'' = Some (JsonString ''header'')) SchemaError) (\<lambda>_.
     rbind (guard_r (map_get value ''version'' = Some (JsonNumber (int_num 4))) SchemaError) (\<lambda>_.
     rbind (optionalString (map_get value ''parentSessionId'')) (\<lambda>parentSessionId.
     rbind (optionalString (map_get value ''legacyParentSessionPath'')) (\<lambda>legacyParentSessionPath.
     rbind (guard_r (parentSessionId = None \<or> legacyParentSessionPath = None) SchemaError) (\<lambda>_.
     rbind (optionalObject (map_get value ''metadata'')) (\<lambda>metadata.
     rbind (requireString (map_get value ''id'')) (\<lambda>i.
     rbind (requireTimestamp (map_get value ''createdAt'')) (\<lambda>createdAt.
     rbind (requireString (map_get value ''cwd'')) (\<lambda>cwd.
     Inr \<lparr>h_id = i, h_createdAt = createdAt, h_cwd = cwd, h_parentSessionId = parentSessionId,
          h_legacyParentSessionPath = legacyParentSessionPath, h_metadata = metadata\<rparr>))))))))))"

text \<open>A property that is \<open>undefined\<close> is not written.\<close>

definition property :: "string \<Rightarrow> json option \<Rightarrow> properties" where
  "property k v = (case v of None \<Rightarrow> [] | Some v \<Rightarrow> [(k, v)])"

definition header_object :: "jsonl_header \<Rightarrow> properties" where
  "header_object h =
     [(''kind'', JsonString ''header''), (''version'', JsonNumber (int_num 4)), (''id'', JsonString (h_id h)),
      (''createdAt'', JsonNumber (int_num (h_createdAt h))), (''cwd'', JsonString (h_cwd h))]
     @ property ''parentSessionId'' (map_option JsonString (h_parentSessionId h))
     @ property ''legacyParentSessionPath'' (map_option JsonString (h_legacyParentSessionPath h))
     @ property ''metadata'' (map_option JsonObject (h_metadata h))"

definition encodeHeader :: "jsonl_header \<Rightarrow> string" where
  "encodeHeader h = stringify (JsonObject (header_object h)) @ newline"

record jsonl_metadata =
  jm_id :: string
  jm_createdAt :: int
  jm_cwd :: string
  jm_path :: string
  jm_modifiedAt :: jsnum
  jm_parentSessionId :: "string option"
  jm_legacyParentSessionPath :: "string option"
  jm_metadata :: "properties option"

definition metadataFromHeader :: "jsonl_header \<Rightarrow> string \<Rightarrow> jsnum \<Rightarrow> jsonl_metadata" where
  "metadataFromHeader h path modifiedAt = \<lparr>
     jm_id = h_id h, jm_createdAt = h_createdAt h, jm_cwd = h_cwd h, jm_path = path, jm_modifiedAt = modifiedAt,
     jm_parentSessionId = h_parentSessionId h, jm_legacyParentSessionPath = h_legacyParentSessionPath h,
     jm_metadata = h_metadata h\<rparr>"

section \<open>Mutations\<close>

text \<open>The properties left for the payload once the ones read separately are taken out.\<close>

definition without :: "string list \<Rightarrow> properties \<Rightarrow> properties" where
  "without ks value = filter (\<lambda>(k, v). k \<notin> set ks) value"

definition parseEntryMutation :: "payload_rep \<Rightarrow> properties \<Rightarrow> nat \<Rightarrow> decode_error + session_mutation" where
  "parseEntryMutation rep value seq =
     rbind (case map_get value ''lane'' of None \<Rightarrow> Inr None | v \<Rightarrow> rbind (requireString v) (\<lambda>l. Inr (Some l))) (\<lambda>lane.
     rbind (requireString (map_get value ''id'')) (\<lambda>i.
     rbind (requireString (map_get value ''type'')) (\<lambda>type.
     rbind (guard_r (type \<in> set ENTRY_TYPES) SchemaError) (\<lambda>_.
     rbind (requireNullableId (map_get value ''parentId'')) (\<lambda>parentId.
     rbind (requireTimestamp (map_get value ''timestamp'')) (\<lambda>timestamp.
     rbind (if type = ''custom'' then requireString (map_get value ''customType'') else Inr []) (\<lambda>_.
     Inr (MutEntry lane \<lparr>e_id = i, e_seq = seq, e_parentId = parentId, e_timestamp = timestamp,
       e_data = er_data rep (without [''kind'', ''lane'', ''id'', ''parentId'', ''seq'', ''timestamp''] value)\<rparr>))))))))"

definition checkIntent :: "properties \<Rightarrow> decode_error + unit" where
  "checkIntent value =
     (case map_get value ''intent'' of
        Some (JsonObject intent) \<Rightarrow>
          rbind (requireString (map_get intent ''kind'')) (\<lambda>operationKind.
          guard_r (operationKind \<in> set OPERATION_KINDS) SchemaError)
      | _ \<Rightarrow> Inl SchemaError)"

definition parseRecordMutation :: "payload_rep \<Rightarrow> properties \<Rightarrow> nat \<Rightarrow> decode_error + session_mutation" where
  "parseRecordMutation rep value seq =
     rbind (requireString (map_get value ''id'')) (\<lambda>i.
     rbind (requireString (map_get value ''lane'')) (\<lambda>lane.
     rbind (requireString (map_get value ''type'')) (\<lambda>type.
     rbind (guard_r (type \<in> set RECORD_TYPES) SchemaError) (\<lambda>_.
     rbind (requireTimestamp (map_get value ''timestamp'')) (\<lambda>timestamp.
     rbind (if type = ''operation_started'' then checkIntent value else Inr ()) (\<lambda>_.
     rbind (if type = ''operation_finished'' then requireString (map_get value ''runId'') else Inr []) (\<lambda>_.
     Inr (MutRecord \<lparr>r_id = i, r_seq = seq, r_lane = lane, r_timestamp = timestamp,
       r_data = rr_data rep (without [''kind'', ''id'', ''lane'', ''seq'', ''timestamp''] value)\<rparr>))))))))"

definition parseLaneMutation :: "properties \<Rightarrow> nat \<Rightarrow> decode_error + session_mutation" where
  "parseLaneMutation value seq =
     rbind (requireString (map_get value ''lane'')) (\<lambda>lane.
     rbind (requireNullableId (map_get value ''leafId'')) (\<lambda>leafId.
     Inr (MutLane seq lane leafId)))"

definition parseFactMutation :: "properties \<Rightarrow> nat \<Rightarrow> decode_error + session_mutation" where
  "parseFactMutation value seq =
     (if map_get value ''fact'' = Some (JsonString ''name'') then
        rbind (optionalString (map_get value ''name'')) (\<lambda>name. Inr (MutName seq name))
      else if map_get value ''fact'' = Some (JsonString ''label'') then
        rbind (optionalString (map_get value ''label'')) (\<lambda>label.
        rbind (requireString (map_get value ''targetId'')) (\<lambda>targetId.
        Inr (MutLabel seq targetId label)))
      else Inl SchemaError)"

definition parseMutation :: "payload_rep \<Rightarrow> string \<Rightarrow> decode_error + session_mutation" where
  "parseMutation rep line =
     rbind (parseObject line) (\<lambda>value.
     rbind (requireSequence (map_get value ''seq'')) (\<lambda>seq.
       case map_get value ''kind'' of
         Some (JsonString kind) \<Rightarrow>
           if kind = ''entry'' then parseEntryMutation rep value seq
           else if kind = ''record'' then parseRecordMutation rep value seq
           else if kind = ''lane'' then parseLaneMutation value seq
           else if kind = ''fact'' then parseFactMutation value seq
           else Inl SchemaError
       | _ \<Rightarrow> Inl SchemaError))"

definition nullable :: "string option \<Rightarrow> json" where
  "nullable v = (case v of None \<Rightarrow> JsonNull | Some s \<Rightarrow> JsonString s)"

abbreviation number :: "int \<Rightarrow> json" where
  "number i \<equiv> JsonNumber (int_num i)"

text \<open>The object of an entry and of a record: the provisioned properties, then the ones the storage adds.\<close>

definition entry_object :: "payload_rep \<Rightarrow> entry \<Rightarrow> properties" where
  "entry_object rep e =
     [(''id'', JsonString (e_id e)), (''type'', JsonString (entry_type_name (e_type e)))] @ er_fields rep (e_data e)
     @ [(''parentId'', nullable (e_parentId e)), (''seq'', number (int (e_seq e))), (''timestamp'', number (e_timestamp e))]"

definition record_object :: "payload_rep \<Rightarrow> lane_record \<Rightarrow> properties" where
  "record_object rep r =
     [(''id'', JsonString (r_id r)), (''lane'', JsonString (r_lane r)),
      (''type'', JsonString (record_type_name (record_data_type (r_data r))))] @ rr_fields rep (r_data r)
     @ [(''seq'', number (int (r_seq r))), (''timestamp'', number (r_timestamp r))]"

fun mutation_object :: "payload_rep \<Rightarrow> session_mutation \<Rightarrow> properties" where
  "mutation_object rep (MutEntry lane e) =
     (''kind'', JsonString ''entry'') # property ''lane'' (map_option JsonString lane) @ entry_object rep e"
| "mutation_object rep (MutRecord r) = (''kind'', JsonString ''record'') # record_object rep r"
| "mutation_object rep (MutLane n lane leaf) =
     [(''kind'', JsonString ''lane''), (''seq'', number (int n)), (''lane'', JsonString lane), (''leafId'', nullable leaf)]"
| "mutation_object rep (MutName n name) =
     [(''kind'', JsonString ''fact''), (''seq'', number (int n)), (''fact'', JsonString ''name'')]
     @ property ''name'' (map_option JsonString name)"
| "mutation_object rep (MutLabel n target label) =
     [(''kind'', JsonString ''fact''), (''seq'', number (int n)), (''fact'', JsonString ''label''),
      (''targetId'', JsonString target)] @ property ''label'' (map_option JsonString label)"

definition encodeMutation :: "payload_rep \<Rightarrow> session_mutation \<Rightarrow> string" where
  "encodeMutation rep m = stringify (JsonObject (mutation_object rep m)) @ newline"

section \<open>Round trips\<close>

definition time_ok :: "int \<Rightarrow> bool" where
  "time_ok t = (0 \<le> t \<and> t \<le> int max_safe)"

definition seq_ok :: "nat \<Rightarrow> bool" where
  "seq_ok n = (0 < n \<and> n \<le> max_safe)"

text \<open>Payload properties: JSON values under different keys, none of them a key of the storage.\<close>

definition fields_ok :: "string list \<Rightarrow> properties \<Rightarrow> bool" where
  "fields_ok reserved fs = (distinct (map fst fs) \<and> list_all (\<lambda>(k, v). k \<notin> set reserved \<and> json_ok v) fs)"

definition ENTRY_KEYS :: "string list" where
  "ENTRY_KEYS = [''kind'', ''lane'', ''id'', ''type'', ''parentId'', ''seq'', ''timestamp'']"

definition RECORD_KEYS :: "string list" where
  "RECORD_KEYS = [''kind'', ''lane'', ''id'', ''type'', ''seq'', ''timestamp'']"

text \<open>The representation gives the payload of this entry or record back, and has what the parser requires of it.\<close>

definition entry_rep_ok :: "payload_rep \<Rightarrow> entry_data \<Rightarrow> bool" where
  "entry_rep_ok rep d =
     (fields_ok ENTRY_KEYS (er_fields rep d)
      \<and> er_data rep ((''type'', JsonString (entry_type_name (entry_data_type d))) # er_fields rep d) = d
      \<and> (entry_data_type d = CustomType \<longrightarrow> is_ok (requireString (map_get (er_fields rep d) ''customType''))))"

definition record_rep_ok :: "payload_rep \<Rightarrow> record_data \<Rightarrow> bool" where
  "record_rep_ok rep d =
     (fields_ok RECORD_KEYS (rr_fields rep d)
      \<and> rr_data rep ((''type'', JsonString (record_type_name (record_data_type d))) # rr_fields rep d) = d
      \<and> (record_data_type d = OperationStartedType \<longrightarrow> is_ok (checkIntent (rr_fields rep d)))
      \<and> (record_data_type d = OperationFinishedType \<longrightarrow> is_ok (requireString (map_get (rr_fields rep d) ''runId''))))"

fun mutation_ok :: "payload_rep \<Rightarrow> session_mutation \<Rightarrow> bool" where
  "mutation_ok rep (MutEntry lane e) = (seq_ok (e_seq e) \<and> time_ok (e_timestamp e) \<and> entry_rep_ok rep (e_data e))"
| "mutation_ok rep (MutRecord r) = (seq_ok (r_seq r) \<and> time_ok (r_timestamp r) \<and> record_rep_ok rep (r_data r))"
| "mutation_ok rep m = seq_ok (mutation_seq m)"

definition header_ok :: "jsonl_header \<Rightarrow> bool" where
  "header_ok h = (time_ok (h_createdAt h) \<and> (h_parentSessionId h = None \<or> h_legacyParentSessionPath h = None)
     \<and> (case h_metadata h of None \<Rightarrow> True | Some m \<Rightarrow> json_ok (JsonObject m)))"

lemma time_num: "time_ok t \<Longrightarrow> num_ok (int_num t) \<and> num_is_safe (int_num t) \<and> num_int (int_num t) = t \<and> 0 \<le> t"
  using num_ok_int [of t] int_num_safe [of t] by (auto simp: time_ok_def)

lemma seq_num:
  "seq_ok n \<Longrightarrow> num_ok (int_num (int n)) \<and> num_is_safe (int_num (int n)) \<and> num_int (int_num (int n)) = int n \<and> 0 < n"
  using num_ok_int [of "int n"] int_num_safe [of "int n"] by (auto simp: seq_ok_def)

lemma version_num: "num_ok (int_num 4)"
  by (rule num_ok_int) (simp add: max_safe_def)

lemma fields_get: "fields_ok ks fs \<Longrightarrow> k \<in> set ks \<Longrightarrow> map_of fs k = None"
  by (force simp: fields_ok_def list.pred_set map_of_eq_None_iff)

lemma fields_keys: "fields_ok ks fs \<Longrightarrow> k \<in> set ks \<Longrightarrow> k \<notin> fst ` set fs"
  by (force simp: fields_ok_def list.pred_set)

lemma fields_json: "fields_ok ks fs \<Longrightarrow> distinct (map fst fs) \<and> list_all (\<lambda>(k, v). json_ok v) fs"
  by (auto simp: fields_ok_def list.pred_set)

lemma fields_filter: "fields_ok ks fs \<Longrightarrow> set js \<subseteq> set ks \<Longrightarrow> filter (\<lambda>(k, v). k \<notin> set js) fs = fs"
  by (rule filter_True) (force simp: fields_ok_def list.pred_set)

lemma json_ok_nullable [simp]: "json_ok (nullable v)"
  by (cases v) (simp_all add: nullable_def)

lemma requireNullableId_nullable [simp]: "requireNullableId (Some (nullable v)) = Inr v"
  by (cases v) (simp_all add: nullable_def requireNullableId_def)

lemma require_simps [simp]:
  "requireString (Some (JsonString s)) = Inr s"
  "seq_ok n \<Longrightarrow> requireSequence (Some (number (int n))) = Inr n"
  "time_ok t \<Longrightarrow> requireTimestamp (Some (number t)) = Inr t"
  using seq_num [of n] time_num [of t] by (simp_all add: requireString_def requireSequence_def requireTimestamp_def)

lemma optional_simps [simp]:
  "optionalString (map_option JsonString s) = Inr s" "optionalObject (map_option JsonObject m) = Inr m"
  by (cases s; simp add: optionalString_def) (cases m; simp add: optionalObject_def)

lemma property_simps [simp]:
  "property k None = []" "property k (Some v) = [(k, v)]"
  by (simp_all add: property_def)

lemma entry_type_names: "entry_type_name t \<in> set ENTRY_TYPES" "entry_type_name t = ''custom'' \<longleftrightarrow> t = CustomType"
  by (cases t; simp add: ENTRY_TYPES_def)+

lemma record_type_names:
  "record_type_name t \<in> set RECORD_TYPES" "record_type_name t = ''operation_started'' \<longleftrightarrow> t = OperationStartedType"
  "record_type_name t = ''operation_finished'' \<longleftrightarrow> t = OperationFinishedType"
  by (cases t; simp add: RECORD_TYPES_def)+

lemma mutation_json:
  assumes "mutation_ok rep m"
  shows "json_ok (JsonObject (mutation_object rep m))"
  using assms
proof (induction rep m rule: mutation_object.induct)
  case (1 rep lane e)
  then have f: "fields_ok ENTRY_KEYS (er_fields rep (e_data e))" "seq_ok (e_seq e)" "time_ok (e_timestamp e)"
    by (auto simp: entry_rep_ok_def)
  from fields_keys [OF f(1)] fields_json [OF f(1)] seq_num [OF f(2)] time_num [OF f(3)] show ?case
    by (cases lane) (simp_all add: entry_object_def ENTRY_KEYS_def)
next
  case (2 rep r)
  then have f: "fields_ok RECORD_KEYS (rr_fields rep (r_data r))" "seq_ok (r_seq r)" "time_ok (r_timestamp r)"
    by (auto simp: record_rep_ok_def)
  from fields_keys [OF f(1)] fields_json [OF f(1)] seq_num [OF f(2)] time_num [OF f(3)] show ?case
    by (simp add: record_object_def RECORD_KEYS_def)
next
  case (4 rep n name) then show ?case by (cases name) (simp_all add: seq_num)
next
  case (5 rep n target label) then show ?case by (cases label) (simp_all add: seq_num)
qed (simp_all add: seq_num)

lemma parse_entry:
  assumes "mutation_ok rep (MutEntry lane e)"
  shows "parseEntryMutation rep (mutation_object rep (MutEntry lane e)) (e_seq e) = Inr (MutEntry lane e)"
proof -
  from assms have f: "fields_ok ENTRY_KEYS (er_fields rep (e_data e))" "time_ok (e_timestamp e)"
    "er_data rep ((''type'', JsonString (entry_type_name (e_type e))) # er_fields rep (e_data e)) = e_data e"
    "e_type e = CustomType \<Longrightarrow> \<exists>s. requireString (map_get (er_fields rep (e_data e)) ''customType'') = Inr s"
    by (auto simp: entry_rep_ok_def e_type_def is_ok_iff)
  let ?v = "mutation_object rep (MutEntry lane e)"
  have g: "map_of (er_fields rep (e_data e)) k = None" if "k \<in> set ENTRY_KEYS" for k
    by (rule fields_get [OF f(1) that])
  have get: "map_of ?v ''lane'' = map_option JsonString lane" "map_of ?v ''id'' = Some (JsonString (e_id e))"
    "map_of ?v ''type'' = Some (JsonString (entry_type_name (e_type e)))" "map_of ?v ''parentId'' = Some (nullable (e_parentId e))"
    "map_of ?v ''timestamp'' = Some (number (e_timestamp e))"
    using g by (cases lane; simp add: entry_object_def ENTRY_KEYS_def map_add_def)+
  have cust: "map_of ?v ''customType'' = map_of (er_fields rep (e_data e)) ''customType''"
    by (cases lane) (simp_all add: entry_object_def map_add_def split: option.split)
  have w: "without [''kind'', ''lane'', ''id'', ''parentId'', ''seq'', ''timestamp''] ?v
      = (''type'', JsonString (entry_type_name (e_type e))) # er_fields rep (e_data e)"
    using fields_filter [OF f(1), of "[''kind'', ''lane'', ''id'', ''parentId'', ''seq'', ''timestamp'']"]
    by (cases lane) (simp_all add: without_def entry_object_def ENTRY_KEYS_def)
  show ?thesis
    unfolding parseEntryMutation_def get w f(3) cust using f(2,4) entry_type_names
    by (cases lane; cases "e_type e = CustomType") (auto simp: ENTRY_TYPES_def)
qed

lemma parse_record:
  assumes "mutation_ok rep (MutRecord r)"
  shows "parseRecordMutation rep (mutation_object rep (MutRecord r)) (r_seq r) = Inr (MutRecord r)"
proof -
  let ?d = "record_data_type (r_data r)"
  from assms have f: "fields_ok RECORD_KEYS (rr_fields rep (r_data r))" "time_ok (r_timestamp r)"
    "rr_data rep ((''type'', JsonString (record_type_name ?d)) # rr_fields rep (r_data r)) = r_data r"
    "?d = OperationStartedType \<Longrightarrow> checkIntent (rr_fields rep (r_data r)) = Inr ()"
    "?d = OperationFinishedType \<Longrightarrow> \<exists>s. requireString (map_get (rr_fields rep (r_data r)) ''runId'') = Inr s"
    by (auto simp: record_rep_ok_def is_ok_iff)
  let ?v = "mutation_object rep (MutRecord r)"
  have g: "map_of (rr_fields rep (r_data r)) k = None" if "k \<in> set RECORD_KEYS" for k
    by (rule fields_get [OF f(1) that])
  have get: "map_of ?v ''id'' = Some (JsonString (r_id r))" "map_of ?v ''lane'' = Some (JsonString (r_lane r))"
    "map_of ?v ''type'' = Some (JsonString (record_type_name ?d))" "map_of ?v ''timestamp'' = Some (number (r_timestamp r))"
    using g by (simp add: record_object_def RECORD_KEYS_def map_add_def)+
  have run: "map_of ?v ''runId'' = map_of (rr_fields rep (r_data r)) ''runId''"
    by (simp add: record_object_def map_add_def split: option.split)
  have int: "checkIntent ?v = checkIntent (rr_fields rep (r_data r))"
    by (simp add: record_object_def checkIntent_def map_add_def split: option.split)
  have w: "without [''kind'', ''id'', ''lane'', ''seq'', ''timestamp''] ?v
      = (''type'', JsonString (record_type_name ?d)) # rr_fields rep (r_data r)"
    using fields_filter [OF f(1), of "[''kind'', ''id'', ''lane'', ''seq'', ''timestamp'']"]
    by (simp add: without_def record_object_def RECORD_KEYS_def)
  show ?thesis
    unfolding parseRecordMutation_def get w f(3) run int using f(2,4,5) record_type_names
    by (cases "?d = OperationStartedType"; cases "?d = OperationFinishedType") (auto simp: RECORD_TYPES_def)
qed

lemma parse_object: "json_ok (JsonObject v) \<Longrightarrow> parseObject (stringify (JsonObject v)) = Inr v"
  by (simp add: parseObject_def json_parse_stringify del: stringify.simps json_ok.simps)

lemma parse_encode_mutation:
  assumes "mutation_ok rep m"
  shows "parseMutation rep (stringify (JsonObject (mutation_object rep m))) = Inr m"
proof -
  note obj = parse_object [OF mutation_json [OF assms]]
  show ?thesis
  proof (cases m)
    case (MutEntry lane e)
    with assms have "fields_ok ENTRY_KEYS (er_fields rep (e_data e))" and s: "seq_ok (e_seq e)" by (simp_all add: entry_rep_ok_def)
    then have "map_of (mutation_object rep m) ''seq'' = Some (number (int (e_seq e)))"
      using fields_get [of _ _ "''seq''"] MutEntry
      by (cases lane) (auto simp: entry_object_def ENTRY_KEYS_def map_add_def)
    then show ?thesis using obj parse_entry [of rep lane e] assms MutEntry s
      by (simp add: parseMutation_def del: stringify.simps)
  next
    case (MutRecord r)
    with assms have "fields_ok RECORD_KEYS (rr_fields rep (r_data r))" and s: "seq_ok (r_seq r)" by (simp_all add: record_rep_ok_def)
    then have "map_of (mutation_object rep m) ''seq'' = Some (number (int (r_seq r)))"
      using fields_get [of _ _ "''seq''"] MutRecord by (auto simp: record_object_def RECORD_KEYS_def map_add_def)
    then show ?thesis using obj parse_record [of rep r] assms MutRecord s
      by (simp add: parseMutation_def del: stringify.simps)
  next
    case (MutLane n lane leaf)
    then show ?thesis using obj assms by (simp add: parseMutation_def parseLaneMutation_def del: stringify.simps)
  next
    case (MutName n name)
    then show ?thesis using obj assms
      by (cases name) (simp_all add: parseMutation_def parseFactMutation_def optionalString_def del: stringify.simps)
  next
    case (MutLabel n target label)
    then show ?thesis using obj assms
      by (cases label) (simp_all add: parseMutation_def parseFactMutation_def optionalString_def del: stringify.simps)
  qed
qed

lemma header_json: "header_ok h \<Longrightarrow> json_ok (JsonObject (header_object h))"
  by (cases "h_parentSessionId h"; cases "h_legacyParentSessionPath h"; cases "h_metadata h")
    (auto simp: header_ok_def header_object_def version_num time_num)

lemma parse_encode_header:
  assumes "header_ok h"
  shows "parseHeader (stringify (JsonObject (header_object h))) = Inr h"
proof -
  have get: "map_of (header_object h) ''kind'' = Some (JsonString ''header'')"
    "map_of (header_object h) ''version'' = Some (number 4)"
    "map_of (header_object h) ''id'' = Some (JsonString (h_id h))" "map_of (header_object h) ''createdAt'' = Some (number (h_createdAt h))"
    "map_of (header_object h) ''cwd'' = Some (JsonString (h_cwd h))"
    "map_of (header_object h) ''parentSessionId'' = map_option JsonString (h_parentSessionId h)"
    "map_of (header_object h) ''legacyParentSessionPath'' = map_option JsonString (h_legacyParentSessionPath h)"
    "map_of (header_object h) ''metadata'' = map_option JsonObject (h_metadata h)"
    by (cases "h_parentSessionId h"; cases "h_legacyParentSessionPath h"; cases "h_metadata h"; simp add: header_object_def)+
  have "time_ok (h_createdAt h)" "h_parentSessionId h = None \<or> h_legacyParentSessionPath h = None"
    using assms by (simp_all add: header_ok_def)
  then show ?thesis using parse_object [OF header_json [OF assms]] by (simp add: parseHeader_def get del: stringify.simps)
qed

end
