(* ===== verification/FileSystem.thy ===== *)
theory FileSystem
  imports Prelude JsNumber JsonText
begin

text \<open>
  The interface \<open>FileSystem\<close> (\<open>packages/agent/src/harness/types.ts\<close>) as a record of operations over a world,
  the contract the session code relies on as the locale \<open>file_system\<close>, and its provider
  \<open>NodeExecutionEnv\<close> (\<open>env/nodejs.ts\<close>) over a disk of regular files and directories. The disk lists the
  outcomes of the next system calls: an error number, and for a write the number of characters that reach
  the file first; an exhausted list means success. No caller modelled here passes an abort signal, the
  platform is POSIX and a path is an 8-bit string.
\<close>

section \<open>Paths\<close>

fun norm_segments :: "bool \<Rightarrow> string list \<Rightarrow> string list \<Rightarrow> string list" where
  "norm_segments absolute acc [] = rev acc"
| "norm_segments absolute acc (x # xs) =
     (if x = [] \<or> x = ''.'' then norm_segments absolute acc xs
      else if x = ''..'' then
        (case acc of
           [] \<Rightarrow> norm_segments absolute (if absolute then [] else [x]) xs
         | y # ys \<Rightarrow> norm_segments absolute (if y = ''..'' then x # acc else ys) xs)
      else norm_segments absolute (x # acc) xs)"

definition isAbsolute :: "string \<Rightarrow> bool" where
  "isAbsolute p = (p \<noteq> [] \<and> hd p = CHR ''/'')"

definition segments :: "string \<Rightarrow> string list" where
  "segments p = norm_segments (isAbsolute p) [] (split_on (CHR ''/'') p)"

definition path_normalize :: "string \<Rightarrow> string" where
  "path_normalize p =
     (let s = join ''/'' (segments p); slash = (p \<noteq> [] \<and> last p = CHR ''/'');
          s = (if s = [] \<and> \<not> isAbsolute p then ''.'' else s); s = (if s \<noteq> [] \<and> slash then s @ ''/'' else s) in
      if isAbsolute p then CHR ''/'' # s else s)"

definition path_join :: "string list \<Rightarrow> string" where
  "path_join parts = path_normalize (join ''/'' (filter (\<lambda>p. p \<noteq> []) parts))"

definition rooted :: "string list \<Rightarrow> string" where
  "rooted segs = CHR ''/'' # join ''/'' segs"

text \<open>\<open>resolve(a, b)\<close> in a process whose working directory is \<open>process_cwd\<close>.\<close>

definition path_resolve :: "string \<Rightarrow> string \<Rightarrow> string \<Rightarrow> string" where
  "path_resolve process_cwd a b =
     rooted (segments (if isAbsolute b then b else if isAbsolute a then a @ ''/'' @ b
       else CHR ''/'' # process_cwd @ ''/'' @ a @ ''/'' @ b))"

definition basename :: "string \<Rightarrow> string" where
  "basename p = (case rev (segments p) of [] \<Rightarrow> [] | s # _ \<Rightarrow> s)"

definition parent_path :: "string \<Rightarrow> string" where
  "parent_path p = rooted (butlast (segments p))"

text \<open>The directories above a path, and the path itself.\<close>

definition with_ancestors :: "string \<Rightarrow> string list" where
  "with_ancestors p = map (\<lambda>i. rooted (take i (segments p))) [1..<Suc (length (segments p))]"

section \<open>The interface\<close>

datatype file_error = FAborted | FNotFound | FPermissionDenied | FNotDirectory | FIsDirectory | FInvalid | FUnknown

datatype file_kind = FileKind | DirectoryKind

record file_info =
  fi_name :: string
  fi_path :: string
  fi_kind :: file_kind
  fi_size :: nat
  fi_mtimeMs :: jsnum

type_synonym ('a, 'w) file_op = "'w \<Rightarrow> (file_error + 'a) \<times> 'w"

record 'w fs_ops =
  fs_absolutePath :: "string \<Rightarrow> (string, 'w) file_op"
  fs_joinPath :: "string list \<Rightarrow> (string, 'w) file_op"
  fs_readTextFile :: "string \<Rightarrow> (string, 'w) file_op"
  fs_readTextLines :: "string \<Rightarrow> nat option \<Rightarrow> (string list, 'w) file_op"
  fs_writeFile :: "string \<Rightarrow> string \<Rightarrow> (unit, 'w) file_op"
  fs_appendFile :: "string \<Rightarrow> string \<Rightarrow> (unit, 'w) file_op"
  fs_renameFile :: "string \<Rightarrow> string \<Rightarrow> (unit, 'w) file_op"
  fs_fileInfo :: "string \<Rightarrow> (file_info, 'w) file_op"
  fs_listDir :: "string \<Rightarrow> (file_info list, 'w) file_op"
  fs_exists :: "string \<Rightarrow> (bool, 'w) file_op"
  fs_createDir :: "string \<Rightarrow> bool \<Rightarrow> (unit, 'w) file_op"
  fs_remove :: "string \<Rightarrow> bool \<Rightarrow> bool \<Rightarrow> (unit, 'w) file_op"  \<comment> \<open>recursive, force\<close>

section \<open>The disk\<close>

record disk =
  d_files :: "(string, string \<times> jsnum) jsmap"
  d_dirs :: "string list"
  d_faults :: "(string \<times> nat) option list"
  d_now :: jsnum

definition next_fault :: "disk \<Rightarrow> (string \<times> nat) option \<times> disk" where
  "next_fault d = (case d_faults d of [] \<Rightarrow> (None, d) | f # fs \<Rightarrow> (f, d\<lparr>d_faults := fs\<rparr>))"

definition is_dir :: "disk \<Rightarrow> string \<Rightarrow> bool" where
  "is_dir d p = (p = ''/'' \<or> p \<in> set (d_dirs d))"

definition is_file :: "disk \<Rightarrow> string \<Rightarrow> bool" where
  "is_file d p = map_has (d_files d) p"

definition missing :: "disk \<Rightarrow> string \<Rightarrow> string" where
  "missing d p = (if list_ex (is_file d) (butlast (with_ancestors p)) then ''ENOTDIR'' else ''ENOENT'')"

type_synonym 'a sys_call = "disk \<Rightarrow> (string + 'a) \<times> disk"

text \<open>A system call that changes nothing: its fault, or the result on the disk.\<close>

definition inspect :: "(disk \<Rightarrow> string + 'a) \<Rightarrow> 'a sys_call" where
  "inspect f d = (case next_fault d of (Some (e, _), d) \<Rightarrow> (Inl e, d) | (None, d) \<Rightarrow> (f d, d))"

definition sys_readFile :: "string \<Rightarrow> string sys_call" where
  "sys_readFile p = inspect (\<lambda>d.
     case map_get (d_files d) p of
       Some (c, _) \<Rightarrow> Inr c
     | None \<Rightarrow> if is_dir d p then Inl ''EISDIR'' else Inl (missing d p))"

definition sys_lstat :: "string \<Rightarrow> (file_kind \<times> nat \<times> jsnum) sys_call" where
  "sys_lstat p = inspect (\<lambda>d.
     case map_get (d_files d) p of
       Some (c, t) \<Rightarrow> Inr (FileKind, length c + length (filter (\<lambda>x. of_char x \<ge> (128::nat)) c), t)
     | None \<Rightarrow> if is_dir d p then Inr (DirectoryKind, 0, d_now d) else Inl (missing d p))"

definition children :: "disk \<Rightarrow> string \<Rightarrow> string list" where
  "children d p = filter (\<lambda>q. q \<noteq> ''/'' \<and> parent_path q = p) (d_dirs d @ map fst (d_files d))"

definition sys_readdir :: "string \<Rightarrow> string list sys_call" where
  "sys_readdir p = inspect (\<lambda>d.
     if is_file d p then Inl ''ENOTDIR'' else if is_dir d p then Inr (map basename (children d p)) else Inl (missing d p))"

definition sys_mkdir :: "string \<Rightarrow> bool \<Rightarrow> unit sys_call" where
  "sys_mkdir p recursive d =
     (case next_fault d of
        (Some (e, _), d) \<Rightarrow> (Inl e, d)
      | (None, d) \<Rightarrow>
          if is_file d p \<or> (\<not> recursive \<and> is_dir d p) then (Inl ''EEXIST'', d)
          else if list_ex (is_file d) (with_ancestors p) then (Inl ''ENOTDIR'', d)
          else if \<not> recursive \<and> \<not> is_dir d (parent_path p) then (Inl ''ENOENT'', d)
          else (Inr (), d\<lparr>d_dirs := d_dirs d @ filter (\<lambda>q. \<not> is_dir d q) (with_ancestors p)\<rparr>))"

text \<open>Opening a file and writing: a fault leaves what was written before it.\<close>

definition put_file :: "string \<Rightarrow> string \<Rightarrow> disk \<Rightarrow> disk" where
  "put_file p c d = d\<lparr>d_files := map_set p (c, d_now d) (d_files d)\<rparr>"

definition sys_write :: "string \<Rightarrow> string \<Rightarrow> string \<Rightarrow> unit sys_call" where
  "sys_write p old c d =
     (if is_dir d p then (Inl ''EISDIR'', d)
      else if \<not> is_dir d (parent_path p) then (Inl (missing d p), d)
      else case next_fault d of
        (Some (e, n), d) \<Rightarrow> (Inl e, put_file p (old @ take n c) d)
      | (None, d) \<Rightarrow> (Inr (), put_file p (old @ c) d))"

definition old_content :: "disk \<Rightarrow> string \<Rightarrow> string" where
  "old_content d p = (case map_get (d_files d) p of Some (c, _) \<Rightarrow> c | None \<Rightarrow> [])"

text \<open>Renaming a file; no caller renames a directory.\<close>

definition sys_rename :: "string \<Rightarrow> string \<Rightarrow> unit sys_call" where
  "sys_rename p q d =
     (case next_fault d of
        (Some (e, _), d) \<Rightarrow> (Inl e, d)
      | (None, d) \<Rightarrow>
          (case map_get (d_files d) p of
             None \<Rightarrow> (Inl (missing d p), d)
           | Some (c, t) \<Rightarrow>
               if is_dir d q then (Inl ''EISDIR'', d)
               else if \<not> is_dir d (parent_path q) then (Inl (missing d q), d)
               else (Inr (), if p = q then d else d\<lparr>d_files := map_set q (c, t) (map_delete p (d_files d))\<rparr>)))"

definition below :: "string \<Rightarrow> string \<Rightarrow> bool" where
  "below p q = (q = p \<or> p \<in> set (with_ancestors q))"

definition sys_rm :: "string \<Rightarrow> bool \<Rightarrow> bool \<Rightarrow> unit sys_call" where
  "sys_rm p recursive force d =
     (case next_fault d of
        (Some (e, _), d) \<Rightarrow> (Inl e, d)
      | (None, d) \<Rightarrow>
          if is_file d p then (Inr (), d\<lparr>d_files := map_delete p (d_files d)\<rparr>)
          else if is_dir d p then
            (if \<not> recursive then (Inl ''ERR_FS_EISDIR'', d)
             else (Inr (), d\<lparr>d_files := filter (\<lambda>(q, _). \<not> below p q) (d_files d),
                            d_dirs := filter (\<lambda>q. \<not> below p q) (d_dirs d)\<rparr>))
          else if force then (Inr (), d) else (Inl (missing d p), d))"

section \<open>\<open>NodeExecutionEnv\<close>\<close>

text \<open>\<open>fileURLToPath\<close> of \<open>node:url\<close> is a field: \<open>None\<close> when it throws.\<close>

record node_env =
  ne_cwd :: string
  ne_process_cwd :: string
  ne_homedir :: string
  ne_fileURLToPath :: "string \<Rightarrow> string option"

definition starts_with :: "string \<Rightarrow> string \<Rightarrow> bool" where
  "starts_with w s = (take (length w) s = w)"

definition resolvePath :: "node_env \<Rightarrow> string \<Rightarrow> string" where
  "resolvePath env path =
     (let normalized =
        (if path = ''~'' then ne_homedir env
         else if starts_with ''~/'' path then path_join [ne_homedir env, drop 2 path]
         else if starts_with ''file://'' path then
           (case ne_fileURLToPath env path of None \<Rightarrow> path | Some p \<Rightarrow> p)
         else path) in
      if isAbsolute normalized then path_resolve (ne_process_cwd env) normalized []
      else path_resolve (ne_process_cwd env) (ne_cwd env) normalized)"

definition toFileError :: "string \<Rightarrow> file_error" where
  "toFileError code =
     (if code = ''ABORT_ERR'' then FAborted
      else if code = ''ENOENT'' then FNotFound
      else if code = ''EACCES'' \<or> code = ''EPERM'' then FPermissionDenied
      else if code = ''ENOTDIR'' then FNotDirectory
      else if code = ''EISDIR'' then FIsDirectory
      else if code = ''EINVAL'' then FInvalid
      else FUnknown)"

text \<open>\<open>await\<close> of a system call inside \<open>try\<close>: what was thrown becomes an error of the interface.\<close>

definition sys_try :: "(string + 'a) \<times> disk \<Rightarrow> ('a \<Rightarrow> ('b, disk) file_op) \<Rightarrow> (file_error + 'b) \<times> disk" where
  "sys_try r f = (case r of (Inl e, d) \<Rightarrow> (Inl (toFileError e), d) | (Inr x, d) \<Rightarrow> f x d)"

definition return_ok :: "'a \<Rightarrow> ('a, 'w) file_op" where
  "return_ok x w = (Inr x, w)"

definition node_readTextFile :: "node_env \<Rightarrow> string \<Rightarrow> (string, disk) file_op" where
  "node_readTextFile env path d = sys_try (sys_readFile (resolvePath env path) d) return_ok"

text \<open>The lines \<open>readline\<close> yields: a line feed, a carriage return or both end a line, the last one may be missing.\<close>

fun read_lines :: "string \<Rightarrow> string \<Rightarrow> string list" where
  "read_lines line [] = (if line = [] then [] else [rev line])"
| "read_lines line (c # cs) =
     (if c = CHR 0x0A then rev line # read_lines [] cs
      else if c = CHR 0x0D then
        (case cs of
           d # ds \<Rightarrow> rev line # read_lines [] (if d = CHR 0x0A then ds else cs)
         | [] \<Rightarrow> [rev line])
      else read_lines (c # line) cs)"

definition node_readTextLines :: "node_env \<Rightarrow> string \<Rightarrow> nat option \<Rightarrow> (string list, disk) file_op" where
  "node_readTextLines env path maxLines d =
     (if maxLines = Some 0 then (Inr [], d)
      else sys_try (sys_readFile (resolvePath env path) d) (\<lambda>c.
        return_ok (case maxLines of None \<Rightarrow> read_lines [] c | Some n \<Rightarrow> take n (read_lines [] c))))"

definition node_writeFile :: "node_env \<Rightarrow> string \<Rightarrow> string \<Rightarrow> (unit, disk) file_op" where
  "node_writeFile env path content d =
     (let resolved = resolvePath env path in
      sys_try (sys_mkdir (path_resolve (ne_process_cwd env) resolved ''..'') True d) (\<lambda>_ d.
      sys_try (sys_write resolved [] content d) return_ok))"

definition node_appendFile :: "node_env \<Rightarrow> string \<Rightarrow> string \<Rightarrow> (unit, disk) file_op" where
  "node_appendFile env path content d =
     (let resolved = resolvePath env path in
      sys_try (sys_mkdir (path_resolve (ne_process_cwd env) resolved ''..'') True d) (\<lambda>_ d.
      sys_try (sys_write resolved (old_content d resolved) content d) return_ok))"

definition node_renameFile :: "node_env \<Rightarrow> string \<Rightarrow> string \<Rightarrow> (unit, disk) file_op" where
  "node_renameFile env sourcePath destinationPath d =
     sys_try (sys_rename (resolvePath env sourcePath) (resolvePath env destinationPath) d) return_ok"

definition fileInfoFromStats :: "string \<Rightarrow> file_kind \<times> nat \<times> jsnum \<Rightarrow> file_info" where
  "fileInfoFromStats path stats = (case stats of (kind, bytes, mtimeMs) \<Rightarrow>
     \<lparr>fi_name = basename path, fi_path = path, fi_kind = kind, fi_size = bytes, fi_mtimeMs = mtimeMs\<rparr>)"

definition node_fileInfo :: "node_env \<Rightarrow> string \<Rightarrow> (file_info, disk) file_op" where
  "node_fileInfo env path d =
     (let resolved = resolvePath env path in
      sys_try (sys_lstat resolved d) (\<lambda>stats. return_ok (fileInfoFromStats resolved stats)))"

fun node_listEntries :: "node_env \<Rightarrow> string \<Rightarrow> string list \<Rightarrow> file_info list \<Rightarrow> (file_info list, disk) file_op" where
  "node_listEntries env resolved [] infos d = (Inr infos, d)"
| "node_listEntries env resolved (name # names) infos d =
     (let entryPath = path_resolve (ne_process_cwd env) resolved name in
      sys_try (sys_lstat entryPath d) (\<lambda>stats.
      node_listEntries env resolved names (infos @ [fileInfoFromStats entryPath stats])))"

definition node_listDir :: "node_env \<Rightarrow> string \<Rightarrow> (file_info list, disk) file_op" where
  "node_listDir env path d =
     (let resolved = resolvePath env path in
      sys_try (sys_readdir resolved d) (\<lambda>names. node_listEntries env resolved names []))"

definition node_exists :: "node_env \<Rightarrow> string \<Rightarrow> (bool, disk) file_op" where
  "node_exists env path d =
     (case node_fileInfo env path d of
        (Inr _, d) \<Rightarrow> (Inr True, d)
      | (Inl e, d) \<Rightarrow> if e = FNotFound then (Inr False, d) else (Inl e, d))"

definition node_createDir :: "node_env \<Rightarrow> string \<Rightarrow> bool \<Rightarrow> (unit, disk) file_op" where
  "node_createDir env path recursive d = sys_try (sys_mkdir (resolvePath env path) recursive d) return_ok"

definition node_remove :: "node_env \<Rightarrow> string \<Rightarrow> bool \<Rightarrow> bool \<Rightarrow> (unit, disk) file_op" where
  "node_remove env path recursive force d = sys_try (sys_rm (resolvePath env path) recursive force d) return_ok"

definition nodeFs :: "node_env \<Rightarrow> disk fs_ops" where
  "nodeFs env = \<lparr>
     fs_absolutePath = (\<lambda>path. return_ok (resolvePath env path)),
     fs_joinPath = (\<lambda>parts. return_ok (path_join parts)),
     fs_readTextFile = node_readTextFile env,
     fs_readTextLines = node_readTextLines env,
     fs_writeFile = node_writeFile env,
     fs_appendFile = node_appendFile env,
     fs_renameFile = node_renameFile env,
     fs_fileInfo = node_fileInfo env,
     fs_listDir = node_listDir env,
     fs_exists = node_exists env,
     fs_createDir = node_createDir env,
     fs_remove = node_remove env\<rparr>"

text \<open>What a file holds, by resolved path.\<close>

definition file_content :: "disk \<Rightarrow> string \<Rightarrow> string option" where
  "file_content d p = map_option fst (map_get (d_files d) p)"

section \<open>The contract\<close>

text \<open>
  Files are addressed by their resolved path. An operation changes the file it names and no other; a failed
  append may leave part of the text behind the old content, a failed rename leaves everything as it was.
\<close>

locale file_system =
  fixes fs :: "'w fs_ops" and read :: "'w \<Rightarrow> string \<Rightarrow> string option" and path :: "string \<Rightarrow> string"
  assumes readTextFile_ok: "fs_readTextFile fs p w = (Inr c, w') \<Longrightarrow> read w (path p) = Some c"
    and readTextFile_frame: "fs_readTextFile fs p w = (r, w') \<Longrightarrow> read w' = read w"
    and fileInfo_frame: "fs_fileInfo fs p w = (i, w') \<Longrightarrow> read w' = read w"
    and writeFile_ok: "fs_writeFile fs p c w = (Inr u, w') \<Longrightarrow> read w' = (read w)(path p \<mapsto> c)"
    and writeFile_frame: "fs_writeFile fs p c w = (x, w') \<Longrightarrow> q \<noteq> path p \<Longrightarrow> read w' q = read w q"
    and appendFile_ok: "fs_appendFile fs p c w = (Inr u, w') \<Longrightarrow>
      read w' = (read w)(path p \<mapsto> (case read w (path p) of None \<Rightarrow> c | Some old \<Rightarrow> old @ c))"
    and appendFile_frame: "fs_appendFile fs p c w = (x, w') \<Longrightarrow> q \<noteq> path p \<Longrightarrow> read w' q = read w q"
    and appendFile_torn: "fs_appendFile fs p c w = (Inl e, w') \<Longrightarrow> read w (path p) = Some old \<Longrightarrow>
      \<exists>k. read w' (path p) = Some (old @ take k c)"
    and renameFile_ok: "fs_renameFile fs p q w = (Inr u, w') \<Longrightarrow> path p \<noteq> path q \<Longrightarrow>
      read w' = (read w)(path q := read w (path p), path p := None)"
    and renameFile_fail: "fs_renameFile fs p q w = (Inl e, w') \<Longrightarrow> read w' = read w"
    and remove_frame: "fs_remove fs p False force w = (x, w') \<Longrightarrow> q \<noteq> path p \<Longrightarrow> read w' q = read w q"

section \<open>The provider keeps the contract\<close>

lemma next_fault_content: "next_fault d = (f, d') \<Longrightarrow> d_files d' = d_files d \<and> d_dirs d' = d_dirs d \<and> d_now d' = d_now d"
  by (auto simp: next_fault_def split: list.splits)

lemma content_next: "next_fault d = (f, d') \<Longrightarrow> file_content d' = file_content d"
  by (rule ext) (auto simp: file_content_def dest!: next_fault_content)

lemma inspect_content: "inspect f d = (r, d') \<Longrightarrow> file_content d' = file_content d"
  by (auto simp: inspect_def split: prod.splits option.splits dest: content_next)

lemma content_put: "file_content (put_file p c d) = (file_content d)(p \<mapsto> c)"
  by (auto simp: file_content_def put_file_def)

lemma sys_mkdir_content: "sys_mkdir p recursive d = (r, d') \<Longrightarrow> file_content d' = file_content d"
  by (auto simp: sys_mkdir_def file_content_def split: prod.splits option.splits if_splits dest!: next_fault_content)

lemma sys_write_content:
  assumes "sys_write p old c d = (r, d')"
  shows "r = Inr u \<Longrightarrow> file_content d' = (file_content d)(p \<mapsto> old @ c)"
    "file_content d' = file_content d \<or> (\<exists>k. file_content d' = (file_content d)(p \<mapsto> old @ take k c))"
proof -
  from assms show "r = Inr u \<Longrightarrow> file_content d' = (file_content d)(p \<mapsto> old @ c)"
    by (auto simp: sys_write_def content_put split: if_splits prod.splits option.splits dest!: content_next)
  have "\<exists>k. (file_content d)(p \<mapsto> old @ c) = (file_content d)(p \<mapsto> old @ take k c)" by (rule exI [of _ "length c"]) simp
  with assms show "file_content d' = file_content d \<or> (\<exists>k. file_content d' = (file_content d)(p \<mapsto> old @ take k c))"
    by (auto simp: sys_write_def content_put split: if_splits prod.splits option.splits dest!: content_next)
qed

lemma old_content_iff: "file_content d p = Some c \<Longrightarrow> old_content d p = c" "file_content d p = None \<Longrightarrow> old_content d p = []"
  by (auto simp: file_content_def old_content_def split: option.splits)

lemma sys_try_Inr: "sys_try r f = (Inr y, d') \<longleftrightarrow> (\<exists>x d. r = (Inr x, d) \<and> f x d = (Inr y, d'))"
  by (auto simp: sys_try_def split: prod.splits sum.splits)

lemma sys_try_cases:
  assumes "sys_try r f = (y, d')"
  obtains e where "r = (Inl e, d')" "y = Inl (toFileError e)" | x d where "r = (Inr x, d)" "f x d = (y, d')"
  using assms by (auto simp: sys_try_def split: prod.splits sum.splits)

lemma return_ok_iff [simp]: "return_ok x w = (y, w') \<longleftrightarrow> y = Inr x \<and> w' = w"
  by (auto simp: return_ok_def)

lemma sys_try_return: "sys_try r return_ok = (y, d') \<Longrightarrow> \<exists>z. r = (z, d') \<and> (y = Inr u \<longrightarrow> z = Inr u)"
  by (erule sys_try_cases) auto

text \<open>Writing with or without the old content: the directory first, then the file.\<close>

lemma write_content:
  assumes "sys_try (sys_mkdir q True d) (\<lambda>_ d. sys_try (sys_write p old c d) return_ok) = (x, d')"
  shows "x = Inr u \<Longrightarrow> file_content d' = (file_content d)(p \<mapsto> old @ c)"
    "file_content d' = file_content d \<or> (\<exists>k. file_content d' = (file_content d)(p \<mapsto> old @ take k c))"
proof -
  have "(file_content d' = file_content d \<or> (\<exists>k. file_content d' = (file_content d)(p \<mapsto> old @ take k c)))
      \<and> (x = Inr u \<longrightarrow> file_content d' = (file_content d)(p \<mapsto> old @ c))"
    using assms
  proof (cases rule: sys_try_cases)
    case (2 u' d1)
    have e: "file_content d1 = file_content d" by (rule sys_mkdir_content [OF 2(1)])
    from sys_try_return [OF 2(2), of u] obtain z where z: "sys_write p old c d1 = (z, d')" "x = Inr u \<longrightarrow> z = Inr u"
      by (elim exE conjE) (rule that)
    have "file_content d' = file_content d1 \<or> (\<exists>k. file_content d' = (file_content d1)(p \<mapsto> old @ take k c))"
      by (rule sys_write_content(2) [OF z(1)])
    moreover have "x = Inr u \<longrightarrow> file_content d' = (file_content d1)(p \<mapsto> old @ c)" using sys_write_content(1) [OF z(1)] z(2) by iprover
    ultimately show ?thesis unfolding e by (rule conjI)
  next
    case (1 e) then show ?thesis using sys_mkdir_content [OF 1(1)] by simp
  qed
  then show "x = Inr u \<Longrightarrow> file_content d' = (file_content d)(p \<mapsto> old @ c)"
    "file_content d' = file_content d \<or> (\<exists>k. file_content d' = (file_content d)(p \<mapsto> old @ take k c))" by blast+
qed

lemma append_content:
  assumes "node_appendFile env p c d = (x, d')"
  defines "old \<equiv> (case file_content d (resolvePath env p) of None \<Rightarrow> [] | Some old \<Rightarrow> old)"
  shows "x = Inr u \<Longrightarrow> file_content d' = (file_content d)(resolvePath env p \<mapsto> old @ c)"
    "file_content d' = file_content d \<or> (\<exists>k. file_content d' = (file_content d)(resolvePath env p \<mapsto> old @ take k c))"
proof -
  let ?p = "resolvePath env p" and ?q = "path_resolve (ne_process_cwd env) (resolvePath env p) ''..''"
  have old: "file_content e = file_content d \<Longrightarrow> old_content e ?p = old" for e
    by (cases "file_content d ?p") (simp_all add: old_def old_content_iff)
  from assms(1) have "sys_try (sys_mkdir ?q True d) (\<lambda>_ d. sys_try (sys_write ?p old c d) return_ok) = (x, d')"
    unfolding node_appendFile_def Let_def sys_try_def [of "sys_mkdir ?q True d"]
    by (auto simp: old dest: sys_mkdir_content split: prod.splits sum.splits)
  from write_content [OF this] show "x = Inr u \<Longrightarrow> file_content d' = (file_content d)(?p \<mapsto> old @ c)"
    "file_content d' = file_content d \<or> (\<exists>k. file_content d' = (file_content d)(?p \<mapsto> old @ take k c))" by blast+
qed

lemma rename_content:
  assumes "sys_rename p q d = (r, d')"
  shows "r = Inr u \<Longrightarrow> p \<noteq> q \<Longrightarrow> file_content d' = (file_content d)(q := file_content d p, p := None)"
    "r = Inl e \<Longrightarrow> file_content d' = file_content d"
  using assms
  by (auto simp: sys_rename_def file_content_def split: prod.splits option.splits if_splits dest!: next_fault_content)

lemma rm_content:
  assumes "sys_rm p False force d = (r, d')" "q \<noteq> p"
  shows "file_content d' q = file_content d q"
  using assms
  by (auto simp: sys_rm_def file_content_def split: prod.splits option.splits if_splits dest!: next_fault_content)

lemmas node_ops = nodeFs_def node_readTextFile_def node_fileInfo_def node_writeFile_def node_renameFile_def node_remove_def Let_def

lemma read_content:
  assumes "sys_readFile p d = (Inr c, d')"
  shows "file_content d p = Some c"
  using assms by (auto simp: sys_readFile_def inspect_def file_content_def split: prod.splits option.splits if_splits dest!: next_fault_content)

interpretation node: file_system "nodeFs env" file_content "resolvePath env"
proof
  fix p q c old :: string and w w' :: disk and x :: "file_error + unit" and e u force
    and r :: "file_error + string" and i :: "file_error + file_info"
  let ?fs = "nodeFs env" and ?p = "resolvePath env p" and ?q = "resolvePath env q"
  show "fs_readTextFile ?fs p w = (Inr c, w') \<Longrightarrow> file_content w ?p = Some c"
    by (auto simp: node_ops sys_try_Inr dest: read_content)
  show "fs_readTextFile ?fs p w = (r, w') \<Longrightarrow> file_content w' = file_content w"
    by (auto simp: node_ops sys_readFile_def elim!: sys_try_cases dest!: inspect_content)
  show "fs_fileInfo ?fs p w = (i, w') \<Longrightarrow> file_content w' = file_content w"
    by (auto simp: node_ops sys_lstat_def elim!: sys_try_cases dest!: inspect_content)
  show "fs_writeFile ?fs p c w = (Inr u, w') \<Longrightarrow> file_content w' = (file_content w)(?p \<mapsto> c)"
    by (auto simp: node_ops dest: write_content(1) [OF _ refl])
  show "file_content w' z = file_content w z" if "fs_writeFile ?fs p c w = (x, w')" "z \<noteq> ?p" for z
    using write_content(2) [of "path_resolve (ne_process_cwd env) ?p ''..''" w ?p "[]" c x w'] that by (auto simp: node_ops)
  show "fs_appendFile ?fs p c w = (Inr u, w') \<Longrightarrow>
      file_content w' = (file_content w)(?p \<mapsto> (case file_content w ?p of None \<Rightarrow> c | Some old \<Rightarrow> old @ c))"
    by (auto simp: nodeFs_def dest!: append_content(1) [OF _ refl] split: option.split)
  show "file_content w' z = file_content w z" if "fs_appendFile ?fs p c w = (x, w')" "z \<noteq> ?p" for z
    using append_content(2) [of env p c w x w'] that by (auto simp: nodeFs_def)
  show "\<exists>k. file_content w' ?p = Some (old @ take k c)" if "fs_appendFile ?fs p c w = (Inl e, w')" "file_content w ?p = Some old"
    using append_content(2) [of env p c w _ w'] that by (auto simp: nodeFs_def intro: exI [of _ 0])
  show "fs_renameFile ?fs p q w = (Inr u, w') \<Longrightarrow> ?p \<noteq> ?q \<Longrightarrow> file_content w' = (file_content w)(?q := file_content w ?p, ?p := None)"
    by (auto simp: node_ops sys_try_Inr dest: rename_content(1) [OF _ refl])
  show "fs_renameFile ?fs p q w = (Inl e, w') \<Longrightarrow> file_content w' = file_content w"
    by (auto simp: node_ops elim!: sys_try_cases dest: rename_content(2) [OF _ refl])
  show "file_content w' z = file_content w z" if "fs_remove ?fs p False force w = (x, w')" "z \<noteq> ?p" for z
    using that by (auto simp: node_ops elim!: sys_try_cases dest: rm_content)
qed

end
