(* ===== verification/JsonlStorage.thy ===== *)
theory JsonlStorage
  imports JsonlCodec FileSystem SessionMemory
begin

text \<open>
  The JSONL storage (\<open>packages/agent/src/harness/session/jsonl/storage.ts\<close>, \<open>errors.ts\<close>): every operation
  validates against the state in memory, appends one line to the file and only then applies the mutation.
  An operation takes and returns the world of the file system; an error leaves the storage as it was. The
  queue of \<open>enqueue\<close> runs one operation after the other, so an operation is one function here.
\<close>

section \<open>Errors and sequencing\<close>

definition wbind :: "('e + 'a) \<times> 'w \<Rightarrow> ('a \<Rightarrow> 'w \<Rightarrow> ('e + 'b) \<times> 'w) \<Rightarrow> ('e + 'b) \<times> 'w" where
  "wbind r f = (case r of (Inl e, w) \<Rightarrow> (Inl e, w) | (Inr x, w) \<Rightarrow> f x w)"

definition fileResult :: "(file_error + 'a) \<times> 'w \<Rightarrow> (session_error + 'a) \<times> 'w" where
  "fileResult r =
     (case r of
        (Inl e, w) \<Rightarrow> (Inl (if e = FNotFound then NotFound else StorageError), w)
      | (Inr x, w) \<Rightarrow> (Inr x, w))"

text \<open>The error of \<open>invalidFile\<close>, and a pure check in a sequence of file operations.\<close>

definition invalidFile :: session_error where
  "invalidFile = InvalidEntry"

definition lift_w :: "'e + 'a \<Rightarrow> 'w \<Rightarrow> ('e + 'a) \<times> 'w" where
  "lift_w r w = (r, w)"

section \<open>Publishing a file\<close>

definition publishFileAtomically :: "'w fs_ops \<Rightarrow> string \<Rightarrow> (string \<Rightarrow> 'w \<Rightarrow> (session_error + unit) \<times> 'w) \<Rightarrow> 'w
    \<Rightarrow> (session_error + unit) \<times> 'w" where
  "publishFileAtomically fs destinationPath populate w =
     (let tempPath = destinationPath @ ''.tmp'' in
      case wbind (populate tempPath w) (\<lambda>_ w. fileResult (fs_renameFile fs tempPath destinationPath w)) of
        (Inr _, w) \<Rightarrow> (Inr (), w)
      | (Inl e, w) \<Rightarrow> (Inl e, snd (fs_remove fs tempPath False True w)))"

section \<open>The storage\<close>

record jsonl_storage =
  js_metadata :: jsonl_metadata
  js_state :: session_state

definition newJsonlStorage :: "jsonl_metadata \<Rightarrow> jsonl_storage" where
  "newJsonlStorage metadata = \<lparr>js_metadata = metadata, js_state = initState\<rparr>"

definition jsCreate :: "'w fs_ops \<Rightarrow> string \<Rightarrow> jsonl_header \<Rightarrow> 'w \<Rightarrow> (session_error + jsonl_storage) \<times> 'w" where
  "jsCreate fs path header w =
     wbind (fileResult (fs_writeFile fs path (encodeHeader header) w)) (\<lambda>_ w.
     wbind (fileResult (fs_fileInfo fs path w)) (\<lambda>fileInfo w.
     (Inr (newJsonlStorage (metadataFromHeader header path (fi_mtimeMs fileInfo))), w)))"

text \<open>\<open>content.split("\n")\<close> without the empty string after a final line feed.\<close>

definition physicalLines :: "string \<Rightarrow> string list" where
  "physicalLines contents =
     (let lines = split_on (CHR 0x0A) contents in if last lines = [] then butlast lines else lines)"

text \<open>
  The loop of \<open>load\<close> over the lines after the header; \<open>before\<close> are the lines already read. The flag says
  that a torn tail was dropped and the valid prefix published.
\<close>

fun loadLines :: "payload_rep \<Rightarrow> 'w fs_ops \<Rightarrow> string \<Rightarrow> string list \<Rightarrow> string list \<Rightarrow> jsonl_storage \<Rightarrow> 'w
    \<Rightarrow> (session_error + jsonl_storage \<times> bool) \<times> 'w" where
  "loadLines rep fs path before [] storage w = (Inr (storage, False), w)"
| "loadLines rep fs path before (line # lines) storage w =
     (case parseMutation rep line of
        Inl e \<Rightarrow>
          if lines = [] \<and> e = SyntaxError then
            wbind (publishFileAtomically fs path (\<lambda>tempPath w.
                fileResult (fs_writeFile fs tempPath (join newline before @ newline) w)) w) (\<lambda>_ w.
            (Inr (storage, True), w))
          else (Inl invalidFile, w)
      | Inr mutation \<Rightarrow>
          (case applyMutation mutation (js_state storage) of
             Inl e \<Rightarrow> (Inl (if e = InvalidEntry then invalidFile else e), w)
           | Inr s \<Rightarrow> loadLines rep fs path (before @ [line]) lines (storage\<lparr>js_state := s\<rparr>) w))"

text \<open>The end of \<open>load\<close>: a last line without line feed gets one.\<close>

definition loadEnd :: "'w fs_ops \<Rightarrow> string \<Rightarrow> string \<Rightarrow> jsonl_storage \<times> bool \<Rightarrow> 'w \<Rightarrow> (session_error + jsonl_storage) \<times> 'w" where
  "loadEnd fs path contents loaded w =
     (case loaded of (storage, repaired) \<Rightarrow>
        if repaired then (Inr storage, w)
        else if last contents \<noteq> CHR 0x0A then
          wbind (fileResult (fs_appendFile fs path newline w)) (\<lambda>_ w. (Inr storage, w))
        else (Inr storage, w))"

definition jsLoad :: "payload_rep \<Rightarrow> 'w fs_ops \<Rightarrow> string \<Rightarrow> 'w \<Rightarrow> (session_error + jsonl_storage) \<times> 'w" where
  "jsLoad rep fs path w =
     wbind (fileResult (fs_readTextFile fs path w)) (\<lambda>contents w.
       case physicalLines contents of
         [] \<Rightarrow> (Inl invalidFile, w)
       | headerLine # lines \<Rightarrow>
           if headerLine = [] then (Inl invalidFile, w)
           else case parseHeader headerLine of
             Inl _ \<Rightarrow> (Inl invalidFile, w)
           | Inr header \<Rightarrow>
               wbind (fileResult (fs_fileInfo fs path w)) (\<lambda>fileInfo w.
               wbind (loadLines rep fs path [headerLine] lines
                 (newJsonlStorage (metadataFromHeader header path (fi_mtimeMs fileInfo))) w)
               (loadEnd fs path contents)))"

text \<open>\<open>appendMutation\<close>, and \<open>applyMutation\<close> after it.\<close>

definition jsAppendMutation :: "payload_rep \<Rightarrow> 'w fs_ops \<Rightarrow> session_mutation \<Rightarrow> jsonl_storage \<Rightarrow> 'w
    \<Rightarrow> (session_error + unit) \<times> 'w" where
  "jsAppendMutation rep fs mutation st w =
     fileResult (fs_appendFile fs (jm_path (js_metadata st)) (encodeMutation rep mutation) w)"

definition jsApplyMutation :: "session_mutation \<Rightarrow> jsonl_storage \<Rightarrow> session_error + jsonl_storage" where
  "jsApplyMutation mutation st = rbind (applyMutation mutation (js_state st)) (\<lambda>s. Inr (st\<lparr>js_state := s\<rparr>))"

definition jsCommit :: "payload_rep \<Rightarrow> 'w fs_ops \<Rightarrow> session_mutation \<Rightarrow> jsonl_storage \<Rightarrow> 'w
    \<Rightarrow> (session_error + jsonl_storage) \<times> 'w" where
  "jsCommit rep fs mutation st w =
     wbind (jsAppendMutation rep fs mutation st w) (\<lambda>_. lift_w (jsApplyMutation mutation st))"

fun jsCommitAll :: "payload_rep \<Rightarrow> 'w fs_ops \<Rightarrow> session_mutation list \<Rightarrow> jsonl_storage \<Rightarrow> 'w
    \<Rightarrow> (session_error + jsonl_storage) \<times> 'w" where
  "jsCommitAll rep fs [] st w = (Inr st, w)"
| "jsCommitAll rep fs (m # ms) st w = wbind (jsCommit rep fs m st w) (jsCommitAll rep fs ms)"

definition jsFork :: "payload_rep \<Rightarrow> 'w fs_ops \<Rightarrow> string \<Rightarrow> jsonl_header \<Rightarrow> fork_options \<Rightarrow> jsonl_storage \<Rightarrow> 'w
    \<Rightarrow> (session_error + jsonl_storage) \<times> 'w" where
  "jsFork rep fs path header options st w =
     wbind (lift_w (createForkMutations options (js_state st)) w) (\<lambda>mutations w.
     wbind (publishFileAtomically fs path (\<lambda>tempPath w.
         wbind (jsCreate fs tempPath header w) (\<lambda>target w.
         wbind (jsCommitAll rep fs mutations target w) (\<lambda>_ w. (Inr (), w)))) w) (\<lambda>_ w.
     jsLoad rep fs path w))"

section \<open>Operations\<close>

definition jsCreateLane :: "payload_rep \<Rightarrow> 'w fs_ops \<Rightarrow> string \<Rightarrow> string option \<Rightarrow> jsonl_storage \<Rightarrow> 'w
    \<Rightarrow> (session_error + jsonl_storage) \<times> 'w" where
  "jsCreateLane rep fs lane at st w =
     wbind (lift_w (validateNewLane lane (js_state st)) w) (\<lambda>_ w.
     wbind (lift_w (validateTarget at (js_state st)) w) (\<lambda>_ w.
     jsCommit rep fs (MutLane (nextSequence (js_state st)) lane at) st w))"

definition jsMoveLane :: "payload_rep \<Rightarrow> 'w fs_ops \<Rightarrow> string \<Rightarrow> string option \<Rightarrow> jsonl_storage \<Rightarrow> 'w
    \<Rightarrow> (session_error + jsonl_storage) \<times> 'w" where
  "jsMoveLane rep fs lane target st w =
     wbind (lift_w (requireLane lane (js_state st)) w) (\<lambda>_ w.
     wbind (lift_w (validateTarget target (js_state st)) w) (\<lambda>_ w.
     jsCommit rep fs (MutLane (nextSequence (js_state st)) lane target) st w))"

definition jsAppendEntry :: "payload_rep \<Rightarrow> 'w fs_ops \<Rightarrow> int \<Rightarrow> provisioned_entry \<Rightarrow> string \<Rightarrow> jsonl_storage \<Rightarrow> 'w
    \<Rightarrow> (session_error + entry \<times> jsonl_storage) \<times> 'w" where
  "jsAppendEntry rep fs now newEntry lane st w =
     wbind (lift_w (requireLane lane (js_state st)) w) (\<lambda>parentId w.
     wbind (lift_w (validateUnusedId (p_id newEntry) (js_state st)) w) (\<lambda>_ w.
       let entry = \<lparr>e_id = p_id newEntry, e_seq = nextSequence (js_state st), e_parentId = parentId,
                    e_timestamp = now, e_data = p_data newEntry\<rparr> in
       wbind (jsCommit rep fs (MutEntry (Some lane) entry) st w) (\<lambda>st w. (Inr (entry, st), w))))"

definition jsAppendRecord :: "payload_rep \<Rightarrow> 'w fs_ops \<Rightarrow> int \<Rightarrow> new_record \<Rightarrow> jsonl_storage \<Rightarrow> 'w
    \<Rightarrow> (session_error + lane_record \<times> jsonl_storage) \<times> 'w" where
  "jsAppendRecord rep fs now newRecord st w =
     wbind (lift_w (requireLane (n_lane newRecord) (js_state st)) w) (\<lambda>_ w.
     wbind (lift_w (validateUnusedId (n_id newRecord) (js_state st)) w) (\<lambda>_ w.
     wbind (lift_w (findOpenOperations (n_lane newRecord) (Some (int_num 1)) (js_state st)) w) (\<lambda>current w.
       if record_data_type (n_data newRecord) = OperationStartedType \<and> current \<noteq> [] then (Inl StorageError, w)
       else let record = \<lparr>r_id = n_id newRecord, r_seq = nextSequence (js_state st), r_lane = n_lane newRecord,
                          r_timestamp = now, r_data = n_data newRecord\<rparr> in
         wbind (jsCommit rep fs (MutRecord record) st w) (\<lambda>st w. (Inr (record, st), w)))))"

definition jsSetName :: "payload_rep \<Rightarrow> 'w fs_ops \<Rightarrow> string option \<Rightarrow> jsonl_storage \<Rightarrow> 'w
    \<Rightarrow> (session_error + jsonl_storage) \<times> 'w" where
  "jsSetName rep fs name st w = jsCommit rep fs (MutName (nextSequence (js_state st)) name) st w"

definition jsSetLabel :: "payload_rep \<Rightarrow> 'w fs_ops \<Rightarrow> string \<Rightarrow> string option \<Rightarrow> jsonl_storage \<Rightarrow> 'w
    \<Rightarrow> (session_error + jsonl_storage) \<times> 'w" where
  "jsSetLabel rep fs i label st w =
     wbind (lift_w (validateTarget (Some i) (js_state st)) w) (\<lambda>_ w.
     jsCommit rep fs (MutLabel (nextSequence (js_state st)) i label) st w)"

text \<open>The reading operations see the state in memory only.\<close>

definition jsGetMetadata :: "jsonl_storage \<Rightarrow> jsonl_metadata" where
  "jsGetMetadata st = js_metadata st"

definition jsGetLanes :: "jsonl_storage \<Rightarrow> (string \<times> string option) list" where
  "jsGetLanes st = getLanes (js_state st)"

definition jsGetEntry :: "string \<Rightarrow> jsonl_storage \<Rightarrow> entry option" where
  "jsGetEntry i st = getEntry i (js_state st)"

definition jsFindEntries :: "entry_query \<Rightarrow> jsonl_storage \<Rightarrow> session_error + entry list" where
  "jsFindEntries q st = findEntries q (js_state st)"

definition jsFindEntriesOnBranch :: "entry_query \<Rightarrow> branch_bounds \<Rightarrow> string \<Rightarrow> jsonl_storage \<Rightarrow> session_error + entry list" where
  "jsFindEntriesOnBranch q b start st = findEntriesOnBranch q b start (js_state st)"

definition jsFindRecords :: "record_query \<Rightarrow> jsonl_storage \<Rightarrow> session_error + lane_record list" where
  "jsFindRecords q st = findRecords q (js_state st)"

definition jsFindOpenOperations :: "string \<Rightarrow> jsnum option \<Rightarrow> jsonl_storage \<Rightarrow> session_error + lane_record list" where
  "jsFindOpenOperations lane limit st = findOpenOperations lane limit (js_state st)"

definition jsGetLog :: "jsnum option \<Rightarrow> jsnum option \<Rightarrow> jsonl_storage \<Rightarrow> session_error + log_item list" where
  "jsGetLog afterSeq limit st = getLog afterSeq limit (js_state st)"

definition jsGetName :: "jsonl_storage \<Rightarrow> string option" where
  "jsGetName st = getName (js_state st)"

definition jsGetLabel :: "string \<Rightarrow> jsonl_storage \<Rightarrow> string option" where
  "jsGetLabel i st = getLabel i (js_state st)"

definition jsGetStats :: "jsonl_storage \<Rightarrow> session_stats" where
  "jsGetStats st = getStats (js_state st)"

end
