(* ===== verification/JsonlProps.thy ===== *)
theory JsonlProps
  imports JsonlStorage
begin

text \<open>
  The JSONL storage against its contract: the file of a storage is the header and one line per mutation, a
  load rebuilds the state from it, a torn last line is dropped by an atomic repair, and every operation is
  the one of the in-memory storage followed by its line.
\<close>

section \<open>Sequencing\<close>

lemma wbind_simps [simp]: "wbind (Inl e, w) f = (Inl e, w)" "wbind (Inr x, w) f = f x w"
  by (simp_all add: wbind_def)

lemma wbind_Inr: "wbind r f = (Inr y, w') \<longleftrightarrow> (\<exists>x w. r = (Inr x, w) \<and> f x w = (Inr y, w'))"
  by (cases r; cases "fst r") auto

lemma wbind_cases:
  assumes "wbind r f = (y, w')"
  obtains e where "r = (Inl e, w')" "y = Inl e" | x w where "r = (Inr x, w)" "f x w = (y, w')"
  using assms by (cases r; cases "fst r") auto

lemma fileResult_simps [simp]:
  "fileResult (Inr x, w) = (Inr x, w)"
  "fileResult (Inl e, w) = (Inl (if e = FNotFound then NotFound else StorageError), w)"
  by (simp_all add: fileResult_def)

lemma fileResult_Inr [simp]: "fileResult r = (Inr x, w) \<longleftrightarrow> r = (Inr x, w)"
  by (cases r; cases "fst r") auto

lemma fileResult_Inl: "fileResult r = (Inl e, w) \<Longrightarrow> \<exists>e'. r = (Inl e', w)"
  by (cases r; cases "fst r") auto

lemma snd_fileResult [simp]: "snd (fileResult r) = snd r"
  by (cases r; cases "fst r") auto

lemma lift_w_iff [simp]: "lift_w r w = (x, w') \<longleftrightarrow> r = x \<and> w' = w"
  by (auto simp: lift_w_def)

section \<open>Lines\<close>

abbreviation nl :: char where "nl \<equiv> CHR 0x0A"

definition line_of :: "payload_rep \<Rightarrow> session_mutation \<Rightarrow> string" where
  "line_of rep m = stringify (JsonObject (mutation_object rep m))"

definition header_line :: "jsonl_header \<Rightarrow> string" where
  "header_line h = stringify (JsonObject (header_object h))"

text \<open>The file of a session: the header and one line per mutation.\<close>

definition file_text :: "payload_rep \<Rightarrow> jsonl_header \<Rightarrow> session_mutation list \<Rightarrow> string" where
  "file_text rep h ms = encodeHeader h @ concat (map (encodeMutation rep) ms)"

definition unlines :: "string list \<Rightarrow> string" where
  "unlines ls = concat (map (\<lambda>l. l @ newline) ls)"

lemma file_text_lines: "file_text rep h ms = unlines (header_line h # map (line_of rep) ms)"
  by (simp add: file_text_def unlines_def encodeHeader_def header_line_def encodeMutation_def [abs_def] line_of_def comp_def
      del: stringify.simps)

lemma split_unlines: "\<forall>l \<in> set ls. nl \<notin> set l \<Longrightarrow> nl \<notin> set t \<Longrightarrow> split_on nl (unlines ls @ t) = ls @ [t]"
  by (induction ls) (simp_all add: unlines_def split_on_last split_on_line)

lemma physicalLines_unlines:
  "\<forall>l \<in> set ls. nl \<notin> set l \<Longrightarrow> nl \<notin> set t \<Longrightarrow> physicalLines (unlines ls @ t) = ls @ (if t = [] then [] else [t])"
  by (simp add: physicalLines_def split_unlines)

lemma join_unlines: "ls \<noteq> [] \<Longrightarrow> join newline ls @ newline = unlines ls"
  by (induction newline ls rule: join.induct) (simp_all add: unlines_def)

lemma unlines_last: "ls \<noteq> [] \<Longrightarrow> last (unlines ls) = nl"
  by (induction ls rule: rev_induct) (simp_all add: unlines_def)

lemma line_facts:
  assumes "mutation_ok rep m"
  shows "nl \<notin> set (line_of rep m)" "line_of rep m \<noteq> []" "parseMutation rep (line_of rep m) = Inr m"
  unfolding line_of_def
  by (rule stringify_newline [OF mutation_json [OF assms]], simp, rule parse_encode_mutation [OF assms])

lemma header_facts:
  assumes "header_ok h"
  shows "nl \<notin> set (header_line h)" "header_line h \<noteq> []" "parseHeader (header_line h) = Inr h"
  unfolding header_line_def
  by (rule stringify_newline [OF header_json [OF assms]], simp, rule parse_encode_header [OF assms])

section \<open>Loading\<close>

text \<open>A log whose mutations can be written and applied one after the other.\<close>

definition stored :: "payload_rep \<Rightarrow> jsonl_header \<Rightarrow> session_mutation list \<Rightarrow> session_state \<Rightarrow> bool" where
  "stored rep h ms s = (header_ok h \<and> list_all (mutation_ok rep) ms \<and> applyMutations ms initState = Inr s)"

lemma storedD:
  assumes "stored rep h ms s"
  shows "header_ok h" "m \<in> set ms \<Longrightarrow> mutation_ok rep m" "applyMutations ms initState = Inr s"
    "\<forall>l \<in> set (header_line h # map (line_of rep) ms). nl \<notin> set l"
  using assms line_facts(1) header_facts(1) by (auto simp: stored_def list.pred_set)

lemma stored_snoc:
  assumes "stored rep h ms s" "mutation_ok rep m" "applyMutation m s = Inr s'"
  shows "stored rep h (ms @ [m]) s'"
  using assms by (simp add: stored_def applyMutations_def fold_r_append)

lemma file_text_snoc: "file_text rep h (ms @ [m]) = file_text rep h ms @ encodeMutation rep m"
  by (simp add: file_text_def)

lemma loadLines_log:
  assumes "\<forall>m \<in> set ms. mutation_ok rep m" "applyMutations ms (js_state st) = Inr s"
  shows "loadLines rep fs p before (map (line_of rep) ms @ rest) st w
    = loadLines rep fs p (before @ map (line_of rep) ms) rest (st\<lparr>js_state := s\<rparr>) w"
  using assms
proof (induction ms arbitrary: before st)
  case (Cons m ms)
  then obtain s' where "applyMutation m (js_state st) = Inr s'" "applyMutations ms s' = Inr s"
    by (auto simp: applyMutations_def)
  with Cons line_facts(3) [of rep m] show ?case by simp
next
  case Nil then show ?case by (cases st) (auto simp: applyMutations_def)
qed

text \<open>What \<open>load\<close> does with a file of a log and a rest without line feed.\<close>

lemma jsLoad_text:
  assumes "fs_readTextFile fs p w = (Inr (file_text rep h ms @ t), w1)" "fs_fileInfo fs p w1 = (Inr i, w2)"
    "stored rep h ms s" "nl \<notin> set t"
  defines "st \<equiv> \<lparr>js_metadata = metadataFromHeader h p (fi_mtimeMs i), js_state = s\<rparr>"
  shows "jsLoad rep fs p w = wbind (loadLines rep fs p (header_line h # map (line_of rep) ms) (if t = [] then [] else [t]) st w2)
    (loadEnd fs p (file_text rep h ms @ t))" "last (file_text rep h ms @ t) = nl \<longleftrightarrow> t = []"
proof -
  note d = storedD [OF assms(3)]
  have lines: "physicalLines (file_text rep h ms @ t) = header_line h # map (line_of rep) ms @ (if t = [] then [] else [t])"
    unfolding file_text_lines using physicalLines_unlines [OF d(4) assms(4)] by simp
  show "last (file_text rep h ms @ t) = nl \<longleftrightarrow> t = []"
    unfolding file_text_lines using unlines_last assms(4) by (cases t rule: rev_cases) auto
  have loop: "loadLines rep fs p [header_line h] (map (line_of rep) ms @ (if t = [] then [] else [t]))
        (newJsonlStorage (metadataFromHeader h p (fi_mtimeMs i))) w2
      = loadLines rep fs p (header_line h # map (line_of rep) ms) (if t = [] then [] else [t]) st w2"
    using loadLines_log [of ms rep "newJsonlStorage (metadataFromHeader h p (fi_mtimeMs i))" s fs p "[header_line h]"] d(2,3)
    by (simp add: newJsonlStorage_def st_def)
  show "jsLoad rep fs p w = wbind (loadLines rep fs p (header_line h # map (line_of rep) ms) (if t = [] then [] else [t]) st w2)
      (loadEnd fs p (file_text rep h ms @ t))"
    unfolding jsLoad_def assms(1) fileResult_simps wbind_simps lines list.case header_facts(3) [OF d(1)] sum.case assms(2) loop
    using header_facts(2) [OF d(1)] by simp
qed

text \<open>Only a text that is not JSON is a syntax error.\<close>

lemma not_syntax [simp]:
  "requireString v \<noteq> Inl SyntaxError" "requireSequence v \<noteq> Inl SyntaxError" "requireTimestamp v \<noteq> Inl SyntaxError"
  "requireNullableId v \<noteq> Inl SyntaxError" "optionalString v \<noteq> Inl SyntaxError" "optionalObject v \<noteq> Inl SyntaxError"
  by (simp_all add: requireString_def requireSequence_def requireTimestamp_def requireNullableId_def optionalString_def
      optionalObject_def split: option.split json.split)

lemma not_syntax_parts:
  "checkIntent v \<noteq> Inl SyntaxError" "parseEntryMutation rep v n \<noteq> Inl SyntaxError"
  "parseRecordMutation rep v n \<noteq> Inl SyntaxError" "parseLaneMutation v n \<noteq> Inl SyntaxError" "parseFactMutation v n \<noteq> Inl SyntaxError"
proof -
  show i: "checkIntent v \<noteq> Inl SyntaxError"
    by (auto simp: checkIntent_def rbind_eq_Inl split: option.split json.split)
  show "parseEntryMutation rep v n \<noteq> Inl SyntaxError"
    by (auto simp: parseEntryMutation_def rbind_eq_Inl split: option.split)
  show "parseRecordMutation rep v n \<noteq> Inl SyntaxError"
    using i by (auto simp: parseRecordMutation_def rbind_eq_Inl)
  show "parseLaneMutation v n \<noteq> Inl SyntaxError" by (auto simp: parseLaneMutation_def rbind_eq_Inl)
  show "parseFactMutation v n \<noteq> Inl SyntaxError" by (auto simp: parseFactMutation_def rbind_eq_Inl)
qed

lemma syntax_error_json: "parseMutation rep line = Inl SyntaxError \<longleftrightarrow> json_parse line = None"
proof (cases "json_parse line")
  case None then show ?thesis by (simp add: parseMutation_def parseObject_def)
next
  case (Some v)
  then have "parseObject line \<noteq> Inl SyntaxError" by (simp add: parseObject_def split: json.split)
  with Some show ?thesis using not_syntax_parts by (auto simp: parseMutation_def rbind_eq_Inl split: option.split json.split)
qed

section \<open>Clients of the file system\<close>

lemma publish_cases:
  assumes "publishFileAtomically fs p pop w = (r, w')"
  obtains (ok) w2 u where "pop (p @ ''.tmp'') w = (Inr (), w2)" "fs_renameFile fs (p @ ''.tmp'') p w2 = (Inr u, w')" "r = Inr ()"
  | (populate) e w1 where "pop (p @ ''.tmp'') w = (Inl e, w1)" "r = Inl e" "w' = snd (fs_remove fs (p @ ''.tmp'') False True w1)"
  | (rename) e e' w1 w2 where "pop (p @ ''.tmp'') w = (Inr (), w2)" "fs_renameFile fs (p @ ''.tmp'') p w2 = (Inl e', w1)" "r = Inl e"
      "w' = snd (fs_remove fs (p @ ''.tmp'') False True w1)"
proof -
  let ?t = "p @ ''.tmp''"
  obtain x w1 where x: "wbind (pop ?t w) (\<lambda>_ w. fileResult (fs_renameFile fs ?t p w)) = (x, w1)" by force
  from assms x have r: "(r, w') = (case x of Inr _ \<Rightarrow> (Inr (), w1) | Inl e \<Rightarrow> (Inl e, snd (fs_remove fs ?t False True w1)))"
    by (simp add: publishFileAtomically_def Let_def split: sum.splits)
  show ?thesis
  proof (cases x)
    case (Inr u)
    with x have "\<exists>w2. pop ?t w = (Inr (), w2) \<and> fs_renameFile fs ?t p w2 = (Inr u, w1)" by (simp add: wbind_Inr)
    then show ?thesis using ok r Inr by auto
  next
    case (Inl e)
    from x show ?thesis
    proof (cases rule: wbind_cases)
      case (1 e1) then show ?thesis using populate r Inl by simp
    next
      case (2 u w2)
      with Inl have "\<exists>e'. fs_renameFile fs ?t p w2 = (Inl e', w1)" by (intro fileResult_Inl) simp
      then show ?thesis using rename 2(1) r Inl by auto
    qed
  qed
qed

text \<open>What a load may leave of a text: the text, with a line feed, or without a last line that is not JSON.\<close>

definition load_keeps :: "string \<Rightarrow> string \<Rightarrow> bool" where
  "load_keeps c c' = (c' = c \<or> c' = c @ newline \<or> (\<exists>t. json_parse t = None \<and> (c = c' @ t \<or> c = c' @ t @ newline)))"

context file_system begin

text \<open>A published file appears whole or not at all.\<close>

lemma remove_temp: "w' = snd (fs_remove fs p False force w) \<Longrightarrow> q \<noteq> path p \<Longrightarrow> read w' q = read w q"
  by (rule remove_frame [of p force w "fst (fs_remove fs p False force w)"]) simp_all

lemma publish_write:
  assumes "publishFileAtomically fs p (\<lambda>tp w. fileResult (fs_writeFile fs tp c w)) w = (r, w')"
    "path (p @ ''.tmp'') \<noteq> path p"
  shows "read w' (path p) = (if r = Inr () then Some c else read w (path p))"
    "q \<noteq> path p \<Longrightarrow> q \<noteq> path (p @ ''.tmp'') \<Longrightarrow> read w' q = read w q"
proof -
  let ?t = "p @ ''.tmp''"
  have "read w' (path p) = (if r = Inr () then Some c else read w (path p))
    \<and> (q \<noteq> path p \<longrightarrow> q \<noteq> path ?t \<longrightarrow> read w' q = read w q)"
    using assms(1)
  proof (cases rule: publish_cases)
    case (ok w2 u)
    from ok(1) have "fs_writeFile fs ?t c w = (Inr (), w2)" by simp
    from writeFile_ok [OF this] renameFile_ok [OF ok(2) assms(2)] assms(2) ok(3) show ?thesis by simp
  next
    case (populate e w1)
    from fileResult_Inl [OF populate(1)] obtain e1 where "fs_writeFile fs ?t c w = (Inl e1, w1)" ..
    note f = writeFile_frame [OF this] remove_temp [OF populate(3)]
    show ?thesis using f assms(2) populate(2) by simp
  next
    case (rename e e' w1 w2)
    from rename(1) have "fs_writeFile fs ?t c w = (Inr (), w2)" by simp
    note f = writeFile_frame [OF this] remove_temp [OF rename(4)] renameFile_fail [OF rename(2)]
    show ?thesis using f assms(2) rename(3) by simp
  qed
  then show "read w' (path p) = (if r = Inr () then Some c else read w (path p))"
    "q \<noteq> path p \<Longrightarrow> q \<noteq> path ?t \<Longrightarrow> read w' q = read w q" by simp_all
qed

text \<open>A load keeps the file, ends its last line, or drops a last line that is not JSON.\<close>

lemma loadLines_file:
  assumes "loadLines rep fs p before lines st w = (r, w')" "path (p @ ''.tmp'') \<noteq> path p" "before \<noteq> []"
  shows "if \<exists>st'. r = Inr (st', True)
    then lines \<noteq> [] \<and> json_parse (last lines) = None \<and> read w' (path p) = Some (unlines (before @ butlast lines))
    else read w' (path p) = read w (path p)"
  using assms(1,3)
proof (induction lines arbitrary: before st)
  case (Cons line lines)
  show ?case
  proof (cases "parseMutation rep line")
    case (Inl e)
    show ?thesis
    proof (cases "lines = [] \<and> e = SyntaxError")
      case True
      then have j: "json_parse line = None" using Inl syntax_error_json by simp
      let ?pub = "publishFileAtomically fs p (\<lambda>tp w. fileResult (fs_writeFile fs tp (join newline before @ newline) w)) w"
      obtain x w1 where x: "?pub = (x, w1)" by force
      note pub = publish_write(1) [OF x assms(2)]
      show ?thesis
      proof (cases x)
        case fail: (Inl e')
        then show ?thesis using Cons.prems(1) Inl True x pub by auto
      next
        case (Inr u)
        then show ?thesis using Cons.prems Inl True x pub j join_unlines by auto
      qed
    next
      case False then show ?thesis using Cons.prems(1) Inl by auto
    qed
  next
    case (Inr m)
    show ?thesis
    proof (cases "applyMutation m (js_state st)")
      case (Inl e) then show ?thesis using Cons.prems(1) Inr by auto
    next
      case s: (Inr s)
      have "loadLines rep fs p (before @ [line]) lines (st\<lparr>js_state := s\<rparr>) w = (r, w')" using Cons.prems(1) Inr s by simp
      from Cons.IH [OF this] Inr syntax_error_json [of rep line] show ?thesis by (cases lines) auto
    qed
  qed
qed auto

text \<open>The text of a file from its physical lines.\<close>

lemma physicalLines_text:
  assumes "physicalLines c = ls @ [l]"
  shows "c = unlines ls @ l \<or> c = unlines ls @ l @ newline"
proof -
  have j: "join newline (split_on nl c) = c"
  proof (induction c)
    case (Cons x c)
    obtain y ys where s: "split_on nl c = y # ys" using split_on_ne by (cases "split_on nl c") auto
    with Cons show ?case by (cases ys) auto
  qed simp
  have u: "join newline (xs @ [x]) = unlines xs @ x" for xs x
    by (cases "xs = []") (simp_all add: join_append join_unlines [symmetric], simp add: unlines_def)
  show ?thesis
  proof (cases "last (split_on nl c) = []")
    case True
    with assms have "split_on nl c = (ls @ [l]) @ [[]]"
      using append_butlast_last_id [OF split_on_ne, of nl c] by (simp add: physicalLines_def Let_def)
    with u [of "ls @ [l]" "[]"] j have "c = unlines (ls @ [l])" by simp
    then show ?thesis by (simp add: unlines_def)
  next
    case False
    with assms have "split_on nl c = ls @ [l]" by (simp add: physicalLines_def Let_def)
    with u [of ls l] j show ?thesis by simp
  qed
qed

lemma loadEnd_file:
  assumes "loadEnd fs p c (st, False) w = (r, w')" "read w (path p) = Some c"
  shows "read w' (path p) = Some c \<or> read w' (path p) = Some (c @ newline)"
proof (cases "last c = nl")
  case True with assms show ?thesis by (simp add: loadEnd_def)
next
  case False
  with assms(1) have "wbind (fileResult (fs_appendFile fs p newline w)) (\<lambda>_ w. (Inr st, w)) = (r, w')" by (simp add: loadEnd_def)
  then show ?thesis
  proof (cases rule: wbind_cases)
    case (1 e)
    from fileResult_Inl [OF 1(1)] obtain e' where "fs_appendFile fs p newline w = (Inl e', w')" ..
    from appendFile_torn [OF this assms(2)] obtain k where "read w' (path p) = Some (c @ take k newline)" ..
    then show ?thesis by (cases k) auto
  next
    case (2 u w1)
    then have "fs_appendFile fs p newline w = (Inr u, w')" by simp
    from appendFile_ok [OF this] assms(2) show ?thesis by simp
  qed
qed

end

lemma jsLoad_cases:
  assumes "jsLoad rep fs p w = (r, w')"
  obtains (unread) e where "fs_readTextFile fs p w = (Inl e, w')"
  | (bad) c where "fs_readTextFile fs p w = (Inr c, w')" "r = Inl invalidFile"
  | (no_info) c w1 e where "fs_readTextFile fs p w = (Inr c, w1)" "fs_fileInfo fs p w1 = (Inl e, w')"
  | (lines) c w1 hl ls h i w2 where "fs_readTextFile fs p w = (Inr c, w1)" "physicalLines c = hl # ls" "parseHeader hl = Inr h"
      "fs_fileInfo fs p w1 = (Inr i, w2)"
      "wbind (loadLines rep fs p [hl] ls (newJsonlStorage (metadataFromHeader h p (fi_mtimeMs i))) w2) (loadEnd fs p c) = (r, w')"
  using assms unfolding jsLoad_def
proof (cases rule: wbind_cases)
  case (1 e)
  from fileResult_Inl [OF 1(1)] obtain e' where "fs_readTextFile fs p w = (Inl e', w')" ..
  then show ?thesis by (rule unread)
next
  case (2 c w1)
  then have rd: "fs_readTextFile fs p w = (Inr c, w1)" by simp
  show ?thesis
  proof (cases "physicalLines c")
    case Nil then show ?thesis using 2(2) rd bad by simp
  next
    case (Cons hl ls)
    show ?thesis
    proof (cases "parseHeader hl")
      case (Inl e) then show ?thesis using 2(2) rd bad Cons by (simp split: if_splits)
    next
      case (Inr h)
      show ?thesis
      proof (cases "hl = []")
        case True then show ?thesis using 2(2) rd bad Cons by simp
      next
        case False
        from 2(2) have "wbind (fileResult (fs_fileInfo fs p w1)) (\<lambda>i w. wbind (loadLines rep fs p [hl] ls
            (newJsonlStorage (metadataFromHeader h p (fi_mtimeMs i))) w) (loadEnd fs p c)) = (r, w')"
          by (simp only: Cons Inr list.case sum.case False if_False)
        then show ?thesis
        proof (cases rule: wbind_cases)
          case (1 e)
          from fileResult_Inl [OF 1(1)] obtain e' where "fs_fileInfo fs p w1 = (Inl e', w')" ..
          then show ?thesis by (rule no_info [OF rd])
        next
          case (2 i w2)
          then have "fs_fileInfo fs p w1 = (Inr i, w2)" by simp
          from lines [OF rd Cons Inr this 2(2)] show ?thesis .
        qed
      qed
    qed
  qed
qed

context file_system begin

lemma jsLoad_file:
  assumes "jsLoad rep fs p w = (r, w')" "path (p @ ''.tmp'') \<noteq> path p" "read w (path p) = Some c"
  shows "\<exists>c'. read w' (path p) = Some c' \<and> load_keeps c c'"
  using assms(1)
proof (cases rule: jsLoad_cases)
  case (unread e) then show ?thesis using readTextFile_frame [OF unread] assms(3) by (simp add: load_keeps_def)
next
  case (bad c0) then show ?thesis using readTextFile_frame [OF bad(1)] assms(3) by (simp add: load_keeps_def)
next
  case (no_info c0 w1 e)
  then show ?thesis using readTextFile_frame [OF no_info(1)] fileInfo_frame [OF no_info(2)] assms(3) by (simp add: load_keeps_def)
next
  case (lines c0 w1 hl ls h i w2)
  have c0: "c0 = c" using readTextFile_ok [OF lines(1)] assms(3) by simp
  have w2: "read w2 = read w" using readTextFile_frame [OF lines(1)] fileInfo_frame [OF lines(4)] by simp
  obtain x w3 where x: "loadLines rep fs p [hl] ls (newJsonlStorage (metadataFromHeader h p (fi_mtimeMs i))) w2 = (x, w3)" by force
  note kept = loadLines_file [OF x assms(2)]
  note fin = lines(5) [unfolded x c0]
  show ?thesis
  proof (cases "\<exists>st'. x = Inr (st', True)")
    case True
    then have "w' = w3" using fin by (auto simp: loadEnd_def)
    moreover from kept True have l: "ls \<noteq> []" "json_parse (last ls) = None" "read w3 (path p) = Some (unlines (hl # butlast ls))"
      by auto
    moreover have "physicalLines c = (hl # butlast ls) @ [last ls]" using lines(2) c0 l(1) by simp
    ultimately show ?thesis using physicalLines_text [of c "hl # butlast ls" "last ls"] unfolding load_keeps_def by blast
  next
    case False
    with kept w2 assms(3) have w3: "read w3 (path p) = Some c" by simp
    show ?thesis
    proof (cases x)
      case (Inl e) then show ?thesis using fin w3 by (simp add: load_keeps_def)
    next
      case (Inr y)
      with False obtain st' where "x = Inr (st', False)" by (cases y) auto
      with fin have "loadEnd fs p c (st', False) w3 = (r, w')" by simp
      from loadEnd_file [OF this w3] show ?thesis unfolding load_keeps_def by blast
    qed
  qed
qed

text \<open>The file of a log loads to the state of the log, whatever the outcome of the reads.\<close>

lemma jsLoad_log:
  assumes "read w (path p) = Some (file_text rep h ms)" "stored rep h ms s" "jsLoad rep fs p w = (Inr st, w')"
  shows "js_state st = s" "read w' = read w" "\<exists>mt. js_metadata st = metadataFromHeader h p mt"
proof -
  obtain x w1 where x: "fs_readTextFile fs p w = (x, w1)" by force
  with assms(3) obtain c where "x = Inr c" by (cases x) (auto simp: jsLoad_def)
  with x readTextFile_ok assms(1) have rd: "fs_readTextFile fs p w = (Inr (file_text rep h ms @ []), w1)" by fastforce
  obtain y w2 where y: "fs_fileInfo fs p w1 = (y, w2)" by force
  have "\<exists>i. y = Inr i"
  proof (cases y)
    case (Inl e)
    note d = storedD [OF assms(2)]
    have "physicalLines (file_text rep h ms) = header_line h # map (line_of rep) ms"
      unfolding file_text_lines using physicalLines_unlines [OF d(4), of "[]"] by simp
    with assms(3) rd y Inl header_facts [OF d(1)] show ?thesis by (simp add: jsLoad_def)
  qed simp
  then obtain i where i: "fs_fileInfo fs p w1 = (Inr i, w2)" using y by blast
  have "jsLoad rep fs p w = (Inr \<lparr>js_metadata = metadataFromHeader h p (fi_mtimeMs i), js_state = s\<rparr>, w2)"
    using jsLoad_text [OF rd i assms(2)] by (simp add: loadEnd_def)
  then have e: "st = \<lparr>js_metadata = metadataFromHeader h p (fi_mtimeMs i), js_state = s\<rparr>" "w' = w2" using assms(3) by simp_all
  then show "js_state st = s" "\<exists>mt. js_metadata st = metadataFromHeader h p mt" by auto
  show "read w' = read w" using e(2) readTextFile_frame [OF rd] fileInfo_frame [OF i] by simp
qed

end

end
