(* ===== verification/JsonlRecovery.thy ===== *)
theory JsonlRecovery
  imports JsonlProps
begin

text \<open>
  JSONL storages on a disk: the histories of a session file, the refinement of the in-memory storage, the
  reload of a file and the recovery from an append that a crash cut short.
\<close>

section \<open>System calls that succeed\<close>

text \<open>
  A path can be written when its directory and the directories above are there and it is not a directory
  itself; a disk is ready for a session file when no fault is ahead and the file and its temporary sibling
  can be written.
\<close>

definition writable :: "node_env \<Rightarrow> disk \<Rightarrow> string \<Rightarrow> bool" where
  "writable env d p =
     (let r = resolvePath env p; q = path_resolve (ne_process_cwd env) r ''..'' in
      \<not> is_dir d r \<and> is_dir d (parent_path r) \<and> is_dir d q \<and> \<not> is_file d q
      \<and> list_all (is_dir d) (with_ancestors q) \<and> \<not> list_ex (is_file d) (with_ancestors q))"

definition disk_ready :: "node_env \<Rightarrow> disk \<Rightarrow> string \<Rightarrow> bool" where
  "disk_ready env d p = (d_faults d = [] \<and> writable env d p \<and> writable env d (p @ ''.tmp'')
     \<and> resolvePath env (p @ ''.tmp'') \<noteq> resolvePath env p)"

lemma no_fault: "d_faults d = [] \<Longrightarrow> next_fault d = (None, d)"
  by (simp add: next_fault_def)

lemma node_read_ok:
  "d_faults d = [] \<Longrightarrow> file_content d (resolvePath env p) = Some c \<Longrightarrow> fs_readTextFile (nodeFs env) p d = (Inr c, d)"
  by (auto simp: nodeFs_def node_readTextFile_def sys_try_def sys_readFile_def inspect_def no_fault file_content_def return_ok_def)

lemma node_info_ok:
  "d_faults d = [] \<Longrightarrow> file_content d (resolvePath env p) = Some c \<Longrightarrow> \<exists>i. fs_fileInfo (nodeFs env) p d = (Inr i, d)"
  by (auto simp: nodeFs_def node_fileInfo_def sys_try_def sys_lstat_def inspect_def no_fault file_content_def return_ok_def Let_def)

lemma mkdir_there:
  assumes "writable env d p" "next_fault d = (None, d')" "d_dirs d' = d_dirs d" "d_files d' = d_files d"
  shows "sys_mkdir (path_resolve (ne_process_cwd env) (resolvePath env p) ''..'') True d = (Inr (), d')"
proof -
  have e: "is_dir d' = is_dir d" "is_file d' = is_file d" using assms(3,4) by (auto simp: is_dir_def is_file_def)
  let ?q = "path_resolve (ne_process_cwd env) (resolvePath env p) ''..''"
  have "filter (\<lambda>q. \<not> is_dir d q) (with_ancestors ?q) = []"
    using assms(1) by (auto simp: writable_def Let_def list.pred_set filter_empty_conv)
  then show ?thesis using assms(1) by (simp add: sys_mkdir_def assms(2) e writable_def Let_def)
qed

lemma node_write_ok:
  assumes "d_faults d = []" "writable env d p"
  shows "fs_writeFile (nodeFs env) p c d = (Inr (), put_file (resolvePath env p) c d)"
proof -
  note m = mkdir_there [OF assms(2) no_fault [OF assms(1)] refl refl]
  from assms(2) show ?thesis
    by (simp add: nodeFs_def node_writeFile_def m sys_try_def sys_write_def no_fault assms(1) writable_def Let_def return_ok_def)
qed

lemma node_append_ok:
  assumes "d_faults d = []" "writable env d p"
  shows "fs_appendFile (nodeFs env) p c d
    = (Inr (), put_file (resolvePath env p) (old_content d (resolvePath env p) @ c) d)"
proof -
  note m = mkdir_there [OF assms(2) no_fault [OF assms(1)] refl refl]
  from assms(2) show ?thesis
    by (simp add: nodeFs_def node_appendFile_def m sys_try_def sys_write_def no_fault assms(1) writable_def Let_def return_ok_def)
qed

lemma publish_ok:
  assumes "disk_ready env d p"
  shows "\<exists>d'. publishFileAtomically (nodeFs env) p (\<lambda>tp w. fileResult (fs_writeFile (nodeFs env) tp c w)) d = (Inr (), d')"
proof -
  let ?t = "p @ ''.tmp''" and ?P = "resolvePath env p" and ?T = "resolvePath env (p @ ''.tmp'')"
  from assms have a: "d_faults d = []" "writable env d ?t" "writable env d p" "?T \<noteq> ?P" by (simp_all add: disk_ready_def)
  let ?d = "put_file ?T c d"
  have "d_faults ?d = []" "map_of (d_files ?d) ?T = Some (c, d_now d)" "is_dir ?d ?P = is_dir d ?P"
    "is_dir ?d (parent_path ?P) = is_dir d (parent_path ?P)" using a(1) by (simp_all add: put_file_def is_dir_def)
  then have "\<exists>d'. fs_renameFile (nodeFs env) ?t p ?d = (Inr (), d')"
    using a(3,4) by (simp add: nodeFs_def node_renameFile_def sys_rename_def no_fault writable_def Let_def sys_try_def return_ok_def)
  then show ?thesis by (auto simp: publishFileAtomically_def Let_def node_write_ok [OF a(1,2)])
qed

section \<open>Histories of a session file\<close>

text \<open>The storage as an in-memory storage.\<close>

definition as_memory :: "jsonl_storage \<Rightarrow> memory_storage" where
  "as_memory st = \<lparr>ms_metadata = \<lparr>md_id = jm_id (js_metadata st), md_createdAt = jm_createdAt (js_metadata st),
      md_parentSessionId = jm_parentSessionId (js_metadata st)\<rparr>, ms_state = js_state st\<rparr>"

text \<open>
  A history: the file is created, operations succeed, the session is loaded again, and anything else may
  happen as long as it leaves the file alone (a failed operation that wrote nothing, a new fault, other
  files). The guards are the bounds of the format: \<open>2 ^ 53 - 1\<close> mutations, representable times and payloads.
\<close>

inductive jsonl_run :: "payload_rep \<Rightarrow> node_env \<Rightarrow> jsonl_header \<Rightarrow> string \<Rightarrow> jsonl_storage \<Rightarrow> disk \<Rightarrow> bool"
  for rep env h p where
  jr_create: "header_ok h \<Longrightarrow> jsCreate (nodeFs env) p h d = (Inr st, d') \<Longrightarrow> jsonl_run rep env h p st d'"
| jr_other: "jsonl_run rep env h p st d \<Longrightarrow> file_content d' (resolvePath env p) = file_content d (resolvePath env p) \<Longrightarrow>
    jsonl_run rep env h p st d'"
| jr_reload: "jsonl_run rep env h p st d \<Longrightarrow> jsLoad rep (nodeFs env) p d = (Inr st', d') \<Longrightarrow> jsonl_run rep env h p st' d'"
| jr_createLane: "jsonl_run rep env h p st d \<Longrightarrow> seq_ok (nextSequence (js_state st)) \<Longrightarrow>
    jsCreateLane rep (nodeFs env) lane at st d = (Inr st', d') \<Longrightarrow> jsonl_run rep env h p st' d'"
| jr_moveLane: "jsonl_run rep env h p st d \<Longrightarrow> seq_ok (nextSequence (js_state st)) \<Longrightarrow>
    jsMoveLane rep (nodeFs env) lane target st d = (Inr st', d') \<Longrightarrow> jsonl_run rep env h p st' d'"
| jr_appendEntry: "jsonl_run rep env h p st d \<Longrightarrow> seq_ok (nextSequence (js_state st)) \<Longrightarrow> time_ok now \<Longrightarrow>
    entry_rep_ok rep (p_data pe) \<Longrightarrow> jsAppendEntry rep (nodeFs env) now pe lane st d = (Inr (e, st'), d') \<Longrightarrow>
    jsonl_run rep env h p st' d'"
| jr_appendRecord: "jsonl_run rep env h p st d \<Longrightarrow> seq_ok (nextSequence (js_state st)) \<Longrightarrow> time_ok now \<Longrightarrow>
    record_rep_ok rep (n_data nr) \<Longrightarrow> jsAppendRecord rep (nodeFs env) now nr st d = (Inr (r, st'), d') \<Longrightarrow>
    jsonl_run rep env h p st' d'"
| jr_setName: "jsonl_run rep env h p st d \<Longrightarrow> seq_ok (nextSequence (js_state st)) \<Longrightarrow>
    jsSetName rep (nodeFs env) name st d = (Inr st', d') \<Longrightarrow> jsonl_run rep env h p st' d'"
| jr_setLabel: "jsonl_run rep env h p st d \<Longrightarrow> seq_ok (nextSequence (js_state st)) \<Longrightarrow>
    jsSetLabel rep (nodeFs env) i label st d = (Inr st', d') \<Longrightarrow> jsonl_run rep env h p st' d'"

text \<open>A successful commit: the line is in the file, the mutation in the state.\<close>

lemma jsCommit_Inr:
  assumes "jsCommit rep fs m st w = (Inr st', w')"
  shows "fs_appendFile fs (jm_path (js_metadata st)) (encodeMutation rep m) w = (Inr (), w')"
    "applyMutation m (js_state st) = Inr (js_state st')" "js_metadata st' = js_metadata st"
    "memApply m (as_memory st) = Inr (as_memory st')"
  using assms by (auto simp: jsCommit_def wbind_Inr jsAppendMutation_def jsApplyMutation_def as_memory_def memApply_def)

definition logged :: "payload_rep \<Rightarrow> node_env \<Rightarrow> jsonl_header \<Rightarrow> string \<Rightarrow> jsonl_storage \<Rightarrow> disk \<Rightarrow> bool" where
  "logged rep env h p st d = (storage_reachable (as_memory st) \<and> jm_path (js_metadata st) = p
     \<and> jm_id (js_metadata st) = h_id h \<and> jm_createdAt (js_metadata st) = h_createdAt h
     \<and> jm_parentSessionId (js_metadata st) = h_parentSessionId h
     \<and> (\<exists>ms. stored rep h ms (js_state st) \<and> file_content d (resolvePath env p) = Some (file_text rep h ms)))"

lemma logged_commit:
  assumes "logged rep env h p st d" "jsCommit rep (nodeFs env) m st d = (Inr st', d')" "mutation_ok rep m"
    "storage_reachable (as_memory st')"
  shows "logged rep env h p st' d'"
proof -
  from assms(1) obtain ms where ms: "stored rep h ms (js_state st)" "file_content d (resolvePath env p) = Some (file_text rep h ms)"
    "jm_path (js_metadata st) = p" by (auto simp: logged_def)
  note c = jsCommit_Inr [OF assms(2)]
  have "file_content d' (resolvePath env p) = Some (file_text rep h (ms @ [m]))"
    using node.appendFile_ok [OF c(1)] ms(2,3) by (simp add: file_text_snoc)
  with stored_snoc [OF ms(1) assms(3) c(2)] have "\<exists>ms. stored rep h ms (js_state st') \<and> file_content d' (resolvePath env p) = Some (file_text rep h ms)"
    by blast
  with assms(1,4) c(3) show ?thesis by (simp add: logged_def)
qed

lemma jsCreate_Inr:
  assumes "jsCreate (nodeFs env) p h d = (Inr st, d')"
  shows "file_content d' (resolvePath env p) = Some (encodeHeader h)" "js_state st = initState"
    "\<exists>mt. js_metadata st = metadataFromHeader h p mt"
proof -
  from assms obtain u d1 i where c: "fs_writeFile (nodeFs env) p (encodeHeader h) d = (Inr u, d1)"
    "fs_fileInfo (nodeFs env) p d1 = (Inr i, d')" "st = newJsonlStorage (metadataFromHeader h p (fi_mtimeMs i))"
    by (auto simp: jsCreate_def wbind_Inr)
  show "file_content d' (resolvePath env p) = Some (encodeHeader h)"
    using node.writeFile_ok [OF c(1)] node.fileInfo_frame [OF c(2)] by simp
  show "js_state st = initState" "\<exists>mt. js_metadata st = metadataFromHeader h p mt" using c(3) by (auto simp: newJsonlStorage_def)
qed

lemma mem_state [simp]: "ms_state (as_memory st) = js_state st"
  by (simp add: as_memory_def)

text \<open>Each operation that succeeds is a commit of an admissible mutation and the operation of the in-memory storage.\<close>

lemma op_commits:
  "jsCreateLane rep fs lane at st d = (Inr st', d') \<Longrightarrow>
    jsCommit rep fs (MutLane (nextSequence (js_state st)) lane at) st d = (Inr st', d')
      \<and> memCreateLane lane at (as_memory st) = Inr (as_memory st')"
  "jsMoveLane rep fs lane target st d = (Inr st', d') \<Longrightarrow>
    jsCommit rep fs (MutLane (nextSequence (js_state st)) lane target) st d = (Inr st', d')
      \<and> memMoveLane lane target (as_memory st) = Inr (as_memory st')"
  "jsAppendEntry rep fs now pe lane st d = (Inr (e, st'), d') \<Longrightarrow>
    jsCommit rep fs (MutEntry (Some lane) e) st d = (Inr st', d') \<and> memAppendEntry now pe lane (as_memory st) = Inr (e, as_memory st')
      \<and> e_seq e = nextSequence (js_state st) \<and> e_timestamp e = now \<and> e_data e = p_data pe"
  "jsAppendRecord rep fs now nr st d = (Inr (r, st'), d') \<Longrightarrow>
    jsCommit rep fs (MutRecord r) st d = (Inr st', d') \<and> memAppendRecord now nr (as_memory st) = Inr (r, as_memory st')
      \<and> r_seq r = nextSequence (js_state st) \<and> r_timestamp r = now \<and> r_data r = n_data nr"
  "jsSetName rep fs name st d = (Inr st', d') \<Longrightarrow>
    jsCommit rep fs (MutName (nextSequence (js_state st)) name) st d = (Inr st', d')
      \<and> memSetName name (as_memory st) = Inr (as_memory st')"
  "jsSetLabel rep fs i label st d = (Inr st', d') \<Longrightarrow>
    jsCommit rep fs (MutLabel (nextSequence (js_state st)) i label) st d = (Inr st', d')
      \<and> memSetLabel i label (as_memory st) = Inr (as_memory st')"
  using jsCommit_Inr(4)
  by (fastforce simp: jsCreateLane_def memCreateLane_def wbind_Inr, fastforce simp: jsMoveLane_def memMoveLane_def wbind_Inr,
      fastforce simp: jsAppendEntry_def memAppendEntry_def wbind_Inr Let_def,
      fastforce simp: jsAppendRecord_def memAppendRecord_def wbind_Inr Let_def split: if_splits,
      fastforce simp: jsSetName_def memSetName_def, fastforce simp: jsSetLabel_def memSetLabel_def wbind_Inr)

lemma jsonl_run_logged: "jsonl_run rep env h p st d \<Longrightarrow> logged rep env h p st d"
proof (induction rule: jsonl_run.induct)
  case (jr_create d st d')
  note c = jsCreate_Inr [OF jr_create(2)]
  have "as_memory st = newMemoryStorage \<lparr>md_id = h_id h, md_createdAt = h_createdAt h, md_parentSessionId = h_parentSessionId h\<rparr>"
    using c(2,3) by (auto simp: as_memory_def newMemoryStorage_def metadataFromHeader_def)
  then have "storage_reachable (as_memory st)" by (simp add: sr_new)
  moreover have "stored rep h [] (js_state st)" using jr_create(1) c(2) by (simp add: stored_def applyMutations_def)
  ultimately show ?case unfolding logged_def using c(1,3)
    by (auto simp: metadataFromHeader_def file_text_def intro!: exI [of _ "[]"])
next
  case (jr_other st d d') then show ?case by (simp add: logged_def)
next
  case (jr_reload st d st' d')
  then obtain ms where ms: "stored rep h ms (js_state st)" "file_content d (resolvePath env p) = Some (file_text rep h ms)"
    by (auto simp: logged_def)
  note l = node.jsLoad_log [OF ms(2,1) jr_reload(2)]
  have "as_memory st' = as_memory st" using l(1,3) jr_reload.IH by (auto simp: as_memory_def logged_def metadataFromHeader_def)
  with jr_reload.IH l show ?case by (auto simp: logged_def metadataFromHeader_def)
next
  case (jr_createLane st d lane at st' d')
  note c = op_commits(1) [OF jr_createLane(3)]
  with jr_createLane sr_createLane show ?case by (intro logged_commit [OF jr_createLane.IH]) (auto simp: logged_def)
next
  case (jr_moveLane st d lane target st' d')
  note c = op_commits(2) [OF jr_moveLane(3)]
  with jr_moveLane sr_moveLane show ?case by (intro logged_commit [OF jr_moveLane.IH]) (auto simp: logged_def)
next
  case (jr_appendEntry st d now pe lane e st' d')
  note c = op_commits(3) [OF jr_appendEntry(5)]
  with jr_appendEntry sr_appendEntry show ?case by (intro logged_commit [OF jr_appendEntry.IH]) (auto simp: logged_def)
next
  case (jr_appendRecord st d now nr r st' d')
  note c = op_commits(4) [OF jr_appendRecord(5)]
  with jr_appendRecord sr_appendRecord show ?case by (intro logged_commit [OF jr_appendRecord.IH]) (auto simp: logged_def)
next
  case (jr_setName st d name st' d')
  note c = op_commits(5) [OF jr_setName(3)]
  with jr_setName sr_setName show ?case by (intro logged_commit [OF jr_setName.IH]) (auto simp: logged_def)
next
  case (jr_setLabel st d i label st' d')
  note c = op_commits(6) [OF jr_setLabel(3)]
  with jr_setLabel sr_setLabel show ?case by (intro logged_commit [OF jr_setLabel.IH]) (auto simp: logged_def)
qed

section \<open>Loading on a disk without faults\<close>

lemma load_complete:
  assumes "stored rep h ms s" "file_content d (resolvePath env p) = Some (file_text rep h ms)" "d_faults d = []"
  shows "\<exists>st. jsLoad rep (nodeFs env) p d = (Inr st, d) \<and> js_state st = s"
proof -
  have rd: "fs_readTextFile (nodeFs env) p d = (Inr (file_text rep h ms @ []), d)" using node_read_ok [OF assms(3,2)] by simp
  obtain i where i: "fs_fileInfo (nodeFs env) p d = (Inr i, d)" using node_info_ok [OF assms(3,2)] ..
  from jsLoad_text [OF rd i assms(1)] show ?thesis by (simp add: loadEnd_def)
qed

lemma load_torn:
  assumes "stored rep h ms s" "file_content d (resolvePath env p) = Some (file_text rep h ms @ t)" "disk_ready env d p"
    "t \<noteq> []" "nl \<notin> set t" "json_parse t = None"
  shows "\<exists>st d'. jsLoad rep (nodeFs env) p d = (Inr st, d') \<and> js_state st = s
    \<and> file_content d' (resolvePath env p) = Some (file_text rep h ms)"
proof -
  have nf: "d_faults d = []" and tmp: "resolvePath env (p @ ''.tmp'') \<noteq> resolvePath env p" using assms(3) by (simp_all add: disk_ready_def)
  note rd = node_read_ok [OF nf assms(2)]
  obtain i where i: "fs_fileInfo (nodeFs env) p d = (Inr i, d)" using node_info_ok [OF nf assms(2)] ..
  let ?c = "join newline (header_line h # map (line_of rep) ms) @ newline"
  obtain d' where pub: "publishFileAtomically (nodeFs env) p (\<lambda>tp w. fileResult (fs_writeFile (nodeFs env) tp ?c w)) d = (Inr (), d')"
    using publish_ok [OF assms(3)] ..
  have "?c = file_text rep h ms" using join_unlines by (simp add: file_text_lines)
  with node.publish_write(1) [OF pub tmp] have "file_content d' (resolvePath env p) = Some (file_text rep h ms)" by simp
  moreover have "\<exists>st. jsLoad rep (nodeFs env) p d = (Inr st, d') \<and> js_state st = s"
    using jsLoad_text(1) [OF rd i assms(1,5)] assms(4,6) pub syntax_error_json [of rep t] by (simp add: loadEnd_def)
  ultimately show ?thesis by blast
qed

lemma load_unterminated:
  assumes "stored rep h ms s" "file_content d (resolvePath env p) = Some (file_text rep h ms @ line_of rep m)" "disk_ready env d p"
    "mutation_ok rep m" "applyMutation m s = Inr s'"
  shows "\<exists>st d'. jsLoad rep (nodeFs env) p d = (Inr st, d') \<and> js_state st = s'
    \<and> file_content d' (resolvePath env p) = Some (file_text rep h (ms @ [m]))"
proof -
  let ?P = "resolvePath env p"
  have nf: "d_faults d = []" and wr: "writable env d p" using assms(3) by (simp_all add: disk_ready_def)
  note rd = node_read_ok [OF nf assms(2)]
  obtain i where i: "fs_fileInfo (nodeFs env) p d = (Inr i, d)" using node_info_ok [OF nf assms(2)] ..
  note l = line_facts [OF assms(4)]
  let ?d = "put_file ?P (old_content d ?P @ newline) d"
  note a = node_append_ok [OF nf wr, of newline]
  have "\<exists>st. jsLoad rep (nodeFs env) p d = (Inr st, ?d) \<and> js_state st = s'"
    using jsLoad_text [OF rd i assms(1) l(1)] l(2,3) assms(5) a by (simp add: loadEnd_def)
  moreover have "file_content ?d ?P = Some (file_text rep h (ms @ [m]))"
    using old_content_iff(1) [OF assms(2)] by (simp add: content_put file_text_snoc encodeMutation_def line_of_def)
  ultimately show ?thesis by blast
qed

lemma load_cut:
  assumes "stored rep h ms s" "file_content d (resolvePath env p) = Some (file_text rep h ms @ take k (encodeMutation rep m))"
    "disk_ready env d p" "mutation_ok rep m" "applyMutation m s = Inr s'"
  shows "\<exists>st d'. jsLoad rep (nodeFs env) p d = (Inr st, d') \<and>
    (if Suc k < length (encodeMutation rep m)
     then js_state st = s \<and> file_content d' (resolvePath env p) = Some (file_text rep h ms)
     else js_state st = s' \<and> file_content d' (resolvePath env p) = Some (file_text rep h (ms @ [m])))"
proof -
  let ?l = "line_of rep m"
  have nf: "d_faults d = []" using assms(3) by (simp add: disk_ready_def)
  have enc: "encodeMutation rep m = ?l @ newline" by (simp add: encodeMutation_def line_of_def)
  note l = line_facts [OF assms(4)]
  consider (none) "k = 0" | (torn) "0 < k" "k < length ?l" | (line) "k = length ?l" | (all) "length ?l < k" by linarith
  then show ?thesis
  proof cases
    case none
    with assms(2) load_complete [OF assms(1) _ nf, of env p] l(2) show ?thesis by (auto simp: enc)
  next
    case torn
    then have t: "take k (encodeMutation rep m) = take k ?l" "take k ?l \<noteq> []" "nl \<notin> set (take k ?l)"
      using l(1) by (auto simp: enc dest: in_set_takeD)
    have "json_parse (take k ?l) = None"
      using json_parse_prefix [OF mutation_json [OF assms(4)], of "take k ?l" "drop k ?l"] torn by (simp add: line_of_def)
    with load_torn [OF assms(1) _ assms(3) t(2,3)] assms(2) torn show ?thesis by (simp add: t(1) enc)
  next
    case line
    then have "take k (encodeMutation rep m) = ?l" by (simp add: enc)
    with load_unterminated [OF assms(1) _ assms(3-5)] assms(2) line show ?thesis by (simp add: enc)
  next
    case all
    then have "take k (encodeMutation rep m) = encodeMutation rep m" by (simp add: enc)
    with assms(2) load_complete [OF stored_snoc [OF assms(1,4,5)] _ nf, of env p] all show ?thesis
      by (auto simp: file_text_snoc enc)
  qed
qed

section \<open>Forks\<close>

lemma jsCommitAll_ok:
  assumes "jsCommitAll rep (nodeFs env) ms st d = (Inr st', d')" "file_content d (resolvePath env (jm_path (js_metadata st))) = Some c"
  shows "file_content d' (resolvePath env (jm_path (js_metadata st))) = Some (c @ concat (map (encodeMutation rep) ms))"
    "applyMutations ms (js_state st) = Inr (js_state st')"
  using assms
proof (induction ms arbitrary: st d c)
  case (Cons m ms)
  { case 1
    then obtain st1 d1 where s: "jsCommit rep (nodeFs env) m st d = (Inr st1, d1)" "jsCommitAll rep (nodeFs env) ms st1 d1 = (Inr st', d')"
      by (auto simp: wbind_Inr)
    note c = jsCommit_Inr [OF s(1)]
    have "file_content d1 (resolvePath env (jm_path (js_metadata st1))) = Some (c @ encodeMutation rep m)"
      using node.appendFile_ok [OF c(1)] 1(2) c(3) by simp
    from Cons.IH(1) [OF s(2) this] c(3) show ?case by simp
  next
    case 2
    then obtain st1 d1 where s: "jsCommit rep (nodeFs env) m st d = (Inr st1, d1)" "jsCommitAll rep (nodeFs env) ms st1 d1 = (Inr st', d')"
      by (auto simp: wbind_Inr)
    note c = jsCommit_Inr [OF s(1)]
    have "file_content d1 (resolvePath env (jm_path (js_metadata st1))) = Some (c @ encodeMutation rep m)"
      using node.appendFile_ok [OF c(1)] 2(2) c(3) by simp
    from Cons.IH(2) [OF s(2) this] c(2) show ?case by (simp add: applyMutations_def) }
qed (auto simp: applyMutations_def)

lemma jsCommitAll_frame:
  assumes "jsCommitAll rep (nodeFs env) ms st d = (r, d')" "q \<noteq> resolvePath env (jm_path (js_metadata st))"
  shows "file_content d' q = file_content d q"
  using assms
proof (induction ms arbitrary: st d)
  case (Cons m ms)
  from Cons.prems(1) have "wbind (jsCommit rep (nodeFs env) m st d) (jsCommitAll rep (nodeFs env) ms) = (r, d')" by simp
  then show ?case
  proof (cases rule: wbind_cases)
    case (1 e)
    from 1(1) show ?thesis unfolding jsCommit_def
    proof (cases rule: wbind_cases)
      case (1 e1)
      from fileResult_Inl [OF 1(1) [unfolded jsAppendMutation_def]] obtain e2
        where "fs_appendFile (nodeFs env) (jm_path (js_metadata st)) (encodeMutation rep m) d = (Inl e2, d')" ..
      from node.appendFile_frame [OF this Cons.prems(2)] show ?thesis .
    next
      case (2 u d1)
      then have "fs_appendFile (nodeFs env) (jm_path (js_metadata st)) (encodeMutation rep m) d = (Inr u, d1)" "d1 = d'"
        by (simp_all add: jsAppendMutation_def)
      with node.appendFile_frame [OF this(1) Cons.prems(2)] show ?thesis by simp
    qed
  next
    case (2 st1 d1)
    note c = jsCommit_Inr [OF 2(1)]
    from Cons.IH [OF 2(2)] Cons.prems(2) c(3) node.appendFile_frame [OF c(1) Cons.prems(2)] show ?thesis by simp
  qed
qed simp

text \<open>A load of a complete file leaves every file alone, also when it fails.\<close>

lemma jsLoad_log_frame:
  assumes "file_content d (resolvePath env p) = Some (file_text rep h ms)" "stored rep h ms s" "jsLoad rep (nodeFs env) p d = (r, d')"
  shows "file_content d' = file_content d"
proof (cases r)
  case (Inr st) with node.jsLoad_log(2) [OF assms(1,2)] assms(3) show ?thesis by blast
next
  case (Inl e)
  from assms(3) show ?thesis
  proof (cases rule: jsLoad_cases)
    case (unread e') from node.readTextFile_frame [OF unread] show ?thesis .
  next
    case (bad c) from node.readTextFile_frame [OF bad(1)] show ?thesis .
  next
    case (no_info c d1 e') from node.readTextFile_frame [OF no_info(1)] node.fileInfo_frame [OF no_info(2)] show ?thesis by simp
  next
    case (lines c d1 hl ls h' i d2)
    from node.readTextFile_ok [OF lines(1)] assms(1) have rd: "fs_readTextFile (nodeFs env) p d = (Inr (file_text rep h ms @ []), d1)"
      using lines(1) by simp
    from jsLoad_text [OF rd lines(4) assms(2)] assms(3) Inl show ?thesis by (simp add: loadEnd_def)
  qed
qed

lemma fork_publish:
  assumes "publishFileAtomically (nodeFs env) p (\<lambda>tp w. wbind (jsCreate (nodeFs env) tp h w) (\<lambda>target w.
      wbind (jsCommitAll rep (nodeFs env) ms target w) (\<lambda>_ w. (Inr (), w)))) d = (r, d')"
    "resolvePath env (p @ ''.tmp'') \<noteq> resolvePath env p"
  shows "q \<noteq> resolvePath env p \<Longrightarrow> q \<noteq> resolvePath env (p @ ''.tmp'') \<Longrightarrow> file_content d' q = file_content d q"
    "r = Inl e \<Longrightarrow> file_content d' (resolvePath env p) = file_content d (resolvePath env p)"
    "r = Inr u \<Longrightarrow> file_content d' (resolvePath env p) = Some (file_text rep h ms)"
    "r = Inr u \<Longrightarrow> \<exists>s. applyMutations ms initState = Inr s"
proof -
  let ?t = "p @ ''.tmp''" and ?P = "resolvePath env p" and ?T = "resolvePath env (p @ ''.tmp'')"
  let ?pop = "\<lambda>tp w. wbind (jsCreate (nodeFs env) tp h w) (\<lambda>target w.
      wbind (jsCommitAll rep (nodeFs env) ms target w) (\<lambda>_ w. (Inr (), w)))"
  have frame: "file_content d1 q = file_content d q" if pop: "?pop ?t d = (x, d1)" and q: "q \<noteq> ?T" for x d1 q
    using pop
  proof (cases rule: wbind_cases)
    case (1 e)
    from 1(1) show ?thesis unfolding jsCreate_def
    proof (cases rule: wbind_cases)
      case (1 e1)
      from fileResult_Inl [OF 1(1)] obtain e2 where "fs_writeFile (nodeFs env) ?t (encodeHeader h) d = (Inl e2, d1)" ..
      from node.writeFile_frame [OF this q] show ?thesis .
    next
      case (2 u d2)
      then have w: "fs_writeFile (nodeFs env) ?t (encodeHeader h) d = (Inr u, d2)" by simp
      obtain i d3 where i: "fs_fileInfo (nodeFs env) ?t d2 = (i, d3)" by force
      with 2(2) have "d3 = d1" by (cases i) simp_all
      with node.writeFile_frame [OF w q] node.fileInfo_frame [OF i] show ?thesis by simp
    qed
  next
    case (2 target d2)
    from 2(1) obtain u d3 i where w: "fs_writeFile (nodeFs env) ?t (encodeHeader h) d = (Inr u, d3)"
      "fs_fileInfo (nodeFs env) ?t d3 = (Inr i, d2)" by (auto simp: jsCreate_def wbind_Inr)
    have d2: "file_content d2 q = file_content d q" using node.writeFile_frame [OF w(1) q] node.fileInfo_frame [OF w(2)] by simp
    have path: "jm_path (js_metadata target) = ?t" using jsCreate_Inr(3) [OF 2(1)] by (auto simp: metadataFromHeader_def)
    obtain y d4 where y: "jsCommitAll rep (nodeFs env) ms target d2 = (y, d4)" by force
    with 2(2) have "d4 = d1" by (cases y) simp_all
    with jsCommitAll_frame [OF y, of q] q path d2 show ?thesis by simp
  qed
  have written: "file_content d1 ?T = Some (file_text rep h ms) \<and> (\<exists>s. applyMutations ms initState = Inr s)" if "?pop ?t d = (Inr (), d1)" for d1
  proof -
    from that obtain target d2 st' where c: "jsCreate (nodeFs env) ?t h d = (Inr target, d2)"
      "jsCommitAll rep (nodeFs env) ms target d2 = (Inr st', d1)" by (auto simp: wbind_Inr)
    note cr = jsCreate_Inr [OF c(1)]
    have path: "jm_path (js_metadata target) = ?t" using cr(3) by (auto simp: metadataFromHeader_def)
    from jsCommitAll_ok [OF c(2)] cr(1,2) show ?thesis unfolding path by (auto simp: file_text_def)
  qed
  have "(q \<noteq> ?P \<longrightarrow> q \<noteq> ?T \<longrightarrow> file_content d' q = file_content d q) \<and> (\<forall>e. r = Inl e \<longrightarrow> file_content d' ?P = file_content d ?P)
    \<and> (\<forall>u. r = Inr u \<longrightarrow> file_content d' ?P = Some (file_text rep h ms) \<and> (\<exists>s. applyMutations ms initState = Inr s))" for q
    using assms(1)
  proof (cases rule: publish_cases)
    case (ok d2 u)
    from node.renameFile_ok [OF ok(2) assms(2)] frame [OF ok(1)] written [OF ok(1)] assms(2) ok(3) show ?thesis by auto
  next
    case (populate e d1)
    from frame [OF populate(1)] node.remove_temp [OF populate(3)] populate(2) assms(2) show ?thesis by auto
  next
    case (rename e e' d1 d2)
    from frame [OF rename(1)] node.remove_temp [OF rename(4)] node.renameFile_fail [OF rename(2)] rename(3) assms(2)
    show ?thesis by auto
  qed
  then show "q \<noteq> ?P \<Longrightarrow> q \<noteq> ?T \<Longrightarrow> file_content d' q = file_content d q" "r = Inl e \<Longrightarrow> file_content d' ?P = file_content d ?P"
    "r = Inr u \<Longrightarrow> file_content d' ?P = Some (file_text rep h ms)" "r = Inr u \<Longrightarrow> \<exists>s. applyMutations ms initState = Inr s" by blast+
qed

definition fork_ok :: "payload_rep \<Rightarrow> fork_options \<Rightarrow> jsonl_storage \<Rightarrow> bool" where
  "fork_ok rep options st = (case createForkMutations options (js_state st) of Inl _ \<Rightarrow> True | Inr ms \<Rightarrow> list_all (mutation_ok rep) ms)"

lemma jsFork_files:
  assumes "jsFork rep (nodeFs env) p h options st d = (r, d')" "resolvePath env (p @ ''.tmp'') \<noteq> resolvePath env p"
    "header_ok h" "fork_ok rep options st"
  shows "q \<noteq> resolvePath env p \<Longrightarrow> q \<noteq> resolvePath env (p @ ''.tmp'') \<Longrightarrow> file_content d' q = file_content d q"
    "file_content d' (resolvePath env p) = file_content d (resolvePath env p)
      \<or> (\<exists>ms. createForkMutations options (js_state st) = Inr ms \<and> file_content d' (resolvePath env p) = Some (file_text rep h ms))"
    "r = Inr st' \<Longrightarrow> memFork \<lparr>md_id = h_id h, md_createdAt = h_createdAt h, md_parentSessionId = h_parentSessionId h\<rparr>
      options (as_memory st) = Inr (as_memory st')"
proof -
  let ?P = "resolvePath env p" and ?T = "resolvePath env (p @ ''.tmp'')"
  let ?md = "\<lparr>md_id = h_id h, md_createdAt = h_createdAt h, md_parentSessionId = h_parentSessionId h\<rparr>"
  have "(q \<noteq> ?P \<longrightarrow> q \<noteq> ?T \<longrightarrow> file_content d' q = file_content d q)
    \<and> (file_content d' ?P = file_content d ?P
        \<or> (\<exists>ms. createForkMutations options (js_state st) = Inr ms \<and> file_content d' ?P = Some (file_text rep h ms)))
    \<and> (\<forall>st'. r = Inr st' \<longrightarrow> memFork ?md options (as_memory st) = Inr (as_memory st'))" for q
  proof (cases "createForkMutations options (js_state st)")
    case (Inl e) with assms(1) show ?thesis by (auto simp: jsFork_def lift_w_def)
  next
    case (Inr ms)
    let ?pop = "\<lambda>tp w. wbind (jsCreate (nodeFs env) tp h w) (\<lambda>target w.
      wbind (jsCommitAll rep (nodeFs env) ms target w) (\<lambda>_ w. (Inr (), w)))"
    from assms(1) Inr have "wbind (publishFileAtomically (nodeFs env) p ?pop d) (\<lambda>_ w. jsLoad rep (nodeFs env) p w) = (r, d')"
      by (simp add: jsFork_def lift_w_def)
    then show ?thesis
    proof (cases rule: wbind_cases)
      case (1 e)
      note f = fork_publish [OF 1(1) assms(2)]
      show ?thesis using f(1) f(2) [OF refl] 1(2) by auto
    next
      case (2 u d1)
      note f = fork_publish [OF 2(1) assms(2)]
      from f(4) [OF refl] obtain s where s: "applyMutations ms initState = Inr s" ..
      then have st: "stored rep h ms s" using assms(3,4) Inr by (simp add: stored_def fork_ok_def)
      note fr = jsLoad_log_frame [OF f(3) [OF refl] st 2(2)]
      have "memFork ?md options (as_memory st) = Inr (as_memory st')" if "r = Inr st'" for st'
        using node.jsLoad_log(1,3) [OF f(3) [OF refl] st, of st' d'] 2(2) that Inr s
        by (auto simp: memFork_def as_memory_def newMemoryStorage_def metadataFromHeader_def)
      then show ?thesis using f(1) f(3) [OF refl] Inr fr by auto
    qed
  qed
  then show "q \<noteq> ?P \<Longrightarrow> q \<noteq> ?T \<Longrightarrow> file_content d' q = file_content d q"
    "file_content d' ?P = file_content d ?P \<or> (\<exists>ms. createForkMutations options (js_state st) = Inr ms \<and> file_content d' ?P = Some (file_text rep h ms))"
    "r = Inr st' \<Longrightarrow> memFork ?md options (as_memory st) = Inr (as_memory st')" by blast+
qed

section \<open>An append after a torn one\<close>

lemma writable_put: "\<not> is_dir d r \<Longrightarrow> writable env d p \<Longrightarrow> writable env (put_file r c d) p"
proof -
  assume r: "\<not> is_dir d r" and w: "writable env d p"
  let ?q = "path_resolve (ne_process_cwd env) (resolvePath env p) ''..''"
  have dirs: "is_dir (put_file r c d) = is_dir d" by (rule ext) (simp add: is_dir_def put_file_def)
  have files: "is_file (put_file r c d) x = is_file d x" if "is_dir d x" for x
    using that r by (auto simp: is_file_def put_file_def)
  have "list_ex (is_file (put_file r c d)) (with_ancestors ?q) = list_ex (is_file d) (with_ancestors ?q)"
    using w files by (auto simp: writable_def Let_def list_ex_iff list.pred_set)
  then show ?thesis using w files [of ?q] by (simp add: writable_def Let_def dirs)
qed

lemma writable_faults: "writable env (d\<lparr>d_faults := fs\<rparr>) p = writable env d p"
proof -
  have "is_dir (d\<lparr>d_faults := fs\<rparr>) = is_dir d" "is_file (d\<lparr>d_faults := fs\<rparr>) = is_file d"
    by (auto simp: is_dir_def is_file_def)
  then show ?thesis by (simp add: writable_def)
qed

lemma load_bad_line:
  assumes "stored rep h ms s" "file_content d (resolvePath env p) = Some (file_text rep h ms @ t @ newline)" "disk_ready env d p"
    "t \<noteq> []" "nl \<notin> set t" "json_parse t = None"
  shows "\<exists>st d'. jsLoad rep (nodeFs env) p d = (Inr st, d') \<and> js_state st = s"
proof -
  have nf: "d_faults d = []" using assms(3) by (simp add: disk_ready_def)
  note rd = node_read_ok [OF nf assms(2)]
  obtain i where i: "fs_fileInfo (nodeFs env) p d = (Inr i, d)" using node_info_ok [OF nf assms(2)] ..
  let ?ls = "map (line_of rep) ms" and ?st = "newJsonlStorage (metadataFromHeader h p (fi_mtimeMs i))"
  obtain d' where pub: "publishFileAtomically (nodeFs env) p (\<lambda>tp w. fileResult (fs_writeFile (nodeFs env) tp
      (join newline (header_line h # ?ls) @ newline) w)) d = (Inr (), d')"
    using publish_ok [OF assms(3)] ..
  note dd = storedD [OF assms(1)]
  have "physicalLines (unlines ((header_line h # ?ls) @ [t]) @ []) = (header_line h # ?ls) @ [t]"
    using dd(4) assms(5) by (subst physicalLines_unlines) auto
  moreover have "unlines ((header_line h # ?ls) @ [t]) = file_text rep h ms @ t @ newline"
    by (simp add: file_text_lines unlines_def)
  ultimately have lines: "physicalLines (file_text rep h ms @ t @ newline) = header_line h # ?ls @ [t]" by simp
  have loop: "loadLines rep (nodeFs env) p [header_line h] (?ls @ [t]) ?st d = (Inr (?st\<lparr>js_state := s\<rparr>, True), d')"
    using loadLines_log [of ms rep ?st s "nodeFs env" p "[header_line h]" "[t]" d] dd(2,3) pub assms(6) syntax_error_json [of rep t]
    by (simp add: newJsonlStorage_def)
  have "jsLoad rep (nodeFs env) p d = (Inr (?st\<lparr>js_state := s\<rparr>), d')"
    using header_facts(2,3) [OF dd(1)] by (simp add: jsLoad_def rd lines i loop loadEnd_def)
  then show ?thesis by simp
qed

text \<open>A brace in front of an object is not JSON.\<close>

lemma brace_not_json: "json_parse (CHR ''{'' # CHR ''{'' # z) = None"
  by (simp add: json_parse_def skip_ws_Cons is_ws_def)

lemma torn_append_swallows:
  assumes "stored rep h ms (js_state st)" "file_content d (resolvePath env p) = Some (file_text rep h ms)" "jm_path (js_metadata st) = p"
    "d_faults d = [None, Some (''ENOSPC'', 1)]" "disk_ready env (d\<lparr>d_faults := []\<rparr>) p" "seq_ok (nextSequence (js_state st))"
  shows "\<exists>d2 st3 d3 st4 d4. jsSetName rep (nodeFs env) a st d = (Inl StorageError, d2)
    \<and> jsSetName rep (nodeFs env) b st d2 = (Inr st3, d3) \<and> getName (js_state st3) = b
    \<and> jsLoad rep (nodeFs env) p d3 = (Inr st4, d4) \<and> js_state st4 = js_state st"
proof -
  let ?P = "resolvePath env p" and ?n = "nextSequence (js_state st)"
  define e where "e = d\<lparr>d_faults := []\<rparr>"
  have rdy: "disk_ready env e p" and nf: "d_faults e = []" using assms(5) by (simp_all add: e_def)
  have wr: "writable env e p" "\<not> is_dir e ?P" "writable env e (p @ ''.tmp'')" "resolvePath env (p @ ''.tmp'') \<noteq> ?P"
    using rdy by (auto simp: disk_ready_def writable_def Let_def)
  let ?q = "path_resolve (ne_process_cwd env) ?P ''..''"
  define d1 where "d1 = d\<lparr>d_faults := [Some (''ENOSPC'', 1)]\<rparr>"
  have mk: "sys_mkdir ?q True d = (Inr (), d1)"
    by (rule mkdir_there) (use wr(1) writable_faults [of env "[]" d p] assms(4) in \<open>simp_all add: e_def next_fault_def d1_def\<close>)
  have old: "old_content d1 ?P = file_text rep h ms" using old_content_iff(1) [OF assms(2)] by (simp add: old_content_def d1_def)
  have wd: "\<not> is_dir d1 ?P" "is_dir d1 (parent_path ?P)"
    using wr(1) by (simp_all add: writable_def Let_def is_dir_def e_def d1_def)
  let ?m = "\<lambda>x. MutName ?n x" and ?d2 = "put_file ?P (file_text rep h ms @ ''{'') e"
  have enc: "encodeMutation rep m = CHR ''{'' # tl (line_of rep m) @ newline" for m
    by (simp add: encodeMutation_def line_of_def)
  have "sys_write ?P (file_text rep h ms) (encodeMutation rep (?m a)) d1 = (Inl ''ENOSPC'', ?d2)"
    using wd by (simp add: sys_write_def next_fault_def enc e_def put_file_def d1_def)
  then have "fs_appendFile (nodeFs env) p (encodeMutation rep (?m a)) d = (Inl (toFileError ''ENOSPC''), ?d2)"
    by (simp add: nodeFs_def node_appendFile_def Let_def mk sys_try_def old)
  then have one: "jsSetName rep (nodeFs env) a st d = (Inl StorageError, ?d2)"
    by (simp add: jsSetName_def jsCommit_def jsAppendMutation_def assms(3) toFileError_def)
  have wr2: "writable env ?d2 p" "d_faults ?d2 = []" using writable_put [OF wr(2,1)] nf by (simp_all add: put_file_def)
  let ?d3 = "put_file ?P ((file_text rep h ms @ ''{'') @ encodeMutation rep (?m b)) ?d2"
  have "fs_appendFile (nodeFs env) p (encodeMutation rep (?m b)) ?d2 = (Inr (), ?d3)"
    using node_append_ok [OF wr2(2,1)] old_content_iff(1) [of ?d2 ?P] by (simp add: content_put)
  moreover obtain s where s: "applyMutation (?m b) (js_state st) = Inr s" "s_name s = b"
    by (simp add: applyMutation_def nextSequence_def)
  ultimately have two: "jsSetName rep (nodeFs env) b st ?d2 = (Inr (st\<lparr>js_state := s\<rparr>), ?d3)"
    by (simp add: jsSetName_def jsCommit_def jsAppendMutation_def jsApplyMutation_def assms(3) lift_w_def)
  have d3: "file_content ?d3 ?P = Some (file_text rep h ms @ (CHR ''{'' # line_of rep (?m b)) @ newline)"
    by (simp add: content_put encodeMutation_def line_of_def)
  have nd: "\<not> is_dir ?d2 ?P" using wr(2) by (simp add: is_dir_def put_file_def)
  have rdy3: "disk_ready env ?d3 p"
    using writable_put [OF nd wr2(1)] writable_put [OF nd writable_put [OF wr(2,3)]] nf wr(4)
    by (simp add: disk_ready_def) (simp add: put_file_def)
  have "line_of rep (?m b) = CHR ''{'' # tl (line_of rep (?m b))" by (simp add: line_of_def)
  then have bad: "json_parse (CHR ''{'' # line_of rep (?m b)) = None" by (metis brace_not_json)
  have "mutation_ok rep (?m b)" using assms(6) by simp
  from line_facts(1) [OF this] have "nl \<notin> set (CHR ''{'' # line_of rep (?m b))" by simp
  from load_bad_line [OF assms(1) d3 rdy3 _ this bad] obtain st4 d4 where "jsLoad rep (nodeFs env) p ?d3 = (Inr st4, d4)"
    "js_state st4 = js_state st" by auto
  with one two s(2) show ?thesis by (intro exI [of _ ?d2] exI [of _ ?d3]) (auto simp: getName_def)
qed

end
