(* ===== verification/JsonlRepo.thy ===== *)
theory JsonlRepo
  imports JsonlRecovery
begin

text \<open>
  The repository of JSONL sessions (\<open>packages/agent/src/harness/session/jsonl/repo.ts\<close>): names, lookup,
  create, open, list, delete and fork. \<open>now\<close> is \<open>Date.now()\<close>, \<open>uuid\<close> the identifier \<open>uuidv7\<close>
  generates, and a session is its storage. The lemmas show that a session file never leaves the directory of
  its working directory.
\<close>

section \<open>Names\<close>

definition alphanumeric :: "char \<Rightarrow> bool" where
  "alphanumeric c = (let n = of_char c in (65 \<le> n \<and> n \<le> 90) \<or> (97 \<le> n \<and> n \<le> 122) \<or> (48 \<le> n \<and> n \<le> (57::nat)))"

definition id_char :: "char \<Rightarrow> bool" where
  "id_char c = (alphanumeric c \<or> c \<in> {CHR ''.'', CHR ''_'', CHR ''-''})"

text \<open>\<open>/^[A-Za-z0-9](?:[A-Za-z0-9._-]*[A-Za-z0-9])?$/\<close>\<close>

definition SESSION_ID_PATTERN :: "string \<Rightarrow> bool" where
  "SESSION_ID_PATTERN i = (i \<noteq> [] \<and> alphanumeric (hd i) \<and> alphanumeric (last i) \<and> list_all id_char i)"

definition validateSessionId :: "string \<Rightarrow> session_error + unit" where
  "validateSessionId i = guard_r (SESSION_ID_PATTERN i) InvalidPayload"

definition jsonlSessionDirectoryName :: "string \<Rightarrow> string" where
  "jsonlSessionDirectoryName cwd =
     (let s = (case cwd of c # cs \<Rightarrow> if c = CHR ''/'' \<or> c = CHR 0x5C then cs else cwd | [] \<Rightarrow> []) in
      ''--'' @ map (\<lambda>c. if c = CHR ''/'' \<or> c = CHR 0x5C \<or> c = CHR '':'' then CHR ''-'' else c) s @ ''--'')"

text \<open>\<open>Date.prototype.toISOString\<close>: the civil date of a day number, and digits with leading zeros.\<close>

definition pad :: "nat \<Rightarrow> int \<Rightarrow> string" where
  "pad n i = (let s = show_nat (nat i) in replicate (n - length s) CHR ''0'' @ s)"

definition civil_date :: "int \<Rightarrow> int \<times> int \<times> int" where
  "civil_date days =
     (let z = days + 719468; era = z div 146097; doe = z mod 146097;
          yoe = (doe - doe div 1460 + doe div 36524 - doe div 146096) div 365;
          doy = doe - (365 * yoe + yoe div 4 - yoe div 100); mp = (5 * doy + 2) div 153;
          day = doy - (153 * mp + 2) div 5 + 1; month = (if mp < 10 then mp + 3 else mp - 9) in
      (yoe + era * 400 + (if month \<le> 2 then 1 else 0), month, day))"

definition toISOString :: "int \<Rightarrow> string" where
  "toISOString ms =
     (case civil_date (ms div 86400000) of (y, m, d) \<Rightarrow>
        let t = ms mod 86400000 in
        (if 0 \<le> y \<and> y \<le> 9999 then pad 4 y else (if y < 0 then ''-'' else ''+'') @ pad 6 \<bar>y\<bar>)
        @ ''-'' @ pad 2 m @ ''-'' @ pad 2 d @ ''T'' @ pad 2 (t div 3600000) @ '':'' @ pad 2 (t div 60000 mod 60) @ '':''
        @ pad 2 (t div 1000 mod 60) @ ''.'' @ pad 3 (t mod 1000) @ ''Z'')"

definition sessionFileName :: "int \<Rightarrow> string \<Rightarrow> string" where
  "sessionFileName createdAt i =
     map (\<lambda>c. if c = CHR '':'' \<or> c = CHR ''.'' then CHR ''-'' else c) (toISOString createdAt) @ ''_'' @ i @ ''.jsonl''"

definition ends_with :: "string \<Rightarrow> string \<Rightarrow> bool" where
  "ends_with w s = starts_with (rev w) (rev s)"

section \<open>Directories\<close>

definition jsonlSessionsRoot :: "'w fs_ops \<Rightarrow> string \<Rightarrow> 'w \<Rightarrow> (session_error + string) \<times> 'w" where
  "jsonlSessionsRoot fs sessionsRoot w = fileResult (fs_absolutePath fs sessionsRoot w)"

definition jsonlSessionDirectory :: "'w fs_ops \<Rightarrow> string \<Rightarrow> string \<Rightarrow> 'w \<Rightarrow> (session_error + string) \<times> 'w" where
  "jsonlSessionDirectory fs sessionsRoot cwd w = fileResult (fs_joinPath fs [sessionsRoot, jsonlSessionDirectoryName cwd] w)"

definition jsonlSessionDirectories :: "'w fs_ops \<Rightarrow> string \<Rightarrow> string option \<Rightarrow> 'w \<Rightarrow> (session_error + string list) \<times> 'w" where
  "jsonlSessionDirectories fs sessionsRoot cwd w =
     wbind (jsonlSessionsRoot fs sessionsRoot w) (\<lambda>sessionsRoot w.
       case cwd of
         Some cwd \<Rightarrow>
           wbind (fileResult (fs_absolutePath fs cwd w)) (\<lambda>resolvedCwd w.
           wbind (jsonlSessionDirectory fs sessionsRoot resolvedCwd w) (\<lambda>directory w.
           wbind (fileResult (fs_exists fs directory w)) (\<lambda>there w.
           (Inr (if there then [directory] else []), w))))
       | None \<Rightarrow>
           wbind (fileResult (fs_exists fs sessionsRoot w)) (\<lambda>there w.
             if \<not> there then (Inr [], w)
             else wbind (fileResult (fs_listDir fs sessionsRoot w)) (\<lambda>entries w.
               (Inr (map fi_path (filter (\<lambda>e. fi_kind e = DirectoryKind) entries)), w))))"

section \<open>Listing and loading\<close>

fun listFiles :: "'w fs_ops \<Rightarrow> file_info list \<Rightarrow> jsonl_metadata list \<Rightarrow> 'w \<Rightarrow> (session_error + jsonl_metadata list) \<times> 'w" where
  "listFiles fs [] metadata w = (Inr metadata, w)"
| "listFiles fs (file # files) metadata w =
     wbind (fileResult (fs_readTextLines fs (fi_path file) (Some 1) w)) (\<lambda>lines w.
       case lines of
         [] \<Rightarrow> listFiles fs files metadata w
       | firstLine # _ \<Rightarrow>
           if firstLine = [] then listFiles fs files metadata w
           else case parseHeader firstLine of
             Inl _ \<Rightarrow> listFiles fs files metadata w
           | Inr header \<Rightarrow>
               listFiles fs files (metadata @ [metadataFromHeader header (fi_path file) (fi_mtimeMs file)]) w)"

fun listDirectories :: "'w fs_ops \<Rightarrow> string list \<Rightarrow> jsonl_metadata list \<Rightarrow> 'w \<Rightarrow> (session_error + jsonl_metadata list) \<times> 'w" where
  "listDirectories fs [] metadata w = (Inr metadata, w)"
| "listDirectories fs (directory # directories) metadata w =
     wbind (fileResult (fs_listDir fs directory w)) (\<lambda>entries w.
     wbind (listFiles fs (filter (\<lambda>e. fi_kind e \<noteq> DirectoryKind \<and> ends_with ''.jsonl'' (fi_name e)) entries) metadata w) (\<lambda>metadata w.
     listDirectories fs directories metadata w))"

text \<open>The newest file first; modification times are finite doubles, compared as multiples of \<open>2 ^ -1074\<close>.\<close>

definition listJsonlSessionMetadata :: "'w fs_ops \<Rightarrow> string \<Rightarrow> string option \<Rightarrow> 'w \<Rightarrow> (session_error + jsonl_metadata list) \<times> 'w" where
  "listJsonlSessionMetadata fs sessionsRoot cwd w =
     wbind (jsonlSessionDirectories fs sessionsRoot cwd w) (\<lambda>directories w.
     wbind (listDirectories fs directories [] w) (\<lambda>metadata w.
     (Inr (sort_key (\<lambda>m. - num_units (jm_modifiedAt m)) metadata), w)))"

definition loadJsonlSessionStorage :: "payload_rep \<Rightarrow> 'w fs_ops \<Rightarrow> jsonl_metadata \<Rightarrow> 'w
    \<Rightarrow> (session_error + jsonl_storage) \<times> 'w" where
  "loadJsonlSessionStorage rep fs metadata w =
     wbind (fileResult (fs_exists fs (jm_path metadata) w)) (\<lambda>there w.
       if \<not> there then (Inl NotFound, w)
       else wbind (jsLoad rep fs (jm_path metadata) w) (\<lambda>storage w.
         if jm_id (jsGetMetadata storage) \<noteq> jm_id metadata then (Inl InvalidEntry, w) else (Inr storage, w)))"

section \<open>\<open>JsonlSessionRepo\<close>\<close>

record jsonl_create_options =
  co_id :: "string option"
  co_parentSessionId :: "string option"
  co_cwd :: string
  co_metadata :: "properties option"

record jsonl_repo =
  jrp_sessionsRootInput :: string
  jrp_activeCreateDestinations :: "(string \<times> string) set"

definition repo_sessionDirectory :: "'w fs_ops \<Rightarrow> jsonl_repo \<Rightarrow> string \<Rightarrow> 'w \<Rightarrow> (session_error + string) \<times> 'w" where
  "repo_sessionDirectory fs repo cwd w =
     wbind (jsonlSessionsRoot fs (jrp_sessionsRootInput repo) w) (\<lambda>root w. jsonlSessionDirectory fs root cwd w)"

definition sessionIdExists :: "'w fs_ops \<Rightarrow> jsonl_repo \<Rightarrow> string \<Rightarrow> string \<Rightarrow> 'w \<Rightarrow> (session_error + bool) \<times> 'w" where
  "sessionIdExists fs repo i cwd w =
     wbind (repo_sessionDirectory fs repo cwd w) (\<lambda>directory w.
     wbind (fileResult (fs_exists fs directory w)) (\<lambda>there w.
       if \<not> there then (Inr False, w)
       else wbind (fileResult (fs_listDir fs directory w)) (\<lambda>files w.
         (Inr (list_ex (\<lambda>e. fi_kind e \<noteq> DirectoryKind \<and> ends_with (''_'' @ i @ ''.jsonl'') (fi_name e)) files), w))))"

definition resolveCreateDestination :: "'w fs_ops \<Rightarrow> string \<Rightarrow> jsonl_create_options \<Rightarrow> 'w
    \<Rightarrow> (session_error + string \<times> string) \<times> 'w" where
  "resolveCreateDestination fs uuid options w =
     (let i = (case co_id options of Some i \<Rightarrow> i | None \<Rightarrow> uuid) in
      wbind (lift_w (validateSessionId i) w) (\<lambda>_ w.
      wbind (fileResult (fs_absolutePath fs (co_cwd options) w)) (\<lambda>cwd w. (Inr (i, cwd), w))))"

definition prepareCreate :: "'w fs_ops \<Rightarrow> jsonl_repo \<Rightarrow> int \<Rightarrow> string \<times> string \<Rightarrow> jsonl_create_options \<Rightarrow> 'w
    \<Rightarrow> (session_error + jsonl_header \<times> string) \<times> 'w" where
  "prepareCreate fs repo now destination options w =
     (case destination of (i, cwd) \<Rightarrow>
      wbind (sessionIdExists fs repo i cwd w) (\<lambda>taken w.
        if taken then (Inl AlreadyExists, w)
        else wbind (repo_sessionDirectory fs repo cwd w) (\<lambda>sessionDirectory w.
        wbind (fileResult (fs_joinPath fs [sessionDirectory, sessionFileName now i] w)) (\<lambda>path w.
        let header = \<lparr>h_id = i, h_createdAt = now, h_cwd = cwd, h_parentSessionId = co_parentSessionId options,
                      h_legacyParentSessionPath = None, h_metadata = co_metadata options\<rparr> in
        wbind (fileResult (fs_createDir fs sessionDirectory True w)) (\<lambda>_ w. (Inr (header, path), w))))))"

text \<open>The claim of a destination is held while the operation runs and given up whatever it returns.\<close>

definition claimCreateDestination :: "jsonl_repo \<Rightarrow> string \<times> string \<Rightarrow> (jsonl_repo \<Rightarrow> 'w \<Rightarrow> (session_error + 'a) \<times> 'w) \<Rightarrow> 'w
    \<Rightarrow> (session_error + 'a) \<times> jsonl_repo \<times> 'w" where
  "claimCreateDestination repo destination operation w =
     (let key = (snd destination, fst destination) in
      if key \<in> jrp_activeCreateDestinations repo then (Inl AlreadyExists, repo, w)
      else let claimed = repo\<lparr>jrp_activeCreateDestinations := insert key (jrp_activeCreateDestinations repo)\<rparr> in
        case operation claimed w of (r, w) \<Rightarrow>
          (r, claimed\<lparr>jrp_activeCreateDestinations := jrp_activeCreateDestinations claimed - {key}\<rparr>, w))"

definition jrepo_create :: "'w fs_ops \<Rightarrow> string \<Rightarrow> int \<Rightarrow> jsonl_create_options \<Rightarrow> jsonl_repo \<Rightarrow> 'w
    \<Rightarrow> (session_error + jsonl_storage) \<times> jsonl_repo \<times> 'w" where
  "jrepo_create fs uuid now options repo w =
     (case resolveCreateDestination fs uuid options w of
        (Inl e, w) \<Rightarrow> (Inl e, repo, w)
      | (Inr destination, w) \<Rightarrow>
          claimCreateDestination repo destination (\<lambda>repo w.
            wbind (prepareCreate fs repo now destination options w) (\<lambda>(header, path) w.
            jsCreate fs path header w)) w)"

definition jrepo_open :: "payload_rep \<Rightarrow> 'w fs_ops \<Rightarrow> jsonl_metadata \<Rightarrow> 'w \<Rightarrow> (session_error + jsonl_storage) \<times> 'w" where
  "jrepo_open rep fs metadata w = loadJsonlSessionStorage rep fs metadata w"

definition jrepo_list :: "'w fs_ops \<Rightarrow> string option \<Rightarrow> jsonl_repo \<Rightarrow> 'w \<Rightarrow> (session_error + jsonl_metadata list) \<times> 'w" where
  "jrepo_list fs cwd repo w = listJsonlSessionMetadata fs (jrp_sessionsRootInput repo) cwd w"

definition jrepo_delete :: "'w fs_ops \<Rightarrow> jsonl_metadata \<Rightarrow> 'w \<Rightarrow> (session_error + unit) \<times> 'w" where
  "jrepo_delete fs metadata w = fileResult (fs_remove fs (jm_path metadata) False True w)"

definition jrepo_fork :: "payload_rep \<Rightarrow> 'w fs_ops \<Rightarrow> string \<Rightarrow> int \<Rightarrow> jsonl_metadata \<Rightarrow> fork_options \<Rightarrow> jsonl_create_options
    \<Rightarrow> jsonl_repo \<Rightarrow> 'w \<Rightarrow> (session_error + jsonl_storage) \<times> jsonl_repo \<times> 'w" where
  "jrepo_fork rep fs uuid now source forkOptions options repo w =
     (case loadJsonlSessionStorage rep fs source w of
        (Inl e, w) \<Rightarrow> (Inl e, repo, w)
      | (Inr sourceStorage, w) \<Rightarrow>
          let createOptions = options\<lparr>co_parentSessionId :=
                Some (case co_parentSessionId options of Some p \<Rightarrow> p | None \<Rightarrow> jm_id source)\<rparr> in
          (case resolveCreateDestination fs uuid createOptions w of
             (Inl e, w) \<Rightarrow> (Inl e, repo, w)
           | (Inr destination, w) \<Rightarrow>
               claimCreateDestination repo destination (\<lambda>repo w.
                 wbind (prepareCreate fs repo now destination createOptions w) (\<lambda>(header, path) w.
                 jsFork rep fs path header forkOptions sourceStorage w)) w))"

section \<open>Where session files are\<close>

text \<open>A segment that names a child: not empty, not a dot segment, without slash.\<close>

definition child_name :: "string \<Rightarrow> bool" where
  "child_name s = (s \<noteq> [] \<and> s \<noteq> ''.'' \<and> s \<noteq> ''..'' \<and> CHR ''/'' \<notin> set s)"

lemma split_on_append: "split_on c (s @ c # r) = split_on c s @ split_on c r"
proof (induction s)
  case (Cons a s)
  then show ?case using split_on_ne [of c s] by auto
qed simp

lemma norm_child:
  "\<forall>x \<in> set xs. CHR ''/'' \<notin> set x \<Longrightarrow> list_all child_name acc \<Longrightarrow> list_all child_name (norm_segments True acc xs)"
proof (induction True acc xs rule: norm_segments.induct)
  case (2 acc x xs)
  then show ?case by (auto simp: child_name_def split: list.split)
qed (simp add: list.pred_set)

lemma segments_children: "isAbsolute p \<Longrightarrow> list_all child_name (segments p)"
  unfolding segments_def by (simp only:, rule norm_child) (auto dest: split_on_parts)

lemma norm_children: "list_all child_name xs \<Longrightarrow> norm_segments True acc (xs @ ys) = norm_segments True (rev xs @ acc) ys"
  by (induction xs arbitrary: acc) (auto simp: child_name_def)

lemma split_join: "list_all child_name xs \<Longrightarrow> xs \<noteq> [] \<Longrightarrow> split_on (CHR ''/'') (join ''/'' xs) = xs"
proof (induction xs rule: induct_list012)
  case (2 x) then show ?case by (simp add: child_name_def split_on_last)
next
  case (3 x y xs) then show ?case by (simp add: child_name_def split_on_line)
qed simp

lemma segments_rooted: "list_all child_name xs \<Longrightarrow> segments (rooted xs) = xs"
  using split_join [of xs] norm_children [of xs "[]" "[]"] by (cases "xs = []") (auto simp: segments_def rooted_def isAbsolute_def)

lemma path_join_child:
  assumes "list_all child_name xs" "child_name n"
  shows "path_join [rooted xs, n] = rooted (xs @ [n])"
proof -
  let ?p = "rooted xs @ ''/'' @ n"
  have "split_on (CHR ''/'') ?p = [] # split_on (CHR ''/'') (join ''/'' xs) @ [n]"
    using assms(2) by (simp add: rooted_def split_on_append split_on_last child_name_def)
  moreover have "norm_segments True [] (split_on (CHR ''/'') (join ''/'' xs) @ [n]) = xs @ [n]"
  proof (cases "xs = []")
    case True then show ?thesis using assms(2) by (simp add: child_name_def)
  next
    case False
    then show ?thesis using split_join [OF assms(1)] norm_children [OF assms(1), of "[]" "[n]"] assms(2) by (simp add: child_name_def)
  qed
  ultimately have s: "segments ?p = xs @ [n]" by (simp add: segments_def rooted_def isAbsolute_def)
  have "last n \<noteq> CHR ''/''" using assms(2) last_in_set [of n] by (metis child_name_def)
  then have l: "last ?p \<noteq> CHR ''/''" using assms(2) by (simp add: child_name_def)
  have "path_normalize ?p = rooted (xs @ [n])"
    using l unfolding path_normalize_def s Let_def by (simp add: rooted_def isAbsolute_def)
  then show ?thesis using assms(2) by (simp add: path_join_def rooted_def child_name_def)
qed

lemma resolved_path: "\<exists>xs. resolvePath env p = rooted xs \<and> list_all child_name xs"
proof -
  have "\<exists>xs. path_resolve c a b = rooted xs \<and> list_all child_name xs" for c a b
  proof -
    let ?p = "if isAbsolute b then b else if isAbsolute a then a @ ''/'' @ b else CHR ''/'' # c @ ''/'' @ a @ ''/'' @ b"
    have "isAbsolute ?p" by (auto simp: isAbsolute_def)
    then have "list_all child_name (segments ?p)" by (rule segments_children)
    then show ?thesis by (auto simp: path_resolve_def)
  qed
  then show ?thesis unfolding resolvePath_def Let_def by (simp split: if_split)
qed

lemma directory_child: "child_name (jsonlSessionDirectoryName cwd)"
  by (auto simp: child_name_def jsonlSessionDirectoryName_def Let_def)

lemma pad_chars: "c \<in> set (pad n i) \<Longrightarrow> c \<noteq> CHR ''/''"
  using show_nat_digits(1) [of "nat i"] by (auto simp: pad_def Let_def list.pred_set is_digit_def)

lemma iso_chars: "CHR ''/'' \<notin> set (toISOString ms)"
  by (auto simp: toISOString_def Let_def dest: pad_chars split: prod.splits if_splits)

lemma id_no_slash: "SESSION_ID_PATTERN i \<Longrightarrow> CHR ''/'' \<notin> set i"
  by (auto simp: SESSION_ID_PATTERN_def list.pred_set id_char_def alphanumeric_def Let_def)

lemma file_name_child: "SESSION_ID_PATTERN i \<Longrightarrow> child_name (sessionFileName now i)"
proof -
  assume i: "SESSION_ID_PATTERN i"
  have "CHR ''/'' \<notin> set (sessionFileName now i)"
    using iso_chars [of now] id_no_slash [OF i] by (auto simp: sessionFileName_def)
  moreover have "length (sessionFileName now i) > 2" by (simp add: sessionFileName_def)
  ultimately show ?thesis by (auto simp: child_name_def)
qed

lemma prepareCreate_path:
  assumes "prepareCreate (nodeFs env) repo now (i, cwd) options d = (Inr (h, p), d')" "validateSessionId i = Inr ()"
  shows "segments p = segments (resolvePath env (jrp_sessionsRootInput repo)) @ [jsonlSessionDirectoryName cwd, sessionFileName now i]"
    "isAbsolute p"
proof -
  obtain xs where xs: "resolvePath env (jrp_sessionsRootInput repo) = rooted xs" "list_all child_name xs" using resolved_path by blast
  have f: "child_name (sessionFileName now i)" using file_name_child assms(2) by (simp add: validateSessionId_def)
  from assms(1) have "p = path_join [path_join [rooted xs, jsonlSessionDirectoryName cwd], sessionFileName now i]"
    by (auto simp: prepareCreate_def wbind_Inr repo_sessionDirectory_def jsonlSessionsRoot_def jsonlSessionDirectory_def
        nodeFs_def xs(1) Let_def split: if_splits)
  also have "\<dots> = rooted ((xs @ [jsonlSessionDirectoryName cwd]) @ [sessionFileName now i])"
    using path_join_child [OF xs(2) directory_child] path_join_child [OF _ f] xs(2) directory_child by simp
  finally have p: "p = rooted (xs @ [jsonlSessionDirectoryName cwd, sessionFileName now i])" by simp
  then show "isAbsolute p" by (simp add: isAbsolute_def rooted_def)
  have "list_all child_name (xs @ [jsonlSessionDirectoryName cwd, sessionFileName now i])" using xs(2) directory_child f by simp
  from segments_rooted [OF this] p xs segments_rooted [OF xs(2)] show "segments p = segments (resolvePath env (jrp_sessionsRootInput repo))
      @ [jsonlSessionDirectoryName cwd, sessionFileName now i]" by simp
qed

text \<open>A claim is always given up.\<close>

lemma claim_released:
  "claimCreateDestination repo destination operation w = (r, repo', w') \<Longrightarrow> repo' = repo"
  by (auto simp: claimCreateDestination_def Let_def split: if_splits prod.splits)

text \<open>On an empty disk a session can be created.\<close>

lemma rooted_inject: "list_all child_name xs \<Longrightarrow> list_all child_name ys \<Longrightarrow> rooted xs = rooted ys \<longleftrightarrow> xs = ys"
  using segments_rooted by metis

lemma path_resolve_rooted: "list_all child_name xs \<Longrightarrow> path_resolve c a (rooted xs) = rooted xs"
  using segments_rooted by (simp add: path_resolve_def isAbsolute_def rooted_def)

lemma resolvePath_rooted: "list_all child_name xs \<Longrightarrow> resolvePath env (rooted xs) = rooted xs"
proof -
  assume xs: "list_all child_name xs"
  have "path_resolve c (rooted xs) [] = rooted xs" for c
  proof -
    have "split_on (CHR ''/'') (rooted xs @ ''/'') = [] # split_on (CHR ''/'') (join ''/'' xs) @ [[]]"
      by (simp add: rooted_def split_on_append)
    moreover have "norm_segments True [] (split_on (CHR ''/'') (join ''/'' xs) @ [[]]) = xs"
      using split_join [OF xs] norm_children [OF xs, of "[]" "[[]]"] by (cases "xs = []") auto
    ultimately show ?thesis by (simp add: path_resolve_def isAbsolute_def rooted_def segments_def)
  qed
  then show ?thesis by (simp add: resolvePath_def starts_with_def rooted_def isAbsolute_def)
qed

lemma path_resolve_parent:
  assumes "list_all child_name (xs @ [n])"
  shows "path_resolve c (rooted (xs @ [n])) ''..'' = rooted xs" "parent_path (rooted (xs @ [n])) = rooted xs"
proof -
  have "split_on (CHR ''/'') (rooted (xs @ [n]) @ ''/..'') = [] # split_on (CHR ''/'') (join ''/'' (xs @ [n])) @ [''..'']"
    by (simp add: rooted_def split_on_append)
  moreover have "norm_segments True [] (split_on (CHR ''/'') (join ''/'' (xs @ [n])) @ [''..'']) = xs"
    using split_join [OF assms] norm_children [OF assms, of "[]" "[''..'']"] assms by (simp add: child_name_def)
  ultimately show "path_resolve c (rooted (xs @ [n])) ''..'' = rooted xs"
    by (simp add: path_resolve_def isAbsolute_def rooted_def segments_def)
  show "parent_path (rooted (xs @ [n])) = rooted xs" using segments_rooted [OF assms] by (simp add: parent_path_def)
qed

definition empty_disk :: disk where
  "empty_disk = \<lparr>d_files = [], d_dirs = [], d_faults = [], d_now = 0\<rparr>"

definition root_repo :: jsonl_repo where
  "root_repo = \<lparr>jrp_sessionsRootInput = ''/'', jrp_activeCreateDestinations = {}\<rparr>"

definition plain_options :: "string \<Rightarrow> jsonl_create_options" where
  "plain_options i = \<lparr>co_id = Some i, co_parentSessionId = None, co_cwd = ''/'', co_metadata = None\<rparr>"

lemma create_on_empty_disk:
  assumes "SESSION_ID_PATTERN i"
  shows "\<exists>st d'. jrepo_create (nodeFs env) uuid now (plain_options i) root_repo empty_disk = (Inr st, root_repo, d') \<and> jm_id (js_metadata st) = i"
proof -
  let ?dir = "jsonlSessionDirectoryName ''/''" and ?n = "sessionFileName now i"
  let ?p = "rooted [?dir, ?n]" and ?fs = "nodeFs env"
  have c: "child_name ?dir" "child_name ?n" using directory_child file_name_child [OF assms] by blast+
  have root: "resolvePath env ''/'' = ''/''" using resolvePath_rooted [of "[]" env] by (simp add: rooted_def)
  have join: "path_join [''/'', ?dir] = rooted [?dir]" "path_join [rooted [?dir], ?n] = ?p"
    using path_join_child [of "[]" ?dir] path_join_child [of "[?dir]" ?n] c by (simp_all add: rooted_def)
  have res: "resolvePath env (rooted [?dir]) = rooted [?dir]" "resolvePath env ?p = ?p" using resolvePath_rooted c by simp_all
  have anc: "with_ancestors (rooted [?dir]) = [rooted [?dir]]" using segments_rooted [of "[?dir]"] c by (simp add: with_ancestors_def)
  have par: "path_resolve (ne_process_cwd env) ?p ''..'' = rooted [?dir]" "parent_path ?p = rooted [?dir]"
    using path_resolve_parent [of "[?dir]" ?n] c by simp_all
  have ne: "rooted [?dir] \<noteq> ''/''" "?p \<noteq> ''/''" "?p \<noteq> rooted [?dir]"
    using rooted_inject [of "[?dir]" "[]"] rooted_inject [of "[?dir, ?n]" "[]"] rooted_inject [of "[?dir, ?n]" "[?dir]"] c
    by (simp_all add: rooted_def)
  let ?d1 = "empty_disk\<lparr>d_dirs := [rooted [?dir]]\<rparr>"
  have absent: "fs_exists ?fs (rooted [?dir]) empty_disk = (Inr False, empty_disk)"
    using ne by (simp add: nodeFs_def node_exists_def node_fileInfo_def res sys_try_def sys_lstat_def inspect_def next_fault_def
        empty_disk_def is_dir_def missing_def anc toFileError_def Let_def)
  have created: "fs_createDir ?fs (rooted [?dir]) True empty_disk = (Inr (), ?d1)"
    using ne by (simp add: nodeFs_def node_createDir_def res sys_try_def sys_mkdir_def next_fault_def empty_disk_def is_dir_def
        is_file_def anc return_ok_def)
  have w: "writable env ?d1 ?p"
    using ne by (simp add: writable_def res par Let_def anc is_dir_def is_file_def empty_disk_def)
  have nf: "d_faults ?d1 = []" by (simp add: empty_disk_def)
  let ?h = "\<lparr>h_id = i, h_createdAt = now, h_cwd = ''/'', h_parentSessionId = None, h_legacyParentSessionPath = None, h_metadata = None\<rparr>"
  have f: "d_faults (put_file ?p (encodeHeader ?h) ?d1) = []" "file_content (put_file ?p (encodeHeader ?h) ?d1) (resolvePath env ?p) = Some (encodeHeader ?h)"
    using nf by (simp_all add: put_file_def file_content_def res)
  obtain inf where inf: "fs_fileInfo ?fs ?p (put_file ?p (encodeHeader ?h) ?d1) = (Inr inf, put_file ?p (encodeHeader ?h) ?d1)"
    using node_info_ok [OF f] ..
  have pure: "fs_absolutePath ?fs ''/'' x = (Inr ''/'', x)" "fs_joinPath ?fs ps x = (Inr (path_join ps), x)" for x ps
    by (simp_all add: nodeFs_def root)
  show ?thesis
    using assms node_write_ok [OF nf w, of "encodeHeader ?h"] inf
    by (simp add: jrepo_create_def resolveCreateDestination_def plain_options_def validateSessionId_def pure lift_w_def
        claimCreateDestination_def root_repo_def prepareCreate_def sessionIdExists_def repo_sessionDirectory_def
        jsonlSessionsRoot_def jsonlSessionDirectory_def join absent created jsCreate_def res Let_def
        newJsonlStorage_def metadataFromHeader_def)
qed

end
