(* ===== verification/JsonlTheorems.thy ===== *)
theory JsonlTheorems
  imports JsonlRepo
begin

text \<open>
  The properties of the JSONL storage and codec, and a small session on a small disk at which they apply.
\<close>

section \<open>A small session\<close>

definition demo_rep :: payload_rep where
  "demo_rep = \<lparr>
     er_fields = (\<lambda>d. case d of ThinkingLevelEntry l \<Rightarrow> [(''thinkingLevel'', JsonString l)] | _ \<Rightarrow> []),
     er_data = (\<lambda>ps. ThinkingLevelEntry (case map_get ps ''thinkingLevel'' of Some (JsonString l) \<Rightarrow> l | _ \<Rightarrow> [])),
     rr_fields = (\<lambda>d. case d of AbortRequested r \<Rightarrow> [(''runId'', JsonString r)] | _ \<Rightarrow> []),
     rr_data = (\<lambda>ps. AbortRequested (case map_get ps ''runId'' of Some (JsonString r) \<Rightarrow> r | _ \<Rightarrow> []))\<rparr>"

definition demo_env :: node_env where
  "demo_env = \<lparr>ne_cwd = ''/w'', ne_process_cwd = ''/'', ne_homedir = ''/h'', ne_fileURLToPath = (\<lambda>_. None)\<rparr>"

definition demo_path :: string where "demo_path = ''/s/a''"

definition demo_header :: jsonl_header where
  "demo_header = \<lparr>h_id = ''a'', h_createdAt = 5, h_cwd = ''/w'', h_parentSessionId = None, h_legacyParentSessionPath = None,
     h_metadata = None\<rparr>"

definition demo_disk :: disk where
  "demo_disk = \<lparr>d_files = [(demo_path, (encodeHeader demo_header, 0))], d_dirs = [''/s''], d_faults = [], d_now = 0\<rparr>"

definition demo_storage :: jsonl_storage where
  "demo_storage = newJsonlStorage (metadataFromHeader demo_header demo_path 0)"

lemma demo_resolve [simp]: "resolvePath demo_env demo_path = demo_path" "resolvePath demo_env (demo_path @ ''.tmp'') = ''/s/a.tmp''"
  "resolvePath demo_env ''/s/b'' = ''/s/b''" "resolvePath demo_env ''/s/b.tmp'' = ''/s/b.tmp''"
  by (simp_all add: resolvePath_def demo_env_def demo_path_def starts_with_def isAbsolute_def path_resolve_def rooted_def segments_def)

lemma demo_header_ok: "header_ok demo_header"
  by (simp add: header_ok_def demo_header_def time_ok_def max_safe_def)

lemmas path_defs = rooted_def segments_def isAbsolute_def

lemma demo_parents [simp]:
  "parent_path demo_path = ''/s''" "parent_path ''/s/a.tmp'' = ''/s''" "parent_path ''/s/b'' = ''/s''"
  "parent_path ''/s/b.tmp'' = ''/s''" "path_resolve (ne_process_cwd demo_env) demo_path ''..'' = ''/s''"
  "path_resolve (ne_process_cwd demo_env) ''/s/a.tmp'' ''..'' = ''/s''"
  "path_resolve (ne_process_cwd demo_env) ''/s/b'' ''..'' = ''/s''"
  "path_resolve (ne_process_cwd demo_env) ''/s/b.tmp'' ''..'' = ''/s''" "with_ancestors ''/s'' = [''/s'']"
  by (simp_all add: parent_path_def path_resolve_def path_defs demo_path_def demo_env_def with_ancestors_def)

text \<open>A disk with the directory \<open>/s\<close> and files that are not above it.\<close>

lemma demo_writable:
  assumes "d_dirs d = [''/s'']" "\<not> is_file d ''/s''"
  shows "writable demo_env d demo_path" "writable demo_env d (demo_path @ ''.tmp'')"
    "writable demo_env d ''/s/b''" "writable demo_env d ''/s/b.tmp''"
  using assms unfolding writable_def demo_resolve Let_def demo_parents by (simp_all add: is_dir_def demo_path_def)

lemma demo_ready: "disk_ready demo_env demo_disk demo_path"
proof -
  have "\<not> is_file demo_disk ''/s''" "d_dirs demo_disk = [''/s'']" "d_faults demo_disk = []" "demo_path \<noteq> ''/s/a.tmp''"
    by (simp_all add: demo_disk_def is_file_def map_has_def demo_path_def)
  then show ?thesis using demo_writable unfolding disk_ready_def demo_resolve by simp
qed

lemma demo_content: "file_content demo_disk demo_path = Some (encodeHeader demo_header)"
  by (simp add: file_content_def demo_disk_def)

lemma demo_run: "jsonl_run demo_rep demo_env demo_header demo_path demo_storage demo_disk"
proof -
  let ?d = "demo_disk\<lparr>d_files := [], d_faults := []\<rparr>"
  have w: "writable demo_env ?d demo_path"
    by (rule demo_writable) (simp_all add: demo_disk_def is_file_def map_has_def)
  have "fs_writeFile (nodeFs demo_env) demo_path (encodeHeader demo_header) ?d = (Inr (), demo_disk)"
    using node_write_ok [OF _ w] by (simp add: put_file_def demo_disk_def)
  moreover have "fs_fileInfo (nodeFs demo_env) demo_path demo_disk = (Inr (fileInfoFromStats demo_path (FileKind,
      length (encodeHeader demo_header) + length (filter (\<lambda>x. of_char x \<ge> (128::nat)) (encodeHeader demo_header)), 0)), demo_disk)"
    by (simp add: nodeFs_def node_fileInfo_def sys_try_def sys_lstat_def inspect_def next_fault_def demo_disk_def return_ok_def Let_def)
  ultimately have "jsCreate (nodeFs demo_env) demo_path demo_header ?d = (Inr demo_storage, demo_disk)"
    by (simp add: jsCreate_def demo_storage_def fileInfoFromStats_def)
  with demo_header_ok show ?thesis by (rule jr_create)
qed

section \<open>Properties\<close>

text \<open>
  C9. Through every history of a session file, with reloads and failures that write nothing, the storage is
  one the in-memory storage reaches, and the file is the header and one line per mutation that rebuilds it.
\<close>

theorem jsonl_refines_memory:
  assumes "jsonl_run rep env h p st d"
  shows "storage_reachable (as_memory st)
    \<and> (\<exists>ms. applyMutations ms initState = Inr (js_state st)
        \<and> file_content d (resolvePath env p) = Some (encodeHeader h @ concat (map (encodeMutation rep) ms)))"
  using jsonl_run_logged [OF assms] by (auto simp: logged_def stored_def file_text_def)

theorem jsonl_refines_memory_witness:
  "storage_reachable (as_memory demo_storage)
    \<and> (\<exists>ms. applyMutations ms initState = Inr (js_state demo_storage)
        \<and> file_content demo_disk demo_path = Some (encodeHeader demo_header @ concat (map (encodeMutation demo_rep) ms)))"
  using jsonl_refines_memory [OF demo_run] by simp

text \<open>
  C10. Loading the file of a session on a disk without faults succeeds, changes nothing on the disk and
  rebuilds the state of the storage that wrote it.
\<close>

theorem jsonl_reload:
  assumes "jsonl_run rep env h p st d" "d_faults d = []"
  shows "\<exists>st'. jsLoad rep (nodeFs env) p d = (Inr st', d) \<and> js_state st' = js_state st"
proof -
  from jsonl_run_logged [OF assms(1)] obtain ms where "stored rep h ms (js_state st)"
    "file_content d (resolvePath env p) = Some (file_text rep h ms)" by (auto simp: logged_def)
  from load_complete [OF this assms(2)] show ?thesis .
qed

theorem jsonl_reload_witness:
  "\<exists>st'. jsLoad demo_rep (nodeFs demo_env) demo_path demo_disk = (Inr st', demo_disk) \<and> js_state st' = js_state demo_storage"
  by (rule jsonl_reload [OF demo_run]) (simp add: demo_disk_def)

text \<open>
  C11. A crash that cuts an append after any number of characters costs at most that mutation: the next load
  repairs the file and has the state before it, or with it when only the line feed is missing.
\<close>

theorem torn_append_recovered:
  assumes "jsonl_run rep env h p st d" "file_content d (resolvePath env p) = Some c"
    and "mutation_ok rep m" "applyMutation m (js_state st) = Inr s"
    and "file_content d1 (resolvePath env p) = Some (c @ take k (encodeMutation rep m))" "disk_ready env d1 p"
  shows "\<exists>st' d2. jsLoad rep (nodeFs env) p d1 = (Inr st', d2) \<and>
    (if Suc k < length (encodeMutation rep m)
     then js_state st' = js_state st \<and> file_content d2 (resolvePath env p) = Some c
     else js_state st' = s \<and> file_content d2 (resolvePath env p) = Some (c @ encodeMutation rep m))"
proof -
  from jsonl_run_logged [OF assms(1)] obtain ms where ms: "stored rep h ms (js_state st)"
    "file_content d (resolvePath env p) = Some (file_text rep h ms)" by (auto simp: logged_def)
  with assms(2) have "c = file_text rep h ms" by simp
  with load_cut [OF ms(1) _ assms(6,3,4), of k] assms(5) show ?thesis unfolding file_text_snoc by blast
qed

theorem torn_append_recovered_witness:
  "\<exists>st' d2. jsLoad demo_rep (nodeFs demo_env) demo_path
      (put_file demo_path (encodeHeader demo_header @ take 7 (encodeMutation demo_rep (MutName 1 (Some ''x'')))) demo_disk) = (Inr st', d2)
    \<and> (if Suc 7 < length (encodeMutation demo_rep (MutName 1 (Some ''x'')))
       then js_state st' = js_state demo_storage \<and> file_content d2 demo_path = Some (encodeHeader demo_header)
       else js_state st' = initState\<lparr>s_sequence := 1, s_name := Some ''x'', s_log := [LogName 1 (Some ''x'')]\<rparr>
         \<and> file_content d2 demo_path = Some (encodeHeader demo_header @ encodeMutation demo_rep (MutName 1 (Some ''x''))))"
proof -
  let ?m = "MutName 1 (Some ''x'')"
  let ?d = "put_file demo_path (encodeHeader demo_header @ take 7 (encodeMutation demo_rep ?m)) demo_disk"
  have "disk_ready demo_env ?d demo_path"
    using demo_ready writable_put [of demo_disk demo_path] by (simp add: disk_ready_def) (simp add: put_file_def is_dir_def demo_disk_def demo_path_def)
  moreover have "applyMutation ?m (js_state demo_storage) = Inr (initState\<lparr>s_sequence := 1, s_name := Some ''x'', s_log := [LogName 1 (Some ''x'')]\<rparr>)"
    by (simp add: demo_storage_def newJsonlStorage_def applyMutation_def initState_def)
  moreover have "file_content demo_disk (resolvePath demo_env demo_path) = Some (encodeHeader demo_header)" using demo_content by simp
  moreover have "mutation_ok demo_rep ?m" by (simp add: seq_ok_def max_safe_def)
  moreover have "file_content ?d (resolvePath demo_env demo_path) = Some (encodeHeader demo_header @ take 7 (encodeMutation demo_rep ?m))"
    by (simp add: content_put)
  ultimately show ?thesis using torn_append_recovered [OF demo_run, of "encodeHeader demo_header" ?m _ ?d 7] unfolding demo_resolve by blast
qed

text \<open>
  Whatever fails while a file is loaded, its text stays: only a last line that is not JSON is dropped, and
  at most a line feed is added.
\<close>

theorem load_keeps_text:
  assumes "jsLoad rep (nodeFs env) p d = (r, d')" "file_content d (resolvePath env p) = Some c"
    and "resolvePath env (p @ ''.tmp'') \<noteq> resolvePath env p"
  shows "\<exists>c'. file_content d' (resolvePath env p) = Some c'
    \<and> (c' = c \<or> c' = c @ newline \<or> (\<exists>t. json_parse t = None \<and> (c = c' @ t \<or> c = c' @ t @ newline)))"
  using node.jsLoad_file [OF assms(1,3,2)] by (simp add: load_keeps_def)

theorem load_keeps_text_witness:
  "\<exists>c'. file_content (snd (jsLoad demo_rep (nodeFs demo_env) demo_path demo_disk)) demo_path = Some c'
    \<and> (c' = encodeHeader demo_header \<or> c' = encodeHeader demo_header @ newline
       \<or> (\<exists>t. json_parse t = None \<and> (encodeHeader demo_header = c' @ t \<or> encodeHeader demo_header = c' @ t @ newline)))"
  using load_keeps_text [of demo_rep demo_env demo_path demo_disk, OF surjective_pairing, of "encodeHeader demo_header"]
    demo_content demo_ready by (simp add: disk_ready_def)

text \<open>
  C12. Forking writes no file but the target and its temporary sibling; whatever fails, the target is as it was
  or complete, and a fork that succeeds is the fork of the in-memory storage.
\<close>

theorem fork_is_atomic:
  assumes "jsFork rep (nodeFs env) p h options st d = (r, d')" "header_ok h" "fork_ok rep options st"
    and "resolvePath env (p @ ''.tmp'') \<noteq> resolvePath env p"
  shows "(\<forall>q. file_content d' q = file_content d q \<or> q = resolvePath env p \<or> q = resolvePath env (p @ ''.tmp''))
    \<and> (file_content d' (resolvePath env p) = file_content d (resolvePath env p)
      \<or> (\<exists>ms. createForkMutations options (js_state st) = Inr ms
          \<and> file_content d' (resolvePath env p) = Some (encodeHeader h @ concat (map (encodeMutation rep) ms))))
    \<and> (\<forall>st'. r = Inr st' \<longrightarrow> memFork \<lparr>md_id = h_id h, md_createdAt = h_createdAt h, md_parentSessionId = h_parentSessionId h\<rparr>
      options (as_memory st) = Inr (as_memory st'))"
proof -
  note f = jsFork_files [OF assms(1,4,2,3)]
  have "\<forall>q. file_content d' q = file_content d q \<or> q = resolvePath env p \<or> q = resolvePath env (p @ ''.tmp'')" using f(1) by blast
  moreover note f(2) [unfolded file_text_def]
  moreover have "\<forall>st'. r = Inr st' \<longrightarrow> memFork \<lparr>md_id = h_id h, md_createdAt = h_createdAt h, md_parentSessionId = h_parentSessionId h\<rparr>
      options (as_memory st) = Inr (as_memory st')" using f(3) by blast
  ultimately show ?thesis by blast
qed

theorem fork_is_atomic_witness:
  "file_content (snd (jsFork demo_rep (nodeFs demo_env) ''/s/b'' demo_header ForkTree demo_storage demo_disk)) ''/s/b'' = None
    \<or> (\<exists>ms. createForkMutations ForkTree (js_state demo_storage) = Inr ms
        \<and> file_content (snd (jsFork demo_rep (nodeFs demo_env) ''/s/b'' demo_header ForkTree demo_storage demo_disk)) ''/s/b''
          = Some (encodeHeader demo_header @ concat (map (encodeMutation demo_rep) ms)))"
proof -
  let ?f = "jsFork demo_rep (nodeFs demo_env) ''/s/b'' demo_header ForkTree demo_storage demo_disk"
  have ok: "fork_ok demo_rep ForkTree demo_storage"
    by (simp add: fork_ok_def demo_storage_def newJsonlStorage_def createForkMutations_def forkSource_def initState_def
        findEntries_def assertValidLimit_def assertValidCursor_def oldestFirst_def ordered_def getLanes_def List.map_filter_def
        seq_ok_def max_safe_def)
  have none: "file_content demo_disk ''/s/b'' = None" by (simp add: file_content_def demo_disk_def demo_path_def)
  have "?f = (fst ?f, snd ?f)" by simp
  from fork_is_atomic [OF this demo_header_ok ok] none show ?thesis by simp
qed

text \<open>
  C13. An append that fails after its first character swallows the next append: that one is acknowledged, its
  name is the storage's, and the next load is without it.
\<close>

theorem torn_append_loses_next:
  assumes "jsonl_run rep env h p st d" "seq_ok (nextSequence (js_state st))"
    and "d_faults d = [None, Some (''ENOSPC'', 1)]" "disk_ready env (d\<lparr>d_faults := []\<rparr>) p"
  shows "\<exists>d2 st3 d3 st4 d4. jsSetName rep (nodeFs env) a st d = (Inl StorageError, d2)
    \<and> jsSetName rep (nodeFs env) b st d2 = (Inr st3, d3) \<and> getName (js_state st3) = b
    \<and> jsLoad rep (nodeFs env) p d3 = (Inr st4, d4) \<and> js_state st4 = js_state st"
proof -
  from jsonl_run_logged [OF assms(1)] obtain ms where "stored rep h ms (js_state st)"
    "file_content d (resolvePath env p) = Some (file_text rep h ms)" "jm_path (js_metadata st) = p" by (auto simp: logged_def)
  from torn_append_swallows [OF this assms(3,4,2)] show ?thesis .
qed

theorem torn_append_loses_next_witness:
  "\<exists>d2 st3 d3 st4 d4.
     jsSetName demo_rep (nodeFs demo_env) (Some ''x'') demo_storage (demo_disk\<lparr>d_faults := [None, Some (''ENOSPC'', 1)]\<rparr>) = (Inl StorageError, d2)
    \<and> jsSetName demo_rep (nodeFs demo_env) (Some ''y'') demo_storage d2 = (Inr st3, d3) \<and> getName (js_state st3) = Some ''y''
    \<and> jsLoad demo_rep (nodeFs demo_env) demo_path d3 = (Inr st4, d4) \<and> js_state st4 = js_state demo_storage"
proof (rule torn_append_loses_next)
  show "jsonl_run demo_rep demo_env demo_header demo_path demo_storage (demo_disk\<lparr>d_faults := [None, Some (''ENOSPC'', 1)]\<rparr>)"
    by (rule jr_other [OF demo_run]) (simp add: file_content_def)
  show "seq_ok (nextSequence (js_state demo_storage))"
    by (simp add: seq_ok_def max_safe_def demo_storage_def newJsonlStorage_def nextSequence_def initState_def)
  have "demo_disk\<lparr>d_faults := [None, Some (''ENOSPC'', 1)]\<rparr>\<lparr>d_faults := []\<rparr> = demo_disk" by (simp add: demo_disk_def)
  then show "disk_ready demo_env (demo_disk\<lparr>d_faults := [None, Some (''ENOSPC'', 1)]\<rparr>\<lparr>d_faults := []\<rparr>) demo_path"
    using demo_ready by simp
qed simp

text \<open>
  A mutation with representable numbers and payload is written as one line, and the parser gives exactly
  that mutation back.
\<close>

theorem mutation_roundtrip:
  assumes "mutation_ok rep m"
  shows "\<exists>line. encodeMutation rep m = line @ newline \<and> nl \<notin> set line \<and> parseMutation rep line = Inr m"
  using line_facts [OF assms] by (auto simp: encodeMutation_def line_of_def)

theorem mutation_roundtrip_witness:
  "\<exists>line. encodeMutation demo_rep (MutEntry (Some ''main'')
      \<lparr>e_id = ''e'', e_seq = 1, e_parentId = None, e_timestamp = 7, e_data = ThinkingLevelEntry ''high''\<rparr>) = line @ newline
    \<and> nl \<notin> set line \<and> parseMutation demo_rep line = Inr (MutEntry (Some ''main'')
      \<lparr>e_id = ''e'', e_seq = 1, e_parentId = None, e_timestamp = 7, e_data = ThinkingLevelEntry ''high''\<rparr>)"
  by (rule mutation_roundtrip)
    (simp add: seq_ok_def time_ok_def max_safe_def entry_rep_ok_def fields_ok_def demo_rep_def ENTRY_KEYS_def)

text \<open>
  C14. A session that is created is a file directly in the directory of its working directory under the
  sessions root, named by its time and identifier, whatever identifier and working directory were asked for;
  the claim of its destination is given up.
\<close>

theorem session_path_confined:
  assumes "jrepo_create (nodeFs env) uuid now options repo d = (Inr st, repo', d')"
  shows "segments (jm_path (js_metadata st)) = segments (resolvePath env (jrp_sessionsRootInput repo))
      @ [jsonlSessionDirectoryName (resolvePath env (co_cwd options)), sessionFileName now (jm_id (js_metadata st))] \<and> repo' = repo"
proof -
  from assms obtain destination d1 where r: "resolveCreateDestination (nodeFs env) uuid options d = (Inr destination, d1)"
    and c: "claimCreateDestination repo destination (\<lambda>repo w. wbind (prepareCreate (nodeFs env) repo now destination options w)
      (\<lambda>(header, path) w. jsCreate (nodeFs env) path header w)) d1 = (Inr st, repo', d')"
    by (auto simp: jrepo_create_def split: prod.splits sum.splits)
  have released: "repo' = repo" by (rule claim_released [OF c])
  obtain i where i: "destination = (i, resolvePath env (co_cwd options))" "validateSessionId i = Inr ()"
    using r by (auto simp: resolveCreateDestination_def Let_def wbind_Inr nodeFs_def)
  let ?repo = "repo\<lparr>jrp_activeCreateDestinations := insert (snd destination, fst destination) (jrp_activeCreateDestinations repo)\<rparr>"
  from c obtain h p d2 where p: "prepareCreate (nodeFs env) ?repo now destination options d1 = (Inr (h, p), d2)"
    "jsCreate (nodeFs env) p h d2 = (Inr st, d')"
    by (auto simp: claimCreateDestination_def Let_def wbind_Inr split: if_splits prod.splits)
  have "h_id h = i" using p(1) by (auto simp: prepareCreate_def wbind_Inr Let_def i(1) split: if_splits)
  moreover have "jm_path (js_metadata st) = p" "jm_id (js_metadata st) = h_id h"
    using jsCreate_Inr(3) [OF p(2)] by (auto simp: metadataFromHeader_def)
  ultimately show "segments (jm_path (js_metadata st)) = segments (resolvePath env (jrp_sessionsRootInput repo))
      @ [jsonlSessionDirectoryName (resolvePath env (co_cwd options)), sessionFileName now (jm_id (js_metadata st))] \<and> repo' = repo"
    using prepareCreate_path(1) [OF p(1) [unfolded i(1)] i(2)] released by simp
qed

theorem session_path_confined_witness:
  "\<exists>st d'. jrepo_create (nodeFs demo_env) ''u'' 0 (plain_options ''s.1'') root_repo empty_disk = (Inr st, root_repo, d')
    \<and> segments (jm_path (js_metadata st)) = segments (resolvePath demo_env ''/'')
      @ [jsonlSessionDirectoryName (resolvePath demo_env ''/''), sessionFileName 0 (jm_id (js_metadata st))]"
proof -
  have "SESSION_ID_PATTERN ''s.1''" by (simp add: SESSION_ID_PATTERN_def alphanumeric_def id_char_def Let_def)
  from create_on_empty_disk [OF this, of demo_env "''u''" 0] obtain st d' where c: "jrepo_create (nodeFs demo_env) ''u'' 0 (plain_options ''s.1'') root_repo empty_disk = (Inr st, root_repo, d')"
    by blast
  with session_path_confined [OF c] show ?thesis by (simp add: root_repo_def plain_options_def)
qed

end
