(* ===== verification/Actions.thy ===== *)
theory Actions
  imports Prelude
begin

text \<open>
  Asynchronous code as state passing. An action maps a state to an outcome and the state it
  leaves: the value its promise resolves to, the error it rejects with (the text the code takes
  from it), or \<open>Stalled\<close> for a promise that does not settle. A loop that may run for ever
  stalls when its fuel is used up, and what it did until then stays visible in the state. The
  rules of \<open>ensures\<close> prove facts about the states an action leaves, whatever its outcome.
\<close>

named_theorems action_rules \<open>rules of the triple for the operations on actions\<close>
named_theorems action_run \<open>the operations applied to a state, for concrete runs\<close>

datatype 'a settlement = Returned 'a | Thrown string | Stalled

type_synonym ('s, 'a) action = "'s \<Rightarrow> 'a settlement \<times> 's"

section \<open>Operations\<close>

definition give :: "'a \<Rightarrow> ('s, 'a) action" where
  "give x = (\<lambda>s. (Returned x, s))"

definition fail :: "string \<Rightarrow> ('s, 'a) action" where
  "fail e = (\<lambda>s. (Thrown e, s))"

definition stall :: "('s, 'a) action" where
  "stall = (\<lambda>s. (Stalled, s))"

definition ask :: "('s \<Rightarrow> 'a) \<Rightarrow> ('s, 'a) action" where
  "ask f = (\<lambda>s. (Returned (f s), s))"

definition change :: "('s \<Rightarrow> 's) \<Rightarrow> ('s, unit) action" where
  "change f = (\<lambda>s. (Returned (), f s))"

definition andThen :: "('s, 'a) action \<Rightarrow> ('a \<Rightarrow> ('s, 'b) action) \<Rightarrow> ('s, 'b) action" where
  "andThen m f = (\<lambda>s. case m s of
      (Returned x, s') \<Rightarrow> f x s'
    | (Thrown e, s') \<Rightarrow> (Thrown e, s')
    | (Stalled, s') \<Rightarrow> (Stalled, s'))"

text \<open>\<open>try\<close>: the error becomes a value.\<close>

definition attempt :: "('s, 'a) action \<Rightarrow> ('s, string + 'a) action" where
  "attempt m = (\<lambda>s. case m s of
      (Returned x, s') \<Rightarrow> (Returned (Inr x), s')
    | (Thrown e, s') \<Rightarrow> (Returned (Inl e), s')
    | (Stalled, s') \<Rightarrow> (Stalled, s'))"

text \<open>A synchronous call that returns or throws.\<close>

definition settled :: "'a settlement \<Rightarrow> ('s, 'a) action" where
  "settled r = (\<lambda>s. (r, s))"

fun for_each :: "('a \<Rightarrow> ('s, unit) action) \<Rightarrow> 'a list \<Rightarrow> ('s, unit) action" where
  "for_each f [] = give ()"
| "for_each f (x # xs) = andThen (f x) (\<lambda>_. for_each f xs)"

lemma give_apply [action_run]: "give x s = (Returned x, s)" by (simp add: give_def)
lemma fail_apply [action_run]: "fail e s = (Thrown e, s)" by (simp add: fail_def)
lemma stall_apply [action_run]: "stall s = (Stalled, s)" by (simp add: stall_def)
lemma ask_apply [action_run]: "ask f s = (Returned (f s), s)" by (simp add: ask_def)
lemma change_apply [action_run]: "change f s = (Returned (), f s)" by (simp add: change_def)
lemma settled_apply [action_run]: "settled r s = (r, s)" by (simp add: settled_def)

lemma andThen_apply [action_run]: "andThen m f s = (case m s of
    (Returned x, s') \<Rightarrow> f x s' | (Thrown e, s') \<Rightarrow> (Thrown e, s') | (Stalled, s') \<Rightarrow> (Stalled, s'))"
  by (simp add: andThen_def)

lemma andThen_give [simp]: "andThen (give x) f = f x"
  by (rule ext) (simp add: andThen_def give_def)

lemma andThen_Returned:
  "andThen m f s = (Returned y, t) \<longleftrightarrow> (\<exists>x u. m s = (Returned x, u) \<and> f x u = (Returned y, t))"
  by (auto simp: andThen_def split: prod.splits settlement.splits)

lemma andThen_Thrown:
  "andThen m f s = (Thrown e, t) \<longleftrightarrow>
     m s = (Thrown e, t) \<or> (\<exists>x u. m s = (Returned x, u) \<and> f x u = (Thrown e, t))"
  by (auto simp: andThen_def split: prod.splits settlement.splits)

lemma andThen_Stalled:
  "andThen m f s = (Stalled, t) \<longleftrightarrow>
     m s = (Stalled, t) \<or> (\<exists>x u. m s = (Returned x, u) \<and> f x u = (Stalled, t))"
  by (auto simp: andThen_def split: prod.splits settlement.splits)

text \<open>
  Congruences for concrete runs: nothing is rewritten inside an action before it is applied to a
  state, nor inside a continuation before its value is known.
\<close>

lemma andThen_run: "andThen m f = andThen m f"
  by (rule refl)

lemma attempt_run: "attempt m = attempt m"
  by (rule refl)

lemma attempt_apply [action_run]: "attempt m s = (case m s of
    (Returned x, s') \<Rightarrow> (Returned (Inr x), s') | (Thrown e, s') \<Rightarrow> (Returned (Inl e), s') | (Stalled, s') \<Rightarrow> (Stalled, s'))"
  by (simp add: attempt_def)

lemma andThen_assoc: "andThen (andThen m f) g = andThen m (\<lambda>x. andThen (f x) g)"
  by (rule ext) (auto simp: andThen_def split: prod.splits settlement.splits)

text \<open>Sequences are equal when their first parts are, and their continuations on the values these return.\<close>

lemma andThen_same:
  assumes "m = m'" and "\<And>s x s'. m' s = (Returned x, s') \<Longrightarrow> f x s' = f' x s'"
  shows "andThen m f = andThen m' f'"
  using assms by (auto simp: andThen_def fun_eq_iff split: prod.splits settlement.splits)

section \<open>Triples\<close>

text \<open>
  From a state that satisfies \<open>P\<close>, the action returns a value and a state that satisfy \<open>Q\<close>, throws
  in a state that satisfies \<open>T\<close> or stalls in a state that satisfies \<open>S\<close>.
\<close>

definition ensures :: "('s \<Rightarrow> bool) \<Rightarrow> ('s, 'a) action \<Rightarrow> ('a \<Rightarrow> 's \<Rightarrow> bool) \<Rightarrow> ('s \<Rightarrow> bool) \<Rightarrow> ('s \<Rightarrow> bool) \<Rightarrow> bool" where
  "ensures P m Q T S \<longleftrightarrow> (\<forall>s. P s \<longrightarrow> (case m s of
      (Returned x, s') \<Rightarrow> Q x s' | (Thrown e, s') \<Rightarrow> T s' | (Stalled, s') \<Rightarrow> S s'))"

lemma ensuresI:
  assumes "\<And>s x s'. P s \<Longrightarrow> m s = (Returned x, s') \<Longrightarrow> Q x s'"
    and "\<And>s e s'. P s \<Longrightarrow> m s = (Thrown e, s') \<Longrightarrow> T s'"
    and "\<And>s s'. P s \<Longrightarrow> m s = (Stalled, s') \<Longrightarrow> S s'"
  shows "ensures P m Q T S"
  using assms by (auto simp: ensures_def split: prod.splits settlement.splits)

lemma ensures_Returned: "ensures P m Q T S \<Longrightarrow> P s \<Longrightarrow> m s = (Returned x, s') \<Longrightarrow> Q x s'"
  by (force simp: ensures_def)

lemma ensures_Thrown: "ensures P m Q T S \<Longrightarrow> P s \<Longrightarrow> m s = (Thrown e, s') \<Longrightarrow> T s'"
  by (force simp: ensures_def)

lemma ensures_Stalled: "ensures P m Q T S \<Longrightarrow> P s \<Longrightarrow> m s = (Stalled, s') \<Longrightarrow> S s'"
  by (force simp: ensures_def)

lemma ensures_weaken:
  assumes "ensures P m Q T S"
    and "\<And>s. P' s \<Longrightarrow> P s" and "\<And>x s. Q x s \<Longrightarrow> Q' x s" and "\<And>s. T s \<Longrightarrow> T' s" and "\<And>s. S s \<Longrightarrow> S' s"
  shows "ensures P' m Q' T' S'"
  using assms unfolding ensures_def by (fastforce split: prod.splits settlement.splits)

lemma ensures_pre: "ensures P m Q T S \<Longrightarrow> (\<And>s. P' s \<Longrightarrow> P s) \<Longrightarrow> ensures P' m Q T S"
  by (erule ensures_weaken) auto

lemma ensures_give [action_rules]: "(\<And>s. P s \<Longrightarrow> Q x s) \<Longrightarrow> ensures P (give x) Q T S"
  by (simp add: ensures_def action_run)

lemma ensures_fail [action_rules]: "(\<And>s. P s \<Longrightarrow> T s) \<Longrightarrow> ensures P (fail e) Q T S"
  by (simp add: ensures_def action_run)

lemma ensures_stall [action_rules]: "(\<And>s. P s \<Longrightarrow> S s) \<Longrightarrow> ensures P stall Q T S"
  by (simp add: ensures_def action_run)

lemma ensures_ask [action_rules]: "(\<And>s. P s \<Longrightarrow> Q (f s) s) \<Longrightarrow> ensures P (ask f) Q T S"
  by (simp add: ensures_def action_run)

lemma ensures_change [action_rules]: "(\<And>s. P s \<Longrightarrow> Q () (f s)) \<Longrightarrow> ensures P (change f) Q T S"
  by (simp add: ensures_def action_run)

lemma ensures_settled [action_rules]:
  "(\<And>x s. P s \<Longrightarrow> Q x s) \<Longrightarrow> (\<And>s. P s \<Longrightarrow> T s) \<Longrightarrow> (\<And>s. P s \<Longrightarrow> S s) \<Longrightarrow> ensures P (settled r) Q T S"
  by (cases r) (simp_all add: ensures_def action_run)

lemma ensures_pure: "(p \<Longrightarrow> ensures P m Q T S) \<Longrightarrow> ensures (\<lambda>s. p \<and> P s) m Q T S"
  by (auto simp: ensures_def)

lemma ensures_ex:
  assumes "\<And>x. ensures (P x) m Q T S"
  shows "ensures (\<lambda>s. \<exists>x. P x s) m Q T S"
proof (rule ensuresI)
  fix s y s'
  assume "\<exists>x. P x s" and "m s = (Returned y, s')"
  then show "Q y s'" using ensures_Returned [OF assms] by auto
next
  fix s e s'
  assume "\<exists>x. P x s" and "m s = (Thrown e, s')"
  then show "T s'" using ensures_Thrown [OF assms] by auto
next
  fix s s'
  assume "\<exists>x. P x s" and "m s = (Stalled, s')"
  then show "S s'" using ensures_Stalled [OF assms] by auto
qed

lemma ensures_andThen:
  assumes "ensures P m R T S" and "\<And>x. ensures (R x) (f x) Q T S"
  shows "ensures P (andThen m f) Q T S"
  using assms unfolding ensures_def andThen_def by (fastforce split: prod.splits settlement.splits)

lemma ensures_any: "ensures P m (\<lambda>_ _. True) (\<lambda>_. True) (\<lambda>_. True)"
  by (simp add: ensures_def split: prod.splits settlement.splits)

lemma ensures_attempt:
  assumes "ensures P m (\<lambda>x. Q (Inr x)) (\<lambda>s. \<forall>e. Q (Inl e) s) S"
  shows "ensures P (attempt m) Q T S"
  using assms unfolding ensures_def attempt_def by (fastforce split: prod.splits settlement.splits)

lemma ensures_if:
  assumes "b \<Longrightarrow> ensures P m Q T S" and "\<not> b \<Longrightarrow> ensures P m' Q T S"
  shows "ensures P (if b then m else m') Q T S"
  using assms by simp

lemma ensures_for_each:
  assumes "\<And>x. x \<in> set xs \<Longrightarrow> ensures P (f x) (\<lambda>_. P) T S"
  shows "ensures P (for_each f xs) (\<lambda>_. P) T S"
  using assms
proof (induction xs)
  case Nil
  show ?case unfolding for_each.simps by (rule ensures_give)
next
  case (Cons x xs)
  have "ensures P (f x) (\<lambda>_. P) T S" by (rule Cons.prems) simp
  moreover have "ensures P (for_each f xs) (\<lambda>_. P) T S" by (rule Cons.IH) (rule Cons.prems, simp)
  ultimately show ?case unfolding for_each.simps by (rule ensures_andThen)
qed

end
