(* ===== verification/AgentTypes.thy ===== *)
theory AgentTypes
  imports SessionTypes Actions
begin

text \<open>
  The data of the agent loop (\<open>packages/agent/src/types.ts\<close>): tools and their results, the context,
  the events, the hooks of a configuration, and the environment a run depends on. Tools are data
  here; what a tool, a hook, the provider or the event sink does is a function of the environment
  over a state \<open>'w\<close> of the world, and may return, throw or never settle.
\<close>

section \<open>Tools\<close>

datatype execution_mode = SequentialMode | ParallelMode

type_synonym tool_args = "(string \<times> json) list"

text \<open>\<open>AgentToolResult\<close>; untyped tools may omit \<open>content\<close>.\<close>

record tool_result =
  rt_content :: "content list option"
  rt_details :: "json option"
  rt_usage :: "usage option"
  rt_addedToolNames :: "string list option"
  rt_terminate :: "bool option"

text \<open>\<open>at_ref\<close> stands for the identity of the tool object, whose closures the environment interprets.\<close>

record agent_tool =
  at_name :: string
  at_parameters :: json
  at_executionMode :: "execution_mode option"
  at_ref :: nat

record agent_context =
  ac_systemPrompt :: string
  ac_messages :: "agent_message list"
  ac_tools :: "agent_tool list option"

text \<open>What a running \<open>execute\<close> does between two suspensions: report progress, or settle.\<close>

datatype tool_step = ToolUpdate tool_result | ToolReturn tool_result

section \<open>Events\<close>

datatype update_kind =
    TextStart int | TextDelta int string | TextEnd int string
  | ThinkingStart int | ThinkingDelta int string | ThinkingEnd int string
  | ToolCallStart int | ToolCallDelta int string | ToolCallEnd int tool_call

text \<open>\<open>AssistantMessageEvent\<close> of \<open>packages/ai/src/types.ts\<close>.\<close>

datatype assistant_event =
    StartEvent assistant_message
  | PartialEvent update_kind assistant_message
  | DoneEvent stop_reason assistant_message
  | ErrorEvent stop_reason assistant_message

datatype agent_event =
    AgentStart
  | AgentEnd "agent_message list"
  | TurnStart
  | TurnEnd agent_message "tool_result_message list"
  | MessageStart agent_message
  | MessageUpdate agent_message assistant_event
  | MessageEnd agent_message
  | ToolExecutionStart string string tool_args
  | ToolExecutionUpdate string string tool_args tool_result
  | ToolExecutionEnd string string tool_result bool

section \<open>Hooks and configuration\<close>

record loop_model =
  lm_id :: string
  lm_api :: string
  lm_provider :: string

record before_result =
  br_block :: "bool option"
  br_reason :: "string option"
  br_terminate :: "bool option"

record after_result =
  ar_content :: "content list option"
  ar_details :: "json option"
  ar_isError :: "bool option"
  ar_usage :: "usage option"
  ar_terminate :: "bool option"

record before_context =
  bc_assistantMessage :: assistant_message
  bc_toolCall :: tool_call
  bc_args :: tool_args
  bc_context :: agent_context

record after_context =
  fc_assistantMessage :: assistant_message
  fc_toolCall :: tool_call
  fc_args :: tool_args
  fc_result :: tool_result
  fc_isError :: bool
  fc_context :: agent_context

text \<open>\<open>ShouldStopAfterTurnContext\<close>, also the argument of \<open>prepareNextTurn\<close>.\<close>

record turn_context =
  tx_message :: assistant_message
  tx_toolResults :: "tool_result_message list"
  tx_context :: agent_context
  tx_newMessages :: "agent_message list"

record turn_update =
  tu_context :: "agent_context option"
  tu_model :: "loop_model option"
  tu_thinkingLevel :: "string option"

record 'w loop_config =
  lc_model :: loop_model
  lc_reasoning :: "string option"
  lc_apiKey :: "string option"
  lc_toolExecution :: "execution_mode option"
  lc_convertToLlm :: "agent_message list \<Rightarrow> ('w, agent_message list) action"
  lc_transformContext :: "(agent_message list \<Rightarrow> ('w, agent_message list) action) option"
  lc_getApiKey :: "(string \<Rightarrow> ('w, string option) action) option"
  lc_getSteeringMessages :: "('w, agent_message list) action option"
  lc_getFollowUpMessages :: "('w, agent_message list) action option"
  lc_beforeToolCall :: "(before_context \<Rightarrow> ('w, before_result option) action) option"
  lc_afterToolCall :: "(after_context \<Rightarrow> ('w, after_result option) action) option"
  lc_prepareNextTurn :: "(turn_context \<Rightarrow> ('w, turn_update option) action) option"
  lc_shouldStopAfterTurn :: "(turn_context \<Rightarrow> ('w, bool) action) option"

section \<open>Environment\<close>

text \<open>The arguments of one provider request.\<close>

record stream_request =
  sq_model :: loop_model
  sq_systemPrompt :: string
  sq_messages :: "agent_message list"
  sq_tools :: "agent_tool list option"
  sq_reasoning :: "string option"
  sq_apiKey :: "string option"

text \<open>
  \<open>le_nextEvent\<close> and \<open>le_result\<close> read the response that \<open>le_streamFunction\<close> opened last.
  \<open>le_validate\<close> is \<open>validateToolArguments\<close> on the schema of a tool, \<open>le_prepareArguments\<close> the tool's
  optional shim, \<open>le_execute\<close> one step of its \<open>execute\<close>. \<open>le_schedule\<close> is the order in which the
  event loop of the runtime resumes concurrent tools, given the number of those still running.
  \<open>le_emit\<close> is the event sink and \<open>le_aborted\<close> reads the abort signal.
\<close>

record 'w loop_env =
  le_emit :: "agent_event \<Rightarrow> ('w, unit) action"
  le_aborted :: "'w \<Rightarrow> bool"
  le_streamFunction :: "stream_request \<Rightarrow> ('w, unit) action"
  le_nextEvent :: "('w, assistant_event option) action"
  le_result :: "('w, assistant_message) action"
  le_validate :: "agent_tool \<Rightarrow> tool_call \<Rightarrow> tool_args settlement"
  le_prepareArguments :: "agent_tool \<Rightarrow> (tool_args \<Rightarrow> tool_args settlement) option"
  le_execute :: "agent_tool \<Rightarrow> string \<Rightarrow> tool_args \<Rightarrow> ('w, tool_step) action"
  le_schedule :: "nat \<Rightarrow> ('w, nat) action"
  le_now :: "('w, int) action"

end
