(* ===== verification/AgentLoop.thy ===== *)
theory AgentLoop
  imports AgentTypes
begin

text \<open>
  The agent loop, \<open>packages/agent/src/agent-loop.ts\<close>. The state of a run holds the world, the
  current context, the messages of the run and, for the statements about them, the events emitted
  so far. The configuration is an argument, since \<open>prepareNextTurn\<close> replaces it between turns.

  A tool runs in steps from one suspension to the next; in a parallel batch the schedule of the
  environment picks the tool that is resumed. A progress event is handed to the sink at once, as
  the code does, and an error of the sink surfaces when the tool settles. The loops that wait for
  the provider, for tools and for further turns carry fuel: without it they stall.
\<close>

record 'w run_state =
  rs_world :: 'w
  rs_events :: "agent_event list"
  rs_context :: agent_context
  rs_new :: "agent_message list"

section \<open>Access to the world and to the run\<close>

definition outside :: "('w, 'a) action \<Rightarrow> ('w run_state, 'a) action" where
  "outside m = (\<lambda>s. case m (rs_world s) of (r, w) \<Rightarrow> (r, s\<lparr>rs_world := w\<rparr>))"

definition emit :: "'w loop_env \<Rightarrow> agent_event \<Rightarrow> ('w run_state, unit) action" where
  "emit env ev = andThen (change (\<lambda>s. s\<lparr>rs_events := rs_events s @ [ev]\<rparr>)) (\<lambda>_. outside (le_emit env ev))"

definition aborted :: "'w loop_env \<Rightarrow> ('w run_state, bool) action" where
  "aborted env = ask (\<lambda>s. le_aborted env (rs_world s))"

definition pushContext :: "agent_message \<Rightarrow> ('w run_state, unit) action" where
  "pushContext m = change (\<lambda>s. s\<lparr>rs_context := (rs_context s)\<lparr>ac_messages := ac_messages (rs_context s) @ [m]\<rparr>\<rparr>)"

definition replaceLast :: "agent_message \<Rightarrow> ('w run_state, unit) action" where
  "replaceLast m = change (\<lambda>s. s\<lparr>rs_context := (rs_context s)\<lparr>ac_messages := butlast (ac_messages (rs_context s)) @ [m]\<rparr>\<rparr>)"

definition pushNew :: "agent_message \<Rightarrow> ('w run_state, unit) action" where
  "pushNew m = change (\<lambda>s. s\<lparr>rs_new := rs_new s @ [m]\<rparr>)"

text \<open>An optional hook: \<open>await hook?.(x)\<close>, with the value of an absent one.\<close>

definition callHook :: "('c \<Rightarrow> ('w, 'a) action) option \<Rightarrow> 'a \<Rightarrow> 'c \<Rightarrow> ('w run_state, 'a) action" where
  "callHook hook absent x = (case hook of None \<Rightarrow> give absent | Some h \<Rightarrow> outside (h x))"

definition emitMessage :: "'w loop_env \<Rightarrow> agent_message \<Rightarrow> ('w run_state, unit) action" where
  "emitMessage env m = andThen (emit env (MessageStart m)) (\<lambda>_. emit env (MessageEnd m))"

section \<open>The response of the provider\<close>

definition resolveApiKey :: "'w loop_config \<Rightarrow> ('w run_state, string option) action" where
  "resolveApiKey cfg =
     andThen (callHook (lc_getApiKey cfg) None (lm_provider (lc_model cfg)))
       (\<lambda>key. give (if key = None \<or> key = Some [] then lc_apiKey cfg else key))"

definition openResponse :: "'w loop_env \<Rightarrow> 'w loop_config \<Rightarrow> ('w run_state, unit) action" where
  "openResponse env cfg =
     andThen (ask (ac_messages \<circ> rs_context)) (\<lambda>messages.
     andThen (callHook (lc_transformContext cfg) messages messages) (\<lambda>messages.
     andThen (outside (lc_convertToLlm cfg messages)) (\<lambda>llmMessages.
     andThen (ask rs_context) (\<lambda>context.
     andThen (resolveApiKey cfg) (\<lambda>key.
       outside (le_streamFunction env
         \<lparr>sq_model = lc_model cfg, sq_systemPrompt = ac_systemPrompt context, sq_messages = llmMessages,
          sq_tools = ac_tools context, sq_reasoning = lc_reasoning cfg, sq_apiKey = key\<rparr>))))))"

definition finishResponse :: "'w loop_env \<Rightarrow> bool \<Rightarrow> ('w run_state, assistant_message) action" where
  "finishResponse env addedPartial =
     andThen (outside (le_result env)) (\<lambda>final.
     andThen (if addedPartial then replaceLast (AssistantMessage final) else pushContext (AssistantMessage final)) (\<lambda>_.
     andThen (if addedPartial then give () else emit env (MessageStart (AssistantMessage final))) (\<lambda>_.
     andThen (emit env (MessageEnd (AssistantMessage final))) (\<lambda>_. give final))))"

text \<open>The \<open>for await\<close> loop over the events of a response.\<close>

fun consumeResponse :: "'w loop_env \<Rightarrow> nat \<Rightarrow> bool \<Rightarrow> ('w run_state, assistant_message) action" where
  "consumeResponse env 0 addedPartial = stall"
| "consumeResponse env (Suc n) addedPartial =
     andThen (outside (le_nextEvent env)) (\<lambda>ev. case ev of
         None \<Rightarrow> finishResponse env addedPartial
       | Some (StartEvent partial) \<Rightarrow>
           andThen (pushContext (AssistantMessage partial)) (\<lambda>_.
           andThen (emit env (MessageStart (AssistantMessage partial))) (\<lambda>_.
             consumeResponse env n True))
       | Some (PartialEvent kind partial) \<Rightarrow>
           if addedPartial
           then andThen (replaceLast (AssistantMessage partial)) (\<lambda>_.
                andThen (emit env (MessageUpdate (AssistantMessage partial) (PartialEvent kind partial))) (\<lambda>_.
                  consumeResponse env n True))
           else consumeResponse env n False
       | Some (DoneEvent _ _) \<Rightarrow> finishResponse env addedPartial
       | Some (ErrorEvent _ _) \<Rightarrow> finishResponse env addedPartial)"

definition streamAssistantResponse :: "'w loop_env \<Rightarrow> nat \<Rightarrow> 'w loop_config \<Rightarrow> ('w run_state, assistant_message) action" where
  "streamAssistantResponse env fuel cfg = andThen (openResponse env cfg) (\<lambda>_. consumeResponse env fuel False)"

section \<open>Results of tool calls\<close>

record finalized_call =
  fz_toolCall :: tool_call
  fz_result :: tool_result
  fz_isError :: bool

record prepared_call =
  pc_toolCall :: tool_call
  pc_tool :: agent_tool
  pc_args :: tool_args

definition toolCalls :: "assistant_message \<Rightarrow> tool_call list" where
  "toolCalls m = [tc. ToolCallContent tc \<leftarrow> am_content m]"

definition createErrorToolResult :: "string \<Rightarrow> tool_result" where
  "createErrorToolResult message =
     \<lparr>rt_content = Some [TextContent message None], rt_details = Some (JsonObject []), rt_usage = None,
      rt_addedToolNames = None, rt_terminate = None\<rparr>"

definition emitToolExecutionStart :: "'w loop_env \<Rightarrow> tool_call \<Rightarrow> ('w run_state, unit) action" where
  "emitToolExecutionStart env tc = emit env (ToolExecutionStart (tc_id tc) (tc_name tc) (tc_arguments tc))"

definition emitToolExecutionEnd :: "'w loop_env \<Rightarrow> finalized_call \<Rightarrow> ('w run_state, unit) action" where
  "emitToolExecutionEnd env f =
     emit env (ToolExecutionEnd (tc_id (fz_toolCall f)) (tc_name (fz_toolCall f)) (fz_result f) (fz_isError f))"

text \<open>The message at a given time; an empty list of added tools is left out, missing content is empty.\<close>

definition toolResultMessage :: "finalized_call \<Rightarrow> int \<Rightarrow> tool_result_message" where
  "toolResultMessage f now =
     \<lparr>tr_toolCallId = tc_id (fz_toolCall f), tr_toolName = tc_name (fz_toolCall f),
      tr_content = (case rt_content (fz_result f) of None \<Rightarrow> [] | Some c \<Rightarrow> c),
      tr_details = rt_details (fz_result f), tr_usage = rt_usage (fz_result f),
      tr_addedToolNames = (if rt_addedToolNames (fz_result f) = Some [] then None else rt_addedToolNames (fz_result f)),
      tr_isError = fz_isError f, tr_timestamp = now\<rparr>"

definition createToolResultMessage :: "'w loop_env \<Rightarrow> finalized_call \<Rightarrow> ('w run_state, tool_result_message) action" where
  "createToolResultMessage env f = andThen (outside (le_now env)) (\<lambda>now. give (toolResultMessage f now))"

definition emitToolResult :: "'w loop_env \<Rightarrow> finalized_call \<Rightarrow> ('w run_state, tool_result_message) action" where
  "emitToolResult env f =
     andThen (createToolResultMessage env f) (\<lambda>m.
     andThen (emitMessage env (ToolResultMessage m)) (\<lambda>_. give m))"

definition shouldTerminateToolBatch :: "finalized_call list \<Rightarrow> bool" where
  "shouldTerminateToolBatch fs \<longleftrightarrow> fs \<noteq> [] \<and> list_all (\<lambda>f. rt_terminate (fz_result f) = Some True) fs"

definition truncatedText :: "string \<Rightarrow> string" where
  "truncatedText name =
     ''Tool call '' @ CHR 0x22 # name @ CHR 0x22 # '' was not executed: the response hit the output token limit, ''
     @ ''so its arguments may be truncated. Re-issue the tool call with complete arguments.''"

definition truncatedCall :: "tool_call \<Rightarrow> finalized_call" where
  "truncatedCall tc =
     \<lparr>fz_toolCall = tc, fz_result = createErrorToolResult (truncatedText (tc_name tc)), fz_isError = True\<rparr>"

fun failToolCallsFromTruncatedMessage :: "'w loop_env \<Rightarrow> tool_call list \<Rightarrow> ('w run_state, tool_result_message list) action" where
  "failToolCallsFromTruncatedMessage env [] = give []"
| "failToolCallsFromTruncatedMessage env (tc # tcs) =
     andThen (emitToolExecutionStart env tc) (\<lambda>_.
     andThen (emitToolExecutionEnd env (truncatedCall tc)) (\<lambda>_.
     andThen (emitToolResult env (truncatedCall tc)) (\<lambda>m.
     andThen (failToolCallsFromTruncatedMessage env tcs) (\<lambda>ms. give (m # ms)))))"

section \<open>Preparing a tool call\<close>

datatype preparation = Immediate tool_result bool | Prepared prepared_call

definition findTool :: "agent_context \<Rightarrow> string \<Rightarrow> agent_tool option" where
  "findTool context name = (case ac_tools context of None \<Rightarrow> None | Some tools \<Rightarrow> find (\<lambda>t. at_name t = name) tools)"

definition prepareToolCallArguments :: "'w loop_env \<Rightarrow> agent_tool \<Rightarrow> tool_call \<Rightarrow> ('w run_state, tool_call) action" where
  "prepareToolCallArguments env tool tc = (case le_prepareArguments env tool of
       None \<Rightarrow> give tc
     | Some prepare \<Rightarrow> andThen (settled (prepare (tc_arguments tc))) (\<lambda>args. give (tc\<lparr>tc_arguments := args\<rparr>)))"

definition abortedResult :: preparation where
  "abortedResult = Immediate (createErrorToolResult ''Operation aborted'') True"

definition blockedResult :: "before_result \<Rightarrow> preparation" where
  "blockedResult b =
     (let reason = (if br_reason b = None \<or> br_reason b = Some [] then ''Tool execution was blocked'' else the (br_reason b));
          result = createErrorToolResult reason
      in Immediate (if br_terminate b = Some True then result\<lparr>rt_terminate := Some True\<rparr> else result) True)"

definition prepareFound :: "'w loop_env \<Rightarrow> 'w loop_config \<Rightarrow> assistant_message \<Rightarrow> tool_call \<Rightarrow> agent_tool
    \<Rightarrow> ('w run_state, preparation) action" where
  "prepareFound env cfg am tc tool =
     andThen (prepareToolCallArguments env tool tc) (\<lambda>ptc.
     andThen (settled (le_validate env tool ptc)) (\<lambda>args.
     andThen (ask rs_context) (\<lambda>context.
     andThen (callHook (lc_beforeToolCall cfg) None
         \<lparr>bc_assistantMessage = am, bc_toolCall = tc, bc_args = args, bc_context = context\<rparr>) (\<lambda>before.
     andThen (aborted env) (\<lambda>stop. give
       (if stop then abortedResult
        else case before of
            Some b \<Rightarrow> if br_block b = Some True then blockedResult b
                      else Prepared \<lparr>pc_toolCall = tc, pc_tool = tool, pc_args = args\<rparr>
          | None \<Rightarrow> Prepared \<lparr>pc_toolCall = tc, pc_tool = tool, pc_args = args\<rparr>))))))"

definition prepareToolCall :: "'w loop_env \<Rightarrow> 'w loop_config \<Rightarrow> assistant_message \<Rightarrow> tool_call
    \<Rightarrow> ('w run_state, preparation) action" where
  "prepareToolCall env cfg am tc =
     andThen (ask rs_context) (\<lambda>context. case findTool context (tc_name tc) of
         None \<Rightarrow> give (Immediate (createErrorToolResult (''Tool '' @ tc_name tc @ '' not found'')) True)
       | Some tool \<Rightarrow> andThen (attempt (prepareFound env cfg am tc tool)) (\<lambda>r. give
           (case r of Inl e \<Rightarrow> Immediate (createErrorToolResult e) True | Inr p \<Rightarrow> p)))"

section \<open>Executing a prepared call\<close>

definition settleExecution :: "string option \<Rightarrow> tool_result \<times> bool \<Rightarrow> ('w run_state, string option + tool_result \<times> bool) action" where
  "settleExecution failure out = (case failure of None \<Rightarrow> give (Inr out) | Some e \<Rightarrow> fail e)"

text \<open>
  One step of \<open>executePreparedToolCall\<close>: the call goes on, with the first error of the sink on an
  update if there was one, or has settled.
\<close>

definition executeStep :: "'w loop_env \<Rightarrow> prepared_call \<Rightarrow> string option
    \<Rightarrow> ('w run_state, string option + tool_result \<times> bool) action" where
  "executeStep env p failure =
     (let tc = pc_toolCall p in
      andThen (attempt (outside (le_execute env (pc_tool p) (tc_id tc) (pc_args p)))) (\<lambda>r. case r of
          Inl e \<Rightarrow> settleExecution failure (createErrorToolResult e, True)
        | Inr (ToolReturn result) \<Rightarrow> settleExecution failure (result, False)
        | Inr (ToolUpdate partial) \<Rightarrow>
            andThen (attempt (emit env (ToolExecutionUpdate (tc_id tc) (tc_name tc) (tc_arguments tc) partial)))
              (\<lambda>q. give (Inl (case failure of Some e \<Rightarrow> Some e
                | None \<Rightarrow> (case q of Inl e \<Rightarrow> Some e | Inr _ \<Rightarrow> None))))))"

fun executePreparedToolCall :: "'w loop_env \<Rightarrow> nat \<Rightarrow> prepared_call \<Rightarrow> string option
    \<Rightarrow> ('w run_state, tool_result \<times> bool) action" where
  "executePreparedToolCall env 0 p failure = stall"
| "executePreparedToolCall env (Suc n) p failure =
     andThen (executeStep env p failure) (\<lambda>r. case r of
         Inl failure' \<Rightarrow> executePreparedToolCall env n p failure'
       | Inr out \<Rightarrow> give out)"

text \<open>\<open>new ?? old\<close> for the details: \<open>null\<close> counts as absent.\<close>

definition orElse :: "'a option \<Rightarrow> 'a option \<Rightarrow> 'a option" where
  "orElse new old = (case new of None \<Rightarrow> old | Some x \<Rightarrow> Some x)"

definition overrideResult :: "tool_result \<Rightarrow> after_result \<Rightarrow> tool_result" where
  "overrideResult r a = r\<lparr>rt_content := orElse (ar_content a) (rt_content r),
     rt_details := (if ar_details a = Some JsonNull then rt_details r else orElse (ar_details a) (rt_details r)),
     rt_usage := orElse (ar_usage a) (rt_usage r), rt_terminate := orElse (ar_terminate a) (rt_terminate r)\<rparr>"

definition finalizeExecutedToolCall :: "'w loop_env \<Rightarrow> 'w loop_config \<Rightarrow> assistant_message \<Rightarrow> prepared_call
    \<Rightarrow> tool_result \<times> bool \<Rightarrow> ('w run_state, finalized_call) action" where
  "finalizeExecutedToolCall env cfg am p out =
     andThen (ask rs_context) (\<lambda>context.
     andThen (attempt (callHook (lc_afterToolCall cfg) None
         \<lparr>fc_assistantMessage = am, fc_toolCall = pc_toolCall p, fc_args = pc_args p, fc_result = fst out,
          fc_isError = snd out, fc_context = context\<rparr>)) (\<lambda>after. give (case after of
         Inl e \<Rightarrow> \<lparr>fz_toolCall = pc_toolCall p, fz_result = createErrorToolResult e, fz_isError = True\<rparr>
       | Inr None \<Rightarrow> \<lparr>fz_toolCall = pc_toolCall p, fz_result = fst out, fz_isError = snd out\<rparr>
       | Inr (Some a) \<Rightarrow> \<lparr>fz_toolCall = pc_toolCall p, fz_result = overrideResult (fst out) a,
           fz_isError = (case ar_isError a of None \<Rightarrow> snd out | Some b \<Rightarrow> b)\<rparr>)))"

section \<open>Sequential batches\<close>

definition runToolCall :: "'w loop_env \<Rightarrow> nat \<Rightarrow> 'w loop_config \<Rightarrow> assistant_message \<Rightarrow> tool_call
    \<Rightarrow> ('w run_state, finalized_call) action" where
  "runToolCall env fuel cfg am tc =
     andThen (prepareToolCall env cfg am tc) (\<lambda>prep. case prep of
         Immediate result isError \<Rightarrow> give \<lparr>fz_toolCall = tc, fz_result = result, fz_isError = isError\<rparr>
       | Prepared p \<Rightarrow> andThen (executePreparedToolCall env fuel p None) (finalizeExecutedToolCall env cfg am p))"

fun sequentialCalls :: "'w loop_env \<Rightarrow> nat \<Rightarrow> 'w loop_config \<Rightarrow> assistant_message \<Rightarrow> tool_call list
    \<Rightarrow> ('w run_state, (finalized_call \<times> tool_result_message) list) action" where
  "sequentialCalls env fuel cfg am [] = give []"
| "sequentialCalls env fuel cfg am (tc # tcs) =
     andThen (emitToolExecutionStart env tc) (\<lambda>_.
     andThen (runToolCall env fuel cfg am tc) (\<lambda>f.
     andThen (emitToolExecutionEnd env f) (\<lambda>_.
     andThen (emitToolResult env f) (\<lambda>m.
     andThen (aborted env) (\<lambda>stop.
       if stop then give [(f, m)]
       else andThen (sequentialCalls env fuel cfg am tcs) (\<lambda>rest. give ((f, m) # rest)))))))"

definition executeToolCallsSequential :: "'w loop_env \<Rightarrow> nat \<Rightarrow> 'w loop_config \<Rightarrow> assistant_message
    \<Rightarrow> ('w run_state, tool_result_message list \<times> bool) action" where
  "executeToolCallsSequential env fuel cfg am =
     andThen (sequentialCalls env fuel cfg am (toolCalls am)) (\<lambda>done.
       give (map snd done, shouldTerminateToolBatch (map fst done)))"

section \<open>Parallel batches\<close>

text \<open>The entries of the batch, and the thunks of the deferred ones as tasks.\<close>

datatype batch_entry = Decided finalized_call | Deferred prepared_call

datatype task =
    Executing prepared_call "string option"
  | Executed prepared_call "tool_result \<times> bool"
  | Finalizing finalized_call
  | Finished finalized_call

fun prepareBatch :: "'w loop_env \<Rightarrow> 'w loop_config \<Rightarrow> assistant_message \<Rightarrow> tool_call list
    \<Rightarrow> ('w run_state, batch_entry list) action" where
  "prepareBatch env cfg am [] = give []"
| "prepareBatch env cfg am (tc # tcs) =
     andThen (emitToolExecutionStart env tc) (\<lambda>_.
     andThen (prepareToolCall env cfg am tc) (\<lambda>prep.
     andThen (case prep of
         Immediate result isError \<Rightarrow>
           (let f = \<lparr>fz_toolCall = tc, fz_result = result, fz_isError = isError\<rparr> in
            andThen (emitToolExecutionEnd env f) (\<lambda>_. give (Decided f)))
       | Prepared p \<Rightarrow> give (Deferred p)) (\<lambda>entry.
     andThen (aborted env) (\<lambda>stop.
       if stop then give [entry]
       else andThen (prepareBatch env cfg am tcs) (\<lambda>rest. give (entry # rest))))))"

definition taskStep :: "'w loop_env \<Rightarrow> 'w loop_config \<Rightarrow> assistant_message \<Rightarrow> task \<Rightarrow> ('w run_state, task) action" where
  "taskStep env cfg am t = (case t of
       Executing p failure \<Rightarrow> andThen (executeStep env p failure) (\<lambda>r. give
         (case r of Inl failure' \<Rightarrow> Executing p failure' | Inr out \<Rightarrow> Executed p out))
     | Executed p out \<Rightarrow> andThen (finalizeExecutedToolCall env cfg am p out) (\<lambda>f. give (Finalizing f))
     | Finalizing f \<Rightarrow> andThen (emitToolExecutionEnd env f) (\<lambda>_. give (Finished f))
     | Finished f \<Rightarrow> give (Finished f))"

text \<open>\<open>finalizedCalls.map(entry => entry())\<close>: every deferred call runs up to its first suspension.\<close>

fun startTasks :: "'w loop_env \<Rightarrow> 'w loop_config \<Rightarrow> assistant_message \<Rightarrow> batch_entry list
    \<Rightarrow> ('w run_state, task list) action" where
  "startTasks env cfg am [] = give []"
| "startTasks env cfg am (entry # entries) =
     andThen (case entry of Decided f \<Rightarrow> give (Finished f) | Deferred p \<Rightarrow> taskStep env cfg am (Executing p None)) (\<lambda>t.
     andThen (startTasks env cfg am entries) (\<lambda>ts. give (t # ts)))"

fun isFinished :: "task \<Rightarrow> bool" where
  "isFinished (Finished f) = True"
| "isFinished _ = False"

fun taskResult :: "task \<Rightarrow> finalized_call list" where
  "taskResult (Finished f) = [f]"
| "taskResult _ = []"

text \<open>\<open>Promise.all\<close>: the schedule picks one of the running tasks until none is left.\<close>

fun settleTasks :: "'w loop_env \<Rightarrow> nat \<Rightarrow> 'w loop_config \<Rightarrow> assistant_message \<Rightarrow> task list
    \<Rightarrow> ('w run_state, finalized_call list) action" where
  "settleTasks env 0 cfg am ts = stall"
| "settleTasks env (Suc n) cfg am ts =
     (let running = filter (\<lambda>i. \<not> isFinished (ts ! i)) [0..<length ts] in
      if running = [] then give (concat (map taskResult ts))
      else andThen (outside (le_schedule env (length running))) (\<lambda>c.
           let i = running ! (c mod length running) in
           andThen (taskStep env cfg am (ts ! i)) (\<lambda>t. settleTasks env n cfg am (ts[i := t]))))"

fun emitResults :: "'w loop_env \<Rightarrow> finalized_call list \<Rightarrow> ('w run_state, tool_result_message list) action" where
  "emitResults env [] = give []"
| "emitResults env (f # fs) =
     andThen (emitToolResult env f) (\<lambda>m. andThen (emitResults env fs) (\<lambda>ms. give (m # ms)))"

definition executeToolCallsParallel :: "'w loop_env \<Rightarrow> nat \<Rightarrow> 'w loop_config \<Rightarrow> assistant_message
    \<Rightarrow> ('w run_state, tool_result_message list \<times> bool) action" where
  "executeToolCallsParallel env fuel cfg am =
     andThen (prepareBatch env cfg am (toolCalls am)) (\<lambda>entries.
     andThen (startTasks env cfg am entries) (\<lambda>tasks.
     andThen (settleTasks env fuel cfg am tasks) (\<lambda>fs.
     andThen (emitResults env fs) (\<lambda>ms. give (ms, shouldTerminateToolBatch fs)))))"

definition isSequentialTool :: "agent_context \<Rightarrow> string \<Rightarrow> bool" where
  "isSequentialTool context name = (case findTool context name of
     None \<Rightarrow> False | Some t \<Rightarrow> at_executionMode t = Some SequentialMode)"

definition executeToolCalls :: "'w loop_env \<Rightarrow> nat \<Rightarrow> 'w loop_config \<Rightarrow> assistant_message
    \<Rightarrow> ('w run_state, tool_result_message list \<times> bool) action" where
  "executeToolCalls env fuel cfg am =
     andThen (ask rs_context) (\<lambda>context.
       if lc_toolExecution cfg = Some SequentialMode
          \<or> list_ex (\<lambda>tc. isSequentialTool context (tc_name tc)) (toolCalls am)
       then executeToolCallsSequential env fuel cfg am
       else executeToolCallsParallel env fuel cfg am)"

section \<open>The loop\<close>

datatype 'w turn_result = StopRun | NextTurn "'w loop_config" bool "agent_message list"

text \<open>Messages injected before the response.\<close>

definition injectMessage :: "'w loop_env \<Rightarrow> agent_message \<Rightarrow> ('w run_state, unit) action" where
  "injectMessage env m =
     andThen (emitMessage env m) (\<lambda>_. andThen (pushContext m) (\<lambda>_. pushNew m))"

text \<open>The tool calls of a response: the results and whether the loop goes on for them.\<close>

definition runBatch :: "'w loop_env \<Rightarrow> nat \<Rightarrow> 'w loop_config \<Rightarrow> assistant_message
    \<Rightarrow> ('w run_state, tool_result_message list \<times> bool) action" where
  "runBatch env fuel cfg am =
     (if toolCalls am = [] then give ([], False)
      else andThen (if am_stopReason am = LengthStop
             then andThen (failToolCallsFromTruncatedMessage env (toolCalls am)) (\<lambda>ms. give (ms, False))
             else executeToolCalls env fuel cfg am) (\<lambda>(results, terminate).
           andThen (for_each (\<lambda>m. andThen (pushContext (ToolResultMessage m)) (\<lambda>_. pushNew (ToolResultMessage m))) results)
             (\<lambda>_. give (results, \<not> terminate))))"

definition endRun :: "'w loop_env \<Rightarrow> ('w run_state, unit) action" where
  "endRun env = andThen (ask rs_new) (\<lambda>new. emit env (AgentEnd new))"

definition turnContext :: "assistant_message \<Rightarrow> tool_result_message list \<Rightarrow> ('w run_state, turn_context) action" where
  "turnContext am results = ask (\<lambda>s.
     \<lparr>tx_message = am, tx_toolResults = results, tx_context = rs_context s, tx_newMessages = rs_new s\<rparr>)"

definition updateConfig :: "'w loop_config \<Rightarrow> turn_update \<Rightarrow> 'w loop_config" where
  "updateConfig cfg u = cfg\<lparr>
     lc_model := (case tu_model u of None \<Rightarrow> lc_model cfg | Some m \<Rightarrow> m),
     lc_reasoning := (case tu_thinkingLevel u of None \<Rightarrow> lc_reasoning cfg
       | Some level \<Rightarrow> if level = ''off'' then None else Some level)\<rparr>"

definition applyUpdate :: "'w loop_config \<Rightarrow> turn_update option \<Rightarrow> ('w run_state, 'w loop_config) action" where
  "applyUpdate cfg update = (case update of
       None \<Rightarrow> give cfg
     | Some u \<Rightarrow> andThen (case tu_context u of None \<Rightarrow> give () | Some c \<Rightarrow> change (\<lambda>s. s\<lparr>rs_context := c\<rparr>))
         (\<lambda>_. give (updateConfig cfg u)))"

definition pollMessages :: "('w, agent_message list) action option \<Rightarrow> ('w run_state, agent_message list) action" where
  "pollMessages hook = (case hook of None \<Rightarrow> give [] | Some h \<Rightarrow> outside h)"

text \<open>What follows a response that neither failed nor was aborted.\<close>

definition finishTurn :: "'w loop_env \<Rightarrow> nat \<Rightarrow> 'w loop_config \<Rightarrow> assistant_message \<Rightarrow> ('w run_state, 'w turn_result) action" where
  "finishTurn env fuel cfg am =
     andThen (runBatch env fuel cfg am) (\<lambda>(results, hasMore).
     andThen (emit env (TurnEnd (AssistantMessage am) results)) (\<lambda>_.
     andThen (turnContext am results) (\<lambda>tx.
     andThen (callHook (lc_prepareNextTurn cfg) None tx) (\<lambda>update.
     andThen (applyUpdate cfg update) (\<lambda>cfg'.
     andThen (turnContext am results) (\<lambda>tx'.
     andThen (callHook (lc_shouldStopAfterTurn cfg') False tx') (\<lambda>stop.
       if stop then andThen (endRun env) (\<lambda>_. give StopRun)
       else andThen (pollMessages (lc_getSteeringMessages cfg')) (\<lambda>pending.
         give (NextTurn cfg' hasMore pending)))))))))"

text \<open>One iteration of the inner loop.\<close>

definition runTurn :: "'w loop_env \<Rightarrow> nat \<Rightarrow> 'w loop_config \<Rightarrow> bool \<Rightarrow> agent_message list \<Rightarrow> ('w run_state, 'w turn_result) action" where
  "runTurn env fuel cfg firstTurn pending =
     andThen (if firstTurn then give () else emit env TurnStart) (\<lambda>_.
     andThen (for_each (injectMessage env) pending) (\<lambda>_.
     andThen (streamAssistantResponse env fuel cfg) (\<lambda>am.
     andThen (pushNew (AssistantMessage am)) (\<lambda>_.
       if am_stopReason am = ErrorStop \<or> am_stopReason am = AbortedStop
       then andThen (emit env (TurnEnd (AssistantMessage am) [])) (\<lambda>_.
            andThen (endRun env) (\<lambda>_. give StopRun))
       else finishTurn env fuel cfg am))))"

text \<open>
  Both loops: an iteration of the inner one while there are tool calls or pending messages, the
  poll for follow-up messages otherwise, which the outer loop continues with.
\<close>

fun turns :: "'w loop_env \<Rightarrow> nat \<Rightarrow> nat \<Rightarrow> 'w loop_config \<Rightarrow> bool \<Rightarrow> bool \<Rightarrow> agent_message list \<Rightarrow> ('w run_state, unit) action" where
  "turns env fuel 0 cfg firstTurn hasMore pending = stall"
| "turns env fuel (Suc n) cfg firstTurn hasMore pending =
     (if hasMore \<or> pending \<noteq> []
      then andThen (runTurn env fuel cfg firstTurn pending) (\<lambda>r. case r of
             StopRun \<Rightarrow> give ()
           | NextTurn cfg' hasMore' pending' \<Rightarrow> turns env fuel n cfg' False hasMore' pending')
      else andThen (pollMessages (lc_getFollowUpMessages cfg)) (\<lambda>followUps.
           if followUps \<noteq> [] then turns env fuel n cfg firstTurn True followUps else endRun env))"

definition runLoop :: "'w loop_env \<Rightarrow> nat \<Rightarrow> nat \<Rightarrow> 'w loop_config \<Rightarrow> ('w run_state, unit) action" where
  "runLoop env fuel n cfg =
     andThen (pollMessages (lc_getSteeringMessages cfg)) (turns env fuel n cfg True True)"

definition initialRun :: "'w \<Rightarrow> agent_context \<Rightarrow> agent_message list \<Rightarrow> 'w run_state" where
  "initialRun w context prompts =
     \<lparr>rs_world = w, rs_events = [], rs_context = context\<lparr>ac_messages := ac_messages context @ prompts\<rparr>, rs_new = prompts\<rparr>"

text \<open>The actions of \<open>runAgentLoop\<close> and \<open>runAgentLoopContinue\<close>, and their runs from a world.\<close>

definition promptRun :: "'w loop_env \<Rightarrow> nat \<Rightarrow> nat \<Rightarrow> 'w loop_config \<Rightarrow> agent_message list \<Rightarrow> ('w run_state, agent_message list) action" where
  "promptRun env fuel n cfg prompts =
     andThen (emit env AgentStart) (\<lambda>_.
     andThen (emit env TurnStart) (\<lambda>_.
     andThen (for_each (emitMessage env) prompts) (\<lambda>_.
     andThen (runLoop env fuel n cfg) (\<lambda>_. ask rs_new))))"

definition runAgentLoop :: "'w loop_env \<Rightarrow> nat \<Rightarrow> nat \<Rightarrow> agent_message list \<Rightarrow> agent_context \<Rightarrow> 'w loop_config \<Rightarrow> 'w
    \<Rightarrow> agent_message list settlement \<times> 'w run_state" where
  "runAgentLoop env fuel n prompts context cfg w = promptRun env fuel n cfg prompts (initialRun w context prompts)"

definition runAgentLoopContinue :: "'w loop_env \<Rightarrow> nat \<Rightarrow> nat \<Rightarrow> agent_context \<Rightarrow> 'w loop_config \<Rightarrow> 'w
    \<Rightarrow> agent_message list settlement \<times> 'w run_state" where
  "runAgentLoopContinue env fuel n context cfg w =
     (let s = initialRun w context [] in
      if ac_messages context = [] then (Thrown ''Cannot continue: no messages in context'', s)
      else if role (last (ac_messages context)) = AssistantRole
      then (Thrown ''Cannot continue from message role: assistant'', s)
      else promptRun env fuel n cfg [] s)"

end
