(* ===== verification/AgentTrace.thy ===== *)
theory AgentTrace
  imports AgentLoop "HOL-Library.Multiset"
begin

text \<open>
  The protocol of the events of a run, as the package's README and the comments of \<open>types.ts\<close>
  document it: an acceptor that reads the events one by one. A run is a sequence of turns between
  \<open>agent_start\<close> and \<open>agent_end\<close>; messages do not overlap, tool executions are closed before the
  next message, and the end of a turn names the assistant message and the results that the turn
  just completed. Only assistant messages are updated, and a provider may restart one.
\<close>

datatype phase =
    Idle
  | Between
  | InTurn "agent_message option" "string multiset" "agent_message list"
      \<comment> \<open>the open message, the running tool calls, the messages completed in this turn\<close>
  | Ended

definition isAssistant :: "agent_message \<Rightarrow> bool" where
  "isAssistant m \<longleftrightarrow> role m = AssistantRole"

text \<open>
  The results of a turn answer the tool calls of its message in order. A batch may be cut short by
  an abort, but not before its first call; a strict trace has every call answered.
\<close>

definition answers :: "bool \<Rightarrow> assistant_message \<Rightarrow> tool_result_message list \<Rightarrow> bool" where
  "answers strict am rs \<longleftrightarrow>
     (if am_stopReason am = ErrorStop \<or> am_stopReason am = AbortedStop then rs = []
      else map tr_toolCallId rs = take (length rs) (map tc_id (toolCalls am))
        \<and> (toolCalls am \<noteq> [] \<longrightarrow> rs \<noteq> [])
        \<and> (strict \<longrightarrow> length rs = length (toolCalls am))
        \<and> (am_stopReason am = LengthStop \<longrightarrow> length rs = length (toolCalls am) \<and> list_all tr_isError rs))"

fun turnMatches :: "bool \<Rightarrow> agent_message list \<Rightarrow> agent_message \<Rightarrow> tool_result_message list \<Rightarrow> bool" where
  "turnMatches strict completed (AssistantMessage am) rs \<longleftrightarrow> answers strict am rs
     \<and> drop (length completed - Suc (length rs)) completed = AssistantMessage am # map ToolResultMessage rs"
| "turnMatches strict completed _ rs \<longleftrightarrow> False"

text \<open>The second component collects the messages completed in the run.\<close>

fun traceStep :: "bool \<Rightarrow> phase \<times> agent_message list \<Rightarrow> agent_event \<Rightarrow> (phase \<times> agent_message list) option" where
  "traceStep strict (Idle, ms) AgentStart = Some (Between, ms)"
| "traceStep strict (Between, ms) TurnStart = Some (InTurn None {#} [], ms)"
| "traceStep strict (Between, ms) (AgentEnd ms') = (if ms' = ms then Some (Ended, ms) else None)"
| "traceStep strict (InTurn None T c, ms) (MessageStart m) =
     (if T = {#} then Some (InTurn (Some m) T c, ms) else None)"
| "traceStep strict (InTurn (Some p) T c, ms) (MessageStart m) =
     (if isAssistant p \<and> isAssistant m then Some (InTurn (Some m) T c, ms) else None)"
| "traceStep strict (InTurn (Some p) T c, ms) (MessageUpdate m ev) =
     (if isAssistant p \<and> isAssistant m then Some (InTurn (Some m) T c, ms) else None)"
| "traceStep strict (InTurn (Some p) T c, ms) (MessageEnd m) =
     (if p = m \<or> isAssistant p \<and> isAssistant m then Some (InTurn None T (c @ [m]), ms @ [m]) else None)"
| "traceStep strict (InTurn None T c, ms) (ToolExecutionStart i n a) = Some (InTurn None (add_mset i T) c, ms)"
| "traceStep strict (InTurn None T c, ms) (ToolExecutionUpdate i n a r) =
     (if i \<in># T then Some (InTurn None T c, ms) else None)"
| "traceStep strict (InTurn None T c, ms) (ToolExecutionEnd i n r e) =
     (if i \<in># T then Some (InTurn None (T - {#i#}) c, ms) else None)"
| "traceStep strict (InTurn None T c, ms) (TurnEnd m rs) =
     (if T = {#} \<and> turnMatches strict c m rs then Some (Between, ms) else None)"
| "traceStep strict _ _ = None"

definition trace :: "bool \<Rightarrow> agent_event list \<Rightarrow> (phase \<times> agent_message list) option" where
  "trace strict evs = foldl (\<lambda>st ev. Option.bind st (\<lambda>x. traceStep strict x ev)) (Some (Idle, [])) evs"

lemma trace_Nil [simp]: "trace strict [] = Some (Idle, [])"
  by (simp add: trace_def)

lemma trace_snoc [simp]: "trace strict (evs @ [ev]) = Option.bind (trace strict evs) (\<lambda>x. traceStep strict x ev)"
  by (simp add: trace_def)

section \<open>States of a run\<close>

text \<open>The events lead to the phase, and the messages completed are those of the run and \<open>ahead\<close>.\<close>

definition traced :: "bool \<Rightarrow> phase \<Rightarrow> agent_message list \<Rightarrow> 'w run_state \<Rightarrow> bool" where
  "traced strict ph ahead s \<longleftrightarrow> trace strict (rs_events s) = Some (ph, rs_new s @ ahead)"

definition accepted :: "bool \<Rightarrow> 'w run_state \<Rightarrow> bool" where
  "accepted strict s \<longleftrightarrow> trace strict (rs_events s) \<noteq> None"

lemma traced_accepted: "traced strict ph a s \<Longrightarrow> accepted strict s"
  by (simp add: traced_def accepted_def)

abbreviation run_triple :: "bool \<Rightarrow> ('w run_state \<Rightarrow> bool) \<Rightarrow> ('w run_state, 'a) action
    \<Rightarrow> ('a \<Rightarrow> 'w run_state \<Rightarrow> bool) \<Rightarrow> bool" where
  "run_triple strict P m Q \<equiv> ensures P m Q (accepted strict) (accepted strict)"

text \<open>Actions that emit nothing.\<close>

lemma outside_traced: "ensures (traced strict ph a) (outside m) (\<lambda>_. traced strict ph a) (traced strict ph a) (traced strict ph a)"
  by (auto simp: ensures_def outside_def traced_def split: prod.splits settlement.splits)

lemma outside_run: "run_triple strict (traced strict ph a) (outside m) (\<lambda>_. traced strict ph a)"
  by (rule ensures_weaken [OF outside_traced]) (auto intro: traced_accepted)

lemma callHook_traced:
  "ensures (traced strict ph a) (callHook h x c) (\<lambda>_. traced strict ph a) (traced strict ph a) (traced strict ph a)"
  unfolding callHook_def by (cases h) (simp_all add: outside_traced ensures_give)

lemma callHook_run: "run_triple strict (traced strict ph a) (callHook h x c) (\<lambda>_. traced strict ph a)"
  by (rule ensures_weaken [OF callHook_traced]) (auto intro: traced_accepted)

lemma pollMessages_run: "run_triple strict (traced strict ph a) (pollMessages h) (\<lambda>_. traced strict ph a)"
  unfolding pollMessages_def by (cases h) (simp_all add: outside_run ensures_give)

lemma pushContext_run: "run_triple strict (traced strict ph a) (pushContext m) (\<lambda>_. traced strict ph a)"
  unfolding pushContext_def by (rule ensures_change) (simp add: traced_def)

lemma replaceLast_run: "run_triple strict (traced strict ph a) (replaceLast m) (\<lambda>_. traced strict ph a)"
  unfolding replaceLast_def by (rule ensures_change) (simp add: traced_def)

lemma pushNew_run: "run_triple strict (traced strict ph (m # a)) (pushNew m) (\<lambda>_. traced strict ph a)"
  unfolding pushNew_def by (rule ensures_change) (simp add: traced_def)

lemma ask_run: "run_triple strict (traced strict ph a) (ask f) (\<lambda>_. traced strict ph a)"
  by (rule ensures_ask) simp

text \<open>Emitting an event that the protocol allows.\<close>

lemma emit_traced:
  assumes "\<And>ms. traceStep strict (ph, ms) ev = Some (ph', ms @ new)"
  shows "ensures (traced strict ph a) (emit env ev) (\<lambda>_. traced strict ph' (a @ new))
    (traced strict ph' (a @ new)) (traced strict ph' (a @ new))"
  unfolding emit_def
  by (rule ensures_andThen [OF ensures_change outside_traced]) (simp add: traced_def assms)

lemma emit_run:
  assumes "\<And>ms. traceStep strict (ph, ms) ev = Some (ph', ms @ new)"
  shows "run_triple strict (traced strict ph a) (emit env ev) (\<lambda>_. traced strict ph' (a @ new))"
  by (rule ensures_weaken [OF emit_traced [OF assms]]) (auto intro: traced_accepted)

lemma emit_silent:
  assumes "\<And>ms. traceStep strict (ph, ms) ev = Some (ph', ms)"
  shows "run_triple strict (traced strict ph a) (emit env ev) (\<lambda>_. traced strict ph' a)"
  using emit_run [of strict ph ev ph' "[]" a env] assms by simp

lemma emitMessage_run:
  "run_triple strict (traced strict (InTurn None {#} c) a) (emitMessage env m)
     (\<lambda>_. traced strict (InTurn None {#} (c @ [m])) (a @ [m]))"
  unfolding emitMessage_def by (rule ensures_andThen, rule emit_silent, simp, rule emit_run, simp)

section \<open>The response\<close>

fun openPhase :: "bool \<Rightarrow> agent_message list \<Rightarrow> phase \<Rightarrow> bool" where
  "openPhase True c (InTurn (Some p) T c') \<longleftrightarrow> isAssistant p \<and> T = {#} \<and> c' = c"
| "openPhase False c ph \<longleftrightarrow> ph = InTurn None {#} c"
| "openPhase True c _ \<longleftrightarrow> False"

lemma openPhase_True: "openPhase True c ph \<longleftrightarrow> (\<exists>p. isAssistant p \<and> ph = InTurn (Some p) {#} c)"
  by (cases "(True, c, ph)" rule: openPhase.cases) auto

lemma isAssistant_simp [simp]: "isAssistant (AssistantMessage am)"
  by (simp add: isAssistant_def)

lemma openResponse_run: "run_triple strict (traced strict ph a) (openResponse env cfg) (\<lambda>_. traced strict ph a)"
  unfolding openResponse_def resolveApiKey_def
  by (rule ensures_andThen, rule ask_run, rule ensures_andThen, rule callHook_run, rule ensures_andThen,
      rule outside_run, rule ensures_andThen, rule ask_run, rule ensures_andThen, rule ensures_andThen,
      rule callHook_run, rule ensures_give, assumption, rule outside_run)

lemma finishResponse_run:
  assumes "openPhase added c ph"
  shows "run_triple strict (traced strict ph []) (finishResponse env added)
    (\<lambda>am. traced strict (InTurn None {#} (c @ [AssistantMessage am])) [AssistantMessage am])"
proof (cases added)
  case True
  then obtain p where p: "isAssistant p" "ph = InTurn (Some p) {#} c" using assms by (auto simp: openPhase_True)
  have 2: "run_triple strict (traced strict ph []) (emit env (MessageEnd (AssistantMessage am)))
      (\<lambda>_. traced strict (InTurn None {#} (c @ [AssistantMessage am])) [AssistantMessage am])" for am
    using emit_run [of strict ph "MessageEnd (AssistantMessage am)" "InTurn None {#} (c @ [AssistantMessage am])"
      "[AssistantMessage am]" "[]" env] p by simp
  show ?thesis unfolding finishResponse_def
    by (simp add: True, rule ensures_andThen, rule outside_run, rule ensures_andThen, rule replaceLast_run,
        rule ensures_andThen, rule 2, rule ensures_give, assumption)
next
  case False
  with assms have ph: "ph = InTurn None {#} c" by simp
  have 1: "run_triple strict (traced strict ph []) (emit env (MessageStart (AssistantMessage am)))
      (\<lambda>_. traced strict (InTurn (Some (AssistantMessage am)) {#} c) [])" for am
    by (rule emit_silent) (simp add: ph)
  have 2: "run_triple strict (traced strict (InTurn (Some (AssistantMessage am)) {#} c) [])
      (emit env (MessageEnd (AssistantMessage am)))
      (\<lambda>_. traced strict (InTurn None {#} (c @ [AssistantMessage am])) [AssistantMessage am])" for am
    using emit_run [of strict "InTurn (Some (AssistantMessage am)) {#} c" "MessageEnd (AssistantMessage am)"
      "InTurn None {#} (c @ [AssistantMessage am])" "[AssistantMessage am]" "[]" env] by simp
  show ?thesis unfolding finishResponse_def
    by (simp add: False, rule ensures_andThen, rule outside_run, rule ensures_andThen, rule pushContext_run,
        rule ensures_andThen, rule 1, rule ensures_andThen, rule 2, rule ensures_give, assumption)
qed

lemma open_start:
  assumes "openPhase added c ph" and "isAssistant m"
  shows "traceStep strict (ph, ms) (MessageStart m) = Some (InTurn (Some m) {#} c, ms)"
  using assms by (cases added) (auto simp: openPhase_True)

lemma open_update:
  assumes "openPhase True c ph" and "isAssistant m"
  shows "traceStep strict (ph, ms) (MessageUpdate m ev) = Some (InTurn (Some m) {#} c, ms)"
  using assms by (auto simp: openPhase_True)

lemma consumeResponse_run:
  assumes "openPhase added c ph"
  shows "run_triple strict (traced strict ph []) (consumeResponse env n added)
    (\<lambda>am. traced strict (InTurn None {#} (c @ [AssistantMessage am])) [AssistantMessage am])"
  using assms
proof (induction n arbitrary: added ph)
  case 0
  show ?case unfolding consumeResponse.simps by (rule ensures_stall) (rule traced_accepted)
next
  case (Suc n)
  note fin = finishResponse_run [OF Suc.prems]
  have start: "run_triple strict (traced strict ph []) (emit env (MessageStart (AssistantMessage p)))
      (\<lambda>_. traced strict (InTurn (Some (AssistantMessage p)) {#} c) [])" for p
    by (rule emit_silent) (simp add: open_start [OF Suc.prems])
  have update: "run_triple strict (traced strict ph []) (emit env (MessageUpdate (AssistantMessage p) e))
      (\<lambda>_. traced strict (InTurn (Some (AssistantMessage p)) {#} c) [])" if added for p e
    by (rule emit_silent) (rule open_update, use Suc.prems that in simp_all)
  have more: "run_triple strict (traced strict (InTurn (Some (AssistantMessage p)) {#} c) [])
      (consumeResponse env n True)
      (\<lambda>am. traced strict (InTurn None {#} (c @ [AssistantMessage am])) [AssistantMessage am])" for p
    by (rule Suc.IH) simp
  have skip: "run_triple strict (traced strict ph []) (consumeResponse env n False)
      (\<lambda>am. traced strict (InTurn None {#} (c @ [AssistantMessage am])) [AssistantMessage am])" if "\<not> added"
    by (rule Suc.IH) (use Suc.prems that in simp)
  show ?case unfolding consumeResponse.simps
  proof (rule ensures_andThen, rule outside_run)
    fix ev
    let ?post = "\<lambda>am. traced strict (InTurn None {#} (c @ [AssistantMessage am])) [AssistantMessage am]"
    show "run_triple strict (traced strict ph []) (case ev of None \<Rightarrow> finishResponse env added
       | Some (StartEvent partial) \<Rightarrow>
           andThen (pushContext (AssistantMessage partial)) (\<lambda>_.
           andThen (emit env (MessageStart (AssistantMessage partial))) (\<lambda>_. consumeResponse env n True))
       | Some (PartialEvent kind partial) \<Rightarrow>
           if added
           then andThen (replaceLast (AssistantMessage partial)) (\<lambda>_.
                andThen (emit env (MessageUpdate (AssistantMessage partial) (PartialEvent kind partial))) (\<lambda>_.
                  consumeResponse env n True))
           else consumeResponse env n False
       | Some (DoneEvent _ _) \<Rightarrow> finishResponse env added
       | Some (ErrorEvent _ _) \<Rightarrow> finishResponse env added) ?post"
    proof (cases ev)
      case None
      then show ?thesis by (simp add: fin)
    next
      case (Some e)
      show ?thesis
      proof (cases e)
        case (StartEvent p)
        show ?thesis unfolding Some StartEvent option.case assistant_event.case
          by (rule ensures_andThen, rule pushContext_run, rule ensures_andThen, rule start, rule more)
      next
        case (PartialEvent k p)
        show ?thesis
        proof (cases added)
          case True
          show ?thesis unfolding Some PartialEvent option.case assistant_event.case
            by (simp only: True if_True, rule ensures_andThen, rule replaceLast_run, rule ensures_andThen,
                rule update [OF True], rule more)
        next
          case False
          then show ?thesis unfolding Some PartialEvent option.case assistant_event.case by (simp add: skip)
        qed
      qed (simp_all add: Some fin)
    qed
  qed
qed

lemma streamAssistantResponse_run:
  "run_triple strict (traced strict (InTurn None {#} c) []) (streamAssistantResponse env n cfg)
    (\<lambda>am. traced strict (InTurn None {#} (c @ [AssistantMessage am])) [AssistantMessage am])"
  unfolding streamAssistantResponse_def
  by (rule ensures_andThen, rule openResponse_run, rule consumeResponse_run) simp

section \<open>Single tool calls\<close>

abbreviation results_of :: "tool_result_message list \<Rightarrow> agent_message list" where
  "results_of rs \<equiv> map ToolResultMessage rs"

lemma emitStart_run:
  "run_triple strict (traced strict (InTurn None T c) a) (emitToolExecutionStart env tc)
    (\<lambda>_. traced strict (InTurn None (add_mset (tc_id tc) T) c) a)"
  unfolding emitToolExecutionStart_def by (rule emit_silent) simp

lemma emitEnd_run:
  "run_triple strict (traced strict (InTurn None (add_mset (tc_id (fz_toolCall f)) T) c) a) (emitToolExecutionEnd env f)
    (\<lambda>_. traced strict (InTurn None T c) a)"
  unfolding emitToolExecutionEnd_def by (rule emit_silent) simp

lemma emitToolResult_run:
  "run_triple strict (traced strict (InTurn None {#} c) a) (emitToolResult env f)
    (\<lambda>m s. tr_toolCallId m = tc_id (fz_toolCall f) \<and> tr_isError m = fz_isError f
       \<and> traced strict (InTurn None {#} (c @ [ToolResultMessage m])) (a @ [ToolResultMessage m]) s)"
proof -
  let ?made = "\<lambda>m s. (tr_toolCallId m = tc_id (fz_toolCall f) \<and> tr_isError m = fz_isError f)
    \<and> traced strict (InTurn None {#} c) a s"
  have "run_triple strict (traced strict (InTurn None {#} c) a) (createToolResultMessage env f) ?made"
    unfolding createToolResultMessage_def
    by (rule ensures_andThen, rule outside_run, rule ensures_give) (simp add: toolResultMessage_def)
  then show ?thesis
    unfolding emitToolResult_def
    by (rule ensures_andThen)
      (rule ensures_pure, rule ensures_andThen, rule emitMessage_run, rule ensures_give, simp)
qed

lemma prepareToolCall_run:
  "run_triple strict (traced strict ph a) (prepareToolCall env cfg am tc)
    (\<lambda>p s. (\<forall>q. p = Prepared q \<longrightarrow> pc_toolCall q = tc) \<and> traced strict ph a s)"
proof -
  let ?post = "\<lambda>p s. (\<forall>q. p = Prepared q \<longrightarrow> pc_toolCall q = tc) \<and> traced strict ph a s"
  have args: "ensures (traced strict ph a) (prepareToolCallArguments env tool tc) (\<lambda>_. traced strict ph a)
      (traced strict ph a) (accepted strict)" for tool
    unfolding prepareToolCallArguments_def
    by (cases "le_prepareArguments env tool")
      (simp_all, rule ensures_give, simp, rule ensures_andThen, rule ensures_settled [where Q = "\<lambda>_. traced strict ph a"],
       auto intro: ensures_give traced_accepted)
  have hook: "ensures (traced strict ph a) (callHook h None x) (\<lambda>_. traced strict ph a) (traced strict ph a) (accepted strict)"
    for h :: "('b \<Rightarrow> ('c, before_result option) action) option" and x
    by (rule ensures_weaken [OF callHook_traced]) (auto intro: traced_accepted)
  have found: "ensures (traced strict ph a) (prepareFound env cfg am tc tool) ?post (traced strict ph a) (accepted strict)" for tool
    unfolding prepareFound_def
    by (rule ensures_andThen, rule args, rule ensures_andThen, rule ensures_settled [where Q = "\<lambda>_. traced strict ph a"],
        assumption, assumption, erule traced_accepted, rule ensures_andThen, rule ensures_ask [where Q = "\<lambda>_. traced strict ph a"],
        assumption, rule ensures_andThen, rule hook, rule ensures_andThen, unfold aborted_def,
        rule ensures_ask [where Q = "\<lambda>_. traced strict ph a"], assumption, rule ensures_give)
      (auto simp: abortedResult_def blockedResult_def Let_def split: if_splits option.splits)
  show ?thesis unfolding prepareToolCall_def
  proof (rule ensures_andThen, rule ask_run)
    fix ctx :: agent_context
    show "run_triple strict (traced strict ph a) (case findTool ctx (tc_name tc) of
         None \<Rightarrow> give (Immediate (createErrorToolResult (''Tool '' @ tc_name tc @ '' not found'')) True)
       | Some tool \<Rightarrow> andThen (attempt (prepareFound env cfg am tc tool)) (\<lambda>r. give
           (case r of Inl e \<Rightarrow> Immediate (createErrorToolResult e) True | Inr p \<Rightarrow> p))) ?post"
    proof (cases "findTool ctx (tc_name tc)")
      case None
      then show ?thesis by (simp add: ensures_give)
    next
      case (Some tool)
      have "run_triple strict (traced strict ph a) (attempt (prepareFound env cfg am tc tool))
          (\<lambda>r s. case r of Inl e \<Rightarrow> traced strict ph a s | Inr p \<Rightarrow> ?post p s)"
        by (rule ensures_attempt, rule ensures_weaken [OF found]) auto
      then show ?thesis unfolding Some option.case
        by (rule ensures_andThen) (rule ensures_give, auto split: sum.splits)
    qed
  qed
qed

lemma settleExecution_run: "run_triple strict (traced strict ph a) (settleExecution failure out) (\<lambda>_. traced strict ph a)"
  unfolding settleExecution_def
  by (cases failure) (auto intro: ensures_give ensures_fail traced_accepted)

lemma executeStep_run:
  assumes "tc_id (pc_toolCall p) \<in># T"
  shows "run_triple strict (traced strict (InTurn None T c) a) (executeStep env p failure) (\<lambda>_. traced strict (InTurn None T c) a)"
proof -
  let ?st = "traced strict (InTurn None T c) a" and ?tc = "pc_toolCall p"
  have run: "run_triple strict ?st (attempt (outside m)) (\<lambda>_. ?st)" for m
    by (rule ensures_attempt, rule ensures_weaken [OF outside_traced]) (auto intro: traced_accepted)
  have emit: "run_triple strict ?st
      (attempt (emit env (ToolExecutionUpdate (tc_id ?tc) (tc_name ?tc) (tc_arguments ?tc) r))) (\<lambda>_. ?st)" for r
    by (rule ensures_attempt, rule ensures_weaken [OF emit_traced [of _ _ _ "InTurn None T c" "[]"]])
      (use assms in \<open>auto intro: traced_accepted\<close>)
  show ?thesis unfolding executeStep_def Let_def
  proof (rule ensures_andThen, rule run)
    fix r :: "string + tool_step"
    show "run_triple strict ?st (case r of
          Inl e \<Rightarrow> settleExecution failure (createErrorToolResult e, True)
        | Inr (ToolReturn result) \<Rightarrow> settleExecution failure (result, False)
        | Inr (ToolUpdate partial) \<Rightarrow>
            andThen (attempt (emit env (ToolExecutionUpdate (tc_id ?tc) (tc_name ?tc) (tc_arguments ?tc) partial)))
              (\<lambda>q. give (Inl (case failure of Some e \<Rightarrow> Some e
                | None \<Rightarrow> (case q of Inl e \<Rightarrow> Some e | Inr _ \<Rightarrow> None))))) (\<lambda>_. ?st)"
      by (auto split: sum.splits tool_step.splits intro!: settleExecution_run ensures_andThen [OF emit] ensures_give)
  qed
qed

lemma executePreparedToolCall_run:
  assumes "tc_id (pc_toolCall p) \<in># T"
  shows "run_triple strict (traced strict (InTurn None T c) a) (executePreparedToolCall env n p failure)
    (\<lambda>_. traced strict (InTurn None T c) a)"
proof (induction n arbitrary: failure)
  case 0
  show ?case unfolding executePreparedToolCall.simps by (rule ensures_stall) (rule traced_accepted)
next
  case (Suc n)
  show ?case unfolding executePreparedToolCall.simps
    by (rule ensures_andThen, rule executeStep_run, rule assms)
      (auto split: sum.splits intro!: Suc.IH ensures_give)
qed

lemma finalizeExecutedToolCall_run:
  "run_triple strict (traced strict ph a) (finalizeExecutedToolCall env cfg am p out)
    (\<lambda>f s. fz_toolCall f = pc_toolCall p \<and> traced strict ph a s)"
  unfolding finalizeExecutedToolCall_def
  by (rule ensures_andThen, rule ask_run, rule ensures_andThen, rule ensures_attempt [where Q = "\<lambda>_. traced strict ph a"],
      rule ensures_weaken [OF callHook_traced], assumption, assumption, simp, erule traced_accepted, rule ensures_give)
    (auto split: sum.splits option.splits)

lemma runToolCall_run:
  assumes "tc_id tc \<in># T"
  shows "run_triple strict (traced strict (InTurn None T c) a) (runToolCall env n cfg am tc)
    (\<lambda>f s. fz_toolCall f = tc \<and> traced strict (InTurn None T c) a s)"
  unfolding runToolCall_def
proof (rule ensures_andThen, rule prepareToolCall_run, rule ensures_pure)
  fix prep
  assume call: "\<forall>q. prep = Prepared q \<longrightarrow> pc_toolCall q = tc"
  show "run_triple strict (traced strict (InTurn None T c) a) (case prep of
         Immediate result isError \<Rightarrow> give \<lparr>fz_toolCall = tc, fz_result = result, fz_isError = isError\<rparr>
       | Prepared p \<Rightarrow> andThen (executePreparedToolCall env n p None) (finalizeExecutedToolCall env cfg am p))
     (\<lambda>f s. fz_toolCall f = tc \<and> traced strict (InTurn None T c) a s)"
  proof (cases prep)
    case (Prepared p)
    with call have p: "pc_toolCall p = tc" by simp
    show ?thesis unfolding Prepared preparation.case
      by (rule ensures_andThen, rule executePreparedToolCall_run, simp add: p assms,
          rule ensures_weaken [OF finalizeExecutedToolCall_run]) (auto simp: p)
  qed (simp add: ensures_give)
qed

section \<open>Batches of tool calls\<close>

text \<open>The results of the calls \<open>tcs\<close> that a batch returns, extended by its messages.\<close>

definition batchDone :: "bool \<Rightarrow> tool_call list \<Rightarrow> agent_message list \<Rightarrow> agent_message list \<Rightarrow> tool_result_message list \<Rightarrow> 'w run_state \<Rightarrow> bool" where
  "batchDone strict tcs c a rs s \<longleftrightarrow>
     map tr_toolCallId rs = take (length rs) (map tc_id tcs) \<and> length rs \<le> length tcs \<and> (tcs \<noteq> [] \<longrightarrow> rs \<noteq> [])
     \<and> (strict \<longrightarrow> length rs = length tcs)
     \<and> traced strict (InTurn None {#} (c @ results_of rs)) (a @ results_of rs) s"

lemma batchDone_Nil: "traced strict (InTurn None {#} c) a s \<Longrightarrow> batchDone strict [] c a [] s"
  by (simp add: batchDone_def)

lemma batchDone_Cons:
  assumes "batchDone strict tcs (c @ [ToolResultMessage m]) (a @ [ToolResultMessage m]) rs s"
    and "tr_toolCallId m = tc_id tc"
  shows "batchDone strict (tc # tcs) c a (m # rs) s"
  using assms by (auto simp: batchDone_def)

lemma batchDone_stop:
  assumes "traced strict (InTurn None {#} (c @ [ToolResultMessage m])) (a @ [ToolResultMessage m]) s"
    and "tr_toolCallId m = tc_id tc" and "\<not> strict"
  shows "batchDone strict (tc # tcs) c a [m] s"
  using assms by (simp add: batchDone_def)

lemma failTruncated_run:
  "run_triple strict (traced strict (InTurn None {#} c) a) (failToolCallsFromTruncatedMessage env tcs)
    (\<lambda>rs s. (length rs = length tcs \<and> list_all tr_isError rs) \<and> batchDone strict tcs c a rs s)"
proof (induction tcs arbitrary: c a)
  case Nil
  show ?case unfolding failToolCallsFromTruncatedMessage.simps by (rule ensures_give) (simp add: batchDone_Nil)
next
  case (Cons tc tcs)
  have call: "fz_toolCall (truncatedCall tc) = tc" "fz_isError (truncatedCall tc)"
    by (simp_all add: truncatedCall_def)
  show ?case unfolding failToolCallsFromTruncatedMessage.simps
    by (rule ensures_andThen, rule emitStart_run, rule ensures_andThen,
        rule emitEnd_run [of _ "truncatedCall tc" "{#}", unfolded call], rule ensures_andThen, rule emitToolResult_run,
        unfold call(1), rule ensures_pure, rule ensures_pure, rule ensures_andThen, rule Cons.IH,
        rule ensures_give) (use call(2) in \<open>auto intro: batchDone_Cons\<close>)
qed

text \<open>The signal can be read as aborted only where a strict trace is not asked for.\<close>

definition abortable :: "bool \<Rightarrow> 'w loop_env \<Rightarrow> bool" where
  "abortable strict env \<longleftrightarrow> (strict \<longrightarrow> (\<forall>w. \<not> le_aborted env w))"

lemma aborted_run:
  assumes "abortable strict env"
  shows "run_triple strict P (aborted env) (\<lambda>stop s. (stop \<longrightarrow> \<not> strict) \<and> P s)"
  unfolding aborted_def by (rule ensures_ask) (use assms in \<open>auto simp: abortable_def\<close>)

lemma sequentialCalls_run:
  assumes "abortable strict env"
  shows "run_triple strict (traced strict (InTurn None {#} c) a) (sequentialCalls env n cfg am tcs)
    (\<lambda>fs. batchDone strict tcs c a (map snd fs))"
proof (induction tcs arbitrary: c a)
  case Nil
  show ?case unfolding sequentialCalls.simps by (rule ensures_give) (simp add: batchDone_Nil)
next
  case (Cons tc tcs)
  have rest: "run_triple strict (traced strict (InTurn None {#} (c @ [ToolResultMessage m])) (a @ [ToolResultMessage m]))
      (if stop then give [(f, m)] else andThen (sequentialCalls env n cfg am tcs) (\<lambda>rest. give ((f, m) # rest)))
      (\<lambda>fs. batchDone strict (tc # tcs) c a (map snd fs))"
    if "stop \<longrightarrow> \<not> strict" "tr_toolCallId m = tc_id tc" for stop f and m :: tool_result_message
    by (rule ensures_if, rule ensures_give, simp add: batchDone_stop that, rule ensures_andThen, rule Cons.IH,
        rule ensures_give) (simp add: batchDone_Cons that)
  have res: "run_triple strict (traced strict (InTurn None {#} c) a) (emitToolResult env f)
      (\<lambda>m s. tr_toolCallId m = tc_id tc
        \<and> traced strict (InTurn None {#} (c @ [ToolResultMessage m])) (a @ [ToolResultMessage m]) s)"
    if "fz_toolCall f = tc" for f
    by (rule ensures_weaken [OF emitToolResult_run]) (auto simp: that)
  have close: "run_triple strict (traced strict (InTurn None (add_mset (tc_id tc) {#}) c) a) (emitToolExecutionEnd env f)
      (\<lambda>_. traced strict (InTurn None {#} c) a)" if "fz_toolCall f = tc" for f
    using emitEnd_run [of strict f "{#}" c a env] that by simp
  show ?case unfolding sequentialCalls.simps
    by (rule ensures_andThen, rule emitStart_run, rule ensures_andThen, rule runToolCall_run, simp, rule ensures_pure,
        rule ensures_andThen, erule close, rule ensures_andThen, erule res, rule ensures_pure,
        rule ensures_andThen, rule aborted_run [OF assms], rule ensures_pure, erule (1) rest)
qed

lemma executeToolCallsSequential_run:
  assumes "abortable strict env"
  shows "run_triple strict (traced strict (InTurn None {#} c) a) (executeToolCallsSequential env n cfg am)
    (\<lambda>r. batchDone strict (toolCalls am) c a (fst r))"
  unfolding executeToolCallsSequential_def
  by (rule ensures_andThen, rule sequentialCalls_run [OF assms], rule ensures_give) simp

end
