(* ===== verification/AgentRun.thy ===== *)
theory AgentRun
  imports AgentTrace
begin

text \<open>
  Parallel batches and the whole loop keep the event protocol of \<open>AgentTrace\<close>: the events of a run
  are a prefix of a protocol run however it ends, and a complete one when the run returns.
\<close>

section \<open>Parallel batches\<close>

fun entryCall :: "batch_entry \<Rightarrow> tool_call" where
  "entryCall (Decided f) = fz_toolCall f"
| "entryCall (Deferred p) = pc_toolCall p"

fun entryIds :: "batch_entry \<Rightarrow> string multiset" where
  "entryIds (Decided f) = {#}"
| "entryIds (Deferred p) = {#tc_id (pc_toolCall p)#}"

fun taskCall :: "task \<Rightarrow> tool_call" where
  "taskCall (Executing p _) = pc_toolCall p"
| "taskCall (Executed p _) = pc_toolCall p"
| "taskCall (Finalizing f) = fz_toolCall f"
| "taskCall (Finished f) = fz_toolCall f"

definition taskIds :: "task \<Rightarrow> string multiset" where
  "taskIds t = (if isFinished t then {#} else {#tc_id (taskCall t)#})"

lemma taskIds_simps [simp]:
  "taskIds (Finished f) = {#}"
  "taskIds (Executing p e) = {#tc_id (pc_toolCall p)#}"
  "taskIds (Executed p r) = {#tc_id (pc_toolCall p)#}"
  "taskIds (Finalizing f) = {#tc_id (fz_toolCall f)#}"
  by (simp_all add: taskIds_def)

abbreviation openIds :: "task list \<Rightarrow> string multiset" where
  "openIds ts \<equiv> sum_list (map taskIds ts)"

abbreviation deferredIds :: "batch_entry list \<Rightarrow> string multiset" where
  "deferredIds es \<equiv> sum_list (map entryIds es)"

lemma taskIds_le: "i < length ts \<Longrightarrow> taskIds (ts ! i) \<subseteq># openIds ts"
proof (induction ts arbitrary: i)
  case (Cons u us)
  then show ?case
    by (cases i) (simp, metis Suc_less_eq add.commute length_Cons list.simps(9) mset_subset_eq_add_right nth_Cons_Suc
      subset_mset.add_increasing sum_list.Cons subset_mset.zero_le)
qed simp

lemma openIds_update:
  "i < length ts \<Longrightarrow> openIds (ts[i := t]) = openIds ts - taskIds (ts ! i) + taskIds t"
proof (induction ts arbitrary: i)
  case (Cons u us)
  then show ?case
  proof (cases i)
    case (Suc j)
    with Cons.prems have "j < length us" by simp
    from taskIds_le [OF this] obtain rest where "openIds us = taskIds (us ! j) + rest"
      by (auto simp: mset_subset_eq_exists_conv)
    with Cons.IH [OF \<open>j < length us\<close>] Suc show ?thesis by (simp add: ac_simps)
  qed (simp add: ac_simps)
qed simp

lemma openIds_finished: "list_all isFinished ts \<Longrightarrow> openIds ts = {#}"
  by (induction ts) (auto simp: taskIds_def)

lemma prepareBatch_run:
  assumes "abortable strict env"
  shows "run_triple strict (traced strict (InTurn None T c) a) (prepareBatch env cfg am tcs)
    (\<lambda>es s. (map entryCall es = take (length es) tcs \<and> (tcs \<noteq> [] \<longrightarrow> es \<noteq> []) \<and> (strict \<longrightarrow> length es = length tcs))
      \<and> traced strict (InTurn None (T + deferredIds es) c) a s)"
proof (induction tcs arbitrary: T)
  case Nil
  show ?case unfolding prepareBatch.simps by (rule ensures_give) simp
next
  case (Cons tc tcs)
  let ?good = "\<lambda>es. map entryCall es = take (length es) (tc # tcs) \<and> (strict \<longrightarrow> length es = length (tc # tcs))"
  let ?post = "\<lambda>es s. (map entryCall es = take (length es) (tc # tcs) \<and> (tc # tcs \<noteq> [] \<longrightarrow> es \<noteq> [])
      \<and> (strict \<longrightarrow> length es = length (tc # tcs))) \<and> traced strict (InTurn None (T + deferredIds es) c) a s"
  have decide: "run_triple strict (traced strict (InTurn None (add_mset (tc_id tc) T) c) a)
      (case prep of Immediate result isError \<Rightarrow>
           (let f = \<lparr>fz_toolCall = tc, fz_result = result, fz_isError = isError\<rparr> in
            andThen (emitToolExecutionEnd env f) (\<lambda>_. give (Decided f)))
       | Prepared p \<Rightarrow> give (Deferred p))
      (\<lambda>e s. entryCall e = tc \<and> traced strict (InTurn None (T + entryIds e) c) a s)"
    if call: "\<forall>q. prep = Prepared q \<longrightarrow> pc_toolCall q = tc" for prep
  proof (cases prep)
    case (Immediate r b)
    let ?f = "\<lparr>fz_toolCall = tc, fz_result = r, fz_isError = b\<rparr>"
    have "run_triple strict (traced strict (InTurn None (add_mset (tc_id tc) T) c) a) (emitToolExecutionEnd env ?f)
        (\<lambda>_. traced strict (InTurn None T c) a)"
      using emitEnd_run [of strict ?f T c a env] by simp
    then show ?thesis unfolding Immediate preparation.case Let_def
      by (rule ensures_andThen) (rule ensures_give, simp)
  next
    case (Prepared p)
    with call show ?thesis by (auto intro!: ensures_give)
  qed
  have rest: "run_triple strict (traced strict (InTurn None (T + entryIds e) c) a)
      (if stop then give [e] else andThen (prepareBatch env cfg am tcs) (\<lambda>rest. give (e # rest))) ?post"
    if "stop \<longrightarrow> \<not> strict" "entryCall e = tc" for stop e
    by (rule ensures_if, rule ensures_give, simp add: that, rule ensures_andThen, rule Cons.IH, rule ensures_give)
      (auto simp: that add.assoc)
  show ?case unfolding prepareBatch.simps
    by (rule ensures_andThen, rule emitStart_run, rule ensures_andThen, rule prepareToolCall_run, rule ensures_pure,
        rule ensures_andThen, erule decide, rule ensures_pure, rule ensures_andThen, rule aborted_run [OF assms],
        rule ensures_pure, erule (1) rest)
qed

lemma taskStep_run:
  assumes "\<not> isFinished t"
  shows "run_triple strict (traced strict (InTurn None (T + taskIds t) c) a) (taskStep env cfg am t)
    (\<lambda>t' s. taskCall t' = taskCall t \<and> traced strict (InTurn None (T + taskIds t') c) a s)"
proof (cases t)
  case (Executing p e)
  show ?thesis unfolding Executing taskStep_def task.case
    by (rule ensures_andThen, rule executeStep_run, simp, rule ensures_give) (auto split: sum.splits)
next
  case (Executed p out)
  show ?thesis unfolding Executed taskStep_def task.case
    by (rule ensures_andThen, rule finalizeExecutedToolCall_run, rule ensures_pure, rule ensures_give) simp
next
  case (Finalizing f)
  have "run_triple strict (traced strict (InTurn None (T + taskIds (Finalizing f)) c) a) (emitToolExecutionEnd env f)
      (\<lambda>_. traced strict (InTurn None T c) a)"
    using emitEnd_run [of strict f T c a env] by simp
  then show ?thesis unfolding Finalizing taskStep_def task.case
    by (rule ensures_andThen) (rule ensures_give, simp)
qed (use assms in simp)

lemma startTasks_run:
  "run_triple strict (traced strict (InTurn None (T + deferredIds es) c) a) (startTasks env cfg am es)
    (\<lambda>ts s. map taskCall ts = map entryCall es \<and> traced strict (InTurn None (T + openIds ts) c) a s)"
proof (induction es arbitrary: T)
  case Nil
  show ?case unfolding startTasks.simps by (rule ensures_give) simp
next
  case (Cons e es)
  have first: "run_triple strict (traced strict (InTurn None (T + deferredIds (e # es)) c) a)
      (case e of Decided f \<Rightarrow> give (Finished f) | Deferred p \<Rightarrow> taskStep env cfg am (Executing p None))
      (\<lambda>t s. taskCall t = entryCall e \<and> traced strict (InTurn None ((T + taskIds t) + deferredIds es) c) a s)"
  proof (cases e)
    case (Decided f)
    then show ?thesis by (auto intro!: ensures_give)
  next
    case (Deferred p)
    have "run_triple strict (traced strict (InTurn None ((T + deferredIds es) + taskIds (Executing p None)) c) a)
       (taskStep env cfg am (Executing p None))
       (\<lambda>t s. taskCall t = taskCall (Executing p None) \<and> traced strict (InTurn None ((T + deferredIds es) + taskIds t) c) a s)"
      by (rule taskStep_run) simp
    then show ?thesis by (simp add: Deferred ac_simps)
  qed
  show ?case unfolding startTasks.simps
    by (rule ensures_andThen, rule first, rule ensures_pure, rule ensures_andThen, rule Cons.IH, rule ensures_give)
      (simp add: ac_simps)
qed

lemma taskResult_call: "isFinished t \<Longrightarrow> map fz_toolCall (taskResult t) = [taskCall t]"
  by (cases t) simp_all

lemma results_calls: "list_all isFinished ts \<Longrightarrow> map fz_toolCall (concat (map taskResult ts)) = map taskCall ts"
  by (induction ts) (simp_all add: taskResult_call)

definition runningTasks :: "task list \<Rightarrow> nat list" where
  "runningTasks ts = filter (\<lambda>i. \<not> isFinished (ts ! i)) [0..<length ts]"

lemma runningTasks_Nil: "runningTasks ts = [] \<longleftrightarrow> list_all isFinished ts"
  by (auto simp: runningTasks_def list_all_length filter_empty_conv)

lemma runningTasks_mem: "i \<in> set (runningTasks ts) \<Longrightarrow> i < length ts \<and> \<not> isFinished (ts ! i)"
  by (simp add: runningTasks_def)

lemma scheduled_task: "runningTasks ts \<noteq> [] \<Longrightarrow> runningTasks ts ! (k mod length (runningTasks ts)) \<in> set (runningTasks ts)"
  by simp

lemma settleTasks_run:
  "run_triple strict (traced strict (InTurn None (openIds ts) c) a) (settleTasks env n cfg am ts)
    (\<lambda>fs s. map fz_toolCall fs = map taskCall ts \<and> traced strict (InTurn None {#} c) a s)"
proof (induction n arbitrary: ts)
  case 0
  show ?case unfolding settleTasks.simps by (rule ensures_stall) (rule traced_accepted)
next
  case (Suc n)
  let ?post = "\<lambda>fs s. map fz_toolCall fs = map taskCall ts \<and> traced strict (InTurn None {#} c) a s"
  show ?case
  proof (cases "runningTasks ts = []")
    case True
    then have "list_all isFinished ts" by (simp add: runningTasks_Nil)
    then show ?thesis unfolding settleTasks.simps runningTasks_def [symmetric] Let_def True if_P [OF refl]
      by - (rule ensures_give, simp add: results_calls openIds_finished)
  next
    case False
    have step: "run_triple strict (traced strict (InTurn None (openIds ts) c) a) (taskStep env cfg am (ts ! i))
        (\<lambda>t s. taskCall t = taskCall (ts ! i) \<and> traced strict (InTurn None (openIds (ts[i := t])) c) a s)"
      if "i \<in> set (runningTasks ts)" for i
    proof -
      have i: "i < length ts" "\<not> isFinished (ts ! i)" using runningTasks_mem [OF that] by auto
      from taskIds_le [OF i(1)] have "openIds ts - taskIds (ts ! i) + taskIds (ts ! i) = openIds ts" by simp
      then show ?thesis
        using taskStep_run [OF i(2), of strict "openIds ts - taskIds (ts ! i)" c a env cfg am]
        by (simp add: openIds_update [OF i(1)])
    qed
    have rest: "run_triple strict (traced strict (InTurn None (openIds (ts[i := t])) c) a)
        (settleTasks env n cfg am (ts[i := t])) ?post" if "taskCall t = taskCall (ts ! i)" for i t
      using Suc.IH [of "ts[i := t]"] that by (simp add: map_update) (metis list_update_id map_update)
    show ?thesis unfolding settleTasks.simps runningTasks_def [symmetric] Let_def
      by (simp only: False if_False, rule ensures_andThen, rule outside_run, rule ensures_andThen,
          rule step, rule scheduled_task [OF False], rule ensures_pure, erule rest)
  qed
qed

lemma emitResults_run:
  "run_triple strict (traced strict (InTurn None {#} c) a) (emitResults env fs)
    (\<lambda>rs s. map tr_toolCallId rs = map (tc_id \<circ> fz_toolCall) fs
      \<and> traced strict (InTurn None {#} (c @ results_of rs)) (a @ results_of rs) s)"
proof (induction fs arbitrary: c a)
  case Nil
  show ?case unfolding emitResults.simps by (rule ensures_give) simp
next
  case (Cons f fs)
  show ?case unfolding emitResults.simps
    by (rule ensures_andThen, rule emitToolResult_run, rule ensures_pure, rule ensures_pure, rule ensures_andThen,
        rule Cons.IH, rule ensures_give) simp
qed

lemma executeToolCallsParallel_run:
  assumes "abortable strict env"
  shows "run_triple strict (traced strict (InTurn None {#} c) a) (executeToolCallsParallel env n cfg am)
    (\<lambda>r. batchDone strict (toolCalls am) c a (fst r))"
proof -
  have complete: "batchDone strict (toolCalls am) c a rs s"
    if "map entryCall es = take (length es) (toolCalls am) \<and> (toolCalls am \<noteq> [] \<longrightarrow> es \<noteq> [])
        \<and> (strict \<longrightarrow> length es = length (toolCalls am))"
      and "map taskCall ts = map entryCall es" and "map fz_toolCall fs = map taskCall ts"
      and "map tr_toolCallId rs = map (tc_id \<circ> fz_toolCall) fs"
      and "traced strict (InTurn None {#} (c @ results_of rs)) (a @ results_of rs) s"
    for es ts fs rs and s :: "'b run_state"
  proof -
    have "map tr_toolCallId rs = map tc_id (map fz_toolCall fs)" using that(4) by simp
    also have "\<dots> = map tc_id (take (length es) (toolCalls am))" using that(1-3) by simp
    finally have ids: "map tr_toolCallId rs = map tc_id (take (length es) (toolCalls am))" .
    have "length es = length (take (length es) (toolCalls am))" using that(1) by (metis length_map)
    moreover have "length rs = length (take (length es) (toolCalls am))" using ids by (metis length_map)
    ultimately have len: "length rs = length es" "length es \<le> length (toolCalls am)" by simp_all
    with ids that(1,5) show ?thesis by (auto simp: batchDone_def take_map)
  qed
  show ?thesis unfolding executeToolCallsParallel_def
    by (rule ensures_andThen, rule prepareBatch_run [OF assms], rule ensures_pure, rule ensures_andThen,
        rule startTasks_run, rule ensures_pure, rule ensures_andThen, simp only: empty_neutral,
        rule settleTasks_run, rule ensures_pure, rule ensures_andThen, rule emitResults_run, rule ensures_pure,
        rule ensures_give, unfold fst_conv, erule (4) complete)
qed

lemma executeToolCalls_run:
  assumes "abortable strict env"
  shows "run_triple strict (traced strict (InTurn None {#} c) a) (executeToolCalls env n cfg am)
    (\<lambda>r. batchDone strict (toolCalls am) c a (fst r))"
  unfolding executeToolCalls_def
  by (rule ensures_andThen, rule ask_run, rule ensures_if, rule executeToolCallsSequential_run [OF assms],
      rule executeToolCallsParallel_run [OF assms])

section \<open>Turns\<close>

lemma pushResults_run:
  "run_triple strict (traced strict ph (results_of rs))
    (for_each (\<lambda>m. andThen (pushContext (ToolResultMessage m)) (\<lambda>_. pushNew (ToolResultMessage m))) rs)
    (\<lambda>_. traced strict ph [])"
proof (induction rs)
  case Nil
  show ?case by (simp add: ensures_give)
next
  case (Cons r rs)
  show ?case unfolding for_each.simps list.map
    by (rule ensures_andThen, rule ensures_andThen, rule pushContext_run, rule pushNew_run, rule Cons.IH)
qed

lemma runBatch_run:
  assumes env: "abortable strict env" and am: "am_stopReason am \<noteq> ErrorStop" "am_stopReason am \<noteq> AbortedStop"
  shows "run_triple strict (traced strict (InTurn None {#} c) []) (runBatch env n cfg am)
    (\<lambda>r s. answers strict am (fst r) \<and> traced strict (InTurn None {#} (c @ results_of (fst r))) [] s)"
proof (cases "toolCalls am = []")
  case True
  then have "answers strict am []" using am by (simp add: answers_def)
  then show ?thesis unfolding runBatch_def by (simp add: True ensures_give)
next
  case False
  let ?mid = "\<lambda>r s. answers strict am (fst r) \<and> traced strict (InTurn None {#} (c @ results_of (fst r))) (results_of (fst r)) s"
  have executed: "run_triple strict (traced strict (InTurn None {#} c) [])
      (if am_stopReason am = LengthStop
       then andThen (failToolCallsFromTruncatedMessage env (toolCalls am)) (\<lambda>ms. give (ms, False))
       else executeToolCalls env n cfg am) ?mid"
  proof (rule ensures_if)
    assume "am_stopReason am = LengthStop"
    then show "run_triple strict (traced strict (InTurn None {#} c) [])
        (andThen (failToolCallsFromTruncatedMessage env (toolCalls am)) (\<lambda>ms. give (ms, False))) ?mid"
      by (rule_tac ensures_andThen, rule_tac failTruncated_run, rule_tac ensures_give)
        (auto simp: answers_def am batchDone_def)
  next
    assume "am_stopReason am \<noteq> LengthStop"
    then show "run_triple strict (traced strict (InTurn None {#} c) []) (executeToolCalls env n cfg am) ?mid"
      by (rule_tac ensures_weaken [OF executeToolCalls_run [OF env]])
        (auto simp: answers_def am batchDone_def)
  qed
  have push: "run_triple strict (\<lambda>s. answers strict am (fst r) \<and> traced strict (InTurn None {#} (c @ results_of (fst r))) (results_of (fst r)) s)
      (case r of (results, terminate) \<Rightarrow>
         andThen (for_each (\<lambda>m. andThen (pushContext (ToolResultMessage m)) (\<lambda>_. pushNew (ToolResultMessage m))) results)
           (\<lambda>_. give (results, \<not> terminate)))
      (\<lambda>r s. answers strict am (fst r) \<and> traced strict (InTurn None {#} (c @ results_of (fst r))) [] s)"
    for r :: "tool_result_message list \<times> bool"
    by (cases r, simp only: prod.case fst_conv, rule ensures_pure, rule ensures_andThen, rule pushResults_run,
        rule ensures_give) simp
  show ?thesis unfolding runBatch_def
    by (simp only: False if_False, rule ensures_andThen, rule executed, rule push)
qed

lemma turnEnd_run:
  assumes "answers strict am rs"
  shows "run_triple strict (traced strict (InTurn None {#} (c @ AssistantMessage am # results_of rs)) a)
    (emit env (TurnEnd (AssistantMessage am) rs)) (\<lambda>_. traced strict Between a)"
  by (rule emit_silent) (simp add: assms)

lemma endRun_run: "run_triple strict (traced strict Between []) (endRun env) (\<lambda>_. traced strict Ended [])"
proof -
  have "run_triple strict (\<lambda>s. rs_new s = new \<and> traced strict Between [] s) (emit env (AgentEnd new))
      (\<lambda>_. traced strict Ended [])" for new
    unfolding emit_def
    by (rule ensures_andThen, rule ensures_change [where Q = "\<lambda>_. traced strict Ended []"])
      (auto simp: traced_def intro: outside_run)
  then show ?thesis unfolding endRun_def
    by (rule_tac ensures_andThen [where R = "\<lambda>new s. rs_new s = new \<and> traced strict Between [] s"])
      (auto intro: ensures_ask)
qed

text \<open>What a turn leaves behind.\<close>

fun afterTurn :: "bool \<Rightarrow> 'w turn_result \<Rightarrow> 'w run_state \<Rightarrow> bool" where
  "afterTurn strict StopRun = traced strict Ended []"
| "afterTurn strict (NextTurn _ _ _) = traced strict Between []"

lemma applyUpdate_run: "run_triple strict (traced strict ph a) (applyUpdate cfg update) (\<lambda>_. traced strict ph a)"
  unfolding applyUpdate_def
  by (auto split: option.splits intro!: ensures_give ensures_andThen [where R = "\<lambda>_. traced strict ph a"] ensures_change
      simp: traced_def)

lemma turnContext_run: "run_triple strict (traced strict ph a) (turnContext am rs) (\<lambda>_. traced strict ph a)"
  unfolding turnContext_def by (rule ask_run)

lemma finishTurn_run:
  assumes "abortable strict env" and "am_stopReason am \<noteq> ErrorStop" and "am_stopReason am \<noteq> AbortedStop"
  shows "run_triple strict (traced strict (InTurn None {#} (c @ [AssistantMessage am])) []) (finishTurn env n cfg am) (afterTurn strict)"
proof -
  have stop: "run_triple strict (traced strict Between [])
      (if stop then andThen (endRun env) (\<lambda>_. give StopRun)
       else andThen (pollMessages (lc_getSteeringMessages cfg')) (\<lambda>pending. give (NextTurn cfg' more pending))) (afterTurn strict)"
    for stop cfg' more
    by (rule ensures_if, rule ensures_andThen, rule endRun_run, rule ensures_give, simp,
        rule ensures_andThen, rule pollMessages_run, rule ensures_give, simp)
  show ?thesis unfolding finishTurn_def case_prod_beta
    by (rule ensures_andThen, rule runBatch_run [OF assms], rule ensures_pure, simp only: append.assoc append.simps,
        rule ensures_andThen, erule turnEnd_run, rule ensures_andThen, rule turnContext_run, rule ensures_andThen,
        rule callHook_run, rule ensures_andThen, rule applyUpdate_run, rule ensures_andThen, rule turnContext_run,
        rule ensures_andThen, rule callHook_run, rule stop)
qed

lemma injectMessage_run:
  "run_triple strict (traced strict (InTurn None {#} c) []) (injectMessage env m)
    (\<lambda>_. traced strict (InTurn None {#} (c @ [m])) [])"
proof -
  have "run_triple strict (traced strict (InTurn None {#} c) []) (emitMessage env m)
      (\<lambda>_. traced strict (InTurn None {#} (c @ [m])) [m])"
    using emitMessage_run [of strict c "[]" env m] by simp
  then show ?thesis unfolding injectMessage_def
    by (rule ensures_andThen) (rule ensures_andThen, rule pushContext_run, rule pushNew_run)
qed

lemma injectMessages_run:
  "run_triple strict (\<lambda>s. \<exists>c. traced strict (InTurn None {#} c) [] s) (for_each (injectMessage env) ms)
    (\<lambda>_ s. \<exists>c. traced strict (InTurn None {#} c) [] s)"
  by (rule ensures_for_each, rule ensures_ex, rule ensures_weaken [OF injectMessage_run]) auto

text \<open>Where a turn may begin: in the turn that the run has opened, or between turns.\<close>

definition beforeTurn :: "bool \<Rightarrow> bool \<Rightarrow> 'w run_state \<Rightarrow> bool" where
  "beforeTurn strict firstTurn s \<longleftrightarrow>
     (if firstTurn then \<exists>c. traced strict (InTurn None {#} c) [] s else traced strict Between [] s)"

lemma runTurn_run:
  assumes "abortable strict env"
  shows "run_triple strict (beforeTurn strict firstTurn) (runTurn env n cfg firstTurn pending) (afterTurn strict)"
proof -
  let ?in = "\<lambda>s. \<exists>c. traced strict (InTurn None {#} c) [] s"
  have open_turn: "run_triple strict (beforeTurn strict firstTurn) (if firstTurn then give () else emit env TurnStart) (\<lambda>_. ?in)"
  proof (cases firstTurn)
    case True
    then show ?thesis by (auto simp: beforeTurn_def intro!: ensures_give)
  next
    case False
    have "run_triple strict (traced strict Between []) (emit env TurnStart) (\<lambda>_. traced strict (InTurn None {#} []) [])"
      by (rule emit_silent) simp
    then have "run_triple strict (beforeTurn strict False) (emit env TurnStart) (\<lambda>_. ?in)"
      by (rule ensures_weaken) (auto simp: beforeTurn_def)
    then show ?thesis using False by simp
  qed
  have response: "run_triple strict ?in (streamAssistantResponse env n cfg)
      (\<lambda>am s. \<exists>c. traced strict (InTurn None {#} (c @ [AssistantMessage am])) [AssistantMessage am] s)"
    by (rule ensures_ex, rule ensures_weaken [OF streamAssistantResponse_run]) auto
  have failed: "run_triple strict (traced strict (InTurn None {#} (c @ [AssistantMessage am])) [])
      (andThen (emit env (TurnEnd (AssistantMessage am) [])) (\<lambda>_. andThen (endRun env) (\<lambda>_. give StopRun))) (afterTurn strict)"
    if "am_stopReason am = ErrorStop \<or> am_stopReason am = AbortedStop" for c am
    using that turnEnd_run [of strict am "[]" c "[]" env]
    by (auto simp: answers_def intro!: ensures_andThen [OF _ ensures_andThen [OF endRun_run ensures_give]])
  have rest: "run_triple strict (traced strict (InTurn None {#} (c @ [AssistantMessage am])) [])
      (if am_stopReason am = ErrorStop \<or> am_stopReason am = AbortedStop
       then andThen (emit env (TurnEnd (AssistantMessage am) [])) (\<lambda>_. andThen (endRun env) (\<lambda>_. give StopRun))
       else finishTurn env n cfg am) (afterTurn strict)" for c am
    by (rule ensures_if, erule failed, rule finishTurn_run [OF assms]) auto
  show ?thesis unfolding runTurn_def
    by (rule ensures_andThen, rule open_turn, rule ensures_andThen, rule injectMessages_run, rule ensures_andThen,
        rule response, rule ensures_ex, rule ensures_andThen, rule pushNew_run, rule rest)
qed

lemma turns_run:
  assumes env: "abortable strict env" and "firstTurn \<longrightarrow> hasMore"
  shows "run_triple strict (beforeTurn strict firstTurn) (turns env fuel n cfg firstTurn hasMore pending) (\<lambda>_. traced strict Ended [])"
  using assms(2)
proof (induction n arbitrary: cfg firstTurn hasMore pending)
  case 0
  show ?case unfolding turns.simps
    by (rule ensures_stall) (auto simp: beforeTurn_def split: if_splits intro: traced_accepted)
next
  case (Suc n)
  have more: "run_triple strict (afterTurn strict r) (case r of StopRun \<Rightarrow> give ()
      | NextTurn cfg' hasMore' pending' \<Rightarrow> turns env fuel n cfg' False hasMore' pending') (\<lambda>_. traced strict Ended [])" for r
  proof (cases r)
    case (NextTurn cfg' hasMore' pending')
    have "afterTurn strict r = beforeTurn strict False" by (rule ext) (simp add: NextTurn beforeTurn_def)
    then show ?thesis using Suc.IH [of False] NextTurn by simp
  qed (simp add: ensures_give)
  show ?case
  proof (cases "hasMore \<or> pending \<noteq> []")
    case True
    then show ?thesis unfolding turns.simps
      by (simp only: if_True) (rule ensures_andThen, rule runTurn_run [OF env], rule more)
  next
    case False
    with Suc.prems have "beforeTurn strict firstTurn = traced strict Between []" for strict
      by (intro ext) (simp add: beforeTurn_def)
    then have pre: "beforeTurn strict firstTurn = (traced strict Between [] :: 'a run_state \<Rightarrow> bool)" .
    have follow: "run_triple strict (traced strict Between [])
        (if fs \<noteq> [] then turns env fuel n cfg firstTurn True fs else endRun env) (\<lambda>_. traced strict Ended [])" for fs
      using Suc.IH [of firstTurn True] by (simp add: pre endRun_run)
    show ?thesis unfolding turns.simps pre
      by (simp only: False if_False) (rule ensures_andThen, rule pollMessages_run, rule follow)
  qed
qed

lemma runLoop_run:
  assumes "abortable strict env"
  shows "run_triple strict (\<lambda>s. \<exists>c. traced strict (InTurn None {#} c) [] s) (runLoop env fuel n cfg) (\<lambda>_. traced strict Ended [])"
proof -
  have poll: "run_triple strict (\<lambda>s. \<exists>c. traced strict (InTurn None {#} c) [] s) (pollMessages h) (\<lambda>_. beforeTurn strict True)"
    for h
    by (rule ensures_ex, rule ensures_weaken [OF pollMessages_run]) (auto simp: beforeTurn_def)
  show ?thesis unfolding runLoop_def
    by (rule ensures_andThen, rule poll, rule turns_run [OF assms]) simp
qed

section \<open>The run\<close>

text \<open>While the prompts are announced, the completed messages are behind those of the run.\<close>

definition announced :: "bool \<Rightarrow> phase \<Rightarrow> agent_message list \<Rightarrow> agent_message list \<Rightarrow> 'w run_state \<Rightarrow> bool" where
  "announced strict ph new ms s \<longleftrightarrow> trace strict (rs_events s) = Some (ph, ms) \<and> rs_new s = new"

lemma emit_announced:
  assumes "traceStep strict (ph, ms) ev = Some (ph', ms')"
  shows "run_triple strict (announced strict ph new ms) (emit env ev) (\<lambda>_. announced strict ph' new ms')"
  unfolding emit_def
  by (rule ensures_andThen [OF ensures_change [where Q = "\<lambda>_. announced strict ph' new ms'"]])
    (auto simp: announced_def assms ensures_def outside_def accepted_def split: prod.splits settlement.splits)

lemma announce_prompts:
  "run_triple strict (announced strict (InTurn None {#} c) new c) (for_each (emitMessage env) prompts)
    (\<lambda>_. announced strict (InTurn None {#} (c @ prompts)) new (c @ prompts))"
proof (induction prompts arbitrary: c)
  case Nil
  show ?case unfolding for_each.simps by (rule ensures_give) simp
next
  case (Cons p ps)
  have "run_triple strict (announced strict (InTurn None {#} c) new c) (emitMessage env p)
      (\<lambda>_. announced strict (InTurn None {#} (c @ [p])) new (c @ [p]))"
    unfolding emitMessage_def by (rule ensures_andThen, rule emit_announced, simp, rule emit_announced) simp
  then show ?case unfolding for_each.simps using Cons.IH [of "c @ [p]"] by (simp add: ensures_andThen)
qed

lemma promptRun_run:
  assumes "abortable strict env"
  shows "run_triple strict (announced strict Idle prompts []) (promptRun env fuel n cfg prompts)
    (\<lambda>ms s. rs_new s = ms \<and> traced strict Ended [] s)"
proof -
  have loop: "run_triple strict (announced strict (InTurn None {#} prompts) prompts prompts) (runLoop env fuel n cfg)
      (\<lambda>_. traced strict Ended [])"
    by (rule ensures_pre [OF runLoop_run [OF assms]]) (auto simp: announced_def traced_def)
  have prompts: "run_triple strict (announced strict (InTurn None {#} []) prompts []) (for_each (emitMessage env) prompts)
    (\<lambda>_. announced strict (InTurn None {#} prompts) prompts prompts)"
    using announce_prompts [of strict "[]" prompts env prompts] by simp
  have first_turn: "run_triple strict (announced strict Between prompts []) (emit env TurnStart) (\<lambda>_. announced strict (InTurn None {#} []) prompts [])"
    by (rule emit_announced) simp
  have beginning: "run_triple strict (announced strict Idle prompts []) (emit env AgentStart) (\<lambda>_. announced strict Between prompts [])"
    by (rule emit_announced) simp
  show ?thesis unfolding promptRun_def
    by (rule ensures_andThen, rule beginning, rule ensures_andThen, rule first_turn, rule ensures_andThen,
        rule prompts, rule ensures_andThen, rule loop, rule ensures_ask) simp
qed

lemma initialRun_announced: "announced strict Idle prompts [] (initialRun w context prompts)"
  by (simp add: announced_def initialRun_def)

section \<open>The configuration between turns\<close>

text \<open>A turn replaces at most the model and the reasoning level; the hooks stay.\<close>

definition sameHooks :: "'w loop_config \<Rightarrow> 'w loop_config \<Rightarrow> bool" where
  "sameHooks cfg cfg' \<longleftrightarrow> (\<exists>m r. cfg' = cfg\<lparr>lc_model := m, lc_reasoning := r\<rparr>)"

lemma sameHooks_refl [simp]: "sameHooks cfg cfg"
  unfolding sameHooks_def by (rule exI [of _ "lc_model cfg"], rule exI [of _ "lc_reasoning cfg"]) simp

lemma sameHooks_update [simp]: "sameHooks cfg (updateConfig cfg u)"
  by (auto simp: sameHooks_def updateConfig_def)

abbreviation value_triple :: "('w run_state, 'a) action \<Rightarrow> ('a \<Rightarrow> bool) \<Rightarrow> bool" where
  "value_triple m Q \<equiv> ensures (\<lambda>_. True) m (\<lambda>x _. Q x) (\<lambda>_. True) (\<lambda>_. True)"

lemma value_triple_andThen:
  assumes "value_triple m R" and "\<And>x. R x \<Longrightarrow> value_triple (f x) Q"
  shows "value_triple (andThen m f) Q"
  by (rule ensures_andThen [OF assms(1)]) (use assms(2) in \<open>auto simp: ensures_def\<close>)

lemma value_triple_any: "value_triple m (\<lambda>_. True)"
  by (rule ensures_any)

lemma value_triple_give: "Q x \<Longrightarrow> value_triple (give x) Q"
  by (rule ensures_give)

lemma applyUpdate_config: "value_triple (applyUpdate cfg u) (sameHooks cfg)"
  unfolding applyUpdate_def
  by (cases u) (auto intro!: value_triple_give value_triple_andThen [OF value_triple_any])

definition keepsHooks :: "'w loop_config \<Rightarrow> 'w turn_result \<Rightarrow> bool" where
  "keepsHooks cfg r \<longleftrightarrow> (\<forall>cfg' m ps. r = NextTurn cfg' m ps \<longrightarrow> sameHooks cfg cfg')"

lemma runTurn_config: "value_triple (runTurn env n cfg firstTurn pending) (keepsHooks cfg)"
proof -
  note skip = value_triple_andThen [OF value_triple_any]
  have fin: "value_triple (finishTurn env n cfg am) (keepsHooks cfg)" for am
    unfolding finishTurn_def case_prod_beta
    by (rule skip, rule skip, rule skip, rule skip, rule value_triple_andThen [OF applyUpdate_config], rule skip, rule skip,
        rule ensures_if, rule skip, rule value_triple_give, simp add: keepsHooks_def, rule skip, rule value_triple_give)
      (simp add: keepsHooks_def)
  show ?thesis unfolding runTurn_def
    by (rule skip, rule skip, rule skip, rule skip, rule ensures_if, rule skip, rule skip, rule value_triple_give,
        simp add: keepsHooks_def, rule fin)
qed

lemma runTurn_hooks: "runTurn env n cfg firstTurn pending s = (Returned (NextTurn cfg' m ps), s') \<Longrightarrow> sameHooks cfg cfg'"
  using ensures_Returned [OF runTurn_config] by (fastforce simp: keepsHooks_def)

end
