(* ===== verification/AgentProps.thy ===== *)
theory AgentProps
  imports AgentRun
begin

text \<open>
  What a subscriber of a run may rely on: the events follow the protocol whatever the environment
  does, a run that returns is complete, and tool calls are answered. The demo environment at the
  end plays a list of responses; the witnesses run it.
\<close>

lemma trace_Cons_mono: "trace strict (evs @ later) \<noteq> None \<Longrightarrow> trace strict evs \<noteq> None"
  by (induction later rule: rev_induct) (auto simp flip: append_assoc split: Option.bind_splits)

text \<open>Every end of a turn in an accepted sequence answers its message.\<close>

lemma accepted_answers:
  assumes "trace strict evs \<noteq> None" and "TurnEnd m rs \<in> set evs"
  shows "\<exists>am. m = AssistantMessage am \<and> answers strict am rs"
proof -
  obtain xs ys where evs: "evs = (xs @ [TurnEnd m rs]) @ ys" using assms(2) by (metis append.assoc append_Cons append_Nil split_list)
  with assms(1) have "trace strict (xs @ [TurnEnd m rs]) \<noteq> None" by (metis trace_Cons_mono)
  then obtain ph ms where "traceStep strict (ph, ms) (TurnEnd m rs) \<noteq> None"
    by (cases "trace strict xs") auto
  then show ?thesis
    by (cases "(strict, (ph, ms), TurnEnd m rs)" rule: traceStep.cases)
      (auto split: if_splits elim!: turnMatches.elims)
qed

lemma promptRun_outcome:
  assumes "abortable strict env" and "promptRun env fuel n cfg prompts (initialRun w ctx prompts) = (r, s)"
  shows "trace strict (rs_events s) \<noteq> None \<and> (\<forall>ms. r = Returned ms \<longrightarrow> trace strict (rs_events s) = Some (Ended, ms))"
proof -
  note run = promptRun_run [OF assms(1)] and start = initialRun_announced
  show ?thesis
  proof (cases r)
    case (Returned ms)
    with ensures_Returned [OF run start] assms(2) have "rs_new s = ms \<and> traced strict Ended [] s" by blast
    then show ?thesis by (simp add: Returned traced_def)
  next
    case (Thrown e)
    with ensures_Thrown [OF run start] assms(2) have "accepted strict s" by blast
    then show ?thesis by (simp add: Thrown accepted_def)
  next
    case Stalled
    with ensures_Stalled [OF run start] assms(2) have "accepted strict s" by blast
    then show ?thesis by (simp add: Stalled accepted_def)
  qed
qed

lemma continue_outcome:
  assumes "abortable strict env" and "runAgentLoopContinue env fuel n ctx cfg w = (r, s)"
  shows "trace strict (rs_events s) \<noteq> None \<and> (\<forall>ms. r = Returned ms \<longrightarrow> trace strict (rs_events s) = Some (Ended, ms))"
proof (cases "ac_messages ctx = [] \<or> role (last (ac_messages ctx)) = AssistantRole")
  case True
  with assms(2) have "rs_events s = []" and "\<exists>e. r = Thrown e"
    by (auto simp: runAgentLoopContinue_def Let_def initialRun_def split: if_splits)
  then show ?thesis by auto
next
  case False
  with assms(2) have "promptRun env fuel n cfg [] (initialRun w ctx []) = (r, s)"
    by (simp add: runAgentLoopContinue_def Let_def)
  then show ?thesis by (rule promptRun_outcome [OF assms(1)])
qed

section \<open>A demo environment\<close>

text \<open>The world: the responses to come and the calls that tools executed. The signal is never aborted.\<close>

record demo_world =
  dw_responses :: "assistant_message list"
  dw_executed :: "string list"

definition demo_usage :: usage where
  "demo_usage = \<lparr>u_input = 0, u_output = 0, u_cacheRead = 0, u_cacheWrite = 0, u_cacheWrite1h = None, u_reasoning = None,
     u_totalTokens = 0, u_cost = \<lparr>cost_input = 0, cost_output = 0, cost_cacheRead = 0,
       cost_cacheWrite = 0, cost_total = 0\<rparr>\<rparr>"

definition demo_reply :: "content list \<Rightarrow> stop_reason \<Rightarrow> assistant_message" where
  "demo_reply content reason = \<lparr>am_content = content, am_api = ''a'', am_provider = ''p'', am_model = ''m'',
     am_responseModel = None, am_responseId = None, am_diagnostics = None, am_usage = demo_usage,
     am_stopReason = reason, am_deferred = None, am_errorMessage = None, am_rawStopReason = None, am_endTurn = None,
     am_timestamp = 0\<rparr>"

definition demo_call :: "string \<Rightarrow> content" where
  "demo_call i = ToolCallContent \<lparr>tc_id = i, tc_name = ''t'', tc_arguments = [], tc_thoughtSignature = None, tc_namespace = None\<rparr>"

definition demo_result :: tool_result where
  "demo_result = \<lparr>rt_content = Some [], rt_details = None, rt_usage = None, rt_addedToolNames = None, rt_terminate = None\<rparr>"

definition demo_env :: "demo_world loop_env" where
  "demo_env = \<lparr>le_emit = (\<lambda>ev. give ()), le_aborted = (\<lambda>_. False), le_streamFunction = (\<lambda>_. give ()),
     le_nextEvent = give None,
     le_result = (\<lambda>w. case dw_responses w of [] \<Rightarrow> (Returned (demo_reply [] StopStop), w)
       | m # ms \<Rightarrow> (Returned m, w\<lparr>dw_responses := ms\<rparr>)),
     le_validate = (\<lambda>_ tc. Returned (tc_arguments tc)), le_prepareArguments = (\<lambda>_. None),
     le_execute = (\<lambda>_ i _ w. (Returned (ToolReturn demo_result), w\<lparr>dw_executed := dw_executed w @ [i]\<rparr>)),
     le_schedule = (\<lambda>_. give 1), le_now = give 0\<rparr>"

definition demo_config :: "demo_world loop_config" where
  "demo_config = \<lparr>lc_model = \<lparr>lm_id = ''m'', lm_api = ''a'', lm_provider = ''p''\<rparr>, lc_reasoning = None, lc_apiKey = None,
     lc_toolExecution = None, lc_convertToLlm = give, lc_transformContext = None, lc_getApiKey = None,
     lc_getSteeringMessages = None, lc_getFollowUpMessages = None, lc_beforeToolCall = None, lc_afterToolCall = None,
     lc_prepareNextTurn = None, lc_shouldStopAfterTurn = None\<rparr>"

definition demo_tool :: agent_tool where
  "demo_tool = \<lparr>at_name = ''t'', at_parameters = JsonNull, at_executionMode = None, at_ref = 0\<rparr>"

definition demo_context :: agent_context where
  "demo_context = \<lparr>ac_systemPrompt = [], ac_messages = [], ac_tools = Some [demo_tool]\<rparr>"

definition demo_prompt :: agent_message where
  "demo_prompt = UserMessage \<lparr>um_content = TextBody ''q'', um_timestamp = 0\<rparr>"

definition demo_start :: demo_world where
  "demo_start = \<lparr>dw_responses = [demo_reply [demo_call ''1'', demo_call ''2''] ToolUseStop], dw_executed = []\<rparr>"

lemma demo_env_sel:
  "le_emit demo_env = (\<lambda>ev. give ())" "le_aborted demo_env = (\<lambda>_. False)" "le_streamFunction demo_env = (\<lambda>_. give ())"
  "le_nextEvent demo_env = give None" "le_validate demo_env = (\<lambda>_ tc. Returned (tc_arguments tc))"
  "le_result demo_env = (\<lambda>w. case dw_responses w of [] \<Rightarrow> (Returned (demo_reply [] StopStop), w)
     | m # ms \<Rightarrow> (Returned m, w\<lparr>dw_responses := ms\<rparr>))"
  "le_prepareArguments demo_env = (\<lambda>_. None)" "le_schedule demo_env = (\<lambda>_. give 1)" "le_now demo_env = give 0"
  "le_execute demo_env = (\<lambda>_ i _ w. (Returned (ToolReturn demo_result), w\<lparr>dw_executed := dw_executed w @ [i]\<rparr>))"
  by (simp_all add: demo_env_def)

lemma demo_config_sel:
  "lc_toolExecution demo_config = None" "lc_convertToLlm demo_config = give" "lc_transformContext demo_config = None"
  "lc_getApiKey demo_config = None" "lc_getSteeringMessages demo_config = None" "lc_getFollowUpMessages demo_config = None"
  "lc_beforeToolCall demo_config = None" "lc_afterToolCall demo_config = None" "lc_prepareNextTurn demo_config = None"
  "lc_shouldStopAfterTurn demo_config = None"
  by (simp_all add: demo_config_def)

lemma demo_reply_sel: "am_content (demo_reply c r) = c" "am_stopReason (demo_reply c r) = r" "am_errorMessage (demo_reply c r) = None"
  by (simp_all add: demo_reply_def)

lemma demo_tool_sel: "at_name demo_tool = ''t''" "at_executionMode demo_tool = None"
  by (simp_all add: demo_tool_def)

lemmas demo_defs = demo_env_sel demo_config_sel demo_reply_sel demo_tool_sel demo_context_def demo_start_def demo_call_def

lemmas loop_defs = runAgentLoop_def promptRun_def runLoop_def runTurn_def finishTurn_def runBatch_def
  streamAssistantResponse_def openResponse_def resolveApiKey_def finishResponse_def emit_def emitMessage_def outside_def
  callHook_def pollMessages_def pushContext_def pushNew_def replaceLast_def injectMessage_def endRun_def turnContext_def applyUpdate_def
  executeToolCalls_def executeToolCallsParallel_def executeToolCallsSequential_def prepareToolCall_def prepareFound_def
  prepareToolCallArguments_def findTool_def isSequentialTool_def toolCalls_def emitToolExecutionStart_def emitToolExecutionEnd_def
  emitToolResult_def createToolResultMessage_def toolResultMessage_def aborted_def taskStep_def executeStep_def
  finalizeExecutedToolCall_def settleExecution_def runToolCall_def shouldTerminateToolBatch_def initialRun_def

fun isReturned :: "'a settlement \<Rightarrow> bool" where
  "isReturned (Returned _) = True"
| "isReturned _ = False"

lemma demo_agent_run: "isReturned (fst (runAgentLoop demo_env 10 4 [demo_prompt] demo_context demo_config demo_start))"
  by (simp add: loop_defs demo_defs action_run eval_nat_numeral Let_def cong: andThen_run attempt_run)

section \<open>The properties\<close>

text \<open>
  C15. Whatever the provider, the tools, the hooks and the sink do, and however a run ends, the events
  emitted are the beginning of a run of the documented protocol: turns between \<open>agent_start\<close> and
  \<open>agent_end\<close>, messages that do not overlap, every \<open>tool_execution_end\<close> after its start and before
  the next message, every \<open>turn_end\<close> with the message and the results of that turn in call order.
  When the run returns they are a complete one, and the returned messages are those announced by
  \<open>message_end\<close>, which \<open>agent_end\<close> carries too.
\<close>

theorem agent_events_protocol:
  "(case runAgentLoop env fuel n prompts ctx cfg w of (r, s) \<Rightarrow>
      trace False (rs_events s) \<noteq> None \<and> (\<forall>ms. r = Returned ms \<longrightarrow> trace False (rs_events s) = Some (Ended, ms)))
   \<and> (case runAgentLoopContinue env fuel n ctx cfg w of (r, s) \<Rightarrow>
      trace False (rs_events s) \<noteq> None \<and> (\<forall>ms. r = Returned ms \<longrightarrow> trace False (rs_events s) = Some (Ended, ms)))"
proof -
  have free: "abortable False env" by (simp add: abortable_def)
  obtain r s r' s' where runs: "runAgentLoop env fuel n prompts ctx cfg w = (r, s)" "runAgentLoopContinue env fuel n ctx cfg w = (r', s')"
    by fastforce
  from promptRun_outcome [OF free runs(1) [unfolded runAgentLoop_def]] continue_outcome [OF free runs(2)]
  show ?thesis unfolding runs prod.case by blast
qed

theorem agent_events_protocol_witness:
  "\<exists>ms. trace False (rs_events (snd (runAgentLoop demo_env 10 4 [demo_prompt] demo_context demo_config demo_start))) = Some (Ended, ms)"
proof -
  obtain r s where run: "runAgentLoop demo_env 10 4 [demo_prompt] demo_context demo_config demo_start = (r, s)" by fastforce
  with demo_agent_run obtain ms where "r = Returned ms" by (cases r) auto
  with run agent_events_protocol [of demo_env 10 4 "[demo_prompt]" demo_context demo_config demo_start] show ?thesis by auto
qed

text \<open>
  C16. Unless the signal is aborted, every turn whose response neither failed nor was aborted answers
  each of its tool calls exactly once, in the order of the calls, in parallel and sequential mode
  alike and whatever order the tools finish in; a response cut off by the token limit gets error
  results only.
\<close>

theorem tool_calls_answered:
  assumes "\<forall>w. \<not> le_aborted env w"
    and "TurnEnd (AssistantMessage am) rs \<in> set (rs_events (snd (runAgentLoop env fuel n prompts ctx cfg w)))"
    and "am_stopReason am \<noteq> ErrorStop" and "am_stopReason am \<noteq> AbortedStop"
  shows "map tr_toolCallId rs = map tc_id (toolCalls am) \<and> (am_stopReason am = LengthStop \<longrightarrow> list_all tr_isError rs)"
proof -
  obtain r s where run: "runAgentLoop env fuel n prompts ctx cfg w = (r, s)" by fastforce
  have "abortable True env" using assms(1) by (simp add: abortable_def)
  from promptRun_outcome [OF this] run have "trace True (rs_events s) \<noteq> None" by (simp add: runAgentLoop_def)
  with accepted_answers assms(2) run have "answers True am rs" by fastforce
  with assms(3,4) show ?thesis by (auto simp: answers_def split: if_splits)
qed

theorem tool_calls_answered_witness:
  "\<exists>am rs. TurnEnd (AssistantMessage am) rs \<in> set (rs_events (snd (runAgentLoop demo_env 10 4 [demo_prompt] demo_context demo_config demo_start)))
     \<and> map tr_toolCallId rs = map tc_id (toolCalls am) \<and> length rs = 2"
proof -
  let ?s = "snd (runAgentLoop demo_env 10 4 [demo_prompt] demo_context demo_config demo_start)"
  let ?am = "demo_reply [demo_call ''1'', demo_call ''2''] ToolUseStop"
  have "\<exists>rs. TurnEnd (AssistantMessage ?am) rs \<in> set (rs_events ?s)"
    by (simp add: loop_defs demo_defs action_run eval_nat_numeral Let_def cong: andThen_run attempt_run) blast
  then obtain rs where "TurnEnd (AssistantMessage ?am) rs \<in> set (rs_events ?s)" ..
  moreover have "map tr_toolCallId rs = map tc_id (toolCalls ?am)"
    using tool_calls_answered [OF _ calculation] by (simp add: demo_defs)
  moreover have "length (toolCalls ?am) = 2" by (simp add: demo_defs toolCalls_def)
  ultimately show ?thesis by (metis length_map)
qed

end
