(* ===== verification/AgentGuards.thy ===== *)
theory AgentGuards
  imports AgentProps
begin

text \<open>
  The guard before a tool: a call that the hook blocks, or that comes from a truncated response, is
  never executed. Shown as non-interference: replacing what the tools do changes nothing in a run.
\<close>

definition blocks :: "before_result option settlement \<Rightarrow> bool" where
  "blocks r = (case r of
     Returned (Some b) \<Rightarrow> br_block b = Some True | Returned None \<Rightarrow> False | Thrown e \<Rightarrow> True | Stalled \<Rightarrow> True)"

text \<open>The hook blocks every call of a response that was not truncated.\<close>

definition blockingHook :: "'w loop_config \<Rightarrow> bool" where
  "blockingHook cfg = (case lc_beforeToolCall cfg of None \<Rightarrow> False
     | Some h \<Rightarrow> \<forall>x w. am_stopReason (bc_assistantMessage x) \<noteq> LengthStop \<longrightarrow> blocks (fst (h x w)))"

lemma blockingHook_same: "sameHooks cfg cfg' \<Longrightarrow> blockingHook cfg' = blockingHook cfg"
  by (auto simp: sameHooks_def blockingHook_def)

section \<open>No call is prepared\<close>

lemma hook_blocked:
  assumes "\<And>w. blocks (fst (h x w))"
  shows "value_triple (callHook (Some h) None x) (\<lambda>before. \<exists>b. before = Some b \<and> br_block b = Some True)"
proof (rule ensuresI)
  fix s before s'
  assume "callHook (Some h) None x s = (Returned before, s')"
  then have "fst (h x (rs_world s)) = Returned before"
    by (auto simp: callHook_def outside_def split: prod.splits)
  with assms [of "rs_world s"] show "\<exists>b. before = Some b \<and> br_block b = Some True"
    by (auto simp: blocks_def split: option.splits)
qed simp_all

lemma prepareFound_blocked:
  assumes "blockingHook cfg" and "am_stopReason am \<noteq> LengthStop"
  shows "value_triple (prepareFound env cfg am tc tool) (\<lambda>p. \<exists>r b. p = Immediate r b)"
proof -
  obtain h where h: "lc_beforeToolCall cfg = Some h" and
    blocks: "\<And>x w. am_stopReason (bc_assistantMessage x) \<noteq> LengthStop \<Longrightarrow> blocks (fst (h x w))"
    using assms(1) by (auto simp: blockingHook_def split: option.splits)
  note skip = value_triple_andThen [OF value_triple_any]
  show ?thesis unfolding prepareFound_def h
    by (rule skip, rule skip, rule skip, rule value_triple_andThen, rule hook_blocked, rule blocks, simp add: assms(2),
        rule skip, rule value_triple_give) (auto simp: abortedResult_def blockedResult_def Let_def)
qed

lemma prepareToolCall_blocked:
  assumes "blockingHook cfg" and "am_stopReason am \<noteq> LengthStop"
    and "prepareToolCall env cfg am tc s = (Returned p, s')"
  shows "\<exists>r b. p = Immediate r b"
proof -
  have tried: "value_triple (attempt (prepareFound env cfg am tc tool)) (\<lambda>r. \<forall>p. r = Inr p \<longrightarrow> (\<exists>r b. p = Immediate r b))" for tool
    by (rule ensures_attempt, rule ensures_weaken [OF prepareFound_blocked [OF assms(1,2)]]) simp_all
  have "value_triple (prepareToolCall env cfg am tc) (\<lambda>p. \<exists>r b. p = Immediate r b)"
    unfolding prepareToolCall_def
    by (rule value_triple_andThen [OF value_triple_any])
      (auto split: option.splits sum.splits intro!: value_triple_give value_triple_andThen [OF tried])
  from ensures_Returned [OF this _ assms(3)] show ?thesis by simp
qed

section \<open>Equal runs\<close>

abbreviation retooled :: "(agent_tool \<Rightarrow> string \<Rightarrow> tool_args \<Rightarrow> ('w, tool_step) action) \<Rightarrow> 'w loop_env \<Rightarrow> 'w loop_env" where
  "retooled f env \<equiv> env\<lparr>le_execute := f\<rparr>"

named_theorems same_run \<open>operations that do not depend on the tools\<close>

lemma emit_same [same_run]: "emit (retooled f env) = emit env"
  by (simp add: emit_def fun_eq_iff)

lemma aborted_same [same_run]: "aborted (retooled f env) = aborted env"
  by (simp add: aborted_def)

lemma emitMessage_same [same_run]: "emitMessage (retooled f env) = emitMessage env"
  by (simp add: emitMessage_def same_run fun_eq_iff)

lemma openResponse_same [same_run]: "openResponse (retooled f env) = openResponse env"
  by (rule ext) (simp add: openResponse_def)

lemma finishResponse_same [same_run]: "finishResponse (retooled f env) = finishResponse env"
  by (rule ext) (simp add: finishResponse_def same_run cong: if_cong)

lemma consumeResponse_same [same_run]: "consumeResponse (retooled f env) n added = consumeResponse env n added"
  by (induction n arbitrary: added)
    (simp_all add: same_run cong: if_cong option.case_cong assistant_event.case_cong)

lemma streamAssistantResponse_same [same_run]:
  "streamAssistantResponse (retooled f env) n cfg = streamAssistantResponse env n cfg"
  by (simp add: streamAssistantResponse_def same_run)

lemma emitToolExecutionStart_same [same_run]: "emitToolExecutionStart (retooled f env) = emitToolExecutionStart env"
  by (rule ext) (simp add: emitToolExecutionStart_def same_run)

lemma emitToolExecutionEnd_same [same_run]: "emitToolExecutionEnd (retooled f env) = emitToolExecutionEnd env"
  by (rule ext) (simp add: emitToolExecutionEnd_def same_run)

lemma emitToolResult_same [same_run]: "emitToolResult (retooled f env) = emitToolResult env"
  by (rule ext) (simp add: emitToolResult_def createToolResultMessage_def same_run)

lemma failTruncated_same [same_run]:
  "failToolCallsFromTruncatedMessage (retooled f env) tcs = failToolCallsFromTruncatedMessage env tcs"
  by (induction tcs) (simp_all add: same_run)

lemma prepareToolCall_same [same_run]: "prepareToolCall (retooled f env) cfg am = prepareToolCall env cfg am"
  by (rule ext) (simp add: prepareToolCall_def prepareFound_def prepareToolCallArguments_def same_run cong: option.case_cong)

lemma emitResults_same [same_run]: "emitResults (retooled f env) fs = emitResults env fs"
  by (induction fs) (simp_all add: same_run)

lemma injectMessage_same [same_run]: "injectMessage (retooled f env) = injectMessage env"
  by (rule ext) (simp add: injectMessage_def same_run)

lemma endRun_same [same_run]: "endRun (retooled f env) = endRun env"
  by (simp add: endRun_def same_run)

section \<open>Blocked batches\<close>

lemma sequentialCalls_blocked:
  assumes "blockingHook cfg" and "am_stopReason am \<noteq> LengthStop"
  shows "sequentialCalls (retooled f env) n cfg am tcs = sequentialCalls env n cfg am tcs"
proof -
  have "runToolCall (retooled f env) n cfg am = runToolCall env n cfg am"
    unfolding runToolCall_def
    by (rule ext, rule andThen_same) (auto simp: same_run dest: prepareToolCall_blocked [OF assms])
  then show ?thesis by (induction tcs) (simp_all add: same_run cong: if_cong)
qed

fun isDecided :: "batch_entry \<Rightarrow> bool" where
  "isDecided (Decided f) = True"
| "isDecided (Deferred p) = False"

lemma prepareBatch_same: "prepareBatch (retooled f env) cfg am tcs = prepareBatch env cfg am tcs"
  by (induction tcs) (simp_all add: same_run cong: if_cong preparation.case_cong)

lemma prepareBatch_blocked:
  assumes "blockingHook cfg" and "am_stopReason am \<noteq> LengthStop"
  shows "prepareBatch env cfg am tcs s = (Returned es, s') \<Longrightarrow> list_all isDecided es"
proof (induction tcs arbitrary: s es)
  case (Cons tc tcs)
  then show ?case
    by (auto simp: andThen_Returned Let_def give_apply dest!: prepareToolCall_blocked [OF assms] split: if_splits)
qed (simp add: give_apply)

lemma startTasks_decided: "list_all isDecided es \<Longrightarrow> startTasks (retooled f env) cfg am es = startTasks env cfg am es"
proof (induction es)
  case (Cons e es)
  then show ?case by (cases e) simp_all
qed simp

lemma startTasks_finished: "list_all isDecided es \<Longrightarrow> startTasks env cfg am es s = (Returned ts, s') \<Longrightarrow> list_all isFinished ts"
proof (induction es arbitrary: ts s)
  case (Cons e es)
  then show ?case by (cases e) (auto simp: andThen_Returned give_apply)
qed (simp add: give_apply)

lemma settleTasks_finished: "list_all isFinished ts \<Longrightarrow> settleTasks (retooled f env) n cfg am ts = settleTasks env n cfg am ts"
proof (cases n)
  case (Suc k)
  assume "list_all isFinished ts"
  then have "runningTasks ts = []" by (simp add: runningTasks_Nil)
  then show ?thesis unfolding Suc settleTasks.simps runningTasks_def [symmetric] Let_def by simp
qed simp

lemma executeToolCalls_blocked:
  assumes "blockingHook cfg" and "am_stopReason am \<noteq> LengthStop"
  shows "executeToolCalls (retooled f env) n cfg am = executeToolCalls env n cfg am"
proof -
  have "executeToolCallsParallel (retooled f env) n cfg am = executeToolCallsParallel env n cfg am"
    unfolding executeToolCallsParallel_def
  proof (rule andThen_same, rule prepareBatch_same)
    fix s es s'
    assume "prepareBatch env cfg am (toolCalls am) s = (Returned es, s')"
    then have es: "list_all isDecided es" by (rule prepareBatch_blocked [OF assms])
    show "andThen (startTasks (retooled f env) cfg am es) (\<lambda>tasks. andThen (settleTasks (retooled f env) n cfg am tasks)
          (\<lambda>fs. andThen (emitResults (retooled f env) fs) (\<lambda>ms. give (ms, shouldTerminateToolBatch fs)))) s' =
        andThen (startTasks env cfg am es) (\<lambda>tasks. andThen (settleTasks env n cfg am tasks)
          (\<lambda>fs. andThen (emitResults env fs) (\<lambda>ms. give (ms, shouldTerminateToolBatch fs)))) s'"
      by (rule fun_cong [where x = s'], rule andThen_same, rule startTasks_decided [OF es])
        (simp add: same_run settleTasks_finished [OF startTasks_finished [OF es]])
  qed
  moreover have "executeToolCallsSequential (retooled f env) n cfg am = executeToolCallsSequential env n cfg am"
    by (simp add: executeToolCallsSequential_def sequentialCalls_blocked [OF assms])
  ultimately show ?thesis by (simp add: executeToolCalls_def cong: if_cong)
qed

section \<open>Blocked runs\<close>

lemma runBatch_blocked:
  assumes "blockingHook cfg"
  shows "runBatch (retooled f env) n cfg am = runBatch env n cfg am"
  by (cases "am_stopReason am = LengthStop") (simp_all add: runBatch_def same_run executeToolCalls_blocked [OF assms] cong: if_cong)

lemma runTurn_blocked:
  assumes "blockingHook cfg"
  shows "runTurn (retooled f env) n cfg firstTurn pending = runTurn env n cfg firstTurn pending"
  by (simp add: runTurn_def finishTurn_def same_run runBatch_blocked [OF assms] cong: if_cong)

lemma turns_blocked:
  "blockingHook cfg \<Longrightarrow> turns (retooled f env) k n cfg firstTurn hasMore pending = turns env k n cfg firstTurn hasMore pending"
proof (induction n arbitrary: cfg firstTurn hasMore pending)
  case (Suc n)
  have "andThen (runTurn (retooled f env) k cfg firstTurn pending) (\<lambda>r. case r of StopRun \<Rightarrow> give ()
      | NextTurn cfg' m ps \<Rightarrow> turns (retooled f env) k n cfg' False m ps) =
    andThen (runTurn env k cfg firstTurn pending) (\<lambda>r. case r of StopRun \<Rightarrow> give ()
      | NextTurn cfg' m ps \<Rightarrow> turns env k n cfg' False m ps)"
    by (rule andThen_same, rule runTurn_blocked [OF Suc.prems])
      (auto split: turn_result.splits dest!: runTurn_hooks simp: Suc blockingHook_same)
  moreover have "(\<lambda>fs. if fs \<noteq> [] then turns (retooled f env) k n cfg firstTurn True fs else endRun (retooled f env)) =
      (\<lambda>fs. if fs \<noteq> [] then turns env k n cfg firstTurn True fs else endRun env)"
    by (rule ext) (simp add: Suc same_run)
  ultimately show ?case by simp
qed simp


definition demo_block :: before_result where
  "demo_block = \<lparr>br_block = Some True, br_reason = None, br_terminate = None\<rparr>"


end
