(* ===== verification/AgentContext.thy ===== *)
theory AgentContext
  imports AgentProps
begin

text \<open>
  The context that the provider sees can be rebuilt from the events of a run: a subscriber that
  appends what \<open>message_start\<close> and \<open>message_end\<close> announce, and replaces the last message on the
  updates of an assistant message, holds the messages of the context at the end of the run.
\<close>

fun applyEvent :: "agent_message list \<Rightarrow> agent_event \<Rightarrow> agent_message list" where
  "applyEvent ms (MessageStart m) = (if isAssistant m then ms @ [m] else ms)"
| "applyEvent ms (MessageUpdate m ev) = butlast ms @ [m]"
| "applyEvent ms (MessageEnd m) = (if isAssistant m then butlast ms @ [m] else ms @ [m])"
| "applyEvent ms ev = ms"

definition rebuilt :: "agent_message list \<Rightarrow> agent_event list \<Rightarrow> agent_message list" where
  "rebuilt base evs = foldl applyEvent base evs"

lemma rebuilt_simps [simp]:
  "rebuilt base [] = base"
  "rebuilt base (evs @ [ev]) = applyEvent (rebuilt base evs) ev"
  by (simp_all add: rebuilt_def)

section \<open>Quiet actions\<close>

text \<open>They leave the context alone and emit events of tool executions only, whatever their outcome.\<close>

fun isToolEvent :: "agent_event \<Rightarrow> bool" where
  "isToolEvent (ToolExecutionStart _ _ _) = True"
| "isToolEvent (ToolExecutionUpdate _ _ _ _) = True"
| "isToolEvent (ToolExecutionEnd _ _ _ _) = True"
| "isToolEvent _ = False"

definition quietly :: "'w run_state \<Rightarrow> 'w run_state \<Rightarrow> bool" where
  "quietly s s' \<longleftrightarrow> rs_context s' = rs_context s \<and> (\<exists>evs. rs_events s' = rs_events s @ evs \<and> list_all isToolEvent evs)"

definition quiet :: "('w run_state, 'a) action \<Rightarrow> bool" where
  "quiet m \<longleftrightarrow> (\<forall>s. quietly s (snd (m s)))"

named_theorems quiet_intros \<open>quiet actions\<close>

lemma quietly_refl [simp]: "quietly s s"
  by (auto simp: quietly_def)

lemma quietly_trans: "quietly s t \<Longrightarrow> quietly t u \<Longrightarrow> quietly s u"
  unfolding quietly_def by fastforce

lemma quiet_basic [quiet_intros]:
  "quiet (give x)" "quiet (fail e)" "quiet stall" "quiet (ask f)" "quiet (settled r)" "quiet (outside m)"
  by (simp_all add: quiet_def action_run, auto simp: quietly_def outside_def split: prod.splits)

lemma quiet_andThen [quiet_intros]:
  assumes "quiet m" and "\<And>x. quiet (f x)"
  shows "quiet (andThen m f)"
  unfolding quiet_def
proof
  fix s
  have "quietly s (snd (m s))" using assms(1) by (simp add: quiet_def)
  moreover have "quietly u (snd (f x u))" for x u using assms(2) by (simp add: quiet_def)
  ultimately show "quietly s (snd (andThen m f s))"
    by (auto simp: andThen_def split: prod.splits settlement.splits intro: quietly_trans)
qed

lemma quiet_attempt [quiet_intros]: "quiet m \<Longrightarrow> quiet (attempt m)"
  by (auto simp: quiet_def attempt_def split: prod.splits settlement.splits) (metis snd_conv)+

lemma quiet_emit [quiet_intros]: "isToolEvent ev \<Longrightarrow> quiet (emit env ev)"
  by (auto simp: quiet_def quietly_def emit_def andThen_def change_apply outside_def split: prod.splits settlement.splits)

lemma quiet_if [quiet_intros]: "quiet m \<Longrightarrow> quiet m' \<Longrightarrow> quiet (if b then m else m')"
  by simp

lemma quiet_hook [quiet_intros]: "quiet (callHook h x c)" "quiet (pollMessages p)" "quiet (aborted env)"
  unfolding callHook_def pollMessages_def aborted_def by (auto split: option.splits intro: quiet_intros)

lemma quiet_tool_events [quiet_intros]: "quiet (emitToolExecutionStart env tc)" "quiet (emitToolExecutionEnd env f)"
  unfolding emitToolExecutionStart_def emitToolExecutionEnd_def by (auto intro: quiet_intros)

lemma quiet_prepare [quiet_intros]: "quiet (prepareToolCall env cfg am tc)"
  unfolding prepareToolCall_def prepareFound_def prepareToolCallArguments_def
  by (auto intro!: quiet_intros split: option.splits)

lemma quiet_settle [quiet_intros]: "quiet (settleExecution failure out)"
  unfolding settleExecution_def by (auto split: option.splits intro: quiet_intros)

lemma quiet_step [quiet_intros]: "quiet (executeStep env p failure)"
  unfolding executeStep_def Let_def
  by (auto intro!: quiet_intros split: sum.splits tool_step.splits)

lemma quiet_execute [quiet_intros]: "quiet (executePreparedToolCall env n p failure)"
  by (induction n arbitrary: failure) (auto intro!: quiet_intros split: sum.splits)

lemma quiet_finalize [quiet_intros]: "quiet (finalizeExecutedToolCall env cfg am p out)"
  unfolding finalizeExecutedToolCall_def by (auto intro!: quiet_intros)

lemma quiet_run [quiet_intros]: "quiet (runToolCall env n cfg am tc)"
  unfolding runToolCall_def by (auto intro!: quiet_intros split: preparation.splits)

lemma quiet_batch [quiet_intros]: "quiet (prepareBatch env cfg am tcs)"
  by (induction tcs) (auto intro!: quiet_intros split: preparation.splits simp: Let_def)

lemma quiet_task [quiet_intros]: "quiet (taskStep env cfg am t)"
  unfolding taskStep_def by (auto intro!: quiet_intros split: task.splits)

lemma quiet_start [quiet_intros]: "quiet (startTasks env cfg am es)"
  by (induction es) (auto intro!: quiet_intros split: batch_entry.splits)

lemma quiet_tasks [quiet_intros]: "quiet (settleTasks env n cfg am ts)"
  by (induction n arbitrary: ts) (auto intro!: quiet_intros simp: Let_def)

section \<open>The context and the events\<close>

definition mirrored :: "agent_message list \<Rightarrow> agent_message list \<Rightarrow> 'w run_state \<Rightarrow> bool" where
  "mirrored base ahead s \<longleftrightarrow> rebuilt base (rs_events s) = ac_messages (rs_context s) @ ahead"

abbreviation mirror_triple :: "('w run_state \<Rightarrow> bool) \<Rightarrow> ('w run_state, 'a) action \<Rightarrow> ('a \<Rightarrow> 'w run_state \<Rightarrow> bool) \<Rightarrow> bool" where
  "mirror_triple P m Q \<equiv> ensures P m Q (\<lambda>_. True) (\<lambda>_. True)"

lemma rebuilt_tools: "list_all isToolEvent evs \<Longrightarrow> rebuilt base (old @ evs) = rebuilt base old"
proof (induction evs rule: rev_induct)
  case (snoc ev evs)
  then show ?case by (cases ev) (simp_all flip: append_assoc)
qed simp

lemma quiet_mirror:
  assumes "quiet m"
  shows "mirror_triple (mirrored base a) m (\<lambda>_. mirrored base a)"
proof (rule ensuresI)
  fix s x s'
  assume "mirrored base a s" and "m s = (Returned x, s')"
  with assms have "quietly s s'" by (metis quiet_def snd_conv)
  with \<open>mirrored base a s\<close> show "mirrored base a s'"
    by (auto simp: mirrored_def quietly_def rebuilt_tools)
qed simp_all

lemma emit_mirror:
  fixes env :: "'w loop_env"
  assumes "\<And>s :: 'w run_state. mirrored base a s \<Longrightarrow> applyEvent (rebuilt base (rs_events s)) ev = ac_messages (rs_context s) @ b"
  shows "mirror_triple (mirrored base a) (emit env ev) (\<lambda>_. mirrored base b)"
  unfolding emit_def
proof (rule ensures_andThen [OF ensures_change quiet_mirror [OF quiet_basic(6)]])
  fix s :: "'w run_state"
  assume "mirrored base a s"
  from assms [OF this] show "mirrored base b (s\<lparr>rs_events := rs_events s @ [ev]\<rparr>)" by (simp add: mirrored_def)
qed

lemma emit_neutral: "\<not> isToolEvent ev \<Longrightarrow> (\<And>ms. applyEvent ms ev = ms) \<Longrightarrow> mirror_triple (mirrored base a) (emit env ev) (\<lambda>_. mirrored base a)"
  by (rule emit_mirror) (simp add: mirrored_def)

lemma emitMessage_mirror:
  "mirror_triple (mirrored base a) (emitMessage env m) (\<lambda>_. mirrored base (a @ [m]))"
proof (cases "isAssistant m")
  case True
  show ?thesis unfolding emitMessage_def
    by (rule ensures_andThen, rule emit_mirror [where b = "a @ [m]"], simp add: True mirrored_def, rule emit_mirror,
        unfold mirrored_def)
      (simp add: True flip: append_assoc)
next
  case False
  show ?thesis unfolding emitMessage_def
    by (rule ensures_andThen, rule emit_mirror [where b = a], simp add: False mirrored_def, rule emit_mirror)
      (simp add: False mirrored_def)
qed

lemma pushContext_mirror: "mirror_triple (mirrored base (m # a)) (pushContext m) (\<lambda>_. mirrored base a)"
  unfolding pushContext_def by (rule ensures_change) (simp add: mirrored_def)

lemma pushNew_mirror: "mirror_triple (mirrored base a) (pushNew m) (\<lambda>_. mirrored base a)"
  unfolding pushNew_def by (rule ensures_change) (simp add: mirrored_def)

lemma injectMessage_mirror: "mirror_triple (mirrored base []) (injectMessage env m) (\<lambda>_. mirrored base [])"
  unfolding injectMessage_def
  by (rule ensures_andThen, rule emitMessage_mirror, rule ensures_andThen, simp, rule pushContext_mirror, rule pushNew_mirror)

lemma emitToolResult_mirror:
  "mirror_triple (mirrored base a) (emitToolResult env f) (\<lambda>m. mirrored base (a @ [ToolResultMessage m]))"
  unfolding emitToolResult_def createToolResultMessage_def
  by (rule ensures_andThen, rule quiet_mirror, intro quiet_intros, rule ensures_andThen, rule emitMessage_mirror,
      rule ensures_give) simp

section \<open>The response\<close>

text \<open>While a response is open its partial message ends the context.\<close>

definition partially :: "agent_message list \<Rightarrow> bool \<Rightarrow> 'w run_state \<Rightarrow> bool" where
  "partially base added s \<longleftrightarrow> mirrored base [] s \<and> (added \<longrightarrow> ac_messages (rs_context s) \<noteq> [])"

lemma partially_outside: "mirror_triple (partially base added) (outside m) (\<lambda>_. partially base added)"
  by (auto simp: ensures_def outside_def partially_def mirrored_def split: prod.splits settlement.splits)

text \<open>Pushing or replacing a message and emitting the event that says so.\<close>

lemma push_start:
  assumes "isAssistant m"
  shows "mirror_triple (partially base added) (andThen (pushContext m) (\<lambda>_. emit env (MessageStart m))) (\<lambda>_. partially base True)"
  using assms
  by (auto simp: ensures_def andThen_def pushContext_def change_apply emit_def outside_def partially_def mirrored_def
    split: prod.splits settlement.splits)

lemma replace_update:
  "mirror_triple (partially base True) (andThen (replaceLast m) (\<lambda>_. emit env (MessageUpdate m ev))) (\<lambda>_. partially base True)"
  by (auto simp: ensures_def andThen_def replaceLast_def change_apply emit_def outside_def partially_def mirrored_def
    split: prod.splits settlement.splits)

text \<open>The final message is in the context; its announcements follow.\<close>

definition finalIn :: "agent_message list \<Rightarrow> agent_message list \<Rightarrow> agent_message \<Rightarrow> 'w run_state \<Rightarrow> bool" where
  "finalIn base shown m s \<longleftrightarrow> (\<exists>xs. ac_messages (rs_context s) = xs @ [m] \<and> rebuilt base (rs_events s) = xs @ shown)"

lemma replace_final: "mirror_triple (partially base True) (replaceLast m) (\<lambda>_ s. \<exists>p. finalIn base [p] m s)"
  unfolding replaceLast_def
  by (rule ensures_change) (auto simp: partially_def mirrored_def finalIn_def intro: exI [of _ "butlast _"] append_butlast_last_id [symmetric])

lemma push_final: "mirror_triple (partially base added) (pushContext m) (\<lambda>_. finalIn base [] m)"
  unfolding pushContext_def by (rule ensures_change) (auto simp: partially_def mirrored_def finalIn_def)

lemma emit_final:
  "isAssistant m \<Longrightarrow> mirror_triple (finalIn base [] m) (emit env (MessageStart m)) (\<lambda>_ s. \<exists>p. finalIn base [p] m s)"
  by (auto simp: ensures_def andThen_def change_apply emit_def outside_def finalIn_def split: prod.splits settlement.splits)

lemma end_final:
  "isAssistant m \<Longrightarrow> mirror_triple (\<lambda>s. \<exists>p. finalIn base [p] m s) (emit env (MessageEnd m)) (\<lambda>_. mirrored base [])"
  by (auto simp: ensures_def andThen_def change_apply emit_def outside_def finalIn_def mirrored_def split: prod.splits settlement.splits)

lemma finishResponse_mirror: "mirror_triple (partially base added) (finishResponse env added) (\<lambda>_. mirrored base [])"
proof (cases added)
  case True
  show ?thesis unfolding finishResponse_def
    by (simp add: True, rule ensures_andThen, rule partially_outside, rule ensures_andThen, rule replace_final,
        rule ensures_andThen, rule end_final, simp, rule ensures_give)
next
  case False
  show ?thesis unfolding finishResponse_def
    by (simp add: False, rule ensures_andThen, rule partially_outside, rule ensures_andThen, rule push_final,
        rule ensures_andThen, rule emit_final, simp, rule ensures_andThen, rule end_final, simp, rule ensures_give)
qed

lemma consumeResponse_mirror: "mirror_triple (partially base added) (consumeResponse env n added) (\<lambda>_. mirrored base [])"
proof (induction n arbitrary: added)
  case 0
  show ?case unfolding consumeResponse.simps by (rule ensures_stall) simp
next
  case (Suc n)
  have start: "mirror_triple (partially base b) (andThen (pushContext (AssistantMessage p)) (\<lambda>_.
      andThen (emit env (MessageStart (AssistantMessage p))) (\<lambda>_. consumeResponse env n True))) (\<lambda>_. mirrored base [])" for p b
    unfolding andThen_assoc [symmetric] by (rule ensures_andThen, rule push_start, simp, rule Suc.IH)
  have update: "mirror_triple (partially base True) (andThen (replaceLast (AssistantMessage p)) (\<lambda>_.
      andThen (emit env (MessageUpdate (AssistantMessage p) ev)) (\<lambda>_. consumeResponse env n True))) (\<lambda>_. mirrored base [])" for p ev
    unfolding andThen_assoc [symmetric] by (rule ensures_andThen, rule replace_update, rule Suc.IH)
  show ?case unfolding consumeResponse.simps
    by (rule ensures_andThen, rule partially_outside)
      (cases added; auto split: option.splits assistant_event.splits simp: finishResponse_mirror start update Suc.IH)
qed

lemma streamAssistantResponse_mirror:
  "mirror_triple (mirrored base []) (streamAssistantResponse env n cfg) (\<lambda>_. mirrored base [])"
proof -
  have "quiet (openResponse env cfg)"
    unfolding openResponse_def resolveApiKey_def by (intro quiet_intros)
  then show ?thesis unfolding streamAssistantResponse_def
    by (rule_tac ensures_andThen, rule_tac quiet_mirror, assumption)
      (rule ensures_pre [OF consumeResponse_mirror], simp add: partially_def)
qed

section \<open>Batches and turns\<close>

abbreviation batch_triple :: "agent_message list \<Rightarrow> agent_message list \<Rightarrow> ('w run_state, 'a) action \<Rightarrow> ('a \<Rightarrow> tool_result_message list) \<Rightarrow> bool" where
  "batch_triple base a m rs \<equiv> mirror_triple (mirrored base a) m (\<lambda>x. mirrored base (a @ results_of (rs x)))"

lemma failTruncated_mirror: "batch_triple base a (failToolCallsFromTruncatedMessage env tcs) (\<lambda>rs. rs)"
proof (induction tcs arbitrary: a)
  case Nil
  show ?case unfolding failToolCallsFromTruncatedMessage.simps by (rule ensures_give) simp
next
  case (Cons tc tcs)
  show ?case unfolding failToolCallsFromTruncatedMessage.simps
    by (rule ensures_andThen, rule quiet_mirror, rule quiet_intros, rule ensures_andThen, rule quiet_mirror,
        rule quiet_intros, rule ensures_andThen, rule emitToolResult_mirror, rule ensures_andThen, rule Cons.IH,
        rule ensures_give) simp
qed

lemma sequentialCalls_mirror: "batch_triple base a (sequentialCalls env n cfg am tcs) (map snd)"
proof (induction tcs arbitrary: a)
  case Nil
  show ?case unfolding sequentialCalls.simps by (rule ensures_give) simp
next
  case (Cons tc tcs)
  show ?case unfolding sequentialCalls.simps
    by (rule ensures_andThen, rule quiet_mirror, rule quiet_intros, rule ensures_andThen, rule quiet_mirror, rule quiet_intros,
        rule ensures_andThen, rule quiet_mirror, rule quiet_intros, rule ensures_andThen, rule emitToolResult_mirror,
        rule ensures_andThen, rule quiet_mirror, rule quiet_intros, rule ensures_if, rule ensures_give, simp,
        rule ensures_andThen, rule Cons.IH, rule ensures_give) simp
qed

lemma emitResults_mirror: "batch_triple base a (emitResults env fs) (\<lambda>rs. rs)"
proof (induction fs arbitrary: a)
  case Nil
  show ?case unfolding emitResults.simps by (rule ensures_give) simp
next
  case (Cons f fs)
  show ?case unfolding emitResults.simps
    by (rule ensures_andThen, rule emitToolResult_mirror, rule ensures_andThen, rule Cons.IH, rule ensures_give) simp
qed

lemma executeToolCalls_mirror: "batch_triple base a (executeToolCalls env n cfg am) fst"
proof -
  have "batch_triple base a (executeToolCallsSequential env n cfg am) fst"
    unfolding executeToolCallsSequential_def
    by (rule ensures_andThen, rule sequentialCalls_mirror, rule ensures_give) simp
  moreover have "batch_triple base a (executeToolCallsParallel env n cfg am) fst"
    unfolding executeToolCallsParallel_def
    by (rule ensures_andThen, rule quiet_mirror, rule quiet_intros, rule ensures_andThen, rule quiet_mirror, rule quiet_intros,
        rule ensures_andThen, rule quiet_mirror, rule quiet_intros, rule ensures_andThen, rule emitResults_mirror,
        rule ensures_give) simp
  ultimately show ?thesis unfolding executeToolCalls_def
    by (rule_tac ensures_andThen, rule_tac quiet_mirror, rule_tac quiet_basic) simp
qed

lemma pushResults_mirror:
  "mirror_triple (mirrored base (results_of rs))
    (for_each (\<lambda>m. andThen (pushContext (ToolResultMessage m)) (\<lambda>_. pushNew (ToolResultMessage m))) rs) (\<lambda>_. mirrored base [])"
proof (induction rs)
  case Nil
  show ?case unfolding for_each.simps by (rule ensures_give) simp
next
  case (Cons r rs)
  show ?case unfolding for_each.simps list.map
    by (rule ensures_andThen, rule ensures_andThen, rule pushContext_mirror, rule pushNew_mirror, rule Cons.IH)
qed

lemma runBatch_mirror: "mirror_triple (mirrored base []) (runBatch env n cfg am) (\<lambda>_. mirrored base [])"
proof -
  have executed: "mirror_triple (mirrored base [])
      (if am_stopReason am = LengthStop
       then andThen (failToolCallsFromTruncatedMessage env (toolCalls am)) (\<lambda>ms. give (ms, False))
       else executeToolCalls env n cfg am) (\<lambda>r. mirrored base (results_of (fst r)))"
    using executeToolCalls_mirror [of base "[]" env n cfg am]
    by (auto intro!: ensures_andThen [OF failTruncated_mirror] ensures_give)
  show ?thesis unfolding runBatch_def case_prod_beta
    by (rule ensures_if, rule ensures_give, assumption, rule ensures_andThen, rule executed,
        rule ensures_andThen, rule pushResults_mirror, rule ensures_give)
qed

lemma endRun_mirror: "mirror_triple (mirrored base []) (endRun env) (\<lambda>_. mirrored base [])"
  unfolding endRun_def
  by (rule ensures_andThen, rule quiet_mirror, rule quiet_basic, rule emit_neutral) simp_all

definition keepsContext :: "'w loop_config \<Rightarrow> bool" where
  "keepsContext cfg \<longleftrightarrow> lc_prepareNextTurn cfg = None"

lemma keepsContext_same: "sameHooks cfg cfg' \<Longrightarrow> keepsContext cfg' = keepsContext cfg"
  by (auto simp: sameHooks_def keepsContext_def)

lemma finishTurn_mirror:
  assumes "keepsContext cfg"
  shows "mirror_triple (mirrored base []) (finishTurn env n cfg am) (\<lambda>_. mirrored base [])"
proof -
  have none: "lc_prepareNextTurn cfg = None" using assms by (simp add: keepsContext_def)
  have same: "callHook (None :: (turn_context \<Rightarrow> ('w, turn_update option) action) option) None tx = give None" for tx
    by (simp add: callHook_def)
  have quiet_turn: "quiet (turnContext am rs)" for rs unfolding turnContext_def by (rule quiet_basic)
  show ?thesis unfolding finishTurn_def case_prod_beta none same applyUpdate_def
    by (simp, rule ensures_andThen, rule runBatch_mirror, rule ensures_andThen, rule emit_neutral, simp, simp,
        rule ensures_andThen, rule quiet_mirror, rule quiet_turn, rule ensures_andThen, rule quiet_mirror, rule quiet_turn,
        rule ensures_andThen, rule quiet_mirror, rule quiet_hook, rule ensures_if, rule ensures_andThen, rule endRun_mirror,
        rule ensures_give, assumption, rule ensures_andThen, rule quiet_mirror, rule quiet_hook, rule ensures_give)
qed

lemma runTurn_mirror:
  assumes "keepsContext cfg"
  shows "mirror_triple (mirrored base []) (runTurn env n cfg firstTurn pending) (\<lambda>_. mirrored base [])"
proof -
  have start: "mirror_triple (mirrored base []) (if firstTurn then give () else emit env TurnStart) (\<lambda>_. mirrored base [])"
    by (rule ensures_if, rule ensures_give, assumption, rule emit_neutral) simp_all
  have failed: "mirror_triple (mirrored base [])
      (andThen (emit env (TurnEnd (AssistantMessage am) [])) (\<lambda>_. andThen (endRun env) (\<lambda>_. give StopRun))) (\<lambda>_. mirrored base [])" for am
    by (rule ensures_andThen, rule emit_neutral, simp, simp, rule ensures_andThen, rule endRun_mirror, rule ensures_give)
  show ?thesis unfolding runTurn_def
    by (rule ensures_andThen, rule start, rule ensures_andThen, rule ensures_for_each, rule injectMessage_mirror,
        rule ensures_andThen, rule streamAssistantResponse_mirror, rule ensures_andThen, rule pushNew_mirror,
        rule ensures_if, rule failed, rule finishTurn_mirror [OF assms])
qed

lemma turns_mirror:
  "keepsContext cfg \<Longrightarrow> mirror_triple (mirrored base []) (turns env k n cfg firstTurn hasMore pending) (\<lambda>_. mirrored base [])"
proof (induction n arbitrary: cfg firstTurn hasMore pending)
  case 0
  show ?case unfolding turns.simps by (rule ensures_stall) simp
next
  case (Suc n)
  have turn: "mirror_triple (mirrored base []) (runTurn env k cfg firstTurn pending) (\<lambda>r s. keepsHooks cfg r \<and> mirrored base [] s)"
  proof (rule ensuresI)
    fix s r s'
    assume "mirrored base [] s" and run: "runTurn env k cfg firstTurn pending s = (Returned r, s')"
    then have "mirrored base [] s'" by (rule ensures_Returned [OF runTurn_mirror [OF Suc.prems]])
    moreover have "keepsHooks cfg r" using ensures_Returned [OF runTurn_config _ run] by simp
    ultimately show "keepsHooks cfg r \<and> mirrored base [] s'" by simp
  qed simp_all
  have more: "mirror_triple (mirrored base []) (case r of StopRun \<Rightarrow> give ()
      | NextTurn cfg' m ps \<Rightarrow> turns env k n cfg' False m ps) (\<lambda>_. mirrored base [])" if "keepsHooks cfg r" for r
    using that Suc.prems by (cases r) (auto intro!: ensures_give Suc.IH simp: keepsHooks_def keepsContext_same)
  have follow: "mirror_triple (mirrored base []) (if fs \<noteq> [] then turns env k n cfg firstTurn True fs else endRun env)
      (\<lambda>_. mirrored base [])" for fs
    by (rule ensures_if, rule Suc.IH [OF Suc.prems], rule endRun_mirror)
  show ?case unfolding turns.simps
    by (rule ensures_if, rule ensures_andThen, rule turn, rule ensures_pure, erule more,
        rule ensures_andThen, rule quiet_mirror, rule quiet_hook, rule follow)
qed

section \<open>The run\<close>

text \<open>The prompts are in the context before they are announced.\<close>

lemma prompts_mirror:
  "mirror_triple (\<lambda>s. rebuilt base (rs_events s) @ prompts = ac_messages (rs_context s)) (for_each (emitMessage env) prompts)
     (\<lambda>_. mirrored base [])"
proof (induction prompts)
  case Nil
  show ?case unfolding for_each.simps by (rule ensures_give) (simp add: mirrored_def)
next
  case (Cons p ps)
  have "mirror_triple (\<lambda>s. rebuilt base (rs_events s) @ p # ps = ac_messages (rs_context s)) (emitMessage env p)
      (\<lambda>_ s. rebuilt base (rs_events s) @ ps = ac_messages (rs_context s))"
    by (auto simp: ensures_def emitMessage_def emit_def andThen_def change_apply outside_def rebuilt_def
      split: prod.splits settlement.splits)
  then show ?case unfolding for_each.simps by (rule ensures_andThen) (rule Cons.IH)
qed

lemma promptRun_mirror:
  assumes "keepsContext cfg" and "promptRun env k n cfg prompts (initialRun w ctx prompts) = (Returned ms, s)"
  shows "ac_messages (rs_context s) = rebuilt (ac_messages ctx) (rs_events s)"
proof -
  let ?base = "ac_messages ctx"
  let ?pre = "\<lambda>s. rebuilt ?base (rs_events s) @ prompts = ac_messages (rs_context s)"
  have silent: "mirror_triple ?pre (emit env ev) (\<lambda>_. ?pre)" if "ev = AgentStart \<or> ev = TurnStart" for ev
    using that by (auto simp: ensures_def emit_def andThen_def change_apply outside_def split: prod.splits settlement.splits)
  have "mirror_triple ?pre (promptRun env k n cfg prompts) (\<lambda>_. mirrored ?base [])"
    unfolding promptRun_def runLoop_def
    by (rule ensures_andThen, rule silent, simp, rule ensures_andThen, rule silent, simp, rule ensures_andThen,
        rule prompts_mirror, rule ensures_andThen, rule ensures_andThen, rule quiet_mirror, rule quiet_hook,
        rule turns_mirror [OF assms(1)], rule ensures_ask)
  from ensures_Returned [OF this _ assms(2)] show ?thesis by (simp add: initialRun_def mirrored_def)
qed

text \<open>
  C18. Without a \<open>prepareNextTurn\<close> hook, the context at the end of a run is the context it began with
  and what its events add: a subscriber that appends the message of every \<open>message_start\<close> of an
  assistant message and of every other \<open>message_end\<close>, and lets updates and ends replace the last
  message, holds exactly the messages that the provider was sent, partial messages of restarted
  responses included.
\<close>

theorem context_rebuilt_from_events:
  assumes "lc_prepareNextTurn cfg = None" and "runAgentLoop env fuel n prompts ctx cfg w = (Returned ms, s)"
  shows "ac_messages (rs_context s) = rebuilt (ac_messages ctx) (rs_events s)"
  by (rule promptRun_mirror [where cfg = cfg]) (use assms in \<open>simp_all add: keepsContext_def runAgentLoop_def\<close>)

theorem context_rebuilt_from_events_witness:
  "\<exists>ms s. runAgentLoop demo_env 10 4 [demo_prompt] demo_context demo_config demo_start = (Returned ms, s)
     \<and> ac_messages (rs_context s) = rebuilt [] (rs_events s)"
proof -
  obtain r s where run: "runAgentLoop demo_env 10 4 [demo_prompt] demo_context demo_config demo_start = (r, s)" by fastforce
  with demo_agent_run obtain ms where "r = Returned ms" by (cases r) auto
  with context_rebuilt_from_events [OF _ run [unfolded this]] run show ?thesis
    by (auto simp: demo_config_sel demo_context_def)
qed

end
