(* ===== verification/AgentTermination.thy ===== *)
theory AgentTermination
  imports AgentProps
begin

text \<open>
  The loop itself never runs for ever. Let a budget of the world bound what is still to come: opening
  a response, one of its partial events and a progress report of a tool each use it up, and nothing
  raises it. Then a run whose calls to the outside settle also settles, within fuel that the budget
  and the number of tool calls in a response determine.
\<close>

section \<open>Calls to the outside\<close>

definition settling :: "('w \<Rightarrow> nat) \<Rightarrow> ('w, 'a) action \<Rightarrow> bool" where
  "settling v m \<longleftrightarrow> (\<forall>w. fst (m w) \<noteq> Stalled \<and> v (snd (m w)) \<le> v w)"

text \<open>Returning a value that satisfies \<open>P\<close> uses up budget.\<close>

definition consuming :: "('w \<Rightarrow> nat) \<Rightarrow> ('a \<Rightarrow> bool) \<Rightarrow> ('w, 'a) action \<Rightarrow> bool" where
  "consuming v P m \<longleftrightarrow> settling v m \<and> (\<forall>w x w'. m w = (Returned x, w') \<longrightarrow> P x \<longrightarrow> v w' < v w)"

definition settlingHook :: "('w \<Rightarrow> nat) \<Rightarrow> ('c \<Rightarrow> ('w, 'a) action) option \<Rightarrow> bool" where
  "settlingHook v h \<longleftrightarrow> (\<forall>f x. h = Some f \<longrightarrow> settling v (f x))"

definition settlingPoll :: "('w \<Rightarrow> nat) \<Rightarrow> ('w, 'a) action option \<Rightarrow> bool" where
  "settlingPoll v h \<longleftrightarrow> (\<forall>f. h = Some f \<longrightarrow> settling v f)"

definition settlingConfig :: "('w \<Rightarrow> nat) \<Rightarrow> 'w loop_config \<Rightarrow> bool" where
  "settlingConfig v cfg \<longleftrightarrow> (\<forall>ms. settling v (lc_convertToLlm cfg ms))
     \<and> settlingHook v (lc_transformContext cfg) \<and> settlingHook v (lc_getApiKey cfg)
     \<and> settlingPoll v (lc_getSteeringMessages cfg) \<and> settlingPoll v (lc_getFollowUpMessages cfg)
     \<and> settlingHook v (lc_beforeToolCall cfg) \<and> settlingHook v (lc_afterToolCall cfg)
     \<and> settlingHook v (lc_prepareNextTurn cfg) \<and> settlingHook v (lc_shouldStopAfterTurn cfg)"

fun goesOn :: "assistant_event option \<Rightarrow> bool" where
  "goesOn (Some (StartEvent _)) = True"
| "goesOn (Some (PartialEvent _ _)) = True"
| "goesOn _ = False"

fun isUpdate :: "tool_step \<Rightarrow> bool" where
  "isUpdate (ToolUpdate _) = True"
| "isUpdate (ToolReturn _) = False"

definition settlingEnv :: "('w \<Rightarrow> nat) \<Rightarrow> nat \<Rightarrow> 'w loop_env \<Rightarrow> bool" where
  "settlingEnv v b env \<longleftrightarrow> (\<forall>ev. settling v (le_emit env ev))
     \<and> (\<forall>rq. consuming v (\<lambda>_. True) (le_streamFunction env rq)) \<and> consuming v goesOn (le_nextEvent env)
     \<and> settling v (le_result env) \<and> (\<forall>w am w'. le_result env w = (Returned am, w') \<longrightarrow> length (toolCalls am) \<le> b)
     \<and> (\<forall>t tc. le_validate env t tc \<noteq> Stalled) \<and> (\<forall>t f a. le_prepareArguments env t = Some f \<longrightarrow> f a \<noteq> Stalled)
     \<and> (\<forall>t i a. consuming v isUpdate (le_execute env t i a)) \<and> (\<forall>c. settling v (le_schedule env c)) \<and> settling v (le_now env)"

lemma settlingConfig_same: "sameHooks cfg cfg' \<Longrightarrow> settlingConfig v cfg' = settlingConfig v cfg"
  by (auto simp: sameHooks_def settlingConfig_def)

section \<open>Steady actions\<close>

text \<open>From a budget of at most \<open>k\<close> the action settles and does not raise it.\<close>

definition steady :: "('w \<Rightarrow> nat) \<Rightarrow> nat \<Rightarrow> ('w run_state, 'a) action \<Rightarrow> bool" where
  "steady v k m \<longleftrightarrow> (\<forall>s. v (rs_world s) \<le> k \<longrightarrow> fst (m s) \<noteq> Stalled \<and> v (rs_world (snd (m s))) \<le> v (rs_world s))"

named_theorems steady_intros \<open>steady actions\<close>

lemma steadyD:
  assumes "steady v k m" and "v (rs_world s) \<le> k" and "m s = (r, s')"
  shows "r \<noteq> Stalled \<and> v (rs_world s') \<le> v (rs_world s)"
  using assms unfolding steady_def by (metis fst_conv snd_conv)

lemma steady_basic [steady_intros]:
  "steady v k (give x)" "steady v k (fail e)" "steady v k (ask f)" "steady v k (pushContext m)" "steady v k (pushNew m)"
  "steady v k (replaceLast m)" "steady v k (turnContext am rs)" "steady v k (aborted env)"
  by (simp_all add: steady_def action_run pushContext_def pushNew_def replaceLast_def turnContext_def aborted_def)

lemma steady_settled [steady_intros]: "r \<noteq> Stalled \<Longrightarrow> steady v k (settled r)"
  by (simp add: steady_def action_run)

lemma steady_outside [steady_intros]: "settling v m \<Longrightarrow> steady v k (outside m)"
  by (auto simp: steady_def settling_def outside_def split: prod.splits) (metis fst_conv snd_conv)+

lemma steady_andThen [steady_intros]:
  assumes "steady v k m" and "\<And>x. steady v k (f x)"
  shows "steady v k (andThen m f)"
  unfolding steady_def
proof (intro allI impI)
  fix s :: "'a run_state"
  assume s: "v (rs_world s) \<le> k"
  obtain r u where m: "m s = (r, u)" by fastforce
  from steadyD [OF assms(1) s m] have r: "r \<noteq> Stalled" and u: "v (rs_world u) \<le> v (rs_world s)" by auto
  show "fst (andThen m f s) \<noteq> Stalled \<and> v (rs_world (snd (andThen m f s))) \<le> v (rs_world s)"
  proof (cases r)
    case (Returned x)
    obtain r' t where f: "f x u = (r', t)" by fastforce
    from u s have "v (rs_world u) \<le> k" by simp
    from steadyD [OF assms(2) this f] u show ?thesis by (simp add: andThen_def m Returned f)
  qed (use r u in \<open>simp_all add: andThen_def m\<close>)
qed

lemma steady_attempt [steady_intros]: "steady v k m \<Longrightarrow> steady v k (attempt m)"
  unfolding steady_def attempt_def by (fastforce split: prod.splits settlement.splits)

lemma steady_if [steady_intros]: "(b \<Longrightarrow> steady v k m) \<Longrightarrow> (\<not> b \<Longrightarrow> steady v k m') \<Longrightarrow> steady v k (if b then m else m')"
  by simp

lemma steady_for_each [steady_intros]: "(\<And>x. steady v k (f x)) \<Longrightarrow> steady v k (for_each f xs)"
  by (induction xs) (auto intro: steady_intros)

lemma steady_hook [steady_intros]: "settlingHook v h \<Longrightarrow> steady v k (callHook h x c)"
  unfolding callHook_def settlingHook_def by (cases h) (auto intro: steady_intros)

lemma steady_poll [steady_intros]: "settlingPoll v h \<Longrightarrow> steady v k (pollMessages h)"
  unfolding pollMessages_def settlingPoll_def by (cases h) (auto intro: steady_intros)

text \<open>Facts about the environment, for the calls the loop makes.\<close>

lemma settlingEnvD:
  assumes "settlingEnv v b env"
  shows "settling v (le_emit env ev)" "consuming v (\<lambda>_. True) (le_streamFunction env rq)" "consuming v goesOn (le_nextEvent env)"
    "settling v (le_result env)" "le_validate env t tc \<noteq> Stalled" "le_prepareArguments env t = Some f \<Longrightarrow> f a \<noteq> Stalled"
    "consuming v isUpdate (le_execute env t i a)" "settling v (le_schedule env c)" "settling v (le_now env)"
  using assms by (simp_all add: settlingEnv_def)

lemma settlingEnv_calls:
  assumes "settlingEnv v b env" and "le_result env w = (Returned am, w')"
  shows "length (toolCalls am) \<le> b"
proof -
  have "\<forall>w am w'. le_result env w = (Returned am, w') \<longrightarrow> length (toolCalls am) \<le> b"
    using assms(1) unfolding settlingEnv_def by (elim conjE)
  with assms(2) show ?thesis by blast
qed

lemma steady_emit [steady_intros]: "settlingEnv v b env \<Longrightarrow> steady v k (emit env ev)"
proof -
  assume env: "settlingEnv v b env"
  have "steady v k (change (\<lambda>s. s\<lparr>rs_events := rs_events s @ [ev]\<rparr>))" by (simp add: steady_def action_run)
  then show ?thesis unfolding emit_def
    by (rule steady_andThen) (rule steady_outside, rule settlingEnvD(1) [OF env])
qed

lemma consuming_settling: "consuming v P m \<Longrightarrow> settling v m"
  by (simp add: consuming_def)

section \<open>Operations without loops\<close>

lemma steady_emitters:
  assumes "settlingEnv v b env"
  shows "steady v k (emitMessage env m)" "steady v k (emitToolExecutionStart env tc)" "steady v k (emitToolExecutionEnd env f)"
    "steady v k (emitToolResult env f)" "steady v k (injectMessage env m)" "steady v k (endRun env)"
  using assms
  by (auto simp: emitMessage_def emitToolExecutionStart_def emitToolExecutionEnd_def emitToolResult_def injectMessage_def
      createToolResultMessage_def endRun_def intro!: steady_intros settlingEnvD(9))

lemma steady_prepare:
  assumes env: "settlingEnv v b env" and cfg: "settlingConfig v cfg"
  shows "steady v k (prepareToolCall env cfg am tc)"
proof -
  have "settlingHook v (lc_beforeToolCall cfg)" using cfg by (simp add: settlingConfig_def)
  moreover have "steady v k (prepareToolCallArguments env tool tc)" for tool
    unfolding prepareToolCallArguments_def
    by (auto split: option.splits intro!: steady_intros dest: settlingEnvD(6) [OF env])
  ultimately show ?thesis unfolding prepareToolCall_def prepareFound_def
    by (auto split: option.splits intro!: steady_intros settlingEnvD(5) [OF env])
qed

lemma steady_finalize:
  assumes "settlingConfig v cfg"
  shows "steady v k (finalizeExecutedToolCall env cfg am p out)"
  unfolding finalizeExecutedToolCall_def using assms by (auto simp: settlingConfig_def intro!: steady_intros)

lemma steady_settle: "steady v k (settleExecution failure out)"
  unfolding settleExecution_def by (cases failure) (auto intro: steady_intros)

lemma steady_executeStep:
  assumes env: "settlingEnv v b env"
  shows "steady v k (executeStep env p failure)"
  unfolding executeStep_def Let_def
  by (rule steady_andThen, rule steady_attempt, rule steady_outside, rule consuming_settling [OF settlingEnvD(7) [OF env]])
    (auto split: sum.splits tool_step.splits intro!: steady_intros steady_settle steady_emit [OF env])

lemma steady_failTruncated:
  assumes "settlingEnv v b env"
  shows "steady v k (failToolCallsFromTruncatedMessage env tcs)"
  by (induction tcs) (auto intro!: steady_intros steady_emitters [OF assms])

lemma steady_emitResults:
  assumes "settlingEnv v b env"
  shows "steady v k (emitResults env fs)"
  by (induction fs) (auto intro!: steady_intros steady_emitters [OF assms])

lemma steady_prepareBatch:
  assumes "settlingEnv v b env" and "settlingConfig v cfg"
  shows "steady v k (prepareBatch env cfg am tcs)"
  by (induction tcs)
    (auto intro!: steady_intros steady_emitters [OF assms(1)] steady_prepare [OF assms] split: preparation.splits simp: Let_def)

lemma steady_task:
  assumes "settlingEnv v b env" and "settlingConfig v cfg"
  shows "steady v k (taskStep env cfg am t)"
  unfolding taskStep_def
  by (auto split: task.splits intro!: steady_intros steady_executeStep [OF assms(1)] steady_finalize [OF assms(2)]
      steady_emitters [OF assms(1)])

lemma steady_startTasks:
  assumes "settlingEnv v b env" and "settlingConfig v cfg"
  shows "steady v k (startTasks env cfg am es)"
  by (induction es) (auto intro!: steady_intros steady_task [OF assms] split: batch_entry.splits)

section \<open>Loops\<close>

definition settlesAt :: "('w \<Rightarrow> nat) \<Rightarrow> ('w run_state, 'a) action \<Rightarrow> 'w run_state \<Rightarrow> bool" where
  "settlesAt v m s \<longleftrightarrow> fst (m s) \<noteq> Stalled \<and> v (rs_world (snd (m s))) \<le> v (rs_world s)"

lemma steady_at: "steady v (v (rs_world s)) m \<Longrightarrow> settlesAt v m s"
  by (simp add: steady_def settlesAt_def)

lemma settlesAt_andThen:
  assumes "settlesAt v m s" and "\<And>x u. m s = (Returned x, u) \<Longrightarrow> v (rs_world u) \<le> v (rs_world s) \<Longrightarrow> settlesAt v (f x) u"
  shows "settlesAt v (andThen m f) s"
proof -
  obtain r u where m: "m s = (r, u)" by fastforce
  with assms(1) have r: "r \<noteq> Stalled" and u: "v (rs_world u) \<le> v (rs_world s)" by (auto simp: settlesAt_def)
  show ?thesis
  proof (cases r)
    case (Returned x)
    have "settlesAt v (f x) u" by (rule assms(2)) (simp_all add: m Returned u)
    with u show ?thesis by (simp add: settlesAt_def andThen_def m Returned)
  qed (use r u in \<open>simp_all add: settlesAt_def andThen_def m\<close>)
qed

lemma outside_Returned: "outside m s = (Returned x, u) \<longleftrightarrow> (\<exists>w. m (rs_world s) = (Returned x, w) \<and> u = s\<lparr>rs_world := w\<rparr>)"
  by (auto simp: outside_def split: prod.splits)

lemma consuming_outside:
  assumes "consuming v P m" and "outside m s = (Returned x, u)" and "P x"
  shows "v (rs_world u) < v (rs_world s)"
  using assms by (auto simp: outside_Returned consuming_def)

lemma executeStep_goes_on:
  assumes env: "settlingEnv v b env" and run: "executeStep env p failure s = (Returned (Inl failure'), u)"
  shows "v (rs_world u) < v (rs_world s)"
proof -
  let ?m = "attempt (outside (le_execute env (pc_tool p) (tc_id (pc_toolCall p)) (pc_args p)))"
  have settle: "settleExecution failure out t \<noteq> (Returned (Inl failure'), u)" for out t
    by (cases failure) (simp_all add: settleExecution_def action_run)
  from run obtain r t where m: "?m s = (Returned r, t)"
    and rest: "(case r of Inl e \<Rightarrow> settleExecution failure (createErrorToolResult e, True)
        | Inr (ToolReturn result) \<Rightarrow> settleExecution failure (result, False)
        | Inr (ToolUpdate partial) \<Rightarrow>
            andThen (attempt (emit env (ToolExecutionUpdate (tc_id (pc_toolCall p)) (tc_name (pc_toolCall p))
               (tc_arguments (pc_toolCall p)) partial)))
              (\<lambda>q. give (Inl (case failure of Some e \<Rightarrow> Some e
                | None \<Rightarrow> (case q of Inl e \<Rightarrow> Some e | Inr _ \<Rightarrow> None))))) t = (Returned (Inl failure'), u)"
    unfolding executeStep_def Let_def andThen_Returned by blast
  from rest settle obtain partial where r: "r = Inr (ToolUpdate partial)"
    by (cases r) (simp, metis tool_step.exhaust sum.simps(6) tool_step.simps(6))
  from rest obtain q t' where e: "attempt (emit env (ToolExecutionUpdate (tc_id (pc_toolCall p)) (tc_name (pc_toolCall p))
               (tc_arguments (pc_toolCall p)) partial)) t = (Returned q, t')" and u: "u = t'"
    by (auto simp: r andThen_Returned give_apply)
  from m r have "outside (le_execute env (pc_tool p) (tc_id (pc_toolCall p)) (pc_args p)) s = (Returned (ToolUpdate partial), t)"
    by (auto simp: attempt_def split: prod.splits settlement.splits)
  then have "v (rs_world t) < v (rs_world s)" by (rule consuming_outside [OF settlingEnvD(7) [OF env]]) simp
  moreover have "v (rs_world t') \<le> v (rs_world t)"
    using steadyD [OF steady_attempt [OF steady_emit [OF env]] _ e] by auto
  ultimately show ?thesis by (simp add: u)
qed

lemma executePrepared_settles:
  assumes env: "settlingEnv v b env"
  shows "v (rs_world s) < n \<Longrightarrow> settlesAt v (executePreparedToolCall env n p failure) s"
proof (induction n arbitrary: s failure)
  case (Suc n)
  show ?case unfolding executePreparedToolCall.simps
  proof (rule settlesAt_andThen, rule steady_at, rule steady_executeStep [OF env])
    fix r u
    assume run: "executeStep env p failure s = (Returned r, u)" "v (rs_world u) \<le> v (rs_world s)"
    show "settlesAt v (case r of Inl failure' \<Rightarrow> executePreparedToolCall env n p failure' | Inr out \<Rightarrow> give out) u"
      using executeStep_goes_on [OF env, of p failure s] run Suc
      by (cases r) (auto simp: settlesAt_def give_apply)
  qed
qed simp

lemma steady_executePrepared:
  assumes "settlingEnv v b env" and "k < n"
  shows "steady v k (executePreparedToolCall env n p failure)"
  using executePrepared_settles [OF assms(1), of _ n p failure] assms(2)
  by (auto simp: steady_def settlesAt_def)

lemma steady_sequential:
  assumes "settlingEnv v b env" and "settlingConfig v cfg" and "k < n"
  shows "steady v k (sequentialCalls env n cfg am tcs)"
proof -
  have "steady v k (runToolCall env n cfg am tc)" for tc
    unfolding runToolCall_def
    by (auto split: preparation.splits intro!: steady_intros steady_prepare [OF assms(1,2)] steady_executePrepared [OF assms(1,3)]
        steady_finalize [OF assms(2)])
  then show ?thesis
    by (induction tcs) (auto intro!: steady_intros steady_emitters [OF assms(1)])
qed

text \<open>The steps that the tasks of a parallel batch still need, their progress reports apart.\<close>

fun taskWeight :: "task \<Rightarrow> nat" where
  "taskWeight (Executing _ _) = 3"
| "taskWeight (Executed _ _) = 2"
| "taskWeight (Finalizing _) = 1"
| "taskWeight (Finished _) = 0"

abbreviation weight :: "task list \<Rightarrow> nat" where
  "weight ts \<equiv> sum_list (map taskWeight ts)"

lemma weight_update: "i < length ts \<Longrightarrow> weight (ts[i := t]) + taskWeight (ts ! i) = weight ts + taskWeight t"
proof (induction ts arbitrary: i)
  case (Cons u us)
  then show ?case by (cases i) auto
qed simp

lemma taskStep_progress:
  assumes env: "settlingEnv v b env" and cfg: "settlingConfig v cfg" and t: "\<not> isFinished t"
    and run: "taskStep env cfg am t s = (Returned t', u)"
  shows "v (rs_world u) + taskWeight t' < v (rs_world s) + taskWeight t"
proof -
  have le: "v (rs_world u) \<le> v (rs_world s)"
    using steadyD [OF steady_task [OF env cfg] _ run] by auto
  show ?thesis
  proof (cases t)
    case (Executing p failure)
    from run obtain r where r: "executeStep env p failure s = (Returned r, u)"
        and t': "t' = (case r of Inl failure' \<Rightarrow> Executing p failure' | Inr out \<Rightarrow> Executed p out)"
      by (auto simp: taskStep_def Executing andThen_Returned give_apply)
    show ?thesis using executeStep_goes_on [OF env, of p failure s] r t' le
      by (cases r) (auto simp: Executing)
  qed (use run le t in \<open>auto simp: taskStep_def andThen_Returned give_apply\<close>)
qed

lemma settleTasks_settles:
  assumes env: "settlingEnv v b env" and cfg: "settlingConfig v cfg"
  shows "v (rs_world s) + weight ts < n \<Longrightarrow> settlesAt v (settleTasks env n cfg am ts) s"
proof (induction n arbitrary: s ts)
  case (Suc n)
  show ?case
  proof (cases "runningTasks ts = []")
    case True
    then show ?thesis unfolding settleTasks.simps runningTasks_def [symmetric] Let_def
      by (simp add: settlesAt_def give_apply)
  next
    case False
    have step: "settlesAt v (andThen (taskStep env cfg am (ts ! i)) (\<lambda>t. settleTasks env n cfg am (ts[i := t]))) u"
      if i: "i \<in> set (runningTasks ts)" and u: "v (rs_world u) \<le> v (rs_world s)" for i u
    proof (rule settlesAt_andThen, rule steady_at, rule steady_task [OF env cfg])
      fix t u'
      assume run: "taskStep env cfg am (ts ! i) u = (Returned t, u')"
      have i: "i < length ts" "\<not> isFinished (ts ! i)" using runningTasks_mem [OF that(1)] by auto
      from taskStep_progress [OF env cfg i(2) run] weight_update [OF i(1), of t] u Suc.prems
      show "settlesAt v (settleTasks env n cfg am (ts[i := t])) u'" by (intro Suc.IH) linarith
    qed
    show ?thesis unfolding settleTasks.simps runningTasks_def [symmetric] Let_def
      by (simp only: False if_False, rule settlesAt_andThen, rule steady_at, rule steady_outside,
          rule settlingEnvD(8) [OF env], rule step, rule scheduled_task [OF False])
  qed
qed simp

lemma prepareBatch_length: "prepareBatch env cfg am tcs s = (Returned es, s') \<Longrightarrow> length es \<le> length tcs"
proof (induction tcs arbitrary: s es)
  case (Cons tc tcs)
  then show ?case by (auto simp: andThen_Returned give_apply split: if_splits)
qed (simp add: give_apply)

lemma startTasks_length: "startTasks env cfg am es s = (Returned ts, s') \<Longrightarrow> length ts = length es"
proof (induction es arbitrary: s ts)
  case (Cons e es)
  then show ?case by (auto simp: andThen_Returned give_apply)
qed (simp add: give_apply)

lemma weight_le: "weight ts \<le> 3 * length ts"
proof (induction ts)
  case (Cons t ts)
  then show ?case by (cases t) simp_all
qed simp

lemma steadyI: "(\<And>s. v (rs_world s) \<le> k \<Longrightarrow> settlesAt v m s) \<Longrightarrow> steady v k m"
  by (simp add: steady_def settlesAt_def)

lemma steady_parallel:
  assumes env: "settlingEnv v b env" and cfg: "settlingConfig v cfg" and n: "k + 3 * b < n" and am: "length (toolCalls am) \<le> b"
  shows "steady v k (executeToolCallsParallel env n cfg am)"
proof (rule steadyI)
  fix s :: "'a run_state"
  assume s: "v (rs_world s) \<le> k"
  show "settlesAt v (executeToolCallsParallel env n cfg am) s"
    unfolding executeToolCallsParallel_def
  proof (rule settlesAt_andThen, rule steady_at, rule steady_prepareBatch [OF env cfg])
    fix es u
    assume es: "prepareBatch env cfg am (toolCalls am) s = (Returned es, u)" and u: "v (rs_world u) \<le> v (rs_world s)"
    show "settlesAt v (andThen (startTasks env cfg am es) (\<lambda>tasks. andThen (settleTasks env n cfg am tasks)
        (\<lambda>fs. andThen (emitResults env fs) (\<lambda>ms. give (ms, shouldTerminateToolBatch fs))))) u"
    proof (rule settlesAt_andThen, rule steady_at, rule steady_startTasks [OF env cfg])
      fix ts u'
      assume ts: "startTasks env cfg am es u = (Returned ts, u')" and u': "v (rs_world u') \<le> v (rs_world u)"
      have "length ts \<le> b" using startTasks_length [OF ts] prepareBatch_length [OF es] am by simp
      with weight_le [of ts] n s u u' have "v (rs_world u') + weight ts < n" by linarith
      then have tasks: "settlesAt v (settleTasks env n cfg am ts) u'" by (rule settleTasks_settles [OF env cfg])
      show "settlesAt v (andThen (settleTasks env n cfg am ts)
        (\<lambda>fs. andThen (emitResults env fs) (\<lambda>ms. give (ms, shouldTerminateToolBatch fs)))) u'"
        by (rule settlesAt_andThen, rule tasks, rule steady_at, intro steady_intros steady_emitResults [OF env])
    qed
  qed
qed

lemma steady_runBatch:
  assumes env: "settlingEnv v b env" and cfg: "settlingConfig v cfg" and n: "k + 3 * b < n" and am: "length (toolCalls am) \<le> b"
  shows "steady v k (runBatch env n cfg am)"
proof -
  have k: "k < n" using n by simp
  have "steady v k (executeToolCalls env n cfg am)"
    unfolding executeToolCalls_def executeToolCallsSequential_def
    by (intro steady_intros steady_sequential [OF env cfg k] steady_parallel [OF assms])
  then show ?thesis unfolding runBatch_def case_prod_beta
    by (intro steady_intros steady_failTruncated [OF env])
qed

section \<open>Responses and turns\<close>

lemma steady_finishResponse:
  assumes "settlingEnv v b env"
  shows "steady v k (finishResponse env added)"
  unfolding finishResponse_def by (intro steady_intros settlingEnvD(4) [OF assms] steady_emit [OF assms])

lemma consumeResponse_settles:
  assumes env: "settlingEnv v b env"
  shows "v (rs_world s) < n \<Longrightarrow> settlesAt v (consumeResponse env n added) s"
proof (induction n arbitrary: s added)
  case (Suc n)
  have less: "settlesAt v (andThen m (\<lambda>_. consumeResponse env n a)) u"
    if "v (rs_world u) < v (rs_world s)" "\<And>k. steady v k m" for u m a and x :: 'c
    by (rule settlesAt_andThen, rule steady_at, rule that(2), rule Suc.IH) (use that(1) Suc.prems in simp)
  show ?case unfolding consumeResponse.simps
  proof (rule settlesAt_andThen, rule steady_at, rule steady_outside, rule consuming_settling [OF settlingEnvD(3) [OF env]])
    fix ev u
    assume ev: "outside (le_nextEvent env) s = (Returned ev, u)" and u: "v (rs_world u) \<le> v (rs_world s)"
    note fin = steady_at [OF steady_finishResponse [OF env]]
    have on: "goesOn ev \<Longrightarrow> v (rs_world u) < v (rs_world s)"
      by (rule consuming_outside [OF settlingEnvD(3) [OF env] ev])
    have go: "settlesAt v (andThen (pushContext m) (\<lambda>_. andThen (emit env e) (\<lambda>_. consumeResponse env n True))) u"
      "settlesAt v (andThen (replaceLast m) (\<lambda>_. andThen (emit env e) (\<lambda>_. consumeResponse env n True))) u"
      if "goesOn ev" for m e
      unfolding andThen_assoc [symmetric]
      by (rule less [OF on [OF that]], intro steady_intros steady_emit [OF env])+
    have skip: "settlesAt v (consumeResponse env n False) u" if "goesOn ev"
      by (rule Suc.IH) (use on [OF that] Suc.prems in simp)
    show "settlesAt v (case ev of None \<Rightarrow> finishResponse env added
       | Some (StartEvent partial) \<Rightarrow>
           andThen (pushContext (AssistantMessage partial)) (\<lambda>_.
           andThen (emit env (MessageStart (AssistantMessage partial))) (\<lambda>_. consumeResponse env n True))
       | Some (PartialEvent kind partial) \<Rightarrow>
           if added
           then andThen (replaceLast (AssistantMessage partial)) (\<lambda>_.
                andThen (emit env (MessageUpdate (AssistantMessage partial) (PartialEvent kind partial))) (\<lambda>_.
                  consumeResponse env n True))
           else consumeResponse env n False
       | Some (DoneEvent _ _) \<Rightarrow> finishResponse env added
       | Some (ErrorEvent _ _) \<Rightarrow> finishResponse env added) u"
      using go skip fin by (auto split: option.splits assistant_event.splits)
  qed
qed simp

text \<open>A response that arrives has used up budget, and its tool calls are bounded.\<close>

lemma consumeResponse_calls:
  assumes env: "settlingEnv v b env" and run: "consumeResponse env n added s = (Returned am, u)"
  shows "length (toolCalls am) \<le> b"
proof -
  note skip = value_triple_andThen [OF value_triple_any]
  have result: "value_triple (outside (le_result env)) (\<lambda>am. length (toolCalls am) \<le> b)"
    by (rule ensuresI) (auto simp: outside_Returned dest: settlingEnv_calls [OF env])
  have fin: "value_triple (finishResponse env a) (\<lambda>am. length (toolCalls am) \<le> b)" for a
    unfolding finishResponse_def
    by (rule value_triple_andThen, rule result, rule skip, rule skip, rule skip, rule value_triple_give)
  have "value_triple (consumeResponse env n added) (\<lambda>am. length (toolCalls am) \<le> b)"
  proof (induction n arbitrary: added)
    case 0
    show ?case unfolding consumeResponse.simps by (rule ensures_stall) simp
  next
    case (Suc n)
    show ?case unfolding consumeResponse.simps
      by (rule skip) (auto split: option.splits assistant_event.splits intro!: fin skip Suc.IH)
  qed
  from ensures_Returned [OF this _ run] show ?thesis by simp
qed

lemma stream_settles:
  assumes env: "settlingEnv v b env" and cfg: "settlingConfig v cfg" and n: "v (rs_world s) < n"
  shows "settlesAt v (streamAssistantResponse env n cfg) s"
    and "streamAssistantResponse env n cfg s = (Returned am, u) \<Longrightarrow> v (rs_world u) < v (rs_world s) \<and> length (toolCalls am) \<le> b"
proof -
  have opened: "steady v k (openResponse env cfg)" for k
    using cfg unfolding openResponse_def resolveApiKey_def settlingConfig_def
    by (auto intro!: steady_intros consuming_settling [OF settlingEnvD(2) [OF env]])
  have spent: "v (rs_world t) < v (rs_world s)" if "openResponse env cfg s = (Returned (), t)" for t
  proof -
    let ?pre = "andThen (ask (ac_messages \<circ> rs_context)) (\<lambda>messages.
       andThen (callHook (lc_transformContext cfg) messages messages) (\<lambda>messages.
       andThen (outside (lc_convertToLlm cfg messages)) (\<lambda>llmMessages.
       andThen (ask rs_context) (\<lambda>context. andThen (resolveApiKey cfg) (\<lambda>key. give
         \<lparr>sq_model = lc_model cfg, sq_systemPrompt = ac_systemPrompt context, sq_messages = llmMessages,
          sq_tools = ac_tools context, sq_reasoning = lc_reasoning cfg, sq_apiKey = key\<rparr>)))))"
    have "openResponse env cfg = andThen ?pre (\<lambda>rq. outside (le_streamFunction env rq))"
      unfolding openResponse_def andThen_assoc andThen_give ..
    with that obtain rq t' where pre: "?pre s = (Returned rq, t')" and o: "outside (le_streamFunction env rq) t' = (Returned (), t)"
      by (auto simp: andThen_Returned)
    have "steady v k ?pre" for k
      using cfg unfolding resolveApiKey_def settlingConfig_def by (auto intro!: steady_intros)
    from steadyD [OF this _ pre] have "v (rs_world t') \<le> v (rs_world s)" by auto
    moreover have "v (rs_world t) < v (rs_world t')" by (rule consuming_outside [OF settlingEnvD(2) [OF env] o]) simp
    ultimately show ?thesis by simp
  qed
  show "settlesAt v (streamAssistantResponse env n cfg) s"
    unfolding streamAssistantResponse_def
    by (rule settlesAt_andThen, rule steady_at, rule opened, rule consumeResponse_settles [OF env]) (use n in simp)
  assume "streamAssistantResponse env n cfg s = (Returned am, u)"
  then obtain t where t: "openResponse env cfg s = (Returned (), t)" and c: "consumeResponse env n False t = (Returned am, u)"
    by (auto simp: streamAssistantResponse_def andThen_Returned)
  from spent [OF t] have "settlesAt v (consumeResponse env n False) t"
    by (intro consumeResponse_settles [OF env]) (use n in simp)
  with c have "v (rs_world u) \<le> v (rs_world t)" by (simp add: settlesAt_def)
  with spent [OF t] consumeResponse_calls [OF env c] show "v (rs_world u) < v (rs_world s) \<and> length (toolCalls am) \<le> b" by simp
qed

lemma steady_inject:
  assumes "settlingEnv v b env"
  shows "steady v k (for_each (injectMessage env) ms)"
  by (intro steady_intros steady_emitters [OF assms])

lemma steady_finishTurn:
  assumes env: "settlingEnv v b env" and cfg: "settlingConfig v cfg" and n: "k + 3 * b < n" and am: "length (toolCalls am) \<le> b"
  shows "steady v k (finishTurn env n cfg am)"
proof (rule steadyI)
  fix s :: "'a run_state"
  assume s: "v (rs_world s) \<le> k"
  have update: "steady v j (applyUpdate cfg u)" for u j
    unfolding applyUpdate_def
    by (auto split: option.splits intro!: steady_intros) (simp add: steady_def action_run)
  have hook: "settlingHook v (lc_prepareNextTurn cfg)" using cfg by (simp add: settlingConfig_def)
  have after: "steady v j (callHook (lc_shouldStopAfterTurn cfg') False tx)" "steady v j (pollMessages (lc_getSteeringMessages cfg'))"
    if "sameHooks cfg cfg'" for cfg' tx j
    using cfg settlingConfig_same [OF that, of v] by (auto simp: settlingConfig_def intro!: steady_intros)
  have rest: "settlesAt v (andThen (applyUpdate cfg update) (\<lambda>cfg'.
     andThen (turnContext am results) (\<lambda>tx'.
     andThen (callHook (lc_shouldStopAfterTurn cfg') False tx') (\<lambda>stop.
       if stop then andThen (endRun env) (\<lambda>_. give StopRun)
       else andThen (pollMessages (lc_getSteeringMessages cfg')) (\<lambda>pending. give (NextTurn cfg' m pending)))))) u" for u update results m
  proof (rule settlesAt_andThen, rule steady_at, rule local.update)
    fix cfg' u'
    assume "applyUpdate cfg update u = (Returned cfg', u')"
    then have "sameHooks cfg cfg'" using ensures_Returned [OF applyUpdate_config] by blast
    note after = after [OF this]
    show "settlesAt v (andThen (turnContext am results) (\<lambda>tx'.
       andThen (callHook (lc_shouldStopAfterTurn cfg') False tx') (\<lambda>stop.
       if stop then andThen (endRun env) (\<lambda>_. give StopRun)
       else andThen (pollMessages (lc_getSteeringMessages cfg')) (\<lambda>pending. give (NextTurn cfg' m pending))))) u'"
      by (rule steady_at) (intro steady_intros after steady_emitters [OF env])
  qed
  show "settlesAt v (finishTurn env n cfg am) s"
    unfolding finishTurn_def case_prod_beta
    by (rule settlesAt_andThen, rule steady_at, rule steady_runBatch [OF env cfg _ am], use s n in simp,
        rule settlesAt_andThen, rule steady_at, rule steady_emit [OF env], rule settlesAt_andThen, rule steady_at,
        rule steady_basic, rule settlesAt_andThen, rule steady_at, rule steady_hook [OF hook], rule rest)
qed

lemma runTurn_settles:
  assumes env: "settlingEnv v b env" and cfg: "settlingConfig v cfg" and n: "v (rs_world s) + 3 * b < n"
  shows "settlesAt v (runTurn env n cfg firstTurn pending) s"
    and "runTurn env n cfg firstTurn pending s = (Returned r, u) \<Longrightarrow> v (rs_world u) < v (rs_world s)"
proof -
  let ?start = "if firstTurn then give () else emit env TurnStart"
  let ?tail = "\<lambda>am. andThen (pushNew (AssistantMessage am)) (\<lambda>_.
       if am_stopReason am = ErrorStop \<or> am_stopReason am = AbortedStop
       then andThen (emit env (TurnEnd (AssistantMessage am) [])) (\<lambda>_. andThen (endRun env) (\<lambda>_. give StopRun))
       else finishTurn env n cfg am)"
  have before: "steady v k (andThen ?start (\<lambda>_. for_each (injectMessage env) pending))" for k
    by (intro steady_intros steady_emit [OF env] steady_emitters [OF env])
  have tail: "steady v k (?tail am)" if "length (toolCalls am) \<le> b" "k + 3 * b < n" for am k
    by (intro steady_intros steady_emit [OF env] steady_emitters [OF env] steady_finishTurn [OF env cfg that(2,1)])
  have split: "runTurn env n cfg firstTurn pending =
      andThen (andThen ?start (\<lambda>_. for_each (injectMessage env) pending)) (\<lambda>_. andThen (streamAssistantResponse env n cfg) ?tail)"
    unfolding runTurn_def andThen_assoc ..
  show "settlesAt v (runTurn env n cfg firstTurn pending) s"
    unfolding split
  proof (rule settlesAt_andThen, rule steady_at, rule before)
    fix u :: "'a run_state"
    assume u: "v (rs_world u) \<le> v (rs_world s)"
    then have un: "v (rs_world u) < n" using n by simp
    show "settlesAt v (andThen (streamAssistantResponse env n cfg) ?tail) u"
      by (rule settlesAt_andThen, rule stream_settles(1) [OF env cfg un], rule steady_at, rule tail)
        (use stream_settles(2) [OF env cfg un] n u in auto)
  qed
  assume "runTurn env n cfg firstTurn pending s = (Returned r, u)"
  then obtain t am t' where b: "andThen ?start (\<lambda>_. for_each (injectMessage env) pending) s = (Returned (), t)"
    and st: "streamAssistantResponse env n cfg t = (Returned am, t')" and tl: "?tail am t' = (Returned r, u)"
    unfolding split by (subst (asm) andThen_Returned, subst (asm) andThen_Returned) auto
  from steadyD [OF before _ b] have t: "v (rs_world t) \<le> v (rs_world s)" by auto
  then have tn: "v (rs_world t) < n" using n by simp
  from stream_settles(2) [OF env cfg tn st] have t': "v (rs_world t') < v (rs_world t)" "length (toolCalls am) \<le> b" by auto
  have "v (rs_world t') + 3 * b < n" using t' t n by simp
  from steadyD [OF tail [OF t'(2) this] _ tl] have "v (rs_world u) \<le> v (rs_world t')" by simp
  with t t' show "v (rs_world u) < v (rs_world s)" by simp
qed

text \<open>A turn costs budget; the poll for follow-up messages is followed by a turn or the end.\<close>

lemma turns_settle:
  assumes env: "settlingEnv v b env"
  shows "settlingConfig v cfg \<Longrightarrow> v (rs_world s) + 3 * b < k
    \<Longrightarrow> 2 * v (rs_world s) + (if hasMore \<or> pending \<noteq> [] then 0 else 1) < n
    \<Longrightarrow> settlesAt v (turns env k n cfg firstTurn hasMore pending) s"
proof (induction n arbitrary: cfg firstTurn hasMore pending s)
  case (Suc n)
  have poll: "steady v j (pollMessages (lc_getFollowUpMessages cfg))" for j
    using Suc.prems(1) by (auto simp: settlingConfig_def intro!: steady_intros)
  show ?case
  proof (cases "hasMore \<or> pending \<noteq> []")
    case True
    have turn: "settlesAt v (case r of StopRun \<Rightarrow> give () | NextTurn cfg' m ps \<Rightarrow> turns env k n cfg' False m ps) u"
      if run: "runTurn env k cfg firstTurn pending s = (Returned r, u)" for r u
    proof (cases r)
      case (NextTurn cfg' m ps)
      have u: "v (rs_world u) < v (rs_world s)" by (rule runTurn_settles(2) [OF env Suc.prems(1,2) run])
      have "settlingConfig v cfg'" using runTurn_hooks run NextTurn settlingConfig_same Suc.prems(1) by metis
      then have "settlesAt v (turns env k n cfg' False m ps) u"
        by (rule Suc.IH) (use u Suc.prems(2,3) in auto)
      then show ?thesis by (simp add: NextTurn)
    qed (simp add: settlesAt_def give_apply)
    show ?thesis unfolding turns.simps
      by (simp only: True if_True, rule settlesAt_andThen, rule runTurn_settles(1) [OF env Suc.prems(1,2)], rule turn)
  next
    case False
    have rest: "settlesAt v (if fs \<noteq> [] then turns env k n cfg firstTurn True fs else endRun env) u"
      if "v (rs_world u) \<le> v (rs_world s)" for fs u
    proof (cases "fs \<noteq> []")
      case True
      have "settlesAt v (turns env k n cfg firstTurn True fs) u"
        by (rule Suc.IH [OF Suc.prems(1)]) (use that Suc.prems(2,3) False in auto)
      with True show ?thesis by simp
    qed (use steady_at [OF steady_emitters(6) [OF env]] in simp)
    show ?thesis unfolding turns.simps
      by (simp only: False if_False, rule settlesAt_andThen, rule steady_at, rule poll, erule rest)
  qed
qed simp

section \<open>The run\<close>

lemma promptRun_settles:
  assumes env: "settlingEnv v b env" and cfg: "settlingConfig v cfg" and "v (rs_world s) + 3 * b < k" and "2 * v (rs_world s) < n"
  shows "settlesAt v (promptRun env k n cfg prompts) s"
proof -
  have open_run: "steady v j (andThen (emit env AgentStart) (\<lambda>_. andThen (emit env TurnStart) (\<lambda>_. for_each (emitMessage env) prompts)))"
    and poll: "steady v j (pollMessages (lc_getSteeringMessages cfg))" for j
    using cfg by (auto simp: settlingConfig_def intro!: steady_intros steady_emit [OF env] steady_emitters [OF env])
  have split: "promptRun env k n cfg prompts =
      andThen (andThen (emit env AgentStart) (\<lambda>_. andThen (emit env TurnStart) (\<lambda>_. for_each (emitMessage env) prompts)))
        (\<lambda>_. andThen (pollMessages (lc_getSteeringMessages cfg)) (\<lambda>p. andThen (turns env k n cfg True True p) (\<lambda>_. ask rs_new)))"
    unfolding promptRun_def runLoop_def andThen_assoc ..
  show ?thesis unfolding split
    by (rule settlesAt_andThen, rule steady_at, rule open_run, rule settlesAt_andThen, rule steady_at, rule poll,
        rule settlesAt_andThen, rule turns_settle [OF env cfg])
      (use assms(3,4) in \<open>auto simp: settlesAt_def ask_apply\<close>)
qed

text \<open>
  C19. A run ends: if every call to the outside settles and a budget of the world is never raised, and
  is used up by each request to the provider, each partial event of its responses and each progress
  report of a tool, then the run returns or throws, within \<open>3 b\<close> more steps per response and batch
  than the budget (\<open>b\<close> bounds the tool calls of a response) and twice as many iterations of the
  loops as the budget allows requests. The loop adds no way of its own to go on for ever.
\<close>

theorem agent_run_settles:
  assumes "settlingEnv v b env" and "settlingConfig v cfg" and "v w + 3 * b < fuel" and "2 * v w < n"
  shows "fst (runAgentLoop env fuel n prompts ctx cfg w) \<noteq> Stalled"
  using promptRun_settles [OF assms(1,2), of "initialRun w ctx prompts" fuel n prompts] assms(3,4)
  by (simp add: runAgentLoop_def settlesAt_def initialRun_def)

text \<open>The demo provider refuses further requests once its responses are used up.\<close>

definition demo_limited :: "demo_world loop_env" where
  "demo_limited = demo_env\<lparr>
     le_streamFunction := (\<lambda>_ w. if dw_responses w = [] then (Thrown ''limit'', w) else (Returned (), w\<lparr>dw_responses := tl (dw_responses w)\<rparr>)),
     le_result := give (demo_reply [demo_call ''1''] ToolUseStop)\<rparr>"

theorem agent_run_settles_witness:
  "fst (runAgentLoop demo_limited 5 3 [demo_prompt] demo_context demo_config demo_start) \<noteq> Stalled"
proof (rule agent_run_settles [where v = "length \<circ> dw_responses" and b = 1])
  show "settlingEnv (length \<circ> dw_responses) 1 demo_limited"
    by (auto simp: settlingEnv_def demo_limited_def demo_env_sel settling_def consuming_def give_apply demo_reply_sel
      toolCalls_def demo_call_def split: if_splits)
  show "settlingConfig (length \<circ> dw_responses) demo_config"
    by (simp add: settlingConfig_def settlingHook_def settlingPoll_def demo_config_sel settling_def give_apply)
qed (simp_all add: demo_start_def)

end
