(* ===== verification/AgentClass.thy ===== *)
theory AgentClass
  imports AgentLoop
begin

text \<open>
  The class \<open>Agent\<close> (\<open>packages/agent/src/agent.ts\<close>): its state, its queues, the reduction of loop
  events into the state, and the life cycle of a run. Code outside the agent (listeners, tools,
  hooks, the provider) reads the agent and acts on it through its public calls only: an external
  call returns what it did to the outside and the calls it made, which take effect in that order.
  Listeners are fixed during a run, and nothing outside assigns \<open>state.messages\<close> while it is active.
\<close>

section \<open>Queues\<close>

datatype queue_mode = QueueAll | OneAtATime

record pending_queue =
  pq_mode :: queue_mode
  pq_messages :: "agent_message list"

definition pq_new :: "queue_mode \<Rightarrow> pending_queue" where
  "pq_new mode = \<lparr>pq_mode = mode, pq_messages = []\<rparr>"

definition pq_enqueue :: "agent_message \<Rightarrow> pending_queue \<Rightarrow> pending_queue" where
  "pq_enqueue m q = q\<lparr>pq_messages := pq_messages q @ [m]\<rparr>"

definition pq_hasItems :: "pending_queue \<Rightarrow> bool" where
  "pq_hasItems q \<longleftrightarrow> pq_messages q \<noteq> []"

definition pq_drain :: "pending_queue \<Rightarrow> agent_message list \<times> pending_queue" where
  "pq_drain q = (if pq_mode q = QueueAll then (pq_messages q, q\<lparr>pq_messages := []\<rparr>)
     else case pq_messages q of [] \<Rightarrow> ([], q) | m # ms \<Rightarrow> ([m], q\<lparr>pq_messages := ms\<rparr>))"

definition pq_clear :: "pending_queue \<Rightarrow> pending_queue" where
  "pq_clear q = q\<lparr>pq_messages := []\<rparr>"

section \<open>State\<close>

text \<open>
  \<open>ag_activeRun\<close> is the active run with its signal: whether it has been aborted. \<open>ag_skipPoll\<close> is the
  variable of the loop configuration that skips the first poll of the steering queue. Listeners
  are known by number; \<open>ag_outer\<close> is the state of everything outside the agent.
\<close>

record 'x agent =
  ag_systemPrompt :: string
  ag_model :: loop_model
  ag_thinkingLevel :: string
  ag_tools :: "agent_tool list"
  ag_messages :: "agent_message list"
  ag_isStreaming :: bool
  ag_streamingMessage :: "agent_message option"
  ag_pendingToolCalls :: "string set"
  ag_errorMessage :: "string option"
  ag_steering :: pending_queue
  ag_followUp :: pending_queue
  ag_activeRun :: "bool option"
  ag_skipPoll :: bool
  ag_listeners :: "nat list"
  ag_outer :: 'x

section \<open>Public calls\<close>

datatype api_call =
    Steer agent_message | FollowUp agent_message
  | ClearSteeringQueue | ClearFollowUpQueue | AbortRun
  | SetSteeringMode queue_mode | SetFollowUpMode queue_mode
  | SetSystemPrompt string | SetModel loop_model | SetThinkingLevel string | SetTools "agent_tool list"

definition steer :: "agent_message \<Rightarrow> 'x agent \<Rightarrow> 'x agent" where
  "steer m a = a\<lparr>ag_steering := pq_enqueue m (ag_steering a)\<rparr>"

definition followUp :: "agent_message \<Rightarrow> 'x agent \<Rightarrow> 'x agent" where
  "followUp m a = a\<lparr>ag_followUp := pq_enqueue m (ag_followUp a)\<rparr>"

definition clearSteeringQueue :: "'x agent \<Rightarrow> 'x agent" where
  "clearSteeringQueue a = a\<lparr>ag_steering := pq_clear (ag_steering a)\<rparr>"

definition clearFollowUpQueue :: "'x agent \<Rightarrow> 'x agent" where
  "clearFollowUpQueue a = a\<lparr>ag_followUp := pq_clear (ag_followUp a)\<rparr>"

definition clearAllQueues :: "'x agent \<Rightarrow> 'x agent" where
  "clearAllQueues a = clearFollowUpQueue (clearSteeringQueue a)"

definition hasQueuedMessages :: "'x agent \<Rightarrow> bool" where
  "hasQueuedMessages a \<longleftrightarrow> pq_hasItems (ag_steering a) \<or> pq_hasItems (ag_followUp a)"

definition agentSignal :: "'x agent \<Rightarrow> bool option" where
  "agentSignal a = ag_activeRun a"

definition abortRun :: "'x agent \<Rightarrow> 'x agent" where
  "abortRun a = a\<lparr>ag_activeRun := map_option (\<lambda>_. True) (ag_activeRun a)\<rparr>"

fun applyCall :: "api_call \<Rightarrow> 'x agent \<Rightarrow> 'x agent" where
  "applyCall (Steer m) a = steer m a"
| "applyCall (FollowUp m) a = followUp m a"
| "applyCall ClearSteeringQueue a = clearSteeringQueue a"
| "applyCall ClearFollowUpQueue a = clearFollowUpQueue a"
| "applyCall AbortRun a = abortRun a"
| "applyCall (SetSteeringMode mode) a = a\<lparr>ag_steering := (ag_steering a)\<lparr>pq_mode := mode\<rparr>\<rparr>"
| "applyCall (SetFollowUpMode mode) a = a\<lparr>ag_followUp := (ag_followUp a)\<lparr>pq_mode := mode\<rparr>\<rparr>"
| "applyCall (SetSystemPrompt t) a = a\<lparr>ag_systemPrompt := t\<rparr>"
| "applyCall (SetModel m) a = a\<lparr>ag_model := m\<rparr>"
| "applyCall (SetThinkingLevel l) a = a\<lparr>ag_thinkingLevel := l\<rparr>"
| "applyCall (SetTools ts) a = a\<lparr>ag_tools := ts\<rparr>"

type_synonym ('x, 'a) external = "'x agent \<Rightarrow> 'a settlement \<times> api_call list \<times> 'x"

definition through :: "('x, 'a) external \<Rightarrow> ('x agent, 'a) action" where
  "through f = (\<lambda>a. case f a of (r, calls, x) \<Rightarrow> (r, fold applyCall calls (a\<lparr>ag_outer := x\<rparr>)))"

text \<open>Setting \<open>messages\<close> between runs, and the set of listeners.\<close>

definition setMessages :: "agent_message list \<Rightarrow> 'x agent \<Rightarrow> 'x agent" where
  "setMessages ms a = a\<lparr>ag_messages := ms\<rparr>"

definition subscribe :: "nat \<Rightarrow> 'x agent \<Rightarrow> 'x agent" where
  "subscribe l a = (if l \<in> set (ag_listeners a) then a else a\<lparr>ag_listeners := ag_listeners a @ [l]\<rparr>)"

definition unsubscribe :: "nat \<Rightarrow> 'x agent \<Rightarrow> 'x agent" where
  "unsubscribe l a = a\<lparr>ag_listeners := filter (\<lambda>k. k \<noteq> l) (ag_listeners a)\<rparr>"

section \<open>Options\<close>

record 'x agent_options =
  ap_systemPrompt :: "string option"
  ap_model :: "loop_model option"
  ap_thinkingLevel :: "string option"
  ap_tools :: "agent_tool list option"
  ap_messages :: "agent_message list option"
  ap_convertToLlm :: "(agent_message list \<Rightarrow> ('x, agent_message list) external) option"
  ap_transformContext :: "(agent_message list \<Rightarrow> ('x, agent_message list) external) option"
  ap_getApiKey :: "(string \<Rightarrow> ('x, string option) external) option"
  ap_beforeToolCall :: "(before_context \<Rightarrow> ('x, before_result option) external) option"
  ap_afterToolCall :: "(after_context \<Rightarrow> ('x, after_result option) external) option"
  ap_shouldStopAfterTurn :: "(turn_context \<Rightarrow> ('x, bool) external) option"
  ap_prepareNextTurn :: "('x, turn_update option) external option"
  ap_prepareNextTurnWithContext :: "(turn_context \<Rightarrow> ('x, turn_update option) external) option"
  ap_steeringMode :: "queue_mode option"
  ap_followUpMode :: "queue_mode option"
  ap_toolExecution :: "execution_mode option"
  ap_listener :: "nat \<Rightarrow> agent_event \<Rightarrow> ('x, unit) external"
  ap_streamFn :: "stream_request \<Rightarrow> ('x, unit) external"
  ap_nextEvent :: "('x, assistant_event option) external"
  ap_result :: "('x, assistant_message) external"
  ap_validate :: "agent_tool \<Rightarrow> tool_call \<Rightarrow> tool_args settlement"
  ap_prepareArguments :: "agent_tool \<Rightarrow> (tool_args \<Rightarrow> tool_args settlement) option"
  ap_execute :: "agent_tool \<Rightarrow> string \<Rightarrow> tool_args \<Rightarrow> ('x, tool_step) external"
  ap_schedule :: "nat \<Rightarrow> ('x, nat) external"
  ap_now :: "('x, int) external"

definition defaultModel :: loop_model where
  "defaultModel = \<lparr>lm_id = ''unknown'', lm_api = ''unknown'', lm_provider = ''unknown''\<rparr>"

text \<open>The constructor.\<close>

definition newAgent :: "'x agent_options \<Rightarrow> 'x \<Rightarrow> 'x agent" where
  "newAgent opts x =
     \<lparr>ag_systemPrompt = (case ap_systemPrompt opts of None \<Rightarrow> [] | Some t \<Rightarrow> t),
      ag_model = (case ap_model opts of None \<Rightarrow> defaultModel | Some m \<Rightarrow> m),
      ag_thinkingLevel = (case ap_thinkingLevel opts of None \<Rightarrow> ''off'' | Some l \<Rightarrow> l),
      ag_tools = (case ap_tools opts of None \<Rightarrow> [] | Some ts \<Rightarrow> ts),
      ag_messages = (case ap_messages opts of None \<Rightarrow> [] | Some ms \<Rightarrow> ms),
      ag_isStreaming = False, ag_streamingMessage = None, ag_pendingToolCalls = {}, ag_errorMessage = None,
      ag_steering = pq_new (case ap_steeringMode opts of None \<Rightarrow> OneAtATime | Some m \<Rightarrow> m),
      ag_followUp = pq_new (case ap_followUpMode opts of None \<Rightarrow> OneAtATime | Some m \<Rightarrow> m),
      ag_activeRun = None, ag_skipPoll = False, ag_listeners = [], ag_outer = x\<rparr>"

definition defaultConvertToLlm :: "agent_message list \<Rightarrow> agent_message list" where
  "defaultConvertToLlm ms = filter (\<lambda>m. role m \<in> {UserRole, AssistantRole, ToolResultRole}) ms"

section \<open>Events\<close>

text \<open>The reduction of a loop event into the state.\<close>

fun reduceEvent :: "agent_event \<Rightarrow> 'x agent \<Rightarrow> 'x agent" where
  "reduceEvent (MessageStart m) a = a\<lparr>ag_streamingMessage := Some m\<rparr>"
| "reduceEvent (MessageUpdate m _) a = a\<lparr>ag_streamingMessage := Some m\<rparr>"
| "reduceEvent (MessageEnd m) a = a\<lparr>ag_streamingMessage := None, ag_messages := ag_messages a @ [m]\<rparr>"
| "reduceEvent (ToolExecutionStart i _ _) a = a\<lparr>ag_pendingToolCalls := insert i (ag_pendingToolCalls a)\<rparr>"
| "reduceEvent (ToolExecutionEnd i _ _ _) a = a\<lparr>ag_pendingToolCalls := ag_pendingToolCalls a - {i}\<rparr>"
| "reduceEvent (TurnEnd (AssistantMessage am) _) a =
     (if am_errorMessage am = None \<or> am_errorMessage am = Some [] then a else a\<lparr>ag_errorMessage := am_errorMessage am\<rparr>)"
| "reduceEvent (AgentEnd _) a = a\<lparr>ag_streamingMessage := None\<rparr>"
| "reduceEvent _ a = a"

definition notifyListeners :: "'x agent_options \<Rightarrow> agent_event \<Rightarrow> ('x agent, unit) action" where
  "notifyListeners opts ev =
     andThen (ask (\<lambda>a. (ag_activeRun a, ag_listeners a))) (\<lambda>(active, listeners).
       if active = None then fail ''Agent listener invoked outside active run''
       else for_each (\<lambda>l. through (ap_listener opts l ev)) listeners)"

definition processEvents :: "'x agent_options \<Rightarrow> agent_event \<Rightarrow> ('x agent, unit) action" where
  "processEvents opts ev = andThen (change (reduceEvent ev)) (\<lambda>_. notifyListeners opts ev)"

section \<open>The configuration of a run\<close>

definition createContextSnapshot :: "'x agent \<Rightarrow> agent_context" where
  "createContextSnapshot a = \<lparr>ac_systemPrompt = ag_systemPrompt a, ac_messages = ag_messages a, ac_tools = Some (ag_tools a)\<rparr>"

definition pollSteering :: "('x agent, agent_message list) action" where
  "pollSteering a =
     (if ag_skipPoll a then (Returned [], a\<lparr>ag_skipPoll := False\<rparr>)
      else case pq_drain (ag_steering a) of (ms, q) \<Rightarrow> (Returned ms, a\<lparr>ag_steering := q\<rparr>))"

definition pollFollowUps :: "('x agent, agent_message list) action" where
  "pollFollowUps a = (case pq_drain (ag_followUp a) of (ms, q) \<Rightarrow> (Returned ms, a\<lparr>ag_followUp := q\<rparr>))"

definition hookOf :: "('c \<Rightarrow> ('x, 'a) external) option \<Rightarrow> ('c \<Rightarrow> ('x agent, 'a) action) option" where
  "hookOf h = map_option (\<lambda>f x. through (f x)) h"

definition createLoopConfig :: "'x agent_options \<Rightarrow> 'x agent \<Rightarrow> 'x agent loop_config" where
  "createLoopConfig opts a =
     \<lparr>lc_model = ag_model a, lc_reasoning = (if ag_thinkingLevel a = ''off'' then None else Some (ag_thinkingLevel a)),
      lc_apiKey = None, lc_toolExecution = Some (case ap_toolExecution opts of None \<Rightarrow> ParallelMode | Some m \<Rightarrow> m),
      lc_convertToLlm = (case ap_convertToLlm opts of None \<Rightarrow> (\<lambda>ms. give (defaultConvertToLlm ms)) | Some f \<Rightarrow> (\<lambda>ms. through (f ms))),
      lc_transformContext = hookOf (ap_transformContext opts), lc_getApiKey = hookOf (ap_getApiKey opts),
      lc_getSteeringMessages = Some pollSteering, lc_getFollowUpMessages = Some pollFollowUps,
      lc_beforeToolCall = hookOf (ap_beforeToolCall opts), lc_afterToolCall = hookOf (ap_afterToolCall opts),
      lc_prepareNextTurn = (case ap_prepareNextTurnWithContext opts of
          Some f \<Rightarrow> Some (\<lambda>x. through (f x))
        | None \<Rightarrow> map_option (\<lambda>f x. through f) (ap_prepareNextTurn opts)),
      lc_shouldStopAfterTurn = hookOf (ap_shouldStopAfterTurn opts)\<rparr>"

definition loopEnv :: "'x agent_options \<Rightarrow> 'x agent loop_env" where
  "loopEnv opts =
     \<lparr>le_emit = processEvents opts, le_aborted = (\<lambda>a. ag_activeRun a = Some True),
      le_streamFunction = (\<lambda>rq. through (ap_streamFn opts rq)), le_nextEvent = through (ap_nextEvent opts),
      le_result = through (ap_result opts), le_validate = ap_validate opts, le_prepareArguments = ap_prepareArguments opts,
      le_execute = (\<lambda>t i args. through (ap_execute opts t i args)), le_schedule = (\<lambda>c. through (ap_schedule opts c)),
      le_now = through (ap_now opts)\<rparr>"

section \<open>The life cycle of a run\<close>

definition emptyUsage :: usage where
  "emptyUsage = \<lparr>u_input = 0, u_output = 0, u_cacheRead = 0, u_cacheWrite = 0, u_cacheWrite1h = None, u_reasoning = None,
     u_totalTokens = 0, u_cost = \<lparr>cost_input = 0, cost_output = 0, cost_cacheRead = 0, cost_cacheWrite = 0, cost_total = 0\<rparr>\<rparr>"

definition failureMessage :: "loop_model \<Rightarrow> string \<Rightarrow> bool \<Rightarrow> int \<Rightarrow> assistant_message" where
  "failureMessage model err wasAborted now =
     \<lparr>am_content = [TextContent [] None], am_api = lm_api model, am_provider = lm_provider model, am_model = lm_id model,
      am_responseModel = None, am_responseId = None, am_diagnostics = None, am_usage = emptyUsage,
      am_stopReason = (if wasAborted then AbortedStop else ErrorStop), am_deferred = None, am_errorMessage = Some err,
      am_rawStopReason = None, am_endTurn = None, am_timestamp = now\<rparr>"

definition handleRunFailure :: "'x agent_options \<Rightarrow> string \<Rightarrow> ('x agent, unit) action" where
  "handleRunFailure opts err =
     andThen (ask (\<lambda>a. (ag_model a, ag_activeRun a = Some True))) (\<lambda>(model, wasAborted).
     andThen (through (ap_now opts)) (\<lambda>now.
     let m = AssistantMessage (failureMessage model err wasAborted now) in
     andThen (processEvents opts (MessageStart m)) (\<lambda>_.
     andThen (processEvents opts (MessageEnd m)) (\<lambda>_.
     andThen (processEvents opts (TurnEnd m [])) (\<lambda>_.
       processEvents opts (AgentEnd [m]))))))"

definition beginRun :: "'x agent \<Rightarrow> 'x agent" where
  "beginRun a = a\<lparr>ag_activeRun := Some False, ag_isStreaming := True, ag_streamingMessage := None, ag_errorMessage := None\<rparr>"

definition finishRun :: "'x agent \<Rightarrow> 'x agent" where
  "finishRun a = a\<lparr>ag_isStreaming := False, ag_streamingMessage := None, ag_pendingToolCalls := {}, ag_activeRun := None\<rparr>"

definition runWithLifecycle :: "'x agent_options \<Rightarrow> ('x agent, unit) action \<Rightarrow> ('x agent, unit) action" where
  "runWithLifecycle opts execute =
     andThen (ask ag_activeRun) (\<lambda>active.
       if active \<noteq> None then fail ''Agent is already processing.''
       else andThen (change beginRun) (\<lambda>_.
            andThen (attempt execute) (\<lambda>r.
            andThen (attempt (case r of Inl e \<Rightarrow> handleRunFailure opts e | Inr _ \<Rightarrow> give ())) (\<lambda>q.
            andThen (change finishRun) (\<lambda>_. case q of Inl e \<Rightarrow> fail e | Inr _ \<Rightarrow> give ())))))"

definition toUnit :: "'a settlement \<Rightarrow> unit settlement" where
  "toUnit r = (case r of Returned _ \<Rightarrow> Returned () | Thrown e \<Rightarrow> Thrown e | Stalled \<Rightarrow> Stalled)"

definition runPromptMessages :: "'x agent_options \<Rightarrow> nat \<Rightarrow> nat \<Rightarrow> agent_message list \<Rightarrow> bool \<Rightarrow> ('x agent, unit) action" where
  "runPromptMessages opts fuel n messages skipInitialSteeringPoll =
     runWithLifecycle opts (\<lambda>a.
       case runAgentLoop (loopEnv opts) fuel n messages (createContextSnapshot a) (createLoopConfig opts a)
              (a\<lparr>ag_skipPoll := skipInitialSteeringPoll\<rparr>) of
         (r, s) \<Rightarrow> (toUnit r, rs_world s))"

definition runContinuation :: "'x agent_options \<Rightarrow> nat \<Rightarrow> nat \<Rightarrow> ('x agent, unit) action" where
  "runContinuation opts fuel n =
     runWithLifecycle opts (\<lambda>a.
       case runAgentLoopContinue (loopEnv opts) fuel n (createContextSnapshot a) (createLoopConfig opts a)
              (a\<lparr>ag_skipPoll := False\<rparr>) of
         (r, s) \<Rightarrow> (toUnit r, rs_world s))"

section \<open>Prompting, continuing, resetting\<close>

datatype prompt_input = PromptText string "content list" | PromptMessage agent_message | PromptBatch "agent_message list"

definition normalizePromptInput :: "'x agent_options \<Rightarrow> prompt_input \<Rightarrow> ('x agent, agent_message list) action" where
  "normalizePromptInput opts input = (case input of
       PromptBatch ms \<Rightarrow> give ms
     | PromptMessage m \<Rightarrow> give [m]
     | PromptText t images \<Rightarrow> andThen (through (ap_now opts)) (\<lambda>now. give
         [UserMessage \<lparr>um_content = Blocks (TextContent t None # images), um_timestamp = now\<rparr>]))"

definition agentPrompt :: "'x agent_options \<Rightarrow> nat \<Rightarrow> nat \<Rightarrow> prompt_input \<Rightarrow> ('x agent, unit) action" where
  "agentPrompt opts fuel n input =
     andThen (ask ag_activeRun) (\<lambda>active.
       if active \<noteq> None
       then fail ''Agent is already processing a prompt. Use steer() or followUp() to queue messages, or wait for completion.''
       else andThen (normalizePromptInput opts input) (\<lambda>ms. runPromptMessages opts fuel n ms False))"

definition agentContinue :: "'x agent_options \<Rightarrow> nat \<Rightarrow> nat \<Rightarrow> ('x agent, unit) action" where
  "agentContinue opts fuel n a =
     (if ag_activeRun a \<noteq> None then (Thrown ''Agent is already processing. Wait for completion before continuing.'', a)
      else if ag_messages a = [] then (Thrown ''No messages to continue from'', a)
      else if role (last (ag_messages a)) = AssistantRole
      then case pq_drain (ag_steering a) of (steering, q) \<Rightarrow>
             let a' = a\<lparr>ag_steering := q\<rparr> in
             if steering \<noteq> [] then runPromptMessages opts fuel n steering True a'
             else case pq_drain (ag_followUp a') of (followUps, q') \<Rightarrow>
               let a'' = a'\<lparr>ag_followUp := q'\<rparr> in
               if followUps \<noteq> [] then runPromptMessages opts fuel n followUps False a''
               else (Thrown ''Cannot continue from message role: assistant'', a'')
      else runContinuation opts fuel n a)"

definition agentReset :: "('x agent, unit) action" where
  "agentReset a =
     (if ag_activeRun a \<noteq> None then (Thrown ''Agent is already processing. Wait for completion before resetting.'', a)
      else (Returned (), clearSteeringQueue (clearFollowUpQueue (a\<lparr>ag_messages := [], ag_isStreaming := False,
        ag_streamingMessage := None, ag_pendingToolCalls := {}, ag_errorMessage := None\<rparr>))))"

end
