(* ===== verification/AgentRelations.thy ===== *)
theory AgentRelations
  imports AgentRun
begin

text \<open>
  Facts about a run that hold step by step, whatever its outcome: a reflexive and transitive relation
  between states that every call to the outside and every emitted event respects relates the first
  and the last state of the whole run. The locale states what a client has to show of its
  environment; the lemmas carry the relation through every operation of the loop.
\<close>

definition obeys :: "('s \<Rightarrow> 's \<Rightarrow> bool) \<Rightarrow> ('s, 'a) action \<Rightarrow> bool" where
  "obeys R m \<longleftrightarrow> (\<forall>s. R s (snd (m s)))"

text \<open>The hooks of a configuration respect the relation.\<close>

definition calmHook :: "('w run_state \<Rightarrow> 'w run_state \<Rightarrow> bool) \<Rightarrow> ('c \<Rightarrow> ('w, 'a) action) option \<Rightarrow> bool" where
  "calmHook R h \<longleftrightarrow> (\<forall>f x. h = Some f \<longrightarrow> obeys R (outside (f x)))"

definition calmPoll :: "('w run_state \<Rightarrow> 'w run_state \<Rightarrow> bool) \<Rightarrow> ('w, 'a) action option \<Rightarrow> bool" where
  "calmPoll R h \<longleftrightarrow> (\<forall>f. h = Some f \<longrightarrow> obeys R (outside f))"

definition calmConfig :: "('w run_state \<Rightarrow> 'w run_state \<Rightarrow> bool) \<Rightarrow> 'w loop_config \<Rightarrow> bool" where
  "calmConfig R cfg \<longleftrightarrow> (\<forall>ms. obeys R (outside (lc_convertToLlm cfg ms)))
     \<and> calmHook R (lc_transformContext cfg) \<and> calmHook R (lc_getApiKey cfg)
     \<and> calmPoll R (lc_getSteeringMessages cfg) \<and> calmPoll R (lc_getFollowUpMessages cfg)
     \<and> calmHook R (lc_beforeToolCall cfg) \<and> calmHook R (lc_afterToolCall cfg)
     \<and> calmHook R (lc_prepareNextTurn cfg) \<and> calmHook R (lc_shouldStopAfterTurn cfg)"

lemma calmConfig_same: "sameHooks cfg cfg' \<Longrightarrow> calmConfig R cfg' = calmConfig R cfg"
  by (auto simp: sameHooks_def calmConfig_def)

named_theorems run_rules \<open>operations that respect a run relation\<close>

locale run_relation =
  fixes R :: "'w run_state \<Rightarrow> 'w run_state \<Rightarrow> bool" and env :: "'w loop_env"
  assumes related_refl: "R s s"
    and related_trans: "R s t \<Longrightarrow> R t u \<Longrightarrow> R s u"
    and related_frame: "rs_world t = rs_world s \<Longrightarrow> rs_events t = rs_events s \<Longrightarrow> R s t"
    and related_emit: "obeys R (emit env ev)"
    and related_stream: "obeys R (outside (le_streamFunction env rq))"
    and related_event: "obeys R (outside (le_nextEvent env))"
    and related_result: "obeys R (outside (le_result env))"
    and related_execute: "obeys R (outside (le_execute env tool i args))"
    and related_schedule: "obeys R (outside (le_schedule env c))"
    and related_now: "obeys R (outside (le_now env))"
begin

lemmas related_outside = related_stream related_event related_result related_execute related_schedule related_now

lemma respects_frame [run_rules]:
  "obeys R (give x)" "obeys R (fail e)" "obeys R stall" "obeys R (ask f)" "obeys R (settled r)"
  "obeys R (pushContext m)" "obeys R (pushNew m)" "obeys R (replaceLast m)" "obeys R (turnContext am rs)"
  "obeys R (aborted env)"
  by (simp_all add: obeys_def action_run pushContext_def pushNew_def replaceLast_def turnContext_def aborted_def
      related_refl related_frame)

lemma respects_andThen [run_rules]:
  assumes "obeys R m" and "\<And>x. obeys R (f x)"
  shows "obeys R (andThen m f)"
  unfolding obeys_def
proof
  fix s
  obtain r u where m: "m s = (r, u)" by fastforce
  have u: "R s u" using assms(1) m by (metis obeys_def snd_conv)
  have "R u (snd (f x u))" for x using assms(2) by (simp add: obeys_def)
  with u show "R s (snd (andThen m f s))"
    by (cases r) (auto simp: andThen_def m intro: related_trans)
qed

lemma respects_attempt [run_rules]:
  assumes "obeys R m"
  shows "obeys R (attempt m)"
  unfolding obeys_def
proof
  fix s
  obtain r u where m: "m s = (r, u)" by fastforce
  have "R s u" using assms m by (metis obeys_def snd_conv)
  then show "R s (snd (attempt m s))" by (cases r) (simp_all add: attempt_def m)
qed

lemma respects_if [run_rules]: "obeys R m \<Longrightarrow> obeys R m' \<Longrightarrow> obeys R (if b then m else m')"
  by simp

lemma respects_for_each [run_rules]: "(\<And>x. obeys R (f x)) \<Longrightarrow> obeys R (for_each f xs)"
  by (induction xs) (auto intro: run_rules)

lemma respects_hook [run_rules]: "calmHook R h \<Longrightarrow> obeys R (callHook h x c)"
  unfolding callHook_def calmHook_def by (cases h) (auto intro: run_rules)

lemma respects_poll [run_rules]: "calmPoll R h \<Longrightarrow> obeys R (pollMessages h)"
  unfolding pollMessages_def calmPoll_def by (cases h) (auto intro: run_rules)

lemma respects_emitters [run_rules]:
  "obeys R (emitMessage env m)" "obeys R (emitToolExecutionStart env tc)" "obeys R (emitToolExecutionEnd env f)"
  "obeys R (emitToolResult env f)" "obeys R (injectMessage env m)" "obeys R (endRun env)"
  unfolding emitMessage_def emitToolExecutionStart_def emitToolExecutionEnd_def emitToolResult_def injectMessage_def
    createToolResultMessage_def endRun_def
  by (intro run_rules related_emit related_outside)+

lemma respects_response:
  assumes "calmConfig R cfg"
  shows "obeys R (streamAssistantResponse env n cfg)"
proof -
  have "obeys R (openResponse env cfg)"
    using assms unfolding openResponse_def resolveApiKey_def calmConfig_def by (auto intro!: run_rules related_outside)
  moreover have "obeys R (finishResponse env added)" for added
    unfolding finishResponse_def by (intro run_rules related_emit related_outside)
  then have "obeys R (consumeResponse env n added)" for added
    by (induction n arbitrary: added)
      (auto intro!: run_rules related_emit related_outside split: option.splits assistant_event.splits)
  ultimately show ?thesis unfolding streamAssistantResponse_def by (intro run_rules)
qed

lemma respects_prepare:
  assumes "calmConfig R cfg"
  shows "obeys R (prepareToolCall env cfg am tc)"
proof -
  have "obeys R (prepareToolCallArguments env tool tc)" for tool
    unfolding prepareToolCallArguments_def by (auto split: option.splits intro!: run_rules)
  then show ?thesis using assms unfolding prepareToolCall_def prepareFound_def calmConfig_def
    by (auto split: option.splits intro!: run_rules)
qed

lemma respects_step: "obeys R (executeStep env p failure)"
proof -
  have "obeys R (settleExecution failure out)" for out
    unfolding settleExecution_def by (cases failure) (auto intro: run_rules)
  then show ?thesis unfolding executeStep_def Let_def
    by (auto intro!: run_rules related_emit related_outside split: sum.splits tool_step.splits)
qed

lemma respects_finalize: "calmConfig R cfg \<Longrightarrow> obeys R (finalizeExecutedToolCall env cfg am p out)"
  unfolding finalizeExecutedToolCall_def calmConfig_def by (auto intro!: run_rules)

lemma respects_sequential:
  assumes "calmConfig R cfg"
  shows "obeys R (executeToolCallsSequential env n cfg am)"
proof -
  have "obeys R (executePreparedToolCall env n p failure)" for p failure
    by (induction n arbitrary: failure) (auto intro!: run_rules respects_step split: sum.splits)
  then have "obeys R (runToolCall env n cfg am tc)" for tc
    unfolding runToolCall_def
    by (auto intro!: run_rules respects_prepare [OF assms] respects_finalize [OF assms] split: preparation.splits)
  then have "obeys R (sequentialCalls env n cfg am tcs)" for tcs
    by (induction tcs) (auto intro!: run_rules)
  then show ?thesis unfolding executeToolCallsSequential_def by (intro run_rules)
qed

lemma respects_parallel:
  assumes "calmConfig R cfg"
  shows "obeys R (executeToolCallsParallel env n cfg am)"
proof -
  have batch: "obeys R (prepareBatch env cfg am tcs)" for tcs
    by (induction tcs) (auto intro!: run_rules respects_prepare [OF assms] split: preparation.splits simp: Let_def)
  have task: "obeys R (taskStep env cfg am t)" for t
    unfolding taskStep_def by (auto intro!: run_rules respects_step respects_finalize [OF assms] split: task.splits)
  have start: "obeys R (startTasks env cfg am es)" for es
    by (induction es) (auto intro!: run_rules task split: batch_entry.splits)
  have settle: "obeys R (settleTasks env n cfg am ts)" for ts
    by (induction n arbitrary: ts) (auto intro!: run_rules related_outside task simp: Let_def)
  have "obeys R (emitResults env fs)" for fs
    by (induction fs) (auto intro!: run_rules)
  then show ?thesis unfolding executeToolCallsParallel_def by (intro run_rules batch start settle)
qed

lemma respects_batch:
  assumes "calmConfig R cfg"
  shows "obeys R (runBatch env n cfg am)"
proof -
  have "obeys R (failToolCallsFromTruncatedMessage env tcs)" for tcs
    by (induction tcs) (auto intro!: run_rules)
  then show ?thesis unfolding runBatch_def executeToolCalls_def case_prod_beta
    by (intro run_rules respects_sequential [OF assms] respects_parallel [OF assms])
qed

lemma respects_turn:
  assumes "calmConfig R cfg"
  shows "obeys R (runTurn env n cfg firstTurn pending)"
proof -
  have update: "obeys R (applyUpdate cfg u)" for u
    unfolding applyUpdate_def
    by (auto split: option.splits intro!: run_rules) (simp add: obeys_def action_run related_frame)
  have tail: "obeys R (andThen (applyUpdate cfg u) (\<lambda>cfg'. andThen (turnContext am rs) (\<lambda>tx'.
     andThen (callHook (lc_shouldStopAfterTurn cfg') False tx') (\<lambda>stop.
       if stop then andThen (endRun env) (\<lambda>_. give StopRun)
       else andThen (pollMessages (lc_getSteeringMessages cfg')) (\<lambda>ps. give (NextTurn cfg' m ps))))))" for u am rs m
    unfolding obeys_def
  proof
    fix s
    obtain r t where u: "applyUpdate cfg u s = (r, t)" by fastforce
    have st: "R s t" using update u by (metis obeys_def snd_conv)
    have "obeys R (andThen (turnContext am rs) (\<lambda>tx'. andThen (callHook (lc_shouldStopAfterTurn cfg') False tx') (\<lambda>stop.
       if stop then andThen (endRun env) (\<lambda>_. give StopRun)
       else andThen (pollMessages (lc_getSteeringMessages cfg')) (\<lambda>ps. give (NextTurn cfg' m ps)))))"
      if "sameHooks cfg cfg'" for cfg'
      using assms calmConfig_same [OF that, of R] by (auto simp: calmConfig_def intro!: run_rules)
    moreover have "sameHooks cfg cfg'" if r: "r = Returned cfg'" for cfg'
      using ensures_Returned [OF applyUpdate_config _ u [unfolded r]] by simp
    ultimately show "R s (snd (andThen (applyUpdate cfg u) (\<lambda>cfg'. andThen (turnContext am rs) (\<lambda>tx'.
       andThen (callHook (lc_shouldStopAfterTurn cfg') False tx') (\<lambda>stop.
       if stop then andThen (endRun env) (\<lambda>_. give StopRun)
       else andThen (pollMessages (lc_getSteeringMessages cfg')) (\<lambda>ps. give (NextTurn cfg' m ps))))) s))"
      unfolding andThen_def [of "applyUpdate cfg u"] u
      by (cases r) (auto simp: obeys_def intro: st related_trans [OF st])
  qed
  have hook: "calmHook R (lc_prepareNextTurn cfg)" using assms by (simp add: calmConfig_def)
  have "obeys R (finishTurn env n cfg am)" for am
    unfolding finishTurn_def case_prod_beta
    by (rule respects_andThen, rule respects_batch [OF assms], rule respects_andThen, rule related_emit,
        rule respects_andThen, rule respects_frame, rule respects_andThen, rule respects_hook [OF hook], rule tail)
  then show ?thesis unfolding runTurn_def by (intro run_rules related_emit respects_response [OF assms])
qed

lemma respects_turns: "calmConfig R cfg \<Longrightarrow> obeys R (turns env k n cfg firstTurn hasMore pending)"
proof (induction n arbitrary: cfg firstTurn hasMore pending)
  case 0
  show ?case unfolding turns.simps by (intro run_rules)
next
  case (Suc n)
  have turn: "obeys R (andThen (runTurn env k cfg firstTurn pending) (\<lambda>r. case r of StopRun \<Rightarrow> give ()
      | NextTurn cfg' m ps \<Rightarrow> turns env k n cfg' False m ps))"
    unfolding obeys_def
  proof
    fix s
    obtain r t where u: "runTurn env k cfg firstTurn pending s = (r, t)" by fastforce
    have st: "R s t" using respects_turn [OF Suc.prems] u by (metis obeys_def snd_conv)
    have "obeys R (turns env k n cfg' False m ps)" if "r = Returned (NextTurn cfg' m ps)" for cfg' m ps
      by (rule Suc.IH) (use runTurn_hooks u that calmConfig_same Suc.prems in metis)
    then show "R s (snd (andThen (runTurn env k cfg firstTurn pending) (\<lambda>r. case r of StopRun \<Rightarrow> give ()
      | NextTurn cfg' m ps \<Rightarrow> turns env k n cfg' False m ps) s))"
      unfolding andThen_def u
      by (cases r) (auto simp: obeys_def give_apply intro: st related_trans [OF st] split: turn_result.splits)
  qed
  have "calmPoll R (lc_getFollowUpMessages cfg)" using Suc.prems by (simp add: calmConfig_def)
  then show ?case unfolding turns.simps
    by (rule_tac respects_if, rule_tac turn) (intro run_rules Suc.IH [OF Suc.prems])
qed

lemma respects_run:
  assumes "calmConfig R cfg"
  shows "obeys R (promptRun env k n cfg prompts)"
proof -
  have "calmPoll R (lc_getSteeringMessages cfg)" using assms by (simp add: calmConfig_def)
  then show ?thesis unfolding promptRun_def runLoop_def
    by (intro run_rules related_emit respects_turns [OF assms])
qed

end

end
