(* ===== verification/AgentClassProps.thy ===== *)
theory AgentClassProps
  imports AgentClass AgentRelations AgentProps
begin

text \<open>
  The agent around the loop: a run leaves the agent idle whatever happens in it, the transcript grows
  by exactly what the loop completed, and a failure ends it with one error message. The transcript
  facts come from the locale of run relations, interpreted for the agent as the event sink.
\<close>

section \<open>What external code cannot change\<close>

definition idle :: "'x agent \<Rightarrow> bool" where
  "idle a \<longleftrightarrow> ag_activeRun a = None \<and> \<not> ag_isStreaming a \<and> ag_streamingMessage a = None \<and> ag_pendingToolCalls a = {}"

lemma idle_outer [simp]: "idle (a\<lparr>ag_outer := x\<rparr>) = idle a"
  by (simp add: idle_def)

lemmas call_defs = steer_def followUp_def clearSteeringQueue_def clearFollowUpQueue_def abortRun_def

lemma applyCall_keeps:
  "ag_messages (applyCall c a) = ag_messages a"
  "ag_activeRun (applyCall c a) = None \<longleftrightarrow> ag_activeRun a = None"
  "idle (applyCall c a) = idle a"
  by (cases c; simp add: call_defs idle_def)+

lemma applyCalls_keep:
  "ag_messages (fold applyCall cs a) = ag_messages a"
  "ag_activeRun (fold applyCall cs a) = None \<longleftrightarrow> ag_activeRun a = None"
  "idle (fold applyCall cs a) = idle a"
  by (induction cs arbitrary: a) (simp_all add: applyCall_keeps)

lemma through_keeps:
  assumes "through f a = (r, a')"
  shows "ag_messages a' = ag_messages a" "ag_activeRun a' = None \<longleftrightarrow> ag_activeRun a = None" "idle a' = idle a"
  using assms by (auto simp: through_def applyCalls_keep split: prod.splits)

section \<open>The life cycle\<close>

lemma attempt_catches: "ensures P (attempt m) (\<lambda>_ _. True) T (\<lambda>_. True)"
  by (rule ensures_attempt) (rule ensures_weaken [OF ensures_any], simp_all)

lemma runWithLifecycle_idle:
  assumes "runWithLifecycle opts m a = (r, a')" and "ag_activeRun a = None" and "r \<noteq> Stalled"
  shows "idle a'"
proof -
  have "ensures (\<lambda>a. ag_activeRun a = None) (runWithLifecycle opts m) (\<lambda>_. idle) idle (\<lambda>_. True)"
    unfolding runWithLifecycle_def
  proof (rule ensures_andThen [where R = "\<lambda>active _. active = None"])
    fix active :: "bool option"
    have fin: "ensures (\<lambda>_. True) (andThen (change finishRun) (\<lambda>_. case q of Inl e \<Rightarrow> fail e | Inr _ \<Rightarrow> give ())) (\<lambda>_. idle) idle (\<lambda>_. True)"
      for q :: "string + unit"
      by (rule ensures_andThen [where R = "\<lambda>_. idle"], rule ensures_change, simp add: idle_def finishRun_def)
        (cases q; simp add: ensures_give ensures_fail)
    have body: "ensures (\<lambda>_. True) (andThen (change beginRun) (\<lambda>_. andThen (attempt m) (\<lambda>r.
        andThen (attempt (case r of Inl e \<Rightarrow> handleRunFailure opts e | Inr _ \<Rightarrow> give ())) (\<lambda>q.
        andThen (change finishRun) (\<lambda>_. case q of Inl e \<Rightarrow> fail e | Inr _ \<Rightarrow> give ()))))) (\<lambda>_. idle) idle (\<lambda>_. True)"
      by (rule ensures_andThen [where R = "\<lambda>_ _. True"], rule ensures_change, rule TrueI, rule ensures_andThen,
          rule attempt_catches, rule ensures_andThen, rule attempt_catches, rule fin)
    show "ensures (\<lambda>_. active = None) (if active \<noteq> None then fail ''Agent is already processing.''
       else andThen (change beginRun) (\<lambda>_. andThen (attempt m) (\<lambda>r.
        andThen (attempt (case r of Inl e \<Rightarrow> handleRunFailure opts e | Inr _ \<Rightarrow> give ())) (\<lambda>q.
        andThen (change finishRun) (\<lambda>_. case q of Inl e \<Rightarrow> fail e | Inr _ \<Rightarrow> give ()))))) (\<lambda>_. idle) idle (\<lambda>_. True)"
      by (cases active) (simp_all add: body, simp add: ensures_def)
  qed (rule ensures_ask, assumption)
  note run = this
  show ?thesis
    using ensures_Returned [OF run assms(2)] ensures_Thrown [OF run assms(2)] assms(1,3) by (cases r) auto
qed

text \<open>
  C20. A prompt or a continuation that settles, normally or by an error, leaves the agent idle: no
  active run, not streaming, no partial message and no pending tool call, whatever the provider,
  the tools, the hooks and the listeners did in between; so does a reset. While a run is active,
  prompting, continuing and resetting are refused and change nothing.
\<close>

theorem agent_run_lifecycle:
  assumes "(r, a') \<in> {agentPrompt opts fuel n input a, agentContinue opts fuel n a, agentReset a}"
  shows "(idle a \<and> r \<noteq> Stalled \<longrightarrow> idle a') \<and> (ag_activeRun a \<noteq> None \<longrightarrow> (\<exists>e. r = Thrown e) \<and> a' = a)"
proof (intro conjI impI)
  assume "idle a \<and> r \<noteq> Stalled"
  then have a: "idle a" "ag_activeRun a = None" and r: "r \<noteq> Stalled" by (simp_all add: idle_def)
  have run: "idle a'" if "runPromptMessages opts fuel n ms skip b = (r, a')" "ag_activeRun b = None" for ms skip b
    using runWithLifecycle_idle [OF that(1) [unfolded runPromptMessages_def] that(2) r] .
  have continuation: "idle a'" if "runContinuation opts fuel n a = (r, a')"
    using runWithLifecycle_idle [OF that [unfolded runContinuation_def] a(2) r] .
  from assms consider (prompt) "agentPrompt opts fuel n input a = (r, a')" | (continue) "agentContinue opts fuel n a = (r, a')"
    | (reset) "agentReset a = (r, a')" by auto
  then show "idle a'"
  proof cases
    case prompt
    then have "andThen (normalizePromptInput opts input) (\<lambda>ms. runPromptMessages opts fuel n ms False) a = (r, a')"
      by (simp add: agentPrompt_def andThen_apply ask_apply a)
    moreover obtain q b where q: "normalizePromptInput opts input a = (q, b)" by fastforce
    moreover have "idle b"
      using q a by (auto simp: normalizePromptInput_def andThen_apply give_apply through_keeps(3)
        split: prompt_input.splits prod.splits settlement.splits dest!: through_keeps(3))
    moreover have "ag_activeRun b = None" using calculation by (simp add: idle_def)
    ultimately show ?thesis by (cases q) (auto simp: andThen_apply r intro: run)
  next
    case continue
    have "idle (a\<lparr>ag_steering := q\<rparr>)" "idle (a\<lparr>ag_steering := q, ag_followUp := q'\<rparr>)" for q q'
      using a by (simp_all add: idle_def)
    with continue a show ?thesis
      by (auto simp: agentContinue_def Let_def intro: run continuation split: prod.splits if_splits)
  next
    case reset
    then show ?thesis
      using a by (auto simp: agentReset_def idle_def clearSteeringQueue_def clearFollowUpQueue_def)
  qed
next
  assume "ag_activeRun a \<noteq> None"
  with assms show "\<exists>e. r = Thrown e" and "a' = a"
    by (auto simp: agentPrompt_def agentContinue_def agentReset_def andThen_apply ask_apply fail_apply)
qed

section \<open>The transcript\<close>

definition completed :: "agent_event list \<Rightarrow> agent_message list" where
  "completed evs = concat (map (\<lambda>ev. case ev of MessageEnd m \<Rightarrow> [m] | _ \<Rightarrow> []) evs)"

lemma completed_simps [simp]:
  "completed [] = []"
  "completed (xs @ ys) = completed xs @ completed ys"
  "completed [MessageEnd m] = [m]"
  by (simp_all add: completed_def)

lemma trace_completed: "trace strict evs = Some (ph, ms) \<Longrightarrow> ms = completed evs"
proof (induction evs arbitrary: ph ms rule: rev_induct)
  case (snoc ev evs)
  then obtain ph' ms' where t: "trace strict evs = Some (ph', ms')" and s: "traceStep strict (ph', ms') ev = Some (ph, ms)"
    by (auto split: Option.bind_splits)
  from snoc.IH [OF t] s show ?case
    by (cases "(strict, (ph', ms'), ev)" rule: traceStep.cases) (auto simp: completed_def split: if_splits)
qed simp

definition transcribes :: "'x agent run_state \<Rightarrow> 'x agent run_state \<Rightarrow> bool" where
  "transcribes s t \<longleftrightarrow> (\<exists>evs. rs_events t = rs_events s @ evs
     \<and> ag_messages (rs_world t) = ag_messages (rs_world s) @ completed evs)"

lemma transcribes_same:
  "rs_events t = rs_events s \<Longrightarrow> ag_messages (rs_world t) = ag_messages (rs_world s) \<Longrightarrow> transcribes s t"
  by (simp add: transcribes_def)

lemma transcribes_trans: "transcribes s t \<Longrightarrow> transcribes t u \<Longrightarrow> transcribes s u"
  unfolding transcribes_def by fastforce

lemma through_transcribes: "obeys transcribes (outside (through f))"
  unfolding obeys_def
  by (auto simp: outside_def split: prod.splits intro!: transcribes_same dest: through_keeps(1))

lemma reduceEvent_messages: "ag_messages (reduceEvent ev a) = ag_messages a @ completed [ev]"
  by (cases "(ev, a)" rule: reduceEvent.cases) (auto simp: completed_def)

lemma notifyListeners_messages: "notifyListeners opts ev a = (r, a') \<Longrightarrow> ag_messages a' = ag_messages a"
proof -
  have listeners: "for_each (\<lambda>l. through (ap_listener opts l ev)) ls a = (r, a') \<Longrightarrow> ag_messages a' = ag_messages a" for ls r a a'
    by (induction ls arbitrary: a)
      (auto simp: give_apply andThen_apply split: prod.splits settlement.splits dest: through_keeps(1))
  assume "notifyListeners opts ev a = (r, a')"
  then show ?thesis
    by (auto simp: notifyListeners_def andThen_apply ask_apply fail_apply split: if_splits dest: listeners)
qed

lemma processEvents_messages: "processEvents opts ev a = (r, a') \<Longrightarrow> ag_messages a' = ag_messages a @ completed [ev]"
  by (auto simp: processEvents_def andThen_apply change_apply reduceEvent_messages dest!: notifyListeners_messages)

lemma emit_transcribes:
  fixes opts :: "'x agent_options"
  shows "obeys transcribes (emit (loopEnv opts) ev)"
  unfolding obeys_def
proof
  fix s :: "'x agent run_state"
  let ?s = "s\<lparr>rs_events := rs_events s @ [ev]\<rparr>"
  obtain r a where p: "processEvents opts ev (rs_world s) = (r, a)" by fastforce
  from processEvents_messages [OF p] show "transcribes s (snd (emit (loopEnv opts) ev s))"
    by (auto simp: emit_def andThen_apply change_apply outside_def loopEnv_def p transcribes_def)
qed

interpretation agent_run: run_relation transcribes "loopEnv opts" for opts :: "'x agent_options"
proof
  show "obeys transcribes (emit (loopEnv opts) ev)" for ev by (rule emit_transcribes)
qed (auto intro: transcribes_trans transcribes_same simp: loopEnv_def through_transcribes)

lemma pollSteering_transcribes: "obeys transcribes (outside pollSteering)"
  by (auto simp: obeys_def outside_def pollSteering_def intro!: transcribes_same split: prod.splits)

lemma pollFollowUps_transcribes: "obeys transcribes (outside pollFollowUps)"
  by (auto simp: obeys_def outside_def pollFollowUps_def intro!: transcribes_same split: prod.splits)

lemma give_transcribes: "obeys transcribes (outside (give x))"
  by (auto simp: obeys_def outside_def give_apply intro!: transcribes_same)

lemma createLoopConfig_calm: "calmConfig transcribes (createLoopConfig opts a)"
  by (auto simp: calmConfig_def createLoopConfig_def hookOf_def calmHook_def calmPoll_def through_transcribes
      pollSteering_transcribes pollFollowUps_transcribes give_transcribes split: option.splits)

lemma runAgentLoop_transcript:
  assumes "runAgentLoop (loopEnv opts) fuel n prompts ctx (createLoopConfig opts b) a = (r, s)"
  shows "ag_messages (rs_world s) = ag_messages a @ completed (rs_events s)"
proof -
  have "transcribes (initialRun a ctx prompts) s"
    using agent_run.respects_run [OF createLoopConfig_calm, of opts fuel n opts b prompts] assms
    by (metis obeys_def runAgentLoop_def snd_conv)
  then show ?thesis by (auto simp: transcribes_def initialRun_def)
qed

lemma handleRunFailure_messages:
  assumes "handleRunFailure opts e a = (Returned (), a')"
  shows "\<exists>m. ag_messages a' = ag_messages a @ [AssistantMessage m] \<and> am_errorMessage m = Some e
    \<and> (am_stopReason m = ErrorStop \<or> am_stopReason m = AbortedStop)"
proof -
  from assms obtain now b1 b2 b3 b4 where now: "through (ap_now opts) a = (Returned now, b1)"
    and events: "processEvents opts (MessageStart (AssistantMessage (failureMessage (ag_model a) e (ag_activeRun a = Some True) now))) b1 = (Returned (), b2)"
      "processEvents opts (MessageEnd (AssistantMessage (failureMessage (ag_model a) e (ag_activeRun a = Some True) now))) b2 = (Returned (), b3)"
      "processEvents opts (TurnEnd (AssistantMessage (failureMessage (ag_model a) e (ag_activeRun a = Some True) now)) []) b3 = (Returned (), b4)"
      "processEvents opts (AgentEnd [AssistantMessage (failureMessage (ag_model a) e (ag_activeRun a = Some True) now)]) b4 = (Returned (), a')"
    by (auto simp: handleRunFailure_def andThen_Returned ask_apply Let_def)
  from events [THEN processEvents_messages] through_keeps(1) [OF now] show ?thesis
    by (intro exI [of _ "failureMessage (ag_model a) e (ag_activeRun a = Some True) now"])
      (simp add: failureMessage_def completed_def)
qed

text \<open>The run of the loop that a prompt starts.\<close>

definition promptLoop :: "'x agent_options \<Rightarrow> nat \<Rightarrow> nat \<Rightarrow> agent_message list \<Rightarrow> bool \<Rightarrow> 'x agent
    \<Rightarrow> agent_message list settlement \<times> 'x agent run_state" where
  "promptLoop opts fuel n prompts skip a =
     runAgentLoop (loopEnv opts) fuel n prompts (createContextSnapshot (beginRun a)) (createLoopConfig opts (beginRun a))
       ((beginRun a)\<lparr>ag_skipPoll := skip\<rparr>)"

lemma runPromptMessages_Returned:
  assumes "ag_activeRun a = None" and "runPromptMessages opts fuel n prompts skip a = (Returned (), a')"
    and "promptLoop opts fuel n prompts skip a = (r, s)"
  shows "(\<exists>new. r = Returned new \<and> ag_messages a' = ag_messages (rs_world s))
    \<or> (\<exists>e b. r = Thrown e \<and> handleRunFailure opts e (rs_world s) = (Returned (), b) \<and> ag_messages a' = ag_messages b)"
proof (cases r)
  case (Returned new)
  with assms show ?thesis
    by (simp add: runPromptMessages_def runWithLifecycle_def andThen_apply ask_apply change_apply attempt_apply give_apply
      promptLoop_def toUnit_def finishRun_def) auto
next
  case (Thrown e)
  obtain q b where b: "handleRunFailure opts e (rs_world s) = (q, b)" by fastforce
  from assms Thrown b have "q = Returned () \<and> ag_messages a' = ag_messages b"
    by (cases q) (auto simp: runPromptMessages_def runWithLifecycle_def andThen_apply ask_apply change_apply attempt_apply
      give_apply fail_apply promptLoop_def toUnit_def finishRun_def)
  with Thrown b show ?thesis by blast
next
  case Stalled
  with assms show ?thesis
    by (simp add: runPromptMessages_def runWithLifecycle_def andThen_apply ask_apply change_apply attempt_apply
      promptLoop_def toUnit_def)
qed

text \<open>
  C21. The transcript of the agent grows by exactly the messages that the loop returned. When the
  loop threw, it holds what was completed up to then and one assistant message that carries the
  error, with stop reason \<open>error\<close> or \<open>aborted\<close>; nothing of the old transcript changes.
\<close>

theorem agent_transcript_extends:
  assumes "ag_activeRun a = None" and "agentPrompt opts fuel n (PromptBatch prompts) a = (Returned (), a')"
  shows "case promptLoop opts fuel n prompts False a of (r, s) \<Rightarrow>
      (\<exists>new. r = Returned new \<and> ag_messages a' = ag_messages a @ new)
    \<or> (\<exists>e m. r = Thrown e \<and> ag_messages a' = ag_messages a @ completed (rs_events s) @ [AssistantMessage m]
         \<and> am_errorMessage m = Some e \<and> (am_stopReason m = ErrorStop \<or> am_stopReason m = AbortedStop))"
proof -
  obtain r s where loop: "promptLoop opts fuel n prompts False a = (r, s)" by fastforce
  from assms have run: "runPromptMessages opts fuel n prompts False a = (Returned (), a')"
    by (simp add: agentPrompt_def andThen_apply ask_apply normalizePromptInput_def)
  have world: "ag_messages (rs_world s) = ag_messages a @ completed (rs_events s)"
    using runAgentLoop_transcript [OF loop [unfolded promptLoop_def]] by (simp add: beginRun_def)
  have returned: "completed (rs_events s) = new" if "r = Returned new" for new
  proof -
    have "abortable False (loopEnv opts)" by (simp add: abortable_def)
    from promptRun_outcome [OF this loop [unfolded promptLoop_def runAgentLoop_def]] that
    have "trace False (rs_events s) = Some (Ended, new)" by simp
    then show ?thesis by (rule trace_completed [symmetric])
  qed
  from runPromptMessages_Returned [OF assms(1) run loop] world returned show ?thesis
    unfolding loop prod.case by (auto dest!: handleRunFailure_messages)
qed

section \<open>Witnesses\<close>

definition demo_options :: "nat agent_options" where
  "demo_options = \<lparr>ap_systemPrompt = None, ap_model = None, ap_thinkingLevel = None, ap_tools = None, ap_messages = None,
     ap_convertToLlm = None, ap_transformContext = None, ap_getApiKey = None, ap_beforeToolCall = None, ap_afterToolCall = None,
     ap_shouldStopAfterTurn = None, ap_prepareNextTurn = None, ap_prepareNextTurnWithContext = None, ap_steeringMode = None,
     ap_followUpMode = None, ap_toolExecution = None, ap_listener = (\<lambda>_ _ a. (Returned (), [], ag_outer a)),
     ap_streamFn = (\<lambda>_ a. (Returned (), [], ag_outer a)), ap_nextEvent = (\<lambda>a. (Returned None, [], ag_outer a)),
     ap_result = (\<lambda>a. (Returned (demo_reply [] StopStop), [], ag_outer a)), ap_validate = (\<lambda>_ tc. Returned (tc_arguments tc)),
     ap_prepareArguments = (\<lambda>_. None), ap_execute = (\<lambda>_ _ _ a. (Returned (ToolReturn demo_result), [], ag_outer a)),
     ap_schedule = (\<lambda>_ a. (Returned 0, [], ag_outer a)), ap_now = (\<lambda>a. (Returned 0, [], ag_outer a))\<rparr>"

lemmas agent_defs = agentPrompt_def normalizePromptInput_def runPromptMessages_def runWithLifecycle_def beginRun_def
  createLoopConfig_def loopEnv_def hookOf_def processEvents_def notifyListeners_def through_def pollSteering_def
  pollFollowUps_def createContextSnapshot_def toUnit_def finishRun_def pq_drain_def

lemma demo_prompted:
  "isReturned (fst (agentPrompt demo_options 5 4 (PromptBatch [demo_prompt]) (newAgent demo_options 0)))"
  by (simp add: agent_defs loop_defs demo_options_def newAgent_def pq_new_def demo_reply_sel demo_prompt_def action_run
    eval_nat_numeral Let_def cong: andThen_run attempt_run)

theorem agent_run_lifecycle_witness:
  "idle (snd (agentPrompt demo_options 5 4 (PromptBatch [demo_prompt]) (newAgent demo_options 0)))"
proof -
  obtain r a' where run: "agentPrompt demo_options 5 4 (PromptBatch [demo_prompt]) (newAgent demo_options 0) = (r, a')" by fastforce
  have "r \<noteq> Stalled" using demo_prompted run by auto
  moreover have "idle (newAgent demo_options 0)" by (simp add: idle_def newAgent_def)
  ultimately show ?thesis
    using agent_run_lifecycle [of r a' demo_options 5 4 "PromptBatch [demo_prompt]" "newAgent demo_options 0"] run by simp
qed

theorem agent_transcript_extends_witness:
  "\<exists>new. ag_messages (snd (agentPrompt demo_options 5 4 (PromptBatch [demo_prompt]) (newAgent demo_options 0)))
     = ag_messages (newAgent demo_options 0) @ new \<and> new \<noteq> []"
proof -
  obtain r a' where run: "agentPrompt demo_options 5 4 (PromptBatch [demo_prompt]) (newAgent demo_options 0) = (r, a')" by fastforce
  with demo_prompted have r: "r = Returned ()" by (cases r) auto
  have loop: "\<exists>new. fst (promptLoop demo_options 5 4 [demo_prompt] False (newAgent demo_options 0)) = Returned (demo_prompt # new)"
    by (simp add: promptLoop_def agent_defs loop_defs demo_options_def newAgent_def pq_new_def demo_reply_sel
      action_run eval_nat_numeral Let_def cong: andThen_run attempt_run)
  have "ag_activeRun (newAgent demo_options 0) = None" by (simp add: newAgent_def)
  from agent_transcript_extends [OF this run [unfolded r]] loop run show ?thesis by auto
qed

end
