(* ===== verification/Truncation.thy ===== *)
theory Truncation
  imports JsString
begin

text \<open>
  Truncation of tool outputs (\<open>packages/agent/src/harness/utils/truncate.ts\<close>): the UTF-8 length of a
  string, its lines, and the head and the tail of a text within a number of lines and of bytes.
  Strings are sequences of code units, so unpaired surrogates and their replacement are modelled.
  Limits and counts are natural numbers. \<open>Buffer.byteLength\<close> of the runtime is the length of the
  UTF-8 encoding; the loop used where the runtime has no \<open>Buffer\<close> is shown to agree with it.
\<close>

section \<open>Lengths and lines\<close>

abbreviation LF :: code_unit where "LF \<equiv> 10"

definition DEFAULT_MAX_LINES :: nat where "DEFAULT_MAX_LINES = 2000"

definition DEFAULT_MAX_BYTES :: nat where "DEFAULT_MAX_BYTES = 50 * 1024"

definition GREP_MAX_LINE_LENGTH :: nat where "GREP_MAX_LINE_LENGTH = 500"

datatype limit_kind = LineLimit | ByteLimit

record truncation_result =
  tr_content :: jsstr
  tr_truncated :: bool
  tr_truncatedBy :: "limit_kind option"
  tr_totalLines :: nat
  tr_totalBytes :: nat
  tr_outputLines :: nat
  tr_outputBytes :: nat
  tr_lastLinePartial :: bool
  tr_firstLineExceedsLimit :: bool
  tr_maxLines :: nat
  tr_maxBytes :: nat

record truncation_options =
  to_maxLines :: "nat option"
  to_maxBytes :: "nat option"

text \<open>The loop over the code units from the first one that is not ASCII.\<close>

fun utf8Loop :: "jsstr \<Rightarrow> nat" where
  "utf8Loop [] = 0"
| "utf8Loop [u] = (if unat u \<le> 0x7F then 1 else if unat u \<le> 0x7FF then 2 else 3)"
| "utf8Loop (u # v # us) =
     (if unat u \<le> 0x7F then 1 + utf8Loop (v # us)
      else if unat u \<le> 0x7FF then 2 + utf8Loop (v # us)
      else if is_high u then (if is_low v then 4 + utf8Loop us else 3 + utf8Loop (v # us))
      else 3 + utf8Loop (v # us))"

definition utf8ByteLength :: "bool \<Rightarrow> jsstr \<Rightarrow> nat" where
  "utf8ByteLength runtimeBuffer s =
     (if runtimeBuffer then length (utf8_encode s)
      else length (takeWhile (\<lambda>u. unat u \<le> 0x7F) s) + utf8Loop (dropWhile (\<lambda>u. unat u \<le> 0x7F) s))"

definition splitLinesForCounting :: "jsstr \<Rightarrow> jsstr list" where
  "splitLinesForCounting s =
     (if s = [] then [] else if last s = LF then butlast (split_on LF s) else split_on LF s)"

fun replaceUnpairedSurrogates :: "jsstr \<Rightarrow> jsstr" where
  "replaceUnpairedSurrogates [] = []"
| "replaceUnpairedSurrogates [u] = (if is_high u \<or> is_low u then [0xFFFD] else [u])"
| "replaceUnpairedSurrogates (u # v # us) =
     (if is_high u then
        (if is_low v then u # v # replaceUnpairedSurrogates us else 0xFFFD # replaceUnpairedSurrogates (v # us))
      else if is_low u then 0xFFFD # replaceUnpairedSurrogates (v # us)
      else u # replaceUnpairedSurrogates (v # us))"

text \<open>\<open>toFixed(1)\<close> of the quotient by a power of two: the nearest tenth, the larger one of two.\<close>

definition toFixed1 :: "nat \<Rightarrow> nat \<Rightarrow> string" where
  "toFixed1 n d = (let tenths = (20 * n + d) div (2 * d) in show_nat (tenths div 10) @ ''.'' @ show_nat (tenths mod 10))"

definition formatSize :: "nat \<Rightarrow> string" where
  "formatSize n =
     (if n < 1024 then show_nat n @ ''B''
      else if n < 1024 * 1024 then toFixed1 n 1024 @ ''KB''
      else toFixed1 n (1024 * 1024) @ ''MB'')"

section \<open>The head of a text\<close>

definition maxLinesOf :: "truncation_options \<Rightarrow> nat" where
  "maxLinesOf opts = (case to_maxLines opts of None \<Rightarrow> DEFAULT_MAX_LINES | Some n \<Rightarrow> n)"

definition maxBytesOf :: "truncation_options \<Rightarrow> nat" where
  "maxBytesOf opts = (case to_maxBytes opts of None \<Rightarrow> DEFAULT_MAX_BYTES | Some n \<Rightarrow> n)"

text \<open>The loop that collects complete lines: the lines taken, their bytes, and whether the byte limit ended it.\<close>

fun headLoop :: "bool \<Rightarrow> nat \<Rightarrow> nat \<Rightarrow> nat \<Rightarrow> jsstr list \<Rightarrow> nat \<Rightarrow> jsstr list \<times> nat \<times> limit_kind" where
  "headLoop rb maxLines maxBytes i [] count = ([], count, LineLimit)"
| "headLoop rb maxLines maxBytes i (line # rest) count =
     (if \<not> i < maxLines then ([], count, LineLimit)
      else
        let lineBytes = utf8ByteLength rb line + (if i > 0 then 1 else 0) in
        if count + lineBytes > maxBytes then ([], count, ByteLimit)
        else (case headLoop rb maxLines maxBytes (i + 1) rest (count + lineBytes) of
            (out, used, by) \<Rightarrow> (line # out, used, by)))"

definition untruncated :: "jsstr \<Rightarrow> nat \<Rightarrow> nat \<Rightarrow> nat \<Rightarrow> nat \<Rightarrow> truncation_result" where
  "untruncated s totalLines totalBytes maxLines maxBytes =
     \<lparr>tr_content = s, tr_truncated = False, tr_truncatedBy = None, tr_totalLines = totalLines,
      tr_totalBytes = totalBytes, tr_outputLines = totalLines, tr_outputBytes = totalBytes,
      tr_lastLinePartial = False, tr_firstLineExceedsLimit = False, tr_maxLines = maxLines, tr_maxBytes = maxBytes\<rparr>"

definition truncateHead :: "bool \<Rightarrow> jsstr \<Rightarrow> truncation_options \<Rightarrow> truncation_result" where
  "truncateHead rb s opts =
     (let maxLines = maxLinesOf opts; maxBytes = maxBytesOf opts;
          totalBytes = utf8ByteLength rb s; ls = splitLinesForCounting s; totalLines = length ls in
      if totalLines \<le> maxLines \<and> totalBytes \<le> maxBytes then untruncated s totalLines totalBytes maxLines maxBytes
      else if utf8ByteLength rb (ls ! 0) > maxBytes then
        \<lparr>tr_content = [], tr_truncated = True, tr_truncatedBy = Some ByteLimit, tr_totalLines = totalLines,
         tr_totalBytes = totalBytes, tr_outputLines = 0, tr_outputBytes = 0,
         tr_lastLinePartial = False, tr_firstLineExceedsLimit = True, tr_maxLines = maxLines, tr_maxBytes = maxBytes\<rparr>
      else (case headLoop rb maxLines maxBytes 0 ls 0 of (out, count, by) \<Rightarrow>
        let by' = (if length out \<ge> maxLines \<and> count \<le> maxBytes then LineLimit else by);
            outputContent = join [LF] out in
        \<lparr>tr_content = outputContent, tr_truncated = True, tr_truncatedBy = Some by', tr_totalLines = totalLines,
         tr_totalBytes = totalBytes, tr_outputLines = length out, tr_outputBytes = utf8ByteLength rb outputContent,
         tr_lastLinePartial = False, tr_firstLineExceedsLimit = False, tr_maxLines = maxLines, tr_maxBytes = maxBytes\<rparr>))"

section \<open>The tail of a text\<close>

text \<open>The loop over the characters from the end, on the reversed text: the number of code units it
  keeps, and whether one of them is an unpaired surrogate.\<close>

fun suffixLoop :: "nat \<Rightarrow> jsstr \<Rightarrow> nat \<Rightarrow> nat \<times> bool" where
  "suffixLoop maxBytes [] used = (0, False)"
| "suffixLoop maxBytes (u # us) used =
     (if is_low u \<and> us \<noteq> [] \<and> is_high (hd us) then
        (if used + 4 > maxBytes then (0, False)
         else (case suffixLoop maxBytes (tl us) (used + 4) of (n, replace) \<Rightarrow> (n + 2, replace)))
      else
        let characterBytes = (if is_surrogate u then 3 else if unat u \<le> 0x7F then 1 else if unat u \<le> 0x7FF then 2 else 3) in
        if used + characterBytes > maxBytes then (0, False)
        else (case suffixLoop maxBytes us (used + characterBytes) of
            (n, replace) \<Rightarrow> (n + 1, replace \<or> is_surrogate u)))"

definition truncateStringToBytesFromEnd :: "jsstr \<Rightarrow> nat \<Rightarrow> jsstr" where
  "truncateStringToBytesFromEnd s maxBytes =
     (if maxBytes = 0 then []
      else (case suffixLoop maxBytes (rev s) 0 of (n, replace) \<Rightarrow>
        let output = drop (length s - n) s in
        if replace then replaceUnpairedSurrogates output else output))"

text \<open>The loop over the lines from the last one; \<open>out\<close> holds the lines taken.\<close>

fun tailLoop :: "bool \<Rightarrow> nat \<Rightarrow> nat \<Rightarrow> jsstr list \<Rightarrow> jsstr list \<Rightarrow> nat \<Rightarrow> jsstr list \<times> nat \<times> limit_kind \<times> bool" where
  "tailLoop rb maxLines maxBytes [] out count = (out, count, LineLimit, False)"
| "tailLoop rb maxLines maxBytes (line # before) out count =
     (if \<not> length out < maxLines then (out, count, LineLimit, False)
      else
        let lineBytes = utf8ByteLength rb line + (if length out > 0 then 1 else 0) in
        if count + lineBytes > maxBytes then
          (if out = [] then
             let truncatedLine = truncateStringToBytesFromEnd line maxBytes in
             ([truncatedLine], utf8ByteLength rb truncatedLine, ByteLimit, True)
           else (out, count, ByteLimit, False))
        else tailLoop rb maxLines maxBytes before (line # out) (count + lineBytes))"

definition truncateTail :: "bool \<Rightarrow> jsstr \<Rightarrow> truncation_options \<Rightarrow> truncation_result" where
  "truncateTail rb s opts =
     (let maxLines = maxLinesOf opts; maxBytes = maxBytesOf opts;
          totalBytes = utf8ByteLength rb s; ls = splitLinesForCounting s; totalLines = length ls in
      if totalLines \<le> maxLines \<and> totalBytes \<le> maxBytes then untruncated s totalLines totalBytes maxLines maxBytes
      else (case tailLoop rb maxLines maxBytes (rev ls) [] 0 of (out, count, by, partial) \<Rightarrow>
        let by' = (if length out \<ge> maxLines \<and> count \<le> maxBytes then LineLimit else by);
            outputContent = join [LF] out in
        \<lparr>tr_content = outputContent, tr_truncated = True, tr_truncatedBy = Some by', tr_totalLines = totalLines,
         tr_totalBytes = totalBytes, tr_outputLines = length out, tr_outputBytes = utf8ByteLength rb outputContent,
         tr_lastLinePartial = partial, tr_firstLineExceedsLimit = False, tr_maxLines = maxLines, tr_maxBytes = maxBytes\<rparr>))"

definition truncateLine :: "jsstr \<Rightarrow> nat option \<Rightarrow> jsstr \<times> bool" where
  "truncateLine line maxChars =
     (let m = (case maxChars of None \<Rightarrow> GREP_MAX_LINE_LENGTH | Some n \<Rightarrow> n) in
      if length line \<le> m then (line, False) else (take m line @ jstr ''... [truncated]'', True))"

end
