(* ===== verification/TruncationProps.thy ===== *)
theory TruncationProps
  imports Truncation
begin

text \<open>
  What truncation promises: the kept text is within both limits, consists of whole lines (or of whole
  characters of one overlong last line), and is as long as the limits allow.
\<close>

section \<open>The UTF-8 length of concatenations\<close>

abbreviation bytes :: "jsstr \<Rightarrow> nat" where "bytes s \<equiv> length (utf8_encode s)"

definition joinable :: "jsstr \<Rightarrow> jsstr \<Rightarrow> bool" where
  "joinable a b \<longleftrightarrow> \<not> (a \<noteq> [] \<and> b \<noteq> [] \<and> is_high (last a) \<and> is_low (hd b))"

lemma scalars_append: "joinable a b \<Longrightarrow> scalars (a @ b) = scalars a @ scalars b"
proof (induction a rule: scalars.induct)
  case (2 u) then show ?case by (cases b) (auto simp: joinable_def)
next
  case (3 u v us)
  then show ?case
  proof (cases "is_high u \<and> is_low v")
    case True
    have "joinable us b" using "3.prems" by (cases us) (auto simp: joinable_def)
    with "3.IH"(1) True show ?thesis by simp
  next
    case False
    have "joinable (v # us) b" using "3.prems" by (simp add: joinable_def)
    with "3.IH"(2) False show ?thesis by auto
  qed
qed simp

lemma encode_append: "joinable a b \<Longrightarrow> utf8_encode (a @ b) = utf8_encode a @ utf8_encode b"
  by (simp add: utf8_encode_def scalars_append)

lemma LF_plain [simp]: "\<not> is_high LF" "\<not> is_low LF" "\<not> is_surrogate LF"
  by (simp_all add: is_high_def is_low_def is_surrogate_def)

lemma encode_LF [simp]: "utf8_encode [LF] = [10]"
  by (simp add: utf8_encode_def utf8_bytes_def unit_scalar_def)

lemma encode_around_LF: "utf8_encode (a @ LF # b) = utf8_encode a @ 10 # utf8_encode b"
  using encode_append [of a "LF # b"] encode_append [of "[LF]" b] by (simp add: joinable_def)

lemma utf8Loop_bytes: "utf8Loop s = bytes s"
  by (induction s rule: utf8Loop.induct)
    (auto simp: utf8_encode_def length_utf8_bytes unit_scalar_def pair_scalar_def is_surrogate_def is_high_def is_low_def
      unat_unit_lt)

lemma bytes_single: "bytes [u] = (if is_surrogate u then 3 else if unat u \<le> 0x7F then 1 else if unat u \<le> 0x7FF then 2 else 3)"
  using unat_unit_lt [of u] by (auto simp: utf8_encode_def length_utf8_bytes unit_scalar_def)

lemma ascii_plain: "unat u \<le> 0x7F \<Longrightarrow> \<not> is_high u \<and> \<not> is_low u \<and> \<not> is_surrogate u"
  by (auto simp: is_high_def is_low_def is_surrogate_def)

lemma bytes_ascii: "\<forall>u \<in> set s. unat u \<le> 0x7F \<Longrightarrow> bytes (s @ t) = length s + bytes t"
proof (induction s)
  case (Cons u s)
  then have "joinable [u] (s @ t)" using ascii_plain by (simp add: joinable_def)
  from encode_append [OF this] Cons show ?case using ascii_plain by (simp add: bytes_single)
qed simp

text \<open>The runtime's length and the portable loop agree.\<close>

lemma utf8ByteLength_bytes [simp]: "utf8ByteLength rb s = bytes s"
proof (cases rb)
  case False
  let ?a = "takeWhile (\<lambda>u. unat u \<le> 0x7F) s" and ?b = "dropWhile (\<lambda>u. unat u \<le> 0x7F) s"
  have "bytes (?a @ ?b) = length ?a + bytes ?b" by (rule bytes_ascii) (auto dest: set_takeWhileD)
  with False show ?thesis by (simp add: utf8ByteLength_def utf8Loop_bytes)
qed (simp add: utf8ByteLength_def)

section \<open>Lines\<close>

fun cost :: "nat \<Rightarrow> jsstr list \<Rightarrow> nat" where
  "cost i [] = 0"
| "cost i (l # ls) = bytes l + (if i > 0 then 1 else 0) + cost (i + 1) ls"

lemma cost_Suc: "cost (Suc i) ls = (if ls = [] then 0 else bytes (join [LF] ls) + 1)"
proof (induction ls arbitrary: i)
  case (Cons l ls) then show ?case by (cases ls) (simp_all add: join_Cons_ne encode_around_LF)
qed simp

lemma cost_0: "cost 0 ls = bytes (join [LF] ls)"
proof (cases ls)
  case (Cons l ls') then show ?thesis by (simp add: cost_Suc join_Cons_ne encode_around_LF)
qed simp

lemma join_prefix_bytes: "bytes (join [LF] (take n ls)) \<le> bytes (join [LF] ls)"
proof -
  have "cost i (take n ls) \<le> cost i ls" for i
    by (induction ls arbitrary: n i) (auto simp: take_Cons split: nat.split)
  then show ?thesis by (simp flip: cost_0)
qed

lemma lines_join: "s \<noteq> [] \<Longrightarrow> s = join [LF] (splitLinesForCounting s) @ (if last s = LF then [LF] else [])"
proof -
  assume s: "s \<noteq> []"
  show ?thesis
  proof (cases "last s = LF")
    case True
    with s obtain t where t: "s = t @ [LF]" by (metis append_butlast_last_id)
    then show ?thesis by (simp add: splitLinesForCounting_def join_split_on split_on_snoc)
  qed (simp add: splitLinesForCounting_def join_split_on s)
qed

lemma lines_ne: "s \<noteq> [] \<Longrightarrow> splitLinesForCounting s \<noteq> []"
  by (cases s rule: rev_cases) (auto simp: splitLinesForCounting_def split_on_snoc)


lemma join_Cons_bytes: "bytes (join [LF] (l # ls)) = bytes l + (if ls = [] then 0 else 1 + bytes (join [LF] ls))"
  by (simp add: join_Cons_ne encode_around_LF)

section \<open>The loops\<close>

lemma headLoop_spec:
  assumes "headLoop rb maxLines maxBytes i ls c = (out, used, by)" "c \<le> maxBytes" "i \<le> maxLines"
  shows "out = take (length out) ls \<and> used = c + cost i out \<and> used \<le> maxBytes \<and> i + length out \<le> maxLines \<and>
    (length out < length ls \<and> i + length out < maxLines \<longrightarrow> maxBytes < c + cost i (take (length out + 1) ls))"
  using assms
proof (induction ls arbitrary: i c out used)
  case (Cons l ls)
  let ?b = "bytes l + (if i > 0 then 1 else 0)"
  show ?case
  proof (cases "i < maxLines \<and> c + ?b \<le> maxBytes")
    case True
    with Cons.prems obtain out' where o: "headLoop rb maxLines maxBytes (i + 1) ls (c + ?b) = (out', used, by)" "out = l # out'"
      by (auto simp: Let_def split: if_splits prod.splits)
    with True Cons.IH [OF o(1)] show ?thesis by (auto simp: add.assoc)
  next
    case False
    with Cons.prems show ?thesis by (auto simp: Let_def split: if_splits)
  qed
qed simp

lemma tailLoop_spec:
  assumes "tailLoop rb maxLines maxBytes ls out0 c = (out, used, by, partial)"
    "c = bytes (join [LF] out0)" "c \<le> maxBytes" "length out0 \<le> maxLines"
  shows "if partial then out0 = [] \<and> ls \<noteq> [] \<and> maxLines > 0 \<and> maxBytes < bytes (hd ls) \<and>
      out = [truncateStringToBytesFromEnd (hd ls) maxBytes]
    else \<exists>k. k \<le> length ls \<and> out = rev (take k ls) @ out0 \<and> used = bytes (join [LF] out) \<and> used \<le> maxBytes \<and>
      length out \<le> maxLines \<and>
      (k < length ls \<and> length out < maxLines \<longrightarrow> out \<noteq> [] \<and> maxBytes < bytes (join [LF] (ls ! k # out)))"
  using assms
proof (induction ls arbitrary: out0 c)
  case (Cons l ls)
  let ?b = "bytes l + (if length out0 > 0 then 1 else 0)"
  show ?case
  proof (cases "length out0 < maxLines \<and> c + ?b \<le> maxBytes")
    case True
    with Cons.prems have step: "tailLoop rb maxLines maxBytes ls (l # out0) (c + ?b) = (out, used, by, partial)"
      by (auto simp: Let_def)
    have c: "c + ?b = bytes (join [LF] (l # out0))" using Cons.prems(2) by (simp add: join_Cons_bytes)
    show ?thesis
    proof (cases partial)
      case True then show ?thesis using Cons.IH [OF step c] \<open>length out0 < maxLines \<and> c + ?b \<le> maxBytes\<close> by simp
    next
      case False
      with Cons.IH [OF step c] \<open>length out0 < maxLines \<and> c + ?b \<le> maxBytes\<close> obtain k where
        k: "k \<le> length ls \<and> out = rev (take k ls) @ l # out0 \<and> used = bytes (join [LF] out) \<and> used \<le> maxBytes \<and>
          length out \<le> maxLines \<and>
          (k < length ls \<and> length out < maxLines \<longrightarrow> out \<noteq> [] \<and> maxBytes < bytes (join [LF] (ls ! k # out)))"
        by auto
      with False show ?thesis by (intro if_not_P [THEN iffD2] exI [of _ "Suc k"]) auto
    qed
  next
    case False
    then consider "length out0 = maxLines" | "length out0 < maxLines" "c + ?b > maxBytes"
      using Cons.prems(4) by linarith
    then show ?thesis
    proof cases
      case 1
      with Cons.prems show ?thesis by (auto intro!: exI [of _ 0])
    next
      case 2
      with Cons.prems show ?thesis
        by (cases "out0 = []") (auto simp: Let_def join_Cons_bytes intro!: exI [of _ 0])
    qed
  qed
qed (auto intro: exI [of _ 0])

section \<open>The end of one line\<close>

lemma replacement_plain [simp]: "\<not> is_high 0xFFFD" "\<not> is_low 0xFFFD" "\<not> is_surrogate 0xFFFD" "unit_scalar 0xFFFD = 0xFFFD"
  by (simp_all add: is_high_def is_low_def is_surrogate_def unit_scalar_def)

lemma encode_replaced: "utf8_encode (replaceUnpairedSurrogates s) = utf8_encode s"
proof -
  have r: "scalars (0xFFFD # t) = 0xFFFD # scalars t" for t
    by (simp add: scalars_single is_surrogate_def)
  have u: "unit_scalar u = 0xFFFD" if "is_high u \<or> is_low u" for u
    using that by (simp add: unit_scalar_def surrogate_cases)
  have p: "scalars (u # t) = unit_scalar u # scalars t" if "\<not> is_high u" for u t
    using that by (cases t) auto
  have "scalars (replaceUnpairedSurrogates s) = scalars s"
    by (induction s rule: replaceUnpairedSurrogates.induct) (auto simp: r u p)
  then show ?thesis by (simp add: utf8_encode_def)
qed

lemma well_formed_replaced: "well_formed (replaceUnpairedSurrogates s)"
proof -
  have r: "well_formed (0xFFFD # t) = well_formed t" for t
    by (simp add: well_formed_single is_surrogate_def)
  have p: "well_formed (u # t) = well_formed t" if "\<not> is_high u" "\<not> is_low u" for u t
    using that by (simp add: well_formed_single surrogate_cases)
  show ?thesis
    by (induction s rule: replaceUnpairedSurrogates.induct) (auto simp: r p surrogate_cases)
qed

lemma suffixLoop_spec:
  assumes "suffixLoop maxBytes r used = (n, replace)" "used \<le> maxBytes"
  shows "n \<le> length r \<and>
    utf8_encode (rev r) = utf8_encode (rev (drop n r)) @ utf8_encode (rev (take n r)) \<and>
    used + bytes (rev (take n r)) \<le> maxBytes \<and>
    (n < length r \<longrightarrow> maxBytes < used + bytes (rev (take n r)) + 4)"
  using assms
proof (induction maxBytes r used arbitrary: n replace rule: suffixLoop.induct)
  case (2 maxBytes u us used)
  show ?case
  proof (cases "is_low u \<and> us \<noteq> [] \<and> is_high (hd us)")
    case True
    then obtain v vs where us: "us = v # vs" by (cases us) auto
    have pair: "utf8_encode (t @ [v, u]) = utf8_encode t @ utf8_encode [v, u]" for t
      using True us by (intro encode_append) (auto simp: joinable_def dest: high_not_low)
    have four: "bytes [v, u] = 4"
      using True us by (auto simp: utf8_encode_def length_utf8_bytes pair_scalar_def)
    show ?thesis
    proof (cases "used + 4 > maxBytes")
      case False
      with "2.prems" True us obtain m where m: "suffixLoop maxBytes vs (used + 4) = (m, replace)" "n = m + 2"
        by (auto split: prod.splits)
      from "2.IH"(1) [OF True False, of m replace] m(1) us False
      have "m \<le> length vs \<and> utf8_encode (rev vs) = utf8_encode (rev (drop m vs)) @ utf8_encode (rev (take m vs)) \<and>
          used + 4 + bytes (rev (take m vs)) \<le> maxBytes \<and>
          (m < length vs \<longrightarrow> maxBytes < used + 4 + bytes (rev (take m vs)) + 4)" by simp
      with m(2) us show ?thesis by (simp add: pair four)
    qed (use "2.prems" True in auto)
  next
    case False
    let ?b = "if is_surrogate u then 3 else if unat u \<le> 0x7F then 1 else if unat u \<le> 0x7FF then 2 else (3 :: nat)"
    have one: "utf8_encode (rev t @ [u]) = utf8_encode (rev t) @ utf8_encode [u]" if "t = [] \<or> us \<noteq> [] \<and> hd t = hd us" for t
      using that False by (intro encode_append) (auto simp: joinable_def last_rev)
    have whole: "utf8_encode (rev us @ [u]) = utf8_encode (rev us) @ utf8_encode [u]" by (rule one) (cases us; simp)
    have part: "utf8_encode (rev (take m us) @ [u]) = utf8_encode (rev (take m us)) @ utf8_encode [u]" for m
      by (rule one) (cases us; cases m; auto)
    have b: "bytes [u] = ?b" "?b \<le> 3" by (simp_all only: bytes_single) auto
    have eq: "suffixLoop maxBytes (u # us) used = (if used + ?b > maxBytes then (0, False)
        else (case suffixLoop maxBytes us (used + ?b) of (n, replace) \<Rightarrow> (n + 1, replace \<or> is_surrogate u)))"
      by (simp only: suffixLoop.simps False if_False Let_def)
    show ?thesis
    proof (cases "used + ?b > maxBytes")
      case True
      with "2.prems"(1) have "n = 0" by (simp only: eq if_True prod.inject)
      with b(2) True "2.prems"(2) show ?thesis by simp
    next
      case ok: False
      obtain m r where m: "suffixLoop maxBytes us (used + ?b) = (m, r)" by (cases "suffixLoop maxBytes us (used + ?b)") auto
      with "2.prems"(1) ok have n: "n = m + 1" by (simp only: eq if_False m prod.case prod.inject)
      from ok have "used + ?b \<le> maxBytes" by linarith
      from "2.IH"(2) [OF False refl ok m this]
      have ih: "m \<le> length us" "utf8_encode (rev us) = utf8_encode (rev (drop m us)) @ utf8_encode (rev (take m us))"
          "used + bytes [u] + bytes (rev (take m us)) \<le> maxBytes"
          "m < length us \<longrightarrow> maxBytes < used + bytes [u] + bytes (rev (take m us)) + 4"
        unfolding b(1) by blast+
      show ?thesis unfolding n using ih by (auto simp add: whole part)
    qed
  qed
qed simp

lemma truncateFromEnd:
  assumes "maxBytes < bytes s"
  shows "\<exists>pre. utf8_encode s = pre @ utf8_encode (truncateStringToBytesFromEnd s maxBytes)"
    "bytes (truncateStringToBytesFromEnd s maxBytes) \<le> maxBytes"
    "maxBytes < bytes (truncateStringToBytesFromEnd s maxBytes) + 4"
proof -
  obtain n r where l: "suffixLoop maxBytes (rev s) 0 = (n, r)" by (cases "suffixLoop maxBytes (rev s) 0") auto
  have "rev (take n (rev s)) = drop (length s - n) s" "rev (drop n (rev s)) = take (length s - n) s"
    by (simp_all add: rev_take rev_drop)
  with suffixLoop_spec [OF l] have n: "n \<le> length s"
    and split: "utf8_encode s = utf8_encode (take (length s - n) s) @ utf8_encode (drop (length s - n) s)"
    and le: "bytes (drop (length s - n) s) \<le> maxBytes"
    and tight: "n < length s \<Longrightarrow> maxBytes < bytes (drop (length s - n) s) + 4"
    by auto
  have "n < length s" using n le assms by (cases "n = length s") auto
  with tight have tight: "maxBytes < bytes (drop (length s - n) s) + 4" .
  have e: "utf8_encode (truncateStringToBytesFromEnd s maxBytes) =
      (if maxBytes = 0 then [] else utf8_encode (drop (length s - n) s))"
    using l by (simp add: truncateStringToBytesFromEnd_def Let_def encode_replaced)
  show "\<exists>pre. utf8_encode s = pre @ utf8_encode (truncateStringToBytesFromEnd s maxBytes)"
    using split e by auto
  show "bytes (truncateStringToBytesFromEnd s maxBytes) \<le> maxBytes"
    using le e by simp
  show "maxBytes < bytes (truncateStringToBytesFromEnd s maxBytes) + 4"
    using tight e by auto
qed

section \<open>The head\<close>

lemma truncated_nonempty: "\<not> (length (splitLinesForCounting s) \<le> m \<and> bytes s \<le> b) \<Longrightarrow> splitLinesForCounting s \<noteq> []"
  using lines_ne [of s] by (cases "s = []") (auto simp: splitLinesForCounting_def)

definition fits_head :: "jsstr \<Rightarrow> nat \<Rightarrow> nat \<Rightarrow> truncation_result \<Rightarrow> bool" where
  "fits_head s maxLines maxBytes r \<longleftrightarrow>
     (let ls = splitLinesForCounting s; n = tr_outputLines r in
      (tr_truncated r \<longleftrightarrow> maxLines < length ls \<or> maxBytes < bytes s) \<and>
      tr_content r = (if tr_truncated r then join [LF] (take n ls) else s) \<and>
      n \<le> maxLines \<and> n \<le> length ls \<and> tr_outputBytes r = bytes (tr_content r) \<and> tr_outputBytes r \<le> maxBytes \<and>
      (tr_truncated r \<and> n < maxLines \<and> n < length ls \<longrightarrow> maxBytes < bytes (join [LF] (take (n + 1) ls))))"

lemma truncateHead_fits: "fits_head s (maxLinesOf opts) (maxBytesOf opts) (truncateHead rb s opts)"
proof -
  let ?ls = "splitLinesForCounting s" and ?L = "maxLinesOf opts" and ?B = "maxBytesOf opts"
  show ?thesis
  proof (cases "length ?ls \<le> ?L \<and> bytes s \<le> ?B")
    case True then show ?thesis by (auto simp: fits_head_def truncateHead_def untruncated_def Let_def)
  next
    case False
    then obtain l ls where ls: "?ls = l # ls" using truncated_nonempty by (cases ?ls) auto
    show ?thesis
    proof (cases "?B < bytes l")
      case True
      with False ls show ?thesis by (auto simp: fits_head_def truncateHead_def Let_def)
    next
      case first: False
      obtain out used kind where loop: "headLoop rb ?L ?B 0 ?ls 0 = (out, used, kind)" by (cases "headLoop rb ?L ?B 0 ?ls 0") auto
      from headLoop_spec [OF loop] have o: "out = take (length out) ?ls" "used = bytes (join [LF] out)" "used \<le> ?B" "length out \<le> ?L"
        "length out < length ?ls \<and> length out < ?L \<longrightarrow> ?B < bytes (join [LF] (take (length out + 1) ?ls))"
        by (simp_all add: cost_0)
      moreover have "length out \<le> length ?ls" using arg_cong [OF o(1), of length] by simp
      moreover have "truncateHead rb s opts =
        \<lparr>tr_content = join [LF] out, tr_truncated = True,
         tr_truncatedBy = Some (if length out \<ge> ?L \<and> used \<le> ?B then LineLimit else kind), tr_totalLines = length ?ls,
         tr_totalBytes = bytes s, tr_outputLines = length out, tr_outputBytes = bytes (join [LF] out),
         tr_lastLinePartial = False, tr_firstLineExceedsLimit = False, tr_maxLines = ?L, tr_maxBytes = ?B\<rparr>"
        using False first ls loop by (auto simp: truncateHead_def Let_def)
      ultimately show ?thesis using False by (auto simp: fits_head_def Let_def)
    qed
  qed
qed

lemma fits_head_truncated:
  assumes "fits_head s maxLines maxBytes r" "tr_truncated r"
  shows "maxLines < length (splitLinesForCounting s) \<or> maxBytes < bytes s"
    "tr_content r = join [LF] (take (tr_outputLines r) (splitLinesForCounting s))"
    "tr_outputLines r \<le> maxLines" "tr_outputLines r \<le> length (splitLinesForCounting s)"
    "bytes (join [LF] (take (tr_outputLines r) (splitLinesForCounting s))) \<le> maxBytes"
    "tr_outputLines r < maxLines \<and> tr_outputLines r < length (splitLinesForCounting s) \<longrightarrow>
      maxBytes < bytes (join [LF] (take (tr_outputLines r + 1) (splitLinesForCounting s)))"
  using assms unfolding fits_head_def Let_def by (elim conjE; simp)+

section \<open>The tail\<close>

definition fits_tail :: "jsstr \<Rightarrow> nat \<Rightarrow> nat \<Rightarrow> truncation_result \<Rightarrow> bool" where
  "fits_tail s maxLines maxBytes r \<longleftrightarrow>
     (let ls = splitLinesForCounting s; n = tr_outputLines r in
      (tr_truncated r \<longleftrightarrow> maxLines < length ls \<or> maxBytes < bytes s) \<and>
      n \<le> maxLines \<and> n \<le> length ls \<and> tr_outputBytes r = bytes (tr_content r) \<and> tr_outputBytes r \<le> maxBytes \<and>
      (if \<not> tr_truncated r then tr_content r = s
       else if tr_lastLinePartial r then
         n = 1 \<and> maxBytes < bytes (last ls) \<and> maxBytes < tr_outputBytes r + 4 \<and>
         (\<exists>before. utf8_encode (last ls) = before @ utf8_encode (tr_content r))
       else tr_content r = join [LF] (drop (length ls - n) ls) \<and>
         (n < maxLines \<and> n < length ls \<longrightarrow> maxBytes < bytes (join [LF] (drop (length ls - (n + 1)) ls)))))"

lemma rev_take_rev: "rev (take k (rev xs)) = drop (length xs - k) xs"
  by (simp add: rev_take)

lemma truncateTail_fits: "fits_tail s (maxLinesOf opts) (maxBytesOf opts) (truncateTail rb s opts)"
proof -
  let ?ls = "splitLinesForCounting s" and ?L = "maxLinesOf opts" and ?B = "maxBytesOf opts"
  show ?thesis
  proof (cases "length ?ls \<le> ?L \<and> bytes s \<le> ?B")
    case True then show ?thesis by (auto simp: fits_tail_def truncateTail_def untruncated_def Let_def)
  next
    case False
    then have ne: "?ls \<noteq> []" by (rule truncated_nonempty)
    obtain out used kind part where loop: "tailLoop rb ?L ?B (rev ?ls) [] 0 = (out, used, kind, part)"
      by (cases "tailLoop rb ?L ?B (rev ?ls) [] 0") auto
    let ?by = "Some (if length out \<ge> ?L \<and> used \<le> ?B then LineLimit else kind)"
    have r: "truncateTail rb s opts =
        \<lparr>tr_content = join [LF] out, tr_truncated = True, tr_truncatedBy = ?by, tr_totalLines = length ?ls,
         tr_totalBytes = bytes s, tr_outputLines = length out, tr_outputBytes = bytes (join [LF] out),
         tr_lastLinePartial = part, tr_firstLineExceedsLimit = False, tr_maxLines = ?L, tr_maxBytes = ?B\<rparr>"
      using False loop by (auto simp: truncateTail_def Let_def)
    note spec = tailLoop_spec [OF loop]
    show ?thesis
    proof (cases part)
      case True
      with spec ne have o: "out = [truncateStringToBytesFromEnd (last ?ls) ?B]" "?B < bytes (last ?ls)" "?L > 0"
        by (simp_all add: hd_rev)
      have "Suc 0 \<le> length ?ls" using ne by (cases ?ls) auto
      with o truncateFromEnd [OF o(2)] True False show ?thesis
        by (simp add: fits_tail_def r Let_def) auto
    next
      case whole: False
      have start: "0 = bytes (join [LF] [])" "0 \<le> ?B" "length [] \<le> ?L" by simp_all
      from spec [OF start] whole obtain k where "k \<le> length (rev ?ls)" "out = rev (take k (rev ?ls)) @ []" "used = bytes (join [LF] out)"
        "used \<le> ?B" "length out \<le> ?L"
        "k < length (rev ?ls) \<and> length out < ?L \<longrightarrow> out \<noteq> [] \<and> ?B < bytes (join [LF] (rev ?ls ! k # out))"
        unfolding if_not_P [OF whole] by (elim exE conjE) (rule that)
      then have k: "k \<le> length ?ls" "out = drop (length ?ls - k) ?ls" "used = bytes (join [LF] out)" "used \<le> ?B" "length out \<le> ?L"
        and max: "k < length ?ls \<and> length out < ?L \<longrightarrow> ?B < bytes (join [LF] (rev ?ls ! k # out))"
        by (simp_all only: rev_take_rev append_Nil2 length_rev) blast
      have n: "length out = k" using k(1,2) by simp
      have "drop (length ?ls - (k + 1)) ?ls = rev ?ls ! k # out" if "k < length ?ls"
        using that k(2) Cons_nth_drop_Suc [of "length ?ls - (k + 1)" ?ls] by (simp add: rev_nth Suc_diff_Suc)
      with max n whole k False show ?thesis by (auto simp: fits_tail_def r Let_def)
    qed
  qed
qed

end
