(* ===== verification/TextDecode.thy ===== *)
theory TextDecode
  imports JsString
begin

text \<open>
  \<open>TextDecoder.decode\<close> with its default options: an ill-formed sequence becomes U+FFFD, one for each
  maximal part of a character as the Encoding Standard prescribes, and a leading byte order mark is
  dropped. On the encoding of a text the decoder gives the text back.
\<close>

text \<open>How many bytes of an ill-formed text the next replacement character stands for.\<close>

definition bad_length :: "byte list \<Rightarrow> nat" where
  "bad_length bs =
     (case bs of [] \<Rightarrow> 0
      | b # r \<Rightarrow>
        (let n = unat b;
             lower = (if n = 0xE0 then 0xA0 else if n = 0xF0 then 0x90 else 0x80);
             upper = (if n = 0xED then 0x9F else if n = 0xF4 then 0x8F else 0xBF) in
         if 0xE0 \<le> n \<and> n \<le> 0xF4 then
           (case r of [] \<Rightarrow> 1
            | c1 # r1 \<Rightarrow>
              if \<not> (lower \<le> unat c1 \<and> unat c1 \<le> upper) then 1
              else if n \<le> 0xEF then 2
              else (case r1 of [] \<Rightarrow> 2 | c2 # _ \<Rightarrow> if is_cont c2 then 3 else 2))
         else 1))"

lemma bad_length_pos: "bs \<noteq> [] \<Longrightarrow> 0 < bad_length bs"
  by (cases bs) (auto simp: bad_length_def Let_def split: list.splits)

function lenient_scalars :: "byte list \<Rightarrow> nat list" where
  "lenient_scalars bs =
     (if bs = [] then []
      else (case utf8_next bs of
          Some (cp, r) \<Rightarrow> cp # lenient_scalars r
        | None \<Rightarrow> 0xFFFD # lenient_scalars (drop (bad_length bs) bs)))"
  by pat_completeness auto
termination
  by (relation "measure length") (auto dest: utf8_next_shorter intro!: diff_less bad_length_pos)

declare lenient_scalars.simps [simp del]

definition BOM :: nat where "BOM = 0xFEFF"

definition decodeText :: "byte list \<Rightarrow> jsstr" where
  "decodeText bs = (let cps = lenient_scalars bs in units_of (if cps \<noteq> [] \<and> hd cps = BOM then tl cps else cps))"

lemma lenient_scalars_strict: "utf8_scalars bs = Some cps \<Longrightarrow> lenient_scalars bs = cps"
proof (induction bs arbitrary: cps rule: utf8_scalars.induct)
  case (1 bs)
  show ?case
  proof (cases "bs = []")
    case True with "1.prems" show ?thesis by (simp add: lenient_scalars.simps)
  next
    case False
    with "1.prems" obtain cp r cps' where step: "utf8_next bs = Some (cp, r)" "utf8_scalars r = Some cps'" "cps = cp # cps'"
      by (auto simp: utf8_scalars.simps [of bs] split: option.splits)
    from "1.IH" [OF False step(1) refl step(2)] step False show ?thesis by (simp add: lenient_scalars.simps [of bs])
  qed
qed

lemma lenient_scalars_bytes: "(\<And>cp. cp \<in> set cps \<Longrightarrow> is_scalar cp) \<Longrightarrow> lenient_scalars (concat (map utf8_bytes cps)) = cps"
  by (rule lenient_scalars_strict) (rule utf8_scalars_concat)

lemma decodeText_encode:
  "decodeText (utf8_encode s) = units_of (if scalars s \<noteq> [] \<and> hd (scalars s) = BOM then tl (scalars s) else scalars s)"
  using scalars_valid [of _ s] by (simp add: decodeText_def utf8_encode_def lenient_scalars_bytes)

lemma unit_not_BOM: "u \<noteq> 0xFEFF \<Longrightarrow> unit_scalar u \<noteq> BOM"
proof
  assume u: "u \<noteq> 0xFEFF" "unit_scalar u = BOM"
  then have "unat u = 0xFEFF" by (simp add: unit_scalar_def BOM_def split: if_splits)
  then have "(of_nat (unat u) :: code_unit) = of_nat 0xFEFF" by (rule arg_cong)
  with u(1) show False by simp
qed

lemma decodeText_well_formed:
  assumes "well_formed s" "s = [] \<or> hd s \<noteq> 0xFEFF"
  shows "decodeText (utf8_encode s) = s"
proof -
  have "\<not> (scalars s \<noteq> [] \<and> hd (scalars s) = BOM)"
  proof (cases s rule: scalars.cases)
    case (3 u v us)
    have "pair_scalar u v \<noteq> BOM" by (simp add: BOM_def pair_scalar_def)
    with assms 3 show ?thesis by (simp add: unit_not_BOM)
  qed (use assms in \<open>auto simp: unit_not_BOM\<close>)
  with assms(1) show ?thesis by (auto simp: decodeText_encode units_of_scalars)
qed

end
