(* ===== verification/ImageData.thy ===== *)
theory ImageData
  imports JsString
begin

unbundle bit_operations_syntax

text \<open>
  Image files for the read tool (\<open>packages/agent/src/harness/tools/image.ts\<close>): the detection of a
  supported image by its first bytes and the Base64 text of its contents. Bytes are read as numbers; a
  read outside the file gives 0, as \<open>buffer[i] ?? 0\<close> does. The lemmas are the round trip and the length
  of the Base64 text.
\<close>

definition byte_at :: "byte list \<Rightarrow> nat \<Rightarrow> nat" where
  "byte_at bs i = (if i < length bs then unat (bs ! i) else 0)"

definition readUint16LE :: "byte list \<Rightarrow> nat \<Rightarrow> nat" where
  "readUint16LE bs i = byte_at bs i + push_bit 8 (byte_at bs (i + 1))"

definition readUint32BE :: "byte list \<Rightarrow> nat \<Rightarrow> nat" where
  "readUint32BE bs i =
     byte_at bs i * 0x1000000 + push_bit 16 (byte_at bs (i + 1)) + push_bit 8 (byte_at bs (i + 2)) + byte_at bs (i + 3)"

definition readUint32LE :: "byte list \<Rightarrow> nat \<Rightarrow> nat" where
  "readUint32LE bs i =
     byte_at bs i + push_bit 8 (byte_at bs (i + 1)) + push_bit 16 (byte_at bs (i + 2)) + byte_at bs (i + 3) * 0x1000000"

definition startsWith :: "byte list \<Rightarrow> nat list \<Rightarrow> bool" where
  "startsWith bs ns \<longleftrightarrow> \<not> length bs < length ns \<and> (\<forall>i < length ns. byte_at bs i = ns ! i)"

definition startsWithAscii :: "byte list \<Rightarrow> nat \<Rightarrow> string \<Rightarrow> bool" where
  "startsWithAscii bs i t \<longleftrightarrow> \<not> length bs < i + length t \<and> (\<forall>j < length t. byte_at bs (i + j) = of_char (t ! j))"

definition PNG_SIGNATURE :: "nat list" where
  "PNG_SIGNATURE = [0x89, 0x50, 0x4E, 0x47, 0x0D, 0x0A, 0x1A, 0x0A]"

definition isPng :: "byte list \<Rightarrow> bool" where
  "isPng bs \<longleftrightarrow> length bs \<ge> 16 \<and> readUint32BE bs (length PNG_SIGNATURE) = 13 \<and> startsWithAscii bs 12 ''IHDR''"

text \<open>The walk over the chunks of a PNG file from an offset; every chunk moves it forward.\<close>

function animatedFrom :: "byte list \<Rightarrow> nat \<Rightarrow> bool" where
  "animatedFrom bs i =
     (if \<not> i + 8 \<le> length bs then False
      else
        let chunkLength = readUint32BE bs i in
        if startsWithAscii bs (i + 4) ''acTL'' then True
        else if startsWithAscii bs (i + 4) ''IDAT'' then False
        else
          let nextOffset = i + 8 + chunkLength + 4 in
          if nextOffset \<le> i \<or> nextOffset > length bs then False else animatedFrom bs nextOffset)"
  by pat_completeness auto
termination by (relation "measure (\<lambda>(bs, i). length bs - i)") auto

declare animatedFrom.simps [simp del]

definition isAnimatedPng :: "byte list \<Rightarrow> bool" where
  "isAnimatedPng bs = animatedFrom bs (length PNG_SIGNATURE)"

definition isBmp :: "byte list \<Rightarrow> bool" where
  "isBmp bs =
     (if length bs < 26 then False
      else
        let declaredFileSize = readUint32LE bs 2; pixelDataOffset = readUint32LE bs 10;
            dibHeaderSize = readUint32LE bs 14 in
        if declaredFileSize \<noteq> 0 \<and> declaredFileSize < 26 then False
        else if pixelDataOffset < 14 + dibHeaderSize then False
        else if declaredFileSize \<noteq> 0 \<and> pixelDataOffset \<ge> declaredFileSize then False
        else if dibHeaderSize = 12 then readUint16LE bs 22 = 1 \<and> readUint16LE bs 24 \<in> {1, 4, 8, 16, 24, 32}
        else if dibHeaderSize \<ge> 40 \<and> dibHeaderSize \<le> 124 then
          length bs \<ge> 30 \<and> readUint16LE bs 26 = 1 \<and> readUint16LE bs 28 \<in> {1, 4, 8, 16, 24, 32}
        else False)"

definition detectSupportedImageMimeType :: "byte list \<Rightarrow> string option" where
  "detectSupportedImageMimeType bs =
     (if startsWith bs [0xFF, 0xD8, 0xFF] then (if length bs > 3 \<and> byte_at bs 3 = 0xF7 then None else Some ''image/jpeg'')
      else if startsWith bs PNG_SIGNATURE then (if isPng bs \<and> \<not> isAnimatedPng bs then Some ''image/png'' else None)
      else if startsWithAscii bs 0 ''GIF'' then Some ''image/gif''
      else if startsWithAscii bs 0 ''RIFF'' \<and> startsWithAscii bs 8 ''WEBP'' then Some ''image/webp''
      else if startsWithAscii bs 0 ''BM'' \<and> isBmp bs then Some ''image/bmp''
      else None)"

section \<open>Base64\<close>

definition base64_alphabet :: string where
  "base64_alphabet = ''ABCDEFGHIJKLMNOPQRSTUVWXYZabcdefghijklmnopqrstuvwxyz0123456789+/''"

fun encodeBase64 :: "byte list \<Rightarrow> string" where
  "encodeBase64 [] = []"
| "encodeBase64 (b # bs) =
     (let first = unat b;
          second = (case bs of [] \<Rightarrow> None | c # _ \<Rightarrow> Some (unat c));
          third = (case bs of _ # c # _ \<Rightarrow> Some (unat c) | _ \<Rightarrow> None) in
      [base64_alphabet ! drop_bit 2 first,
       base64_alphabet ! (push_bit 4 (first AND 0x03) OR drop_bit 4 (case second of None \<Rightarrow> 0 | Some n \<Rightarrow> n)),
       (case second of None \<Rightarrow> CHR ''=''
        | Some n \<Rightarrow> base64_alphabet ! (push_bit 2 (n AND 0x0F) OR drop_bit 6 (case third of None \<Rightarrow> 0 | Some m \<Rightarrow> m))),
       (case third of None \<Rightarrow> CHR ''='' | Some m \<Rightarrow> base64_alphabet ! (m AND 0x3F))]
      @ encodeBase64 (drop 2 bs))"

text \<open>The reference decoder of RFC 4648: four characters at a time, \<open>=\<close> padding the last group.\<close>

definition sextet :: "char \<Rightarrow> nat" where
  "sextet c = length (takeWhile (\<lambda>d. d \<noteq> c) base64_alphabet)"

fun decodeBase64 :: "string \<Rightarrow> nat list" where
  "decodeBase64 (a # b # c # d # r) =
     (let n = sextet a * 262144 + sextet b * 4096 + sextet c mod 64 * 64 + sextet d mod 64 in
      (if c = CHR ''='' then [n div 65536]
       else if d = CHR ''='' then [n div 65536, n div 256 mod 256]
       else [n div 65536, n div 256 mod 256, n mod 256]) @ decodeBase64 r)"
| "decodeBase64 _ = []"

lemma takeWhile_nth: "distinct xs \<Longrightarrow> n < length xs \<Longrightarrow> length (takeWhile (\<lambda>x. x \<noteq> xs ! n) xs) = n"
proof (induction xs arbitrary: n)
  case (Cons x xs) then show ?case by (cases n) auto
qed simp

lemma alphabet: "distinct base64_alphabet" "length base64_alphabet = 64" "CHR ''='' \<notin> set base64_alphabet"
  by (simp_all add: base64_alphabet_def)

lemma sextet_nth [simp]: "n < 64 \<Longrightarrow> sextet (base64_alphabet ! n) = n"
  using takeWhile_nth [OF alphabet(1)] by (simp add: sextet_def alphabet(2))

lemma nth_not_pad [simp]: "n < 64 \<Longrightarrow> base64_alphabet ! n \<noteq> CHR ''=''"
  using alphabet(2,3) nth_mem by metis

lemma sextet_pad [simp]: "sextet (CHR ''='') = 64"
proof -
  have "takeWhile (\<lambda>d. d \<noteq> CHR ''='') base64_alphabet = base64_alphabet"
    using alphabet(3) by (intro takeWhile_eq_all_conv [THEN iffD2]) auto
  then show ?thesis unfolding sextet_def by (simp only: alphabet(2))
qed

lemma or_disjoint: "y < 2 ^ n \<Longrightarrow> push_bit n x OR y = 2 ^ n * x + (y :: nat)"
proof -
  assume "y < 2 ^ n"
  then have "y = take_bit n y" by (simp add: take_bit_nat_eq_self)
  then have "\<not> bit (push_bit n x) m \<or> \<not> bit y m" for m
    by (metis bit_push_bit_iff bit_take_bit_iff linorder_not_less)
  then show ?thesis by (simp flip: disjunctive_add add: push_bit_eq_mult mult.commute)
qed

lemma bits:
  "drop_bit 2 (n :: nat) = n div 4" "drop_bit 4 n = n div 16" "drop_bit 6 n = n div 64"
  "n AND 0x03 = n mod 4" "n AND 0x0F = n mod 16" "n AND 0x3F = n mod 64"
  using take_bit_eq_mask [of 2 n] take_bit_eq_mask [of 4 n] take_bit_eq_mask [of 6 n]
  by (simp_all add: drop_bit_eq_div take_bit_eq_mod mask_eq_exp_minus_1)

lemma base64_index:
  assumes "x < 256" "y < (256 :: nat)"
  shows "push_bit 4 (x AND 0x03) OR drop_bit 4 y = x mod 4 * 16 + y div 16"
    "push_bit 2 (x AND 0x0F) OR drop_bit 6 y = x mod 16 * 4 + y div 64"
proof -
  have "y div 16 < 2 ^ 4" "y div 64 < 2 ^ 2" using assms by simp_all
  then show "push_bit 4 (x AND 0x03) OR drop_bit 4 y = x mod 4 * 16 + y div 16"
    "push_bit 2 (x AND 0x0F) OR drop_bit 6 y = x mod 16 * 4 + y div 64"
    unfolding bits by (simp_all add: or_disjoint)
qed

lemma three_bytes:
  "x div 4 * 262144 + (x mod 4 * 16 + y div 16) * 4096 + (y mod 16 * 4 + z div 64) * 64 + z mod 64 = x * 65536 + y * 256 + (z :: nat)"
proof -
  have "a * 262144 + (b * 16 + c) * 4096 + (d * 4 + e) * 64 + f =
    (a * 4 + b) * 65536 + (c * 16 + d) * 256 + (e * 64 + f)" for a b c d e f :: nat
    by (simp add: algebra_simps)
  from this [of "x div 4" "x mod 4" "y div 16" "y mod 16" "z div 64" "z mod 64"] show ?thesis
    by (simp only: div_mult_mod_eq)
qed

lemma byte_digits:
  assumes "x < 256" "y < 256" "z < (256 :: nat)"
  shows "(x * 65536 + y * 256 + z) div 65536 = x" "(x * 65536 + y * 256 + z) div 256 mod 256 = y"
    "(x * 65536 + y * 256 + z) mod 256 = z"
proof -
  have d: "(x * 65536 + y * 256 + z) div 256 = x * 256 + y"
    using assms by (intro div_nat_eqI) simp_all
  with assms show "(x * 65536 + y * 256 + z) div 256 mod 256 = y" by simp
  show "(x * 65536 + y * 256 + z) mod 256 = z"
    using assms mod_mult_self2 [of z 256 "x * 256 + y"] by (simp add: algebra_simps)
  show "(x * 65536 + y * 256 + z) div 65536 = x"
    using assms by (intro div_nat_eqI) simp_all
qed

lemma sextet_bounds:
  assumes "x < 256" "y < (256 :: nat)"
  shows "x mod 4 * 16 + y div 16 < 64" "x mod 16 * 4 + y div 64 < 64" "x div 4 < 64"
proof -
  have "x mod 4 < 4" "x mod 16 < 16" "y div 16 < 16" "y div 64 < 4" using assms by simp_all
  then show "x mod 4 * 16 + y div 16 < 64" "x mod 16 * 4 + y div 64 < 64" by linarith+
  show "x div 4 < 64" using assms by simp
qed

text \<open>One full group, and the two padded ones.\<close>

lemma decode_sextets:
  assumes "p < 64" "q < 64" "s < 64" "t < 64"
  shows "decodeBase64 (base64_alphabet ! p # base64_alphabet ! q # base64_alphabet ! s # base64_alphabet ! t # r) =
      (let n = p * 262144 + q * 4096 + s * 64 + t in [n div 65536, n div 256 mod 256, n mod 256]) @ decodeBase64 r"
    "decodeBase64 (base64_alphabet ! p # base64_alphabet ! q # base64_alphabet ! s # CHR ''='' # r) =
      (let n = p * 262144 + q * 4096 + s * 64 in [n div 65536, n div 256 mod 256]) @ decodeBase64 r"
    "decodeBase64 (base64_alphabet ! p # base64_alphabet ! q # CHR ''='' # CHR ''='' # r) =
      (let n = p * 262144 + q * 4096 in [n div 65536]) @ decodeBase64 r"
  using assms by (simp_all add: Let_def)

declare decodeBase64.simps [simp del]

lemma decodeBase64_Nil [simp]: "decodeBase64 [] = []"
  by (rule decodeBase64.simps)

lemma decode_group:
  assumes "x < 256" "y < 256" "z < (256 :: nat)"
  shows "decodeBase64 (base64_alphabet ! (x div 4) # base64_alphabet ! (x mod 4 * 16 + y div 16)
      # base64_alphabet ! (y mod 16 * 4 + z div 64) # base64_alphabet ! (z mod 64) # r) = x # y # z # decodeBase64 r"
    "decodeBase64 (base64_alphabet ! (x div 4) # base64_alphabet ! (x mod 4 * 16 + y div 16)
      # base64_alphabet ! (y mod 16 * 4) # CHR ''='' # r) = x # y # decodeBase64 r"
    "decodeBase64 (base64_alphabet ! (x div 4) # base64_alphabet ! (x mod 4 * 16)
      # CHR ''='' # CHR ''='' # r) = x # decodeBase64 r"
proof -
  note b = sextet_bounds [OF assms(1,2)] sextet_bounds [OF assms(2,3)]
  have m: "z mod 64 < 64" "y mod 16 * 4 < 64" "x mod 4 * 16 < 64" using b by (simp, linarith+)
  have two: "x div 4 * 262144 + (x mod 4 * 16 + y div 16) * 4096 + y mod 16 * 4 * 64 = x * 65536 + y * 256 + 0"
    using three_bytes [of x y 0] by simp
  have one: "x div 4 * 262144 + x mod 4 * 16 * 4096 = x * 65536 + 0 * 256 + 0"
    using three_bytes [of x 0 0] by simp
  show "decodeBase64 (base64_alphabet ! (x div 4) # base64_alphabet ! (x mod 4 * 16 + y div 16)
      # base64_alphabet ! (y mod 16 * 4 + z div 64) # base64_alphabet ! (z mod 64) # r) = x # y # z # decodeBase64 r"
    unfolding decode_sextets(1) [OF b(3,1,5) m(1)] Let_def three_bytes byte_digits [OF assms] by simp
  show "decodeBase64 (base64_alphabet ! (x div 4) # base64_alphabet ! (x mod 4 * 16 + y div 16)
      # base64_alphabet ! (y mod 16 * 4) # CHR ''='' # r) = x # y # decodeBase64 r"
    unfolding decode_sextets(2) [OF b(3,1) m(2,2)] Let_def two using byte_digits(1,2) [OF assms(1,2), of 0] by simp
  show "decodeBase64 (base64_alphabet ! (x div 4) # base64_alphabet ! (x mod 4 * 16)
      # CHR ''='' # CHR ''='' # r) = x # decodeBase64 r"
    unfolding decode_sextets(3) [OF b(3) m(3,3,3)] Let_def one using byte_digits(1) [OF assms(1), of 0 0] by simp
qed

lemma base64_roundtrip: "decodeBase64 (encodeBase64 bs) = map unat bs"
proof (induction bs rule: encodeBase64.induct)
  case (2 b bs)
  note lt = unat_byte_lt [of b]
  have index: "push_bit 4 (unat b AND 0x03) OR drop_bit 4 y = unat b mod 4 * 16 + y div 16" if "y < 256" for y
    using base64_index(1) [OF lt that] .
  have index2: "push_bit 2 (unat (c :: byte) AND 0x0F) OR drop_bit 6 z = unat c mod 16 * 4 + z div 64" if "z < 256" for c z
    using base64_index(2) [OF unat_byte_lt that] .
  consider "bs = []" | c where "bs = [c]" | c d r where "bs = c # d # r"
    by (metis neq_Nil_conv)
  then show ?case
  proof cases
    case 1
    with decode_group(3) [OF lt lt lt, of "[]"] index [of 0] show ?thesis by (simp add: Let_def bits)
  next
    case 2
    with decode_group(2) [OF lt unat_byte_lt lt, of c "[]"] index [OF unat_byte_lt, of c] index2 [of 0 c]
    show ?thesis by (simp add: Let_def bits)
  next
    case 3
    from "2.IH" [OF refl refl refl] have "decodeBase64 (encodeBase64 r) = map unat r" using 3 by simp
    with 3 decode_group(1) [OF lt unat_byte_lt unat_byte_lt, of c d "encodeBase64 r"] index [OF unat_byte_lt, of c] index2 [OF unat_byte_lt, of c d]
    show ?thesis by (simp add: Let_def bits)
  qed
qed simp

lemma length_encodeBase64: "length (encodeBase64 bs) = 4 * ((length bs + 2) div 3)"
proof (induction bs rule: encodeBase64.induct)
  case (2 b bs)
  from "2.IH" [OF refl refl refl] have "length (encodeBase64 (drop 2 bs)) = 4 * ((length bs - 2 + 2) div 3)" by simp
  moreover have "(length bs - 2 + 2) div 3 + 1 = (length (b # bs) + 2) div 3" by (cases bs; cases "tl bs") auto
  ultimately show ?case by (simp add: Let_def)
qed simp

end
