(* ===== verification/ReadTool.thy ===== *)
theory ReadTool
  imports TruncationProps TextDecode ImageData Actions
begin

text \<open>
  The read tool (\<open>packages/agent/src/harness/tools/read.ts\<close>) and the paths of the file tools
  (\<open>path-utils.ts\<close>). The execution environment, Unicode normalization and the image processor of the
  host are arguments. The lemmas follow the offsets the tool tells the model to continue with: the pages
  read this way are together the file.
\<close>

section \<open>Paths\<close>

definition is_unicode_space :: "code_unit \<Rightarrow> bool" where
  "is_unicode_space u \<longleftrightarrow> u = 0x00A0 \<or> 0x2000 \<le> unat u \<and> unat u \<le> 0x200A \<or> u = 0x202F \<or> u = 0x205F \<or> u = 0x3000"

definition normalizeToolPath :: "jsstr \<Rightarrow> jsstr" where
  "normalizeToolPath path =
     (let normalized = map (\<lambda>u. if is_unicode_space u then 0x20 else u) path in
      if normalized \<noteq> [] \<and> hd normalized = 0x40 then tl normalized else normalized)"

text \<open>\<open>/ (AM|PM)\./gi\<close>: a space before such a mark becomes a narrow no-break space.\<close>

definition is_am_pm :: "jsstr \<Rightarrow> bool" where
  "is_am_pm us \<longleftrightarrow> length us \<ge> 3 \<and> us ! 0 \<in> {0x41, 0x61, 0x50, 0x70} \<and> us ! 1 \<in> {0x4D, 0x6D} \<and> us ! 2 = 0x2E"

fun narrowAmPm :: "jsstr \<Rightarrow> jsstr" where
  "narrowAmPm [] = []"
| "narrowAmPm (u # us) = (if u = 0x20 \<and> is_am_pm us then 0x202F else u) # narrowAmPm us"

definition curlyQuotes :: "jsstr \<Rightarrow> jsstr" where
  "curlyQuotes = map (\<lambda>u. if u = 0x27 then 0x2019 else u)"

record 'w read_env =
  re_absolutePath :: "jsstr \<Rightarrow> ('w, jsstr) action"
  re_exists :: "jsstr \<Rightarrow> ('w, bool) action"
  re_readBinaryFile :: "jsstr \<Rightarrow> ('w, byte list) action"
  re_nfd :: "jsstr \<Rightarrow> jsstr"

definition resolveToolPath :: "'w read_env \<Rightarrow> jsstr \<Rightarrow> ('w, jsstr) action" where
  "resolveToolPath env path = re_absolutePath env (normalizeToolPath path)"

fun firstExisting :: "'w read_env \<Rightarrow> jsstr list \<Rightarrow> jsstr \<Rightarrow> ('w, jsstr) action" where
  "firstExisting env [] resolved = give resolved"
| "firstExisting env (v # vs) resolved =
     andThen (re_exists env v) (\<lambda>found. if found then give v else firstExisting env vs resolved)"

definition pathVariants :: "'w read_env \<Rightarrow> jsstr \<Rightarrow> jsstr list" where
  "pathVariants env resolved =
     [resolved, narrowAmPm resolved, re_nfd env resolved, curlyQuotes resolved, curlyQuotes (re_nfd env resolved)]"

text \<open>A \<open>Set\<close> of the variants keeps the first of equal ones.\<close>

definition resolveReadToolPath :: "'w read_env \<Rightarrow> jsstr \<Rightarrow> ('w, jsstr) action" where
  "resolveReadToolPath env path =
     andThen (resolveToolPath env path) (\<lambda>resolved.
     firstExisting env (rev (remdups (rev (pathVariants env resolved)))) resolved)"

section \<open>Text files\<close>

datatype read_content = TextBlock jsstr | ImageBlock string string

record read_output =
  ro_content :: "read_content list"
  ro_details :: "truncation_result option"

text \<open>\<open>slice(start, end)\<close> of an array: a negative end counts from the end of the array.\<close>

definition js_slice :: "'a list \<Rightarrow> nat \<Rightarrow> int \<Rightarrow> 'a list" where
  "js_slice xs s e = (let e' = (if e < 0 then max 0 (int (length xs) + e) else e) in take (nat e' - s) (drop s xs))"

definition startLineOf :: "int option \<Rightarrow> nat" where
  "startLineOf offset = (case offset of None \<Rightarrow> 0 | Some n \<Rightarrow> if n = 0 then 0 else nat (max 0 (n - 1)))"

text \<open>The selected lines, and how many the caller asked for when there is a limit.\<close>

definition selectLines :: "jsstr list \<Rightarrow> nat \<Rightarrow> int option \<Rightarrow> jsstr \<times> int option" where
  "selectLines allLines startLine limit =
     (case limit of
        None \<Rightarrow> (join [LF] (drop startLine allLines), None)
      | Some n \<Rightarrow>
          (let endLine = min (int startLine + n) (int (length allLines)) in
           (join [LF] (js_slice allLines startLine endLine), Some (endLine - int startLine))))"

datatype read_notice =
    LineTooLong nat
  | ShowingLines nat nat nat limit_kind
  | MoreLines int int
  | Complete

definition defaultOptions :: truncation_options where
  "defaultOptions = \<lparr>to_maxLines = None, to_maxBytes = None\<rparr>"

definition readNotice :: "truncation_result \<Rightarrow> jsstr list \<Rightarrow> nat \<Rightarrow> int option \<Rightarrow> read_notice" where
  "readNotice truncation allLines startLine userLimitedLines =
     (let startLineDisplay = startLine + 1 in
      if tr_firstLineExceedsLimit truncation then LineTooLong (bytes (allLines ! startLine))
      else if tr_truncated truncation then
        ShowingLines startLineDisplay (startLineDisplay + tr_outputLines truncation - 1) (length allLines)
          (if tr_truncatedBy truncation = Some LineLimit then LineLimit else ByteLimit)
      else (case userLimitedLines of
          None \<Rightarrow> Complete
        | Some n \<Rightarrow> if int startLine + n < int (length allLines)
            then MoreLines (int (length allLines) - (int startLine + n)) (int startLine + n + 1) else Complete))"

definition noticeText :: "read_notice \<Rightarrow> nat \<Rightarrow> jsstr \<Rightarrow> jsstr \<Rightarrow> jsstr" where
  "noticeText notice startLineDisplay path content =
     (case notice of
        LineTooLong lineBytes \<Rightarrow>
          jstr (''[Line '' @ show_nat startLineDisplay @ '' is '' @ formatSize lineBytes @ '', exceeds ''
            @ formatSize DEFAULT_MAX_BYTES @ '' limit. Use bash: sed -n '' @ [CHR 0x27] @ show_nat startLineDisplay
            @ ''p'' @ [CHR 0x27] @ '' '') @ path @ jstr ('' | head -c '' @ show_nat DEFAULT_MAX_BYTES @ '']'')
      | ShowingLines first final lineCount by \<Rightarrow>
          content @ [LF, LF] @ jstr (''[Showing lines '' @ show_nat first @ ''-'' @ show_nat final @ '' of '' @ show_nat lineCount
            @ (if by = LineLimit then '''' else '' ('' @ formatSize DEFAULT_MAX_BYTES @ '' limit)'')
            @ ''. Use offset='' @ show_nat (final + 1) @ '' to continue.]'')
      | MoreLines remaining nextOffset \<Rightarrow>
          content @ [LF, LF] @ jstr (''['' @ show_int remaining @ '' more lines in file. Use offset='' @ show_int nextOffset
            @ '' to continue.]'')
      | Complete \<Rightarrow> content)"

definition beyondEnd :: "int option \<Rightarrow> nat \<Rightarrow> string" where
  "beyondEnd offset n =
     ''Offset '' @ (case offset of None \<Rightarrow> ''undefined'' | Some k \<Rightarrow> show_int k)
     @ '' is beyond end of file ('' @ show_nat n @ '' lines total)''"

text \<open>The part of the file a call shows: its truncation and what the model is told about the rest.\<close>

definition selectPage :: "jsstr \<Rightarrow> int option \<Rightarrow> int option \<Rightarrow> string + truncation_result \<times> read_notice" where
  "selectPage content offset limit =
     (let allLines = split_on LF content; startLine = startLineOf offset in
      if startLine \<ge> length allLines then Inl (beyondEnd offset (length allLines))
      else (case selectLines allLines startLine limit of (selectedContent, userLimitedLines) \<Rightarrow>
        let truncation = truncateHead True selectedContent defaultOptions in
        Inr (truncation, readNotice truncation allLines startLine userLimitedLines)))"

definition readTextFile :: "jsstr \<Rightarrow> jsstr \<Rightarrow> int option \<Rightarrow> int option \<Rightarrow> string + read_output" where
  "readTextFile path content offset limit =
     rbind (selectPage content offset limit) (\<lambda>(truncation, notice). Inr
       \<lparr>ro_content = [TextBlock (noticeText notice (startLineOf offset + 1) path (tr_content truncation))],
        ro_details = (if tr_firstLineExceedsLimit truncation \<or> tr_truncated truncation then Some truncation else None)\<rparr>)"

section \<open>The tool\<close>

datatype processed_image = ProcessedImage string string "jsstr list" | ImageFailed jsstr

record 'w read_options =
  ro_autoResizeImages :: "bool option"
  ro_imageProcessor :: "(byte list \<Rightarrow> string \<Rightarrow> bool \<Rightarrow> ('w, processed_image) action) option"

definition imageText :: "string \<Rightarrow> jsstr" where
  "imageText mimeType = jstr (''Read image file ['' @ mimeType @ '']'')"

definition readImage :: "'w read_options \<Rightarrow> byte list \<Rightarrow> string \<Rightarrow> ('w, read_output) action" where
  "readImage opts bs mimeType =
     (let output = \<lambda>content. \<lparr>ro_content = content, ro_details = None\<rparr> in
      case ro_imageProcessor opts of
        Some processor \<Rightarrow>
          andThen (processor bs mimeType (case ro_autoResizeImages opts of None \<Rightarrow> True | Some b \<Rightarrow> b)) (\<lambda>processed.
          give (output (case processed of
              ImageFailed message \<Rightarrow> [TextBlock (imageText mimeType @ [LF] @ message)]
            | ProcessedImage img mime hints \<Rightarrow>
                [TextBlock (imageText mime @ (if hints \<noteq> [] then [LF] @ join [LF] hints else [])), ImageBlock img mime])))
      | None \<Rightarrow>
          if mimeType = ''image/bmp'' then
            give (output [TextBlock (imageText mimeType @ [LF]
              @ jstr ''[Image omitted: configure an imageProcessor to convert BMP images.]'')])
          else give (output [TextBlock (imageText mimeType), ImageBlock (encodeBase64 bs) mimeType]))"

definition executeRead :: "'w read_env \<Rightarrow> 'w read_options \<Rightarrow> jsstr \<Rightarrow> int option \<Rightarrow> int option \<Rightarrow> ('w, read_output) action" where
  "executeRead env opts path offset limit =
     andThen (resolveReadToolPath env path) (\<lambda>absolutePath.
     andThen (re_readBinaryFile env absolutePath) (\<lambda>bs.
     case detectSupportedImageMimeType bs of
       Some mimeType \<Rightarrow> readImage opts bs mimeType
     | None \<Rightarrow> (case readTextFile path (decodeText bs) offset limit of
           Inl message \<Rightarrow> fail message
         | Inr out \<Rightarrow> give out)))"

section \<open>Reading on\<close>

text \<open>A reader that follows the offsets of the notices, in at most \<open>n\<close> calls.\<close>

fun readPages :: "nat \<Rightarrow> jsstr \<Rightarrow> int \<Rightarrow> jsstr list" where
  "readPages 0 content offset = []"
| "readPages (Suc n) content offset =
     (case selectPage content (Some offset) None of
        Inl message \<Rightarrow> []
      | Inr (truncation, notice) \<Rightarrow>
          tr_content truncation #
          (case notice of ShowingLines first final lineCount by \<Rightarrow> readPages n content (int final + 1) | _ \<Rightarrow> []))"

lemma firstLineExceeds:
  "tr_firstLineExceedsLimit (truncateHead rb s opts) \<Longrightarrow> maxBytesOf opts < bytes (splitLinesForCounting s ! 0)"
  by (auto simp: truncateHead_def untruncated_def Let_def split: if_splits prod.splits)

lemma default_limits [simp]: "maxLinesOf defaultOptions = 2000" "maxBytesOf defaultOptions = 51200"
  by (simp_all add: maxLinesOf_def maxBytesOf_def defaultOptions_def DEFAULT_MAX_LINES_def DEFAULT_MAX_BYTES_def)

lemma lines_of_join:
  assumes "ls \<noteq> []" "\<forall>l \<in> set ls. LF \<notin> set l"
  shows "splitLinesForCounting (join [LF] ls) =
    (if join [LF] ls = [] then [] else if last (join [LF] ls) = LF then butlast ls else ls)"
  using assms by (simp add: splitLinesForCounting_def split_on_join)

lemma selectPage_step:
  assumes "s < length all" "all = split_on LF content" "\<forall>l \<in> set all. bytes l \<le> 51200"
  shows "(\<exists>t. selectPage content (Some (int s + 1)) None = Inr (t, Complete) \<and> tr_content t = join [LF] (drop s all)) \<or>
    (\<exists>t n by. selectPage content (Some (int s + 1)) None = Inr (t, ShowingLines (s + 1) (s + n) (length all) by) \<and>
       0 < n \<and> s + n < length all \<and> tr_content t = join [LF] (take n (drop s all)))"
proof -
  let ?rest = "drop s all" and ?sel = "join [LF] (drop s all)"
  let ?t = "truncateHead True ?sel defaultOptions" and ?ls = "splitLinesForCounting ?sel"
  have rest: "?rest \<noteq> []" "\<forall>l \<in> set ?rest. LF \<notin> set l"
    using assms(1,2) by (auto dest: in_set_dropD split_on_parts)
  note ls = lines_of_join [OF rest]
  note fits = truncateHead_fits [of ?sel defaultOptions True, unfolded fits_head_def Let_def default_limits]
  have start: "startLineOf (Some (int s + 1)) = s" by (simp add: startLineOf_def)
  have page: "selectPage content (Some (int s + 1)) None = Inr (?t, readNotice ?t all s None)"
    using assms(1,2) by (simp add: selectPage_def start selectLines_def Let_def)
  show ?thesis
  proof (cases "tr_truncated ?t")
    case False
    moreover have "\<not> tr_firstLineExceedsLimit ?t"
      using False by (auto simp: truncateHead_def untruncated_def Let_def split: if_splits prod.splits)
    ultimately show ?thesis using page fits by (simp add: readNotice_def Let_def)
  next
    case True
    let ?n = "tr_outputLines ?t"
    note f = fits_head_truncated [OF truncateHead_fits True, unfolded default_limits]
    have sel: "?sel \<noteq> []" using f(1) by (cases "?sel = []") (simp_all add: splitLinesForCounting_def)
    have ls_rest: "?ls = ?rest \<or> ?ls = butlast ?rest" using ls sel by presburger
    have lsne: "?ls \<noteq> []" using sel by (rule lines_ne)
    then have "?ls ! 0 \<in> set ?ls" by simp
    with ls_rest have "?ls ! 0 \<in> set ?rest" by (metis in_set_butlastD)
    then have "?ls ! 0 \<in> set all" by (rule in_set_dropD)
    then have small: "bytes (?ls ! 0) \<le> 51200" using assms(3) by blast
    have exceeds: "\<not> tr_firstLineExceedsLimit ?t"
      using firstLineExceeds [of True ?sel defaultOptions] small by (simp add: linorder_not_less) blast
    have one: "take 1 ?ls = [?ls ! 0]" using lsne by (cases ?ls) simp_all
    have pos: "0 < ?n"
    proof (rule ccontr)
      assume "\<not> 0 < ?n"
      then have "?n = 0" by simp
      with f(6) lsne have "51200 < bytes (join [LF] (take 1 ?ls))" by simp
      with small one show False by simp
    qed
    have len: "length ?rest = length all - s" by simp
    have inside: "s + ?n < length all \<and> take ?n ?ls = take ?n ?rest"
    proof (cases "?ls = ?rest")
      case whole: True
      have "?n \<noteq> length ?ls"
      proof
        assume n: "?n = length ?ls"
        then have "bytes ?sel \<le> 51200" using f(5) whole by simp
        with f(1,3) n show False by simp
      qed
      with f(4) have "?n < length ?rest" using whole by simp
      with len have "s + ?n < length all" by linarith
      with whole show ?thesis by simp
    next
      case False
      with ls_rest have b: "?ls = butlast ?rest" by blast
      have "0 < length ?rest" using rest(1) by simp
      moreover have "?n \<le> length ?rest - 1" using f(4) unfolding b by simp
      ultimately have "?n < length ?rest" by linarith
      with len have lt: "s + ?n < length all" by linarith
      have "take ?n (butlast ?rest) = take ?n ?rest"
        using \<open>?n \<le> length ?rest - 1\<close> by (simp add: butlast_conv_take min_absorb1)
      with lt b show ?thesis by simp
    qed
    have "readNotice ?t all s None = ShowingLines (s + 1) (s + ?n) (length all)
        (if tr_truncatedBy ?t = Some LineLimit then LineLimit else ByteLimit)"
      using exceeds True by (simp add: readNotice_def Let_def)
    with page have "selectPage content (Some (int s + 1)) None = Inr (?t, ShowingLines (s + 1) (s + ?n) (length all)
        (if tr_truncatedBy ?t = Some LineLimit then LineLimit else ByteLimit))" by simp
    moreover have "tr_content ?t = join [LF] (take ?n ?rest)" using f(2) inside by simp
    ultimately show ?thesis using pos inside by blast
  qed
qed

lemma readPages_join:
  assumes "all = split_on LF content" "\<forall>l \<in> set all. bytes l \<le> 51200" "s < length all" "length all - s \<le> n"
  shows "readPages n content (int s + 1) \<noteq> [] \<and> join [LF] (readPages n content (int s + 1)) = join [LF] (drop s all)"
  using assms(3,4)
proof (induction n arbitrary: s)
  case (Suc n)
  from selectPage_step [OF Suc.prems(1) assms(1,2)] show ?case
  proof (elim disjE exE conjE)
    fix t assume "selectPage content (Some (int s + 1)) None = Inr (t, Complete)" "tr_content t = join [LF] (drop s all)"
    then show ?case by simp
  next
    fix t k kind
    assume p: "selectPage content (Some (int s + 1)) None = Inr (t, ShowingLines (s + 1) (s + k) (length all) kind)"
      "0 < k" "s + k < length all" "tr_content t = join [LF] (take k (drop s all))"
    have "length all - (s + k) \<le> n" using Suc.prems p(2) by linarith
    note rest = Suc.IH [OF p(3) this]
    have pages: "readPages (Suc n) content (int s + 1) = join [LF] (take k (drop s all)) # readPages n content (int (s + k) + 1)"
      using p by simp
    have "drop s all = take k (drop s all) @ drop (s + k) all"
      by (metis add.commute append_take_drop_id drop_drop)
    then have "join [LF] (drop s all) = join [LF] (take k (drop s all)) @ [LF] @ join [LF] (drop (s + k) all)"
      using p(2,3) by (subst \<open>drop s all = _\<close>, subst join_append) auto
    with rest pages show ?case by (simp add: join_Cons_ne)
  qed
qed auto

text \<open>The properties of the file tools: truncated outputs and files read page by page.\<close>

text \<open>
  C22. A truncated output keeps within both limits and loses nothing it could have kept. The head of a text
  is whole lines from its start, the tail whole lines up to its end or, when the last line alone is too
  long, whole characters from the end of that line; one more line (or character) would exceed a limit.
  A text within the limits is returned as it is.
\<close>

theorem truncation_limits:
  "fits_head s (maxLinesOf opts) (maxBytesOf opts) (truncateHead runtimeBuffer s opts) \<and>
   fits_tail s (maxLinesOf opts) (maxBytesOf opts) (truncateTail runtimeBuffer s opts)"
  by (simp add: truncateHead_fits truncateTail_fits)

text \<open>
  C23. A file can be read to its end by following the offsets the read tool names: unless a line exceeds the
  byte limit, at most as many calls as the file has lines end with a page that names no further offset,
  and the pages, one after the other, are the file.
\<close>

theorem read_pages_complete:
  assumes "\<forall>line \<in> set (split_on LF content). bytes line \<le> DEFAULT_MAX_BYTES"
  shows "join [LF] (readPages (length (split_on LF content)) content 1) = content"
proof -
  have "0 < length (split_on LF content)" by simp
  from readPages_join [OF refl _ this, of "length (split_on LF content)"] assms show ?thesis
    by (simp add: join_split_on DEFAULT_MAX_BYTES_def)
qed

theorem read_pages_complete_witness:
  "join [LF] (readPages (length (split_on LF (jstr ''a'' @ [LF, LF]))) (jstr ''a'' @ [LF, LF]) 1) = jstr ''a'' @ [LF, LF]"
  by (rule read_pages_complete) (simp add: jstr_def utf8_encode_def unit_scalar_def is_surrogate_def utf8_bytes_def DEFAULT_MAX_BYTES_def)

text \<open>
  When only the final line feed exceeds the byte limit, the result names the line limit, which was not hit.
\<close>

lemma truncated_by_the_wrong_limit:
  "let r = truncateHead True (jstr ''abc'' @ [LF]) \<lparr>to_maxLines = None, to_maxBytes = Some 3\<rparr> in
   tr_truncated r \<and> tr_truncatedBy r = Some LineLimit \<and> tr_totalLines r = 1 \<and> tr_totalBytes r = 4 \<and> tr_maxLines r = 2000"
  by (simp add: truncateHead_def maxLinesOf_def maxBytesOf_def DEFAULT_MAX_LINES_def splitLinesForCounting_def jstr_def
      utf8_encode_def unit_scalar_def is_surrogate_def utf8_bytes_def Let_def is_high_def)

end
