(* ===== verification/EditDiff.thy ===== *)
theory EditDiff
  imports JsString
begin

text \<open>
  Text edits (\<open>packages/agent/src/harness/tools/edit-diff.ts\<close>): the edits of one call are matched against
  the same content, exactly or in a normalized view of it, and applied from the last to the first.
  \<open>normalize("NFKC")\<close> needs the tables of Unicode and is the argument \<open>nfkc\<close>; positions are natural
  numbers and a missing position is \<open>None\<close>. The parts of a line diff come from the package \<open>diff\<close>.
\<close>

abbreviation CR :: code_unit where "CR \<equiv> 13"
abbreviation NL :: code_unit where "NL \<equiv> 10"

section \<open>Searching and splitting\<close>

fun indexOf :: "'a list \<Rightarrow> 'a list \<Rightarrow> nat option" where
  "indexOf p [] = (if p = [] then Some 0 else None)"
| "indexOf p (x # xs) = (if take (length p) (x # xs) = p then Some 0 else map_option Suc (indexOf p xs))"

lemma indexOf_bound: "indexOf p s = Some i \<Longrightarrow> i + length p \<le> length s"
proof (induction s arbitrary: i)
  case (Cons x s)
  then show ?case
    by (cases "take (length p) (x # s) = p") (auto dest: arg_cong [of "take _ _" _ length])
qed (auto split: if_splits)

text \<open>\<open>split\<close> at a text: at every code unit when the text is empty.\<close>

function splitBy :: "'a list \<Rightarrow> 'a list \<Rightarrow> 'a list list" where
  "splitBy p s =
     (if p = [] then map (\<lambda>u. [u]) s
      else (case indexOf p s of None \<Rightarrow> [s] | Some i \<Rightarrow> take i s # splitBy p (drop (i + length p) s)))"
  by pat_completeness auto
termination
  by (relation "measure (\<lambda>(p, s). length s)") (auto dest!: indexOf_bound simp flip: length_greater_0_conv)

declare splitBy.simps [simp del]

definition replaceAll :: "'a list \<Rightarrow> 'a list \<Rightarrow> 'a list \<Rightarrow> 'a list" where
  "replaceAll p r s = join r (splitBy p s)"

section \<open>Line endings\<close>

definition detectLineEnding :: "jsstr \<Rightarrow> jsstr" where
  "detectLineEnding s =
     (case indexOf [NL] s of None \<Rightarrow> [NL]
      | Some lf \<Rightarrow> (case indexOf [CR, NL] s of None \<Rightarrow> [NL] | Some crlf \<Rightarrow> if crlf < lf then [CR, NL] else [NL]))"

definition normalizeToLF :: "jsstr \<Rightarrow> jsstr" where
  "normalizeToLF s = replaceAll [CR] [NL] (replaceAll [CR, NL] [NL] s)"

definition restoreLineEndings :: "jsstr \<Rightarrow> jsstr \<Rightarrow> jsstr" where
  "restoreLineEndings s ending = (if ending = [CR, NL] then replaceAll [NL] [CR, NL] s else s)"

definition stripBom :: "jsstr \<Rightarrow> jsstr \<times> jsstr" where
  "stripBom s = (if s \<noteq> [] \<and> hd s = 0xFEFF then ([0xFEFF], tl s) else ([], s))"

section \<open>The normalized view\<close>

text \<open>\<open>trimEnd\<close>: the white space and line terminators of the language.\<close>

definition is_trimmed :: "code_unit \<Rightarrow> bool" where
  "is_trimmed u \<longleftrightarrow> (9 \<le> unat u \<and> unat u \<le> 13) \<or> u = 0x20 \<or> u = 0xA0 \<or> u = 0x1680 \<or> (0x2000 \<le> unat u \<and> unat u \<le> 0x200A) \<or>
     u = 0x2028 \<or> u = 0x2029 \<or> u = 0x202F \<or> u = 0x205F \<or> u = 0x3000 \<or> u = 0xFEFF"

definition trimEnd :: "jsstr \<Rightarrow> jsstr" where
  "trimEnd s = rev (dropWhile is_trimmed (rev s))"

definition plainUnit :: "code_unit \<Rightarrow> code_unit" where
  "plainUnit u =
     (if u = 0x2018 \<or> u = 0x2019 \<or> u = 0x201A \<or> u = 0x201B then 0x27
      else if u = 0x201C \<or> u = 0x201D \<or> u = 0x201E \<or> u = 0x201F then 0x22
      else if 0x2010 \<le> unat u \<and> unat u \<le> 0x2015 \<or> u = 0x2212 then 0x2D
      else if u = 0xA0 \<or> 0x2002 \<le> unat u \<and> unat u \<le> 0x200A \<or> u = 0x202F \<or> u = 0x205F \<or> u = 0x3000 then 0x20
      else u)"

definition normalizeForFuzzyMatch :: "(jsstr \<Rightarrow> jsstr) \<Rightarrow> jsstr \<Rightarrow> jsstr" where
  "normalizeForFuzzyMatch nfkc s = map plainUnit (join [NL] (map trimEnd (split_on NL (nfkc s))))"

section \<open>Replacements\<close>

record line_span =
  ls_start :: nat
  ls_end :: nat

record matched_edit =
  me_editIndex :: nat
  me_matchIndex :: nat
  me_matchLength :: nat
  me_newText :: jsstr

datatype edit_error =
    OutsideBase | LineCountDiffers
  | EmptyOldText nat | TextNotFound nat | DuplicateText nat nat | OverlappingEdits nat nat | NoChange

function splitLinesWithEndings :: "jsstr \<Rightarrow> jsstr list" where
  "splitLinesWithEndings s =
     (if s = [] then []
      else
        let line = takeWhile (\<lambda>u. u \<noteq> NL) s; r = dropWhile (\<lambda>u. u \<noteq> NL) s in
        if r = [] then [line] else (line @ [NL]) # splitLinesWithEndings (tl r))"
  by pat_completeness auto
termination
proof (relation "measure length", goal_cases)
  case (2 s line r)
  then have "length (tl r) < length r" by (cases r) auto
  moreover have "length r \<le> length s" using 2 by (simp add: length_dropWhile_le)
  ultimately show ?case by simp
qed simp

declare splitLinesWithEndings.simps [simp del]

fun spansFrom :: "nat \<Rightarrow> jsstr list \<Rightarrow> line_span list" where
  "spansFrom i [] = []"
| "spansFrom i (line # ls) = \<lparr>ls_start = i, ls_end = i + length line\<rparr> # spansFrom (i + length line) ls"

definition getLineSpans :: "jsstr \<Rightarrow> line_span list" where
  "getLineSpans s = spansFrom 0 (splitLinesWithEndings s)"

text \<open>The first line that holds a position, and the line in which a range that starts there ends.\<close>

fun lineAt :: "nat \<Rightarrow> line_span list \<Rightarrow> nat option" where
  "lineAt p [] = None"
| "lineAt p (l # ls) = (if p \<ge> ls_start l \<and> p < ls_end l then Some 0 else map_option Suc (lineAt p ls))"

fun endLineFrom :: "nat \<Rightarrow> line_span list \<Rightarrow> nat" where
  "endLineFrom e [] = 0"
| "endLineFrom e (l # ls) = (if ls_end l < e then Suc (endLineFrom e ls) else 0)"

definition getReplacementLineRange :: "line_span list \<Rightarrow> matched_edit \<Rightarrow> edit_error + nat \<times> nat" where
  "getReplacementLineRange ls r =
     (case lineAt (me_matchIndex r) ls of
        None \<Rightarrow> Inl OutsideBase
      | Some startLine \<Rightarrow>
          (let endLine = startLine + endLineFrom (me_matchIndex r + me_matchLength r) (drop startLine ls) in
           if endLine \<ge> length ls then Inl OutsideBase else Inr (startLine, endLine + 1)))"

definition applyReplacement :: "nat \<Rightarrow> matched_edit \<Rightarrow> jsstr \<Rightarrow> jsstr" where
  "applyReplacement offset r result =
     (let i = me_matchIndex r - offset in take i result @ me_newText r @ drop (i + me_matchLength r) result)"

definition applyReplacements :: "jsstr \<Rightarrow> matched_edit list \<Rightarrow> nat \<Rightarrow> jsstr" where
  "applyReplacements content rs offset = foldr (applyReplacement offset) rs content"

record edit_group =
  eg_startLine :: nat
  eg_endLine :: nat
  eg_replacements :: "matched_edit list"

text \<open>The groups, the current one last.\<close>

fun groupEdits :: "line_span list \<Rightarrow> matched_edit list \<Rightarrow> edit_group list \<Rightarrow> edit_error + edit_group list" where
  "groupEdits ls [] groups = Inr groups"
| "groupEdits ls (r # rs) groups =
     rbind (getReplacementLineRange ls r) (\<lambda>(s, e).
       if groups \<noteq> [] \<and> s < eg_endLine (last groups) then
         groupEdits ls rs (butlast groups @ [(last groups)\<lparr>eg_endLine := max (eg_endLine (last groups)) e,
           eg_replacements := eg_replacements (last groups) @ [r]\<rparr>])
       else groupEdits ls rs (groups @ [\<lparr>eg_startLine = s, eg_endLine = e, eg_replacements = [r]\<rparr>]))"

fun rewriteGroups :: "jsstr list \<Rightarrow> jsstr \<Rightarrow> line_span list \<Rightarrow> edit_group list \<Rightarrow> nat \<Rightarrow> jsstr" where
  "rewriteGroups originalLines base ls [] i = concat (drop i originalLines)"
| "rewriteGroups originalLines base ls (g # gs) i =
     (let groupStart = ls_start (ls ! eg_startLine g); groupEnd = ls_end (ls ! (eg_endLine g - 1)) in
      concat (drop i (take (eg_startLine g) originalLines))
      @ applyReplacements (drop groupStart (take groupEnd base)) (eg_replacements g) groupStart
      @ rewriteGroups originalLines base ls gs (eg_endLine g))"

definition applyReplacementsPreservingUnchangedLines :: "jsstr \<Rightarrow> jsstr \<Rightarrow> matched_edit list \<Rightarrow> edit_error + jsstr" where
  "applyReplacementsPreservingUnchangedLines original base rs =
     (let originalLines = splitLinesWithEndings original; baseLines = getLineSpans base in
      if length originalLines \<noteq> length baseLines then Inl LineCountDiffers
      else rbind (groupEdits baseLines (sort_key me_matchIndex rs) [])
        (\<lambda>groups. Inr (rewriteGroups originalLines base baseLines groups 0)))"

section \<open>Matching\<close>

record fuzzy_match =
  fm_index :: "nat option"
  fm_matchLength :: nat
  fm_usedFuzzyMatch :: bool
  fm_contentForReplacement :: jsstr

record edit =
  ed_oldText :: jsstr
  ed_newText :: jsstr

definition fuzzyFindText :: "(jsstr \<Rightarrow> jsstr) \<Rightarrow> jsstr \<Rightarrow> jsstr \<Rightarrow> fuzzy_match" where
  "fuzzyFindText nfkc content oldText =
     (case indexOf oldText content of
        Some i \<Rightarrow> \<lparr>fm_index = Some i, fm_matchLength = length oldText, fm_usedFuzzyMatch = False, fm_contentForReplacement = content\<rparr>
      | None \<Rightarrow>
          (let fuzzyContent = normalizeForFuzzyMatch nfkc content; fuzzyOldText = normalizeForFuzzyMatch nfkc oldText in
           case indexOf fuzzyOldText fuzzyContent of
             None \<Rightarrow> \<lparr>fm_index = None, fm_matchLength = 0, fm_usedFuzzyMatch = False, fm_contentForReplacement = content\<rparr>
           | Some i \<Rightarrow> \<lparr>fm_index = Some i, fm_matchLength = length fuzzyOldText, fm_usedFuzzyMatch = True,
               fm_contentForReplacement = fuzzyContent\<rparr>))"

definition countOccurrences :: "(jsstr \<Rightarrow> jsstr) \<Rightarrow> jsstr \<Rightarrow> jsstr \<Rightarrow> nat" where
  "countOccurrences nfkc content oldText =
     length (splitBy (normalizeForFuzzyMatch nfkc oldText) (normalizeForFuzzyMatch nfkc content)) - 1"

definition normalizeEdit :: "edit \<Rightarrow> edit" where
  "normalizeEdit e = \<lparr>ed_oldText = normalizeToLF (ed_oldText e), ed_newText = normalizeToLF (ed_newText e)\<rparr>"

fun checkOldTexts :: "nat \<Rightarrow> edit list \<Rightarrow> edit_error + unit" where
  "checkOldTexts i [] = Inr ()"
| "checkOldTexts i (e # es) = (if ed_oldText e = [] then Inl (EmptyOldText i) else checkOldTexts (i + 1) es)"

fun matchEdits :: "(jsstr \<Rightarrow> jsstr) \<Rightarrow> jsstr \<Rightarrow> nat \<Rightarrow> edit list \<Rightarrow> edit_error + matched_edit list" where
  "matchEdits nfkc base i [] = Inr []"
| "matchEdits nfkc base i (e # es) =
     (let m = fuzzyFindText nfkc base (ed_oldText e) in
      case fm_index m of
        None \<Rightarrow> Inl (TextNotFound i)
      | Some k \<Rightarrow>
          (let occurrences = countOccurrences nfkc base (ed_oldText e) in
           if occurrences > 1 then Inl (DuplicateText i occurrences)
           else rbind (matchEdits nfkc base (i + 1) es) (\<lambda>ms. Inr
             (\<lparr>me_editIndex = i, me_matchIndex = k, me_matchLength = fm_matchLength m, me_newText = ed_newText e\<rparr> # ms))))"

fun checkOverlaps :: "matched_edit list \<Rightarrow> edit_error + unit" where
  "checkOverlaps (a # b # ms) =
     (if me_matchIndex a + me_matchLength a > me_matchIndex b then Inl (OverlappingEdits (me_editIndex a) (me_editIndex b))
      else checkOverlaps (b # ms))"
| "checkOverlaps _ = Inr ()"

definition applyEditsToNormalizedContent :: "(jsstr \<Rightarrow> jsstr) \<Rightarrow> jsstr \<Rightarrow> edit list \<Rightarrow> edit_error + jsstr \<times> jsstr" where
  "applyEditsToNormalizedContent nfkc content edits =
     (let normalizedEdits = map normalizeEdit edits in
      rbind (checkOldTexts 0 normalizedEdits) (\<lambda>_.
      let usedFuzzyMatch = list_ex (\<lambda>e. fm_usedFuzzyMatch (fuzzyFindText nfkc content (ed_oldText e))) normalizedEdits;
          base = (if usedFuzzyMatch then normalizeForFuzzyMatch nfkc content else content) in
      rbind (matchEdits nfkc base 0 normalizedEdits) (\<lambda>matched.
      let matchedEdits = sort_key me_matchIndex matched in
      rbind (checkOverlaps matchedEdits) (\<lambda>_.
      rbind (if usedFuzzyMatch then applyReplacementsPreservingUnchangedLines content base matchedEdits
             else Inr (applyReplacements base matchedEdits 0)) (\<lambda>newContent.
      if content = newContent then Inl NoChange else Inr (content, newContent))))))"

end
