(* ===== verification/EditProps.thy ===== *)
theory EditProps
  imports EditDiff "HOL-Library.Multiset"
begin

text \<open>
  What an edit does to a text. \<open>replaced es s t\<close>: the text \<open>t\<close> is \<open>s\<close> with disjoint occurrences replaced,
  in the order of \<open>es\<close>, and nothing else changed. \<open>rewritten es os bs t\<close>: the lines of \<open>os\<close> are kept but
  for groups of lines in which the edits replace parts of the corresponding lines of \<open>bs\<close>.
\<close>

inductive replaced :: "(jsstr \<times> jsstr) list \<Rightarrow> jsstr \<Rightarrow> jsstr \<Rightarrow> bool" where
  replaced_none: "replaced [] s s"
| replaced_next: "replaced es a b \<Longrightarrow> replaced ((old, new) # es) (g @ old @ a) (g @ new @ b)"

inductive rewritten :: "(jsstr \<times> jsstr) list \<Rightarrow> jsstr list \<Rightarrow> jsstr list \<Rightarrow> jsstr \<Rightarrow> bool" where
  rewritten_none: "length os = length bs \<Longrightarrow> rewritten [] os bs (concat os)"
| rewritten_next: "rewritten es os bs t \<Longrightarrow> length ks = length kb \<Longrightarrow> length gs = length gb \<Longrightarrow>
    replaced ges (concat gb) u \<Longrightarrow> rewritten (ges @ es) (ks @ gs @ os) (kb @ gb @ bs) (concat ks @ u @ t)"

section \<open>Replacements that do not overlap\<close>

definition apart :: "matched_edit \<Rightarrow> matched_edit \<Rightarrow> bool" where
  "apart a b \<longleftrightarrow> me_matchIndex a + me_matchLength a \<le> me_matchIndex b"

definition within :: "nat \<Rightarrow> nat \<Rightarrow> matched_edit \<Rightarrow> bool" where
  "within lo hi m \<longleftrightarrow> lo \<le> me_matchIndex m \<and> me_matchIndex m + me_matchLength m \<le> hi"

definition textAt :: "jsstr \<Rightarrow> nat \<Rightarrow> matched_edit \<Rightarrow> jsstr \<times> jsstr" where
  "textAt c offset m = (take (me_matchLength m) (drop (me_matchIndex m - offset) c), me_newText m)"

lemma applyReplacement_shift:
  "offset + length p \<le> me_matchIndex r \<Longrightarrow>
    applyReplacement offset r (p @ x) = p @ applyReplacement (offset + length p) r x"
  by (simp add: applyReplacement_def Let_def)

lemma applyReplacements_shift:
  "\<forall>r \<in> set rs. offset + length p \<le> me_matchIndex r \<Longrightarrow>
    applyReplacements (p @ x) rs offset = p @ applyReplacements x rs (offset + length p)"
  by (induction rs) (simp_all add: applyReplacements_def applyReplacement_shift)

lemma applyReplacements_replaced:
  assumes "sorted_wrt apart ms" "\<forall>m \<in> set ms. within offset (offset + length c) m"
  shows "replaced (map (textAt c offset) ms) c (applyReplacements c ms offset)"
  using assms
proof (induction ms arbitrary: c offset)
  case Nil then show ?case by (simp add: applyReplacements_def replaced_none)
next
  case (Cons m ms)
  let ?i = "me_matchIndex m - offset" and ?n = "me_matchLength m"
  let ?g = "take ?i c" and ?old = "take ?n (drop ?i c)" and ?a = "drop (?i + ?n) c"
  have m: "offset \<le> me_matchIndex m" "?i + ?n \<le> length c" using Cons.prems(2) by (auto simp: within_def)
  have c: "c = (?g @ ?old) @ ?a" by (simp add: add.commute flip: drop_drop)
  have len: "length (?g @ ?old) = ?i + ?n" "length ?g = ?i" using m(2) by simp_all
  have later: "\<forall>r \<in> set ms. offset + (?i + ?n) \<le> me_matchIndex r" using Cons.prems(1) m(1) by (auto simp: apart_def)
  have rest: "applyReplacements c ms offset = ?g @ ?old @ applyReplacements ?a ms (offset + (?i + ?n))"
    by (subst c) (use applyReplacements_shift [of ms offset "?g @ ?old" ?a] len later in simp)
  have step: "applyReplacements c (m # ms) offset = ?g @ me_newText m @ applyReplacements ?a ms (offset + (?i + ?n))"
  proof -
    have "applyReplacements c (m # ms) offset = applyReplacement offset m (applyReplacements c ms offset)"
      by (simp add: applyReplacements_def)
    then show ?thesis using m(2) by (simp add: rest applyReplacement_def Let_def min_absorb1)
  qed
  have "\<forall>r \<in> set ms. within (offset + (?i + ?n)) (offset + (?i + ?n) + length ?a) r"
    using Cons.prems(2) later m(2) by (auto simp: within_def)
  with Cons.IH Cons.prems(1) have "replaced (map (textAt ?a (offset + (?i + ?n))) ms) ?a (applyReplacements ?a ms (offset + (?i + ?n)))"
    by simp
  moreover have "map (textAt ?a (offset + (?i + ?n))) ms = map (textAt c offset) ms"
  proof (rule map_cong [OF refl])
    fix r assume "r \<in> set ms"
    with later have "offset + (?i + ?n) \<le> me_matchIndex r" by blast
    then have "(?i + ?n) + (me_matchIndex r - (offset + (?i + ?n))) = me_matchIndex r - offset" by linarith
    then show "textAt ?a (offset + (?i + ?n)) r = textAt c offset r" by (simp only: textAt_def drop_drop add.commute)
  qed
  ultimately have "replaced (map (textAt c offset) ms) ?a (applyReplacements ?a ms (offset + (?i + ?n)))" by simp
  from replaced_next [OF this, of ?old "me_newText m" ?g] show ?case
    using step c by (simp add: textAt_def [of c offset m])
qed

section \<open>Matches\<close>

lemma indexOf_Some: "indexOf p s = Some i \<Longrightarrow> take (length p) (drop i s) = p"
  by (induction s arbitrary: i) (auto split: if_splits)

lemma indexOf_None: "indexOf p s = None \<Longrightarrow> take (length p) (drop i s) \<noteq> p"
proof (induction s arbitrary: i)
  case (Cons x s) then show ?case by (cases i) (auto split: if_splits)
qed (auto split: if_splits)

lemma checkOverlaps_apart: "checkOverlaps ms = Inr () \<Longrightarrow> sorted_wrt apart ms"
proof (induction ms rule: checkOverlaps.induct)
  case (1 a b ms)
  from 1 have ab: "apart a b" by (auto simp: apart_def split: if_splits)
  from 1 have rest: "sorted_wrt apart (b # ms)" by (simp split: if_splits)
  with ab have "\<forall>m \<in> set ms. apart a m" by (fastforce simp: apart_def)
  with ab rest show ?case by simp
qed simp_all

text \<open>What a match in \<open>base\<close> replaces: the old text, or its normalized form.\<close>

definition matches :: "(jsstr \<Rightarrow> jsstr) \<Rightarrow> jsstr \<Rightarrow> edit \<Rightarrow> jsstr \<times> jsstr \<Rightarrow> bool" where
  "matches nfkc base e p \<longleftrightarrow> snd p = ed_newText e \<and>
     (if indexOf (ed_oldText e) base = None then fst p = normalizeForFuzzyMatch nfkc (ed_oldText e) else fst p = ed_oldText e)"

lemma matchEdits_spec:
  assumes "matchEdits nfkc base i es = Inr ms"
    "normalizeForFuzzyMatch nfkc base = base \<or> (\<forall>e \<in> set es. indexOf (ed_oldText e) base \<noteq> None)"
  shows "list_all2 (matches nfkc base) es (map (textAt base 0) ms) \<and> (\<forall>m \<in> set ms. within 0 (length base) m)"
  using assms
proof (induction es arbitrary: i ms)
  case (Cons e es)
  obtain k ms' where k: "fm_index (fuzzyFindText nfkc base (ed_oldText e)) = Some k"
    and rec: "matchEdits nfkc base (i + 1) es = Inr ms'"
    and ms: "ms = \<lparr>me_editIndex = i, me_matchIndex = k, me_matchLength = fm_matchLength (fuzzyFindText nfkc base (ed_oldText e)),
      me_newText = ed_newText e\<rparr> # ms'"
    using Cons.prems(1) by (auto simp: Let_def split: option.splits if_splits)
  have "list_all2 (matches nfkc base) es (map (textAt base 0) ms') \<and> (\<forall>m \<in> set ms'. within 0 (length base) m)"
    using Cons.IH [OF rec] Cons.prems(2) by auto
  moreover have "matches nfkc base e (textAt base 0 (hd ms)) \<and> within 0 (length base) (hd ms)"
  proof (cases "indexOf (ed_oldText e) base")
    case (Some j)
    with k have "k = j" by (simp add: fuzzyFindText_def)
    with Some indexOf_Some [OF Some] indexOf_bound [OF Some] show ?thesis
      by (simp add: ms matches_def textAt_def within_def fuzzyFindText_def)
  next
    case None
    with Cons.prems(2) have base: "normalizeForFuzzyMatch nfkc base = base" by auto
    with None k have j: "indexOf (normalizeForFuzzyMatch nfkc (ed_oldText e)) base = Some k"
      by (auto simp: fuzzyFindText_def Let_def split: option.splits)
    with None base indexOf_Some [OF j] indexOf_bound [OF j] show ?thesis
      by (simp add: ms matches_def textAt_def within_def fuzzyFindText_def Let_def)
  qed
  ultimately show ?case by (simp add: ms)
qed simp

text \<open>What a successful call has gone through.\<close>

lemma applyEdits_cases:
  assumes "applyEditsToNormalizedContent nfkc content edits = Inr (base, new)"
  obtains (exact) matched where
      "\<forall>e \<in> set (map normalizeEdit edits). indexOf (ed_oldText e) content \<noteq> None" "base = content" "content \<noteq> new"
      "matchEdits nfkc content 0 (map normalizeEdit edits) = Inr matched" "sorted_wrt apart (sort_key me_matchIndex matched)"
      "new = applyReplacements content (sort_key me_matchIndex matched) 0"
    | (fuzzy) matched where
      "\<not> (\<forall>e \<in> set (map normalizeEdit edits). indexOf (ed_oldText e) content \<noteq> None)" "base = content" "content \<noteq> new"
      "matchEdits nfkc (normalizeForFuzzyMatch nfkc content) 0 (map normalizeEdit edits) = Inr matched"
      "sorted_wrt apart (sort_key me_matchIndex matched)"
      "applyReplacementsPreservingUnchangedLines content (normalizeForFuzzyMatch nfkc content) (sort_key me_matchIndex matched) = Inr new"
proof -
  let ?es = "map normalizeEdit edits"
  let ?fuzzy = "list_ex (\<lambda>e. fm_usedFuzzyMatch (fuzzyFindText nfkc content (ed_oldText e))) ?es"
  let ?base = "if ?fuzzy then normalizeForFuzzyMatch nfkc content else content"
  obtain matched where m: "matchEdits nfkc ?base 0 ?es = Inr matched" "checkOverlaps (sort_key me_matchIndex matched) = Inr ()"
    "(if ?fuzzy then applyReplacementsPreservingUnchangedLines content ?base (sort_key me_matchIndex matched)
      else Inr (applyReplacements ?base (sort_key me_matchIndex matched) 0)) = Inr new" "base = content" "content \<noteq> new"
    using assms unfolding applyEditsToNormalizedContent_def Let_def rbind_eq_Inr
    by (elim exE conjE) (auto split: if_splits)
  note ap = checkOverlaps_apart [OF m(2)]
  have used: "fm_usedFuzzyMatch (fuzzyFindText nfkc content t) \<Longrightarrow> indexOf t content = None" for t
    by (auto simp: fuzzyFindText_def split: option.splits)
  show thesis
  proof (cases ?fuzzy)
    case True
    then have "\<not> (\<forall>e \<in> set ?es. indexOf (ed_oldText e) content \<noteq> None)" using used by (auto simp: list_ex_iff)
    with True m ap show thesis by (intro fuzzy) simp_all
  next
    case False
    have "indexOf (ed_oldText e) content \<noteq> None" if "e \<in> set ?es" for e
    proof -
      have found: "\<exists>k. fm_index (fuzzyFindText nfkc content (ed_oldText e)) = Some k"
        if "matchEdits nfkc content i es = Inr ms" "e \<in> set es" for i es ms
        using that by (induction es arbitrary: i ms) (auto simp: Let_def split: option.splits if_splits)
      from found [of 0 ?es] m(1) False \<open>e \<in> set ?es\<close>
      obtain k where "fm_index (fuzzyFindText nfkc content (ed_oldText e)) = Some k" by auto
      moreover have "\<not> fm_usedFuzzyMatch (fuzzyFindText nfkc content (ed_oldText e))"
        using False \<open>e \<in> set ?es\<close> by (auto simp: list_ex_iff)
      ultimately show ?thesis by (auto simp: fuzzyFindText_def Let_def split: option.splits)
    qed
    with False m ap show thesis by (intro exact) (simp_all, blast?)
  qed
qed

lemma exact_edits:
  assumes "applyEditsToNormalizedContent nfkc content edits = Inr (base, new)"
    "\<forall>e \<in> set edits. indexOf (normalizeToLF (ed_oldText e)) content \<noteq> None"
  shows "\<exists>es. mset es = mset (map (\<lambda>e. (normalizeToLF (ed_oldText e), normalizeToLF (ed_newText e))) edits) \<and>
    replaced es content new"
  using assms(1)
proof (cases rule: applyEdits_cases)
  case (exact matched)
  note m = matchEdits_spec [OF exact(4) disjI2 [OF exact(1)]]
  let ?ps = "\<lambda>ms. map (textAt content 0) ms"
  have "replaced (?ps (sort_key me_matchIndex matched)) content new"
    unfolding exact(6) using exact(5) m by (intro applyReplacements_replaced) auto
  moreover have "mset (?ps (sort_key me_matchIndex matched)) = mset (?ps matched)" by simp
  moreover have "?ps matched = map (\<lambda>e. (normalizeToLF (ed_oldText e), normalizeToLF (ed_newText e))) edits"
  proof (rule nth_equalityI)
    show "length (?ps matched) = length (map (\<lambda>e. (normalizeToLF (ed_oldText e), normalizeToLF (ed_newText e))) edits)"
      using m by (auto dest: list_all2_lengthD)
    fix i assume "i < length (?ps matched)"
    moreover have "length edits = length matched" using m by (auto dest: list_all2_lengthD)
    ultimately have i: "i < length edits" "i < length matched" by simp_all
    then have "matches nfkc content (normalizeEdit (edits ! i)) (?ps matched ! i)"
      using list_all2_nthD [OF conjunct1 [OF m], of i] by simp
    with i exact(1) show "?ps matched ! i = map (\<lambda>e. (normalizeToLF (ed_oldText e), normalizeToLF (ed_newText e))) edits ! i"
      by (auto simp: matches_def normalizeEdit_def prod_eq_iff split: if_splits)
  qed
  ultimately show ?thesis by metis
next
  case (fuzzy matched)
  with assms(2) show ?thesis by (auto simp: normalizeEdit_def)
qed

section \<open>Lines\<close>

lemma splitLines_Nil [simp]: "splitLinesWithEndings [] = []"
  by (simp add: splitLinesWithEndings.simps)

lemma concat_lines: "concat (splitLinesWithEndings s) = s"
proof (induction s rule: splitLinesWithEndings.induct)
  case (1 s)
  let ?line = "takeWhile (\<lambda>u. u \<noteq> NL) s" and ?r = "dropWhile (\<lambda>u. u \<noteq> NL) s"
  show ?case
  proof (cases "s = [] \<or> ?r = []")
    case True
    moreover have "?r = [] \<Longrightarrow> ?line = s" by (metis append_Nil2 takeWhile_dropWhile_id)
    ultimately show ?thesis by (cases "s = []") (simp_all add: splitLinesWithEndings.simps [of s] Let_def)
  next
    case False
    then have r: "?r = NL # tl ?r" using hd_dropWhile [of "\<lambda>u. u \<noteq> NL" s] by (cases ?r) auto
    have "concat (splitLinesWithEndings (tl ?r)) = tl ?r" using "1.IH" False by blast
    then have "concat (splitLinesWithEndings s) = ?line @ NL # tl ?r"
      using False by (simp add: splitLinesWithEndings.simps [of s] Let_def)
    then show ?thesis using r by (metis takeWhile_dropWhile_id)
  qed
qed

definition lineStart :: "jsstr list \<Rightarrow> nat \<Rightarrow> nat" where
  "lineStart ls k = length (concat (take k ls))"

lemma lineStart_mono: "j \<le> k \<Longrightarrow> lineStart ls j \<le> lineStart ls k"
  by (metis le_add1 le_Suc_ex length_append concat_append take_add lineStart_def)

lemma length_spansFrom [simp]: "length (spansFrom i ls) = length ls"
  by (induction ls arbitrary: i) auto

lemma nth_spansFrom:
  "k < length ls \<Longrightarrow> ls_start (spansFrom i ls ! k) = i + lineStart ls k \<and> ls_end (spansFrom i ls ! k) = i + lineStart ls (Suc k)"
proof (induction ls arbitrary: i k)
  case (Cons l ls) then show ?case by (cases k) (auto simp: lineStart_def)
qed simp

lemma slice_lines:
  assumes "j \<le> k"
  shows "drop (lineStart ls j) (take (lineStart ls k) (concat ls)) = concat (drop j (take k ls))"
proof -
  have t: "take (lineStart ls k) (concat ls) = concat (take k ls)"
    by (metis append_take_drop_id append_eq_conv_conj concat_append lineStart_def)
  have "concat (take k ls) = concat (take j ls) @ concat (drop j (take k ls))"
    using assms by (metis append_take_drop_id concat_append min.absorb1 take_take)
  then show ?thesis unfolding t by (simp add: lineStart_def)
qed

lemma lineAt_Some: "lineAt p ls = Some k \<Longrightarrow> k < length ls \<and> ls_start (ls ! k) \<le> p \<and> p < ls_end (ls ! k)"
  by (induction ls arbitrary: k) (auto split: if_splits)

lemma endLineFrom_bound: "endLineFrom e ls < length ls \<Longrightarrow> e \<le> ls_end (ls ! endLineFrom e ls)"
  by (induction ls) (auto split: if_splits)

definition covers :: "jsstr list \<Rightarrow> nat \<Rightarrow> nat \<Rightarrow> matched_edit \<Rightarrow> bool" where
  "covers ls s e r \<longleftrightarrow> within (lineStart ls s) (lineStart ls e) r"

lemma replacement_range:
  assumes "getReplacementLineRange (spansFrom 0 ls) r = Inr (s, e)"
  shows "s < e \<and> e \<le> length ls \<and> covers ls s e r"
proof -
  let ?sp = "spansFrom 0 ls"
  from assms obtain k where k: "lineAt (me_matchIndex r) ?sp = Some s"
    and e: "e = s + endLineFrom (me_matchIndex r + me_matchLength r) (drop s ?sp) + 1" "e \<le> length ls"
    by (auto simp: getReplacementLineRange_def Let_def split: option.splits if_splits)
  let ?j = "endLineFrom (me_matchIndex r + me_matchLength r) (drop s ?sp)"
  have "?j < length (drop s ?sp)" using e by simp
  from endLineFrom_bound [OF this] have "me_matchIndex r + me_matchLength r \<le> ls_end (?sp ! (s + ?j))"
    using e lineAt_Some [OF k] by simp
  with e lineAt_Some [OF k] show ?thesis
    using nth_spansFrom [of s ls 0] nth_spansFrom [of "s + ?j" ls 0] by (simp add: covers_def within_def)
qed

section \<open>Groups of lines\<close>

definition group_ok :: "jsstr list \<Rightarrow> edit_group \<Rightarrow> bool" where
  "group_ok ls g \<longleftrightarrow> eg_startLine g < eg_endLine g \<and> eg_endLine g \<le> length ls \<and> eg_replacements g \<noteq> [] \<and>
     (\<forall>r \<in> set (eg_replacements g). covers ls (eg_startLine g) (eg_endLine g) r)"

definition groups_ok :: "jsstr list \<Rightarrow> edit_group list \<Rightarrow> bool" where
  "groups_ok ls gs \<longleftrightarrow> list_all (group_ok ls) gs \<and> sorted_wrt (\<lambda>g h. eg_endLine g \<le> eg_startLine h) gs"

lemma covers_widen: "covers ls s e r \<Longrightarrow> s' \<le> s \<Longrightarrow> e \<le> e' \<Longrightarrow> covers ls s' e' r"
  using lineStart_mono [of s' s ls] lineStart_mono [of e e' ls] by (auto simp: covers_def within_def)

lemma groups_ok_snoc:
  "groups_ok ls (gs @ [g]) \<longleftrightarrow> groups_ok ls gs \<and> group_ok ls g \<and> (\<forall>h \<in> set gs. eg_endLine h \<le> eg_startLine g)"
  by (auto simp: groups_ok_def sorted_wrt_append)

lemma groupEdits_spec:
  assumes "groupEdits (spansFrom 0 ls) rs gs = Inr out" "groups_ok ls gs"
    "sorted_wrt apart (concat (map eg_replacements gs) @ rs)"
  shows "groups_ok ls out \<and> concat (map eg_replacements out) = concat (map eg_replacements gs) @ rs"
  using assms
proof (induction rs arbitrary: gs)
  case (Cons r rs)
  from Cons.prems(1) obtain s e where se: "getReplacementLineRange (spansFrom 0 ls) r = Inr (s, e)" by auto
  note range = replacement_range [OF se]
  show ?case
  proof (cases "gs \<noteq> [] \<and> s < eg_endLine (last gs)")
    case True
    then obtain hs h where gs: "gs = hs @ [h]" by (metis append_butlast_last_id)
    let ?h = "h\<lparr>eg_endLine := max (eg_endLine h) e, eg_replacements := eg_replacements h @ [r]\<rparr>"
    have h: "group_ok ls h" "groups_ok ls hs" "\<forall>g \<in> set hs. eg_endLine g \<le> eg_startLine h"
      using Cons.prems(2) by (simp_all add: gs groups_ok_snoc)
    obtain q where q: "q \<in> set (eg_replacements h)" using h(1) by (cases "eg_replacements h") (auto simp: group_ok_def)
    have "apart q r" using Cons.prems(3) q by (auto simp: gs sorted_wrt_append)
    moreover have "covers ls (eg_startLine h) (eg_endLine h) q" using h(1) q by (auto simp: group_ok_def)
    ultimately have "covers ls (eg_startLine h) (max (eg_endLine h) e) r"
      using range lineStart_mono [of e "max (eg_endLine h) e" ls] by (auto simp: covers_def within_def apart_def)
    moreover have "covers ls (eg_startLine h) (max (eg_endLine h) e) p" if "p \<in> set (eg_replacements h)" for p
      using that h(1) covers_widen [of ls "eg_startLine h" "eg_endLine h" p] by (auto simp: group_ok_def)
    ultimately have ok: "group_ok ls ?h" using h(1) range by (auto simp: group_ok_def)
    with h(2,3) have "groups_ok ls (hs @ [?h])" by (simp add: groups_ok_snoc)
    moreover have "groupEdits (spansFrom 0 ls) rs (hs @ [?h]) = Inr out" using Cons.prems(1) True se by (simp add: gs)
    ultimately show ?thesis using Cons.IH [of "hs @ [?h]"] Cons.prems(3) by (simp add: gs)
  next
    case False
    let ?g = "\<lparr>eg_startLine = s, eg_endLine = e, eg_replacements = [r]\<rparr>"
    have rec: "groupEdits (spansFrom 0 ls) rs (gs @ [?g]) = Inr out" using Cons.prems(1) False se by auto
    have "group_ok ls ?g" using range by (simp add: group_ok_def)
    moreover have "\<forall>h \<in> set gs. eg_endLine h \<le> s"
    proof (cases gs rule: rev_cases)
      case (snoc hs h)
      with False have "eg_endLine h \<le> s" by simp
      moreover have "eg_endLine g \<le> eg_startLine h" "eg_startLine h < eg_endLine h" if "g \<in> set hs" for g
        using Cons.prems(2) that by (auto simp: snoc groups_ok_snoc group_ok_def)
      ultimately show ?thesis using snoc by fastforce
    qed simp
    ultimately have "groups_ok ls (gs @ [?g])" using Cons.prems(2) by (simp add: groups_ok_snoc)
    from Cons.IH [OF rec this] Cons.prems(3) show ?thesis by simp
  qed
qed simp

lemma take_of_slice: "m + n \<le> b \<Longrightarrow> take n (drop m (take b c)) = take n (drop m c)"
  by (simp add: drop_take min_absorb1)

lemma rewriteGroups_rewritten:
  assumes "groups_ok ls gs" "\<forall>g \<in> set gs. i \<le> eg_startLine g" "length os = length ls"
    "sorted_wrt apart (concat (map eg_replacements gs))"
  shows "rewritten (map (textAt (concat ls) 0) (concat (map eg_replacements gs))) (drop i os) (drop i ls)
    (rewriteGroups os (concat ls) (spansFrom 0 ls) gs i)"
  using assms
proof (induction gs arbitrary: i)
  case Nil
  then show ?case by (simp add: rewritten_none)
next
  case (Cons g gs)
  let ?s = "eg_startLine g" and ?e = "eg_endLine g" and ?rs = "eg_replacements g"
  have g: "group_ok ls g" "groups_ok ls gs" "\<forall>h \<in> set gs. ?e \<le> eg_startLine h" "i \<le> ?s" "?s < ?e" "?e \<le> length ls"
    using Cons.prems(1,2) by (auto simp: groups_ok_def group_ok_def)
  let ?slice = "concat (drop ?s (take ?e ls))"
  have spans: "ls_start (spansFrom 0 ls ! ?s) = lineStart ls ?s" "ls_end (spansFrom 0 ls ! (?e - 1)) = lineStart ls ?e"
    using nth_spansFrom [of ?s ls 0] nth_spansFrom [of "?e - 1" ls 0] g(5,6) by simp_all
  have slice: "drop (lineStart ls ?s) (take (lineStart ls ?e) (concat ls)) = ?slice"
    using g(5) by (intro slice_lines) simp
  have len: "lineStart ls ?s + length ?slice = lineStart ls ?e"
    using lineStart_mono [of ?s ?e ls] lineStart_mono [of ?e "length ls" ls] g(5,6)
    by (simp flip: slice) (simp add: lineStart_def)
  have cover: "\<forall>r \<in> set ?rs. within (lineStart ls ?s) (lineStart ls ?s + length ?slice) r"
    using g(1) unfolding len by (simp add: group_ok_def covers_def)
  have "replaced (map (textAt ?slice (lineStart ls ?s)) ?rs) ?slice (applyReplacements ?slice ?rs (lineStart ls ?s))"
    using Cons.prems(4) cover by (intro applyReplacements_replaced) (simp_all add: sorted_wrt_append)
  moreover have "map (textAt ?slice (lineStart ls ?s)) ?rs = map (textAt (concat ls) 0) ?rs"
  proof (rule map_cong [OF refl])
    fix r assume "r \<in> set ?rs"
    with cover len have "lineStart ls ?s \<le> me_matchIndex r" "me_matchIndex r + me_matchLength r \<le> lineStart ls ?e"
      by (auto simp: within_def)
    then show "textAt ?slice (lineStart ls ?s) r = textAt (concat ls) 0 r"
      unfolding textAt_def slice [symmetric] by (simp add: take_of_slice)
  qed
  ultimately have r: "replaced (map (textAt (concat ls) 0) ?rs) ?slice (applyReplacements ?slice ?rs (lineStart ls ?s))" by simp
  have ih: "rewritten (map (textAt (concat ls) 0) (concat (map eg_replacements gs))) (drop ?e os) (drop ?e ls)
      (rewriteGroups os (concat ls) (spansFrom 0 ls) gs ?e)"
    using Cons.IH [OF g(2,3) Cons.prems(3)] Cons.prems(4) by (simp add: sorted_wrt_append)
  have parts: "drop i xs = drop i (take ?s xs) @ drop ?s (take ?e xs) @ drop ?e xs" for xs :: "jsstr list"
  proof -
    have "take ?e xs = take ?s xs @ drop ?s (take ?e xs)"
      using g(5) by (metis append_take_drop_id min.absorb1 less_imp_le_nat take_take)
    then have x: "xs = take ?s xs @ drop ?s (take ?e xs) @ drop ?e xs" by (metis append.assoc append_take_drop_id)
    show ?thesis
    proof (cases "length xs \<le> ?s")
      case True with g(5) show ?thesis by simp
    next
      case False
      with g(4) show ?thesis by (subst (1) x) (simp add: min_absorb2)
    qed
  qed
  have "rewritten (map (textAt (concat ls) 0) ?rs @ map (textAt (concat ls) 0) (concat (map eg_replacements gs)))
      (drop i (take ?s os) @ drop ?s (take ?e os) @ drop ?e os) (drop i (take ?s ls) @ drop ?s (take ?e ls) @ drop ?e ls)
      (concat (drop i (take ?s os)) @ applyReplacements ?slice ?rs (lineStart ls ?s) @
       rewriteGroups os (concat ls) (spansFrom 0 ls) gs ?e)"
    by (rule rewritten_next [OF ih _ _ r]) (simp_all add: Cons.prems(3))
  then show ?case using spans by (simp add: slice Let_def flip: parts)
qed

lemma fuzzy_edits:
  assumes "applyEditsToNormalizedContent nfkc content edits = Inr (base, new)"
    "\<not> (\<forall>e \<in> set edits. indexOf (normalizeToLF (ed_oldText e)) content \<noteq> None)"
    "normalizeForFuzzyMatch nfkc (normalizeForFuzzyMatch nfkc content) = normalizeForFuzzyMatch nfkc content"
  shows "\<exists>ps es. list_all2 (matches nfkc (normalizeForFuzzyMatch nfkc content)) (map normalizeEdit edits) ps \<and> mset es = mset ps \<and>
    rewritten es (splitLinesWithEndings content) (splitLinesWithEndings (normalizeForFuzzyMatch nfkc content)) new"
  using assms(1)
proof (cases rule: applyEdits_cases)
  case (fuzzy matched)
  let ?base = "normalizeForFuzzyMatch nfkc content" and ?ms = "sort_key me_matchIndex matched"
  let ?ls = "splitLinesWithEndings ?base" and ?os = "splitLinesWithEndings content"
  note m = matchEdits_spec [OF fuzzy(4) disjI1 [OF assms(3)]]
  have sort: "sort_key me_matchIndex ?ms = ?ms" by (rule sort_key_id_if_sorted) simp
  from fuzzy(6) obtain gs where gs: "groupEdits (spansFrom 0 ?ls) ?ms [] = Inr gs" "length ?os = length ?ls"
    "new = rewriteGroups ?os ?base (spansFrom 0 ?ls) gs 0"
    by (auto simp: applyReplacementsPreservingUnchangedLines_def getLineSpans_def sort Let_def split: if_splits)
  from groupEdits_spec [OF gs(1)] fuzzy(5) have g: "groups_ok ?ls gs" "concat (map eg_replacements gs) = ?ms"
    by (simp_all add: groups_ok_def)
  from rewriteGroups_rewritten [OF g(1) _ gs(2), of 0] fuzzy(5) g(2) gs(3)
  have "rewritten (map (textAt ?base 0) ?ms) ?os ?ls new" by (simp add: concat_lines)
  moreover have "mset (map (textAt ?base 0) ?ms) = mset (map (textAt ?base 0) matched)" by simp
  ultimately show ?thesis using m by blast
next
  case (exact matched)
  with assms(2) show ?thesis by (auto simp: normalizeEdit_def)
qed

end
