(* ===== verification/EditTool.thy ===== *)
theory EditTool
  imports EditProps ReadTool
begin

text \<open>
  The edit and write tools (\<open>packages/agent/src/harness/tools/edit.ts\<close>, \<open>write.ts\<close>). A call that throws on
  its own account returns a value on the left; the environment may also throw or never settle. The body
  of a tool runs in its turn of the queue of \<open>MutationQueue\<close>, so it is one action here. Exact edits of a
  file with one kind of line ending are followed down to the text of the file.
\<close>

section \<open>The text of a file\<close>

definition editText :: "(jsstr \<Rightarrow> jsstr) \<Rightarrow> jsstr \<Rightarrow> edit list \<Rightarrow> edit_error + jsstr \<times> jsstr \<times> jsstr" where
  "editText nfkc raw edits =
     (case stripBom raw of (bom, content) \<Rightarrow>
        let originalEnding = detectLineEnding content in
        rbind (applyEditsToNormalizedContent nfkc (normalizeToLF content) edits) (\<lambda>(baseContent, newContent).
          Inr (baseContent, newContent, bom @ restoreLineEndings newContent originalEnding)))"

section \<open>The tools\<close>

datatype entry_kind = PlainFile | Directory | Symlink

text \<open>A failed file operation has a code and a message.\<close>

record 'w file_env = "'w read_env" +
  fe_fileInfo :: "jsstr \<Rightarrow> ('w, string \<times> string + entry_kind) action"
  fe_readTextFile :: "jsstr \<Rightarrow> ('w, string \<times> string + jsstr) action"
  fe_writeFile :: "jsstr \<Rightarrow> jsstr \<Rightarrow> ('w, string \<times> string + unit) action"
  fe_aborted :: "'w \<Rightarrow> bool"

datatype edit_failure =
    InvalidInput | OperationAborted | AccessError string | NotAFile | EditFailed edit_error

record edit_output =
  eo_blocks :: nat
  eo_base :: jsstr
  eo_new :: jsstr

definition editErrorText :: "jsstr \<Rightarrow> nat \<Rightarrow> edit_error \<Rightarrow> jsstr" where
  "editErrorText path editCount err =
     (let nth_edit = \<lambda>i. jstr (''edits['' @ show_nat i @ '']'') in
      case err of
        OutsideBase \<Rightarrow> jstr ''Replacement range is outside the base content.''
      | LineCountDiffers \<Rightarrow> jstr ''Cannot preserve unchanged lines because the base content has a different line count.''
      | EmptyOldText i \<Rightarrow>
          (if editCount = 1 then jstr ''oldText must not be empty in '' @ path @ jstr ''.''
           else nth_edit i @ jstr ''.oldText must not be empty in '' @ path @ jstr ''.'')
      | TextNotFound i \<Rightarrow>
          (if editCount = 1 then jstr ''Could not find the exact text in '' @ path
             @ jstr ''. The old text must match exactly including all whitespace and newlines.''
           else jstr ''Could not find '' @ nth_edit i @ jstr '' in '' @ path
             @ jstr ''. The oldText must match exactly including all whitespace and newlines.'')
      | DuplicateText i n \<Rightarrow>
          jstr (''Found '' @ show_nat n @ '' occurrences of '')
          @ (if editCount = 1 then jstr ''the text in '' @ path @ jstr ''. The text must be unique.''
             else nth_edit i @ jstr '' in '' @ path @ jstr ''. Each oldText must be unique.'')
          @ jstr '' Please provide more context to make it unique.''
      | OverlappingEdits i j \<Rightarrow>
          nth_edit i @ jstr '' and '' @ nth_edit j @ jstr '' overlap in '' @ path
          @ jstr ''. Merge them into one edit or target disjoint regions.''
      | NoChange \<Rightarrow>
          jstr ''No changes made to '' @ path
          @ (if editCount = 1 then jstr (''. The replacement produced identical content. This might indicate an issue ''
               @ ''with special characters or the text not existing as expected.'')
             else jstr ''. The replacements produced identical content.''))"

definition editFailureText :: "jsstr \<Rightarrow> nat \<Rightarrow> edit_failure \<Rightarrow> jsstr" where
  "editFailureText path editCount f =
     (case f of
        InvalidInput \<Rightarrow> jstr ''Edit tool input is invalid. edits must contain at least one replacement.''
      | OperationAborted \<Rightarrow> jstr ''Operation aborted''
      | AccessError code \<Rightarrow> jstr ''Could not edit file: '' @ path @ jstr (''. Error code: '' @ code @ ''.'')
      | NotAFile \<Rightarrow> jstr ''Could not edit file: '' @ path @ jstr ''. Path is not a file.''
      | EditFailed err \<Rightarrow> editErrorText path editCount err)"

text \<open>\<open>if (signal?.aborted) throw new Error("Operation aborted")\<close>.\<close>

definition unlessAborted :: "'w file_env \<Rightarrow> ('w, edit_failure + 'a) action \<Rightarrow> ('w, edit_failure + 'a) action" where
  "unlessAborted env m = andThen (ask (fe_aborted env)) (\<lambda>stop. if stop then give (Inl OperationAborted) else m)"

definition editFile :: "'w file_env \<Rightarrow> (jsstr \<Rightarrow> jsstr) \<Rightarrow> jsstr \<Rightarrow> edit list \<Rightarrow> ('w, edit_failure + edit_output) action" where
  "editFile env nfkc absolutePath edits =
     unlessAborted env (
     andThen (fe_fileInfo env absolutePath) (\<lambda>info.
     case info of Inl (code, _) \<Rightarrow> give (Inl (AccessError code)) | Inr kind \<Rightarrow>
     if kind \<noteq> PlainFile \<and> kind \<noteq> Symlink then give (Inl NotAFile) else
     andThen (fe_readTextFile env absolutePath) (\<lambda>readResult.
     case readResult of Inl (code, _) \<Rightarrow> give (Inl (AccessError code)) | Inr raw \<Rightarrow>
     unlessAborted env (
     case editText nfkc raw edits of Inl err \<Rightarrow> give (Inl (EditFailed err)) | Inr (baseContent, newContent, finalContent) \<Rightarrow>
     unlessAborted env (
     andThen (fe_writeFile env absolutePath finalContent) (\<lambda>writeResult.
     case writeResult of Inl (code, _) \<Rightarrow> give (Inl (AccessError code)) | Inr _ \<Rightarrow>
     unlessAborted env (give (Inr \<lparr>eo_blocks = length edits, eo_base = baseContent, eo_new = newContent\<rparr>))))))))"

definition executeEdit :: "'w file_env \<Rightarrow> (jsstr \<Rightarrow> jsstr) \<Rightarrow> jsstr \<Rightarrow> edit list \<Rightarrow> ('w, edit_failure + edit_output) action" where
  "executeEdit env nfkc path edits =
     (if edits = [] then give (Inl InvalidInput)
      else andThen (re_absolutePath env (normalizeToolPath path)) (\<lambda>absolutePath. editFile env nfkc absolutePath edits))"

text \<open>The result of a write: the length of the content, which its message calls bytes.\<close>

definition writeToFile :: "'w file_env \<Rightarrow> jsstr \<Rightarrow> jsstr \<Rightarrow> ('w, edit_failure + nat) action" where
  "writeToFile env absolutePath content =
     unlessAborted env (
     andThen (fe_writeFile env absolutePath content) (\<lambda>writeResult.
     case writeResult of Inl (_, message) \<Rightarrow> fail message | Inr _ \<Rightarrow>
     unlessAborted env (give (Inr (length content)))))"

definition executeWrite :: "'w file_env \<Rightarrow> jsstr \<Rightarrow> jsstr \<Rightarrow> ('w, edit_failure + nat) action" where
  "executeWrite env path content =
     andThen (re_absolutePath env (normalizeToolPath path)) (\<lambda>absolutePath. writeToFile env absolutePath content)"

definition writeText :: "jsstr \<Rightarrow> nat \<Rightarrow> jsstr" where
  "writeText path n = jstr (''Successfully wrote '' @ show_nat n @ '' bytes to '') @ path"

section \<open>Line endings\<close>

lemma splitBy_single: "splitBy [c] s = split_on c s"
proof (induction s)
  case Nil then show ?case by (simp add: splitBy.simps)
next
  case (Cons x s)
  show ?case
  proof (cases "x = c")
    case True with Cons show ?thesis by (simp add: splitBy.simps [of "[c]" "c # s"])
  next
    case False
    then have "splitBy [c] (x # s) = (x # hd (splitBy [c] s)) # tl (splitBy [c] s)"
      by (cases "indexOf [c] s") (simp_all add: splitBy.simps [of "[c]" "x # s"] splitBy.simps [of "[c]" s])
    with False Cons show ?thesis by simp
  qed
qed

definition crlf :: "jsstr \<Rightarrow> jsstr" where
  "crlf s = concat (map (\<lambda>u. if u = NL then [CR, NL] else [u]) s)"

lemma crlf_simps [simp]: "crlf [] = []" "crlf (u # s) = (if u = NL then [CR, NL] else [u]) @ crlf s" "crlf (s @ t) = crlf s @ crlf t"
  by (simp_all add: crlf_def)

lemma join_split_on_other: "join r (split_on c s) = concat (map (\<lambda>u. if u = c then r else [u]) s)"
proof (induction s)
  case (Cons x s)
  obtain l ls where "split_on c s = l # ls" by (cases "split_on c s") auto
  with Cons show ?case by (cases ls) auto
qed simp

lemma restore_crlf: "restoreLineEndings s [CR, NL] = crlf s"
  by (simp add: restoreLineEndings_def replaceAll_def splitBy_single join_split_on_other crlf_def)

lemma restore_lf: "restoreLineEndings s [NL] = s"
  by (simp add: restoreLineEndings_def)

lemma indexOf_pair_absent: "CR \<notin> set s \<Longrightarrow> indexOf [CR, NL] s = None"
  by (induction s) auto

lemma normalize_plain: "CR \<notin> set s \<Longrightarrow> normalizeToLF s = s"
proof -
  assume s: "CR \<notin> set s"
  then have "splitBy [CR, NL] s = [s]" by (simp add: splitBy.simps [of "[CR, NL]"] indexOf_pair_absent)
  then have "replaceAll [CR, NL] [NL] s = s" by (simp add: replaceAll_def)
  with s show ?thesis by (simp add: normalizeToLF_def replaceAll_def splitBy_single split_on_last)
qed

lemma splitBy_crlf: "CR \<notin> set s \<Longrightarrow> splitBy [CR, NL] (crlf s) = split_on NL s"
proof (induction s)
  case Nil then show ?case by (simp add: splitBy.simps)
next
  case (Cons u s)
  show ?case
  proof (cases "u = NL")
    case True with Cons show ?thesis by (simp add: splitBy.simps [of "[CR, NL]" "CR # NL # crlf s"])
  next
    case False
    with Cons.prems have "splitBy [CR, NL] (u # crlf s) =
        (u # hd (splitBy [CR, NL] (crlf s))) # tl (splitBy [CR, NL] (crlf s))"
      by (cases "indexOf [CR, NL] (crlf s)")
        (auto simp: splitBy.simps [of "[CR, NL]" "u # crlf s"] splitBy.simps [of "[CR, NL]" "crlf s"])
    with False Cons show ?thesis by simp
  qed
qed

lemma normalize_crlf: "CR \<notin> set s \<Longrightarrow> normalizeToLF (crlf s) = s"
  by (simp add: normalizeToLF_def replaceAll_def splitBy_crlf join_split_on splitBy_single split_on_last)

lemma indexOf_LF: "indexOf [NL] s = (if NL \<in> set s then Some (length (takeWhile (\<lambda>u. u \<noteq> NL) s)) else None)"
  by (induction s) auto

lemma detect_plain: "CR \<notin> set s \<Longrightarrow> detectLineEnding s = [NL]"
  by (simp add: detectLineEnding_def indexOf_pair_absent split: option.split)

lemma detect_crlf: "CR \<notin> set s \<Longrightarrow> NL \<in> set s \<Longrightarrow> detectLineEnding (crlf s) = [CR, NL]"
proof -
  assume s: "CR \<notin> set s" "NL \<in> set s"
  have "indexOf [CR, NL] (crlf s) = Some (length (takeWhile (\<lambda>u. u \<noteq> NL) s)) \<and>
      indexOf [NL] (crlf s) = Some (length (takeWhile (\<lambda>u. u \<noteq> NL) s) + 1)"
    using s by (induction s) auto
  then show ?thesis by (simp add: detectLineEnding_def)
qed

section \<open>The whole file\<close>

lemma replaced_prefix: "replaced es s t \<Longrightarrow> replaced es (p @ s) (p @ t)"
proof (induction rule: replaced.cases)
  case (replaced_next es a b old new g)
  then show ?case using replaced.replaced_next [of es a b old new "p @ g"] by simp
qed (auto intro: replaced_none)

lemma replaced_map:
  assumes "replaced es s t" "\<And>x y. f (x @ y) = f x @ f y"
  shows "replaced (map (\<lambda>(a, b). (f a, f b)) es) (f s) (f t)"
  using assms(1) by induction (auto simp: assms(2) intro: replaced.intros)

text \<open>A file whose lines all end in the same way.\<close>

definition uniformEndings :: "jsstr \<Rightarrow> bool" where
  "uniformEndings s \<longleftrightarrow> (\<exists>t. CR \<notin> set t \<and> (s = t \<or> NL \<in> set t \<and> s = crlf t))"

lemma editText_exact:
  assumes "editText nfkc raw edits = Inr (base, new, final)" "uniformEndings (snd (stripBom raw))"
    "\<forall>e \<in> set edits. indexOf (normalizeToLF (ed_oldText e)) (normalizeToLF (snd (stripBom raw))) \<noteq> None"
  shows "\<exists>es. mset es = mset (map (\<lambda>e.
      (restoreLineEndings (normalizeToLF (ed_oldText e)) (detectLineEnding (snd (stripBom raw))),
       restoreLineEndings (normalizeToLF (ed_newText e)) (detectLineEnding (snd (stripBom raw))))) edits) \<and> replaced es raw final"
proof -
  obtain bom content where bc: "stripBom raw = (bom, content)" by (cases "stripBom raw")
  then have raw: "raw = bom @ content" by (cases raw) (auto simp: stripBom_def split: if_splits)
  let ?f = "\<lambda>s. restoreLineEndings s (detectLineEnding content)"
  obtain t where t: "CR \<notin> set t" "content = t \<or> NL \<in> set t \<and> content = crlf t"
    using assms(2) by (auto simp: bc uniformEndings_def)
  from t(2) have norm: "normalizeToLF content = t" and whole: "?f t = content"
    using t(1) by (auto simp: normalize_plain normalize_crlf detect_plain detect_crlf restore_lf restore_crlf)
  have hom: "?f (x @ y) = ?f x @ ?f y" for x y
    using t by (auto simp: detect_plain detect_crlf restore_lf restore_crlf)
  from assms(1) have ap: "applyEditsToNormalizedContent nfkc t edits = Inr (base, new)" and final: "final = bom @ ?f new"
    by (auto simp: editText_def bc Let_def norm)
  have "\<forall>e \<in> set edits. indexOf (normalizeToLF (ed_oldText e)) t \<noteq> None" using assms(3) by (simp add: bc norm)
  from exact_edits [OF ap this] obtain es
    where es: "mset es = mset (map (\<lambda>e. (normalizeToLF (ed_oldText e), normalizeToLF (ed_newText e))) edits)" "replaced es t new"
    by blast
  have "replaced (map (\<lambda>(a, b). (?f a, ?f b)) es) raw final"
    unfolding raw final using replaced_prefix [OF replaced_map [where f = ?f, OF es(2) hom]] whole by simp
  moreover have "mset (map (\<lambda>(a, b). (?f a, ?f b)) es) =
      mset (map (\<lambda>e. (?f (normalizeToLF (ed_oldText e)), ?f (normalizeToLF (ed_newText e)))) edits)"
    using arg_cong [OF es(1), of "image_mset (\<lambda>(a, b). (?f a, ?f b))"] by (simp add: comp_def image_mset.compositionality)
  ultimately show ?thesis unfolding bc snd_conv by blast
qed

text \<open>
  C24. An edit changes nothing but what it was asked to. In a file whose lines all end in the same way, edits
  whose old texts occur in it literally replace disjoint occurrences of these texts, each edit once and
  with the line endings of the file, and every other code unit, a byte order mark included, stays.
\<close>

theorem edit_changes_only_edits:
  assumes "editText nfkc raw edits = Inr (base, new, final)" "uniformEndings (snd (stripBom raw))"
    "\<forall>e \<in> set edits. indexOf (normalizeToLF (ed_oldText e)) (normalizeToLF (snd (stripBom raw))) \<noteq> None"
  shows "\<exists>es. mset es = mset (map (\<lambda>e.
      (restoreLineEndings (normalizeToLF (ed_oldText e)) (detectLineEnding (snd (stripBom raw))),
       restoreLineEndings (normalizeToLF (ed_newText e)) (detectLineEnding (snd (stripBom raw))))) edits) \<and> replaced es raw final"
  by (rule editText_exact [OF assms])

lemmas edit_run = editText_def stripBom_def detectLineEnding_def normalizeToLF_def replaceAll_def splitBy.simps
  applyEditsToNormalizedContent_def normalizeEdit_def fuzzyFindText_def countOccurrences_def normalizeForFuzzyMatch_def
  trimEnd_def is_trimmed_def plainUnit_def applyReplacements_def applyReplacement_def restoreLineEndings_def jstr_def Let_def

definition demoEdit :: edit where
  "demoEdit = \<lparr>ed_oldText = jstr ''b'', ed_newText = jstr ''xy''\<rparr>"

theorem edit_changes_only_edits_witness:
  "\<exists>es. mset es = {#(jstr ''b'', jstr ''xy'')#} \<and> replaced es (jstr ''a'' @ [CR, NL] @ jstr ''b'') (jstr ''a'' @ [CR, NL] @ jstr ''xy'')"
proof -
  let ?raw = "jstr ''a'' @ [CR, NL] @ jstr ''b''"
  have run: "editText id ?raw [demoEdit] = Inr (jstr ''a'' @ NL # jstr ''b'', jstr ''a'' @ NL # jstr ''xy'', jstr ''a'' @ [CR, NL] @ jstr ''xy'')"
    by (simp add: edit_run demoEdit_def)
  have uni: "uniformEndings (snd (stripBom ?raw))"
    unfolding uniformEndings_def by (rule exI [of _ "jstr ''a'' @ NL # jstr ''b''"]) (simp add: stripBom_def jstr_def)
  have lit: "\<forall>e \<in> set [demoEdit]. indexOf (normalizeToLF (ed_oldText e)) (normalizeToLF (snd (stripBom ?raw))) \<noteq> None"
    by (simp add: edit_run demoEdit_def)
  have "map (\<lambda>e. (restoreLineEndings (normalizeToLF (ed_oldText e)) (detectLineEnding (snd (stripBom ?raw))),
       restoreLineEndings (normalizeToLF (ed_newText e)) (detectLineEnding (snd (stripBom ?raw))))) [demoEdit] = [(jstr ''b'', jstr ''xy'')]"
    by (simp add: edit_run demoEdit_def)
  with edit_changes_only_edits [OF run uni lit] show ?thesis by simp
qed


text \<open>The quotation mark of the demo file is typographic, the one of the edit is not.\<close>

definition demoContent :: jsstr where
  "demoContent = jstr ''a '' @ [NL, 0x2019]"

definition demoFuzzyEdit :: edit where
  "demoFuzzyEdit = \<lparr>ed_oldText = [0x27], ed_newText = jstr ''c''\<rparr>"

lemmas fuzzy_run = edit_run demoContent_def demoFuzzyEdit_def applyReplacementsPreservingUnchangedLines_def
  splitLinesWithEndings.simps getLineSpans_def getReplacementLineRange_def


text \<open>
  A text of white space only is empty in the normalized view, where it is found everywhere: in a short file
  an edit of a text that does not occur succeeds and inserts its new text at the start.
\<close>

lemma phantom_edit:
  "editText id (jstr ''ab'') [\<lparr>ed_oldText = jstr '' '', ed_newText = jstr ''X''\<rparr>] = Inr (jstr ''ab'', jstr ''Xab'', jstr ''Xab'')"
  by (simp add: fuzzy_run)

text \<open>In a file with mixed line endings an edit also rewrites the endings of lines it does not touch.\<close>

lemma mixed_endings_rewritten:
  "editText id (jstr ''a'' @ [CR, NL] @ jstr ''b'' @ [NL] @ jstr ''c'') [\<lparr>ed_oldText = jstr ''a'', ed_newText = jstr ''x''\<rparr>] =
    Inr (jstr ''a'' @ NL # jstr ''b'' @ NL # jstr ''c'', jstr ''x'' @ NL # jstr ''b'' @ NL # jstr ''c'',
      jstr ''x'' @ [CR, NL] @ jstr ''b'' @ [CR, NL] @ jstr ''c'')"
  by (simp add: edit_run)

end
