(* ===== verification/MutationQueue.thy ===== *)
theory MutationQueue
  imports Actions
begin

text \<open>
  The queue of file mutations (\<open>packages/agent/src/harness/tools/file-mutation-queue.ts\<close>). Calls of
  \<open>withFileMutationQueue\<close> register one after the other, each under the canonical path of its file, and
  wait for the call registered before them under that path. A promise of the code is a position: the
  chained queue of a call is resolved when the call has released it and the queue it waited for is.
  The step relation interleaves any number of calls; \<open>key i\<close> is the path of call \<open>i\<close>, or \<open>None\<close> when
  looking it up fails. The invariant makes the calls of one file exclusive and first come, first served.
\<close>

section \<open>Keys\<close>

text \<open>The canonical path where there is one: an environment may have no such file, or not know.\<close>

definition getMutationQueueKey ::
    "('p \<Rightarrow> ('w, 'p) action) \<Rightarrow> ('p \<Rightarrow> ('w, string \<times> string + 'p) action) \<Rightarrow> 'p \<Rightarrow> ('w, 'p) action" where
  "getMutationQueueKey absolute canonical path =
     andThen (absolute path) (\<lambda>absolutePath.
     andThen (canonical absolutePath) (\<lambda>r.
     case r of Inr p \<Rightarrow> give p
     | Inl (code, message) \<Rightarrow> if code = ''not_found'' \<or> code = ''not_supported'' then give absolutePath else fail message))"

section \<open>Calls\<close>

datatype call_phase = Blocked | Running | Released

record 'k mutation_call =
  mc_id :: nat
  mc_key :: 'k
  mc_previous :: "nat option"
  mc_phase :: call_phase

record 'k mutation_state =
  ms_waiting :: "nat list"
  ms_calls :: "'k mutation_call list"
  ms_queues :: "'k \<rightharpoonup> nat"

definition noCalls :: "'k mutation_state" where
  "noCalls = \<lparr>ms_waiting = [], ms_calls = [], ms_queues = (\<lambda>_. None)\<rparr>"

function chainDone :: "'k mutation_call list \<Rightarrow> nat \<Rightarrow> bool" where
  "chainDone cs i =
     (mc_phase (cs ! i) = Released \<and> (case mc_previous (cs ! i) of None \<Rightarrow> True | Some j \<Rightarrow> if j < i then chainDone cs j else False))"
  by pat_completeness auto
termination by (relation "measure snd") auto

declare chainDone.simps [simp del]

definition previousDone :: "'k mutation_call list \<Rightarrow> nat \<Rightarrow> bool" where
  "previousDone cs i = (case mc_previous (cs ! i) of None \<Rightarrow> True | Some j \<Rightarrow> chainDone cs j)"

definition setPhase :: "call_phase \<Rightarrow> nat \<Rightarrow> 'k mutation_call list \<Rightarrow> 'k mutation_call list" where
  "setPhase p i cs = cs[i := (cs ! i)\<lparr>mc_phase := p\<rparr>]"

definition registerCall :: "nat \<Rightarrow> 'k \<Rightarrow> 'k mutation_state \<Rightarrow> 'k mutation_state" where
  "registerCall i k s = s\<lparr>ms_waiting := tl (ms_waiting s),
     ms_calls := ms_calls s @ [\<lparr>mc_id = i, mc_key = k, mc_previous = ms_queues s k, mc_phase = Blocked\<rparr>],
     ms_queues := (ms_queues s)(k \<mapsto> length (ms_calls s))\<rparr>"

definition finishCall :: "nat \<Rightarrow> 'k mutation_state \<Rightarrow> 'k mutation_state" where
  "finishCall i s = (let k = mc_key (ms_calls s ! i) in
     s\<lparr>ms_calls := setPhase Released i (ms_calls s),
       ms_queues := (if ms_queues s k = Some i then (ms_queues s)(k := None) else ms_queues s)\<rparr>)"

inductive mutation_step :: "(nat \<Rightarrow> 'k option) \<Rightarrow> 'k mutation_state \<Rightarrow> 'k mutation_state \<Rightarrow> bool" for key where
  call: "mutation_step key s (s\<lparr>ms_waiting := ms_waiting s @ [i]\<rparr>)"
| register: "ms_waiting s = i # w \<Longrightarrow> key i = Some k \<Longrightarrow> mutation_step key s (registerCall i k s)"
| reject: "ms_waiting s = i # w \<Longrightarrow> key i = None \<Longrightarrow> mutation_step key s (s\<lparr>ms_waiting := w\<rparr>)"
| start: "i < length (ms_calls s) \<Longrightarrow> mc_phase (ms_calls s ! i) = Blocked \<Longrightarrow> previousDone (ms_calls s) i \<Longrightarrow>
    mutation_step key s (s\<lparr>ms_calls := setPhase Running i (ms_calls s)\<rparr>)"
| finish: "i < length (ms_calls s) \<Longrightarrow> mc_phase (ms_calls s ! i) = Running \<Longrightarrow> mutation_step key s (finishCall i s)"

inductive reachable_queue :: "(nat \<Rightarrow> 'k option) \<Rightarrow> 'k mutation_state \<Rightarrow> bool" for key where
  none: "reachable_queue key noCalls"
| step: "reachable_queue key s \<Longrightarrow> mutation_step key s t \<Longrightarrow> reachable_queue key t"

section \<open>The invariant\<close>

abbreviation key_at :: "'k mutation_call list \<Rightarrow> nat \<Rightarrow> 'k" where "key_at cs i \<equiv> mc_key (cs ! i)"
abbreviation released_at :: "'k mutation_call list \<Rightarrow> nat \<Rightarrow> bool" where "released_at cs i \<equiv> mc_phase (cs ! i) = Released"

text \<open>All calls before \<open>n\<close> with the key \<open>k\<close> have released.\<close>

definition cleared :: "'k mutation_call list \<Rightarrow> 'k \<Rightarrow> nat \<Rightarrow> bool" where
  "cleared cs k n \<longleftrightarrow> (\<forall>m < n. key_at cs m = k \<longrightarrow> released_at cs m)"

definition chain_ok :: "'k mutation_call list \<Rightarrow> nat \<Rightarrow> bool" where
  "chain_ok cs i \<longleftrightarrow>
     (case mc_previous (cs ! i) of
        None \<Rightarrow> cleared cs (key_at cs i) i
      | Some j \<Rightarrow> j < i \<and> key_at cs j = key_at cs i \<and> (\<forall>m. j < m \<and> m < i \<longrightarrow> key_at cs m \<noteq> key_at cs i)) \<and>
     (mc_phase (cs ! i) \<noteq> Blocked \<longrightarrow> cleared cs (key_at cs i) i)"

definition queue_ok :: "'k mutation_state \<Rightarrow> bool" where
  "queue_ok s \<longleftrightarrow> (let cs = ms_calls s in
     (\<forall>i < length cs. chain_ok cs i) \<and>
     (\<forall>k. case ms_queues s k of
        None \<Rightarrow> cleared cs k (length cs)
      | Some i \<Rightarrow> i < length cs \<and> key_at cs i = k \<and> (\<forall>m. i < m \<and> m < length cs \<longrightarrow> key_at cs m \<noteq> k)))"

lemma queue_okI:
  assumes "\<And>i. i < length (ms_calls s) \<Longrightarrow> chain_ok (ms_calls s) i"
    "\<And>k. ms_queues s k = None \<Longrightarrow> cleared (ms_calls s) k (length (ms_calls s))"
    "\<And>k i. ms_queues s k = Some i \<Longrightarrow> i < length (ms_calls s) \<and> key_at (ms_calls s) i = k \<and>
      (\<forall>m. i < m \<and> m < length (ms_calls s) \<longrightarrow> key_at (ms_calls s) m \<noteq> k)"
  shows "queue_ok s"
  using assms by (simp add: queue_ok_def Let_def split: option.split)

lemma queue_okD:
  assumes "queue_ok s"
  shows "i < length (ms_calls s) \<Longrightarrow> chain_ok (ms_calls s) i"
    "ms_queues s k = None \<Longrightarrow> cleared (ms_calls s) k (length (ms_calls s))"
    "ms_queues s k = Some i \<Longrightarrow> i < length (ms_calls s) \<and> key_at (ms_calls s) i = k \<and>
      (\<forall>m. i < m \<and> m < length (ms_calls s) \<longrightarrow> key_at (ms_calls s) m \<noteq> k)"
  using assms by (auto simp: queue_ok_def Let_def dest!: spec [of _ k])

lemma chainDone_cleared:
  assumes "\<forall>i < length cs. chain_ok cs i"
  shows "i < length cs \<Longrightarrow> chainDone cs i \<Longrightarrow> cleared cs (key_at cs i) (Suc i)"
proof (induction i rule: less_induct)
  case (less i)
  have ok: "chain_ok cs i" using assms less.prems(1) by blast
  have here: "released_at cs i" using less.prems(2) by (simp add: chainDone.simps [of cs i])
  show ?case
  proof (cases "mc_previous (cs ! i)")
    case None
    with ok here show ?thesis by (auto simp: chain_ok_def cleared_def less_Suc_eq)
  next
    case (Some j)
    with ok have j: "j < i" "key_at cs j = key_at cs i" "\<forall>m. j < m \<and> m < i \<longrightarrow> key_at cs m \<noteq> key_at cs i"
      by (auto simp: chain_ok_def)
    have "chainDone cs j" using less.prems(2) Some by (simp add: chainDone.simps [of cs i] split: if_splits)
    with less.IH [OF j(1)] less.prems(1) j(1,2) have "cleared cs (key_at cs i) (Suc j)" by simp
    with j(3) here show ?thesis unfolding cleared_def by (metis less_Suc_eq linorder_neqE_nat)
  qed
qed

lemma previousDone_cleared:
  assumes "\<forall>i < length cs. chain_ok cs i" "i < length cs" "previousDone cs i"
  shows "cleared cs (key_at cs i) i"
proof (cases "mc_previous (cs ! i)")
  case None
  have "chain_ok cs i" using assms(1,2) by blast
  with None show ?thesis by (simp add: chain_ok_def)
next
  case (Some j)
  have "chain_ok cs i" using assms(1,2) by blast
  with Some have j: "j < i" "key_at cs j = key_at cs i" "\<forall>m. j < m \<and> m < i \<longrightarrow> key_at cs m \<noteq> key_at cs i"
    by (auto simp: chain_ok_def)
  have "chainDone cs j" using assms(3) Some by (simp add: previousDone_def)
  with chainDone_cleared [OF assms(1), of j] assms(2) j(1,2) have "cleared cs (key_at cs i) (Suc j)" by simp
  with j(3) show ?thesis unfolding cleared_def by (metis less_Suc_eq linorder_neqE_nat)
qed

lemma setPhase_simps [simp]:
  "length (setPhase p i cs) = length cs"
  "m < length cs \<Longrightarrow> key_at (setPhase p i cs) m = key_at cs m"
  "m < length cs \<Longrightarrow> mc_previous (setPhase p i cs ! m) = mc_previous (cs ! m)"
  "m < length cs \<Longrightarrow> mc_phase (setPhase p i cs ! m) = (if m = i then p else mc_phase (cs ! m))"
  by (cases "i = m"; simp add: setPhase_def)+

text \<open>Changing the phase of a call that has not released keeps what is cleared.\<close>

lemma cleared_setPhase:
  "n \<le> length cs \<Longrightarrow> \<not> released_at cs i \<or> p = Released \<Longrightarrow> cleared cs k n \<Longrightarrow> cleared (setPhase p i cs) k n"
  by (auto simp: cleared_def)

lemma chain_ok_setPhase:
  assumes "chain_ok cs m" "m < length cs" "\<not> released_at cs i" "i = m \<Longrightarrow> cleared cs (key_at cs m) m"
  shows "chain_ok (setPhase p i cs) m"
proof -
  have c: "cleared cs (key_at cs m) m \<Longrightarrow> cleared (setPhase p i cs) (key_at cs m) m"
    using assms(2,3) by (intro cleared_setPhase) auto
  show ?thesis using assms c by (auto simp: chain_ok_def split: option.splits)
qed

lemma cleared_snoc: "n \<le> length cs \<Longrightarrow> cleared (cs @ [c]) k n = cleared cs k n"
  by (auto simp: cleared_def nth_append)

lemma chain_ok_snoc: "m < length cs \<Longrightarrow> chain_ok (cs @ [c]) m = chain_ok cs m"
  by (auto simp: chain_ok_def cleared_snoc nth_append split: option.split)

lemma queue_ok_register:
  assumes "queue_ok s"
  shows "queue_ok (registerCall i k s)"
proof -
  let ?cs = "ms_calls s" and ?c = "\<lparr>mc_id = i, mc_key = k, mc_previous = ms_queues s k, mc_phase = Blocked\<rparr>"
  have q: "case ms_queues s k' of None \<Rightarrow> cleared ?cs k' (length ?cs)
      | Some i \<Rightarrow> i < length ?cs \<and> key_at ?cs i = k' \<and> (\<forall>m. i < m \<and> m < length ?cs \<longrightarrow> key_at ?cs m \<noteq> k')" for k'
    using assms by (simp add: queue_ok_def Let_def)
  have "chain_ok (?cs @ [?c]) (length ?cs)"
    using q [of k] by (auto simp: chain_ok_def cleared_snoc nth_append split: option.splits)
  moreover have "chain_ok (?cs @ [?c]) m" if "m < length ?cs" for m
    using assms that by (simp add: queue_ok_def Let_def chain_ok_snoc)
  ultimately have "\<forall>m < length (?cs @ [?c]). chain_ok (?cs @ [?c]) m" by (auto simp: less_Suc_eq)
  moreover have "case ((ms_queues s)(k \<mapsto> length ?cs)) k' of None \<Rightarrow> cleared (?cs @ [?c]) k' (length (?cs @ [?c]))
      | Some i \<Rightarrow> i < length (?cs @ [?c]) \<and> key_at (?cs @ [?c]) i = k' \<and>
          (\<forall>m. i < m \<and> m < length (?cs @ [?c]) \<longrightarrow> key_at (?cs @ [?c]) m \<noteq> k')" for k'
    using q [of k'] by (auto simp: cleared_def nth_append less_Suc_eq split: option.splits)
  ultimately show ?thesis by (simp add: queue_ok_def registerCall_def Let_def)
qed

lemma queue_ok_phase:
  assumes "queue_ok s" "i < length (ms_calls s)" "\<not> released_at (ms_calls s) i" "cleared (ms_calls s) (key_at (ms_calls s) i) i"
  shows "queue_ok (s\<lparr>ms_calls := setPhase p i (ms_calls s)\<rparr>)"
proof (rule queue_okI)
  fix m assume "m < length (ms_calls (s\<lparr>ms_calls := setPhase p i (ms_calls s)\<rparr>))"
  then show "chain_ok (ms_calls (s\<lparr>ms_calls := setPhase p i (ms_calls s)\<rparr>)) m"
    using queue_okD(1) [OF assms(1), of m] assms(3,4) by (auto intro!: chain_ok_setPhase)
next
  fix k assume "ms_queues (s\<lparr>ms_calls := setPhase p i (ms_calls s)\<rparr>) k = None"
  then show "cleared (ms_calls (s\<lparr>ms_calls := setPhase p i (ms_calls s)\<rparr>)) k (length (ms_calls (s\<lparr>ms_calls := setPhase p i (ms_calls s)\<rparr>)))"
    using queue_okD(2) [OF assms(1), of k] assms(3) by (simp add: cleared_setPhase)
next
  fix k m assume "ms_queues (s\<lparr>ms_calls := setPhase p i (ms_calls s)\<rparr>) k = Some m"
  then show "m < length (ms_calls (s\<lparr>ms_calls := setPhase p i (ms_calls s)\<rparr>)) \<and>
      key_at (ms_calls (s\<lparr>ms_calls := setPhase p i (ms_calls s)\<rparr>)) m = k \<and>
      (\<forall>n. m < n \<and> n < length (ms_calls (s\<lparr>ms_calls := setPhase p i (ms_calls s)\<rparr>)) \<longrightarrow>
        key_at (ms_calls (s\<lparr>ms_calls := setPhase p i (ms_calls s)\<rparr>)) n \<noteq> k)"
    using queue_okD(3) [OF assms(1), of k m] by simp
qed

lemma queue_ok_finish:
  assumes "queue_ok s" "i < length (ms_calls s)" "mc_phase (ms_calls s ! i) = Running"
  shows "queue_ok (finishCall i s)"
proof -
  let ?cs = "ms_calls s" and ?k = "key_at (ms_calls s) i" and ?t = "s\<lparr>ms_calls := setPhase Released i (ms_calls s)\<rparr>"
  have c: "cleared ?cs ?k i" using queue_okD(1) [OF assms(1,2)] assms(3) by (simp add: chain_ok_def)
  from assms(3) have nr: "\<not> released_at ?cs i" by simp
  note ok = queue_ok_phase [OF assms(1,2) nr c, of Released]
  show ?thesis
  proof (cases "ms_queues s ?k = Some i")
    case True
    from queue_okD(3) [OF assms(1) True] have "\<forall>m. i < m \<and> m < length ?cs \<longrightarrow> key_at ?cs m \<noteq> ?k" by blast
    with c have all: "cleared (setPhase Released i ?cs) ?k (length ?cs)"
      unfolding cleared_def by (metis linorder_neqE_nat setPhase_simps(2,4))
    have t: "finishCall i s = ?t\<lparr>ms_queues := (ms_queues s)(?k := None)\<rparr>" using True by (simp add: finishCall_def)
    show ?thesis unfolding t
    proof (rule queue_okI)
      fix k assume "ms_queues (?t\<lparr>ms_queues := (ms_queues s)(?k := None)\<rparr>) k = None"
      then show "cleared (ms_calls (?t\<lparr>ms_queues := (ms_queues s)(?k := None)\<rparr>)) k
          (length (ms_calls (?t\<lparr>ms_queues := (ms_queues s)(?k := None)\<rparr>)))"
        using all queue_okD(2) [OF ok, of k] by (cases "k = ?k") simp_all
    next
      fix k m assume "ms_queues (?t\<lparr>ms_queues := (ms_queues s)(?k := None)\<rparr>) k = Some m"
      then have "ms_queues ?t k = Some m" by (simp split: if_splits)
      from queue_okD(3) [OF ok this]
      show "m < length (ms_calls (?t\<lparr>ms_queues := (ms_queues s)(?k := None)\<rparr>)) \<and>
          key_at (ms_calls (?t\<lparr>ms_queues := (ms_queues s)(?k := None)\<rparr>)) m = k \<and>
          (\<forall>n. m < n \<and> n < length (ms_calls (?t\<lparr>ms_queues := (ms_queues s)(?k := None)\<rparr>)) \<longrightarrow>
            key_at (ms_calls (?t\<lparr>ms_queues := (ms_queues s)(?k := None)\<rparr>)) n \<noteq> k)" by simp
    qed (use queue_okD(1) [OF ok] in simp)
  qed (use ok in \<open>simp add: finishCall_def Let_def\<close>)
qed

lemma queue_ok_step: "mutation_step key s t \<Longrightarrow> queue_ok s \<Longrightarrow> queue_ok t"
proof (induction rule: mutation_step.induct)
  case (start i s)
  then have "cleared (ms_calls s) (key_at (ms_calls s) i) i"
    by (intro previousDone_cleared) (auto simp: queue_okD(1))
  with start show ?case by (intro queue_ok_phase) simp_all
qed (simp_all add: queue_ok_register queue_ok_finish, simp_all add: queue_ok_def)

lemma queue_ok_reachable: "reachable_queue key s \<Longrightarrow> queue_ok s"
  by (induction rule: reachable_queue.induct)
    (auto simp: queue_ok_step, simp add: queue_ok_def noCalls_def cleared_def)

text \<open>The first call under a key that has not released can run.\<close>

lemma chainDone_if_cleared:
  assumes "\<forall>i < length cs. chain_ok cs i"
  shows "i < length cs \<Longrightarrow> cleared cs (key_at cs i) (Suc i) \<Longrightarrow> chainDone cs i"
proof (induction i rule: less_induct)
  case (less i)
  have ok: "chain_ok cs i" using assms less.prems(1) by blast
  have "chainDone cs j" if "mc_previous (cs ! i) = Some j" for j
  proof (rule less.IH)
    show "j < i" using ok that by (simp add: chain_ok_def)
    with less.prems(1) show "j < length cs" by simp
    show "cleared cs (key_at cs j) (Suc j)"
      using ok that less.prems(2) by (auto simp: chain_ok_def cleared_def)
  qed
  moreover have "j < i" if "mc_previous (cs ! i) = Some j" for j using ok that by (simp add: chain_ok_def)
  moreover have "released_at cs i" using less.prems(2) by (simp add: cleared_def)
  ultimately show ?case by (simp add: chainDone.simps [of cs i] split: option.split)
qed

lemma some_call_can_go_on:
  assumes "queue_ok s" "m < length (ms_calls s)" "\<not> released_at (ms_calls s) m"
  shows "\<exists>i \<le> m. key_at (ms_calls s) i = key_at (ms_calls s) m \<and>
    (mc_phase (ms_calls s ! i) = Running \<or> mc_phase (ms_calls s ! i) = Blocked \<and> previousDone (ms_calls s) i)"
proof -
  let ?cs = "ms_calls s" and ?P = "\<lambda>i. i < length (ms_calls s) \<and> key_at (ms_calls s) i = key_at (ms_calls s) m \<and> \<not> released_at (ms_calls s) i"
  define i where "i = (LEAST i. ?P i)"
  have P: "?P m" using assms(2,3) by simp
  then have i: "?P i" unfolding i_def by (rule LeastI)
  have le: "i \<le> m" unfolding i_def using P by (rule Least_le)
  have first: "cleared ?cs (key_at ?cs m) i"
    unfolding cleared_def using not_less_Least [of _ ?P] i by (auto simp: i_def [symmetric])
  have ok: "\<forall>i < length ?cs. chain_ok ?cs i" using assms(1) by (simp add: queue_ok_def Let_def)
  have "previousDone ?cs i"
  proof (cases "mc_previous (?cs ! i)")
    case (Some j)
    have j: "j < i" "key_at ?cs j = key_at ?cs i" using ok i Some by (auto simp: chain_ok_def)
    then have "chainDone ?cs j"
      using i first by (intro chainDone_if_cleared [OF ok]) (auto simp: cleared_def)
    with Some show ?thesis by (simp add: previousDone_def)
  qed (simp add: previousDone_def)
  with i le show ?thesis by (cases "mc_phase (?cs ! i)") auto
qed

section \<open>Exclusion, order and progress\<close>

text \<open>
  C26. Mutations of one file exclude each other and run in the order of their registration, whatever other
  calls do in between: a call that has been started finds every earlier call for the same file released.
  No call waits for ever on its own account: while a call has not released, one for the same file that
  came no later is running or can be started.
\<close>

theorem mutation_queue_exclusive:
  assumes "reachable_queue key s" "i < length (ms_calls s)" "m < i" "mc_key (ms_calls s ! m) = mc_key (ms_calls s ! i)"
  shows "(mc_phase (ms_calls s ! i) \<noteq> Blocked \<longrightarrow> mc_phase (ms_calls s ! m) = Released) \<and>
    (mc_phase (ms_calls s ! m) \<noteq> Released \<longrightarrow> (\<exists>j \<le> m. mc_key (ms_calls s ! j) = mc_key (ms_calls s ! m) \<and>
      (mc_phase (ms_calls s ! j) = Running \<or> mc_phase (ms_calls s ! j) = Blocked \<and> previousDone (ms_calls s) j)))"
proof -
  note ok = queue_ok_reachable [OF assms(1)]
  have "mc_phase (ms_calls s ! i) \<noteq> Blocked \<longrightarrow> mc_phase (ms_calls s ! m) = Released"
    using queue_okD(1) [OF ok assms(2)] assms(3,4) by (auto simp: chain_ok_def cleared_def)
  with some_call_can_go_on [OF ok, of m] assms(2,3) show ?thesis by auto
qed

definition demoQueue :: "nat mutation_state" where
  "demoQueue = (let s = registerCall 1 7 (registerCall 0 7 (noCalls\<lparr>ms_waiting := [0, 1]\<rparr>)) in
     s\<lparr>ms_calls := setPhase Running 0 (ms_calls s)\<rparr>)"

lemma demoQueue_reachable: "reachable_queue (\<lambda>_. Some 7) demoQueue"
proof -
  let ?key = "\<lambda>_ :: nat. Some (7 :: nat)"
  let ?n = "noCalls :: nat mutation_state"
  let ?s0 = "?n\<lparr>ms_waiting := ms_waiting ?n @ [0]\<rparr>"
  let ?s1 = "?s0\<lparr>ms_waiting := ms_waiting ?s0 @ [1]\<rparr>"
  let ?s2 = "registerCall 0 7 ?s1"
  let ?s3 = "registerCall 1 7 ?s2"
  have "reachable_queue ?key ?s1" by (intro reachable_queue.step [OF _ mutation_step.call] reachable_queue.none)
  then have "reachable_queue ?key ?s2"
    by (rule reachable_queue.step) (rule mutation_step.register [where w = "[1]"]; simp add: noCalls_def)
  then have "reachable_queue ?key ?s3"
    by (rule reachable_queue.step) (rule mutation_step.register [where w = "[]"]; simp add: noCalls_def registerCall_def)
  then have "reachable_queue ?key (?s3\<lparr>ms_calls := setPhase Running 0 (ms_calls ?s3)\<rparr>)"
    by (rule reachable_queue.step) (rule mutation_step.start; simp add: noCalls_def registerCall_def previousDone_def)
  then show ?thesis by (simp add: demoQueue_def Let_def noCalls_def)
qed

theorem mutation_queue_exclusive_witness:
  "mc_phase (ms_calls demoQueue ! 1) = Blocked \<and> mc_key (ms_calls demoQueue ! 0) = mc_key (ms_calls demoQueue ! 1)"
proof -
  have s: "length (ms_calls demoQueue) = 2" "mc_key (ms_calls demoQueue ! 0) = mc_key (ms_calls demoQueue ! 1)"
    "mc_phase (ms_calls demoQueue ! 0) = Running"
    by (simp_all add: demoQueue_def registerCall_def noCalls_def setPhase_def)
  then show ?thesis
    using mutation_queue_exclusive [OF demoQueue_reachable, of 1 0] by auto
qed

end
