(* ===== verification/ShellCapture.thy ===== *)
theory ShellCapture
  imports Actions Truncation TextDecode
begin

text \<open>
  The capture of a shell command's output (\<open>packages/agent/src/harness/utils/shell-output.ts\<close>). Only the
  end of the output stays in memory, with counts of all of it; once the output passes a limit it is also
  written to a temporary file, by a chain of asynchronous writes. What the environment does while the
  command runs is a list of events: a chunk of output arrives, or the next write of the chain settles.
  A file operation of the environment returns a failure (code and message) on the left; it may also reject.
\<close>

section \<open>Texts\<close>

datatype exec_code = AbortedCode | TimeoutCode | ShellUnavailableCode | SpawnErrorCode | CallbackErrorCode | UnknownCode

type_synonym exec_error = "exec_code \<times> string"

text \<open>Control characters are dropped but for tab, line feed and carriage return, and so are three format characters.\<close>

definition isPrintable :: "code_unit \<Rightarrow> bool" where
  "isPrintable u =
     (let code = unat u in
      if code = 0x09 \<or> code = 0x0A \<or> code = 0x0D then True
      else if code \<le> 0x1F then False
      else if code \<ge> 0xFFF9 \<and> code \<le> 0xFFFB then False
      else True)"

text \<open>By characters: a surrogate pair is one character, above all that are dropped.\<close>

fun sanitizeBinaryOutput :: "jsstr \<Rightarrow> jsstr" where
  "sanitizeBinaryOutput [] = []"
| "sanitizeBinaryOutput [u] = (if isPrintable u then [u] else [])"
| "sanitizeBinaryOutput (u # v # us) =
     (if is_high u \<and> is_low v then u # v # sanitizeBinaryOutput us
      else (if isPrintable u then [u] else []) @ sanitizeBinaryOutput (v # us))"

definition trimToLastUtf8Bytes :: "jsstr \<Rightarrow> nat \<Rightarrow> jsstr" where
  "trimToLastUtf8Bytes s maxBytes =
     (let bs = utf8_encode s in
      if length bs \<le> maxBytes then s else decodeText (dropWhile is_cont (drop (length bs - maxBytes) bs)))"

section \<open>The state of a capture\<close>

text \<open>The writes that are chained and have not run.\<close>

datatype write_job = CreateJob jsstr | AppendJob jsstr

record 'p capture_state =
  cs_tailOutput :: jsstr
  cs_totalBytes :: nat
  cs_completedLines :: nat
  cs_hasOpenLine :: bool
  cs_currentLineBytes :: nat
  cs_fullOutputPath :: "'p option"
  cs_fullOutputRequested :: bool
  cs_acceptingOutput :: bool
  cs_writeChain :: "write_job list"
  cs_writeResult :: "exec_error + unit"
  cs_captureError :: "exec_error option"

definition newCapture :: "'p capture_state" where
  "newCapture = \<lparr>cs_tailOutput = [], cs_totalBytes = 0, cs_completedLines = 0, cs_hasOpenLine = False,
     cs_currentLineBytes = 0, cs_fullOutputPath = None, cs_fullOutputRequested = False, cs_acceptingOutput = True,
     cs_writeChain = [], cs_writeResult = Inr (), cs_captureError = None\<rparr>"

record 'p capture_progress =
  cp_output :: jsstr
  cp_truncation :: truncation_result
  cp_fullOutputPath :: "'p option"
  cp_lastLineBytes :: nat

record 'p capture_result =
  cr_progress :: "'p capture_progress"
  cr_exitCode :: "int option"
  cr_cancelled :: bool
  cr_truncated :: bool
  cr_executionError :: "exec_error option"

datatype shell_event = Chunk jsstr | WriteStep

datatype exec_outcome = Rejected string | Failed exec_error | Exited int

record ('w, 'p) shell_env =
  sh_exec :: "jsstr \<Rightarrow> ('w, shell_event list \<times> exec_outcome) action"
  sh_createTempFile :: "('w, string \<times> string + 'p) action"
  sh_appendFile :: "'p \<Rightarrow> jsstr \<Rightarrow> ('w, string \<times> string + unit) action"
  sh_onChunk :: "jsstr \<Rightarrow> 'p capture_progress \<Rightarrow> ('w, unit) action"
  sh_aborted :: "'w \<Rightarrow> bool"
  sh_runtimeBuffer :: bool

section \<open>The operations\<close>

definition appendFullOutput :: "jsstr \<Rightarrow> 'p capture_state \<Rightarrow> 'p capture_state" where
  "appendFullOutput s c =
     (if \<not> cs_fullOutputRequested c \<or> cs_captureError c \<noteq> None then c
      else c\<lparr>cs_writeChain := cs_writeChain c @ [AppendJob s]\<rparr>)"

definition ensureFullOutputFile :: "jsstr \<Rightarrow> 'p capture_state \<Rightarrow> 'p capture_state" where
  "ensureFullOutputFile initialContent c =
     (if cs_fullOutputRequested c \<or> cs_captureError c \<noteq> None then c
      else c\<lparr>cs_fullOutputRequested := True, cs_writeChain := cs_writeChain c @ [CreateJob initialContent]\<rparr>)"

definition noOptions :: truncation_options where
  "noOptions = \<lparr>to_maxLines = None, to_maxBytes = None\<rparr>"

definition totalLinesOf :: "'p capture_state \<Rightarrow> nat" where
  "totalLinesOf c = cs_completedLines c + (if cs_hasOpenLine c then 1 else 0)"

definition createProgress :: "bool \<Rightarrow> 'p capture_state \<Rightarrow> 'p capture_progress" where
  "createProgress runtimeBuffer c =
     (let tailTruncation = truncateTail runtimeBuffer (cs_tailOutput c) noOptions;
          truncated = (totalLinesOf c > DEFAULT_MAX_LINES \<or> cs_totalBytes c > DEFAULT_MAX_BYTES);
          truncation = tailTruncation\<lparr>tr_truncated := truncated,
            tr_truncatedBy := (if truncated
               then (case tr_truncatedBy tailTruncation of Some by \<Rightarrow> Some by
                     | None \<Rightarrow> Some (if cs_totalBytes c > DEFAULT_MAX_BYTES then ByteLimit else LineLimit))
               else None),
            tr_totalLines := totalLinesOf c, tr_totalBytes := cs_totalBytes c\<rparr> in
      \<lparr>cp_output = (if truncated then tr_content truncation else cs_tailOutput c), cp_truncation = truncation,
       cp_fullOutputPath = cs_fullOutputPath c, cp_lastLineBytes = cs_currentLineBytes c\<rparr>)"

text \<open>The text of a chunk, the counts, the full output and the tail.\<close>

definition cleanChunk :: "jsstr \<Rightarrow> jsstr" where
  "cleanChunk chunk = filter (\<lambda>u. u \<noteq> 13) (sanitizeBinaryOutput chunk)"

definition countChunk :: "jsstr \<Rightarrow> 'p capture_state \<Rightarrow> 'p capture_state" where
  "countChunk s c =
     (let textBytes = length (utf8_encode s);
          trailingText = last (split_on LF s);
          c' = c\<lparr>cs_totalBytes := cs_totalBytes c + textBytes,
                 cs_completedLines := cs_completedLines c + (length (split_on LF s) - 1)\<rparr> in
      if LF \<in> set s then c'\<lparr>cs_currentLineBytes := length (utf8_encode trailingText), cs_hasOpenLine := trailingText \<noteq> []\<rparr>
      else if s \<noteq> [] then c'\<lparr>cs_currentLineBytes := cs_currentLineBytes c + textBytes, cs_hasOpenLine := True\<rparr>
      else c')"

definition keepChunk :: "jsstr \<Rightarrow> 'p capture_state \<Rightarrow> 'p capture_state" where
  "keepChunk s c0 =
     (let c = c0\<lparr>cs_tailOutput := cs_tailOutput c0 @ s\<rparr>;
          c' = (if (cs_totalBytes c > DEFAULT_MAX_BYTES \<or> totalLinesOf c > DEFAULT_MAX_LINES) \<and> \<not> cs_fullOutputRequested c
                then ensureFullOutputFile (cs_tailOutput c) c
                else if cs_fullOutputRequested c then appendFullOutput s c
                else c) in
      c'\<lparr>cs_tailOutput := trimToLastUtf8Bytes (cs_tailOutput c') (DEFAULT_MAX_BYTES * 2)\<rparr>)"

definition onChunk :: "('w, 'p) shell_env \<Rightarrow> jsstr \<Rightarrow> 'p capture_state \<Rightarrow> ('w, 'p capture_state) action" where
  "onChunk env chunk c =
     (if \<not> cs_acceptingOutput c then give c
      else
        let s = cleanChunk chunk; c' = keepChunk s (countChunk s c) in
        andThen (attempt (sh_onChunk env s (createProgress (sh_runtimeBuffer env) c'))) (\<lambda>r.
        case r of Inl e \<Rightarrow> give (c'\<lparr>cs_captureError := Some (UnknownCode, e)\<rparr>) | Inr _ \<Rightarrow> give c'))"

text \<open>A write of the chain; a failure or a rejection makes the chain fail for good.\<close>

definition settledWrite :: "('w, string \<times> string + 'a) action \<Rightarrow> ('w, exec_error + 'a) action" where
  "settledWrite m = andThen (attempt m) (\<lambda>r. give (case r of
      Inl e \<Rightarrow> Inl (UnknownCode, e)
    | Inr (Inl (_, message)) \<Rightarrow> Inl (UnknownCode, message)
    | Inr (Inr x) \<Rightarrow> Inr x))"

definition appendTo :: "('w, 'p) shell_env \<Rightarrow> 'p \<Rightarrow> jsstr \<Rightarrow> 'p capture_state \<Rightarrow> ('w, 'p capture_state) action" where
  "appendTo env path s c = andThen (settledWrite (sh_appendFile env path s)) (\<lambda>r. give (c\<lparr>cs_writeResult := r\<rparr>))"

definition runJob :: "('w, 'p) shell_env \<Rightarrow> 'p capture_state \<Rightarrow> ('w, 'p capture_state) action" where
  "runJob env c0 =
     (case cs_writeChain c0 of [] \<Rightarrow> give c0
      | job # rest \<Rightarrow>
        (let c = c0\<lparr>cs_writeChain := rest\<rparr> in
         case cs_writeResult c of Inl _ \<Rightarrow> give c | Inr _ \<Rightarrow>
         (case job of
            CreateJob initialContent \<Rightarrow>
              andThen (settledWrite (sh_createTempFile env)) (\<lambda>r.
              case r of Inl e \<Rightarrow> give (c\<lparr>cs_writeResult := Inl e\<rparr>)
              | Inr path \<Rightarrow> appendTo env path initialContent (c\<lparr>cs_fullOutputPath := Some path\<rparr>))
          | AppendJob s \<Rightarrow>
              (case cs_fullOutputPath c of
                 None \<Rightarrow> give (c\<lparr>cs_writeResult := Inl (UnknownCode, ''Full output path was not created'')\<rparr>)
               | Some path \<Rightarrow> appendTo env path s c))))"

fun handleEvents :: "('w, 'p) shell_env \<Rightarrow> shell_event list \<Rightarrow> 'p capture_state \<Rightarrow> ('w, 'p capture_state) action" where
  "handleEvents env [] c = give c"
| "handleEvents env (Chunk chunk # es) c = andThen (onChunk env chunk c) (handleEvents env es)"
| "handleEvents env (WriteStep # es) c = andThen (runJob env c) (handleEvents env es)"

text \<open>\<open>await writeChain\<close>: the writes that are left.\<close>

fun settleWrites :: "('w, 'p) shell_env \<Rightarrow> write_job list \<Rightarrow> 'p capture_state \<Rightarrow> ('w, 'p capture_state) action" where
  "settleWrites env [] c = give c"
| "settleWrites env (_ # jobs) c = andThen (runJob env c) (settleWrites env jobs)"

definition captureResult :: "'p capture_progress \<Rightarrow> int option \<Rightarrow> bool \<Rightarrow> exec_error option \<Rightarrow> 'p capture_result" where
  "captureResult progress exitCode cancelled executionError =
     \<lparr>cr_progress = progress, cr_exitCode = exitCode, cr_cancelled = cancelled,
      cr_truncated = tr_truncated (cp_truncation progress), cr_executionError = executionError\<rparr>"

definition finishCapture :: "('w, 'p) shell_env \<Rightarrow> bool \<Rightarrow> exec_outcome \<Rightarrow> 'p capture_state \<Rightarrow> ('w, exec_error + 'p capture_result) action" where
  "finishCapture env returnExecutionErrors outcome c =
     (case cs_writeResult c of Inl e \<Rightarrow> give (Inl e) | Inr _ \<Rightarrow>
      case cs_captureError c of Some e \<Rightarrow> give (Inl e) | None \<Rightarrow>
      (let progress = createProgress (sh_runtimeBuffer env) c in
       andThen (ask (sh_aborted env)) (\<lambda>aborted.
       case outcome of
         Rejected e \<Rightarrow> give (Inl (UnknownCode, e))
       | Failed (code, message) \<Rightarrow>
           if code = AbortedCode \<or> aborted then give (Inr (captureResult progress None True None))
           else if returnExecutionErrors then give (Inr (captureResult progress None False (Some (code, message))))
           else give (Inl (code, message))
       | Exited n \<Rightarrow> give (Inr (captureResult progress (if aborted then None else Some n) aborted None)))))"

definition executeShellWithCapture :: "('w, 'p) shell_env \<Rightarrow> jsstr \<Rightarrow> bool \<Rightarrow> ('w, exec_error + 'p capture_result) action" where
  "executeShellWithCapture env command returnExecutionErrors =
     andThen (sh_exec env command) (\<lambda>(events, outcome).
     andThen (handleEvents env events newCapture) (\<lambda>c.
     case outcome of Rejected e \<Rightarrow> give (Inl (UnknownCode, e)) | _ \<Rightarrow>
     (let c1 = c\<lparr>cs_acceptingOutput := False\<rparr>;
          progress = createProgress (sh_runtimeBuffer env) c1;
          c2 = (if tr_truncated (cp_truncation progress) \<and> \<not> cs_fullOutputRequested c1
                then ensureFullOutputFile (cs_tailOutput c1) c1 else c1) in
      andThen (settleWrites env (cs_writeChain c2) c2) (finishCapture env returnExecutionErrors outcome))))"

end
