(* ===== verification/ShellProps.thy ===== *)
theory ShellProps
  imports ShellCapture TruncationProps
begin

text \<open>
  What the capture of a shell command promises: although only the end of the output is kept in memory, the
  reported truncation is that of the whole output, and the whole output is in the file that is named.
\<close>

section \<open>The tail of a long suffix\<close>

lemma joinable_not_low: "b = [] \<or> \<not> is_low (hd b) \<Longrightarrow> joinable a b"
  by (auto simp: joinable_def)

lemma well_formed_hd: "well_formed t \<Longrightarrow> t \<noteq> [] \<Longrightarrow> \<not> is_low (hd t)"
  by (cases t rule: well_formed.cases) (auto simp: surrogate_cases dest: high_not_low split: if_splits)

lemma suffixLoop_long:
  assumes "used \<le> maxBytes" "maxBytes < used + bytes (rev r)" "r = [] \<or> \<not> is_low (last r)"
  shows "suffixLoop maxBytes (r @ x) used = suffixLoop maxBytes r used"
  using assms
proof (induction maxBytes r used rule: suffixLoop.induct)
  case (2 maxBytes u us used)
  show ?case
  proof (cases "is_low u \<and> us \<noteq> [] \<and> is_high (hd us)")
    case True
    then obtain v vs where us: "us = v # vs" by (cases us) auto
    have pair: "utf8_encode (t @ [v, u]) = utf8_encode t @ utf8_encode [v, u]" for t
      using True us by (intro encode_append) (auto simp: joinable_def dest: high_not_low)
    have four: "bytes [v, u] = 4"
      using True us by (auto simp: utf8_encode_def length_utf8_bytes pair_scalar_def)
    show ?thesis
    proof (cases "used + 4 > maxBytes")
      case False
      have "maxBytes < used + 4 + bytes (rev vs)" "vs = [] \<or> \<not> is_low (last vs)"
        using "2.prems"(2,3) us by (simp_all add: pair four split: if_splits)
      with "2.IH"(1) [OF True False] False us True show ?thesis by simp
    qed (use True in simp)
  next
    case False
    let ?b = "if is_surrogate u then 3 else if unat u \<le> 0x7F then 1 else if unat u \<le> 0x7FF then 2 else (3 :: nat)"
    have "joinable (rev us) [u]" using False by (auto simp: joinable_def last_rev)
    from encode_append [OF this] have whole: "bytes (rev (u # us)) = bytes (rev us) + ?b" by (simp add: bytes_single)
    have no: "\<not> (is_low u \<and> us @ x \<noteq> [] \<and> is_high (hd (us @ x)))" using False "2.prems"(3) by (cases us) auto
    show ?thesis
    proof (cases "used + ?b > maxBytes")
      case True then show ?thesis using False no by (simp only: append_Cons suffixLoop.simps if_False Let_def if_True)
    next
      case ok: False
      from ok have le: "used + ?b \<le> maxBytes" by (simp only: not_less)
      have "maxBytes < used + ?b + bytes (rev us)" using "2.prems"(2) unfolding whole by simp
      moreover have "us = [] \<or> \<not> is_low (last us)" using "2.prems"(3) by (cases us) auto
      ultimately have "suffixLoop maxBytes (us @ x) (used + ?b) = suffixLoop maxBytes us (used + ?b)"
        by (rule "2.IH"(2) [OF False refl ok le])
      then show ?thesis using False no ok by (simp only: append_Cons suffixLoop.simps if_False Let_def)
    qed
  qed
qed simp

lemma fromEnd_long:
  assumes "B < bytes h" "h = [] \<or> \<not> is_low (hd h)"
  shows "truncateStringToBytesFromEnd (p @ h) B = truncateStringToBytesFromEnd h B"
proof -
  obtain n r where l: "suffixLoop B (rev h) 0 = (n, r)" by (cases "suffixLoop B (rev h) 0") auto
  have n: "n \<le> length h" using suffixLoop_spec [OF l] by simp
  have "suffixLoop B (rev h @ rev p) 0 = (n, r)"
    using suffixLoop_long [of 0 B "rev h" "rev p"] assms l by (simp add: last_rev)
  with l n show ?thesis by (simp add: truncateStringToBytesFromEnd_def Let_def)
qed

lemma tailLoop_long:
  assumes "c = bytes (join [LF] out)" "c \<le> B" "B < bytes (join [LF] (h # rev ls @ out))" "h = [] \<or> \<not> is_low (hd h)"
  shows "tailLoop rb L B (ls @ (p @ h) # before) out c = tailLoop rb L B (ls @ [h]) out c"
  using assms
proof (induction ls arbitrary: out c)
  case Nil
  have "bytes (p @ h) = bytes p + bytes h"
    using encode_append [OF joinable_not_low [OF Nil.prems(4)], of p] by simp
  with Nil show ?case by (cases "out = []") (auto simp add: Let_def join_Cons_bytes fromEnd_long)
next
  case (Cons l ls)
  let ?b = "bytes l + (if length out > 0 then 1 else 0)"
  have "c + ?b = bytes (join [LF] (l # out))" using Cons.prems(1) by (simp add: join_Cons_bytes)
  from Cons.IH [OF this] Cons.prems(3,4) show ?case by (simp add: Let_def)
qed

lemma split_pieces_append:
  "split_on c (a @ b) = butlast (split_on c a) @ (last (split_on c a) @ hd (split_on c b)) # tl (split_on c b)"
proof (induction a)
  case Nil then show ?case by (cases "split_on c b") auto
next
  case (Cons x a)
  obtain l ls where "split_on c a = l # ls" by (cases "split_on c a") auto
  with Cons show ?case by (cases "ls = []") auto
qed

lemma hd_split_on: "hd (split_on c t) = [] \<or> t \<noteq> [] \<and> hd (hd (split_on c t)) = hd t"
  by (cases t) auto

lemma lines_append:
  assumes "t \<noteq> []"
  shows "splitLinesForCounting (pre @ t) = butlast (split_on LF pre)
      @ (last (split_on LF pre) @ hd (splitLinesForCounting t)) # tl (splitLinesForCounting t)"
    "hd (splitLinesForCounting t) = hd (split_on LF t)"
proof -
  have two: "tl (split_on LF t) \<noteq> []" if "last t = LF"
  proof -
    from that assms obtain u where "t = u @ [LF]" by (metis append_butlast_last_id)
    then show ?thesis by (simp add: split_on_snoc)
  qed
  show "hd (splitLinesForCounting t) = hd (split_on LF t)"
    using assms two by (auto simp: splitLinesForCounting_def neq_Nil_conv)
  then show "splitLinesForCounting (pre @ t) = butlast (split_on LF pre)
      @ (last (split_on LF pre) @ hd (splitLinesForCounting t)) # tl (splitLinesForCounting t)"
    using assms two by (auto simp: splitLinesForCounting_def split_pieces_append butlast_append butlast_tl)
qed

lemma truncateTail_suffix:
  assumes "well_formed t" "maxBytesOf opts + 1 < bytes t"
  shows "truncateTail rb (pre @ t) opts = (truncateTail rb t opts)
    \<lparr>tr_totalLines := length (splitLinesForCounting (pre @ t)), tr_totalBytes := bytes (pre @ t)\<rparr>"
proof -
  let ?B = "maxBytesOf opts" and ?L = "maxLinesOf opts" and ?ls = "splitLinesForCounting t"
  have t: "t \<noteq> []" using assms(2) by auto
  obtain h ls where ls: "?ls = h # ls" using lines_ne [OF t] by (cases ?ls) auto
  have h: "h = [] \<or> \<not> is_low (hd h)"
    using lines_append(2) [OF t] hd_split_on [of LF t] well_formed_hd [OF assms(1)] by (auto simp: ls)
  have "bytes t \<le> bytes (join [LF] ?ls) + 1"
    using arg_cong [OF lines_join [OF t], of bytes] by (auto simp: encode_around_LF)
  with assms(2) have long: "?B < bytes (join [LF] (h # rev (rev ls) @ []))" by (simp add: ls)
  have lines: "rev (splitLinesForCounting (pre @ t)) = rev ls @ (last (split_on LF pre) @ h) # rev (butlast (split_on LF pre))"
    by (simp add: lines_append(1) [OF t] ls)
  have "tailLoop rb ?L ?B (rev (splitLinesForCounting (pre @ t))) [] 0 = tailLoop rb ?L ?B (rev ls @ [h]) [] 0"
    unfolding lines by (rule tailLoop_long [OF _ _ long h]) simp_all
  moreover have "bytes t \<le> bytes (pre @ t)"
    using encode_append [OF joinable_not_low, of t pre] well_formed_hd [OF assms(1)] t by simp
  ultimately show ?thesis using assms(2) by (simp add: truncateTail_def Let_def ls split: prod.split)
qed

section \<open>Trimming\<close>

lemma utf8_bytes_shape:
  assumes "is_scalar cp"
  shows "\<not> is_cont (hd (utf8_bytes cp))" "\<forall>b \<in> set (tl (utf8_bytes cp)). is_cont b"
    "0 < length (utf8_bytes cp)" "length (utf8_bytes cp) \<le> 4"
proof -
  have "cp < 1114112" using assms by (simp add: is_scalar_def)
  then have "cp div 262144 < 5" "cp div 4096 < 16 \<or> \<not> cp < 65536" "cp div 64 < 32 \<or> \<not> cp < 2048" by auto
  then show "\<not> is_cont (hd (utf8_bytes cp))" "\<forall>b \<in> set (tl (utf8_bytes cp)). is_cont b"
    by (auto simp: utf8_bytes_def is_cont_def unat_byte simp del: of_nat_add)
qed (simp_all add: length_utf8_bytes)

lemma dropWhile_aligned:
  assumes "\<forall>cp \<in> set cps. is_scalar cp"
  shows "\<exists>j \<le> length cps. dropWhile is_cont (drop k (concat (map utf8_bytes cps))) = concat (map utf8_bytes (drop j cps)) \<and>
    length (concat (map utf8_bytes cps)) \<le> k + length (concat (map utf8_bytes (drop j cps))) + 3"
  using assms
proof (induction cps arbitrary: k)
  case (Cons cp cps)
  then have cp: "is_scalar cp" and rest: "\<forall>cp \<in> set cps. is_scalar cp" by simp_all
  note shape = utf8_bytes_shape [OF cp]
  consider "k = 0" | "0 < k" "k < length (utf8_bytes cp)" | "length (utf8_bytes cp) \<le> k" by linarith
  then show ?case
  proof cases
    case 1
    have "utf8_bytes cp = hd (utf8_bytes cp) # tl (utf8_bytes cp)" by simp
    then have "dropWhile is_cont (utf8_bytes cp @ r) = utf8_bytes cp @ r" for r
      using shape(1) by (metis append_Cons dropWhile.simps(2))
    with 1 show ?thesis by (intro exI [of _ 0]) simp
  next
    case 2
    have "drop k (utf8_bytes cp) = drop (k - 1) (tl (utf8_bytes cp))" using 2(1) by (cases k) (simp_all add: drop_Suc)
    then have "\<forall>b \<in> set (drop k (utf8_bytes cp)). is_cont b" using shape(2) by (auto dest: in_set_dropD)
    moreover have "dropWhile is_cont (concat (map utf8_bytes cps)) = concat (map utf8_bytes cps)"
    proof (cases cps)
      case (Cons c cs)
      with rest have "\<not> is_cont (hd (utf8_bytes c))" using utf8_bytes_shape by simp
      moreover have "utf8_bytes c = hd (utf8_bytes c) # tl (utf8_bytes c)" by simp
      ultimately have "dropWhile is_cont (utf8_bytes c @ r) = utf8_bytes c @ r" for r
        by (metis append_Cons dropWhile.simps(2))
      with Cons show ?thesis by simp
    qed simp
    ultimately have "dropWhile is_cont (drop k (concat (map utf8_bytes (cp # cps)))) = concat (map utf8_bytes cps)"
      using 2(2) by (simp add: dropWhile_append)
    with 2 shape(4) show ?thesis by (intro exI [of _ 1]) simp
  next
    case 3
    obtain j where "j \<le> length cps"
      "dropWhile is_cont (drop (k - length (utf8_bytes cp)) (concat (map utf8_bytes cps))) = concat (map utf8_bytes (drop j cps))"
      "length (concat (map utf8_bytes cps)) \<le> k - length (utf8_bytes cp) + length (concat (map utf8_bytes (drop j cps))) + 3"
      using Cons.IH [OF rest] by blast
    with 3 show ?thesis by (intro exI [of _ "Suc j"]) simp
  qed
qed simp

lemma bytes_units_of: "\<forall>cp \<in> set cps. is_scalar cp \<Longrightarrow> utf8_encode (units_of cps) = concat (map utf8_bytes cps)"
  by (simp add: utf8_encode_def scalars_units_of)

lemma units_of_append: "units_of (a @ b) = units_of a @ units_of b"
  by (simp add: units_of_def)

lemma trim_suffix:
  assumes "well_formed s"
  shows "\<exists>pre. s = pre @ trimToLastUtf8Bytes s n \<and> well_formed (trimToLastUtf8Bytes s n) \<and>
    (pre = [] \<or> n \<le> bytes (trimToLastUtf8Bytes s n) + 6)"
proof (cases "bytes s \<le> n")
  case True with assms show ?thesis by (simp add: trimToLastUtf8Bytes_def Let_def)
next
  case False
  let ?cps = "scalars s"
  have valid: "\<forall>cp \<in> set ?cps. is_scalar cp" using scalars_valid by blast
  obtain j where j: "j \<le> length ?cps"
    "dropWhile is_cont (drop (bytes s - n) (concat (map utf8_bytes ?cps))) = concat (map utf8_bytes (drop j ?cps))"
    "length (concat (map utf8_bytes ?cps)) \<le> bytes s - n + length (concat (map utf8_bytes (drop j ?cps))) + 3"
    using dropWhile_aligned [OF valid] by blast
  define k where "k = (if drop j ?cps \<noteq> [] \<and> hd (drop j ?cps) = BOM then Suc j else j)"
  have kept: "\<forall>cp \<in> set (drop i ?cps). is_scalar cp" for i using valid by (auto dest: in_set_dropD)
  have tl: "tl (drop j ?cps) = drop (Suc j) ?cps" by (simp add: drop_Suc tl_drop)
  have "dropWhile is_cont (drop (bytes s - n) (utf8_encode s)) = concat (map utf8_bytes (drop j ?cps))"
    using j(2) by (simp add: utf8_encode_def)
  moreover have "lenient_scalars (concat (map utf8_bytes (drop j ?cps))) = drop j ?cps"
    using kept [of j] by (intro lenient_scalars_bytes) blast
  ultimately have t: "trimToLastUtf8Bytes s n = units_of (drop k ?cps)"
    using False by (simp add: trimToLastUtf8Bytes_def decodeText_def Let_def k_def tl)
  have three: "length (concat (map utf8_bytes (drop j ?cps))) \<le> length (concat (map utf8_bytes (drop k ?cps))) + 3"
  proof (cases "drop j ?cps \<noteq> [] \<and> hd (drop j ?cps) = BOM")
    case True
    then have "drop j ?cps = BOM # drop k ?cps" using list.collapse [of "drop j ?cps"] by (simp add: k_def tl)
    then show ?thesis by (simp add: BOM_def length_utf8_bytes)
  qed (auto simp: k_def)
  have "n \<le> bytes (trimToLastUtf8Bytes s n) + 6"
  proof -
    have "bytes (trimToLastUtf8Bytes s n) = length (concat (map utf8_bytes (drop k ?cps)))"
      by (simp only: t bytes_units_of [OF kept])
    moreover have "bytes s = length (concat (map utf8_bytes ?cps))" by (simp add: utf8_encode_def)
    ultimately show ?thesis using j(3) False three by linarith
  qed
  moreover have "s = units_of (take k ?cps) @ trimToLastUtf8Bytes s n"
    unfolding t by (simp add: units_of_scalars [OF assms] flip: units_of_append)
  moreover have "well_formed (trimToLastUtf8Bytes s n)" unfolding t using scalars_units_of [OF kept] by simp
  ultimately show ?thesis by blast
qed

section \<open>What the counts and the tail say\<close>

text \<open>The output so far is the concatenation of the cleaned chunks.\<close>

definition captures :: "jsstr \<Rightarrow> 'p capture_state \<Rightarrow> bool" where
  "captures whole c \<longleftrightarrow>
     well_formed whole \<and> cs_totalBytes c = bytes whole \<and> cs_completedLines c = length (split_on LF whole) - 1 \<and>
     cs_hasOpenLine c = (last (split_on LF whole) \<noteq> []) \<and>
     (\<exists>pre. whole = pre @ cs_tailOutput c \<and> well_formed (cs_tailOutput c) \<and>
        (pre = [] \<or> 2 * DEFAULT_MAX_BYTES \<le> bytes (cs_tailOutput c) + 6))"

lemma well_formed_append: "well_formed a \<Longrightarrow> well_formed b \<Longrightarrow> well_formed (a @ b)"
proof (induction a rule: well_formed.induct)
  case (2 u) then show ?case by (cases b) (auto simp: surrogate_cases)
next
  case (3 u v us) then show ?case by (auto split: if_splits)
qed simp

lemma surrogate_printable: "is_surrogate u \<Longrightarrow> isPrintable u \<and> u \<noteq> 13"
  by (auto simp: is_surrogate_def isPrintable_def)

lemma sanitize_filter: "sanitizeBinaryOutput s = filter isPrintable s"
  by (induction s rule: sanitizeBinaryOutput.induct) (auto simp: surrogate_printable surrogate_cases)

lemma well_formed_filter: "well_formed s \<Longrightarrow> (\<And>u. is_surrogate u \<Longrightarrow> P u) \<Longrightarrow> well_formed (filter P s)"
proof (induction s rule: well_formed.induct)
  case (3 u v us)
  show ?case
  proof (cases "is_high u \<and> is_low v")
    case True
    then have "P u" "P v" using "3.prems"(2) by (auto simp: surrogate_cases)
    with True 3 show ?thesis by simp
  next
    case False
    with 3 have "\<not> is_surrogate u" "well_formed (filter P (v # us))" by simp_all
    then show ?thesis using well_formed_single [of u "filter P (v # us)"] by simp
  qed
qed auto

lemma well_formed_clean: "well_formed chunk \<Longrightarrow> well_formed (cleanChunk chunk)"
  by (simp add: cleanChunk_def sanitize_filter well_formed_filter surrogate_printable)

lemma bytes_append: "well_formed b \<Longrightarrow> bytes (a @ b) = bytes a + bytes b"
  using encode_append [OF joinable_not_low, of b a] well_formed_hd [of b] by (cases "b = []") simp_all

lemma last_pieces_append:
  "last (split_on c (a @ b)) = (if c \<in> set b then last (split_on c b) else last (split_on c a) @ b)"
  "length (split_on c (a @ b)) - 1 = length (split_on c a) - 1 + (length (split_on c b) - 1)"
proof -
  have "tl (split_on c b) \<noteq> [] \<longleftrightarrow> c \<in> set b"
  proof (induction b)
    case (Cons x b) then show ?case by (cases "split_on c b") auto
  qed simp
  then show "last (split_on c (a @ b)) = (if c \<in> set b then last (split_on c b) else last (split_on c a) @ b)"
    by (auto simp: split_pieces_append split_on_last last_tl)
  have "0 < length (split_on c a)" "0 < length (split_on c b)" by simp_all
  then show "length (split_on c (a @ b)) - 1 = length (split_on c a) - 1 + (length (split_on c b) - 1)"
    by (simp only: split_pieces_append length_append length_butlast length_Cons length_tl)
qed

lemma total_lines: "captures whole c \<Longrightarrow> totalLinesOf c = length (splitLinesForCounting whole)"
proof -
  assume c: "captures whole c"
  have "0 < length (split_on LF whole)" by simp
  moreover have "last (split_on LF whole) = [] \<longleftrightarrow> whole = [] \<or> last whole = LF"
    by (cases whole rule: rev_cases) (auto simp: split_on_snoc last_pieces_append)
  ultimately show ?thesis using c by (auto simp: captures_def totalLinesOf_def splitLinesForCounting_def)
qed

lemma tail_truncated:
  "tr_truncated (truncateTail rb s opts) \<longleftrightarrow> length (splitLinesForCounting s) > maxLinesOf opts \<or> bytes s > maxBytesOf opts"
  "tr_totalLines (truncateTail rb s opts) = length (splitLinesForCounting s)"
  "tr_totalBytes (truncateTail rb s opts) = bytes s"
  "tr_truncated (truncateTail rb s opts) \<Longrightarrow> \<exists>k. tr_truncatedBy (truncateTail rb s opts) = Some k"
  "\<not> tr_truncated (truncateTail rb s opts) \<Longrightarrow> tr_truncatedBy (truncateTail rb s opts) = None"
  "\<not> tr_truncated (truncateTail rb s opts) \<Longrightarrow> tr_content (truncateTail rb s opts) = s"
  by (auto simp: truncateTail_def untruncated_def Let_def split: prod.splits if_splits)

lemma captures_progress:
  assumes "captures whole c"
  shows "cp_truncation (createProgress rb c) = truncateTail rb whole noOptions"
    "cp_output (createProgress rb c) = tr_content (truncateTail rb whole noOptions)"
proof -
  obtain pre where pre: "whole = pre @ cs_tailOutput c" "well_formed (cs_tailOutput c)"
      "pre = [] \<or> 2 * DEFAULT_MAX_BYTES \<le> bytes (cs_tailOutput c) + 6"
    using assms by (auto simp: captures_def)
  have opts: "maxLinesOf noOptions = DEFAULT_MAX_LINES" "maxBytesOf noOptions = DEFAULT_MAX_BYTES"
    by (simp_all add: noOptions_def maxLinesOf_def maxBytesOf_def)
  have total: "cs_totalBytes c = bytes whole" "totalLinesOf c = length (splitLinesForCounting whole)"
    using assms total_lines by (auto simp: captures_def)
  let ?r = "truncateTail rb whole noOptions" and ?t = "truncateTail rb (cs_tailOutput c) noOptions"
  have tr: "tr_truncated ?r \<longleftrightarrow> totalLinesOf c > DEFAULT_MAX_LINES \<or> cs_totalBytes c > DEFAULT_MAX_BYTES"
      "tr_totalLines ?r = totalLinesOf c" "tr_totalBytes ?r = cs_totalBytes c"
    using tail_truncated [of rb whole noOptions] unfolding opts total by auto
  have same: "?r = ?t\<lparr>tr_totalLines := totalLinesOf c, tr_totalBytes := cs_totalBytes c\<rparr>"
  proof (cases "pre = []")
    case True with pre(1) tr(2,3) show ?thesis by (metis append_Nil truncation_result.surjective truncation_result.update_convs(4,5))
  next
    case False
    with pre(3) have "maxBytesOf noOptions + 1 < bytes (cs_tailOutput c)" by (simp add: opts DEFAULT_MAX_BYTES_def)
    from truncateTail_suffix [OF pre(2) this, of rb pre] show ?thesis using total pre(1) by simp
  qed
  have t: "tr_truncated ?t \<longleftrightarrow> totalLinesOf c > DEFAULT_MAX_LINES \<or> cs_totalBytes c > DEFAULT_MAX_BYTES"
    using tr(1) unfolding same by simp
  show "cp_truncation (createProgress rb c) = ?r"
    unfolding same createProgress_def Let_def capture_progress.simps t [symmetric]
    using tail_truncated(4,5) [of rb "cs_tailOutput c" noOptions] by (cases "tr_truncated ?t") auto
  show "cp_output (createProgress rb c) = tr_content ?r"
    unfolding same createProgress_def Let_def capture_progress.simps t [symmetric]
    using tail_truncated(6) [of rb "cs_tailOutput c" noOptions] by simp
qed

section \<open>The steps\<close>

definition exceeds :: "'p capture_state \<Rightarrow> bool" where
  "exceeds c \<longleftrightarrow> cs_totalBytes c > DEFAULT_MAX_BYTES \<or> totalLinesOf c > DEFAULT_MAX_LINES"

text \<open>The full output: what is in the file, then the writes that are left.\<close>

definition savedOutput :: "('p \<Rightarrow> jsstr) \<Rightarrow> jsstr \<Rightarrow> 'p capture_state \<Rightarrow> bool" where
  "savedOutput files whole c \<longleftrightarrow>
     (cs_captureError c = None \<longrightarrow>
       cs_fullOutputRequested c = exceeds c \<and>
       (if exceeds c then
          (\<exists>e. cs_writeResult c = Inl e) \<or>
          cs_fullOutputPath c = None \<and> (\<exists>s ss. cs_writeChain c = CreateJob s # map AppendJob ss \<and> whole = s @ concat ss) \<or>
          (\<exists>p ss. cs_fullOutputPath c = Some p \<and> cs_writeChain c = map AppendJob ss \<and> whole = files p @ concat ss)
        else cs_writeChain c = [] \<and> cs_fullOutputPath c = None))"

definition appendingFiles :: "('w, 'p) shell_env \<Rightarrow> ('w \<Rightarrow> 'p \<Rightarrow> jsstr) \<Rightarrow> bool" where
  "appendingFiles env files \<longleftrightarrow>
     (\<forall>w p w'. sh_createTempFile env w = (Returned (Inr p), w') \<longrightarrow> files w' p = []) \<and>
     (\<forall>p s w u w'. sh_appendFile env p s w = (Returned (Inr u), w') \<longrightarrow> files w' p = files w p @ s) \<and>
     (\<forall>s progress w r w'. sh_onChunk env s progress w = (r, w') \<longrightarrow> files w' = files w)"

lemma countChunk_counts:
  assumes "captures whole c" "well_formed s"
  shows "cs_totalBytes (countChunk s c) = bytes (whole @ s)"
    "cs_completedLines (countChunk s c) = length (split_on LF (whole @ s)) - 1"
    "cs_hasOpenLine (countChunk s c) \<longleftrightarrow> last (split_on LF (whole @ s)) \<noteq> []"
    "cs_tailOutput (countChunk s c) = cs_tailOutput c" "cs_fullOutputRequested (countChunk s c) = cs_fullOutputRequested c"
    "cs_writeChain (countChunk s c) = cs_writeChain c" "cs_captureError (countChunk s c) = cs_captureError c"
    "cs_fullOutputPath (countChunk s c) = cs_fullOutputPath c" "cs_writeResult (countChunk s c) = cs_writeResult c"
    "cs_acceptingOutput (countChunk s c) = cs_acceptingOutput c"
  using assms last_pieces_append [of LF whole s]
  by (auto simp: countChunk_def captures_def Let_def bytes_append)

lemma keepChunk_fields:
  "cs_totalBytes (keepChunk s c) = cs_totalBytes c" "cs_completedLines (keepChunk s c) = cs_completedLines c"
  "cs_hasOpenLine (keepChunk s c) = cs_hasOpenLine c" "cs_captureError (keepChunk s c) = cs_captureError c"
  "cs_tailOutput (keepChunk s c) = trimToLastUtf8Bytes (cs_tailOutput c @ s) (DEFAULT_MAX_BYTES * 2)"
  "cs_fullOutputPath (keepChunk s c) = cs_fullOutputPath c" "cs_writeResult (keepChunk s c) = cs_writeResult c"
  "cs_acceptingOutput (keepChunk s c) = cs_acceptingOutput c"
  "cs_captureError c = None \<Longrightarrow> cs_fullOutputRequested (keepChunk s c) \<longleftrightarrow> cs_fullOutputRequested c \<or> exceeds c"
  "cs_captureError c = None \<Longrightarrow> cs_writeChain (keepChunk s c) = cs_writeChain c @
    (if cs_fullOutputRequested c then [AppendJob s] else if exceeds c then [CreateJob (cs_tailOutput c @ s)] else [])"
  by (auto simp: keepChunk_def Let_def exceeds_def totalLinesOf_def ensureFullOutputFile_def appendFullOutput_def)

lemma captures_chunk:
  assumes "captures whole c" "well_formed s"
  shows "captures (whole @ s) (keepChunk s (countChunk s c))"
proof -
  obtain pre where pre: "whole = pre @ cs_tailOutput c" "well_formed (cs_tailOutput c)"
      "pre = [] \<or> 2 * DEFAULT_MAX_BYTES \<le> bytes (cs_tailOutput c) + 6"
    using assms by (auto simp: captures_def)
  let ?t = "trimToLastUtf8Bytes (cs_tailOutput c @ s) (DEFAULT_MAX_BYTES * 2)"
  obtain pre2 where pre2: "cs_tailOutput c @ s = pre2 @ ?t" "well_formed ?t" "pre2 = [] \<or> DEFAULT_MAX_BYTES * 2 \<le> bytes ?t + 6"
    using trim_suffix [OF well_formed_append [OF pre(2) assms(2)]] by blast
  have "pre @ pre2 = [] \<or> 2 * DEFAULT_MAX_BYTES \<le> bytes ?t + 6"
  proof (cases "pre2 = []")
    case True
    then have "?t = cs_tailOutput c @ s" using pre2(1) by simp
    then have "bytes (cs_tailOutput c) \<le> bytes ?t" using bytes_append [OF assms(2)] by simp
    with True pre(3) show ?thesis by auto
  qed (use pre2(3) in auto)
  moreover have "whole @ s = (pre @ pre2) @ ?t" using pre(1) pre2(1) by simp
  ultimately show ?thesis
    using assms well_formed_append [of whole s] pre2(2)
    unfolding captures_def keepChunk_fields countChunk_counts [OF assms] by blast
qed

lemma two_lines: "c \<in> set s \<Longrightarrow> 2 \<le> length (split_on c s)"
proof (induction s)
  case (Cons x s) then show ?case by (cases "split_on c s") auto
qed simp

lemma exceeds_more:
  assumes "captures whole c" "well_formed s" "exceeds c"
  shows "exceeds (countChunk s c)"
proof -
  have "cs_totalBytes c \<le> cs_totalBytes (countChunk s c)"
    using assms(1) by (simp add: countChunk_counts [OF assms(1,2)] bytes_append [OF assms(2)] captures_def)
  moreover have "totalLinesOf c \<le> totalLinesOf (countChunk s c)"
  proof (cases "LF \<in> set s")
    case True
    have "cs_completedLines c = length (split_on LF whole) - 1" using assms(1) by (simp add: captures_def)
    moreover obtain k where "length (split_on LF s) = 2 + k" using two_lines [OF True] le_Suc_ex by blast
    ultimately show ?thesis
      unfolding totalLinesOf_def countChunk_counts [OF assms(1,2)] last_pieces_append(2) by simp
  next
    case False
    with assms(1) show ?thesis
      unfolding totalLinesOf_def countChunk_counts [OF assms(1,2)] last_pieces_append
      by (auto simp: captures_def split_on_last)
  qed
  ultimately show ?thesis using assms(3) by (auto simp: exceeds_def)
qed

lemma whole_tail: "captures whole c \<Longrightarrow> \<not> exceeds c \<Longrightarrow> cs_tailOutput c = whole"
proof -
  assume c: "captures whole c" "\<not> exceeds c"
  then obtain pre where pre: "whole = pre @ cs_tailOutput c" "well_formed (cs_tailOutput c)"
      "pre = [] \<or> 2 * DEFAULT_MAX_BYTES \<le> bytes (cs_tailOutput c) + 6"
    by (auto simp: captures_def)
  have "bytes whole \<le> DEFAULT_MAX_BYTES" using c by (auto simp: captures_def exceeds_def)
  then have "bytes (cs_tailOutput c) \<le> DEFAULT_MAX_BYTES" using pre(1) bytes_append [OF pre(2), of pre] by simp
  with pre show ?thesis by (auto simp: DEFAULT_MAX_BYTES_def)
qed

lemma savedOutput_chunk:
  assumes "captures whole c" "well_formed s" "savedOutput files whole c"
  shows "savedOutput files (whole @ s) (keepChunk s (countChunk s c))"
proof (cases "cs_captureError c")
  case (Some e) then show ?thesis by (simp add: savedOutput_def keepChunk_fields countChunk_counts [OF assms(1,2)])
next
  case None
  let ?c = "countChunk s c" and ?k = "keepChunk s (countChunk s c)"
  note count = countChunk_counts [OF assms(1,2)]
  have none: "cs_captureError ?c = None" using None by (simp add: count)
  have ex: "exceeds ?k = exceeds ?c" by (simp add: exceeds_def totalLinesOf_def keepChunk_fields)
  from assms(3) None have req: "cs_fullOutputRequested c = exceeds c" by (simp add: savedOutput_def)
  have req': "cs_fullOutputRequested ?k = exceeds ?k"
    using exceeds_more [OF assms(1,2)] by (auto simp: ex keepChunk_fields(9) [OF none] count req)
  show ?thesis
  proof (cases "exceeds c")
    case True
    with exceeds_more [OF assms(1,2)] have "exceeds ?k" by (simp add: ex)
    moreover have "cs_writeChain ?k = cs_writeChain c @ [AppendJob s]"
      using True by (simp add: keepChunk_fields(10) [OF none] count req)
    moreover have "(\<exists>e. cs_writeResult c = Inl e) \<or>
        cs_fullOutputPath c = None \<and> (\<exists>t ss. cs_writeChain c = CreateJob t # map AppendJob ss \<and> whole = t @ concat ss) \<or>
        (\<exists>p ss. cs_fullOutputPath c = Some p \<and> cs_writeChain c = map AppendJob ss \<and> whole = files p @ concat ss)"
      using assms(3) None True by (simp add: savedOutput_def)
    ultimately show ?thesis
      using req' none unfolding savedOutput_def
      by (elim disjE exE conjE) (auto simp: keepChunk_fields count intro!: exI [of _ "_ @ [s]"])
  next
    case False
    then have "cs_tailOutput c @ s = whole @ s" using whole_tail [OF assms(1)] by simp
    moreover have "cs_writeChain c = []" "cs_fullOutputPath c = None" using assms(3) None False by (simp_all add: savedOutput_def)
    ultimately show ?thesis
      using req' none False unfolding savedOutput_def
      by (auto simp: keepChunk_fields count req ex intro!: exI [of _ "[]"])
  qed
qed

lemma settledWrite_Returned:
  "settledWrite m w = (Returned r, w') \<Longrightarrow>
     (\<exists>e. r = Inl e) \<or> (\<exists>x. r = Inr x \<and> m w = (Returned (Inr x), w'))"
  by (auto simp: settledWrite_def andThen_Returned attempt_def give_def split: prod.splits settlement.splits sum.splits)

lemma appendTo_Returned:
  assumes "appendTo env path s c w = (Returned c', w')"
  obtains r where "c' = c\<lparr>cs_writeResult := r\<rparr>" "(\<exists>e. r = Inl e) \<or> r = Inr () \<and> sh_appendFile env path s w = (Returned (Inr ()), w')"
  using assms settledWrite_Returned [of "sh_appendFile env path s" w]
  by (auto simp: appendTo_def andThen_Returned give_def)

lemma captures_fields:
  "captures whole (c\<lparr>cs_writeChain := x1\<rparr>) = captures whole c" "captures whole (c\<lparr>cs_writeResult := x2\<rparr>) = captures whole c"
  "captures whole (c\<lparr>cs_fullOutputPath := x3\<rparr>) = captures whole c" "captures whole (c\<lparr>cs_captureError := x4\<rparr>) = captures whole c"
  "captures whole (c\<lparr>cs_acceptingOutput := x5\<rparr>) = captures whole c"
  "exceeds (c\<lparr>cs_writeChain := x1\<rparr>) = exceeds c" "exceeds (c\<lparr>cs_writeResult := x2\<rparr>) = exceeds c"
  "exceeds (c\<lparr>cs_fullOutputPath := x3\<rparr>) = exceeds c" "exceeds (c\<lparr>cs_acceptingOutput := x5\<rparr>) = exceeds c"
  by (simp_all add: captures_def exceeds_def totalLinesOf_def)

lemma savedOutput_job:
  assumes "runJob env c w = (Returned c', w')" "savedOutput (files w) whole c" "appendingFiles env files" "captures whole c"
  shows "savedOutput (files w') whole c' \<and> captures whole c' \<and> cs_writeChain c' = tl (cs_writeChain c) \<and>
    cs_captureError c' = cs_captureError c \<and> cs_acceptingOutput c' = cs_acceptingOutput c \<and> exceeds c' = exceeds c"
proof (cases "cs_writeChain c")
  case Nil with assms show ?thesis by (auto simp: runJob_def give_def)
next
  case (Cons job rest)
  let ?c = "c\<lparr>cs_writeChain := rest\<rparr>"
  show ?thesis
  proof (cases "cs_writeResult c")
    case (Inl e)
    with Cons assms show ?thesis by (auto simp: runJob_def give_def savedOutput_def captures_fields)
  next
    case (Inr u)
    show ?thesis
    proof (cases job)
      case (CreateJob s)
      with Cons Inr assms(1) obtain r v where r: "settledWrite (sh_createTempFile env) w = (Returned r, v)"
        "(case r of Inl e \<Rightarrow> give (?c\<lparr>cs_writeResult := Inl e\<rparr>) | Inr path \<Rightarrow> appendTo env path s (?c\<lparr>cs_fullOutputPath := Some path\<rparr>)) v = (Returned c', w')"
        by (auto simp: runJob_def andThen_Returned Let_def)
      show ?thesis
      proof (cases r)
        case (Inl e)
        with r(2) Cons assms(2,4) show ?thesis by (auto simp: give_def savedOutput_def captures_fields)
      next
        case (Inr p)
        with settledWrite_Returned [OF r(1)] assms(3) have nil: "files v p = []" by (auto simp: appendingFiles_def)
        from r(2) Inr have "appendTo env p s (?c\<lparr>cs_fullOutputPath := Some p\<rparr>) v = (Returned c', w')" by simp
        then obtain q where q: "c' = ?c\<lparr>cs_fullOutputPath := Some p, cs_writeResult := q\<rparr>"
          "(\<exists>e. q = Inl e) \<or> q = Inr () \<and> sh_appendFile env p s v = (Returned (Inr ()), w')" by (rule appendTo_Returned)
        from q(2) assms(3) nil have "(\<exists>e. q = Inl e) \<or> files w' p = s" by (auto simp: appendingFiles_def)
        with q(1) Cons CreateJob assms(2,4) \<open>cs_writeResult c = Inr u\<close> show ?thesis
          by (auto simp: savedOutput_def captures_fields)
      qed
    next
      case (AppendJob s)
      show ?thesis
      proof (cases "cs_fullOutputPath c")
        case None
        with Cons Inr AppendJob assms show ?thesis by (auto simp: runJob_def give_def savedOutput_def captures_fields)
      next
        case (Some p)
        with Cons Inr AppendJob assms(1) have "appendTo env p s ?c w = (Returned c', w')" by (simp add: runJob_def)
        then obtain q where q: "c' = ?c\<lparr>cs_writeResult := q\<rparr>"
          "(\<exists>e. q = Inl e) \<or> q = Inr () \<and> sh_appendFile env p s w = (Returned (Inr ()), w')" by (rule appendTo_Returned)
        from q(2) assms(3) have "(\<exists>e. q = Inl e) \<or> files w' p = files w p @ s" by (auto simp: appendingFiles_def)
        with q(1) Cons AppendJob Some assms(2,4) Inr show ?thesis
          by (auto simp: savedOutput_def captures_fields map_eq_Cons_conv) metis
      qed
    qed
  qed
qed

section \<open>A whole run\<close>

definition chunksOf :: "shell_event list \<Rightarrow> jsstr list" where
  "chunksOf es = concat (map (\<lambda>e. case e of Chunk s \<Rightarrow> [s] | WriteStep \<Rightarrow> []) es)"

definition outputOf :: "shell_event list \<Rightarrow> jsstr" where
  "outputOf es = concat (map cleanChunk (chunksOf es))"

lemma chunksOf_simps [simp]: "chunksOf [] = []" "chunksOf (Chunk s # es) = s # chunksOf es" "chunksOf (WriteStep # es) = chunksOf es"
  by (simp_all add: chunksOf_def)

text \<open>While the command runs.\<close>

definition capturing :: "('p \<Rightarrow> jsstr) \<Rightarrow> jsstr \<Rightarrow> 'p capture_state \<Rightarrow> bool" where
  "capturing files whole c \<longleftrightarrow> captures whole c \<and> savedOutput files whole c"

lemma capturing_chunk:
  assumes "onChunk env s c w = (Returned c', w')" "capturing (files w) whole c" "cs_acceptingOutput c"
    "well_formed s" "appendingFiles env files"
  shows "capturing (files w') (whole @ cleanChunk s) c' \<and> cs_acceptingOutput c'"
proof -
  let ?s = "cleanChunk s"
  let ?k = "keepChunk ?s (countChunk ?s c)"
  note wf = well_formed_clean [OF assms(4)]
  have cap: "captures whole c" "savedOutput (files w) whole c" using assms(2) by (simp_all add: capturing_def)
  have acc: "cs_acceptingOutput ?k" using assms(3) by (simp add: keepChunk_fields countChunk_counts [OF cap(1) wf])
  have "files w' = files w \<and> (c' = ?k \<or> (\<exists>e. c' = ?k\<lparr>cs_captureError := Some (UnknownCode, e)\<rparr>))"
    using assms(1,3,5)
    by (auto simp: onChunk_def Let_def andThen_Returned attempt_def give_def appendingFiles_def split: prod.splits settlement.splits sum.splits)
  with captures_chunk [OF cap(1) wf] savedOutput_chunk [OF cap(1) wf cap(2)] acc show ?thesis
    by (auto simp: capturing_def captures_fields savedOutput_def)
qed

lemma capturing_events:
  assumes "handleEvents env es c w = (Returned c', w')" "capturing (files w) whole c" "cs_acceptingOutput c"
    "\<forall>s \<in> set (chunksOf es). well_formed s" "appendingFiles env files"
  shows "capturing (files w') (whole @ outputOf es) c'"
  using assms
proof (induction env es c arbitrary: whole w rule: handleEvents.induct)
  case (2 env s es c)
  then obtain d v where d: "onChunk env s c w = (Returned d, v)" "handleEvents env es d v = (Returned c', w')"
    by (auto simp: andThen_Returned)
  from capturing_chunk [OF d(1) "2.prems"(2,3) _ "2.prems"(5)] "2.prems"(4)
  have "capturing (files v) (whole @ cleanChunk s) d" "cs_acceptingOutput d" by auto
  from "2.IH" [OF d(2) this _ "2.prems"(5)] "2.prems"(4) show ?case by (simp add: outputOf_def)
next
  case (3 env es c)
  then obtain d v where d: "runJob env c w = (Returned d, v)" "handleEvents env es d v = (Returned c', w')"
    by (auto simp: andThen_Returned)
  from "3.prems"(2) have "captures whole c" "savedOutput (files w) whole c" by (simp_all add: capturing_def)
  from savedOutput_job [OF d(1) this(2) "3.prems"(5) this(1)] "3.prems"(3)
  have "capturing (files v) whole d" "cs_acceptingOutput d" by (auto simp: capturing_def)
  from "3.IH" [OF d(2) this _ "3.prems"(5)] "3.prems"(4) show ?case by (simp add: outputOf_def)
qed (simp add: give_def outputOf_def)

lemma capturing_writes:
  assumes "settleWrites env jobs c w = (Returned c', w')" "capturing (files w) whole c" "length jobs = length (cs_writeChain c)"
    "appendingFiles env files"
  shows "capturing (files w') whole c' \<and> cs_writeChain c' = []"
  using assms
proof (induction env jobs c arbitrary: w rule: settleWrites.induct)
  case (2 env job jobs c)
  then obtain d v where d: "runJob env c w = (Returned d, v)" "settleWrites env jobs d v = (Returned c', w')"
    by (auto simp: andThen_Returned)
  from "2.prems"(2) have "captures whole c" "savedOutput (files w) whole c" by (simp_all add: capturing_def)
  from savedOutput_job [OF d(1) this(2) "2.prems"(4) this(1)] "2.prems"(3)
  have "capturing (files v) whole d" "length jobs = length (cs_writeChain d)" by (auto simp: capturing_def)
  from "2.IH" [OF d(2) this "2.prems"(4)] show ?case .
qed (simp add: give_def)

lemma capturing_new: "capturing files [] newCapture \<and> cs_acceptingOutput newCapture"
  by (simp add: capturing_def captures_def savedOutput_def newCapture_def exceeds_def totalLinesOf_def)

text \<open>What a result is made of.\<close>

lemma execute_Returned:
  assumes "executeShellWithCapture env command ret w = (Returned (Inr r), w')"
    "sh_exec env command w = (Returned (events, outcome), v)" "\<forall>s \<in> set (chunksOf events). well_formed s" "appendingFiles env files"
  obtains c where "capturing (files w') (outputOf events) c"
    "cs_writeChain c = []" "cs_writeResult c = Inr ()" "cs_captureError c = None"
    "cr_progress r = createProgress (sh_runtimeBuffer env) c"
proof -
  note ex = assms(2)
  with assms(1) obtain c u where c: "handleEvents env events newCapture v = (Returned c, u)"
    by (auto simp: executeShellWithCapture_def andThen_Returned)
  let ?c1 = "c\<lparr>cs_acceptingOutput := False\<rparr>"
  let ?c2 = "if tr_truncated (cp_truncation (createProgress (sh_runtimeBuffer env) ?c1)) \<and> \<not> cs_fullOutputRequested ?c1
      then ensureFullOutputFile (cs_tailOutput ?c1) ?c1 else ?c1"
  from assms(1) ex c have "andThen (settleWrites env (cs_writeChain ?c2) ?c2) (finishCapture env ret outcome) u = (Returned (Inr r), w')"
    by (cases outcome) (simp_all add: executeShellWithCapture_def andThen_apply Let_def give_def split del: if_split)
  then obtain d t where d: "settleWrites env (cs_writeChain ?c2) ?c2 u = (Returned d, t)" "finishCapture env ret outcome d t = (Returned (Inr r), w')"
    by (auto simp: andThen_Returned)
  have cap: "capturing (files u) (outputOf events) c"
    using capturing_events [OF c conjunct1 [OF capturing_new] conjunct2 [OF capturing_new] assms(3,4)] by simp
  then have "capturing (files u) (outputOf events) ?c1" by (auto simp: capturing_def captures_fields savedOutput_def)
  moreover have "?c2 = ?c1"
  proof (cases "cs_captureError c")
    case None
    have "tr_truncated (cp_truncation (createProgress (sh_runtimeBuffer env) ?c1)) = exceeds c"
      by (auto simp: createProgress_def Let_def exceeds_def totalLinesOf_def)
    moreover have "cs_fullOutputRequested c = exceeds c" using cap None by (simp add: capturing_def savedOutput_def)
    ultimately show ?thesis by simp
  qed (simp add: ensureFullOutputFile_def)
  ultimately have "capturing (files u) (outputOf events) ?c2" by simp
  from capturing_writes [OF d(1) this refl assms(4)] have dc: "capturing (files t) (outputOf events) d" "cs_writeChain d = []" by auto
  from d(2) have "t = w'" "cs_writeResult d = Inr ()" "cs_captureError d = None"
      "cr_progress r = createProgress (sh_runtimeBuffer env) d"
    by (auto simp: finishCapture_def give_def ask_def andThen_def Let_def captureResult_def split: sum.splits option.splits exec_outcome.splits if_splits)
  with that dc show ?thesis by blast
qed

text \<open>
  C27. A captured command reports the whole of its output although only the end of it stays in memory: for
  chunks that split no character, the truncation is that of all cleaned chunks, whatever the order of
  chunks and writes, and when something is cut off the named file holds the whole output.
\<close>

theorem shell_output_complete:
  assumes "executeShellWithCapture env command ret w = (Returned (Inr r), w')"
    "sh_exec env command w = (Returned (events, outcome), v)" "\<forall>s \<in> set (chunksOf events). well_formed s" "appendingFiles env files"
  shows "cp_truncation (cr_progress r) = truncateTail (sh_runtimeBuffer env) (outputOf events) noOptions \<and>
    cp_output (cr_progress r) = tr_content (cp_truncation (cr_progress r)) \<and>
    (tr_truncated (cp_truncation (cr_progress r)) \<longrightarrow> (\<exists>p. cp_fullOutputPath (cr_progress r) = Some p \<and> files w' p = outputOf events))"
proof -
  let ?rb = "sh_runtimeBuffer env"
  obtain c where c: "capturing (files w') (outputOf events) c" "cs_writeChain c = []" "cs_writeResult c = Inr ()"
      "cs_captureError c = None" "cr_progress r = createProgress ?rb c"
    using execute_Returned [OF assms] .
  have "tr_truncated (cp_truncation (createProgress ?rb c)) = exceeds c" "cp_fullOutputPath (createProgress ?rb c) = cs_fullOutputPath c"
    by (auto simp: createProgress_def Let_def exceeds_def)
  with c captures_progress [of "outputOf events" c ?rb] show ?thesis
    by (auto simp: capturing_def savedOutput_def)
qed

text \<open>An environment with one file and a command that prints 2001 empty lines.\<close>

definition demoShell :: "(jsstr, unit) shell_env" where
  "demoShell = \<lparr>sh_exec = (\<lambda>_. give ([Chunk (replicate 2001 LF), WriteStep], Exited 0)),
     sh_createTempFile = andThen (change (\<lambda>_. [])) (\<lambda>_. give (Inr ())),
     sh_appendFile = (\<lambda>_ s. andThen (change (\<lambda>w. w @ s)) (\<lambda>_. give (Inr ()))),
     sh_onChunk = (\<lambda>_ _. give ()), sh_aborted = (\<lambda>_. False), sh_runtimeBuffer = True\<rparr>"

lemma demoShell_run:
  "\<exists>r. executeShellWithCapture demoShell [] False [] = (Returned (Inr r), replicate 2001 LF)"
proof -
  have clean: "cleanChunk (replicate n LF) = replicate n LF" for n
    by (simp add: cleanChunk_def sanitize_filter isPrintable_def)
  have split: "length (split_on LF (replicate n LF)) = Suc n" for n by (induction n) simp_all
  define c where "c = keepChunk (replicate 2001 LF) (countChunk (replicate 2001 LF) (newCapture :: unit capture_state))"
  have count: "cs_completedLines (countChunk (replicate 2001 LF) newCapture) = 2001" "cs_captureError (countChunk s newCapture) = None"
    "cs_fullOutputRequested (countChunk s newCapture) = False" "cs_tailOutput (countChunk s newCapture) = []"
    "cs_writeChain (countChunk s newCapture) = []" "cs_writeResult (countChunk s newCapture) = Inr ()" for s
    by (auto simp: countChunk_def newCapture_def Let_def split)
  have acc: "cs_acceptingOutput newCapture" by (simp add: newCapture_def)
  have "exceeds (countChunk (replicate 2001 LF) (newCapture :: unit capture_state))"
    by (simp add: exceeds_def totalLinesOf_def count DEFAULT_MAX_LINES_def)
  then have fields: "cs_writeChain c = [CreateJob (replicate 2001 LF)]" "cs_writeResult c = Inr ()" "cs_captureError c = None"
    "cs_fullOutputRequested c = True"
    by (simp_all add: c_def keepChunk_fields count)
  show ?thesis
    using fields
    by (simp add: executeShellWithCapture_def finishCapture_def demoShell_def onChunk_def runJob_def settledWrite_def appendTo_def
        clean Let_def action_run acc flip: c_def)
qed

theorem shell_output_complete_witness:
  "\<exists>r. executeShellWithCapture demoShell [] False [] = (Returned (Inr r), replicate 2001 LF) \<and>
    tr_totalLines (cp_truncation (cr_progress r)) = 2001 \<and> cp_fullOutputPath (cr_progress r) = Some ()"
proof -
  have clean: "outputOf [Chunk (replicate 2001 LF), WriteStep] = replicate 2001 LF"
    by (simp add: outputOf_def cleanChunk_def sanitize_filter isPrintable_def)
  have split: "length (split_on LF (replicate n LF)) = Suc n" for n by (induction n) simp_all
  have lines: "length (splitLinesForCounting (replicate 2001 LF)) = 2001"
    by (simp add: splitLinesForCounting_def split last_replicate)
  have wf: "well_formed (replicate n LF)" for n by (induction n) (simp_all add: well_formed_single)
  obtain r where r: "executeShellWithCapture demoShell [] False [] = (Returned (Inr r), replicate 2001 LF)"
    using demoShell_run by blast
  have exec: "sh_exec demoShell [] [] = (Returned ([Chunk (replicate 2001 LF), WriteStep], Exited 0), [])"
    by (simp add: demoShell_def give_def)
  have files: "appendingFiles demoShell (\<lambda>w p. w)" by (auto simp: appendingFiles_def demoShell_def action_run)
  have all: "\<forall>s \<in> set (chunksOf [Chunk (replicate 2001 LF), WriteStep]). well_formed s" using wf by simp
  have "tr_truncated (truncateTail True (replicate 2001 LF) noOptions)"
    by (simp add: tail_truncated(1) lines noOptions_def maxLinesOf_def DEFAULT_MAX_LINES_def)
  with shell_output_complete [OF r exec all files] r show ?thesis
    by (auto simp: clean demoShell_def tail_truncated(2) lines)
qed

end
