(* ===== verification/BashTool.thy ===== *)
theory BashTool
  imports ShellProps JsFloat
begin

text \<open>
  The bash tool (\<open>packages/agent/src/harness/tools/bash.ts\<close>): the check of the timeout, the command that is
  run, the text of the result with its notice of what was cut off, the status of a command that failed,
  and the throttling of the updates shown while the command runs.
\<close>

section \<open>Timeouts\<close>

text \<open>The double nearest to \<open>2147483.647\<close>.\<close>

definition MAX_TIMEOUT_SECONDS :: jsnum where
  "MAX_TIMEOUT_SECONDS = 0x4140624DD2D0E560"

definition BASH_UPDATE_THROTTLE_MS :: int where
  "BASH_UPDATE_THROTTLE_MS = 100"

datatype timeout_error = NotFinitePositive | AboveMaximum

definition validateTimeout :: "jsnum option \<Rightarrow> timeout_error + unit" where
  "validateTimeout timeout =
     (case timeout of None \<Rightarrow> Inr ()
      | Some t \<Rightarrow>
          if \<not> num_finite t \<or> num_units t \<le> 0 then Inl NotFinitePositive
          else if num_units t > num_units MAX_TIMEOUT_SECONDS then Inl AboveMaximum
          else Inr ())"

section \<open>Updates\<close>

text \<open>
  Times are milliseconds. The timer is the time it is due at, the progress shown is the one current when
  an update is emitted, and \<open>us_emitted\<close> is what the listener has received, newest first.
\<close>

record 'a update_state =
  us_latest :: "'a option"
  us_timer :: "int option"
  us_dirty :: bool
  us_lastUpdateAt :: int
  us_emitted :: "(int \<times> 'a) list"

definition noUpdates :: "'a update_state" where
  "noUpdates = \<lparr>us_latest = None, us_timer = None, us_dirty = False, us_lastUpdateAt = 0, us_emitted = []\<rparr>"

definition emitOutputUpdate :: "bool \<Rightarrow> int \<Rightarrow> 'a update_state \<Rightarrow> 'a update_state" where
  "emitOutputUpdate listener now s =
     (case us_latest s of
        Some progress \<Rightarrow>
          (if \<not> listener \<or> \<not> us_dirty s then s
           else s\<lparr>us_dirty := False, us_lastUpdateAt := now, us_emitted := (now, progress) # us_emitted s\<rparr>)
      | None \<Rightarrow> s)"

definition scheduleOutputUpdate :: "bool \<Rightarrow> int \<Rightarrow> 'a update_state \<Rightarrow> 'a update_state" where
  "scheduleOutputUpdate listener now s0 =
     (if \<not> listener then s0
      else
        let s = s0\<lparr>us_dirty := True\<rparr>; delay = BASH_UPDATE_THROTTLE_MS - (now - us_lastUpdateAt s) in
        if delay \<le> 0 then emitOutputUpdate listener now (s\<lparr>us_timer := None\<rparr>)
        else s\<lparr>us_timer := (case us_timer s of Some due \<Rightarrow> Some due | None \<Rightarrow> Some (now + delay))\<rparr>)"

datatype 'a update_event = OutputArrived int 'a | TimerFired int

fun updateStep :: "bool \<Rightarrow> 'a update_event \<Rightarrow> 'a update_state \<Rightarrow> 'a update_state" where
  "updateStep listener (OutputArrived now progress) s = scheduleOutputUpdate listener now (s\<lparr>us_latest := Some progress\<rparr>)"
| "updateStep listener (TimerFired now) s = emitOutputUpdate listener now (s\<lparr>us_timer := None\<rparr>)"

text \<open>The last update, with the captured result.\<close>

definition finalUpdate :: "bool \<Rightarrow> int \<Rightarrow> 'a \<Rightarrow> 'a update_state \<Rightarrow> 'a update_state" where
  "finalUpdate listener now capture s =
     emitOutputUpdate listener now (s\<lparr>us_timer := None, us_latest := Some capture, us_dirty := True\<rparr>)"

text \<open>A timer fires when it is due, and the clock does not go back.\<close>

inductive update_run :: "bool \<Rightarrow> int \<Rightarrow> 'a update_state \<Rightarrow> bool" for listener where
  start: "update_run listener now noUpdates"
| arrived: "update_run listener t s \<Longrightarrow> t \<le> now \<Longrightarrow> update_run listener now (updateStep listener (OutputArrived now p) s)"
| fired: "update_run listener t s \<Longrightarrow> t \<le> now \<Longrightarrow> us_timer s = Some due \<Longrightarrow> due \<le> now \<Longrightarrow>
    update_run listener now (updateStep listener (TimerFired now) s)"

definition throttled :: "int \<Rightarrow> 'a update_state \<Rightarrow> bool" where
  "throttled now s \<longleftrightarrow>
     sorted_wrt (\<lambda>later earlier. fst earlier + BASH_UPDATE_THROTTLE_MS \<le> fst later) (us_emitted s) \<and>
     (us_emitted s \<noteq> [] \<longrightarrow> us_lastUpdateAt s = fst (hd (us_emitted s))) \<and>
     (us_dirty s \<longrightarrow> us_timer s \<noteq> None \<and> us_latest s \<noteq> None) \<and>
     (\<forall>due. us_timer s = Some due \<longrightarrow> us_lastUpdateAt s + BASH_UPDATE_THROTTLE_MS \<le> due)"

text \<open>Updates are at least the throttle apart, and output that was not shown has a timer.\<close>

lemma throttled_emit:
  assumes "throttled t (s\<lparr>us_dirty := d, us_timer := x, us_latest := l\<rparr>)" "us_lastUpdateAt s + BASH_UPDATE_THROTTLE_MS \<le> now"
    "us_timer s = None" "us_dirty s \<longrightarrow> us_latest s \<noteq> None"
  shows "throttled now (emitOutputUpdate True now s)"
proof -
  have "fst e + BASH_UPDATE_THROTTLE_MS \<le> now" if "e \<in> set (us_emitted s)" for e
    using assms(1,2) that by (cases "us_emitted s") (auto simp: throttled_def BASH_UPDATE_THROTTLE_MS_def)
  with assms show ?thesis
    by (auto simp: throttled_def emitOutputUpdate_def split: option.splits)
qed

lemma updates_throttled: "update_run True now s \<Longrightarrow> throttled now s"
proof (induction rule: update_run.induct)
  case (start now)
  then show ?case by (simp add: throttled_def noUpdates_def)
next
  case (arrived t s now p)
  let ?s = "s\<lparr>us_latest := Some p, us_dirty := True\<rparr>"
  show ?case
  proof (cases "BASH_UPDATE_THROTTLE_MS - (now - us_lastUpdateAt s) \<le> 0")
    case True
    have "throttled now (emitOutputUpdate True now (?s\<lparr>us_timer := None\<rparr>))"
      using arrived.IH True
      by (intro throttled_emit [where t = t and d = "us_dirty s" and x = "us_timer s" and l = "us_latest s"]) simp_all
    with True show ?thesis by (simp add: scheduleOutputUpdate_def Let_def)
  next
    case False
    with arrived.IH show ?thesis by (auto simp: scheduleOutputUpdate_def Let_def throttled_def split: option.splits)
  qed
next
  case (fired t s now due)
  from fired.IH fired.hyps have "us_lastUpdateAt s + BASH_UPDATE_THROTTLE_MS \<le> now" by (auto simp: throttled_def)
  then show ?case
    unfolding updateStep.simps
    by (intro throttled_emit [where t = t and d = "us_dirty s" and x = "us_timer s" and l = "us_latest s"])
      (use fired.IH in \<open>simp_all add: throttled_def\<close>)
qed

section \<open>The result\<close>

definition bashCommand :: "jsstr option \<Rightarrow> jsstr \<Rightarrow> jsstr" where
  "bashCommand commandPrefix command =
     (case commandPrefix of None \<Rightarrow> command | Some p \<Rightarrow> if p = [] then command else p @ [LF] @ command)"

datatype bash_failure = InvalidTimeout timeout_error | CaptureFailed exec_error | CommandAborted jsstr | CommandTimedOut jsstr | CommandExited jsstr

definition pathText :: "jsstr option \<Rightarrow> jsstr" where
  "pathText p = (case p of None \<Rightarrow> jstr ''undefined'' | Some s \<Rightarrow> s)"

definition startLineShown :: "truncation_result \<Rightarrow> int" where
  "startLineShown t = int (tr_totalLines t) - int (tr_outputLines t) + 1"

definition bashNotice :: "jsstr capture_progress \<Rightarrow> jsstr" where
  "bashNotice capture =
     (let t = cp_truncation capture; shown = show_int (startLineShown t) @ ''-'' @ show_nat (tr_totalLines t) @ '' of '' @ show_nat (tr_totalLines t);
          ending = jstr ''. Full output: '' @ pathText (cp_fullOutputPath capture) @ jstr '']'' in
      [LF, LF] @
      (if tr_lastLinePartial t then
         jstr (''[Showing last '' @ formatSize (tr_outputBytes t) @ '' of line '' @ show_nat (tr_totalLines t) @ '' (line is ''
           @ formatSize (cp_lastLineBytes capture) @ '')'') @ ending
       else if tr_truncatedBy t = Some LineLimit then jstr (''[Showing lines '' @ shown) @ ending
       else jstr (''[Showing lines '' @ shown @ '' ('' @ formatSize DEFAULT_MAX_BYTES @ '' limit)'') @ ending))"

definition bashText :: "jsstr capture_progress \<Rightarrow> jsstr" where
  "bashText capture = cp_output capture @ (if tr_truncated (cp_truncation capture) then bashNotice capture else [])"

definition appendStatus :: "jsstr \<Rightarrow> jsstr \<Rightarrow> jsstr" where
  "appendStatus outputText status = (if outputText = [] then [] else outputText @ [LF, LF]) @ status"

text \<open>The details are given when the output was truncated.\<close>

definition bashResult :: "jsnum option \<Rightarrow> jsstr capture_result \<Rightarrow> bash_failure + jsstr \<times> jsstr capture_progress option" where
  "bashResult timeout capture =
     (let outputText = bashText (cr_progress capture);
          details = (if tr_truncated (cp_truncation (cr_progress capture)) then Some (cr_progress capture) else None) in
      if cr_cancelled capture then Inl (CommandAborted (appendStatus outputText (jstr ''Command aborted'')))
      else case cr_executionError capture of
        Some (code, message) \<Rightarrow>
          (if code = TimeoutCode
           then Inl (CommandTimedOut (appendStatus outputText (jstr (''Command timed out after ''
             @ (case timeout of None \<Rightarrow> ''undefined'' | Some t \<Rightarrow> num_toString t) @ '' seconds''))))
           else Inl (CaptureFailed (code, message)))
      | None \<Rightarrow>
          (case cr_exitCode capture of
             Some n \<Rightarrow>
               (if n \<noteq> 0 then Inl (CommandExited (appendStatus outputText (jstr (''Command exited with code '' @ show_int n))))
                else Inr (if outputText = [] then jstr ''(no output)'' else outputText, details))
           | None \<Rightarrow> Inr (if outputText = [] then jstr ''(no output)'' else outputText, details)))"

definition executeBash :: "('w, jsstr) shell_env \<Rightarrow> (jsstr \<Rightarrow> ('w, jsstr) action) \<Rightarrow> jsstr option \<Rightarrow> jsstr \<Rightarrow> jsnum option
    \<Rightarrow> ('w, bash_failure + jsstr \<times> jsstr capture_progress option) action" where
  "executeBash env prepare commandPrefix command timeout =
     (case validateTimeout timeout of Inl e \<Rightarrow> give (Inl (InvalidTimeout e)) | Inr _ \<Rightarrow>
      andThen (prepare (bashCommand commandPrefix command)) (\<lambda>prepared.
      andThen (executeShellWithCapture env prepared True) (\<lambda>r.
      case r of Inl e \<Rightarrow> give (Inl (CaptureFailed e)) | Inr capture \<Rightarrow> give (bashResult timeout capture))))"

section \<open>The notice\<close>

text \<open>When whole lines are shown, the text is the lines the notice names, counted from 1.\<close>

lemma bash_lines_shown:
  assumes "t = truncateTail rb s noOptions" "tr_truncated t" "\<not> tr_lastLinePartial t"
  shows "tr_content t = join [LF] (drop (nat (startLineShown t) - 1) (splitLinesForCounting s)) \<and>
    1 \<le> startLineShown t \<and> tr_totalLines t = length (splitLinesForCounting s)"
proof -
  have "fits_tail s (maxLinesOf noOptions) (maxBytesOf noOptions) t" unfolding assms(1) by (rule truncateTail_fits)
  then have n: "tr_outputLines t \<le> length (splitLinesForCounting s)"
    and c: "tr_content t = join [LF] (drop (length (splitLinesForCounting s) - tr_outputLines t) (splitLinesForCounting s))"
    using assms(2,3) by (simp_all add: fits_tail_def Let_def)
  have total: "tr_totalLines t = length (splitLinesForCounting s)" unfolding assms(1) by (rule tail_truncated(2))
  have "nat (startLineShown t) - 1 = length (splitLinesForCounting s) - tr_outputLines t"
    using n by (simp add: startLineShown_def total nat_diff_distrib)
  with c n total show ?thesis by (simp add: startLineShown_def)
qed

text \<open>
  The size of the last line is lost when the output ends in a line feed: a long last line of which only
  the end is shown is reported with a size of 0 bytes.
\<close>

lemma last_line_size_lost:
  "cp_lastLineBytes (createProgress rb (keepChunk (s @ [LF]) (countChunk (s @ [LF]) c))) = 0"
  by (simp add: createProgress_def keepChunk_def countChunk_def ensureFullOutputFile_def appendFullOutput_def Let_def split_on_snoc)

end
