(* ===== verification/Transform.thy ===== *)
theory Transform
  imports SessionTypes "HOL-Library.Sublist" "HOL-Library.Multiset"
begin

text \<open>
  The history as a provider receives it (\<open>packages/ai/src/api/transform-messages.ts\<close>): messages of another
  model lose what only that model can read, identifiers of tool calls are normalized, images are replaced
  for models without vision, failed turns are left out and tool calls without a result get one. Messages
  are typed, so the repair of missing content is not needed; the replay data that a provider may attach to
  its own messages is not part of a message here.
\<close>

section \<open>Images\<close>

definition NON_VISION_USER_IMAGE_PLACEHOLDER :: string where
  "NON_VISION_USER_IMAGE_PLACEHOLDER = ''(image omitted: model does not support images)''"

definition NON_VISION_TOOL_IMAGE_PLACEHOLDER :: string where
  "NON_VISION_TOOL_IMAGE_PLACEHOLDER = ''(tool image omitted: model does not support images)''"

record target_model =
  tm_id :: string
  tm_api :: string
  tm_provider :: string
  tm_input :: "string list"

text \<open>The flag tells whether the previous block was the placeholder.\<close>

fun replaceImages :: "string \<Rightarrow> bool \<Rightarrow> content list \<Rightarrow> content list" where
  "replaceImages placeholder previous [] = []"
| "replaceImages placeholder previous (ImageContent d mime # bs) =
     (if previous then [] else [TextContent placeholder None]) @ replaceImages placeholder True bs"
| "replaceImages placeholder previous (TextContent t sig # bs) =
     TextContent t sig # replaceImages placeholder (t = placeholder) bs"
| "replaceImages placeholder previous (b # bs) = b # replaceImages placeholder False bs"

definition replaceImagesWithPlaceholder :: "content list \<Rightarrow> string \<Rightarrow> content list" where
  "replaceImagesWithPlaceholder bs placeholder = replaceImages placeholder False bs"

definition downgradeMessage :: "agent_message \<Rightarrow> agent_message" where
  "downgradeMessage msg =
     (case msg of
        UserMessage u \<Rightarrow> (case um_content u of
            Blocks bs \<Rightarrow> UserMessage (u\<lparr>um_content := Blocks (replaceImagesWithPlaceholder bs NON_VISION_USER_IMAGE_PLACEHOLDER)\<rparr>)
          | TextBody _ \<Rightarrow> msg)
      | ToolResultMessage r \<Rightarrow>
          ToolResultMessage (r\<lparr>tr_content := replaceImagesWithPlaceholder (tr_content r) NON_VISION_TOOL_IMAGE_PLACEHOLDER\<rparr>)
      | _ \<Rightarrow> msg)"

definition downgradeUnsupportedImages :: "agent_message list \<Rightarrow> target_model \<Rightarrow> agent_message list" where
  "downgradeUnsupportedImages messages model =
     (if ''image'' \<in> set (tm_input model) then messages else map downgradeMessage messages)"

section \<open>The first pass\<close>

definition isSameModel :: "target_model \<Rightarrow> assistant_message \<Rightarrow> bool" where
  "isSameModel model a \<longleftrightarrow> am_provider a = tm_provider model \<and> am_api a = tm_api model \<and> am_model a = tm_id model"

text \<open>A property that JavaScript takes for true, and a text that \<open>trim\<close> makes empty (8-bit characters).\<close>

definition truthy :: "string option \<Rightarrow> bool" where
  "truthy s \<longleftrightarrow> s \<noteq> None \<and> s \<noteq> Some []"

definition isBlank :: "string \<Rightarrow> bool" where
  "isBlank s \<longleftrightarrow> list_all (\<lambda>c. of_char c \<in> {9, 10, 11, 12, 13, 32, 160 :: nat}) s"

type_synonym id_normalizer = "string \<Rightarrow> target_model \<Rightarrow> assistant_message \<Rightarrow> string"

definition transformToolCall ::
    "target_model \<Rightarrow> id_normalizer option \<Rightarrow> assistant_message \<Rightarrow> tool_call \<Rightarrow> (string, string) jsmap \<Rightarrow> tool_call \<times> (string, string) jsmap" where
  "transformToolCall model normalizeToolCallId a tc idMap =
     (let same = isSameModel model a;
          plain = (if \<not> same \<and> truthy (tc_thoughtSignature tc) then tc\<lparr>tc_thoughtSignature := None\<rparr> else tc) in
      case normalizeToolCallId of
        None \<Rightarrow> (plain, idMap)
      | Some normId \<Rightarrow>
          (if same then (plain, idMap)
           else
             let normalizedId = normId (tc_id tc) model a in
             if normalizedId \<noteq> tc_id tc then (plain\<lparr>tc_id := normalizedId\<rparr>, map_set (tc_id tc) normalizedId idMap)
             else (plain, idMap)))"

definition transformThinking :: "bool \<Rightarrow> string \<Rightarrow> string option \<Rightarrow> bool option \<Rightarrow> content list" where
  "transformThinking same thinking signature redacted =
     (let block = ThinkingContent thinking signature redacted in
      if redacted = Some True then (if same then [block] else [])
      else if same \<and> truthy signature then [block]
      else if isBlank thinking then []
      else if same then [block]
      else [TextContent thinking None])"

fun transformContent ::
    "target_model \<Rightarrow> id_normalizer option \<Rightarrow> assistant_message \<Rightarrow> content list \<Rightarrow> (string, string) jsmap \<Rightarrow> content list \<times> (string, string) jsmap" where
  "transformContent model normId a [] idMap = ([], idMap)"
| "transformContent model normId a (ThinkingContent t sig red # bs) idMap =
     (case transformContent model normId a bs idMap of (out, m) \<Rightarrow> (transformThinking (isSameModel model a) t sig red @ out, m))"
| "transformContent model normId a (TextContent t sig # bs) idMap =
     (case transformContent model normId a bs idMap of (out, m) \<Rightarrow>
        ((if isSameModel model a then TextContent t sig else TextContent t None) # out, m))"
| "transformContent model normId a (ToolCallContent tc # bs) idMap =
     (case transformToolCall model normId a tc idMap of (tc', m1) \<Rightarrow>
      case transformContent model normId a bs m1 of (out, m) \<Rightarrow> (ToolCallContent tc' # out, m))"
| "transformContent model normId a (b # bs) idMap =
     (case transformContent model normId a bs idMap of (out, m) \<Rightarrow> (b # out, m))"

text \<open>\<open>if (normalizedId && normalizedId !== msg.toolCallId)\<close>.\<close>

definition transformResult :: "tool_result_message \<Rightarrow> (string, string) jsmap \<Rightarrow> tool_result_message" where
  "transformResult r idMap =
     (case map_get idMap (tr_toolCallId r) of
        Some normalizedId \<Rightarrow> if normalizedId \<noteq> [] \<and> normalizedId \<noteq> tr_toolCallId r then r\<lparr>tr_toolCallId := normalizedId\<rparr> else r
      | None \<Rightarrow> r)"

fun firstPass :: "target_model \<Rightarrow> id_normalizer option \<Rightarrow> agent_message list \<Rightarrow> (string, string) jsmap \<Rightarrow> agent_message list" where
  "firstPass model normId [] idMap = []"
| "firstPass model normId (ToolResultMessage r # ms) idMap =
     ToolResultMessage (transformResult r idMap) # firstPass model normId ms idMap"
| "firstPass model normId (AssistantMessage a # ms) idMap =
     (case transformContent model normId a (am_content a) idMap of (out, m) \<Rightarrow>
        AssistantMessage (a\<lparr>am_content := out\<rparr>) # firstPass model normId ms m)"
| "firstPass model normId (msg # ms) idMap = msg # firstPass model normId ms idMap"

section \<open>The second pass\<close>

definition toolCallsIn :: "content list \<Rightarrow> tool_call list" where
  "toolCallsIn bs = concat (map (\<lambda>b. case b of ToolCallContent tc \<Rightarrow> [tc] | _ \<Rightarrow> []) bs)"

record pending_calls =
  pc_result :: "agent_message list"
  pc_pendingToolCalls :: "tool_call list"
  pc_existingToolResultIds :: "string set"

definition syntheticResult :: "int \<Rightarrow> tool_call \<Rightarrow> agent_message" where
  "syntheticResult now tc = ToolResultMessage
     \<lparr>tr_toolCallId = tc_id tc, tr_toolName = tc_name tc, tr_content = [TextContent ''No result provided'' None],
      tr_details = None, tr_usage = None, tr_addedToolNames = None, tr_isError = True, tr_timestamp = now\<rparr>"

definition insertSyntheticToolResults :: "int \<Rightarrow> pending_calls \<Rightarrow> pending_calls" where
  "insertSyntheticToolResults now p =
     (if pc_pendingToolCalls p = [] then p
      else \<lparr>pc_result = pc_result p @ map (syntheticResult now)
              (filter (\<lambda>tc. tc_id tc \<notin> pc_existingToolResultIds p) (pc_pendingToolCalls p)),
            pc_pendingToolCalls = [], pc_existingToolResultIds = {}\<rparr>)"

definition failedTurn :: "assistant_message \<Rightarrow> bool" where
  "failedTurn a \<longleftrightarrow> am_stopReason a = ErrorStop \<or> am_stopReason a = AbortedStop"

definition secondStep :: "int \<Rightarrow> agent_message \<Rightarrow> pending_calls \<Rightarrow> pending_calls" where
  "secondStep now msg p0 =
     (case msg of
        AssistantMessage a \<Rightarrow>
          (let p = insertSyntheticToolResults now p0; toolCalls = toolCallsIn (am_content a) in
           if failedTurn a then p
           else (if toolCalls \<noteq> [] then p\<lparr>pc_pendingToolCalls := toolCalls, pc_existingToolResultIds := {}\<rparr> else p)
             \<lparr>pc_result := pc_result p @ [msg]\<rparr>)
      | ToolResultMessage r \<Rightarrow>
          p0\<lparr>pc_existingToolResultIds := insert (tr_toolCallId r) (pc_existingToolResultIds p0), pc_result := pc_result p0 @ [msg]\<rparr>
      | UserMessage _ \<Rightarrow> (let p = insertSyntheticToolResults now p0 in p\<lparr>pc_result := pc_result p @ [msg]\<rparr>)
      | _ \<Rightarrow> p0\<lparr>pc_result := pc_result p0 @ [msg]\<rparr>)"

definition secondPass :: "int \<Rightarrow> agent_message list \<Rightarrow> agent_message list" where
  "secondPass now ms = pc_result (insertSyntheticToolResults now
     (fold (secondStep now) ms \<lparr>pc_result = [], pc_pendingToolCalls = [], pc_existingToolResultIds = {}\<rparr>))"

definition transformMessages :: "int \<Rightarrow> agent_message list \<Rightarrow> target_model \<Rightarrow> id_normalizer option \<Rightarrow> agent_message list" where
  "transformMessages now messages model normalizeToolCallId =
     secondPass now (firstPass model normalizeToolCallId (downgradeUnsupportedImages messages model) [])"

end
