(* ===== verification/TransformProps.thy ===== *)
theory TransformProps
  imports Transform
begin

text \<open>
  What a provider may rely on: every tool call it sees is answered, every message is readable by its model,
  and a history that was complete gets no made-up results. The tool calls that are open after a history are
  followed message by message; a new turn or a new user message with an open call is not acceptable.
\<close>

section \<open>Open tool calls\<close>

fun openCalls :: "string set \<Rightarrow> agent_message list \<Rightarrow> string set option" where
  "openCalls P [] = Some P"
| "openCalls P (AssistantMessage a # ms) = (if P = {} then openCalls (tc_id ` set (toolCallsIn (am_content a))) ms else None)"
| "openCalls P (UserMessage u # ms) = (if P = {} then openCalls {} ms else None)"
| "openCalls P (ToolResultMessage r # ms) = openCalls (P - {tr_toolCallId r}) ms"
| "openCalls P (_ # ms) = openCalls P ms"

definition callsAnswered :: "agent_message list \<Rightarrow> bool" where
  "callsAnswered ms \<longleftrightarrow> openCalls {} ms = Some {}"

lemma openCalls_append: "openCalls P (xs @ ys) = Option.bind (openCalls P xs) (\<lambda>Q. openCalls Q ys)"
  by (induction P xs rule: openCalls.induct) auto

lemma openCalls_results: "openCalls P (map (syntheticResult now) tcs) = Some (P - tc_id ` set tcs)"
  by (induction tcs arbitrary: P) (auto simp: syntheticResult_def set_diff_eq)

section \<open>The second pass\<close>

definition isSynthetic :: "int \<Rightarrow> agent_message \<Rightarrow> bool" where
  "isSynthetic now m \<longleftrightarrow> (\<exists>tc. m = syntheticResult now tc)"

definition keptTurn :: "agent_message \<Rightarrow> bool" where
  "keptTurn m \<longleftrightarrow> (case m of AssistantMessage a \<Rightarrow> \<not> failedTurn a | _ \<Rightarrow> True)"

definition pendingOpen :: "pending_calls \<Rightarrow> string set" where
  "pendingOpen p = tc_id ` set (pc_pendingToolCalls p) - pc_existingToolResultIds p"

definition tracks :: "int \<Rightarrow> agent_message list \<Rightarrow> pending_calls \<Rightarrow> bool" where
  "tracks now kept p \<longleftrightarrow>
     openCalls {} (pc_result p) = Some (pendingOpen p) \<and> subseq kept (pc_result p) \<and>
     (\<exists>made. mset (pc_result p) = mset kept + mset made \<and> (\<forall>m \<in> set made. isSynthetic now m))"

lemma tracks_insert:
  assumes "tracks now kept p"
  shows "tracks now kept (insertSyntheticToolResults now p) \<and> pendingOpen (insertSyntheticToolResults now p) = {}"
proof (cases "pc_pendingToolCalls p = []")
  case True with assms show ?thesis by (simp add: insertSyntheticToolResults_def pendingOpen_def)
next
  case False
  let ?new = "map (syntheticResult now) (filter (\<lambda>tc. tc_id tc \<notin> pc_existingToolResultIds p) (pc_pendingToolCalls p))"
  from assms obtain made where made: "mset (pc_result p) = mset kept + mset made" "\<forall>m \<in> set made. isSynthetic now m"
    by (auto simp: tracks_def)
  have "openCalls {} (pc_result p @ ?new) = Some {}"
    using assms by (auto simp: tracks_def openCalls_append openCalls_results pendingOpen_def)
  moreover have "subseq kept (pc_result p @ ?new)" using assms by (simp add: tracks_def subseq_rev_drop_many)
  moreover have "mset (pc_result p @ ?new) = mset kept + mset (made @ ?new)" using made by simp
  moreover have "\<forall>m \<in> set (made @ ?new). isSynthetic now m" using made by (auto simp: isSynthetic_def)
  ultimately have "tracks now kept \<lparr>pc_result = pc_result p @ ?new, pc_pendingToolCalls = [], pc_existingToolResultIds = {}\<rparr>"
    unfolding tracks_def pendingOpen_def pending_calls.simps by (intro conjI exI [of _ "made @ ?new"]) simp_all
  with False show ?thesis by (simp add: insertSyntheticToolResults_def pendingOpen_def)
qed

lemma tracks_push:
  assumes "tracks now kept p" "openCalls (pendingOpen p) [m] = Some (pendingOpen q)" "pc_result q = pc_result p @ [m]"
  shows "tracks now (kept @ [m]) q"
  using assms by (auto simp: tracks_def openCalls_append)

lemma tracks_step:
  assumes "tracks now kept p"
  shows "tracks now (kept @ (if keptTurn m then [m] else [])) (secondStep now m p)"
proof (cases m)
  case (AssistantMessage a)
  note ins = tracks_insert [OF assms]
  show ?thesis
  proof (cases "failedTurn a")
    case True with AssistantMessage ins show ?thesis by (simp add: secondStep_def keptTurn_def Let_def)
  next
    case False
    have "tracks now (kept @ [m]) (secondStep now m p)"
    proof (rule tracks_push [OF conjunct1 [OF ins]])
      have "pc_pendingToolCalls (insertSyntheticToolResults now p) = []" by (simp add: insertSyntheticToolResults_def)
      with AssistantMessage False conjunct2 [OF ins]
      show "openCalls (pendingOpen (insertSyntheticToolResults now p)) [m] = Some (pendingOpen (secondStep now m p))"
        by (simp add: secondStep_def Let_def pendingOpen_def)
    qed (use AssistantMessage False in \<open>simp add: secondStep_def Let_def\<close>)
    with AssistantMessage False show ?thesis by (simp add: keptTurn_def)
  qed
next
  case (UserMessage u)
  note ins = tracks_insert [OF assms]
  have "tracks now (kept @ [m]) (secondStep now m p)"
    using UserMessage conjunct2 [OF ins]
    by (intro tracks_push [OF conjunct1 [OF ins]]) (simp_all add: secondStep_def Let_def pendingOpen_def)
  with UserMessage show ?thesis by (simp add: keptTurn_def)
qed (auto intro!: tracks_push [OF assms] simp: secondStep_def keptTurn_def pendingOpen_def)

lemma tracks_fold: "tracks now kept p \<Longrightarrow> tracks now (kept @ filter keptTurn ms) (fold (secondStep now) ms p)"
proof (induction ms arbitrary: kept p)
  case (Cons m ms)
  from Cons.IH [OF tracks_step [OF Cons.prems, of m]] show ?case by (auto split: if_splits)
qed simp

lemma secondPass_tracks:
  "callsAnswered (secondPass now ms) \<and> subseq (filter keptTurn ms) (secondPass now ms) \<and>
   (\<exists>made. mset (secondPass now ms) = mset (filter keptTurn ms) + mset made \<and> (\<forall>m \<in> set made. isSynthetic now m))"
proof -
  have "tracks now [] \<lparr>pc_result = [], pc_pendingToolCalls = [], pc_existingToolResultIds = {}\<rparr>"
    by (simp add: tracks_def pendingOpen_def)
  from tracks_insert [OF tracks_fold [OF this, of ms]] show ?thesis
    unfolding tracks_def secondPass_def callsAnswered_def by auto
qed

section \<open>Complete histories\<close>

lemma insert_nothing:
  "pendingOpen p = {} \<Longrightarrow> pc_result (insertSyntheticToolResults now p) = pc_result p"
  by (auto simp: insertSyntheticToolResults_def pendingOpen_def filter_empty_conv)

lemma insert_pending: "pc_pendingToolCalls (insertSyntheticToolResults now p) = []"
  by (simp add: insertSyntheticToolResults_def)

lemma secondStep_complete:
  assumes "openCalls (pendingOpen p) (m # ms) = Some {}" "keptTurn m"
  shows "pc_result (secondStep now m p) = pc_result p @ [m] \<and> openCalls (pendingOpen (secondStep now m p)) ms = Some {}"
proof (cases m)
  case (AssistantMessage a)
  with assms have "pendingOpen p = {}" "openCalls (tc_id ` set (toolCallsIn (am_content a))) ms = Some {}" "\<not> failedTurn a"
    by (auto simp: keptTurn_def split: if_splits)
  with AssistantMessage show ?thesis
    by (cases "toolCallsIn (am_content a) = []") (simp_all add: secondStep_def Let_def insert_nothing pendingOpen_def [of "_\<lparr>pc_result := _\<rparr>"] insert_pending)
next
  case (UserMessage u)
  with assms have "pendingOpen p = {}" "openCalls {} ms = Some {}" by (auto split: if_splits)
  with UserMessage show ?thesis
    by (simp add: secondStep_def Let_def insert_nothing pendingOpen_def [of "_\<lparr>pc_result := _\<rparr>"] insert_pending)
next
  case (ToolResultMessage r)
  have "tc_id ` set (pc_pendingToolCalls p) - insert (tr_toolCallId r) (pc_existingToolResultIds p) = pendingOpen p - {tr_toolCallId r}"
    by (auto simp: pendingOpen_def)
  with ToolResultMessage assms show ?thesis by (simp add: secondStep_def pendingOpen_def [of "_\<lparr>pc_existingToolResultIds := _\<rparr>"]
      pendingOpen_def [of "_\<lparr>pc_result := _\<rparr>"])
qed (use assms in \<open>simp_all add: secondStep_def pendingOpen_def\<close>)

lemma fold_complete:
  assumes "openCalls (pendingOpen p) ms = Some {}" "\<forall>m \<in> set ms. keptTurn m"
  shows "pc_result (fold (secondStep now) ms p) = pc_result p @ ms \<and> pendingOpen (fold (secondStep now) ms p) = {}"
  using assms
proof (induction ms arbitrary: p)
  case (Cons m ms)
  then have "keptTurn m" by simp
  from secondStep_complete [OF Cons.prems(1) this, of now] Cons show ?case by simp
qed simp

lemma secondPass_complete:
  assumes "callsAnswered ms" "\<forall>m \<in> set ms. keptTurn m"
  shows "secondPass now ms = ms"
proof -
  let ?p = "\<lparr>pc_result = [], pc_pendingToolCalls = [], pc_existingToolResultIds = {}\<rparr>"
  have "openCalls (pendingOpen ?p) ms = Some {}" using assms(1) by (simp add: callsAnswered_def pendingOpen_def)
  from fold_complete [OF this assms(2), of now] show ?thesis by (simp add: secondPass_def insert_nothing)
qed

section \<open>The first pass\<close>

definition isImage :: "content \<Rightarrow> bool" where
  "isImage b \<longleftrightarrow> (case b of ImageContent _ _ \<Rightarrow> True | _ \<Rightarrow> False)"

text \<open>A block of an assistant message that the target model can read; \<open>same\<close> tells whether it wrote the message.\<close>

definition readableBlock :: "target_model \<Rightarrow> id_normalizer option \<Rightarrow> bool \<Rightarrow> content \<Rightarrow> bool" where
  "readableBlock model normId same b \<longleftrightarrow>
     (case b of
        ThinkingContent t sig red \<Rightarrow> same \<and> (red = Some True \<or> truthy sig \<or> \<not> isBlank t)
      | TextContent _ sig \<Rightarrow> same \<or> sig = None
      | ToolCallContent tc \<Rightarrow> same \<or> \<not> truthy (tc_thoughtSignature tc) \<and>
          (\<forall>f. normId = Some f \<longrightarrow> (\<exists>i a. tc_id tc = f i model a))
      | ImageContent _ _ \<Rightarrow> True)"

definition readableMessage :: "target_model \<Rightarrow> id_normalizer option \<Rightarrow> agent_message \<Rightarrow> bool" where
  "readableMessage model normId m \<longleftrightarrow>
     (case m of
        UserMessage u \<Rightarrow> ''image'' \<in> set (tm_input model) \<or> (case um_content u of Blocks bs \<Rightarrow> \<not> list_ex isImage bs | TextBody _ \<Rightarrow> True)
      | ToolResultMessage r \<Rightarrow> ''image'' \<in> set (tm_input model) \<or> \<not> list_ex isImage (tr_content r)
      | AssistantMessage a \<Rightarrow> list_all (readableBlock model normId (isSameModel model a)) (am_content a)
      | _ \<Rightarrow> True)"

lemma replaceImages_none: "\<not> list_ex isImage (replaceImages placeholder previous bs)"
  by (induction placeholder previous bs rule: replaceImages.induct) (auto simp: isImage_def)

lemma transformContent_readable:
  "list_all (readableBlock model normId (isSameModel model a)) (fst (transformContent model normId a bs idMap))"
  by (induction model normId a bs idMap rule: transformContent.induct)
    (auto simp: readableBlock_def transformThinking_def transformToolCall_def truthy_def Let_def split: prod.splits option.splits, metis+)

definition seesImages :: "target_model \<Rightarrow> agent_message \<Rightarrow> bool" where
  "seesImages model m \<longleftrightarrow> (case m of AssistantMessage a \<Rightarrow> True | _ \<Rightarrow> readableMessage model None m)"

lemma downgrade_sees: "m \<in> set (downgradeUnsupportedImages ms model) \<Longrightarrow> seesImages model m"
  by (auto simp: downgradeUnsupportedImages_def downgradeMessage_def seesImages_def readableMessage_def
      replaceImagesWithPlaceholder_def replaceImages_none split: agent_message.splits body.splits if_splits)

lemma firstPass_readable:
  "\<forall>m \<in> set ms. seesImages model m \<Longrightarrow> m \<in> set (firstPass model normId ms idMap) \<Longrightarrow> readableMessage model normId m"
proof (induction model normId ms idMap arbitrary: m rule: firstPass.induct)
  case (2 model normId r ms idMap)
  have "tr_content (transformResult r idMap) = tr_content r" by (simp add: transformResult_def split: option.split)
  with 2 show ?case by (auto simp: seesImages_def readableMessage_def)
next
  case (3 model normId a ms idMap)
  obtain out m' where t: "transformContent model normId a (am_content a) idMap = (out, m')"
    by (cases "transformContent model normId a (am_content a) idMap")
  from transformContent_readable [of model normId a "am_content a" idMap]
  have "readableMessage model normId (AssistantMessage (a\<lparr>am_content := out\<rparr>))"
    by (simp add: t readableMessage_def isSameModel_def)
  with 3 t show ?case by auto
qed (auto simp: seesImages_def readableMessage_def)

lemma synthetic_readable: "isSynthetic now m \<Longrightarrow> readableMessage model normId m \<and> keptTurn m"
  by (auto simp: isSynthetic_def syntheticResult_def readableMessage_def isImage_def keptTurn_def)

lemma transformed_messages:
  assumes "m \<in> set (transformMessages now ms model normId)"
  shows "readableMessage model normId m \<and> keptTurn m"
proof -
  let ?first = "firstPass model normId (downgradeUnsupportedImages ms model) []"
  obtain made where "mset (transformMessages now ms model normId) = mset (filter keptTurn ?first) + mset made"
      "\<forall>m \<in> set made. isSynthetic now m"
    using secondPass_tracks [of now ?first] by (auto simp: transformMessages_def)
  then have "m \<in> set (filter keptTurn ?first) \<or> isSynthetic now m"
    using assms by (metis in_multiset_in_set union_iff)
  moreover have "readableMessage model normId m" if "m \<in> set ?first"
    by (rule firstPass_readable [OF _ that]) (use downgrade_sees in blast)
  ultimately show ?thesis using synthetic_readable by auto
qed

section \<open>Consistent identifiers\<close>

text \<open>The identifier a call of a message has after the first pass.\<close>

definition finalId :: "target_model \<Rightarrow> id_normalizer option \<Rightarrow> assistant_message \<Rightarrow> string \<Rightarrow> string" where
  "finalId model normId a i =
     (case normId of None \<Rightarrow> i | Some f \<Rightarrow> if isSameModel model a then i else f i model a)"

text \<open>Equal identifiers get equal final ones, and none becomes empty.\<close>

definition consistentIds :: "target_model \<Rightarrow> id_normalizer option \<Rightarrow> (string \<Rightarrow> string) \<Rightarrow> agent_message list \<Rightarrow> bool" where
  "consistentIds model normId g ms \<longleftrightarrow>
     list_all (\<lambda>m. case m of AssistantMessage a \<Rightarrow>
       list_all (\<lambda>tc. finalId model normId a (tc_id tc) = g (tc_id tc) \<and> g (tc_id tc) \<noteq> []) (toolCallsIn (am_content a)) | _ \<Rightarrow> True) ms"

definition mapsTo :: "(string \<Rightarrow> string) \<Rightarrow> string set \<Rightarrow> (string, string) jsmap \<Rightarrow> bool" where
  "mapsTo g seen idMap \<longleftrightarrow>
     (\<forall>i v. map_get idMap i = Some v \<longrightarrow> v = g i) \<and> (\<forall>i \<in> seen. g i \<noteq> [] \<and> (g i \<noteq> i \<longrightarrow> map_get idMap i = Some (g i)))"

lemma toolCallsIn_simps [simp]:
  "toolCallsIn [] = []" "toolCallsIn (ToolCallContent tc # bs) = tc # toolCallsIn bs" "toolCallsIn (TextContent t sig # bs) = toolCallsIn bs"
  "toolCallsIn (ThinkingContent t sig red # bs) = toolCallsIn bs" "toolCallsIn (ImageContent d mime # bs) = toolCallsIn bs"
  "toolCallsIn (xs @ ys) = toolCallsIn xs @ toolCallsIn ys" "toolCallsIn (transformThinking same t sig red) = []"
  by (simp_all add: toolCallsIn_def transformThinking_def Let_def)

lemma mapsTo_skip: "mapsTo g seen m \<Longrightarrow> g i = i \<Longrightarrow> g i \<noteq> [] \<Longrightarrow> mapsTo g (insert i seen) m"
  unfolding mapsTo_def by (metis insert_iff)

lemma mapsTo_set: "mapsTo g seen m \<Longrightarrow> g i \<noteq> [] \<Longrightarrow> mapsTo g (insert i seen) (map_set i (g i) m)"
  unfolding mapsTo_def map_get_set by (metis insert_iff option.inject)

lemma mapsToD: "mapsTo g seen m \<Longrightarrow> i \<in> seen \<Longrightarrow> g i \<noteq> [] \<and> (map_get m i = Some (g i) \<or> map_get m i = None \<and> g i = i)"
  unfolding mapsTo_def by (metis option.exhaust)

lemma transformToolCall_ids:
  assumes "transformToolCall model normId a tc idMap = (tc', m)" "finalId model normId a (tc_id tc) = g (tc_id tc)"
    "g (tc_id tc) \<noteq> []" "mapsTo g seen idMap"
  shows "tc_id tc' = g (tc_id tc) \<and> mapsTo g (insert (tc_id tc) seen) m"
proof -
  define plain where "plain = (if \<not> isSameModel model a \<and> truthy (tc_thoughtSignature tc) then tc\<lparr>tc_thoughtSignature := None\<rparr> else tc)"
  have id: "tc_id plain = tc_id tc" by (simp add: plain_def)
  show ?thesis
  proof (cases "g (tc_id tc) = tc_id tc")
    case True
    then have "tc' = plain \<and> m = idMap"
      using assms(1,2) by (auto simp: transformToolCall_def finalId_def Let_def plain_def split: option.splits if_splits)
    with True id mapsTo_skip [OF assms(4) True assms(3)] show ?thesis by simp
  next
    case False
    then have "tc' = plain\<lparr>tc_id := g (tc_id tc)\<rparr> \<and> m = map_set (tc_id tc) (g (tc_id tc)) idMap"
      using assms(1,2) by (auto simp: transformToolCall_def finalId_def Let_def plain_def split: option.splits if_splits)
    with mapsTo_set [OF assms(4,3)] show ?thesis by simp
  qed
qed

lemma transformContent_ids:
  assumes "transformContent model normId a bs idMap = (out, m)" "mapsTo g seen idMap"
    "\<forall>tc \<in> set (toolCallsIn bs). finalId model normId a (tc_id tc) = g (tc_id tc) \<and> g (tc_id tc) \<noteq> []"
  shows "tc_id ` set (toolCallsIn out) = g ` tc_id ` set (toolCallsIn bs) \<and> mapsTo g (seen \<union> tc_id ` set (toolCallsIn bs)) m"
  using assms
proof (induction model normId a bs idMap arbitrary: out seen rule: transformContent.induct)
  case (4 model normId a tc bs idMap)
  obtain tc' m1 where one: "transformToolCall model normId a tc idMap = (tc', m1)" by (cases "transformToolCall model normId a tc idMap")
  with "4.prems"(1) obtain out' where rest: "transformContent model normId a bs m1 = (out', m)" "out = ToolCallContent tc' # out'"
    by (auto split: prod.splits)
  have "tc_id tc' = g (tc_id tc)" "mapsTo g (insert (tc_id tc) seen) m1"
    using transformToolCall_ids [OF one _ _ "4.prems"(2)] "4.prems"(3) by auto
  moreover from "4.IH" [OF one [symmetric] rest(1) this(2)] "4.prems"(3)
  have "tc_id ` set (toolCallsIn out') = g ` tc_id ` set (toolCallsIn bs)"
    "mapsTo g (insert (tc_id tc) seen \<union> tc_id ` set (toolCallsIn bs)) m" by auto
  ultimately show ?case by (simp add: rest(2))
next
  case (1 model normId a idMap) then show ?case by simp
next
  case (2 model normId a t sig red bs idMap)
  then obtain out' where "transformContent model normId a bs idMap = (out', m)" "out = transformThinking (isSameModel model a) t sig red @ out'"
    by (cases "transformContent model normId a bs idMap") simp
  with "2.IH" [OF this(1) "2.prems"(2)] "2.prems"(3) show ?case by simp
next
  case (3 model normId a t sig bs idMap)
  then obtain out' where "transformContent model normId a bs idMap = (out', m)"
      "out = (if isSameModel model a then TextContent t sig else TextContent t None) # out'"
    by (cases "transformContent model normId a bs idMap") simp
  with "3.IH" [OF this(1) "3.prems"(2)] "3.prems"(3) show ?case by simp
next
  case (5 model normId a d mime bs idMap)
  then obtain out' where "transformContent model normId a bs idMap = (out', m)" "out = ImageContent d mime # out'"
    by (cases "transformContent model normId a bs idMap") simp
  with "5.IH" [OF this(1) "5.prems"(2)] "5.prems"(3) show ?case by simp
qed

lemma consistent_Cons:
  "consistentIds model normId g (m # ms) \<longleftrightarrow>
     (case m of AssistantMessage a \<Rightarrow>
       list_all (\<lambda>tc. finalId model normId a (tc_id tc) = g (tc_id tc) \<and> g (tc_id tc) \<noteq> []) (toolCallsIn (am_content a)) | _ \<Rightarrow> True) \<and>
     consistentIds model normId g ms"
  by (simp add: consistentIds_def)

lemma firstPass_open:
  assumes "openCalls P ms = Some R" "Q \<subseteq> g ` P" "P \<subseteq> seen" "mapsTo g seen idMap" "consistentIds model normId g ms"
  shows "\<exists>S. openCalls Q (firstPass model normId ms idMap) = Some S \<and> S \<subseteq> g ` R"
  using assms
proof (induction model normId ms idMap arbitrary: P Q seen rule: firstPass.induct)
  case (2 model normId r ms idMap)
  have "Q - {tr_toolCallId (transformResult r idMap)} \<subseteq> g ` (P - {tr_toolCallId r})"
  proof (cases "tr_toolCallId r \<in> P")
    case True
    then have "tr_toolCallId r \<in> seen" using "2.prems"(3) by blast
    from mapsToD [OF "2.prems"(4) this] have "tr_toolCallId (transformResult r idMap) = g (tr_toolCallId r)"
      by (auto simp: transformResult_def)
    with "2.prems"(2) show ?thesis by auto
  qed (use "2.prems"(2) in auto)
  from "2.IH" [OF _ this _ "2.prems"(4)] "2.prems" show ?case by (simp add: consistent_Cons) blast
next
  case (3 model normId a ms idMap)
  obtain out m where t: "transformContent model normId a (am_content a) idMap = (out, m)"
    by (cases "transformContent model normId a (am_content a) idMap")
  from "3.prems" have P: "P = {}" "Q = {}" and rest: "openCalls (tc_id ` set (toolCallsIn (am_content a))) ms = Some R"
    by (auto split: if_splits)
  have "\<forall>tc \<in> set (toolCallsIn (am_content a)). finalId model normId a (tc_id tc) = g (tc_id tc) \<and> g (tc_id tc) \<noteq> []"
    using "3.prems"(5) by (simp add: consistent_Cons list_all_iff)
  note ids = transformContent_ids [OF t "3.prems"(4) this]
  have "consistentIds model normId g ms" using "3.prems"(5) by (simp add: consistent_Cons)
  from "3.IH" [OF t [symmetric] rest _ _ conjunct2 [OF ids] this, of "tc_id ` set (toolCallsIn out)"] ids
  have "\<exists>S. openCalls (tc_id ` set (toolCallsIn out)) (firstPass model normId ms m) = Some S \<and> S \<subseteq> g ` R" by blast
  with P show ?case by (simp add: t)
qed (simp_all add: consistent_Cons split: if_splits)

lemma downgrade_message_calls: "openCalls P (map downgradeMessage ms) = openCalls P ms"
proof (induction P ms rule: openCalls.induct)
  case (3 P u ms) then show ?case by (auto simp: downgradeMessage_def split: body.split)
qed (simp_all add: downgradeMessage_def)

lemma downgrade_calls: "openCalls P (downgradeUnsupportedImages ms model) = openCalls P ms"
  by (simp add: downgradeUnsupportedImages_def downgrade_message_calls)

lemma downgrade_message_consistent:
  "consistentIds model normId g (map downgradeMessage ms) = consistentIds model normId g ms"
  by (induction ms) (auto simp: consistent_Cons downgradeMessage_def consistentIds_def split: agent_message.splits body.splits)

lemma downgrade_consistent:
  "consistentIds model normId g (downgradeUnsupportedImages ms model) = consistentIds model normId g ms"
  by (simp add: downgradeUnsupportedImages_def downgrade_message_consistent)

lemma firstPass_kept: "(\<forall>m \<in> set (firstPass model normId ms idMap). keptTurn m) \<longleftrightarrow> (\<forall>m \<in> set ms. keptTurn m)"
proof (induction model normId ms idMap rule: firstPass.induct)
  case (3 model normId a ms idMap)
  then show ?case by (cases "transformContent model normId a (am_content a) idMap") (simp add: keptTurn_def failedTurn_def)
qed (simp_all add: keptTurn_def)

lemma downgrade_kept: "(\<forall>m \<in> set (downgradeUnsupportedImages ms model). keptTurn m) \<longleftrightarrow> (\<forall>m \<in> set ms. keptTurn m)"
  by (auto simp: downgradeUnsupportedImages_def downgradeMessage_def keptTurn_def split: agent_message.splits body.splits)

section \<open>Properties\<close>

text \<open>
  C28. Every message a provider receives can be read by its model: no images without vision, and in a message of
  another model no thinking, no signatures and only normalized identifiers; empty thinking is gone, and no
  turn that failed or was aborted is left.
\<close>

theorem transformed_readable:
  "list_all (\<lambda>m. readableMessage model normId m \<and> keptTurn m) (transformMessages now ms model normId)"
  using transformed_messages by (auto simp: list_all_iff)


text \<open>
  A history in which every call is answered and no turn failed gets no made-up result, as long as equal
  identifiers of calls are treated alike: its results still answer their calls after the identifiers
  have been normalized, even where two of them become the same.
\<close>

theorem complete_history_kept:
  assumes "callsAnswered ms" "list_all keptTurn ms" "consistentIds model normId g ms"
  shows "transformMessages now ms model normId = firstPass model normId (downgradeUnsupportedImages ms model) []"
proof -
  let ?d = "downgradeUnsupportedImages ms model"
  have "openCalls {} ?d = Some {}" using assms(1) by (simp add: downgrade_calls callsAnswered_def)
  moreover have "mapsTo g {} []" by (simp add: mapsTo_def)
  moreover have "consistentIds model normId g ?d" using assms(3) by (simp add: downgrade_consistent)
  ultimately have "callsAnswered (firstPass model normId ?d [])"
    using firstPass_open [of "{}" ?d "{}" "{}" g "{}" "[]" model normId] by (auto simp: callsAnswered_def)
  moreover have "\<forall>m \<in> set (firstPass model normId ?d []). keptTurn m"
    using assms(2) by (simp add: firstPass_kept downgrade_kept list_all_iff)
  ultimately show ?thesis by (simp add: transformMessages_def secondPass_complete)
qed

text \<open>A call of another model whose identifier is not accepted by the target, and its result.\<close>

definition demoUsage :: usage where
  "demoUsage = \<lparr>u_input = 0, u_output = 0, u_cacheRead = 0, u_cacheWrite = 0, u_cacheWrite1h = None, u_reasoning = None,
     u_totalTokens = 0, u_cost = \<lparr>cost_input = 0, cost_output = 0, cost_cacheRead = 0, cost_cacheWrite = 0, cost_total = 0\<rparr>\<rparr>"

definition demoTurn :: "string \<Rightarrow> assistant_message" where
  "demoTurn model = \<lparr>am_content = [ToolCallContent \<lparr>tc_id = ''c|1'', tc_name = ''ls'', tc_arguments = [], tc_thoughtSignature = None, tc_namespace = None\<rparr>],
     am_api = ''api'', am_provider = ''p'', am_model = model, am_responseModel = None, am_responseId = None, am_diagnostics = None,
     am_usage = demoUsage, am_stopReason = ToolUseStop, am_deferred = None, am_errorMessage = None, am_rawStopReason = None,
     am_endTurn = None, am_timestamp = 0\<rparr>"

definition demoAnswer :: tool_result_message where
  "demoAnswer = \<lparr>tr_toolCallId = ''c|1'', tr_toolName = ''ls'', tr_content = [], tr_details = None, tr_usage = None,
     tr_addedToolNames = None, tr_isError = False, tr_timestamp = 1\<rparr>"

definition demoTarget :: target_model where
  "demoTarget = \<lparr>tm_id = ''new'', tm_api = ''api'', tm_provider = ''p'', tm_input = [''text'']\<rparr>"

definition demoNormalizer :: id_normalizer where
  "demoNormalizer i model a = filter (\<lambda>c. c \<noteq> CHR ''|'') i"

theorem complete_history_kept_witness:
  "map (\<lambda>m. case m of ToolResultMessage r \<Rightarrow> tr_toolCallId r | _ \<Rightarrow> [])
     (transformMessages 9 [AssistantMessage (demoTurn ''old''), ToolResultMessage demoAnswer] demoTarget (Some demoNormalizer)) = [[], ''c1'']"
proof -
  let ?ms = "[AssistantMessage (demoTurn ''old''), ToolResultMessage demoAnswer]"
  have "callsAnswered ?ms" by (simp add: callsAnswered_def demoTurn_def demoAnswer_def)
  moreover have "list_all keptTurn ?ms" by (simp add: keptTurn_def failedTurn_def demoTurn_def)
  moreover have "consistentIds demoTarget (Some demoNormalizer) (filter (\<lambda>c. c \<noteq> CHR ''|'')) ?ms"
    by (simp add: consistentIds_def finalId_def demoTurn_def demoTarget_def demoNormalizer_def isSameModel_def)
  ultimately have "transformMessages 9 ?ms demoTarget (Some demoNormalizer) =
      firstPass demoTarget (Some demoNormalizer) (downgradeUnsupportedImages ?ms demoTarget) []"
    by (rule complete_history_kept)
  then show ?thesis
    by (simp add: downgradeUnsupportedImages_def downgradeMessage_def replaceImagesWithPlaceholder_def transformResult_def
        transformToolCall_def truthy_def Let_def demoTurn_def demoAnswer_def demoTarget_def demoNormalizer_def isSameModel_def)
qed

text \<open>
  An identifier used both by another model and by the target model: the result of the second call is renamed
  like that of the first, so it answers no call, and a made-up result is added for a call that has one.
\<close>

lemma reused_identifier:
  "map (\<lambda>m. case m of ToolResultMessage r \<Rightarrow> tr_toolCallId r | _ \<Rightarrow> [])
     (transformMessages 9 [AssistantMessage (demoTurn ''old''), ToolResultMessage demoAnswer,
        AssistantMessage (demoTurn ''new''), ToolResultMessage demoAnswer] demoTarget (Some demoNormalizer))
   = [[], ''c1'', [], ''c1'', ''c|1'']"
  by (simp add: transformMessages_def secondPass_def secondStep_def insertSyntheticToolResults_def syntheticResult_def failedTurn_def
      downgradeUnsupportedImages_def downgradeMessage_def replaceImagesWithPlaceholder_def transformResult_def toolCallsIn_def
      transformToolCall_def truthy_def Let_def demoTurn_def demoAnswer_def demoTarget_def demoNormalizer_def isSameModel_def)

end
