(* ===== verification/JsonCheck.thy ===== *)
theory JsonCheck
  imports SessionTypes
begin

text \<open>
  The check that a payload can be stored as JSON (\<open>assertJsonSerializable\<close> in
  \<open>packages/agent/src/harness/session/session.ts\<close>). A value is a primitive or a reference to an object of
  a heap, so sharing and cycles exist; an object has a prototype, own properties with descriptors and
  possibly properties keyed by symbols. The code walks the values with a stack of its own and a set of
  the objects it is inside of.
\<close>

section \<open>Values\<close>

datatype property_descriptor = DataDescriptor js_value | AccessorDescriptor
and js_value = NullValue | BoolValue bool | StringValue string | NumberValue jsnum | OtherValue string | Reference nat

datatype object_prototype = ArrayPrototype | ObjectPrototype | NoPrototype | OtherPrototype

text \<open>The own properties keyed by strings, each with whether it is enumerable; the length of an array is not among them.\<close>

record js_object =
  ob_isArray :: bool
  ob_prototype :: object_prototype
  ob_symbols :: nat
  ob_length :: nat
  ob_properties :: "(string \<times> bool \<times> property_descriptor) list"

type_synonym js_heap = "js_object list"

datatype payload_error =
    NonFiniteNumber | UnsupportedType string | PayloadCycle | NonStandardArray | UnsupportedProperties | SparseArray
  | ArrayAccessor | NonPlainObject | SymbolKey | NonEnumerable | PropertyAccessor

section \<open>The children of an object\<close>

text \<open>Both loops run from the last element to the first, since the stack returns them in the opposite order.\<close>

fun arrayElements :: "js_object \<Rightarrow> nat \<Rightarrow> js_value list \<Rightarrow> payload_error + js_value list" where
  "arrayElements ob 0 pushed = Inr pushed"
| "arrayElements ob (Suc i) pushed =
     (case map_of (ob_properties ob) (show_nat i) of
        None \<Rightarrow> Inl SparseArray
      | Some (_, AccessorDescriptor) \<Rightarrow> Inl ArrayAccessor
      | Some (_, DataDescriptor v) \<Rightarrow> arrayElements ob i (v # pushed))"

fun propertyValues :: "(string \<times> bool \<times> property_descriptor) list \<Rightarrow> js_value list \<Rightarrow> payload_error + js_value list" where
  "propertyValues [] pushed = Inr pushed"
| "propertyValues ((_, _, AccessorDescriptor) # ps) pushed = Inl PropertyAccessor"
| "propertyValues ((_, _, DataDescriptor v) # ps) pushed = propertyValues ps (v # pushed)"

definition arrayChildren :: "js_object \<Rightarrow> payload_error + js_value list" where
  "arrayChildren ob =
     (if ob_prototype ob \<noteq> ArrayPrototype then Inl NonStandardArray
      else if ob_symbols ob > 0 \<or> length (ob_properties ob) + 1 \<noteq> ob_length ob + 1 then Inl UnsupportedProperties
      else arrayElements ob (ob_length ob) [])"

definition objectKeys :: "js_object \<Rightarrow> (string \<times> bool \<times> property_descriptor) list" where
  "objectKeys ob = filter (\<lambda>(_, enumerable, _). enumerable) (ob_properties ob)"

definition objectChildren :: "js_object \<Rightarrow> payload_error + js_value list" where
  "objectChildren ob =
     (if ob_prototype ob \<noteq> ObjectPrototype \<and> ob_prototype ob \<noteq> NoPrototype then Inl NonPlainObject
      else if ob_symbols ob > 0 then Inl SymbolKey
      else if length (ob_properties ob) \<noteq> length (objectKeys ob) then Inl NonEnumerable
      else propertyValues (rev (objectKeys ob)) [])"

definition childrenOf :: "js_object \<Rightarrow> payload_error + js_value list" where
  "childrenOf ob = (if ob_isArray ob then arrayChildren ob else objectChildren ob)"

section \<open>The walk\<close>

datatype validation_frame = ValueFrame js_value | ExitFrame nat

partial_function (option) checkFrames :: "js_heap \<Rightarrow> validation_frame list \<Rightarrow> nat set \<Rightarrow> (payload_error + unit) option" where
  "checkFrames h stack active =
     (case stack of
        [] \<Rightarrow> Some (Inr ())
      | ExitFrame r # rest \<Rightarrow> checkFrames h rest (active - {r})
      | ValueFrame v # rest \<Rightarrow>
          (case v of
             NullValue \<Rightarrow> checkFrames h rest active
           | BoolValue _ \<Rightarrow> checkFrames h rest active
           | StringValue _ \<Rightarrow> checkFrames h rest active
           | NumberValue d \<Rightarrow> if \<not> num_finite d then Some (Inl NonFiniteNumber) else checkFrames h rest active
           | OtherValue t \<Rightarrow> Some (Inl (UnsupportedType t))
           | Reference r \<Rightarrow>
               (if r \<in> active then Some (Inl PayloadCycle)
                else case childrenOf (h ! r) of
                  Inl e \<Rightarrow> Some (Inl e)
                | Inr vs \<Rightarrow> checkFrames h (map ValueFrame vs @ ExitFrame r # rest) (insert r active))))"

definition assertJsonSerializable :: "js_heap \<Rightarrow> js_value \<Rightarrow> (payload_error + unit) option" where
  "assertJsonSerializable h v = checkFrames h [ValueFrame v] {}"

section \<open>What is accepted\<close>

text \<open>The JSON tree that a value stands for: finite numbers, plain arrays without holes, plain objects.\<close>

inductive json_tree :: "js_heap \<Rightarrow> js_value \<Rightarrow> json \<Rightarrow> bool" for h where
  null: "json_tree h NullValue JsonNull"
| bool: "json_tree h (BoolValue b) (JsonBool b)"
| string: "json_tree h (StringValue s) (JsonString s)"
| number: "num_finite d \<Longrightarrow> json_tree h (NumberValue d) (JsonNumber d)"
| array: "ob_isArray (h ! r) \<Longrightarrow> childrenOf (h ! r) = Inr vs \<Longrightarrow> list_all2 (json_tree h) vs ts \<Longrightarrow>
    json_tree h (Reference r) (JsonArray ts)"
| object: "\<not> ob_isArray (h ! r) \<Longrightarrow> childrenOf (h ! r) = Inr vs \<Longrightarrow> list_all2 (json_tree h) vs ts \<Longrightarrow>
    json_tree h (Reference r) (JsonObject (zip (map fst (objectKeys (h ! r))) ts))"

definition heap_ok :: "js_heap \<Rightarrow> bool" where
  "heap_ok h \<longleftrightarrow> list_all (\<lambda>ob. list_all (\<lambda>(_, _, d). case d of DataDescriptor (Reference r) \<Rightarrow> r < length h | _ \<Rightarrow> True) (ob_properties ob)) h"

lemma arrayElements_values:
  "arrayElements ob n pushed = Inr vs \<Longrightarrow> v \<in> set vs \<Longrightarrow> v \<in> set pushed \<or> (\<exists>k e. (k, e, DataDescriptor v) \<in> set (ob_properties ob))"
  by (induction ob n pushed rule: arrayElements.induct)
    (auto split: option.splits prod.splits property_descriptor.splits, metis map_of_SomeD)

lemma propertyValues_values:
  "propertyValues ps pushed = Inr vs \<Longrightarrow> v \<in> set vs \<Longrightarrow> v \<in> set pushed \<or> (\<exists>k e. (k, e, DataDescriptor v) \<in> set ps)"
  by (induction ps pushed rule: propertyValues.induct) auto

lemma children_in_heap:
  assumes "childrenOf (h ! r) = Inr vs" "r < length h" "heap_ok h" "Reference q \<in> set vs"
  shows "q < length h"
proof -
  have "\<exists>k e. (k, e, DataDescriptor (Reference q)) \<in> set (ob_properties (h ! r))"
    using assms(1,4) arrayElements_values [of "h ! r" _ "[]" vs "Reference q"] propertyValues_values [of _ "[]" vs "Reference q"]
    by (fastforce simp: childrenOf_def arrayChildren_def objectChildren_def objectKeys_def split: if_splits)
  with assms(2,3) show ?thesis by (fastforce simp: heap_ok_def list_all_iff dest: nth_mem)
qed

section \<open>The walk returns\<close>

lemma checkFrames_simps [simp]:
  "checkFrames h [] A = Some (Inr ())"
  "checkFrames h (ExitFrame r # rest) A = checkFrames h rest (A - {r})"
  "checkFrames h (ValueFrame NullValue # rest) A = checkFrames h rest A"
  "checkFrames h (ValueFrame (BoolValue b) # rest) A = checkFrames h rest A"
  "checkFrames h (ValueFrame (StringValue s) # rest) A = checkFrames h rest A"
  "checkFrames h (ValueFrame (NumberValue d) # rest) A = (if \<not> num_finite d then Some (Inl NonFiniteNumber) else checkFrames h rest A)"
  "checkFrames h (ValueFrame (OtherValue t) # rest) A = Some (Inl (UnsupportedType t))"
  "checkFrames h (ValueFrame (Reference r) # rest) A =
     (if r \<in> A then Some (Inl PayloadCycle)
      else case childrenOf (h ! r) of Inl e \<Rightarrow> Some (Inl e)
      | Inr vs \<Rightarrow> checkFrames h (map ValueFrame vs @ ExitFrame r # rest) (insert r A))"
  by (simp_all add: checkFrames.simps [of h "_ # _"] checkFrames.simps [of h "[]"])

text \<open>
  Values at the top of the stack are either refused, whatever is below them, or accepted and left behind; an
  accepted value stands for a tree. The objects the walk is not inside of bound its depth.
\<close>

definition inHeap :: "js_heap \<Rightarrow> js_value \<Rightarrow> bool" where
  "inHeap h v \<longleftrightarrow> (\<forall>r. v = Reference r \<longrightarrow> r < length h)"

definition decided :: "js_heap \<Rightarrow> js_value list \<Rightarrow> nat set \<Rightarrow> bool" where
  "decided h vs A \<longleftrightarrow>
     (\<exists>e. \<forall>rest. checkFrames h (map ValueFrame vs @ rest) A = Some (Inl e)) \<or>
     (\<forall>rest. checkFrames h (map ValueFrame vs @ rest) A = checkFrames h rest A) \<and> (\<exists>ts. list_all2 (json_tree h) vs ts)"

lemma decided_Cons:
  assumes "decided h [v] A" "decided h vs A"
  shows "decided h (v # vs) A"
  using assms unfolding decided_def
  by (elim disjE exE conjE) (auto simp: list_all2_Cons1)

lemma decided_primitive: "(\<And>r. v \<noteq> Reference r) \<Longrightarrow> decided h [v] A"
  by (cases v) (auto simp: decided_def list_all2_Cons1 intro: json_tree.intros)

lemma decided_reference:
  assumes "r \<notin> A" "\<And>vs. childrenOf (h ! r) = Inr vs \<Longrightarrow> decided h vs (insert r A)"
  shows "decided h [Reference r] A"
proof (cases "childrenOf (h ! r)")
  case (Inl e) with assms(1) show ?thesis by (auto simp: decided_def)
next
  case (Inr vs)
  have leave: "insert r A - {r} = A" using assms(1) by blast
  from assms(2) [OF Inr] consider (bad) e where "\<forall>rest. checkFrames h (map ValueFrame vs @ rest) (insert r A) = Some (Inl e)"
    | (good) ts where "\<forall>rest. checkFrames h (map ValueFrame vs @ rest) (insert r A) = checkFrames h rest (insert r A)" "list_all2 (json_tree h) vs ts"
    unfolding decided_def by blast
  then show ?thesis
  proof cases
    case bad with Inr assms(1) show ?thesis by (auto simp: decided_def)
  next
    case good
    then have "\<exists>t. json_tree h (Reference r) t" using Inr json_tree.array json_tree.object by blast
    with good Inr assms(1) leave show ?thesis by (auto simp: decided_def list_all2_Cons1)
  qed
qed

lemma walk_decides:
  assumes "heap_ok h" "\<forall>v \<in> set vs. inHeap h v"
  shows "decided h vs A"
  using assms(2)
proof (induction "card ({..<length h} - A)" arbitrary: vs A rule: less_induct)
  case less
  have one: "decided h [v] A" if v: "inHeap h v" for v
  proof (cases "\<exists>r. v = Reference r")
    case True
    then obtain r where r: "v = Reference r" "r < length h" using v by (auto simp: inHeap_def)
    show ?thesis
    proof (cases "r \<in> A")
      case True with r show ?thesis by (auto simp: decided_def)
    next
      case False
      have "decided h us (insert r A)" if us: "childrenOf (h ! r) = Inr us" for us
      proof (rule less.hyps)
        show "card ({..<length h} - insert r A) < card ({..<length h} - A)"
          using False r(2) by (intro psubset_card_mono) auto
        show "\<forall>u \<in> set us. inHeap h u" using children_in_heap [OF us r(2) assms(1)] by (auto simp: inHeap_def)
      qed
      with decided_reference [OF False] r(1) show ?thesis by blast
    qed
  qed (use decided_primitive in blast)
  from less.prems show ?case
  proof (induction vs)
    case Nil then show ?case by (simp add: decided_def)
  next
    case (Cons v vs) with one show ?case by (auto intro: decided_Cons)
  qed
qed

section \<open>Every tree is accepted\<close>

lemma json_tree_unique: "json_tree h v t \<Longrightarrow> json_tree h v t' \<Longrightarrow> t = t'"
proof (induction arbitrary: t' rule: json_tree.induct)
  case (array r vs ts)
  from array.prems array.hyps obtain ts' where ts': "t' = JsonArray ts'" "list_all2 (json_tree h) vs ts'"
    by (auto elim: json_tree.cases)
  from array.IH ts'(2) have "ts = ts'"
    by (induction arbitrary: ts' rule: list_all2_induct) (auto simp: list_all2_Cons1)
  with ts' show ?case by simp
next
  case (object r vs ts)
  from object.prems object.hyps obtain ts' where ts': "t' = JsonObject (zip (map fst (objectKeys (h ! r))) ts')" "list_all2 (json_tree h) vs ts'"
    by (auto elim: json_tree.cases)
  from object.IH ts'(2) have "ts = ts'"
    by (induction arbitrary: ts' rule: list_all2_induct) (auto simp: list_all2_Cons1)
  with ts' show ?case by simp
qed (auto elim: json_tree.cases)

lemma propertyValues_length: "propertyValues ps pushed = Inr vs \<Longrightarrow> length vs = length ps + length pushed"
  by (induction ps pushed rule: propertyValues.induct) auto

lemma objectChildren_length: "\<not> ob_isArray ob \<Longrightarrow> childrenOf ob = Inr vs \<Longrightarrow> length vs = length (objectKeys ob)"
  by (auto simp: childrenOf_def objectChildren_def dest: propertyValues_length split: if_splits)

text \<open>The walk is inside of objects only whose trees are larger than that of the value.\<close>

definition insideOf :: "js_heap \<Rightarrow> nat set \<Rightarrow> json \<Rightarrow> bool" where
  "insideOf h A t \<longleftrightarrow> (\<forall>a \<in> A. \<exists>ta. json_tree h (Reference a) ta \<and> size t < size ta)"

definition accepts :: "js_heap \<Rightarrow> js_value \<Rightarrow> json \<Rightarrow> bool" where
  "accepts h v t \<longleftrightarrow> (\<forall>A rest. insideOf h A t \<longrightarrow> checkFrames h (ValueFrame v # rest) A = checkFrames h rest A)"

lemma accepts_list:
  "list_all2 (accepts h) vs ts \<Longrightarrow> \<forall>t \<in> set ts. insideOf h A t \<Longrightarrow> checkFrames h (map ValueFrame vs @ rest) A = checkFrames h rest A"
  by (induction arbitrary: rest rule: list_all2_induct) (auto simp: accepts_def)

lemma accepts_reference:
  assumes "json_tree h (Reference r) t" "childrenOf (h ! r) = Inr vs" "list_all2 (accepts h) vs ts" "\<forall>t' \<in> set ts. size t' < size t"
  shows "accepts h (Reference r) t"
  unfolding accepts_def
proof (intro allI impI)
  fix A rest
  assume A: "insideOf h A t"
  then have r: "r \<notin> A" using json_tree_unique [OF assms(1)] by (auto simp: insideOf_def)
  have "insideOf h (insert r A) t'" if "t' \<in> set ts" for t'
    using A assms(1,4) that by (fastforce simp: insideOf_def)
  with accepts_list [OF assms(3)] have "checkFrames h (map ValueFrame vs @ ExitFrame r # rest) (insert r A) = checkFrames h rest (insert r A - {r})"
    by simp
  moreover have "insert r A - {r} = A" using r by blast
  ultimately show "checkFrames h (ValueFrame (Reference r) # rest) A = checkFrames h rest A" using r assms(2) by simp
qed

lemma size_element: "t \<in> set ts \<Longrightarrow> size t < size (JsonArray ts)"
  by (induction ts) auto

lemma size_property: "length ks = length ts \<Longrightarrow> t \<in> set ts \<Longrightarrow> size t < size (JsonObject (zip ks ts))"
  by (induction ks ts rule: list_induct2) auto

lemma tree_accepted: "json_tree h v t \<Longrightarrow> accepts h v t"
proof (induction rule: json_tree.induct)
  case (array r vs ts)
  then have tree: "json_tree h (Reference r) (JsonArray ts)" by (auto intro: json_tree.array elim: list_all2_mono)
  have "list_all2 (accepts h) vs ts" using array.IH by (auto elim: list_all2_mono)
  then show ?case using size_element by (intro accepts_reference [OF tree array.hyps(2)]) auto
next
  case (object r vs ts)
  then have tree: "json_tree h (Reference r) (JsonObject (zip (map fst (objectKeys (h ! r))) ts))"
    by (auto intro!: json_tree.object elim: list_all2_mono)
  have all: "list_all2 (accepts h) vs ts" using object.IH by (auto elim: list_all2_mono)
  have len: "length (map fst (objectKeys (h ! r))) = length ts"
    using objectChildren_length [OF object.hyps(1,2)] list_all2_lengthD [OF all] by simp
  show ?case by (rule accepts_reference [OF tree object.hyps(2) all]) (use size_property [OF len] in auto)
qed (simp_all add: accepts_def)


text \<open>An array that holds the same object twice is accepted; an object that holds itself is not.\<close>

definition demoHeap :: js_heap where
  "demoHeap =
     [\<lparr>ob_isArray = True, ob_prototype = ArrayPrototype, ob_symbols = 0, ob_length = 2,
        ob_properties = [(''0'', True, DataDescriptor (Reference 1)), (''1'', True, DataDescriptor (Reference 1))]\<rparr>,
      \<lparr>ob_isArray = False, ob_prototype = NoPrototype, ob_symbols = 0, ob_length = 0, ob_properties = []\<rparr>,
      \<lparr>ob_isArray = False, ob_prototype = ObjectPrototype, ob_symbols = 0, ob_length = 0,
        ob_properties = [(''self'', True, DataDescriptor (Reference 2))]\<rparr>]"


end
