(* ===== verification/CodingSession.thy ===== *)
theory CodingSession
  imports SessionContext Actions
begin

text \<open>
  The session manager of the coding agent (\<open>packages/coding-agent/src/core/session-manager.ts\<close>): entries in a
  file, linked to a tree by the identifiers of their parents, a leaf that the next entry is afterAppend to,
  labels, and the context that is built from the path to the leaf. A session file is a list of lines; the
  JSON text of a line is left out. A time stamp is the number of milliseconds its ISO text stands for.
\<close>

section \<open>Entries\<close>

record sm_header =
  sh_version :: "nat option"
  sh_id :: string
  sh_timestamp :: int
  sh_cwd :: string
  sh_parentSession :: "string option"

record sm_compaction =
  smc_summary :: string
  smc_firstKeptEntryId :: string
  smc_tokensBefore :: int
  smc_details :: "json option"
  smc_usage :: "usage option"
  smc_fromHook :: "bool option"

record sm_branch_summary =
  smb_fromId :: string
  smb_summary :: string
  smb_details :: "json option"
  smb_usage :: "usage option"
  smb_fromHook :: "bool option"

datatype se_data =
    MessageSE agent_message
  | ThinkingSE string
  | ModelSE string string
  | CompactionSE sm_compaction
  | BranchSummarySE sm_branch_summary
  | CustomSE string "json option"
  | LabelSE string "string option"
  | InfoSE "string option"
  | CustomMessageSE string body "json option" bool

record session_entry =
  se_id :: string
  se_parentId :: "string option"
  se_timestamp :: int
  se_data :: se_data

text \<open>
  The lines of a file. Entries of the first version have no identifiers, and a compaction of that version
  names the first entry it keeps by its index in the file.
\<close>

record old_entry =
  oe_timestamp :: int
  oe_data :: se_data
  oe_firstKeptEntryIndex :: "nat option"

datatype file_line = HeaderLine sm_header | EntryLine session_entry | OldLine old_entry

definition CURRENT_SESSION_VERSION :: nat where
  "CURRENT_SESSION_VERSION = 3"

definition entriesOf :: "file_line list \<Rightarrow> session_entry list" where
  "entriesOf ls = concat (map (\<lambda>l. case l of EntryLine e \<Rightarrow> [e] | _ \<Rightarrow> []) ls)"

definition headerOf :: "file_line list \<Rightarrow> sm_header option" where
  "headerOf ls = (case filter (\<lambda>l. case l of HeaderLine _ \<Rightarrow> True | _ \<Rightarrow> False) ls of HeaderLine h # _ \<Rightarrow> Some h | _ \<Rightarrow> None)"

section \<open>Identifiers\<close>

text \<open>\<open>randomUUID\<close> is a stream; the number of the next draw is part of the state.\<close>

fun generateIdFrom :: "(nat \<Rightarrow> string) \<Rightarrow> (string \<Rightarrow> bool) \<Rightarrow> nat \<Rightarrow> nat \<Rightarrow> string \<times> nat" where
  "generateIdFrom uuid has 0 n = (uuid n, n + 1)"
| "generateIdFrom uuid has (Suc tries) n =
     (if \<not> has (take 8 (uuid n)) then (take 8 (uuid n), n + 1) else generateIdFrom uuid has tries (n + 1))"

definition generateId :: "(nat \<Rightarrow> string) \<Rightarrow> (string \<Rightarrow> bool) \<Rightarrow> nat \<Rightarrow> string \<times> nat" where
  "generateId uuid has n = generateIdFrom uuid has 100 n"

section \<open>Migrations\<close>

text \<open>
  Entries are numbered in the order of the file. The identifier of the entry at an index is known once the
  entry has been migrated (an entry that comes later has none, here the empty text).
\<close>

definition keptId :: "file_line list \<Rightarrow> file_line list \<Rightarrow> nat \<Rightarrow> string \<Rightarrow> string \<Rightarrow> string" where
  "keptId migrated rest index own old =
     (if index < length migrated then (case migrated ! index of EntryLine e \<Rightarrow> se_id e | _ \<Rightarrow> old)
      else if index = length migrated then own
      else if index - length migrated - 1 < length rest
        then (case rest ! (index - length migrated - 1) of HeaderLine _ \<Rightarrow> old | EntryLine e \<Rightarrow> se_id e | OldLine _ \<Rightarrow> [])
      else old)"

fun migrateLines :: "(nat \<Rightarrow> string) \<Rightarrow> file_line list \<Rightarrow> string option \<Rightarrow> nat \<Rightarrow> file_line list \<Rightarrow> file_line list \<times> nat" where
  "migrateLines uuid migrated prevId n [] = (migrated, n)"
| "migrateLines uuid migrated prevId n (HeaderLine h # rest) =
     migrateLines uuid (migrated @ [HeaderLine (h\<lparr>sh_version := Some 2\<rparr>)]) prevId n rest"
| "migrateLines uuid migrated prevId n (EntryLine e # rest) =
     (case generateId uuid (\<lambda>_. False) n of (i, n') \<Rightarrow>
        migrateLines uuid (migrated @ [EntryLine (e\<lparr>se_id := i, se_parentId := prevId\<rparr>)]) (Some i) n' rest)"
| "migrateLines uuid migrated prevId n (OldLine old # rest) =
     (case generateId uuid (\<lambda>_. False) n of (i, n') \<Rightarrow>
        let d = (case (oe_data old, oe_firstKeptEntryIndex old) of
              (CompactionSE c, Some index) \<Rightarrow>
                CompactionSE (c\<lparr>smc_firstKeptEntryId := keptId migrated rest index i (smc_firstKeptEntryId c)\<rparr>)
            | (d, _) \<Rightarrow> d) in
        migrateLines uuid (migrated @ [EntryLine \<lparr>se_id = i, se_parentId = prevId, se_timestamp = oe_timestamp old, se_data = d\<rparr>])
          (Some i) n' rest)"

definition migrateV1ToV2 :: "(nat \<Rightarrow> string) \<Rightarrow> nat \<Rightarrow> file_line list \<Rightarrow> file_line list \<times> nat" where
  "migrateV1ToV2 uuid n ls = migrateLines uuid [] None n ls"

definition renameHookMessage :: "se_data \<Rightarrow> se_data" where
  "renameHookMessage d =
     (case d of MessageSE (ExtensionMessage r t other) \<Rightarrow>
        (if r = ''hookMessage'' then MessageSE (ExtensionMessage ''custom'' t other) else d)
      | _ \<Rightarrow> d)"

definition migrateV2ToV3 :: "file_line list \<Rightarrow> file_line list" where
  "migrateV2ToV3 ls = map (\<lambda>l. case l of
       HeaderLine h \<Rightarrow> HeaderLine (h\<lparr>sh_version := Some 3\<rparr>)
     | EntryLine e \<Rightarrow> EntryLine (e\<lparr>se_data := renameHookMessage (se_data e)\<rparr>)
     | OldLine old \<Rightarrow> OldLine (old\<lparr>oe_data := renameHookMessage (oe_data old)\<rparr>)) ls"

definition fileVersion :: "file_line list \<Rightarrow> nat" where
  "fileVersion ls = (case headerOf ls of None \<Rightarrow> 1 | Some h \<Rightarrow> (case sh_version h of None \<Rightarrow> 1 | Some v \<Rightarrow> v))"

definition migrateToCurrentVersion :: "(nat \<Rightarrow> string) \<Rightarrow> nat \<Rightarrow> file_line list \<Rightarrow> bool \<times> file_line list \<times> nat" where
  "migrateToCurrentVersion uuid n ls =
     (let version = fileVersion ls in
      if version \<ge> CURRENT_SESSION_VERSION then (False, ls, n)
      else
        let (ls2, n2) = (if version < 2 then migrateV1ToV2 uuid n ls else (ls, n));
            ls3 = (if version < 3 then migrateV2ToV3 ls2 else ls2) in
        (True, ls3, n2))"

section \<open>Paths and contexts\<close>

type_synonym entry_index = "(string, session_entry) jsmap"

definition buildEntryIndex :: "session_entry list \<Rightarrow> entry_index" where
  "buildEntryIndex entries = fold (\<lambda>e. map_set (se_id e) e) entries []"

definition parentOf :: "entry_index \<Rightarrow> session_entry \<Rightarrow> session_entry option" where
  "parentOf index e = (case se_parentId e of None \<Rightarrow> None | Some p \<Rightarrow> if p = [] then None else map_get index p)"

text \<open>The walk from an entry to its root; \<open>path\<close> is what the walk has passed, in the order of the path.\<close>

partial_function (option) walkUp :: "entry_index \<Rightarrow> session_entry option \<Rightarrow> session_entry list \<Rightarrow> session_entry list option" where
  "walkUp index current path =
     (case current of None \<Rightarrow> Some path | Some e \<Rightarrow> walkUp index (parentOf index e) (e # path))"

text \<open>A leaf may be undefined (\<open>None\<close>) or null (\<open>Some None\<close>).\<close>

definition buildSessionPath :: "session_entry list \<Rightarrow> string option option \<Rightarrow> entry_index \<Rightarrow> session_entry list option" where
  "buildSessionPath entries leafId index =
     (if leafId = Some None then Some []
      else
        let named = (case leafId of Some (Some i) \<Rightarrow> if i = [] then None else map_get index i | _ \<Rightarrow> None);
            leaf = (case named of Some e \<Rightarrow> Some e | None \<Rightarrow> if entries = [] then None else Some (last entries)) in
        walkUp index leaf [])"

type_synonym context_settings = "string \<times> (string \<times> string) option"

definition settingsStep :: "session_entry \<Rightarrow> context_settings \<Rightarrow> context_settings" where
  "settingsStep e s =
     (case se_data e of
        ThinkingSE level \<Rightarrow> (level, snd s)
      | ModelSE provider modelId \<Rightarrow> (fst s, Some (provider, modelId))
      | MessageSE (AssistantMessage a) \<Rightarrow> (fst s, Some (am_provider a, am_model a))
      | _ \<Rightarrow> s)"

definition getSessionContextSettings :: "session_entry list \<Rightarrow> context_settings" where
  "getSessionContextSettings path = fold settingsStep path (''off'', None)"

definition entryToContextMessages :: "session_entry \<Rightarrow> agent_message list" where
  "entryToContextMessages e =
     (case se_data e of
        MessageSE m \<Rightarrow> [m]
      | CustomMessageSE customType cont details display \<Rightarrow> [createCustomMessage customType cont display details (se_timestamp e)]
      | BranchSummarySE b \<Rightarrow>
          if smb_summary b \<noteq> [] then [createBranchSummaryMessage (smb_summary b) (smb_fromId b) (se_timestamp e)] else []
      | CompactionSE c \<Rightarrow> [createCompactionSummaryMessage (smc_summary c) (smc_tokensBefore c) (se_timestamp e)]
      | _ \<Rightarrow> [])"

definition compactionOf :: "session_entry \<Rightarrow> sm_compaction option" where
  "compactionOf e = (case se_data e of CompactionSE c \<Rightarrow> Some c | _ \<Rightarrow> None)"

definition getLatestCompactionEntry :: "session_entry list \<Rightarrow> session_entry option" where
  "getLatestCompactionEntry entries = find (\<lambda>e. compactionOf e \<noteq> None) (rev entries)"

definition compactPath :: "session_entry list \<Rightarrow> session_entry list" where
  "compactPath path =
     (case getLatestCompactionEntry path of
        None \<Rightarrow> path
      | Some compaction \<Rightarrow>
          (let before = takeWhile (\<lambda>e. se_id e \<noteq> se_id compaction) path;
               firstKept = (case compactionOf compaction of Some c \<Rightarrow> smc_firstKeptEntryId c | None \<Rightarrow> []) in
           compaction # dropWhile (\<lambda>e. se_id e \<noteq> firstKept) before @ drop (length before + 1) path))"

definition contextEntriesAt :: "session_entry list \<Rightarrow> string option option \<Rightarrow> entry_index \<Rightarrow> session_entry list option" where
  "contextEntriesAt entries leafId index = map_option compactPath (buildSessionPath entries leafId index)"

definition sessionContextAt ::
    "session_entry list \<Rightarrow> string option option \<Rightarrow> entry_index \<Rightarrow> (agent_message list \<times> context_settings) option" where
  "sessionContextAt entries leafId index =
     Option.bind (buildSessionPath entries leafId index) (\<lambda>path.
       map_option (\<lambda>es. (concat (map entryToContextMessages es), getSessionContextSettings path)) (contextEntriesAt entries leafId index))"

end
