(* ===== verification/CodingManager.thy ===== *)
theory CodingManager
  imports CodingSession JsonlRepo
begin

text \<open>
  The class \<open>SessionManager\<close> of \<open>packages/coding-agent/src/core/session-manager.ts\<close>. Its methods are actions
  on a state that holds the fields of the object and the world: the disk, the identifiers still to be
  drawn and the time. A file is its lines and what follows the last line break, if anything; text that
  does not parse is \<open>None\<close>. Text afterAppend behind an unfinished line becomes a part of that line, which then
  does not parse, as JSON texts do not parse when one follows another or an unfinished one. Paths are given
  resolved, and their directories exist.
\<close>

record session_file =
  sf_lines :: "file_line option list"
  sf_tail :: "file_line option option"

record session_manager =
  sm_sessionId :: string
  sm_sessionFile :: "string option"
  sm_sessionDir :: string
  sm_cwd :: string
  sm_persist :: bool
  sm_flushed :: bool
  sm_fileEntries :: "file_line list"
  sm_byId :: entry_index
  sm_labelsById :: "(string, string) jsmap"
  sm_labelTimestampsById :: "(string, int) jsmap"
  sm_leafId :: "string option"
  st_disk :: "string \<rightharpoonup> session_file"
  st_uuid :: "nat \<Rightarrow> string"
  st_uuid7 :: "nat \<Rightarrow> string"
  st_drawn :: nat
  st_now :: int

type_synonym 'a manager_action = "(session_manager, 'a) action"

section \<open>The file\<close>

definition parsedLines :: "session_file \<Rightarrow> file_line list" where
  "parsedLines f = concat (map (\<lambda>l. case l of Some e \<Rightarrow> [e] | None \<Rightarrow> []) (sf_lines f)) @
     (case sf_tail f of Some (Some l) \<Rightarrow> [l] | _ \<Rightarrow> [])"

definition loadEntriesFromFile :: "session_manager \<Rightarrow> string \<Rightarrow> file_line list" where
  "loadEntriesFromFile s path =
     (case st_disk s path of
        None \<Rightarrow> []
      | Some f \<Rightarrow> (let entries = parsedLines f in case entries of HeaderLine h # _ \<Rightarrow> entries | _ \<Rightarrow> []))"

definition writtenFile :: "file_line list \<Rightarrow> session_file" where
  "writtenFile ls = \<lparr>sf_lines = map Some ls, sf_tail = None\<rparr>"

definition writeLines :: "string \<Rightarrow> file_line list \<Rightarrow> session_manager \<Rightarrow> session_manager" where
  "writeLines path ls s = s\<lparr>st_disk := (st_disk s)(path \<mapsto> writtenFile ls)\<rparr>"

definition extendFile :: "file_line \<Rightarrow> session_file option \<Rightarrow> session_file" where
  "extendFile l old =
     (case old of
        None \<Rightarrow> writtenFile [l]
      | Some f \<Rightarrow> \<lparr>sf_lines = sf_lines f @ [if sf_tail f = None then Some l else None], sf_tail = None\<rparr>)"

definition appendLine :: "string \<Rightarrow> file_line \<Rightarrow> session_manager \<Rightarrow> session_manager" where
  "appendLine path l s = s\<lparr>st_disk := (st_disk s)(path \<mapsto> extendFile l (st_disk s path))\<rparr>"

definition rewriteFile :: "unit manager_action" where
  "rewriteFile = change (\<lambda>s.
     case sm_sessionFile s of
       Some path \<Rightarrow> if sm_persist s then writeLines path (sm_fileEntries s) s else s
     | None \<Rightarrow> s)"

definition assistantLine :: "file_line \<Rightarrow> bool" where
  "assistantLine l = (case l of EntryLine e \<Rightarrow> (case se_data e of MessageSE m \<Rightarrow> role m = AssistantRole | _ \<Rightarrow> False) | _ \<Rightarrow> False)"

definition persistEntry :: "session_entry \<Rightarrow> unit manager_action" where
  "persistEntry e s =
     (case sm_sessionFile s of
        None \<Rightarrow> (Returned (), s)
      | Some path \<Rightarrow>
          if \<not> sm_persist s then (Returned (), s)
          else if \<not> list_ex assistantLine (sm_fileEntries s) then
            (if sm_flushed s then (Returned (), appendLine path (EntryLine e) s) else (Returned (), s\<lparr>sm_flushed := False\<rparr>))
          else if \<not> sm_flushed s then
            (if st_disk s path \<noteq> None then (Thrown ''EEXIST'', s)
             else (Returned (), (writeLines path (sm_fileEntries s) s)\<lparr>sm_flushed := True\<rparr>))
          else (Returned (), appendLine path (EntryLine e) s))"

definition appendEntryLine :: "session_entry \<Rightarrow> unit manager_action" where
  "appendEntryLine e =
     andThen (change (\<lambda>s. s\<lparr>sm_fileEntries := sm_fileEntries s @ [EntryLine e],
       sm_byId := map_set (se_id e) e (sm_byId s), sm_leafId := Some (se_id e)\<rparr>)) (\<lambda>_. persistEntry e)"

section \<open>Sessions\<close>

definition filePath :: "string \<Rightarrow> int \<Rightarrow> string \<Rightarrow> string" where
  "filePath dir timestamp sessionId = path_join [dir, sessionFileName timestamp sessionId]"

definition createSessionId :: "string manager_action" where
  "createSessionId s = (Returned (st_uuid7 s (st_drawn s)), s\<lparr>st_drawn := st_drawn s + 1\<rparr>)"

definition newSession :: "string option \<Rightarrow> string option \<Rightarrow> string option manager_action" where
  "newSession i parentSession =
     andThen (case i of
         Some i \<Rightarrow> if SESSION_ID_PATTERN i then give i else fail ''Session id must be non-empty, contain only alphanumeric characters''
       | None \<Rightarrow> createSessionId) (\<lambda>sessionId.
     andThen (change (\<lambda>s. s\<lparr>sm_sessionId := sessionId,
       sm_fileEntries := [HeaderLine \<lparr>sh_version = Some CURRENT_SESSION_VERSION, sh_id = sessionId, sh_timestamp = st_now s,
         sh_cwd = sm_cwd s, sh_parentSession = parentSession\<rparr>],
       sm_byId := [], sm_labelsById := [], sm_labelTimestampsById := [], sm_leafId := None, sm_flushed := False,
       sm_sessionFile := (if sm_persist s then Some (filePath (sm_sessionDir s) (st_now s) sessionId) else sm_sessionFile s)\<rparr>)) (\<lambda>_.
     ask sm_sessionFile))"

definition setLabel :: "string \<Rightarrow> string option \<Rightarrow> int \<Rightarrow> session_manager \<Rightarrow> session_manager" where
  "setLabel targetId label timestamp s =
     (case label of
        Some l \<Rightarrow>
          if l \<noteq> [] then s\<lparr>sm_labelsById := map_set targetId l (sm_labelsById s),
                            sm_labelTimestampsById := map_set targetId timestamp (sm_labelTimestampsById s)\<rparr>
          else s\<lparr>sm_labelsById := AList.delete targetId (sm_labelsById s),
                 sm_labelTimestampsById := AList.delete targetId (sm_labelTimestampsById s)\<rparr>
      | None \<Rightarrow> s\<lparr>sm_labelsById := AList.delete targetId (sm_labelsById s),
                  sm_labelTimestampsById := AList.delete targetId (sm_labelTimestampsById s)\<rparr>)"

definition indexEntry :: "session_entry \<Rightarrow> session_manager \<Rightarrow> session_manager" where
  "indexEntry e s =
     (let s' = s\<lparr>sm_byId := map_set (se_id e) e (sm_byId s), sm_leafId := Some (se_id e)\<rparr> in
      case se_data e of LabelSE targetId label \<Rightarrow> setLabel targetId label (se_timestamp e) s' | _ \<Rightarrow> s')"

definition buildIndex :: "session_manager \<Rightarrow> session_manager" where
  "buildIndex s = fold indexEntry (entriesOf (sm_fileEntries s))
     (s\<lparr>sm_byId := [], sm_labelsById := [], sm_labelTimestampsById := [], sm_leafId := None\<rparr>)"

definition openedSession :: "unit manager_action" where
  "openedSession =
     andThen (ask (\<lambda>s. headerOf (sm_fileEntries s))) (\<lambda>header.
     andThen (case header of Some h \<Rightarrow> give (sh_id h) | None \<Rightarrow> createSessionId) (\<lambda>sessionId.
     andThen (change (\<lambda>s. s\<lparr>sm_sessionId := sessionId\<rparr>)) (\<lambda>_.
     andThen (ask (\<lambda>s. migrateToCurrentVersion (st_uuid s) (st_drawn s) (sm_fileEntries s))) (\<lambda>(migrated, ls, n).
     andThen (if migrated then andThen (change (\<lambda>s. s\<lparr>sm_fileEntries := ls, st_drawn := n\<rparr>)) (\<lambda>_. rewriteFile) else give ()) (\<lambda>_.
     change (\<lambda>s. (buildIndex s)\<lparr>sm_flushed := True\<rparr>))))))"

definition setSessionFile :: "string \<Rightarrow> unit manager_action" where
  "setSessionFile path =
     andThen (change (\<lambda>s. s\<lparr>sm_sessionFile := Some path\<rparr>)) (\<lambda>_.
     andThen (ask (\<lambda>s. st_disk s path)) (\<lambda>file.
     case file of
       None \<Rightarrow> andThen (newSession None None) (\<lambda>_. change (\<lambda>s. s\<lparr>sm_sessionFile := Some path\<rparr>))
     | Some f \<Rightarrow>
         andThen (change (\<lambda>s. s\<lparr>sm_fileEntries := loadEntriesFromFile s path\<rparr>)) (\<lambda>_.
         andThen (ask (\<lambda>s. sm_fileEntries s = [])) (\<lambda>none.
         if none then
           (if f \<noteq> writtenFile [] then fail ''Session file is not a valid session''
            else
              andThen (newSession None None) (\<lambda>_.
              andThen (change (\<lambda>s. s\<lparr>sm_sessionFile := Some path\<rparr>)) (\<lambda>_.
              andThen rewriteFile (\<lambda>_. change (\<lambda>s. s\<lparr>sm_flushed := True\<rparr>)))))
         else openedSession))))"

section \<open>Appending\<close>

definition drawId :: "string manager_action" where
  "drawId s = (case generateId (st_uuid s) (map_has (sm_byId s)) (st_drawn s) of (i, n) \<Rightarrow> (Returned i, s\<lparr>st_drawn := n\<rparr>))"

text \<open>A child of the current leaf, which becomes the leaf.\<close>

definition appendChild :: "se_data \<Rightarrow> session_entry manager_action" where
  "appendChild d =
     andThen drawId (\<lambda>i.
     andThen (ask (\<lambda>s. \<lparr>se_id = i, se_parentId = sm_leafId s, se_timestamp = st_now s, se_data = d\<rparr>)) (\<lambda>e.
     andThen (appendEntryLine e) (\<lambda>_. give e)))"

definition appendedId :: "se_data \<Rightarrow> string manager_action" where
  "appendedId d = andThen (appendChild d) (\<lambda>e. give (se_id e))"

definition appendMessage :: "agent_message \<Rightarrow> string manager_action" where
  "appendMessage m = appendedId (MessageSE m)"

definition appendThinkingLevelChange :: "string \<Rightarrow> string manager_action" where
  "appendThinkingLevelChange level = appendedId (ThinkingSE level)"

definition appendModelChange :: "string \<Rightarrow> string \<Rightarrow> string manager_action" where
  "appendModelChange provider modelId = appendedId (ModelSE provider modelId)"

definition appendCompaction :: "sm_compaction \<Rightarrow> string manager_action" where
  "appendCompaction c = appendedId (CompactionSE c)"

definition appendCustomEntry :: "string \<Rightarrow> json option \<Rightarrow> string manager_action" where
  "appendCustomEntry customType data = appendedId (CustomSE customType data)"

definition appendCustomMessageEntry :: "string \<Rightarrow> body \<Rightarrow> bool \<Rightarrow> json option \<Rightarrow> string manager_action" where
  "appendCustomMessageEntry customType cont display details = appendedId (CustomMessageSE customType cont details display)"

text \<open>Each run of line breaks becomes one space; \<open>trim\<close> on 8-bit texts.\<close>

fun joinLines :: "bool \<Rightarrow> string \<Rightarrow> string" where
  "joinLines previous [] = []"
| "joinLines previous (c # cs) =
     (if of_char c = (10 :: nat) \<or> of_char c = (13 :: nat) then (if previous then [] else '' '') @ joinLines True cs
      else c # joinLines False cs)"

definition blankChar :: "char \<Rightarrow> bool" where
  "blankChar c \<longleftrightarrow> of_char c \<in> {9, 10, 11, 12, 13, 32, 160 :: nat}"

definition trimName :: "string \<Rightarrow> string" where
  "trimName s = rev (dropWhile blankChar (rev (dropWhile blankChar s)))"

definition appendSessionInfo :: "string \<Rightarrow> string manager_action" where
  "appendSessionInfo name = appendedId (InfoSE (Some (trimName (joinLines False name))))"

definition getSessionName :: "session_manager \<Rightarrow> string option" where
  "getSessionName s =
     (case filter (\<lambda>e. case se_data e of InfoSE _ \<Rightarrow> True | _ \<Rightarrow> False) (rev (entriesOf (sm_fileEntries s))) of
        [] \<Rightarrow> None
      | e # _ \<Rightarrow> (case se_data e of InfoSE (Some name) \<Rightarrow> if trimName name = [] then None else Some (trimName name) | _ \<Rightarrow> None))"

definition appendLabelChange :: "string \<Rightarrow> string option \<Rightarrow> string manager_action" where
  "appendLabelChange targetId label =
     andThen (ask (\<lambda>s. map_has (sm_byId s) targetId)) (\<lambda>known.
     if \<not> known then fail (''Entry '' @ targetId @ '' not found'')
     else
       andThen (appendChild (LabelSE targetId label)) (\<lambda>e.
       andThen (change (setLabel targetId label (se_timestamp e))) (\<lambda>_. give (se_id e))))"

section \<open>The tree\<close>

definition getLeafEntry :: "session_manager \<Rightarrow> session_entry option" where
  "getLeafEntry s = (case sm_leafId s of None \<Rightarrow> None | Some i \<Rightarrow> if i = [] then None else map_get (sm_byId s) i)"

definition getChildren :: "session_manager \<Rightarrow> string \<Rightarrow> session_entry list" where
  "getChildren s parentId = filter (\<lambda>e. se_parentId e = Some parentId) (map snd (sm_byId s))"

definition getBranch :: "session_manager \<Rightarrow> string option \<Rightarrow> session_entry list option" where
  "getBranch s fromId =
     (let startId = (case fromId of Some i \<Rightarrow> Some i | None \<Rightarrow> sm_leafId s) in
      walkUp (sm_byId s) (case startId of None \<Rightarrow> None | Some i \<Rightarrow> if i = [] then None else map_get (sm_byId s) i) [])"

definition managerContextEntries :: "session_manager \<Rightarrow> session_entry list option" where
  "managerContextEntries s = contextEntriesAt (entriesOf (sm_fileEntries s)) (Some (sm_leafId s)) (sm_byId s)"

definition managerContext :: "session_manager \<Rightarrow> (agent_message list \<times> context_settings) option" where
  "managerContext s = sessionContextAt (entriesOf (sm_fileEntries s)) (Some (sm_leafId s)) (sm_byId s)"

definition branch :: "string \<Rightarrow> unit manager_action" where
  "branch branchFromId =
     andThen (ask (\<lambda>s. map_has (sm_byId s) branchFromId)) (\<lambda>known.
     if \<not> known then fail (''Entry '' @ branchFromId @ '' not found'')
     else change (\<lambda>s. s\<lparr>sm_leafId := Some branchFromId\<rparr>))"

definition resetLeaf :: "unit manager_action" where
  "resetLeaf = change (\<lambda>s. s\<lparr>sm_leafId := None\<rparr>)"

definition branchWithSummary :: "string option \<Rightarrow> string \<Rightarrow> json option \<Rightarrow> bool option \<Rightarrow> usage option \<Rightarrow> string manager_action" where
  "branchWithSummary branchFromId summary details fromHook used =
     andThen (ask (\<lambda>s. case branchFromId of None \<Rightarrow> True | Some i \<Rightarrow> map_has (sm_byId s) i)) (\<lambda>known.
     if \<not> known then fail (''Entry '' @ the branchFromId @ '' not found'')
     else
       andThen (change (\<lambda>s. s\<lparr>sm_leafId := branchFromId\<rparr>)) (\<lambda>_.
       appendedId (BranchSummarySE \<lparr>smb_fromId = (case branchFromId of None \<Rightarrow> ''root'' | Some i \<Rightarrow> i), smb_summary = summary,
         smb_details = details, smb_usage = used, smb_fromHook = fromHook\<rparr>)))"

section \<open>A session of one branch\<close>

definition isLabel :: "session_entry \<Rightarrow> bool" where
  "isLabel e = (case se_data e of LabelSE _ _ \<Rightarrow> True | _ \<Rightarrow> False)"

text \<open>The path without its labels, each entry a child of the one before it.\<close>

fun rechain :: "string option \<Rightarrow> session_entry list \<Rightarrow> session_entry list" where
  "rechain parent [] = []"
| "rechain parent (e # es) =
     (if isLabel e then rechain parent es else e\<lparr>se_parentId := parent\<rparr> # rechain (Some (se_id e)) es)"

definition labelsToWrite :: "session_manager \<Rightarrow> session_entry list \<Rightarrow> (string \<times> string \<times> int) list" where
  "labelsToWrite s path =
     map (\<lambda>(targetId, label). (targetId, label, the (map_get (sm_labelTimestampsById s) targetId)))
       (filter (\<lambda>(targetId, _). targetId \<in> se_id ` set path) (sm_labelsById s))"

fun labelEntries :: "(nat \<Rightarrow> string) \<Rightarrow> nat \<Rightarrow> string set \<Rightarrow> string option \<Rightarrow> (string \<times> string \<times> int) list \<Rightarrow> session_entry list \<times> nat" where
  "labelEntries uuid n ids parent [] = ([], n)"
| "labelEntries uuid n ids parent ((targetId, label, timestamp) # ls) =
     (case generateId uuid (\<lambda>i. i \<in> ids) n of (i, n1) \<Rightarrow>
      case labelEntries uuid n1 (insert i ids) (Some i) ls of (es, n2) \<Rightarrow>
        (\<lparr>se_id = i, se_parentId = parent, se_timestamp = timestamp, se_data = LabelSE targetId (Some label)\<rparr> # es, n2))"

definition lastId :: "session_entry list \<Rightarrow> string option" where
  "lastId path = (if path = [] then None else Some (se_id (last path)))"

definition createBranchedSession :: "string \<Rightarrow> string option manager_action" where
  "createBranchedSession leafId =
     andThen (ask (\<lambda>s. (getBranch s (Some leafId), sm_sessionFile s))) (\<lambda>(found, previousSessionFile).
     case found of None \<Rightarrow> stall
     | Some path \<Rightarrow>
         if path = [] then fail (''Entry '' @ leafId @ '' not found'')
         else
           andThen createSessionId (\<lambda>newSessionId.
           andThen (change (\<lambda>s.
             let pathWithoutLabels = rechain None path;
                 (labels, n) = labelEntries (st_uuid s) (st_drawn s) (se_id ` set pathWithoutLabels) (lastId pathWithoutLabels)
                   (labelsToWrite s pathWithoutLabels);
                 header = \<lparr>sh_version = Some CURRENT_SESSION_VERSION, sh_id = newSessionId, sh_timestamp = st_now s,
                   sh_cwd = sm_cwd s, sh_parentSession = (if sm_persist s then previousSessionFile else None)\<rparr> in
             buildIndex (s\<lparr>sm_fileEntries := HeaderLine header # map EntryLine (pathWithoutLabels @ labels), st_drawn := n,
               sm_sessionId := newSessionId,
               sm_sessionFile := (if sm_persist s then Some (filePath (sm_sessionDir s) (st_now s) newSessionId) else sm_sessionFile s)\<rparr>))) (\<lambda>_.
           andThen (ask sm_persist) (\<lambda>persist.
           if \<not> persist then give None
           else
             andThen (ask (\<lambda>s. list_ex assistantLine (sm_fileEntries s))) (\<lambda>hasAssistant.
             andThen (if hasAssistant then andThen rewriteFile (\<lambda>_. change (\<lambda>s. s\<lparr>sm_flushed := True\<rparr>))
                      else change (\<lambda>s. s\<lparr>sm_flushed := False\<rparr>)) (\<lambda>_. ask sm_sessionFile))))))"

section \<open>Constructors\<close>

text \<open>A new object; the world is that of the state.\<close>

definition newManager :: "string \<Rightarrow> string \<Rightarrow> string option \<Rightarrow> bool \<Rightarrow> string option \<Rightarrow> string option \<Rightarrow> unit manager_action" where
  "newManager cwd sessionDir sessionFile persist i parentSession =
     andThen (change (\<lambda>s. s\<lparr>sm_sessionId := [], sm_sessionFile := None, sm_sessionDir := sessionDir, sm_cwd := cwd,
       sm_persist := persist, sm_flushed := False, sm_fileEntries := [], sm_byId := [], sm_labelsById := [],
       sm_labelTimestampsById := [], sm_leafId := None\<rparr>)) (\<lambda>_.
     case sessionFile of
       Some path \<Rightarrow> if path \<noteq> [] then setSessionFile path else andThen (newSession i parentSession) (\<lambda>_. give ())
     | None \<Rightarrow> andThen (newSession i parentSession) (\<lambda>_. give ()))"

definition createManager :: "string \<Rightarrow> string \<Rightarrow> string option \<Rightarrow> string option \<Rightarrow> unit manager_action" where
  "createManager cwd dir i parentSession = newManager cwd dir None True i parentSession"

definition inMemory :: "string \<Rightarrow> string option \<Rightarrow> string option \<Rightarrow> unit manager_action" where
  "inMemory cwd i parentSession = newManager cwd [] None False i parentSession"

definition isHeader :: "file_line \<Rightarrow> bool" where
  "isHeader l = (case l of HeaderLine _ \<Rightarrow> True | _ \<Rightarrow> False)"

definition forkFrom :: "string \<Rightarrow> string \<Rightarrow> string \<Rightarrow> string option \<Rightarrow> unit manager_action" where
  "forkFrom sourcePath targetCwd dir i =
     andThen (ask (\<lambda>s. loadEntriesFromFile s sourcePath)) (\<lambda>sourceEntries.
     if sourceEntries = [] then fail ''Cannot fork: source session file is empty or invalid''
     else if headerOf sourceEntries = None then fail ''Cannot fork: source session has no header''
     else
       andThen (case i of
           Some i \<Rightarrow> if SESSION_ID_PATTERN i then give i else fail ''Session id must be non-empty, contain only alphanumeric characters''
         | None \<Rightarrow> createSessionId) (\<lambda>newSessionId.
       andThen (ask (\<lambda>s. filePath dir (st_now s) newSessionId)) (\<lambda>path.
       andThen (ask (\<lambda>s. st_disk s path \<noteq> None)) (\<lambda>taken.
       if taken then fail ''EEXIST''
       else
         andThen (change (\<lambda>s. writeLines path [HeaderLine \<lparr>sh_version = Some CURRENT_SESSION_VERSION, sh_id = newSessionId,
           sh_timestamp = st_now s, sh_cwd = targetCwd, sh_parentSession = Some sourcePath\<rparr>] s)) (\<lambda>_.
         andThen (for_each (\<lambda>l. change (appendLine path l)) (filter (\<lambda>l. \<not> isHeader l) sourceEntries)) (\<lambda>_.
         newManager targetCwd dir (Some path) True None None))))))"

section \<open>The tree of a session\<close>

datatype session_tree = TreeNode (nodeEntry: session_entry) (nodeChildren: "session_tree list") "string option" "int option"

text \<open>The node of an entry is that of the last entry with its identifier.\<close>

definition nodeFor :: "session_manager \<Rightarrow> session_entry \<Rightarrow> session_entry" where
  "nodeFor s e = (case map_get (buildEntryIndex (entriesOf (sm_fileEntries s))) (se_id e) of Some x \<Rightarrow> x | None \<Rightarrow> e)"

definition isRoot :: "session_manager \<Rightarrow> session_entry \<Rightarrow> bool" where
  "isRoot s e =
     (case se_parentId e of
        None \<Rightarrow> True
      | Some p \<Rightarrow> p = se_id e \<or> \<not> map_has (buildEntryIndex (entriesOf (sm_fileEntries s))) p)"

definition treeChildren :: "session_manager \<Rightarrow> session_entry \<Rightarrow> session_entry list" where
  "treeChildren s e = map (nodeFor s) (filter (\<lambda>x. \<not> isRoot s x \<and> se_parentId x = Some (se_id e)) (entriesOf (sm_fileEntries s)))"

fun treeNode :: "nat \<Rightarrow> session_manager \<Rightarrow> session_entry \<Rightarrow> session_tree" where
  "treeNode depth s e = TreeNode e
     (case depth of 0 \<Rightarrow> [] | Suc d \<Rightarrow> map (treeNode d s) (sort_key se_timestamp (treeChildren s e)))
     (map_get (sm_labelsById s) (se_id e)) (map_get (sm_labelTimestampsById s) (se_id e))"

declare treeNode.simps [simp del]

text \<open>A path of nodes without repetition is no longer than the list of entries.\<close>

definition getTree :: "session_manager \<Rightarrow> session_tree list" where
  "getTree s = map (\<lambda>e. treeNode (length (entriesOf (sm_fileEntries s))) s (nodeFor s e)) (filter (isRoot s) (entriesOf (sm_fileEntries s)))"

end
