(* ===== verification/CodingTree.thy ===== *)
theory CodingTree
  imports CodingManager
begin

text \<open>
  The tree of a session of the coding agent: identifiers are unique and an entry comes after its parent, so
  every walk to the root ends; the index is that of the entries, and the labels are those the entries set.
\<close>

section \<open>Trees\<close>

fun treeFrom :: "string set \<Rightarrow> session_entry list \<Rightarrow> bool" where
  "treeFrom ids [] = True"
| "treeFrom ids (e # es) =
     (se_id e \<noteq> [] \<and> se_id e \<notin> ids \<and> (case se_parentId e of None \<Rightarrow> True | Some p \<Rightarrow> p \<in> ids) \<and> treeFrom (insert (se_id e) ids) es)"

definition indexOfEntries :: "session_entry list \<Rightarrow> entry_index" where
  "indexOfEntries es = map (\<lambda>e. (se_id e, e)) es"

lemma treeFrom_append: "treeFrom ids (xs @ ys) \<longleftrightarrow> treeFrom ids xs \<and> treeFrom (ids \<union> se_id ` set xs) ys"
  by (induction xs arbitrary: ids) auto

lemma treeFrom_ids: "treeFrom ids es \<Longrightarrow> distinct (map se_id es) \<and> [] \<notin> se_id ` set es \<and> ids \<inter> se_id ` set es = {}"
  by (induction ids es rule: treeFrom.induct) auto

lemma entry_index_get: "distinct (map se_id es) \<Longrightarrow> e \<in> set es \<Longrightarrow> map_get (indexOfEntries es) (se_id e) = Some e"
  by (auto simp: indexOfEntries_def comp_def)

lemma entry_index_has: "map_has (indexOfEntries es) i \<longleftrightarrow> i \<in> se_id ` set es"
  by (auto simp: map_has_iff indexOfEntries_def image_image)

lemma entry_index_get_Some: "map_get (indexOfEntries es) i = Some e \<Longrightarrow> e \<in> set es \<and> se_id e = i"
  by (auto simp: indexOfEntries_def dest: map_of_SomeD)

lemma index_set: "treeFrom {} (es @ [e]) \<Longrightarrow> map_set (se_id e) e (indexOfEntries es) = indexOfEntries (es @ [e])"
  by (subst map_set_fresh) (auto simp: entry_index_has treeFrom_append, simp add: indexOfEntries_def)

section \<open>Paths\<close>

text \<open>A path from a root: every entry is a child of the one before it.\<close>

fun chained :: "string option \<Rightarrow> session_entry list \<Rightarrow> bool" where
  "chained parent [] = True"
| "chained parent (e # es) = (se_parentId e = parent \<and> chained (Some (se_id e)) es)"

lemma chained_append:
  "chained parent (xs @ ys) \<longleftrightarrow> chained parent xs \<and> chained (if xs = [] then parent else Some (se_id (last xs))) ys"
  by (induction xs arbitrary: parent) auto

lemma walk_chain:
  assumes "chained None p" "p \<noteq> []" "\<forall>e \<in> set p. map_get index (se_id e) = Some e \<and> se_id e \<noteq> []"
  shows "walkUp index (Some (last p)) path = Some (p @ path)"
  using assms
proof (induction p arbitrary: path rule: rev_induct)
  case (snoc e q)
  have step: "walkUp index (Some e) path = walkUp index (parentOf index e) (e # path)"
    by (simp add: walkUp.simps [of index "Some e"])
  show ?case
  proof (cases "q = []")
    case True
    with snoc.prems have "parentOf index e = None" by (simp add: parentOf_def)
    with step True show ?thesis by (simp add: walkUp.simps [of index None])
  next
    case False
    with snoc.prems have "se_parentId e = Some (se_id (last q))" "last q \<in> set q" by (auto simp: chained_append)
    with snoc.prems(3) have "parentOf index e = Some (last q)" by (simp add: parentOf_def)
    with snoc.IH [of "e # path"] snoc.prems False step show ?thesis by (simp add: chained_append)
  qed
qed simp

text \<open>The path of an entry of a tree.\<close>

definition pathTo :: "session_entry list \<Rightarrow> session_entry \<Rightarrow> session_entry list \<Rightarrow> bool" where
  "pathTo es e p \<longleftrightarrow> p \<noteq> [] \<and> last p = e \<and> chained None p \<and> set p \<subseteq> set es \<and> distinct (map se_id p)"

lemma path_exists:
  assumes "treeFrom {} es" "e \<in> set es"
  shows "\<exists>p. pathTo es e p"
  using assms
proof (induction es arbitrary: e rule: rev_induct)
  case (snoc x xs)
  then have tree: "treeFrom {} xs" and x: "se_id x \<notin> se_id ` set xs" "se_id x \<noteq> []"
    "case se_parentId x of None \<Rightarrow> True | Some p \<Rightarrow> p \<in> se_id ` set xs" by (auto simp: treeFrom_append)
  show ?case
  proof (cases "e \<in> set xs")
    case True
    from snoc.IH [OF tree this] obtain p where "pathTo xs e p" by blast
    then show ?thesis by (auto simp: pathTo_def)
  next
    case False
    with snoc.prems have e: "e = x" by simp
    show ?thesis
    proof (cases "se_parentId x")
      case None then show ?thesis using e by (intro exI [of _ "[x]"]) (simp add: pathTo_def)
    next
      case (Some i)
      with x(3) obtain y where y: "y \<in> set xs" "se_id y = i" by auto
      from snoc.IH [OF tree y(1)] obtain p where "pathTo xs y p" by blast
      with Some y(2) e x(1) show ?thesis by (intro exI [of _ "p @ [x]"]) (auto simp: pathTo_def chained_append)
    qed
  qed
qed simp

lemma path_walk:
  assumes "treeFrom {} es" "pathTo es e p"
  shows "walkUp (indexOfEntries es) (Some e) path = Some (p @ path)"
proof -
  note ids = treeFrom_ids [OF assms(1)]
  have "\<forall>x \<in> set p. map_get (indexOfEntries es) (se_id x) = Some x \<and> se_id x \<noteq> []"
  proof
    fix x assume "x \<in> set p"
    with assms(2) have x: "x \<in> set es" unfolding pathTo_def by blast
    with ids have "se_id x \<noteq> []" by (metis imageI)
    with entry_index_get [OF conjunct1 [OF ids] x] show "map_get (indexOfEntries es) (se_id x) = Some x \<and> se_id x \<noteq> []" by blast
  qed
  moreover have "chained None p" "p \<noteq> []" "last p = e" using assms(2) unfolding pathTo_def by blast+
  ultimately show ?thesis using walk_chain [of p "indexOfEntries es" path] by blast
qed

lemma path_more: "pathTo es e p \<Longrightarrow> pathTo (es @ xs) e p"
  by (auto simp: pathTo_def)

text \<open>A tree that is one chain is the path of its last entry.\<close>

lemma chain_tree:
  "chained parent es \<Longrightarrow> distinct (map se_id es) \<Longrightarrow> [] \<notin> se_id ` set es \<Longrightarrow> ids \<inter> se_id ` set es = {} \<Longrightarrow>
    (case parent of None \<Rightarrow> True | Some p \<Rightarrow> p \<in> ids) \<Longrightarrow> treeFrom ids es"
  by (induction es arbitrary: parent ids) auto

lemma chain_path: "chained None es \<Longrightarrow> distinct (map se_id es) \<Longrightarrow> es \<noteq> [] \<Longrightarrow> pathTo es (last es) es"
  by (simp add: pathTo_def)

section \<open>Labels and the index\<close>

type_synonym label_maps = "(string, string) jsmap \<times> (string, int) jsmap"

definition labelStep :: "session_entry \<Rightarrow> label_maps \<Rightarrow> label_maps" where
  "labelStep e m =
     (case se_data e of
        LabelSE t (Some l) \<Rightarrow>
          if l \<noteq> [] then (map_set t l (fst m), map_set t (se_timestamp e) (snd m)) else (AList.delete t (fst m), AList.delete t (snd m))
      | LabelSE t None \<Rightarrow> (AList.delete t (fst m), AList.delete t (snd m))
      | _ \<Rightarrow> m)"

definition labelsOf :: "session_entry list \<Rightarrow> label_maps" where
  "labelsOf es = fold labelStep es ([], [])"

definition indexed :: "session_manager \<Rightarrow> bool" where
  "indexed s \<longleftrightarrow> treeFrom {} (entriesOf (sm_fileEntries s)) \<and> sm_byId s = indexOfEntries (entriesOf (sm_fileEntries s)) \<and>
     (sm_labelsById s, sm_labelTimestampsById s) = labelsOf (entriesOf (sm_fileEntries s))"

lemma entriesOf_simps [simp]:
  "entriesOf [] = []" "entriesOf (HeaderLine h # ls) = entriesOf ls" "entriesOf (EntryLine e # ls) = e # entriesOf ls"
  "entriesOf (xs @ ys) = entriesOf xs @ entriesOf ys" "entriesOf (map EntryLine es) = es"
proof -
  show "entriesOf (map EntryLine es) = es" by (induction es) (simp_all add: entriesOf_def)
qed (simp_all add: entriesOf_def)

lemma setLabel_step:
  assumes "se_data e = LabelSE t l" "se_timestamp e = ts"
  shows "(sm_labelsById (setLabel t l ts s), sm_labelTimestampsById (setLabel t l ts s)) = labelStep e (sm_labelsById s, sm_labelTimestampsById s)"
proof (cases l)
  case None
  with assms(1) show ?thesis by (simp add: setLabel_def labelStep_def)
next
  case (Some x)
  with assms show ?thesis by (cases "x = []") (simp_all add: setLabel_def labelStep_def)
qed

lemma setLabel_fields [simp]:
  "sm_byId (setLabel t l ts s) = sm_byId s" "sm_leafId (setLabel t l ts s) = sm_leafId s"
  "sm_fileEntries (setLabel t l ts s) = sm_fileEntries s" "sm_sessionFile (setLabel t l ts s) = sm_sessionFile s"
  "sm_persist (setLabel t l ts s) = sm_persist s" "sm_flushed (setLabel t l ts s) = sm_flushed s" "st_disk (setLabel t l ts s) = st_disk s"
  "st_uuid (setLabel t l ts s) = st_uuid s" "st_drawn (setLabel t l ts s) = st_drawn s"
  by (cases l; simp add: setLabel_def)+

lemma indexEntry_fields:
  "sm_byId (indexEntry e s) = map_set (se_id e) e (sm_byId s)" "sm_leafId (indexEntry e s) = Some (se_id e)"
  "sm_fileEntries (indexEntry e s) = sm_fileEntries s" "sm_sessionFile (indexEntry e s) = sm_sessionFile s"
  "sm_persist (indexEntry e s) = sm_persist s" "sm_flushed (indexEntry e s) = sm_flushed s" "st_disk (indexEntry e s) = st_disk s"
  "st_uuid (indexEntry e s) = st_uuid s" "st_drawn (indexEntry e s) = st_drawn s"
  by (cases "se_data e"; simp add: indexEntry_def Let_def)+

lemma indexEntry_step:
  "(sm_labelsById (indexEntry e s), sm_labelTimestampsById (indexEntry e s)) = labelStep e (sm_labelsById s, sm_labelTimestampsById s)"
proof (cases "\<exists>t l. se_data e = LabelSE t l")
  case True
  then obtain t l where d: "se_data e = LabelSE t l" by blast
  show ?thesis using setLabel_step [OF d refl, of "s\<lparr>sm_byId := map_set (se_id e) e (sm_byId s), sm_leafId := Some (se_id e)\<rparr>"] d
    by (simp add: indexEntry_def)
qed (cases "se_data e"; simp add: indexEntry_def labelStep_def)

lemma buildIndex_labels:
  "(sm_labelsById (fold indexEntry es s), sm_labelTimestampsById (fold indexEntry es s)) = fold labelStep es (sm_labelsById s, sm_labelTimestampsById s)"
proof (induction es arbitrary: s)
  case (Cons e es)
  show ?case unfolding fold_simps Cons.IH indexEntry_step by (rule refl)
qed simp

lemma buildIndex_fold:
  "sm_leafId (fold indexEntry es s) = (if es = [] then sm_leafId s else Some (se_id (last es)))"
  "sm_fileEntries (fold indexEntry es s) = sm_fileEntries s" "sm_sessionFile (fold indexEntry es s) = sm_sessionFile s"
  "sm_persist (fold indexEntry es s) = sm_persist s" "sm_flushed (fold indexEntry es s) = sm_flushed s" "st_disk (fold indexEntry es s) = st_disk s"
  "st_uuid (fold indexEntry es s) = st_uuid s" "st_drawn (fold indexEntry es s) = st_drawn s"
  by (induction es arbitrary: s) (simp_all add: indexEntry_fields)

lemma byId_fold:
  "treeFrom {} (xs @ es) \<Longrightarrow> sm_byId s = indexOfEntries xs \<Longrightarrow> sm_byId (fold indexEntry es s) = indexOfEntries (xs @ es)"
proof (induction es arbitrary: xs s)
  case (Cons e es)
  have "treeFrom {} (xs @ [e])" using Cons.prems(1) by (simp add: treeFrom_append)
  then have "sm_byId (indexEntry e s) = indexOfEntries (xs @ [e])" using Cons.prems(2) by (simp add: indexEntry_fields index_set)
  with Cons.IH [of "xs @ [e]" "indexEntry e s"] Cons.prems(1) show ?case by simp
qed simp

lemma buildIndex_indexed:
  assumes "treeFrom {} (entriesOf (sm_fileEntries s))"
  shows "indexed (buildIndex s)"
proof -
  let ?s = "s\<lparr>sm_byId := [], sm_labelsById := [], sm_labelTimestampsById := [], sm_leafId := None\<rparr>"
  have "sm_byId (buildIndex s) = indexOfEntries (entriesOf (sm_fileEntries s))"
    using byId_fold [of "[]" "entriesOf (sm_fileEntries s)" ?s] assms by (simp add: buildIndex_def indexOfEntries_def)
  moreover have "(sm_labelsById (buildIndex s), sm_labelTimestampsById (buildIndex s)) = labelsOf (entriesOf (sm_fileEntries s))"
    unfolding buildIndex_def labelsOf_def buildIndex_labels by simp
  moreover have "sm_fileEntries (buildIndex s) = sm_fileEntries s" by (simp add: buildIndex_def buildIndex_fold)
  ultimately show ?thesis using assms unfolding indexed_def by simp
qed

text \<open>
  Files of the first version: the migration makes one path of their entries, in the order of the file, when
  the identifiers it draws differ. Nothing checks that they do.
\<close>

section \<open>The entries a migration makes\<close>

lemma generateId_unchecked: "generateId uuid (\<lambda>_. False) n = (take 8 (uuid n), n + 1)"
proof -
  have "(100 :: nat) = Suc 99" by simp
  then show ?thesis unfolding generateId_def by (simp only: generateIdFrom.simps) simp
qed

definition migratedData :: "file_line list \<Rightarrow> file_line list \<Rightarrow> string \<Rightarrow> old_entry \<Rightarrow> se_data" where
  "migratedData migrated rest i old =
     (case (oe_data old, oe_firstKeptEntryIndex old) of
        (CompactionSE c, Some index) \<Rightarrow> CompactionSE (c\<lparr>smc_firstKeptEntryId := keptId migrated rest index i (smc_firstKeptEntryId c)\<rparr>)
      | (d, _) \<Rightarrow> d)"

lemma migrateLines_old:
  "migrateLines uuid migrated prev n (OldLine old # rest) =
     migrateLines uuid (migrated @ [EntryLine \<lparr>se_id = take 8 (uuid n), se_parentId = prev, se_timestamp = oe_timestamp old,
       se_data = migratedData migrated rest (take 8 (uuid n)) old\<rparr>]) (Some (take 8 (uuid n))) (n + 1) rest"
  by (simp add: generateId_unchecked migratedData_def Let_def)

lemma migrateLines_olds:
  "\<exists>es. migrateLines uuid migrated prev n (map OldLine os) = (migrated @ map EntryLine es, n + length os) \<and> chained prev es \<and>
     map se_id es = map (\<lambda>i. take 8 (uuid i)) [n..<n + length os] \<and> map se_timestamp es = map oe_timestamp os \<and>
     (\<forall>j < length os. se_data (es ! j) =
        migratedData (migrated @ map EntryLine (take j es)) (map OldLine (drop (Suc j) os)) (se_id (es ! j)) (os ! j))"
proof (induction os arbitrary: migrated prev n)
  case (Cons old os)
  let ?i = "take 8 (uuid n)"
  let ?e = "\<lparr>se_id = ?i, se_parentId = prev, se_timestamp = oe_timestamp old, se_data = migratedData migrated (map OldLine os) ?i old\<rparr>"
  from Cons.IH [of "migrated @ [EntryLine ?e]" "Some ?i" "n + 1"] obtain es where
    run: "migrateLines uuid (migrated @ [EntryLine ?e]) (Some ?i) (n + 1) (map OldLine os) =
      ((migrated @ [EntryLine ?e]) @ map EntryLine es, (n + 1) + length os)"
    and chain: "chained (Some ?i) es" and ids: "map se_id es = map (\<lambda>i. take 8 (uuid i)) [n + 1..<n + 1 + length os]"
    and times: "map se_timestamp es = map oe_timestamp os"
    and kept: "\<forall>j < length os. se_data (es ! j) =
        migratedData ((migrated @ [EntryLine ?e]) @ map EntryLine (take j es)) (map OldLine (drop (Suc j) os)) (se_id (es ! j)) (os ! j)"
    by blast
  have "\<forall>j < length (old # os). se_data ((?e # es) ! j) = migratedData (migrated @ map EntryLine (take j (?e # es)))
      (map OldLine (drop (Suc j) (old # os))) (se_id ((?e # es) ! j)) ((old # os) ! j)"
  proof (intro allI impI)
    fix j assume "j < length (old # os)"
    then show "se_data ((?e # es) ! j) = migratedData (migrated @ map EntryLine (take j (?e # es)))
      (map OldLine (drop (Suc j) (old # os))) (se_id ((?e # es) ! j)) ((old # os) ! j)"
      using kept by (cases j) simp_all
  qed
  moreover have "[n..<n + length (old # os)] = n # [n + 1..<n + 1 + length os]" by (simp add: upt_rec)
  moreover have "migrateLines uuid migrated prev n (map OldLine (old # os)) = (migrated @ map EntryLine (?e # es), n + length (old # os))"
    using run by (simp add: migrateLines_old del: migrateLines.simps)
  ultimately show ?case using chain ids times by (intro exI [of _ "?e # es"]) (simp del: map_eq_conv)
qed simp

lemma renamed_fields: "chained parent (map (\<lambda>e. e\<lparr>se_data := f (se_data e)\<rparr>) es) = chained parent es"
  by (induction es arbitrary: parent) simp_all

lemma kept_of_earlier:
  assumes "j < length es" "1 \<le> k" "k \<le> Suc j"
  shows "keptId ([HeaderLine h] @ map EntryLine (take j es)) rest k (se_id (es ! j)) old = se_id (es ! (k - 1))"
  using assms by (auto simp: keptId_def min_def nth_append nth_Cons' not_less_eq_eq le_Suc_eq)

lemma buildEntryIndex_tree:
  assumes "treeFrom {} es"
  shows "buildEntryIndex es = indexOfEntries es"
proof -
  have "fold (\<lambda>e. map_set (se_id e) e) ys (indexOfEntries xs) = indexOfEntries (xs @ ys)" if "treeFrom {} (xs @ ys)" for xs ys
    using that
  proof (induction ys arbitrary: xs)
    case (Cons y ys)
    then have "treeFrom {} (xs @ [y])" by (simp add: treeFrom_append)
    with Cons.IH [of "xs @ [y]"] Cons.prems show ?case by (simp add: index_set)
  qed simp
  from this [of "[]" es] assms show ?thesis by (simp add: buildEntryIndex_def indexOfEntries_def)
qed

lemma path_of_chain:
  assumes "chained None es" "distinct (map se_id es)" "[] \<notin> se_id ` set es"
  shows "buildSessionPath es None (buildEntryIndex es) = Some es"
proof (cases "es = []")
  case False
  have tree: "treeFrom {} es" using assms by (intro chain_tree) auto
  with path_walk [OF tree chain_path [OF assms(1,2) False], of "[]"] False
  show ?thesis by (simp add: buildSessionPath_def buildEntryIndex_tree)
qed (simp add: buildSessionPath_def walkUp.simps)

section \<open>Properties\<close>

text \<open>
  C31. A session file of the first version is migrated to the current one without losing its history: the path to
  the last entry is the whole file in its order, with the time stamps, the data (a hook message becomes a
  custom message) and the compactions of the old entries, and a compaction that named the first entry it
  keeps by its index in the file names the same entry by its identifier. The identifiers drawn must differ.
\<close>

theorem migrated_history:
  assumes "inj_on (\<lambda>i. take 8 (uuid i)) {n..<n + length os}" "\<forall>i \<in> {n..<n + length os}. uuid i \<noteq> []"
    "sh_version h = None \<or> sh_version h = Some 1"
  shows "\<exists>es. migrateToCurrentVersion uuid n (HeaderLine h # map OldLine os) =
        (True, HeaderLine (h\<lparr>sh_version := Some 3\<rparr>) # map EntryLine es, n + length os) \<and>
      buildSessionPath es None (buildEntryIndex es) = Some es \<and> map se_timestamp es = map oe_timestamp os \<and>
      (\<forall>j < length os. oe_firstKeptEntryIndex (os ! j) = None \<longrightarrow> se_data (es ! j) = renameHookMessage (oe_data (os ! j))) \<and>
      (\<forall>j < length os. \<forall>c k. oe_data (os ! j) = CompactionSE c \<and> oe_firstKeptEntryIndex (os ! j) = Some k \<and> 1 \<le> k \<and> k \<le> j \<longrightarrow>
        se_data (es ! j) = CompactionSE (c\<lparr>smc_firstKeptEntryId := se_id (es ! (k - 1))\<rparr>))"
proof -
  let ?h2 = "HeaderLine (h\<lparr>sh_version := Some 2\<rparr>)"
  from migrateLines_olds [of uuid "[?h2]" None n os] obtain es where
    run: "migrateLines uuid [?h2] None n (map OldLine os) = ([?h2] @ map EntryLine es, n + length os)"
    and es: "chained None es" "map se_id es = map (\<lambda>i. take 8 (uuid i)) [n..<n + length os]" "map se_timestamp es = map oe_timestamp os"
    and kept: "\<forall>j < length os. se_data (es ! j) =
      migratedData ([?h2] @ map EntryLine (take j es)) (map OldLine (drop (Suc j) os)) (se_id (es ! j)) (os ! j)" by blast
  let ?es = "map (\<lambda>e. e\<lparr>se_data := renameHookMessage (se_data e)\<rparr>) es"
  have len: "length es = length os" using arg_cong [OF es(3), of length] by simp
  have ids: "map se_id ?es = map se_id es" by (simp add: comp_def)
  have version: "fileVersion (HeaderLine h # map OldLine os) < 2" using assms(3) by (auto simp: fileVersion_def headerOf_def)
  have "migrateToCurrentVersion uuid n (HeaderLine h # map OldLine os) =
      (True, HeaderLine (h\<lparr>sh_version := Some 3\<rparr>) # map EntryLine ?es, n + length os)"
    using version run by (simp add: migrateToCurrentVersion_def CURRENT_SESSION_VERSION_def migrateV1ToV2_def migrateV2ToV3_def comp_def)
  moreover have "buildSessionPath ?es None (buildEntryIndex ?es) = Some ?es"
  proof (rule path_of_chain)
    show "chained None ?es" using es(1) by (simp add: renamed_fields)
    show "distinct (map se_id ?es)" unfolding ids es(2) using assms(1) by (simp add: distinct_map)
    have "se_id ` set ?es = set (map se_id ?es)" by (simp add: image_image)
    then show "[] \<notin> se_id ` set ?es" unfolding ids es(2) using assms(2) by auto
  qed
  moreover have "map se_timestamp ?es = map oe_timestamp os" using es(3) by (simp add: comp_def)
  moreover have "\<forall>j < length os. oe_firstKeptEntryIndex (os ! j) = None \<longrightarrow> se_data (?es ! j) = renameHookMessage (oe_data (os ! j))"
    using kept len by (auto simp: migratedData_def split: se_data.splits)
  moreover have "se_data (?es ! j) = CompactionSE (c\<lparr>smc_firstKeptEntryId := se_id (?es ! (k - 1))\<rparr>)"
    if "j < length os" "oe_data (os ! j) = CompactionSE c" "oe_firstKeptEntryIndex (os ! j) = Some k" "1 \<le> k" "k \<le> j" for j c k
  proof -
    have "se_data (es ! j) = CompactionSE (c\<lparr>smc_firstKeptEntryId := se_id (es ! (k - 1))\<rparr>)"
      using kept that len kept_of_earlier [of j es k] by (simp add: migratedData_def del: append_Cons)
    with that len show ?thesis by (simp add: renameHookMessage_def)
  qed
  ultimately show ?thesis by blast
qed

definition demoUuid :: "nat \<Rightarrow> string" where
  "demoUuid i = replicate (Suc i) (CHR ''a'')"

definition demoOld :: "old_entry list" where
  "demoOld =
     [\<lparr>oe_timestamp = 1, oe_data = MessageSE (ExtensionMessage ''hookMessage'' 1 JsonNull), oe_firstKeptEntryIndex = None\<rparr>,
      \<lparr>oe_timestamp = 2, oe_data = CompactionSE \<lparr>smc_summary = ''s'', smc_firstKeptEntryId = [], smc_tokensBefore = 5, smc_details = None,
        smc_usage = None, smc_fromHook = None\<rparr>, oe_firstKeptEntryIndex = Some 1\<rparr>]"

definition demoHeader :: sm_header where
  "demoHeader = \<lparr>sh_version = None, sh_id = ''x'', sh_timestamp = 0, sh_cwd = ''/'', sh_parentSession = None\<rparr>"

theorem migrated_history_witness:
  "\<exists>es. migrateToCurrentVersion demoUuid 0 (HeaderLine demoHeader # map OldLine demoOld) =
        (True, HeaderLine (demoHeader\<lparr>sh_version := Some 3\<rparr>) # map EntryLine es, 0 + length demoOld) \<and>
      buildSessionPath es None (buildEntryIndex es) = Some es"
proof -
  have less: "i = 0 \<or> i = 1" if "i < length demoOld" for i using that by (auto simp: demoOld_def)
  have "inj_on (\<lambda>i. take 8 (demoUuid i)) {0..<0 + length demoOld}"
    by (auto simp: inj_on_def demoUuid_def dest!: less)
  moreover have "\<forall>i \<in> {0..<0 + length demoOld}. demoUuid i \<noteq> []" by (simp add: demoUuid_def)
  moreover have "sh_version demoHeader = None \<or> sh_version demoHeader = Some 1" by (simp add: demoHeader_def)
  ultimately show ?thesis using migrated_history [of demoUuid 0 demoOld demoHeader] by blast
qed

text \<open>
  The set of identifiers that the migration hands to \<open>generateId\<close> stays empty, so equal draws are not seen: an
  entry that draws the identifier of the one before it is its own parent, and the walk from it does not end.
\<close>

lemma migration_collision:
  assumes "take 8 (uuid n) = take 8 (uuid (n + 1))" "uuid n \<noteq> []" "sh_version h = None"
  shows "\<exists>es n'. migrateToCurrentVersion uuid n (HeaderLine h # map OldLine [a, b]) = (True, es, n') \<and>
    buildSessionPath (entriesOf es) None (buildEntryIndex (entriesOf es)) = None"
proof -
  have "\<forall>e. current = Some e \<longrightarrow> parentOf index e \<noteq> Some e" if "walkUp index current path = Some p" for index current path p
    using that
  proof (induction rule: walkUp.raw_induct [rotated 1, consumes 1])
    case (1 walk index current path p)
    show ?case
    proof (cases current)
      case (Some e)
      with 1(2) have "walk index (parentOf index e) (e # path) = Some p" by simp
      from 1(1) [OF this] show ?thesis using Some by auto
    qed simp
  qed
  then have loop: "walkUp index (Some e) path = None" if "parentOf index e = Some e" for index e path
    using that by (cases "walkUp index (Some e) path") blast+
  let ?i = "take 8 (uuid n)"
  define x where "x = \<lparr>se_id = ?i, se_parentId = None, se_timestamp = oe_timestamp a,
    se_data = renameHookMessage (migratedData [HeaderLine (h\<lparr>sh_version := Some 2\<rparr>)] [OldLine b] ?i a)\<rparr>"
  define d where "d = migratedData ([HeaderLine (h\<lparr>sh_version := Some 2\<rparr>)] @ [EntryLine \<lparr>se_id = ?i, se_parentId = None,
    se_timestamp = oe_timestamp a, se_data = migratedData [HeaderLine (h\<lparr>sh_version := Some 2\<rparr>)] [OldLine b] ?i a\<rparr>]) [] ?i b"
  define y where "y = \<lparr>se_id = ?i, se_parentId = Some ?i, se_timestamp = oe_timestamp b, se_data = renameHookMessage d\<rparr>"
  have same: "take 8 (uuid (n + 1)) = ?i" by (rule assms(1) [symmetric])
  have i: "?i \<noteq> []" by (simp add: assms(2))
  have version: "fileVersion (HeaderLine h # ls) = 1" for ls by (simp add: fileVersion_def headerOf_def assms(3))
  have "migrateV1ToV2 uuid n (HeaderLine h # map OldLine [a, b]) =
    ([HeaderLine (h\<lparr>sh_version := Some 2\<rparr>), EntryLine (x\<lparr>se_data := migratedData [HeaderLine (h\<lparr>sh_version := Some 2\<rparr>)] [OldLine b] ?i a\<rparr>),
      EntryLine (y\<lparr>se_data := d\<rparr>)], n + 1 + 1)"
    unfolding migrateV1ToV2_def list.map migrateLines.simps(2) append_Nil migrateLines_old same migrateLines.simps(1) x_def y_def d_def
    by simp
  then have "migrateToCurrentVersion uuid n (HeaderLine h # map OldLine [a, b]) =
    (True, [HeaderLine (h\<lparr>sh_version := Some 3\<rparr>), EntryLine x, EntryLine y], n + 1 + 1)"
    unfolding migrateToCurrentVersion_def version CURRENT_SESSION_VERSION_def by (simp add: migrateV2ToV3_def x_def y_def)
  moreover have "buildSessionPath [x, y] None (buildEntryIndex [x, y]) = None"
  proof -
    have "buildEntryIndex [x, y] = [(?i, y)]" by (simp add: buildEntryIndex_def x_def y_def)
    moreover have "parentOf [(?i, y)] y = Some y" using i by (simp add: parentOf_def y_def del: take_eq_Nil take_eq_Nil2)
    ultimately show ?thesis by (simp add: buildSessionPath_def loop)
  qed
  moreover have "entriesOf [HeaderLine (h\<lparr>sh_version := Some 3\<rparr>), EntryLine x, EntryLine y] = [x, y]" by simp
  ultimately show ?thesis by metis
qed

end
