(* ===== verification/CodingInvariant.thy ===== *)
theory CodingInvariant
  imports CodingTree
begin

text \<open>
  What holds of a session manager between calls: its index is that of a tree, its leaf is an entry, and its file
  holds its lines, or does not exist as long as the session has no answer of an assistant.
\<close>

section \<open>The invariant\<close>

abbreviation entriesIn :: "session_manager \<Rightarrow> session_entry list" where
  "entriesIn s \<equiv> entriesOf (sm_fileEntries s)"

definition uuidStream :: "(nat \<Rightarrow> string) \<Rightarrow> bool" where
  "uuidStream uuid \<longleftrightarrow> inj uuid \<and> (\<forall>n. 8 < length (uuid n))"

definition unused :: "session_manager \<Rightarrow> string set \<Rightarrow> bool" where
  "unused s ids \<longleftrightarrow> uuidStream (st_uuid s) \<and> (\<forall>n \<ge> st_drawn s. st_uuid s n \<notin> ids)"

definition currentLines :: "file_line list \<Rightarrow> bool" where
  "currentLines ls \<longleftrightarrow> (\<exists>h es. ls = HeaderLine h # map EntryLine es) \<and> CURRENT_SESSION_VERSION \<le> fileVersion ls"

definition filed :: "session_manager \<Rightarrow> bool" where
  "filed s \<longleftrightarrow> (sm_persist s \<longrightarrow> (\<exists>path. sm_sessionFile s = Some path \<and>
     (if sm_flushed s then \<exists>f. st_disk s path = Some f \<and> parsedLines f = sm_fileEntries s \<and> sf_tail f = None
      else st_disk s path = None \<and> \<not> list_ex assistantLine (sm_fileEntries s))))"

definition well_kept :: "session_manager \<Rightarrow> bool" where
  "well_kept s \<longleftrightarrow> indexed s \<and> unused s (se_id ` set (entriesIn s)) \<and>
     (\<forall>i. sm_leafId s = Some i \<longrightarrow> i \<in> se_id ` set (entriesIn s)) \<and> currentLines (sm_fileEntries s) \<and> filed s"

lemma well_keptI:
  "indexed s \<Longrightarrow> unused s (se_id ` set (entriesIn s)) \<Longrightarrow> (\<And>i. sm_leafId s = Some i \<Longrightarrow> i \<in> se_id ` set (entriesIn s)) \<Longrightarrow>
    currentLines (sm_fileEntries s) \<Longrightarrow> filed s \<Longrightarrow> well_kept s"
  by (simp add: well_kept_def)

lemma well_keptD:
  assumes "well_kept s"
  shows "indexed s" "unused s (se_id ` set (entriesIn s))" "sm_leafId s = Some i \<Longrightarrow> i \<in> se_id ` set (entriesIn s)"
    "currentLines (sm_fileEntries s)" "filed s" "treeFrom {} (entriesIn s)" "sm_byId s = indexOfEntries (entriesIn s)"
  using assms by (simp_all add: well_kept_def indexed_def)

section \<open>Identifiers\<close>

lemma generateId_first: "\<not> has (take 8 (uuid n)) \<Longrightarrow> generateId uuid has n = (take 8 (uuid n), n + 1)"
proof -
  have "(100 :: nat) = Suc 99" by simp
  then show "\<not> has (take 8 (uuid n)) \<Longrightarrow> generateId uuid has n = (take 8 (uuid n), n + 1)"
    unfolding generateId_def by (simp only: generateIdFrom.simps) simp
qed

lemma generateId_new:
  assumes "generateId uuid has n = (i, n')" "uuidStream uuid" "\<And>m. m \<ge> n \<Longrightarrow> uuid m \<notin> ids" "\<And>x. has x \<longleftrightarrow> x \<in> ids"
  shows "i \<notin> ids \<and> i \<noteq> [] \<and> (\<forall>m \<ge> n'. uuid m \<notin> insert i ids)"
proof -
  have "i \<notin> ids \<and> i \<noteq> [] \<and> (\<forall>m \<ge> n'. uuid m \<notin> insert i ids)"
    if "generateIdFrom uuid has tries n = (i, n')" "\<And>m. m \<ge> n \<Longrightarrow> uuid m \<notin> ids" for tries n
    using that
  proof (induction tries arbitrary: n)
    case 0
    then have i: "i = uuid n" "n' = n + 1" by simp_all
    have "uuid m \<noteq> uuid n" if "m \<ge> n + 1" for m
      using assms(2) that unfolding uuidStream_def inj_def by (metis Suc_eq_plus1 Suc_n_not_le_n)
    moreover have "uuid n \<noteq> []" using assms(2) unfolding uuidStream_def by (metis list.size(3) not_less_zero)
    ultimately show ?case using 0(2) i by auto
  next
    case (Suc tries)
    show ?case
    proof (cases "has (take 8 (uuid n))")
      case True
      with Suc.prems(1) have "generateIdFrom uuid has tries (n + 1) = (i, n')" by simp
      with Suc.IH [OF this] Suc.prems(2) show ?thesis by simp
    next
      case False
      with Suc.prems(1) have i: "i = take 8 (uuid n)" "n' = n + 1" by simp_all
      have "uuid m \<noteq> take 8 (uuid n)" for m
      proof
        assume "uuid m = take 8 (uuid n)"
        then have "length (uuid m) \<le> 8" by simp
        with assms(2) show False unfolding uuidStream_def by (metis not_less)
      qed
      moreover have "uuid n \<noteq> []" using assms(2) unfolding uuidStream_def by (metis list.size(3) not_less_zero)
      ultimately show ?thesis using Suc.prems(2) False assms(4) i by auto
    qed
  qed
  from this [OF assms(1)[unfolded generateId_def] assms(3)] show ?thesis .
qed

section \<open>The file\<close>

lemma parsedLines_written [simp]: "parsedLines (writtenFile ls) = ls" "sf_tail (writtenFile ls) = None"
proof -
  have "concat (map (\<lambda>l. case l of Some e \<Rightarrow> [e] | None \<Rightarrow> []) (map Some ls)) = ls" by (induction ls) simp_all
  then show "parsedLines (writtenFile ls) = ls" "sf_tail (writtenFile ls) = None" by (simp_all add: parsedLines_def writtenFile_def)
qed

lemma parsedLines_extend:
  "sf_tail f = None \<Longrightarrow> parsedLines (extendFile l (Some f)) = parsedLines f @ [l] \<and> sf_tail (extendFile l (Some f)) = None"
  by (simp add: parsedLines_def extendFile_def)

lemma persist_run:
  assumes "filed s" "sm_fileEntries t = sm_fileEntries s @ [EntryLine e]" "sm_sessionFile t = sm_sessionFile s"
    "sm_persist t = sm_persist s" "sm_flushed t = sm_flushed s" "st_disk t = st_disk s"
  shows "\<exists>disk fl. persistEntry e t = (Returned (), t\<lparr>st_disk := disk, sm_flushed := fl\<rparr>) \<and> filed (t\<lparr>st_disk := disk, sm_flushed := fl\<rparr>)"
proof (cases "sm_persist s")
  case False
  then have "persistEntry e t = (Returned (), t)" using assms(4) by (simp add: persistEntry_def split: option.split)
  then have "persistEntry e t = (Returned (), t\<lparr>st_disk := st_disk t, sm_flushed := sm_flushed t\<rparr>)" by simp
  moreover have "filed (t\<lparr>st_disk := st_disk t, sm_flushed := sm_flushed t\<rparr>)" using False assms(4) by (simp add: filed_def)
  ultimately show ?thesis by blast
next
  case True
  with assms(1) obtain path where path: "sm_sessionFile s = Some path" and f:
    "if sm_flushed s then \<exists>f. st_disk s path = Some f \<and> parsedLines f = sm_fileEntries s \<and> sf_tail f = None
      else st_disk s path = None \<and> \<not> list_ex assistantLine (sm_fileEntries s)" by (auto simp: filed_def)
  show ?thesis
  proof (cases "sm_flushed s")
    case flushed: True
    with f obtain f where f: "st_disk s path = Some f" "parsedLines f = sm_fileEntries s" "sf_tail f = None" by auto
    have "persistEntry e t = (Returned (), appendLine path (EntryLine e) t)"
      using True flushed path assms(3-5) by (simp add: persistEntry_def)
    also have "appendLine path (EntryLine e) t = t\<lparr>st_disk := (st_disk t)(path \<mapsto> extendFile (EntryLine e) (Some f)), sm_flushed := sm_flushed t\<rparr>"
      using f(1) assms(6) by (simp add: appendLine_def)
    finally show ?thesis
      using True flushed path assms(2-5) f parsedLines_extend [OF f(3), of "EntryLine e"]
      by (intro exI [of _ "(st_disk t)(path \<mapsto> extendFile (EntryLine e) (Some f))"] exI [of _ "sm_flushed t"]) (simp add: filed_def)
  next
    case unflushed: False
    with f have f: "st_disk s path = None" "\<not> list_ex assistantLine (sm_fileEntries s)" by auto
    show ?thesis
    proof (cases "list_ex assistantLine (sm_fileEntries t)")
      case has: True
      have "persistEntry e t = (Returned (), t\<lparr>st_disk := (st_disk t)(path \<mapsto> writtenFile (sm_fileEntries t)), sm_flushed := True\<rparr>)"
        using True unflushed has path f(1) assms(3-6) by (simp add: persistEntry_def writeLines_def)
      moreover have "filed (t\<lparr>st_disk := (st_disk t)(path \<mapsto> writtenFile (sm_fileEntries t)), sm_flushed := True\<rparr>)"
        using path assms(3) by (simp add: filed_def)
      ultimately show ?thesis by blast
    next
      case no: False
      have "persistEntry e t = (Returned (), t\<lparr>st_disk := st_disk t, sm_flushed := False\<rparr>)"
        using True unflushed no path assms(3-5) by (simp add: persistEntry_def)
      moreover have "filed (t\<lparr>st_disk := st_disk t, sm_flushed := False\<rparr>)"
        using path f(1) no assms(3,6) by (simp add: filed_def)
      ultimately show ?thesis by blast
    qed
  qed
qed

section \<open>Appending\<close>

text \<open>The state after an entry, without the labels.\<close>

definition afterAppend :: "session_entry \<Rightarrow> nat \<Rightarrow> (string \<rightharpoonup> session_file) \<Rightarrow> bool \<Rightarrow> session_manager \<Rightarrow> session_manager" where
  "afterAppend e n disk fl s = s\<lparr>st_drawn := n, sm_fileEntries := sm_fileEntries s @ [EntryLine e],
     sm_byId := map_set (se_id e) e (sm_byId s), sm_leafId := Some (se_id e), st_disk := disk, sm_flushed := fl\<rparr>"

definition newEntry :: "session_manager \<Rightarrow> se_data \<Rightarrow> session_entry \<Rightarrow> nat \<Rightarrow> bool" where
  "newEntry s d e n \<longleftrightarrow> se_data e = d \<and> se_parentId e = sm_leafId s \<and> se_timestamp e = st_now s \<and> se_id e \<noteq> [] \<and>
     se_id e \<notin> se_id ` set (entriesIn s) \<and> (\<forall>m \<ge> n. st_uuid s m \<notin> insert (se_id e) (se_id ` set (entriesIn s)))"

lemma appendChild_run:
  assumes "indexed s" "unused s (se_id ` set (entriesIn s))" "filed s"
  shows "\<exists>e n disk fl. appendChild d s = (Returned e, afterAppend e n disk fl s) \<and> newEntry s d e n \<and> filed (afterAppend e n disk fl s)"
proof -
  obtain i n where id: "generateId (st_uuid s) (map_has (sm_byId s)) (st_drawn s) = (i, n)" by fastforce
  let ?ids = "se_id ` set (entriesIn s)"
  have known: "map_has (sm_byId s) x \<longleftrightarrow> x \<in> ?ids" for x using assms(1) by (simp add: indexed_def entry_index_has)
  from assms(2) have uuid: "uuidStream (st_uuid s)" "\<And>m. m \<ge> st_drawn s \<Longrightarrow> st_uuid s m \<notin> ?ids" by (simp_all add: unused_def)
  define e where "e = \<lparr>se_id = i, se_parentId = sm_leafId s, se_timestamp = st_now s, se_data = d\<rparr>"
  have new: "newEntry s d e n"
    using generateId_new [OF id uuid(1) uuid(2) known] by (simp add: newEntry_def e_def)
  let ?t = "s\<lparr>st_drawn := n, sm_fileEntries := sm_fileEntries s @ [EntryLine e], sm_byId := map_set (se_id e) e (sm_byId s),
    sm_leafId := Some (se_id e)\<rparr>"
  have "\<exists>disk fl. persistEntry e ?t = (Returned (), ?t\<lparr>st_disk := disk, sm_flushed := fl\<rparr>) \<and> filed (?t\<lparr>st_disk := disk, sm_flushed := fl\<rparr>)"
    by (rule persist_run [OF assms(3)]) simp_all
  then obtain disk fl where persist: "persistEntry e ?t = (Returned (), ?t\<lparr>st_disk := disk, sm_flushed := fl\<rparr>)"
    "filed (?t\<lparr>st_disk := disk, sm_flushed := fl\<rparr>)" by blast
  have "appendChild d s = (Returned e, afterAppend e n disk fl s)"
    using id persist(1) by (simp add: appendChild_def drawId_def appendEntryLine_def action_run afterAppend_def e_def)
  moreover have "filed (afterAppend e n disk fl s)" using persist(2) by (simp add: afterAppend_def)
  ultimately show ?thesis using new by blast
qed

lemma fileVersion_snoc: "fileVersion ((HeaderLine h # ls) @ [l]) = fileVersion (HeaderLine h # ls)"
  by (simp add: fileVersion_def headerOf_def)

lemma currentLines_snoc:
  assumes "currentLines ls"
  shows "currentLines (ls @ [EntryLine e])"
proof -
  from assms obtain h es where ls: "ls = HeaderLine h # map EntryLine es" "CURRENT_SESSION_VERSION \<le> fileVersion ls"
    unfolding currentLines_def by blast
  have "ls @ [EntryLine e] = HeaderLine h # map EntryLine (es @ [e])" using ls(1) by simp
  moreover have "fileVersion (ls @ [EntryLine e]) = fileVersion ls" unfolding ls(1) by (rule fileVersion_snoc)
  ultimately show ?thesis using ls(2) unfolding currentLines_def by metis
qed

lemma labelsOf_snoc: "labelsOf (es @ [e]) = labelStep e (labelsOf es)"
  by (simp add: labelsOf_def)

lemma appended_well_kept:
  assumes s: "well_kept s" and new: "newEntry s d e n" and "filed u"
    and u: "sm_fileEntries u = sm_fileEntries s @ [EntryLine e]" "sm_byId u = map_set (se_id e) e (sm_byId s)"
      "sm_leafId u = Some (se_id e)" "st_uuid u = st_uuid s" "st_drawn u = n"
      "(sm_labelsById u, sm_labelTimestampsById u) = labelStep e (sm_labelsById s, sm_labelTimestampsById s)"
  shows "well_kept u"
proof (rule well_keptI)
  note old = well_keptD [OF s]
  have parent: "case se_parentId e of None \<Rightarrow> True | Some p \<Rightarrow> p \<in> se_id ` set (entriesIn s)"
    using old(3) new by (auto simp: newEntry_def split: option.split)
  have tree: "treeFrom {} (entriesIn s @ [e])" using old(6) new parent by (simp add: treeFrom_append newEntry_def)
  have "(sm_labelsById s, sm_labelTimestampsById s) = labelsOf (entriesIn s)" using old(1) by (simp add: indexed_def)
  then show "indexed u"
    using tree old(7) u index_set [OF tree] by (simp add: indexed_def labelsOf_snoc)
  show "unused u (se_id ` set (entriesIn u))" using old(2) new u by (simp add: unused_def newEntry_def)
  show "i \<in> se_id ` set (entriesIn u)" if "sm_leafId u = Some i" for i using that u by simp
  show "currentLines (sm_fileEntries u)" using currentLines_snoc [OF old(4)] u(1) by simp
qed (rule assms)

lemma labelStep_other: "\<not> isLabel e \<Longrightarrow> labelStep e m = m"
  by (cases "se_data e") (simp_all add: isLabel_def labelStep_def)

text \<open>An operation that appends one entry.\<close>

definition appendsOne :: "session_manager \<Rightarrow> session_manager \<Rightarrow> se_data \<Rightarrow> string \<Rightarrow> bool" where
  "appendsOne s u d i \<longleftrightarrow> (\<exists>e n. newEntry s d e n \<and> se_id e = i \<and> sm_fileEntries u = sm_fileEntries s @ [EntryLine e] \<and>
     sm_leafId u = Some i \<and> well_kept u)"

lemma appendedId_run:
  assumes "well_kept s" "\<And>t l. d \<noteq> LabelSE t l"
  shows "\<exists>i u. appendedId d s = (Returned i, u) \<and> appendsOne s u d i"
proof -
  from appendChild_run [OF well_keptD(1,2,5) [OF assms(1)]] obtain e n disk fl where
    run: "appendChild d s = (Returned e, afterAppend e n disk fl s)" and new: "newEntry s d e n" and f: "filed (afterAppend e n disk fl s)" by blast
  have "\<not> isLabel e" using new assms(2) by (auto simp: newEntry_def isLabel_def split: se_data.splits)
  then have "well_kept (afterAppend e n disk fl s)"
    by (intro appended_well_kept [OF assms(1) new f]) (simp_all add: afterAppend_def labelStep_other)
  then have "appendsOne s (afterAppend e n disk fl s) d (se_id e)"
    using new unfolding appendsOne_def by (intro exI [of _ e] exI [of _ n]) (simp add: afterAppend_def)
  moreover have "appendedId d s = (Returned (se_id e), afterAppend e n disk fl s)" using run by (simp add: appendedId_def action_run)
  ultimately show ?thesis by blast
qed

lemma setLabel_drawn: "filed (setLabel t l ts s) = filed s"
  by (simp add: filed_def)

lemma appendLabelChange_run:
  assumes "well_kept s" "t \<in> se_id ` set (entriesIn s)"
  shows "\<exists>i u. appendLabelChange t l s = (Returned i, u) \<and> appendsOne s u (LabelSE t l) i"
proof -
  from appendChild_run [OF well_keptD(1,2,5) [OF assms(1)], of "LabelSE t l"] obtain e n disk fl where
    run: "appendChild (LabelSE t l) s = (Returned e, afterAppend e n disk fl s)" and new: "newEntry s (LabelSE t l) e n"
    and f: "filed (afterAppend e n disk fl s)" by blast
  let ?u = "setLabel t l (se_timestamp e) (afterAppend e n disk fl s)"
  have d: "se_data e = LabelSE t l" using new by (simp add: newEntry_def)
  have labels: "(sm_labelsById ?u, sm_labelTimestampsById ?u) = labelStep e (sm_labelsById s, sm_labelTimestampsById s)"
    using setLabel_step [OF d refl, of "afterAppend e n disk fl s"] by (simp add: afterAppend_def)
  have "filed ?u" using f by (simp add: setLabel_drawn)
  then have "well_kept ?u"
    by (rule appended_well_kept [OF assms(1) new _ _ _ _ _ _ labels]) (simp_all add: afterAppend_def)
  then have "appendsOne s ?u (LabelSE t l) (se_id e)"
    using new unfolding appendsOne_def by (intro exI [of _ e] exI [of _ n]) (simp add: afterAppend_def)
  moreover have "map_has (sm_byId s) t" using assms(2) well_keptD(7) [OF assms(1)] by (simp add: entry_index_has)
  then have "appendLabelChange t l s = (Returned (se_id e), ?u)" using run by (simp add: appendLabelChange_def action_run)
  ultimately show ?thesis by blast
qed

text \<open>
  The calls of the session manager keep its invariant: appending, moving the leaf, new sessions, opening a file
  and the session of one branch. The state of a manager that is used through its calls satisfies it.
\<close>

section \<open>New sessions and files\<close>

lemma fresh_session:
  assumes "uuidStream (st_uuid s)" "sm_fileEntries s = [HeaderLine h]" "sh_version h = Some CURRENT_SESSION_VERSION"
    "sm_byId s = []" "sm_labelsById s = []" "sm_labelTimestampsById s = []" "sm_leafId s = None" "filed s"
  shows "well_kept s"
proof (rule well_keptI)
  show "currentLines (sm_fileEntries s)" using assms(2,3) by (auto simp: currentLines_def fileVersion_def headerOf_def)
qed (use assms in \<open>simp_all add: indexed_def unused_def labelsOf_def indexOfEntries_def\<close>)

lemma headerOf_Cons [simp]: "headerOf (HeaderLine h # ls) = Some h"
  by (simp add: headerOf_def)

definition newFileAbsent :: "session_manager \<Rightarrow> bool" where
  "newFileAbsent s \<longleftrightarrow> (sm_persist s \<longrightarrow> (\<forall>path. sm_sessionFile s = Some path \<longrightarrow> st_disk s path = None))"

lemma newSession_returned:
  assumes "newSession i p s = (Returned r, u)"
  shows "\<exists>h. sm_fileEntries u = [HeaderLine h] \<and> sh_version h = Some CURRENT_SESSION_VERSION" "sm_byId u = []" "sm_labelsById u = []"
    "sm_labelTimestampsById u = []" "sm_leafId u = None" "sm_flushed u = False" "st_uuid u = st_uuid s" "sm_persist u = sm_persist s"
    "st_disk u = st_disk s" "sm_persist u \<Longrightarrow> sm_sessionFile u \<noteq> None"
  using assms by (auto simp: newSession_def createSessionId_def action_run split: option.splits if_splits)

lemma newSession_well_kept:
  assumes "newSession i p s = (Returned r, u)" "uuidStream (st_uuid s)" "newFileAbsent u"
  shows "well_kept u"
proof -
  note new = newSession_returned [OF assms(1)]
  from new(1) obtain h where h: "sm_fileEntries u = [HeaderLine h]" "sh_version h = Some CURRENT_SESSION_VERSION" by blast
  have "filed u" using assms(3) new(6,10) h(1) by (auto simp: filed_def newFileAbsent_def assistantLine_def)
  then show ?thesis using fresh_session [OF _ h new(2-5)] assms(2) new(7) by simp
qed

lemma newSession_default: "\<exists>r u. newSession None None s = (Returned r, u)"
  by (simp add: newSession_def createSessionId_def action_run)

text \<open>Files that can be opened: a file that is absent or empty, or whose lines make a tree in the current version.\<close>

definition readable :: "session_manager \<Rightarrow> string \<Rightarrow> bool" where
  "readable s path \<longleftrightarrow> (\<forall>f. st_disk s path = Some f \<longrightarrow> sf_tail f = None \<and> (f = writtenFile [] \<or>
     (case migrateToCurrentVersion (st_uuid s) (st_drawn s) (parsedLines f) of (migrated, ls, n) \<Rightarrow>
       currentLines ls \<and> treeFrom {} (entriesOf ls) \<and> (\<forall>k \<ge> n. st_uuid s k \<notin> se_id ` set (entriesOf ls)))))"

lemma buildIndex_fields [simp]:
  "sm_fileEntries (buildIndex s) = sm_fileEntries s" "sm_sessionFile (buildIndex s) = sm_sessionFile s"
  "sm_persist (buildIndex s) = sm_persist s" "sm_flushed (buildIndex s) = sm_flushed s" "st_disk (buildIndex s) = st_disk s"
  "st_uuid (buildIndex s) = st_uuid s" "st_drawn (buildIndex s) = st_drawn s"
  "sm_leafId (buildIndex s) = (if entriesIn s = [] then None else Some (se_id (last (entriesIn s))))"
  by (simp_all add: buildIndex_def buildIndex_fold)

lemma filed_same:
  assumes "sm_persist s = sm_persist t" "sm_sessionFile s = sm_sessionFile t" "sm_flushed s = sm_flushed t" "st_disk s = st_disk t"
    "sm_fileEntries s = sm_fileEntries t"
  shows "filed s = filed t"
  by (simp only: filed_def assms)

lemma indexed_flushed: "indexed (s\<lparr>sm_flushed := b\<rparr>) = indexed s"
  by (simp add: indexed_def)

lemma built_well_kept:
  assumes "treeFrom {} (entriesIn s)" "unused s (se_id ` set (entriesIn s))" "currentLines (sm_fileEntries s)"
    "filed (s\<lparr>sm_flushed := b\<rparr>)"
  shows "well_kept ((buildIndex s)\<lparr>sm_flushed := b\<rparr>)"
proof (rule well_keptI)
  show "indexed ((buildIndex s)\<lparr>sm_flushed := b\<rparr>)" using buildIndex_indexed [OF assms(1)] by (simp only: indexed_flushed)
  show "i \<in> se_id ` set (entriesIn ((buildIndex s)\<lparr>sm_flushed := b\<rparr>))" if "sm_leafId ((buildIndex s)\<lparr>sm_flushed := b\<rparr>) = Some i" for i
    using that by (auto split: if_splits)
  have "filed ((buildIndex s)\<lparr>sm_flushed := b\<rparr>) = filed (s\<lparr>sm_flushed := b\<rparr>)" by (rule filed_same) simp_all
  with assms(4) show "filed ((buildIndex s)\<lparr>sm_flushed := b\<rparr>)" by blast
qed (use assms in \<open>simp_all add: unused_def\<close>)

lemma openedSession_run:
  assumes "sm_fileEntries s = HeaderLine h # rest" "migrateToCurrentVersion (st_uuid s) (st_drawn s) (sm_fileEntries s) = (migrated, ls, n)"
    "uuidStream (st_uuid s)" "currentLines ls" "treeFrom {} (entriesOf ls)" "\<forall>k \<ge> n. st_uuid s k \<notin> se_id ` set (entriesOf ls)"
    "sm_sessionFile s = Some path" "st_disk s path = Some f" "parsedLines f = sm_fileEntries s" "sf_tail f = None"
  shows "\<exists>u. openedSession s = (Returned (), u) \<and> well_kept u \<and> sm_fileEntries u = ls \<and> sm_flushed u"
proof -
  define t where "t = (if migrated then snd (rewriteFile (s\<lparr>sm_sessionId := sh_id h, sm_fileEntries := ls, st_drawn := n\<rparr>))
    else s\<lparr>sm_sessionId := sh_id h\<rparr>)"
  have run: "openedSession s = (Returned (), (buildIndex t)\<lparr>sm_flushed := True\<rparr>)"
    using assms(1,2) by (simp add: openedSession_def action_run t_def rewriteFile_def)
  have same: "\<not> migrated \<Longrightarrow> ls = sm_fileEntries s \<and> n = st_drawn s"
    using assms(2) by (auto simp: migrateToCurrentVersion_def Let_def split: if_splits prod.splits)
  have ls: "sm_fileEntries t = ls" using same by (auto simp: t_def rewriteFile_def change_def writeLines_def assms(7))
  have "st_uuid t = st_uuid s" "st_drawn t = n" using same by (auto simp: t_def rewriteFile_def change_def writeLines_def assms(7))
  then have "unused t (se_id ` set (entriesIn t))" using assms(3,6) ls by (simp add: unused_def)
  moreover have "filed (t\<lparr>sm_flushed := True\<rparr>)"
    using assms(7-10) ls same by (cases migrated) (simp_all add: t_def rewriteFile_def change_def writeLines_def filed_def)
  ultimately have "well_kept ((buildIndex t)\<lparr>sm_flushed := True\<rparr>)" using assms(4,5) ls by (intro built_well_kept) simp_all
  with run ls show ?thesis by simp
qed

lemma setSessionFile_well_kept:
  assumes "setSessionFile path s = (Returned (), u)" "uuidStream (st_uuid s)" "readable s path"
  shows "well_kept u"
proof (cases "st_disk s path")
  case None
  obtain r v where new: "newSession None None (s\<lparr>sm_sessionFile := Some path\<rparr>) = (Returned r, v)" using newSession_default by blast
  note fields = newSession_returned [OF new]
  have u: "u = v\<lparr>sm_sessionFile := Some path\<rparr>" using assms(1) None new by (simp add: setSessionFile_def action_run)
  from fields(1) obtain h where h: "sm_fileEntries u = [HeaderLine h]" "sh_version h = Some CURRENT_SESSION_VERSION" unfolding u by auto
  have "filed u" using fields h None u by (simp add: filed_def assistantLine_def)
  then show ?thesis using fields assms(2) by (intro fresh_session [OF _ h]) (simp_all add: u)
next
  case (Some f)
  with assms(3) have f: "sf_tail f = None" by (simp add: readable_def)
  show ?thesis
  proof (cases "f = writtenFile []")
    case True
    let ?s = "s\<lparr>sm_sessionFile := Some path, sm_fileEntries := []\<rparr>"
    obtain r v where new: "newSession None None ?s = (Returned r, v)" using newSession_default by blast
    note fields = newSession_returned [OF new]
    have "loadEntriesFromFile (s\<lparr>sm_sessionFile := Some path\<rparr>) path = []" using Some True by (simp add: loadEntriesFromFile_def)
    then have u: "u = (snd (rewriteFile (v\<lparr>sm_sessionFile := Some path\<rparr>)))\<lparr>sm_flushed := True\<rparr>"
      using assms(1) Some True new by (simp add: setSessionFile_def action_run rewriteFile_def)
    from fields(1) obtain h where v: "sm_fileEntries v = [HeaderLine h]" and h: "sh_version h = Some CURRENT_SESSION_VERSION" by blast
    then have h: "sm_fileEntries u = [HeaderLine h]" "sh_version h = Some CURRENT_SESSION_VERSION"
      by (simp_all add: u rewriteFile_def change_def writeLines_def)
    have "filed u" using v unfolding u by (simp add: filed_def rewriteFile_def change_def writeLines_def)
    then show ?thesis using fields assms(2) by (intro fresh_session [OF _ h]) (simp_all add: u rewriteFile_def change_def writeLines_def)
  next
    case False
    let ?s = "s\<lparr>sm_sessionFile := Some path, sm_fileEntries := loadEntriesFromFile s path\<rparr>"
    have load: "loadEntriesFromFile (s\<lparr>sm_sessionFile := Some path\<rparr>) path = loadEntriesFromFile s path" by (simp add: loadEntriesFromFile_def)
    have lines: "loadEntriesFromFile s path \<noteq> []" and run: "openedSession ?s = (Returned (), u)"
      using assms(1) Some False by (auto simp: setSessionFile_def action_run load split: if_splits)
    from lines Some obtain h rest where h: "loadEntriesFromFile s path = HeaderLine h # rest" "parsedLines f = HeaderLine h # rest"
      by (auto simp: loadEntriesFromFile_def Let_def split: list.splits file_line.splits)
    obtain migrated ls n where m: "migrateToCurrentVersion (st_uuid s) (st_drawn s) (parsedLines f) = (migrated, ls, n)"
      by (cases "migrateToCurrentVersion (st_uuid s) (st_drawn s) (parsedLines f)") auto
    with assms(3) Some False have ok: "currentLines ls" "treeFrom {} (entriesOf ls)" "\<forall>k \<ge> n. st_uuid s k \<notin> se_id ` set (entriesOf ls)"
      by (simp_all add: readable_def)
    have "\<exists>v. openedSession ?s = (Returned (), v) \<and> well_kept v \<and> sm_fileEntries v = ls \<and> sm_flushed v"
      by (rule openedSession_run [of _ h rest migrated ls n path f]) (use m h ok Some f assms(2) in simp_all)
    with run show ?thesis by auto
  qed
qed

end
