(* ===== verification/CodingBranch.thy ===== *)
theory CodingBranch
  imports CodingInvariant
begin

text \<open>
  The session of one branch: the entries of the path but its labels, linked anew, and fresh entries for the
  labels. Labels have no messages, so the context is that of the branch, unless the last compaction of the path
  keeps the entries from a label on.
\<close>

section \<open>Contexts without labels\<close>

definition contextOf :: "session_entry list \<Rightarrow> agent_message list \<times> context_settings" where
  "contextOf path = (concat (map entryToContextMessages (compactPath path)), getSessionContextSettings path)"

definition keepsLabel :: "session_entry list \<Rightarrow> bool" where
  "keepsLabel path \<longleftrightarrow> (case getLatestCompactionEntry path of
       None \<Rightarrow> False
     | Some c \<Rightarrow> \<exists>k e. compactionOf c = Some k \<and> e \<in> set (takeWhile (\<lambda>e. se_id e \<noteq> se_id c) path) \<and> isLabel e \<and>
         se_id e = smc_firstKeptEntryId k)"

abbreviation withoutLabels :: "session_entry list \<Rightarrow> session_entry list" where
  "withoutLabels \<equiv> filter (\<lambda>e. \<not> isLabel e)"

lemma latest_None: "getLatestCompactionEntry path = None \<longleftrightarrow> (\<forall>e \<in> set path. compactionOf e = None)"
  by (auto simp: getLatestCompactionEntry_def find_None_iff)

lemma latest_split:
  assumes "getLatestCompactionEntry path = Some c"
  shows "\<exists>xs ys k. path = xs @ c # ys \<and> compactionOf c = Some k \<and> (\<forall>e \<in> set ys. compactionOf e = None)"
proof -
  from assms obtain i where i: "i < length (rev path)" "compactionOf (rev path ! i) \<noteq> None" "c = rev path ! i"
    "\<forall>j < i. \<not> compactionOf (rev path ! j) \<noteq> None" unfolding getLatestCompactionEntry_def by (auto simp: find_Some_iff)
  let ?ys = "take i (rev path)" and ?xs = "drop (Suc i) (rev path)"
  have "rev path = ?ys @ c # ?xs" using i(1,3) by (simp add: id_take_nth_drop)
  then have "path = rev ?xs @ c # rev ?ys" by (metis append.assoc append_Cons append_Nil rev_append rev_rev_ident rev.simps(2))
  moreover have "compactionOf e = None" if "e \<in> set (rev ?ys)" for e
  proof -
    from that have "e \<in> set ?ys" by simp
    then obtain j where "j < i" "rev path ! j = e" using i(1) by (auto simp: in_set_conv_nth)
    with i(4) show ?thesis by auto
  qed
  ultimately show ?thesis using i(2,3) by (metis not_None_eq)
qed

lemma compactPath_split:
  assumes "path = xs @ c # ys" "compactionOf c = Some k" "\<forall>e \<in> set ys. compactionOf e = None" "se_id c \<notin> se_id ` set xs"
  shows "getLatestCompactionEntry path = Some c" "takeWhile (\<lambda>e. se_id e \<noteq> se_id c) path = xs"
    "compactPath path = c # dropWhile (\<lambda>e. se_id e \<noteq> smc_firstKeptEntryId k) xs @ ys"
proof -
  have "find P (as @ c # bs) = Some c" if "\<forall>a \<in> set as. \<not> P a" "P c" for P as bs using that by (induction as) simp_all
  then have "find (\<lambda>e. compactionOf e \<noteq> None) (rev ys @ c # rev xs) = Some c" using assms(2,3) by simp
  then show latest: "getLatestCompactionEntry path = Some c" by (simp add: getLatestCompactionEntry_def assms(1))
  show before: "takeWhile (\<lambda>e. se_id e \<noteq> se_id c) path = xs" unfolding assms(1) using assms(4)
    by (subst takeWhile_append2) (auto simp: image_iff)
  show "compactPath path = c # dropWhile (\<lambda>e. se_id e \<noteq> smc_firstKeptEntryId k) xs @ ys"
    unfolding compactPath_def latest option.case Let_def before using assms(1,2) by simp
qed

lemma settings_withoutLabels: "getSessionContextSettings (withoutLabels path) = getSessionContextSettings path"
proof -
  have "fold settingsStep (withoutLabels path) s = fold settingsStep path s" for s
    by (induction path arbitrary: s) (auto simp: settingsStep_def isLabel_def split: se_data.splits)
  then show ?thesis by (simp add: getSessionContextSettings_def)
qed

lemma messages_withoutLabels: "concat (map entryToContextMessages (withoutLabels es)) = concat (map entryToContextMessages es)"
  by (induction es) (auto simp: entryToContextMessages_def isLabel_def split: se_data.splits)

lemma dropWhile_withoutLabels:
  "(\<forall>e \<in> set es. isLabel e \<longrightarrow> se_id e \<noteq> i) \<Longrightarrow>
    dropWhile (\<lambda>e. se_id e \<noteq> i) (withoutLabels es) = withoutLabels (dropWhile (\<lambda>e. se_id e \<noteq> i) es)"
  by (induction es) auto

lemma context_withoutLabels:
  assumes "distinct (map se_id path)" "\<not> keepsLabel path"
  shows "contextOf (withoutLabels path) = contextOf path"
proof (cases "getLatestCompactionEntry path")
  case None
  then have "getLatestCompactionEntry (withoutLabels path) = None" by (simp add: latest_None)
  with None show ?thesis by (simp add: contextOf_def compactPath_def settings_withoutLabels messages_withoutLabels)
next
  case (Some c)
  from latest_split [OF Some] obtain xs ys k where path: "path = xs @ c # ys" and k: "compactionOf c = Some k"
    and ys: "\<forall>e \<in> set ys. compactionOf e = None" by blast
  have c: "se_id c \<notin> se_id ` set xs" and nolabel: "\<not> isLabel c"
    using assms(1) k by (auto simp: path compactionOf_def isLabel_def split: se_data.splits)
  note split = compactPath_split [OF path k ys c]
  have labels: "\<forall>e \<in> set xs. isLabel e \<longrightarrow> se_id e \<noteq> smc_firstKeptEntryId k"
    using assms(2) k by (auto simp: keepsLabel_def split(1,2))
  have "withoutLabels path = withoutLabels xs @ c # withoutLabels ys" using nolabel by (simp add: path)
  from compactPath_split(3) [OF this k] ys c
  have "compactPath (withoutLabels path) = c # dropWhile (\<lambda>e. se_id e \<noteq> smc_firstKeptEntryId k) (withoutLabels xs) @ withoutLabels ys" by auto
  then show ?thesis
    by (simp add: contextOf_def split(3) dropWhile_withoutLabels [OF labels] settings_withoutLabels messages_withoutLabels)
qed

text \<open>
  When the last compaction does keep the entries from a label on, nothing that it keeps is left without the
  labels: the summary is followed by what came after the compaction.
\<close>

lemma kept_label_lost:
  assumes "distinct (map se_id path)" "keepsLabel path"
  shows "\<exists>xs c ys. path = xs @ c # ys \<and> compactionOf c \<noteq> None \<and> compactPath (withoutLabels path) = c # withoutLabels ys"
proof -
  from assms(2) obtain c k l where latest: "getLatestCompactionEntry path = Some c" "compactionOf c = Some k"
    and l: "l \<in> set (takeWhile (\<lambda>e. se_id e \<noteq> se_id c) path)" "isLabel l" "se_id l = smc_firstKeptEntryId k"
    by (auto simp: keepsLabel_def split: option.splits)
  from latest_split [OF latest(1)] latest(2) obtain xs ys where path: "path = xs @ c # ys" and ys: "\<forall>e \<in> set ys. compactionOf e = None" by auto
  have c: "se_id c \<notin> se_id ` set xs" "\<not> isLabel c"
    using assms(1) latest(2) by (auto simp: path compactionOf_def isLabel_def split: se_data.splits)
  have "l \<in> set xs" using l(1) compactPath_split(2) [OF path latest(2) ys c(1)] by simp
  then have "se_id e \<noteq> smc_firstKeptEntryId k" if "e \<in> set (withoutLabels xs)" for e
    using that l(2,3) assms(1) by (auto simp: path distinct_map inj_on_def)
  then have "dropWhile (\<lambda>e. se_id e \<noteq> smc_firstKeptEntryId k) (withoutLabels xs) = []" by (simp add: dropWhile_eq_Nil_conv)
  moreover have "withoutLabels path = withoutLabels xs @ c # withoutLabels ys" using c(2) by (simp add: path)
  from compactPath_split(3) [OF this latest(2)] ys c(1)
  have "compactPath (withoutLabels path) = c # dropWhile (\<lambda>e. se_id e \<noteq> smc_firstKeptEntryId k) (withoutLabels xs) @ withoutLabels ys" by auto
  ultimately have "compactPath (withoutLabels path) = c # withoutLabels ys" by (simp only: append_Nil)
  moreover have "compactionOf c \<noteq> None" using latest(2) by simp
  ultimately show ?thesis using path by blast
qed

text \<open>The context does not depend on the links.\<close>

definition unlinked :: "session_entry \<Rightarrow> session_entry" where
  "unlinked e = e\<lparr>se_parentId := None\<rparr>"

lemma unlinked_fields [simp]:
  "se_id (unlinked e) = se_id e" "se_data (unlinked e) = se_data e" "se_timestamp (unlinked e) = se_timestamp e"
  "isLabel (unlinked e) = isLabel e" "compactionOf (unlinked e) = compactionOf e" "settingsStep (unlinked e) = settingsStep e"
  by (simp_all add: unlinked_def isLabel_def compactionOf_def settingsStep_def fun_eq_iff)

lemma unlinked_messages [simp]: "entryToContextMessages (unlinked e) = entryToContextMessages e"
  by (cases "se_data e") (simp_all add: entryToContextMessages_def unlinked_def)

lemma context_unlinked: "contextOf (map unlinked path) = contextOf path"
proof -
  have "find (\<lambda>e. compactionOf e \<noteq> None) (map unlinked es) = map_option unlinked (find (\<lambda>e. compactionOf e \<noteq> None) es)" for es
    by (induction es) simp_all
  then have "getLatestCompactionEntry (map unlinked path) = map_option unlinked (getLatestCompactionEntry path)"
    by (simp add: getLatestCompactionEntry_def rev_map)
  then have "compactPath (map unlinked path) = map unlinked (compactPath path)"
    by (cases "getLatestCompactionEntry path") (simp_all add: compactPath_def takeWhile_map dropWhile_map drop_map comp_def Let_def)
  moreover have "fold settingsStep (map unlinked path) s = fold settingsStep path s" for s by (induction path arbitrary: s) simp_all
  ultimately show ?thesis by (simp add: contextOf_def getSessionContextSettings_def comp_def)
qed

section \<open>Linking anew\<close>

lemma rechain_unlinked: "map unlinked (rechain parent es) = map unlinked (withoutLabels es)"
  by (induction parent es rule: rechain.induct) (simp_all add: unlinked_def)

lemma rechain_chained: "chained parent (rechain parent es)"
  by (induction parent es rule: rechain.induct) simp_all

lemma rechain_ids: "map se_id (rechain parent es) = map se_id (withoutLabels es)"
  using arg_cong [OF rechain_unlinked, of "map se_id" parent es] by (simp add: comp_def)

lemma isLabel_linked [simp]: "isLabel (e\<lparr>se_parentId := p\<rparr>) = isLabel e"
  by (cases e) (simp add: isLabel_def)

lemma rechain_noLabels: "list_all (\<lambda>e. \<not> isLabel e) (rechain parent es)"
  by (induction es arbitrary: parent) simp_all

definition freshChain :: "(nat \<Rightarrow> string) \<Rightarrow> nat \<Rightarrow> string set \<Rightarrow> string option \<Rightarrow> session_entry list \<Rightarrow> bool" where
  "freshChain uuid n ids parent es \<longleftrightarrow> chained parent es \<and> distinct (map se_id es) \<and> [] \<notin> se_id ` set es \<and>
     ids \<inter> se_id ` set es = {} \<and> (\<forall>m \<ge> n. uuid m \<notin> ids \<union> se_id ` set es)"

lemma freshChain_Cons:
  assumes "freshChain uuid n (insert (se_id e) ids) (Some (se_id e)) es" "se_id e \<notin> ids" "se_id e \<noteq> []" "se_parentId e = parent"
  shows "freshChain uuid n ids parent (e # es)"
  using assms unfolding freshChain_def by auto

definition labelData :: "string \<times> string \<times> int \<Rightarrow> se_data \<times> int" where
  "labelData l = (LabelSE (fst l) (Some (fst (snd l))), snd (snd l))"

lemma labelEntries_run:
  assumes "labelEntries uuid n ids parent ls = (es, n')" "uuidStream uuid" "\<And>m. m \<ge> n \<Longrightarrow> uuid m \<notin> ids"
  shows "freshChain uuid n' ids parent es \<and> map (\<lambda>e. (se_data e, se_timestamp e)) es = map labelData ls"
  using assms(1,3)
proof (induction ls arbitrary: n ids parent es)
  case Nil
  then show ?case by (simp add: freshChain_def)
next
  case (Cons l ls)
  obtain t x ts where l: "l = (t, x, ts)" by (cases l) auto
  obtain i n1 where id: "generateId uuid (\<lambda>i. i \<in> ids) n = (i, n1)" by fastforce
  obtain es1 n2 where rest: "labelEntries uuid n1 (insert i ids) (Some i) ls = (es1, n2)" by fastforce
  let ?e = "\<lparr>se_id = i, se_parentId = parent, se_timestamp = ts, se_data = LabelSE t (Some x)\<rparr>"
  from Cons.prems(1) id l rest have es: "es = ?e # es1" and n: "n2 = n'" by auto
  from generateId_new [OF id assms(2) Cons.prems(2) refl]
  have new: "i \<notin> ids" "i \<noteq> []" "\<And>m. m \<ge> n1 \<Longrightarrow> uuid m \<notin> insert i ids" by blast+
  have IH: "freshChain uuid n' (insert i ids) (Some i) es1" "map (\<lambda>e. (se_data e, se_timestamp e)) es1 = map labelData ls"
    using Cons.IH [OF rest [unfolded n] new(3)] by blast+
  have "freshChain uuid n' ids parent (?e # es1)" by (rule freshChain_Cons) (use IH(1) new in simp_all)
  with IH(2) show ?case unfolding es l by (simp add: labelData_def)
qed

section \<open>Paths and contexts of a manager\<close>

lemma known_path:
  assumes "well_kept s" "i \<in> se_id ` set (entriesIn s)"
  shows "\<exists>e p. pathTo (entriesIn s) e p \<and> se_id e = i \<and> i \<noteq> [] \<and> map_get (sm_byId s) i = Some e \<and>
    (\<forall>path. walkUp (sm_byId s) (Some e) path = Some (p @ path))"
proof -
  note s = well_keptD [OF assms(1)]
  from assms(2) obtain e where e: "e \<in> set (entriesIn s)" "se_id e = i" by blast
  from path_exists [OF s(6) e(1)] obtain p where p: "pathTo (entriesIn s) e p" by blast
  note ids = treeFrom_ids [OF s(6)]
  have "i \<noteq> []" using ids assms(2) by metis
  moreover have "map_get (sm_byId s) i = Some e" using entry_index_get [OF conjunct1 [OF ids] e(1)] e(2) s(7) by simp
  moreover have "walkUp (sm_byId s) (Some e) path = Some (p @ path)" for path using path_walk [OF s(6) p] s(7) by simp
  ultimately show ?thesis using p e(2) by blast
qed

lemma getBranch_known:
  assumes "well_kept s" "i \<in> se_id ` set (entriesIn s)"
  shows "\<exists>e p. pathTo (entriesIn s) e p \<and> se_id e = i \<and> getBranch s (Some i) = Some p \<and>
    sessionContextAt (entriesIn s) (Some (Some i)) (sm_byId s) = Some (contextOf p)"
proof -
  from known_path [OF assms] obtain e p where p: "pathTo (entriesIn s) e p" "se_id e = i" "i \<noteq> []" "map_get (sm_byId s) i = Some e"
    "\<forall>path. walkUp (sm_byId s) (Some e) path = Some (p @ path)" by blast
  then have "getBranch s (Some i) = Some p" by (simp add: getBranch_def)
  moreover have "buildSessionPath (entriesIn s) (Some (Some i)) (sm_byId s) = Some p" using p(3-5) by (simp add: buildSessionPath_def)
  then have "sessionContextAt (entriesIn s) (Some (Some i)) (sm_byId s) = Some (contextOf p)"
    by (simp add: sessionContextAt_def contextEntriesAt_def contextOf_def)
  ultimately show ?thesis using p(1,2) by blast
qed

lemma getBranch_unknown:
  assumes "well_kept s" "i \<notin> se_id ` set (entriesIn s)"
  shows "getBranch s (Some i) = Some []"
proof -
  have "map_get (sm_byId s) i = None"
    using assms(2) entry_index_get_Some [of "entriesIn s" i] well_keptD(7) [OF assms(1)] by (cases "map_get (sm_byId s) i") fastforce+
  then show ?thesis by (simp add: getBranch_def walkUp.simps)
qed

text \<open>The context of a manager whose entries are one path.\<close>

lemma chain_context:
  assumes "well_kept u" "chained None (entriesIn u)" "sm_leafId u = lastId (entriesIn u)"
  shows "managerContext u = Some (contextOf (entriesIn u))"
proof (cases "entriesIn u = []")
  case True
  then show ?thesis using assms(3)
    by (simp add: managerContext_def sessionContextAt_def contextEntriesAt_def buildSessionPath_def contextOf_def lastId_def)
next
  case False
  let ?es = "entriesIn u"
  note u = well_keptD [OF assms(1)]
  note ids = treeFrom_ids [OF u(6)]
  have last: "last ?es \<in> set ?es" using False by simp
  have "map_get (sm_byId u) (se_id (last ?es)) = Some (last ?es)" "se_id (last ?es) \<noteq> []"
    using entry_index_get [OF conjunct1 [OF ids] last] u(7) ids imageI [OF last, of se_id] by metis+
  moreover have "walkUp (sm_byId u) (Some (last ?es)) [] = Some ?es"
    using path_walk [OF u(6) chain_path [OF assms(2) conjunct1 [OF ids] False], of "[]"] u(7) by simp
  ultimately have "buildSessionPath ?es (Some (sm_leafId u)) (sm_byId u) = Some ?es"
    using False assms(3) by (simp add: buildSessionPath_def lastId_def)
  then show ?thesis by (simp add: managerContext_def sessionContextAt_def contextEntriesAt_def contextOf_def)
qed

section \<open>Labels\<close>

lemma labelsOf_distinct: "distinct (map fst (fst (labelsOf es)))"
proof (induction es rule: rev_induct)
  case (snoc e es)
  have "distinct (map fst (fst (labelStep e m)))" if "distinct (map fst (fst m))" for m
    using that by (auto simp: labelStep_def distinct_update distinct_delete split: se_data.split option.split)
  with snoc show ?case by (simp add: labelsOf_snoc)
qed (simp add: labelsOf_def)

lemma labelsOf_nonempty: "map_get (fst (labelsOf es)) t \<noteq> Some []"
proof (induction es rule: rev_induct)
  case (snoc e es)
  have "map_get (fst (labelStep e m)) t \<noteq> Some []" if "map_get (fst m) t \<noteq> Some []" for m
    using that by (auto simp: labelStep_def split: se_data.split option.split)
  with snoc show ?case by (simp add: labelsOf_snoc)
qed (simp add: labelsOf_def)

lemma labels_rewritten:
  assumes "map (\<lambda>e. (se_data e, se_timestamp e)) es = map labelData ls" "distinct (map fst ls)" "\<forall>l \<in> set ls. fst (snd l) \<noteq> []"
  shows "map_get (fst (fold labelStep es m)) t =
    (case map_of (map (\<lambda>(t, l, _). (t, l)) ls) t of Some l \<Rightarrow> Some l | None \<Rightarrow> map_get (fst m) t)"
  using assms
proof (induction ls arbitrary: es m)
  case (Cons l ls)
  obtain t' x ts where l: "l = (t', x, ts)" by (cases l) auto
  from Cons.prems(1) obtain e es' where es: "es = e # es'" and e: "se_data e = LabelSE t' (Some x)" "se_timestamp e = ts"
    and es': "map (\<lambda>e. (se_data e, se_timestamp e)) es' = map labelData ls" by (auto simp: l labelData_def)
  have notin: "map_of (map (\<lambda>(t, l, _). (t, l)) ls) t' = None"
    using Cons.prems(2) by (force simp: l map_of_eq_None_iff)
  have "fst (labelStep e m) = map_set t' x (fst m)" using e Cons.prems(3) by (simp add: labelStep_def l)
  with Cons.IH [OF es', of "labelStep e m"] Cons.prems(2,3) notin show ?case
    by (auto simp: es l split: option.split)
qed simp

text \<open>The session of one branch keeps the invariant, the context and the labels.\<close>

section \<open>The state of the new session\<close>

definition branchedState :: "session_manager \<Rightarrow> session_entry list \<Rightarrow> session_manager" where
  "branchedState s path =
     (let q = rechain None path;
          (labels, n) = labelEntries (st_uuid s) (st_drawn s + 1) (se_id ` set q) (lastId q) (labelsToWrite s q);
          header = \<lparr>sh_version = Some CURRENT_SESSION_VERSION, sh_id = st_uuid7 s (st_drawn s), sh_timestamp = st_now s,
            sh_cwd = sm_cwd s, sh_parentSession = (if sm_persist s then sm_sessionFile s else None)\<rparr> in
      s\<lparr>sm_fileEntries := HeaderLine header # map EntryLine (q @ labels), st_drawn := n, sm_sessionId := st_uuid7 s (st_drawn s),
        sm_sessionFile := (if sm_persist s then Some (filePath (sm_sessionDir s) (st_now s) (st_uuid7 s (st_drawn s))) else sm_sessionFile s)\<rparr>)"

definition branchedFile :: "session_manager \<Rightarrow> session_manager" where
  "branchedFile v =
     (if \<not> sm_persist v then v
      else if list_ex assistantLine (sm_fileEntries v) then (snd (rewriteFile v))\<lparr>sm_flushed := True\<rparr>
      else v\<lparr>sm_flushed := False\<rparr>)"

lemma labelsToWrite_fields: "sm_labelsById s = sm_labelsById t \<Longrightarrow> sm_labelTimestampsById s = sm_labelTimestampsById t \<Longrightarrow>
    labelsToWrite s q = labelsToWrite t q"
  by (simp add: labelsToWrite_def)

lemma branchedState_fields:
  "st_uuid (branchedState s path) = st_uuid s" "sm_persist (branchedState s path) = sm_persist s"
  "st_disk (branchedState s path) = st_disk s"
  "sm_persist s \<Longrightarrow> sm_sessionFile (branchedState s path) = Some (filePath (sm_sessionDir s) (st_now s) (st_uuid7 s (st_drawn s)))"
  "currentLines (sm_fileEntries (branchedState s path))"
  by (auto simp: branchedState_def currentLines_def fileVersion_def Let_def simp flip: map_append split: prod.split)

lemma branched_run:
  assumes "getBranch s (Some i) = Some path" "path \<noteq> []"
  shows "\<exists>r. createBranchedSession i s = (Returned r, branchedFile (buildIndex (branchedState s path)))"
proof -
  have same: "labelsToWrite (s\<lparr>st_drawn := d\<rparr>) q = labelsToWrite s q" for d q by (rule labelsToWrite_fields) simp_all
  obtain labels n where labels: "labelEntries (st_uuid s) (Suc (st_drawn s)) (se_id ` set (rechain None path)) (lastId (rechain None path))
      (labelsToWrite s (rechain None path)) = (labels, n)" by fastforce
  show ?thesis
    using assms by (simp add: createBranchedSession_def createSessionId_def action_run branchedState_def branchedFile_def
      rewriteFile_def writeLines_def Let_def same labels)
qed

lemma branchedState_entries:
  assumes "well_kept s" "pathTo (entriesIn s) e path"
  shows "\<exists>labels n. entriesIn (branchedState s path) = rechain None path @ labels \<and> st_drawn (branchedState s path) = n \<and>
    freshChain (st_uuid s) n (se_id ` set (rechain None path)) (lastId (rechain None path)) labels \<and>
    map (\<lambda>e. (se_data e, se_timestamp e)) labels = map labelData (labelsToWrite s (rechain None path))"
proof -
  let ?q = "rechain None path"
  obtain labels n where labels: "labelEntries (st_uuid s) (st_drawn s + 1) (se_id ` set ?q) (lastId ?q) (labelsToWrite s ?q) = (labels, n)"
    by fastforce
  have "set (map se_id ?q) \<subseteq> se_id ` set path" unfolding rechain_ids by auto
  then have ids: "se_id ` set ?q \<subseteq> se_id ` set (entriesIn s)" using assms(2) by (auto simp: pathTo_def)
  have "uuidStream (st_uuid s)" "\<forall>m \<ge> st_drawn s. st_uuid s m \<notin> se_id ` set (entriesIn s)"
    using well_keptD(2) [OF assms(1)] by (simp_all add: unused_def)
  then have "uuidStream (st_uuid s)" "\<And>m. m \<ge> st_drawn s + 1 \<Longrightarrow> st_uuid s m \<notin> se_id ` set ?q"
    using ids by (metis, metis add_leD1 subsetD)
  from labelEntries_run [OF labels this] labels show ?thesis
    by (intro exI [of _ labels] exI [of _ n]) (simp add: branchedState_def)
qed

lemma branched_chain:
  assumes "freshChain uuid n (se_id ` set q) (lastId q) labels" "chained None q" "distinct (map se_id q)" "[] \<notin> se_id ` set q"
  shows "chained None (q @ labels)" "distinct (map se_id (q @ labels))" "[] \<notin> se_id ` set (q @ labels)"
    "\<forall>m \<ge> n. uuid m \<notin> se_id ` set (q @ labels)"
  using assms by (auto simp: freshChain_def chained_append lastId_def)

lemma branched_well_kept:
  assumes "well_kept s" "pathTo (entriesIn s) e path"
    "sm_persist s \<Longrightarrow> st_disk s (filePath (sm_sessionDir s) (st_now s) (st_uuid7 s (st_drawn s))) = None"
  shows "well_kept (branchedFile (buildIndex (branchedState s path)))"
proof -
  let ?t = "branchedState s path" and ?q = "rechain None path"
  let ?v = "buildIndex ?t" and ?u = "branchedFile (buildIndex (branchedState s path))"
  note s = well_keptD [OF assms(1)]
  from branchedState_entries [OF assms(1,2)] obtain labels n where
    es: "entriesIn ?t = ?q @ labels" and n: "st_drawn ?t = n" and labels: "freshChain (st_uuid s) n (se_id ` set ?q) (lastId ?q) labels" by blast
  have "distinct (map se_id ?q)" using assms(2) unfolding rechain_ids by (simp add: pathTo_def distinct_map_filter)
  moreover have "[] \<notin> set (map se_id ?q)" using assms(2) treeFrom_ids [OF s(6)] unfolding rechain_ids by (auto simp: pathTo_def)
  ultimately have chain: "chained None (?q @ labels)" "distinct (map se_id (?q @ labels))" "[] \<notin> se_id ` set (?q @ labels)"
    "\<forall>m \<ge> n. st_uuid s m \<notin> se_id ` set (?q @ labels)"
    using branched_chain [OF labels rechain_chained] by simp_all
  have tree: "treeFrom {} (entriesIn ?t)" unfolding es by (rule chain_tree [OF chain(1,2,3)]) simp_all
  note built = buildIndex_indexed [OF tree]
  have same: "sm_fileEntries ?u = sm_fileEntries ?v" "sm_byId ?u = sm_byId ?v" "sm_labelsById ?u = sm_labelsById ?v"
    "sm_labelTimestampsById ?u = sm_labelTimestampsById ?v" "sm_leafId ?u = sm_leafId ?v" "st_uuid ?u = st_uuid ?v"
    "st_drawn ?u = st_drawn ?v"
    by (simp_all add: branchedFile_def rewriteFile_def change_def writeLines_def split: option.split)
  show ?thesis
  proof (rule well_keptI)
    show "indexed ?u" using built by (simp add: indexed_def same)
    show "unused ?u (se_id ` set (entriesIn ?u))" using chain(4) s(2) es n by (simp add: unused_def same branchedState_fields)
    show "i \<in> se_id ` set (entriesIn ?u)" if "sm_leafId ?u = Some i" for i using that by (auto simp: same split: if_splits)
    show "currentLines (sm_fileEntries ?u)" by (simp add: same branchedState_fields)
    show "filed ?u"
      using assms(3) by (cases "sm_persist s")
        (simp_all add: filed_def branchedState_fields branchedFile_def rewriteFile_def change_def writeLines_def)
  qed
qed

section \<open>Its context and labels\<close>

lemma labelsToWrite_keys:
  assumes "well_kept s"
  shows "distinct (map fst (labelsToWrite s q))" "\<forall>l \<in> set (labelsToWrite s q). fst (snd l) \<noteq> []"
    "map_of (map (\<lambda>(t, l, _). (t, l)) (labelsToWrite s q)) t = (if t \<in> se_id ` set q then map_get (sm_labelsById s) t else None)"
proof -
  have labels: "sm_labelsById s = fst (labelsOf (entriesIn s))"
    using well_keptD(1) [OF assms] by (simp add: indexed_def) (metis fst_conv)
  let ?f = "filter (\<lambda>(targetId, _). targetId \<in> se_id ` set q) (sm_labelsById s)"
  have fst: "map fst (labelsToWrite s q) = map fst ?f" by (simp add: labelsToWrite_def comp_def split_def)
  have wf: "distinct (map fst (sm_labelsById s))" unfolding labels by (rule labelsOf_distinct)
  then show "distinct (map fst (labelsToWrite s q))" unfolding fst by (rule distinct_map_filter)
  have pairs: "map (\<lambda>(t, l, _). (t, l)) (labelsToWrite s q) = ?f" by (simp add: labelsToWrite_def comp_def split_def)
  have "map_of (filter (\<lambda>(k, _). k \<in> A) xs) t = (if t \<in> A then map_of xs t else None)" for A and xs :: "(string \<times> string) list"
    by (induction xs) auto
  then show "map_of (map (\<lambda>(t, l, _). (t, l)) (labelsToWrite s q)) t = (if t \<in> se_id ` set q then map_get (sm_labelsById s) t else None)"
    unfolding pairs .
  have "l \<noteq> []" if "(t, l) \<in> set (sm_labelsById s)" for t l
    using map_of_is_SomeI [OF wf that] labelsOf_nonempty [of "entriesIn s" t] by (auto simp: labels)
  then show "\<forall>l \<in> set (labelsToWrite s q). fst (snd l) \<noteq> []" by (auto simp: labelsToWrite_def)
qed

lemma branched_entries:
  "sm_fileEntries (branchedFile (buildIndex t)) = sm_fileEntries t" "sm_leafId (branchedFile (buildIndex t)) = sm_leafId (buildIndex t)"
  "sm_byId (branchedFile (buildIndex t)) = sm_byId (buildIndex t)" "sm_labelsById (branchedFile (buildIndex t)) = sm_labelsById (buildIndex t)"
  by (simp_all add: branchedFile_def rewriteFile_def change_def writeLines_def split: option.split)

lemma labelData_isLabel:
  assumes "map (\<lambda>e. (se_data e, se_timestamp e)) labels = map labelData ls"
  shows "withoutLabels labels = []"
proof -
  have "isLabel e" if "e \<in> set labels" for e
  proof -
    from that have "(se_data e, se_timestamp e) \<in> set (map (\<lambda>e. (se_data e, se_timestamp e)) labels)" by simp
    then show ?thesis unfolding assms by (auto simp: labelData_def isLabel_def)
  qed
  then show ?thesis by (simp add: filter_empty_conv)
qed

lemma branched_result:
  assumes "well_kept s" "pathTo (entriesIn s) e path" "well_kept u" "u = branchedFile (buildIndex (branchedState s path))"
  shows "\<not> keepsLabel path \<Longrightarrow> managerContext u = Some (contextOf path)"
    "map unlinked (withoutLabels (entriesIn u)) = map unlinked (withoutLabels path)"
    "x \<in> set path \<Longrightarrow> \<not> isLabel x \<Longrightarrow> map_get (sm_labelsById u) (se_id x) = map_get (sm_labelsById s) (se_id x)"
proof -
  let ?q = "rechain None path"
  from branchedState_entries [OF assms(1,2)] obtain labels n where
    es0: "entriesIn (branchedState s path) = ?q @ labels" and labels: "freshChain (st_uuid s) n (se_id ` set ?q) (lastId ?q) labels"
    and data: "map (\<lambda>e. (se_data e, se_timestamp e)) labels = map labelData (labelsToWrite s ?q)" by blast
  have es: "entriesIn u = ?q @ labels" using es0 by (simp add: assms(4) branched_entries)
  have noLabels: "withoutLabels ?q = ?q" using rechain_noLabels [of None path] by (simp add: list_all_iff filter_id_conv)
  note none = labelData_isLabel [OF data]
  have without: "withoutLabels (entriesIn u) = ?q" by (simp add: es noLabels none)
  then show "map unlinked (withoutLabels (entriesIn u)) = map unlinked (withoutLabels path)" by (simp add: rechain_unlinked)
  have chain: "chained None (entriesIn u)"
    using labels rechain_chained [of None path] by (simp add: es freshChain_def chained_append lastId_def)
  have distinct: "distinct (map se_id (entriesIn u))" using treeFrom_ids [OF well_keptD(6) [OF assms(3)]] by blast
  have "sm_leafId u = lastId (entriesIn u)" by (simp add: assms(4) branched_entries lastId_def)
  from chain_context [OF assms(3) chain this] have ctx: "managerContext u = Some (contextOf (entriesIn u))" .
  have "\<not> keepsLabel (entriesIn u)"
  proof
    assume "keepsLabel (entriesIn u)"
    then obtain c k e where c: "getLatestCompactionEntry (entriesIn u) = Some c" "compactionOf c = Some k"
      and e: "e \<in> set (takeWhile (\<lambda>e. se_id e \<noteq> se_id c) (entriesIn u))" "isLabel e" by (auto simp: keepsLabel_def split: option.splits)
    from latest_split [OF c(1)] have "c \<in> set (entriesIn u)" by auto
    moreover have "\<not> isLabel c" using c(2) by (auto simp: compactionOf_def isLabel_def split: se_data.splits)
    ultimately have "c \<in> set (withoutLabels (entriesIn u))" by simp
    then have "c \<in> set ?q" unfolding without .
    then have "takeWhile (\<lambda>e. se_id e \<noteq> se_id c) (entriesIn u) = takeWhile (\<lambda>e. se_id e \<noteq> se_id c) ?q"
      unfolding es by (intro takeWhile_append1 [of c]) simp_all
    with e(1) have "e \<in> set ?q" by (auto dest: set_takeWhileD)
    with e(2) rechain_noLabels [of None path] show False by (auto simp: list_all_iff)
  qed
  from context_withoutLabels [OF distinct this] without have "contextOf (entriesIn u) = contextOf ?q" by simp
  moreover have "contextOf ?q = contextOf (withoutLabels path)"
    using context_unlinked [of ?q] context_unlinked [of "withoutLabels path"] by (simp add: rechain_unlinked)
  ultimately show "managerContext u = Some (contextOf path)" if "\<not> keepsLabel path"
    using ctx context_withoutLabels [OF _ that] assms(2) by (simp add: pathTo_def)
  have "fold labelStep xs m = m" if "list_all (\<lambda>e. \<not> isLabel e) xs" for xs m
    using that by (induction xs arbitrary: m) (simp_all add: labelStep_other)
  then have folded: "fold labelStep ?q m = m" for m using rechain_noLabels by blast
  have "sm_labelsById u = fst (labelsOf (entriesIn u))" using well_keptD(1) [OF assms(3)] by (simp add: indexed_def) (metis fst_conv)
  also have "labelsOf (entriesIn u) = fold labelStep labels ([], [])" by (simp add: labelsOf_def es folded)
  finally have "map_get (sm_labelsById u) t = (if t \<in> se_id ` set ?q then map_get (sm_labelsById s) t else None)" for t
    using labels_rewritten [OF data labelsToWrite_keys(1,2) [OF assms(1)]] labelsToWrite_keys(3) [OF assms(1), of ?q t]
    by (simp split: option.split)
  moreover have "se_id x \<in> se_id ` set ?q" if "x \<in> set path" "\<not> isLabel x"
  proof -
    have "se_id x \<in> set (map se_id (withoutLabels path))" using that by simp
    then show ?thesis unfolding rechain_ids [of None path, symmetric] by simp
  qed
  ultimately show "map_get (sm_labelsById u) (se_id x) = map_get (sm_labelsById s) (se_id x)" if "x \<in> set path" "\<not> isLabel x"
    using that by simp
qed

end
