(* ===== verification/CodingProps.thy ===== *)
theory CodingProps
  imports CodingBranch
begin

text \<open>What a session manager promises to the coding agent that calls it.\<close>

section \<open>Calls and reachable states\<close>

datatype session_call =
    CallMessage agent_message
  | CallThinking string
  | CallModel string string
  | CallCompaction sm_compaction
  | CallCustom string "json option"
  | CallCustomMessage string body bool "json option"
  | CallInfo string
  | CallLabel string "string option"
  | CallBranch string
  | CallReset
  | CallSummary "string option" string "json option" "bool option" "usage option"

definition forgetting :: "'a manager_action \<Rightarrow> unit manager_action" where
  "forgetting m = andThen m (\<lambda>_. give ())"

fun perform :: "session_call \<Rightarrow> unit manager_action" where
  "perform (CallMessage m) = forgetting (appendMessage m)"
| "perform (CallThinking level) = forgetting (appendThinkingLevelChange level)"
| "perform (CallModel provider modelId) = forgetting (appendModelChange provider modelId)"
| "perform (CallCompaction c) = forgetting (appendCompaction c)"
| "perform (CallCustom customType data) = forgetting (appendCustomEntry customType data)"
| "perform (CallCustomMessage customType cont display details) = forgetting (appendCustomMessageEntry customType cont display details)"
| "perform (CallInfo name) = forgetting (appendSessionInfo name)"
| "perform (CallLabel targetId label) = forgetting (appendLabelChange targetId label)"
| "perform (CallBranch i) = branch i"
| "perform CallReset = resetLeaf"
| "perform (CallSummary i summary details fromHook used) = forgetting (branchWithSummary i summary details fromHook used)"

text \<open>
  A manager is constructed, called, moved to a new session, to another file or to the session of one branch, while
  time passes and other files change. The file names generated for new sessions are not in use, and the files
  opened hold sessions.
\<close>

inductive managed :: "session_manager \<Rightarrow> bool" where
  constructed_new: "uuidStream (st_uuid w) \<Longrightarrow> newManager cwd dir None persist i parent w = (Returned (), s) \<Longrightarrow> newFileAbsent s \<Longrightarrow> managed s"
| constructed_file: "uuidStream (st_uuid w) \<Longrightarrow> newManager cwd dir (Some path) persist i parent w = (Returned (), s) \<Longrightarrow> path \<noteq> [] \<Longrightarrow>
    readable w path \<Longrightarrow> managed s"
| called: "managed s \<Longrightarrow> managed (snd (perform c s))"
| renewed: "managed s \<Longrightarrow> newSession i parent s = (Returned r, u) \<Longrightarrow> newFileAbsent u \<Longrightarrow> managed u"
| opened: "managed s \<Longrightarrow> setSessionFile path s = (Returned (), u) \<Longrightarrow> readable s path \<Longrightarrow> managed u"
| branched: "managed s \<Longrightarrow> createBranchedSession i s = (Returned r, u) \<Longrightarrow>
    (sm_persist s \<longrightarrow> st_disk s (filePath (sm_sessionDir s) (st_now s) (st_uuid7 s (st_drawn s))) = None) \<Longrightarrow> managed u"
| timed: "managed s \<Longrightarrow> managed (s\<lparr>st_now := t\<rparr>)"
| others: "managed s \<Longrightarrow> (\<forall>path. sm_sessionFile s = Some path \<longrightarrow> disk path = st_disk s path) \<Longrightarrow> managed (s\<lparr>st_disk := disk\<rparr>)"

section \<open>The invariant\<close>

lemma filed_kept: "filed (s\<lparr>sm_leafId := leaf\<rparr>) = filed s" "filed (s\<lparr>st_now := t\<rparr>) = filed s"
  by (rule filed_same; simp)+

lemma well_kept_leaf:
  assumes "well_kept s" "\<And>i. leaf = Some i \<Longrightarrow> i \<in> se_id ` set (entriesIn s)"
  shows "well_kept (s\<lparr>sm_leafId := leaf\<rparr>)"
  using assms by (simp add: well_kept_def indexed_def unused_def filed_kept)

text \<open>A call appends at most one entry; when it throws, nothing has changed.\<close>

definition callResult :: "session_manager \<Rightarrow> unit settlement \<times> session_manager \<Rightarrow> bool" where
  "callResult s r \<longleftrightarrow> well_kept (snd r) \<and>
     (\<exists>es. entriesIn (snd r) = entriesIn s @ es \<and> length es \<le> 1) \<and> (case fst r of Returned _ \<Rightarrow> True | Thrown _ \<Rightarrow> snd r = s | Stalled \<Rightarrow> False)"

lemma callResult_same: "well_kept s \<Longrightarrow> callResult s (Returned (), s)" "well_kept s \<Longrightarrow> callResult s (Thrown e, s)"
  by (simp_all add: callResult_def)

lemma callResult_appended:
  assumes "m s = (Returned i, u)" "appendsOne s' u d i" "sm_fileEntries s' = sm_fileEntries s"
  shows "callResult s (forgetting m s)"
  using assms by (auto simp: callResult_def forgetting_def action_run appendsOne_def)

lemma perform_append:
  assumes "well_kept s" "\<And>t l. d \<noteq> LabelSE t l"
  shows "callResult s (forgetting (appendedId d) s)"
  using appendedId_run [OF assms] callResult_appended by blast

lemma perform_result:
  assumes "well_kept s"
  shows "callResult s (perform c s)"
proof -
  have has: "map_has (sm_byId s) i \<longleftrightarrow> i \<in> se_id ` set (entriesIn s)" for i using well_keptD(7) [OF assms] by (simp add: entry_index_has)
  show ?thesis
  proof (cases c)
    case (CallLabel t l)
    show ?thesis
    proof (cases "t \<in> se_id ` set (entriesIn s)")
      case True
      from appendLabelChange_run [OF assms this, of l] show ?thesis unfolding CallLabel perform.simps by (blast intro: callResult_appended)
    next
      case False
      then show ?thesis using assms by (simp add: CallLabel forgetting_def appendLabelChange_def action_run has callResult_same)
    qed
  next
    case (CallBranch i)
    show ?thesis
      using well_kept_leaf [OF assms, of "Some i"] assms
      by (auto simp: CallBranch branch_def action_run has callResult_same) (simp add: callResult_def)
  next
    case CallReset
    show ?thesis using well_kept_leaf [OF assms, of None] by (simp add: CallReset resetLeaf_def action_run callResult_def)
  next
    case (CallSummary i summary details fromHook used)
    let ?s = "s\<lparr>sm_leafId := i\<rparr>"
    let ?d = "BranchSummarySE \<lparr>smb_fromId = (case i of None \<Rightarrow> ''root'' | Some i \<Rightarrow> i), smb_summary = summary,
         smb_details = details, smb_usage = used, smb_fromHook = fromHook\<rparr>"
    show ?thesis
    proof (cases "case i of None \<Rightarrow> True | Some i \<Rightarrow> map_has (sm_byId s) i")
      case True
      then have "well_kept ?s" using has by (intro well_kept_leaf [OF assms]) auto
      from appendedId_run [OF this, of ?d] obtain j u where j: "appendedId ?d ?s = (Returned j, u)" "appendsOne ?s u ?d j" by blast
      then have "branchWithSummary i summary details fromHook used s = (Returned j, u)"
        using True by (simp add: branchWithSummary_def action_run)
      then show ?thesis unfolding CallSummary perform.simps using j(2) by (rule callResult_appended) simp
    next
      case False
      then show ?thesis using assms by (simp add: CallSummary forgetting_def branchWithSummary_def action_run callResult_same)
    qed
  qed (simp_all only: perform.simps appendMessage_def appendThinkingLevelChange_def appendModelChange_def appendCompaction_def
      appendCustomEntry_def appendCustomMessageEntry_def appendSessionInfo_def, (rule perform_append [OF assms], simp)+)
qed

lemma createBranchedSession_cases:
  assumes "createBranchedSession i s = (Returned r, u)" "well_kept s"
  shows "\<exists>e path. pathTo (entriesIn s) e path \<and> se_id e = i \<and> getBranch s (Some i) = Some path \<and> u = branchedFile (buildIndex (branchedState s path))"
proof (cases "i \<in> se_id ` set (entriesIn s)")
  case True
  from getBranch_known [OF assms(2) True] obtain e path where p: "pathTo (entriesIn s) e path" "se_id e = i" "getBranch s (Some i) = Some path" by blast
  then have "path \<noteq> []" by (simp add: pathTo_def)
  from branched_run [OF p(3) this] assms(1) p show ?thesis by auto
next
  case False
  from getBranch_unknown [OF assms(2) this] assms(1) show ?thesis by (simp add: createBranchedSession_def action_run)
qed

lemma managed_well_kept: "managed s \<Longrightarrow> well_kept s"
proof (induction rule: managed.induct)
  case (constructed_new w cwd dir persist i parent s)
  then obtain v r where "newSession i parent v = (Returned r, s)" "st_uuid v = st_uuid w"
    by (auto simp: newManager_def action_run split: prod.splits settlement.splits)
  then show ?case using constructed_new.hyps newSession_well_kept by metis
next
  case (constructed_file w cwd dir path persist i parent s)
  then obtain v where v: "setSessionFile path v = (Returned (), s)" "st_uuid v = st_uuid w" "st_drawn v = st_drawn w" "st_disk v = st_disk w"
    by (auto simp: newManager_def action_run)
  moreover have "readable v path" using v constructed_file.hyps by (simp add: readable_def)
  ultimately show ?case using constructed_file.hyps by (intro setSessionFile_well_kept) simp_all
next
  case (called s c)
  from perform_result [OF called.IH] show ?case by (simp add: callResult_def)
next
  case (renewed s i parent r u)
  then show ?case using well_keptD(2) [OF renewed.IH] by (intro newSession_well_kept [OF renewed.hyps(2)]) (simp_all add: unused_def)
next
  case (opened s path u)
  then show ?case using well_keptD(2) [OF opened.IH] by (intro setSessionFile_well_kept [OF opened.hyps(2)]) (simp_all add: unused_def)
next
  case (branched s i r u)
  from createBranchedSession_cases [OF branched.hyps(2) branched.IH] branched_well_kept [OF branched.IH] branched.hyps(3) show ?case by blast
next
  case (timed s t)
  then show ?case by (simp add: well_kept_def indexed_def unused_def filed_kept)
next
  case (others s disk)
  then have "filed (s\<lparr>st_disk := disk\<rparr>)" by (auto simp: well_kept_def filed_def split: if_splits)
  with others.IH show ?case by (simp add: well_kept_def indexed_def unused_def)
qed

section \<open>Properties\<close>

text \<open>
  C32. The file of a session is complete or absent: once a managed session has been written, loading its file gives
  exactly its lines, in their order; until then there is no file of it, and no answer of an assistant that
  could be lost. Every identifier is that of one entry only, and the leaf is an entry of the session.
\<close>

theorem session_file_current:
  assumes "managed s" "sm_persist s"
  shows "\<exists>path. sm_sessionFile s = Some path \<and>
      (if sm_flushed s then loadEntriesFromFile s path = sm_fileEntries s
       else st_disk s path = None \<and> (\<forall>e \<in> set (entriesIn s). \<not> assistantLine (EntryLine e))) \<and>
    distinct (map se_id (entriesIn s)) \<and> (\<forall>i. sm_leafId s = Some i \<longrightarrow> i \<in> se_id ` set (entriesIn s))"
proof -
  note s = well_keptD [OF managed_well_kept [OF assms(1)]]
  from s(5) assms(2) obtain path where path: "sm_sessionFile s = Some path" and f:
    "if sm_flushed s then \<exists>f. st_disk s path = Some f \<and> parsedLines f = sm_fileEntries s \<and> sf_tail f = None
      else st_disk s path = None \<and> \<not> list_ex assistantLine (sm_fileEntries s)" unfolding filed_def by blast
  from s(4) obtain h es where lines: "sm_fileEntries s = HeaderLine h # map EntryLine es" unfolding currentLines_def by blast
  have "if sm_flushed s then loadEntriesFromFile s path = sm_fileEntries s
    else st_disk s path = None \<and> (\<forall>e \<in> set (entriesIn s). \<not> assistantLine (EntryLine e))"
    using f lines by (auto simp: loadEntriesFromFile_def list_ex_iff split: if_splits)
  then show ?thesis using path s(3) treeFrom_ids [OF s(6)] by blast
qed

text \<open>
  C33. Opening the file of a written session again, in any manager and at any time, restores the session: its lines,
  its index, its labels with their times and its name are those of the manager that wrote it, the file stays
  as it is, and the leaf is the last entry.
\<close>

theorem session_reopened:
  assumes "managed s" "sm_persist s" "sm_flushed s" "sm_sessionFile s = Some path" "st_disk w path = st_disk s path"
  shows "\<exists>u. setSessionFile path w = (Returned (), u) \<and> sm_fileEntries u = sm_fileEntries s \<and> sm_byId u = sm_byId s \<and>
    sm_labelsById u = sm_labelsById s \<and> sm_labelTimestampsById u = sm_labelTimestampsById s \<and> getSessionName u = getSessionName s \<and>
    st_disk u = st_disk w \<and> sm_leafId u = lastId (entriesIn s) \<and> sm_flushed u"
proof -
  note s = well_keptD [OF managed_well_kept [OF assms(1)]]
  from s(5) assms(2-4) obtain f where f: "st_disk s path = Some f" "parsedLines f = sm_fileEntries s" unfolding filed_def by auto
  from s(4) obtain h es where lines: "sm_fileEntries s = HeaderLine h # map EntryLine es"
    and version: "\<not> fileVersion (HeaderLine h # map EntryLine es) < CURRENT_SESSION_VERSION" unfolding currentLines_def by (auto simp: not_less)
  define v where "v = w\<lparr>sm_sessionFile := Some path, sm_fileEntries := sm_fileEntries s, sm_sessionId := sh_id h\<rparr>"
  have load: "loadEntriesFromFile (w\<lparr>sm_sessionFile := Some path\<rparr>) path = sm_fileEntries s"
    using f assms(5) lines by (simp add: loadEntriesFromFile_def)
  have disk: "st_disk w path = Some f" using f(1) assms(5) by simp
  have run: "setSessionFile path w = (Returned (), (buildIndex v)\<lparr>sm_flushed := True\<rparr>)"
    using disk load lines version by (simp add: setSessionFile_def openedSession_def migrateToCurrentVersion_def action_run v_def not_less)
  have v: "sm_fileEntries v = sm_fileEntries s" by (simp add: v_def)
  then have "indexed (buildIndex v)" using s(6) by (intro buildIndex_indexed) simp
  with s(1) v have index: "sm_byId (buildIndex v) = sm_byId s"
    "(sm_labelsById (buildIndex v), sm_labelTimestampsById (buildIndex v)) = (sm_labelsById s, sm_labelTimestampsById s)"
    unfolding indexed_def by simp_all
  have "getSessionName ((buildIndex v)\<lparr>sm_flushed := True\<rparr>) = getSessionName s" by (simp add: getSessionName_def v)
  moreover have "st_disk v = st_disk w" by (simp add: v_def)
  ultimately show ?thesis using run v index by (simp add: lastId_def)
qed

lemma branch_of_path:
  assumes "well_kept s" "pathTo (entriesIn s) e p"
  shows "getBranch s (Some (se_id e)) = Some p"
proof -
  note s = well_keptD [OF assms(1)]
  note ids = treeFrom_ids [OF s(6)]
  have e: "e \<in> set (entriesIn s)" using assms(2) last_in_set unfolding pathTo_def by blast
  then have "map_get (sm_byId s) (se_id e) = Some e" "se_id e \<noteq> []"
    using entry_index_get [OF conjunct1 [OF ids] e] s(7) ids imageI [OF e, of se_id] by metis+
  then show ?thesis using path_walk [OF s(6) assms(2), of "[]"] s(7) by (simp add: getBranch_def)
qed

lemma leaf_path:
  assumes "well_kept s"
  shows "\<exists>p. getBranch s None = Some p \<and> chained None p \<and> set p \<subseteq> set (entriesIn s) \<and> distinct (map se_id p) \<and> lastId p = sm_leafId s"
proof (cases "sm_leafId s")
  case None
  then show ?thesis by (intro exI [of _ "[]"]) (simp add: getBranch_def walkUp.simps lastId_def)
next
  case (Some i)
  from getBranch_known [OF assms well_keptD(3) [OF assms Some]] obtain e p where
    p: "pathTo (entriesIn s) e p" "se_id e = i" "getBranch s (Some i) = Some p" by blast
  have "getBranch s None = getBranch s (Some i)" by (simp add: getBranch_def Some)
  with p Some show ?thesis by (intro exI [of _ p]) (auto simp: pathTo_def lastId_def)
qed

text \<open>
  C34. A session only grows: no call changes the branch of an entry that is there. Every walk to the root ends, and a
  message that is appended extends the branch of the leaf by one entry, which becomes the leaf.
\<close>

theorem branches_only_grow:
  assumes "managed s" "i \<in> se_id ` set (entriesIn s)"
  shows "(\<exists>p. getBranch s (Some i) = Some p \<and> p \<noteq> [] \<and> se_id (last p) = i \<and> (\<forall>c. getBranch (snd (perform c s)) (Some i) = Some p)) \<and>
    (\<forall>m. \<exists>p j u e. getBranch s None = Some p \<and> appendMessage m s = (Returned j, u) \<and> sm_leafId u = Some j \<and>
      se_id e = j \<and> se_data e = MessageSE m \<and> getBranch u None = Some (p @ [e]))"
proof (intro conjI allI)
  note s = managed_well_kept [OF assms(1)]
  from getBranch_known [OF s assms(2)] obtain e p where p: "pathTo (entriesIn s) e p" "se_id e = i" "getBranch s (Some i) = Some p" by blast
  have "getBranch (snd (perform c s)) (Some i) = Some p" for c
  proof -
    from perform_result [OF s, of c] obtain es where
      u: "well_kept (snd (perform c s))" "entriesIn (snd (perform c s)) = entriesIn s @ es" unfolding callResult_def by blast
    from p(1) have "pathTo (entriesIn (snd (perform c s))) e p" unfolding u(2) by (rule path_more)
    from branch_of_path [OF u(1) this] show ?thesis by (simp add: p(2))
  qed
  with p show "\<exists>p. getBranch s (Some i) = Some p \<and> p \<noteq> [] \<and> se_id (last p) = i \<and> (\<forall>c. getBranch (snd (perform c s)) (Some i) = Some p)"
    by (auto simp: pathTo_def)
  fix m
  from leaf_path [OF s] obtain p where p: "getBranch s None = Some p" "chained None p" "set p \<subseteq> set (entriesIn s)"
    "distinct (map se_id p)" "lastId p = sm_leafId s" by blast
  from appendedId_run [OF s, of "MessageSE m"] obtain j u e n where run: "appendMessage m s = (Returned j, u)"
    and e: "newEntry s (MessageSE m) e n" "se_id e = j" and u: "sm_fileEntries u = sm_fileEntries s @ [EntryLine e]" "sm_leafId u = Some j" "well_kept u"
    unfolding appendMessage_def appendsOne_def by blast
  have "se_id e \<notin> se_id ` set p" using e(1) p(3) unfolding newEntry_def by blast
  then have "pathTo (entriesIn u) e (p @ [e])"
    using p e(1) u(1) by (auto simp: pathTo_def chained_append lastId_def newEntry_def split: if_splits)
  from branch_of_path [OF u(3) this] have "getBranch u None = Some (p @ [e])" by (simp add: getBranch_def u(2) e(2))
  then show "\<exists>p j u e. getBranch s None = Some p \<and> appendMessage m s = (Returned j, u) \<and> sm_leafId u = Some j \<and>
      se_id e = j \<and> se_data e = MessageSE m \<and> getBranch u None = Some (p @ [e])"
    using p(1) run u(2) e unfolding newEntry_def by blast
qed

text \<open>
  C35. The session of one branch: the context of the new session, its messages, thinking level and model, is that of
  the branch, its entries are those of the branch but the labels, and the labels of the entries are kept. The
  last compaction of the branch must not keep the entries from a label on.
\<close>

theorem branched_session_context:
  assumes "managed s" "getBranch s (Some i) = Some path" "path \<noteq> []" "\<not> keepsLabel path"
    "sm_persist s \<longrightarrow> st_disk s (filePath (sm_sessionDir s) (st_now s) (st_uuid7 s (st_drawn s))) = None"
  shows "\<exists>r u. createBranchedSession i s = (Returned r, u) \<and>
    managerContext u = sessionContextAt (entriesIn s) (Some (Some i)) (sm_byId s) \<and>
    map unlinked (withoutLabels (entriesIn u)) = map unlinked (withoutLabels path) \<and>
    (\<forall>e \<in> set path. \<not> isLabel e \<longrightarrow> map_get (sm_labelsById u) (se_id e) = map_get (sm_labelsById s) (se_id e))"
proof -
  note s = managed_well_kept [OF assms(1)]
  from branched_run [OF assms(2,3)] obtain r u where
    run: "createBranchedSession i s = (Returned r, u)" and u: "u = branchedFile (buildIndex (branchedState s path))" by blast
  have i: "i \<in> se_id ` set (entriesIn s)" using getBranch_unknown [OF s, of i] assms(2,3) by auto
  from getBranch_known [OF s i] assms(2) obtain e where
    p: "pathTo (entriesIn s) e path" "sessionContextAt (entriesIn s) (Some (Some i)) (sm_byId s) = Some (contextOf path)" by auto
  have "well_kept u" unfolding u by (rule branched_well_kept [OF s p(1)]) (use assms(5) in blast)
  note result = branched_result [OF s p(1) this u]
  have "managerContext u = sessionContextAt (entriesIn s) (Some (Some i)) (sm_byId s)"
    by (simp only: result(1) [OF assms(4)] p(2))
  moreover have "\<forall>e \<in> set path. \<not> isLabel e \<longrightarrow> map_get (sm_labelsById u) (se_id e) = map_get (sm_labelsById s) (se_id e)"
    using result(3) by blast
  ultimately show ?thesis using run result(2) by blast
qed

end
