(* ===== verification/CodingDemo.thy ===== *)
theory CodingDemo
  imports CodingProps
begin

text \<open>A session of the coding agent: a question, an answer that writes the file, and a label on the question.\<close>

section \<open>The session\<close>

definition codingUuid :: "nat \<Rightarrow> string" where
  "codingUuid n = char_of (n + 65) # replicate (n + 8) (CHR ''a'')"

lemma codingUuid_stream: "uuidStream codingUuid"
proof -
  have "m = n" if "codingUuid m = codingUuid n" for m n using arg_cong [OF that, of length] by (simp add: codingUuid_def)
  then show ?thesis by (auto simp: uuidStream_def inj_def) (simp add: codingUuid_def)
qed

lemma codingIds: "take 8 (codingUuid 1) = ''Baaaaaaa''" "take 8 (codingUuid 2) = ''Caaaaaaa''" "take 8 (codingUuid 3) = ''Daaaaaaa''"
    "take 8 (codingUuid 5) = ''Faaaaaaa''"
  by code_simp+

definition codingQuestion :: agent_message where
  "codingQuestion = UserMessage \<lparr>um_content = TextBody ''why?'', um_timestamp = 1\<rparr>"

definition codingAnswer :: agent_message where
  "codingAnswer = AssistantMessage \<lparr>am_content = [TextContent ''so'' None], am_api = ''api'', am_provider = ''p'', am_model = ''m'',
     am_responseModel = None, am_responseId = None, am_diagnostics = None, am_usage = \<lparr>u_input = 0, u_output = 0, u_cacheRead = 0,
     u_cacheWrite = 0, u_cacheWrite1h = None, u_reasoning = None, u_totalTokens = 0, u_cost = \<lparr>cost_input = 0, cost_output = 0,
     cost_cacheRead = 0, cost_cacheWrite = 0, cost_total = 0\<rparr>\<rparr>, am_stopReason = StopStop, am_deferred = None,
     am_errorMessage = None, am_rawStopReason = None, am_endTurn = None, am_timestamp = 2\<rparr>"

definition codingPath :: "string \<Rightarrow> string" where
  "codingPath i = filePath ''/s'' 0 i"

definition codingHeader :: sm_header where
  "codingHeader = \<lparr>sh_version = Some CURRENT_SESSION_VERSION, sh_id = ''x0'', sh_timestamp = 0, sh_cwd = ''/w'', sh_parentSession = None\<rparr>"

definition codingState :: "session_entry list \<Rightarrow> nat \<Rightarrow> bool \<Rightarrow> session_manager" where
  "codingState es n written =
     \<lparr>sm_sessionId = ''x0'', sm_sessionFile = Some (codingPath ''x0''), sm_sessionDir = ''/s'', sm_cwd = ''/w'', sm_persist = True,
      sm_flushed = written, sm_fileEntries = HeaderLine codingHeader # map EntryLine es, sm_byId = indexOfEntries es,
      sm_labelsById = fst (labelsOf es), sm_labelTimestampsById = snd (labelsOf es), sm_leafId = lastId es,
      st_disk = (if written then [codingPath ''x0'' \<mapsto> writtenFile (HeaderLine codingHeader # map EntryLine es)] else Map.empty),
      st_uuid = codingUuid, st_uuid7 = (\<lambda>n. CHR ''x'' # replicate n (CHR ''1'') @ ''0''), st_drawn = n, st_now = 0\<rparr>"

definition codingEntries :: "session_entry list" where
  "codingEntries =
     [\<lparr>se_id = ''Baaaaaaa'', se_parentId = None, se_timestamp = 0, se_data = MessageSE codingQuestion\<rparr>,
      \<lparr>se_id = ''Caaaaaaa'', se_parentId = Some ''Baaaaaaa'', se_timestamp = 0, se_data = MessageSE codingAnswer\<rparr>,
      \<lparr>se_id = ''Daaaaaaa'', se_parentId = Some ''Caaaaaaa'', se_timestamp = 0, se_data = LabelSE ''Baaaaaaa'' (Some ''start'')\<rparr>]"

definition codingWorld :: session_manager where
  "codingWorld = (codingState [] 1 False)\<lparr>sm_cwd := [], sm_sessionFile := None\<rparr>"

lemma codingPattern: "SESSION_ID_PATTERN ''x0''"
  by code_simp

lemma coding_new: "newManager ''/w'' ''/s'' None True (Some ''x0'') None codingWorld = (Returned (), codingState [] 1 False)"
  by (simp add: newManager_def newSession_def action_run codingPattern codingWorld_def codingState_def codingHeader_def
      indexOfEntries_def labelsOf_def lastId_def codingPath_def)

definition codingS :: "nat \<Rightarrow> session_manager" where
  "codingS k = codingState (take k codingEntries) (k + 1) (2 \<le> k)"

lemma codingS_0: "codingS 0 = codingState [] 1 False"
  by (simp add: codingS_def)

lemma managed_0: "managed (codingS 0)"
  unfolding codingS_0 by (rule constructed_new [OF _ coding_new]) (simp_all add: codingWorld_def codingState_def codingUuid_stream newFileAbsent_def)

lemma codingRoles: "role codingQuestion = UserRole" "role codingAnswer = AssistantRole"
  by (simp_all add: codingQuestion_def codingAnswer_def)

lemma codingNext: "take 8 (codingUuid (Suc 0)) = ''Baaaaaaa''" "take 8 (codingUuid (Suc (Suc 0))) = ''Caaaaaaa''"
    "take 8 (codingUuid (Suc (Suc (Suc 0)))) = ''Daaaaaaa''"
  using codingIds by (simp_all add: numeral_2_eq_2 numeral_3_eq_3)

lemmas coding_run = forgetting_def appendMessage_def appendedId_def appendChild_def drawId_def appendEntryLine_def persistEntry_def action_run
  generateId_first codingNext codingIds codingState_def codingEntries_def codingS_def indexOfEntries_def labelsOf_def labelStep_def lastId_def
  codingRoles assistantLine_def map_has_iff numeral_2_eq_2 numeral_3_eq_3

lemma coding_1: "perform (CallMessage codingQuestion) (codingS 0) = (Returned (), codingS 1)"
  by (simp add: coding_run cong: andThen_run)

lemma coding_2: "perform (CallMessage codingAnswer) (codingS 1) = (Returned (), codingS 2)"
  by (simp add: coding_run writeLines_def cong: andThen_run)

lemma coding_3: "perform (CallLabel ''Baaaaaaa'' (Some ''start'')) (codingS 2) = (Returned (), codingS 3)"
  by (simp add: coding_run appendLabelChange_def setLabel_def appendLine_def extendFile_def writtenFile_def cong: andThen_run)

lemma managed_S: "managed (codingS 1)" "managed (codingS 2)" "managed (codingS 3)"
proof -
  show one: "managed (codingS 1)" using called [OF managed_0, of "CallMessage codingQuestion"] by (simp only: coding_1 snd_conv)
  show two: "managed (codingS 2)" using called [OF one, of "CallMessage codingAnswer"] by (simp only: coding_2 snd_conv)
  show "managed (codingS 3)" using called [OF two, of "CallLabel ''Baaaaaaa'' (Some ''start'')"] by (simp only: coding_3 snd_conv)
qed

lemma coding_fields: "sm_persist (codingS k)" "sm_flushed (codingS k) = (2 \<le> k)" "sm_sessionFile (codingS k) = Some (codingPath ''x0'')"
  "entriesIn (codingS k) = take k codingEntries" "sm_fileEntries (codingS k) = HeaderLine codingHeader # map EntryLine (take k codingEntries)"
  by (simp_all add: codingS_def codingState_def)

section \<open>Witnesses\<close>

theorem session_file_current_witness:
  "loadEntriesFromFile (codingS 3) (codingPath ''x0'') = HeaderLine codingHeader # map EntryLine codingEntries"
  using session_file_current [OF managed_S(3) coding_fields(1)] by (auto simp: coding_fields codingEntries_def)

theorem session_reopened_witness:
  "\<exists>u. setSessionFile (codingPath ''x0'') ((codingS 0)\<lparr>st_disk := st_disk (codingS 3)\<rparr>) = (Returned (), u) \<and>
    sm_fileEntries u = sm_fileEntries (codingS 3) \<and> sm_labelsById u = [(''Baaaaaaa'', ''start'')]"
proof -
  have labels: "sm_labelsById (codingS 3) = [(''Baaaaaaa'', ''start'')]" by (simp add: coding_run)
  have disk: "st_disk ((codingS 0)\<lparr>st_disk := st_disk (codingS 3)\<rparr>) (codingPath ''x0'') = st_disk (codingS 3) (codingPath ''x0'')" by simp
  have written: "sm_flushed (codingS 3)" by (simp add: coding_fields)
  from session_reopened [OF managed_S(3) coding_fields(1) written coding_fields(3) disk] show ?thesis unfolding labels by blast
qed

theorem branches_only_grow_witness:
  "\<exists>p. getBranch (codingS 3) (Some ''Caaaaaaa'') = Some p \<and> getBranch (snd (perform CallReset (codingS 3))) (Some ''Caaaaaaa'') = Some p"
proof -
  have "''Caaaaaaa'' \<in> se_id ` set (entriesIn (codingS 3))" by (simp add: coding_fields codingEntries_def)
  from branches_only_grow [OF managed_S(3) this] show ?thesis by blast
qed

definition codingMarked :: "session_entry list" where
  "codingMarked =
     [\<lparr>se_id = ''Baaaaaaa'', se_parentId = None, se_timestamp = 0, se_data = MessageSE codingQuestion\<rparr>,
      \<lparr>se_id = ''Caaaaaaa'', se_parentId = Some ''Baaaaaaa'', se_timestamp = 0, se_data = LabelSE ''Baaaaaaa'' (Some ''start'')\<rparr>]"

lemma coding_marked: "perform (CallLabel ''Baaaaaaa'' (Some ''start'')) (codingS 1) = (Returned (), codingState codingMarked 3 False)"
  by (simp add: coding_run codingMarked_def appendLabelChange_def setLabel_def cong: andThen_run)

theorem branched_session_context_witness:
  "\<exists>r u. createBranchedSession ''Caaaaaaa'' (codingState codingMarked 3 False) = (Returned r, u) \<and>
    managerContext u = sessionContextAt codingMarked (Some (Some ''Caaaaaaa'')) (indexOfEntries codingMarked) \<and>
    map_get (sm_labelsById u) ''Baaaaaaa'' = Some ''start''"
proof -
  let ?s = "codingState codingMarked 3 False"
  have managed: "managed ?s" using called [OF managed_S(1), of "CallLabel ''Baaaaaaa'' (Some ''start'')"] by (simp only: coding_marked snd_conv)
  have es: "entriesIn ?s = codingMarked" by (simp add: codingState_def)
  have path: "pathTo (entriesIn ?s) (last codingMarked) codingMarked" unfolding es by (simp add: pathTo_def codingMarked_def)
  have "se_id (last codingMarked) = ''Caaaaaaa''" by (simp add: codingMarked_def)
  with branch_of_path [OF managed_well_kept [OF managed] path] have found: "getBranch ?s (Some ''Caaaaaaa'') = Some codingMarked" by simp
  have "getLatestCompactionEntry codingMarked = None" by (simp add: latest_None codingMarked_def compactionOf_def)
  then have keeps: "\<not> keepsLabel codingMarked" by (simp add: keepsLabel_def)
  have absent: "sm_persist ?s \<longrightarrow> st_disk ?s (filePath (sm_sessionDir ?s) (st_now ?s) (st_uuid7 ?s (st_drawn ?s))) = None"
    by (simp add: codingState_def)
  have nonempty: "codingMarked \<noteq> []" by (simp add: codingMarked_def)
  from branched_session_context [OF managed found nonempty keeps absent] obtain r u where
    u: "createBranchedSession ''Caaaaaaa'' ?s = (Returned r, u)" "managerContext u = sessionContextAt (entriesIn ?s) (Some (Some ''Caaaaaaa'')) (sm_byId ?s)"
    "\<forall>e \<in> set codingMarked. \<not> isLabel e \<longrightarrow> map_get (sm_labelsById u) (se_id e) = map_get (sm_labelsById ?s) (se_id e)" by blast
  have "map_get (sm_labelsById ?s) ''Baaaaaaa'' = Some ''start''" by (simp add: codingState_def codingMarked_def labelsOf_def labelStep_def)
  with u(3) have "map_get (sm_labelsById u) ''Baaaaaaa'' = Some ''start''" by (simp add: codingMarked_def isLabel_def)
  moreover have "sm_byId ?s = indexOfEntries codingMarked" by (simp add: codingState_def)
  ultimately show ?thesis using u(1,2) es by metis
qed

end
