(* ===== verification/CodingTreeView.thy ===== *)
theory CodingTreeView
  imports CodingDemo "HOL-Library.Multiset"
begin

text \<open>The tree that \<open>getTree\<close> returns shows every entry of a session once, below its parent.\<close>

section \<open>Children\<close>

lemma tree_lookup:
  assumes "well_kept s"
  shows "e \<in> set (entriesIn s) \<Longrightarrow> nodeFor s e = e"
    "isRoot s e \<longleftrightarrow> (case se_parentId e of None \<Rightarrow> True | Some p \<Rightarrow> p = se_id e \<or> p \<notin> se_id ` set (entriesIn s))"
proof -
  note tree = well_keptD(6) [OF assms]
  show "nodeFor s e = e" if "e \<in> set (entriesIn s)"
    using entry_index_get [OF conjunct1 [OF treeFrom_ids [OF tree]] that] by (simp add: nodeFor_def buildEntryIndex_tree [OF tree])
  show "isRoot s e \<longleftrightarrow> (case se_parentId e of None \<Rightarrow> True | Some p \<Rightarrow> p = se_id e \<or> p \<notin> se_id ` set (entriesIn s))"
    by (simp add: isRoot_def buildEntryIndex_tree [OF tree] entry_index_has split: option.split)
qed

lemma tree_earlier:
  assumes "treeFrom {} (xs @ e # ys)" "se_parentId e = Some p"
  shows "p \<in> se_id ` set xs"
  using assms by (auto simp: treeFrom_append)

lemma tree_parent:
  assumes "well_kept s" "e \<in> set (entriesIn s)"
  shows "isRoot s e \<longleftrightarrow> se_parentId e = None" "se_parentId e = Some p \<Longrightarrow> p \<noteq> se_id e \<and> p \<in> se_id ` set (entriesIn s)"
proof -
  note tree = well_keptD(6) [OF assms(1)]
  from assms(2) obtain xs ys where split: "entriesIn s = xs @ e # ys" by (auto dest: split_list)
  have "se_id e \<notin> se_id ` set xs" using treeFrom_ids [OF tree] by (auto simp: split)
  then show parent: "p \<noteq> se_id e \<and> p \<in> se_id ` set (entriesIn s)" if "se_parentId e = Some p" for p
    using tree_earlier [OF tree [unfolded split] that] split by (auto simp: image_iff)
  show "isRoot s e \<longleftrightarrow> se_parentId e = None"
    unfolding tree_lookup(2) [OF assms(1)] using parent by (cases "se_parentId e") auto
qed

lemma children_tree:
  assumes "well_kept s"
  shows "treeChildren s e = filter (\<lambda>x. se_parentId x = Some (se_id e)) (entriesIn s)"
proof -
  have "filter (\<lambda>x. \<not> isRoot s x \<and> se_parentId x = Some (se_id e)) (entriesIn s) = filter (\<lambda>x. se_parentId x = Some (se_id e)) (entriesIn s)"
    by (rule filter_cong) (auto simp: tree_parent(1) [OF assms])
  moreover have "map (nodeFor s) (filter P (entriesIn s)) = filter P (entriesIn s)" for P
    by (rule map_idI) (simp add: tree_lookup(1) [OF assms])
  ultimately show ?thesis by (simp add: treeChildren_def)
qed

section \<open>Nodes\<close>

fun nodeEntries :: "session_tree \<Rightarrow> session_entry list" where
  "nodeEntries (TreeNode e ns l t) = e # concat (map nodeEntries ns)"

fun treeCorrect :: "session_manager \<Rightarrow> session_tree \<Rightarrow> bool" where
  "treeCorrect s (TreeNode e ns l t) \<longleftrightarrow>
     map nodeEntry ns = sort_key se_timestamp (filter (\<lambda>x. se_parentId x = Some (se_id e)) (entriesIn s)) \<and>
     l = map_get (sm_labelsById s) (se_id e) \<and> t = map_get (sm_labelTimestampsById s) (se_id e) \<and> list_all (treeCorrect s) ns"

lemma treeNode_entry [simp]: "nodeEntry (treeNode d s e) = e"
  by (subst treeNode.simps) simp

text \<open>The entries after the first \<open>k\<close>: depth enough for those that come later in the file.\<close>

lemma later_children:
  assumes "well_kept s" "k < length (entriesIn s)" "entriesIn s ! k = e" "x \<in> set (treeChildren s e)"
  shows "\<exists>j > k. j < length (entriesIn s) \<and> entriesIn s ! j = x"
proof -
  note tree = well_keptD(6) [OF assms(1)]
  note distinct = conjunct1 [OF treeFrom_ids [OF tree]]
  from assms(4) have x: "x \<in> set (entriesIn s)" "se_parentId x = Some (se_id e)" by (auto simp: children_tree [OF assms(1)])
  from x(1) obtain j where j: "j < length (entriesIn s)" "entriesIn s ! j = x" by (auto simp: in_set_conv_nth)
  have "treeFrom {} (take j (entriesIn s) @ x # drop (Suc j) (entriesIn s))"
    unfolding j(2) [symmetric] id_take_nth_drop [OF j(1), symmetric] by (rule tree)
  from tree_earlier [OF this x(2)] have "se_id e \<in> se_id ` set (take j (entriesIn s))" .
  then obtain i where i: "i < j" "se_id (entriesIn s ! i) = se_id e" using j(1) by (auto simp: in_set_conv_nth)
  have "i < length (entriesIn s)" using i(1) j(1) by simp
  then have "i = k" using nth_eq_iff_index_eq [OF distinct, of i k] assms(2,3) i(2) by simp
  with i(1) j show ?thesis by blast
qed

lemma treeNode_correct:
  assumes "well_kept s" "k < length (entriesIn s)" "entriesIn s ! k = e" "length (entriesIn s) \<le> d + k + 1"
  shows "treeCorrect s (treeNode d s e)"
  using assms(2-)
proof (induction d arbitrary: k e)
  case 0
  have "treeChildren s e = []"
  proof (rule ccontr)
    assume "treeChildren s e \<noteq> []"
    then obtain x where "x \<in> set (treeChildren s e)" by (cases "treeChildren s e") auto
    from later_children [OF assms(1) 0(1,2) this] 0(3) show False by auto
  qed
  then show ?case using children_tree [OF assms(1), of e] by (subst treeNode.simps) simp
next
  case (Suc d)
  have "treeCorrect s (treeNode d s x)" if "x \<in> set (treeChildren s e)" for x
  proof -
    from later_children [OF assms(1) Suc.prems(1,2) that] obtain j where j: "j > k" "j < length (entriesIn s)" "entriesIn s ! j = x" by blast
    show ?thesis by (rule Suc.IH [OF j(2,3)]) (use j(1) Suc.prems(3) in simp)
  qed
  then show ?case using children_tree [OF assms(1), of e]
    by (subst treeNode.simps) (simp add: comp_def list_all_iff)
qed

section \<open>Every entry once\<close>

lemma chained_child:
  "chained parent (a @ x # b) \<Longrightarrow> se_parentId x = (if a = [] then parent else Some (se_id (last a)))"
  by (auto simp: chained_append)

text \<open>The children of an entry that are on a path: its successor, if the entry is on the path and not its end.\<close>

lemma child_on_path:
  assumes "pathTo es y p" "distinct (map se_id es)" "e \<in> set es"
  shows "card {x \<in> set p. se_parentId x = Some (se_id e)} = (if e \<in> set p \<and> e \<noteq> y then 1 else 0)"
proof -
  let ?C = "{x \<in> set p. se_parentId x = Some (se_id e)}"
  have p: "chained None p" "distinct p" "p \<noteq> []" "last p = y" "set p \<subseteq> set es" using assms(1) by (auto simp: pathTo_def distinct_map)
  have inj: "inj_on se_id (set es)" using assms(2) by (simp add: distinct_map)
  have before: "\<exists>i. Suc i < length p \<and> p ! i = e \<and> p ! Suc i = x" if "x \<in> ?C" for x
  proof -
    from that obtain a b where ab: "p = a @ x # b" by (auto dest: split_list)
    with chained_child [OF p(1) [unfolded ab]] that have a: "a \<noteq> []" "se_id (last a) = se_id e" by (auto split: if_splits)
    then have "last a \<in> set es" using p(5) by (auto simp: ab)
    with inj a(2) assms(3) have "last a = e" by (auto dest: inj_onD)
    then show ?thesis using a(1) by (intro exI [of _ "length a - 1"]) (simp add: ab nth_append last_conv_nth)
  qed
  show ?thesis
  proof (cases "e \<in> set p")
    case False
    have "?C = {}" using before False nth_mem Suc_lessD by blast
    then show ?thesis using False by (simp only: card.empty) simp
  next
    case True
    then obtain k where k: "k < length p" "p ! k = e" by (auto simp: in_set_conv_nth)
    have only: "x = p ! Suc k \<and> Suc k < length p" if "x \<in> ?C" for x
    proof -
      from before [OF that] obtain i where i: "Suc i < length p" "p ! i = e" "p ! Suc i = x" by blast
      then have "i = k" using k p(2) by (metis Suc_lessD nth_eq_iff_index_eq)
      with i show ?thesis by blast
    qed
    show ?thesis
    proof (cases "Suc k < length p")
      case more: True
      have "chained None (take (Suc k) p @ p ! Suc k # drop (Suc (Suc k)) p)"
        unfolding id_take_nth_drop [OF more, symmetric] by (rule p(1))
      from chained_child [OF this] have "se_parentId (p ! Suc k) = Some (se_id e)"
        using k by (simp add: take_Suc_conv_app_nth)
      then have "p ! Suc k \<in> ?C" using more by simp
      with only have "?C = {p ! Suc k}" by blast
      moreover have "e \<noteq> y"
        using k more p(2,3,4) by (auto simp: last_conv_nth nth_eq_iff_index_eq)
      ultimately show ?thesis using True by (simp only: card_1_singleton_iff) auto
    next
      case end_of: False
      have "?C = {}" using only end_of by blast
      moreover have "e = y" using k end_of p(3,4) by (auto simp: last_conv_nth not_less_eq less_Suc_eq)
      ultimately show ?thesis by (simp only: card.empty) simp
    qed
  qed
qed

lemma count_concat: "count (mset (concat (map f xs))) y = (\<Sum>x \<leftarrow> xs. count (mset (f x)) y)"
  by (induction xs) simp_all

lemma sum_sort: "(\<Sum>x \<leftarrow> sort_key k xs. g x) = (\<Sum>x \<leftarrow> xs. g x)" for g :: "'a \<Rightarrow> nat"
  by (metis mset_map mset_sort sum_mset_sum_list)

lemma sum_indicator: "distinct xs \<Longrightarrow> (\<Sum>x \<leftarrow> xs. if x \<in> A then 1 else (0 :: nat)) = card (set xs \<inter> A)"
  by (induction xs) (auto simp: Int_insert_left)

text \<open>An entry is in the subtree of an entry exactly when that one is on its path, and then once.\<close>

lemma treeNode_count:
  assumes "well_kept s" "pathTo (entriesIn s) y p" "k < length (entriesIn s)" "entriesIn s ! k = e" "length (entriesIn s) \<le> d + k + 1"
  shows "count (mset (nodeEntries (treeNode d s e))) y = (if e \<in> set p then 1 else 0)"
  using assms(3-)
proof (induction d arbitrary: k e)
  case 0
  note distinct = conjunct1 [OF treeFrom_ids [OF well_keptD(6) [OF assms(1)]]]
  have e: "e \<in> set (entriesIn s)" using 0(1,2) by auto
  have "{x \<in> set p. se_parentId x = Some (se_id e)} = {}"
  proof (rule ccontr)
    assume "{x \<in> set p. se_parentId x = Some (se_id e)} \<noteq> {}"
    then obtain x where "x \<in> set (treeChildren s e)"
      using assms(2) by (auto simp: children_tree [OF assms(1)] pathTo_def)
    from later_children [OF assms(1) 0(1,2) this] 0(3) show False by auto
  qed
  with child_on_path [OF assms(2) distinct e] have "\<not> (e \<in> set p \<and> e \<noteq> y)" by (auto split: if_splits)
  moreover have "y \<in> set p" using assms(2) by (auto simp: pathTo_def)
  moreover have "nodeEntries (treeNode 0 s e) = [e]" by (simp add: treeNode.simps [of 0])
  ultimately show ?case by (cases "e = y") simp_all
next
  case (Suc d)
  note distinct = conjunct1 [OF treeFrom_ids [OF well_keptD(6) [OF assms(1)]]]
  have e: "e \<in> set (entriesIn s)" using Suc.prems(1,2) by auto
  let ?c = "treeChildren s e"
  have child: "count (mset (nodeEntries (treeNode d s x))) y = (if x \<in> set p then 1 else 0)" if "x \<in> set ?c" for x
  proof -
    from later_children [OF assms(1) Suc.prems(1,2) that] obtain j where j: "j > k" "j < length (entriesIn s)" "entriesIn s ! j = x" by blast
    show ?thesis by (rule Suc.IH [OF j(2,3)]) (use j(1) Suc.prems(3) in simp)
  qed
  have "(\<Sum>x \<leftarrow> sort_key se_timestamp ?c. count (mset (nodeEntries (treeNode d s x))) y) = (\<Sum>x \<leftarrow> ?c. if x \<in> set p then 1 else 0)"
    unfolding sum_sort using child by (intro arg_cong [of _ _ sum_list] map_cong) simp_all
  also have "\<dots> = card (set ?c \<inter> set p)"
    using distinct by (intro sum_indicator) (simp add: children_tree [OF assms(1)] distinct_map)
  also have "set ?c \<inter> set p = {x \<in> set p. se_parentId x = Some (se_id e)}"
    using assms(2) by (auto simp: children_tree [OF assms(1)] pathTo_def)
  also have "card \<dots> = (if e \<in> set p \<and> e \<noteq> y then 1 else 0)" by (rule child_on_path [OF assms(2) distinct e])
  finally have "count (mset (concat (map (\<lambda>x. nodeEntries (treeNode d s x)) (sort_key se_timestamp ?c)))) y = (if e \<in> set p \<and> e \<noteq> y then 1 else 0)"
    by (simp only: count_concat)
  moreover have "y \<in> set p" using assms(2) by (auto simp: pathTo_def)
  ultimately show ?case by (subst treeNode.simps) (auto simp: comp_def)
qed

section \<open>Property\<close>

text \<open>
  C36. The tree of a session is complete and exact: it holds every entry once, its roots are the entries without a
  parent, and below every entry are exactly its children, the oldest first, with the label of the entry.
\<close>

theorem session_tree_complete:
  assumes "managed s"
  shows "mset (concat (map nodeEntries (getTree s))) = mset (entriesIn s) \<and>
    map nodeEntry (getTree s) = filter (\<lambda>e. se_parentId e = None) (entriesIn s) \<and> list_all (treeCorrect s) (getTree s)"
proof -
  note s = managed_well_kept [OF assms]
  note tree = well_keptD(6) [OF s]
  note distinct = conjunct1 [OF treeFrom_ids [OF tree]]
  let ?es = "entriesIn s" and ?r = "filter (\<lambda>e. se_parentId e = None) (entriesIn s)"
  have "filter (isRoot s) ?es = ?r" by (rule filter_cong) (simp_all add: tree_parent(1) [OF s])
  moreover have "nodeFor s e = e" if "e \<in> set ?r" for e using that tree_lookup(1) [OF s] by simp
  ultimately have view: "getTree s = map (treeNode (length ?es) s) ?r" unfolding getTree_def by (intro map_cong) simp_all
  have "count (mset (concat (map nodeEntries (getTree s)))) y = count (mset ?es) y" for y
  proof (cases "y \<in> set ?es")
    case True
    from path_exists [OF tree True] obtain p where p: "pathTo ?es y p" by blast
    then have sub: "set p \<subseteq> set ?es" "p \<noteq> []" by (auto simp: pathTo_def)
    have "(\<Sum>e \<leftarrow> ?r. count (mset (nodeEntries (treeNode (length ?es) s e))) y) = (\<Sum>e \<leftarrow> ?r. if e \<in> set p then 1 else 0)"
    proof (intro arg_cong [of _ _ sum_list] map_cong refl)
      fix e assume "e \<in> set ?r"
      then obtain k where "k < length ?es" "?es ! k = e" by (auto simp: in_set_conv_nth)
      then show "count (mset (nodeEntries (treeNode (length ?es) s e))) y = (if e \<in> set p then 1 else 0)"
        by (rule treeNode_count [OF s p]) simp
    qed
    also have "\<dots> = card (set ?r \<inter> set p)" using distinct by (intro sum_indicator) (simp add: distinct_map)
    also have "set ?r \<inter> set p = {hd p}"
    proof -
      from sub(2) obtain h q where q: "p = h # q" by (cases p) auto
      have head: "se_parentId h = None" using p by (simp add: pathTo_def q)
      have inner: "se_parentId x \<noteq> None" if "x \<in> set q" for x
      proof -
        from that obtain a b where "q = a @ x # b" by (auto dest: split_list)
        then have "p = (h # a) @ x # b" by (simp add: q)
        with p have "chained None ((h # a) @ x # b)" by (simp add: pathTo_def)
        from chained_child [OF this] show ?thesis by simp
      qed
      show ?thesis using head sub(1) by (auto simp: q dest: inner)
    qed
    finally have "count (mset (concat (map nodeEntries (getTree s)))) y = 1"
      by (simp add: view count_concat comp_def)
    moreover have "distinct ?es" using distinct by (simp only: distinct_map)
    then have "count (mset ?es) y = 1" using True by (simp add: distinct_count_atmost_1)
    ultimately show ?thesis by simp
  next
    case False
    have "set (nodeEntries (treeNode d s e)) \<subseteq> set ?es" if "e \<in> set ?es" for d e
      using that
    proof (induction d arbitrary: e)
      case (Suc d)
      then have "set (nodeEntries (treeNode d s x)) \<subseteq> set ?es" if "x \<in> set (treeChildren s e)" for x
        using that by (simp add: children_tree [OF s])
      with Suc.prems show ?case by (subst treeNode.simps) auto
    qed (subst treeNode.simps, simp)
    then have "set (concat (map nodeEntries (getTree s))) \<subseteq> set ?es" by (auto simp: view)
    with False have "y \<notin> set (concat (map nodeEntries (getTree s)))" by blast
    with False show ?thesis by (metis count_mset_0_iff)
  qed
  then have "mset (concat (map nodeEntries (getTree s))) = mset ?es" by (rule multiset_eqI)
  moreover have "map nodeEntry (getTree s) = ?r" by (simp add: view comp_def)
  moreover have "list_all (treeCorrect s) (getTree s)"
    unfolding list_all_iff view
  proof
    fix n assume "n \<in> set (map (treeNode (length ?es) s) ?r)"
    then obtain e k where "n = treeNode (length ?es) s e" "k < length ?es" "?es ! k = e" by (auto simp: in_set_conv_nth)
    then show "treeCorrect s n" using treeNode_correct [OF s] by simp
  qed
  ultimately show ?thesis by blast
qed

theorem session_tree_complete_witness:
  "mset (concat (map nodeEntries (getTree (codingS 3)))) = mset codingEntries \<and> map nodeEntry (getTree (codingS 3)) = [hd codingEntries]"
proof -
  have "entriesIn (codingS 3) = codingEntries" by (simp add: coding_fields codingEntries_def)
  moreover have "filter (\<lambda>e. se_parentId e = None) codingEntries = [hd codingEntries]" by (simp add: codingEntries_def)
  ultimately show ?thesis using session_tree_complete [OF managed_S(3)] by simp
qed

end
