(* ===== verification/CodingTorn.thy ===== *)
theory CodingTorn
  imports CodingTreeView
begin

text \<open>
  A process that stops in the middle of a write leaves an unfinished line. The next manager of the file reads what is
  before it and appends behind it: the line it appends is lost with the unfinished one, and so is, for all
  later entries, the way to their ancestors.
\<close>

section \<open>Runs\<close>

lemma reopen_run:
  assumes "st_disk w path = Some f" "parsedLines f = HeaderLine h # ls" "\<not> fileVersion (HeaderLine h # ls) < CURRENT_SESSION_VERSION"
  shows "setSessionFile path w =
    (Returned (), (buildIndex (w\<lparr>sm_sessionFile := Some path, sm_fileEntries := HeaderLine h # ls, sm_sessionId := sh_id h\<rparr>))\<lparr>sm_flushed := True\<rparr>)"
proof -
  have load: "loadEntriesFromFile (w\<lparr>sm_sessionFile := Some path\<rparr>) path = HeaderLine h # ls"
    using assms(1,2) by (simp add: loadEntriesFromFile_def)
  show ?thesis
    using assms(1,3) load by (simp add: setSessionFile_def openedSession_def migrateToCurrentVersion_def action_run not_less)
qed

text \<open>Appending to a written file, whatever is at its end.\<close>

lemma appendMessage_written:
  assumes "indexed s" "unused s (se_id ` set (entriesIn s))" "sm_persist s" "sm_flushed s" "sm_sessionFile s = Some path"
  shows "\<exists>e n. newEntry s (MessageSE m) e n \<and>
    appendMessage m s = (Returned (se_id e), afterAppend e n ((st_disk s)(path \<mapsto> extendFile (EntryLine e) (st_disk s path))) True s)"
proof -
  obtain i n where id: "generateId (st_uuid s) (map_has (sm_byId s)) (st_drawn s) = (i, n)" by fastforce
  let ?ids = "se_id ` set (entriesIn s)"
  have known: "map_has (sm_byId s) x \<longleftrightarrow> x \<in> ?ids" for x using assms(1) by (simp add: indexed_def entry_index_has)
  from assms(2) have uuid: "uuidStream (st_uuid s)" "\<And>m. m \<ge> st_drawn s \<Longrightarrow> st_uuid s m \<notin> ?ids" by (simp_all add: unused_def)
  define e where "e = \<lparr>se_id = i, se_parentId = sm_leafId s, se_timestamp = st_now s, se_data = MessageSE m\<rparr>"
  have "newEntry s (MessageSE m) e n" using generateId_new [OF id uuid(1) uuid(2) known] by (simp add: newEntry_def e_def)
  moreover have "appendMessage m s = (Returned (se_id e), afterAppend e n ((st_disk s)(path \<mapsto> extendFile (EntryLine e) (st_disk s path))) True s)"
    using id assms(3-5) by (simp add: appendMessage_def appendedId_def appendChild_def drawId_def appendEntryLine_def persistEntry_def action_run
      afterAppend_def e_def appendLine_def)
  ultimately show ?thesis by blast
qed

lemma afterAppend_indexed:
  assumes "indexed s" "unused s (se_id ` set (entriesIn s))" "\<And>i. sm_leafId s = Some i \<Longrightarrow> i \<in> se_id ` set (entriesIn s)"
    "newEntry s (MessageSE m) e n"
  shows "indexed (afterAppend e n disk fl s)" "unused (afterAppend e n disk fl s) (se_id ` set (entriesIn (afterAppend e n disk fl s)))"
proof -
  have parent: "case se_parentId e of None \<Rightarrow> True | Some p \<Rightarrow> p \<in> se_id ` set (entriesIn s)"
    using assms(3,4) by (auto simp: newEntry_def split: option.split)
  have tree: "treeFrom {} (entriesIn s @ [e])" using assms(1,4) parent by (simp add: treeFrom_append newEntry_def indexed_def)
  have "\<not> isLabel e" using assms(4) by (simp add: newEntry_def isLabel_def)
  then have "labelStep e (labelsOf (entriesIn s)) = labelsOf (entriesIn s)" by (rule labelStep_other)
  with assms(1) tree index_set [OF tree] show "indexed (afterAppend e n disk fl s)"
    by (simp add: indexed_def afterAppend_def labelsOf_snoc)
  show "unused (afterAppend e n disk fl s) (se_id ` set (entriesIn (afterAppend e n disk fl s)))"
    using assms(2,4) by (simp add: unused_def newEntry_def afterAppend_def)
qed

lemma buildIndex_byId: "sm_byId (buildIndex s) = buildEntryIndex (entriesIn s)"
proof -
  have "sm_byId (fold indexEntry es t) = fold (\<lambda>e. map_set (se_id e) e) es (sm_byId t)" for es t
    by (induction es arbitrary: t) (simp_all add: indexEntry_fields)
  then show ?thesis by (simp add: buildIndex_def buildEntryIndex_def)
qed

text \<open>
  C37. A torn line hides the history: when a file ends in an unfinished line, a manager that opens it and appends two
  messages has both and the whole history in its branch, but the next manager that opens the file sees
  neither the first message nor anything before it: the branch of its leaf is the second message alone.
\<close>

theorem torn_line_hides_history:
  assumes "managed s" "sm_persist s" "sm_flushed s" "sm_sessionFile s = Some path" "st_disk s path = Some f"
  shows "\<exists>u u1 u2 u3 i1 i2 e1 e2. setSessionFile path (s\<lparr>st_disk := (st_disk s)(path \<mapsto> f\<lparr>sf_tail := Some None\<rparr>)\<rparr>) = (Returned (), u) \<and>
    appendMessage m1 u = (Returned i1, u1) \<and> appendMessage m2 u1 = (Returned i2, u2) \<and> setSessionFile path u2 = (Returned (), u3) \<and>
    se_data e1 = MessageSE m1 \<and> se_data e2 = MessageSE m2 \<and> sm_fileEntries u2 = sm_fileEntries s @ [EntryLine e1, EntryLine e2] \<and>
    sm_fileEntries u3 = sm_fileEntries s @ [EntryLine e2] \<and> getBranch u3 None = Some [e2]"
proof -
  note s = well_keptD [OF managed_well_kept [OF assms(1)]]
  from s(5) assms(2-5) have f: "parsedLines f = sm_fileEntries s" "sf_tail f = None" unfolding filed_def by auto
  from s(4) obtain h es where lines: "sm_fileEntries s = HeaderLine h # map EntryLine es"
    and version: "\<And>ls. \<not> fileVersion (HeaderLine h # ls) < CURRENT_SESSION_VERSION" unfolding currentLines_def fileVersion_def
    by (auto simp: headerOf_Cons not_less)
  let ?f = "f\<lparr>sf_tail := Some None\<rparr>"
  let ?w = "s\<lparr>st_disk := (st_disk s)(path \<mapsto> ?f)\<rparr>"
  have torn: "parsedLines ?f = HeaderLine h # map EntryLine es" using f lines by (simp add: parsedLines_def)
  define v where "v = ?w\<lparr>sm_sessionFile := Some path, sm_fileEntries := HeaderLine h # map EntryLine es, sm_sessionId := sh_id h\<rparr>"
  define u where "u = (buildIndex v)\<lparr>sm_flushed := True\<rparr>"
  have run: "setSessionFile path ?w = (Returned (), u)"
    unfolding u_def v_def by (rule reopen_run [OF _ torn version]) simp
  have es: "entriesIn s = es" "entriesIn v = es" by (simp_all add: lines v_def)
  have tree: "treeFrom {} es" using s(6) by (simp only: es)
  have v_fields: "st_uuid v = st_uuid s" "st_drawn v = st_drawn s" "sm_persist v" "sm_sessionFile v = Some path" "st_disk v path = Some ?f"
    using assms(2) by (simp_all add: v_def)
  have built: "indexed (buildIndex v)" using tree es(2) by (intro buildIndex_indexed) simp
  have u: "indexed u" "unused u (se_id ` set (entriesIn u))" "sm_persist u" "sm_flushed u" "sm_sessionFile u = Some path" "entriesIn u = es"
    "st_disk u path = Some ?f" "sm_fileEntries u = sm_fileEntries s"
    using built s(2) es v_fields by (simp_all add: u_def indexed_flushed unused_def lines) (simp add: v_def)
  have leaf: "i \<in> se_id ` set (entriesIn u)" if "sm_leafId u = Some i" for i using that by (auto simp: u_def split: if_splits)
  from appendMessage_written [OF u(1-5)] obtain e1 n1 where e1: "newEntry u (MessageSE m1) e1 n1"
    and run1: "appendMessage m1 u = (Returned (se_id e1), afterAppend e1 n1 ((st_disk u)(path \<mapsto> extendFile (EntryLine e1) (st_disk u path))) True u)" by blast
  define u1 where "u1 = afterAppend e1 n1 ((st_disk u)(path \<mapsto> extendFile (EntryLine e1) (st_disk u path))) True u"
  have "indexed u1" "unused u1 (se_id ` set (entriesIn u1))" unfolding u1_def by (rule afterAppend_indexed [OF u(1,2) leaf e1]; assumption)+
  moreover have "sm_persist u1" "sm_flushed u1" "sm_sessionFile u1 = Some path" using u(3,5) by (simp_all add: u1_def afterAppend_def)
  ultimately obtain e2 n2 where e2: "newEntry u1 (MessageSE m2) e2 n2"
    and run2: "appendMessage m2 u1 = (Returned (se_id e2), afterAppend e2 n2 ((st_disk u1)(path \<mapsto> extendFile (EntryLine e2) (st_disk u1 path))) True u1)"
    using appendMessage_written by blast
  define u2 where "u2 = afterAppend e2 n2 ((st_disk u1)(path \<mapsto> extendFile (EntryLine e2) (st_disk u1 path))) True u1"
  have lines2: "sm_fileEntries u2 = sm_fileEntries s @ [EntryLine e1, EntryLine e2]" using u(8) by (simp add: u2_def u1_def afterAppend_def)
  obtain g where g: "st_disk u2 path = Some g" "parsedLines g = HeaderLine h # map EntryLine (es @ [e2])"
    using u(7) f lines by (simp add: u2_def u1_def afterAppend_def extendFile_def parsedLines_def)
  define v3 where "v3 = u2\<lparr>sm_sessionFile := Some path, sm_fileEntries := HeaderLine h # map EntryLine (es @ [e2]), sm_sessionId := sh_id h\<rparr>"
  define u3 where "u3 = (buildIndex v3)\<lparr>sm_flushed := True\<rparr>"
  have run3: "setSessionFile path u2 = (Returned (), u3)" unfolding u3_def v3_def by (rule reopen_run [OF g version])
  have es3: "entriesIn v3 = es @ [e2]" unfolding v3_def by (simp del: map_append)
  have new: "se_id e1 \<notin> se_id ` set es" "se_id e2 \<noteq> se_id e1" "se_id e2 \<noteq> []" "se_parentId e2 = Some (se_id e1)"
    using e1 e2 u(6) by (simp_all add: newEntry_def u1_def afterAppend_def)
  have "sm_byId u3 = map_set (se_id e2) e2 (indexOfEntries es)"
    using buildEntryIndex_tree [OF tree] by (simp add: u3_def buildIndex_byId es3 buildEntryIndex_def)
  moreover have "map_get (indexOfEntries es) (se_id e1) = None"
  proof (rule ccontr)
    assume "map_get (indexOfEntries es) (se_id e1) \<noteq> None"
    then obtain x where "map_get (indexOfEntries es) (se_id e1) = Some x" by blast
    from entry_index_get_Some [OF this] have "se_id e1 = se_id x" "x \<in> set es" by simp_all
    then have "se_id e1 \<in> se_id ` set es" by (rule image_eqI)
    with new(1) show False by contradiction
  qed
  ultimately have get: "map_get (sm_byId u3) (se_id e2) = Some e2" "map_get (sm_byId u3) (se_id e1) = None"
    using new(2) by simp_all
  then have "parentOf (sm_byId u3) e2 = None" using new(4) by (simp add: parentOf_def)
  then have walk: "walkUp (sm_byId u3) (Some e2) [] = Some [e2]"
    by (simp add: walkUp.simps [of "sm_byId u3" "Some e2"] walkUp.simps [of "sm_byId u3" None])
  have "sm_leafId u3 = Some (se_id e2)" by (simp add: u3_def es3)
  then have "getBranch u3 None = Some [e2]" using get(1) new(3) walk by (simp add: getBranch_def)
  moreover have "sm_fileEntries u3 = sm_fileEntries s @ [EntryLine e2]" by (simp add: u3_def v3_def lines)
  moreover have "se_data e1 = MessageSE m1" "se_data e2 = MessageSE m2" using e1 e2 by (simp_all add: newEntry_def)
  ultimately show ?thesis using run run1 run2 run3 lines2 unfolding u1_def [symmetric] u2_def [symmetric] by blast
qed

theorem torn_line_hides_history_witness:
  "\<exists>f u u1 u2 u3 i1 i2 e1 e2. st_disk (codingS 3) (codingPath ''x0'') = Some f \<and>
    setSessionFile (codingPath ''x0'') ((codingS 3)\<lparr>st_disk := (st_disk (codingS 3))(codingPath ''x0'' \<mapsto> f\<lparr>sf_tail := Some None\<rparr>)\<rparr>) = (Returned (), u) \<and>
    appendMessage codingQuestion u = (Returned i1, u1) \<and> appendMessage codingAnswer u1 = (Returned i2, u2) \<and>
    setSessionFile (codingPath ''x0'') u2 = (Returned (), u3) \<and> se_data e2 = MessageSE codingAnswer \<and> getBranch u3 None = Some [e2]"
proof -
  obtain f where f: "st_disk (codingS 3) (codingPath ''x0'') = Some f" by (simp add: codingS_def codingState_def)
  have written: "sm_flushed (codingS 3)" by (simp add: coding_fields)
  from torn_line_hides_history [OF managed_S(3) coding_fields(1) written coding_fields(3) f, of codingQuestion codingAnswer] f
  show ?thesis by blast
qed

end
