(* ===== verification/StdinBuffer.thy ===== *)
theory StdinBuffer
  imports EditProps TextDecode
begin

text \<open>
  The input of the terminal (\<open>packages/tui/src/stdin-buffer.ts\<close>): chunks of text arrive with escape sequences cut
  anywhere, and complete sequences and pasted texts leave. A timer that is set is its time; when it fires,
  an unfinished sequence leaves as it is. Listeners do not call the buffer.
\<close>

section \<open>Sequences\<close>

definition ESC :: code_unit where "ESC = 0x1B"
definition BRACKETED_PASTE_START :: jsstr where "BRACKETED_PASTE_START = ESC # jstr ''[200~''"
definition BRACKETED_PASTE_END :: jsstr where "BRACKETED_PASTE_END = ESC # jstr ''[201~''"

datatype sequence_status = Complete | Incomplete | NotEscape

definition beginsWith :: "jsstr \<Rightarrow> jsstr \<Rightarrow> bool" where
  "beginsWith p s \<longleftrightarrow> take (length p) s = p"

definition finishesWith :: "jsstr \<Rightarrow> jsstr \<Rightarrow> bool" where
  "finishesWith p s \<longleftrightarrow> length p \<le> length s \<and> drop (length s - length p) s = p"

definition decimalDigit :: "code_unit \<Rightarrow> bool" where
  "decimalDigit u \<longleftrightarrow> 48 \<le> unat u \<and> unat u \<le> 57"

definition decimalDigits :: "jsstr \<Rightarrow> bool" where
  "decimalDigits s \<longleftrightarrow> s \<noteq> [] \<and> list_all decimalDigit s"

definition mouseMatch :: "jsstr \<Rightarrow> bool" where
  "mouseMatch payload \<longleftrightarrow> 2 \<le> length payload \<and> hd payload = 0x3C \<and> last payload \<in> {0x4D, 0x6D} \<and>
     (let parts = split_on 0x3B (butlast (tl payload)) in length parts = 3 \<and> list_all decimalDigits parts)"

definition isCompleteCsiSequence :: "jsstr \<Rightarrow> sequence_status" where
  "isCompleteCsiSequence data =
     (if \<not> beginsWith [ESC, 0x5B] data then Complete
      else if length data < 3 then Incomplete
      else
        let payload = drop 2 data; lastChar = last payload in
        if 0x40 \<le> unat lastChar \<and> unat lastChar \<le> 0x7E then
          (if hd payload = 0x3C then
             (if mouseMatch payload then Complete
              else if (lastChar = 0x4D \<or> lastChar = 0x6D) \<and>
                (let parts = split_on 0x3B (butlast (tl payload)) in length parts = 3 \<and> list_all decimalDigits parts) then Complete
              else Incomplete)
           else Complete)
        else Incomplete)"

definition isCompleteOscSequence :: "jsstr \<Rightarrow> sequence_status" where
  "isCompleteOscSequence data =
     (if \<not> beginsWith [ESC, 0x5D] data then Complete
      else if finishesWith [ESC, 0x5C] data \<or> finishesWith [7] data then Complete else Incomplete)"

definition isCompleteDcsSequence :: "jsstr \<Rightarrow> sequence_status" where
  "isCompleteDcsSequence data =
     (if \<not> beginsWith [ESC, 0x50] data then Complete else if finishesWith [ESC, 0x5C] data then Complete else Incomplete)"

definition isCompleteApcSequence :: "jsstr \<Rightarrow> sequence_status" where
  "isCompleteApcSequence data =
     (if \<not> beginsWith [ESC, 0x5F] data then Complete else if finishesWith [ESC, 0x5C] data then Complete else Incomplete)"

definition isCompleteSequence :: "jsstr \<Rightarrow> sequence_status" where
  "isCompleteSequence data =
     (if \<not> beginsWith [ESC] data then NotEscape
      else if length data = 1 then Incomplete
      else
        let afterEsc = drop 1 data in
        if beginsWith [0x5B] afterEsc then
          (if beginsWith [0x5B, 0x4D] afterEsc then (if 6 \<le> length data then Complete else Incomplete)
           else isCompleteCsiSequence data)
        else if beginsWith [0x5D] afterEsc then isCompleteOscSequence data
        else if beginsWith [0x50] afterEsc then isCompleteDcsSequence data
        else if beginsWith [0x5F] afterEsc then isCompleteApcSequence data
        else if beginsWith [0x4F] afterEsc then (if 2 \<le> length afterEsc then Complete else Incomplete)
        else Complete)"

section \<open>Splitting\<close>

text \<open>The length of the first candidate that is not incomplete.\<close>

definition seqEnd :: "jsstr \<Rightarrow> nat option" where
  "seqEnd remaining = find (\<lambda>n. isCompleteSequence (take n remaining) \<noteq> Incomplete) [1..<Suc (length remaining)]"

definition introducers :: "code_unit list" where
  "introducers = [0x5B, 0x5D, 0x4F, 0x50, 0x5F]"

definition emittedLength :: "jsstr \<Rightarrow> nat \<Rightarrow> nat" where
  "emittedLength remaining n =
     (if isCompleteSequence (take n remaining) = Complete \<and> take n remaining = [ESC, ESC] \<and> n < length remaining \<and>
        remaining ! n \<in> set introducers then 1 else n)"

lemma seqEnd_bounds: "seqEnd s = Some n \<Longrightarrow> 1 \<le> n \<and> n \<le> length s \<and> isCompleteSequence (take n s) \<noteq> Incomplete \<and>
    (\<forall>k. 1 \<le> k \<and> k < n \<longrightarrow> isCompleteSequence (take k s) = Incomplete)"
proof -
  assume "seqEnd s = Some n"
  then obtain i where i: "i < length [1..<Suc (length s)]" "isCompleteSequence (take ([1..<Suc (length s)] ! i) s) \<noteq> Incomplete"
    "n = [1..<Suc (length s)] ! i" "\<forall>j < i. isCompleteSequence (take ([1..<Suc (length s)] ! j) s) = Incomplete"
    unfolding seqEnd_def by (auto simp: find_Some_iff)
  have nth: "[1..<Suc (length s)] ! j = Suc j" if "j < length s" for j using that by (simp del: upt_Suc)
  have len: "i < length s" using i(1) by (simp del: upt_Suc)
  have n: "n = Suc i" using i(3) nth [OF len] by simp
  have "isCompleteSequence (take k s) = Incomplete" if "1 \<le> k" "k < n" for k
  proof -
    have "k - 1 < i" "k - 1 < length s" using that n len by simp_all
    with i(4) nth show ?thesis using that(1) by fastforce
  qed
  then show ?thesis using i(2,3) n len nth [OF len] by simp
qed

lemma emittedLength_bounds: "1 \<le> n \<Longrightarrow> 1 \<le> emittedLength s n \<and> emittedLength s n \<le> n"
  by (simp add: emittedLength_def)

function extractCompleteSequences :: "jsstr \<Rightarrow> jsstr list \<times> jsstr" where
  "extractCompleteSequences buffer =
     (case buffer of
        [] \<Rightarrow> ([], [])
      | u # us \<Rightarrow>
          if u = ESC then
            (case seqEnd buffer of
               None \<Rightarrow> ([], buffer)
             | Some n \<Rightarrow>
                 (let k = emittedLength buffer n; rest = extractCompleteSequences (drop k buffer) in
                  (take k buffer # fst rest, snd rest)))
          else (let rest = extractCompleteSequences us in ([u] # fst rest, snd rest)))"
  by pat_completeness auto
termination
proof (relation "measure length")
  fix buffer u us n k assume "buffer = u # us" "seqEnd buffer = Some n" "k = emittedLength buffer n"
  then show "(drop k buffer, buffer) \<in> measure length"
    using seqEnd_bounds [of buffer n] emittedLength_bounds [of n buffer] by (simp add: diff_less)
qed simp_all

declare extractCompleteSequences.simps [simp del]

lemma extract_eqs:
  "extractCompleteSequences [] = ([], [])"
  "u \<noteq> ESC \<Longrightarrow> extractCompleteSequences (u # us) = ([u] # fst (extractCompleteSequences us), snd (extractCompleteSequences us))"
  "seqEnd (ESC # us) = None \<Longrightarrow> extractCompleteSequences (ESC # us) = ([], ESC # us)"
  "seqEnd (ESC # us) = Some n \<Longrightarrow> k = emittedLength (ESC # us) n \<Longrightarrow> extractCompleteSequences (ESC # us) =
    (take k (ESC # us) # fst (extractCompleteSequences (drop k (ESC # us))), snd (extractCompleteSequences (drop k (ESC # us))))"
  by (subst extractCompleteSequences.simps; simp add: Let_def)+

text \<open>The cases of the splitting, for proofs.\<close>

lemma extract_induct [case_names Nil Other Unfinished Sequence]:
  assumes "P []" "\<And>u us. u \<noteq> ESC \<Longrightarrow> P us \<Longrightarrow> P (u # us)" "\<And>us. seqEnd (ESC # us) = None \<Longrightarrow> P (ESC # us)"
    "\<And>us n. seqEnd (ESC # us) = Some n \<Longrightarrow> P (drop (emittedLength (ESC # us) n) (ESC # us)) \<Longrightarrow> P (ESC # us)"
  shows "P buffer"
proof (induction buffer rule: extractCompleteSequences.induct)
  case (1 buffer)
  show ?case
  proof (cases buffer)
    case (Cons u us)
    show ?thesis
    proof (cases "u = ESC")
      case True
      then show ?thesis using "1.IH"(1) [OF Cons True _ refl] assms(3,4) Cons by (cases "seqEnd buffer") auto
    qed (use "1.IH"(2) Cons assms(2) in simp)
  qed (simp add: assms(1))
qed

section \<open>The buffer\<close>

definition digitsValue :: "jsstr \<Rightarrow> nat" where
  "digitsValue s = fold (\<lambda>u v. 10 * v + (unat u - 48)) s 0"

definition parseUnmodifiedKittyPrintableCodepoint :: "jsstr \<Rightarrow> nat option" where
  "parseUnmodifiedKittyPrintableCodepoint s =
     (if beginsWith [ESC, 0x5B] s \<and> 4 \<le> length s \<and> last s = 0x75 then
        let parts = split_on 0x3A (butlast (drop 2 s)) in
        if decimalDigits (hd parts) \<and>
           (length parts = 1 \<or> (length parts = 2 \<and> list_all decimalDigit (parts ! 1)) \<or>
            (length parts = 3 \<and> list_all decimalDigit (parts ! 1) \<and> decimalDigits (parts ! 2)))
        then (if 32 \<le> digitsValue (hd parts) then Some (digitsValue (hd parts)) else None)
        else None
      else None)"

datatype stdin_event = DataEvent jsstr | PasteEvent jsstr

record stdin_buffer =
  sb_buffer :: jsstr
  sb_timer :: "nat option"
  sb_timeoutMs :: nat
  sb_escapeTimeoutMs :: nat
  sb_pasteMode :: bool
  sb_pasteBuffer :: jsstr
  sb_pendingCodepoint :: "nat option"
  sb_events :: "stdin_event list"

definition newStdinBuffer :: "nat option \<Rightarrow> nat option \<Rightarrow> stdin_buffer" where
  "newStdinBuffer timeoutMs escapeTimeoutMs =
     \<lparr>sb_buffer = [], sb_timer = None, sb_timeoutMs = (case timeoutMs of Some t \<Rightarrow> t | None \<Rightarrow> 50),
      sb_escapeTimeoutMs = (case escapeTimeoutMs of Some t \<Rightarrow> t | None \<Rightarrow> 10), sb_pasteMode = False, sb_pasteBuffer = [],
      sb_pendingCodepoint = None, sb_events = []\<rparr>"

definition emitDataSequence :: "jsstr \<Rightarrow> stdin_buffer \<Rightarrow> stdin_buffer" where
  "emitDataSequence seq s =
     (let rawCodepoint = (if length seq = 1 then Some (unat (hd seq)) else None) in
      if rawCodepoint \<noteq> None \<and> rawCodepoint = sb_pendingCodepoint s then s\<lparr>sb_pendingCodepoint := None\<rparr>
      else s\<lparr>sb_pendingCodepoint := parseUnmodifiedKittyPrintableCodepoint seq, sb_events := sb_events s @ [DataEvent seq]\<rparr>)"

text \<open>The end of a paste, and what is left to process.\<close>

definition endPaste :: "stdin_buffer \<Rightarrow> stdin_buffer \<times> jsstr option" where
  "endPaste s =
     (case indexOf BRACKETED_PASTE_END (sb_pasteBuffer s) of
        None \<Rightarrow> (s, None)
      | Some i \<Rightarrow>
          (let remaining = drop (i + length BRACKETED_PASTE_END) (sb_pasteBuffer s) in
           (s\<lparr>sb_pasteMode := False, sb_pasteBuffer := [], sb_pendingCodepoint := None,
              sb_events := sb_events s @ [PasteEvent (take i (sb_pasteBuffer s))]\<rparr>,
            if remaining \<noteq> [] then Some remaining else None)))"

definition processStep :: "jsstr \<Rightarrow> stdin_buffer \<Rightarrow> stdin_buffer \<times> jsstr option" where
  "processStep str s0 =
     (let s = s0\<lparr>sb_timer := None\<rparr> in
      if str = [] \<and> sb_buffer s = [] then (emitDataSequence [] s, None)
      else
        let buffer = sb_buffer s @ str in
        if sb_pasteMode s then endPaste (s\<lparr>sb_buffer := [], sb_pasteBuffer := sb_pasteBuffer s @ buffer\<rparr>)
        else
          case indexOf BRACKETED_PASTE_START buffer of
            Some i \<Rightarrow>
              (let s' = (if 0 < i then fold emitDataSequence (fst (extractCompleteSequences (take i buffer))) s else s) in
               endPaste (s'\<lparr>sb_pendingCodepoint := None, sb_buffer := [], sb_pasteMode := True,
                 sb_pasteBuffer := drop (i + length BRACKETED_PASTE_START) buffer\<rparr>))
          | None \<Rightarrow>
              (case extractCompleteSequences buffer of (sequences, remainder) \<Rightarrow>
               let s' = fold emitDataSequence sequences (s\<lparr>sb_buffer := remainder\<rparr>) in
               (if remainder \<noteq> []
                then s'\<lparr>sb_timer := Some (if remainder = [ESC] then sb_escapeTimeoutMs s else sb_timeoutMs s)\<rparr> else s', None)))"

lemma paste_marker_length [simp]: "length BRACKETED_PASTE_START = 6" "length BRACKETED_PASTE_END = 6"
  by (simp_all add: BRACKETED_PASTE_START_def BRACKETED_PASTE_END_def jstr_def)

lemma emit_fields [simp]:
  "sb_buffer (emitDataSequence q s) = sb_buffer s" "sb_pasteMode (emitDataSequence q s) = sb_pasteMode s"
  "sb_pasteBuffer (emitDataSequence q s) = sb_pasteBuffer s" "sb_timer (emitDataSequence q s) = sb_timer s"
  "sb_timeoutMs (emitDataSequence q s) = sb_timeoutMs s" "sb_escapeTimeoutMs (emitDataSequence q s) = sb_escapeTimeoutMs s"
  by (simp_all add: emitDataSequence_def Let_def)

lemma emits_fields [simp]:
  "sb_buffer (fold emitDataSequence qs s) = sb_buffer s" "sb_pasteMode (fold emitDataSequence qs s) = sb_pasteMode s"
  "sb_pasteBuffer (fold emitDataSequence qs s) = sb_pasteBuffer s" "sb_timer (fold emitDataSequence qs s) = sb_timer s"
  "sb_timeoutMs (fold emitDataSequence qs s) = sb_timeoutMs s" "sb_escapeTimeoutMs (fold emitDataSequence qs s) = sb_escapeTimeoutMs s"
  by (induction qs arbitrary: s) simp_all

lemma endPaste_remaining:
  "endPaste s = (s', Some r) \<Longrightarrow> length r + 6 \<le> length (sb_pasteBuffer s) \<and> sb_buffer s' = sb_buffer s \<and> sb_pasteBuffer s' = []"
  by (auto simp: endPaste_def Let_def dest: indexOf_bound split: option.splits if_splits)

lemma processStep_remaining:
  assumes "processStep str s = (s', Some r)"
  shows "length r + length (sb_buffer s') + length (sb_pasteBuffer s') < length str + length (sb_buffer s) + length (sb_pasteBuffer s)"
proof -
  have "\<exists>t. endPaste t = (s', Some r) \<and> sb_buffer t = [] \<and> length (sb_pasteBuffer t) \<le> length str + length (sb_buffer s) + length (sb_pasteBuffer s)"
    using assms unfolding processStep_def Let_def
    by (force split: if_splits option.splits prod.splits)
  then obtain t where t: "endPaste t = (s', Some r)" "sb_buffer t = []"
    "length (sb_pasteBuffer t) \<le> length str + length (sb_buffer s) + length (sb_pasteBuffer s)" by blast
  from endPaste_remaining [OF t(1)] t(2,3) show ?thesis by simp
qed

function processText :: "jsstr \<Rightarrow> stdin_buffer \<Rightarrow> stdin_buffer" where
  "processText str s = (case processStep str s of (s', None) \<Rightarrow> s' | (s', Some remaining) \<Rightarrow> processText remaining s')"
  by pat_completeness auto
termination
  by (relation "measure (\<lambda>(str, s). length str + length (sb_buffer s) + length (sb_pasteBuffer s))")
    (auto dest: processStep_remaining [OF sym])

declare processText.simps [simp del]

text \<open>A chunk is a text or the bytes of a \<open>Buffer\<close>; a single high byte stands for a meta key.\<close>

datatype stdin_chunk = TextChunk jsstr | BytesChunk "byte list"

definition chunkText :: "stdin_chunk \<Rightarrow> jsstr" where
  "chunkText chunk =
     (case chunk of
        TextChunk t \<Rightarrow> t
      | BytesChunk bs \<Rightarrow>
          if length bs = 1 \<and> 127 < unat (hd bs) then [ESC, of_nat (unat (hd bs) - 128)] else units_of (lenient_scalars bs))"

definition processChunk :: "stdin_chunk \<Rightarrow> stdin_buffer \<Rightarrow> stdin_buffer" where
  "processChunk chunk s = processText (chunkText chunk) s"

definition flushStdin :: "stdin_buffer \<Rightarrow> jsstr list \<times> stdin_buffer" where
  "flushStdin s0 =
     (let s = s0\<lparr>sb_timer := None\<rparr> in
      if sb_buffer s = [] then ([], s) else ([sb_buffer s], s\<lparr>sb_buffer := [], sb_pendingCodepoint := None\<rparr>))"

definition timerFired :: "stdin_buffer \<Rightarrow> stdin_buffer" where
  "timerFired s = (case flushStdin s of (flushed, s') \<Rightarrow> fold emitDataSequence flushed s')"

definition clearStdin :: "stdin_buffer \<Rightarrow> stdin_buffer" where
  "clearStdin s = s\<lparr>sb_timer := None, sb_buffer := [], sb_pasteMode := False, sb_pasteBuffer := [], sb_pendingCodepoint := None\<rparr>"

section \<open>Input is kept\<close>

text \<open>
  C38. No input is lost or made up by the splitting: the sequences and the remainder are the buffer, in order. A
  sequence is one code unit or a complete escape sequence, and a remainder is an escape sequence of which
  no part is complete.
\<close>

theorem split_keeps_input:
  "concat (fst (extractCompleteSequences buffer)) @ snd (extractCompleteSequences buffer) = buffer \<and>
   (\<forall>q \<in> set (fst (extractCompleteSequences buffer)). length q = 1 \<or> (isCompleteSequence q \<noteq> Incomplete \<and> hd q = ESC)) \<and>
   (snd (extractCompleteSequences buffer) = [] \<or> (hd (snd (extractCompleteSequences buffer)) = ESC \<and>
     (\<forall>n \<in> {1..length (snd (extractCompleteSequences buffer))}. isCompleteSequence (take n (snd (extractCompleteSequences buffer))) = Incomplete)))"
proof (induction buffer rule: extract_induct)
  case (Unfinished us)
  have "isCompleteSequence (take n (ESC # us)) = Incomplete" if "1 \<le> n" "n \<le> length (ESC # us)" for n
    using Unfinished that by (auto simp: seqEnd_def find_None_iff simp del: upt_Suc)
  then show ?case by (simp add: extract_eqs(3) [OF Unfinished])
next
  case (Sequence us n)
  let ?b = "ESC # us" and ?k = "emittedLength (ESC # us) n"
  note n = seqEnd_bounds [OF Sequence(1)]
  have k: "1 \<le> ?k" "?k \<le> n" using emittedLength_bounds [of n ?b] n by auto
  have "?k = 1 \<or> ?k = n" by (simp add: emittedLength_def)
  moreover have "length (take 1 ?b) = 1" by simp
  moreover have "hd (take n ?b) = ESC" using n by (cases n) simp_all
  ultimately have first: "length (take ?k ?b) = 1 \<or> (isCompleteSequence (take ?k ?b) \<noteq> Incomplete \<and> hd (take ?k ?b) = ESC)"
    using n by metis
  show ?case unfolding extract_eqs(4) [OF Sequence(1) refl] fst_conv snd_conv using Sequence(2) first
    by (simp only: concat.simps append_assoc list.set ball_simps append_take_drop_id) simp
qed (simp_all add: extract_eqs)

section \<open>Chunks\<close>

lemma split_concat: "concat (fst (extractCompleteSequences buffer)) @ snd (extractCompleteSequences buffer) = buffer"
proof (induction buffer rule: extract_induct)
  case (Sequence us n)
  show ?case unfolding extract_eqs(4) [OF Sequence(1) refl] fst_conv snd_conv using Sequence(2)
    by (simp only: concat.simps append_assoc append_take_drop_id)
qed (simp_all add: extract_eqs)

lemma seqEnd_append:
  assumes "seqEnd a = Some n"
  shows "seqEnd (a @ b) = Some n"
proof -
  note n = seqEnd_bounds [OF assms]
  have nth: "[1..<Suc (length (a @ b))] ! i = Suc i" if "i < length (a @ b)" for i using that by (simp del: upt_Suc)
  have same: "take k (a @ b) = take k a" if "k \<le> n" for k using that n by simp
  show ?thesis unfolding seqEnd_def find_Some_iff
  proof (intro exI [of _ "n - 1"] conjI allI impI)
    show "n - 1 < length [1..<Suc (length (a @ b))]" using n by (simp del: upt_Suc) linarith
    have i: "n - 1 < length (a @ b)" using n by (simp, linarith)
    show "n = [1..<Suc (length (a @ b))] ! (n - 1)" using nth [OF i] n by simp
    then show "isCompleteSequence (take ([1..<Suc (length (a @ b))] ! (n - 1)) (a @ b)) \<noteq> Incomplete" using same [of n] n by simp
    fix j assume j: "j < n - 1"
    then have "[1..<Suc (length (a @ b))] ! j = Suc j" using nth [of j] i by simp
    moreover have "isCompleteSequence (take (Suc j) (a @ b)) = Incomplete" using same [of "Suc j"] n j by (simp del: take_append)
    ultimately show "\<not> isCompleteSequence (take ([1..<Suc (length (a @ b))] ! j) (a @ b)) \<noteq> Incomplete" by (simp only: not_not)
  qed
qed

text \<open>
  The one place where the split looks ahead: two escapes are a sequence of their own unless they are known to be
  followed by a third code unit that opens a sequence.
\<close>

definition opensAfterEscapes :: "jsstr \<Rightarrow> bool" where
  "opensAfterEscapes t \<longleftrightarrow> (\<exists>x y u. t = x @ ESC # ESC # u # y \<and> u \<in> set introducers)"

lemma extract_append:
  assumes "\<not> opensAfterEscapes (a @ b)"
  shows "extractCompleteSequences (a @ b) =
    (fst (extractCompleteSequences a) @ fst (extractCompleteSequences (snd (extractCompleteSequences a) @ b)),
     snd (extractCompleteSequences (snd (extractCompleteSequences a) @ b)))"
  using assms
proof (induction a rule: extract_induct)
  case (Other u us)
  have "\<not> opensAfterEscapes (us @ b)"
    using Other.prems unfolding opensAfterEscapes_def by (metis append_Cons)
  from Other.IH [OF this] Other.hyps show ?case by (simp add: extract_eqs)
next
  case (Sequence us n)
  let ?a = "ESC # us"
  note n = seqEnd_bounds [OF Sequence.hyps(1)]
  have found: "seqEnd (ESC # us @ b) = Some n" using seqEnd_append [OF Sequence.hyps(1), of b] by simp
  have ahead: "emittedLength (?a @ b) n = emittedLength ?a n"
  proof (cases "take n ?a = [ESC, ESC] \<and> n = length ?a \<and> b \<noteq> [] \<and> hd b \<in> set introducers")
    case True
    then have "?a = [ESC, ESC]" by (metis take_all order_refl)
    with True have "?a @ b = [] @ ESC # ESC # hd b # tl b" by (cases b) simp_all
    with Sequence.prems True show ?thesis unfolding opensAfterEscapes_def by blast
  next
    case False
    have "take n (?a @ b) = take n ?a" using n by (metis append_Nil2 diff_is_0_eq take0 take_append)
    with False n show ?thesis by (cases "n < length ?a"; cases b) (auto simp: emittedLength_def nth_append)
  qed
  have k: "emittedLength ?a n \<le> length ?a" using emittedLength_bounds [of n ?a] n by auto
  have "\<not> opensAfterEscapes (drop (emittedLength ?a n) ?a @ b)"
  proof
    assume "opensAfterEscapes (drop (emittedLength ?a n) ?a @ b)"
    then obtain x y u where "drop (emittedLength ?a n) ?a @ b = x @ ESC # ESC # u # y" "u \<in> set introducers" unfolding opensAfterEscapes_def by blast
    then have "?a @ b = (take (emittedLength ?a n) ?a @ x) @ ESC # ESC # u # y" by (metis append.assoc append_take_drop_id)
    with \<open>u \<in> set introducers\<close> Sequence.prems show False unfolding opensAfterEscapes_def by blast
  qed
  note rest = Sequence.IH [OF this]
  have parts: "take (emittedLength ?a n) (?a @ b) = take (emittedLength ?a n) ?a"
    "drop (emittedLength ?a n) (?a @ b) = drop (emittedLength ?a n) ?a @ b"
    using k by (simp_all only: take_append drop_append diff_is_0_eq' take0 drop0 append_Nil2)
  have whole: "extractCompleteSequences (?a @ b) = (take (emittedLength ?a n) (?a @ b) # fst (extractCompleteSequences (drop (emittedLength ?a n) (?a @ b))),
      snd (extractCompleteSequences (drop (emittedLength ?a n) (?a @ b))))"
    using extract_eqs(4) [OF found refl] ahead by simp
  show ?case unfolding whole parts rest extract_eqs(4) [OF Sequence.hyps(1) refl] by simp
qed (simp_all add: extract_eqs)

text \<open>What a step leaves for a buffer without a paste.\<close>

definition settle :: "jsstr \<Rightarrow> stdin_buffer \<Rightarrow> stdin_buffer" where
  "settle t s =
     (let r = snd (extractCompleteSequences t); s' = fold emitDataSequence (fst (extractCompleteSequences t)) (s\<lparr>sb_timer := None, sb_buffer := r\<rparr>) in
      if r \<noteq> [] then s'\<lparr>sb_timer := Some (if r = [ESC] then sb_escapeTimeoutMs s else sb_timeoutMs s)\<rparr> else s')"

lemma processText_settle:
  assumes "\<not> sb_pasteMode s" "str \<noteq> []" "indexOf BRACKETED_PASTE_START (sb_buffer s @ str) = None"
  shows "processText str s = settle (sb_buffer s @ str) s"
proof -
  have "processStep str s = (settle (sb_buffer s @ str) s, None)"
    using assms by (simp add: processStep_def settle_def Let_def split_def)
  then show ?thesis by (subst processText.simps) simp
qed

lemma indexOf_append: "indexOf p a = Some i \<Longrightarrow> indexOf p (a @ b) = Some i"
proof (induction a arbitrary: i)
  case Nil
  then show ?case by (cases b) (auto split: if_splits)
next
  case (Cons x a)
  show ?case
  proof (cases "take (length p) (x # a) = p")
    case True
    then have "length p \<le> length (x # a)" by (metis length_take min.cobounded1 min_def)
    then have "take (length p) ((x # a) @ b) = take (length p) (x # a)" by (simp only: take_append diff_is_0_eq' take0 append_Nil2)
    with True Cons.prems show ?thesis by simp
  next
    case False
    with Cons.prems obtain j where j: "indexOf p a = Some j" "i = Suc j" by auto
    show ?thesis
    proof (cases "take (length p) ((x # a) @ b) = p")
      case True
      from indexOf_bound [OF j(1)] have "length p \<le> length (x # a)" by simp
      then have "take (length p) ((x # a) @ b) = take (length p) (x # a)" by (simp only: take_append diff_is_0_eq' take0 append_Nil2)
      with True False show ?thesis by simp
    next
      case False2: False
      with Cons.IH [OF j(1)] j(2) show ?thesis by simp
    qed
  qed
qed

lemma indexOf_suffix: "indexOf p (a @ b) = None \<Longrightarrow> indexOf p b = None"
  by (induction a) (auto split: if_splits)

lemma indexOf_prefix: "indexOf p (a @ b) = None \<Longrightarrow> indexOf p a = None"
  using indexOf_append by (cases "indexOf p a") fastforce+

text \<open>The emission of sequences does not depend on the remainder and the timer.\<close>

lemma emit_frame: "emitDataSequence q (s\<lparr>sb_timer := t, sb_buffer := b\<rparr>) = (emitDataSequence q s)\<lparr>sb_timer := t, sb_buffer := b\<rparr>"
  by (simp add: emitDataSequence_def Let_def)

lemma emits_frame: "fold emitDataSequence qs (s\<lparr>sb_timer := t, sb_buffer := b\<rparr>) = (fold emitDataSequence qs s)\<lparr>sb_timer := t, sb_buffer := b\<rparr>"
  by (induction qs arbitrary: s) (simp_all add: emit_frame)

definition timerFor :: "jsstr \<Rightarrow> stdin_buffer \<Rightarrow> nat option" where
  "timerFor r s = (if r = [] then None else Some (if r = [ESC] then sb_escapeTimeoutMs s else sb_timeoutMs s))"

lemma settle_eq: "settle t s =
    (fold emitDataSequence (fst (extractCompleteSequences t)) s)\<lparr>sb_timer := timerFor (snd (extractCompleteSequences t)) s,
      sb_buffer := snd (extractCompleteSequences t)\<rparr>"
  by (simp add: settle_def Let_def emits_frame timerFor_def)

lemma settle_twice:
  assumes "\<not> opensAfterEscapes (a @ b)"
  shows "settle (sb_buffer (settle a s) @ b) (settle a s) = settle (a @ b) s"
proof -
  have fields: "sb_timeoutMs (settle a s) = sb_timeoutMs s" "sb_escapeTimeoutMs (settle a s) = sb_escapeTimeoutMs s"
    "sb_buffer (settle a s) = snd (extractCompleteSequences a)" by (simp_all add: settle_eq)
  show ?thesis unfolding fields(3)
    by (simp add: settle_eq [of "a @ b"] settle_eq [of "snd (extractCompleteSequences a) @ b"] extract_append [OF assms] timerFor_def fields)
      (simp add: settle_eq emits_frame)
qed

text \<open>
  C39. How typed input is cut into chunks does not matter: without a paste, feeding the chunks one after the other
  leaves the same events, the same rest and the same timer as feeding them at once. The one exception is
  left out by the hypothesis: two escapes and the code unit that opens a sequence.
\<close>

theorem chunks_do_not_matter:
  assumes "\<not> sb_pasteMode s" "chunks \<noteq> []" "\<forall>c \<in> set chunks. c \<noteq> []"
    "indexOf BRACKETED_PASTE_START (sb_buffer s @ concat chunks) = None" "\<not> opensAfterEscapes (sb_buffer s @ concat chunks)"
  shows "fold processText chunks s = processText (concat chunks) s"
proof -
  have settled: "fold processText cs s = settle (sb_buffer s @ concat cs) s"
    if "cs \<noteq> []" "\<forall>c \<in> set cs. c \<noteq> []" "indexOf BRACKETED_PASTE_START (sb_buffer s @ concat cs) = None"
      "\<not> opensAfterEscapes (sb_buffer s @ concat cs)" for cs
    using that
  proof (induction cs rule: rev_induct)
    case (snoc c cs)
    show ?case
    proof (cases "cs = []")
      case True
      then show ?thesis using processText_settle [OF assms(1), of c] snoc.prems by simp
    next
      case False
      let ?a = "sb_buffer s @ concat cs"
      have all: "indexOf BRACKETED_PASTE_START (?a @ c) = None" "\<not> opensAfterEscapes (?a @ c)" using snoc.prems(3,4) by simp_all
      have "\<not> opensAfterEscapes ?a" using all(2) unfolding opensAfterEscapes_def by (metis append.assoc append_Cons)
      with snoc.IH [OF False _ indexOf_prefix [OF all(1)]] snoc.prems(2) have IH: "fold processText cs s = settle ?a s" by simp
      let ?t = "settle ?a s"
      have "?a @ c = concat (fst (extractCompleteSequences ?a)) @ (sb_buffer ?t @ c)"
        using split_concat [of ?a] by (simp add: settle_eq)
      with all(1) have "indexOf BRACKETED_PASTE_START (sb_buffer ?t @ c) = None" by (metis indexOf_suffix)
      moreover have "\<not> sb_pasteMode ?t" using assms(1) by (simp add: settle_eq)
      moreover have "c \<noteq> []" using snoc.prems(2) by simp
      ultimately have "processText c ?t = settle (sb_buffer ?t @ c) ?t" by (intro processText_settle)
      then show ?thesis using IH settle_twice [OF all(2), of s] by simp
    qed
  qed simp
  have "concat chunks \<noteq> []" using assms(2,3) by (cases chunks) auto
  from processText_settle [OF assms(1) this assms(4)] settled [OF assms(2-5)] show ?thesis by simp
qed

section \<open>Pastes\<close>

lemma start_prefixes: "list_all (\<lambda>k. extractCompleteSequences (take k BRACKETED_PASTE_START) = ([], take k BRACKETED_PASTE_START)) [1..<6]"
  by code_simp

lemma indexOf_here: "p \<noteq> [] \<Longrightarrow> indexOf p (p @ d) = Some 0"
  by (cases p) simp_all

lemma endPaste_waits:
  assumes "indexOf BRACKETED_PASTE_END (content @ BRACKETED_PASTE_END) = Some (length content)"
    "sb_pasteBuffer t @ rest = content @ BRACKETED_PASTE_END" "rest \<noteq> []"
  shows "endPaste t = (t, None)"
proof -
  have "indexOf BRACKETED_PASTE_END (sb_pasteBuffer t) = None"
  proof (rule ccontr)
    assume "indexOf BRACKETED_PASTE_END (sb_pasteBuffer t) \<noteq> None"
    then obtain i where i: "indexOf BRACKETED_PASTE_END (sb_pasteBuffer t) = Some i" by blast
    from indexOf_append [OF i, of rest] assms(1,2) have "i = length content" by simp
    with indexOf_bound [OF i] have "length content + 6 \<le> length (sb_pasteBuffer t)" by simp
    moreover have "length (sb_pasteBuffer t) + length rest = length content + 6" using arg_cong [OF assms(2), of length] by simp
    ultimately show False using assms(3) by (cases rest) simp_all
  qed
  then show ?thesis by (simp add: endPaste_def)
qed

lemma endPaste_ends:
  assumes "indexOf BRACKETED_PASTE_END (content @ BRACKETED_PASTE_END) = Some (length content)"
    "sb_pasteBuffer t = content @ BRACKETED_PASTE_END"
  shows "endPaste t = (t\<lparr>sb_pasteMode := False, sb_pasteBuffer := [], sb_pendingCodepoint := None,
    sb_events := sb_events t @ [PasteEvent content]\<rparr>, None)"
  using assms by (simp add: endPaste_def)

text \<open>The states while a part \<open>x\<close> of a paste has arrived.\<close>

definition pasting :: "stdin_buffer \<Rightarrow> jsstr \<Rightarrow> stdin_buffer \<Rightarrow> bool" where
  "pasting s x t \<longleftrightarrow> sb_events t = sb_events s \<and>
     (if length x < 6 then \<not> sb_pasteMode t \<and> sb_buffer t = x else sb_pasteMode t \<and> sb_buffer t = [] \<and> sb_pasteBuffer t = drop 6 x)"

definition pasted :: "stdin_buffer \<Rightarrow> jsstr \<Rightarrow> stdin_buffer \<Rightarrow> bool" where
  "pasted s content t \<longleftrightarrow> sb_events t = sb_events s @ [PasteEvent content] \<and> sb_buffer t = [] \<and> \<not> sb_pasteMode t \<and>
     sb_pasteBuffer t = [] \<and> sb_timer t = None"

lemma paste_step:
  assumes t: "pasting s x t" and c: "c \<noteq> []" and all: "x @ c @ rest = BRACKETED_PASTE_START @ content @ BRACKETED_PASTE_END"
    and first: "indexOf BRACKETED_PASTE_END (content @ BRACKETED_PASTE_END) = Some (length content)"
  shows "if rest = [] then pasted s content (processText c t) else pasting s (x @ c) (processText c t)"
proof -
  have prefix: "take 6 (x @ c @ rest) = BRACKETED_PASTE_START" "drop 6 (x @ c @ rest) = content @ BRACKETED_PASTE_END"
    unfolding all by simp_all
  show ?thesis
  proof (cases "length (x @ c) < 6")
    case True
    let ?b = "x @ c"
    have rest: "rest \<noteq> []" using True arg_cong [OF all, of length] by auto
    have b: "?b = take (length ?b) BRACKETED_PASTE_START" 
    proof -
      have "take (length ?b) (take 6 (?b @ rest)) = ?b" using True by (simp add: take_take min_def)
      then show ?thesis by (simp only: prefix(1) append_assoc)
    qed
    have none: "indexOf BRACKETED_PASTE_START ?b = None"
      using indexOf_bound [of BRACKETED_PASTE_START ?b] True by (cases "indexOf BRACKETED_PASTE_START ?b") fastforce+
    have "length ?b \<in> set [1..<6]" using True c by (cases c) auto
    then have split: "extractCompleteSequences ?b = ([], ?b)" using start_prefixes b unfolding list_all_iff by metis
    have tx: "\<not> sb_pasteMode t" "sb_buffer t = x" "sb_events t = sb_events s" using t True by (simp_all add: pasting_def)
    have "processText c t = settle ?b t" using processText_settle [OF tx(1) c] none tx(2) by simp
    then have "pasting s ?b (processText c t)" using tx(1,3) True by (simp add: pasting_def settle_eq split)
    with rest show ?thesis by simp
  next
    case False
    define u where "u = (t\<lparr>sb_timer := None\<rparr>)\<lparr>sb_pendingCodepoint := (if sb_pasteMode t then sb_pendingCodepoint t else None), sb_buffer := [],
      sb_pasteMode := True, sb_pasteBuffer := drop 6 (x @ c)\<rparr>"
    have step: "processStep c t = endPaste u"
    proof (cases "length x < 6")
      case True
      then have tx: "\<not> sb_pasteMode t" "sb_buffer t = x" using t by (simp_all add: pasting_def)
      have "take 6 ((x @ c) @ rest) = take 6 (x @ c)" using False by (simp only: take_append [of 6 "x @ c"]) (simp del: take_append)
      then have "take 6 (x @ c) = BRACKETED_PASTE_START" using prefix(1) by (simp only: append_assoc)
      then have "x @ c = BRACKETED_PASTE_START @ drop 6 (x @ c)" using append_take_drop_id [of 6 "x @ c"] by simp
      moreover have "BRACKETED_PASTE_START \<noteq> []" by (simp add: BRACKETED_PASTE_START_def)
      ultimately have "indexOf BRACKETED_PASTE_START (x @ c) = Some 0" using indexOf_here by metis
      then show ?thesis using tx c by (simp add: processStep_def Let_def u_def)
    next
      case more: False
      then have tx: "sb_pasteMode t" "sb_buffer t = []" "sb_pasteBuffer t = drop 6 x" using t by (simp_all add: pasting_def)
      have "t\<lparr>sb_timer := None, sb_buffer := [], sb_pasteBuffer := drop 6 x @ c\<rparr> = u"
        using tx(1) more by (cases t) (simp add: u_def)
      then show ?thesis using c tx by (simp add: processStep_def Let_def)
    qed
    have u: "sb_pasteBuffer u @ rest = content @ BRACKETED_PASTE_END" "sb_events u = sb_events s"
      using prefix(2) False t by (auto simp: u_def pasting_def split: if_splits)
    show ?thesis
    proof (cases "rest = []")
      case True
      with u have "endPaste u = (u\<lparr>sb_pasteMode := False, sb_pasteBuffer := [], sb_pendingCodepoint := None,
        sb_events := sb_events u @ [PasteEvent content]\<rparr>, None)" by (intro endPaste_ends [OF first]) simp
      then have "processText c t = u\<lparr>sb_pasteMode := False, sb_pasteBuffer := [], sb_pendingCodepoint := None,
        sb_events := sb_events u @ [PasteEvent content]\<rparr>" by (subst processText.simps) (simp add: step)
      then show ?thesis using True u(2) by (simp add: pasted_def) (simp add: u_def)
    next
      case more: False
      have "processText c t = u" by (subst processText.simps) (simp add: step endPaste_waits [OF first u(1) more])
      then show ?thesis using more u(2) False by (simp add: pasting_def) (simp add: u_def)
    qed
  qed
qed

text \<open>
  C40. A pasted text arrives whole: however the bracketed paste is cut into chunks, within its markers too, an idle
  buffer reports exactly the pasted text, once, and is idle again.
\<close>

theorem paste_delivered:
  assumes "\<not> sb_pasteMode s" "sb_buffer s = []" "\<forall>c \<in> set chunks. c \<noteq> []"
    "concat chunks = BRACKETED_PASTE_START @ content @ BRACKETED_PASTE_END"
    "indexOf BRACKETED_PASTE_END (content @ BRACKETED_PASTE_END) = Some (length content)"
  shows "pasted s content (fold processText chunks s)"
proof -
  have "if concat cs = BRACKETED_PASTE_START @ content @ BRACKETED_PASTE_END then pasted s content (fold processText cs s)
      else pasting s (concat cs) (fold processText cs s)"
    if "chunks = cs @ ds" for cs ds
    using that
  proof (induction cs arbitrary: ds rule: rev_induct)
    case Nil
    then show ?case using assms(1,2) by (simp add: pasting_def BRACKETED_PASTE_START_def)
  next
    case (snoc c cs)
    have c: "c \<noteq> []" using snoc.prems assms(3) by simp
    have all: "concat cs @ c @ concat ds = BRACKETED_PASTE_START @ content @ BRACKETED_PASTE_END" using snoc.prems assms(4) by simp
    have "concat cs \<noteq> BRACKETED_PASTE_START @ content @ BRACKETED_PASTE_END" using all c by auto
    with snoc.IH [of "c # ds"] snoc.prems have "pasting s (concat cs) (fold processText cs s)" by simp
    note step = paste_step [OF this c all assms(5)]
    have "concat (cs @ [c]) = BRACKETED_PASTE_START @ content @ BRACKETED_PASTE_END \<longleftrightarrow> concat ds = []"
      unfolding all [symmetric] by simp
    with step show ?case by (simp only: fold_append fold_simps comp_def concat_append concat.simps append_Nil2 append_assoc if_split)
  qed
  from this [of chunks "[]"] assms(4) show ?thesis by simp
qed

text \<open>
  What precedes a paste is split as well, but what is unfinished then is dropped: an escape key that arrives in front
  of a paste leaves no event.
\<close>

lemma escape_before_paste_lost:
  assumes "s = newStdinBuffer None None"
  shows "sb_events (processText (BRACKETED_PASTE_START @ [0x61] @ BRACKETED_PASTE_END) (processText [ESC] s)) = [PasteEvent [0x61]] \<and>
    sb_events (timerFired (processText [ESC] s)) = [DataEvent [ESC]]"
  unfolding assms by code_simp

section \<open>Witnesses\<close>

theorem chunks_do_not_matter_witness:
  "fold processText [[ESC], [0x5B, 0x41, 0x62]] (newStdinBuffer None None) = processText [ESC, 0x5B, 0x41, 0x62] (newStdinBuffer None None)"
proof -
  let ?s = "newStdinBuffer None None" and ?c = "[[ESC], [0x5B, 0x41, 0x62]] :: jsstr list"
  have none: "indexOf BRACKETED_PASTE_START (sb_buffer ?s @ concat ?c) = None" by code_simp
  have "sb_buffer ?s @ concat ?c = [ESC, 0x5B, 0x41, 0x62]" by (simp add: newStdinBuffer_def)
  then have "\<not> opensAfterEscapes (sb_buffer ?s @ concat ?c)"
    by (auto simp: opensAfterEscapes_def ESC_def Cons_eq_append_conv)
  from chunks_do_not_matter [OF _ _ _ none this] show ?thesis by (simp add: newStdinBuffer_def)
qed

theorem paste_delivered_witness:
  "pasted (newStdinBuffer None None) [0x61, 0x62] (fold processText
     [[ESC, 0x5B], [0x32, 0x30, 0x30], [0x7E, 0x61], [0x62, ESC, 0x5B, 0x32], [0x30, 0x31, 0x7E]] (newStdinBuffer None None))"
proof -
  let ?c = "[[ESC, 0x5B], [0x32, 0x30, 0x30], [0x7E, 0x61], [0x62, ESC, 0x5B, 0x32], [0x30, 0x31, 0x7E]] :: jsstr list"
  have all: "concat ?c = BRACKETED_PASTE_START @ [0x61, 0x62] @ BRACKETED_PASTE_END" by code_simp
  have first: "indexOf BRACKETED_PASTE_END ([0x61, 0x62] @ BRACKETED_PASTE_END) = Some (length ([0x61, 0x62] :: jsstr))" by code_simp
  show ?thesis by (rule paste_delivered [OF _ _ _ all first]) (simp_all add: newStdinBuffer_def)
qed

theorem split_keeps_input_witness:
  "concat (fst (extractCompleteSequences [ESC, 0x5B, 0x41, 0x62, ESC])) @ snd (extractCompleteSequences [ESC, 0x5B, 0x41, 0x62, ESC]) =
     [ESC, 0x5B, 0x41, 0x62, ESC] \<and>
   fst (extractCompleteSequences [ESC, 0x5B, 0x41, 0x62, ESC]) = [[ESC, 0x5B, 0x41], [0x62]]"
proof
  show "fst (extractCompleteSequences [ESC, 0x5B, 0x41, 0x62, ESC]) = [[ESC, 0x5B, 0x41], [0x62]]" by code_simp
qed (rule conjunct1 [OF split_keeps_input])

end
