(* ===== verification/Spec2Isabelle.thy ===== *)
theory Spec2Isabelle
  imports MessageProps SessionProps SessionContext ReducerProps CompactionDemo JsonlTheorems
    AgentProps AgentGuards AgentContext AgentTermination AgentClassProps ReadTool EditTool MutationQueue BashTool
    TransformProps JsonCheck CodingTorn StdinBuffer
begin

text \<open>
  A verification of the core of the monorepo: the wire protocol, the durable sessions, the recovery
  and compaction of a conversation, and the agent loop. Paths are relative to \<open>src/\<close>.

  \<^bold>\<open>The program.\<close> A client and a server exchange messages over a byte stream
  (\<open>packages/protocol\<close>): a value is encoded as CBOR, put into a length-prefixed frame, and checked
  against a schema on both sides. A conversation is a session (\<open>packages/agent/src/harness/session\<close>):
  a tree of entries with lanes that point at its tips, and a log of records of the operations that
  run on a lane. A session lives in memory or in a JSONL file with one line per mutation. When a
  process restarts, the reducer (\<open>harness/reducer.ts\<close>) derives from the records what a lane was
  doing. A long conversation is compacted (\<open>harness/compaction\<close>): a summary replaces its older
  part, and the context of a branch (\<open>session/context.ts\<close>) is what the provider sees. The agent loop
  (\<open>packages/agent/src/agent-loop.ts\<close>) streams a response, executes its tool calls and continues
  until no call and no queued message is left; the class \<open>Agent\<close> (\<open>agent.ts\<close>) keeps the transcript
  by reducing the events of the loop, and serves the queues the loop polls.

  \<^bold>\<open>Theories and code.\<close>
    \<^item> \<open>Prelude\<close>: results \<open>error + 'a\<close>, JavaScript's insertion-ordered \<open>Map\<close>, lists and words.
      \<open>Actions\<close>: promises as state passing, with the outcomes returned, thrown and stalled, and the
      rules of \<open>ensures\<close>.
    \<^item> \<open>JsString\<close>, \<open>JsNumber\<close>, \<open>JsFloat\<close>: the parts of the language the code uses: UTF-16 strings and
      their UTF-8 conversions, doubles as 64-bit patterns, their addition and decimal text.
      \<open>JsonText\<close>, \<open>JsonParse\<close>, \<open>JsonRoundtrip\<close>, \<open>JsonNumbers\<close>: \<open>JSON.stringify\<close> and \<open>JSON.parse\<close>.
    \<^item> \<open>CborWriter\<close>, \<open>CborEncoder\<close>, \<open>CborDecoder\<close> (\<open>protocol/src/cbor/\<close>), \<open>Framing\<close>
      (\<open>framing.ts\<close>), \<open>MessageCodec\<close> (\<open>codec.ts\<close>). The classes \<open>CborWriter\<close>, \<open>CborReader\<close>,
      \<open>FrameDecoder\<close> and \<open>ValidatedMessageDecoder\<close> are records, a method takes and returns them; values
      to encode are references into a heap, so cycles and sharing exist.
    \<^item> \<open>SessionTypes\<close> (\<open>ai/src/types.ts\<close>, \<open>session/types.ts\<close>), \<open>SessionState\<close> (\<open>state.ts\<close>),
      \<open>SessionMemory\<close> (\<open>memory.ts\<close>), \<open>Session\<close> (\<open>session.ts\<close>), \<open>SessionContext\<close> (\<open>context.ts\<close>,
      \<open>messages.ts\<close>), \<open>Reducer\<close> (\<open>reducer.ts\<close>).
    \<^item> \<open>CompactionUtils\<close>, \<open>CompactionPrompts\<close>, \<open>Compaction\<close>, \<open>CompactionRun\<close>
      (\<open>compaction/utils.ts\<close>, \<open>compaction.ts\<close>, \<open>branch-summarization.ts\<close>).
    \<^item> \<open>FileSystem\<close> (\<open>harness/types.ts\<close>, \<open>env/nodejs.ts\<close>): the interface, and its provider over a disk
      whose system calls may fail or write only a part. \<open>JsonlCodec\<close>, \<open>JsonlStorage\<close>,
      \<open>JsonlRepo\<close> (\<open>session/jsonl/\<close>).
    \<^item> \<open>AgentTypes\<close> (\<open>agent/src/types.ts\<close>), \<open>AgentLoop\<close> (\<open>agent-loop.ts\<close>), \<open>AgentClass\<close>
      (\<open>agent.ts\<close>).
    \<^item> \<open>Truncation\<close> (\<open>harness/utils/truncate.ts\<close>), \<open>ImageData\<close>, \<open>ReadTool\<close>, \<open>EditDiff\<close>, \<open>EditTool\<close>,
      \<open>MutationQueue\<close> (\<open>harness/tools/\<close>: \<open>image.ts\<close>, \<open>read.ts\<close> with \<open>path-utils.ts\<close>, \<open>edit-diff.ts\<close>,
      \<open>edit.ts\<close> with \<open>write.ts\<close>, \<open>file-mutation-queue.ts\<close>); \<open>TextDecode\<close> is the decoder of file text.
      \<open>ShellCapture\<close> (\<open>harness/utils/shell-output.ts\<close>), \<open>BashTool\<close> (\<open>harness/tools/bash.ts\<close>).
    \<^item> \<open>Transform\<close> (\<open>ai/src/api/transform-messages.ts\<close>): the history as a provider receives it.
      \<open>JsonCheck\<close>: the check of untyped payloads in \<open>session.ts\<close>, on a heap of objects.
    \<^item> \<open>CodingSession\<close>, \<open>CodingManager\<close> (\<open>coding-agent/src/core/session-manager.ts\<close>): the session files of the
      coding agent, their migrations and contexts, and the class \<open>SessionManager\<close> on a disk of such files.
    \<^item> \<open>StdinBuffer\<close> (\<open>tui/src/stdin-buffer.ts\<close>): the chunks of terminal input become sequences and pastes.

  \<^bold>\<open>Interfaces.\<close> \<open>incremental_decoder\<close> (\<open>ByteStreams\<close>) is the contract of a decoder that is fed chunks,
  provided by the frame decoder and the message decoder; \<open>session_storage\<close> (\<open>Session\<close>) is what the
  session facade relies on, provided by the in-memory storage; \<open>file_system\<close> (\<open>FileSystem\<close>) is what the
  JSONL storage relies on, provided by \<open>NodeExecutionEnv\<close>; \<open>run_relation\<close> (\<open>AgentRelations\<close>) carries a
  relation between states through the agent loop and is provided by the class \<open>Agent\<close> as event sink.

  \<^bold>\<open>What the lemmas show.\<close>
    \<^item> \<open>CborRoundtrip\<close>, \<open>CborLimits\<close>, \<open>FrameProps\<close>, \<open>MessageProps\<close>: round trips, limits, cycles,
      and the independence of decoding from the way the stream is cut into chunks.
    \<^item> \<open>SessionInvariant\<close>, \<open>SessionQueries\<close>, \<open>SessionFork\<close>, \<open>SessionProps\<close>: the invariant of a session
      state and its preservation by every mutation, the meaning of the queries, forks.
    \<^item> \<open>ReducerProps\<close>: what an accepted log guarantees and what the reduced state promises.
    \<^item> \<open>CompactionProps\<close>, \<open>BranchSummary\<close>: the partition of the history, budgets, files, and the
      agreement with the context the provider saw; \<open>CompactionDemo\<close> applies them.
    \<^item> \<open>JsonlProps\<close>, \<open>JsonlRecovery\<close>, \<open>JsonlTheorems\<close>: the file of a session holds the mutations
      that rebuild it; crashes, torn lines, atomic forks and confined paths.
    \<^item> \<open>AgentTrace\<close>, \<open>AgentRun\<close>, \<open>AgentProps\<close>: the protocol of the events of a run and the answers
      to tool calls. \<open>AgentGuards\<close>: blocked calls as non-interference. \<open>AgentContext\<close>: the context
      of the provider from the events. \<open>AgentTermination\<close>: a run settles. \<open>AgentClassProps\<close>: the
      life cycle of the agent and its transcript.
    \<^item> \<open>TruncationProps\<close>, \<open>ToolProps\<close>: the limits of truncated outputs, and that the pages of the read tool
      cover a file. \<open>EditProps\<close>, \<open>EditTool\<close>: what an edit changes and what it leaves. \<open>MutationQueue\<close>:
      calls for one file exclude each other and are served in their order. \<open>ShellProps\<close>: the kept end of
      an output says all that the whole output would.
    \<^item> \<open>TransformProps\<close>: tool calls are answered, messages readable, complete histories kept.
      \<open>JsonCheck\<close>: the walk over a payload ends and accepts exactly the JSON trees.
    \<^item> \<open>CodingTree\<close>: the tree of a session; old files keep their history. \<open>CodingInvariant\<close>: the calls of a
      session manager keep its index, its leaf and its file in step. \<open>CodingBranch\<close>, \<open>CodingProps\<close>: reopened
      files, branches that only grow, the session of one branch; \<open>CodingDemo\<close> applies them. \<open>CodingTreeView\<close>:
      the tree as it is shown. \<open>CodingTorn\<close>: what a torn line costs.
    \<^item> \<open>StdinBuffer\<close>: no input is lost by the splitting, and how it is cut into chunks does not matter.

  \<^bold>\<open>Fuel and loops.\<close> The loops of the frame decoder are partial functions, proved to return on every
  reachable decoder. The structural check of a message has fuel one above the number of heap objects;
  the JSON reader twice the length of the text and two, which its round trip shows to be enough.
  In the agent loop fuel stands for waiting: a loop without fuel has the outcome \<open>Stalled\<close>, and
  \<open>AgentTermination\<close> shows that under a budget of the environment the run settles with
  fuel linear in the budget and in the number of tool calls of a response. \<open>readPages\<close> follows the
  offsets of the read tool with the number of lines as fuel, and its property shows that it reads all.
  The walk of \<open>JsonCheck\<close> is a partial function, proved to return on every heap.

  \<^bold>\<open>Choices of the agent model.\<close> A tool, a hook, the provider and the event sink are functions of the
  environment over its own state, and may return, throw or never settle. A tool runs in steps; in a
  parallel batch a schedule of the environment picks the tool that is resumed. A progress event is handed
  to the sink at once and an error of the sink surfaces when the tool settles. A tool that never
  settles stalls the run. After an error of the sink in a parallel batch the other tools are not followed
  further. Hooks do not mutate their arguments. A continuation pushes to its own list of messages,
  while the code pushes to the array of its caller, which \<open>Agent\<close> has just copied.

  \<^bold>\<open>Not modelled.\<close> Files with 8-bit characters only stand for the JSONL files; concurrent calls of one
  JSONL repository run one after the other; error messages of the codecs are enumerations. The schemas
  of the protocol are data for the package \<open>typebox\<close>, whose checks are parameters. The event stream
  wrappers of the agent loop, the providers of \<open>packages/ai\<close>, the harness around the agent, the
  displayed diff of an edit (package \<open>diff\<close>), the client and server packages, telemetry, the SQLite backend, the
  rest of the terminal interface and the coding agent around its session manager, with the search for session files, are
  not modelled; the manifest gives the reason for each.
\<close>

end
